(* ===== verification/Resource_Cache.thy ===== *)
theory Resource_Cache
  imports Prelude
begin

text \<open>
  The bounded least-recently-used cache of \<open>apps/remote/shared/resource-cache.ts\<close>. Entries are
  kept in the order of the underlying \<open>Map\<close>: oldest use first. The optional \<open>evict\<close> callback is
  modelled by the list of values an operation evicts, in call order. Clock readings are arguments.
\<close>

record cache_limits =
  lim_entries :: int
  lim_bytes :: int
  lim_idle :: "int option"

record 'a cache_entry =
  ce_value :: 'a
  ce_bytes :: int
  ce_count :: int
  ce_used :: int

record 'a resource_cache =
  rc_entries :: "(string \<times> 'a cache_entry) list"
  rc_bytes :: int
  rc_count :: int

definition rc_empty :: "'a resource_cache" where
  "rc_empty = \<lparr>rc_entries = [], rc_bytes = 0, rc_count = 0\<rparr>"

definition rc_lookup :: "'a resource_cache \<Rightarrow> string \<Rightarrow> 'a cache_entry option" where
  "rc_lookup c = map_of (rc_entries c)"

text \<open>\<open>delete(key)\<close>: the new cache and the values passed to \<open>evict\<close>.\<close>

definition rc_delete :: "string \<Rightarrow> 'a resource_cache \<Rightarrow> 'a resource_cache \<times> 'a list" where
  "rc_delete key c = (case map_of (rc_entries c) key of
     None \<Rightarrow> (c, [])
   | Some e \<Rightarrow> (\<lparr>rc_entries = map_del key (rc_entries c), rc_bytes = rc_bytes c - ce_bytes e,
                 rc_count = rc_count c - ce_count e\<rparr>, [ce_value e]))"

text \<open>
  \<open>get(key)\<close>: \<open>t\<close> is the clock at the idle test (read only when an idle limit is set), \<open>t'\<close> the
  clock when the use is recorded.
\<close>

definition rc_get :: "cache_limits \<Rightarrow> int \<Rightarrow> int \<Rightarrow> string \<Rightarrow> 'a resource_cache
    \<Rightarrow> 'a option \<times> 'a resource_cache \<times> 'a list" where
  "rc_get lim t t' key c = (case map_of (rc_entries c) key of
     None \<Rightarrow> (None, c, [])
   | Some e \<Rightarrow>
       (if (case lim_idle lim of None \<Rightarrow> False | Some idle \<Rightarrow> t - ce_used e \<ge> idle)
        then let (c', ev) = rc_delete key c in (None, c', ev)
        else (Some (ce_value e),
              c\<lparr>rc_entries := map_put key (e\<lparr>ce_used := t'\<rparr>) (map_del key (rc_entries c))\<rparr>, [])))"

text \<open>The trimming loop of \<open>set\<close> over the keys, oldest first.\<close>

definition rc_within :: "cache_limits \<Rightarrow> 'a resource_cache \<Rightarrow> bool" where
  "rc_within lim c = (rc_count c \<le> lim_entries lim \<and> rc_bytes c \<le> lim_bytes lim)"

fun rc_trim :: "cache_limits \<Rightarrow> string list \<Rightarrow> 'a resource_cache \<Rightarrow> 'a resource_cache \<times> 'a list" where
  "rc_trim lim [] c = (c, [])"
| "rc_trim lim (oldest # keys) c =
     (if rc_within lim c then (c, [])
      else let (c', ev) = rc_delete oldest c; (c'', ev') = rc_trim lim keys c' in (c'', ev @ ev'))"

definition rc_accepts :: "cache_limits \<Rightarrow> int \<Rightarrow> int \<Rightarrow> bool" where
  "rc_accepts lim bytes count =
     (\<not> (bytes < 0 \<or> bytes > lim_bytes lim) \<and> \<not> (count < 1 \<or> count > lim_entries lim))"

definition rc_set :: "cache_limits \<Rightarrow> int \<Rightarrow> string \<Rightarrow> 'a \<Rightarrow> int \<Rightarrow> int \<Rightarrow> 'a resource_cache
    \<Rightarrow> bool \<times> 'a resource_cache \<times> 'a list" where
  "rc_set lim now key v bytes count c =
     (if \<not> rc_accepts lim bytes count then (False, c, [])
      else let (c1, ev) = rc_delete key c;
               e = \<lparr>ce_value = v, ce_bytes = bytes, ce_count = count, ce_used = now\<rparr>;
               c2 = \<lparr>rc_entries = map_put key e (rc_entries c1), rc_bytes = rc_bytes c1 + bytes,
                     rc_count = rc_count c1 + count\<rparr>;
               (c3, ev') = rc_trim lim (map fst (rc_entries c2)) c2
           in (rc_lookup c3 key \<noteq> None, c3, ev @ ev'))"

text \<open>\<open>clear()\<close> deletes every key of the map.\<close>

fun rc_delete_all :: "string list \<Rightarrow> 'a resource_cache \<Rightarrow> 'a resource_cache \<times> 'a list" where
  "rc_delete_all [] c = (c, [])"
| "rc_delete_all (k # ks) c =
     (let (c', ev) = rc_delete k c; (c'', ev') = rc_delete_all ks c' in (c'', ev @ ev'))"

definition rc_clear :: "'a resource_cache \<Rightarrow> 'a resource_cache \<times> 'a list" where
  "rc_clear c = rc_delete_all (map fst (rc_entries c)) c"

definition rc_pairs :: "'a resource_cache \<Rightarrow> (string \<times> 'a) list" where
  "rc_pairs c = map (\<lambda>(k, e). (k, ce_value e)) (rc_entries c)"

section \<open>The accounting invariant\<close>

definition entry_sum :: "('a cache_entry \<Rightarrow> int) \<Rightarrow> (string \<times> 'a cache_entry) list \<Rightarrow> int" where
  "entry_sum f es = sum_list (map (\<lambda>(k, e). f e) es)"

text \<open>
  The counters equal the sums over the entries, keys are unique, and every entry was accepted.
\<close>

definition rc_sound :: "cache_limits \<Rightarrow> 'a resource_cache \<Rightarrow> bool" where
  "rc_sound lim c = (map_ok (rc_entries c)
     \<and> rc_bytes c = entry_sum ce_bytes (rc_entries c)
     \<and> rc_count c = entry_sum ce_count (rc_entries c)
     \<and> list_all (\<lambda>(k, e). rc_accepts lim (ce_bytes e) (ce_count e)) (rc_entries c))"

text \<open>The invariant clients rely on: sound accounting and both totals within the limits.\<close>

definition rc_inv :: "cache_limits \<Rightarrow> 'a resource_cache \<Rightarrow> bool" where
  "rc_inv lim c = (rc_sound lim c \<and> rc_within lim c)"

lemma entry_sum_simps [simp]:
  "entry_sum f [] = 0"
  "entry_sum f ((k, e) # es) = f e + entry_sum f es"
  "entry_sum f (xs @ ys) = entry_sum f xs + entry_sum f ys"
  by (simp_all add: entry_sum_def)

lemma entry_sum_del:
  "map_ok es \<Longrightarrow> map_of es k = Some e \<Longrightarrow> entry_sum f (map_del k es) = entry_sum f es - f e"
proof (induction es)
  case Nil
  then show ?case by simp
next
  case (Cons p es)
  obtain j d where p: "p = (j, d)" by (cases p)
  show ?case
  proof (cases "j = k")
    case True
    with Cons.prems p have "k \<notin> fst ` set es" "d = e" by (auto simp: map_ok_def)
    then have "map_del k (p # es) = es" using p True map_del_absent[of k es]
      by (simp add: map_del_def)
    then show ?thesis using p \<open>d = e\<close> by simp
  next
    case False
    with Cons p show ?thesis by (auto simp: map_ok_def map_del_def)
  qed
qed

lemma list_all_del: "list_all P es \<Longrightarrow> list_all P (map_del k es)"
  by (auto simp: list_all_iff map_del_def)

lemma rc_sound_empty [inv_intros]: "rc_sound lim rc_empty"
  by (simp add: rc_sound_def rc_empty_def)

lemma rc_sound_delete [inv_intros]: "rc_sound lim c \<Longrightarrow> rc_sound lim (fst (rc_delete key c))"
  by (auto simp: rc_sound_def rc_delete_def entry_sum_del list_all_del split: option.splits)

lemma rc_sound_trim [inv_intros]: "rc_sound lim c \<Longrightarrow> rc_sound lim (fst (rc_trim lim keys c))"
proof (induction lim keys c rule: rc_trim.induct)
  case (1 lim c)
  then show ?case by simp
next
  case (2 lim k ks c)
  then show ?case using rc_sound_delete[of lim c k]
    by (cases "rc_delete k c") (auto simp: split_beta)
qed

lemma rc_delete_lookup [map_simps]:
  "rc_lookup (fst (rc_delete key c)) j = (if j = key then None else rc_lookup c j)"
  by (auto simp: rc_delete_def rc_lookup_def split: option.splits)

lemma rc_delete_entries: "rc_entries (fst (rc_delete key c)) = map_del key (rc_entries c)"
  by (auto simp: rc_delete_def map_of_eq_None_iff map_del_absent split: option.splits)

text \<open>
  Trimming over the keys of the entries removes the shortest prefix after which the totals are
  within the limits.
\<close>

fun drop_until :: "(int \<Rightarrow> int \<Rightarrow> bool) \<Rightarrow> (string \<times> 'a cache_entry) list
    \<Rightarrow> (string \<times> 'a cache_entry) list" where
  "drop_until ok [] = []"
| "drop_until ok (p # es) =
     (if ok (entry_sum ce_count (p # es)) (entry_sum ce_bytes (p # es)) then p # es
      else drop_until ok es)"

definition fits :: "cache_limits \<Rightarrow> int \<Rightarrow> int \<Rightarrow> bool" where
  "fits lim count bytes = (count \<le> lim_entries lim \<and> bytes \<le> lim_bytes lim)"

lemma rc_within_fits: "rc_within lim c = fits lim (rc_count c) (rc_bytes c)"
  by (simp add: rc_within_def fits_def)

lemma rc_trim_entries:
  assumes "rc_sound lim c" "keys = map fst (rc_entries c)"
  shows "rc_entries (fst (rc_trim lim keys c)) = drop_until (fits lim) (rc_entries c)"
  using assms
proof (induction keys arbitrary: c)
  case Nil
  then show ?case by simp
next
  case (Cons k ks)
  then obtain e es where es: "rc_entries c = (k, e) # es" and ks: "ks = map fst es"
    by (cases "rc_entries c") auto
  have sums: "rc_count c = entry_sum ce_count ((k, e) # es)" "rc_bytes c = entry_sum ce_bytes ((k, e) # es)"
    using Cons.prems(1) es by (auto simp: rc_sound_def)
  show ?case
  proof (cases "rc_within lim c")
    case True
    with sums es show ?thesis by (simp add: rc_within_fits)
  next
    case False
    let ?c = "fst (rc_delete k c)"
    have fresh: "k \<notin> fst ` set es" using Cons.prems(1) es by (auto simp: rc_sound_def map_ok_def)
    have "rc_entries ?c = es"
      using fresh es map_del_absent[of k es] by (simp add: rc_delete_entries map_del_def)
    moreover have "rc_sound lim ?c" using Cons.prems(1) by (rule rc_sound_delete)
    ultimately have "rc_entries (fst (rc_trim lim ks ?c)) = drop_until (fits lim) es"
      using Cons.IH[of ?c] ks by simp
    with False sums es show ?thesis by (simp add: rc_within_fits split_beta)
  qed
qed

lemma drop_until_suffix: "suffix (drop_until ok es) es"
  by (induction ok es rule: drop_until.induct) (auto intro: suffix_ConsI)

lemma drop_until_ok:
  "drop_until ok es = [] \<or> ok (entry_sum ce_count (drop_until ok es)) (entry_sum ce_bytes (drop_until ok es))"
  by (induction ok es rule: drop_until.induct) auto

lemma drop_until_last:
  "ok (ce_count e) (ce_bytes e) \<Longrightarrow> \<exists>es'. drop_until ok (es @ [(k, e)]) = es' @ [(k, e)]"
  by (induction es) auto

text \<open>The result is the longest suffix within the limits.\<close>

lemma drop_until_longest:
  "suffix ds es \<Longrightarrow> ds \<noteq> [] \<Longrightarrow> ok (entry_sum ce_count ds) (entry_sum ce_bytes ds)
   \<Longrightarrow> suffix ds (drop_until ok es)"
proof (induction ok es rule: drop_until.induct)
  case (1 ok)
  then show ?case by simp
next
  case (2 ok p es)
  show ?case
  proof (cases "ds = p # es")
    case True
    with 2 show ?thesis by simp
  next
    case False
    with 2 show ?thesis by (auto simp: suffix_Cons)
  qed
qed

lemma rc_set_accept:
  assumes "rc_sound lim c" "rc_accepts lim bytes count"
  shows "fst (rc_set lim now key v bytes count c)"
    and "rc_entries (fst (snd (rc_set lim now key v bytes count c)))
       = drop_until (fits lim) (map_del key (rc_entries c)
           @ [(key, \<lparr>ce_value = v, ce_bytes = bytes, ce_count = count, ce_used = now\<rparr>)])"
    and "rc_sound lim (fst (snd (rc_set lim now key v bytes count c)))"
    and "rc_lookup (fst (snd (rc_set lim now key v bytes count c))) key
       = Some \<lparr>ce_value = v, ce_bytes = bytes, ce_count = count, ce_used = now\<rparr>"
proof -
  let ?e = "\<lparr>ce_value = v, ce_bytes = bytes, ce_count = count, ce_used = now\<rparr>"
  obtain c1 ev where d: "rc_delete key c = (c1, ev)" by (cases "rc_delete key c")
  let ?c2 = "\<lparr>rc_entries = map_put key ?e (rc_entries c1), rc_bytes = rc_bytes c1 + bytes,
              rc_count = rc_count c1 + count\<rparr>"
  have s1: "rc_sound lim c1" using rc_sound_delete[OF assms(1), of key] d by simp
  have e1: "rc_entries c1 = map_del key (rc_entries c)" using rc_delete_entries[of key c] d by simp
  then have put: "map_put key ?e (rc_entries c1) = rc_entries c1 @ [(key, ?e)]"
    by (intro map_put_new) simp
  have s2: "rc_sound lim ?c2"
    using s1 assms(2) map_ok_put[of "rc_entries c1" key ?e] by (auto simp: rc_sound_def put)
  let ?c3 = "fst (rc_trim lim (map fst (rc_entries ?c2)) ?c2)"
  have e3: "rc_entries ?c3 = drop_until (fits lim) (rc_entries ?c2)"
    using s2 by (rule rc_trim_entries) simp
  have s3: "rc_sound lim ?c3" using s2 by (rule rc_sound_trim)
  have "fits lim count bytes" using assms(2) by (auto simp: rc_accepts_def fits_def)
  then obtain es' where es': "rc_entries ?c3 = es' @ [(key, ?e)]"
    using drop_until_last[of "fits lim" ?e "rc_entries c1" key] e3 put by auto
  have "distinct (map fst (rc_entries ?c3))" using s3 by (simp add: rc_sound_def map_ok_def)
  moreover have "(key, ?e) \<in> set (rc_entries ?c3)" using es' by simp
  ultimately have look: "rc_lookup ?c3 key = Some ?e"
    unfolding rc_lookup_def by (rule map_of_is_SomeI)
  have set_eq: "fst (snd (rc_set lim now key v bytes count c)) = ?c3"
    "fst (rc_set lim now key v bytes count c) = (rc_lookup ?c3 key \<noteq> None)"
    using assms(2) d by (auto simp: rc_set_def Let_def split_beta)
  show "fst (rc_set lim now key v bytes count c)" using set_eq look by simp
  show "rc_entries (fst (snd (rc_set lim now key v bytes count c)))
       = drop_until (fits lim) (map_del key (rc_entries c) @ [(key, ?e)])"
    using set_eq e3 put e1 by simp
  show "rc_sound lim (fst (snd (rc_set lim now key v bytes count c)))" using set_eq s3 by simp
  show "rc_lookup (fst (snd (rc_set lim now key v bytes count c))) key = Some ?e"
    using set_eq look by simp
qed


section \<open>Every operation keeps the invariant\<close>

lemma rc_within_sound: "rc_sound lim c \<Longrightarrow>
    rc_within lim c = fits lim (entry_sum ce_count (rc_entries c)) (entry_sum ce_bytes (rc_entries c))"
  by (simp add: rc_within_fits rc_sound_def)

lemma entry_sum_nonneg: "list_all (\<lambda>(k, e). rc_accepts lim (ce_bytes e) (ce_count e)) es \<Longrightarrow>
    0 \<le> entry_sum ce_bytes es \<and> 0 \<le> entry_sum ce_count es"
  by (induction es) (auto simp: rc_accepts_def)

lemma rc_delete_le:
  "rc_sound lim c \<Longrightarrow> rc_bytes (fst (rc_delete k c)) \<le> rc_bytes c \<and> rc_count (fst (rc_delete k c)) \<le> rc_count c"
  by (auto simp: rc_delete_def rc_sound_def rc_accepts_def list_all_iff split: option.splits
      dest!: map_of_SomeD)

lemma rc_inv_delete [inv_intros]: "rc_inv lim c \<Longrightarrow> rc_inv lim (fst (rc_delete k c))"
  using rc_delete_le[of lim c k] rc_sound_delete[of lim c k] by (auto simp: rc_inv_def rc_within_def)

lemma rc_inv_empty [inv_intros]: "0 \<le> lim_entries lim \<Longrightarrow> 0 \<le> lim_bytes lim \<Longrightarrow> rc_inv lim rc_empty"
  by (auto simp: rc_inv_def rc_within_def rc_empty_def rc_sound_def)

lemma rc_inv_set [inv_intros]:
  assumes "rc_inv lim c" shows "rc_inv lim (fst (snd (rc_set lim now k v b n c)))"
proof (cases "rc_accepts lim b n")
  case False
  with assms show ?thesis by (simp add: rc_set_def)
next
  case True
  let ?c = "fst (snd (rc_set lim now k v b n c))"
  have snd: "rc_sound lim c" using assms by (simp add: rc_inv_def)
  note acc = rc_set_accept[OF snd True, of now k v]
  have "rc_entries ?c \<noteq> []" using acc(4) by (auto simp: rc_lookup_def)
  then have "fits lim (entry_sum ce_count (rc_entries ?c)) (entry_sum ce_bytes (rc_entries ?c))"
    using drop_until_ok[of "fits lim"] acc(2) by metis
  with acc(3) show ?thesis by (simp add: rc_inv_def rc_within_sound)
qed

lemma entry_sum_map_snd:
  "(\<And>e. f (g e) = f e) \<Longrightarrow> entry_sum f (map (\<lambda>(k, e). (k, g e)) es) = entry_sum f es"
  by (induction es) auto

lemma rc_get_hit:
  assumes "rc_sound lim c" "map_of (rc_entries c) k = Some e"
    "\<not> (case lim_idle lim of None \<Rightarrow> False | Some idle \<Rightarrow> t - ce_used e \<ge> idle)"
  shows "rc_get lim t t' k c = (Some (ce_value e),
           c\<lparr>rc_entries := map_del k (rc_entries c) @ [(k, e\<lparr>ce_used := t'\<rparr>)]\<rparr>, [])"
  using assms by (simp add: rc_get_def map_put_new)

lemma rc_get_miss:
  "map_of (rc_entries c) k = None \<Longrightarrow> rc_get lim t t' k c = (None, c, [])"
  by (simp add: rc_get_def)

lemma rc_get_expired:
  assumes "map_of (rc_entries c) k = Some e" "lim_idle lim = Some idle" "t - ce_used e \<ge> idle"
  shows "fst (rc_get lim t t' k c) = None" "fst (snd (rc_get lim t t' k c)) = fst (rc_delete k c)"
  using assms by (simp_all add: rc_get_def split_beta)

text \<open>One case analysis for \<open>get\<close>, used by every proof about it.\<close>

lemma rc_get_cases:
  assumes "rc_sound lim c"
  obtains (miss) "rc_get lim t t' k c = (None, c, [])" "rc_lookup c k = None"
  | (expired) ev e where "rc_get lim t t' k c = (None, fst (rc_delete k c), ev)"
      "rc_lookup c k = Some e" "lim_idle lim \<noteq> None"
  | (hit) e where "rc_lookup c k = Some e" "rc_get lim t t' k c = (Some (ce_value e),
      c\<lparr>rc_entries := map_del k (rc_entries c) @ [(k, e\<lparr>ce_used := t'\<rparr>)]\<rparr>, [])"
proof (cases "map_of (rc_entries c) k")
  case None
  then show ?thesis using miss rc_get_miss[of c k lim t t'] by (simp add: rc_lookup_def)
next
  case (Some e)
  show ?thesis
  proof (cases "case lim_idle lim of None \<Rightarrow> False | Some idle \<Rightarrow> t - ce_used e \<ge> idle")
    case True
    then obtain idle where idle: "lim_idle lim = Some idle" "t - ce_used e \<ge> idle"
      by (auto split: option.splits)
    then obtain ev where "rc_get lim t t' k c = (None, fst (rc_delete k c), ev)"
      using rc_get_expired[OF Some idle, of t'] by (cases "rc_get lim t t' k c") auto
    then show ?thesis using expired Some idle by (simp add: rc_lookup_def)
  next
    case False
    then show ?thesis using hit[of e] rc_get_hit[OF assms Some False, of t'] Some
      by (simp add: rc_lookup_def)
  qed
qed

lemma rc_touch_sound:
  assumes "rc_sound lim c" "rc_lookup c k = Some e"
  shows "rc_sound lim (c\<lparr>rc_entries := map_del k (rc_entries c) @ [(k, e\<lparr>ce_used := t\<rparr>)]\<rparr>)"
proof -
  have m: "map_of (rc_entries c) k = Some e" using assms(2) by (simp add: rc_lookup_def)
  then have "(k, e) \<in> set (rc_entries c)" by (rule map_of_SomeD)
  moreover have "list_all (\<lambda>(k, e). rc_accepts lim (ce_bytes e) (ce_count e)) (map_del k (rc_entries c))"
    using assms(1) by (auto simp: rc_sound_def intro: list_all_del)
  ultimately show ?thesis using assms(1) m map_ok_del[of "rc_entries c" k]
    by (auto simp: rc_sound_def entry_sum_del list_all_iff map_ok_def)
qed

lemma rc_inv_get [inv_intros]:
  assumes "rc_inv lim c" shows "rc_inv lim (fst (snd (rc_get lim t t' k c)))"
proof -
  have s: "rc_sound lim c" using assms by (simp add: rc_inv_def)
  from s show ?thesis
  proof (cases rule: rc_get_cases[of lim c t t' k])
    case miss
    with assms show ?thesis by simp
  next
    case (expired ev e)
    with rc_inv_delete[OF assms, of k] show ?thesis by simp
  next
    case (hit e)
    with rc_touch_sound[OF s hit(1), of t'] assms show ?thesis by (simp add: rc_inv_def rc_within_def)
  qed
qed

lemma rc_touch_lookup:
  "rc_lookup c k = Some e \<Longrightarrow>
   map_option ce_value (rc_lookup (c\<lparr>rc_entries := map_del k (rc_entries c) @ [(k, e\<lparr>ce_used := t\<rparr>)]\<rparr>) j)
   = map_option ce_value (rc_lookup c j)"
  by (simp add: rc_lookup_def map_add_def split: option.splits)

lemma rc_get_lookup [map_simps]:
  assumes "rc_inv lim c"
  shows "fst (rc_get lim t t' k c) = None \<or> fst (rc_get lim t t' k c) = map_option ce_value (rc_lookup c k)"
    and "lim_idle lim = None \<Longrightarrow> fst (rc_get lim t t' k c) = map_option ce_value (rc_lookup c k)"
    and "map_option ce_value (rc_lookup (fst (snd (rc_get lim t t' k c))) j) \<in>
           {None, map_option ce_value (rc_lookup c j)}"
    and "lim_idle lim = None \<Longrightarrow> map_option ce_value (rc_lookup (fst (snd (rc_get lim t t' k c))) j)
           = map_option ce_value (rc_lookup c j)"
proof -
  have s: "rc_sound lim c" using assms by (simp add: rc_inv_def)
  show "fst (rc_get lim t t' k c) = None \<or> fst (rc_get lim t t' k c) = map_option ce_value (rc_lookup c k)"
    using s by (cases rule: rc_get_cases[of lim c t t' k]) auto
  show "lim_idle lim = None \<Longrightarrow> fst (rc_get lim t t' k c) = map_option ce_value (rc_lookup c k)"
    using s by (cases rule: rc_get_cases[of lim c t t' k]) auto
  show "map_option ce_value (rc_lookup (fst (snd (rc_get lim t t' k c))) j) \<in>
           {None, map_option ce_value (rc_lookup c j)}"
    using s by (cases rule: rc_get_cases[of lim c t t' k])
      (auto simp: rc_delete_lookup rc_touch_lookup)
  show "lim_idle lim = None \<Longrightarrow> map_option ce_value (rc_lookup (fst (snd (rc_get lim t t' k c))) j)
           = map_option ce_value (rc_lookup c j)"
    using s by (cases rule: rc_get_cases[of lim c t t' k])
      (auto simp: rc_delete_lookup rc_touch_lookup)
qed

lemma map_of_suffix:
  "suffix ds es \<Longrightarrow> distinct (map fst es) \<Longrightarrow> map_of ds k = None \<or> map_of ds k = map_of es k"
  by (auto simp: suffix_def map_add_def dom_map_of_conv_image_fst map_of_eq_None_iff split: option.splits
      dest!: map_of_SomeD intro: rev_image_eqI) (metis IntI empty_iff fst_conv rev_image_eqI)

lemma rc_set_other [map_simps]:
  assumes "rc_inv lim c" "j \<noteq> k"
  shows "rc_lookup (fst (snd (rc_set lim now k v b n c))) j \<in> {None, rc_lookup c j}"
proof (cases "rc_accepts lim b n")
  case False
  then show ?thesis by (simp add: rc_set_def)
next
  case True
  have s: "rc_sound lim c" using assms(1) by (simp add: rc_inv_def)
  let ?e = "\<lparr>ce_value = v, ce_bytes = b, ce_count = n, ce_used = now\<rparr>"
  let ?es = "map_del k (rc_entries c) @ [(k, ?e)]"
  have "distinct (map fst ?es)"
    using map_ok_del[of "rc_entries c" k] s by (auto simp: rc_sound_def map_ok_def)
  then have "map_of (drop_until (fits lim) ?es) j \<in> {None, map_of ?es j}"
    using map_of_suffix[OF drop_until_suffix] by blast
  moreover have "map_of ?es j = map_of (rc_entries c) j"
    using assms(2) by (simp add: map_add_def split: option.splits)
  ultimately show ?thesis
    using rc_set_accept(2)[OF s True, of now k v] by (simp add: rc_lookup_def)
qed

lemma rc_inv_delete_all: "rc_inv lim c \<Longrightarrow> rc_inv lim (fst (rc_delete_all ks c))"
proof (induction ks c rule: rc_delete_all.induct)
  case (1 c)
  then show ?case by simp
next
  case (2 k ks c)
  then show ?case using rc_inv_delete[of lim c k] by (cases "rc_delete k c") (auto simp: split_beta)
qed

lemma rc_delete_all_entries:
  "rc_entries (fst (rc_delete_all ks c)) = filter (\<lambda>p. fst p \<notin> set ks) (rc_entries c)"
proof (induction ks c rule: rc_delete_all.induct)
  case (1 c)
  then show ?case by simp
next
  case (2 k ks c)
  have "rc_entries (fst (rc_delete_all ks (fst (rc_delete k c)))) =
        filter (\<lambda>p. fst p \<notin> set ks) (map_del k (rc_entries c))"
    using 2 by (cases "rc_delete k c") (auto simp: rc_delete_entries[symmetric])
  then show ?case by (simp add: split_beta map_del_def conj_commute)
qed

section \<open>The contract of a bounded store, and its clients' lemmas\<close>

text \<open>
  What the cache promises its clients (the reconcile publisher and replica, the client cache): a
  stored value is found again unless it was evicted, forgotten or expired, and no operation ever
  makes a different value appear.
\<close>

datatype 'v store_op = OpGet int string | OpPut int string 'v int int | OpForget string

locale resource_store =
  fixes empty :: "'c"
    and inv :: "'c \<Rightarrow> bool"
    and lookup :: "'c \<Rightarrow> string \<Rightarrow> 'v option"
    and get :: "int \<Rightarrow> string \<Rightarrow> 'c \<Rightarrow> 'v option \<times> 'c"
    and accepts :: "int \<Rightarrow> int \<Rightarrow> bool"
    and store :: "int \<Rightarrow> string \<Rightarrow> 'v \<Rightarrow> int \<Rightarrow> int \<Rightarrow> 'c \<Rightarrow> 'c"
    and forget :: "string \<Rightarrow> 'c \<Rightarrow> 'c"
  assumes inv_empty: "inv empty"
    and lookup_empty: "lookup empty k = None"
    and inv_get: "inv c \<Longrightarrow> inv (snd (get t k c))"
    and get_value: "inv c \<Longrightarrow> fst (get t k c) \<in> {None, lookup c k}"
    and get_keeps: "inv c \<Longrightarrow> lookup (snd (get t k c)) j \<in> {None, lookup c j}"
    and inv_store: "inv c \<Longrightarrow> inv (store t k v b n c)"
    and store_same: "inv c \<Longrightarrow> accepts b n \<Longrightarrow> lookup (store t k v b n c) k = Some v"
    and store_other: "inv c \<Longrightarrow> j \<noteq> k \<Longrightarrow> lookup (store t k v b n c) j \<in> {None, lookup c j}"
    and store_reject: "\<not> accepts b n \<Longrightarrow> store t k v b n c = c"
    and inv_forget: "inv c \<Longrightarrow> inv (forget k c)"
    and forget_lookup: "inv c \<Longrightarrow> lookup (forget k c) j = (if j = k then None else lookup c j)"
begin

fun step :: "'c \<Rightarrow> 'v store_op \<Rightarrow> 'c" where
  "step c (OpGet t k) = snd (get t k c)"
| "step c (OpPut t k v b n) = store t k v b n c"
| "step c (OpForget k) = forget k c"

text \<open>The value the last accepted \<open>OpPut\<close> of a key gave it, if no \<open>OpForget\<close> came after.\<close>

fun newest :: "'v option \<Rightarrow> string \<Rightarrow> 'v store_op list \<Rightarrow> 'v option" where
  "newest x k [] = x"
| "newest x k (OpGet t j # ops) = newest x k ops"
| "newest x k (OpPut t j v b n # ops) = newest (if j = k \<and> accepts b n then Some v else x) k ops"
| "newest x k (OpForget j # ops) = newest (if j = k then None else x) k ops"

lemma inv_step: "inv c \<Longrightarrow> inv (step c op)"
  by (cases op) (auto intro: inv_get inv_store inv_forget)

lemma inv_run: "inv c \<Longrightarrow> inv (foldl step c ops)"
  by (induction ops arbitrary: c) (auto intro: inv_step)

lemma step_lookup:
  "inv c \<Longrightarrow> lookup c k \<in> {None, x} \<Longrightarrow> lookup (step c op) k \<in> {None, newest x k [op]}"
proof (cases op)
  case (OpPut t j v b n)
  assume "inv c" "lookup c k \<in> {None, x}"
  then show ?thesis using OpPut store_same[of c b n t j v] store_other[of c k j t v b n] store_reject[of b n t j v c]
    by (cases "j = k"; cases "accepts b n") auto
next
  case (OpGet t j)
  assume "inv c" "lookup c k \<in> {None, x}"
  then show ?thesis using OpGet get_keeps[of c t j k] by auto
next
  case (OpForget j)
  assume "inv c" "lookup c k \<in> {None, x}"
  then show ?thesis using OpForget forget_lookup[of c j k] by auto
qed

text \<open>A run never shows a value other than the newest one.\<close>

lemma coherent_from:
  "inv c \<Longrightarrow> lookup c k \<in> {None, x} \<Longrightarrow> lookup (foldl step c ops) k \<in> {None, newest x k ops}"
proof (induction ops arbitrary: c x)
  case Nil
  then show ?case by simp
next
  case (Cons op ops)
  have "lookup (step c op) k \<in> {None, newest x k [op]}" using Cons.prems by (rule step_lookup)
  then have "lookup (foldl step (step c op) ops) k \<in> {None, newest (newest x k [op]) k ops}"
    using Cons.IH inv_step[OF Cons.prems(1)] by blast
  then show ?case by (cases op) auto
qed

lemma coherent:
  "fst (get t k (foldl step empty ops)) \<in> {None, newest None k ops}"
proof -
  have "lookup (foldl step empty ops) k \<in> {None, newest None k ops}"
    using inv_empty lookup_empty by (intro coherent_from) auto
  then show ?thesis using get_value[OF inv_run[OF inv_empty], of t k ops] by auto
qed

end

text \<open>A store without an idle limit also never loses a value on a read.\<close>

locale steady_store = resource_store +
  assumes get_exact: "inv c \<Longrightarrow> fst (get t k c) = lookup c k"
    and get_lookup: "inv c \<Longrightarrow> lookup (snd (get t k c)) j = lookup c j"
begin

lemma store_then_get:
  "inv c \<Longrightarrow> accepts b n \<Longrightarrow> fst (get t' k (store t k v b n c)) = Some v"
  using get_exact[OF inv_store] store_same by simp

lemma get_get: "inv c \<Longrightarrow> fst (get t' j (snd (get t k c))) = fst (get t' j c)"
  by (simp add: get_exact get_lookup inv_get)

end

definition rc_value :: "'a resource_cache \<Rightarrow> string \<Rightarrow> 'a option" where
  "rc_value c k = map_option ce_value (rc_lookup c k)"

abbreviation "rc_read lim t k c \<equiv> (fst (rc_get lim t t k c), fst (snd (rc_get lim t t k c)))"
abbreviation "rc_store lim t k v b n c \<equiv> fst (snd (rc_set lim t k v b n c))"
abbreviation "rc_forget k c \<equiv> fst (rc_delete k c)"

definition positive_limits :: "int \<Rightarrow> int \<Rightarrow> int option \<Rightarrow> cache_limits" where
  "positive_limits n b idle = \<lparr>lim_entries = max 0 n, lim_bytes = max 0 b, lim_idle = idle\<rparr>"

lemma rc_empty_lookup [simp]: "rc_lookup rc_empty k = None"
  by (simp add: rc_lookup_def rc_empty_def)

lemma rc_store_reject: "\<not> rc_accepts lim b n \<Longrightarrow> rc_store lim t k v b n c = c"
  by (simp add: rc_set_def)

lemma rc_store_same:
  "rc_inv lim c \<Longrightarrow> rc_accepts lim b n \<Longrightarrow> rc_value (rc_store lim t k v b n c) k = Some v"
  using rc_set_accept(4)[of lim c b n t k v] by (simp add: rc_inv_def rc_value_def)

lemma rc_value_set_other:
  "rc_inv lim c \<Longrightarrow> j \<noteq> k \<Longrightarrow> rc_value (rc_store lim t k v b n c) j \<in> {None, rc_value c j}"
  using rc_set_other[of lim c j k t v b n] by (auto simp: rc_value_def)

lemma rc_get_value: "rc_inv lim c \<Longrightarrow> fst (rc_get lim t t' k c) \<in> {None, rc_value c k}"
  using rc_get_lookup(1)[of lim c t t' k] by (auto simp: rc_value_def)

interpretation cache: resource_store rc_empty "rc_inv (positive_limits n b idle)" rc_value
  "rc_read (positive_limits n b idle)" "rc_accepts (positive_limits n b idle)"
  "rc_store (positive_limits n b idle)" rc_forget
  for n b idle
proof (unfold_locales, goal_cases)
  case 1
  show ?case by (rule rc_inv_empty) (simp_all add: positive_limits_def)
next
  case (2 k)
  show ?case by (simp add: rc_value_def)
next
  case (3 c t k)
  then show ?case by (simp add: rc_inv_get)
next
  case (4 c t k)
  then show ?case using rc_get_value by simp
next
  case (5 c t k j)
  then show ?case using rc_get_lookup(3) by (simp add: rc_value_def)
next
  case (6 c t k v m cnt)
  then show ?case by (rule rc_inv_set)
next
  case (7 c m cnt t k v)
  then show ?case by (rule rc_store_same)
next
  case (8 c j k t v m cnt)
  then show ?case by (rule rc_value_set_other)
next
  case (9 m cnt t k v c)
  then show ?case by (rule rc_store_reject)
next
  case (10 c k)
  then show ?case by (rule rc_inv_delete)
next
  case (11 c k j)
  then show ?case by (simp add: rc_delete_lookup rc_value_def)
qed

interpretation steady: steady_store rc_empty "rc_inv (positive_limits n b None)" rc_value
  "rc_read (positive_limits n b None)" "rc_accepts (positive_limits n b None)"
  "rc_store (positive_limits n b None)" rc_forget
  for n b
proof (unfold_locales, goal_cases)
  case (1 c t k)
  then show ?case by (simp add: rc_get_lookup(2) positive_limits_def rc_value_def)
next
  case (2 c t k j)
  then show ?case by (simp add: rc_get_lookup(4) positive_limits_def rc_value_def)
qed

section \<open>Properties\<close>

text \<open>Runs of the cache, and the value the last accepted write of a key gave it.\<close>

fun rc_step :: "cache_limits \<Rightarrow> 'v resource_cache \<Rightarrow> 'v store_op \<Rightarrow> 'v resource_cache" where
  "rc_step lim c (OpGet t k) = fst (snd (rc_get lim t t k c))"
| "rc_step lim c (OpPut t k v b n) = fst (snd (rc_set lim t k v b n c))"
| "rc_step lim c (OpForget k) = fst (rc_delete k c)"

fun last_put :: "cache_limits \<Rightarrow> 'v option \<Rightarrow> string \<Rightarrow> 'v store_op list \<Rightarrow> 'v option" where
  "last_put lim x k [] = x"
| "last_put lim x k (OpGet t j # ops) = last_put lim x k ops"
| "last_put lim x k (OpPut t j v b n # ops) = last_put lim (if j = k \<and> rc_accepts lim b n then Some v else x) k ops"
| "last_put lim x k (OpForget j # ops) = last_put lim (if j = k then None else x) k ops"

lemma rc_step_is_step: "rc_step (positive_limits n b idle) c op = cache.step n b idle c op"
  by (cases op) simp_all

lemma last_put_is_newest: "last_put (positive_limits n b idle) x k ops = cache.newest n b idle x k ops"
  by (induction ops arbitrary: x rule: cache.newest.induct) simp_all

lemma limits_positive: "0 \<le> lim_entries lim \<Longrightarrow> 0 \<le> lim_bytes lim \<Longrightarrow>
    lim = positive_limits (lim_entries lim) (lim_bytes lim) (lim_idle lim)"
  by (simp add: positive_limits_def)

lemma rc_run_is_run: "foldl (rc_step (positive_limits n b idle)) c ops = foldl (cache.step n b idle) c ops"
  by (induction ops arbitrary: c) (simp_all add: rc_step_is_step)

text \<open>C36: An accepted \<open>set\<close> returns true, stores the value as the newest entry, and keeps the longest
  run of newest entries whose totals are within both limits: whatever it drops could not have been
  kept, and the oldest go first.\<close>

theorem set_keeps_longest_suffix:
  assumes "rc_sound lim c" "rc_accepts lim bytes count"
    and "rc_set lim now key v bytes count c = (stored, c', evicted)"
  defines "new \<equiv> (key, \<lparr>ce_value = v, ce_bytes = bytes, ce_count = count, ce_used = now\<rparr>)"
  shows "stored \<and> rc_lookup c' key = Some (snd new)
    \<and> suffix (rc_entries c') (map_del key (rc_entries c) @ [new])
    \<and> rc_inv lim c'
    \<and> (\<forall>es. suffix es (map_del key (rc_entries c) @ [new]) \<longrightarrow> es \<noteq> []
         \<longrightarrow> fits lim (entry_sum ce_count es) (entry_sum ce_bytes es) \<longrightarrow> suffix es (rc_entries c'))"
proof -
  note a = rc_set_accept[OF assms(1,2), of now key v, unfolded assms(3) fst_conv snd_conv, folded new_def]
  have l: "rc_lookup c' key = Some (snd new)" using a(4) by (simp add: new_def)
  then have "rc_entries c' \<noteq> []" by (auto simp: rc_lookup_def)
  then have "rc_within lim c'"
    using drop_until_ok[of "fits lim" "map_del key (rc_entries c) @ [new]"] a(2,3) rc_within_sound by metis
  then have inv: "rc_inv lim c'" using a(3) by (simp add: rc_inv_def)
  let ?all = "map_del key (rc_entries c) @ [new]"
  have "suffix (rc_entries c') ?all" unfolding a(2) by (rule drop_until_suffix)
  moreover have "\<forall>es. suffix es ?all \<longrightarrow> es \<noteq> []
         \<longrightarrow> fits lim (entry_sum ce_count es) (entry_sum ce_bytes es) \<longrightarrow> suffix es (rc_entries c')"
    unfolding a(2) using drop_until_longest[of _ ?all "fits lim"] by blast
  ultimately show ?thesis using a(1) l inv by blast
qed

definition sample_cache :: "string resource_cache" where
  "sample_cache = rc_store (positive_limits 2 100 None) 1 ''b'' ''B'' 30 1
     (rc_store (positive_limits 2 100 None) 0 ''a'' ''A'' 30 1 rc_empty)"

lemma sample_cache_sound: "rc_sound (positive_limits 2 100 None) sample_cache"
proof -
  have "rc_inv (positive_limits 2 100 None) sample_cache"
    unfolding sample_cache_def by (intro cache.inv_store cache.inv_empty)
  then show ?thesis by (simp add: rc_inv_def)
qed

lemma set_keeps_longest_suffix_witness:
  "\<exists>c'. rc_set (positive_limits 2 100 None) 2 ''c'' ''C'' 80 1 sample_cache = (True, c', [''A'', ''B''])
     \<and> rc_inv (positive_limits 2 100 None) c' \<and> map fst (rc_entries c') = [''c'']"
proof -
  have acc: "rc_accepts (positive_limits 2 100 None) 80 1" by (simp add: rc_accepts_def positive_limits_def)
  obtain s c' ev where r: "rc_set (positive_limits 2 100 None) 2 ''c'' ''C'' 80 1 sample_cache = (s, c', ev)"
    by (metis prod.collapse)
  have "snd (snd (rc_set (positive_limits 2 100 None) 2 ''c'' ''C'' 80 1 sample_cache)) = [''A'', ''B'']"
    "map fst (rc_entries (fst (snd (rc_set (positive_limits 2 100 None) 2 ''c'' ''C'' 80 1 sample_cache)))) = [''c'']"
    by code_simp+
  then show ?thesis using set_keeps_longest_suffix[OF sample_cache_sound acc r] r by simp
qed

text \<open>In every run of gets, sets and deletes from the empty cache, a get returns nothing or the value
  of the last accepted set of that key, never a stale or a foreign one; and after every run the
  counters equal the sums over the entries and are within both limits.\<close>

theorem cache_coherent:
  assumes "0 \<le> lim_entries lim" "0 \<le> lim_bytes lim"
  shows "fst (rc_get lim t t k (foldl (rc_step lim) rc_empty ops)) \<in> {None, last_put lim None k ops}
    \<and> rc_inv lim (foldl (rc_step lim) rc_empty ops)"
proof -
  obtain n b idle where lim: "lim = positive_limits n b idle" using limits_positive[OF assms] by blast
  show ?thesis
    using cache.coherent[of n b idle t k ops] cache.inv_run[OF cache.inv_empty, of n b idle ops]
    by (simp add: lim rc_run_is_run last_put_is_newest)
qed

lemma cache_coherent_witness:
  "fst (rc_get (positive_limits 2 100 (Some 50)) 9 9 ''a''
      (foldl (rc_step (positive_limits 2 100 (Some 50))) rc_empty [OpPut 1 ''a'' ''x'' 10 1, OpPut 2 ''a'' ''y'' 10 1]))
   \<in> {None, Some ''y''}"
  using cache_coherent[of "positive_limits 2 100 (Some 50)" 9 "''a''" "[OpPut 1 ''a'' ''x'' 10 1, OpPut 2 ''a'' ''y'' 10 1]"]
  by (simp add: positive_limits_def rc_accepts_def)

text \<open>Deleting keys one by one removes exactly those entries; \<open>clear\<close> leaves no entry and both counters
  zero.\<close>

theorem clear_empties:
  assumes "rc_inv lim c"
  shows "fst (rc_clear c) = rc_empty"
proof -
  have "rc_entries (fst (rc_clear c)) = []"
    by (auto simp: rc_clear_def rc_delete_all_entries filter_empty_conv)
  moreover have "rc_sound lim (fst (rc_clear c))"
    using rc_inv_delete_all[OF assms] by (simp add: rc_clear_def rc_inv_def)
  ultimately show ?thesis by (cases "fst (rc_clear c)") (simp add: rc_sound_def rc_empty_def)
qed

lemma clear_empties_witness: "fst (rc_clear sample_cache) = rc_empty \<and> sample_cache \<noteq> rc_empty"
proof -
  have "rc_inv (positive_limits 2 100 None) sample_cache"
    unfolding sample_cache_def by (intro cache.inv_store cache.inv_empty)
  moreover have "map fst (rc_entries sample_cache) = [''a'', ''b'']" by code_simp
  moreover have "map fst (rc_entries (rc_empty :: string resource_cache)) = []" by (simp add: rc_empty_def)
  ultimately show ?thesis using clear_empties[of "positive_limits 2 100 None" sample_cache] by force
qed

end
