(* ===== verification/Js_Values.thy ===== *)
theory Js_Values
  imports Prelude "HOL-Library.List_Lexorder" "HOL-Library.Char_ord"
begin

text \<open>
  JavaScript values as the program's boundary code sees them: the result of \<open>JSON.parse\<close>, a wire
  frame, a stored document. An object is its list of own fields with keys in ascending code-unit
  order; the enumeration order of an object is never observed by the code modelled on this type
  other than through a canonical (key-sorted) serialisation. A number is an integer or, for a
  finite number that is not a (safe) integer, its ECMAScript text; negative zero is the integer
  0. \<open>JUndef\<close> stands for \<open>undefined\<close>, a function or a symbol; a missing field reads as \<open>JUndef\<close>.
\<close>

datatype jnum = NInt int | NDec string | NInf bool

datatype js = JUndef | JNull | JBool bool | JNum jnum | JStr string
  | JArr "js list" | JObj "(string \<times> js) list"

type_synonym obj = "(string \<times> js) list"

section \<open>Type tests and reads\<close>

definition is_object :: "js \<Rightarrow> bool" where
  "is_object v = (case v of JObj _ \<Rightarrow> True | _ \<Rightarrow> False)"

definition is_array :: "js \<Rightarrow> bool" where
  "is_array v = (case v of JArr _ \<Rightarrow> True | _ \<Rightarrow> False)"

definition is_string :: "js \<Rightarrow> bool" where
  "is_string v = (case v of JStr _ \<Rightarrow> True | _ \<Rightarrow> False)"

definition is_boolean :: "js \<Rightarrow> bool" where
  "is_boolean v = (case v of JBool _ \<Rightarrow> True | _ \<Rightarrow> False)"

definition is_number :: "js \<Rightarrow> bool" where
  "is_number v = (case v of JNum _ \<Rightarrow> True | _ \<Rightarrow> False)"

text \<open>\<open>Number.isFinite\<close> and \<open>Number.isSafeInteger\<close>.\<close>

definition is_finite :: "js \<Rightarrow> bool" where
  "is_finite v = (case v of JNum (NInt _) \<Rightarrow> True | JNum (NDec _) \<Rightarrow> True | _ \<Rightarrow> False)"

definition max_safe :: int where
  "max_safe = 9007199254740991"

definition safe_int :: "js \<Rightarrow> bool" where
  "safe_int v = (case v of JNum (NInt i) \<Rightarrow> \<bar>i\<bar> \<le> max_safe | _ \<Rightarrow> False)"

definition int_of :: "js \<Rightarrow> int" where
  "int_of v = (case v of JNum (NInt i) \<Rightarrow> i | _ \<Rightarrow> 0)"

definition str_of :: "js \<Rightarrow> string" where
  "str_of v = (case v of JStr s \<Rightarrow> s | _ \<Rightarrow> [])"

definition arr_of :: "js \<Rightarrow> js list" where
  "arr_of v = (case v of JArr xs \<Rightarrow> xs | _ \<Rightarrow> [])"

definition fields_of :: "js \<Rightarrow> obj" where
  "fields_of v = (case v of JObj fs \<Rightarrow> fs | _ \<Rightarrow> [])"

definition oget :: "obj \<Rightarrow> string \<Rightarrow> js" where
  "oget fs k = (case map_of fs k of None \<Rightarrow> JUndef | Some v \<Rightarrow> v)"

text \<open>\<open>value.k\<close> on an object, and \<open>Object.hasOwn\<close>.\<close>

definition js_get :: "js \<Rightarrow> string \<Rightarrow> js" where
  "js_get v k = oget (fields_of v) k"

definition js_has :: "js \<Rightarrow> string \<Rightarrow> bool" where
  "js_has v k = (k \<in> fst ` set (fields_of v))"

text \<open>A string that is not only white space: \<open>typeof v === "string" && v.trim()\<close>.\<close>

definition nonblank :: "js \<Rightarrow> bool" where
  "nonblank v = (case v of JStr s \<Rightarrow> js_trim s \<noteq> [] | _ \<Rightarrow> False)"

lemma is_objectE:
  assumes "is_object v" obtains fs where "v = JObj fs"
  using assms by (cases v) (auto simp: is_object_def)

lemma is_arrayE:
  assumes "is_array v" obtains xs where "v = JArr xs"
  using assms by (cases v) (auto simp: is_array_def)

lemma is_stringE:
  assumes "is_string v" obtains s where "v = JStr s"
  using assms by (cases v) (auto simp: is_string_def)

lemma js_test_simps [simp]:
  "is_object (JObj fs)" "is_array (JArr xs)" "is_string (JStr s)" "is_boolean (JBool b)"
  "\<not> is_object (JArr xs)" "\<not> is_object (JStr s)" "\<not> is_object JUndef" "\<not> is_object JNull"
  "\<not> is_object (JNum n)" "\<not> is_object (JBool b)" "\<not> is_array (JObj fs)" "\<not> is_array (JStr s)"
  "\<not> is_array JUndef" "\<not> is_string (JObj fs)" "\<not> is_string (JArr xs)" "\<not> is_string JUndef"
  "\<not> is_string JNull" "\<not> is_string (JNum n)" "\<not> is_string (JBool b)" "\<not> is_array JNull"
  "str_of (JStr s) = s" "arr_of (JArr xs) = xs" "fields_of (JObj fs) = fs" "int_of (JNum (NInt i)) = i"
  by (simp_all add: is_object_def is_array_def is_string_def is_boolean_def str_of_def arr_of_def
      fields_of_def int_of_def)

section \<open>Objects\<close>

definition keys_sorted :: "(string \<times> 'v) list \<Rightarrow> bool" where
  "keys_sorted fs = sorted_wrt (<) (map fst fs)"

text \<open>Assignment to a field, and \<open>delete\<close>.\<close>

fun oput :: "string \<Rightarrow> 'v \<Rightarrow> (string \<times> 'v) list \<Rightarrow> (string \<times> 'v) list" where
  "oput k v [] = [(k, v)]"
| "oput k v ((j, w) # fs) =
     (if k < j then (k, v) # (j, w) # fs
      else if k = j then (k, v) # fs
      else (j, w) # oput k v fs)"

definition odel :: "string \<Rightarrow> (string \<times> 'v) list \<Rightarrow> (string \<times> 'v) list" where
  "odel k fs = filter (\<lambda>p. fst p \<noteq> k) fs"

text \<open>An object literal.\<close>

definition mk_fields :: "(string \<times> 'v) list \<Rightarrow> (string \<times> 'v) list" where
  "mk_fields fs = foldr (\<lambda>(k, v). oput k v) fs []"

definition mk_obj :: "(string \<times> js) list \<Rightarrow> js" where
  "mk_obj fs = JObj (mk_fields fs)"

lemma keys_sorted_simps [simp]:
  "keys_sorted []"
  "keys_sorted ((k, v) # fs) \<longleftrightarrow> (\<forall>j\<in>fst ` set fs. k < j) \<and> keys_sorted fs"
  by (auto simp: keys_sorted_def)

lemma keys_sorted_distinct: "keys_sorted fs \<Longrightarrow> distinct (map fst fs)"
  by (induction fs) (auto simp: keys_sorted_def)

lemma oput_keys [simp]: "fst ` set (oput k v fs) = insert k (fst ` set fs)"
  by (induction k v fs rule: oput.induct) auto

lemma oput_sorted [simp]: "keys_sorted fs \<Longrightarrow> keys_sorted (oput k v fs)"
  by (induction k v fs rule: oput.induct) auto

lemma map_of_oput [simp]: "keys_sorted fs \<Longrightarrow> map_of (oput k v fs) j = (if j = k then Some v else map_of fs j)"
proof (induction k v fs rule: oput.induct)
  case (2 k v j' w fs)
  then show ?case
    by (cases "k < j'"; cases "k = j'") (auto simp: map_of_eq_None_iff)
qed simp

lemma odel_sorted [simp]: "keys_sorted fs \<Longrightarrow> keys_sorted (odel k fs)"
  by (induction fs) (auto simp: odel_def)

lemma map_of_odel [simp]: "map_of (odel k fs) j = (if j = k then None else map_of fs j)"
  by (induction fs) (auto simp: odel_def)

lemma odel_keys [simp]: "fst ` set (odel k fs) = fst ` set fs - {k}"
  by (auto simp: odel_def)

lemma mk_fields_sorted [simp]: "keys_sorted (mk_fields fs)"
  by (induction fs) (auto simp: mk_fields_def split_beta)

lemma map_of_mk_fields [simp]: "map_of (mk_fields fs) = map_of fs"
proof (rule ext)
  fix k show "map_of (mk_fields fs) k = map_of fs k"
  proof (induction fs)
    case Nil
    then show ?case by (simp add: mk_fields_def)
  next
    case (Cons p fs)
    have "mk_fields (p # fs) = oput (fst p) (snd p) (mk_fields fs)"
      by (simp add: mk_fields_def split_beta)
    with Cons show ?case by (cases p) simp
  qed
qed

lemma mk_fields_keys [simp]: "fst ` set (mk_fields fs) = fst ` set fs"
  by (induction fs) (auto simp: mk_fields_def split_beta)

text \<open>A sorted object is determined by what its fields read.\<close>

lemma keys_sorted_tail_cong:
  assumes "keys_sorted ((k, v) # fs)" "keys_sorted ((k, w) # gs)"
    and eq: "\<forall>i. map_of ((k, v) # fs) i = map_of ((k, w) # gs) i"
  shows "v = w" and "\<forall>i. map_of fs i = map_of gs i"
proof -
  show "v = w" using eq[rule_format, of k] by simp
  show "\<forall>i. map_of fs i = map_of gs i"
  proof
    fix i
    have "map_of fs k = None" "map_of gs k = None"
      using assms(1,2) unfolding map_of_eq_None_iff by auto
    then show "map_of fs i = map_of gs i"
      using eq[rule_format, of i] by (cases "i = k") simp_all
  qed
qed

lemma keys_sorted_heads:
  assumes "keys_sorted ((k, v) # fs)" "keys_sorted ((j, w) # gs)"
    and eq: "\<forall>i. map_of ((k, v) # fs) i = map_of ((j, w) # gs) i"
  shows "k = j"
proof (rule ccontr)
  assume ne: "k \<noteq> j"
  have "map_of gs k = Some v" using eq[rule_format, of k] ne by simp
  then have "k \<in> fst ` set gs" by (metis map_of_eq_None_iff option.distinct(1))
  then have "j < k" using assms(2) by auto
  have "map_of fs j = Some w" using eq[rule_format, of j] ne by simp
  then have "j \<in> fst ` set fs" by (metis map_of_eq_None_iff option.distinct(1))
  then have "k < j" using assms(1) by auto
  with \<open>j < k\<close> show False by simp
qed

lemma keys_sorted_eqI:
  "keys_sorted fs \<Longrightarrow> keys_sorted gs \<Longrightarrow> \<forall>i. map_of fs i = map_of gs i \<Longrightarrow> fs = gs"
proof (induction fs arbitrary: gs)
  case Nil
  have "gs = []"
  proof (cases gs)
    case (Cons q hs)
    then show ?thesis using Nil.prems(3)[rule_format, of "fst q"] by simp
  qed simp
  then show ?case by simp
next
  case (Cons p fs)
  obtain k v where p: "p = (k, v)" by (cases p)
  have "map_of gs k = Some v" using Cons.prems(3)[rule_format, of k] p by simp
  then obtain j w hs where gs: "gs = (j, w) # hs" by (cases gs) auto
  have "k = j"
    using Cons.prems unfolding p gs by (rule keys_sorted_heads)
  note tails = keys_sorted_tail_cong[OF Cons.prems(1)[unfolded p], of w hs]
  have "v = w" "\<forall>i. map_of fs i = map_of hs i"
    using tails Cons.prems(2,3) unfolding p gs \<open>k = j\<close> by blast+
  moreover have "keys_sorted fs" "keys_sorted hs" using Cons.prems(1,2) p gs by simp_all
  ultimately show ?case using Cons.IH[of hs] p gs \<open>k = j\<close> by simp
qed

lemma js_get_mk_obj [simp]: "js_get (mk_obj fs) k = oget fs k"
  by (simp add: js_get_def mk_obj_def oget_def)

lemma is_object_mk_obj [simp]: "is_object (mk_obj fs)"
  by (simp add: mk_obj_def)

lemma js_has_mk_obj [simp]: "js_has (mk_obj fs) k \<longleftrightarrow> k \<in> fst ` set fs"
  by (simp add: js_has_def mk_obj_def)

lemma oget_simps [simp]:
  "oget [] k = JUndef"
  "oget ((j, v) # fs) k = (if k = j then v else oget fs k)"
  by (simp_all add: oget_def)

end
