(* ===== verification/Json_Text.thy ===== *)
theory Json_Text
  imports Js_Values
begin

text \<open>
  \<open>JSON.stringify\<close> on the values of \<open>Js_Values\<close>, with the proof that the text of a well-formed
  document determines the document. The code compares canonical texts (\<open>text === text\<close>, \<open>JSON.stringify(a)
  === JSON.stringify(b)\<close>) and keeps them as the stored form; by this theorem the model may keep the
  document itself.
\<close>

section \<open>Numbers\<close>

definition digit :: "nat \<Rightarrow> char" where
  "digit n = char_of (48 + n)"

fun nat_text :: "nat \<Rightarrow> string" where
  "nat_text n = (if n < 10 then [digit n] else nat_text (n div 10) @ [digit (n mod 10)])"

declare nat_text.simps [simp del]

definition int_text :: "int \<Rightarrow> string" where
  "int_text i = (if i < 0 then CHR ''-'' # nat_text (nat (- i)) else nat_text (nat i))"

definition nat_val :: "string \<Rightarrow> nat" where
  "nat_val = foldl (\<lambda>a c. 10 * a + (of_char c - 48)) 0"

definition is_digit :: "char \<Rightarrow> bool" where
  "is_digit c = (48 \<le> (of_char c :: nat) \<and> (of_char c :: nat) \<le> 57)"

lemma of_char_digit [simp]: "n < 10 \<Longrightarrow> of_char (digit n) = 48 + n"
  by (simp add: digit_def)

lemma nat_val_snoc: "nat_val (s @ [c]) = 10 * nat_val s + (of_char c - 48)"
  by (simp add: nat_val_def)

lemma nat_val_text [simp]: "nat_val (nat_text n) = n"
proof (induction n rule: nat_text.induct)
  case (1 n)
  show ?case
  proof (cases "n < 10")
    case True
    then show ?thesis by (simp add: nat_text.simps[of n] nat_val_def)
  next
    case False
    then show ?thesis using 1 by (simp add: nat_text.simps[of n] nat_val_snoc)
  qed
qed

lemma nat_text_digits: "list_all is_digit (nat_text n) \<and> nat_text n \<noteq> []"
proof (induction n rule: nat_text.induct)
  case (1 n)
  then show ?case
    by (cases "n < 10") (simp_all add: nat_text.simps[of n] is_digit_def)
qed

lemma nat_text_eq [simp]: "nat_text m = nat_text n \<longleftrightarrow> m = n"
  by (metis nat_val_text)

lemma nat_text_no_sign: "CHR ''-'' \<notin> set (nat_text n)"
  using nat_text_digits[of n] by (auto simp: list_all_iff is_digit_def)

lemma int_text_eq: "int_text i = int_text j \<longleftrightarrow> i = j"
proof
  assume e: "int_text i = int_text j"
  have "hd (nat_text n) \<noteq> CHR ''-''" for n
    using nat_text_no_sign[of n] nat_text_digits[of n] by (metis hd_in_set)
  with e show "i = j" by (auto simp: int_text_def split: if_splits) (metis list.sel(1))+
qed simp

definition num_char :: "char \<Rightarrow> bool" where
  "num_char c = (is_digit c \<or> c \<in> {CHR ''-'', CHR ''+'', CHR ''.'', CHR ''e''})"

definition integer_text :: "string \<Rightarrow> bool" where
  "integer_text t = (let u = (if t \<noteq> [] \<and> hd t = CHR ''-'' then tl t else t) in u \<noteq> [] \<and> list_all is_digit u)"

text \<open>The text of a finite number that is not an integer the model keeps by value.\<close>

definition dec_text :: "string \<Rightarrow> bool" where
  "dec_text t = (t \<noteq> [] \<and> list_all num_char t \<and> \<not> integer_text t)"

lemma int_text_num: "list_all num_char (int_text i) \<and> int_text i \<noteq> [] \<and> integer_text (int_text i)"
proof -
  have "hd (nat_text n) \<noteq> CHR ''-''" for n
    using nat_text_no_sign[of n] nat_text_digits[of n] by (metis hd_in_set)
  then show ?thesis
    using nat_text_digits by (auto simp: int_text_def integer_text_def num_char_def list_all_iff Let_def)
qed

section \<open>Strings\<close>

text \<open>The escapes of \<open>JSON.stringify\<close>.\<close>

definition hex_digit :: "nat \<Rightarrow> char" where
  "hex_digit n = char_of (if n < 10 then 48 + n else 87 + n)"

definition esc :: "char \<Rightarrow> string" where
  "esc c = (let n = of_char c :: nat in
     if c = CHR 0x22 \<or> c = CHR 0x5C then [CHR 0x5C, c]
     else if n = 8 then [CHR 0x5C, CHR ''b'']
     else if n = 9 then [CHR 0x5C, CHR ''t'']
     else if n = 10 then [CHR 0x5C, CHR ''n'']
     else if n = 12 then [CHR 0x5C, CHR ''f'']
     else if n = 13 then [CHR 0x5C, CHR ''r'']
     else if n < 32 then [CHR 0x5C, CHR ''u'', CHR ''0'', CHR ''0'', hex_digit (n div 16), hex_digit (n mod 16)]
     else [c])"

definition quoted :: "string \<Rightarrow> string" where
  "quoted s = CHR 0x22 # concat (map esc s) @ [CHR 0x22]"

lemma of_char_hex_digit: "n < 16 \<Longrightarrow> of_char (hex_digit n) = (if n < 10 then 48 + n else 87 + n)"
  by (simp add: hex_digit_def)

lemma hex_digit_inj:
  assumes "m < 16" "n < 16" "hex_digit m = hex_digit n"
  shows "m = n"
proof -
  have "(if m < 10 then 48 + m else 87 + m) = (if n < 10 then 48 + n else 87 + (n::nat))"
    using of_char_hex_digit[OF assms(1)] of_char_hex_digit[OF assms(2)] assms(3) by metis
  then show ?thesis by (cases "m < 10"; cases "n < 10") simp_all
qed

lemma esc_head: "hd (esc c) \<noteq> CHR 0x22 \<and> esc c \<noteq> []"
  by (auto simp: esc_def Let_def)

text \<open>The escapes form a prefix-free code.\<close>

lemma esc_control: "(of_char c :: nat) < 32 \<Longrightarrow> (of_char c :: nat) \<notin> {8, 9, 10, 12, 13} \<Longrightarrow>
    esc c = [CHR 0x5C, CHR ''u'', CHR ''0'', CHR ''0'', hex_digit (of_char c div 16), hex_digit (of_char c mod 16)]"
  by (auto simp: esc_def Let_def)

lemma esc_cases:
  obtains (plain) "esc c = [c]" "c \<noteq> CHR 0x5C"
  | (self) "esc c = [CHR 0x5C, c]" "c = CHR 0x22 \<or> c = CHR 0x5C"
  | (short) x where "esc c = [CHR 0x5C, x]"
      "((of_char c :: nat), x) \<in> {(8, CHR ''b''), (9, CHR ''t''), (10, CHR ''n''), (12, CHR ''f''), (13, CHR ''r'')}"
  | (control) "(of_char c :: nat) < 32"
      "esc c = [CHR 0x5C, CHR ''u'', CHR ''0'', CHR ''0'', hex_digit (of_char c div 16), hex_digit (of_char c mod 16)]"
proof -
  let ?n = "of_char c :: nat"
  consider "c = CHR 0x22 \<or> c = CHR 0x5C" | "c \<noteq> CHR 0x22" "c \<noteq> CHR 0x5C" "?n \<in> {8, 9, 10, 12, 13}"
    | "c \<noteq> CHR 0x22" "c \<noteq> CHR 0x5C" "?n \<notin> {8, 9, 10, 12, 13}" "?n < 32"
    | "c \<noteq> CHR 0x22" "c \<noteq> CHR 0x5C" "?n \<notin> {8, 9, 10, 12, 13}" "\<not> ?n < 32" by blast
  then show ?thesis
  proof cases
    case 1
    then show ?thesis by (intro self) (auto simp: esc_def Let_def)
  next
    case 2
    then show ?thesis by (elim insertE emptyE) (rule short, auto simp: esc_def Let_def)+
  next
    case 3
    then show ?thesis by (intro control) (auto simp: esc_def Let_def)
  next
    case 4
    then show ?thesis by (intro plain) (auto simp: esc_def Let_def)
  qed
qed

lemma of_char_inj: "(of_char c :: nat) = of_char d \<Longrightarrow> c = d"
  by simp

lemma esc_control_eq:
  assumes "(of_char c :: nat) < 32" "(of_char d :: nat) < 32"
    "hex_digit (of_char c div 16) = hex_digit (of_char d div 16)"
    "hex_digit (of_char c mod 16) = hex_digit (of_char d mod 16)"
  shows "c = d"
proof -
  have "(of_char c :: nat) div 16 = of_char d div 16"
    using assms(1,2,3) by (intro hex_digit_inj) auto
  moreover have "(of_char c :: nat) mod 16 = of_char d mod 16"
    using assms(4) by (intro hex_digit_inj) auto
  ultimately have "(of_char c :: nat) = of_char d" by (metis div_mult_mod_eq)
  then show ?thesis by simp
qed

lemma esc_unique: "esc c @ r = esc d @ r' \<Longrightarrow> c = d"
  by (cases c rule: esc_cases; cases d rule: esc_cases)
    (auto intro: esc_control_eq of_char_inj)


lemma esc_cancel: "esc c @ r = esc d @ r' \<longleftrightarrow> c = d \<and> r = r'"
  using esc_unique by auto

lemma esc_not_quote: "esc c @ r \<noteq> CHR 0x22 # r'"
  using esc_head[of c] by (cases "esc c") auto

lemma quoted_body_unique:
  "concat (map esc s) @ CHR 0x22 # r = concat (map esc t) @ CHR 0x22 # r' \<Longrightarrow> s = t \<and> r = r'"
proof (induction s arbitrary: t)
  case Nil
  then show ?case by (cases t) (auto dest: esc_not_quote[THEN notE, OF sym])
next
  case (Cons c s)
  show ?case
  proof (cases t)
    case Nil
    with Cons.prems show ?thesis using esc_not_quote by auto
  next
    case (Cons d t')
    with Cons.prems have "c = d" "concat (map esc s) @ CHR 0x22 # r = concat (map esc t') @ CHR 0x22 # r'"
      by (simp_all add: esc_cancel)
    with Cons.IH \<open>t = d # t'\<close> show ?thesis by blast
  qed
qed

lemma quoted_unique: "quoted s @ r = quoted t @ r' \<Longrightarrow> s = t \<and> r = r'"
  using quoted_body_unique[of s r t r'] by (simp add: quoted_def)

lemma quoted_head: "\<exists>u. quoted s = CHR 0x22 # u"
  by (simp add: quoted_def)

section \<open>Values\<close>

fun commas :: "string list \<Rightarrow> string" where
  "commas [] = []"
| "commas (x # xs) = x @ concat (map (\<lambda>y. CHR '','' # y) xs)"

fun num_text :: "jnum \<Rightarrow> string" where
  "num_text (NInt i) = int_text i"
| "num_text (NDec t) = t"
| "num_text (NInf b) = ''null''"

lemma size_field: "(k, v) \<in> set fs \<Longrightarrow> size v < size (JObj fs)"
  using size_list_estimation'[of "(k, v)" fs "size v" "size_prod (\<lambda>_. 0) size"] by simp

lemma size_item: "v \<in> set xs \<Longrightarrow> size v < size (JArr xs)"
  using size_list_estimation'[of v xs "size v" size] by simp

function json_text :: "js \<Rightarrow> string" where
  "json_text JUndef = ''null''"
| "json_text JNull = ''null''"
| "json_text (JBool b) = (if b then ''true'' else ''false'')"
| "json_text (JNum n) = num_text n"
| "json_text (JStr s) = quoted s"
| "json_text (JArr xs) = CHR ''['' # commas (map json_text xs) @ [CHR '']'']"
| "json_text (JObj fs) = CHR ''{'' # commas (map (\<lambda>p. quoted (fst p) @ CHR '':'' # json_text (snd p)) fs) @ [CHR ''}'']"
  by pat_completeness auto
termination
  by (relation "measure size") (auto dest: size_field size_item)

text \<open>
  A well-formed document: what \<open>JSON.parse\<close> yields. No \<open>undefined\<close>, finite numbers, objects with
  sorted distinct keys.
\<close>

function wf_js :: "js \<Rightarrow> bool" where
  "wf_js JUndef = False"
| "wf_js JNull = True"
| "wf_js (JBool b) = True"
| "wf_js (JNum n) = (case n of NInt _ \<Rightarrow> True | NDec t \<Rightarrow> dec_text t | NInf _ \<Rightarrow> False)"
| "wf_js (JStr s) = True"
| "wf_js (JArr xs) = list_all wf_js xs"
| "wf_js (JObj fs) = (keys_sorted fs \<and> list_all (\<lambda>p. wf_js (snd p)) fs)"
  by pat_completeness auto
termination
  by (relation "measure size") (auto dest: size_field size_item)

definition closes :: "string \<Rightarrow> bool" where
  "closes r = (r = [] \<or> hd r \<in> {CHR '','', CHR '']'', CHR ''}''})"

lemma closes_Cons [simp]: "closes (c # r) \<longleftrightarrow> c \<in> {CHR '','', CHR '']'', CHR ''}''}"
  by (simp add: closes_def)

text \<open>What an element encoder must satisfy for a comma-separated sequence to be readable.\<close>

definition readable :: "('a \<Rightarrow> string) \<Rightarrow> 'a set \<Rightarrow> 'a \<Rightarrow> bool" where
  "readable e D x = (e x \<noteq> [] \<and> hd (e x) \<notin> {CHR '','', CHR '']'', CHR ''}''}
     \<and> (\<forall>y\<in>D. \<forall>r r'. closes r \<longrightarrow> closes r' \<longrightarrow> e x @ r = e y @ r' \<longrightarrow> x = y \<and> r = r'))"

lemma readableD:
  "readable e D x \<Longrightarrow> y \<in> D \<Longrightarrow> closes r \<Longrightarrow> closes r' \<Longrightarrow> e x @ r = e y @ r' \<Longrightarrow> x = y \<and> r = r'"
  by (simp add: readable_def)

abbreviation "tail_text e xs \<equiv> concat (map (\<lambda>y. CHR '','' # e y) xs)"

lemma closes_tail: "c \<in> {CHR '']'', CHR ''}''} \<Longrightarrow> closes (tail_text e xs @ c # r)"
  by (cases xs) auto

lemma tail_unique:
  assumes "c \<in> {CHR '']'', CHR ''}''}"
  shows "\<forall>x\<in>set xs. readable e D x \<Longrightarrow> set ys \<subseteq> D \<Longrightarrow>
    tail_text e xs @ c # r = tail_text e ys @ c # r' \<Longrightarrow> xs = ys \<and> r = r'"
proof (induction xs arbitrary: ys)
  case Nil
  then show ?case using assms by (cases ys) auto
next
  case (Cons x xs)
  show ?case
  proof (cases ys)
    case Nil
    with Cons.prems assms show ?thesis by auto
  next
    case (Cons y zs)
    have "e x @ (tail_text e xs @ c # r) = e y @ (tail_text e zs @ c # r')"
      using Cons.prems(3) Cons by simp
    moreover have "readable e D x" "y \<in> D" using Cons.prems(1,2) Cons by simp_all
    ultimately have "x = y \<and> tail_text e xs @ c # r = tail_text e zs @ c # r'"
      by (intro readableD closes_tail assms)
    then show ?thesis using Cons.IH[of zs] Cons.prems(1,2) Cons by simp
  qed
qed

lemma commas_unique:
  assumes c: "c \<in> {CHR '']'', CHR ''}''}"
    and x: "\<forall>x\<in>set xs. readable e D x" and y: "\<forall>y\<in>set ys. e y \<noteq> [] \<and> hd (e y) \<notin> {CHR '']'', CHR ''}''}"
    and D: "set ys \<subseteq> D"
    and eq: "commas (map e xs) @ c # r = commas (map e ys) @ c # r'"
  shows "xs = ys \<and> r = r'"
proof (cases xs)
  case Nil
  show ?thesis
  proof (cases ys)
    case (Cons y zs)
    have "e y \<noteq> []" "hd (e y) \<notin> {CHR '']'', CHR ''}''}" using y Cons by simp_all
    moreover have "c # r = e y @ tail_text e zs @ c # r'" using eq Nil Cons by (simp add: comp_def)
    ultimately show ?thesis using c by (cases "e y") auto
  qed (use eq Nil in simp)
next
  case (Cons x xs')
  show ?thesis
  proof (cases ys)
    case Nil
    have "e x \<noteq> []" "hd (e x) \<notin> {CHR '']'', CHR ''}''}" using x Cons by (auto simp: readable_def)
    moreover have "c # r' = e x @ tail_text e xs' @ c # r" using eq Nil Cons by (simp add: comp_def)
    ultimately show ?thesis using c by (cases "e x") auto
  next
    case (Cons y zs)
    have "tail_text e (x # xs') @ c # r = tail_text e (y # zs) @ c # r'"
      using eq \<open>xs = x # xs'\<close> Cons by (simp add: comp_def)
    then show ?thesis using tail_unique[OF c x[unfolded \<open>xs = x # xs'\<close>] D[unfolded Cons]] \<open>xs = x # xs'\<close> Cons by blast
  qed
qed


section \<open>The text determines the document\<close>

lemma num_text_chars: "wf_js (JNum n) \<Longrightarrow> list_all num_char (num_text n) \<and> num_text n \<noteq> []"
  using int_text_num by (cases n) (auto simp: dec_text_def)

lemma closes_not_num: "closes r \<Longrightarrow> r = [] \<or> \<not> num_char (hd r)"
  by (auto simp: closes_def num_char_def is_digit_def)

lemma takeWhile_num:
  assumes "list_all num_char t" "closes r"
  shows "takeWhile num_char (t @ r) = t" "dropWhile num_char (t @ r) = r"
  using assms closes_not_num[OF assms(2)]
  by (induction t) (auto simp: takeWhile_eq_Nil_iff intro: dropWhile_eq_self_iff[THEN iffD2])

lemma num_text_unique:
  assumes "wf_js (JNum m)" "wf_js (JNum n)" "closes r" "closes r'" "num_text m @ r = num_text n @ r'"
  shows "m = n \<and> r = r'"
proof -
  have eq: "num_text m = num_text n" "r = r'"
    using takeWhile_num[of "num_text m" r] takeWhile_num[of "num_text n" r'] assms num_text_chars by metis+
  have "m = n"
    using eq(1) assms(1,2) int_text_num by (cases m; cases n) (auto simp: int_text_eq dec_text_def)
  with eq show ?thesis by simp
qed

text \<open>The first character of a text shows the kind of its value.\<close>

definition js_kind :: "js \<Rightarrow> nat" where
  "js_kind v = (case v of JUndef \<Rightarrow> 0 | JNull \<Rightarrow> 1 | JBool b \<Rightarrow> (if b then 2 else 3) | JNum _ \<Rightarrow> 4 | JStr _ \<Rightarrow> 5
     | JArr _ \<Rightarrow> 6 | JObj _ \<Rightarrow> 7)"

definition char_kind :: "char \<Rightarrow> nat" where
  "char_kind c = (if num_char c then 4 else if c = CHR ''n'' then 1 else if c = CHR ''t'' then 2
     else if c = CHR ''f'' then 3 else if c = CHR 0x22 then 5 else if c = CHR ''['' then 6
     else if c = CHR ''{'' then 7 else 8)"

lemma not_num_chars [simp]:
  "\<not> num_char CHR ''n''" "\<not> num_char CHR ''t''" "\<not> num_char CHR ''f''" "\<not> num_char CHR 0x22"
  "\<not> num_char CHR ''[''" "\<not> num_char CHR ''{''" "\<not> num_char CHR '',''" "\<not> num_char CHR '']''"
  "\<not> num_char CHR ''}''" "\<not> num_char CHR '':''"
  by (simp_all add: num_char_def is_digit_def)

lemma json_text_head:
  assumes "wf_js v"
  shows "json_text v \<noteq> []" and "js_kind v = char_kind (hd (json_text v))"
proof -
  have n: "num_text n \<noteq> [] \<and> num_char (hd (num_text n))" if "v = JNum n" for n
    using num_text_chars[of n] assms that by (cases "num_text n") auto
  show "json_text v \<noteq> []" using n assms by (cases v) (auto simp: quoted_def)
  show "js_kind v = char_kind (hd (json_text v))"
    using n assms by (cases v) (auto simp: quoted_def js_kind_def char_kind_def)
qed

lemma json_text_open: "wf_js v \<Longrightarrow> hd (json_text v) \<notin> {CHR '','', CHR '']'', CHR ''}'', CHR '':''}"
  using json_text_head(2)[of v] by (cases v) (auto simp: js_kind_def char_kind_def)

lemma field_head: "hd (quoted k @ u) = CHR 0x22 \<and> quoted k \<noteq> []"
  by (simp add: quoted_def)

lemma same_kind:
  assumes "wf_js v" "wf_js w" "json_text v @ r = json_text w @ r'"
  shows "js_kind v = js_kind w"
  using json_text_head[OF assms(1)] json_text_head[OF assms(2)] assms(3) by (metis hd_append2)

lemma js_kind_cases:
  "js_kind v = 1 \<Longrightarrow> v = JNull" "js_kind v = 2 \<Longrightarrow> v = JBool True" "js_kind v = 3 \<Longrightarrow> v = JBool False"
  "js_kind v = 4 \<Longrightarrow> \<exists>n. v = JNum n" "js_kind v = 5 \<Longrightarrow> \<exists>s. v = JStr s"
  "js_kind v = 6 \<Longrightarrow> \<exists>xs. v = JArr xs" "js_kind v = 7 \<Longrightarrow> \<exists>fs. v = JObj fs"
  by (cases v; auto simp: js_kind_def split: if_splits)+

lemma json_text_unique:
  "wf_js v \<Longrightarrow> wf_js w \<Longrightarrow> closes r \<Longrightarrow> closes r' \<Longrightarrow> json_text v @ r = json_text w @ r'
   \<Longrightarrow> v = w \<and> r = r'"
proof (induction v arbitrary: w r r' rule: json_text.induct)
  case 1
  then show ?case by simp
next
  case 2
  note same_kind[OF 2(1,2,5)]
  then have "w = JNull" by (intro js_kind_cases) (simp add: js_kind_def)
  with 2 show ?case by simp
next
  case (3 b)
  note same_kind[OF 3(1,2,5)]
  then have "w = JBool b" using js_kind_cases(2,3)[of w] by (cases b) (simp_all add: js_kind_def)
  with 3 show ?case by simp
next
  case (4 n)
  note same_kind[OF 4(1,2,5)]
  then have "\<exists>m. w = JNum m" by (intro js_kind_cases) (simp add: js_kind_def)
  then obtain m where w: "w = JNum m" ..
  then show ?case using num_text_unique[OF 4(1) _ 4(3,4), of m] 4(2,5) by simp
next
  case (5 s)
  note same_kind[OF 5(1,2,5)]
  then have "\<exists>t. w = JStr t" by (intro js_kind_cases) (simp add: js_kind_def)
  then obtain t where w: "w = JStr t" ..
  then show ?case using quoted_unique[of s r t r'] 5(5) by simp
next
  case (6 xs)
  note same_kind[OF 6(2,3,6)]
  then have "\<exists>ys. w = JArr ys" by (intro js_kind_cases) (simp add: js_kind_def)
  then obtain ys where w: "w = JArr ys" ..
  let ?D = "{y. wf_js y}"
  have rd: "readable json_text ?D x" if "x \<in> set xs" for x
    using "6.IH"[OF that] that "6.prems"(1) json_text_head[of x] json_text_open[of x]
    by (auto simp: readable_def list_all_iff)
  have hd: "\<forall>y\<in>set ys. json_text y \<noteq> [] \<and> hd (json_text y) \<notin> {CHR '']'', CHR ''}''}"
    using "6.prems"(2) json_text_head(1) json_text_open w by (auto simp: list_all_iff)
  have "commas (map json_text xs) @ CHR '']'' # r = commas (map json_text ys) @ CHR '']'' # r'"
    using "6.prems"(5) w by simp
  moreover have "set ys \<subseteq> ?D" using "6.prems"(2) w by (auto simp: list_all_iff)
  ultimately have "xs = ys \<and> r = r'" using rd hd by (intro commas_unique[where D = ?D]) auto
  with w show ?case by simp
next
  case (7 fs)
  note same_kind[OF 7(2,3,6)]
  then have "\<exists>gs. w = JObj gs" by (intro js_kind_cases) (simp add: js_kind_def)
  then obtain gs where w: "w = JObj gs" ..
  let ?D = "{p. wf_js (snd p)}"
  let ?e = "\<lambda>p. quoted (fst p) @ CHR '':'' # json_text (snd p)"
  have rd: "readable ?e ?D p" if "p \<in> set fs" for p
  proof -
    have "p = q \<and> s = s'"
      if q: "q \<in> ?D" "closes s" "closes s'" "?e p @ s = ?e q @ s'" for q s s'
    proof -
      have "quoted (fst p) @ (CHR '':'' # json_text (snd p) @ s) = quoted (fst q) @ (CHR '':'' # json_text (snd q) @ s')"
        using q(4) by simp
      from quoted_unique[OF this]
      have a: "fst p = fst q" "json_text (snd p) @ s = json_text (snd q) @ s'" by auto
      have "wf_js (snd p)" using \<open>p \<in> set fs\<close> "7.prems"(1) by (auto simp: list_all_iff)
      then have "snd p = snd q \<and> s = s'" using "7.IH"[OF \<open>p \<in> set fs\<close>] a(2) q by blast
      with a(1) show ?thesis by (simp add: prod_eq_iff)
    qed
    then show ?thesis using field_head by (auto simp: readable_def)
  qed
  have hd: "\<forall>q\<in>set gs. ?e q \<noteq> [] \<and> hd (?e q) \<notin> {CHR '']'', CHR ''}''}"
    using field_head by auto
  have "commas (map ?e fs) @ CHR ''}'' # r = commas (map ?e gs) @ CHR ''}'' # r'"
    using "7.prems"(5) w by simp
  moreover have "set gs \<subseteq> ?D" using "7.prems"(2) w by (auto simp: list_all_iff)
  ultimately have "fs = gs \<and> r = r'" using rd hd by (intro commas_unique[where D = ?D and e = ?e]) auto
  with w show ?case by simp
qed

lemma json_text_inj: "wf_js v \<Longrightarrow> wf_js w \<Longrightarrow> json_text v = json_text w \<longleftrightarrow> v = w"
  using json_text_unique[of v w "[]" "[]"] by (auto simp: closes_def)

section \<open>What serialisation does to a value\<close>

text \<open>
  \<open>JSON.parse(JSON.stringify(v))\<close> for a \<open>v\<close> that is not itself \<open>undefined\<close>: undefined fields are
  dropped, undefined array slots and infinities become null. (\<open>toJSON\<close> methods are outside the type.)
\<close>

function normalise :: "js \<Rightarrow> js" where
  "normalise JUndef = JUndef"
| "normalise JNull = JNull"
| "normalise (JBool b) = JBool b"
| "normalise (JNum n) = (case n of NInf _ \<Rightarrow> JNull | _ \<Rightarrow> JNum n)"
| "normalise (JStr s) = JStr s"
| "normalise (JArr xs) = JArr (map (\<lambda>x. if x = JUndef then JNull else normalise x) xs)"
| "normalise (JObj fs) = JObj (map (\<lambda>p. (fst p, normalise (snd p))) (filter (\<lambda>p. snd p \<noteq> JUndef) fs))"
  by pat_completeness auto
termination
  by (relation "measure size") (auto dest: size_field size_item)

text \<open>A value of the program: decimal texts are decimal, fields are sorted.\<close>

function js_ok :: "js \<Rightarrow> bool" where
  "js_ok JUndef = True"
| "js_ok JNull = True"
| "js_ok (JBool b) = True"
| "js_ok (JNum n) = (case n of NDec t \<Rightarrow> dec_text t | _ \<Rightarrow> True)"
| "js_ok (JStr s) = True"
| "js_ok (JArr xs) = list_all js_ok xs"
| "js_ok (JObj fs) = (keys_sorted fs \<and> list_all (\<lambda>p. js_ok (snd p)) fs)"
  by pat_completeness auto
termination
  by (relation "measure size") (auto dest: size_field size_item)

lemma wf_js_ok: "wf_js v \<Longrightarrow> js_ok v"
  by (induction v rule: js_ok.induct) (auto simp: list_all_iff split: jnum.splits)

lemma wf_js_not_undef: "wf_js v \<Longrightarrow> v \<noteq> JUndef"
  by auto

lemma keys_sorted_filter: "keys_sorted fs \<Longrightarrow> keys_sorted (filter P fs)"
  by (induction fs) auto

lemma keys_sorted_map: "keys_sorted (map (\<lambda>p. (fst p, f p)) fs) \<longleftrightarrow> keys_sorted fs"
  by (simp add: keys_sorted_def comp_def)

lemma normalise_wf: "js_ok v \<Longrightarrow> v \<noteq> JUndef \<Longrightarrow> wf_js (normalise v)"
proof (induction v rule: js_ok.induct)
  case (4 n)
  then show ?case by (cases n) auto
next
  case (7 fs)
  then show ?case by (auto simp: list_all_iff keys_sorted_map keys_sorted_filter)
qed (auto simp: list_all_iff)

lemma normalise_id: "wf_js v \<Longrightarrow> normalise v = v"
proof (induction v rule: wf_js.induct)
  case (4 n)
  then show ?case by (cases n) auto
next
  case (6 xs)
  then have "\<forall>x\<in>set xs. x \<noteq> JUndef \<and> normalise x = x" using wf_js_not_undef by (auto simp: list_all_iff)
  then have "map (\<lambda>x. if x = JUndef then JNull else normalise x) xs = xs" by (intro map_idI) simp
  then show ?case by simp
next
  case (7 fs)
  have "filter (\<lambda>p. snd p \<noteq> JUndef) fs = fs"
    using 7 wf_js_not_undef by (auto simp: filter_id_conv list_all_iff)
  moreover have "map (\<lambda>p. (fst p, normalise (snd p))) fs = fs"
    using 7 by (intro map_idI) (auto simp: list_all_iff)
  ultimately show ?case by (simp only: normalise.simps)
qed auto

lemma normalise_idem: "js_ok v \<Longrightarrow> v \<noteq> JUndef \<Longrightarrow> normalise (normalise v) = normalise v"
  by (intro normalise_id normalise_wf)

text \<open>Comparing serialised forms compares documents.\<close>

definition same_json :: "js \<Rightarrow> js \<Rightarrow> bool" where
  "same_json a b = (json_text a = json_text b)"

lemma same_json_iff: "wf_js a \<Longrightarrow> wf_js b \<Longrightarrow> same_json a b \<longleftrightarrow> a = b"
  by (simp add: same_json_def json_text_inj)

lemma normalise_not_undef: "v \<noteq> JUndef \<Longrightarrow> normalise v \<noteq> JUndef"
  by (cases v) (auto split: jnum.splits)

section \<open>String(v)\<close>

text \<open>The conversion of a value to a string, as template literals and \<open>String\<close> do it.\<close>

function js_String :: "js \<Rightarrow> string" where
  "js_String JUndef = ''undefined''"
| "js_String JNull = ''null''"
| "js_String (JBool b) = (if b then ''true'' else ''false'')"
| "js_String (JNum n) = (case n of NInf b \<Rightarrow> (if b then ''Infinity'' else ''-Infinity'') | _ \<Rightarrow> num_text n)"
| "js_String (JStr s) = s"
| "js_String (JArr xs) = commas (map (\<lambda>x. if x = JUndef \<or> x = JNull then [] else js_String x) xs)"
| "js_String (JObj fs) = ''[object Object]''"
  by pat_completeness auto
termination
  by (relation "measure size") (auto dest: size_item)

text \<open>Truthiness.\<close>

definition truthy :: "js \<Rightarrow> bool" where
  "truthy v = (case v of JUndef \<Rightarrow> False | JNull \<Rightarrow> False | JBool b \<Rightarrow> b | JNum (NInt i) \<Rightarrow> i \<noteq> 0
     | JStr s \<Rightarrow> s \<noteq> [] | _ \<Rightarrow> True)"

end
