(* ===== verification/Reconcile_Patch.thy ===== *)
theory Reconcile_Patch
  imports Json_Text
begin

text \<open>
  Canonical encoding and the patch codec of \<open>apps/remote/shared/reconcile.ts\<close>: \<open>encode\<close>, \<open>diff\<close>
  and \<open>patchValue\<close>. Documents and patches are \<open>js\<close> values, so a patch is exactly the JSON object on
  the wire. The text \<open>encode\<close> returns is represented by the document it is the text of.
\<close>

definition maxDepth :: nat where
  "maxDepth = 80"

section \<open>Canonical encoding\<close>

text \<open>The depth test of \<open>canonical\<close>: no entry lies deeper than \<open>maxDepth\<close>.\<close>

function depth_ok :: "nat \<Rightarrow> js \<Rightarrow> bool" where
  "depth_ok d (JArr xs) = (d \<le> maxDepth \<and> list_all (depth_ok (Suc d)) xs)"
| "depth_ok d (JObj fs) = (d \<le> maxDepth \<and> list_all (\<lambda>p. depth_ok (Suc d) (snd p)) fs)"
| "depth_ok d JUndef = (d \<le> maxDepth)"
| "depth_ok d JNull = (d \<le> maxDepth)"
| "depth_ok d (JBool b) = (d \<le> maxDepth)"
| "depth_ok d (JNum n) = (d \<le> maxDepth)"
| "depth_ok d (JStr s) = (d \<le> maxDepth)"
  by pat_completeness auto
termination
  by (relation "measure (size \<circ> snd)") (auto dest: size_field size_item)

definition text_length :: "js \<Rightarrow> int" where
  "text_length v = int (length (json_text v))"

definition encode :: "js \<Rightarrow> int \<Rightarrow> string + js" where
  "encode v limit =
     (if v = JUndef \<or> text_length (normalise v) * 2 > limit then Inl ''Value is not bounded JSON''
      else let n = normalise v in
        if \<not> depth_ok 0 n then Inl ''JSON depth exceeded''
        else if text_length n * 2 > limit then Inl ''Value exceeds JSON limit''
        else Inr n)"

section \<open>Identity of keyed items\<close>

definition itemKey :: "js \<Rightarrow> string \<Rightarrow> string option" where
  "itemKey item field =
     (if \<not> is_object item \<or> \<not> js_has item field then None
      else case js_get item field of
        JStr s \<Rightarrow> Some (''s:'' @ s)
      | JNum n \<Rightarrow> (if is_finite (JNum n) then Some (''n:'' @ num_text n) else None)
      | _ \<Rightarrow> None)"

fun keyed_from :: "(string \<times> js) list \<Rightarrow> js list \<Rightarrow> string \<Rightarrow> (string \<times> js) list option" where
  "keyed_from result [] field = Some result"
| "keyed_from result (item # items) field = (case itemKey item field of
     None \<Rightarrow> None
   | Some key \<Rightarrow> if key \<in> fst ` set result then None else keyed_from (result @ [(key, item)]) items field)"

definition keyed :: "js list \<Rightarrow> string \<Rightarrow> (string \<times> js) list option" where
  "keyed items field = keyed_from [] items field"

section \<open>Difference of two documents\<close>

text \<open>\<open>before === after\<close> on parsed JSON: equality of primitives; distinct containers are never identical.\<close>

definition same_primitive :: "js \<Rightarrow> js \<Rightarrow> bool" where
  "same_primitive a b = (\<not> is_array a \<and> \<not> is_object a \<and> a = b)"

text \<open>The two scanning loops: length of the common prefix, and of the common suffix after it.\<close>

definition scan_start :: "('a \<Rightarrow> 'a \<Rightarrow> bool) \<Rightarrow> 'a list \<Rightarrow> 'a list \<Rightarrow> nat" where
  "scan_start eq xs ys = length (takeWhile (\<lambda>(x, y). eq x y) (zip xs ys))"

definition scan_end :: "('a \<Rightarrow> 'a \<Rightarrow> bool) \<Rightarrow> nat \<Rightarrow> 'a list \<Rightarrow> 'a list \<Rightarrow> nat" where
  "scan_end eq start xs ys = scan_start eq (rev (drop start xs)) (rev (drop start ys))"

definition js_nat :: "nat \<Rightarrow> js" where
  "js_nat n = JNum (NInt (int n))"

definition replace_patch :: "js \<Rightarrow> js" where
  "replace_patch v = mk_obj [(''op'', JStr ''replace''), (''value'', v)]"

definition string_diff :: "string \<Rightarrow> string \<Rightarrow> js" where
  "string_diff before after =
     (let start = scan_start (=) before after;
          stop = scan_end (=) start before after
      in mk_obj [(''op'', JStr ''string''), (''start'', js_nat start),
           (''deleteCount'', js_nat (length before - start - stop)),
           (''insert'', JStr (take (length after - stop - start) (drop start after)))])"

text \<open>The recursive call, one level deeper, is an argument of the helpers.\<close>

type_synonym differ = "js \<Rightarrow> js \<Rightarrow> js option"

definition edits_of :: "differ \<Rightarrow> (string \<times> js) list \<Rightarrow> (string \<times> js) list \<Rightarrow> (string \<times> js) list" where
  "edits_of rec olds news = List.map_filter (\<lambda>(k, v). case map_of olds k of
      None \<Rightarrow> None | Some old \<Rightarrow> map_option (Pair k) (rec old v)) news"

definition added_of :: "(string \<times> js) list \<Rightarrow> (string \<times> js) list \<Rightarrow> (string \<times> js) list" where
  "added_of olds news = filter (\<lambda>(k, v). map_of olds k = None) news"

definition keyed_patch :: "differ \<Rightarrow> string \<Rightarrow> (string \<times> js) list \<Rightarrow> (string \<times> js) list \<Rightarrow> js option" where
  "keyed_patch rec keyField oldItems newItems =
     (let added = added_of oldItems newItems;
          edit = edits_of rec oldItems newItems;
          order = map fst newItems;
          sameOrder = (order = map fst oldItems)
      in if sameOrder \<and> added = [] \<and> edit = [] then None
         else Some (mk_obj ([(''op'', JStr ''keyed''), (''keyField'', JStr keyField)]
                @ (if sameOrder then [] else [(''order'', JArr (map JStr order))])
                @ [(''set'', mk_obj added), (''edit'', mk_obj edit)])))"

fun keyedDiff_fields :: "differ \<Rightarrow> string list \<Rightarrow> js list \<Rightarrow> js list \<Rightarrow> js option" where
  "keyedDiff_fields rec [] before after = None"
| "keyedDiff_fields rec (field # fields) before after =
     (case (keyed before field, keyed after field) of
        (Some olds, Some news) \<Rightarrow> keyed_patch rec field olds news
      | _ \<Rightarrow> keyedDiff_fields rec fields before after)"

definition keyedDiff :: "differ \<Rightarrow> js list \<Rightarrow> js list \<Rightarrow> js option" where
  "keyedDiff rec before after = keyedDiff_fields rec [''seq'', ''id''] before after"

definition array_edits_of :: "differ \<Rightarrow> nat list \<Rightarrow> js list \<Rightarrow> js list \<Rightarrow> (string \<times> js) list" where
  "array_edits_of rec is before after = List.map_filter (\<lambda>i.
     map_option (Pair (nat_text i)) (rec (before ! i) (after ! i))) is"

definition array_patch :: "nat \<Rightarrow> nat \<Rightarrow> js list \<Rightarrow> (string \<times> js) list \<Rightarrow> js" where
  "array_patch start n ins edit = mk_obj [(''op'', JStr ''array''), (''start'', js_nat start),
     (''deleteCount'', js_nat n), (''insert'', JArr ins), (''edit'', mk_obj edit)]"

definition array_diff :: "differ \<Rightarrow> js list \<Rightarrow> js list \<Rightarrow> js option" where
  "array_diff rec before after = (case keyedDiff rec before after of
     Some p \<Rightarrow> Some p
   | None \<Rightarrow>
      let start = scan_start same_json before after;
          stop = scan_end same_json start before after;
          oldCount = length before - start - stop;
          newCount = length after - start - stop
      in if oldCount = newCount then
           let edit = array_edits_of rec [start..<length before - stop] before after
           in if edit \<noteq> [] then Some (array_patch start 0 [] edit) else None
         else Some (array_patch start oldCount (take newCount (drop start after)) []))"

definition object_diff :: "differ \<Rightarrow> obj \<Rightarrow> obj \<Rightarrow> js option" where
  "object_diff rec before after =
     (let remove = filter (\<lambda>k. map_of after k = None) (map fst before);
          added = added_of before after;
          edit = edits_of rec before after
      in if added \<noteq> [] \<or> remove \<noteq> [] \<or> edit \<noteq> [] then
           Some (mk_obj [(''op'', JStr ''object''), (''set'', mk_obj added),
             (''remove'', JArr (map JStr remove)), (''edit'', mk_obj edit)])
         else None)"

function diff :: "nat \<Rightarrow> js \<Rightarrow> js \<Rightarrow> js option" where
  "diff depth before after =
     (if same_primitive before after then None
      else if depth > maxDepth then Some (replace_patch after)
      else case (before, after) of
        (JStr b, JStr a) \<Rightarrow> Some (string_diff b a)
      | (JArr bs, JArr as) \<Rightarrow> array_diff (\<lambda>b a. diff (Suc depth) b a) bs as
      | (JObj bs, JObj as) \<Rightarrow> object_diff (\<lambda>b a. diff (Suc depth) b a) bs as
      | _ \<Rightarrow> Some (replace_patch after))"
  by pat_completeness auto
termination
  by (relation "measure (\<lambda>(d, _). Suc maxDepth - d)") auto

declare diff.simps [simp del]

section \<open>Applying a patch\<close>

definition index :: "js \<Rightarrow> int \<Rightarrow> bool" where
  "index n upper = (safe_int n \<and> int_of n \<ge> 0 \<and> int_of n \<le> upper)"

definition nat_of :: "js \<Rightarrow> nat" where
  "nat_of v = nat (int_of v)"

type_synonym patcher = "js \<Rightarrow> js \<Rightarrow> string + js"

definition patch_string :: "js \<Rightarrow> js \<Rightarrow> string + js" where
  "patch_string before patch =
     (let s = str_of before; start = js_get patch ''start''; dc = js_get patch ''deleteCount'' in
      if \<not> is_string before \<or> \<not> is_string (js_get patch ''insert'') \<or> \<not> index start (int (length s))
         \<or> \<not> index dc (int (length s) - int_of start) then Inl ''Invalid string patch''
      else Inr (JStr (take (nat_of start) s @ str_of (js_get patch ''insert'')
             @ drop (nat_of start + nat_of dc) s)))"

text \<open>
  The loop over the order of a keyed patch; \<open>remaining\<close> and \<open>edits\<close> are the keys not consumed yet.
\<close>

fun keyed_loop :: "patcher \<Rightarrow> string \<Rightarrow> (string \<times> js) list \<Rightarrow> js \<Rightarrow> js \<Rightarrow> string list \<Rightarrow> string list
    \<Rightarrow> string list \<Rightarrow> js list \<Rightarrow> string + js list" where
  "keyed_loop rec field previous sets edits remaining editing seen [] =
     (if remaining \<noteq> [] \<or> editing \<noteq> [] then Inl ''Unused keyed edits'' else Inr [])"
| "keyed_loop rec field previous sets edits remaining editing seen (k # order) =
     (let key = str_of k in
      if \<not> is_string k \<or> key \<in> set seen then Inl ''Duplicate or invalid keyed order''
      else case map_of previous key of
        Some old \<Rightarrow>
          if key \<in> set remaining then Inl ''Existing keyed item replaced as new''
          else rbind (if key \<in> set editing then rec old (js_get edits key) else Inr old) (\<lambda>change.
            if itemKey change field \<noteq> Some key then Inl ''Edited keyed identity changed''
            else rbind (keyed_loop rec field previous sets edits remaining (removeAll key editing)
                         (key # seen) order) (\<lambda>next. Inr (change # next)))
      | None \<Rightarrow>
          if key \<notin> set remaining \<or> itemKey (js_get sets key) field \<noteq> Some key
          then Inl ''Invalid inserted keyed item''
          else rbind (keyed_loop rec field previous sets edits (removeAll key remaining) editing
                       (key # seen) order) (\<lambda>next. Inr (js_get sets key # next)))"

definition patch_keyed :: "patcher \<Rightarrow> js \<Rightarrow> js \<Rightarrow> string + js" where
  "patch_keyed rec before patch =
     (let keyField = js_get patch ''keyField''; order = js_get patch ''order'';
          sets = js_get patch ''set''; edits = js_get patch ''edit'' in
      if \<not> is_array before \<or> (keyField \<noteq> JStr ''seq'' \<and> keyField \<noteq> JStr ''id'')
         \<or> (order \<noteq> JUndef \<and> \<not> is_array order) \<or> \<not> is_object sets \<or> \<not> is_object edits
      then Inl ''Invalid keyed patch''
      else case keyed (arr_of before) (str_of keyField) of
        None \<Rightarrow> Inl ''Non-unique base keys''
      | Some previous \<Rightarrow>
          rbind (keyed_loop rec (str_of keyField) previous sets edits
              (map fst (fields_of sets)) (map fst (fields_of edits)) []
              (if order = JUndef then map (\<lambda>p. JStr (fst p)) previous else arr_of order))
            (\<lambda>next. Inr (JArr next)))"

text \<open>\<open>String(Number(key)) === key\<close> with an index below the length.\<close>

definition array_index :: "string \<Rightarrow> nat \<Rightarrow> nat option" where
  "array_index key n = (let at = nat_val key in
     if nat_text at = key \<and> index (js_nat at) (int n - 1) then Some at else None)"

fun array_edits :: "patcher \<Rightarrow> (string \<times> js) list \<Rightarrow> js list \<Rightarrow> string + js list" where
  "array_edits rec [] merged = Inr merged"
| "array_edits rec ((key, p) # edits) merged = (case array_index key (length merged) of
     None \<Rightarrow> Inl ''Invalid array index''
   | Some at \<Rightarrow> rbind (rec (merged ! at) p) (\<lambda>v. array_edits rec edits (merged[at := v])))"

definition patch_array :: "patcher \<Rightarrow> js \<Rightarrow> js \<Rightarrow> string + js" where
  "patch_array rec before patch =
     (let b = arr_of before; start = js_get patch ''start''; dc = js_get patch ''deleteCount'';
          ins = js_get patch ''insert''; edits = js_get patch ''edit'' in
      if \<not> is_array before \<or> \<not> is_array ins \<or> \<not> is_object edits \<or> \<not> index start (int (length b))
         \<or> \<not> index dc (int (length b) - int_of start) then Inl ''Invalid array patch''
      else rbind (array_edits rec (fields_of edits)
              (take (nat_of start) b @ arr_of ins @ drop (nat_of start + nat_of dc) b))
            (\<lambda>merged. Inr (JArr merged)))"

fun remove_fields :: "js list \<Rightarrow> obj \<Rightarrow> string + obj" where
  "remove_fields [] next = Inr next"
| "remove_fields (k # ks) next =
     (if \<not> is_string k \<or> map_of next (str_of k) = None then Inl ''Invalid removed field''
      else remove_fields ks (odel (str_of k) next))"

definition put_fields :: "obj \<Rightarrow> obj \<Rightarrow> obj" where
  "put_fields sets next = foldl (\<lambda>fs (k, v). oput k v fs) next sets"

fun object_edits :: "patcher \<Rightarrow> obj \<Rightarrow> obj \<Rightarrow> obj \<Rightarrow> string + obj" where
  "object_edits rec sets [] next = Inr next"
| "object_edits rec sets ((key, p) # edits) next =
     (if map_of next key = None \<or> map_of sets key \<noteq> None then Inl ''Invalid edited field''
      else rbind (rec (oget next key) p) (\<lambda>v. object_edits rec sets edits (oput key v next)))"

definition patch_object :: "patcher \<Rightarrow> js \<Rightarrow> js \<Rightarrow> string + js" where
  "patch_object rec before patch =
     (let sets = js_get patch ''set''; edits = js_get patch ''edit''; remove = js_get patch ''remove'' in
      if \<not> is_object before \<or> \<not> is_object sets \<or> \<not> is_object edits \<or> \<not> is_array remove
      then Inl ''Invalid object patch''
      else rbind (remove_fields (arr_of remove) (fields_of before)) (\<lambda>next.
             rbind (object_edits rec (fields_of sets) (fields_of edits) (put_fields (fields_of sets) next))
               (\<lambda>next. Inr (JObj next))))"

function patchValue :: "nat \<Rightarrow> js \<Rightarrow> js \<Rightarrow> string + js" where
  "patchValue depth before patch =
     (if depth > maxDepth \<or> \<not> is_object patch then Inl ''Invalid patch depth or shape''
      else let op = js_get patch ''op'' in
        if op = JStr ''replace'' then Inr (js_get patch ''value'')
        else if op = JStr ''string'' then patch_string before patch
        else if op = JStr ''keyed'' then patch_keyed (\<lambda>b p. patchValue (Suc depth) b p) before patch
        else if op = JStr ''array'' then patch_array (\<lambda>b p. patchValue (Suc depth) b p) before patch
        else if op = JStr ''object'' then patch_object (\<lambda>b p. patchValue (Suc depth) b p) before patch
        else Inl ''Unknown patch operation'')"
  by pat_completeness auto
termination
  by (relation "measure (\<lambda>(d, _). Suc maxDepth - d)") auto

declare patchValue.simps [simp del]

section \<open>Objects: a patch rebuilds the new document\<close>

text \<open>What the codec promises for one pair of documents.\<close>

definition works :: "differ \<Rightarrow> patcher \<Rightarrow> js \<Rightarrow> js \<Rightarrow> bool" where
  "works rd rp b a = (case rd b a of None \<Rightarrow> b = a | Some p \<Rightarrow> rp b p = Inr a \<and> wf_js p)"

lemma works_None: "works rd rp b a \<Longrightarrow> rd b a = None \<Longrightarrow> b = a"
  by (simp add: works_def)

lemma works_Some: "works rd rp b a \<Longrightarrow> rd b a = Some p \<Longrightarrow> rp b p = Inr a \<and> wf_js p"
  by (simp add: works_def)

lemma wf_mk_obj: "\<forall>p\<in>set fs. wf_js (snd p) \<Longrightarrow> wf_js (mk_obj fs)"
proof -
  assume a: "\<forall>p\<in>set fs. wf_js (snd p)"
  have "set (mk_fields fs) \<subseteq> set fs"
  proof (induction fs)
    case Nil
    then show ?case by (simp add: mk_fields_def)
  next
    case (Cons q fs)
    have "set (oput k v gs) \<subseteq> insert (k, v) (set gs)" for k and v :: js and gs
      by (induction k v gs rule: oput.induct) auto
    then show ?case using Cons by (simp add: mk_fields_def split_beta) fastforce
  qed
  with a show ?thesis by (auto simp: mk_obj_def list_all_iff)
qed

lemma wf_mk_obj_simps [simp]: "wf_js (js_nat n)"
  by (simp add: js_nat_def)

lemma distinct_added: "distinct (map fst news) \<Longrightarrow> distinct (map fst (added_of olds news))"
  by (simp add: added_of_def distinct_map_filter)

lemma map_of_added: "distinct (map fst news) \<Longrightarrow>
    map_of (added_of olds news) k = (if map_of olds k = None then map_of news k else None)"
  by (induction news) (auto simp: added_of_def)

lemma edits_of_Cons: "edits_of rec olds ((k, v) # news) = (case map_of olds k of
    None \<Rightarrow> edits_of rec olds news
  | Some old \<Rightarrow> (case rec old v of None \<Rightarrow> edits_of rec olds news | Some p \<Rightarrow> (k, p) # edits_of rec olds news))"
  by (simp add: edits_of_def List.map_filter_simps split: option.splits)

lemma edits_of_Nil [simp]: "edits_of rec olds [] = []"
  by (simp add: edits_of_def List.map_filter_simps)

lemma edits_of_keys: "k \<in> fst ` set (edits_of rec olds news) \<Longrightarrow> k \<in> fst ` set news"
proof (induction news)
  case (Cons p news)
  then show ?case by (cases p) (auto simp: edits_of_Cons split: option.splits)
qed simp

lemma distinct_edits: "distinct (map fst news) \<Longrightarrow> distinct (map fst (edits_of rec olds news))"
proof (induction news)
  case (Cons p news)
  obtain j v where p: "p = (j, v)" by (cases p)
  have "j \<notin> fst ` set (edits_of rec olds news)" using Cons.prems p edits_of_keys[of j rec olds news] by auto
  with Cons p show ?case by (simp add: edits_of_Cons split: option.splits)
qed simp

lemma map_of_edits: "distinct (map fst news) \<Longrightarrow> map_of (edits_of rec olds news) k =
    (case map_of olds k of None \<Rightarrow> None | Some b \<Rightarrow> (case map_of news k of None \<Rightarrow> None | Some a \<Rightarrow> rec b a))"
proof (induction news)
  case Nil
  show ?case by (cases "map_of olds k") simp_all
next
  case (Cons p news)
  obtain j v where p: "p = (j, v)" by (cases p)
  have ih: "map_of (edits_of rec olds news) k =
    (case map_of olds k of None \<Rightarrow> None | Some b \<Rightarrow> (case map_of news k of None \<Rightarrow> None | Some a \<Rightarrow> rec b a))"
    using Cons by simp
  show ?case
  proof (cases "k = j")
    case True
    have "map_of news j = None" using Cons.prems p by (simp add: map_of_eq_None_iff)
    then have "map_of (edits_of rec olds news) j = None" using ih True by (cases "map_of olds j") simp_all
    with True p show ?thesis by (cases "map_of olds j"; cases "rec (the (map_of olds j)) v") (simp_all add: edits_of_Cons)
  next
    case False
    then have "map_of (p # news) k = map_of news k" using p by simp
    moreover have "map_of (edits_of rec olds (p # news)) k = map_of (edits_of rec olds news) k"
      using False p by (cases "map_of olds j"; cases "rec (the (map_of olds j)) v") (simp_all add: edits_of_Cons)
    ultimately show ?thesis by (simp only: ih)
  qed
qed

lemma map_of_mem: "distinct (map fst fs) \<Longrightarrow> (k, v) \<in> set fs \<longleftrightarrow> map_of fs k = Some v"
  by (auto dest: map_of_SomeD)

lemma remove_fields_result:
  "distinct ks \<Longrightarrow> \<forall>k\<in>set ks. map_of fs k \<noteq> None \<Longrightarrow> keys_sorted fs \<Longrightarrow>
   \<exists>r. remove_fields (map JStr ks) fs = Inr r \<and> keys_sorted r
     \<and> (\<forall>j. map_of r j = (if j \<in> set ks then None else map_of fs j))"
proof (induction ks arbitrary: fs)
  case Nil
  then show ?case by simp
next
  case (Cons k ks)
  have "\<forall>k'\<in>set ks. map_of (odel k fs) k' \<noteq> None" using Cons.prems by auto
  then obtain r where "remove_fields (map JStr ks) (odel k fs) = Inr r" "keys_sorted r"
    "\<forall>j. map_of r j = (if j \<in> set ks then None else map_of (odel k fs) j)"
    using Cons.IH[of "odel k fs"] Cons.prems by force
  moreover have "map_of fs k \<noteq> None" using Cons.prems(2) by simp
  ultimately show ?case by simp
qed

lemma put_fields_result:
  "keys_sorted fs \<Longrightarrow> distinct (map fst sets) \<Longrightarrow> keys_sorted (put_fields sets fs)
   \<and> (\<forall>j. map_of (put_fields sets fs) j = (case map_of sets j of Some v \<Rightarrow> Some v | None \<Rightarrow> map_of fs j))"
proof (induction sets arbitrary: fs)
  case Nil
  then show ?case by (simp add: put_fields_def)
next
  case (Cons p sets)
  obtain k v where p: "p = (k, v)" by (cases p)
  have "put_fields (p # sets) fs = put_fields sets (oput k v fs)" by (simp add: put_fields_def p)
  moreover have "map_of sets k = None" using Cons.prems p by (simp add: map_of_eq_None_iff)
  ultimately show ?case using Cons.IH[of "oput k v fs"] Cons.prems p by (auto split: option.splits)
qed

lemma object_edits_result:
  "\<forall>(k, p)\<in>set es. map_of fs k \<noteq> None \<and> map_of sets k = None \<and> rec (oget fs k) p = Inr (g k) \<Longrightarrow>
   distinct (map fst es) \<Longrightarrow> keys_sorted fs \<Longrightarrow>
   \<exists>r. object_edits rec sets es fs = Inr r \<and> keys_sorted r
     \<and> (\<forall>j. map_of r j = (if j \<in> fst ` set es then Some (g j) else map_of fs j))"
proof (induction es arbitrary: fs)
  case Nil
  then show ?case by simp
next
  case (Cons e es)
  obtain k p where e: "e = (k, p)" by (cases e)
  let ?fs = "oput k (g k) fs"
  have fresh: "k \<notin> fst ` set es" using Cons.prems(2) e by simp
  have head: "map_of fs k \<noteq> None" "map_of sets k = None" "rec (oget fs k) p = Inr (g k)"
    using Cons.prems(1) e by simp_all
  have "map_of ?fs k' \<noteq> None \<and> map_of sets k' = None \<and> rec (oget ?fs k') p' = Inr (g k')"
    if "(k', p') \<in> set es" for k' p'
  proof -
    have "k' \<noteq> k" using that fresh by (metis fst_conv image_eqI)
    moreover have "map_of fs k' \<noteq> None \<and> map_of sets k' = None \<and> rec (oget fs k') p' = Inr (g k')"
      using Cons.prems(1) that by auto
    ultimately show ?thesis using Cons.prems(3) by (simp add: oget_def)
  qed
  then have "\<exists>r. object_edits rec sets es ?fs = Inr r \<and> keys_sorted r
     \<and> (\<forall>j. map_of r j = (if j \<in> fst ` set es then Some (g j) else map_of ?fs j))"
    using Cons.prems(2,3) e by (intro Cons.IH) auto
  then obtain r where r: "object_edits rec sets es ?fs = Inr r" "keys_sorted r"
    "\<And>j. map_of r j = (if j \<in> fst ` set es then Some (g j) else map_of ?fs j)" by blast
  have "object_edits rec sets (e # es) fs = Inr r" using head r(1) e by simp
  moreover have "map_of r j = (if j \<in> fst ` set (e # es) then Some (g j) else map_of fs j)" for j
    using r(3)[of j] e Cons.prems(3) by simp
  ultimately show ?case using r(2) by blast
qed

lemma object_diff_works:
  assumes s: "keys_sorted b" "keys_sorted a"
    and rec: "\<And>k v w. map_of b k = Some v \<Longrightarrow> map_of a k = Some w \<Longrightarrow> works rd rp v w"
    and wf: "wf_js (JObj a)"
  shows "case object_diff rd b a of None \<Rightarrow> b = a | Some p \<Rightarrow> patch_object rp (JObj b) p = Inr (JObj a)
      \<and> wf_js p \<and> js_get p ''op'' = JStr ''object''"
proof -
  have d: "distinct (map fst b)" "distinct (map fst a)" using s keys_sorted_distinct by auto
  let ?remove = "filter (\<lambda>k. map_of a k = None) (map fst b)"
  let ?added = "added_of b a" and ?edit = "edits_of rd b a"
  note added = map_of_added[OF d(2), of b] and edit = map_of_edits[OF d(2), of rd b]
  show ?thesis
  proof (cases "?added \<noteq> [] \<or> ?remove \<noteq> [] \<or> ?edit \<noteq> []")
    case False
    have "map_of b k = map_of a k" for k
    proof (cases "map_of b k")
      case None
      then show ?thesis using False added[of k] by simp
    next
      case (Some v)
      then have "k \<in> set (map fst b)" by (metis map_of_eq_None_iff option.distinct(1) set_map)
      moreover have "\<forall>k\<in>set (map fst b). map_of a k \<noteq> None" using False by (simp add: filter_empty_conv)
      ultimately obtain w where "map_of a k = Some w" by blast
      then show ?thesis using Some rec[of k v w] edit[of k] False by (simp add: works_def)
    qed
    then have "b = a" using s by (intro keys_sorted_eqI) simp_all
    then show ?thesis using False by (simp add: object_diff_def Let_def)
  next
    case True
    define p where "p = mk_obj [(''op'', JStr ''object''), (''set'', mk_obj ?added),
             (''remove'', JArr (map JStr ?remove)), (''edit'', mk_obj ?edit)]"
    have p: "object_diff rd b a = Some p" using True by (simp add: object_diff_def Let_def p_def)
    obtain n1 where n1: "remove_fields (map JStr ?remove) b = Inr n1" "keys_sorted n1"
      "\<And>j. map_of n1 j = (if j \<in> set ?remove then None else map_of b j)"
      using remove_fields_result[of ?remove b] s d(1) by (auto simp: map_of_eq_None_iff)
    let ?n2 = "put_fields (mk_fields ?added) n1"
    have n2: "keys_sorted ?n2" "\<And>j. map_of ?n2 j = (case map_of ?added j of Some v \<Rightarrow> Some v | None \<Rightarrow> map_of n1 j)"
      using put_fields_result[OF n1(2) keys_sorted_distinct[OF mk_fields_sorted], of ?added] by simp_all
    have dm: "distinct (map fst (mk_fields ?edit))" by (intro keys_sorted_distinct mk_fields_sorted)
    have es: "\<forall>(k, q)\<in>set (mk_fields ?edit). map_of ?n2 k \<noteq> None \<and> map_of (mk_fields ?added) k = None
        \<and> rp (oget ?n2 k) q = Inr (the (map_of a k))"
    proof (clarify)
      fix k q assume "(k, q) \<in> set (mk_fields ?edit)"
      then have "map_of ?edit k = Some q" using map_of_mem[OF dm] by simp
      then obtain v w where vw: "map_of b k = Some v" "map_of a k = Some w" "rd v w = Some q"
        unfolding edit by (auto split: option.splits)
      then have "map_of ?n2 k = Some v" using n2(2)[of k] n1(3)[of k] added[of k] by simp
      then show "map_of ?n2 k \<noteq> None \<and> map_of (mk_fields ?added) k = None \<and> rp (oget ?n2 k) q = Inr (the (map_of a k))"
        using vw added[of k] works_Some[OF rec vw(3)] by (simp add: oget_def)
    qed
    obtain r where r: "object_edits rp (mk_fields ?added) (mk_fields ?edit) ?n2 = Inr r" "keys_sorted r"
      "\<And>j. map_of r j = (if j \<in> fst ` set (mk_fields ?edit) then Some (the (map_of a j)) else map_of ?n2 j)"
      using object_edits_result[OF es dm n2(1)] by blast
    have "map_of r j = map_of a j" for j
    proof (cases "map_of ?edit j")
      case (Some q)
      then have "j \<in> fst ` set (mk_fields ?edit)" by (metis map_of_eq_None_iff mk_fields_keys option.distinct(1))
      moreover have "map_of a j \<noteq> None" using Some unfolding edit by (auto split: option.splits)
      ultimately show ?thesis using r(3)[of j] by auto
    next
      case None
      then have j: "j \<notin> fst ` set (mk_fields ?edit)" by (simp add: map_of_eq_None_iff)
      have "j \<in> set (map fst b) \<longleftrightarrow> map_of b j \<noteq> None" by (simp add: map_of_eq_None_iff)
      moreover have "v = w" if "map_of b j = Some v" "map_of a j = Some w" for v w
        using that rec[of j v w] edit[of j] None by (simp add: works_def)
      ultimately show ?thesis
        using j added[of j] n2(2)[of j] n1(3)[of j] r(3)[of j]
        by (cases "map_of a j"; cases "map_of b j") auto
    qed
    then have "r = a" using r(2) s by (intro keys_sorted_eqI) simp_all
    then have "patch_object rp (JObj b) p = Inr (JObj a)"
      using n1(1) r(1) by (simp add: patch_object_def p_def Let_def mk_obj_def[of ?added] mk_obj_def[of ?edit])
    moreover have "wf_js p"
    proof -
      have "wf_js w" if "(k, w) \<in> set ?added" for k w
        using that wf by (auto simp: added_of_def list_all_iff)
      moreover have "wf_js q" if kq: "(k, q) \<in> set ?edit" for k q
      proof -
        have "map_of ?edit k = Some q" using kq map_of_mem[OF distinct_edits[OF d(2)]] by simp
        then obtain v w where "map_of b k = Some v" "map_of a k = Some w" "rd v w = Some q"
          unfolding edit by (auto split: option.splits)
        then show ?thesis using rec works_Some by blast
      qed
      ultimately show ?thesis unfolding p_def by (auto intro!: wf_mk_obj simp: list_all_iff)
    qed
    ultimately show ?thesis using p by (simp add: p_def)
  qed
qed

section \<open>Strings and arrays\<close>

lemma scan_start_le: "scan_start eq xs ys \<le> length xs" "scan_start eq xs ys \<le> length ys"
proof -
  have "length (takeWhile (\<lambda>(x, y). eq x y) (zip xs ys)) \<le> length (zip xs ys)" by (rule length_takeWhile_le)
  then show "scan_start eq xs ys \<le> length xs" "scan_start eq xs ys \<le> length ys" by (simp_all add: scan_start_def)
qed

lemma scan_start_eq:
  assumes "\<forall>x\<in>set xs. \<forall>y\<in>set ys. eq x y \<longrightarrow> x = y"
  shows "take (scan_start eq xs ys) xs = take (scan_start eq xs ys) ys"
  using assms
proof (induction xs arbitrary: ys)
  case Nil
  then show ?case by (simp add: scan_start_def)
next
  case (Cons x xs)
  then show ?case by (cases ys) (auto simp: scan_start_def)
qed

lemma scan_end_le: "scan_end eq s xs ys \<le> length xs - s" "scan_end eq s xs ys \<le> length ys - s"
  using scan_start_le[of eq "rev (drop s xs)" "rev (drop s ys)"] by (simp_all add: scan_end_def)

lemma scan_end_eq:
  assumes "\<forall>x\<in>set xs. \<forall>y\<in>set ys. eq x y \<longrightarrow> x = y"
  shows "drop (length xs - scan_end eq s xs ys) xs = drop (length ys - scan_end eq s xs ys) ys"
proof -
  let ?n = "scan_end eq s xs ys"
  have "\<forall>x\<in>set (rev (drop s xs)). \<forall>y\<in>set (rev (drop s ys)). eq x y \<longrightarrow> x = y"
    using assms by (auto dest: in_set_dropD)
  then have "take ?n (rev (drop s xs)) = take ?n (rev (drop s ys))"
    unfolding scan_end_def by (rule scan_start_eq)
  then have "drop (length (drop s xs) - ?n) (drop s xs) = drop (length (drop s ys) - ?n) (drop s ys)"
    by (simp add: take_rev)
  moreover have "length xs - s - ?n + s = length xs - ?n \<or> ?n = 0" "length ys - s - ?n + s = length ys - ?n \<or> ?n = 0"
    using scan_end_le[of eq s xs ys] by linarith+
  ultimately show ?thesis by (cases "?n = 0") (simp_all add: drop_drop add.commute)
qed

text \<open>Prefix, new middle and suffix make up the new list.\<close>

lemma splice:
  assumes eq: "\<forall>x\<in>set b. \<forall>y\<in>set a. eq x y \<longrightarrow> x = y"
  defines "s \<equiv> scan_start eq b a"
  defines "e \<equiv> scan_end eq s b a"
  shows "take s b @ take (length a - e - s) (drop s a) @ drop (s + (length b - s - e)) b = a"
proof -
  have le: "s \<le> length a" "s \<le> length b" "e \<le> length a - s" "e \<le> length b - s"
    unfolding s_def e_def using scan_start_le scan_end_le by blast+
  have "take s b = take s a" unfolding s_def using eq by (rule scan_start_eq)
  moreover have "drop (s + (length b - s - e)) b = drop (length a - e) a"
    using scan_end_eq[OF eq, of s] le unfolding e_def[symmetric] by simp
  moreover have "take (length a - e - s) (drop s a) @ drop (length a - e) a = drop s a"
  proof -
    have "drop (length a - e) a = drop (length a - e - s) (drop s a)" using le by (simp add: drop_drop)
    then show ?thesis by (simp only: append_take_drop_id)
  qed
  ultimately show ?thesis by simp
qed

definition fits_index :: "nat \<Rightarrow> bool" where
  "fits_index n = (int n \<le> max_safe)"

lemma index_nat [simp]: "index (js_nat n) u \<longleftrightarrow> fits_index n \<and> int n \<le> u"
  by (auto simp: index_def js_nat_def safe_int_def fits_index_def)

lemma nat_of_nat [simp]: "nat_of (js_nat n) = n" "int_of (js_nat n) = int n"
  by (simp_all add: nat_of_def js_nat_def)

lemma fits_index_mono: "fits_index n \<Longrightarrow> m \<le> n \<Longrightarrow> fits_index m"
  by (simp add: fits_index_def)

lemma string_diff_works:
  assumes "fits_index (length b)"
  shows "patch_string (JStr b) (string_diff b a) = Inr (JStr a) \<and> wf_js (string_diff b a)
    \<and> js_get (string_diff b a) ''op'' = JStr ''string''"
proof -
  let ?s = "scan_start (=) b a" let ?e = "scan_end (=) ?s b a"
  have s: "?s \<le> length b" using scan_start_le by blast
  have "fits_index ?s" "fits_index (length b - ?s - ?e)" using assms s by (auto intro: fits_index_mono)
  moreover have "take ?s b @ take (length a - ?e - ?s) (drop ?s a) @ drop (?s + (length b - ?s - ?e)) b = a"
    by (rule splice) simp
  ultimately show ?thesis using s
    by (auto simp: patch_string_def string_diff_def Let_def intro!: wf_mk_obj)
qed

lemma array_index_nat: "i < n \<Longrightarrow> fits_index n \<Longrightarrow> array_index (nat_text i) n = Some i"
  using fits_index_mono[of n i] by (simp add: array_index_def Let_def)

lemma array_edits_result:
  "\<forall>(k, p)\<in>set es. \<exists>i<length xs. k = nat_text i \<and> rec (xs ! i) p = Inr (g i) \<Longrightarrow>
   distinct (map fst es) \<Longrightarrow> fits_index (length xs) \<Longrightarrow>
   \<exists>r. array_edits rec es xs = Inr r \<and> length r = length xs
     \<and> (\<forall>i<length xs. r ! i = (if nat_text i \<in> fst ` set es then g i else xs ! i))"
proof (induction es arbitrary: xs)
  case Nil
  then show ?case by simp
next
  case (Cons e es)
  obtain k p where e: "e = (k, p)" by (cases e)
  obtain i where i: "i < length xs" "k = nat_text i" "rec (xs ! i) p = Inr (g i)"
    using Cons.prems(1) e by auto
  let ?xs = "xs[i := g i]"
  have fresh: "k \<notin> fst ` set es" using Cons.prems(2) e by simp
  have "\<exists>i'<length ?xs. k' = nat_text i' \<and> rec (?xs ! i') p' = Inr (g i')" if kp: "(k', p') \<in> set es" for k' p'
  proof -
    obtain i' where i': "i' < length xs" "k' = nat_text i'" "rec (xs ! i') p' = Inr (g i')"
      using Cons.prems(1) kp by auto
    have "i' \<noteq> i" using kp fresh i' i by (metis fst_conv image_eqI)
    with i' show ?thesis by auto
  qed
  then have "\<exists>r. array_edits rec es ?xs = Inr r \<and> length r = length ?xs
     \<and> (\<forall>j<length ?xs. r ! j = (if nat_text j \<in> fst ` set es then g j else ?xs ! j))"
    using Cons.prems(2,3) e by (intro Cons.IH) auto
  then obtain r where r: "array_edits rec es ?xs = Inr r" "length r = length xs"
    "\<And>j. j < length xs \<Longrightarrow> r ! j = (if nat_text j \<in> fst ` set es then g j else ?xs ! j)" by auto
  have "array_edits rec (e # es) xs = Inr r"
    using i r(1) e array_index_nat[OF i(1) Cons.prems(3)] by simp
  moreover have "r ! j = (if nat_text j \<in> fst ` set (e # es) then g j else xs ! j)" if "j < length xs" for j
    using r(3)[OF that] e i by (cases "j = i") auto
  ultimately show ?case using r(2) by blast
qed

lemma array_edits_of_mem: "(k, p) \<in> set (array_edits_of rec is b a) \<longleftrightarrow>
    (\<exists>i\<in>set is. k = nat_text i \<and> rec (b ! i) (a ! i) = Some p)"
  by (induction "is") (auto simp: array_edits_of_def List.map_filter_simps split: option.splits)

lemma array_edits_of_distinct: "distinct is \<Longrightarrow> distinct (map fst (array_edits_of rec is b a))"
proof (induction "is")
  case Nil
  then show ?case by (simp add: array_edits_of_def List.map_filter_simps)
next
  case (Cons i js)
  have "nat_text i \<notin> fst ` set (array_edits_of rec js b a)"
    using Cons.prems by (auto simp: array_edits_of_mem)
  moreover have "array_edits_of rec (i # js) b a = (case rec (b ! i) (a ! i) of None \<Rightarrow> array_edits_of rec js b a
     | Some p \<Rightarrow> (nat_text i, p) # array_edits_of rec js b a)"
    by (simp add: array_edits_of_def List.map_filter_simps split: option.splits)
  ultimately show ?case using Cons by (simp split: option.splits)
qed

lemma set_mk_fields: "distinct (map fst fs) \<Longrightarrow> set (mk_fields fs) = set fs"
proof -
  assume d: "distinct (map fst fs)"
  have dm: "distinct (map fst (mk_fields fs))" by (intro keys_sorted_distinct mk_fields_sorted)
  have "(k, v) \<in> set (mk_fields fs) \<longleftrightarrow> (k, v) \<in> set fs" for k v
    using map_of_mem[OF d] map_of_mem[OF dm] by simp
  then show ?thesis by auto
qed

lemma nth_same_outside:
  assumes "take s b = take s a" "drop (length b - e) b = drop (length a - e) a" "length a = length b"
    "i < s \<or> length b - e \<le> i" "i < length b"
  shows "b ! i = a ! i"
proof (cases "i < s")
  case True
  then show ?thesis using assms(1) by (metis nth_take)
next
  case False
  let ?m = "length b - e"
  have "?m + (i - ?m) = i" using False assms by simp
  then have "b ! i = drop ?m b ! (i - ?m)" "a ! i = drop ?m a ! (i - ?m)" using assms(3) by simp_all
  then show ?thesis using assms(2,3) by simp
qed

text \<open>The same number of elements on both sides: only edits.\<close>

lemma array_edit_works:
  assumes len: "length a = length b" "fits_index (length b)" and s: "s \<le> length b"
    and rec: "\<And>i. i < length b \<Longrightarrow> works rd rp (b ! i) (a ! i)"
    and out: "\<And>i. i < length b \<Longrightarrow> i < s \<or> length b - e \<le> i \<Longrightarrow> b ! i = a ! i"
  defines "edit \<equiv> array_edits_of rd [s..<length b - e] b a"
  shows "edit = [] \<Longrightarrow> b = a"
    and "patch_array rp (JArr b) (array_patch s 0 [] edit) = Inr (JArr a)"
    and "wf_js (array_patch s 0 [] edit)"
proof -
  have same: "b ! i = a ! i" if "i < length b" "nat_text i \<notin> fst ` set edit" for i
  proof (cases "i < s \<or> length b - e \<le> i")
    case False
    then have "rd (b ! i) (a ! i) = None"
      using that(2) unfolding edit_def
      by (metis (no_types, lifting) array_edits_of_mem atLeastLessThan_iff fst_conv image_eqI
          not_le_imp_less not_Some_eq set_upt)
    with rec[OF that(1)] show ?thesis by (rule works_None)
  qed (use out that in blast)
  then show "edit = [] \<Longrightarrow> b = a" using len by (intro nth_equalityI) auto
  have d: "distinct (map fst edit)" unfolding edit_def by (rule array_edits_of_distinct) simp
  have es: "\<forall>(k, p)\<in>set (mk_fields edit). \<exists>i<length b. k = nat_text i \<and> rp (b ! i) p = Inr (a ! i)"
  proof (clarify)
    fix k q assume "(k, q) \<in> set (mk_fields edit)"
    then obtain i where i: "i \<in> set [s..<length b - e]" "k = nat_text i" "rd (b ! i) (a ! i) = Some q"
      unfolding set_mk_fields[OF d] unfolding edit_def by (auto simp: array_edits_of_mem)
    moreover have "i < length b" using i(1) by auto
    ultimately show "\<exists>i<length b. k = nat_text i \<and> rp (b ! i) q = Inr (a ! i)"
      using works_Some[OF rec i(3)] by blast
  qed
  have dm: "distinct (map fst (mk_fields edit))" by (intro keys_sorted_distinct mk_fields_sorted)
  obtain r where r: "array_edits rp (mk_fields edit) b = Inr r" "length r = length b"
    "\<And>i. i < length b \<Longrightarrow> r ! i = (if nat_text i \<in> fst ` set (mk_fields edit) then a ! i else b ! i)"
    using array_edits_result[OF es dm len(2)] by blast
  have "r = a" using r(2,3) len(1) same by (intro nth_equalityI) auto
  then show "patch_array rp (JArr b) (array_patch s 0 [] edit) = Inr (JArr a)"
    using r(1) s len fits_index_mono[OF len(2) s] fits_index_mono[OF len(2), of 0]
    by (simp add: patch_array_def array_patch_def Let_def mk_obj_def[of edit])
  have "wf_js q" if kq: "(k, q) \<in> set edit" for k q
  proof -
    obtain i where i: "i \<in> set [s..<length b - e]" "rd (b ! i) (a ! i) = Some q"
      using kq unfolding edit_def by (auto simp: array_edits_of_mem)
    moreover have "i < length b" using i(1) by auto
    ultimately show ?thesis using works_Some[OF rec] by blast
  qed
  then show "wf_js (array_patch s 0 [] edit)"
    unfolding array_patch_def by (auto intro!: wf_mk_obj)
qed

section \<open>Keyed arrays\<close>

lemma keyed_from_result:
  "keyed_from done items field = Some m \<Longrightarrow> distinct (map fst done) \<Longrightarrow>
     \<forall>(k, x)\<in>set done. itemKey x field = Some k \<Longrightarrow>
   \<exists>ks. m = done @ ks \<and> map snd ks = items \<and> distinct (map fst m) \<and> (\<forall>(k, x)\<in>set m. itemKey x field = Some k)"
proof (induction "done" items field rule: keyed_from.induct)
  case (1 result field)
  then show ?case by simp
next
  case (2 result item items field)
  from "2.prems"(1) obtain key where key: "itemKey item field = Some key" "key \<notin> fst ` set result"
    "keyed_from (result @ [(key, item)]) items field = Some m" by (auto split: option.splits if_splits)
  have "\<exists>ks. m = (result @ [(key, item)]) @ ks \<and> map snd ks = items \<and> distinct (map fst m)
      \<and> (\<forall>(k, x)\<in>set m. itemKey x field = Some k)"
    using "2.IH"[OF key(1,2,3)] key "2.prems"(2,3) by auto
  then obtain ks where "m = (result @ [(key, item)]) @ ks" "map snd ks = items" "distinct (map fst m)"
      "\<forall>(k, x)\<in>set m. itemKey x field = Some k" by blast
  then show ?case by (intro exI[of _ "(key, item) # ks"]) simp
qed

lemma keyed_result:
  assumes "keyed items field = Some m"
  shows "map snd m = items" "distinct (map fst m)" "(k, x) \<in> set m \<Longrightarrow> itemKey x field = Some k"
  using keyed_from_result[of "[]" items field m] assms by (auto simp: keyed_def)

lemma keyed_nth:
  assumes "keyed items field = Some m" "map_of m k = Some x"
  shows "x \<in> set items" "itemKey x field = Some k"
proof -
  have "(k, x) \<in> set m" using assms(2) by (rule map_of_SomeD)
  then show "itemKey x field = Some k" "x \<in> set items"
    using keyed_result[OF assms(1)] by (metis, metis image_eqI set_map snd_conv)
qed

text \<open>
  The loop over the new order, entered with the keys still to be inserted or edited, rebuilds the
  new items.
\<close>

lemma keyed_loop_result:
  assumes "\<And>k x. (k, x) \<in> set news \<Longrightarrow> itemKey x field = Some k"
    and "\<And>k x. (k, x) \<in> set news \<Longrightarrow> map_of olds k = None \<Longrightarrow> js_get sets k = x"
    and "\<And>k x old. (k, x) \<in> set news \<Longrightarrow> map_of olds k = Some old \<Longrightarrow>
          (if k \<in> set editing then rp old (js_get edits k) = Inr x else old = x)"
    and "set remaining = {k \<in> fst ` set news. map_of olds k = None}"
    and "set editing \<subseteq> {k \<in> fst ` set news. map_of olds k \<noteq> None}"
    and "distinct (map fst news)" "set seen \<inter> fst ` set news = {}"
  shows "keyed_loop rp field olds sets edits remaining editing seen (map (\<lambda>p. JStr (fst p)) news) = Inr (map snd news)"
  using assms
proof (induction news arbitrary: remaining editing seen)
  case Nil
  then show ?case by simp
next
  case (Cons p news)
  obtain k x where p: "p = (k, x)" by (cases p)
  have fresh: "k \<notin> fst ` set news" "k \<notin> set seen" using Cons.prems(6,7) p by auto
  have ik: "itemKey x field = Some k" using Cons.prems(1)[of k x] p by simp
  have step: "keyed_loop rp field olds sets edits remaining' editing' (k # seen) (map (\<lambda>p. JStr (fst p)) news) = Inr (map snd news)"
    if "set remaining' = {k \<in> fst ` set news. map_of olds k = None}" "set editing' = set editing - {k}"
    for remaining' editing'
  proof (rule Cons.IH)
    fix k' x' old assume a: "(k', x') \<in> set news" "map_of olds k' = Some old"
    then have "k' \<noteq> k" using fresh(1) by force
    then show "if k' \<in> set editing' then rp old (js_get edits k') = Inr x' else old = x'"
      using Cons.prems(3)[of k' x' old] a that(2) by simp
  next
    show "set editing' \<subseteq> {k \<in> fst ` set news. map_of olds k \<noteq> None}"
      using Cons.prems(5) that(2) p by auto
  next
    show "set (k # seen) \<inter> fst ` set news = {}" using Cons.prems(7) fresh p by auto
  qed (use Cons.prems p that in auto)
  show ?case
  proof (cases "map_of olds k")
    case None
    have rem: "k \<in> set remaining" using Cons.prems(4) None p by auto
    have "set (removeAll k remaining) = {k \<in> fst ` set news. map_of olds k = None}"
      using Cons.prems(4) fresh(1) p by auto
    moreover have "set editing = set editing - {k}" using Cons.prems(5) None by auto
    ultimately have "keyed_loop rp field olds sets edits (removeAll k remaining) editing (k # seen) (map (\<lambda>p. JStr (fst p)) news)
        = Inr (map snd news)" by (rule step)
    moreover have "js_get sets k = x" using Cons.prems(2)[of k x] None p by simp
    ultimately show ?thesis using None rem ik fresh(2) p by simp
  next
    case (Some old)
    have rem: "k \<notin> set remaining" using Cons.prems(4) Some by auto
    have "set remaining = {k \<in> fst ` set news. map_of olds k = None}"
      using Cons.prems(4) Some p by auto
    then have "keyed_loop rp field olds sets edits remaining (removeAll k editing) (k # seen) (map (\<lambda>p. JStr (fst p)) news)
        = Inr (map snd news)" by (rule step) auto
    moreover have "(if k \<in> set editing then rp old (js_get edits k) else Inr old) = Inr x"
      using Cons.prems(3)[of k x old] Some p by auto
    ultimately show ?thesis using Some rem ik fresh(2) p by simp
  qed
qed

lemma keyed_patch_works:
  assumes olds: "keyed b field = Some olds" and news: "keyed a field = Some news"
    and f: "field = ''seq'' \<or> field = ''id''"
    and rec: "\<And>v w. v \<in> set b \<Longrightarrow> w \<in> set a \<Longrightarrow> works rd rp v w"
    and wf: "list_all wf_js a"
  shows "case keyed_patch rd field olds news of None \<Rightarrow> b = a
    | Some p \<Rightarrow> patch_keyed rp (JArr b) p = Inr (JArr a) \<and> wf_js p \<and> js_get p ''op'' = JStr ''keyed''"
proof -
  note o = keyed_result[OF olds] and n = keyed_result[OF news]
  let ?added = "added_of olds news" and ?edit = "edits_of rd olds news" and ?order = "map fst news"
  let ?same = "?order = map fst olds"
  note added = map_of_added[OF n(2), of olds] and edit = map_of_edits[OF n(2), of rd olds]
  have look: "map_of news k = Some x" if "(k, x) \<in> set news" for k x using that map_of_mem[OF n(2)] by simp
  have pair: "works rd rp old x" if "map_of olds k = Some old" "map_of news k = Some x" for k old x
    using rec keyed_nth(1)[OF olds that(1)] keyed_nth(1)[OF news that(2)] by blast
  have kept: "old = x" if "map_of olds k = Some old" "map_of news k = Some x" "map_of ?edit k = None" for k old x
    using that works_None[OF pair[OF that(1,2)]] by (simp add: edit)
  show ?thesis
  proof (cases "?same \<and> ?added = [] \<and> ?edit = []")
    case True
    have len: "length olds = length news" using True by (metis length_map)
    have "snd (olds ! i) = snd (news ! i)" if i: "i < length news" for i
    proof -
      have "fst (olds ! i) = fst (news ! i)" using True i len by (metis nth_map)
      moreover have "map_of olds (fst (olds ! i)) = Some (snd (olds ! i))"
        using i len map_of_mem[OF o(2), symmetric] by simp
      moreover have "map_of news (fst (news ! i)) = Some (snd (news ! i))"
        using i look[of "fst (news ! i)" "snd (news ! i)"] by simp
      ultimately show ?thesis using kept[of "fst (olds ! i)"] True by simp
    qed
    then have "map snd olds = map snd news" using len by (intro nth_equalityI) simp_all
    then show ?thesis using True o(1) n(1) by (simp add: keyed_patch_def Let_def)
  next
    case False
    define p where "p = mk_obj ([(''op'', JStr ''keyed''), (''keyField'', JStr field)]
                @ (if ?same then [] else [(''order'', JArr (map JStr ?order))])
                @ [(''set'', mk_obj ?added), (''edit'', mk_obj ?edit)])"
    have p: "keyed_patch rd field olds news = Some p" using False by (auto simp: keyed_patch_def Let_def p_def)
    have get: "js_get p ''op'' = JStr ''keyed''" "js_get p ''keyField'' = JStr field" "js_get p ''set'' = mk_obj ?added"
      "js_get p ''edit'' = mk_obj ?edit" "js_get p ''order'' = (if ?same then JUndef else JArr (map JStr ?order))"
      by (simp_all add: p_def)
    have order: "(if js_get p ''order'' = JUndef then map (\<lambda>p. JStr (fst p)) olds else arr_of (js_get p ''order''))
        = map (\<lambda>p. JStr (fst p)) news"
    proof -
      have eq: "map (\<lambda>p. JStr (fst p)) xs = map JStr (map fst xs)" for xs :: "(string \<times> js) list" by simp
      show ?thesis unfolding eq get(5) by (cases ?same) simp_all
    qed
    have loop: "keyed_loop rp field olds (mk_obj ?added) (mk_obj ?edit) (map fst (mk_fields ?added))
        (map fst (mk_fields ?edit)) [] (map (\<lambda>p. JStr (fst p)) news) = Inr (map snd news)"
    proof (rule keyed_loop_result)
      show "itemKey x field = Some k" if "(k, x) \<in> set news" for k x using that by (rule n(3))
      show "js_get (mk_obj ?added) k = x" if "(k, x) \<in> set news" "map_of olds k = None" for k x
        using that look by (simp add: oget_def added)
      show "if k \<in> set (map fst (mk_fields ?edit)) then rp old (js_get (mk_obj ?edit) k) = Inr x else old = x"
        if kx: "(k, x) \<in> set news" "map_of olds k = Some old" for k x old
      proof (cases "map_of ?edit k")
        case None
        then show ?thesis using kept[OF kx(2) look[OF kx(1)]] by (simp add: map_of_eq_None_iff)
      next
        case (Some q)
        then have "rd old x = Some q" using kx look by (simp add: edit)
        then have "rp old q = Inr x" using works_Some pair[OF kx(2) look[OF kx(1)]] by blast
        moreover have "k \<in> fst ` set ?edit" using Some by (metis map_of_eq_None_iff option.distinct(1))
        ultimately show ?thesis using Some by (simp add: oget_def)
      qed
      show "set (map fst (mk_fields ?added)) = {k \<in> fst ` set news. map_of olds k = None}"
        by (auto simp: added_of_def)
      have "k \<in> fst ` set news \<and> map_of olds k \<noteq> None" if "k \<in> fst ` set ?edit" for k
      proof -
        have "map_of ?edit k \<noteq> None" using that by (simp add: map_of_eq_None_iff)
        then show ?thesis using edits_of_keys[OF that] by (auto simp: edit split: option.splits)
      qed
      then show "set (map fst (mk_fields ?edit)) \<subseteq> {k \<in> fst ` set news. map_of olds k \<noteq> None}"
        by auto
    qed (use n(2) in auto)
    have "\<not> (js_get p ''order'' \<noteq> JUndef \<and> \<not> is_array (js_get p ''order''))" by (simp add: get(5))
    moreover have "keyed (arr_of (JArr b)) (str_of (js_get p ''keyField'')) = Some olds"
      using olds by (simp add: get(2))
    ultimately have "patch_keyed rp (JArr b) p = rbind (keyed_loop rp (str_of (js_get p ''keyField'')) olds
              (js_get p ''set'') (js_get p ''edit'')
              (map fst (fields_of (js_get p ''set''))) (map fst (fields_of (js_get p ''edit''))) []
              (map (\<lambda>p. JStr (fst p)) news)) (\<lambda>next. Inr (JArr next))"
      using f unfolding patch_keyed_def Let_def order[symmetric] by (auto simp: get(2,3,4))
    then have "patch_keyed rp (JArr b) p = Inr (JArr a)"
      using loop n(1) unfolding get(2,3,4) by (simp add: mk_obj_def[of ?added] mk_obj_def[of ?edit])
    moreover have "wf_js p"
    proof -
      have "wf_js x" if "(k, x) \<in> set ?added" for k x
      proof -
        have "x \<in> set (map snd news)" using that by (force simp: added_of_def)
        then show ?thesis using n(1) wf by (auto simp: list_all_iff)
      qed
      moreover have "wf_js q" if kq: "(k, q) \<in> set ?edit" for k q
      proof -
        have "map_of ?edit k = Some q" using kq map_of_mem[OF distinct_edits[OF n(2)]] by simp
        then obtain v w where "map_of olds k = Some v" "map_of news k = Some w" "rd v w = Some q"
          unfolding edit by (auto split: option.splits)
        then show ?thesis using pair works_Some by blast
      qed
      ultimately show ?thesis unfolding p_def by (auto intro!: wf_mk_obj simp: list_all_iff)
    qed
    ultimately show ?thesis using p get(1) by simp
  qed
qed

lemma keyedDiff_works:
  assumes rec: "\<And>v w. v \<in> set b \<Longrightarrow> w \<in> set a \<Longrightarrow> works rd rp v w" and wf: "list_all wf_js a"
    and p: "keyedDiff rd b a = Some p"
  shows "patch_keyed rp (JArr b) p = Inr (JArr a) \<and> wf_js p \<and> js_get p ''op'' = JStr ''keyed''"
proof -
  have "\<exists>field olds news. (field = ''seq'' \<or> field = ''id'') \<and> keyed b field = Some olds \<and> keyed a field = Some news
      \<and> keyed_patch rd field olds news = Some p"
    using p by (auto simp: keyedDiff_def split: option.splits)
  then obtain field olds news where "field = ''seq'' \<or> field = ''id''" "keyed b field = Some olds"
      "keyed a field = Some news" "keyed_patch rd field olds news = Some p" by blast
  with keyed_patch_works[of b field olds a news rd rp, OF _ _ _ rec wf] show ?thesis by simp
qed

lemma array_diff_works:
  assumes rec: "\<And>v w. v \<in> set b \<Longrightarrow> w \<in> set a \<Longrightarrow> works rd rp v w"
    and wf: "list_all wf_js b" "list_all wf_js a" and len: "fits_index (length b)"
  shows "case array_diff rd b a of None \<Rightarrow> b = a
    | Some p \<Rightarrow> wf_js p \<and> (js_get p ''op'' = JStr ''keyed'' \<and> patch_keyed rp (JArr b) p = Inr (JArr a)
        \<or> js_get p ''op'' = JStr ''array'' \<and> patch_array rp (JArr b) p = Inr (JArr a))"
proof (cases "keyedDiff rd b a")
  case (Some p)
  then show ?thesis using keyedDiff_works[OF rec wf(2) Some] by (simp add: array_diff_def)
next
  case None
  let ?s = "scan_start same_json b a" let ?e = "scan_end same_json ?s b a"
  have same: "\<forall>x\<in>set b. \<forall>y\<in>set a. same_json x y \<longrightarrow> x = y"
    using wf same_json_iff by (auto simp: list_all_iff)
  have s: "?s \<le> length b" "?s \<le> length a" using scan_start_le by blast+
  have e: "?e \<le> length b - ?s" "?e \<le> length a - ?s" using scan_end_le by blast+
  have opa: "js_get (array_patch s n ins edit) ''op'' = JStr ''array''" for s n ins edit
    by (simp add: array_patch_def)
  show ?thesis
  proof (cases "length b - ?s - ?e = length a - ?s - ?e")
    case True
    then have l: "length a = length b" using s e by linarith
    have out: "b ! i = a ! i" if "i < length b" "i < ?s \<or> length b - ?e \<le> i" for i
      using nth_same_outside[OF scan_start_eq[OF same] scan_end_eq[OF same] l] that by blast
    have pos: "works rd rp (b ! i) (a ! i)" if "i < length b" for i using rec l that by simp
    note w = array_edit_works[OF l len s(1) pos out, where e = ?e]
    show ?thesis
      using w None True l opa by (auto simp: array_diff_def Let_def)
  next
    case False
    let ?ins = "take (length a - ?s - ?e) (drop ?s a)"
    have m: "take ?s b @ take (length a - ?e - ?s) (drop ?s a) @ drop (?s + (length b - ?s - ?e)) b = a"
      using same by (rule splice)
    have "length a - ?e - ?s = length a - ?s - ?e" by simp
    with m have m': "take ?s b @ ?ins @ drop (?s + (length b - ?s - ?e)) b = a" by simp
    have fi: "fits_index ?s" "fits_index (length b - ?s - ?e)" using len s by (auto intro: fits_index_mono)
    have "patch_array rp (JArr b) (array_patch ?s (length b - ?s - ?e) ?ins []) = Inr (JArr a)"
      using m' fi s by (simp add: patch_array_def array_patch_def Let_def mk_obj_def[of "[]"] mk_fields_def del: append_assoc)
    moreover have "wf_js (array_patch ?s (length b - ?s - ?e) ?ins [])"
      using wf by (auto simp: array_patch_def list_all_iff mk_obj_def[of "[]"] mk_fields_def[of "[]"] intro!: wf_mk_obj
          dest!: in_set_takeD in_set_dropD)
    ultimately show ?thesis using None False opa by (simp add: array_diff_def Let_def)
  qed
qed

section \<open>The codec round trip\<close>

text \<open>Lengths that fit an index, at every level; bounded by the length of the text.\<close>

function lengths_ok :: "js \<Rightarrow> bool" where
  "lengths_ok (JArr xs) = (fits_index (length xs) \<and> list_all lengths_ok xs)"
| "lengths_ok (JObj fs) = list_all (\<lambda>p. lengths_ok (snd p)) fs"
| "lengths_ok (JStr s) = fits_index (length s)"
| "lengths_ok JUndef = True"
| "lengths_ok JNull = True"
| "lengths_ok (JBool b) = True"
| "lengths_ok (JNum n) = True"
  by pat_completeness auto
termination
  by (relation "measure size") (auto dest: size_field size_item)

lemma get_is_object: "js_get p k = JStr s \<Longrightarrow> is_object p"
  by (cases p) (auto simp: js_get_def fields_of_def)

lemma works_diff: "wf_js b \<Longrightarrow> wf_js a \<Longrightarrow> depth_ok d b \<Longrightarrow> depth_ok d a \<Longrightarrow> lengths_ok b \<Longrightarrow>
    works (diff d) (patchValue d) b a"
proof (induction d b a rule: diff.induct)
  case (1 d b a)
  have d: "\<not> d > maxDepth" using "1.prems"(3) by (cases b) auto
  show ?case
  proof (cases "same_primitive b a")
    case True
    then have "diff d b a = None" by (simp add: diff.simps[of d b a])
    with True show ?thesis by (simp add: works_def same_primitive_def)
  next
    case np: False
    have replace: "works (diff d) (patchValue d) b a" if "diff d b a = Some (replace_patch a)"
      using that d "1.prems"(2) by (auto simp: works_def patchValue.simps[of d b] replace_patch_def intro!: wf_mk_obj)
    let ?rd = "\<lambda>b a. diff (Suc d) b a" let ?rp = "\<lambda>b p. patchValue (Suc d) b p"
    note red = diff.simps[of d b a] patchValue.simps[of d b]
    consider s t where "b = JStr s" "a = JStr t" | bs as where "b = JArr bs" "a = JArr as"
      | bs as where "b = JObj bs" "a = JObj as" | "diff d b a = Some (replace_patch a)"
      using np d diff.simps[of d b a] by (cases b; cases a) simp_all
    then show ?thesis
    proof cases
      case (1 s t)
      then show ?thesis using string_diff_works[of s t] "1.prems"(5) np d
        unfolding works_def red by (auto dest: get_is_object)
    next
      case (2 bs as)
      have rec: "works ?rd ?rp v w" if "v \<in> set bs" "w \<in> set as" for v w
        using "1.IH"(1)[OF np d _ 2, of v w] "1.prems" 2 that by (auto simp: list_all_iff works_def)
      have "case array_diff ?rd bs as of None \<Rightarrow> bs = as
         | Some p \<Rightarrow> wf_js p \<and> (js_get p ''op'' = JStr ''keyed'' \<and> patch_keyed ?rp (JArr bs) p = Inr (JArr as)
        \<or> js_get p ''op'' = JStr ''array'' \<and> patch_array ?rp (JArr bs) p = Inr (JArr as))"
        using "1.prems" 2 by (intro array_diff_works rec) auto
      then show ?thesis using 2 np d unfolding works_def red by (auto dest: get_is_object split: option.splits)
    next
      case (3 bs as)
      have rec: "works ?rd ?rp v w" if "map_of bs k = Some v" "map_of as k = Some w" for k v w
      proof -
        have "wf_js v \<and> depth_ok (Suc d) v \<and> lengths_ok v"
          using "1.prems"(1,3,5) 3(1) map_of_SomeD[OF that(1)] by (force simp: list_all_iff)
        moreover have "wf_js w \<and> depth_ok (Suc d) w"
          using "1.prems"(2,4) 3(2) map_of_SomeD[OF that(2)] by (force simp: list_all_iff)
        ultimately show ?thesis using "1.IH"(2)[OF np d _ 3, of v w] by (simp add: works_def)
      qed
      have "case object_diff ?rd bs as of None \<Rightarrow> bs = as | Some p \<Rightarrow> patch_object ?rp (JObj bs) p = Inr (JObj as)
          \<and> wf_js p \<and> js_get p ''op'' = JStr ''object''"
        using "1.prems"(1,2) 3 by (intro object_diff_works rec) auto
      then show ?thesis using 3 np d unfolding works_def red by (auto dest: get_is_object split: option.splits)
    qed (rule replace)
  qed
qed

lemma length_commas_item: "x \<in> set zs \<Longrightarrow> length x \<le> length (commas zs)"
  by (cases zs) (auto simp: length_concat intro: member_le_sum_list[THEN order_trans] dest: in_set_conv_decomp[THEN iffD1])

lemma length_commas_count: "\<forall>x\<in>set zs. x \<noteq> [] \<Longrightarrow> length zs \<le> length (commas zs)"
proof (cases zs)
  case (Cons z zs')
  assume "\<forall>x\<in>set zs. x \<noteq> []"
  then have "1 \<le> length z" using Cons by (simp add: Suc_leI)
  moreover have "length zs' \<le> length (concat (map (\<lambda>y. CHR '','' # y) zs'))" by (induction zs') auto
  ultimately show ?thesis using Cons by simp
qed simp

lemma length_quoted: "length s \<le> length (quoted s)"
proof -
  have one: "1 \<le> length (esc c)" for c using esc_head[of c] by (cases "esc c") simp_all
  have "length s \<le> length (concat (map esc s))"
  proof (induction s)
    case (Cons c s)
    then show ?case using one[of c] by simp
  qed simp
  then show ?thesis by (simp add: quoted_def)
qed

lemma lengths_okI: "wf_js v \<Longrightarrow> fits_index (length (json_text v)) \<Longrightarrow> lengths_ok v"
proof (induction v rule: lengths_ok.induct)
  case (1 xs)
  have "length xs \<le> length (commas (map json_text xs))"
    using length_commas_count[of "map json_text xs"] json_text_head(1) "1.prems"(1) by (auto simp: list_all_iff)
  moreover have "length (json_text x) \<le> length (commas (map json_text xs))" if "x \<in> set xs" for x
    using that by (intro length_commas_item) simp
  ultimately show ?case using 1 fits_index_mono[OF "1.prems"(2)] by (auto simp: list_all_iff le_SucI)
next
  case (2 fs)
  let ?e = "\<lambda>p. quoted (fst p) @ CHR '':'' # json_text (snd p)"
  have "length (json_text (snd p)) \<le> length (json_text (JObj fs))" if "p \<in> set fs" for p
    using that length_commas_item[of "?e p" "map ?e fs"] by simp
  then show ?case using 2 fits_index_mono[OF "2.prems"(2)] by (auto simp: list_all_iff)
next
  case (3 s)
  then show ?case using length_quoted[of s] fits_index_mono[OF "3.prems"(2)] by simp
qed auto

text \<open>The documents the codec is used on: what \<open>encode\<close> accepted.\<close>

definition bounded_doc :: "js \<Rightarrow> bool" where
  "bounded_doc v = (wf_js v \<and> depth_ok 0 v \<and> fits_index (length (json_text v)))"

lemma encode_bounded:
  assumes "encode v limit = Inr d" "js_ok v" "limit \<le> max_safe"
  shows "bounded_doc d" "text_length d * 2 \<le> limit" "d = normalise v"
proof -
  have v: "v \<noteq> JUndef" "d = normalise v" "depth_ok 0 d" "text_length d * 2 \<le> limit"
    using assms(1) by (auto simp: encode_def Let_def split: if_splits)
  then show "d = normalise v" "text_length d * 2 \<le> limit" by simp_all
  have "text_length d \<le> text_length d * 2" by (simp add: text_length_def)
  then show "bounded_doc d"
    using v assms(2,3) normalise_wf by (auto simp: bounded_doc_def fits_index_def text_length_def)
qed

lemma encode_doc: "bounded_doc d \<Longrightarrow> text_length d * 2 \<le> limit \<Longrightarrow> encode d limit = Inr d"
  by (auto simp: encode_def bounded_doc_def normalise_id Let_def)

text \<open>The contract of a patch codec, and what follows for a reader that replays a history.\<close>

locale patch_codec =
  fixes doc :: "'d \<Rightarrow> bool"
    and delta :: "'d \<Rightarrow> 'd \<Rightarrow> 'p option"
    and apply_delta :: "'d \<Rightarrow> 'p \<Rightarrow> 'e + 'd"
  assumes rebuild: "doc b \<Longrightarrow> doc a \<Longrightarrow> delta b a = Some p \<Longrightarrow> apply_delta b p = Inr a"
    and unchanged: "doc b \<Longrightarrow> doc a \<Longrightarrow> delta b a = None \<Longrightarrow> b = a"
begin

text \<open>The patches from each document of a history to the next; an unchanged step sends nothing.\<close>

fun deltas :: "'d \<Rightarrow> 'd list \<Rightarrow> 'p list" where
  "deltas b [] = []"
| "deltas b (a # as) = (case delta b a of None \<Rightarrow> deltas a as | Some p \<Rightarrow> p # deltas a as)"

fun replay :: "'d \<Rightarrow> 'p list \<Rightarrow> 'e + 'd" where
  "replay b [] = Inr b"
| "replay b (p # ps) = rbind (apply_delta b p) (\<lambda>a. replay a ps)"

lemma replay_deltas: "doc b \<Longrightarrow> list_all doc as \<Longrightarrow> replay b (deltas b as) = Inr (last (b # as))"
proof (induction "as" arbitrary: b)
  case (Cons a as)
  then show ?case
    using rebuild[of b a] unchanged[of b a] by (cases "delta b a") auto
qed simp

end

interpretation codec: patch_codec bounded_doc "diff 0" "patchValue 0"
proof (unfold_locales, goal_cases)
  case (1 b a p)
  then show ?case using works_diff[of b a 0] lengths_okI[of b] by (simp add: bounded_doc_def works_def)
next
  case (2 b a)
  then show ?case using works_diff[of b a 0] lengths_okI[of b] by (simp add: bounded_doc_def works_def)
qed

text \<open>A patch is itself a JSON document, so the wire does not change it.\<close>

lemma diff_wf: "bounded_doc b \<Longrightarrow> bounded_doc a \<Longrightarrow> diff 0 b a = Some p \<Longrightarrow> wf_js p"
  using works_diff[of b a 0] lengths_okI[of b] by (simp add: bounded_doc_def works_def)

section \<open>A patch from the wire yields a value\<close>

text \<open>Whatever well-formed frame arrives, the patched value is one that \<open>encode\<close> can be given.\<close>

definition safe_patcher :: "patcher \<Rightarrow> bool" where
  "safe_patcher rec = (\<forall>b p v. js_ok b \<longrightarrow> js_ok p \<longrightarrow> rec b p = Inr v \<longrightarrow> js_ok v)"

lemma js_ok_oget: "list_all (\<lambda>p. js_ok (snd p)) fs \<Longrightarrow> js_ok (oget fs k)"
  by (auto simp: oget_def list_all_iff split: option.splits dest!: map_of_SomeD)

lemma js_ok_get: "js_ok v \<Longrightarrow> js_ok (js_get v k)"
  by (cases v) (auto simp: js_get_def fields_of_def js_ok_oget)

lemma js_ok_fields: "js_ok v \<Longrightarrow> list_all (\<lambda>p. js_ok (snd p)) (fields_of v) \<and> keys_sorted (fields_of v)"
  by (cases v) (auto simp: fields_of_def)

lemma js_ok_items: "js_ok v \<Longrightarrow> list_all js_ok (arr_of v)"
  by (cases v) (auto simp: arr_of_def)

lemma js_ok_oput: "list_all (\<lambda>p. js_ok (snd p)) fs \<Longrightarrow> js_ok v \<Longrightarrow> list_all (\<lambda>p. js_ok (snd p)) (oput k v fs)"
  by (induction k v fs rule: oput.induct) auto

lemma safe_loop:
  assumes rec: "safe_patcher rec" and e: "js_ok sets" "js_ok edits"
  shows "list_all (\<lambda>p. js_ok (snd p)) prev \<Longrightarrow> keyed_loop rec f prev sets edits rem ed seen order = Inr xs \<Longrightarrow> list_all js_ok xs"
proof (induction order arbitrary: rem ed seen xs)
  case Nil
  then show ?case by (auto split: if_splits)
next
  case (Cons k order)
  note ih = Cons.IH[OF Cons.prems(1)]
  have run: "is_string k" "str_of k \<notin> set seen" using Cons.prems(2) by (auto simp: Let_def split: if_splits)
  show ?case
  proof (cases "map_of prev (str_of k)")
    case None
    then obtain ys where "keyed_loop rec f prev sets edits (removeAll (str_of k) rem) ed (str_of k # seen) order = Inr ys"
        "xs = js_get sets (str_of k) # ys"
      using Cons.prems(2) run by (simp add: Let_def rbind_eq_Inr split: if_split_asm) blast
    then show ?thesis using ih js_ok_get[OF e(1)] by simp
  next
    case (Some old)
    then have old: "js_ok old" using Cons.prems(1) by (auto simp: list_all_iff dest!: map_of_SomeD)
    show ?thesis
    proof (cases "str_of k \<in> set ed")
      case True
      then obtain v ys where "rec old (js_get edits (str_of k)) = Inr v" "xs = v # ys"
        "keyed_loop rec f prev sets edits rem (removeAll (str_of k) ed) (str_of k # seen) order = Inr ys"
        using Cons.prems(2) run Some by (simp add: Let_def rbind_eq_Inr split: if_split_asm) blast
      moreover from this have "js_ok v"
        using old rec js_ok_get[OF e(2), of "str_of k"] unfolding safe_patcher_def by blast
      ultimately show ?thesis using ih by simp
    next
      case False
      then obtain ys where "xs = old # ys"
        "keyed_loop rec f prev sets edits rem (removeAll (str_of k) ed) (str_of k # seen) order = Inr ys"
        using Cons.prems(2) run Some by (simp add: Let_def rbind_eq_Inr split: if_split_asm) blast
      with old show ?thesis using ih by simp
    qed
  qed
qed

lemma safe_array_edits:
  "safe_patcher rec \<Longrightarrow> list_all (\<lambda>p. js_ok (snd p)) es \<Longrightarrow> list_all js_ok xs \<Longrightarrow> array_edits rec es xs = Inr ys \<Longrightarrow> list_all js_ok ys"
proof (induction es arbitrary: xs)
  case (Cons e es)
  obtain k p where e: "e = (k, p)" by (cases e)
  obtain i v where i: "array_index k (length xs) = Some i" "rec (xs ! i) p = Inr v" "array_edits rec es (xs[i := v]) = Inr ys"
    using Cons.prems(4) e by (auto simp: rbind_eq_Inr split: option.splits)
  have "i < length xs" using i(1) by (auto simp: array_index_def Let_def split: if_splits)
  then have "js_ok (xs ! i)" using Cons.prems(3) by (simp add: list_all_length)
  moreover have "js_ok p" using Cons.prems(2) e by simp
  ultimately have "js_ok v" using Cons.prems(1) i(2) unfolding safe_patcher_def by blast
  then have "list_all js_ok (xs[i := v])"
    using Cons.prems(3) set_update_subset_insert[of xs i v] by (auto simp: list_all_iff)
  then show ?case using Cons.IH Cons.prems(1,2) i(3) by simp
qed simp

lemma safe_remove: "list_all (\<lambda>p. js_ok (snd p)) fs \<Longrightarrow> keys_sorted fs \<Longrightarrow> remove_fields ks fs = Inr gs \<Longrightarrow>
    list_all (\<lambda>p. js_ok (snd p)) gs \<and> keys_sorted gs"
proof (induction ks arbitrary: fs)
  case (Cons k ks)
  have "list_all (\<lambda>p. js_ok (snd p)) (odel (str_of k) fs)"
    using Cons.prems(1) by (auto simp: odel_def list_all_iff)
  then show ?case using Cons by (auto split: if_splits)
qed simp

lemma safe_put: "list_all (\<lambda>p. js_ok (snd p)) fs \<Longrightarrow> keys_sorted fs \<Longrightarrow> list_all (\<lambda>p. js_ok (snd p)) ss \<Longrightarrow>
    list_all (\<lambda>p. js_ok (snd p)) (put_fields ss fs) \<and> keys_sorted (put_fields ss fs)"
proof (induction ss arbitrary: fs)
  case (Cons s ss)
  have "put_fields (s # ss) fs = put_fields ss (oput (fst s) (snd s) fs)"
    by (simp add: put_fields_def split_beta)
  then show ?case using Cons js_ok_oput[of fs "snd s" "fst s"] by simp
qed (simp add: put_fields_def)

lemma safe_object_edits:
  "safe_patcher rec \<Longrightarrow> list_all (\<lambda>p. js_ok (snd p)) es \<Longrightarrow> list_all (\<lambda>p. js_ok (snd p)) fs \<Longrightarrow> keys_sorted fs \<Longrightarrow>
   object_edits rec ss es fs = Inr gs \<Longrightarrow> list_all (\<lambda>p. js_ok (snd p)) gs \<and> keys_sorted gs"
proof (induction es arbitrary: fs)
  case (Cons e es)
  obtain k p where e: "e = (k, p)" by (cases e)
  obtain v where v: "rec (oget fs k) p = Inr v" "object_edits rec ss es (oput k v fs) = Inr gs"
    using Cons.prems(5) e by (auto simp: rbind_eq_Inr split: if_splits)
  have "js_ok v" using Cons.prems(1,2,3) v(1) js_ok_oget e unfolding safe_patcher_def by auto
  then show ?case using Cons.IH[OF Cons.prems(1) _ _ _ v(2)] Cons.prems(2,3,4) js_ok_oput e by simp
qed simp

lemma safe_string: "patch_string b p = Inr v \<Longrightarrow> js_ok v"
  by (simp add: patch_string_def Let_def split: if_split_asm) (metis js_ok.simps(5))

lemma safe_keyed:
  assumes "safe_patcher rec" "js_ok b" "js_ok p" "patch_keyed rec b p = Inr v"
  shows "js_ok v"
proof -
  note g = js_ok_get[OF assms(3)]
  obtain prev where k: "keyed (arr_of b) (str_of (js_get p ''keyField'')) = Some prev"
    using assms(4) by (simp add: patch_keyed_def Let_def split: if_split_asm option.splits)
  obtain xs where xs: "keyed_loop rec (str_of (js_get p ''keyField'')) prev (js_get p ''set'') (js_get p ''edit'')
              (map fst (fields_of (js_get p ''set''))) (map fst (fields_of (js_get p ''edit''))) []
              (if js_get p ''order'' = JUndef then map (\<lambda>p. JStr (fst p)) prev else arr_of (js_get p ''order'')) = Inr xs"
      "v = JArr xs"
    using assms(4) k unfolding patch_keyed_def Let_def by (simp only: option.case split: if_split_asm) (auto simp: rbind_eq_Inr)
  have "list_all js_ok (map snd prev)"
    using keyed_result(1)[OF k] js_ok_items[OF assms(2)] by simp
  then have "list_all (\<lambda>p. js_ok (snd p)) prev" by (simp add: list.pred_map comp_def)
  then show ?thesis using safe_loop[OF assms(1) g g _ xs(1)] xs(2) by simp
qed

lemma safe_array:
  assumes "safe_patcher rec" "js_ok b" "js_ok p" "patch_array rec b p = Inr v"
  shows "js_ok v"
proof -
  note g = js_ok_get[OF assms(3)]
  let ?m = "take (nat_of (js_get p ''start'')) (arr_of b) @ arr_of (js_get p ''insert'')
                @ drop (nat_of (js_get p ''start'') + nat_of (js_get p ''deleteCount'')) (arr_of b)"
  obtain xs where k: "array_edits rec (fields_of (js_get p ''edit'')) ?m = Inr xs" "v = JArr xs"
    using assms(4) unfolding patch_array_def Let_def by (simp only: split: if_split_asm) (auto simp: rbind_eq_Inr)
  have "list_all js_ok ?m"
    using js_ok_items[OF assms(2)] js_ok_items[OF g] by (auto simp: list_all_iff dest: in_set_takeD in_set_dropD)
  then show ?thesis using safe_array_edits[OF assms(1) _ _ k(1)] js_ok_fields[OF g] k(2) by simp
qed

lemma safe_object:
  assumes "safe_patcher rec" "js_ok b" "js_ok p" "patch_object rec b p = Inr v"
  shows "js_ok v"
proof -
  note g = js_ok_get[OF assms(3)]
  obtain n1 n2 where k: "remove_fields (arr_of (js_get p ''remove'')) (fields_of b) = Inr n1"
          "object_edits rec (fields_of (js_get p ''set'')) (fields_of (js_get p ''edit''))
             (put_fields (fields_of (js_get p ''set'')) n1) = Inr n2" "v = JObj n2"
    using assms(4) unfolding patch_object_def Let_def by (simp only: split: if_split_asm) (auto simp: rbind_eq_Inr)
  have "list_all (\<lambda>p. js_ok (snd p)) n1 \<and> keys_sorted n1"
    using safe_remove[OF _ _ k(1)] js_ok_fields[OF assms(2)] by blast
  then have "list_all (\<lambda>p. js_ok (snd p)) (put_fields (fields_of (js_get p ''set'')) n1)
            \<and> keys_sorted (put_fields (fields_of (js_get p ''set'')) n1)"
    using safe_put js_ok_fields[OF g] by blast
  then show ?thesis using safe_object_edits[OF assms(1) _ _ _ k(2)] js_ok_fields[OF g] k(3) by simp
qed

lemma patchValue_cases:
  assumes "patchValue d b p = Inr v"
  shows "d \<le> maxDepth \<and> (v = js_get p ''value'' \<or> patch_string b p = Inr v
    \<or> patch_keyed (\<lambda>b p. patchValue (Suc d) b p) b p = Inr v
    \<or> patch_array (\<lambda>b p. patchValue (Suc d) b p) b p = Inr v
    \<or> patch_object (\<lambda>b p. patchValue (Suc d) b p) b p = Inr v)"
  using assms unfolding patchValue.simps[of d b p] Let_def
  by (simp only: split: if_split_asm) (simp_all add: not_less)

lemma safe_patchValue: "safe_patcher (patchValue d)"
proof (induction "Suc maxDepth - d" arbitrary: d)
  case 0
  then show ?case using patchValue_cases[of d] unfolding safe_patcher_def by force
next
  case (Suc n)
  then have "n = Suc maxDepth - Suc d" by simp
  then have rec: "safe_patcher (\<lambda>b p. patchValue (Suc d) b p)" using Suc.hyps(1) by simp
  have "js_ok v" if "js_ok b" "js_ok p" "patchValue d b p = Inr v" for b p v
    using patchValue_cases[OF that(3)] that(1,2) safe_string safe_keyed[OF rec that(1,2)] safe_array[OF rec that(1,2)]
      safe_object[OF rec that(1,2)] js_ok_get by blast
  then show ?case unfolding safe_patcher_def by blast
qed

section \<open>The property\<close>

text \<open>C8: The patch \<open>diff\<close> makes from one bounded document to another is well-formed JSON, survives the
  wire, and \<open>patchValue\<close> rebuilds from it exactly the new document; when \<open>diff\<close> answers null the
  documents are equal. This covers string edits, array splices and edits, keyed reorderings, and object
  fields set, removed and edited, nested to the depth limit.\<close>

theorem diff_patch_roundtrip:
  assumes "bounded_doc before" "bounded_doc after"
  shows "case diff 0 before after of
      None \<Rightarrow> before = after
    | Some patch \<Rightarrow> patchValue 0 before (normalise patch) = Inr after \<and> wf_js patch"
proof (cases "diff 0 before after")
  case None
  then show ?thesis using codec.unchanged[OF assms] by simp
next
  case (Some p)
  then show ?thesis using codec.rebuild[OF assms Some] diff_wf[OF assms Some] by (simp add: normalise_id)
qed

definition sample_before :: js where
  "sample_before = mk_obj [(''log'', JArr [mk_obj [(''id'', JStr ''a''), (''n'', JNum (NInt 1))],
      mk_obj [(''id'', JStr ''b'')]]), (''old'', JNull)]"

definition sample_after :: js where
  "sample_after = mk_obj [(''log'', JArr [mk_obj [(''id'', JStr ''b'')],
      mk_obj [(''id'', JStr ''a''), (''n'', JNum (NInt 2))]]), (''text'', JStr ''x'')]"

lemma diff_patch_roundtrip_witness:
  "\<exists>p. diff 0 sample_before sample_after = Some p \<and> patchValue 0 sample_before (normalise p) = Inr sample_after"
proof -
  have b: "bounded_doc sample_before" "bounded_doc sample_after" "diff 0 sample_before sample_after \<noteq> None"
    by code_simp+
  then show ?thesis using diff_patch_roundtrip[OF b(1,2)] by (auto split: option.splits)
qed

end
