(* ===== verification/Reconcile.thy ===== *)
theory Reconcile
  imports Reconcile_Patch Resource_Cache
begin

text \<open>
  The publisher and the replica of \<open>apps/remote/shared/reconcile.ts\<close>: revisioned documents per
  resource, a bounded history on the publishing side, full or patch frames, and a replica that
  accepts a frame only when the result hashes to the revision the frame names. \<open>hash\<close> stands for
  \<open>fast-sha256\<close>; nothing is assumed of it except, where stated, that two particular documents do not
  collide.
\<close>

type_synonym digest = "nat list \<Rightarrow> nat list"

section \<open>Limits\<close>

record reconcile_limits =
  maxEntries :: int
  maxBytes :: int
  maxValueBytes :: int
  maxHistoryPerResource :: int

definition int_js :: "int \<Rightarrow> js" where
  "int_js i = JNum (NInt i)"

text \<open>\<open>{ ...defaults, ...input }\<close> on one field: an own field of the input wins.\<close>

definition option_field :: "js \<Rightarrow> string \<Rightarrow> int \<Rightarrow> js" where
  "option_field input key d = (if js_has input key then js_get input key else int_js d)"

definition nullish :: "js \<Rightarrow> bool" where
  "nullish v = (v = JUndef \<or> v = JNull)"

definition default_entries :: int where "default_entries = 256"
definition default_bytes :: int where "default_bytes = 128 * 1024 * 1024"
definition default_value_bytes :: int where "default_value_bytes = 32 * 1024 * 1024"
definition default_history :: int where "default_history = 4"

definition value_bytes_field :: "js \<Rightarrow> js" where
  "value_bytes_field input =
     (let given = js_get input ''maxValueBytes''; total = js_get input ''maxBytes'' in
      if \<not> nullish given then given
      else if nullish total then int_js (min default_value_bytes default_bytes)
      else if safe_int total then int_js (min default_value_bytes (int_of total))
      else total)"

definition positive_int :: "js \<Rightarrow> bool" where
  "positive_int v = (safe_int v \<and> \<not> int_of v < 1)"

definition reconcile_options :: "js \<Rightarrow> string + reconcile_limits" where
  "reconcile_options input =
     (let e = option_field input ''maxEntries'' default_entries;
          b = option_field input ''maxBytes'' default_bytes;
          v = value_bytes_field input;
          h = option_field input ''maxHistoryPerResource'' default_history
      in if \<not> (positive_int e \<and> positive_int b \<and> positive_int v \<and> positive_int h)
         then Inl ''Reconcile limits must be positive integers''
         else if int_of v > int_of b then Inl ''maxValueBytes exceeds maxBytes''
         else Inr \<lparr>maxEntries = int_of e, maxBytes = int_of b, maxValueBytes = int_of v,
                    maxHistoryPerResource = int_of h\<rparr>)"

definition limits_ok :: "reconcile_limits \<Rightarrow> bool" where
  "limits_ok lim = (1 \<le> maxEntries lim \<and> 1 \<le> maxBytes lim \<and> 1 \<le> maxValueBytes lim
     \<and> 1 \<le> maxHistoryPerResource lim \<and> maxValueBytes lim \<le> maxBytes lim \<and> maxBytes lim \<le> max_safe)"

lemma reconcile_options_ok: "reconcile_options input = Inr lim \<Longrightarrow> limits_ok lim"
  by (auto simp: reconcile_options_def Let_def positive_int_def limits_ok_def safe_int_def
      split: if_splits js.splits jnum.splits)

definition cache_limits_of :: "reconcile_limits \<Rightarrow> cache_limits" where
  "cache_limits_of lim = \<lparr>lim_entries = maxEntries lim, lim_bytes = maxBytes lim, lim_idle = None\<rparr>"

lemma cache_limits_positive:
  "limits_ok lim \<Longrightarrow> cache_limits_of lim = positive_limits (maxEntries lim) (maxBytes lim) None"
  by (simp add: limits_ok_def cache_limits_of_def positive_limits_def)

section \<open>Revisions\<close>

definition utf8_char :: "char \<Rightarrow> nat list" where
  "utf8_char c = (let n = of_char c in if n < 128 then [n] else [192 + n div 64, 128 + n mod 64])"

definition hex_byte :: "nat \<Rightarrow> string" where
  "hex_byte b = [hex_digit (b div 16), hex_digit (b mod 16)]"

definition revision :: "digest \<Rightarrow> js \<Rightarrow> string" where
  "revision hash d = concat (map hex_byte (hash (concat (map utf8_char (json_text d)))))"

definition revisionOf :: "digest \<Rightarrow> js \<Rightarrow> string + string" where
  "revisionOf hash v = rbind (encode v default_value_bytes) (\<lambda>text. Inr (revision hash text))"

section \<open>Publisher\<close>

record snapshot =
  sn_revision :: string
  sn_text :: js

record published =
  pb_current :: snapshot
  pb_history :: "snapshot list"

type_synonym publisher = "published resource_cache"

definition snapshot_bytes :: "snapshot \<Rightarrow> int" where
  "snapshot_bytes s = text_length (sn_text s) * 2"

definition snapshots_bytes :: "snapshot list \<Rightarrow> int" where
  "snapshots_bytes ss = sum_list (map snapshot_bytes ss)"

text \<open>The loop that pops the oldest history entries until the resource fits the limits.\<close>

function trim_history :: "reconcile_limits \<Rightarrow> int \<Rightarrow> snapshot list \<Rightarrow> snapshot list" where
  "trim_history lim own history =
     (if history \<noteq> [] \<and> (int (length history) + 1 > maxEntries lim
          \<or> own + snapshots_bytes history > maxBytes lim)
      then trim_history lim own (butlast history) else history)"
  by pat_completeness auto
termination
  by (relation "measure (\<lambda>(_, _, h). length h)") auto

declare trim_history.simps [simp del]

definition next_history :: "reconcile_limits \<Rightarrow> published option \<Rightarrow> snapshot list" where
  "next_history lim previous = (case previous of
     None \<Rightarrow> []
   | Some p \<Rightarrow> take (nat (maxHistoryPerResource lim)) (pb_current p # pb_history p))"

text \<open>The second half of \<open>publish\<close>: a new snapshot replaces the current one.\<close>

definition publish_next :: "digest \<Rightarrow> reconcile_limits \<Rightarrow> int \<Rightarrow> string \<Rightarrow> js \<Rightarrow> published option \<Rightarrow> publisher
    \<Rightarrow> (string + string) \<times> publisher" where
  "publish_next hash lim now resource text previous resources =
     (let fresh = \<lparr>sn_revision = revision hash text, sn_text = text\<rparr>;
          history = trim_history lim (snapshot_bytes fresh) (next_history lim previous)
      in (Inr (sn_revision fresh),
          rc_store (cache_limits_of lim) now resource \<lparr>pb_current = fresh, pb_history = history\<rparr>
            (snapshot_bytes fresh + snapshots_bytes history) (int (length history) + 1) resources))"

definition publish :: "digest \<Rightarrow> reconcile_limits \<Rightarrow> int \<Rightarrow> string \<Rightarrow> js \<Rightarrow> publisher
    \<Rightarrow> (string + string) \<times> publisher" where
  "publish hash lim now resource value resources =
     (if resource = [] then (Inl ''Resource must be nonempty'', resources)
      else case encode value (maxValueBytes lim) of
        Inl e \<Rightarrow> (Inl e, resources)
      | Inr text \<Rightarrow>
          let (previous, resources) = rc_read (cache_limits_of lim) now resource resources in
          case previous of
            Some p \<Rightarrow> if same_json (sn_text (pb_current p)) text then (Inr (sn_revision (pb_current p)), resources)
                       else publish_next hash lim now resource text previous resources
          | None \<Rightarrow> publish_next hash lim now resource text previous resources)"

text \<open>Frames are the JSON objects on the wire.\<close>

definition full_frame :: "string \<Rightarrow> snapshot \<Rightarrow> js" where
  "full_frame resource s = mk_obj [(''resource'', JStr resource), (''revision'', JStr (sn_revision s)),
     (''base'', JNull), (''kind'', JStr ''full''), (''value'', sn_text s)]"

definition patch_frame :: "string \<Rightarrow> snapshot \<Rightarrow> string \<Rightarrow> js \<Rightarrow> js" where
  "patch_frame resource s base change = mk_obj [(''resource'', JStr resource), (''revision'', JStr (sn_revision s)),
     (''base'', JStr base), (''kind'', JStr ''patch''), (''patch'', change)]"

definition find_base :: "string option \<Rightarrow> published \<Rightarrow> snapshot option" where
  "find_base holds state = (case holds of
     None \<Rightarrow> None
   | Some h \<Rightarrow> if h = [] then None else find (\<lambda>s. sn_revision s = h) (pb_current state # pb_history state))"

definition reconcile :: "reconcile_limits \<Rightarrow> int \<Rightarrow> string \<Rightarrow> string option \<Rightarrow> publisher
    \<Rightarrow> js option \<times> publisher" where
  "reconcile lim now resource holds resources =
     (let (state, resources) = rc_read (cache_limits_of lim) now resource resources in
      (case state of
         None \<Rightarrow> None
       | Some st \<Rightarrow>
           if holds = Some (sn_revision (pb_current st)) then None
           else Some (case find_base holds st of
               None \<Rightarrow> full_frame resource (pb_current st)
             | Some base \<Rightarrow> (case diff 0 (sn_text base) (sn_text (pb_current st)) of
                 None \<Rightarrow> full_frame resource (pb_current st)
               | Some change \<Rightarrow>
                   let frame = patch_frame resource (pb_current st) (sn_revision base) change in
                   if text_length frame < text_length (full_frame resource (pb_current st))
                   then frame else full_frame resource (pb_current st))), resources))"

definition publisher_forget :: "string \<Rightarrow> publisher \<Rightarrow> publisher" where
  "publisher_forget resource resources = rc_forget resource resources"

section \<open>Replica\<close>

type_synonym replica = "snapshot resource_cache"

datatype applied = Applied js | Refused string

definition apply_frame :: "digest \<Rightarrow> reconcile_limits \<Rightarrow> int \<Rightarrow> js \<Rightarrow> replica \<Rightarrow> applied \<times> replica" where
  "apply_frame hash lim now frame resources =
     (let resource = js_get frame ''resource''; rev = js_get frame ''revision'';
          kind = js_get frame ''kind''; base = js_get frame ''base'' in
      if \<not> is_object frame \<or> \<not> is_string resource \<or> str_of resource = [] \<or> \<not> is_string rev \<or> str_of rev = []
      then (Refused ''Invalid frame identity'', resources)
      else let (old, resources) = rc_read (cache_limits_of lim) now (str_of resource) resources in
        if kind = JStr ''patch'' \<and> (\<not> is_string base \<or> old = None \<or> sn_revision (the old) \<noteq> str_of base)
        then (Refused ''Base revision mismatch'', resources)
        else if kind \<noteq> JStr ''patch'' \<and> (kind \<noteq> JStr ''full'' \<or> base \<noteq> JNull)
        then (Refused ''Invalid frame kind or base'', resources)
        else case rbind (if kind = JStr ''full'' then Inr (js_get frame ''value'')
                         else patchValue 0 (sn_text (the old)) (js_get frame ''patch''))
                    (\<lambda>value. encode value (maxValueBytes lim)) of
          Inl e \<Rightarrow> (Refused ''Invalid or oversized JSON frame'', resources)
        | Inr text \<Rightarrow>
            if revision hash text \<noteq> str_of rev then (Refused ''Result revision mismatch'', resources)
            else (Applied text, rc_store (cache_limits_of lim) now (str_of resource)
                \<lparr>sn_revision = str_of rev, sn_text = text\<rparr> (text_length text * 2) 1 resources))"

definition replica_get :: "reconcile_limits \<Rightarrow> int \<Rightarrow> string \<Rightarrow> replica \<Rightarrow> (string \<times> js) option \<times> replica" where
  "replica_get lim now resource resources =
     (let (state, resources) = rc_read (cache_limits_of lim) now resource resources
      in (map_option (\<lambda>s. (sn_revision s, sn_text s)) state, resources))"

definition replica_have :: "replica \<Rightarrow> (string \<times> string) list" where
  "replica_have resources = map (\<lambda>(resource, s). (resource, sn_revision s)) (rc_pairs resources)"

definition replica_seed :: "digest \<Rightarrow> reconcile_limits \<Rightarrow> int \<Rightarrow> string \<Rightarrow> string \<Rightarrow> js \<Rightarrow> replica
    \<Rightarrow> string + replica" where
  "replica_seed hash lim now resource expected value resources =
     rbind (encode value (maxValueBytes lim)) (\<lambda>text.
       if resource = [] \<or> revision hash text \<noteq> expected then Inl ''Seed revision mismatch''
       else Inr (rc_store (cache_limits_of lim) now resource \<lparr>sn_revision = expected, sn_text = text\<rparr>
              (text_length text * 2) 1 resources))"

definition replica_forget :: "string \<Rightarrow> replica \<Rightarrow> replica" where
  "replica_forget resource resources = rc_forget resource resources"

definition replica_clear :: "replica \<Rightarrow> replica" where
  "replica_clear resources = fst (rc_clear resources)"

section \<open>The client's map of revisions\<close>

fun read_have :: "obj \<Rightarrow> int \<Rightarrow> obj \<Rightarrow> obj option" where
  "read_have [] bytes result = Some result"
| "read_have ((key, r) # rest) bytes result =
     (if key = [] \<or> length key > 512 \<or> \<not> is_string r \<or> str_of r = [] \<or> length (str_of r) > 128 then None
      else let bytes = bytes + int (length key) + int (length (str_of r)) in
        if bytes > 32768 then None else read_have rest bytes (oput key r result))"

definition readReconcileHave :: "js \<Rightarrow> obj option" where
  "readReconcileHave value =
     (if \<not> is_object value then None
      else if length (fields_of value) > 256 then None
      else read_have (fields_of value) 0 [])"

section \<open>Invariants\<close>

definition snapshot_ok :: "digest \<Rightarrow> reconcile_limits \<Rightarrow> snapshot \<Rightarrow> bool" where
  "snapshot_ok hash lim s = (bounded_doc (sn_text s) \<and> snapshot_bytes s \<le> maxValueBytes lim
     \<and> sn_revision s = revision hash (sn_text s))"

definition published_ok :: "digest \<Rightarrow> reconcile_limits \<Rightarrow> published \<Rightarrow> bool" where
  "published_ok hash lim p = (list_all (snapshot_ok hash lim) (pb_current p # pb_history p)
     \<and> int (length (pb_history p)) \<le> maxHistoryPerResource lim)"

definition all_values :: "('a \<Rightarrow> bool) \<Rightarrow> 'a resource_cache \<Rightarrow> bool" where
  "all_values P c = (\<forall>k v. rc_value c k = Some v \<longrightarrow> P v)"

definition publisher_ok :: "digest \<Rightarrow> reconcile_limits \<Rightarrow> publisher \<Rightarrow> bool" where
  "publisher_ok hash lim c = (rc_inv (cache_limits_of lim) c \<and> all_values (published_ok hash lim) c)"

definition replica_ok :: "digest \<Rightarrow> reconcile_limits \<Rightarrow> replica \<Rightarrow> bool" where
  "replica_ok hash lim c = (rc_inv (cache_limits_of lim) c \<and> all_values (snapshot_ok hash lim) c)"

subsection \<open>The store under these limits\<close>

lemma read_exact:
  assumes "limits_ok lim" "rc_inv (cache_limits_of lim) c"
  shows "fst (rc_read (cache_limits_of lim) now k c) = rc_value c k"
    and "rc_value (snd (rc_read (cache_limits_of lim) now k c)) j = rc_value c j"
    and "rc_inv (cache_limits_of lim) (snd (rc_read (cache_limits_of lim) now k c))"
proof -
  note a = assms(2)[unfolded cache_limits_positive[OF assms(1)]]
  show "fst (rc_read (cache_limits_of lim) now k c) = rc_value c k"
    unfolding cache_limits_positive[OF assms(1)] using a by (rule steady.get_exact)
  show "rc_value (snd (rc_read (cache_limits_of lim) now k c)) j = rc_value c j"
    unfolding cache_limits_positive[OF assms(1)] using a by (rule steady.get_lookup)
  show "rc_inv (cache_limits_of lim) (snd (rc_read (cache_limits_of lim) now k c))"
    unfolding cache_limits_positive[OF assms(1)] using a by (rule cache.inv_get)
qed

lemma store_exact:
  assumes "limits_ok lim" "rc_inv (cache_limits_of lim) c" "rc_accepts (cache_limits_of lim) b n"
  shows "rc_value (rc_store (cache_limits_of lim) now k v b n c) k = Some v"
    and "j \<noteq> k \<Longrightarrow> rc_value (rc_store (cache_limits_of lim) now k v b n c) j \<in> {None, rc_value c j}"
    and "rc_inv (cache_limits_of lim) (rc_store (cache_limits_of lim) now k v b n c)"
proof -
  note a = assms[unfolded cache_limits_positive[OF assms(1)]]
  show "rc_value (rc_store (cache_limits_of lim) now k v b n c) k = Some v"
    unfolding cache_limits_positive[OF assms(1)] using a(2,3) by (rule cache.store_same)
  show "j \<noteq> k \<Longrightarrow> rc_value (rc_store (cache_limits_of lim) now k v b n c) j \<in> {None, rc_value c j}"
    unfolding cache_limits_positive[OF assms(1)] using a(2) by (rule cache.store_other)
  show "rc_inv (cache_limits_of lim) (rc_store (cache_limits_of lim) now k v b n c)"
    unfolding cache_limits_positive[OF assms(1)] using a(2) by (rule cache.inv_store)
qed

lemma all_values_read:
  assumes "limits_ok lim" "rc_inv (cache_limits_of lim) c" "all_values P c"
  shows "all_values P (snd (rc_read (cache_limits_of lim) now k c))"
  using assms(3) read_exact(2)[OF assms(1,2)] unfolding all_values_def by metis

lemma all_values_store:
  assumes "limits_ok lim" "rc_inv (cache_limits_of lim) c" "rc_accepts (cache_limits_of lim) b n" "all_values P c" "P v"
  shows "all_values P (rc_store (cache_limits_of lim) now k v b n c)"
  unfolding all_values_def
proof (intro allI impI)
  fix j w assume a: "rc_value (rc_store (cache_limits_of lim) now k v b n c) j = Some w"
  show "P w"
  proof (cases "j = k")
    case True
    with a store_exact(1)[OF assms(1-3)] assms(5) show ?thesis by (metis option.inject)
  next
    case False
    have "rc_value c j = Some w"
      using a store_exact(2)[OF assms(1-3) False] by (metis empty_iff insertE option.distinct(1))
    then show ?thesis using assms(4) unfolding all_values_def by blast
  qed
qed

lemma all_values_forget: "all_values P c \<Longrightarrow> all_values P (rc_forget k c)"
  by (auto simp: all_values_def rc_value_def rc_delete_lookup split: if_splits)

lemma all_values_empty: "all_values P rc_empty"
  by (simp add: all_values_def rc_value_def)

text \<open>The size of what is stored is accepted by the cache.\<close>

lemma snapshot_accepted:
  "limits_ok lim \<Longrightarrow> snapshot_ok hash lim s \<Longrightarrow> rc_accepts (cache_limits_of lim) (snapshot_bytes s) 1"
  by (auto simp: rc_accepts_def cache_limits_of_def limits_ok_def snapshot_ok_def snapshot_bytes_def text_length_def)

lemma snapshots_bytes_nonneg: "0 \<le> snapshots_bytes h"
  by (induction h) (auto simp: snapshots_bytes_def snapshot_bytes_def text_length_def)

lemma trim_history_prefix: "\<exists>n. trim_history lim own h = take n h"
proof (induction lim own h rule: trim_history.induct)
  case (1 lim own h)
  show ?case
  proof (cases "h \<noteq> [] \<and> (int (length h) + 1 > maxEntries lim \<or> own + snapshots_bytes h > maxBytes lim)")
    case True
    then obtain n where "trim_history lim own (butlast h) = take n (butlast h)" using 1 by blast
    then have "trim_history lim own h = take n (butlast h)" using True trim_history.simps[of lim own h] by simp
    then show ?thesis by (metis butlast_conv_take take_take)
  next
    case False
    then have "trim_history lim own h = h" by (simp only: trim_history.simps[of lim own h] if_False)
    then show ?thesis by (metis order_refl take_all)
  qed
qed

lemma trim_history_fits: "trim_history lim own h = [] \<or>
    int (length (trim_history lim own h)) + 1 \<le> maxEntries lim
    \<and> own + snapshots_bytes (trim_history lim own h) \<le> maxBytes lim"
proof (induction lim own h rule: trim_history.induct)
  case (1 lim own h)
  show ?case
  proof (cases "h \<noteq> [] \<and> (int (length h) + 1 > maxEntries lim \<or> own + snapshots_bytes h > maxBytes lim)")
    case True
    then have "trim_history lim own h = trim_history lim own (butlast h)" using trim_history.simps[of lim own h] by simp
    with 1[OF True] show ?thesis by simp
  next
    case False
    then have "trim_history lim own h = h" by (simp only: trim_history.simps[of lim own h] if_False)
    with False show ?thesis by auto
  qed
qed

lemma published_accepted:
  assumes "limits_ok lim" "snapshot_ok hash lim s"
    and h: "h = trim_history lim (snapshot_bytes s) hs"
  shows "rc_accepts (cache_limits_of lim) (snapshot_bytes s + snapshots_bytes h) (int (length h) + 1)"
  using trim_history_fits[of lim "snapshot_bytes s" hs] snapshots_bytes_nonneg[of h] snapshot_accepted[OF assms(1,2)]
  unfolding h[symmetric] by (auto simp: rc_accepts_def cache_limits_of_def snapshots_bytes_def)

section \<open>Publishing\<close>

lemma publish_next_ok:
  assumes lim: "limits_ok lim" and c: "publisher_ok hash lim c" and doc: "bounded_doc text" "text_length text * 2 \<le> maxValueBytes lim"
    and prev: "case previous of None \<Rightarrow> True | Some p \<Rightarrow> published_ok hash lim p"
    and r: "publish_next hash lim now resource text previous c = (r, c')"
  shows "publisher_ok hash lim c'"
    and "\<exists>p. rc_value c' resource = Some p \<and> pb_current p = \<lparr>sn_revision = revision hash text, sn_text = text\<rparr>"
    and "r = Inr (revision hash text)"
proof -
  let ?s = "\<lparr>sn_revision = revision hash text, sn_text = text\<rparr>"
  let ?h = "trim_history lim (snapshot_bytes ?s) (next_history lim previous)"
  let ?p = "\<lparr>pb_current = ?s, pb_history = ?h\<rparr>"
  have s: "snapshot_ok hash lim ?s" using doc by (simp add: snapshot_ok_def snapshot_bytes_def)
  obtain n where n: "?h = take n (next_history lim previous)" using trim_history_prefix by blast
  have nh: "list_all (snapshot_ok hash lim) (next_history lim previous)
      \<and> int (length (next_history lim previous)) \<le> maxHistoryPerResource lim"
    using prev lim by (cases previous)
      (auto simp: next_history_def published_ok_def limits_ok_def list_all_iff take_Cons' dest: in_set_takeD)
  then have p: "published_ok hash lim ?p"
    using s unfolding published_ok_def n by (auto simp: list_all_iff dest: in_set_takeD)
  note acc = published_accepted[OF lim s refl, of "next_history lim previous"]
  have inv: "rc_inv (cache_limits_of lim) c" "all_values (published_ok hash lim) c"
    using c by (simp_all add: publisher_ok_def)
  have c': "c' = rc_store (cache_limits_of lim) now resource ?p (snapshot_bytes ?s + snapshots_bytes ?h) (int (length ?h) + 1) c"
    and "r = Inr (revision hash text)"
    using r by (auto simp: publish_next_def Let_def)
  then show "r = Inr (revision hash text)" by simp
  show "publisher_ok hash lim c'"
    unfolding publisher_ok_def c' using store_exact(3)[OF lim inv(1) acc] all_values_store[OF lim inv(1) acc inv(2) p] by blast
  show "\<exists>p. rc_value c' resource = Some p \<and> pb_current p = ?s"
    unfolding c' using store_exact(1)[OF lim inv(1) acc, of now resource ?p] by auto
qed

lemma publish_ok:
  assumes lim: "limits_ok lim" and c: "publisher_ok hash lim c" and v: "js_ok value"
    and r: "publish hash lim now resource value c = (r, c')"
  shows "publisher_ok hash lim c'"
    and "r = Inr rv \<Longrightarrow> rv = revision hash (normalise value) \<and> encode value (maxValueBytes lim) = Inr (normalise value)
      \<and> (\<exists>p. rc_value c' resource = Some p \<and> pb_current p = \<lparr>sn_revision = rv, sn_text = normalise value\<rparr>)"
proof -
  have inv: "rc_inv (cache_limits_of lim) c" "all_values (published_ok hash lim) c"
    using c by (simp_all add: publisher_ok_def)
  have ms: "maxValueBytes lim \<le> max_safe" using lim by (simp add: limits_ok_def)
  define c1 where "c1 = snd (rc_read (cache_limits_of lim) now resource c)"
  note rd = read_exact[OF lim inv(1), of now resource]
  have c1: "publisher_ok hash lim c1"
    using rd(3) all_values_read[OF lim inv, of now resource] by (simp add: publisher_ok_def c1_def)
  consider (bad) e where "r = Inl e" "c' = c"
    | (same) p d where "encode value (maxValueBytes lim) = Inr d" "rc_value c resource = Some p"
        "same_json (sn_text (pb_current p)) d" "r = Inr (sn_revision (pb_current p))" "c' = c1"
    | (fresh) d where "encode value (maxValueBytes lim) = Inr d"
        "publish_next hash lim now resource d (rc_value c resource) c1 = (r, c')"
  proof (cases "resource = []")
    case True
    then show ?thesis using r bad[of "''Resource must be nonempty''"] by (simp add: publish_def)
  next
    case False
    show ?thesis
    proof (cases "encode value (maxValueBytes lim)")
      case (Inl e)
      then show ?thesis using r False bad[of e] by (simp add: publish_def)
    next
      case (Inr d)
      have read: "rc_read (cache_limits_of lim) now resource c = (rc_value c resource, c1)"
        using rd(1) by (simp add: c1_def)
      have "publish hash lim now resource value c = (case rc_value c resource of
            Some p \<Rightarrow> if same_json (sn_text (pb_current p)) d then (Inr (sn_revision (pb_current p)), c1)
                       else publish_next hash lim now resource d (rc_value c resource) c1
          | None \<Rightarrow> publish_next hash lim now resource d (rc_value c resource) c1)"
        using False Inr unfolding publish_def Let_def read by simp
      then show ?thesis
        using r same[OF Inr] fresh[OF Inr] by (cases "rc_value c resource") (auto split: if_splits)
    qed
  qed
  then have "publisher_ok hash lim c' \<and> (r = Inr rv \<longrightarrow> rv = revision hash (normalise value)
      \<and> encode value (maxValueBytes lim) = Inr (normalise value)
      \<and> (\<exists>p. rc_value c' resource = Some p \<and> pb_current p = \<lparr>sn_revision = rv, sn_text = normalise value\<rparr>))"
  proof cases
    case (bad e)
    with c show ?thesis by simp
  next
    case (same p d)
    note t = encode_bounded[OF same(1) v ms]
    have p: "snapshot_ok hash lim (pb_current p)"
      using inv(2) same(2) by (auto simp: all_values_def published_ok_def)
    then have "sn_text (pb_current p) = d"
      using same(3) t(1) same_json_iff by (auto simp: snapshot_ok_def bounded_doc_def)
    then show ?thesis using c1 same p t rd(2)[of resource] by (auto simp: snapshot_ok_def c1_def)
  next
    case (fresh d)
    note t = encode_bounded[OF fresh(1) v ms]
    have "case rc_value c resource of None \<Rightarrow> True | Some p \<Rightarrow> published_ok hash lim p"
      using inv(2) by (auto simp: all_values_def split: option.splits)
    from publish_next_ok[OF lim c1 t(1,2) this fresh(2)] t(3) fresh(1) show ?thesis by auto
  qed
  then show "publisher_ok hash lim c'" "r = Inr rv \<Longrightarrow> rv = revision hash (normalise value)
      \<and> encode value (maxValueBytes lim) = Inr (normalise value)
      \<and> (\<exists>p. rc_value c' resource = Some p \<and> pb_current p = \<lparr>sn_revision = rv, sn_text = normalise value\<rparr>)"
    by blast+
qed

section \<open>What a publisher sends\<close>

lemma find_base_mem:
  "find_base holds p = Some s \<Longrightarrow> holds = Some (sn_revision s) \<and> s \<in> set (pb_current p # pb_history p)"
  by (auto simp: find_base_def find_Some_iff simp del: find.simps split: option.splits if_splits)
    (metis length_Cons list.set_intros nth_mem set_ConsD)+

lemma reconcile_cases:
  assumes "limits_ok lim" "publisher_ok hash lim c" "reconcile lim now resource holds c = (answer, c')"
  shows "publisher_ok hash lim c'" and "rc_value c' k = rc_value c k"
    and "answer = (case rc_value c resource of None \<Rightarrow> None | Some p \<Rightarrow>
      if holds = Some (sn_revision (pb_current p)) then None
      else Some (case find_base holds p of
               None \<Rightarrow> full_frame resource (pb_current p)
             | Some base \<Rightarrow> (case diff 0 (sn_text base) (sn_text (pb_current p)) of
                 None \<Rightarrow> full_frame resource (pb_current p)
               | Some change \<Rightarrow>
                   if text_length (patch_frame resource (pb_current p) (sn_revision base) change)
                      < text_length (full_frame resource (pb_current p))
                   then patch_frame resource (pb_current p) (sn_revision base) change
                   else full_frame resource (pb_current p))))"
proof -
  define c1 where "c1 = snd (rc_read (cache_limits_of lim) now resource c)"
  have inv: "rc_inv (cache_limits_of lim) c" "all_values (published_ok hash lim) c"
    using assms(2) by (simp_all add: publisher_ok_def)
  note rd = read_exact[OF assms(1) inv(1), of now resource]
  have read: "rc_read (cache_limits_of lim) now resource c = (rc_value c resource, c1)"
    using rd(1) by (simp add: c1_def)
  have c': "c' = c1" using assms(3) unfolding reconcile_def Let_def read by simp
  show "publisher_ok hash lim c'" "rc_value c' k = rc_value c k"
    using rd(2,3) all_values_read[OF assms(1) inv, of now resource] unfolding c' by (simp_all add: publisher_ok_def c1_def)
  show "answer = (case rc_value c resource of None \<Rightarrow> None | Some p \<Rightarrow>
      if holds = Some (sn_revision (pb_current p)) then None
      else Some (case find_base holds p of
               None \<Rightarrow> full_frame resource (pb_current p)
             | Some base \<Rightarrow> (case diff 0 (sn_text base) (sn_text (pb_current p)) of
                 None \<Rightarrow> full_frame resource (pb_current p)
               | Some change \<Rightarrow>
                   if text_length (patch_frame resource (pb_current p) (sn_revision base) change)
                      < text_length (full_frame resource (pb_current p))
                   then patch_frame resource (pb_current p) (sn_revision base) change
                   else full_frame resource (pb_current p))))"
    using assms(3) unfolding reconcile_def Let_def read by simp
qed

section \<open>What a replica accepts\<close>

lemma apply_frame_read:
  assumes "limits_ok lim" "replica_ok hash lim c"
  obtains c1 where "rc_read (cache_limits_of lim) now k c = (rc_value c k, c1)" "replica_ok hash lim c1"
    "\<And>j. rc_value c1 j = rc_value c j"
proof -
  have inv: "rc_inv (cache_limits_of lim) c" "all_values (snapshot_ok hash lim) c"
    using assms(2) by (simp_all add: replica_ok_def)
  note rd = read_exact[OF assms(1) inv(1), of now k]
  show ?thesis
  proof (rule that[of "snd (rc_read (cache_limits_of lim) now k c)"])
    show "rc_read (cache_limits_of lim) now k c = (rc_value c k, snd (rc_read (cache_limits_of lim) now k c))"
      using rd(1) by simp
    show "replica_ok hash lim (snd (rc_read (cache_limits_of lim) now k c))"
      using rd(3) all_values_read[OF assms(1) inv, of now k] by (simp add: replica_ok_def)
    show "rc_value (snd (rc_read (cache_limits_of lim) now k c)) j = rc_value c j" for j
      using rd(2) by simp
  qed
qed

text \<open>The value a frame proposes, from the snapshot held.\<close>

definition proposed :: "js \<Rightarrow> snapshot option \<Rightarrow> string + js" where
  "proposed frame old = (if js_get frame ''kind'' = JStr ''full'' then Inr (js_get frame ''value'')
     else patchValue 0 (sn_text (the old)) (js_get frame ''patch''))"

lemma proposed_ok:
  assumes "proposed frame old = Inr v" "js_ok frame" "case old of None \<Rightarrow> js_get frame ''kind'' = JStr ''full'' | Some s \<Rightarrow> js_ok (sn_text s)"
  shows "js_ok v"
proof (cases "js_get frame ''kind'' = JStr ''full''")
  case True
  then show ?thesis using assms(1) js_ok_get[OF assms(2), of "''value''"] by (simp add: proposed_def)
next
  case False
  then obtain s where s: "old = Some s" using assms(3) by (cases old) auto
  have "patchValue 0 (sn_text s) (js_get frame ''patch'') = Inr v"
    using assms(1) False s by (simp add: proposed_def)
  moreover have "js_ok (sn_text s)" using assms(3) s by simp
  ultimately show ?thesis using safe_patchValue[of 0] js_ok_get[OF assms(2)] unfolding safe_patcher_def by blast
qed

lemma store_snapshot:
  assumes "limits_ok lim" "replica_ok hash lim c" "bounded_doc d" "text_length d * 2 \<le> maxValueBytes lim" "rv = revision hash d"
    and c': "c' = rc_store (cache_limits_of lim) now k \<lparr>sn_revision = rv, sn_text = d\<rparr> (text_length d * 2) 1 c"
  shows "replica_ok hash lim c'" "rc_value c' k = Some \<lparr>sn_revision = rv, sn_text = d\<rparr>"
proof -
  let ?s = "\<lparr>sn_revision = rv, sn_text = d\<rparr>"
  have s: "snapshot_ok hash lim ?s" using assms(3-5) by (simp add: snapshot_ok_def snapshot_bytes_def)
  have acc: "rc_accepts (cache_limits_of lim) (text_length d * 2) 1"
    using snapshot_accepted[OF assms(1) s] by (simp add: snapshot_bytes_def)
  have inv: "rc_inv (cache_limits_of lim) c" "all_values (snapshot_ok hash lim) c"
    using assms(2) by (simp_all add: replica_ok_def)
  show "replica_ok hash lim c'"
    unfolding replica_ok_def c'
    using store_exact(3)[OF assms(1) inv(1) acc] all_values_store[OF assms(1) inv(1) acc inv(2) s] by blast
  show "rc_value c' k = Some ?s"
    unfolding c' using store_exact(1)[OF assms(1) inv(1) acc] by blast
qed

lemma apply_frame_cases:
  assumes lim: "limits_ok lim" and c: "replica_ok hash lim c" and r: "apply_frame hash lim now frame c = (result, c')"
  obtains (refused) reason where "result = Refused reason" "replica_ok hash lim c'" "\<And>k. rc_value c' k = rc_value c k"
  | (applied) resource rv v d c1 where "js_get frame ''resource'' = JStr resource" "js_get frame ''revision'' = JStr rv"
      "js_get frame ''kind'' = JStr ''full'' \<or> rc_value c resource \<noteq> None"
      "proposed frame (rc_value c resource) = Inr v" "encode v (maxValueBytes lim) = Inr d" "revision hash d = rv"
      "replica_ok hash lim c1" "\<And>k. rc_value c1 k = rc_value c k" "result = Applied d"
      "c' = rc_store (cache_limits_of lim) now resource \<lparr>sn_revision = rv, sn_text = d\<rparr> (text_length d * 2) 1 c1"
proof (cases "\<not> is_object frame \<or> \<not> is_string (js_get frame ''resource'') \<or> str_of (js_get frame ''resource'') = []
     \<or> \<not> is_string (js_get frame ''revision'') \<or> str_of (js_get frame ''revision'') = []")
  case True
  then show ?thesis
    using r c refused[of "''Invalid frame identity''"] unfolding apply_frame_def Let_def by simp
next
  case False
  then obtain resource rv where id: "js_get frame ''resource'' = JStr resource" "js_get frame ''revision'' = JStr rv"
    by (auto elim!: is_stringE)
  obtain c1 where read: "rc_read (cache_limits_of lim) now resource c = (rc_value c resource, c1)"
    and c1: "replica_ok hash lim c1" "\<And>j. rc_value c1 j = rc_value c j"
    using apply_frame_read[OF lim c] by blast
  have "apply_frame hash lim now frame c = (if js_get frame ''kind'' = JStr ''patch'' \<and> (\<not> is_string (js_get frame ''base'')
           \<or> rc_value c resource = None \<or> sn_revision (the (rc_value c resource)) \<noteq> str_of (js_get frame ''base''))
        then (Refused ''Base revision mismatch'', c1)
        else if js_get frame ''kind'' \<noteq> JStr ''patch'' \<and> (js_get frame ''kind'' \<noteq> JStr ''full'' \<or> js_get frame ''base'' \<noteq> JNull)
        then (Refused ''Invalid frame kind or base'', c1)
        else case rbind (proposed frame (rc_value c resource)) (\<lambda>value. encode value (maxValueBytes lim)) of
          Inl e \<Rightarrow> (Refused ''Invalid or oversized JSON frame'', c1)
        | Inr d \<Rightarrow>
            if revision hash d \<noteq> rv then (Refused ''Result revision mismatch'', c1)
            else (Applied d, rc_store (cache_limits_of lim) now resource
                \<lparr>sn_revision = rv, sn_text = d\<rparr> (text_length d * 2) 1 c1))"
    using False unfolding apply_frame_def Let_def id js_test_simps by (simp add: read[simplified] proposed_def)
  note body = this[unfolded r]
  show ?thesis
  proof (cases "result")
    case (Refused reason)
    then have "c' = c1" using body by (auto split: if_splits sum.splits)
    then show ?thesis using refused[OF Refused] c1 by simp
  next
    case (Applied d)
    then have "\<exists>v. (js_get frame ''kind'' = JStr ''full'' \<or> rc_value c resource \<noteq> None)
       \<and> proposed frame (rc_value c resource) = Inr v \<and> encode v (maxValueBytes lim) = Inr d \<and> revision hash d = rv
       \<and> c' = rc_store (cache_limits_of lim) now resource \<lparr>sn_revision = rv, sn_text = d\<rparr> (text_length d * 2) 1 c1"
      using body by (auto simp: rbind_eq_Inr split: if_splits sum.splits)
    then show ?thesis using applied[OF id _ _ _ _ c1(1) c1(2) Applied] by blast
  qed
qed

section \<open>Convergence\<close>

lemma revision_nonempty: "\<forall>bytes. length (hash bytes) = 32 \<Longrightarrow> revision hash d \<noteq> []"
proof -
  assume "\<forall>bytes. length (hash bytes) = 32"
  then have "hash (concat (map utf8_char (json_text d))) \<noteq> []" by (metis length_0_conv zero_neq_numeral)
  then show ?thesis by (auto simp: revision_def hex_byte_def)
qed

lemma snapshot_eta: "\<lparr>sn_revision = sn_revision s, sn_text = sn_text s\<rparr> = s"
  by (cases s) simp

text \<open>The two shapes of a frame, read by the replica.\<close>

lemma apply_full:
  assumes lim: "limits_ok lim" and r: "replica_ok hash lim r" and res: "resource \<noteq> []"
    and s: "bounded_doc (sn_text s)" "text_length (sn_text s) * 2 \<le> maxValueBytes lim"
      "sn_revision s = revision hash (sn_text s)" "sn_revision s \<noteq> []"
  shows "\<exists>r'. apply_frame hash lim now (full_frame resource s) r = (Applied (sn_text s), r')
      \<and> rc_value r' resource = Some s \<and> replica_ok hash lim r'"
proof -
  obtain c1 where read: "rc_read (cache_limits_of lim) now resource r = (rc_value r resource, c1)"
    and c1: "replica_ok hash lim c1"
    using apply_frame_read[OF lim r] by blast
  let ?r = "rc_store (cache_limits_of lim) now resource \<lparr>sn_revision = sn_revision s, sn_text = sn_text s\<rparr>
      (text_length (sn_text s) * 2) 1 c1"
  note id = full_frame_def js_get_mk_obj oget_simps
  have "apply_frame hash lim now (full_frame resource s) r = (Applied (sn_text s), ?r)"
    using res s encode_doc[OF s(1,2)] unfolding apply_frame_def Let_def id
    by (simp add: read[simplified])
  moreover have "rc_value ?r resource = Some s" "replica_ok hash lim ?r"
    using store_snapshot[OF lim c1 s(1,2,3) refl, of now resource] unfolding snapshot_eta by blast+
  ultimately show ?thesis by blast
qed

lemma apply_patch:
  assumes lim: "limits_ok lim" and r: "replica_ok hash lim r" and res: "resource \<noteq> []"
    and s: "bounded_doc (sn_text s)" "text_length (sn_text s) * 2 \<le> maxValueBytes lim"
      "sn_revision s = revision hash (sn_text s)" "sn_revision s \<noteq> []"
    and base: "rc_value r resource = Some q" "bounded_doc (sn_text q)" "diff 0 (sn_text q) (sn_text s) = Some change"
  shows "\<exists>r'. apply_frame hash lim now (patch_frame resource s (sn_revision q) change) r = (Applied (sn_text s), r')
      \<and> rc_value r' resource = Some s \<and> replica_ok hash lim r'"
proof -
  obtain c1 where read: "rc_read (cache_limits_of lim) now resource r = (rc_value r resource, c1)"
    and c1: "replica_ok hash lim c1"
    using apply_frame_read[OF lim r] by blast
  let ?r = "rc_store (cache_limits_of lim) now resource \<lparr>sn_revision = sn_revision s, sn_text = sn_text s\<rparr>
      (text_length (sn_text s) * 2) 1 c1"
  note id = patch_frame_def js_get_mk_obj oget_simps
  have "patchValue 0 (sn_text q) change = Inr (sn_text s)" using base(2) s(1) base(3) by (rule codec.rebuild)
  then have "apply_frame hash lim now (patch_frame resource s (sn_revision q) change) r = (Applied (sn_text s), ?r)"
    using res s encode_doc[OF s(1,2)] unfolding apply_frame_def Let_def id
    by (simp add: read[unfolded base(1), simplified])
  moreover have "rc_value ?r resource = Some s" "replica_ok hash lim ?r"
    using store_snapshot[OF lim c1 s(1,2,3) refl, of now resource] unfolding snapshot_eta by blast+
  ultimately show ?thesis by blast
qed

text \<open>No snapshot the publisher keeps collides with what the replica holds.\<close>

definition collision_free :: "digest \<Rightarrow> string \<Rightarrow> publisher \<Rightarrow> replica \<Rightarrow> bool" where
  "collision_free hash resource c r = (case (rc_value c resource, rc_value r resource) of
     (Some p, Some q) \<Rightarrow> list_all (\<lambda>s. revision hash (sn_text s) = revision hash (sn_text q) \<longrightarrow> sn_text s = sn_text q)
        (pb_current p # pb_history p)
   | _ \<Rightarrow> True)"

lemma snapshot_eqI: "sn_text s = sn_text q \<Longrightarrow> sn_revision s = sn_revision q \<Longrightarrow> s = (q :: snapshot)"
  by (cases s; cases q) simp

lemma frame_converges:
  assumes pl: "limits_ok pl" and rl: "limits_ok rl" "maxValueBytes pl \<le> maxValueBytes rl"
    and hash: "\<forall>bytes. length (hash bytes) = 32"
    and c: "publisher_ok hash pl c" and r: "replica_ok hash rl r" and free: "collision_free hash resource c r"
    and res: "resource \<noteq> []" and p: "rc_value c resource = Some p"
    and ans: "reconcile pl now resource (map_option sn_revision (rc_value r resource)) c = (answer, c')"
  shows "case answer of None \<Rightarrow> rc_value r resource = Some (pb_current p)
    | Some f \<Rightarrow> \<exists>r'. apply_frame hash rl now' f r = (Applied (sn_text (pb_current p)), r')
        \<and> rc_value r' resource = Some (pb_current p) \<and> replica_ok hash rl r'"
proof -
  let ?s = "pb_current p"
  have snaps: "snapshot_ok hash pl s" if "s \<in> set (?s # pb_history p)" for s
  proof -
    have "published_ok hash pl p" using c p unfolding publisher_ok_def all_values_def by blast
    with that show ?thesis unfolding published_ok_def list_all_iff by blast
  qed
  then have s: "snapshot_ok hash pl ?s" by simp
  have bs: "bounded_doc (sn_text ?s)" "text_length (sn_text ?s) * 2 \<le> maxValueBytes rl"
      "sn_revision ?s = revision hash (sn_text ?s)" "sn_revision ?s \<noteq> []"
    using s rl(2) revision_nonempty[OF hash] by (auto simp: snapshot_ok_def snapshot_bytes_def)
  have held: "bounded_doc (sn_text q) \<and> sn_revision q = revision hash (sn_text q)" if "rc_value r resource = Some q" for q
    using r that unfolding replica_ok_def all_values_def snapshot_ok_def by blast
  have same: "s = q" if "rc_value r resource = Some q" "s \<in> set (?s # pb_history p)" "sn_revision s = sn_revision q" for s q
  proof -
    have "list_all (\<lambda>s. revision hash (sn_text s) = revision hash (sn_text q) \<longrightarrow> sn_text s = sn_text q) (?s # pb_history p)"
      using free unfolding collision_free_def p that(1) by simp
    moreover have "revision hash (sn_text s) = revision hash (sn_text q)"
      using that(3) held[OF that(1)] snaps[OF that(2)] by (simp add: snapshot_ok_def)
    ultimately have "sn_text s = sn_text q" using that(2) unfolding list_all_iff by blast
    then show ?thesis using that(3) by (rule snapshot_eqI)
  qed
  note full = apply_full[OF rl(1) r res bs, of now']
  note answer = reconcile_cases(3)[OF pl c ans, unfolded p option.case]
  show ?thesis
  proof (cases "map_option sn_revision (rc_value r resource) = Some (sn_revision ?s)")
    case True
    then obtain q where q: "rc_value r resource = Some q" "sn_revision q = sn_revision ?s" by blast
    then have "?s = q" using same[OF q(1), of ?s] by simp
    moreover have "answer = None" using answer unfolding True by simp
    ultimately show ?thesis using q(1) by simp
  next
    case False
    note a = answer[unfolded if_not_P[OF False]]
    show ?thesis
    proof (cases "answer = Some (full_frame resource ?s)")
      case True
      then show ?thesis using full by simp
    next
      case nf: False
      obtain base where b1: "find_base (map_option sn_revision (rc_value r resource)) p = Some base"
        using a nf by (cases "find_base (map_option sn_revision (rc_value r resource)) p") simp_all
      note a1 = a[unfolded b1 option.case]
      obtain change where b2: "diff 0 (sn_text base) (sn_text ?s) = Some change"
        using a1 nf by (cases "diff 0 (sn_text base) (sn_text ?s)") simp_all
      have b3: "answer = Some (patch_frame resource ?s (sn_revision base) change)"
        using a1[unfolded b2 option.case] nf
        by (cases "text_length (patch_frame resource ?s (sn_revision base) change) < text_length (full_frame resource ?s)")
          simp_all
      have m: "map_option sn_revision (rc_value r resource) = Some (sn_revision base)" "base \<in> set (?s # pb_history p)"
        using find_base_mem[OF b1] by blast+
      then obtain q where q: "rc_value r resource = Some q" "sn_revision q = sn_revision base" by blast
      have "base = q" using same[OF q(1) m(2)] q(2) by simp
      then show ?thesis
        using apply_patch[OF rl(1) r res bs q(1) conjunct1[OF held[OF q(1)]]] b2 unfolding b3 by simp
    qed
  qed
qed

text \<open>C1: A value published under a resource reaches a replica in one frame. Whatever the replica holds
  (nothing, the current revision, a revision in the publisher's history, or another one), after it
  applies the publisher's answer, or when the publisher answers nothing, the replica holds exactly the
  published value as JSON normalises it, under the revision \<open>publish\<close> returned.\<close>

theorem publish_reaches_replica:
  assumes "limits_ok pl" "limits_ok rl" "maxValueBytes pl \<le> maxValueBytes rl"
    and "\<forall>bytes. length (hash bytes) = 32" "js_ok value"
    and "publisher_ok hash pl c0" "publish hash pl now resource value c0 = (Inr rv, c)"
    and "replica_ok hash rl r" "collision_free hash resource c r"
    and "reconcile pl now' resource (map_option sn_revision (rc_value r resource)) c = (answer, c')"
  shows "case answer of
      None \<Rightarrow> rc_value r resource = Some \<lparr>sn_revision = rv, sn_text = normalise value\<rparr>
    | Some frame \<Rightarrow> (\<exists>r'. apply_frame hash rl now'' frame r = (Applied (normalise value), r')
        \<and> rc_value r' resource = Some \<lparr>sn_revision = rv, sn_text = normalise value\<rparr> \<and> replica_ok hash rl r')"
proof -
  have res: "resource \<noteq> []" using assms(7) by (auto simp: publish_def)
  note pub = publish_ok[OF assms(1,6,5,7)]
  obtain p where p: "rc_value c resource = Some p" "pb_current p = \<lparr>sn_revision = rv, sn_text = normalise value\<rparr>"
    using pub(2)[OF refl] by blast
  show ?thesis
    using frame_converges[OF assms(1-4) pub(1) assms(8,9) res p(1) assms(10), of now''] p(2)
    by (cases answer) simp_all
qed

text \<open>C12: A replica never holds a document that does not hash to its revision. Whatever frame arrives, the
  invariant is kept; an accepted frame stores its own revision with a document that hashes to it, and a
  refused frame changes the value of no resource.\<close>

theorem replica_integrity:
  assumes "limits_ok lim" "replica_ok hash lim c" "js_ok frame" "apply_frame hash lim now frame c = (result, c')"
  shows "replica_ok hash lim c'
    \<and> (case result of
        Refused reason \<Rightarrow> (\<forall>k. rc_value c' k = rc_value c k)
      | Applied d \<Rightarrow> revision hash d = str_of (js_get frame ''revision'')
          \<and> rc_value c' (str_of (js_get frame ''resource''))
              = Some \<lparr>sn_revision = str_of (js_get frame ''revision''), sn_text = d\<rparr>)"
  using assms(1,2,4)
proof (cases rule: apply_frame_cases)
  case (refused reason)
  then show ?thesis by simp
next
  case (applied resource rv v d c1)
  have "case rc_value c resource of None \<Rightarrow> js_get frame ''kind'' = JStr ''full'' | Some s \<Rightarrow> js_ok (sn_text s)"
  proof (cases "rc_value c resource")
    case None
    then show ?thesis using applied(3) by simp
  next
    case (Some s)
    then have "snapshot_ok hash lim s" using assms(2) unfolding replica_ok_def all_values_def by blast
    then show ?thesis using Some wf_js_ok by (simp add: snapshot_ok_def bounded_doc_def)
  qed
  then have "js_ok v" using proposed_ok[OF applied(4) assms(3)] by blast
  moreover have "maxValueBytes lim \<le> max_safe" using assms(1) by (simp add: limits_ok_def)
  ultimately have d: "bounded_doc d" "text_length d * 2 \<le> maxValueBytes lim"
    using encode_bounded[OF applied(5)] by blast+
  note st = store_snapshot[OF assms(1) applied(7) d applied(6)[symmetric] applied(10)]
  show ?thesis
    using st applied(6) unfolding applied(1,2,9) js_test_simps by (simp only: applied.case simp_thms)
qed

section \<open>A concrete run\<close>

definition sample_limits :: reconcile_limits where
  "sample_limits = \<lparr>maxEntries = 4, maxBytes = 1000, maxValueBytes = 500, maxHistoryPerResource = 2\<rparr>"

definition sample_hash :: digest where
  "sample_hash bytes = (foldl (\<lambda>a b. (a + b) mod 256) 0 bytes) # replicate 31 0"

definition sample_old :: js where
  "sample_old = mk_obj [(''items'', JArr [JStr ''a'', JStr ''b'']), (''title'', JStr ''draft'')]"

definition sample_new :: js where
  "sample_new = mk_obj [(''items'', JArr [JStr ''a'', JStr ''b'', JNull]), (''note'', JUndef), (''title'', JStr ''drafts'')]"

lemma sample_hash_length: "\<forall>bytes. length (sample_hash bytes) = 32"
  by (simp add: sample_hash_def)

lemma sample_limits_ok: "limits_ok sample_limits"
  by (simp add: limits_ok_def sample_limits_def max_safe_def)

lemma sample_publisher_ok: "publisher_ok hash sample_limits rc_empty"
  using rc_inv_empty[of "cache_limits_of sample_limits"]
  by (simp add: publisher_ok_def all_values_empty cache_limits_of_def sample_limits_def)

lemma sample_replica_ok: "replica_ok hash sample_limits rc_empty"
  using rc_inv_empty[of "cache_limits_of sample_limits"]
  by (simp add: replica_ok_def all_values_empty cache_limits_of_def sample_limits_def)

lemma publish_reaches_replica_witness:
  "\<exists>rv c frame r'. publish sample_hash sample_limits 1 ''r'' sample_new rc_empty = (Inr rv, c)
     \<and> fst (reconcile sample_limits 2 ''r'' None c) = Some frame
     \<and> apply_frame sample_hash sample_limits 3 frame rc_empty = (Applied (normalise sample_new), r')
     \<and> rc_value r' ''r'' = Some \<lparr>sn_revision = rv, sn_text = normalise sample_new\<rparr>"
proof -
  have "is_ok (fst (publish sample_hash sample_limits 1 ''r'' sample_new rc_empty))" by code_simp
  then obtain rv c where pub: "publish sample_hash sample_limits 1 ''r'' sample_new rc_empty = (Inr rv, c)"
    by (metis is_okE prod.collapse)
  obtain answer c' where ans: "reconcile sample_limits 2 ''r'' (map_option sn_revision (rc_value (rc_empty :: replica) ''r'')) c = (answer, c')"
    by (metis prod.collapse)
  have none: "rc_value (rc_empty :: replica) ''r'' = None" by (simp add: rc_value_def)
  have js: "js_ok sample_new" by code_simp
  have free: "collision_free sample_hash ''r'' c rc_empty"
    by (simp add: collision_free_def none split: option.splits)
  show ?thesis
    using publish_reaches_replica[OF sample_limits_ok sample_limits_ok order_refl sample_hash_length js
        sample_publisher_ok pub sample_replica_ok free ans, of 3] pub ans none
    by (cases answer) auto
qed

lemma replica_integrity_witness:
  "js_ok (full_frame ''r'' \<lparr>sn_revision = ''00'', sn_text = JNull\<rparr>)
   \<and> replica_ok sample_hash sample_limits
       (snd (apply_frame sample_hash sample_limits 1 (full_frame ''r'' \<lparr>sn_revision = ''00'', sn_text = JNull\<rparr>) rc_empty))
   \<and> fst (apply_frame sample_hash sample_limits 1 (full_frame ''r'' \<lparr>sn_revision = ''00'', sn_text = JNull\<rparr>) rc_empty)
       = Refused ''Result revision mismatch''"
proof -
  let ?f = "full_frame ''r'' \<lparr>sn_revision = ''00'', sn_text = JNull\<rparr>"
  have js: "js_ok ?f" by code_simp
  obtain result c' where r: "apply_frame sample_hash sample_limits 1 ?f rc_empty = (result, c')"
    by (metis prod.collapse)
  have "fst (apply_frame sample_hash sample_limits 1 ?f rc_empty) = Refused ''Result revision mismatch''" by code_simp
  then show ?thesis
    using js replica_integrity[OF sample_limits_ok sample_replica_ok js r] r by simp
qed

end
