(* ===== verification/Contracts.thy ===== *)
theory Contracts
  imports Js_Values
begin

text \<open>
  The thread contract of the orchestrator (\<open>packages/orchestrator/src/threads/contracts.ts\<close>,
  \<open>work-state.ts\<close>, \<open>wait-contract.ts\<close>): the result type of every thread operation, and the validators
  of requests that arrive as unchecked JSON. Each validator is translated test by test, in the order of
  the code, on \<open>js\<close> values.
\<close>

section \<open>Results\<close>

datatype error_code = Not_found | Invalid_request | Conflict | No_pending_messages | Unavailable
  | Cancellation_failed | Oversized

record thread_error =
  te_code :: error_code
  te_message :: string
  te_retryable :: bool
  te_retry_at :: "int option"

type_synonym 'a result = "thread_error + 'a"

definition invalid :: "string \<Rightarrow> 'a result" where
  "invalid message = Inl \<lparr>te_code = Invalid_request, te_message = message, te_retryable = False, te_retry_at = None\<rparr>"

lemma is_ok_invalid [simp]: "\<not> is_ok (invalid m)" "invalid m \<noteq> Inr x"
  by (simp_all add: invalid_def)

section \<open>Tests on unchecked values\<close>

text \<open>\<open>typeof v === "object" && v\<close>: objects and arrays.\<close>

definition is_objectish :: "js \<Rightarrow> bool" where
  "is_objectish v = (is_object v \<or> is_array v)"

text \<open>\<open>Number.isInteger\<close>.\<close>

definition is_integer :: "js \<Rightarrow> bool" where
  "is_integer v = (case v of JNum (NInt _) \<Rightarrow> True | _ \<Rightarrow> False)"

definition keys_within :: "js \<Rightarrow> string list \<Rightarrow> bool" where
  "keys_within v allowed = list_all (\<lambda>p. fst p \<in> set allowed) (fields_of v)"

definition int_within :: "js \<Rightarrow> int \<Rightarrow> int \<Rightarrow> bool" where
  "int_within v lo hi = (is_integer v \<and> lo \<le> int_of v \<and> int_of v \<le> hi)"

definition safe_from :: "js \<Rightarrow> int \<Rightarrow> bool" where
  "safe_from v lo = (safe_int v \<and> lo \<le> int_of v)"

text \<open>An optional field: absent, or passing a test.\<close>

definition optionally :: "(js \<Rightarrow> bool) \<Rightarrow> js \<Rightarrow> bool" where
  "optionally P v = (v = JUndef \<or> P v)"

text \<open>A list of distinct nonblank strings of bounded length and number.\<close>

definition string_ids :: "js \<Rightarrow> nat \<Rightarrow> nat \<Rightarrow> bool" where
  "string_ids v lo hi = (is_array v \<and> lo \<le> length (arr_of v) \<and> length (arr_of v) \<le> hi
     \<and> list_all nonblank (arr_of v) \<and> distinct (arr_of v))"

lemma nonblank_string: "nonblank v \<Longrightarrow> \<exists>s. v = JStr s \<and> js_trim s \<noteq> []"
  by (cases v) (auto simp: nonblank_def)

lemma list_all_strings: "list_all nonblank xs \<Longrightarrow> map JStr (map str_of xs) = xs"
  by (induction xs) (auto dest: nonblank_string)

section \<open>Awaiting peers\<close>

definition thread_await_timeout :: int where
  "thread_await_timeout = 25000"

definition validateThreadAwait :: "js \<Rightarrow> unit result" where
  "validateThreadAwait input =
     (let parentId = js_get input ''parentId''; threadIds = js_get input ''threadIds'';
          after = js_get input ''after''; timeoutMs = js_get input ''timeoutMs'';
          current = js_get input ''currentAssignment'' in
      if \<not> nonblank parentId
         \<or> \<not> is_array threadIds \<or> length (arr_of threadIds) < 1 \<or> length (arr_of threadIds) > 100
         \<or> list_ex (\<lambda>id. \<not> nonblank id \<or> id = parentId) (arr_of threadIds)
         \<or> \<not> distinct (arr_of threadIds)
      then invalid ''Await requires a caller and 1..100 unique accessible peer thread IDs, excluding the caller''
      else if after \<noteq> JUndef \<and> (\<not> is_object after \<or> list_ex (\<lambda>p. \<not> safe_from (snd p) 0) (fields_of after))
      then invalid ''Await cursors must be nonnegative safe integers keyed by thread ID''
      else if timeoutMs \<noteq> JUndef \<and> \<not> int_within timeoutMs 0 thread_await_timeout
      then invalid ''Await timeoutMs must be 0..25000''
      else if current \<noteq> JUndef \<and> current \<noteq> JBool True
      then invalid ''currentAssignment must be true when supplied''
      else Inr ())"

section \<open>Inspection options\<close>

definition receipts_ok :: "js \<Rightarrow> bool" where
  "receipts_ok receipts = (is_object receipts \<and> keys_within receipts [''workIds'']
     \<and> (let ids = js_get receipts ''workIds'' in string_ids ids 1 64
          \<and> list_all (\<lambda>id. length (str_of id) \<le> 4096) (arr_of ids)))"

definition window_ok :: "js \<Rightarrow> bool" where
  "window_ok w = (is_object w
     \<and> keys_within w [''before'', ''limit'', ''generation'', ''toolCallIds'', ''leafId'']
     \<and> int_within (js_get w ''limit'') 1 1000
     \<and> optionally (\<lambda>v. safe_from v 0) (js_get w ''before'')
     \<and> optionally nonblank (js_get w ''generation'')
     \<and> optionally nonblank (js_get w ''leafId'')
     \<and> optionally (\<lambda>ids. string_ids ids 0 64 \<and> list_all (\<lambda>id. length (str_of id) \<le> 4096) (arr_of ids))
         (js_get w ''toolCallIds''))"

definition records_ok :: "js \<Rightarrow> bool" where
  "records_ok r = (is_object r
     \<and> keys_within r [''after'', ''before'', ''limit'', ''revision'', ''includeEntries'', ''leafId'']
     \<and> int_within (js_get r ''limit'') 1 32
     \<and> optionally (\<lambda>v. safe_from v (- 1)) (js_get r ''after'')
     \<and> optionally (\<lambda>v. safe_from v 0) (js_get r ''before'')
     \<and> \<not> (js_get r ''after'' \<noteq> JUndef \<and> js_get r ''before'' \<noteq> JUndef)
     \<and> optionally is_boolean (js_get r ''includeEntries'')
     \<and> optionally nonblank (js_get r ''leafId'')
     \<and> optionally nonblank (js_get r ''revision''))"

definition validateInspectOptions :: "js \<Rightarrow> js result" where
  "validateInspectOptions input =
     (let context = js_get input ''context''; revision = js_get input ''contextRevision'';
          window = js_get input ''contextWindow''; records = js_get input ''contextRecords'';
          receipts = js_get input ''inputReceipts'' in
      if input = JUndef then Inr (JObj [])
      else if \<not> is_object input then invalid ''Inspection options must be an object''
      else if \<not> keys_within input [''context'', ''contextRevision'', ''contextWindow'', ''contextRecords'', ''inputReceipts'']
      then invalid ''Unknown inspection option''
      else if length (filter (\<lambda>v. v \<noteq> JUndef) [context, window, records, receipts]) > 1
      then invalid ''Context, contextWindow, contextRecords and inputReceipts are mutually exclusive''
      else if receipts \<noteq> JUndef \<and> \<not> receipts_ok receipts
      then invalid ''Input receipts require 1..64 unique work IDs (1..4096 characters)''
      else if context \<noteq> JUndef \<and> context \<noteq> JStr ''omit'' \<and> context \<noteq> JStr ''full''
      then invalid ''Inspection context must be omit or full when specified''
      else if revision \<noteq> JUndef \<and> context \<noteq> JStr ''full''
      then invalid ''Context revision requires explicit context full''
      else if revision \<noteq> JUndef \<and> \<not> safe_from revision 0
      then invalid ''Context revision must be a nonnegative safe integer''
      else if window \<noteq> JUndef \<and> \<not> window_ok window
      then invalid ''Context window requires limit 1..1000, optional nonnegative safe before, nonempty generation/leafId, and optional 0..64 unique tool call IDs (1..4096 characters)''
      else if records \<noteq> JUndef \<and> \<not> records_ok records
      then invalid ''Context records require limit 1..32, optional exclusive safe after >= -1 or before >= 0, optional nonempty revision/leafId, and optional boolean includeEntries''
      else Inr input)"

section \<open>Wait dependencies\<close>

datatype wait_dependency = WaitAgents "string list" obj | WaitJob string | WaitDeployment string
  | WaitMessage string

text \<open>The JSON of a dependency.\<close>

fun dependency_js :: "wait_dependency \<Rightarrow> js" where
  "dependency_js (WaitAgents ids after) = mk_obj [(''kind'', JStr ''agents''), (''threadIds'', JArr (map JStr ids)), (''after'', JObj after)]"
| "dependency_js (WaitJob j) = mk_obj [(''kind'', JStr ''job''), (''jobId'', JStr j)]"
| "dependency_js (WaitDeployment p) = mk_obj [(''kind'', JStr ''deployment''), (''publicationId'', JStr p)]"
| "dependency_js (WaitMessage t) = mk_obj [(''kind'', JStr ''message''), (''fromThreadId'', JStr t)]"

definition foreign_keys :: "js \<Rightarrow> string list \<Rightarrow> bool" where
  "foreign_keys value allowed =
     (\<not> keys_within value ([''action'', ''reason'', ''since'', ''threadId'', ''requestId'', ''kind''] @ allowed))"

definition wait_cursors :: "js list \<Rightarrow> js \<Rightarrow> bool" where
  "wait_cursors ids after = (is_object after
     \<and> list_all (\<lambda>(id, cursor). JStr id \<in> set ids \<and> safe_from cursor 0) (fields_of after))"

definition validateWaitDependency :: "js \<Rightarrow> wait_dependency result" where
  "validateWaitDependency value =
     (let kind = js_get value ''kind''; ids = js_get value ''threadIds'' in
      if \<not> is_objectish value then invalid ''A typed wait dependency is required''
      else if kind = JStr ''agents'' \<or> (kind = JUndef \<and> js_get value ''action'' = JStr ''set'' \<and> is_array ids)
      then (if foreign_keys value [''threadIds'', ''after''] then invalid ''An agents wait accepts only peer dependencies and cursors''
        else if \<not> string_ids ids 1 100 then invalid ''An agents wait requires 1..100 unique peer thread IDs; available for assignment is idle, not waiting''
        else let after = (if js_get value ''after'' = JUndef then JObj [] else js_get value ''after'') in
          if \<not> wait_cursors (arr_of ids) after
          then invalid ''Wait cursors must be nonnegative safe integers keyed only by declared peer IDs''
          else Inr (WaitAgents (map str_of (arr_of ids)) (fields_of after)))
      else if kind = JStr ''job''
      then (if foreign_keys value [''jobId''] \<or> \<not> nonblank (js_get value ''jobId'') then invalid ''A job wait requires only its stable jobId''
        else Inr (WaitJob (str_of (js_get value ''jobId''))))
      else if kind = JStr ''deployment''
      then (if foreign_keys value [''publicationId''] \<or> \<not> nonblank (js_get value ''publicationId'') then invalid ''A deployment wait requires only its stable publicationId''
        else Inr (WaitDeployment (str_of (js_get value ''publicationId''))))
      else if kind = JStr ''message''
      then (if foreign_keys value [''fromThreadId''] \<or> \<not> nonblank (js_get value ''fromThreadId'') then invalid ''A message wait requires only its collaborator fromThreadId''
        else Inr (WaitMessage (str_of (js_get value ''fromThreadId''))))
      else invalid ''Wait kind must be agents, job, deployment or message; there is no generic wait or available-for-assignment wait'')"

text \<open>\<open>parseRunnerWaitDependency\<close>: only an explicit child dependency without a kind is given one.\<close>

definition runner_wait_message :: string where
  "runner_wait_message = ''This runner must name a typed dependency: agents with nonempty accessible peer threadIds, job with jobId, deployment with publicationId, or message with fromThreadId. If work is finished, end the turn normally; no waiting status was recorded. Retained runner tools refresh after accepted work settles, not during active work.''"

definition parseRunnerWaitDependency :: "js \<Rightarrow> wait_dependency result" where
  "parseRunnerWaitDependency input =
     (if is_objectish input \<and> \<not> js_has input ''kind'' \<and> js_has input ''threadIds''
         \<and> is_array (js_get input ''threadIds'') \<and> arr_of (js_get input ''threadIds'') \<noteq> []
      then validateWaitDependency (JObj (oput ''kind'' (JStr ''agents'') (fields_of input)))
      else let parsed = validateWaitDependency input in
        if \<not> is_ok parsed \<and> is_objectish input \<and> \<not> js_has input ''kind'' then invalid runner_wait_message
        else parsed)"

text \<open>What an accepted dependency satisfies.\<close>

fun dependency_ok :: "wait_dependency \<Rightarrow> bool" where
  "dependency_ok (WaitAgents ids after) = (1 \<le> length ids \<and> length ids \<le> 100 \<and> distinct ids
     \<and> list_all (\<lambda>s. js_trim s \<noteq> []) ids
     \<and> list_all (\<lambda>(id, cursor). id \<in> set ids \<and> safe_from cursor 0) after)"
| "dependency_ok (WaitJob j) = (js_trim j \<noteq> [])"
| "dependency_ok (WaitDeployment p) = (js_trim p \<noteq> [])"
| "dependency_ok (WaitMessage t) = (js_trim t \<noteq> [])"

lemma nonblank_JStr [simp]: "nonblank (JStr s) \<longleftrightarrow> js_trim s \<noteq> []"
  by (simp add: nonblank_def)

lemma nonblank_str_of: "nonblank v \<Longrightarrow> js_trim (str_of v) \<noteq> []"
  by (auto dest: nonblank_string)

lemma inj_on_str_of: "list_all nonblank xs \<Longrightarrow> distinct xs \<Longrightarrow> distinct (map str_of xs)"
  using list_all_strings[of xs] by (metis distinct_map)

lemma JStr_in_ids: "list_all nonblank xs \<Longrightarrow> JStr s \<in> set xs \<longleftrightarrow> s \<in> set (map str_of xs)"
  using list_all_strings[of xs] by (metis (no_types, lifting) image_iff js.inject(3) list.set_map)

lemma validate_agents:
  assumes "string_ids ids 1 100" "wait_cursors (arr_of ids) after"
  shows "dependency_ok (WaitAgents (map str_of (arr_of ids)) (fields_of after))"
proof -
  have nb: "list_all nonblank (arr_of ids)" using assms(1) by (simp add: string_ids_def)
  have "list_all (\<lambda>s. js_trim s \<noteq> []) (map str_of (arr_of ids))"
    using nb nonblank_str_of by (auto simp: list_all_iff)
  then show ?thesis
    using assms nb inj_on_str_of[OF nb] JStr_in_ids[OF nb]
    by (auto simp: string_ids_def wait_cursors_def list_all_iff)
qed

lemmas validate_agents_none = validate_agents[where after = "JObj []", unfolded js_test_simps]

lemma validate_single:
  "nonblank v \<Longrightarrow> dependency_ok (WaitJob (str_of v))"
  "nonblank v \<Longrightarrow> dependency_ok (WaitDeployment (str_of v))"
  "nonblank v \<Longrightarrow> dependency_ok (WaitMessage (str_of v))"
  using nonblank_str_of by auto

lemma validate_sound: "validateWaitDependency value = Inr d \<Longrightarrow> dependency_ok d"
  unfolding validateWaitDependency_def Let_def
  by (auto split: if_split_asm simp del: dependency_ok.simps One_nat_def
      intro: validate_agents validate_agents_none validate_single)

lemma parse_sound: "parseRunnerWaitDependency value = Inr d \<Longrightarrow> dependency_ok d"
  by (auto simp: parseRunnerWaitDependency_def Let_def split: if_split_asm intro: validate_sound)

lemma js_keys_within_mk: "keys_within (mk_obj fs) ks \<longleftrightarrow> set (map fst fs) \<subseteq> set ks"
proof -
  have "keys_within (mk_obj fs) ks \<longleftrightarrow> fst ` set (mk_fields fs) \<subseteq> set ks"
    by (simp add: keys_within_def mk_obj_def list_all_iff image_subset_iff del: mk_fields_keys)
  then show ?thesis by simp
qed

lemma string_ids_JStr: "string_ids (JArr (map JStr ids)) lo hi \<longleftrightarrow> lo \<le> length ids \<and> length ids \<le> hi
    \<and> list_all (\<lambda>s. js_trim s \<noteq> []) ids \<and> distinct ids"
  by (auto simp: string_ids_def list_all_iff distinct_map inj_on_def)

lemma validate_complete: "dependency_ok d \<Longrightarrow> validateWaitDependency (dependency_js d) = Inr d"
proof (cases d)
  case (WaitAgents ids after)
  assume ok: "dependency_ok d"
  have s: "string_ids (JArr (map JStr ids)) 1 100" using ok WaitAgents by (simp add: string_ids_JStr)
  have w: "wait_cursors (map JStr ids) (JObj after)"
    using ok WaitAgents by (auto simp: wait_cursors_def list_all_iff)
  show ?thesis using WaitAgents s w
    by (simp add: validateWaitDependency_def Let_def is_objectish_def foreign_keys_def js_keys_within_mk comp_def)
qed (auto simp: validateWaitDependency_def Let_def is_objectish_def foreign_keys_def js_keys_within_mk)

section \<open>Outstanding work\<close>

record thread_summary =
  th_state :: string
  th_pending :: int
  th_waiting :: bool
  th_wake :: bool
  th_dependencies :: "string list option"

definition threadHasOutstandingWork :: "thread_summary \<Rightarrow> bool" where
  "threadHasOutstandingWork t = (th_state t \<noteq> ''idle'' \<or> th_pending t > 0 \<or> th_waiting t \<or> th_wake t
     \<or> (case th_dependencies t of None \<Rightarrow> False | Some ds \<Rightarrow> ds \<noteq> []))"

section \<open>The property\<close>

text \<open>A wait dependency accepted by either entry point, from whatever JSON, names 1..100 distinct nonblank
  peers with cursors only for them, or one nonblank job, publication or collaborator; and its stored
  form is accepted again as the same dependency, so the later revalidation of an owned wait cannot
  refuse or change it.\<close>

theorem validated_wait_is_stable:
  assumes "parseRunnerWaitDependency v = Inr d \<or> validateWaitDependency v = Inr d"
  shows "dependency_ok d \<and> validateWaitDependency (dependency_js d) = Inr d
    \<and> parseRunnerWaitDependency (dependency_js d) = Inr d"
proof -
  have ok: "dependency_ok d" using assms validate_sound parse_sound by blast
  have "js_has (dependency_js d) ''kind''" by (cases d) simp_all
  then show ?thesis using ok validate_complete[OF ok] by (simp add: parseRunnerWaitDependency_def Let_def)
qed

lemma validated_wait_is_stable_witness:
  "validateWaitDependency (dependency_js (WaitAgents [''t1'', ''t2''] [(''t2'', JNum (NInt 7))]))
     = Inr (WaitAgents [''t1'', ''t2''] [(''t2'', JNum (NInt 7))])"
proof -
  have "parseRunnerWaitDependency (mk_obj [(''threadIds'', JArr [JStr ''t1'', JStr ''t2'']), (''after'', mk_obj [(''t2'', JNum (NInt 7))])])
      = Inr (WaitAgents [''t1'', ''t2''] [(''t2'', JNum (NInt 7))])" by code_simp
  then show ?thesis using validated_wait_is_stable by blast
qed

end
