(* ===== verification/Regex.thy ===== *)
theory Regex
  imports Prelude
begin

text \<open>
  The regular expressions the program tests strings with. A position is the character before it and the
  text after it, so that word boundaries can be tested; \<open>ends\<close> lists the positions a match may end at.
  Only \<open>test\<close> (is there a match somewhere) and one capture are used, so the order of alternatives and
  greediness do not matter.
\<close>

datatype rx = Chars "char list" bool | Any bool | Seq "rx list" | Alt "rx list" | Rep nat "nat option" rx
  | Bound | Start | Finish

type_synonym position = "char option \<times> string"

definition lower :: "char \<Rightarrow> char" where
  "lower c = (let n = of_char c :: nat in if 65 \<le> n \<and> n \<le> 90 then char_of (n + 32) else c)"

definition digit_chars :: string where
  "digit_chars = ''0123456789''"

definition word_char :: "char \<Rightarrow> bool" where
  "word_char c = (let n = of_char (lower c) :: nat in (97 \<le> n \<and> n \<le> 122) \<or> (48 \<le> n \<and> n \<le> 57) \<or> c = CHR ''_'')"

definition at_word :: "char option \<Rightarrow> bool" where
  "at_word p = (case p of None \<Rightarrow> False | Some c \<Rightarrow> word_char c)"

definition next_char :: "string \<Rightarrow> char option" where
  "next_char s = (case s of [] \<Rightarrow> None | c # _ \<Rightarrow> Some c)"

definition line_end :: "char \<Rightarrow> bool" where
  "line_end c = (c = CHR 0x0A \<or> c = CHR 0x0D)"

definition step_char :: "(char \<Rightarrow> bool) \<Rightarrow> position \<Rightarrow> position list" where
  "step_char ok p = (case snd p of [] \<Rightarrow> [] | c # s \<Rightarrow> if ok c then [(Some c, s)] else [])"

text \<open>
  Repetition takes at most as many rounds as there are characters, since a round that consumes nothing
  adds no new position.
\<close>

fun rounds :: "(position \<Rightarrow> position list) \<Rightarrow> nat \<Rightarrow> position list \<Rightarrow> position list" where
  "rounds m 0 ps = ps"
| "rounds m (Suc n) ps = (let qs = remdups (concat (map m ps)) in ps @ rounds m n qs)"

fun exactly :: "(position \<Rightarrow> position list) \<Rightarrow> nat \<Rightarrow> position list \<Rightarrow> position list" where
  "exactly m 0 ps = ps"
| "exactly m (Suc n) ps = exactly m n (remdups (concat (map m ps)))"

text \<open>\<open>Chars cs True\<close> ignores case; \<open>Any True\<close> also matches a line end (the \<open>s\<close> flag).\<close>

fun ends :: "rx \<Rightarrow> position \<Rightarrow> position list" and ends_seq :: "rx list \<Rightarrow> position \<Rightarrow> position list"
  and ends_alt :: "rx list \<Rightarrow> position \<Rightarrow> position list" where
  "ends (Chars cs ci) p = step_char (\<lambda>c. if ci then lower c \<in> lower ` set cs else c \<in> set cs) p"
| "ends (Any dot) p = step_char (\<lambda>c. dot \<or> \<not> line_end c) p"
| "ends (Seq rs) p = ends_seq rs p"
| "ends (Alt rs) p = ends_alt rs p"
| "ends (Rep lo hi r) p = (let ps = exactly (ends r) lo [p] in
     case hi of None \<Rightarrow> rounds (ends r) (length (snd p)) ps | Some h \<Rightarrow> rounds (ends r) (h - lo) ps)"
| "ends Bound p = (if at_word (fst p) \<noteq> at_word (next_char (snd p)) then [p] else [])"
| "ends Start p = (if fst p = None then [p] else [])"
| "ends Finish p = (if snd p = [] then [p] else [])"
| "ends_seq [] p = [p]"
| "ends_seq (r # rs) p = concat (map (ends_seq rs) (ends r p))"
| "ends_alt [] p = []"
| "ends_alt (r # rs) p = ends r p @ ends_alt rs p"

text \<open>\<open>regex.test(text)\<close>: a match from some position.\<close>

fun rx_from :: "rx \<Rightarrow> char option \<Rightarrow> string \<Rightarrow> bool" where
  "rx_from r prev [] = (ends r (prev, []) \<noteq> [])"
| "rx_from r prev (c # s) = (ends r (prev, c # s) \<noteq> [] \<or> rx_from r (Some c) s)"

definition rx_test :: "rx \<Rightarrow> string \<Rightarrow> bool" where
  "rx_test r s = rx_from r None s"

text \<open>Literal text, and the usual abbreviations.\<close>

definition lit :: "bool \<Rightarrow> string \<Rightarrow> rx" where
  "lit ci s = Seq (map (\<lambda>c. Chars [c] ci) s)"

definition opt :: "rx \<Rightarrow> rx" where
  "opt r = Rep 0 (Some 1) r"

definition digit_rx :: rx where
  "digit_rx = Chars digit_chars False"

definition alts :: "bool \<Rightarrow> string list \<Rightarrow> rx" where
  "alts ci ss = Alt (map (lit ci) ss)"

text \<open>A literal matches exactly where the text has it.\<close>

lemma ends_Seq: "ends (Seq rs) = ends_seq rs"
  by (rule ext) simp

lemma ends_lit_cons: "ends (lit ci (c # l)) p = concat (map (ends (lit ci l)) (ends (Chars [c] ci) p))"
  by (simp add: lit_def ends_Seq)

lemma ends_lit: "ends (lit False l) (prev, s) \<noteq> [] \<longleftrightarrow> prefix l s"
proof (induction l arbitrary: prev s)
  case Nil
  then show ?case by (simp add: lit_def)
next
  case (Cons c l)
  show ?case
  proof (cases s)
    case Nil
    then show ?thesis by (simp add: ends_lit_cons step_char_def)
  next
    case (Cons d s')
    then show ?thesis using Cons.IH[of "Some d" s'] by (auto simp: ends_lit_cons step_char_def)
  qed
qed

lemma rx_test_lit: "rx_test (lit False l) s \<longleftrightarrow> sublist l s"
proof -
  have "rx_from (lit False l) prev s \<longleftrightarrow> sublist l s" for prev
  proof (induction s arbitrary: prev)
    case Nil
    have "ends (lit False l) (prev, []) \<noteq> [] \<longleftrightarrow> prefix l []" by (rule ends_lit)
    then show ?case by simp
  next
    case (Cons c s)
    have "ends (lit False l) (prev, c # s) \<noteq> [] \<longleftrightarrow> prefix l (c # s)" by (rule ends_lit)
    then show ?case using Cons by (simp add: sublist_Cons_right)
  qed
  then show ?thesis by (simp add: rx_test_def)
qed

end
