(* ===== verification/Provider_Errors.thy ===== *)
theory Provider_Errors
  imports Regex Js_Values
begin

text \<open>
  The classification of provider failures (\<open>packages/orchestrator/src/provider-errors.ts\<close>, with the
  entitlement pattern of \<open>auth/model-entitlement.ts\<close> and \<open>threads/runner-capacity.ts\<close>): each pattern is
  the regular expression of the source. \<open>Date.parse\<close> on a time a provider names is the parameter
  \<open>parse_date\<close>; times are integer milliseconds.
\<close>

definition any_test :: "rx list \<Rightarrow> string \<Rightarrow> bool" where
  "any_test ps message = list_ex (\<lambda>p. rx_test p message) ps"

definition usage_limit :: rx where
  "usage_limit = Seq [lit True ''usage'', opt (Any False), lit True ''limit'']"

definition limit_reached :: rx where
  "limit_reached = Seq [lit True ''limit'', Rep 0 None (Any False), lit True ''reached'']"

definition word :: "bool \<Rightarrow> string \<Rightarrow> rx" where
  "word ci s = Seq [Bound, lit ci s, Bound]"

definition rate_limit_patterns :: "rx list" where
  "rate_limit_patterns = [usage_limit, Seq [lit True ''rate'', opt (Any False), lit True ''limit''], limit_reached,
     lit True ''too many requests'', lit True ''overloaded'', lit True ''capacity'', word False ''429'',
     lit True ''quota'', lit True ''extra usage'']"

definition isRateLimitError :: "string \<Rightarrow> bool" where
  "isRateLimitError message = any_test rate_limit_patterns message"

definition compaction_patterns :: "rx list" where
  "compaction_patterns = [Seq [lit True ''Native compaction '', alts True [''failed'', ''cancelled'']],
     Seq [Start, lit False ''Auto-compaction failed:''], lit False ''Automatic compaction retries after'']"

definition isCompactionFailure :: "string \<Rightarrow> bool" where
  "isCompactionFailure message = any_test compaction_patterns message"

definition transient_patterns :: "rx list" where
  "transient_patterns = compaction_patterns @
     [alts True [''fetch failed'', ''socket hang up'', ''ECONNRESET'', ''ECONNREFUSED'', ''ETIMEDOUT'', ''EAI_AGAIN'', ''WebSocket closed''],
      Seq [Bound, Alt [Seq [lit False ''50'', Chars ''01234'' False], Seq [lit False ''52'', digit_rx]], Bound]]"

text \<open>The model named by an entitlement refusal: the first match of the pattern, with its capture.\<close>

definition model_char :: "char \<Rightarrow> bool" where
  "model_char c = (let n = of_char (lower c) :: nat in (97 \<le> n \<and> n \<le> 122) \<or> (48 \<le> n \<and> n \<le> 57) \<or> c \<in> set ''._:-'')"

definition same_text :: "string \<Rightarrow> string \<Rightarrow> bool" where
  "same_text a b = (map lower a = map lower b)"

definition refused_here :: "string \<Rightarrow> string option" where
  "refused_here s =
     (let rest = drop 5 s; name = takeWhile model_char rest; tail = drop (length name) rest;
          closing = [CHR 0x27] @ '' model is not supported when using Codex with a ChatGPT account'' in
      if same_text (take 5 s) (''The '' @ [CHR 0x27]) \<and> 1 \<le> length name \<and> length name \<le> 128
         \<and> same_text (take (length closing) tail) closing then Some name else None)"

fun accountModelUnsupported :: "string \<Rightarrow> string option" where
  "accountModelUnsupported [] = None"
| "accountModelUnsupported (c # s) = (case refused_here (c # s) of
     Some m \<Rightarrow> Some m | None \<Rightarrow> accountModelUnsupported s)"

definition isCodexModelUnsupportedError :: "string \<Rightarrow> bool" where
  "isCodexModelUnsupportedError message = (accountModelUnsupported message \<noteq> None)"

definition isTransientFailure :: "string \<Rightarrow> bool" where
  "isTransientFailure message = (isRateLimitError message \<or> isCodexModelUnsupportedError message
     \<or> any_test transient_patterns message)"

section \<open>Cooldowns and retries\<close>

definition default_throttle_cooldown :: int where
  "default_throttle_cooldown = 60000"

definition plan_limit_cooldown :: int where
  "plan_limit_cooldown = 10 * 60000"

definition plan_limit_patterns :: "rx list" where
  "plan_limit_patterns = [usage_limit, limit_reached, lit True ''quota'', lit True ''extra usage'']"

definition monthly_pattern :: rx where
  "monthly_pattern = Alt [lit True ''monthly'', Seq [lit True ''per'', Any False, lit True ''month''],
     Seq [lit True ''spend'', opt (Any False), lit True ''limit'']]"

definition weekly_pattern :: rx where
  "weekly_pattern = Alt [lit True ''weekly'', Seq [lit True ''per'', Any False, lit True ''week''],
     Seq [lit True ''seven'', opt (Any False), lit True ''day''], Seq [lit True ''7'', opt (Any False), lit True ''day'']]"

definition rateLimitCooldownMs :: "string \<Rightarrow> int \<Rightarrow> int" where
  "rateLimitCooldownMs message throttle =
     (if rx_test monthly_pattern message then 24 * 60 * 60000
      else if rx_test weekly_pattern message then 6 * 60 * 60000
      else if any_test plan_limit_patterns message then plan_limit_cooldown
      else throttle)"

text \<open>\<open>/retries after (\S+?Z)/\<close>: the first phrase followed by nonspace characters up to a \<open>Z\<close>.\<close>

definition named_here :: "string \<Rightarrow> string option" where
  "named_here s =
     (let rest = drop 14 s; body = takeWhile (\<lambda>c. \<not> js_space c) rest;
          upto = takeWhile (\<lambda>c. c \<noteq> CHR ''Z'') (tl body) in
      if take 14 s = ''retries after '' \<and> body \<noteq> [] \<and> CHR ''Z'' \<in> set (tl body)
      then Some (hd body # upto @ ''Z'') else None)"

fun named_retry :: "string \<Rightarrow> string" where
  "named_retry [] = []"
| "named_retry (c # s) = (case named_here (c # s) of Some t \<Rightarrow> t | None \<Rightarrow> named_retry s)"

definition transientRetryAt :: "(string \<Rightarrow> int option) \<Rightarrow> string \<Rightarrow> int \<Rightarrow> int \<Rightarrow> int" where
  "transientRetryAt parse_date message attempts now =
     (if isCodexModelUnsupportedError message then now
      else let named = parse_date (named_retry message);
               backoff = min (30000 * 2 ^ nat (max 0 (attempts - 1))) (30 * 60000);
               least = (if isRateLimitError message then rateLimitCooldownMs message default_throttle_cooldown else 0)
           in max (case named of Some t \<Rightarrow> t | None \<Rightarrow> 0) (now + max backoff least))"

section \<open>Credentials and permanent failures\<close>

definition lifecycle_words :: rx where
  "lifecycle_words = alts True [''invalidated'', ''revoked'', ''expired'']"

definition token_lifecycle_rejection :: rx where
  "token_lifecycle_rejection = Alt
     [Seq [word True ''token'', Rep 0 (Some 40) (Any False), Bound, lifecycle_words, Bound],
      Seq [Bound, lifecycle_words, Bound, Rep 0 (Some 40) (Any False), word True ''token'']]"

definition separator_rx :: rx where
  "separator_rx = opt (Chars ''_ '' True)"

definition token_kind :: rx where
  "token_kind = opt (alts True [''authentication '', ''access '', ''bearer ''])"

definition expired_token :: rx where
  "expired_token = Alt [Seq [token_kind, lit True ''token '', opt (alts True [''is '', ''has '']), lit True ''expired''],
     Seq [lit True ''expired '', token_kind, lit True ''token'']]"

definition credential_patterns :: "rx list" where
  "credential_patterns = [token_lifecycle_rejection,
     Seq [lit True ''shared OAuth credential '', alts True [''requires login'', ''awaiting refresh'']],
     lit True ''no api key found'', lit True ''has no shared codex oauth credential'', lit True ''oauth refresh failed'',
     lit True ''credential store modify failed'',
     Alt [word True ''401'', lit True ''unauthorized'',
       Seq [lit True ''invalid'', separator_rx, Alt [Seq [lit True ''api'', separator_rx, lit True ''key''], lit True ''token'', lit True ''grant'']]],
     expired_token]"

definition rejected_token_patterns :: "rx list" where
  "rejected_token_patterns = [token_lifecycle_rejection,
     Seq [lit True ''token_'', lifecycle_words], word False ''401'', lit True ''unauthorized'',
     Alt [Seq [lit True ''invalid'', separator_rx, alts True [''token'', ''grant'']],
       Seq [lit True ''refresh_token_'', alts True [''reused'', ''invalidated'', ''expired'']],
       Seq [lit True ''grant'', Rep 0 (Some 30) (Any False), lit True ''revoked'']],
     expired_token]"

definition isDefinitiveCredentialRejection :: "string \<Rightarrow> bool" where
  "isDefinitiveCredentialRejection message = any_test rejected_token_patterns message"

definition isRejectedTokenError :: "string \<Rightarrow> bool" where
  "isRejectedTokenError message =
     (if rx_test (lit True ''oauth refresh failed'') message then False else isDefinitiveCredentialRejection message)"

definition isCredentialError :: "string \<Rightarrow> bool" where
  "isCredentialError message = (isDefinitiveCredentialRejection message \<or> any_test credential_patterns message)"

definition permanent_patterns :: "rx list" where
  "permanent_patterns = [lit True ''unknown model'', lit True ''cannot alias'',
     Alt [word False ''400'', word False ''404''],
     Alt [Seq [lit True ''invalid'', separator_rx, lit True ''request''], lit True ''malformed'', lit True ''unsupported'', lit True ''not supported''],
     alts True [''does not exist'', ''no such model''], lit True ''opening probe failed'']"

definition isPermanentError :: "string \<Rightarrow> bool" where
  "isPermanentError message = any_test permanent_patterns message"

definition model_configuration_patterns :: "rx list" where
  "model_configuration_patterns = [alts True [''unknown model'', ''no such model'', ''model not found'', ''cannot alias''],
     lit True ''model is not supported when using Codex with a ChatGPT account'',
     Seq [lit True ''model'', Rep 0 (Some 200) (Any True), alts True [''does not exist'', ''retired'', ''unavailable'', ''testing period'']],
     Alt [Seq [word True ''404'', Rep 0 (Some 500) (Any True), word True ''model''],
       Seq [word True ''model'', Rep 0 (Some 500) (Any True), word True ''404'']]]"

definition isModelConfigurationError :: "string \<Rightarrow> bool" where
  "isModelConfigurationError message = any_test model_configuration_patterns message"

definition credential_cooldown :: int where
  "credential_cooldown = 30 * 60000"

definition providerAccepted :: "js \<Rightarrow> bool" where
  "providerAccepted message = (js_get message ''role'' = JStr ''assistant'' \<and> is_string (js_get message ''model'')
     \<and> is_finite (js_get message ''timestamp'')
     \<and> js_get message ''stopReason'' \<in> {JStr ''stop'', JStr ''toolUse'', JStr ''length''})"

text \<open>\<open>isRunnerCapacityFailure\<close> recognises the owner's exact messages only.\<close>

fun strip_errors :: "nat \<Rightarrow> string \<Rightarrow> string" where
  "strip_errors 0 s = s"
| "strip_errors (Suc n) s = (if take 7 s = ''Error: '' then strip_errors n (drop 7 s) else s)"

definition isRunnerCapacityFailure :: "string \<Rightarrow> bool" where
  "isRunnerCapacityFailure message = (strip_errors (length message) message \<in>
     {''Runner capacity busy: memory pressure'', ''Runner capacity busy; work remains queued''})"

section \<open>Bounds\<close>

lemma cooldown_bounds: "0 \<le> throttle \<Longrightarrow> throttle \<le> 86400000 \<Longrightarrow>
    0 \<le> rateLimitCooldownMs m throttle \<and> rateLimitCooldownMs m throttle \<le> 86400000"
  by (simp add: rateLimitCooldownMs_def plan_limit_cooldown_def)

lemma backoff_bounds: "30000 \<le> min (30000 * 2 ^ n) (30 * 60000 :: int)"
proof -
  have "(1 :: int) \<le> 2 ^ n" by (rule one_le_power) simp
  then show ?thesis by simp
qed

text \<open>Accepted work that failed with any message always has a retry time: not before now, at least thirty
  seconds away unless the refusal is a model entitlement, and at most a day away unless the failure
  itself named a later time. The wait never shrinks as failures repeat, and a failure that names its
  own retry time is never retried before it.\<close>

theorem retry_bounds:
  assumes "parse_date (named_retry m) = named"
  shows "now \<le> transientRetryAt parse_date m attempts now
    \<and> (\<not> isCodexModelUnsupportedError m \<longrightarrow> now + 30000 \<le> transientRetryAt parse_date m attempts now)
    \<and> transientRetryAt parse_date m attempts now \<le> max (now + 86400000) (case named of None \<Rightarrow> 0 | Some t \<Rightarrow> t)
    \<and> (attempts \<le> attempts' \<longrightarrow> transientRetryAt parse_date m attempts now \<le> transientRetryAt parse_date m attempts' now)
    \<and> (\<not> isCodexModelUnsupportedError m \<longrightarrow> (case named of None \<Rightarrow> True | Some t \<Rightarrow> t \<le> transientRetryAt parse_date m attempts now))"
proof (cases "isCodexModelUnsupportedError m")
  case True
  then show ?thesis by (simp add: transientRetryAt_def)
next
  case False
  let ?b = "\<lambda>a. min (30000 * 2 ^ nat (max 0 (a - 1))) (30 * 60000 :: int)"
  let ?l = "if isRateLimitError m then rateLimitCooldownMs m default_throttle_cooldown else 0"
  let ?n = "case named of Some t \<Rightarrow> t | None \<Rightarrow> 0"
  have r: "transientRetryAt parse_date m a now = max ?n (now + max (?b a) ?l)" for a
    using False assms by (simp add: transientRetryAt_def Let_def)
  have l: "?l \<le> 86400000" using cooldown_bounds[of default_throttle_cooldown m] by (simp add: default_throttle_cooldown_def)
  have b: "30000 \<le> ?b a" "?b a \<le> 86400000" for a using backoff_bounds by simp_all
  have mono: "?b attempts \<le> ?b attempts'" if "attempts \<le> attempts'"
  proof -
    have "nat (max 0 (attempts - 1)) \<le> nat (max 0 (attempts' - 1))" using that by simp
    then have "(2 :: int) ^ nat (max 0 (attempts - 1)) \<le> 2 ^ nat (max 0 (attempts' - 1))" by (rule power_increasing) simp
    then show ?thesis by (intro min.mono mult_left_mono order_refl) simp_all
  qed
  have n: "?n = (case named of None \<Rightarrow> 0 | Some t \<Rightarrow> t)" by (cases named) simp_all
  have "now + 30000 \<le> transientRetryAt parse_date m attempts now" unfolding r using b(1)[of attempts] by linarith
  moreover have "transientRetryAt parse_date m attempts now \<le> max (now + 86400000) ?n"
    unfolding r using b(2)[of attempts] l by linarith
  moreover have "attempts \<le> attempts' \<longrightarrow> transientRetryAt parse_date m attempts now \<le> transientRetryAt parse_date m attempts' now"
    unfolding r using mono by linarith
  moreover have "case named of None \<Rightarrow> True | Some t \<Rightarrow> t \<le> transientRetryAt parse_date m attempts now"
    unfolding r by (cases named) simp_all
  ultimately show ?thesis using n by simp
qed

lemma retry_bounds_witness:
  "rx_test (lit False ''429'') ''HTTP 429'' \<and> isRateLimitError ''HTTP 429''
   \<and> 1000 + 30000 \<le> transientRetryAt (\<lambda>s. if s = [] then None else Some 5) ''HTTP 429'' 3 1000"
proof -
  have "\<not> isCodexModelUnsupportedError ''HTTP 429''" "isRateLimitError ''HTTP 429''" "rx_test (lit False ''429'') ''HTTP 429''"
    by code_simp+
  then show ?thesis
    using retry_bounds[of "\<lambda>s. if s = [] then None else Some 5" "''HTTP 429''" _ 1000 3 3, OF refl] by blast
qed

end
