(* ===== verification/Runtime_Events.thy ===== *)
theory Runtime_Events
  imports Json_Text
begin

text \<open>
  The closed vocabulary of runtime events (\<open>packages/orchestrator/src/threads/runtime-events.ts\<close>): an
  event from a runner is accepted only when its type and every variant it carries is known.
\<close>

definition sdk_events :: "string list" where
  "sdk_events = [''agent_start'', ''agent_end'', ''agent_settled'', ''turn_start'', ''turn_end'',
     ''message_start'', ''message_update'', ''message_end'',
     ''tool_execution_start'', ''tool_execution_update'', ''tool_execution_end'',
     ''queue_update'', ''compaction_start'', ''compaction_end'',
     ''entry_appended'', ''session_info_changed'', ''thinking_level_changed'',
     ''auto_retry_start'', ''auto_retry_end'',
     ''summarization_retry_scheduled'', ''summarization_retry_attempt_start'', ''summarization_retry_finished'',
     ''bash_execution_update'']"

definition runtime_event_types :: "string list" where
  "runtime_event_types = sdk_events @ [''response'', ''extension_ui_request'', ''extension_error'', ''user_bash'',
     ''auto_compaction_start'', ''auto_compaction_end'', ''owner_execution_phase'', ''model_request_start'',
     ''session_changed'', ''command_settled'', ''runner_attached'',
     ''thread_settled'', ''thread_error'', ''thread_message_inserted'']"

definition assistant_events :: "string list" where
  "assistant_events = [''start'', ''text_start'', ''text_delta'', ''text_end'',
     ''thinking_start'', ''thinking_delta'', ''thinking_end'',
     ''toolcall_start'', ''toolcall_delta'', ''toolcall_end'', ''done'', ''error'']"

definition extension_methods :: "string list" where
  "extension_methods = [''select'', ''confirm'', ''input'', ''editor'', ''notify'',
     ''setStatus'', ''setWidget'', ''setTitle'', ''set_editor_text'']"

definition stop_reasons :: "string list" where
  "stop_reasons = [''pending'', ''stop'', ''length'', ''toolUse'', ''error'', ''aborted'', ''deferred'']"

definition is_one_of :: "js \<Rightarrow> string list \<Rightarrow> bool" where
  "is_one_of v names = (is_string v \<and> str_of v \<in> set names)"

definition requireAssistantStopReason :: "js \<Rightarrow> string + string" where
  "requireAssistantStopReason value =
     (if \<not> is_one_of value stop_reasons then Inl (''Unknown assistant stop reason: '' @ js_String value)
      else Inr (str_of value))"

definition parseAssistantUpdate :: "js \<Rightarrow> string + js" where
  "parseAssistantUpdate value =
     (let ty = js_get value ''type'' in
      if \<not> is_object value \<or> \<not> is_string ty then Inl ''Assistant message update requires a string type''
      else if str_of ty \<notin> set assistant_events then Inl (''Unknown assistant message update type: '' @ take 160 (str_of ty))
      else Inr value)"

definition parseRuntimeEvent :: "js \<Rightarrow> string + js" where
  "parseRuntimeEvent value =
     (let ty = js_get value ''type''; name = str_of ty; emitted = js_get value ''emittedAt'';
          outcome = js_get value ''outcome''; message = js_get value ''message'';
          stop = js_get message ''stopReason'' in
      if \<not> is_object value \<or> \<not> is_string ty then Inl ''Runtime event requires an object with a string type''
      else if name \<notin> set runtime_event_types then Inl (''Unknown runtime event type: '' @ take 160 name)
      else if emitted \<noteq> JUndef \<and> \<not> is_finite emitted then Inl (''Invalid emittedAt for runtime event '' @ name)
      else if name = ''message_update'' \<and> \<not> is_ok (parseAssistantUpdate (js_get value ''assistantMessageEvent''))
      then parseAssistantUpdate (js_get value ''assistantMessageEvent'')
      else if (name = ''agent_settled'' \<or> name = ''thread_settled'') \<and> outcome \<noteq> JUndef
         \<and> outcome \<noteq> JStr ''complete'' \<and> outcome \<noteq> JStr ''failed'' \<and> outcome \<noteq> JStr ''cancelled''
      then Inl (''Unknown settlement outcome: '' @ js_String outcome)
      else if (name = ''message_start'' \<or> name = ''message_update'' \<or> name = ''message_end'') \<and> is_object message
         \<and> js_get message ''role'' = JStr ''assistant'' \<and> stop \<noteq> JUndef \<and> \<not> is_one_of stop stop_reasons
      then Inl (''Unknown assistant stop reason: '' @ js_String stop)
      else if name = ''extension_ui_request'' \<and> \<not> is_one_of (js_get value ''method'') extension_methods
      then Inl (''Unknown extension UI method: '' @ js_String (js_get value ''method''))
      else if name = ''summarization_retry_attempt_start'' \<and> js_get value ''source'' \<noteq> JStr ''compaction''
         \<and> js_get value ''source'' \<noteq> JStr ''branchSummary''
      then Inl (''Unknown summarization retry source: '' @ js_String (js_get value ''source''))
      else Inr value)"

definition event_type :: "js \<Rightarrow> string" where
  "event_type e = str_of (js_get e ''type'')"

lemma parseAssistantUpdate_id: "parseAssistantUpdate v = Inr w \<Longrightarrow> w = v \<and> is_one_of (js_get v ''type'') assistant_events"
  by (auto simp: parseAssistantUpdate_def Let_def is_one_of_def split: if_splits)

lemma is_okD: "\<not> is_ok r \<Longrightarrow> r \<noteq> Inr x"
  by auto

text \<open>An accepted event is the value itself, of a known type, with a known update if it carries one.\<close>

lemma parseRuntimeEvent_ok:
  assumes "parseRuntimeEvent v = Inr e"
  shows "e = v" "event_type v \<in> set runtime_event_types" "is_object v"
    "js_get v ''emittedAt'' = JUndef \<or> is_finite (js_get v ''emittedAt'')"
    "event_type v = ''message_update'' \<Longrightarrow> parseAssistantUpdate (js_get v ''assistantMessageEvent'') = Inr (js_get v ''assistantMessageEvent'')"
proof -
  note a = assms[unfolded parseRuntimeEvent_def Let_def]
  show "e = v" "event_type v \<in> set runtime_event_types" "is_object v"
    "js_get v ''emittedAt'' = JUndef \<or> is_finite (js_get v ''emittedAt'')"
    using a unfolding event_type_def by (auto split: if_split_asm dest: is_okD)
  show "event_type v = ''message_update'' \<Longrightarrow> parseAssistantUpdate (js_get v ''assistantMessageEvent'') = Inr (js_get v ''assistantMessageEvent'')"
  proof -
    assume "event_type v = ''message_update''"
    then have "is_ok (parseAssistantUpdate (js_get v ''assistantMessageEvent''))"
      using a unfolding event_type_def by (auto split: if_split_asm dest: is_okD)
    then show ?thesis using parseAssistantUpdate_id by (metis is_okE)
  qed
qed

end
