(* ===== verification/Execution_Activity.thy ===== *)
theory Execution_Activity
  imports Runtime_Events Provider_Errors
begin

text \<open>
  The observed activity of an execution (\<open>packages/orchestrator/src/threads/execution-activity.ts\<close>): a
  state machine driven by runtime events. Tool identities are kept in insertion order, without
  duplicates, like the \<open>Set\<close> of the code. Times are integer milliseconds; the rendering of a time as
  an ISO text is the parameter \<open>iso_text\<close>.
\<close>

section \<open>State\<close>

datatype phase = Queued | Admitting | Starting | Preparing | Finishing | Cancelling | Recovering | Thinking
  | Responding | Preparing_tool | Waiting_for_model | Waiting_on_agents | Waiting_on_tool | Compacting
  | Retrying | Waiting_for_capacity | Waiting_to_retry

definition phase_names :: "(string \<times> phase) list" where
  "phase_names = [(''queued'', Queued), (''admitting'', Admitting), (''starting'', Starting), (''preparing'', Preparing),
     (''finishing'', Finishing), (''cancelling'', Cancelling), (''recovering'', Recovering), (''thinking'', Thinking),
     (''responding'', Responding), (''preparing_tool'', Preparing_tool), (''waiting_for_model'', Waiting_for_model),
     (''waiting_on_agents'', Waiting_on_agents), (''waiting_on_tool'', Waiting_on_tool), (''compacting'', Compacting),
     (''retrying'', Retrying), (''waiting_for_capacity'', Waiting_for_capacity), (''waiting_to_retry'', Waiting_to_retry)]"

record snapshot_activity =
  sa_phase :: "phase option"
  sa_since :: "int option"
  sa_last :: "int option"
  sa_detail :: "string option"

record activity_state = snapshot_activity +
  as_tools :: "string list"
  as_agents :: "string list"

definition createExecutionActivity :: activity_state where
  "createExecutionActivity = \<lparr>sa_phase = None, sa_since = None, sa_last = None, sa_detail = None, as_tools = [], as_agents = []\<rparr>"

definition executionActivitySnapshot :: "activity_state \<Rightarrow> snapshot_activity" where
  "executionActivitySnapshot s = snapshot_activity.truncate s"

definition requireExecutionPhase :: "js \<Rightarrow> string + phase" where
  "requireExecutionPhase value = (case (if is_string value then map_of phase_names (str_of value) else None) of
     None \<Rightarrow> Inl (''Unknown execution activity phase: '' @ js_String value) | Some p \<Rightarrow> Inr p)"

text \<open>A finite number, read as a time.\<close>

definition finite_time :: "js \<Rightarrow> int option" where
  "finite_time v = (if is_finite v then Some (int_of v) else None)"

section \<open>Waits recorded in the thread's metadata\<close>

definition string_or_empty :: "js \<Rightarrow> string" where
  "string_or_empty v = (if v = JUndef \<or> v = JNull then [] else js_String v)"

definition first_present :: "js list \<Rightarrow> js" where
  "first_present vs = (case filter (\<lambda>v. v \<noteq> JUndef \<and> v \<noteq> JNull) vs of [] \<Rightarrow> last vs | v # _ \<Rightarrow> v)"

definition executionWaitActivity :: "(int \<Rightarrow> string) \<Rightarrow> js \<Rightarrow> snapshot_activity option" where
  "executionWaitActivity iso_text metadata =
     (let acknowledgement = js_get metadata ''acknowledgementWait'';
          provider = js_get metadata ''providerWait''; admission = js_get metadata ''admissionWait'';
          startup = js_get metadata ''startupFailure'';
          wait = first_present [provider, admission, startup] in
      if truthy acknowledgement then
        Some \<lparr>sa_phase = Some Recovering, sa_since = finite_time (js_get acknowledgement ''since''),
              sa_last = finite_time (js_get acknowledgement ''since''),
              sa_detail = Some (if truthy (js_get acknowledgement ''overdue'')
                then ''Input acknowledgement unconfirmed; checking native custody without replay''
                else ''Input acknowledgement pending; native recovery may still be compacting'')\<rparr>
      else if \<not> truthy wait then None
      else
        let failure = string_or_empty (js_get provider ''failure'');
            runnerCapacity = (\<not> truthy provider \<and> \<not> truthy admission \<and> truthy startup
              \<and> isRunnerCapacityFailure (string_or_empty (js_get startup ''error'')));
            capacity = (if truthy provider then isRateLimitError failure \<and> \<not> isCompactionFailure failure
              else truthy admission \<or> runnerCapacity);
            message = string_or_empty (js_get admission ''message'');
            globalCapacity = (truthy admission \<and> starts_with message ''Global agent capacity:'');
            detail = (if globalCapacity then js_String (js_get admission ''message'')
              else if runnerCapacity then ''Waiting for runner capacity''
              else if capacity then ''Waiting for model capacity''
              else if truthy provider then ''Waiting to retry a provider failure''
              else ''Runtime startup failed; retry scheduled'');
            retry = finite_time (js_get wait ''retryAt'');
            since = finite_time (js_get wait ''since'')
        in Some \<lparr>sa_phase = Some (if capacity then Waiting_for_capacity else Waiting_to_retry), sa_since = since,
              sa_last = (case finite_time (js_get wait ''lastActivityAt'') of None \<Rightarrow> since | Some t \<Rightarrow> Some t),
              sa_detail = Some (detail @ (case retry of None \<Rightarrow> [] | Some t \<Rightarrow> ''; next retry '' @ iso_text t))\<rparr>)"

section \<open>Restoring and settling\<close>

definition snapshot_tools :: "js \<Rightarrow> js list" where
  "snapshot_tools snapshot = (let tools = js_get snapshot ''tools'' in if is_array tools then arr_of tools else [])"

definition tool_id :: "js \<Rightarrow> string" where
  "tool_id v = js_String (js_get v ''toolCallId'')"

definition id_set :: "string list \<Rightarrow> string list" where
  "id_set ids = foldl (\<lambda>acc i. if i \<in> set acc then acc else acc @ [i]) [] ids"

definition restoreExecutionActivity :: "js \<Rightarrow> string + activity_state" where
  "restoreExecutionActivity snapshot =
     (let given = js_get snapshot ''activity'' in
      rbind (if given = JUndef then Inr None else rbind (requireExecutionPhase given) (\<lambda>p. Inr (Some p))) (\<lambda>restored.
        let tools = id_set (map tool_id (snapshot_tools snapshot));
            agents = id_set (map tool_id (filter (\<lambda>t. js_get t ''toolName'' = JStr ''thread_await'') (snapshot_tools snapshot)));
            phase = (case restored of Some p \<Rightarrow> Some p
              | None \<Rightarrow> if tools \<noteq> [] then Some Waiting_on_tool
                        else if truthy (js_get snapshot ''isThinking'') then Some Thinking else None)
        in Inr \<lparr>sa_phase = phase,
             sa_since = (if phase = None then None else finite_time (js_get snapshot ''activitySince'')),
             sa_last = finite_time (js_get snapshot ''lastActivityAt''),
             sa_detail = (if phase \<noteq> None \<and> is_string (js_get snapshot ''activityDetail'')
               then Some (str_of (js_get snapshot ''activityDetail'')) else None),
             as_tools = tools, as_agents = agents\<rparr>))"

definition settleExecutionActivity :: "activity_state \<Rightarrow> activity_state" where
  "settleExecutionActivity s = s\<lparr>sa_phase := None, sa_since := None, sa_detail := None, as_tools := [], as_agents := []\<rparr>"

section \<open>Observing an event\<close>

datatype observation = Seen phase string | Settled | Nothing

definition assistantActivity :: "js \<Rightarrow> observation" where
  "assistantActivity update =
     (let ty = event_type update in
      if ty \<in> {''text_start'', ''text_delta''} then Seen Responding ''Response text streaming''
      else if ty \<in> {''thinking_start'', ''thinking_delta''} then Seen Thinking ''Reasoning output streaming''
      else if ty \<in> {''toolcall_start'', ''toolcall_delta''} then Seen Preparing_tool ''Tool-call arguments streaming''
      else if ty = ''text_end'' then Seen Preparing ''Processing completed response block''
      else if ty = ''thinking_end'' then Seen Preparing ''Processing completed reasoning block''
      else if ty = ''toolcall_end'' then Seen Preparing ''Dispatching completed tool call''
      else Nothing)"

definition add_id :: "string \<Rightarrow> string list \<Rightarrow> string list" where
  "add_id i ids = (if i \<in> set ids then ids else ids @ [i])"

definition drop_id :: "string \<Rightarrow> string list \<Rightarrow> string list" where
  "drop_id i ids = filter (\<lambda>j. j \<noteq> i) ids"

definition retry_detail :: "js \<Rightarrow> string" where
  "retry_detail e =
     (if event_type e = ''auto_retry_start'' then ''Model retry scheduled'' else ''Context summarization retry scheduled'')
     @ (if is_finite (js_get e ''attempt'') then '' (attempt '' @ js_String (js_get e ''attempt'') @ '')'' else [])
     @ (if is_finite (js_get e ''delayMs'') then ''; delay '' @ js_String (js_get e ''delayMs'') @ '' ms'' else [])"

definition clear_tools :: "activity_state \<Rightarrow> activity_state" where
  "clear_tools s = s\<lparr>as_tools := [], as_agents := []\<rparr>"

definition activityObservation :: "activity_state \<Rightarrow> js \<Rightarrow> string + (observation \<times> activity_state)" where
  "activityObservation s e =
     (let ty = event_type e; tool = tool_id e in
      if ty = ''owner_execution_phase'' then rbind (requireExecutionPhase (js_get e ''activity'')) (\<lambda>p.
        Inr (Seen p (string_or_empty (js_get e ''activityDetail'')), s))
      else if ty = ''agent_start'' then Inr (Seen Preparing ''Preparing context and runtime hooks'', clear_tools s)
      else if ty = ''model_request_start'' then Inr (Seen Waiting_for_model ''Model request sent; waiting for output'', s)
      else if ty = ''message_update'' then rbind (parseAssistantUpdate (js_get e ''assistantMessageEvent'')) (\<lambda>u.
        Inr (assistantActivity u, s))
      else if ty = ''message_end'' then
        Inr (if js_get (js_get e ''message'') ''role'' \<noteq> JStr ''assistant'' then Nothing
             else Seen Preparing ''Processing completed assistant message'', s)
      else if ty = ''tool_execution_start'' \<or> ty = ''tool_execution_update'' then
        Inr (Seen Waiting_on_tool ''Tool execution observed'',
             s\<lparr>as_tools := add_id tool (as_tools s),
               as_agents := (if js_get e ''toolName'' = JStr ''thread_await'' then add_id tool (as_agents s) else as_agents s)\<rparr>)
      else if ty = ''tool_execution_end'' then
        Inr (Seen Preparing ''Integrating tool results'',
             s\<lparr>as_tools := drop_id tool (as_tools s), as_agents := drop_id tool (as_agents s)\<rparr>)
      else if ty = ''auto_retry_start'' \<or> ty = ''summarization_retry_scheduled'' then Inr (Seen Retrying (retry_detail e), s)
      else if ty = ''summarization_retry_attempt_start'' then Inr (Seen Compacting ''Context summarization retry started'', s)
      else if ty = ''compaction_start'' \<or> ty = ''auto_compaction_start'' then Inr (Seen Compacting ''Context compaction started'', s)
      else if ty = ''auto_retry_end'' then Inr (Seen Preparing ''Preparing retry continuation'', s)
      else if ty = ''compaction_end'' \<or> ty = ''auto_compaction_end'' \<or> ty = ''summarization_retry_finished''
      then Inr (Seen Preparing ''Integrating compacted context'', s)
      else if ty = ''agent_end'' \<or> ty = ''agent_settled'' then Inr (Seen Finishing ''Synchronizing final execution result'', clear_tools s)
      else if ty = ''thread_settled'' \<or> ty = ''thread_error'' then Inr (Settled, s)
      else Inr (Nothing, s))"

definition later :: "int option \<Rightarrow> int \<Rightarrow> int option" where
  "later prev at = Some (max (case prev of None \<Rightarrow> at | Some t \<Rightarrow> t) at)"

definition overrides_tools :: "phase \<Rightarrow> bool" where
  "overrides_tools p = (p \<in> {Compacting, Retrying, Cancelling, Finishing, Recovering})"

text \<open>An open tool decides the phase, unless the observed phase overrides it.\<close>

definition shown_phase :: "activity_state \<Rightarrow> phase \<Rightarrow> string \<Rightarrow> phase \<times> string" where
  "shown_phase s p detail =
     (if as_tools s \<noteq> [] \<and> \<not> overrides_tools p then
        (if length (as_agents s) = length (as_tools s) then (Waiting_on_agents, ''Waiting for child settlement'')
         else (Waiting_on_tool, ''Tool execution observed''))
      else (p, detail))"

definition observeExecutionActivity :: "activity_state \<Rightarrow> js \<Rightarrow> int \<Rightarrow> string + (bool \<times> activity_state)" where
  "observeExecutionActivity state input now =
     rbind (parseRuntimeEvent input) (\<lambda>e.
       let at = (if js_get e ''emittedAt'' = JUndef then now else int_of (js_get e ''emittedAt'')) in
       rbind (activityObservation state e) (\<lambda>(obs, s). case obs of
         Nothing \<Rightarrow> Inr (False, s)
       | Settled \<Rightarrow> Inr (True, (settleExecutionActivity s)\<lparr>sa_last := later (sa_last s) at\<rparr>)
       | Seen p detail \<Rightarrow>
           let (p', detail') = shown_phase s p detail in
           Inr (True, s\<lparr>sa_since := (if Some p' \<noteq> sa_phase s \<or> Some detail' \<noteq> sa_detail s then Some at else sa_since s),
             sa_phase := Some p', sa_detail := Some detail', sa_last := later (sa_last s) at\<rparr>)))"

section \<open>Invariant\<close>

text \<open>
  Tool identities are distinct, agent waits are open tools, and phase, start time and detail are
  present together once events are observed.
\<close>

definition activity_ok :: "activity_state \<Rightarrow> bool" where
  "activity_ok s = (distinct (as_tools s) \<and> distinct (as_agents s) \<and> set (as_agents s) \<subseteq> set (as_tools s)
     \<and> (sa_phase s = None \<longleftrightarrow> sa_since s = None) \<and> (sa_phase s = None \<longleftrightarrow> sa_detail s = None))"

lemma add_id_distinct: "distinct ids \<Longrightarrow> distinct (add_id i ids)"
  by (simp add: add_id_def)

lemma add_id_set: "set (add_id i ids) = insert i (set ids)"
  by (auto simp: add_id_def)

lemma drop_id_distinct: "distinct ids \<Longrightarrow> distinct (drop_id i ids)"
  by (simp add: drop_id_def)

lemma drop_id_set: "set (drop_id i ids) = set ids - {i}"
  by (auto simp: drop_id_def)

lemmas id_facts = add_id_distinct add_id_set drop_id_distinct drop_id_set

text \<open>Observation changes only the open tools, and keeps them well formed.\<close>

definition tools_ok :: "string list \<Rightarrow> string list \<Rightarrow> bool" where
  "tools_ok tools agents = (distinct tools \<and> distinct agents \<and> set agents \<subseteq> set tools)"

definition tools_step :: "activity_state \<Rightarrow> string + (observation \<times> activity_state) \<Rightarrow> bool" where
  "tools_step s r = (\<forall>obs s'. r = Inr (obs, s') \<longrightarrow>
     (\<exists>tools agents. s' = s\<lparr>as_tools := tools, as_agents := agents\<rparr>
        \<and> (tools_ok (as_tools s) (as_agents s) \<longrightarrow> tools_ok tools agents)))"

lemma tools_if: "tools_step s a \<Longrightarrow> tools_step s b \<Longrightarrow> tools_step s (if c then a else b)"
  by simp

lemma tools_bind: "(\<And>x. tools_step s (k x)) \<Longrightarrow> tools_step s (rbind r k)"
  by (auto simp: tools_step_def rbind_eq_Inr)

lemma tools_same: "tools_step s (Inr (obs, s))"
  unfolding tools_step_def by (intro allI impI exI[of _ "as_tools s"] exI[of _ "as_agents s"]) auto

lemma tools_set: "(tools_ok (as_tools s) (as_agents s) \<Longrightarrow> tools_ok ts as) \<Longrightarrow>
    tools_step s (Inr (obs, s\<lparr>as_tools := ts, as_agents := as\<rparr>))"
  unfolding tools_step_def by (intro allI impI exI[of _ ts] exI[of _ "as"]) auto

lemma tools_ok_changes:
  "tools_ok [] []"
  "tools_ok ts as \<Longrightarrow> tools_ok (add_id i ts) (if c then add_id i as else as)"
  "tools_ok ts as \<Longrightarrow> tools_ok (drop_id i ts) (drop_id i as)"
  by (auto simp: tools_ok_def id_facts)

lemma activityObservation_tools: "tools_step s (activityObservation s e)"
  unfolding activityObservation_def Let_def clear_tools_def
  by (intro tools_if tools_bind tools_same tools_set tools_ok_changes)

lemma observe_cases:
  assumes "observeExecutionActivity s input now = Inr (moved, s')"
  obtains obs s1 e at where "parseRuntimeEvent input = Inr e" "activityObservation s e = Inr (obs, s1)"
    "at = (if js_get e ''emittedAt'' = JUndef then now else int_of (js_get e ''emittedAt''))"
    "obs = Nothing \<Longrightarrow> \<not> moved \<and> s' = s1"
    "obs = Settled \<Longrightarrow> moved \<and> s' = (settleExecutionActivity s1)\<lparr>sa_last := later (sa_last s1) at\<rparr>"
    "\<And>p d. obs = Seen p d \<Longrightarrow> moved \<and> s' = s1\<lparr>sa_since := (if Some (fst (shown_phase s1 p d)) \<noteq> sa_phase s1
            \<or> Some (snd (shown_phase s1 p d)) \<noteq> sa_detail s1 then Some at else sa_since s1),
          sa_phase := Some (fst (shown_phase s1 p d)), sa_detail := Some (snd (shown_phase s1 p d)),
          sa_last := later (sa_last s1) at\<rparr>"
proof -
  obtain e where e: "parseRuntimeEvent input = Inr e"
    using assms by (auto simp: observeExecutionActivity_def rbind_eq_Inr)
  obtain obs s1 where o: "activityObservation s e = Inr (obs, s1)"
    using assms e by (auto simp: observeExecutionActivity_def rbind_eq_Inr Let_def)
  let ?at = "if js_get e ''emittedAt'' = JUndef then now else int_of (js_get e ''emittedAt'')"
  note r = assms[unfolded observeExecutionActivity_def e o rbind_simps Let_def split_beta fst_conv snd_conv]
  show ?thesis
    by (rule that[OF e o refl]) (use r in auto)
qed

lemma activity_ok_tools:
  "activity_ok s \<longleftrightarrow> tools_ok (as_tools s) (as_agents s) \<and> (sa_phase s = None \<longleftrightarrow> sa_since s = None)
     \<and> (sa_phase s = None \<longleftrightarrow> sa_detail s = None)"
  by (auto simp: activity_ok_def tools_ok_def)

lemma observe_keeps_ok:
  assumes "observeExecutionActivity s input now = Inr (moved, s')" "activity_ok s"
  shows "activity_ok s'"
  using assms(1)
proof (cases rule: observe_cases)
  case (1 obs s1 e at)
  obtain ts "as" where s1: "s1 = s\<lparr>as_tools := ts, as_agents := as\<rparr>" "tools_ok ts as"
    using activityObservation_tools[of s e] 1(2) assms(2) unfolding tools_step_def activity_ok_tools by blast
  show ?thesis
  proof (cases obs)
    case (Seen p d)
    show ?thesis using conjunct2[OF 1(6)[OF Seen]] s1 assms(2) by (auto simp: activity_ok_tools)
  next
    case Settled
    show ?thesis using 1(5)[OF Settled] by (simp add: activity_ok_tools settleExecutionActivity_def tools_ok_def)
  next
    case Nothing
    show ?thesis using 1(4)[OF Nothing] s1 assms(2) by (auto simp: activity_ok_tools)
  qed
qed

section \<open>Properties\<close>

definition quiet_step :: "activity_state \<Rightarrow> string + (observation \<times> activity_state) \<Rightarrow> bool" where
  "quiet_step s r = (\<forall>s'. r = Inr (Nothing, s') \<longrightarrow> s' = s)"

lemma quiet_if: "quiet_step s a \<Longrightarrow> quiet_step s b \<Longrightarrow> quiet_step s (if c then a else b)"
  by simp

lemma quiet_bind: "(\<And>x. quiet_step s (k x)) \<Longrightarrow> quiet_step s (rbind r k)"
  by (auto simp: quiet_step_def rbind_eq_Inr)

lemma quiet_same: "quiet_step s (Inr (obs, s))"
  by (simp add: quiet_step_def)

lemma quiet_seen: "quiet_step s (Inr (Seen p d, s'))"
  by (simp add: quiet_step_def)

lemma activityObservation_quiet: "quiet_step s (activityObservation s e)"
  unfolding activityObservation_def Let_def
  by (intro quiet_if quiet_bind) (rule quiet_same quiet_seen)+

text \<open>A run of the observer over a stream of inputs; an input that throws leaves the state as it was.\<close>

fun observe_run :: "activity_state \<Rightarrow> (js \<times> int) list \<Rightarrow> activity_state" where
  "observe_run s [] = s"
| "observe_run s ((input, now) # inputs) =
     observe_run (case observeExecutionActivity s input now of Inl _ \<Rightarrow> s | Inr (_, s') \<Rightarrow> s') inputs"

lemma observe_run_ok: "activity_ok s \<Longrightarrow> activity_ok (observe_run s inputs)"
proof (induction inputs arbitrary: s)
  case (Cons i inputs)
  obtain input now where i: "i = (input, now)" by (cases i)
  show ?case
  proof (cases "observeExecutionActivity s input now")
    case (Inl e)
    with Cons i show ?thesis by simp
  next
    case (Inr r)
    obtain moved s' where r: "r = (moved, s')" by (cases r)
    then have "activity_ok s'" using observe_keeps_ok[of s input now moved s'] Inr Cons.prems by simp
    with Cons i Inr r show ?thesis by simp
  qed
qed simp

definition tool_phase :: "activity_state \<Rightarrow> phase" where
  "tool_phase s = (if length (as_agents s) = length (as_tools s) then Waiting_on_agents else Waiting_on_tool)"

text \<open>In every run of the observer from the initial state, agent waits are open tools, and phase, start
  time and detail are present together. At any such state the next event either is not evidence of
  progress and changes nothing, or it settles the execution, or it names a phase: then the activity
  clock never runs backwards, the start time moves exactly when phase or detail changes, and while a
  tool is open the phase is the tool's unless the observed phase may override it.\<close>

theorem activity_observed:
  assumes "s = observe_run createExecutionActivity inputs"
    and "observeExecutionActivity s input now = Inr (moved, s')"
  shows "activity_ok s' \<and> (\<not> moved \<longrightarrow> s' = s)
    \<and> (moved \<longrightarrow> (\<exists>at. sa_last s' = later (sa_last s) at
        \<and> (sa_phase s' = None \<and> as_tools s' = []
           \<or> (as_tools s' \<noteq> [] \<longrightarrow> overrides_tools (the (sa_phase s')) \<or> sa_phase s' = Some (tool_phase s'))
             \<and> sa_since s' = (if sa_phase s' = sa_phase s \<and> sa_detail s' = sa_detail s then sa_since s else Some at))))"
proof -
  have ok: "activity_ok s"
    unfolding assms(1) by (rule observe_run_ok) (simp add: activity_ok_def createExecutionActivity_def)
  have ok': "activity_ok s'" using observe_keeps_ok[OF assms(2) ok] .
  show ?thesis
    using assms(2)
  proof (cases rule: observe_cases)
    case (1 obs s1 e at)
    obtain ts "as" where s1: "s1 = s\<lparr>as_tools := ts, as_agents := as\<rparr>"
      using activityObservation_tools[of s e] 1(2) unfolding tools_step_def by blast
    show ?thesis
    proof (cases obs)
      case (Seen p d)
      have s': "moved" "s' = s1\<lparr>sa_since := (if Some (fst (shown_phase s1 p d)) \<noteq> sa_phase s1
            \<or> Some (snd (shown_phase s1 p d)) \<noteq> sa_detail s1 then Some at else sa_since s1),
          sa_phase := Some (fst (shown_phase s1 p d)), sa_detail := Some (snd (shown_phase s1 p d)),
          sa_last := later (sa_last s1) at\<rparr>"
        using 1(6)[OF Seen] by blast+
      have "overrides_tools (fst (shown_phase s1 p d)) \<or> fst (shown_phase s1 p d) = tool_phase s1" if "as_tools s1 \<noteq> []"
        using that by (auto simp: shown_phase_def tool_phase_def)
      moreover have "tool_phase s' = tool_phase s1" "as_tools s' = as_tools s1" by (simp_all add: s' tool_phase_def)
      moreover have "sa_last s' = later (sa_last s) at" by (simp add: s' s1)
      moreover have "sa_since s' = (if sa_phase s' = sa_phase s \<and> sa_detail s' = sa_detail s then sa_since s else Some at)"
        by (auto simp: s' s1)
      moreover have "sa_phase s' = Some (fst (shown_phase s1 p d))" by (simp add: s')
      ultimately show ?thesis using ok' s'(1) by auto
    next
      case Settled
      then have "moved" "s' = (settleExecutionActivity s1)\<lparr>sa_last := later (sa_last s1) at\<rparr>"
        using 1(5) by blast+
      then show ?thesis using ok' s1 by (auto simp: settleExecutionActivity_def)
    next
      case Nothing
      have "s1 = s" using activityObservation_quiet[of s e] 1(2) Nothing by (simp add: quiet_step_def)
      then show ?thesis using 1(4)[OF Nothing] ok' by simp
    qed
  qed
qed

lemma activity_observed_witness:
  "sa_phase (observe_run createExecutionActivity
     [(mk_obj [(''type'', JStr ''agent_start'')], 5),
      (mk_obj [(''type'', JStr ''tool_execution_start''), (''toolCallId'', JStr ''t''), (''toolName'', JStr ''thread_await'')], 7)])
     = Some Waiting_on_agents
   \<and> activity_ok (observe_run createExecutionActivity
     [(mk_obj [(''type'', JStr ''agent_start'')], 5),
      (mk_obj [(''type'', JStr ''tool_execution_start''), (''toolCallId'', JStr ''t''), (''toolName'', JStr ''thread_await'')], 7)])"
proof -
  let ?i = "[(mk_obj [(''type'', JStr ''agent_start'')], 5)]"
  let ?e = "mk_obj [(''type'', JStr ''tool_execution_start''), (''toolCallId'', JStr ''t''), (''toolName'', JStr ''thread_await'')]"
  let ?s = "observe_run createExecutionActivity ?i"
  have ok: "is_ok (observeExecutionActivity ?s ?e 7)" by code_simp
  obtain moved s' where r: "observeExecutionActivity ?s ?e 7 = Inr (moved, s')" using ok by (metis is_okE prod.collapse)
  have s': "observe_run createExecutionActivity (?i @ [(?e, 7)]) = s'" using r by simp
  have "sa_phase (observe_run createExecutionActivity (?i @ [(?e, 7)])) = Some Waiting_on_agents" by code_simp
  then show ?thesis using activity_observed[OF refl r] s' by simp
qed

end
