(* ===== verification/Lifecycle.thy ===== *)
theory Lifecycle
  imports Contracts Execution_Activity
begin

text \<open>
  The lifecycle a thread shows (\<open>packages/orchestrator/src/threads/lifecycle.ts\<close>), derived from what its
  owner observes. The owned dependency is unchecked JSON and is validated again here.
\<close>

datatype control = Stop | Cancel_wait | No_control

datatype delay_target = Capacity_delay | Retry_delay

datatype lifecycle =
    Idle
  | Archived
  | Working phase int "string option"
  | Being_cancelled
  | Delayed delay_target string int
  | Waiting_dispatch int
  | Waiting_dependency wait_dependency js
  | Waiting_agents int
  | Failed string control

record delay =
  dl_target :: delay_target
  dl_since :: int
  dl_reason :: string

record lifecycle_observation =
  lo_archived :: bool
  lo_cancelling :: bool
  lo_execution :: "(int \<times> snapshot_activity) option"
  lo_pending :: "int option"
  lo_delay :: "delay option"
  lo_dependency :: "js option"
  lo_subscriptions :: "string list"
  lo_error :: "string option"
  lo_updated :: int

text \<open>A present, nonempty error.\<close>

definition has_error :: "lifecycle_observation \<Rightarrow> bool" where
  "has_error s = (case lo_error s of None \<Rightarrow> False | Some e \<Rightarrow> e \<noteq> [])"

definition offered_control :: "lifecycle_observation \<Rightarrow> control" where
  "offered_control s =
     (if lo_execution s \<noteq> None \<and> lo_delay s = None then Stop
      else if lo_pending s \<noteq> None \<or> lo_dependency s \<noteq> None \<or> lo_subscriptions s \<noteq> [] \<or> lo_delay s \<noteq> None then Cancel_wait
      else No_control)"

definition nonempty_detail :: "string option \<Rightarrow> string option" where
  "nonempty_detail d = (case d of None \<Rightarrow> None | Some t \<Rightarrow> if t = [] then None else Some t)"

definition deriveThreadLifecycle :: "lifecycle_observation \<Rightarrow> lifecycle" where
  "deriveThreadLifecycle s =
     (if has_error s \<and> lo_delay s = None then Failed (the (lo_error s)) (offered_control s)
      else if lo_cancelling s \<and> lo_execution s \<noteq> None then Being_cancelled
      else if lo_archived s then Archived
      else if lo_cancelling s then Idle
      else case lo_delay s of
        Some d \<Rightarrow> Delayed (dl_target d) (dl_reason d) (dl_since d)
      | None \<Rightarrow> (case lo_execution s of
          Some (since, activity) \<Rightarrow> (case sa_phase activity of
              None \<Rightarrow> Failed ''Execution owner did not report its activity'' Stop
            | Some phase \<Rightarrow> Working phase (case sa_since activity of None \<Rightarrow> since | Some t \<Rightarrow> t)
                (nonempty_detail (sa_detail activity)))
        | None \<Rightarrow> (case lo_pending s of
            Some since \<Rightarrow> Waiting_dispatch since
          | None \<Rightarrow> (case lo_dependency s of
              Some d \<Rightarrow> (case validateWaitDependency d of
                  Inr dep \<Rightarrow> if is_finite (js_get d ''since'') then Waiting_dependency dep (js_get d ''since'')
                      else Failed ''Invalid owned dependency wait'' Cancel_wait
                | Inl _ \<Rightarrow> Failed ''Invalid owned dependency wait'' Cancel_wait)
            | None \<Rightarrow> if lo_subscriptions s \<noteq> [] then Waiting_agents (lo_updated s) else Idle))))"

fun lifecycleControl :: "lifecycle \<Rightarrow> control" where
  "lifecycleControl (Working _ _ _) = Stop"
| "lifecycleControl (Delayed _ _ _) = Cancel_wait"
| "lifecycleControl (Waiting_dispatch _) = Cancel_wait"
| "lifecycleControl (Waiting_dependency _ _) = Cancel_wait"
| "lifecycleControl (Waiting_agents _) = Cancel_wait"
| "lifecycleControl (Failed _ c) = c"
| "lifecycleControl Idle = No_control"
| "lifecycleControl Archived = No_control"
| "lifecycleControl Being_cancelled = No_control"

text \<open>The control a thread offers is decided by its custody alone: stop exactly when an execution runs
  undelayed, cancelling the wait when something is pending, owned or delayed, nothing otherwise; and an
  archived or cancelling thread offers nothing unless it failed. No malformed dependency or missing
  phase report takes the control away.\<close>

theorem control_follows_custody:
  "lifecycleControl (deriveThreadLifecycle s) =
     (if (lo_archived s \<or> lo_cancelling s) \<and> \<not> (has_error s \<and> lo_delay s = None) then No_control else offered_control s)"
  unfolding deriveThreadLifecycle_def offered_control_def
  by (simp split: option.split sum.split)

end
