(* ===== verification/Capacity_Interface.thy ===== *)
theory Capacity_Interface
  imports Contracts
begin

text \<open>
  The interface \<open>AgentCapacity\<close> (\<open>packages/orchestrator/src/agent-capacity.ts\<close>) between the thread owner's
  ledger and whoever keeps global custody, over an abstract world the operations act on. The contract
  states what a client may rely on: an operation on one execution never activates another, and an
  acknowledged release or withdrawal leaves the execution inactive.
\<close>

datatype observed = Obs_absent | Obs_queued | Obs_released | Obs_active string string string

record 'w capacity_api =
  api_acquire :: "string \<Rightarrow> string \<Rightarrow> 'w \<Rightarrow> string result \<times> 'w"
  api_release :: "string \<Rightarrow> string \<Rightarrow> string \<Rightarrow> 'w \<Rightarrow> unit result \<times> 'w"
  api_inspect :: "string \<Rightarrow> string \<Rightarrow> 'w \<Rightarrow> observed result \<times> 'w"
  api_withdraw :: "string \<Rightarrow> string \<Rightarrow> 'w \<Rightarrow> unit result \<times> 'w"

locale capacity_service =
  fixes api :: "'w capacity_api"
    and ok :: "'w \<Rightarrow> bool"
    and active :: "'w \<Rightarrow> string \<Rightarrow> string \<Rightarrow> bool"
  assumes ok_acquire: "ok w \<Longrightarrow> ok (snd (api_acquire api a e w))"
    and acquire_active: "ok w \<Longrightarrow> fst (api_acquire api a e w) = Inr lease \<Longrightarrow> active (snd (api_acquire api a e w)) a e"
    and acquire_frame: "ok w \<Longrightarrow> active (snd (api_acquire api a e w)) a' e' \<Longrightarrow> active w a' e' \<or> (a' = a \<and> e' = e)"
    and ok_release: "ok w \<Longrightarrow> ok (snd (api_release api a e l w))"
    and release_done: "ok w \<Longrightarrow> fst (api_release api a e l w) = Inr u \<Longrightarrow> \<not> active (snd (api_release api a e l w)) a e"
    and release_frame: "ok w \<Longrightarrow> active (snd (api_release api a e l w)) a' e' \<Longrightarrow> active w a' e'"
    and inspect_same: "snd (api_inspect api a e w) = w"
    and inspect_active: "fst (api_inspect api a e w) = Inr (Obs_active a' e' l) \<Longrightarrow> a' = a \<and> e' = e"
    and ok_withdraw: "ok w \<Longrightarrow> ok (snd (api_withdraw api a e w))"
    and withdraw_done: "ok w \<Longrightarrow> fst (api_withdraw api a e w) = Inr u \<Longrightarrow> \<not> active (snd (api_withdraw api a e w)) a e"
    and withdraw_frame: "ok w \<Longrightarrow> active (snd (api_withdraw api a e w)) a' e' \<Longrightarrow> active w a' e'"

end
