(* ===== verification/Capacity_Authority.thy ===== *)
theory Capacity_Authority
  imports Capacity_Interface "HOL-Library.Product_Lexorder"
begin

text \<open>
  The global agent capacity authority (\<open>packages/orchestrator/src/agent-capacity-authority.ts\<close>, with the
  identity tests of \<open>agent-capacity.ts\<close>): a durable table of execution requests. Each operation is one
  database transaction. Requests are unchecked JSON, as the HTTP server passes them on. Clock readings
  and random lease ids are arguments.
\<close>

section \<open>Identities\<close>

text \<open>A nonempty string of at most 512 characters.\<close>

definition bounded_text :: "js \<Rightarrow> bool" where
  "bounded_text v = (is_string v \<and> str_of v \<noteq> [] \<and> length (str_of v) \<le> 512)"

definition isAgentExecution :: "js \<Rightarrow> bool" where
  "isAgentExecution v = (is_objectish v \<and> bounded_text (js_get v ''agentId'') \<and> bounded_text (js_get v ''executionId''))"

definition isCapacityCustody :: "js \<Rightarrow> bool" where
  "isCapacityCustody v = (isAgentExecution v \<and> bounded_text (js_get v ''leaseId''))"

definition agent_of :: "js \<Rightarrow> string" where
  "agent_of v = str_of (js_get v ''agentId'')"

definition execution_of :: "js \<Rightarrow> string" where
  "execution_of v = str_of (js_get v ''executionId'')"

definition lease_of :: "js \<Rightarrow> string" where
  "lease_of v = str_of (js_get v ''leaseId'')"

section \<open>State\<close>

datatype request_state = Q_queued | Q_active | Q_released

record capacity_row =
  cr_agent :: string
  cr_owner :: string
  cr_state :: request_state
  cr_lease :: "string option"
  cr_requested :: int
  cr_released :: "int option"

record authority =
  au_initialized :: bool
  au_rows :: "(string \<times> capacity_row) list"

definition new_authority :: authority where
  "new_authority = \<lparr>au_initialized = False, au_rows = []\<rparr>"

definition capacity_fail :: "int \<Rightarrow> error_code \<Rightarrow> string \<Rightarrow> 'a result" where
  "capacity_fail now code message = Inl \<lparr>te_code = code, te_message = ''Global agent capacity: '' @ message, te_retryable = False,
     te_retry_at = (if code = Unavailable then Some (now + 5000) else None)\<rparr>"

definition row_of :: "authority \<Rightarrow> string \<Rightarrow> capacity_row option" where
  "row_of a e = map_of (au_rows a) e"

definition put_row :: "string \<Rightarrow> capacity_row \<Rightarrow> authority \<Rightarrow> authority" where
  "put_row e r a = a\<lparr>au_rows := map_put e r (au_rows a)\<rparr>"

definition count_state :: "request_state \<Rightarrow> authority \<Rightarrow> nat" where
  "count_state st a = length (filter (\<lambda>(e, r). cr_state r = st) (au_rows a))"

record capacity_status =
  cs_initialized :: bool
  cs_active :: nat
  cs_queued :: nat

definition authority_status :: "authority \<Rightarrow> capacity_status" where
  "authority_status a = \<lparr>cs_initialized = au_initialized a, cs_active = count_state Q_active a, cs_queued = count_state Q_queued a\<rparr>"

text \<open>\<open>entries()\<close>: the active custody, ordered by request time and execution.\<close>

definition authority_entries :: "authority \<Rightarrow> (string \<times> capacity_row) list" where
  "authority_entries a = sort_key (\<lambda>(e, r). (cr_requested r, e)) (filter (\<lambda>(e, r). cr_state r = Q_active) (au_rows a))"

text \<open>The execution another active row of the same agent holds.\<close>

definition held_by :: "authority \<Rightarrow> string \<Rightarrow> string option" where
  "held_by a agent = map_option fst (find (\<lambda>(e, r). cr_agent r = agent \<and> cr_state r = Q_active) (au_rows a))"

section \<open>Operations\<close>

definition authority_acquire :: "int \<Rightarrow> string \<Rightarrow> string \<Rightarrow> js \<Rightarrow> authority \<Rightarrow> js result \<times> authority" where
  "authority_acquire now uuid owner execution a =
     (let e = execution_of execution; agent = agent_of execution; row = row_of a e in
      if \<not> bounded_text (JStr owner) \<or> \<not> isAgentExecution execution
      then (capacity_fail now Invalid_request ''Owner, agent and execution identities are required'', a)
      else if (case row of None \<Rightarrow> False | Some r \<Rightarrow> cr_owner r \<noteq> owner \<or> cr_agent r \<noteq> agent)
      then (capacity_fail now Unavailable ''Execution custody belongs to another owner; a restart or live handoff cannot take it'', a)
      else if (case row of None \<Rightarrow> False | Some r \<Rightarrow> cr_state r = Q_released)
      then (capacity_fail now Conflict ''Execution already positively released; start a new durable execution identity'', a)
      else if (case row of None \<Rightarrow> False | Some r \<Rightarrow> cr_state r = Q_active)
      then (Inr (JObj (oput ''leaseId'' (JStr (the (cr_lease (the row)))) (fields_of execution))), a)
      else
        let a1 = (if row = None then put_row e \<lparr>cr_agent = agent, cr_owner = owner, cr_state = Q_queued, cr_lease = None,
                    cr_requested = now, cr_released = None\<rparr> a else a);
            r1 = the (row_of a1 e) in
        if \<not> cs_initialized (authority_status a1)
        then (capacity_fail now Unavailable ''Initial all-owner census cutover is not accepted; runnable work remains queued'', a1)
        else case held_by a1 agent of
          Some h \<Rightarrow> (capacity_fail now Unavailable (''Agent retains uncertain or active execution custody '' @ h @ ''; runnable work remains queued''), a1)
        | None \<Rightarrow> (Inr (JObj (oput ''leaseId'' (JStr uuid) (fields_of execution))),
                   put_row e (r1\<lparr>cr_state := Q_active, cr_lease := Some uuid\<rparr>) a1))"

datatype capacity_observation = Absent | Is_queued | Is_released | Is_active js

definition authority_inspect :: "int \<Rightarrow> string \<Rightarrow> js \<Rightarrow> authority \<Rightarrow> capacity_observation result" where
  "authority_inspect now owner execution a =
     (if \<not> bounded_text (JStr owner) \<or> \<not> isAgentExecution execution
      then capacity_fail now Invalid_request ''Owner, agent and execution identities are required''
      else case row_of a (execution_of execution) of
        None \<Rightarrow> Inr Absent
      | Some r \<Rightarrow>
          if cr_owner r \<noteq> owner \<or> cr_agent r \<noteq> agent_of execution
          then capacity_fail now Unavailable ''Execution custody belongs to another owner''
          else case cr_state r of
            Q_active \<Rightarrow> Inr (Is_active (JObj (oput ''leaseId'' (JStr (the (cr_lease r))) (fields_of execution))))
          | Q_queued \<Rightarrow> Inr Is_queued
          | Q_released \<Rightarrow> Inr Is_released)"

definition authority_withdraw :: "int \<Rightarrow> string \<Rightarrow> js \<Rightarrow> authority \<Rightarrow> unit result \<times> authority" where
  "authority_withdraw now owner execution a = (case authority_inspect now owner execution a of
     Inl err \<Rightarrow> (Inl err, a)
   | Inr (Is_active _) \<Rightarrow> (capacity_fail now Conflict ''Active custody cannot be withdrawn without positive release'', a)
   | Inr Is_queued \<Rightarrow> (Inr (), put_row (execution_of execution)
        ((the (row_of a (execution_of execution)))\<lparr>cr_state := Q_released, cr_released := Some now\<rparr>) a)
   | Inr Absent \<Rightarrow> (Inr (), put_row (execution_of execution) \<lparr>cr_agent = agent_of execution, cr_owner = owner,
        cr_state = Q_released, cr_lease = None, cr_requested = now, cr_released = Some now\<rparr> a)
   | Inr Is_released \<Rightarrow> (Inr (), a))"

definition authority_release :: "int \<Rightarrow> string \<Rightarrow> js \<Rightarrow> authority \<Rightarrow> unit result \<times> authority" where
  "authority_release now owner custody a =
     (if \<not> bounded_text (JStr owner) \<or> \<not> isCapacityCustody custody
      then (capacity_fail now Invalid_request ''Complete custody is required for positive release'', a)
      else case row_of a (execution_of custody) of
        None \<Rightarrow> (capacity_fail now Conflict ''Release receipt does not match recorded custody'', a)
      | Some r \<Rightarrow>
          if cr_owner r \<noteq> owner \<or> cr_agent r \<noteq> agent_of custody \<or> cr_lease r \<noteq> Some (lease_of custody)
          then (capacity_fail now Conflict ''Release receipt does not match recorded custody'', a)
          else if cr_state r = Q_released then (Inr (), a)
          else (Inr (), put_row (execution_of custody) (r\<lparr>cr_state := Q_released, cr_released := Some now\<rparr>) a))"

section \<open>The initial census\<close>

definition census_entry_ok :: "js \<Rightarrow> bool" where
  "census_entry_ok v = (isAgentExecution v \<and> bounded_text (js_get v ''ownerId''))"

definition census_conflict :: "authority \<Rightarrow> js \<Rightarrow> bool" where
  "census_conflict a v = (case row_of a (execution_of v) of None \<Rightarrow> False
     | Some r \<Rightarrow> cr_agent r \<noteq> agent_of v \<or> cr_owner r \<noteq> str_of (js_get v ''ownerId''))"

text \<open>\<open>INSERT \<dots> ON CONFLICT DO UPDATE\<close>: an existing row keeps its request time.\<close>

definition census_put :: "int \<Rightarrow> string \<Rightarrow> js \<Rightarrow> authority \<Rightarrow> authority" where
  "census_put now uuid v a = put_row (execution_of v)
     (case row_of a (execution_of v) of
        None \<Rightarrow> \<lparr>cr_agent = agent_of v, cr_owner = str_of (js_get v ''ownerId''), cr_state = Q_active, cr_lease = Some uuid,
                  cr_requested = now, cr_released = None\<rparr>
      | Some r \<Rightarrow> r\<lparr>cr_state := Q_active, cr_lease := Some uuid, cr_released := None\<rparr>) a"

fun census_all :: "int \<Rightarrow> (js \<times> string) list \<Rightarrow> authority \<Rightarrow> authority" where
  "census_all now [] a = a"
| "census_all now ((v, uuid) # vs) a = census_all now vs (census_put now uuid v a)"

definition authority_initialize :: "int \<Rightarrow> (nat \<Rightarrow> string) \<Rightarrow> js \<Rightarrow> authority \<Rightarrow> unit result \<times> authority" where
  "authority_initialize now uuids census a =
     (let vs = arr_of census in
      if \<not> is_array census \<or> \<not> list_all census_entry_ok vs then (capacity_fail now Invalid_request ''Invalid active-execution census'', a)
      else if \<not> distinct (map agent_of vs) \<or> \<not> distinct (map execution_of vs)
      then (capacity_fail now Conflict ''Census contains overlapping identities; resolve actual custody before cutover'', a)
      else if cs_initialized (authority_status a) then (capacity_fail now Conflict ''Authority already initialized; never replace its active census'', a)
      else if list_ex (census_conflict a) vs then (capacity_fail now Conflict ''Census conflicts with recorded request ownership'', a)
      else (Inr (), (census_all now (zip vs (map uuids [0..<length vs])) a)\<lparr>au_initialized := True\<rparr>))"

section \<open>The table's invariant\<close>

text \<open>
  The primary key, the row check and the partial unique index of the schema, and that nothing is
  active before the census.
\<close>

fun row_check :: "capacity_row \<Rightarrow> bool" where
  "row_check r = ((cr_state r = Q_queued \<and> cr_lease r = None \<and> cr_released r = None)
     \<or> (cr_state r = Q_active \<and> cr_lease r \<noteq> None \<and> cr_released r = None)
     \<or> (cr_state r = Q_released \<and> cr_released r \<noteq> None))"

declare row_check.simps [simp del]

definition sole_custody :: "authority \<Rightarrow> bool" where
  "sole_custody a = (\<forall>e r e' r'. row_of a e = Some r \<longrightarrow> row_of a e' = Some r' \<longrightarrow> cr_state r = Q_active \<longrightarrow>
     cr_state r' = Q_active \<longrightarrow> cr_agent r = cr_agent r' \<longrightarrow> e = e')"

definition table_ok :: "authority \<Rightarrow> bool" where
  "table_ok a = (map_ok (au_rows a) \<and> (\<forall>e r. row_of a e = Some r \<longrightarrow> row_check r) \<and> sole_custody a
     \<and> (au_initialized a \<or> (\<forall>e r. row_of a e = Some r \<longrightarrow> cr_state r \<noteq> Q_active)))"

lemma row_put [simp]: "row_of (put_row e r a) j = (if j = e then Some r else row_of a j)"
  by (simp add: row_of_def put_row_def)

lemma init_put [simp]: "au_initialized (put_row e r a) = au_initialized a"
  by (simp add: put_row_def)

lemma keys_put [simp]: "map_ok (au_rows a) \<Longrightarrow> map_ok (au_rows (put_row e r a))"
  by (simp add: put_row_def)

lemma row_of_init [simp]: "row_of (a\<lparr>au_initialized := b\<rparr>) e = row_of a e"
  by (simp add: row_of_def)

lemma held_by_None:
  assumes "map_ok (au_rows a)" "held_by a agent = None" "row_of a e = Some r" "cr_state r = Q_active"
  shows "cr_agent r \<noteq> agent"
proof -
  have "(e, r) \<in> set (au_rows a)" using assms(3) by (simp add: row_of_def map_of_SomeD)
  moreover have "find (\<lambda>(e, r). cr_agent r = agent \<and> cr_state r = Q_active) (au_rows a) = None"
    using assms(2) by (simp add: held_by_def)
  ultimately show ?thesis using assms(4) by (auto simp: find_None_iff)
qed

lemma table_empty: "table_ok new_authority"
  by (simp add: table_ok_def new_authority_def row_of_def sole_custody_def)

text \<open>Writing a row that is not active keeps the table sound.\<close>

lemma table_put_passive:
  assumes "table_ok a" "row_check r" "cr_state r \<noteq> Q_active"
  shows "table_ok (put_row e r a)"
  using assms unfolding table_ok_def sole_custody_def by (auto split: if_splits)

text \<open>Activating a row is sound when no other row of its agent is active.\<close>

lemma table_put_active:
  assumes "table_ok a" "row_check r" "au_initialized a"
    and "\<And>e' r'. row_of a e' = Some r' \<Longrightarrow> cr_state r' = Q_active \<Longrightarrow> e' \<noteq> e \<Longrightarrow> cr_agent r' \<noteq> cr_agent r"
  shows "table_ok (put_row e r a)"
  using assms unfolding table_ok_def sole_custody_def by (auto split: if_splits) metis+

section \<open>Every operation keeps the table sound\<close>

text \<open>The outcomes of \<open>acquire\<close>: one case analysis for every proof about it.\<close>

lemma acquire_cases:
  assumes "authority_acquire now uuid owner x a = (res, a')"
  obtains (refused) err where "res = Inl err" "a' = a"
  | (again) r where "row_of a (execution_of x) = Some r" "cr_state r = Q_active" "cr_owner r = owner" "cr_agent r = agent_of x"
      "a' = a" "res = Inr (JObj (oput ''leaseId'' (JStr (the (cr_lease r))) (fields_of x)))"
  | (queued) err where "res = Inl err" "row_of a (execution_of x) = None"
      "a' = put_row (execution_of x) \<lparr>cr_agent = agent_of x, cr_owner = owner, cr_state = Q_queued, cr_lease = None,
                    cr_requested = now, cr_released = None\<rparr> a"
  | (granted) r where "isAgentExecution x" "au_initialized a"
      "row_of a (execution_of x) = None \<and> r = \<lparr>cr_agent = agent_of x, cr_owner = owner, cr_state = Q_queued, cr_lease = None,
                    cr_requested = now, cr_released = None\<rparr> \<or>
       row_of a (execution_of x) = Some r \<and> cr_state r = Q_queued \<and> cr_owner r = owner \<and> cr_agent r = agent_of x"
      "held_by (if row_of a (execution_of x) = None then put_row (execution_of x) r a else a) (agent_of x) = None"
      "a' = put_row (execution_of x) (r\<lparr>cr_state := Q_active, cr_lease := Some uuid\<rparr>)
              (if row_of a (execution_of x) = None then put_row (execution_of x) r a else a)"
      "res = Inr (JObj (oput ''leaseId'' (JStr uuid) (fields_of x)))"
proof (cases "\<not> bounded_text (JStr owner) \<or> \<not> isAgentExecution x")
  case True
  then have "(res, a') = (capacity_fail now Invalid_request ''Owner, agent and execution identities are required'', a)"
    using assms by (simp add: authority_acquire_def Let_def)
  then show ?thesis using refused by (simp add: capacity_fail_def)
next
  case False
  let ?e = "execution_of x"
  let ?q = "\<lparr>cr_agent = agent_of x, cr_owner = owner, cr_state = Q_queued, cr_lease = None,
                    cr_requested = now, cr_released = None\<rparr>"
  show ?thesis
  proof (cases "row_of a ?e")
    case None
    let ?a1 = "put_row ?e ?q a"
    have "authority_acquire now uuid owner x a = (if \<not> au_initialized a
        then (capacity_fail now Unavailable ''Initial all-owner census cutover is not accepted; runnable work remains queued'', ?a1)
        else case held_by ?a1 (agent_of x) of
          Some h \<Rightarrow> (capacity_fail now Unavailable (''Agent retains uncertain or active execution custody '' @ h @ ''; runnable work remains queued''), ?a1)
        | None \<Rightarrow> (Inr (JObj (oput ''leaseId'' (JStr uuid) (fields_of x))), put_row ?e (?q\<lparr>cr_state := Q_active, cr_lease := Some uuid\<rparr>) ?a1))"
      using False None by (simp add: authority_acquire_def Let_def authority_status_def split: option.split)
    note eq = this[unfolded assms]
    show ?thesis
    proof (cases "au_initialized a \<and> held_by ?a1 (agent_of x) = None")
      case True
      then show ?thesis using eq False None by (intro granted[of ?q]) simp_all
    next
      case f: False
      then obtain err where "res = Inl err" "a' = ?a1"
        using eq by (cases "au_initialized a"; cases "held_by ?a1 (agent_of x)") (auto simp: capacity_fail_def)
      then show ?thesis using queued None by blast
    qed
  next
    case (Some r)
    show ?thesis
    proof (cases "cr_owner r \<noteq> owner \<or> cr_agent r \<noteq> agent_of x \<or> cr_state r = Q_released")
      case True
      then have "\<exists>code m. (res, a') = (capacity_fail now code m, a)"
        using assms False Some by (simp add: authority_acquire_def Let_def split: if_split_asm) metis+
      then show ?thesis using refused by (auto simp: capacity_fail_def)
    next
      case own: False
      show ?thesis
      proof (cases "cr_state r")
        case Q_active
        then show ?thesis
          using assms False Some own again[OF Some] by (simp add: authority_acquire_def Let_def)
      next
        case Q_queued
        have "authority_acquire now uuid owner x a = (if \<not> au_initialized a
          then (capacity_fail now Unavailable ''Initial all-owner census cutover is not accepted; runnable work remains queued'', a)
          else case held_by a (agent_of x) of
            Some h \<Rightarrow> (capacity_fail now Unavailable (''Agent retains uncertain or active execution custody '' @ h @ ''; runnable work remains queued''), a)
          | None \<Rightarrow> (Inr (JObj (oput ''leaseId'' (JStr uuid) (fields_of x))), put_row ?e (r\<lparr>cr_state := Q_active, cr_lease := Some uuid\<rparr>) a))"
          using False Some own Q_queued by (simp add: authority_acquire_def Let_def authority_status_def split: option.split)
        note eq = this[unfolded assms]
        show ?thesis
        proof (cases "au_initialized a \<and> held_by a (agent_of x) = None")
          case True
          then show ?thesis using eq False Some own Q_queued by (intro granted[of r]) simp_all
        next
          case f: False
          then obtain err where "res = Inl err" "a' = a"
            using eq by (cases "au_initialized a"; cases "held_by a (agent_of x)") (auto simp: capacity_fail_def)
          then show ?thesis using refused by blast
        qed
      next
        case Q_released
        with own show ?thesis by simp
      qed
    qed
  qed
qed

lemma acquire_table:
  assumes "authority_acquire now uuid owner x a = (res, a')" "table_ok a"
  shows "table_ok a'"
  using assms(1)
proof (cases rule: acquire_cases)
  case (refused err)
  with assms(2) show ?thesis by simp
next
  case (again r)
  with assms(2) show ?thesis by simp
next
  case (queued err)
  then show ?thesis using assms(2) by (auto intro!: table_put_passive simp: row_check.simps)
next
  case (granted r)
  let ?e = "execution_of x" let ?a1 = "if row_of a (execution_of x) = None then put_row (execution_of x) r a else a"
  have "row_check r"
  proof (cases "row_of a ?e")
    case None
    then show ?thesis using granted(3) by (simp add: row_check.simps)
  next
    case (Some r')
    then show ?thesis using granted(3) assms(2) unfolding table_ok_def by simp
  qed
  then have r: "cr_state r = Q_queued" "cr_agent r = agent_of x" "row_check r"
    using granted(3) by auto
  have t1: "table_ok ?a1" using assms(2) r(1,3) table_put_passive[of a r ?e] by auto
  have free: "cr_agent r' \<noteq> cr_agent r" if "row_of ?a1 e' = Some r'" "cr_state r' = Q_active" for e' r'
    using held_by_None[OF _ granted(4) that] t1 r(2) by (simp add: table_ok_def)
  have "row_check (r\<lparr>cr_state := Q_active, cr_lease := Some uuid\<rparr>)" using r(1,3) by (simp add: row_check.simps)
  moreover have "au_initialized ?a1" using granted(2) by simp
  ultimately show ?thesis
    unfolding granted(5) using free by (intro table_put_active[OF t1]) auto
qed

lemma inspect_row:
  "authority_inspect now owner x a = Inr obs \<Longrightarrow> (case row_of a (execution_of x) of
     None \<Rightarrow> obs = Absent | Some r \<Rightarrow> cr_owner r = owner \<and> cr_agent r = agent_of x \<and>
       (case cr_state r of Q_queued \<Rightarrow> obs = Is_queued | Q_released \<Rightarrow> obs = Is_released
        | Q_active \<Rightarrow> obs = Is_active (JObj (oput ''leaseId'' (JStr (the (cr_lease r))) (fields_of x)))))"
  by (auto simp: authority_inspect_def capacity_fail_def split: if_split_asm option.splits request_state.splits)

lemma withdraw_cases:
  assumes "authority_withdraw now owner x a = (res, a')"
  obtains (refused) err where "res = Inl err" "a' = a"
  | (settled) "res = Inr ()" "\<And>r. row_of a' (execution_of x) = Some r \<Longrightarrow> cr_state r = Q_released"
      "\<exists>r. a' = put_row (execution_of x) r a \<and> row_of a (execution_of x) = None \<and> cr_state r = Q_released \<and> row_check r
         \<or> (\<exists>r0. row_of a (execution_of x) = Some r0 \<and> cr_state r0 = Q_queued \<and> r = r0\<lparr>cr_state := Q_released, cr_released := Some now\<rparr>
              \<and> a' = put_row (execution_of x) r a)
         \<or> (row_of a (execution_of x) = Some r \<and> cr_state r = Q_released \<and> a' = a)"
proof (cases "authority_inspect now owner x a")
  case (Inl err)
  then show ?thesis using assms refused[of err] by (simp add: authority_withdraw_def)
next
  case (Inr obs)
  note row = inspect_row[OF Inr]
  show ?thesis
  proof (cases obs)
    case Absent
    then have "row_of a (execution_of x) = None" using row by (auto split: option.splits request_state.splits)
    moreover define r where "r = \<lparr>cr_agent = agent_of x, cr_owner = owner,
        cr_state = Q_released, cr_lease = None, cr_requested = now, cr_released = Some now\<rparr>"
    moreover have "res = Inr ()" "a' = put_row (execution_of x) r a"
      using assms Inr Absent by (simp_all add: authority_withdraw_def r_def)
    moreover have "cr_state r = Q_released" "row_check r" by (simp_all add: r_def row_check.simps)
    ultimately show ?thesis by (intro settled) (auto simp del: row_check.simps)
  next
    case Is_queued
    then obtain r0 where "row_of a (execution_of x) = Some r0" "cr_state r0 = Q_queued"
      using row by (auto split: option.splits request_state.splits)
    moreover have "res = Inr ()" "a' = put_row (execution_of x) (r0\<lparr>cr_state := Q_released, cr_released := Some now\<rparr>) a"
      using assms Inr Is_queued calculation by (simp_all add: authority_withdraw_def)
    ultimately show ?thesis by (intro settled) auto
  next
    case Is_released
    then obtain r0 where "row_of a (execution_of x) = Some r0" "cr_state r0 = Q_released"
      using row by (auto split: option.splits request_state.splits)
    moreover have "res = Inr ()" "a' = a" using assms Inr Is_released by (simp_all add: authority_withdraw_def)
    ultimately show ?thesis by (intro settled) auto
  next
    case (Is_active c)
    then have "(res, a') = (capacity_fail now Conflict ''Active custody cannot be withdrawn without positive release'', a)"
      using assms Inr by (simp add: authority_withdraw_def)
    then show ?thesis using refused by (simp add: capacity_fail_def)
  qed
qed

lemma withdraw_table:
  assumes "authority_withdraw now owner x a = (res, a')" "table_ok a"
  shows "table_ok a'"
  using assms(1)
proof (cases rule: withdraw_cases)
  case (refused err)
  with assms(2) show ?thesis by simp
next
  case settled
  from settled(3) obtain r where
    "a' = put_row (execution_of x) r a \<and> cr_state r = Q_released \<and> row_check r
     \<or> (\<exists>r0. row_of a (execution_of x) = Some r0 \<and> cr_state r0 = Q_queued \<and> r = r0\<lparr>cr_state := Q_released, cr_released := Some now\<rparr>
              \<and> a' = put_row (execution_of x) r a) \<or> a' = a" by blast
  then show ?thesis
    using assms(2) by (auto intro!: table_put_passive simp: row_check.simps)
qed

lemma release_cases:
  assumes "authority_release now owner c a = (res, a')"
  obtains (refused) err where "res = Inl err" "a' = a"
  | (settled) r where "res = Inr ()" "row_of a (execution_of c) = Some r" "cr_owner r = owner" "cr_agent r = agent_of c"
      "cr_lease r = Some (lease_of c)"
      "a' = (if cr_state r = Q_released then a else put_row (execution_of c) (r\<lparr>cr_state := Q_released, cr_released := Some now\<rparr>) a)"
  using assms by (auto simp: authority_release_def capacity_fail_def split: if_split_asm option.splits)

lemma release_table:
  assumes "authority_release now owner c a = (res, a')" "table_ok a"
  shows "table_ok a'"
  using assms(1)
proof (cases rule: release_cases)
  case (refused err)
  with assms(2) show ?thesis by simp
next
  case (settled r)
  then show ?thesis using assms(2) by (auto intro!: table_put_passive simp: row_check.simps)
qed

section \<open>The census keeps the table sound\<close>

definition rows_ok :: "authority \<Rightarrow> bool" where
  "rows_ok a = (map_ok (au_rows a) \<and> (\<forall>e r. row_of a e = Some r \<longrightarrow> row_check r) \<and> sole_custody a)"

lemma rows_put_active:
  assumes "rows_ok a" "row_check r"
    and "\<And>e' r'. row_of a e' = Some r' \<Longrightarrow> cr_state r' = Q_active \<Longrightarrow> e' \<noteq> e \<Longrightarrow> cr_agent r' \<noteq> cr_agent r"
  shows "rows_ok (put_row e r a)"
  using assms unfolding rows_ok_def sole_custody_def by (auto split: if_splits) metis+

lemma census_put_row:
  "row_of (census_put now uuid v a) j = (if j = execution_of v then Some (case row_of a (execution_of v) of
        None \<Rightarrow> \<lparr>cr_agent = agent_of v, cr_owner = str_of (js_get v ''ownerId''), cr_state = Q_active, cr_lease = Some uuid,
                  cr_requested = now, cr_released = None\<rparr>
      | Some r \<Rightarrow> r\<lparr>cr_state := Q_active, cr_lease := Some uuid, cr_released := None\<rparr>) else row_of a j)"
  by (simp add: census_put_def)

lemma census_put_agent:
  assumes "\<not> census_conflict a v" "row_of (census_put now uuid v a) (execution_of v) = Some r"
  shows "cr_agent r = agent_of v \<and> cr_state r = Q_active \<and> row_check r"
  using assms by (auto simp: census_put_row census_conflict_def row_check.simps split: option.splits)

lemma census_all_ok:
  "rows_ok a \<Longrightarrow> (\<And>e r v. row_of a e = Some r \<Longrightarrow> cr_state r = Q_active \<Longrightarrow> v \<in> set vs \<Longrightarrow> cr_agent r \<noteq> agent_of v) \<Longrightarrow>
   \<forall>v\<in>set vs. \<not> census_conflict a v \<Longrightarrow> distinct (map agent_of vs) \<Longrightarrow> distinct (map execution_of vs) \<Longrightarrow>
   length us = length vs \<Longrightarrow> rows_ok (census_all now (zip vs us) a)"
proof (induction vs arbitrary: us a)
  case Nil
  then show ?case by simp
next
  case (Cons v vs)
  obtain u us' where us: "us = u # us'" using Cons.prems(6) by (cases us) auto
  let ?a = "census_put now u v a"
  obtain r where r: "row_of ?a (execution_of v) = Some r" by (simp add: census_put_row)
  have rv: "cr_agent r = agent_of v" "cr_state r = Q_active" "row_check r"
    using census_put_agent[OF _ r] Cons.prems(3) by auto
  have put: "?a = put_row (execution_of v) r a"
    using r by (simp add: census_put_row) (simp add: census_put_def)
  have ok: "rows_ok ?a"
    unfolding put using rv(1,3) Cons.prems(1,2) by (intro rows_put_active) auto
  have "cr_agent r' \<noteq> agent_of w" if "row_of ?a e = Some r'" "cr_state r' = Q_active" "w \<in> set vs" for e r' w
  proof (cases "e = execution_of v")
    case True
    then have "r' = r" using that(1) r by simp
    moreover have "agent_of w \<noteq> agent_of v" using that(3) Cons.prems(4) by (simp, metis imageI)
    ultimately show ?thesis using rv(1) by simp
  next
    case False
    then have "row_of a e = Some r'" using that(1) by (simp add: census_put_row)
    then show ?thesis using Cons.prems(2) that(2,3) by simp
  qed
  moreover have "\<forall>w\<in>set vs. \<not> census_conflict ?a w"
  proof
    fix w assume w: "w \<in> set vs"
    then have "execution_of w \<noteq> execution_of v" using Cons.prems(5) by (simp, metis imageI)
    then show "\<not> census_conflict ?a w" using Cons.prems(3) w by (auto simp: census_conflict_def census_put_row)
  qed
  ultimately have "rows_ok (census_all now (zip vs us') ?a)"
    using Cons.IH[OF ok, of us'] Cons.prems(4,5,6) us by auto
  then show ?case using us by simp
qed

lemma initialize_cases:
  assumes "authority_initialize now uuids census a = (res, a')"
  obtains (refused) err where "res = Inl err" "a' = a"
  | (settled) "res = Inr ()" "\<not> au_initialized a" "distinct (map agent_of (arr_of census))" "distinct (map execution_of (arr_of census))"
      "\<forall>v\<in>set (arr_of census). \<not> census_conflict a v"
      "a' = (census_all now (zip (arr_of census) (map uuids [0..<length (arr_of census)])) a)\<lparr>au_initialized := True\<rparr>"
proof (cases "\<exists>code m. (res, a') = (capacity_fail now code m, a)")
  case True
  then show ?thesis using refused by (auto simp: capacity_fail_def)
next
  case False
  note eq = assms[unfolded authority_initialize_def Let_def]
  have "is_array census \<and> list_all census_entry_ok (arr_of census)" "distinct (map agent_of (arr_of census)) \<and> distinct (map execution_of (arr_of census))"
    "\<not> cs_initialized (authority_status a)" "\<not> list_ex (census_conflict a) (arr_of census)"
    using False eq by (metis (no_types, lifting))+
  then show ?thesis using eq settled by (simp add: authority_status_def list_ex_iff)
qed

lemma rows_ok_init: "rows_ok (a\<lparr>au_initialized := b\<rparr>) = rows_ok a"
  by (simp add: rows_ok_def sole_custody_def)

lemma table_rows: "table_ok a \<longleftrightarrow> rows_ok a \<and> (au_initialized a \<or> (\<forall>e r. row_of a e = Some r \<longrightarrow> cr_state r \<noteq> Q_active))"
  by (auto simp: table_ok_def rows_ok_def)

lemma initialize_table:
  assumes "authority_initialize now uuids census a = (res, a')" "table_ok a"
  shows "table_ok a'"
  using assms(1)
proof (cases rule: initialize_cases)
  case (refused err)
  with assms(2) show ?thesis by simp
next
  case settled
  let ?b = "census_all now (zip (arr_of census) (map uuids [0..<length (arr_of census)])) a"
  have "rows_ok ?b"
    using settled(2-5) assms(2) by (intro census_all_ok) (auto simp: table_rows)
  then show ?thesis unfolding table_rows settled(6) rows_ok_init by simp
qed

section \<open>Runs\<close>

datatype authority_op = Op_acquire int string string js | Op_withdraw int string js | Op_release int string js
  | Op_initialize int "nat \<Rightarrow> string" js

inductive authority_step :: "authority \<Rightarrow> authority_op \<Rightarrow> authority \<Rightarrow> bool" where
  step_acquire: "authority_acquire now uuid owner x a = (res, a') \<Longrightarrow> authority_step a (Op_acquire now uuid owner x) a'"
| step_withdraw: "authority_withdraw now owner x a = (res', a') \<Longrightarrow> authority_step a (Op_withdraw now owner x) a'"
| step_release: "authority_release now owner c a = (res', a') \<Longrightarrow> authority_step a (Op_release now owner c) a'"
| step_initialize: "authority_initialize now uuids census a = (res', a') \<Longrightarrow> authority_step a (Op_initialize now uuids census) a'"

inductive_cases authority_stepE: "authority_step a op a'"

inductive authority_reach :: "authority \<Rightarrow> bool" where
  reach_new: "authority_reach new_authority"
| reach_step: "authority_reach a \<Longrightarrow> authority_step a op a' \<Longrightarrow> authority_reach a'"

lemma step_table: "authority_step a op a' \<Longrightarrow> table_ok a \<Longrightarrow> table_ok a'"
  by (elim authority_stepE) (auto intro: acquire_table withdraw_table release_table initialize_table)

lemma reach_table: "authority_reach a \<Longrightarrow> table_ok a"
  by (induction rule: authority_reach.induct) (auto intro: table_empty step_table)

text \<open>What one step may do to a row that is active.\<close>

lemma acquire_keeps:
  assumes "authority_acquire now uuid owner x a = (res, a')" "row_of a e = Some r" "cr_state r \<noteq> Q_queued"
  shows "row_of a' e = Some r"
  using assms(1)
proof (cases rule: acquire_cases)
  case (granted r')
  then show ?thesis using assms(2,3) by (auto split: if_splits)
qed (use assms(2,3) in auto)

lemma withdraw_keeps:
  assumes "authority_withdraw now owner x a = (res, a')" "row_of a e = Some r" "cr_state r \<noteq> Q_queued"
  shows "row_of a' e = Some r"
  using assms(1)
proof (cases rule: withdraw_cases)
  case settled
  then show ?thesis using assms(2,3) by (auto split: if_splits)
qed (use assms(2) in auto)

lemma release_keeps:
  assumes "authority_release now owner c a = (res, a')" "row_of a e = Some r" "cr_state r \<noteq> Q_queued"
  shows "row_of a' e = Some r \<or> (e = execution_of c \<and> cr_state r = Q_active \<and> cr_owner r = owner \<and> cr_agent r = agent_of c
      \<and> cr_lease r = Some (lease_of c) \<and> row_of a' e = Some (r\<lparr>cr_state := Q_released, cr_released := Some now\<rparr>))"
  using assms(1)
proof (cases rule: release_cases)
  case (settled r')
  then show ?thesis using assms(2,3) by (cases "cr_state r") auto
qed (use assms(2) in simp)

lemma initialize_keeps:
  assumes "authority_initialize now uuids census a = (res, a')" "au_initialized a"
  shows "a' = a"
  using assms(1) by (cases rule: initialize_cases) (use assms(2) in auto)

section \<open>Properties\<close>

text \<open>C16: In every reachable state of the authority, and after any further operation by any owner with any
  input, no agent has two active executions; and an active execution stays active with its agent, owner
  and lease until its owner presents exactly that lease for release. Acquire, withdraw, the census and
  foreign or mismatched releases never take custody away.\<close>

theorem custody_until_receipt:
  assumes "authority_reach a" "authority_step a op a'" "row_of a e = Some r" "cr_state r = Q_active"
  shows "sole_custody a'
    \<and> (row_of a' e = Some r
       \<or> (\<exists>now c. op = Op_release now (cr_owner r) c \<and> execution_of c = e \<and> agent_of c = cr_agent r
            \<and> cr_lease r = Some (lease_of c) \<and> row_of a' e = Some (r\<lparr>cr_state := Q_released, cr_released := Some now\<rparr>)))"
proof -
  have t: "table_ok a" using assms(1) by (rule reach_table)
  then have "sole_custody a'" using step_table[OF assms(2)] by (simp add: table_ok_def)
  moreover have i: "au_initialized a" using t assms(3,4) by (auto simp: table_ok_def)
  have q: "cr_state r \<noteq> Q_queued" using assms(4) by simp
  have "row_of a' e = Some r
       \<or> (\<exists>now c. op = Op_release now (cr_owner r) c \<and> execution_of c = e \<and> agent_of c = cr_agent r
            \<and> cr_lease r = Some (lease_of c) \<and> row_of a' e = Some (r\<lparr>cr_state := Q_released, cr_released := Some now\<rparr>))"
    using assms(2)
  proof (cases rule: authority_step.cases)
    case (step_acquire now uuid owner x res)
    then show ?thesis using acquire_keeps[OF step_acquire(2) assms(3) q] by simp
  next
    case (step_withdraw now owner x res)
    then show ?thesis using withdraw_keeps[OF step_withdraw(2) assms(3) q] by simp
  next
    case (step_release now owner c res)
    then show ?thesis using release_keeps[OF step_release(2) assms(3) q] by auto
  next
    case (step_initialize now uuids census res)
    then show ?thesis using initialize_keeps[OF step_initialize(2) i] assms(3) by simp
  qed
  ultimately show ?thesis by blast
qed

definition sample_execution :: js where
  "sample_execution = mk_obj [(''agentId'', JStr ''agent''), (''executionId'', JStr ''run'')]"

definition sample_started :: authority where
  "sample_started = snd (authority_initialize 1 (\<lambda>_. ''l0'') (JArr []) new_authority)"

definition sample_held :: authority where
  "sample_held = snd (authority_acquire 2 ''lease'' ''owner'' sample_execution sample_started)"

lemma sample_reach: "authority_reach sample_held"
proof -
  obtain res1 where "authority_initialize 1 (\<lambda>_. ''l0'') (JArr []) new_authority = (res1, sample_started)"
    unfolding sample_started_def by (metis prod.collapse)
  then have s: "authority_reach sample_started" by (rule reach_step[OF reach_new step_initialize])
  obtain res2 where "authority_acquire 2 ''lease'' ''owner'' sample_execution sample_started = (res2, sample_held)"
    unfolding sample_held_def by (metis prod.collapse)
  then show ?thesis by (rule reach_step[OF s step_acquire])
qed

lemma custody_until_receipt_witness:
  "\<exists>r. row_of sample_held ''run'' = Some r \<and> cr_state r = Q_active
     \<and> row_of (snd (authority_withdraw 3 ''owner'' sample_execution sample_held)) ''run'' = Some r"
proof -
  have "map_option cr_state (row_of sample_held ''run'') = Some Q_active" by code_simp
  then obtain r where r: "row_of sample_held ''run'' = Some r" "cr_state r = Q_active" by auto
  obtain res a' where w: "authority_withdraw 3 ''owner'' sample_execution sample_held = (res, a')" by (metis prod.collapse)
  have "row_of a' ''run'' = Some r"
    using custody_until_receipt[OF sample_reach step_withdraw[OF w] r] by simp
  then show ?thesis using r w by simp
qed

text \<open>C21: Release is final: once the authority is initialized, a released execution stays released whatever
  operation follows, so no later acquire or census can run it again; an acquire of it answers conflict
  to its owner.\<close>

theorem release_is_final:
  assumes "authority_reach a" "au_initialized a" "row_of a e = Some r" "cr_state r = Q_released" "authority_step a op a'"
  shows "row_of a' e = Some r
    \<and> (bounded_text (JStr (cr_owner r)) \<longrightarrow> isAgentExecution x \<longrightarrow> execution_of x = e \<longrightarrow> agent_of x = cr_agent r \<longrightarrow>
        authority_acquire now uuid (cr_owner r) x a
          = (capacity_fail now Conflict ''Execution already positively released; start a new durable execution identity'', a))"
proof -
  have q: "cr_state r \<noteq> Q_queued" using assms(4) by simp
  have "row_of a' e = Some r"
    using assms(5)
  proof (cases rule: authority_step.cases)
    case (step_acquire now uuid owner x res)
    then show ?thesis using acquire_keeps[OF step_acquire(2) assms(3) q] by simp
  next
    case (step_withdraw now owner x res)
    then show ?thesis using withdraw_keeps[OF step_withdraw(2) assms(3) q] by simp
  next
    case (step_release now owner c res)
    then show ?thesis using release_keeps[OF step_release(2) assms(3) q] assms(4) by auto
  next
    case (step_initialize now uuids census res)
    then show ?thesis using initialize_keeps[OF step_initialize(2) assms(2)] assms(3) by simp
  qed
  moreover have "authority_acquire now uuid (cr_owner r) x a
          = (capacity_fail now Conflict ''Execution already positively released; start a new durable execution identity'', a)"
    if "bounded_text (JStr (cr_owner r))" "isAgentExecution x" "execution_of x = e" "agent_of x = cr_agent r"
    using that assms(3,4) by (simp add: authority_acquire_def Let_def)
  ultimately show ?thesis by blast
qed

lemma release_is_final_witness:
  "\<exists>r. row_of (snd (authority_acquire 9 ''again'' ''owner'' sample_execution
        (snd (authority_release 3 ''owner'' (mk_obj [(''agentId'', JStr ''agent''), (''executionId'', JStr ''run''), (''leaseId'', JStr ''lease'')]) sample_held))))
      ''run'' = Some r \<and> cr_state r = Q_released"
proof -
  let ?c = "mk_obj [(''agentId'', JStr ''agent''), (''executionId'', JStr ''run''), (''leaseId'', JStr ''lease'')]"
  let ?a = "snd (authority_release 3 ''owner'' ?c sample_held)"
  obtain res where "authority_release 3 ''owner'' ?c sample_held = (res, ?a)" by (metis prod.collapse)
  then have reach: "authority_reach ?a" by (rule reach_step[OF sample_reach step_release])
  have "map_option cr_state (row_of ?a ''run'') = Some Q_released" by code_simp
  then obtain r where r: "row_of ?a ''run'' = Some r" "cr_state r = Q_released" by auto
  have i: "au_initialized ?a" by code_simp
  obtain res' a' where w: "authority_acquire 9 ''again'' ''owner'' sample_execution ?a = (res', a')" by (metis prod.collapse)
  have "row_of a' ''run'' = Some r" using release_is_final[OF reach i r step_acquire[OF w]] by blast
  then show ?thesis using r w by simp
qed

section \<open>The authority as a capacity service of one owner\<close>

text \<open>The authority with its clock and its supply of lease ids; \<open>uuid n\<close> is the nth random id.\<close>

record custody_world =
  cw_authority :: authority
  cw_now :: int
  cw_supply :: nat

definition execution_js :: "string \<Rightarrow> string \<Rightarrow> js" where
  "execution_js a e = mk_obj [(''agentId'', JStr a), (''executionId'', JStr e)]"

definition custody_js :: "string \<Rightarrow> string \<Rightarrow> string \<Rightarrow> js" where
  "custody_js a e l = mk_obj [(''agentId'', JStr a), (''executionId'', JStr e), (''leaseId'', JStr l)]"

definition world_acquire :: "(nat \<Rightarrow> string) \<Rightarrow> string \<Rightarrow> string \<Rightarrow> string \<Rightarrow> custody_world \<Rightarrow> string result \<times> custody_world" where
  "world_acquire uuid owner a e w =
     (let (res, au) = authority_acquire (cw_now w) (uuid (cw_supply w)) owner (execution_js a e) (cw_authority w)
      in (rbind res (\<lambda>c. Inr (lease_of c)), w\<lparr>cw_authority := au, cw_supply := Suc (cw_supply w)\<rparr>))"

definition world_release :: "string \<Rightarrow> string \<Rightarrow> string \<Rightarrow> string \<Rightarrow> custody_world \<Rightarrow> unit result \<times> custody_world" where
  "world_release owner a e l w =
     (let (res, au) = authority_release (cw_now w) owner (custody_js a e l) (cw_authority w) in (res, w\<lparr>cw_authority := au\<rparr>))"

definition observed_of :: "capacity_observation \<Rightarrow> observed" where
  "observed_of obs = (case obs of Absent \<Rightarrow> Obs_absent | Is_queued \<Rightarrow> Obs_queued | Is_released \<Rightarrow> Obs_released
     | Is_active c \<Rightarrow> Obs_active (agent_of c) (execution_of c) (lease_of c))"

definition world_inspect :: "string \<Rightarrow> string \<Rightarrow> string \<Rightarrow> custody_world \<Rightarrow> observed result \<times> custody_world" where
  "world_inspect owner a e w =
     (rbind (authority_inspect (cw_now w) owner (execution_js a e) (cw_authority w)) (\<lambda>obs. Inr (observed_of obs)), w)"

definition world_withdraw :: "string \<Rightarrow> string \<Rightarrow> string \<Rightarrow> custody_world \<Rightarrow> unit result \<times> custody_world" where
  "world_withdraw owner a e w =
     (let (res, au) = authority_withdraw (cw_now w) owner (execution_js a e) (cw_authority w) in (res, w\<lparr>cw_authority := au\<rparr>))"

definition authority_api :: "(nat \<Rightarrow> string) \<Rightarrow> string \<Rightarrow> custody_world capacity_api" where
  "authority_api uuid owner = \<lparr>api_acquire = world_acquire uuid owner, api_release = world_release owner,
     api_inspect = world_inspect owner, api_withdraw = world_withdraw owner\<rparr>"

definition custody_ok :: "custody_world \<Rightarrow> bool" where
  "custody_ok w = table_ok (cw_authority w)"

definition custody_active :: "string \<Rightarrow> custody_world \<Rightarrow> string \<Rightarrow> string \<Rightarrow> bool" where
  "custody_active owner w a e = (case row_of (cw_authority w) e of None \<Rightarrow> False
     | Some r \<Rightarrow> cr_state r = Q_active \<and> cr_agent r = a \<and> cr_owner r = owner)"

lemma execution_js_simps [simp]: "execution_of (execution_js a e) = e" "agent_of (execution_js a e) = a"
  by (simp_all add: execution_js_def execution_of_def agent_of_def)

lemma custody_js_simps [simp]: "execution_of (custody_js a e l) = e" "agent_of (custody_js a e l) = a" "lease_of (custody_js a e l) = l"
  by (simp_all add: custody_js_def execution_of_def agent_of_def lease_of_def)

lemma js_get_oput: "keys_sorted fs \<Longrightarrow> js_get (JObj (oput k v fs)) j = (if j = k then v else js_get (JObj fs) j)"
  by (simp add: js_get_def oget_def)

lemma execution_js_lease:
  "agent_of (JObj (oput ''leaseId'' (JStr l) (fields_of (execution_js a e)))) = a"
  "execution_of (JObj (oput ''leaseId'' (JStr l) (fields_of (execution_js a e)))) = e"
proof -
  have s: "keys_sorted (fields_of (execution_js a e))" by (simp add: execution_js_def mk_obj_def)
  have "JObj (fields_of (execution_js a e)) = execution_js a e" by (simp add: execution_js_def mk_obj_def)
  then show "agent_of (JObj (oput ''leaseId'' (JStr l) (fields_of (execution_js a e)))) = a"
    "execution_of (JObj (oput ''leaseId'' (JStr l) (fields_of (execution_js a e)))) = e"
    by (simp_all add: agent_of_def execution_of_def js_get_oput[OF s], simp_all add: execution_js_def)
qed

lemma world_acquire_step:
  assumes "custody_ok w"
  shows "custody_ok (snd (world_acquire uuid owner a e w))"
    and "fst (world_acquire uuid owner a e w) = Inr l \<Longrightarrow> custody_active owner (snd (world_acquire uuid owner a e w)) a e"
    and "custody_active owner (snd (world_acquire uuid owner a e w)) a' e' \<Longrightarrow> custody_active owner w a' e' \<or> (a' = a \<and> e' = e)"
proof -
  obtain res au where r: "authority_acquire (cw_now w) (uuid (cw_supply w)) owner (execution_js a e) (cw_authority w) = (res, au)"
    by (metis prod.collapse)
  have w: "world_acquire uuid owner a e w = (rbind res (\<lambda>c. Inr (lease_of c)), w\<lparr>cw_authority := au, cw_supply := Suc (cw_supply w)\<rparr>)"
    by (simp add: world_acquire_def r)
  show "custody_ok (snd (world_acquire uuid owner a e w))"
    using assms acquire_table[OF r] by (simp add: w custody_ok_def)
  have eff: "(is_ok res \<longrightarrow> custody_active owner (w\<lparr>cw_authority := au\<rparr>) a e)
      \<and> (\<forall>a' e'. custody_active owner (w\<lparr>cw_authority := au\<rparr>) a' e' \<longrightarrow> custody_active owner w a' e' \<or> (a' = a \<and> e' = e))"
    using r
  proof (cases rule: acquire_cases)
    case (granted r0)
    then show ?thesis by (auto simp: custody_active_def split: if_splits option.splits)
  qed (auto simp: custody_active_def)
  show "fst (world_acquire uuid owner a e w) = Inr l \<Longrightarrow> custody_active owner (snd (world_acquire uuid owner a e w)) a e"
    using eff by (auto simp: w rbind_eq_Inr custody_active_def)
  show "custody_active owner (snd (world_acquire uuid owner a e w)) a' e' \<Longrightarrow> custody_active owner w a' e' \<or> (a' = a \<and> e' = e)"
    using eff by (auto simp: w custody_active_def)
qed

lemma world_release_step:
  assumes "custody_ok w"
  shows "custody_ok (snd (world_release owner a e l w))"
    and "fst (world_release owner a e l w) = Inr u \<Longrightarrow> \<not> custody_active owner (snd (world_release owner a e l w)) a e"
    and "custody_active owner (snd (world_release owner a e l w)) a' e' \<Longrightarrow> custody_active owner w a' e'"
proof -
  obtain res au where r: "authority_release (cw_now w) owner (custody_js a e l) (cw_authority w) = (res, au)"
    by (metis prod.collapse)
  have w: "world_release owner a e l w = (res, w\<lparr>cw_authority := au\<rparr>)" by (simp add: world_release_def r)
  show "custody_ok (snd (world_release owner a e l w))"
    using assms release_table[OF r] by (simp add: w custody_ok_def)
  have eff: "(is_ok res \<longrightarrow> \<not> custody_active owner (w\<lparr>cw_authority := au\<rparr>) a e)
      \<and> (\<forall>a' e'. custody_active owner (w\<lparr>cw_authority := au\<rparr>) a' e' \<longrightarrow> custody_active owner w a' e')"
    using r
  proof (cases rule: release_cases)
    case (settled r0)
    then show ?thesis by (auto simp: custody_active_def split: if_splits option.splits)
  qed (auto simp: custody_active_def)
  show "fst (world_release owner a e l w) = Inr u \<Longrightarrow> \<not> custody_active owner (snd (world_release owner a e l w)) a e"
    using eff by (simp add: w)
  show "custody_active owner (snd (world_release owner a e l w)) a' e' \<Longrightarrow> custody_active owner w a' e'"
    using eff by (simp add: w)
qed

lemma world_withdraw_step:
  assumes "custody_ok w"
  shows "custody_ok (snd (world_withdraw owner a e w))"
    and "fst (world_withdraw owner a e w) = Inr u \<Longrightarrow> \<not> custody_active owner (snd (world_withdraw owner a e w)) a e"
    and "custody_active owner (snd (world_withdraw owner a e w)) a' e' \<Longrightarrow> custody_active owner w a' e'"
proof -
  obtain res au where r: "authority_withdraw (cw_now w) owner (execution_js a e) (cw_authority w) = (res, au)"
    by (metis prod.collapse)
  have w: "world_withdraw owner a e w = (res, w\<lparr>cw_authority := au\<rparr>)" by (simp add: world_withdraw_def r)
  show "custody_ok (snd (world_withdraw owner a e w))"
    using assms withdraw_table[OF r] by (simp add: w custody_ok_def)
  have eff: "(is_ok res \<longrightarrow> \<not> custody_active owner (w\<lparr>cw_authority := au\<rparr>) a e)
      \<and> (\<forall>a' e'. custody_active owner (w\<lparr>cw_authority := au\<rparr>) a' e' \<longrightarrow> custody_active owner w a' e')"
    using r
  proof (cases rule: withdraw_cases)
    case settled
    have gone: "\<not> custody_active owner (w\<lparr>cw_authority := au\<rparr>) a' e" for a'
      using settled(2) by (auto simp: custody_active_def split: option.splits)
    have same: "row_of au j = row_of (cw_authority w) j" if "j \<noteq> e" for j using settled(3) that by auto
    have "custody_active owner w a' e'" if "custody_active owner (w\<lparr>cw_authority := au\<rparr>) a' e'" for a' e'
    proof -
      have "e' \<noteq> e" using that gone by blast
      then show ?thesis using that same by (simp add: custody_active_def)
    qed
    then show ?thesis using gone by blast
  qed (auto simp: custody_active_def)
  show "fst (world_withdraw owner a e w) = Inr u \<Longrightarrow> \<not> custody_active owner (snd (world_withdraw owner a e w)) a e"
    using eff by (simp add: w)
  show "custody_active owner (snd (world_withdraw owner a e w)) a' e' \<Longrightarrow> custody_active owner w a' e'"
    using eff by (simp add: w)
qed

lemma world_inspect_active:
  "fst (world_inspect owner a e w) = Inr (Obs_active a' e' l) \<Longrightarrow> a' = a \<and> e' = e"
proof -
  assume "fst (world_inspect owner a e w) = Inr (Obs_active a' e' l)"
  then obtain obs where obs: "authority_inspect (cw_now w) owner (execution_js a e) (cw_authority w) = Inr obs"
    "observed_of obs = Obs_active a' e' l" by (auto simp: world_inspect_def rbind_eq_Inr)
  show ?thesis
    using inspect_row[OF obs(1)] obs(2)
    by (auto simp: observed_of_def execution_js_lease split: option.splits request_state.splits)
qed

interpretation global_custody: capacity_service "authority_api uuid owner" custody_ok "custody_active owner"
  for uuid owner
proof (unfold_locales, goal_cases)
  case (1 w a e) then show ?case by (simp add: authority_api_def world_acquire_step)
next
  case (2 w a e lease) then show ?case by (simp add: authority_api_def world_acquire_step)
next
  case (3 w a e a' e') then show ?case using world_acquire_step(3)[of w owner uuid a e a' e'] by (simp add: authority_api_def)
next
  case (4 w a e l) then show ?case by (simp add: authority_api_def world_release_step)
next
  case (5 w a e l u) then show ?case using world_release_step(2)[of w owner a e l u] by (simp add: authority_api_def)
next
  case (6 w a e l a' e') then show ?case using world_release_step(3)[of w owner a e l a' e'] by (simp add: authority_api_def)
next
  case (7 a e w) then show ?case by (simp add: authority_api_def world_inspect_def)
next
  case (8 a e w a' e' l) then show ?case using world_inspect_active by (simp add: authority_api_def)
next
  case (9 w a e) then show ?case by (simp add: authority_api_def world_withdraw_step)
next
  case (10 w a e u) then show ?case using world_withdraw_step(2)[of w owner a e u] by (simp add: authority_api_def)
next
  case (11 w a e a' e') then show ?case using world_withdraw_step(3)[of w owner a e a' e'] by (simp add: authority_api_def)
qed

end
