(* ===== verification/Capacity_Ledger.thy ===== *)
theory Capacity_Ledger
  imports Capacity_Authority
begin

text \<open>
  The durable outbox of global custody (\<open>packages/orchestrator/src/threads/capacity-ledger.ts\<close>). The table
  is the list of its rows in rowid order; the capacity service is any implementation of
  \<open>Capacity_Interface\<close>, and its world is threaded through. \<open>meanwhile\<close> is what other handlers do to the
  table while an acquisition is awaited. An exception of the database (a violated key) is the error
  \<open>key_conflict\<close>.
\<close>

section \<open>State\<close>

datatype ledger_kind = Work | Command
datatype ledger_state = Requested | Held | Releasing | Released

record ledger_row =
  lr_execution :: string
  lr_logical :: string
  lr_thread :: string
  lr_source :: string
  lr_kind :: ledger_kind
  lr_state :: ledger_state
  lr_lease :: "string option"
  lr_entered :: bool
  lr_error :: "string option"

type_synonym ledger = "ledger_row list"

definition key_conflict :: thread_error where
  "key_conflict = \<lparr>te_code = Unavailable, te_message = ''UNIQUE constraint failed: thread_capacity.execution_id'',
     te_retryable = False, te_retry_at = None\<rparr>"

text \<open>\<open>UPDATE \<dots> WHERE\<close>.\<close>

definition update_rows :: "(ledger_row \<Rightarrow> bool) \<Rightarrow> (ledger_row \<Rightarrow> ledger_row) \<Rightarrow> ledger \<Rightarrow> ledger" where
  "update_rows P f db = map (\<lambda>r. if P r then f r else r) db"

definition insert_row :: "ledger_row \<Rightarrow> ledger \<Rightarrow> ledger result" where
  "insert_row r db = (if lr_execution r \<in> lr_execution ` set db then Inl key_conflict else Inr (db @ [r]))"

definition fresh_row :: "string \<Rightarrow> string \<Rightarrow> string \<Rightarrow> string \<Rightarrow> ledger_kind \<Rightarrow> bool \<Rightarrow> ledger_row" where
  "fresh_row execution logical thread source kind entered =
     \<lparr>lr_execution = execution, lr_logical = logical, lr_thread = thread, lr_source = source, lr_kind = kind,
      lr_state = Requested, lr_lease = None, lr_entered = entered, lr_error = None\<rparr>"

section \<open>Operations without the capacity service\<close>

definition ledger_current :: "string \<Rightarrow> ledger \<Rightarrow> ledger" where
  "ledger_current thread db = filter (\<lambda>r. lr_thread r = thread \<and> lr_state r \<noteq> Released) db"

definition ledger_candidate :: "string \<Rightarrow> string \<Rightarrow> ledger \<Rightarrow> string option" where
  "ledger_candidate thread work db = map_option lr_logical
     (find (\<lambda>r. lr_thread r = thread \<and> lr_source r = work \<and> lr_kind r = Work) (rev db))"

definition ledger_retain :: "string \<Rightarrow> string \<Rightarrow> string \<Rightarrow> ledger_kind \<Rightarrow> ledger \<Rightarrow> ledger result" where
  "ledger_retain thread logical source kind db =
     (if list_ex (\<lambda>r. lr_thread r = thread \<and> lr_logical r = logical) db then Inr db
      else insert_row (fresh_row logical logical thread source kind True) db)"

definition ledger_entered :: "string \<Rightarrow> string \<Rightarrow> ledger \<Rightarrow> ledger" where
  "ledger_entered thread logical db = update_rows (\<lambda>r. lr_thread r = thread \<and> lr_logical r = logical \<and> lr_state r = Held)
     (\<lambda>r. r\<lparr>lr_entered := True\<rparr>) db"

text \<open>Does a row belong to the request: of the thread, and of the logical execution when one is named.\<close>

definition concerns :: "string \<Rightarrow> string option \<Rightarrow> ledger_row \<Rightarrow> bool" where
  "concerns thread logical r = (lr_thread r = thread \<and> (case logical of None \<Rightarrow> True | Some l \<Rightarrow> lr_logical r = l))"

definition ledger_requestRelease :: "string \<Rightarrow> string option \<Rightarrow> ledger \<Rightarrow> ledger" where
  "ledger_requestRelease thread logical db =
     update_rows (\<lambda>r. concerns thread logical r \<and> lr_state r \<in> {Requested, Held}) (\<lambda>r. r\<lparr>lr_state := Releasing\<rparr>) db"

section \<open>Flushing releases\<close>

definition release_row :: "'w capacity_api \<Rightarrow> ledger_row \<Rightarrow> ledger \<Rightarrow> 'w \<Rightarrow> unit result \<times> ledger \<times> 'w" where
  "release_row api r db w =
     (case (case lr_lease r of Some l \<Rightarrow> if l \<noteq> [] then Some l else None | None \<Rightarrow> None) of
        Some l \<Rightarrow> (let (res, w) = api_release api (lr_thread r) (lr_execution r) l w in (res, db, w))
      | None \<Rightarrow>
          (let (obs, w) = api_inspect api (lr_thread r) (lr_execution r) w in
           case obs of
             Inl err \<Rightarrow> (Inl err, db, w)
           | Inr (Obs_active a e l) \<Rightarrow>
               (let db = update_rows (\<lambda>q. lr_execution q = lr_execution r) (\<lambda>q. q\<lparr>lr_lease := Some l\<rparr>) db;
                    (res, w) = api_release api a e l w in (res, db, w))
           | Inr _ \<Rightarrow> (let (res, w) = api_withdraw api (lr_thread r) (lr_execution r) w in (res, db, w))))"

fun flush_rows :: "'w capacity_api \<Rightarrow> ledger \<Rightarrow> ledger \<Rightarrow> 'w \<Rightarrow> unit result \<times> ledger \<times> 'w" where
  "flush_rows api [] db w = (Inr (), db, w)"
| "flush_rows api (r # rows) db w = (case release_row api r db w of
     (Inl err, db, w) \<Rightarrow> (Inl err,
        update_rows (\<lambda>q. lr_execution q = lr_execution r \<and> lr_state q = Releasing) (\<lambda>q. q\<lparr>lr_error := Some (te_message err)\<rparr>) db, w)
   | (Inr _, db, w) \<Rightarrow> flush_rows api rows
        (update_rows (\<lambda>q. lr_execution q = lr_execution r \<and> lr_state q = Releasing)
          (\<lambda>q. q\<lparr>lr_state := Released, lr_error := None\<rparr>) db) w)"

definition ledger_flush :: "'w capacity_api \<Rightarrow> string option \<Rightarrow> ledger \<Rightarrow> 'w \<Rightarrow> unit result \<times> ledger \<times> 'w" where
  "ledger_flush api execution db w =
     flush_rows api (filter (\<lambda>r. lr_state r = Releasing \<and> (case execution of None \<Rightarrow> True | Some e \<Rightarrow> lr_execution r = e)) db) db w"

definition ledger_release :: "'w capacity_api \<Rightarrow> string \<Rightarrow> string option \<Rightarrow> ledger \<Rightarrow> 'w \<Rightarrow> unit result \<times> ledger \<times> 'w" where
  "ledger_release api thread logical db w = ledger_flush api None (ledger_requestRelease thread logical db) w"

definition ledger_releaseUnentered :: "'w capacity_api \<Rightarrow> string \<Rightarrow> string \<Rightarrow> ledger \<Rightarrow> 'w \<Rightarrow> unit result \<times> ledger \<times> 'w" where
  "ledger_releaseUnentered api thread logical db w = ledger_flush api None
     (update_rows (\<lambda>r. lr_thread r = thread \<and> lr_logical r = logical \<and> \<not> lr_entered r \<and> lr_state r \<in> {Requested, Held})
        (\<lambda>r. r\<lparr>lr_state := Releasing\<rparr>) db) w"

section \<open>Acquiring\<close>

definition withdrawn_error :: "int \<Rightarrow> thread_error" where
  "withdrawn_error now = \<lparr>te_code = Unavailable,
     te_message = ''Global agent capacity: acquisition was withdrawn before native dispatch'', te_retryable = False,
     te_retry_at = Some (now + 5000)\<rparr>"

definition current_row :: "string \<Rightarrow> string \<Rightarrow> ledger \<Rightarrow> ledger_row option" where
  "current_row thread logical db = find (\<lambda>r. lr_thread r = thread \<and> lr_logical r = logical \<and> lr_state r \<noteq> Released) db"

text \<open>The row \<open>acquire\<close> works on, inserted when there is none.\<close>

definition ensure_row :: "string \<Rightarrow> string \<Rightarrow> string \<Rightarrow> string \<Rightarrow> ledger_kind \<Rightarrow> ledger \<Rightarrow> (ledger_row \<times> ledger) result" where
  "ensure_row uuid thread logical source kind db = (case current_row thread logical db of
     Some r \<Rightarrow> Inr (r, db)
   | None \<Rightarrow>
       let execution = (if list_ex (\<lambda>r. lr_logical r = logical) db then logical @ '':'' @ uuid else logical);
           r = fresh_row execution logical thread source kind False
       in rbind (insert_row r db) (\<lambda>db. Inr (r, db)))"

text \<open>The request for custody and what follows the answer.\<close>

definition acquire_row :: "'w capacity_api \<Rightarrow> int \<Rightarrow> (ledger \<Rightarrow> ledger) \<Rightarrow> ledger_row \<Rightarrow> ledger \<Rightarrow> 'w
    \<Rightarrow> string result \<times> ledger \<times> 'w" where
  "acquire_row api now meanwhile r db w =
     (let (res, w) = api_acquire api (lr_thread r) (lr_execution r) w; db = meanwhile db in
      case res of
        Inl err \<Rightarrow> (Inl err, update_rows (\<lambda>q. lr_execution q = lr_execution r) (\<lambda>q. q\<lparr>lr_error := Some (te_message err)\<rparr>) db, w)
      | Inr lease \<Rightarrow>
          let db = update_rows (\<lambda>q. lr_execution q = lr_execution r \<and> lr_state q \<noteq> Released)
                (\<lambda>q. q\<lparr>lr_lease := Some lease, lr_state := (if lr_state q = Releasing then Releasing else Held), lr_error := None\<rparr>) db in
          if map_option lr_state (find (\<lambda>q. lr_execution q = lr_execution r) db) \<noteq> Some Held
          then (case ledger_flush api (Some (lr_execution r)) db w of
                  (Inr _, db, w) \<Rightarrow> (Inl (withdrawn_error now), db, w)
                | (Inl err, db, w) \<Rightarrow> (Inl err, db, w))
          else (Inr lease, db, w))"

text \<open>
  A row already releasing is flushed first and the acquisition starts over; two rounds are enough,
  since the second works on a new row. The supply gives one random id per round.
\<close>

fun ledger_acquire :: "nat \<Rightarrow> 'w capacity_api \<Rightarrow> int \<Rightarrow> (nat \<Rightarrow> string) \<Rightarrow> (ledger \<Rightarrow> ledger) \<Rightarrow> string \<Rightarrow> string \<Rightarrow> string
    \<Rightarrow> ledger_kind \<Rightarrow> ledger \<Rightarrow> 'w \<Rightarrow> (string result \<times> ledger \<times> 'w) option" where
  "ledger_acquire 0 api now uuids meanwhile thread logical source kind db w = None"
| "ledger_acquire (Suc fuel) api now uuids meanwhile thread logical source kind db w =
     (case ensure_row (uuids fuel) thread logical source kind db of
        Inl err \<Rightarrow> Some (Inl err, db, w)
      | Inr (r, db) \<Rightarrow>
          if lr_state r = Releasing then
            (case ledger_flush api (Some (lr_execution r)) db w of
               (Inl err, db, w) \<Rightarrow> Some (Inl err, db, w)
             | (Inr _, db, w) \<Rightarrow> ledger_acquire fuel api now uuids meanwhile thread logical source kind db w)
          else Some (acquire_row api now meanwhile r db w))"

section \<open>Rows and keys\<close>

definition keys_ok :: "ledger \<Rightarrow> bool" where
  "keys_ok db = distinct (map lr_execution db)"

definition keeps_identity :: "(ledger_row \<Rightarrow> ledger_row) \<Rightarrow> bool" where
  "keeps_identity f = (\<forall>r. lr_execution (f r) = lr_execution r \<and> lr_thread (f r) = lr_thread r \<and> lr_logical (f r) = lr_logical r)"

lemma update_keys: "keeps_identity f \<Longrightarrow> map lr_execution (update_rows P f db) = map lr_execution db"
  by (induction db) (auto simp: update_rows_def keeps_identity_def)

lemma keys_ok_update: "keeps_identity f \<Longrightarrow> keys_ok (update_rows P f db) = keys_ok db"
  by (simp add: keys_ok_def update_keys)

lemma keeps_identity_simps [simp]:
  "keeps_identity (\<lambda>r. r\<lparr>lr_entered := b\<rparr>)"
  "keeps_identity (\<lambda>r. r\<lparr>lr_state := s\<rparr>)"
  "keeps_identity (\<lambda>r. r\<lparr>lr_lease := l\<rparr>)"
  "keeps_identity (\<lambda>r. r\<lparr>lr_error := x\<rparr>)"
  "keeps_identity (\<lambda>r. r\<lparr>lr_state := s, lr_error := x\<rparr>)"
  "keeps_identity (\<lambda>r. r\<lparr>lr_lease := l, lr_state := g r, lr_error := x\<rparr>)"
  by (simp_all add: keeps_identity_def)

lemma set_update: "set (update_rows P f db) = (\<lambda>r. if P r then f r else r) ` set db"
  by (simp add: update_rows_def)

lemma row_eq: "keys_ok db \<Longrightarrow> r \<in> set db \<Longrightarrow> q \<in> set db \<Longrightarrow> lr_execution r = lr_execution q \<Longrightarrow> r = q"
  unfolding keys_ok_def by (meson inj_onD distinct_map)

text \<open>What identifies a row, and how the rows of a table may move on while releases are flushed.\<close>

definition ident :: "ledger_row \<Rightarrow> string \<times> string \<times> string" where
  "ident r = (lr_execution r, lr_thread r, lr_logical r)"

definition moves_on :: "ledger_row \<Rightarrow> ledger_row \<Rightarrow> bool" where
  "moves_on q q' = (ident q' = ident q \<and> (lr_state q' = lr_state q \<or> (lr_state q = Releasing \<and> lr_state q' = Released)))"

definition advances :: "ledger \<Rightarrow> ledger \<Rightarrow> bool" where
  "advances db db' = list_all2 moves_on db db'"

lemma moves_refl: "moves_on q q"
  by (simp add: moves_on_def)

lemma moves_trans: "moves_on p q \<Longrightarrow> moves_on q r \<Longrightarrow> moves_on p r"
  by (auto simp: moves_on_def)

lemma advances_refl: "advances db db"
  unfolding advances_def by (rule list_all2_refl) (rule moves_refl)

lemma advances_trans: "advances a b \<Longrightarrow> advances b c \<Longrightarrow> advances a c"
  unfolding advances_def using list_all2_trans[of moves_on moves_on moves_on a b c] moves_trans by blast

lemma advances_update:
  assumes "\<And>q. P q \<Longrightarrow> moves_on q (f q)"
  shows "advances db (update_rows P f db)"
  unfolding advances_def update_rows_def using assms by (simp add: list_all2_conv_all_nth moves_refl)

lemma advances_keys: "advances db db' \<Longrightarrow> map lr_execution db' = map lr_execution db"
  unfolding advances_def by (induction rule: list_all2_induct) (auto simp: moves_on_def ident_def)

lemma advances_back: "advances db db' \<Longrightarrow> q' \<in> set db' \<Longrightarrow> \<exists>q \<in> set db. moves_on q q'"
  unfolding advances_def by (metis in_set_conv_nth list_all2_conv_all_nth)

lemma advances_forth: "advances db db' \<Longrightarrow> q \<in> set db \<Longrightarrow> \<exists>q' \<in> set db'. moves_on q q'"
  unfolding advances_def by (metis in_set_conv_nth list_all2_conv_all_nth)

definition view :: "ledger_row \<Rightarrow> (string \<times> string \<times> string) \<times> ledger_state" where
  "view q = (ident q, lr_state q)"

lemma view_update: "(\<And>q. view (f q) = view q) \<Longrightarrow> map view (update_rows P f db) = map view db"
  by (simp add: update_rows_def)

lemma view_advances: "map view db' = map view db \<Longrightarrow> advances db db'"
  unfolding advances_def
proof (rule list_all2_all_nthI)
  assume v: "map view db' = map view db"
  then show l: "length db = length db'" by (metis length_map)
  fix n assume n: "n < length db"
  have "view (db' ! n) = view (db ! n)" using v n l by (metis nth_map)
  then show "moves_on (db ! n) (db' ! n)" by (simp add: moves_on_def view_def)
qed

lemma view_back: "map view db' = map view db \<Longrightarrow> q' \<in> set db' \<Longrightarrow> \<exists>q \<in> set db. view q = view q'"
  by (metis imageE image_eqI image_set)

definition known_row :: "ledger \<Rightarrow> ledger_row \<Rightarrow> bool" where
  "known_row db r = (\<exists>q \<in> set db. ident q = ident r)"

lemma known_advances: "known_row db r \<Longrightarrow> advances db db' \<Longrightarrow> known_row db' r"
  unfolding known_row_def by (metis advances_forth moves_on_def)

section \<open>Releases against any capacity service\<close>

context capacity_service
begin

definition safe :: "'w \<Rightarrow> ledger \<Rightarrow> bool" where
  "safe w db = (ok w \<and> keys_ok db \<and> (\<forall>r \<in> set db. lr_state r = Released \<longrightarrow> \<not> active w (lr_thread r) (lr_execution r)))"

lemma release_effect:
  assumes "ok w"
  shows "ok (snd (api_release api a e l w))" "\<forall>a' e'. active (snd (api_release api a e l w)) a' e' \<longrightarrow> active w a' e'"
    "is_ok (fst (api_release api a e l w)) \<Longrightarrow> \<not> active (snd (api_release api a e l w)) a e"
  using ok_release[OF assms] release_frame[OF assms] release_done[OF assms]
  by (blast, blast, metis is_okE)

lemma withdraw_effect:
  assumes "ok w"
  shows "ok (snd (api_withdraw api a e w))" "\<forall>a' e'. active (snd (api_withdraw api a e w)) a' e' \<longrightarrow> active w a' e'"
    "is_ok (fst (api_withdraw api a e w)) \<Longrightarrow> \<not> active (snd (api_withdraw api a e w)) a e"
  using ok_withdraw[OF assms] withdraw_frame[OF assms] withdraw_done[OF assms]
  by (blast, blast, metis is_okE)

text \<open>Releasing one row: it keeps the table, and once acknowledged the execution is inactive.\<close>

lemma release_row_effect:
  assumes "ok w" "release_row api r db w = (res, db', w')"
  shows "ok w' \<and> map view db' = map view db \<and> (\<forall>a e. active w' a e \<longrightarrow> active w a e)
    \<and> (is_ok res \<longrightarrow> \<not> active w' (lr_thread r) (lr_execution r))"
proof (cases "lr_lease r \<noteq> None \<and> the (lr_lease r) \<noteq> []")
  case True
  then have "release_row api r db w = (let (res, w) = api_release api (lr_thread r) (lr_execution r) (the (lr_lease r)) w in (res, db, w))"
    by (auto simp: release_row_def)
  then have "res = fst (api_release api (lr_thread r) (lr_execution r) (the (lr_lease r)) w)" "db' = db"
    "w' = snd (api_release api (lr_thread r) (lr_execution r) (the (lr_lease r)) w)"
    using assms(2) by (simp_all add: case_prod_beta)
  then show ?thesis using release_effect[OF assms(1)] by simp
next
  case False
  obtain obs w1 where o: "api_inspect api (lr_thread r) (lr_execution r) w = (obs, w1)" by (metis prod.collapse)
  have w1: "w1 = w" using inspect_same[of "lr_thread r" "lr_execution r" w] o by simp
  let ?wd = "api_withdraw api (lr_thread r) (lr_execution r) w"
  have eq: "release_row api r db w = (case obs of Inl err \<Rightarrow> (Inl err, db, w)
      | Inr (Obs_active a e l) \<Rightarrow> (fst (api_release api a e l w), update_rows (\<lambda>q. lr_execution q = lr_execution r) (\<lambda>q. q\<lparr>lr_lease := Some l\<rparr>) db,
           snd (api_release api a e l w))
      | Inr _ \<Rightarrow> (fst ?wd, db, snd ?wd))"
    using False by (auto simp: release_row_def o w1 case_prod_beta split: option.splits sum.splits observed.splits)
  show ?thesis
  proof (cases obs)
    case (Inl err)
    then show ?thesis using eq assms by simp
  next
    case (Inr ob)
    show ?thesis
    proof (cases ob)
      case (Obs_active a e l)
      have ae: "a = lr_thread r" "e = lr_execution r"
        using inspect_active[of "lr_thread r" "lr_execution r" w a e l] o Inr Obs_active by simp_all
      have "map view (update_rows (\<lambda>q. lr_execution q = lr_execution r) (\<lambda>q. q\<lparr>lr_lease := Some l\<rparr>) db) = map view db"
        by (rule view_update) (simp add: view_def ident_def)
      then show ?thesis using eq assms(2) Inr Obs_active release_effect[OF assms(1), of a e l] ae by auto
    next
      case Obs_absent
      then show ?thesis using eq assms(2) Inr withdraw_effect[OF assms(1), of "lr_thread r" "lr_execution r"] by auto
    next
      case Obs_queued
      then show ?thesis using eq assms(2) Inr withdraw_effect[OF assms(1), of "lr_thread r" "lr_execution r"] by auto
    next
      case Obs_released
      then show ?thesis using eq assms(2) Inr withdraw_effect[OF assms(1), of "lr_thread r" "lr_execution r"] by auto
    qed
  qed
qed

lemma safe_view:
  assumes "safe w db" "ok w'" "map view db' = map view db" "\<forall>a e. active w' a e \<longrightarrow> active w a e"
  shows "safe w' db'"
  unfolding safe_def
proof (intro conjI ballI impI)
  show "ok w'" by (rule assms(2))
  show "keys_ok db'" using assms(1) advances_keys[OF view_advances[OF assms(3)]] by (simp add: safe_def keys_ok_def)
  fix q' assume q': "q' \<in> set db'" "lr_state q' = Released"
  obtain q where q: "q \<in> set db" "view q = view q'" using view_back[OF assms(3) q'(1)] by blast
  then have "lr_state q = Released" "lr_thread q' = lr_thread q" "lr_execution q' = lr_execution q"
    using q'(2) by (simp_all add: view_def ident_def)
  then show "\<not> active w' (lr_thread q') (lr_execution q')" using q(1) assms(1,4) unfolding safe_def by metis
qed

text \<open>Marking rows released is safe when their executions are inactive.\<close>

lemma safe_mark:
  assumes "safe w db" "\<And>q. q \<in> set db \<Longrightarrow> P q \<Longrightarrow> \<not> active w (lr_thread q) (lr_execution q)" "keeps_identity f"
  shows "safe w (update_rows P f db)"
  using assms unfolding safe_def by (auto simp: keys_ok_update set_update keeps_identity_def split: if_splits)

abbreviation mark_released :: "ledger_row \<Rightarrow> ledger \<Rightarrow> ledger" where
  "mark_released r db \<equiv> update_rows (\<lambda>q. lr_execution q = lr_execution r \<and> lr_state q = Releasing)
     (\<lambda>q. q\<lparr>lr_state := Released, lr_error := None\<rparr>) db"

lemma mark_advances: "advances db (mark_released r db)"
  by (rule advances_update) (simp add: moves_on_def ident_def)

text \<open>Flushing keeps the table safe, and when it succeeds none of its rows is still releasing.\<close>

lemma flush_rows_effect:
  "\<lbrakk>flush_rows api rows db w = (res, db', w'); safe w db; \<And>r. r \<in> set rows \<Longrightarrow> known_row db r\<rbrakk> \<Longrightarrow>
     safe w' db' \<and> advances db db'
     \<and> (is_ok res \<longrightarrow> (\<forall>r \<in> set rows. \<forall>q \<in> set db'. lr_execution q = lr_execution r \<longrightarrow> lr_state q \<noteq> Releasing))"
proof (induction rows arbitrary: db w)
  case Nil
  then show ?case by (simp add: advances_refl)
next
  case (Cons r rows)
  obtain res1 db1 w1 where s: "release_row api r db w = (res1, db1, w1)" by (metis prod_cases3)
  have okw: "ok w" using Cons.prems(2) by (simp add: safe_def)
  note eff = release_row_effect[OF okw s]
  have adv1: "advances db db1" using eff view_advances by blast
  have safe1: "safe w1 db1" using safe_view[OF Cons.prems(2)] eff by blast
  show ?case
  proof (cases res1)
    case (Inl err)
    let ?db = "update_rows (\<lambda>q. lr_execution q = lr_execution r \<and> lr_state q = Releasing) (\<lambda>q. q\<lparr>lr_error := Some (te_message err)\<rparr>) db1"
    have out: "res = Inl err" "db' = ?db" "w' = w1" using Cons.prems(1) s Inl by simp_all
    have v: "map view ?db = map view db1" by (rule view_update) (simp add: view_def ident_def)
    have "ok w1" using eff by blast
    then have "safe w1 ?db" using safe_view[OF safe1 _ v] by blast
    moreover have "advances db ?db" using advances_trans[OF adv1 view_advances[OF v]] .
    ultimately show ?thesis using out by simp
  next
    case (Inr u)
    let ?db = "mark_released r db1"
    have rest: "flush_rows api rows ?db w1 = (res, db', w')" using Cons.prems(1) s Inr by simp
    have inactive: "\<not> active w1 (lr_thread r) (lr_execution r)" using eff Inr by simp
    have kr: "known_row db1 r" using known_advances[OF Cons.prems(3)[of r] adv1] by simp
    have thread: "lr_thread q = lr_thread r" if q: "q \<in> set db1" "lr_execution q = lr_execution r" for q
    proof -
      obtain p where p: "p \<in> set db1" "ident p = ident r" using kr unfolding known_row_def by blast
      have "p = q" using row_eq[of db1 p q] safe1 p q by (simp add: safe_def ident_def)
      then show ?thesis using p by (simp add: ident_def)
    qed
    have safe2: "safe w1 ?db" by (rule safe_mark[OF safe1]) (use thread inactive in auto)
    have adv2: "advances db ?db" by (rule advances_trans[OF adv1 mark_advances])
    have "known_row ?db q" if "q \<in> set rows" for q
      using known_advances[OF Cons.prems(3) adv2] that by simp
    note ih = Cons.IH[OF rest safe2 this]
    have "lr_state q \<noteq> Releasing" if q: "q \<in> set db'" "lr_execution q = lr_execution r" for q
    proof -
      obtain p where p: "p \<in> set ?db" "moves_on p q" using advances_back[of ?db db' q] ih q by blast
      have "lr_execution p = lr_execution r" using p(2) q(2) by (simp add: moves_on_def ident_def)
      then have "lr_state p \<noteq> Releasing" using p(1) by (auto simp: set_update split: if_splits)
      then show ?thesis using p(2) by (auto simp: moves_on_def)
    qed
    then show ?thesis using ih advances_trans[OF adv2] by auto
  qed
qed

lemma ledger_flush_effect:
  assumes "ledger_flush api execution db w = (res, db', w')" "safe w db"
  shows "safe w' db' \<and> advances db db'
     \<and> (is_ok res \<longrightarrow> (\<forall>q \<in> set db'. (case execution of None \<Rightarrow> True | Some e \<Rightarrow> lr_execution q = e) \<longrightarrow> lr_state q \<noteq> Releasing))"
proof -
  let ?rows = "filter (\<lambda>r. lr_state r = Releasing \<and> (case execution of None \<Rightarrow> True | Some e \<Rightarrow> lr_execution r = e)) db"
  have k: "known_row db r" if "r \<in> set ?rows" for r using that by (auto simp: known_row_def)
  have eff: "safe w' db' \<and> advances db db'
     \<and> (is_ok res \<longrightarrow> (\<forall>r \<in> set ?rows. \<forall>q \<in> set db'. lr_execution q = lr_execution r \<longrightarrow> lr_state q \<noteq> Releasing))"
    by (rule flush_rows_effect[OF assms(1)[unfolded ledger_flush_def] assms(2)]) (rule k)
  have "lr_state q \<noteq> Releasing" if q: "is_ok res" "q \<in> set db'" "case execution of None \<Rightarrow> True | Some e \<Rightarrow> lr_execution q = e" for q
  proof
    assume st: "lr_state q = Releasing"
    obtain p where p: "p \<in> set db" "moves_on p q" using advances_back[of db db' q] eff q(2) by blast
    have "lr_state p = Releasing" "lr_execution p = lr_execution q" using p(2) st by (auto simp: moves_on_def ident_def)
    then have "p \<in> set ?rows" using p(1) q(3) by (simp split: option.splits)
    then have "lr_state q \<noteq> Releasing" using eff[THEN conjunct2, THEN conjunct2, rule_format, OF q(1) _ q(2), of p] \<open>lr_execution p = lr_execution q\<close> by simp
    then show False using st by simp
  qed
  then show ?thesis using eff[THEN conjunct1] eff[THEN conjunct2, THEN conjunct1] by (intro conjI impI ballI) simp_all
qed

lemma safe_request:
  assumes "safe w db"
  shows "safe w (update_rows P (\<lambda>r. r\<lparr>lr_state := Releasing\<rparr>) db)"
  using assms unfolding safe_def by (auto simp: keys_ok_update set_update split: if_splits)

lemma release_settles:
  assumes "safe w db" "ledger_release api thread logical db w = (Inr u, db', w')" "r \<in> set db'" "concerns thread logical r"
  shows "lr_state r = Released \<and> \<not> active w' (lr_thread r) (lr_execution r)"
proof -
  let ?db = "ledger_requestRelease thread logical db"
  have "safe w ?db" unfolding ledger_requestRelease_def by (rule safe_request[OF assms(1)])
  note eff = ledger_flush_effect[OF assms(2)[unfolded ledger_release_def] this]
  obtain q where q: "q \<in> set ?db" "moves_on q r" using advances_back[OF _ assms(3), of ?db] eff by blast
  have c: "concerns thread logical q" using assms(4) q(2) by (simp add: concerns_def moves_on_def ident_def split: option.splits)
  have "lr_state q = Releasing \<or> lr_state q = Released"
  proof -
    obtain p where p: "q = (if concerns thread logical p \<and> lr_state p \<in> {Requested, Held} then p\<lparr>lr_state := Releasing\<rparr> else p)"
      using q(1) unfolding ledger_requestRelease_def set_update by blast
    then have cp: "concerns thread logical p" using c by (simp add: concerns_def split: if_splits)
    show ?thesis using p cp by (cases "lr_state p") simp_all
  qed
  then have "lr_state r = Releasing \<or> lr_state r = Released" using q(2) unfolding moves_on_def by metis
  moreover have "lr_state r \<noteq> Releasing" using eff[THEN conjunct2, THEN conjunct2] assms(3) by (simp only: is_ok_simps option.case) blast
  ultimately have st: "lr_state r = Released" by blast
  then show ?thesis using eff[THEN conjunct1] assms(3) unfolding safe_def by blast
qed

text \<open>An acquisition answered with a lease left a held row with that lease, and active custody.\<close>

lemma acquire_row_granted:
  assumes "ok w" "acquire_row api now meanwhile r db w = (Inr lease, db', w')"
  shows "(\<exists>q \<in> set db'. lr_execution q = lr_execution r \<and> lr_state q = Held \<and> lr_lease q = Some lease)
    \<and> active w' (lr_thread r) (lr_execution r)"
proof -
  obtain res w1 where a: "api_acquire api (lr_thread r) (lr_execution r) w = (res, w1)" by (metis prod.collapse)
  obtain l where res: "res = Inr l" using assms(2) a by (cases res) (simp_all add: acquire_row_def)
  let ?db = "update_rows (\<lambda>q. lr_execution q = lr_execution r \<and> lr_state q \<noteq> Released)
                (\<lambda>q. q\<lparr>lr_lease := Some l, lr_state := (if lr_state q = Releasing then Releasing else Held), lr_error := None\<rparr>) (meanwhile db)"
  let ?f = "ledger_flush api (Some (lr_execution r)) ?db w1"
  let ?h = "map_option lr_state (find (\<lambda>q. lr_execution q = lr_execution r) ?db)"
  have eq: "(if ?h \<noteq> Some Held then (case ?f of (Inr _, db, w) \<Rightarrow> (Inl (withdrawn_error now), db, w) | (Inl err, db, w) \<Rightarrow> (Inl err, db, w))
      else (Inr l, ?db, w1)) = (Inr lease, db', w')"
    using assms(2) unfolding acquire_row_def a res Let_def by (simp only: prod.case sum.case)
  have nf: "(case ?f of (Inr _, db, w) \<Rightarrow> (Inl (withdrawn_error now), db, w) | (Inl err, db, w) \<Rightarrow> (Inl err, db, w)) \<noteq> (Inr lease, db', w')"
    by (cases ?f rule: prod_cases3) (simp split: sum.split)
  have held: "?h = Some Held"
  proof (rule ccontr)
    assume "?h \<noteq> Some Held"
    then show False using eq nf by (simp only: if_P simp_thms)
  qed
  have "(Inr l :: string result, ?db, w1) = (Inr lease, db', w')" using eq unfolding held by (simp only: simp_thms if_False)
  then have out: "l = lease" "?db = db'" "w1 = w'" by blast+
  obtain q where q: "find (\<lambda>q. lr_execution q = lr_execution r) ?db = Some q" "lr_state q = Held" using held by auto
  have m: "q \<in> set ?db" "lr_execution q = lr_execution r" using q(1) by (auto simp: find_Some_iff)
  have "lr_lease q = Some l" using m q(2) by (auto simp: set_update split: if_splits)
  moreover have "active w1 (lr_thread r) (lr_execution r)"
    using acquire_active[OF assms(1), of "lr_thread r" "lr_execution r" l] a res by simp
  ultimately have "lr_lease q = Some lease" "active w' (lr_thread r) (lr_execution r)" using out by blast+
  moreover have "q \<in> set db'" using m(1) by (subst out(2)[symmetric])
  ultimately show ?thesis using m(2) q(2) by blast
qed

lemma ensure_row_thread:
  assumes "ensure_row uuid thread logical source kind db = Inr (r, db')"
  shows "lr_thread r = thread \<and> lr_logical r = logical"
  using assms by (auto simp: ensure_row_def current_row_def find_Some_iff fresh_row_def Let_def rbind_eq_Inr split: option.splits)

lemma ensure_row_safe:
  assumes "safe w db" "ensure_row uuid thread logical source kind db = Inr (r, db')"
  shows "safe w db'"
  using assms by (auto simp: ensure_row_def insert_row_def fresh_row_def Let_def rbind_eq_Inr safe_def keys_ok_def split: option.splits if_splits)

lemma ledger_acquire_granted:
  assumes "ledger_acquire fuel api now uuids meanwhile thread logical source kind db w = Some (Inr lease, db', w')" "safe w db"
  shows "\<exists>q \<in> set db'. lr_state q = Held \<and> lr_lease q = Some lease \<and> active w' thread (lr_execution q)"
  using assms
proof (induction fuel arbitrary: db w)
  case 0
  then show ?case by simp
next
  case (Suc fuel)
  obtain r db1 where e: "ensure_row (uuids fuel) thread logical source kind db = Inr (r, db1)"
    using Suc.prems(1) by (cases "ensure_row (uuids fuel) thread logical source kind db") auto
  have t: "lr_thread r = thread" using ensure_row_thread[OF e] by simp
  have s1: "safe w db1" by (rule ensure_row_safe[OF Suc.prems(2) e])
  show ?case
  proof (cases "lr_state r = Releasing")
    case True
    obtain res2 db2 w2 where f: "ledger_flush api (Some (lr_execution r)) db1 w = (res2, db2, w2)" by (metis prod_cases3)
    obtain u where u: "res2 = Inr u" using Suc.prems(1) e f True by (cases res2) simp_all
    have "ledger_acquire fuel api now uuids meanwhile thread logical source kind db2 w2 = Some (Inr lease, db', w')"
      using Suc.prems(1) e f True u by simp
    then show ?thesis using Suc.IH ledger_flush_effect[OF f s1] by blast
  next
    case False
    then have a: "acquire_row api now meanwhile r db1 w = (Inr lease, db', w')" using Suc.prems(1) e by simp
    have "ok w" using s1 by (simp add: safe_def)
    then show ?thesis using acquire_row_granted[OF _ a] t by metis
  qed
qed

end

section \<open>Termination of an acquisition\<close>

definition one_current :: "ledger \<Rightarrow> bool" where
  "one_current db = (\<forall>q \<in> set db. \<forall>r \<in> set db. lr_state q \<noteq> Released \<longrightarrow> lr_state r \<noteq> Released \<longrightarrow> lr_thread q = lr_thread r
     \<longrightarrow> lr_logical q = lr_logical r \<longrightarrow> lr_execution q = lr_execution r)"

context capacity_service
begin

lemma flushed_not_current:
  assumes "safe w db" "one_current db" "current_row thread logical db = Some r" "lr_state r = Releasing"
    "ledger_flush api (Some (lr_execution r)) db w = (Inr u, db', w')"
  shows "current_row thread logical db' = None"
proof (rule ccontr)
  assume "current_row thread logical db' \<noteq> None"
  then obtain q where q: "q \<in> set db'" "lr_thread q = thread" "lr_logical q = logical" "lr_state q \<noteq> Released"
    unfolding current_row_def by (auto simp: find_None_iff)
  have r: "r \<in> set db" "lr_thread r = thread" "lr_logical r = logical" "lr_state r \<noteq> Released"
    using assms(3) unfolding current_row_def by (auto simp: find_Some_iff)
  note eff = ledger_flush_effect[OF assms(5,1)]
  obtain p where p: "p \<in> set db" "moves_on p q" using advances_back[of db db' q] eff q(1) by blast
  have id: "lr_execution p = lr_execution q" "lr_thread p = thread" "lr_logical p = logical"
    using p(2) q by (simp_all add: moves_on_def ident_def)
  have "lr_state p \<noteq> Released" using p(2) q(4) by (auto simp: moves_on_def)
  then have e: "lr_execution p = lr_execution r" using assms(2) p(1) r id unfolding one_current_def by blast
  have "keys_ok db" using assms(1) by (simp add: safe_def)
  then have "p = r" using row_eq p(1) r(1) e by blast
  then have "lr_state q = Releasing" using p(2) q(4) assms(4) by (simp add: moves_on_def)
  moreover have "lr_state q \<noteq> Releasing" using eff q(1) id(1) e by simp
  ultimately show False by simp
qed

lemma ensure_row_current:
  assumes "ensure_row uuid thread logical source kind db = Inr (r, db')"
  shows "(lr_state r = Requested \<and> current_row thread logical db = None) \<or> (current_row thread logical db = Some r \<and> db' = db)"
  using assms by (auto simp: ensure_row_def fresh_row_def Let_def rbind_eq_Inr split: option.splits)

lemma acquire_returns:
  assumes "safe w db" "one_current db"
  shows "ledger_acquire (Suc (Suc n)) api now uuids meanwhile thread logical source kind db w \<noteq> None"
proof (cases "ensure_row (uuids (Suc n)) thread logical source kind db")
  case (Inl err)
  then show ?thesis by simp
next
  case (Inr rd)
  obtain r db1 where e: "ensure_row (uuids (Suc n)) thread logical source kind db = Inr (r, db1)" using Inr by (cases rd) simp
  show ?thesis
  proof (cases "lr_state r = Releasing")
    case False
    then show ?thesis using e by simp
  next
    case True
    then have c: "current_row thread logical db = Some r" "db1 = db" using ensure_row_current[OF e] by auto
    obtain res2 db2 w2 where f: "ledger_flush api (Some (lr_execution r)) db w = (res2, db2, w2)" by (metis prod_cases3)
    show ?thesis
    proof (cases res2)
      case Inl
      then show ?thesis using e c f True by simp
    next
      case (Inr u)
      have none: "current_row thread logical db2 = None"
        using flushed_not_current[OF assms c(1) True] f Inr by blast
      have "ledger_acquire (Suc n) api now uuids meanwhile thread logical source kind db2 w2 \<noteq> None"
      proof (cases "ensure_row (uuids n) thread logical source kind db2")
        case (Inr rd)
        obtain r3 db3 where e3: "ensure_row (uuids n) thread logical source kind db2 = Inr (r3, db3)" using Inr by (cases rd) simp
        then have "lr_state r3 = Requested" using ensure_row_current[OF e3] none by simp
        then show ?thesis using e3 by simp
      qed simp
      then show ?thesis using e c f True Inr by simp
    qed
  qed
qed

end

section \<open>The ledger against the global authority\<close>

definition ledger_sound :: "string \<Rightarrow> custody_world \<Rightarrow> ledger \<Rightarrow> bool" where
  "ledger_sound owner w db = (custody_ok w \<and> keys_ok db
     \<and> list_all (\<lambda>r. lr_state r = Released \<longrightarrow> \<not> custody_active owner w (lr_thread r) (lr_execution r)) db)"

lemma ledger_sound_safe: "ledger_sound owner w db \<Longrightarrow> global_custody.safe owner w db"
  unfolding global_custody.safe_def ledger_sound_def by (simp add: list_all_iff)

definition sample_world :: custody_world where
  "sample_world = \<lparr>cw_authority = sample_held, cw_now = 5, cw_supply = 0\<rparr>"

definition sample_ledger :: ledger where
  "sample_ledger = [(fresh_row ''run'' ''run'' ''agent'' ''message'' Work True)\<lparr>lr_state := Held, lr_lease := Some ''lease''\<rparr>]"

lemma sample_sound: "ledger_sound ''owner'' sample_world sample_ledger"
proof -
  have "table_ok sample_held" using sample_reach reach_table by blast
  then show ?thesis by (simp add: ledger_sound_def custody_ok_def sample_world_def sample_ledger_def keys_ok_def fresh_row_def)
qed




text \<open>an acquisition that answers a lease did record it: a row is held under that lease and the
  authority's custody for the thread is active, however releases interleaved while the request was awaited.\<close>

theorem ledger_acquire_holds:
  assumes "ledger_sound owner w db"
    "ledger_acquire fuel (authority_api uuid owner) now uuids meanwhile thread logical source kind db w = Some (Inr lease, db', w')"
  shows "\<exists>q \<in> set db'. lr_state q = Held \<and> lr_lease q = Some lease \<and> custody_active owner w' thread (lr_execution q)"
  by (rule global_custody.ledger_acquire_granted[OF assms(2) ledger_sound_safe[OF assms(1)]])

lemma ledger_acquire_holds_witness:
  "\<exists>lease db' w'. ledger_acquire 2 (authority_api (\<lambda>n. ''fresh'') ''owner'') 5 (\<lambda>n. ''id'') id ''other'' ''work'' ''message'' Work sample_ledger sample_world
      = Some (Inr lease, db', w') \<and> (\<exists>q \<in> set db'. lr_state q = Held \<and> lr_lease q = Some lease \<and> custody_active ''owner'' w' ''other'' (lr_execution q))"
proof -
  let ?o = "ledger_acquire 2 (authority_api (\<lambda>n. ''fresh'') ''owner'') 5 (\<lambda>n. ''id'') id ''other'' ''work'' ''message'' Work sample_ledger sample_world"
  have "(case ?o of None \<Rightarrow> False | Some r \<Rightarrow> is_ok (fst r))" by code_simp
  then obtain res db' w' where o: "?o = Some (res, db', w')" "is_ok res" by (auto split: option.splits)
  then obtain lease where l: "res = Inr lease" by (auto elim: is_okE)
  show ?thesis using ledger_acquire_holds[OF sample_sound o(1)[unfolded l]] o(1) l by blast
qed


text \<open>An acquisition always returns: the recursion after flushing a row that was still releasing
  runs at most once more, because that row is released by then and no other row is current.\<close>

theorem ledger_acquire_terminates:
  assumes "ledger_sound owner w db" "one_current db"
  shows "\<exists>out. ledger_acquire (Suc (Suc n)) (authority_api uuid owner) now uuids meanwhile thread logical source kind db w = Some out"
  using global_custody.acquire_returns[OF ledger_sound_safe[OF assms(1)] assms(2)] by (metis not_None_eq)

lemma ledger_acquire_terminates_witness:
  "\<exists>out. ledger_acquire 2 (authority_api (\<lambda>n. ''fresh'') ''owner'') 5 (\<lambda>n. ''id'') id ''agent'' ''run'' ''message'' Work sample_ledger sample_world = Some out"
proof -
  have "one_current sample_ledger" by (simp add: one_current_def sample_ledger_def)
  from ledger_acquire_terminates[OF sample_sound this, of 0] show ?thesis by (simp add: numeral_2_eq_2)
qed

end
