(* ===== verification/Catalog.thy ===== *)
theory Catalog
  imports Regex Js_Values
begin

text \<open>
  The model catalog (\<open>packages/orchestrator/src/catalog.ts\<close>): the stable identities of the models, the
  provider meters they drain and which quota a success proves. The presentation fields (icon, accent) and
  the plan cards are left out. Letter case is folded on ASCII letters.
\<close>

section \<open>The data\<close>

record catalog_model =
  cm_id :: string
  cm_provider :: string
  cm_model :: string
  cm_thinking :: string
  cm_label :: string
  cm_aliases :: "string list"
  cm_meter :: "string option"

record catalog_meter =
  me_id :: string
  me_provider :: string
  me_drained_by :: "string list"
  me_hours :: int

definition model_entry :: "string \<Rightarrow> string \<Rightarrow> string \<Rightarrow> string \<Rightarrow> string \<Rightarrow> string option \<Rightarrow> catalog_model" where
  "model_entry key provider model thinking label meter =
     \<lparr>cm_id = key, cm_provider = provider, cm_model = model, cm_thinking = thinking, cm_label = label, cm_aliases = [key], cm_meter = meter\<rparr>"

definition catalog_models :: "catalog_model list" where
  "catalog_models =
     [model_entry ''astra'' ''openai-codex'' ''gpt-6-astra'' ''high'' ''ASTRA'' (Some ''astra''),
      model_entry ''sol'' ''openai-codex'' ''gpt-6.1-sol'' ''high'' ''SOL'' (Some ''sol''),
      model_entry ''luna'' ''openai-codex'' ''gpt-6-luna'' ''max'' ''LUNA'' (Some ''luna''),
      model_entry ''opus'' ''anthropic'' ''claude-opus-5-5'' ''high'' ''OPUS'' (Some ''opus''),
      model_entry ''fable'' ''anthropic'' ''claude-fable-5-1'' ''high'' ''FABLE'' (Some ''fable''),
      model_entry ''sonnet'' ''anthropic'' ''claude-sonnet-5'' ''high'' ''SONNET'' None]"

definition meter_entry :: "string \<Rightarrow> string \<Rightarrow> string list \<Rightarrow> int \<Rightarrow> catalog_meter" where
  "meter_entry key provider drained hours = \<lparr>me_id = key, me_provider = provider, me_drained_by = drained, me_hours = hours\<rparr>"

definition catalog_meters :: "catalog_meter list" where
  "catalog_meters =
     [meter_entry ''codex-5h'' ''openai-codex'' [''astra:cost'', ''sol:cost'', ''luna:cost''] 5,
      meter_entry ''codex-7d'' ''openai-codex'' [''astra:cost'', ''sol:cost'', ''luna:cost''] 168,
      meter_entry ''anthropic-5h'' ''anthropic'' [''default:cost'', ''opus:cost'', ''fable:cost''] 5,
      meter_entry ''anthropic-7d'' ''anthropic'' [''default:cost'', ''opus:cost'', ''fable:cost''] 168,
      meter_entry ''anthropic-7d_oi'' ''anthropic'' [''fable:cost''] 168]"

section \<open>Lookups\<close>

definition catalogModel :: "string \<Rightarrow> catalog_model option" where
  "catalogModel key = find (\<lambda>m. cm_id m = key) catalog_models"

definition catalogMeter :: "string \<Rightarrow> catalog_meter option" where
  "catalogMeter key = find (\<lambda>m. me_id m = key) catalog_meters"

definition catalog_named :: "string \<Rightarrow> string \<Rightarrow> catalog_model option" where
  "catalog_named provider model = find (\<lambda>m. cm_provider m = provider \<and> cm_model m = model) catalog_models"

definition admissionThinking :: "string \<Rightarrow> string \<Rightarrow> string" where
  "admissionThinking provider model = (case catalogModel ''luna'' of
     Some luna \<Rightarrow> if provider = cm_provider luna \<and> model = cm_model luna then ''max'' else ''high''
   | None \<Rightarrow> ''high'')"

definition modelDrainsMeter :: "string \<Rightarrow> string \<Rightarrow> string \<Rightarrow> bool" where
  "modelDrainsMeter provider model meterId = (case catalogMeter meterId of
     None \<Rightarrow> True
   | Some meter \<Rightarrow> if me_provider meter \<noteq> provider then True else (case catalog_named provider model of
        None \<Rightarrow> True
      | Some candidate \<Rightarrow>
          let class = (case cm_meter candidate of None \<Rightarrow> ''default'' | Some c \<Rightarrow> c) in
          list_ex (\<lambda>entry. starts_with entry (class @ '':'') \<or> starts_with entry ''default:'') (me_drained_by meter)))"

definition quotaScopeCovers :: "string \<Rightarrow> string \<Rightarrow> string \<Rightarrow> bool" where
  "quotaScopeCovers provider served refused =
     (if served = refused then True
      else if catalog_named provider served = None \<or> catalog_named provider refused = None then False
      else list_all (\<lambda>meter. \<not> modelDrainsMeter provider refused (me_id meter) \<or> modelDrainsMeter provider served (me_id meter))
             (filter (\<lambda>meter. me_provider meter = provider) catalog_meters))"

section \<open>The agent type of a model name\<close>

definition alnum :: "char \<Rightarrow> bool" where
  "alnum c = (c \<in> set ''abcdefghijklmnopqrstuvwxyz0123456789'')"

definition not_alnum :: rx where
  "not_alnum = Chars (filter (\<lambda>c. \<not> alnum c) (map char_of [0..<256::nat])) False"

definition name_rx :: "string \<Rightarrow> rx" where
  "name_rx name = Seq [Alt [Start, not_alnum], lit False (map lower name), Alt [Finish, not_alnum]]"

fun split_on :: "char \<Rightarrow> string \<Rightarrow> string list" where
  "split_on d [] = [[]]"
| "split_on d (c # s) = (if c = d then [] # split_on d s else case split_on d s of p # ps \<Rightarrow> (c # p) # ps | [] \<Rightarrow> [[c]])"

text \<open>\<open>replace(/[^a-z0-9]+/g, "-")\<close>: \<open>inside\<close> says the previous character was replaced too.\<close>

fun dashed :: "bool \<Rightarrow> string \<Rightarrow> string" where
  "dashed inside [] = []"
| "dashed inside (c # s) = (if alnum c then c # dashed False s else (if inside then [] else ''-'') @ dashed True s)"

definition upper :: "char \<Rightarrow> char" where
  "upper c = (let n = of_char c :: nat in if 97 \<le> n \<and> n \<le> 122 then char_of (n - 32) else c)"

definition or_unknown :: "string \<Rightarrow> string" where
  "or_unknown s = (if s = [] then ''unknown'' else s)"

definition catalogAgentType :: "string \<Rightarrow> string \<times> string" where
  "catalogAgentType raw =
     (let names = (\<lambda>m. [cm_model m, cm_provider m @ ''/'' @ cm_model m] @ cm_aliases m) in
      case find (\<lambda>m. list_ex (\<lambda>name. rx_test (name_rx name) (map lower raw)) (names m)) catalog_models of
        Some m \<Rightarrow> (cm_id m, cm_label m)
      | None \<Rightarrow> let bare = or_unknown (hd (split_on CHR '':'' (last (split_on CHR ''/'' raw)))) in
          (or_unknown (dashed False (map lower bare)), map upper bare))"

section \<open>What a success proves\<close>

lemma covers_meters:
  assumes "quotaScopeCovers provider served refused" "served \<noteq> refused" "m \<in> set catalog_meters" "me_provider m = provider"
    "modelDrainsMeter provider refused (me_id m)"
  shows "modelDrainsMeter provider served (me_id m)"
  using assms by (auto simp: quotaScopeCovers_def list_all_iff split: if_split_asm)

text \<open>the quota order is a preorder: what a success proves about another model it also proves about
  every model that one covers. It is strict where the catalog says so: a Fable success covers Opus, an Opus
  success does not cover Fable, and no known model is covered across unknown ones.\<close>

theorem quota_scope_preorder:
  "quotaScopeCovers p m m
   \<and> (quotaScopeCovers p a b \<longrightarrow> quotaScopeCovers p b c \<longrightarrow> quotaScopeCovers p a c)
   \<and> (quotaScopeCovers p a b \<longrightarrow> a \<noteq> b \<longrightarrow> (\<forall>meter \<in> set catalog_meters. me_provider meter = p
        \<longrightarrow> modelDrainsMeter p b (me_id meter) \<longrightarrow> modelDrainsMeter p a (me_id meter)))
   \<and> quotaScopeCovers ''anthropic'' ''claude-fable-5-1'' ''claude-opus-5-5''
   \<and> \<not> quotaScopeCovers ''anthropic'' ''claude-opus-5-5'' ''claude-fable-5-1''
   \<and> \<not> quotaScopeCovers ''anthropic'' ''claude-sonnet-5'' ''an image model''"
proof (intro conjI)
  show "quotaScopeCovers p m m" by (simp add: quotaScopeCovers_def)
  show "quotaScopeCovers p a b \<longrightarrow> quotaScopeCovers p b c \<longrightarrow> quotaScopeCovers p a c"
    by (auto simp: quotaScopeCovers_def list_all_iff split: if_split_asm)
  show "quotaScopeCovers p a b \<longrightarrow> a \<noteq> b \<longrightarrow> (\<forall>meter \<in> set catalog_meters. me_provider meter = p
        \<longrightarrow> modelDrainsMeter p b (me_id meter) \<longrightarrow> modelDrainsMeter p a (me_id meter))"
    using covers_meters by blast
qed code_simp+

lemma quota_scope_preorder_witness:
  "quotaScopeCovers ''anthropic'' ''claude-fable-5-1'' ''claude-sonnet-5''"
proof -
  have a: "quotaScopeCovers ''anthropic'' ''claude-fable-5-1'' ''claude-opus-5-5''"
    "quotaScopeCovers ''anthropic'' ''claude-opus-5-5'' ''claude-sonnet-5''" by code_simp+
  then show ?thesis
    using quota_scope_preorder[of "''anthropic''" _ "''claude-fable-5-1''" "''claude-opus-5-5''" "''claude-sonnet-5''"] by blast
qed

end
