(* ===== verification/Thread_Settings.thy ===== *)
theory Thread_Settings
  imports Contracts Catalog Json_Text
begin

text \<open>
  Model, thinking and speed settings of a thread (\<open>packages/orchestrator/src/threads/settings.ts\<close>,
  \<open>speed.ts\<close>, the mode settings of \<open>modes.ts\<close> and \<open>isSupportedModel\<close> of \<open>models.ts\<close>). The providers and models
  built into the agent package are the parameter \<open>native_set\<close>; overrides are unchecked JSON.
\<close>

section \<open>Vocabulary\<close>

definition thinking_levels :: "string list" where
  "thinking_levels = [''off'', ''minimal'', ''low'', ''medium'', ''high'', ''xhigh'', ''max'']"

definition speeds :: "string list" where
  "speeds = [''standard'', ''priority'', ''ultrafast'']"

definition isThinkingLevel :: "js \<Rightarrow> bool" where
  "isThinkingLevel v = list_ex (\<lambda>l. v = JStr l) thinking_levels"

definition isSpeed :: "js \<Rightarrow> bool" where
  "isSpeed v = list_ex (\<lambda>s. v = JStr s) speeds"

record native_set =
  nv_providers :: "string list"
  nv_models :: "(string \<times> string) list"

record thread_settings =
  ts_model :: string
  ts_thinking :: string
  ts_speed :: string

definition settings_js :: "thread_settings \<Rightarrow> js" where
  "settings_js s = mk_obj [(''model'', JStr (ts_model s)), (''thinkingLevel'', JStr (ts_thinking s)), (''speed'', JStr (ts_speed s))]"

text \<open>\<open>a ?? b\<close>.\<close>

definition coalesce :: "js \<Rightarrow> js \<Rightarrow> js" where
  "coalesce a b = (if a = JUndef \<or> a = JNull then b else a)"

section \<open>Providers and speeds\<close>

text \<open>\<open>replace(/-\d+$/, "")\<close>: the account number of a pooled provider.\<close>

definition strip_account :: "string \<Rightarrow> string" where
  "strip_account p = (case (takeWhile is_digit (rev p), dropWhile is_digit (rev p)) of
     (d # ds, c # rest) \<Rightarrow> if c = CHR ''-'' then rev rest else p | _ \<Rightarrow> p)"

definition fast_rx :: rx where
  "fast_rx = Seq [Alt [Start, Chars ''-_.'' False], alts True [''astra'', ''sol''], Alt [Chars ''-_.'' False, Finish]]"

definition modelSpeedModes :: "string \<Rightarrow> string \<Rightarrow> string list" where
  "modelSpeedModes provider model =
     (if strip_account provider \<noteq> ''openai-codex'' then []
      else if rx_test fast_rx model then speeds else [''standard'', ''priority''])"

definition requestedSpeedError :: "string \<Rightarrow> string \<Rightarrow> string \<Rightarrow> string option" where
  "requestedSpeedError provider model speed =
     (if \<not> isSpeed (JStr speed) then Some (''Invalid thread speed: '' @ speed)
      else if speed = ''standard'' \<or> speed \<in> set (modelSpeedModes provider model) then None
      else Some (if speed = ''ultrafast'' then ''Ultrafast speed requires OpenAI Codex Astra or Sol''
        else ''Priority speed is unavailable for '' @ provider @ ''/'' @ model))"

definition terra_rx :: rx where
  "terra_rx = Seq [Alt [Start, Chars ''-_./:'' False], lit True ''terra'', Alt [Finish, Chars ''-_./:'' False]]"

definition isSupportedModel :: "string \<Rightarrow> bool" where
  "isSupportedModel model = (\<not> rx_test terra_rx model)"

text \<open>\<open>/^[\w.-]+\/[^\s]+$/\<close>: a provider, a slash, and a rest without white space.\<close>

fun physical_name :: "string \<Rightarrow> bool" where
  "physical_name s = (let provider = takeWhile (\<lambda>c. c \<noteq> CHR ''/'') s; rest = dropWhile (\<lambda>c. c \<noteq> CHR ''/'') s in
     provider \<noteq> [] \<and> list_all (\<lambda>c. word_char c \<or> c = CHR ''.'' \<or> c = CHR ''-'') provider
     \<and> length rest \<ge> 2 \<and> list_all (\<lambda>c. \<not> js_space c) (tl rest))"

section \<open>Resolving settings\<close>

definition settings_fields :: "string list" where
  "settings_fields = [''model'', ''thinkingLevel'', ''speed'']"

definition installed :: "native_set \<Rightarrow> string \<Rightarrow> string \<Rightarrow> bool" where
  "installed nv provider model = ((provider, model) \<in> set (nv_models nv))"

text \<open>The provider before the first slash, the physical model after it (none without a slash).\<close>

definition requested_provider :: "string \<Rightarrow> string" where
  "requested_provider requested = strip_account
     (if CHR ''/'' \<in> set requested then takeWhile (\<lambda>c. c \<noteq> CHR ''/'') requested else butlast requested)"

definition requested_physical :: "string \<Rightarrow> string option" where
  "requested_physical requested =
     (if CHR ''/'' \<in> set requested then Some (tl (dropWhile (\<lambda>c. c \<noteq> CHR ''/'') requested)) else None)"

definition lookup_name :: "string \<Rightarrow> string" where
  "lookup_name requested = (if CHR ''/'' \<in> set requested then requested
     else case catalogModel (map lower requested) of Some m \<Rightarrow> cm_id m | None \<Rightarrow> requested)"

definition catalog_match :: "string \<Rightarrow> catalog_model option" where
  "catalog_match requested = find (\<lambda>m. cm_id m = lookup_name requested \<or> cm_model m = lookup_name requested
     \<or> (requested_physical requested = Some (cm_model m) \<and> requested_provider requested = cm_provider m)) catalog_models"

definition full_name :: "catalog_model \<Rightarrow> string" where
  "full_name m = cm_provider m @ ''/'' @ cm_model m"

definition canonical_name :: "string \<Rightarrow> string" where
  "canonical_name requested = (case catalog_match requested of Some m \<Rightarrow> full_name m | None \<Rightarrow> requested)"

definition family_of :: "string \<Rightarrow> string" where
  "family_of requested = (case catalog_match requested of Some m \<Rightarrow> cm_provider m | None \<Rightarrow> requested_provider requested)"

definition model_of :: "string \<Rightarrow> string option" where
  "model_of requested = (case catalog_match requested of Some m \<Rightarrow> Some (cm_model m) | None \<Rightarrow> requested_physical requested)"

definition known_model :: "native_set \<Rightarrow> string \<Rightarrow> bool" where
  "known_model nv requested = (isSupportedModel (lookup_name requested)
     \<and> (catalog_match requested \<noteq> None \<or> physical_name requested)
     \<and> (family_of requested \<in> set (nv_providers nv) \<longrightarrow>
          (case model_of requested of None \<Rightarrow> False | Some m \<Rightarrow> installed nv (family_of requested) m)))"

definition join_with :: "string \<Rightarrow> string list \<Rightarrow> string" where
  "join_with sep xs = (case xs of [] \<Rightarrow> [] | y # ys \<Rightarrow> y @ concat (map (\<lambda>x. sep @ x) ys))"

definition unknown_model :: "native_set \<Rightarrow> string \<Rightarrow> string" where
  "unknown_model nv requested = ''Unknown model '' @ requested @ ''; use an installed model or catalog name (''
     @ join_with '', '' (map cm_id (filter (\<lambda>m. installed nv (cm_provider m) (cm_model m)) catalog_models)) @ '')''"

definition default_thinking :: "string \<Rightarrow> string" where
  "default_thinking requested = (case catalog_match requested of
     Some m \<Rightarrow> if cm_id m = ''luna'' then ''max'' else ''high'' | None \<Rightarrow> ''high'')"

definition setting_of :: "(thread_settings \<Rightarrow> string) \<Rightarrow> thread_settings option \<Rightarrow> js" where
  "setting_of f current = (case current of None \<Rightarrow> JUndef | Some c \<Rightarrow> JStr (f c))"

text \<open>The last checks and the result, for the chosen thinking level and speed.\<close>

definition settle_settings :: "string \<Rightarrow> js \<Rightarrow> js \<Rightarrow> thread_settings result" where
  "settle_settings requested thinking speed =
     (if \<not> isThinkingLevel thinking \<or> \<not> isSpeed speed then invalid ''Invalid thinking level or provider speed''
      else case requestedSpeedError (family_of requested) (case model_of requested of None \<Rightarrow> [] | Some m \<Rightarrow> m) (str_of speed) of
        Some err \<Rightarrow> invalid err
      | None \<Rightarrow> Inr \<lparr>ts_model = canonical_name requested, ts_thinking = str_of thinking, ts_speed = str_of speed\<rparr>)"

definition resolveThreadSettings :: "native_set \<Rightarrow> js \<Rightarrow> thread_settings option \<Rightarrow> thread_settings result" where
  "resolveThreadSettings nv given current =
     (let input = (if given = JUndef then JObj [] else given) in
      if \<not> is_object input \<or> \<not> keys_within input settings_fields then invalid ''Expected model, thinkingLevel and speed overrides''
      else let req = coalesce (js_get input ''model'') (coalesce (setting_of ts_model current) (JStr ''astra'')) in
      if \<not> is_string req then invalid ''Model must be a catalog name or provider/model''
      else let requested = str_of req in
      if \<not> known_model nv requested then invalid (unknown_model nv requested)
      else let changed = (js_get input ''model'' \<noteq> JUndef \<and> Some (canonical_name requested) \<noteq> map_option ts_model current);
               thinking = coalesce (js_get input ''thinkingLevel'')
                 (coalesce (if changed then JUndef else setting_of ts_thinking current) (JStr (default_thinking requested)));
               speed = coalesce (js_get input ''speed'')
                 (coalesce (if changed then JUndef else setting_of ts_speed current) (JStr ''standard'')) in
      settle_settings requested thinking speed)"

definition validateThreadSettings :: "native_set \<Rightarrow> js \<Rightarrow> thread_settings result" where
  "validateThreadSettings nv input =
     (if \<not> is_object input \<or> \<not> keys_within input settings_fields \<or> \<not> nonblank (js_get input ''model'')
         \<or> \<not> isThinkingLevel (js_get input ''thinkingLevel'') \<or> \<not> isSpeed (js_get input ''speed'')
      then invalid ''Complete thread settings require model, thinkingLevel and speed''
      else resolveThreadSettings nv (mk_obj [(''model'', js_get input ''model''),
        (''thinkingLevel'', js_get input ''thinkingLevel''), (''speed'', js_get input ''speed'')]) None)"

section \<open>Modes\<close>

record thread_mode =
  tm_admission :: string
  tm_conversation :: thread_settings
  tm_tools :: "string list"
  tm_bash_timeout :: int
  tm_worker :: thread_settings

definition live_mode :: thread_mode where
  "live_mode = \<lparr>tm_admission = ''live'',
     tm_conversation = \<lparr>ts_model = ''sol'', ts_thinking = ''low'', ts_speed = ''priority''\<rparr>,
     tm_tools = [''bash'', ''read'', ''thread_spawn'', ''thread_send'', ''thread_list'', ''thread_read'', ''thread_control'',
       ''thread_wait'', ''thread_wake'', ''thread_attention'', ''meet_room'', ''meet_voice'', ''meet_share_screen'',
       ''meet_stop_sharing'', ''message_react'', ''watch_list'', ''watch_list_add'', ''watch_list_update'', ''watch_list_remove''],
     tm_bash_timeout = 10,
     tm_worker = \<lparr>ts_model = ''luna'', ts_thinking = ''medium'', ts_speed = ''priority''\<rparr>\<rparr>"

definition threadMode :: "js \<Rightarrow> thread_mode option" where
  "threadMode v = (if v = JStr ''live'' then Some live_mode else None)"

definition conversationModeSpeed :: "thread_mode \<Rightarrow> thread_settings \<Rightarrow> string option" where
  "conversationModeSpeed mode settings =
     (let speed = ts_speed (tm_conversation mode); parts = split_on CHR ''/'' (ts_model settings) in
      if ts_speed settings \<noteq> speed
         \<and> requestedSpeedError (hd parts) (case tl parts of [] \<Rightarrow> [] | p # _ \<Rightarrow> p) speed = None
      then Some speed else None)"

text \<open>\<open>{ ...input, k: v }\<close>.\<close>

definition with_field :: "string \<Rightarrow> js \<Rightarrow> js \<Rightarrow> js" where
  "with_field k v input = JObj (oput k v (fields_of input))"

definition resolveModeSettings :: "native_set \<Rightarrow> js \<Rightarrow> thread_settings \<Rightarrow> thread_settings result" where
  "resolveModeSettings nv given declared =
     (let input = (if given = JUndef then JObj [] else given) in
      if \<not> is_object input then resolveThreadSettings nv input None
      else resolveThreadSettings nv
        (with_field ''speed'' (coalesce (js_get input ''speed'') (JStr (ts_speed declared)))
         (with_field ''thinkingLevel'' (coalesce (js_get input ''thinkingLevel'') (JStr (ts_thinking declared)))
         (with_field ''model'' (coalesce (js_get input ''model'') (JStr (ts_model declared))) input))) None)"

text \<open>The parent is given by the mode in its metadata.\<close>

definition resolveSpawnSettings :: "native_set \<Rightarrow> js \<Rightarrow> js option \<Rightarrow> js \<Rightarrow> string option \<Rightarrow> thread_settings result" where
  "resolveSpawnSettings nv given parent requestedMode defaultModel =
     (let mode = threadMode (case parent of Some m \<Rightarrow> m | None \<Rightarrow> requestedMode);
          input = (case (mode, defaultModel) of
            (None, Some d) \<Rightarrow> if given = JUndef \<or> is_object given
              then with_field ''model'' (coalesce (js_get given ''model'') (JStr d)) given else given
          | _ \<Rightarrow> given) in
      case (parent, mode) of
        (None, Some m) \<Rightarrow> resolveModeSettings nv input (tm_conversation m)
      | (None, None) \<Rightarrow> resolveThreadSettings nv input None
      | (Some _, Some m) \<Rightarrow> resolveModeSettings nv input (tm_worker m)
      | (Some _, None) \<Rightarrow> resolveThreadSettings nv input
          (Some \<lparr>ts_model = ''sol'', ts_thinking = ''high'', ts_speed = ''standard''\<rparr>))"

section \<open>Resolved settings are a fixed point\<close>

lemma catalog_names:
  "list_all (\<lambda>m. catalog_match (full_name m) = Some m \<and> isSupportedModel (lookup_name (full_name m)) \<and> js_trim (full_name m) \<noteq> [])
     catalog_models"
  by code_simp

lemma catalog_match_in: "catalog_match requested = Some m \<Longrightarrow> m \<in> set catalog_models"
  unfolding catalog_match_def by (auto simp: find_Some_iff)

lemma js_trim_nonspace: "c \<in> set s \<Longrightarrow> \<not> js_space c \<Longrightarrow> js_trim s \<noteq> []"
  by (auto simp: js_trim_Nil blank_def list_all_iff)

lemma physical_nonblank:
  assumes "physical_name s"
  shows "js_trim s \<noteq> []"
proof -
  have "CHR ''/'' \<in> set s"
  proof (rule ccontr)
    assume "CHR ''/'' \<notin> set s"
    then have d: "dropWhile (\<lambda>c. c \<noteq> CHR ''/'') s = []" by (simp add: dropWhile_eq_Nil_conv) blast
    have "2 \<le> length (dropWhile (\<lambda>c. c \<noteq> CHR ''/'') s)" using assms by (simp add: Let_def)
    then show False unfolding d by simp
  qed
  then show ?thesis by (rule js_trim_nonspace) (simp add: js_space_def)
qed

text \<open>The canonical name stands for the same model as the requested one.\<close>

lemma canonical_same:
  assumes "known_model nv requested"
  shows "known_model nv (canonical_name requested) \<and> canonical_name (canonical_name requested) = canonical_name requested
    \<and> family_of (canonical_name requested) = family_of requested \<and> model_of (canonical_name requested) = model_of requested
    \<and> js_trim (canonical_name requested) \<noteq> []"
proof (cases "catalog_match requested")
  case None
  then have "canonical_name requested = requested" by (simp add: canonical_name_def)
  moreover have "physical_name requested" using assms None by (simp add: known_model_def del: physical_name.simps)
  ultimately show ?thesis using assms physical_nonblank by simp
next
  case (Some m)
  then have c: "canonical_name requested = full_name m" by (simp add: canonical_name_def)
  have m: "catalog_match (full_name m) = Some m" "isSupportedModel (lookup_name (full_name m))" "js_trim (full_name m) \<noteq> []"
    using catalog_names catalog_match_in[OF Some] by (simp_all add: list_all_iff)
  have fam: "family_of (full_name m) = family_of requested" "model_of (full_name m) = model_of requested"
    using m(1) Some by (simp_all add: family_of_def model_of_def)
  have "canonical_name (full_name m) = full_name m" using m(1) by (simp add: canonical_name_def)
  moreover have "known_model nv (full_name m)" using assms m unfolding known_model_def fam by (simp del: physical_name.simps)
  ultimately show ?thesis using m fam unfolding c by blast
qed

lemma level_string: "isThinkingLevel v \<Longrightarrow> v = JStr (str_of v)" "isSpeed v \<Longrightarrow> v = JStr (str_of v)"
  by (auto simp: isThinkingLevel_def isSpeed_def list_ex_iff)

lemma coalesce_JStr [simp]: "coalesce (JStr s) b = JStr s"
  by (simp add: coalesce_def)

text \<open>The outcome of an accepted resolution.\<close>

lemma resolve_settles:
  assumes "resolveThreadSettings nv v current = Inr s"
  shows "\<exists>requested thinking speed. known_model nv requested \<and> settle_settings requested thinking speed = Inr s"
  using assms unfolding resolveThreadSettings_def Let_def
  by (simp split: if_split_asm) blast+

lemma settle_parts:
  assumes "settle_settings requested thinking speed = Inr s"
  shows "ts_model s = canonical_name requested \<and> thinking = JStr (ts_thinking s) \<and> speed = JStr (ts_speed s)
    \<and> isThinkingLevel thinking \<and> isSpeed speed"
  using assms unfolding settle_settings_def by (auto split: if_split_asm option.split_asm dest: level_string)

lemma mk_obj_defined [simp]: "mk_obj fs \<noteq> JUndef"
  by (simp add: mk_obj_def)

lemma settings_keys: "keys_within (mk_obj [(''model'', a), (''thinkingLevel'', b), (''speed'', c)]) settings_fields"
  by (simp add: js_keys_within_mk settings_fields_def)

text \<open>Whatever overrides and current settings a resolution accepts, its result is complete and stands on
  its own: the saved settings validate again, alone, to exactly themselves, whichever account-numbered
  provider, catalog name or letter case the request used.\<close>

theorem resolved_settings_stable:
  assumes "resolveThreadSettings nv v current = Inr s"
  shows "validateThreadSettings nv (settings_js s) = Inr s"
proof -
  obtain requested thinking speed where r: "known_model nv requested" "settle_settings requested thinking speed = Inr s"
    using resolve_settles[OF assms] by blast
  have p: "ts_model s = canonical_name requested" "thinking = JStr (ts_thinking s)" "speed = JStr (ts_speed s)"
    "isThinkingLevel (JStr (ts_thinking s))" "isSpeed (JStr (ts_speed s))"
    using settle_parts[OF r(2)] by metis+
  note c = canonical_same[OF r(1)]
  have fam: "family_of (canonical_name requested) = family_of requested" "model_of (canonical_name requested) = model_of requested"
    "canonical_name (canonical_name requested) = canonical_name requested" "known_model nv (canonical_name requested)"
    using c by blast+
  have "settle_settings (canonical_name requested) thinking speed = Inr s"
    using r(2) unfolding settle_settings_def fam .
  then have "resolveThreadSettings nv (settings_js s) None = Inr s"
    using p fam(4) unfolding resolveThreadSettings_def settings_js_def Let_def by (simp add: settings_keys)
  then show ?thesis using p c by (simp add: validateThreadSettings_def settings_js_def settings_keys)
qed

definition sample_native :: native_set where
  "sample_native = \<lparr>nv_providers = [''openai-codex''], nv_models = [(''openai-codex'', ''gpt-6-luna'')]\<rparr>"

definition sample_override :: js where
  "sample_override = mk_obj [(''model'', JStr ''openai-codex-11/gpt-6-luna''), (''speed'', JStr ''priority'')]"

definition sample_settings :: thread_settings where
  "sample_settings = \<lparr>ts_model = ''openai-codex/gpt-6-luna'', ts_thinking = ''max'', ts_speed = ''priority''\<rparr>"

lemma sample_resolved: "resolveThreadSettings sample_native sample_override None = Inr sample_settings"
  by code_simp

lemma resolved_settings_stable_witness:
  "validateThreadSettings sample_native (settings_js sample_settings) = Inr sample_settings"
  by (rule resolved_settings_stable[OF sample_resolved])

end
