(* ===== verification/Schedule.thy ===== *)
theory Schedule
  imports Thread_Settings "HOL-Library.Product_Lexorder"
begin

text \<open>
  Recurring schedules (\<open>packages/orchestrator/src/schedule.ts\<close>): the two tables, every operation of
  \<open>ScheduleService\<close> and its HTTP routes. \<open>exclusive\<close> runs one operation at a time, so an operation is
  a function of the tables. The thread service, the clock and the flag \<open>suspended\<close> (which may be raised while a
  call is awaited) are functions of an outer world that the calls thread through.
\<close>

section \<open>State\<close>

datatype schedule_state = Active | Paused
datatype occurrence_state = Pending | Accepted | Failed

record schedule_row =
  sr_id :: string
  sr_title :: string
  sr_prompt :: string
  sr_cwd :: string
  sr_interval :: int
  sr_next :: int
  sr_settings :: thread_settings
  sr_admission :: string
  sr_state :: schedule_state
  sr_created :: int
  sr_updated :: int
  sr_last_thread :: "string option"
  sr_last_at :: "int option"
  sr_last_error :: "string option"

record occurrence_row =
  oc_schedule :: string
  oc_at :: int
  oc_request :: string
  oc_thread :: string
  oc_state :: occurrence_state
  oc_error :: "string option"
  oc_created :: int
  oc_updated :: int

record schedule_db =
  sd_rows :: "schedule_row list"
  sd_occurrences :: "occurrence_row list"
  sd_closed :: bool

record schedule_error =
  se_code :: error_code
  se_message :: string

type_synonym 'a schedule_result = "schedule_error + 'a"

definition bad :: "error_code \<Rightarrow> string \<Rightarrow> 'a schedule_result" where
  "bad code message = Inl \<lparr>se_code = code, se_message = message\<rparr>"

record spawn_request =
  sp_request :: string
  sp_id :: string
  sp_title :: string
  sp_cwd :: string
  sp_message :: string
  sp_settings :: thread_settings
  sp_admission :: string
  sp_schedule :: string
  sp_at :: int

record thread_ref =
  tr_id :: string
  tr_summary :: thread_summary

text \<open>The thread service, the clock and the suspension flag, over the outer world; \<open>Date.toISOString\<close>.\<close>

record 'w thread_world =
  tw_spawn :: "spawn_request \<Rightarrow> 'w \<Rightarrow> string result \<times> 'w"
  tw_list :: "string \<Rightarrow> 'w \<Rightarrow> thread_ref list result \<times> 'w"
  tw_questions :: "string \<Rightarrow> 'w \<Rightarrow> string list result \<times> 'w"
  tw_now :: "'w \<Rightarrow> int"
  tw_suspended :: "'w \<Rightarrow> bool"
  tw_iso :: "int \<Rightarrow> string"

section \<open>Reading\<close>

record occurrence_view =
  ov_at :: int
  ov_state :: occurrence_state
  ov_thread :: string
  ov_error :: "string option"

record schedule_view =
  sv_row :: schedule_row
  sv_occurrence :: "occurrence_view option"

definition present :: "string option \<Rightarrow> string option" where
  "present v = (case v of Some s \<Rightarrow> if s = [] then None else Some s | None \<Rightarrow> None)"

definition occurrence_of :: "occurrence_row \<Rightarrow> occurrence_view" where
  "occurrence_of occ = \<lparr>ov_at = oc_at occ, ov_state = oc_state occ, ov_thread = oc_thread occ, ov_error = present (oc_error occ)\<rparr>"

definition schedule_find :: "string \<Rightarrow> schedule_db \<Rightarrow> schedule_row option" where
  "schedule_find key db = find (\<lambda>r. sr_id r = key) (sd_rows db)"

definition first_of :: "'a list \<Rightarrow> 'a option" where
  "first_of xs = (case xs of [] \<Rightarrow> None | x # _ \<Rightarrow> Some x)"

definition last_occurrence :: "string \<Rightarrow> schedule_db \<Rightarrow> occurrence_row option" where
  "last_occurrence key db = first_of (sort_key (\<lambda>occ. - oc_at occ) (filter (\<lambda>occ. oc_schedule occ = key) (sd_occurrences db)))"

definition pending_occurrence :: "string \<Rightarrow> schedule_db \<Rightarrow> occurrence_row option" where
  "pending_occurrence key db = first_of (sort_key oc_at (filter (\<lambda>occ. oc_schedule occ = key \<and> oc_state occ = Pending) (sd_occurrences db)))"

definition schedule_project :: "schedule_db \<Rightarrow> schedule_row \<Rightarrow> schedule_view" where
  "schedule_project db r = \<lparr>sv_row = r\<lparr>sr_last_thread := present (sr_last_thread r), sr_last_error := present (sr_last_error r)\<rparr>,
     sv_occurrence = map_option occurrence_of (last_occurrence (sr_id r) db)\<rparr>"

definition closed_message :: string where
  "closed_message = ''Schedule service is closed''"

definition schedule_list :: "schedule_db \<Rightarrow> schedule_view list schedule_result" where
  "schedule_list db = (if sd_closed db then bad Unavailable closed_message
     else Inr (map (schedule_project db) (sort_key (\<lambda>r. (sr_created r, sr_id r)) (sd_rows db))))"

definition schedule_get :: "string \<Rightarrow> schedule_db \<Rightarrow> schedule_view schedule_result" where
  "schedule_get key db = (if sd_closed db then bad Unavailable closed_message
     else case schedule_find key db of Some r \<Rightarrow> Inr (schedule_project db r)
     | None \<Rightarrow> bad Not_found (''Schedule '' @ key @ '' was not found''))"

section \<open>Creating and changing\<close>

definition min_interval :: int where "min_interval = 1000"
definition max_interval :: int where "max_interval = 366 * 24 * 60 * 60000"

definition filename_safe :: "string \<Rightarrow> bool" where
  "filename_safe s = (s \<noteq> [] \<and> (word_char (hd s) \<and> hd s \<noteq> CHR ''_'')
     \<and> list_all (\<lambda>c. word_char c \<or> c = CHR ''.'' \<or> c = CHR ''-'') (tl s))"

definition is_absolute :: "string \<Rightarrow> bool" where
  "is_absolute p = starts_with p ''/''"

definition schedule_fields :: "string list" where
  "schedule_fields = [''id'', ''title'', ''prompt'', ''cwd'', ''intervalMs'', ''startAt'', ''settings'', ''admission'']"

definition schedule_validate :: "native_set \<Rightarrow> string option \<Rightarrow> js \<Rightarrow> thread_settings schedule_result" where
  "schedule_validate nv spawnDefault input =
     (let given = js_get input ''id''; title = js_get input ''title''; cwd = js_get input ''cwd'';
          interval = js_get input ''intervalMs''; start = js_get input ''startAt''; admission = js_get input ''admission'' in
      if \<not> is_object input \<or> \<not> keys_within input schedule_fields
      then bad Invalid_request ''Expected schedule id, title, prompt, cwd, intervalMs, startAt, settings, and admission fields''
      else if given \<noteq> JUndef \<and> (\<not> is_string given \<or> length (str_of given) > 100 \<or> \<not> filename_safe (str_of given))
      then bad Invalid_request ''Schedule ID must be at most 100 filename-safe characters''
      else if title \<noteq> JUndef \<and> \<not> nonblank title then bad Invalid_request ''Schedule title must be nonempty''
      else if \<not> nonblank (js_get input ''prompt'') then bad Invalid_request ''Schedule prompt must be nonempty''
      else if \<not> is_string cwd \<or> \<not> is_absolute (str_of cwd) then bad Invalid_request ''Schedule cwd must be an absolute path''
      else if \<not> safe_from interval min_interval \<or> int_of interval > max_interval
      then bad Invalid_request ''Schedule intervalMs must be 1000..31622400000''
      else if start \<noteq> JUndef \<and> \<not> safe_from start 0 then bad Invalid_request ''Schedule startAt must be a Unix timestamp in milliseconds''
      else if admission \<noteq> JUndef \<and> admission \<noteq> JStr ''force'' \<and> admission \<noteq> JStr ''background''
      then bad Invalid_request ''Schedule admission must be force or background''
      else let settings = js_get input ''settings'' in
        case resolveSpawnSettings nv settings None JUndef
            (if js_get settings ''model'' = JUndef \<or> js_get settings ''model'' = JNull then spawnDefault else None) of
          Inl err \<Rightarrow> bad Invalid_request (te_message err)
        | Inr s \<Rightarrow> Inr s)"

text \<open>The row an accepted request inserts.\<close>

definition new_schedule :: "string \<Rightarrow> int \<Rightarrow> js \<Rightarrow> thread_settings \<Rightarrow> schedule_row" where
  "new_schedule key now input settings =
     (let title = js_trim (str_of (js_get input ''title'')); interval = int_of (js_get input ''intervalMs'');
          start = js_get input ''startAt''; admission = js_get input ''admission'' in
      \<lparr>sr_id = key, sr_title = (if title \<noteq> [] then title else ''Schedule '' @ take 8 key),
       sr_prompt = str_of (js_get input ''prompt''), sr_cwd = str_of (js_get input ''cwd''), sr_interval = interval,
       sr_next = (if start = JUndef then now + interval else int_of start), sr_settings = settings,
       sr_admission = (if admission = JUndef then ''force'' else str_of admission), sr_state = Active,
       sr_created = now, sr_updated = now, sr_last_thread = None, sr_last_at = None, sr_last_error = None\<rparr>)"

definition suspended_error :: "'a schedule_result" where
  "suspended_error = bad Unavailable ''Schedule controller is suspended''"

text \<open>
  A call on a closed service throws; the exception is the error \<open>closed_message\<close>, which the HTTP
  surface answers as unavailable.
\<close>

definition exclusive :: "(schedule_db \<Rightarrow> 'a schedule_result \<times> schedule_db) \<Rightarrow> schedule_db \<Rightarrow> 'a schedule_result \<times> schedule_db" where
  "exclusive operation db = (if sd_closed db then (bad Unavailable closed_message, db) else operation db)"

definition schedule_create :: "native_set \<Rightarrow> string option \<Rightarrow> 'w thread_world \<Rightarrow> string \<Rightarrow> js \<Rightarrow> 'w \<Rightarrow> schedule_db
    \<Rightarrow> schedule_view schedule_result \<times> schedule_db" where
  "schedule_create nv spawnDefault api uuid input w = exclusive (\<lambda>db.
     if tw_suspended api w then (suspended_error, db)
     else case schedule_validate nv spawnDefault input of
       Inl err \<Rightarrow> (Inl err, db)
     | Inr settings \<Rightarrow>
         let key = (if js_get input ''id'' = JUndef then uuid else str_of (js_get input ''id'')) in
         if schedule_find key db \<noteq> None then (bad Conflict (''Schedule '' @ key @ '' already exists''), db)
         else let r = new_schedule key (tw_now api w) input settings; db' = db\<lparr>sd_rows := sd_rows db @ [r]\<rparr>
              in (Inr (schedule_project db' r), db'))"

definition update_schedule :: "string \<Rightarrow> (schedule_row \<Rightarrow> schedule_row) \<Rightarrow> schedule_db \<Rightarrow> schedule_db" where
  "update_schedule key f db = db\<lparr>sd_rows := map (\<lambda>r. if sr_id r = key then f r else r) (sd_rows db)\<rparr>"

definition update_occurrence :: "string \<Rightarrow> int \<Rightarrow> (occurrence_row \<Rightarrow> occurrence_row) \<Rightarrow> schedule_db \<Rightarrow> schedule_db" where
  "update_occurrence key at f db =
     db\<lparr>sd_occurrences := map (\<lambda>occ. if oc_schedule occ = key \<and> oc_at occ = at then f occ else occ) (sd_occurrences db)\<rparr>"

definition schedule_setState :: "'w thread_world \<Rightarrow> string \<Rightarrow> schedule_state \<Rightarrow> 'w \<Rightarrow> schedule_db
    \<Rightarrow> schedule_view schedule_result \<times> schedule_db" where
  "schedule_setState api key st w = exclusive (\<lambda>db.
     if tw_suspended api w then (suspended_error, db)
     else case schedule_find key db of
       None \<Rightarrow> (bad Not_found (''Schedule '' @ key @ '' was not found''), db)
     | Some r \<Rightarrow>
         let f = (\<lambda>r. r\<lparr>sr_state := st, sr_updated := tw_now api w,
               sr_last_error := (if st = Active then None else sr_last_error r)\<rparr>);
             db' = update_schedule key f db
         in (Inr (schedule_project db' (f r)), db'))"

text \<open>Deleting a schedule deletes its occurrences (\<open>ON DELETE CASCADE\<close>).\<close>

definition schedule_remove :: "'w thread_world \<Rightarrow> string \<Rightarrow> 'w \<Rightarrow> schedule_db \<Rightarrow> string schedule_result \<times> schedule_db" where
  "schedule_remove api key w = exclusive (\<lambda>db.
     if tw_suspended api w then (suspended_error, db)
     else if schedule_find key db = None then (bad Not_found (''Schedule '' @ key @ '' was not found''), db)
     else (Inr key, db\<lparr>sd_rows := filter (\<lambda>r. sr_id r \<noteq> key) (sd_rows db),
             sd_occurrences := filter (\<lambda>occ. oc_schedule occ \<noteq> key) (sd_occurrences db)\<rparr>))"

definition schedule_close :: "schedule_db \<Rightarrow> schedule_db" where
  "schedule_close db = db\<lparr>sd_closed := True\<rparr>"

section \<open>Dispatching occurrences\<close>

definition previousFinished :: "'w thread_world \<Rightarrow> schedule_row \<Rightarrow> 'w \<Rightarrow> bool \<times> 'w" where
  "previousFinished api r w = (case present (sr_last_thread r) of
     None \<Rightarrow> (True, w)
   | Some thread \<Rightarrow> (case tw_list api thread w of
        (Inl _, w) \<Rightarrow> (False, w)
      | (Inr [], w) \<Rightarrow> (True, w)
      | (Inr (t # _), w) \<Rightarrow>
          if threadHasOutstandingWork (tr_summary t) then (False, w)
          else (case tw_questions api (tr_id t) w of
             (Inl _, w) \<Rightarrow> (False, w)
           | (Inr qs, w) \<Rightarrow> (qs = [], w))))"

definition spawn_of :: "'w thread_world \<Rightarrow> schedule_row \<Rightarrow> occurrence_row \<Rightarrow> spawn_request" where
  "spawn_of api r occ = \<lparr>sp_request = oc_request occ, sp_id = oc_thread occ, sp_title = sr_title r @ '' '' @ tw_iso api (oc_at occ),
     sp_cwd = sr_cwd r, sp_message = sr_prompt r, sp_settings = sr_settings r, sp_admission = sr_admission r,
     sp_schedule = sr_id r, sp_at = oc_at occ\<rparr>"

definition settle_dispatch :: "int \<Rightarrow> schedule_row \<Rightarrow> occurrence_row \<Rightarrow> string result \<Rightarrow> schedule_db \<Rightarrow> schedule_db" where
  "settle_dispatch now r occ res db = (case res of
     Inr thread \<Rightarrow>
       update_schedule (sr_id r) (\<lambda>s. s\<lparr>sr_last_thread := Some thread, sr_last_at := Some (oc_at occ), sr_last_error := None, sr_updated := now\<rparr>)
        (update_occurrence (sr_id r) (oc_at occ) (\<lambda>x. x\<lparr>oc_state := Accepted, oc_error := None, oc_updated := now\<rparr>) db)
   | Inl err \<Rightarrow>
       if te_code err = Unavailable \<or> te_retryable err then db
       else update_schedule (sr_id r) (\<lambda>s. s\<lparr>sr_state := Paused, sr_last_error := Some (te_message err), sr_updated := now\<rparr>)
        (update_occurrence (sr_id r) (oc_at occ) (\<lambda>x. x\<lparr>oc_state := Failed, oc_error := Some (te_message err), oc_updated := now\<rparr>) db))"

definition schedule_dispatch :: "'w thread_world \<Rightarrow> schedule_row \<Rightarrow> occurrence_row \<Rightarrow> schedule_db \<Rightarrow> 'w \<Rightarrow> schedule_db \<times> 'w" where
  "schedule_dispatch api r occ db w =
     (let (res, w) = tw_spawn api (spawn_of api r occ) w in
      if tw_suspended api w then (db, w) else (settle_dispatch (tw_now api w) r occ res db, w))"

definition occurrence_id :: "string \<Rightarrow> int \<Rightarrow> string" where
  "occurrence_id key at = ''schedule:'' @ key @ '':'' @ int_text at"

definition due_at :: "schedule_row \<Rightarrow> int \<Rightarrow> int" where
  "due_at r now = sr_next r + ((now - sr_next r) div sr_interval r) * sr_interval r"

definition new_occurrence :: "schedule_row \<Rightarrow> int \<Rightarrow> occurrence_row" where
  "new_occurrence r now = \<lparr>oc_schedule = sr_id r, oc_at = due_at r now, oc_request = occurrence_id (sr_id r) (due_at r now),
     oc_thread = occurrence_id (sr_id r) (due_at r now), oc_state = Pending, oc_error = None, oc_created = now, oc_updated = now\<rparr>"

text \<open>The keys of the occurrence table.\<close>

definition occurrence_clash :: "occurrence_row \<Rightarrow> schedule_db \<Rightarrow> bool" where
  "occurrence_clash occ db = list_ex (\<lambda>x. (oc_schedule x = oc_schedule occ \<and> oc_at x = oc_at occ) \<or> oc_request x = oc_request occ
     \<or> oc_thread x = oc_thread occ) (sd_occurrences db)"

text \<open>The transaction that records a due occurrence: rolled back when the schedule moved, or on a violated key.\<close>

datatype recorded = Recorded schedule_db | Moved | Violated

definition record_occurrence :: "schedule_row \<Rightarrow> int \<Rightarrow> schedule_db \<Rightarrow> recorded" where
  "record_occurrence r now db = (case schedule_find (sr_id r) db of
     None \<Rightarrow> Moved
   | Some latest \<Rightarrow>
       if sr_state latest \<noteq> Active \<or> sr_next latest \<noteq> sr_next r then Moved
       else if occurrence_clash (new_occurrence r now) db then Violated
       else Recorded (update_schedule (sr_id r) (\<lambda>s. s\<lparr>sr_next := due_at r now + sr_interval r, sr_updated := now\<rparr>)
             (db\<lparr>sd_occurrences := sd_occurrences db @ [new_occurrence r now]\<rparr>)))"

text \<open>One round of the loop of \<open>reconcile\<close>; the flag tells whether the loop goes on, the sum whether it threw.\<close>

definition reconcile_one :: "'w thread_world \<Rightarrow> string \<Rightarrow> schedule_db \<Rightarrow> 'w \<Rightarrow> bool schedule_result \<times> schedule_db \<times> 'w" where
  "reconcile_one api key db w = (case schedule_find key db of
     None \<Rightarrow> (Inr True, db, w)
   | Some r \<Rightarrow>
       if sr_state r \<noteq> Active then (Inr True, db, w)
       else (case pending_occurrence key db of
         Some occ \<Rightarrow> (let (db, w) = schedule_dispatch api r occ db w in (Inr True, db, w))
       | None \<Rightarrow>
           let (finished, w) = previousFinished api r w in
           if \<not> finished then (Inr True, db, w)
           else if tw_suspended api w then (Inr False, db, w)
           else if sr_next r > tw_now api w then (Inr True, db, w)
           else (case record_occurrence r (tw_now api w) db of
             Moved \<Rightarrow> (Inr True, db, w)
           | Violated \<Rightarrow> (bad Unavailable ''UNIQUE constraint failed'', db, w)
           | Recorded db' \<Rightarrow>
               let r' = the (schedule_find key db');
                   (db'', w) = schedule_dispatch api r' (new_occurrence r (tw_now api w)) db' w
               in (Inr True, db'', w))))"

fun reconcile_rows :: "'w thread_world \<Rightarrow> string list \<Rightarrow> schedule_db \<Rightarrow> 'w \<Rightarrow> unit schedule_result \<times> schedule_db \<times> 'w" where
  "reconcile_rows api [] db w = (Inr (), db, w)"
| "reconcile_rows api (key # keys) db w =
     (if tw_suspended api w then (Inr (), db, w)
      else case reconcile_one api key db w of
        (Inl err, db, w) \<Rightarrow> (Inl err, db, w)
      | (Inr go, db, w) \<Rightarrow> if go then reconcile_rows api keys db w else (Inr (), db, w))"

definition schedule_reconcile :: "'w thread_world \<Rightarrow> schedule_db \<Rightarrow> 'w \<Rightarrow> unit schedule_result \<times> schedule_db \<times> 'w" where
  "schedule_reconcile api db w =
     (if sd_closed db then (bad Unavailable closed_message, db, w)
      else if tw_suspended api w then (Inr (), db, w)
      else reconcile_rows api (map sr_id (sort_key (\<lambda>r. (sr_next r, sr_id r)) (filter (\<lambda>r. sr_state r = Active) (sd_rows db)))) db w)"

section \<open>The tables' invariant\<close>

definition pairs :: "schedule_db \<Rightarrow> (string \<times> int) list" where
  "pairs db = map (\<lambda>occ. (oc_schedule occ, oc_at occ)) (sd_occurrences db)"

definition named_ok :: "occurrence_row \<Rightarrow> bool" where
  "named_ok occ = (oc_request occ = occurrence_id (oc_schedule occ) (oc_at occ) \<and> oc_thread occ = occurrence_id (oc_schedule occ) (oc_at occ))"

definition row_sane :: "schedule_row \<Rightarrow> bool" where
  "row_sane r = (0 < sr_interval r \<and> CHR '':'' \<notin> set (sr_id r))"

definition past_of :: "schedule_db \<Rightarrow> occurrence_row \<Rightarrow> bool" where
  "past_of db occ = (\<exists>r \<in> set (sd_rows db). sr_id r = oc_schedule occ \<and> oc_at occ < sr_next r)"

definition one_pending :: "schedule_db \<Rightarrow> bool" where
  "one_pending db = (\<forall>occ \<in> set (sd_occurrences db). \<forall>x \<in> set (sd_occurrences db). oc_state occ = Pending \<longrightarrow> oc_state x = Pending
     \<longrightarrow> oc_schedule occ = oc_schedule x \<longrightarrow> oc_at occ = oc_at x)"

definition tables_ok :: "schedule_db \<Rightarrow> bool" where
  "tables_ok db = (distinct (map sr_id (sd_rows db)) \<and> (\<forall>r \<in> set (sd_rows db). row_sane r) \<and> distinct (pairs db)
     \<and> (\<forall>occ \<in> set (sd_occurrences db). named_ok occ \<and> past_of db occ) \<and> one_pending db)"

text \<open>A change of schedules that keeps identity and interval and never moves the next run back.\<close>

definition keeps_schedule :: "(schedule_row \<Rightarrow> schedule_row) \<Rightarrow> bool" where
  "keeps_schedule f = (\<forall>r. sr_id (f r) = sr_id r \<and> sr_interval (f r) = sr_interval r)"

lemma update_schedule_simps [simp]:
  "sd_occurrences (update_schedule key f db) = sd_occurrences db"
  "sd_closed (update_schedule key f db) = sd_closed db"
  "pairs (update_schedule key f db) = pairs db"
  by (simp_all add: update_schedule_def pairs_def)

lemma update_schedule_ids: "keeps_schedule f \<Longrightarrow> map sr_id (sd_rows (update_schedule key f db)) = map sr_id (sd_rows db)"
  by (simp add: update_schedule_def keeps_schedule_def)

lemma update_schedule_ok:
  assumes "tables_ok db" "keeps_schedule f" "\<And>r. r \<in> set (sd_rows db) \<Longrightarrow> sr_id r = key \<Longrightarrow> sr_next r \<le> sr_next (f r)"
  shows "tables_ok (update_schedule key f db)"
proof -
  have rows: "set (sd_rows (update_schedule key f db)) = (\<lambda>r. if sr_id r = key then f r else r) ` set (sd_rows db)"
    by (simp add: update_schedule_def)
  have past: "past_of (update_schedule key f db) occ" if p: "past_of db occ" for occ
  proof -
    obtain r where r: "r \<in> set (sd_rows db)" "sr_id r = oc_schedule occ" "oc_at occ < sr_next r" using p unfolding past_of_def by blast
    let ?g = "if sr_id r = key then f r else r"
    have "?g \<in> set (sd_rows (update_schedule key f db))" using r(1) unfolding rows by blast
    moreover have "sr_id ?g = oc_schedule occ" using r(2) assms(2) by (simp add: keeps_schedule_def)
    moreover have "oc_at occ < sr_next ?g" using r assms(3)[OF r(1)] by (simp split: if_split) linarith
    ultimately show ?thesis unfolding past_of_def by blast
  qed
  have "\<forall>r \<in> set (sd_rows (update_schedule key f db)). row_sane r"
    using assms(1,2) unfolding rows tables_ok_def row_sane_def keeps_schedule_def by auto
  then show ?thesis
    using assms(1) past update_schedule_ids[OF assms(2), of key db]
    unfolding tables_ok_def one_pending_def update_schedule_simps by metis
qed

definition keeps_occurrence :: "(occurrence_row \<Rightarrow> occurrence_row) \<Rightarrow> bool" where
  "keeps_occurrence f = (\<forall>occ. oc_schedule (f occ) = oc_schedule occ \<and> oc_at (f occ) = oc_at occ \<and> oc_request (f occ) = oc_request occ
     \<and> oc_thread (f occ) = oc_thread occ \<and> oc_state (f occ) \<noteq> Pending)"

lemma update_occurrence_simps [simp]:
  "sd_rows (update_occurrence key at f db) = sd_rows db"
  "sd_closed (update_occurrence key at f db) = sd_closed db"
  "past_of (update_occurrence key at f db) occ = past_of db occ"
  by (simp_all add: update_occurrence_def past_of_def)

lemma update_occurrence_pairs: "keeps_occurrence f \<Longrightarrow> pairs (update_occurrence key at f db) = pairs db"
  by (simp add: update_occurrence_def pairs_def keeps_occurrence_def)

lemma update_occurrence_ok:
  assumes "tables_ok db" "keeps_occurrence f"
  shows "tables_ok (update_occurrence key at f db)"
proof -
  have occs: "set (sd_occurrences (update_occurrence key at f db))
      = (\<lambda>occ. if oc_schedule occ = key \<and> oc_at occ = at then f occ else occ) ` set (sd_occurrences db)"
    by (simp add: update_occurrence_def)
  have n: "\<forall>occ \<in> set (sd_occurrences (update_occurrence key at f db)). named_ok occ \<and> past_of db occ"
    using assms unfolding occs tables_ok_def keeps_occurrence_def named_ok_def past_of_def by auto
  have old: "x \<in> set (sd_occurrences db)" if x: "x \<in> set (sd_occurrences (update_occurrence key at f db))" "oc_state x = Pending" for x
  proof -
    obtain y where y: "y \<in> set (sd_occurrences db)" "x = (if oc_schedule y = key \<and> oc_at y = at then f y else y)"
      using x(1) unfolding occs by blast
    then have "x = y" using x(2) assms(2) unfolding keeps_occurrence_def by metis
    then show ?thesis using y(1) by simp
  qed
  have "one_pending db" using assms(1) by (simp add: tables_ok_def)
  then have op: "one_pending (update_occurrence key at f db)"
    using old unfolding one_pending_def by blast
  show ?thesis
    using assms n op update_occurrence_pairs[OF assms(2)] unfolding tables_ok_def by simp
qed

lemma occurrence_id_eq:
  assumes "CHR '':'' \<notin> set k" "CHR '':'' \<notin> set k'" "occurrence_id k a = occurrence_id k' a'"
  shows "k = k' \<and> a = a'"
proof -
  have split: "takeWhile (\<lambda>c. c \<noteq> CHR '':'') (k @ CHR '':'' # t) = k" if "CHR '':'' \<notin> set k" for k t
    using that by (induction k) auto
  have e: "k @ CHR '':'' # int_text a = k' @ CHR '':'' # int_text a'" using assms(3) by (simp add: occurrence_id_def)
  have "k = k'" using arg_cong[OF e, of "takeWhile (\<lambda>c. c \<noteq> CHR '':'')"] split assms(1,2) by metis
  then show ?thesis using e int_text_eq by simp
qed

section \<open>Every operation keeps the tables sound\<close>

lemma find_sched: "schedule_find key db = Some r \<Longrightarrow> r \<in> set (sd_rows db) \<and> sr_id r = key"
  unfolding schedule_find_def by (auto simp: find_Some_iff)

lemma dispatch_ok:
  assumes "tables_ok db" "schedule_dispatch api r occ db w = (db', w')"
  shows "tables_ok db' \<and> pairs db' = pairs db"
proof -
  obtain res w1 where s: "tw_spawn api (spawn_of api r occ) w = (res, w1)" by (metis prod.collapse)
  have "db' = db \<or> db' = settle_dispatch (tw_now api w1) r occ res db"
    using assms(2) s by (auto simp: schedule_dispatch_def split: if_split_asm)
  moreover have "tables_ok (settle_dispatch now r occ res db) \<and> pairs (settle_dispatch now r occ res db) = pairs db" for now
  proof (cases res)
    case (Inl err)
    show ?thesis
    proof (cases "te_code err = Unavailable \<or> te_retryable err")
      case True
      then show ?thesis using assms(1) Inl by (auto simp: settle_dispatch_def)
    next
      case False
      have k: "keeps_occurrence (\<lambda>x. x\<lparr>oc_state := Failed, oc_error := Some (te_message err), oc_updated := now\<rparr>)"
        by (simp add: keeps_occurrence_def)
      have "tables_ok (settle_dispatch now r occ res db)"
        using False Inl unfolding settle_dispatch_def
        by (simp add: update_schedule_ok update_occurrence_ok[OF assms(1) k] keeps_schedule_def)
      then show ?thesis using False Inl by (simp add: settle_dispatch_def update_occurrence_pairs[OF k])
    qed
  next
    case (Inr thread)
    have k: "keeps_occurrence (\<lambda>x. x\<lparr>oc_state := Accepted, oc_error := None, oc_updated := now\<rparr>)"
      by (simp add: keeps_occurrence_def)
    show ?thesis using Inr unfolding settle_dispatch_def
      by (simp add: update_schedule_ok update_occurrence_ok[OF assms(1) k] keeps_schedule_def update_occurrence_pairs[OF k])
  qed
  ultimately show ?thesis using assms(1) by metis
qed

text \<open>The due time: the latest multiple of the interval that is not in the future.\<close>

lemma due_at_bounds:
  assumes "0 < sr_interval r" "sr_next r \<le> now"
  shows "sr_next r \<le> due_at r now" "due_at r now \<le> now" "now < due_at r now + sr_interval r"
    "(due_at r now - sr_next r) mod sr_interval r = 0"
proof -
  have e: "(now - sr_next r) div sr_interval r * sr_interval r = now - sr_next r - (now - sr_next r) mod sr_interval r"
    by (simp add: minus_mod_eq_div_mult)
  have m: "0 \<le> (now - sr_next r) mod sr_interval r" "(now - sr_next r) mod sr_interval r < sr_interval r"
    using assms(1) by simp_all
  have d: "0 \<le> (now - sr_next r) div sr_interval r" using assms by (simp add: pos_imp_zdiv_nonneg_iff)
  show "sr_next r \<le> due_at r now" using d assms(1) by (simp add: due_at_def)
  show "due_at r now \<le> now" "now < due_at r now + sr_interval r" using e m by (simp_all add: due_at_def)
  show "(due_at r now - sr_next r) mod sr_interval r = 0" by (simp add: due_at_def)
qed

lemma no_clash:
  assumes "tables_ok db" "r \<in> set (sd_rows db)" "sr_next r \<le> now"
  shows "\<not> occurrence_clash (new_occurrence r now) db"
proof
  assume "occurrence_clash (new_occurrence r now) db"
  then obtain x where x: "x \<in> set (sd_occurrences db)" and
    c: "(oc_schedule x = sr_id r \<and> oc_at x = due_at r now) \<or> oc_request x = occurrence_id (sr_id r) (due_at r now)
      \<or> oc_thread x = occurrence_id (sr_id r) (due_at r now)"
    unfolding occurrence_clash_def new_occurrence_def by (auto simp: list_ex_iff)
  obtain q where q: "q \<in> set (sd_rows db)" "sr_id q = oc_schedule x" "oc_at x < sr_next q" and n: "named_ok x"
    using assms(1) x unfolding tables_ok_def past_of_def by blast
  have "row_sane q" "row_sane r" using assms(1,2) q(1) unfolding tables_ok_def by blast+
  then have colon: "CHR '':'' \<notin> set (oc_schedule x)" "CHR '':'' \<notin> set (sr_id r)" "0 < sr_interval r"
    using q(2) unfolding row_sane_def by simp_all
  have "oc_schedule x = sr_id r \<and> oc_at x = due_at r now"
    using c n occurrence_id_eq[OF colon(1,2)] unfolding named_ok_def by metis
  moreover have "q = r" using assms(1,2) q calculation unfolding tables_ok_def by (metis distinct_map inj_onD)
  ultimately show False using q(3) due_at_bounds(1)[OF colon(3) assms(3)] by simp
qed

lemma find_unique: "distinct (map sr_id rows) \<Longrightarrow> r \<in> set rows \<Longrightarrow> find (\<lambda>q. sr_id q = sr_id r) rows = Some r"
  by (induction rows) auto

lemma record_ok:
  assumes "tables_ok db" "schedule_find key db = Some r" "sr_state r = Active" "pending_occurrence key db = None" "sr_next r \<le> now"
  obtains db' where "record_occurrence r now db = Recorded db'" "tables_ok db'"
    "pairs db' = pairs db @ [(sr_id r, due_at r now)]"
    "schedule_find key db' = Some (r\<lparr>sr_next := due_at r now + sr_interval r, sr_updated := now\<rparr>)"
    "new_occurrence r now \<in> set (sd_occurrences db')"
proof -
  have r: "r \<in> set (sd_rows db)" "sr_id r = key" using find_sched[OF assms(2)] by auto
  have pos: "0 < sr_interval r" using assms(1) r(1) unfolding tables_ok_def row_sane_def by blast
  note due = due_at_bounds[OF pos assms(5)]
  let ?f = "\<lambda>s. s\<lparr>sr_next := due_at r now + sr_interval r, sr_updated := now\<rparr>"
  let ?m = "db\<lparr>sd_occurrences := sd_occurrences db @ [new_occurrence r now]\<rparr>"
  let ?db = "update_schedule key ?f ?m"
  have keeps: "keeps_schedule ?f" by (simp add: keeps_schedule_def)
  have eq: "record_occurrence r now db = Recorded ?db"
    using assms(2,3) r no_clash[OF assms(1) r(1) assms(5)] by (simp add: record_occurrence_def)
  have prs: "pairs ?db = pairs db @ [(sr_id r, due_at r now)]" by (simp add: pairs_def new_occurrence_def)
  have f: "schedule_find key ?db = Some (?f r)"
  proof -
    have d: "distinct (map sr_id (sd_rows db))" using assms(1) by (simp add: tables_ok_def)
    have "?f r \<in> set (sd_rows ?db)" using r by (force simp: update_schedule_def)
    moreover have "distinct (map sr_id (sd_rows ?db))" using d update_schedule_ids[OF keeps, of key ?m] by simp
    ultimately show ?thesis using find_unique[of "sd_rows ?db" "?f r"] r(2) by (simp add: schedule_find_def)
  qed
  have sch: "oc_at x < sr_next (?f r)" if x: "x \<in> set (sd_occurrences ?m)" "oc_schedule x = key" for x
  proof (cases "x = new_occurrence r now")
    case True
    then show ?thesis using pos by (simp add: new_occurrence_def)
  next
    case False
    then have "x \<in> set (sd_occurrences db)" using x(1) by simp
    then obtain q where q: "q \<in> set (sd_rows db)" "sr_id q = key" "oc_at x < sr_next q"
      using assms(1) x(2) unfolding tables_ok_def past_of_def by metis
    have "q = r" using assms(1) q r unfolding tables_ok_def by (metis distinct_map inj_onD)
    then show ?thesis using q(3) due(1) pos by simp
  qed
  have past: "past_of ?db x" if x: "x \<in> set (sd_occurrences ?m)" for x
  proof (cases "oc_schedule x = key")
    case True
    have "sr_id (?f r) = oc_schedule x" using r(2) True by simp
    moreover have "oc_at x < sr_next (?f r)" by (rule sch[OF x True])
    moreover have "?f r \<in> set (sd_rows ?db)" by (rule find_sched[OF f, THEN conjunct1])
    ultimately show ?thesis unfolding past_of_def by (intro bexI[of _ "?f r"] conjI)
  next
    case False
    then have "x \<in> set (sd_occurrences db)" using x r(2) by (auto simp: new_occurrence_def)
    then obtain q where q: "q \<in> set (sd_rows db)" "sr_id q = oc_schedule x" "oc_at x < sr_next q"
      using assms(1) unfolding tables_ok_def past_of_def by blast
    have "q \<in> set (sd_rows ?db)" using q(1,2) False by (force simp: update_schedule_def)
    then show ?thesis using q unfolding past_of_def by blast
  qed
  have fresh: "(sr_id r, due_at r now) \<notin> set (pairs db)"
    using no_clash[OF assms(1) r(1) assms(5)] by (auto simp: occurrence_clash_def new_occurrence_def pairs_def list_ex_iff)
  have nop: "oc_state x \<noteq> Pending" if "x \<in> set (sd_occurrences db)" "oc_schedule x = key" for x
  proof -
    have "sort_key oc_at (filter (\<lambda>x. oc_schedule x = key \<and> oc_state x = Pending) (sd_occurrences db)) = []"
      using assms(4) by (simp add: pending_occurrence_def first_of_def split: list.split_asm)
    from arg_cong[OF this, of set] show ?thesis using that by auto
  qed
  have op: "one_pending ?db"
    unfolding one_pending_def update_schedule_simps
  proof (intro ballI impI)
    fix x y
    assume x: "x \<in> set (sd_occurrences ?m)" and y: "y \<in> set (sd_occurrences ?m)"
      and st: "oc_state x = Pending" "oc_state y = Pending" "oc_schedule x = oc_schedule y"
    have key: "oc_schedule (new_occurrence r now) = key" using r(2) by (simp add: new_occurrence_def)
    have "x \<in> set (sd_occurrences db) \<and> y \<in> set (sd_occurrences db) \<or> x = y"
    proof (cases "x \<in> set (sd_occurrences db)"; cases "y \<in> set (sd_occurrences db)")
      assume a: "x \<in> set (sd_occurrences db)" "y \<notin> set (sd_occurrences db)"
      then have "oc_schedule x = key" using y key st(3) by simp
      then show ?thesis using nop[OF a(1)] st(1) by simp
    next
      assume a: "x \<notin> set (sd_occurrences db)" "y \<in> set (sd_occurrences db)"
      then have "oc_schedule y = key" using x key st(3) by simp
      then show ?thesis using nop[OF a(2)] st(2) by simp
    next
      assume "x \<notin> set (sd_occurrences db)" "y \<notin> set (sd_occurrences db)"
      then show ?thesis using x y by simp
    qed simp
    moreover have "one_pending db" using assms(1) by (simp add: tables_ok_def)
    ultimately show "oc_at x = oc_at y" using st unfolding one_pending_def by blast
  qed
  have named: "\<forall>x \<in> set (sd_occurrences ?m). named_ok x"
    using assms(1) by (auto simp: tables_ok_def named_ok_def new_occurrence_def)
  have sane: "\<forall>q \<in> set (sd_rows ?db). row_sane q"
    using assms(1) by (auto simp: tables_ok_def row_sane_def update_schedule_def)
  have "tables_ok ?db"
    unfolding tables_ok_def using prs fresh op named past sane assms(1) update_schedule_ids[OF keeps, of key ?m]
    by (simp add: tables_ok_def)
  then show ?thesis using that eq prs f by simp
qed

lemma pending_in: "pending_occurrence key db = Some occ \<Longrightarrow> occ \<in> set (sd_occurrences db) \<and> oc_schedule occ = key"
proof -
  let ?xs = "sort_key oc_at (filter (\<lambda>x. oc_schedule x = key \<and> oc_state x = Pending) (sd_occurrences db))"
  assume "pending_occurrence key db = Some occ"
  then obtain ys where "?xs = occ # ys" by (auto simp: pending_occurrence_def first_of_def split: list.split_asm)
  then have "occ \<in> set ?xs" by (metis list.set_intros(1))
  then show ?thesis by simp
qed

text \<open>The outcomes of one round: nothing changes, a pending occurrence is sent again, or a due one is recorded and sent.\<close>

lemma reconcile_one_cases:
  assumes "tables_ok db" "reconcile_one api key db w = (res, db', w')"
  obtains (skip) "db' = db" "is_ok res" "w' = w \<or> (\<exists>r b. previousFinished api r w = (b, w'))"
  | (again) r occ where "schedule_find key db = Some r" "occ \<in> set (sd_occurrences db)" "oc_schedule occ = key" "is_ok res"
      "schedule_dispatch api r occ db w = (db', w')"
  | (due) r r' w1 db1 where "schedule_find key db = Some r" "sr_id r' = key" "is_ok res" "previousFinished api r w = (True, w1)"
      "tables_ok db1" "set (pairs db) \<subseteq> set (pairs db1)" "new_occurrence r (tw_now api w1) \<in> set (sd_occurrences db1)"
      "schedule_dispatch api r' (new_occurrence r (tw_now api w1)) db1 w1 = (db', w')"
proof (cases "schedule_find key db")
  case None
  then have "(Inr True, db, w) = (res, db', w')" using assms(2) by (simp add: reconcile_one_def)
  then show ?thesis by (intro skip) auto
next
  case (Some r)
  show ?thesis
  proof (cases "sr_state r = Active")
    case False
    then have "(Inr True, db, w) = (res, db', w')" using assms(2) Some by (simp add: reconcile_one_def)
    then show ?thesis by (intro skip) auto
  next
    case act: True
    show ?thesis
    proof (cases "pending_occurrence key db")
      case (Some occ)
      obtain d w1 where d: "schedule_dispatch api r occ db w = (d, w1)" by (metis prod.collapse)
      have "(Inr True, d, w1) = (res, db', w')"
        using assms(2) \<open>schedule_find key db = Some r\<close> act Some d by (simp add: reconcile_one_def)
      then have "is_ok res" "schedule_dispatch api r occ db w = (db', w')" using d by auto
      then show ?thesis using again[OF \<open>schedule_find key db = Some r\<close>] pending_in[OF Some] by blast
    next
      case None
      obtain b w1 where p: "previousFinished api r w = (b, w1)" by (metis prod.collapse)
      have eq: "reconcile_one api key db w = (if \<not> b then (Inr True, db, w1) else if tw_suspended api w1 then (Inr False, db, w1)
           else if sr_next r > tw_now api w1 then (Inr True, db, w1)
           else (case record_occurrence r (tw_now api w1) db of
             Moved \<Rightarrow> (Inr True, db, w1)
           | Violated \<Rightarrow> (bad Unavailable ''UNIQUE constraint failed'', db, w1)
           | Recorded db' \<Rightarrow>
               let r' = the (schedule_find key db');
                   (db'', w) = schedule_dispatch api r' (new_occurrence r (tw_now api w1)) db' w1
               in (Inr True, db'', w)))"
        using Some act None by (simp add: reconcile_one_def p)
      show ?thesis
      proof (cases "b \<and> \<not> tw_suspended api w1 \<and> sr_next r \<le> tw_now api w1")
        case False
        then have "is_ok res \<and> db' = db \<and> w' = w1" using assms(2) eq by (auto split: if_split_asm)
        then show ?thesis using skip p by blast
      next
        case True
        obtain db1 where rec: "record_occurrence r (tw_now api w1) db = Recorded db1" "tables_ok db1"
          "pairs db1 = pairs db @ [(sr_id r, due_at r (tw_now api w1))]"
          "schedule_find key db1 = Some (r\<lparr>sr_next := due_at r (tw_now api w1) + sr_interval r, sr_updated := tw_now api w1\<rparr>)"
          "new_occurrence r (tw_now api w1) \<in> set (sd_occurrences db1)"
          by (rule record_ok[OF assms(1) Some act None]) (use True in auto)
        obtain d w2 where d: "schedule_dispatch api (the (schedule_find key db1)) (new_occurrence r (tw_now api w1)) db1 w1 = (d, w2)"
          by (metis prod.collapse)
        have "(Inr True, d, w2) = (res, db', w')" using assms(2) eq True rec(1) d by (simp add: Let_def)
        then have out: "is_ok res" "db' = d" "w' = w2" by auto
        show ?thesis
        proof (rule due[OF Some _ out(1) _ rec(2) _ rec(5)])
          show "sr_id (the (schedule_find key db1)) = key" using rec(4) find_sched[OF Some] by simp
          show "previousFinished api r w = (True, w1)" using p True by simp
          show "set (pairs db) \<subseteq> set (pairs db1)" using rec(3) by auto
          show "schedule_dispatch api (the (schedule_find key db1)) (new_occurrence r (tw_now api w1)) db1 w1 = (db', w')"
            using d out by simp
        qed
      qed
    qed
  qed
qed

lemma reconcile_one_ok:
  assumes "tables_ok db" "reconcile_one api key db w = (res, db', w')"
  shows "is_ok res \<and> tables_ok db' \<and> set (pairs db) \<subseteq> set (pairs db')"
  using assms
proof (cases rule: reconcile_one_cases)
  case (again r occ)
  then show ?thesis using dispatch_ok[OF assms(1) again(5)] by simp
next
  case (due r r' w1 db1)
  then show ?thesis using dispatch_ok[OF due(5) due(8)] by simp
qed (simp_all add: assms)

lemma reconcile_rows_ok:
  "tables_ok db \<Longrightarrow> reconcile_rows api keys db w = (res, db', w') \<Longrightarrow> is_ok res \<and> tables_ok db' \<and> set (pairs db) \<subseteq> set (pairs db')"
proof (induction keys arbitrary: db w)
  case (Cons key keys)
  show ?case
  proof (cases "tw_suspended api w")
    case True
    then have "(Inr (), db, w) = (res, db', w')" using Cons.prems(2) by simp
    then have "res = Inr ()" "db' = db" by blast+
    then show ?thesis using Cons.prems(1) by simp
  next
    case False
    obtain r1 d1 w1 where o1: "reconcile_one api key db w = (r1, d1, w1)" by (metis prod_cases3)
    note ok1 = reconcile_one_ok[OF Cons.prems(1) o1]
    then obtain go where go: "r1 = Inr go" by (auto elim: is_okE)
    show ?thesis
    proof (cases go)
      case True
      then have "reconcile_rows api keys d1 w1 = (res, db', w')" using Cons.prems(2) False o1 go by simp
      then show ?thesis using Cons.IH[of d1 w1] ok1 by blast
    next
      case False2: False
      then have "(Inr (), d1, w1) = (res, db', w')" using Cons.prems(2) False o1 go by simp
      then have "res = Inr ()" "db' = d1" by blast+
      then show ?thesis using ok1 by simp
    qed
  qed
qed auto

lemma new_schedule_sane:
  assumes "schedule_validate nv spawnDefault input = Inr settings" "CHR '':'' \<notin> set key"
  shows "row_sane (new_schedule key now input settings)"
proof -
  have "safe_from (js_get input ''intervalMs'') min_interval"
    using assms(1) by (auto simp: schedule_validate_def Let_def bad_def split: if_split_asm)
  then show ?thesis using assms(2) by (simp add: row_sane_def new_schedule_def Let_def safe_from_def min_interval_def)
qed

lemma validated_key:
  assumes "schedule_validate nv spawnDefault input = Inr settings" "js_get input ''id'' \<noteq> JUndef"
  shows "CHR '':'' \<notin> set (str_of (js_get input ''id''))"
proof -
  let ?s = "str_of (js_get input ''id'')"
  have "filename_safe ?s" using assms by (auto simp: schedule_validate_def Let_def bad_def split: if_split_asm)
  then obtain c s where "?s = c # s" "word_char c" "list_all (\<lambda>c. word_char c \<or> c = CHR ''.'' \<or> c = CHR ''-'') s"
    by (cases ?s) (auto simp: filename_safe_def)
  moreover have "\<not> word_char CHR '':''" by code_simp
  ultimately show ?thesis by (auto simp: list_all_iff)
qed

lemma append_row_ok:
  assumes "tables_ok db" "row_sane r" "schedule_find (sr_id r) db = None"
  shows "tables_ok (db\<lparr>sd_rows := sd_rows db @ [r]\<rparr>)"
proof -
  let ?db = "db\<lparr>sd_rows := sd_rows db @ [r]\<rparr>"
  have "sr_id r \<notin> sr_id ` set (sd_rows db)" using assms(3) by (auto simp: schedule_find_def find_None_iff)
  then have "distinct (map sr_id (sd_rows ?db))" using assms(1) by (simp add: tables_ok_def)
  moreover have "past_of ?db x" if "past_of db x" for x using that by (auto simp: past_of_def)
  moreover have "pairs ?db = pairs db" "one_pending ?db = one_pending db" by (simp_all add: pairs_def one_pending_def)
  moreover have "\<forall>q \<in> set (sd_rows ?db). row_sane q" using assms(1,2) by (simp add: tables_ok_def)
  ultimately show ?thesis using assms(1) unfolding tables_ok_def by simp
qed

lemma create_refused:
  "sd_closed db \<or> tw_suspended api w \<or> schedule_validate nv spawnDefault input = Inl err
    \<Longrightarrow> snd (schedule_create nv spawnDefault api uuid input w db) = db"
  unfolding schedule_create_def exclusive_def by (elim disjE) simp_all

lemma create_accepted:
  assumes "\<not> sd_closed db" "\<not> tw_suspended api w" "schedule_validate nv spawnDefault input = Inr settings"
    "key = (if js_get input ''id'' = JUndef then uuid else str_of (js_get input ''id''))"
  shows "snd (schedule_create nv spawnDefault api uuid input w db)
    = (if schedule_find key db \<noteq> None then db else db\<lparr>sd_rows := sd_rows db @ [new_schedule key (tw_now api w) input settings]\<rparr>)"
  unfolding schedule_create_def exclusive_def Let_def assms(3) sum.case assms(4)[symmetric] if_not_P[OF assms(1)] if_not_P[OF assms(2)]
  by (cases "schedule_find key db = None") simp_all

lemma create_ok:
  assumes "tables_ok db" "CHR '':'' \<notin> set uuid"
  shows "tables_ok (snd (schedule_create nv spawnDefault api uuid input w db))"
proof (cases "sd_closed db \<or> tw_suspended api w \<or> (\<exists>err. schedule_validate nv spawnDefault input = Inl err)")
  case True
  then obtain err where "sd_closed db \<or> tw_suspended api w \<or> schedule_validate nv spawnDefault input = Inl err" by blast
  from create_refused[OF this] show ?thesis using assms(1) by simp
next
  case False
  then obtain settings where v: "schedule_validate nv spawnDefault input = Inr settings"
    by (cases "schedule_validate nv spawnDefault input") simp_all
  obtain key where key: "key = (if js_get input ''id'' = JUndef then uuid else str_of (js_get input ''id''))" by blast
  have c: "CHR '':'' \<notin> set key"
  proof (cases "js_get input ''id'' = JUndef")
    case True
    then show ?thesis using assms(2) key by simp
  next
    case False
    then show ?thesis using validated_key[OF v] key by simp
  qed
  let ?r = "new_schedule key (tw_now api w) input settings"
  have i: "sr_id ?r = key" by (simp add: new_schedule_def Let_def)
  have "tables_ok (db\<lparr>sd_rows := sd_rows db @ [?r]\<rparr>)" if "schedule_find key db = None"
    by (rule append_row_ok[OF assms(1) new_schedule_sane[OF v c]]) (simp only: i that)
  then have "tables_ok (if schedule_find key db \<noteq> None then db else db\<lparr>sd_rows := sd_rows db @ [?r]\<rparr>)"
    using assms(1) by simp
  moreover have opn: "\<not> sd_closed db" "\<not> tw_suspended api w" using False by blast+
  ultimately show ?thesis unfolding create_accepted[OF opn v key] by blast
qed

lemma setState_ok:
  assumes "tables_ok db"
  shows "tables_ok (snd (schedule_setState api key st w db))"
  using assms by (auto simp: schedule_setState_def exclusive_def Let_def keeps_schedule_def intro!: update_schedule_ok split: option.split)

lemma remove_ok:
  assumes "tables_ok db"
  shows "tables_ok (snd (schedule_remove api key w db))"
proof -
  let ?db = "db\<lparr>sd_rows := filter (\<lambda>r. sr_id r \<noteq> key) (sd_rows db), sd_occurrences := filter (\<lambda>x. oc_schedule x \<noteq> key) (sd_occurrences db)\<rparr>"
  have "distinct (pairs ?db)" using assms by (simp add: tables_ok_def pairs_def distinct_map_filter)
  moreover have "past_of ?db x" if "past_of db x" "oc_schedule x \<noteq> key" for x using that by (auto simp: past_of_def)
  moreover have "one_pending ?db" using assms by (simp add: tables_ok_def one_pending_def)
  ultimately have "tables_ok ?db" using assms by (simp add: tables_ok_def distinct_map_filter)
  then show ?thesis using assms by (simp add: schedule_remove_def exclusive_def)
qed

section \<open>What is sent\<close>

text \<open>The thread service with a log of the spawn requests it was sent.\<close>

definition recording :: "'w thread_world \<Rightarrow> ('w \<times> spawn_request list) thread_world" where
  "recording api = \<lparr>tw_spawn = (\<lambda>s (w, log). let (res, w') = tw_spawn api s w in (res, (w', log @ [s]))),
     tw_list = (\<lambda>t (w, log). let (res, w') = tw_list api t w in (res, (w', log))),
     tw_questions = (\<lambda>t (w, log). let (res, w') = tw_questions api t w in (res, (w', log))),
     tw_now = (\<lambda>(w, log). tw_now api w), tw_suspended = (\<lambda>(w, log). tw_suspended api w), tw_iso = tw_iso api\<rparr>"

lemma previousFinished_log:
  "previousFinished (recording api) r (w, log) = (b, (w', log')) \<Longrightarrow> log' = log"
  unfolding previousFinished_def recording_def
  by (simp add: case_prod_beta split: option.split_asm sum.split_asm list.split_asm if_split_asm prod.split_asm)

lemma dispatch_log:
  "schedule_dispatch (recording api) r occ db (w, log) = (db', (w', log')) \<Longrightarrow> log' = log @ [spawn_of (recording api) r occ]"
  unfolding schedule_dispatch_def by (auto simp: recording_def case_prod_beta split: if_split_asm)

definition sent_ok :: "schedule_db \<Rightarrow> spawn_request \<Rightarrow> bool" where
  "sent_ok db s = (sp_request s = occurrence_id (sp_schedule s) (sp_at s) \<and> sp_id s = occurrence_id (sp_schedule s) (sp_at s)
     \<and> (sp_schedule s, sp_at s) \<in> set (pairs db))"

lemma spawn_sent_ok:
  assumes "tables_ok db" "occ \<in> set (sd_occurrences db)" "oc_schedule occ = sr_id r"
  shows "sent_ok db (spawn_of api r occ)"
proof -
  have "(sr_id r, oc_at occ) \<in> set (pairs db)" using assms(2,3) by (force simp: pairs_def)
  moreover have "named_ok occ" using assms(1,2) by (simp add: tables_ok_def)
  ultimately show ?thesis using assms(3) by (simp add: sent_ok_def named_ok_def spawn_of_def)
qed

lemma reconcile_one_log:
  assumes "tables_ok db" "reconcile_one (recording api) key db (w, log) = (res, db', (w', log'))"
  shows "\<exists>ss. log' = log @ ss \<and> length ss \<le> 1 \<and> (\<forall>s \<in> set ss. sp_schedule s = key \<and> sent_ok db' s)"
  using assms
proof (cases rule: reconcile_one_cases)
  case skip
  then show ?thesis using previousFinished_log by fastforce
next
  case (again r occ)
  have r: "sr_id r = key" using find_sched[OF again(1)] by simp
  have "oc_schedule occ = sr_id r" using again(3) r by simp
  then have "sent_ok db (spawn_of (recording api) r occ)" by (rule spawn_sent_ok[OF assms(1) again(2)])
  then have "sent_ok db' (spawn_of (recording api) r occ)" using dispatch_ok[OF assms(1) again(5)] by (simp add: sent_ok_def)
  moreover have "sp_schedule (spawn_of (recording api) r occ) = key" using r by (simp add: spawn_of_def)
  ultimately show ?thesis using dispatch_log[OF again(5)] by (intro exI[of _ "[spawn_of (recording api) r occ]"]) simp
next
  case (due r r' w1 db1)
  obtain v l where w1: "w1 = (v, l)" by (cases w1)
  have l: "l = log" by (rule previousFinished_log[OF due(4)[unfolded w1]])
  let ?o = "new_occurrence r (tw_now (recording api) w1)"
  have sch: "oc_schedule ?o = sr_id r'" using due(2) find_sched[OF due(1)] by (simp add: new_occurrence_def)
  have "sent_ok db1 (spawn_of (recording api) r' ?o)" by (rule spawn_sent_ok[OF due(5,7) sch])
  then have "sent_ok db' (spawn_of (recording api) r' ?o)" using dispatch_ok[OF due(5,8)] by (simp add: sent_ok_def)
  moreover have "sp_schedule (spawn_of (recording api) r' ?o) = key" using due(2) by (simp add: spawn_of_def)
  moreover have "log' = log @ [spawn_of (recording api) r' ?o]"
    using dispatch_log[OF due(8)[unfolded w1]] unfolding w1 l .
  ultimately show ?thesis by (intro exI[of _ "[spawn_of (recording api) r' ?o]"]) simp
qed

lemma reconcile_rows_log:
  "tables_ok db \<Longrightarrow> distinct keys \<Longrightarrow> reconcile_rows (recording api) keys db (w, log) = (res, db', (w', log'))
    \<Longrightarrow> \<exists>ss. log' = log @ ss \<and> distinct (map sp_schedule ss) \<and> sp_schedule ` set ss \<subseteq> set keys \<and> (\<forall>s \<in> set ss. sent_ok db' s)"
proof (induction keys arbitrary: db w log)
  case (Cons key keys)
  show ?case
  proof (cases "tw_suspended (recording api) (w, log)")
    case True
    then show ?thesis using Cons.prems by auto
  next
    case False
    obtain r1 d1 v1 l1 where o1: "reconcile_one (recording api) key db (w, log) = (r1, d1, (v1, l1))" by (metis prod.collapse)
    note ok1 = reconcile_one_ok[OF Cons.prems(1) o1]
    then obtain go where go: "r1 = Inr go" by (auto elim: is_okE)
    obtain ss1 where s1: "l1 = log @ ss1" "length ss1 \<le> 1" "\<forall>s \<in> set ss1. sp_schedule s = key \<and> sent_ok d1 s"
      using reconcile_one_log[OF Cons.prems(1) o1] by blast
    have d1: "distinct (map sp_schedule ss1)" using s1(2) by (cases ss1) auto
    show ?thesis
    proof (cases go)
      case True
      then have rest: "reconcile_rows (recording api) keys d1 (v1, l1) = (res, db', (w', log'))"
        using Cons.prems(3) False o1 go by simp
      obtain ss2 where s2: "log' = l1 @ ss2" "distinct (map sp_schedule ss2)" "sp_schedule ` set ss2 \<subseteq> set keys"
        "\<forall>s \<in> set ss2. sent_ok db' s"
        using Cons.IH[of d1 v1 l1] ok1 rest Cons.prems(2) by auto
      have "set (pairs d1) \<subseteq> set (pairs db')" using reconcile_rows_ok[OF _ rest] ok1 by blast
      then have "\<forall>s \<in> set ss1. sent_ok db' s" using s1(3) by (auto simp: sent_ok_def)
      moreover have "sp_schedule ` set ss1 \<subseteq> {key}" using s1(3) by auto
      moreover have "key \<notin> set keys" using Cons.prems(2) by simp
      ultimately have "sp_schedule ` set ss1 \<inter> sp_schedule ` set ss2 = {}" "\<forall>s \<in> set ss1. sent_ok db' s"
        "sp_schedule ` set ss1 \<subseteq> {key}" using s2(3) by blast+
      then show ?thesis using s1(1) s2 d1
        by (intro exI[of _ "ss1 @ ss2"]) auto
    next
      case False2: False
      then have "(Inr (), d1, (v1, l1)) = (res, db', (w', log'))" using Cons.prems(3) False o1 go by simp
      then show ?thesis using s1 d1 by (intro exI[of _ ss1]) auto
    qed
  qed
qed auto

section \<open>HTTP routes\<close>

datatype schedule_reply = Listed "schedule_view list" | Shown schedule_view | Gone string | Refused schedule_error

definition refusal :: "schedule_error \<Rightarrow> nat \<times> schedule_reply" where
  "refusal e = ((case se_code e of Not_found \<Rightarrow> 404 | Conflict \<Rightarrow> 409 | Invalid_request \<Rightarrow> 400 | _ \<Rightarrow> 503), Refused e)"

definition reply :: "('a \<Rightarrow> schedule_reply) \<Rightarrow> 'a schedule_result \<Rightarrow> nat \<times> schedule_reply" where
  "reply f r = (case r of Inr v \<Rightarrow> (200, f v) | Inl e \<Rightarrow> refusal e)"

text \<open>The path below the prefix, decoded; a single leading slash is dropped.\<close>

definition route_parts :: "(string \<Rightarrow> string) \<Rightarrow> string \<Rightarrow> string \<Rightarrow> string list option" where
  "route_parts decode pre path =
     (if path \<noteq> pre \<and> \<not> starts_with path (pre @ ''/'') then None
      else let rest = drop (length pre) path; suffix = (case rest of c # s \<Rightarrow> if c = CHR ''/'' then s else rest | [] \<Rightarrow> []) in
        Some (if suffix = [] then [] else map decode (split_on CHR ''/'' suffix)))"

text \<open>After a successful creation or resumption due occurrences are dispatched; an exception there is a 503.\<close>

definition then_reconcile :: "'w thread_world \<Rightarrow> schedule_view schedule_result \<Rightarrow> schedule_db \<Rightarrow> 'w
    \<Rightarrow> (nat \<times> schedule_reply) \<times> schedule_db \<times> 'w" where
  "then_reconcile api res db w =
     (if \<not> is_ok res then (reply Shown res, db, w)
      else case schedule_reconcile api db w of
        (Inl e, db, w) \<Rightarrow> (refusal e, db, w)
      | (Inr _, db, w) \<Rightarrow> (reply Shown res, db, w))"

definition scheduleHttp :: "native_set \<Rightarrow> string option \<Rightarrow> 'w thread_world \<Rightarrow> string \<Rightarrow> (string \<Rightarrow> string) \<Rightarrow> string \<Rightarrow> string \<Rightarrow> string
    \<Rightarrow> js option \<Rightarrow> schedule_db \<Rightarrow> 'w \<Rightarrow> ((nat \<times> schedule_reply) \<times> schedule_db \<times> 'w) option" where
  "scheduleHttp nv spawnDefault api uuid decode pre req path body db w = (case route_parts decode pre path of
     None \<Rightarrow> None
   | Some parts \<Rightarrow> Some (
       if parts = [] \<and> req = ''GET'' then (reply Listed (schedule_list db), db, w)
       else if parts = [] \<and> req = ''POST'' then
         (case body of
            None \<Rightarrow> (refusal \<lparr>se_code = Invalid_request, se_message = ''Expected a JSON object''\<rparr>, db, w)
          | Some input \<Rightarrow>
              if \<not> is_object input then (refusal \<lparr>se_code = Invalid_request, se_message = ''Expected a JSON object''\<rparr>, db, w)
              else let (res, db) = schedule_create nv spawnDefault api uuid input w db in then_reconcile api res db w)
       else if length parts = 1 \<and> req = ''GET'' then (reply Shown (schedule_get (hd parts) db), db, w)
       else if length parts = 1 \<and> req = ''DELETE'' then
         (let (res, db) = schedule_remove api (hd parts) w db in (reply Gone res, db, w))
       else if length parts = 2 \<and> req = ''POST'' \<and> parts ! 1 = ''pause'' then
         (let (res, db) = schedule_setState api (hd parts) Paused w db in (reply Shown res, db, w))
       else if length parts = 2 \<and> req = ''POST'' \<and> parts ! 1 = ''resume'' then
         (let (res, db) = schedule_setState api (hd parts) Active w db in then_reconcile api res db w)
       else ((404, Refused \<lparr>se_code = Not_found, se_message = ''Schedule route was not found''\<rparr>), db, w)))"

section \<open>Reachable tables\<close>

text \<open>The service over its lifetime: any sequence of its operations from empty tables.\<close>

inductive schedule_reach :: "native_set \<Rightarrow> string option \<Rightarrow> 'w thread_world \<Rightarrow> schedule_db \<Rightarrow> bool"
  for nv spawnDefault api where
  reach_new: "schedule_reach nv spawnDefault api \<lparr>sd_rows = [], sd_occurrences = [], sd_closed = False\<rparr>"
| reach_create: "schedule_reach nv spawnDefault api db \<Longrightarrow> CHR '':'' \<notin> set uuid
    \<Longrightarrow> schedule_reach nv spawnDefault api (snd (schedule_create nv spawnDefault api uuid input w db))"
| reach_state: "schedule_reach nv spawnDefault api db \<Longrightarrow> schedule_reach nv spawnDefault api (snd (schedule_setState api key st w db))"
| reach_remove: "schedule_reach nv spawnDefault api db \<Longrightarrow> schedule_reach nv spawnDefault api (snd (schedule_remove api key w db))"
| reach_reconcile: "schedule_reach nv spawnDefault api db \<Longrightarrow> schedule_reconcile api db w = (res, db', w')
    \<Longrightarrow> schedule_reach nv spawnDefault api db'"
| reach_close: "schedule_reach nv spawnDefault api db \<Longrightarrow> schedule_reach nv spawnDefault api (schedule_close db)"

lemma reconcile_ok:
  assumes "tables_ok db" "schedule_reconcile api db w = (res, db', w')"
  shows "tables_ok db' \<and> (is_ok res \<or> sd_closed db) \<and> set (pairs db) \<subseteq> set (pairs db')"
proof (cases "sd_closed db \<or> tw_suspended api w")
  case True
  then have "db' = db" "is_ok res \<or> sd_closed db" using assms(2) by (auto simp: schedule_reconcile_def split: if_split_asm)
  then show ?thesis using assms(1) by simp
next
  case False
  then have "reconcile_rows api (map sr_id (sort_key (\<lambda>r. (sr_next r, sr_id r)) (filter (\<lambda>r. sr_state r = Active) (sd_rows db)))) db w
      = (res, db', w')" using assms(2) by (simp add: schedule_reconcile_def)
  from reconcile_rows_ok[OF assms(1) this] show ?thesis by blast
qed

lemma schedule_reach_ok: "schedule_reach nv spawnDefault api db \<Longrightarrow> tables_ok db"
proof (induction rule: schedule_reach.induct)
  case reach_new
  show ?case by (simp add: tables_ok_def pairs_def one_pending_def)
next
  case (reach_create db uuid input w)
  then show ?case by (intro create_ok)
next
  case (reach_state db key st w)
  then show ?case by (intro setState_ok)
next
  case (reach_remove db key w)
  then show ?case by (intro remove_ok)
next
  case (reach_reconcile db w res db' w')
  from reconcile_ok[OF reach_reconcile.IH reach_reconcile.hyps(2)] show ?case by blast
next
  case (reach_close db)
  have "pairs (schedule_close db) = pairs db" "one_pending (schedule_close db) = one_pending db"
    "sd_rows (schedule_close db) = sd_rows db" "sd_occurrences (schedule_close db) = sd_occurrences db"
    "\<And>x. past_of (schedule_close db) x = past_of db x"
    by (simp_all add: schedule_close_def pairs_def one_pending_def past_of_def)
  then show ?case using reach_close.IH unfolding tables_ok_def by metis
qed

lemma distinct_map_sort: "distinct (map f xs) \<Longrightarrow> distinct (map f (sort_key g xs))"
  by (simp add: distinct_map)

section \<open>The properties\<close>

text \<open>C30: over the whole life of the service one pass over the schedules never fails on its own keys, sends at
  most one spawn per schedule, and only for an occurrence already recorded in the table, under the request and
  thread identity that the schedule and the due time determine; and no two recorded occurrences share schedule
  and time. A pass repeated after a lost answer therefore repeats the same request and cannot start a
  second thread for an occurrence.\<close>

theorem schedule_spawns_once:
  assumes "schedule_reach nv spawnDefault api db" "\<not> sd_closed db"
    "schedule_reconcile (recording api) db (w, []) = (res, db', (w', sent))"
  shows "is_ok res \<and> distinct (map sp_schedule sent) \<and> distinct (pairs db')
    \<and> (\<forall>s \<in> set sent. sp_request s = occurrence_id (sp_schedule s) (sp_at s) \<and> sp_id s = sp_request s
         \<and> (sp_schedule s, sp_at s) \<in> set (pairs db'))"
proof -
  have ok: "tables_ok db" by (rule schedule_reach_ok[OF assms(1)])
  note r = reconcile_ok[OF ok assms(3)]
  have d: "distinct (pairs db')" using r by (simp add: tables_ok_def)
  show ?thesis
  proof (cases "tw_suspended (recording api) (w, [])")
    case True
    then have "sent = []" "is_ok res" using assms(2,3) by (auto simp: schedule_reconcile_def)
    then show ?thesis using d by simp
  next
    case False
    let ?keys = "map sr_id (sort_key (\<lambda>r. (sr_next r, sr_id r)) (filter (\<lambda>r. sr_state r = Active) (sd_rows db)))"
    have run: "reconcile_rows (recording api) ?keys db (w, []) = (res, db', (w', sent))"
      using False assms(2,3) by (simp add: schedule_reconcile_def)
    have "distinct (map sr_id (sd_rows db))" using ok by (simp add: tables_ok_def)
    then have "distinct ?keys" by (intro distinct_map_sort distinct_map_filter)
    then obtain ss where ss: "sent = [] @ ss" "distinct (map sp_schedule ss)" "\<forall>s \<in> set ss. sent_ok db' s"
      using reconcile_rows_log[OF ok _ run] by blast
    have "is_ok res" using r assms(2) by blast
    then show ?thesis using ss d unfolding sent_ok_def by simp
  qed
qed

text \<open>a due schedule without a pending occurrence records exactly one occurrence however many intervals
  were missed: at the latest due time, on the schedule's own grid and not in the future, and the next run is
  the first grid point after now.\<close>

theorem schedule_catches_up:
  assumes "schedule_reach nv spawnDefault api db" "schedule_find key db = Some r" "sr_state r = Active"
    "pending_occurrence key db = None" "sr_next r \<le> now"
  shows "\<exists>db'. record_occurrence r now db = Recorded db' \<and> pairs db' = pairs db @ [(key, due_at r now)]
    \<and> sr_next r \<le> due_at r now \<and> due_at r now \<le> now \<and> (due_at r now - sr_next r) mod sr_interval r = 0
    \<and> now < due_at r now + sr_interval r \<and> map_option sr_next (schedule_find key db') = Some (due_at r now + sr_interval r)"
proof -
  have ok: "tables_ok db" by (rule schedule_reach_ok[OF assms(1)])
  have r: "r \<in> set (sd_rows db)" "sr_id r = key" using find_sched[OF assms(2)] by auto
  have pos: "0 < sr_interval r" using ok r(1) by (simp add: tables_ok_def row_sane_def)
  obtain db' where "record_occurrence r now db = Recorded db'" "pairs db' = pairs db @ [(sr_id r, due_at r now)]"
    "schedule_find key db' = Some (r\<lparr>sr_next := due_at r now + sr_interval r, sr_updated := now\<rparr>)"
    by (rule record_ok[OF ok assms(2-5)])
  then show ?thesis using due_at_bounds[OF pos assms(5)] r(2) by simp
qed

definition sample_threads :: "int thread_world" where
  "sample_threads = \<lparr>tw_spawn = (\<lambda>s w. (Inr (sp_id s), w)), tw_list = (\<lambda>t w. (Inr [], w)), tw_questions = (\<lambda>t w. (Inr [], w)),
     tw_now = (\<lambda>w. w), tw_suspended = (\<lambda>w. False), tw_iso = (\<lambda>t. ''then'')\<rparr>"

definition sample_input :: js where
  "sample_input = mk_obj [(''id'', JStr ''daily''), (''prompt'', JStr ''report''), (''cwd'', JStr ''/work''), (''intervalMs'', JNum (NInt 1000)),
     (''startAt'', JNum (NInt 5000)), (''settings'', sample_override)]"

definition sample_schedules :: schedule_db where
  "sample_schedules = snd (schedule_create sample_native None sample_threads ''u'' sample_input 100
     \<lparr>sd_rows = [], sd_occurrences = [], sd_closed = False\<rparr>)"

lemma sample_validated: "schedule_validate sample_native None sample_input = Inr sample_settings"
proof -
  have safe: "filename_safe ''daily''" by (simp add: filename_safe_def word_char_def lower_def)
  have keys: "keys_within sample_input schedule_fields"
    by (simp add: sample_input_def js_keys_within_mk schedule_fields_def)
  have spawn: "resolveSpawnSettings sample_native sample_override None JUndef None = Inr sample_settings"
    using sample_resolved by (simp add: resolveSpawnSettings_def threadMode_def)
  have "js_get sample_override ''model'' = JStr ''openai-codex-11/gpt-6-luna''" by (simp add: sample_override_def)
  then show ?thesis
    unfolding schedule_validate_def using keys safe spawn
    by (simp add: sample_input_def js_trim_Nil blank_def js_space_def is_absolute_def starts_with_def safe_from_def safe_int_def
        max_safe_def min_interval_def max_interval_def)
qed

lemma sample_schedules_eq:
  "sample_schedules = \<lparr>sd_rows = [\<lparr>sr_id = ''daily'', sr_title = ''Schedule daily'', sr_prompt = ''report'', sr_cwd = ''/work'',
       sr_interval = 1000, sr_next = 5000, sr_settings = sample_settings,
       sr_admission = ''force'', sr_state = Active, sr_created = 100, sr_updated = 100, sr_last_thread = None, sr_last_at = None,
       sr_last_error = None\<rparr>], sd_occurrences = [], sd_closed = False\<rparr>"
proof -
  have key: "''daily'' = (if js_get sample_input ''id'' = JUndef then ''u'' else str_of (js_get sample_input ''id''))"
    by (simp add: sample_input_def)
  have "js_trim (str_of JUndef) = []" by (simp add: js_trim_Nil blank_def str_of_def)
  then show ?thesis
    unfolding sample_schedules_def
    by (subst create_accepted[OF _ _ sample_validated key])
      (simp_all add: schedule_find_def sample_threads_def new_schedule_def sample_input_def)
qed

lemma sample_schedules_reach: "schedule_reach sample_native None sample_threads sample_schedules"
  unfolding sample_schedules_def by (intro reach_create reach_new) simp

lemma schedule_spawns_once_witness:
  "\<exists>res db' w' s. schedule_reconcile (recording sample_threads) sample_schedules (8300, []) = (res, db', (w', [s]))
     \<and> sp_request s = occurrence_id (sp_schedule s) (sp_at s) \<and> sp_id s = sp_request s \<and> (sp_schedule s, sp_at s) \<in> set (pairs db')"
proof -
  let ?o = "schedule_reconcile (recording sample_threads) sample_schedules (8300, [])"
  obtain res db' w' sent where o: "?o = (res, db', (w', sent))" by (metis prod_cases3 prod.collapse)
  have "\<not> sd_closed sample_schedules" by (simp add: sample_schedules_eq)
  have "length (snd (snd (snd ?o))) = 1"
    by (simp add: sample_schedules_eq schedule_reconcile_def recording_def sample_threads_def reconcile_one_def schedule_find_def
        pending_occurrence_def first_of_def previousFinished_def present_def record_occurrence_def occurrence_clash_def
        update_schedule_def schedule_dispatch_def Let_def)
  then obtain s where "sent = [s]" using o by (auto simp: length_Suc_conv)
  then show ?thesis using schedule_spawns_once[OF sample_schedules_reach \<open>\<not> sd_closed sample_schedules\<close> o] o by simp
qed

lemma schedule_catches_up_witness:
  "\<exists>r. schedule_find ''daily'' sample_schedules = Some r \<and> due_at r 8300 = 8000
     \<and> (\<exists>db'. record_occurrence r 8300 sample_schedules = Recorded db' \<and> pairs db' = [(''daily'', 8000)])"
proof -
  have v: "map_option (\<lambda>r. (sr_state r, sr_next r, due_at r 8300)) (schedule_find ''daily'' sample_schedules) = Some (Active, 5000, 8000)"
    "pending_occurrence ''daily'' sample_schedules = None" "pairs sample_schedules = []"
    by (simp_all add: sample_schedules_eq schedule_find_def due_at_def pending_occurrence_def first_of_def pairs_def)
  then obtain r where r: "schedule_find ''daily'' sample_schedules = Some r" "sr_state r = Active" "sr_next r = 5000" "due_at r 8300 = 8000"
    by auto
  have "sr_next r \<le> 8300" using r(3) by simp
  from schedule_catches_up[OF sample_schedules_reach r(1,2) v(2) this] show ?thesis using r v(3) by auto
qed

end
