(* ===== verification/State_Validation.thy ===== *)
theory State_Validation
  imports Lifecycle
begin

text \<open>
  The checks the client runs on every state it receives (\<open>apps/remote/shared/state-validation.ts\<close>,
  \<open>explicit-state.ts\<close>, \<open>stream-resources.ts\<close>, \<open>notification-policy.ts\<close>). A thrown error is its
  message in \<open>Inl\<close>; the sets of states the code writes as object literals are lists.
\<close>

section \<open>Elementary checks\<close>

definition shown :: "js \<Rightarrow> string" where
  "shown v = (if v = JUndef then ''undefined'' else json_text v)"

definition requireState :: "js \<Rightarrow> string list \<Rightarrow> string \<Rightarrow> string + string" where
  "requireState v states owner =
     (if \<not> is_string v \<or> str_of v \<notin> set states then Inl (owner @ '': invalid state '' @ shown v) else Inr (str_of v))"

definition stateObject :: "js \<Rightarrow> string \<Rightarrow> string + js" where
  "stateObject v owner = (if \<not> is_object v then Inl (owner @ '': expected object'') else Inr v)"

definition stateArray :: "js \<Rightarrow> string \<Rightarrow> string + js list" where
  "stateArray v owner = (if \<not> is_array v then Inl (owner @ '': expected array'') else Inr (arr_of v))"

definition stateString :: "js \<Rightarrow> string \<Rightarrow> string + string" where
  "stateString v owner = (if \<not> is_string v then Inl (owner @ '': expected string'') else Inr (str_of v))"

text \<open>A check whose value is not used, a check behind a condition, and a sequence of checks.\<close>

definition ran :: "'e + 'a \<Rightarrow> 'e + unit" where
  "ran r = rbind r (\<lambda>_. Inr ())"

definition whenever :: "bool \<Rightarrow> 'e + unit \<Rightarrow> 'e + unit" where
  "whenever b r = (if b then r else Inr ())"

fun steps :: "('e + unit) list \<Rightarrow> 'e + unit" where
  "steps [] = Inr ()"
| "steps (r # rs) = rbind r (\<lambda>_. steps rs)"

definition nonempty_text :: "js \<Rightarrow> string \<Rightarrow> string \<Rightarrow> string + unit" where
  "nonempty_text v owner message = rbind (stateString v owner) (\<lambda>s. require (js_trim s \<noteq> []) message)"

definition finite_number :: "js \<Rightarrow> string \<Rightarrow> string + unit" where
  "finite_number v message = require (is_finite v) message"

definition given :: "js \<Rightarrow> bool" where
  "given v = (v \<noteq> JUndef)"

definition nullish :: "js \<Rightarrow> bool" where
  "nullish v = (v = JUndef \<or> v = JNull)"

section \<open>Vocabularies\<close>

definition activities :: "string list" where
  "activities = [''idle'', ''awaiting'', ''status_error'', ''queued'', ''admitting'', ''starting'', ''preparing'', ''finishing'',
     ''cancelling'', ''recovering'', ''thinking'', ''responding'', ''preparing_tool'', ''waiting_for_model'', ''waiting_on_agents'',
     ''waiting_on_tool'', ''compacting'', ''retrying'', ''waiting_for_capacity'', ''waiting_to_retry'']"

definition thread_states :: "string list" where
  "thread_states = [''idle'', ''running'', ''waiting'']"

definition transcript_kinds :: "string list" where
  "transcript_kinds = [''system'', ''tool'', ''user'', ''assistant'', ''thinking'', ''toolCall'', ''notice'']"

definition snapshot_types :: "string list" where
  "snapshot_types = [''bootstrap'', ''state'', ''dashboard'', ''workers'', ''transcript'', ''live'', ''images'', ''questions'']"

definition working_phases :: "string list" where
  "working_phases = [''queued'', ''admitting'', ''starting'', ''preparing'', ''finishing'', ''cancelling'', ''recovering'', ''thinking'',
     ''responding'', ''preparing_tool'', ''waiting_for_model'', ''waiting_on_agents'', ''waiting_on_tool'', ''compacting'', ''retrying'',
     ''waiting_for_capacity'', ''waiting_to_retry'']"

section \<open>Bootstrap\<close>

definition validateManagerView :: "js \<Rightarrow> string + unit" where
  "validateManagerView value = rbind (stateObject value ''Manager view'') (\<lambda>manager.
     rbind (requireState (js_get manager ''view'') [''classic'', ''mono''] ''Manager view'') (\<lambda>view.
     let id = js_get manager ''managerThreadId'' in
     rbind (require (is_boolean (js_get manager ''hintSeen'')) ''Manager hint: expected boolean'') (\<lambda>_.
     if id = JNull then require (view \<noteq> ''mono'') ''Mono view: manager thread is required''
     else nonempty_text id ''Manager thread id'' ''Manager thread id: expected nonempty string'')))"

definition validateBootstrap :: "js \<Rightarrow> string + unit" where
  "validateBootstrap value = rbind (stateObject value ''Bootstrap'') (\<lambda>bootstrap.
     rbind (stateString (js_get bootstrap ''environmentId'') ''Bootstrap environment'') (\<lambda>environment.
     rbind (stateString (js_get bootstrap ''managerOwnerEnvironmentId'') ''Manager owner environment'') (\<lambda>owner.
     rbind (require (js_trim owner \<noteq> []) ''Manager owner environment: expected nonempty string'') (\<lambda>_.
     if js_get bootstrap ''manager'' = JNull then require (environment \<noteq> owner) ''Manager owner: preference is missing''
     else validateManagerView (js_get bootstrap ''manager'')))))"

section \<open>Sessions\<close>

definition validateThreadObservation :: "js \<Rightarrow> string + unit" where
  "validateThreadObservation value = rbind (stateObject value ''Thread observation'') (\<lambda>row.
     steps [ran (requireState (js_get row ''state'') thread_states ''Thread lifecycle''),
            ran (requireState (js_get row ''activity'') activities ''Thread activity'')])"

definition waiting_targets :: "string list" where
  "waiting_targets = [''agents'', ''job'', ''deployment'', ''message'', ''dispatch'', ''capacity'', ''retry'']"

definition delayed_target :: "string \<Rightarrow> bool" where
  "delayed_target t = (t = ''capacity'' \<or> t = ''retry'')"

definition validateLifecycle :: "js \<Rightarrow> string + unit" where
  "validateLifecycle value = rbind (stateObject value ''Owner lifecycle'') (\<lambda>row.
     rbind (requireState (js_get row ''kind'') [''idle'', ''archived'', ''working'', ''waiting'', ''cancelling'', ''failed'']
              ''Owner lifecycle kind'') (\<lambda>kind.
     if kind = ''working'' then steps [ran (requireState (js_get row ''phase'') working_phases ''Working phase''),
        finite_number (js_get row ''since'') ''Working lifecycle: invalid timestamp'']
     else if kind = ''waiting'' then steps [finite_number (js_get row ''since'') ''Waiting lifecycle: timestamp required'',
        rbind (requireState (js_get row ''target'') waiting_targets ''Waiting target'') (\<lambda>target.
          whenever (delayed_target target)
            (nonempty_text (js_get row ''reason'') ''Waiting reason'' ''Delayed lifecycle: reason required''))]
     else if kind = ''failed'' then steps [nonempty_text (js_get row ''reason'') ''Failure reason'' ''Failure lifecycle: reason required'',
        ran (requireState (js_get row ''control'') [''stop'', ''cancel_wait'', ''none''] ''Failure control'')]
     else Inr ()))"

definition validateInputState :: "js \<Rightarrow> string + unit" where
  "validateInputState value = rbind (stateObject value ''Input receipt'') (\<lambda>input. steps
     [nonempty_text (js_get input ''id'') ''Input id'' ''Input id: empty identity'',
      nonempty_text (js_get input ''threadId'') ''Input threadId'' ''Input threadId: empty identity'',
      ran (requireState (js_get input ''state'') [''queued'', ''dispatched'', ''done''] ''Input state''),
      ran (requireState (js_get input ''priority'') [''human'', ''manager'', ''normal''] ''Input priority''),
      ran (requireState (js_get input ''delivery'') [''queue'', ''steer'', ''hardSteer''] ''Input delivery''),
      ran (requireState (js_get input ''source'') [''explicit'', ''notification''] ''Input source''),
      finite_number (js_get input ''createdAt'') ''Input createdAt: invalid timestamp'',
      whenever (\<not> nullish (js_get input ''insertedAt'')) (finite_number (js_get input ''insertedAt'') ''Input insertedAt: invalid timestamp''),
      whenever (\<not> nullish (js_get input ''landedAt'')) (finite_number (js_get input ''landedAt'') ''Input landedAt: invalid timestamp''),
      whenever (given (js_get input ''outcome'')) (ran (requireState (js_get input ''outcome'') [''complete'', ''failed'', ''cancelled''] ''Input outcome'')),
      whenever (given (js_get input ''error'')) (ran (stateString (js_get input ''error'') ''Input error''))])"

definition every :: "js \<Rightarrow> string \<Rightarrow> (js \<Rightarrow> string + unit) \<Rightarrow> string + unit" where
  "every v owner check = rbind (stateArray v owner) (\<lambda>items. each check items)"

definition validateQueued :: "js \<Rightarrow> string + unit" where
  "validateQueued value = rbind (stateObject value ''Queued message'') (\<lambda>message. steps
     [ran (requireState (js_get message ''state'') [''queued'', ''dispatched''] ''Queued message state''),
      ran (requireState (js_get message ''delivery'') [''queue'', ''steer'', ''hardSteer''] ''Queued message delivery''),
      whenever (given (js_get message ''acknowledgement''))
        (ran (requireState (js_get message ''acknowledgement'') [''pending'', ''unconfirmed''] ''Message acknowledgement''))])"

definition validateContext :: "js \<Rightarrow> string + unit" where
  "validateContext value = rbind (stateObject value ''Context selection'') (\<lambda>context. steps
     [ran (requireState (js_get context ''mode'') [''all'', ''manual''] ''Context selection mode''),
      every (js_get context ''files'') ''Context files'' (\<lambda>file. ran (stateString file ''Context file''))])"

definition validateSessionWait :: "js \<Rightarrow> js \<Rightarrow> string + unit" where
  "validateSessionWait row value = rbind (stateObject value ''Dependency wait'') (\<lambda>wait.
     if \<not> js_has wait ''kind'' then require (js_get row ''activity'' = JStr ''status_error'') ''Dependency wait: wait type missing''
     else rbind (requireState (js_get wait ''kind'') [''agents'', ''job'', ''deployment'', ''message''] ''Dependency wait'') (\<lambda>kind.
       if kind = ''agents'' then rbind (stateArray (js_get wait ''threadIds'') ''Agent dependencies'') (\<lambda>ids. steps
         [require (ids \<noteq> []) ''Agent wait: dependencies are empty'',
          each (\<lambda>i. ran (stateString i ''Agent dependency'')) ids,
          ran (stateObject (js_get wait ''after'') ''Agent wait cursors'')])
       else if kind = ''job'' then ran (stateString (js_get wait ''jobId'') ''Job dependency'')
       else if kind = ''deployment'' then ran (stateString (js_get wait ''publicationId'') ''Deployment dependency'')
       else ran (stateString (js_get wait ''fromThreadId'') ''Message dependency'')))"

definition validateSession :: "js \<Rightarrow> string + unit" where
  "validateSession value = rbind (validateThreadObservation value) (\<lambda>_. rbind (stateObject value ''Session'') (\<lambda>row. steps
     [validateLifecycle (js_get row ''lifecycle''),
      ran (stateString (js_get row ''id'') ''Session id''),
      ran (requireState (js_get row ''origin'') [''person'', ''fleet''] ''Session origin''),
      whenever (given (js_get row ''manager'')) (require (is_boolean (js_get row ''manager'')) ''Session manager: expected boolean''),
      require (is_boolean (js_get row ''held'')) ''Session held: expected boolean'',
      every (js_get row ''activeTools'') ''Active tools'' (\<lambda>tool. ran (stateString tool ''Active tool'')),
      every (js_get row ''queuedMessages'') ''Queued messages'' validateQueued,
      whenever (given (js_get row ''inputs'')) (every (js_get row ''inputs'') ''Input receipts'' validateInputState),
      whenever (given (js_get row ''contextSelection'')) (validateContext (js_get row ''contextSelection'')),
      whenever (given (js_get row ''waitingOnAgents'')) (validateSessionWait row (js_get row ''waitingOnAgents''))]))"

section \<open>Snapshots\<close>

definition validateTranscriptHead :: "js \<Rightarrow> string + unit" where
  "validateTranscriptHead value = rbind (stateObject value ''Transcript head'') (\<lambda>head. let kind = js_get head ''kind'' in steps
     [ran (requireState kind transcript_kinds ''Transcript kind''),
      whenever (given (js_get head ''sourceKey''))
        (nonempty_text (js_get head ''sourceKey'') ''Transcript source identity'' ''Transcript source identity: empty''),
      whenever (given (js_get head ''inputId'')) (ran (stateString (js_get head ''inputId'') ''Transcript input identity'')),
      whenever (given (js_get head ''inputOrigin''))
        (steps [ran (requireState (js_get head ''inputOrigin'') [''human'', ''machine''] ''Transcript input origin''),
                require (kind = JStr ''user'') ''Transcript input origin belongs only to user-role inputs'']),
      whenever (given (js_get head ''inputState''))
        (steps [validateInputState (js_get head ''inputState''),
                rbind (stateObject (js_get head ''inputState'') ''Transcript input receipt'') (\<lambda>receipt.
                  require (js_get receipt ''id'' = js_get head ''inputId'') ''Transcript input receipt identity mismatch'')]),
      whenever (given (js_get head ''monoVisibility''))
        (ran (requireState (js_get head ''monoVisibility'') [''hidden'', ''visible''] ''Mono transcript visibility'')),
      require (\<not> given (js_get head ''textTruncated'') \<or>
          (js_get head ''textTruncated'' = JBool True \<and> js_String kind \<in> {''user'', ''assistant'', ''notice''}))
        ''Transcript text preview: invalid marker''])"

definition scoped :: "string \<Rightarrow> bool" where
  "scoped type = (type \<in> {''transcript'', ''live'', ''images'', ''questions''})"

definition validateAccount :: "js \<Rightarrow> string + unit" where
  "validateAccount value = rbind (stateObject value ''Plan account'') (\<lambda>account.
     ran (requireState (js_get account ''state'') [''ready'', ''stale'', ''unavailable''] ''Account reading''))"

definition validateDashboard :: "js \<Rightarrow> string + unit" where
  "validateDashboard value = rbind (stateObject value ''Dashboard'') (\<lambda>dashboard.
     every (js_get dashboard ''plans'') ''Plans'' (\<lambda>value. rbind (stateObject value ''Plan'') (\<lambda>plan.
       every (js_get plan ''metrics'') ''Plan metrics'' (\<lambda>value. rbind (stateObject value ''Plan metric'') (\<lambda>metric.
         every (js_get metric ''accounts'') ''Plan accounts'' validateAccount)))))"

definition validateImages :: "js \<Rightarrow> string + unit" where
  "validateImages value = rbind (stateObject value ''Image snapshot'') (\<lambda>images.
     every (js_get images ''images'') ''Inline images'' (\<lambda>value. rbind (stateObject value ''Inline image'') (\<lambda>image.
       ran (requireState (js_get image ''state'') [''queued'', ''generating'', ''complete'', ''error''] ''Inline image state''))))"

definition validate_body :: "string \<Rightarrow> js \<Rightarrow> string + unit" where
  "validate_body type snapshot =
     (if type = ''state'' \<or> type = ''workers'' then every (js_get snapshot ''sessions'') (type @ '' sessions'') validateSession
      else if type = ''transcript'' then every (js_get snapshot ''items'') ''Transcript items'' validateTranscriptHead
      else if type = ''live'' then steps [ran (stateString (js_get snapshot ''text'') ''Live text''),
        whenever (\<not> nullish (js_get snapshot ''messageTimestamp''))
          (finite_number (js_get snapshot ''messageTimestamp'') ''Live message identity: invalid timestamp'')]
      else if type = ''images'' then validateImages (js_get snapshot ''snapshot'')
      else if type = ''questions'' then steps
        [ran (requireState (js_get snapshot ''state'') [''loading'', ''ready'', ''failed''] ''Questions resource state''),
         ran (stateArray (js_get snapshot ''questions'') ''Questions''),
         whenever (js_get snapshot ''state'' = JStr ''failed'') (ran (stateString (js_get snapshot ''error'') ''Questions error''))]
      else if type = ''bootstrap'' then validateBootstrap (js_get snapshot ''bootstrap'')
      else validateDashboard (js_get snapshot ''dashboard''))"

definition expected_resource :: "string \<Rightarrow> js \<Rightarrow> string + string" where
  "expected_resource type snapshot = (if scoped type
     then rbind (stateString (js_get snapshot ''sessionId'') ''Snapshot session'') (\<lambda>s. Inr (type @ '':'' @ s)) else Inr type)"

definition validateStreamSnapshot :: "string \<Rightarrow> js \<Rightarrow> string + unit" where
  "validateStreamSnapshot resource value = rbind (stateObject value ''Stream snapshot'') (\<lambda>snapshot.
     rbind (requireState (js_get snapshot ''type'') snapshot_types ''Stream snapshot type'') (\<lambda>type.
     rbind (expected_resource type snapshot) (\<lambda>expected.
     rbind (require (resource = expected) (''Stream resource '' @ resource @ '' does not match '' @ expected)) (\<lambda>_.
     validate_body type snapshot))))"

section \<open>Resources and notifications\<close>

definition streamResource :: "js \<Rightarrow> string" where
  "streamResource snapshot = (if js_has snapshot ''sessionId''
     then js_String (js_get snapshot ''type'') @ '':'' @ js_String (js_get snapshot ''sessionId'')
     else js_String (js_get snapshot ''type''))"

record subscription =
  su_dashboard :: bool
  su_workers :: bool
  su_session :: string
  su_viewing :: bool

definition streamWants :: "subscription \<Rightarrow> string list" where
  "streamWants s = [''bootstrap'', ''state''] @ (if su_dashboard s then [''dashboard''] else [])
     @ (if su_workers s then [''workers''] else [])
     @ (if su_session s \<noteq> [] then (''live:'' @ su_session s)
          # (if su_viewing s then [''transcript:'' @ su_session s, ''images:'' @ su_session s, ''questions:'' @ su_session s] else [])
        else [])"

definition isStreamSnapshot :: "string \<Rightarrow> js \<Rightarrow> bool" where
  "isStreamSnapshot resource value = is_ok (validateStreamSnapshot resource value)"

datatype notification_policy = Classic | Mono string
datatype notification_kind = Notify_idle | Notify_question | Notify_attention

definition humanNotification :: "notification_policy option \<Rightarrow> string \<Rightarrow> notification_kind option \<Rightarrow> bool" where
  "humanNotification policy thread kind = (case policy of None \<Rightarrow> False | Some Classic \<Rightarrow> True
     | Some (Mono manager) \<Rightarrow> kind = Some Notify_attention \<and> thread = manager)"

section \<open>A resource names one snapshot stream\<close>

lemma steps_Inr: "steps rs = Inr u \<longleftrightarrow> (\<forall>r \<in> set rs. r = Inr ())"
  by (induction rs) (auto simp: rbind_eq_Inr)

lemma ran_Inr [simp]: "ran r = Inr u \<longleftrightarrow> is_ok r"
  by (cases r) (simp_all add: ran_def)

lemma whenever_Inr [simp]: "whenever b r = Inr u \<longleftrightarrow> (b \<longrightarrow> r = Inr ())"
  by (simp add: whenever_def)

lemma requireState_ok [simp]: "is_ok (requireState v states owner) \<longleftrightarrow> is_string v \<and> str_of v \<in> set states"
  by (simp add: requireState_def)

lemma requireState_Inr: "requireState v states owner = Inr s \<longleftrightarrow> v = JStr s \<and> s \<in> set states"
  by (cases v) (auto simp: requireState_def)

lemma stateObject_Inr: "stateObject v owner = Inr w \<longleftrightarrow> is_object v \<and> w = v"
  by (auto simp: stateObject_def)

lemma stateString_Inr: "stateString v owner = Inr s \<longleftrightarrow> v = JStr s"
  by (cases v) (auto simp: stateString_def)

lemma nonempty_text_Inr [simp]: "nonempty_text v owner m = Inr u \<longleftrightarrow> nonblank v"
  by (cases v) (auto simp: nonempty_text_def stateString_def nonblank_def)

lemma finite_number_Inr [simp]: "finite_number v m = Inr u \<longleftrightarrow> is_finite v"
  by (simp add: finite_number_def)

lemmas check_simps = steps_Inr stateObject_Inr stateString_Inr rbind_eq_Inr

lemma types_plain: "type \<in> set snapshot_types \<Longrightarrow> CHR '':'' \<notin> set type"
  by (auto simp: snapshot_types_def)

lemma plain_head: "CHR '':'' \<notin> set t \<Longrightarrow> takeWhile (\<lambda>c. c \<noteq> CHR '':'') (t @ '':'' @ s) = t \<and> takeWhile (\<lambda>c. c \<noteq> CHR '':'') t = t"
  by (induction t) auto

lemma resource_type:
  assumes "t \<in> set snapshot_types"
    "(scoped t \<and> (\<exists>s. x = JStr s \<and> resource = t @ '':'' @ s)) \<or> (\<not> scoped t \<and> resource = t)"
  shows "takeWhile (\<lambda>c. c \<noteq> CHR '':'') resource = t"
  using assms(2) plain_head[OF types_plain[OF assms(1)]] by metis

lemma stream_accepted:
  assumes "validateStreamSnapshot resource v = Inr ()"
  obtains type where "js_get v ''type'' = JStr type" "type \<in> set snapshot_types" "validate_body type v = Inr ()"
    "(scoped type \<and> (\<exists>s. js_get v ''sessionId'' = JStr s \<and> resource = type @ '':'' @ s)) \<or> (\<not> scoped type \<and> resource = type)"
proof -
  obtain type ex where e: "requireState (js_get v ''type'') snapshot_types ''Stream snapshot type'' = Inr type"
    "expected_resource type v = Inr ex" "resource = ex" "validate_body type v = Inr ()"
    using assms unfolding validateStreamSnapshot_def by (auto simp: check_simps)
  then show ?thesis using that[of type] by (auto simp: requireState_Inr expected_resource_def check_simps split: if_split_asm)
qed

text \<open>C37: what the client accepts under a resource belongs to it: two snapshots accepted under the same resource
  have the same type and, when the type is scoped, the same session, so no frame of one thread can be
  stored as another thread's transcript, live text, images or questions.\<close>

theorem snapshot_identity:
  assumes "isStreamSnapshot resource v" "isStreamSnapshot resource w"
  shows "js_get v ''type'' = js_get w ''type''
    \<and> (scoped (str_of (js_get v ''type'')) \<longrightarrow> js_get v ''sessionId'' = js_get w ''sessionId'')"
proof -
  have acc: "validateStreamSnapshot resource v = Inr ()" "validateStreamSnapshot resource w = Inr ()"
    using assms by (auto simp: isStreamSnapshot_def elim: is_okE)
  obtain a where a: "js_get v ''type'' = JStr a" "a \<in> set snapshot_types"
    "(scoped a \<and> (\<exists>s. js_get v ''sessionId'' = JStr s \<and> resource = a @ '':'' @ s)) \<or> (\<not> scoped a \<and> resource = a)"
    by (rule stream_accepted[OF acc(1)])
  obtain b where b: "js_get w ''type'' = JStr b" "b \<in> set snapshot_types"
    "(scoped b \<and> (\<exists>s. js_get w ''sessionId'' = JStr s \<and> resource = b @ '':'' @ s)) \<or> (\<not> scoped b \<and> resource = b)"
    by (rule stream_accepted[OF acc(2)])
  let ?hd = "takeWhile (\<lambda>c. c \<noteq> CHR '':'')"
  have "?hd resource = a" by (rule resource_type[OF a(2,3)])
  moreover have "?hd resource = b" by (rule resource_type[OF b(2,3)])
  ultimately have "a = b" by simp
  then have "js_get v ''type'' = js_get w ''type''" using a(1) b(1) by simp
  moreover have "js_get v ''sessionId'' = js_get w ''sessionId''" if "scoped a"
  proof -
    obtain s where s: "js_get v ''sessionId'' = JStr s" "resource = a @ '':'' @ s" using a(3) \<open>scoped a\<close> by blast
    obtain r where r: "js_get w ''sessionId'' = JStr r" "resource = b @ '':'' @ r" using b(3) \<open>scoped a\<close> \<open>a = b\<close> by blast
    have "s = r" using s(2) r(2) \<open>a = b\<close> by simp
    then show ?thesis using s(1) r(1) by simp
  qed
  moreover have "str_of (js_get v ''type'') = a" using a(1) by simp
  ultimately show ?thesis by simp
qed

definition sample_snapshot :: "string \<Rightarrow> js" where
  "sample_snapshot body = mk_obj [(''type'', JStr ''live''), (''sessionId'', JStr ''s1''), (''text'', JStr body)]"

lemma snapshot_identity_witness:
  "isStreamSnapshot ''live:s1'' (sample_snapshot ''a'') \<and> isStreamSnapshot ''live:s1'' (sample_snapshot ''b'')
   \<and> js_get (sample_snapshot ''a'') ''sessionId'' = js_get (sample_snapshot ''b'') ''sessionId''"
proof -
  have "isStreamSnapshot ''live:s1'' (sample_snapshot ''a'')" "isStreamSnapshot ''live:s1'' (sample_snapshot ''b'')" by code_simp+
  moreover have "scoped (str_of (js_get (sample_snapshot ''a'') ''type''))" by code_simp
  ultimately show ?thesis using snapshot_identity by blast
qed

section \<open>The owner's lifecycles pass the client's check\<close>

definition phase_text :: "phase \<Rightarrow> string" where
  "phase_text p = the (map_of (map (\<lambda>(s, q). (q, s)) phase_names) p)"

fun wait_kind :: "wait_dependency \<Rightarrow> string" where
  "wait_kind (WaitAgents _ _) = ''agents''"
| "wait_kind (WaitJob _) = ''job''"
| "wait_kind (WaitDeployment _) = ''deployment''"
| "wait_kind (WaitMessage _) = ''message''"

fun control_text :: "control \<Rightarrow> string" where
  "control_text Stop = ''stop''"
| "control_text Cancel_wait = ''cancel_wait''"
| "control_text No_control = ''none''"

fun delay_text :: "delay_target \<Rightarrow> string" where
  "delay_text Capacity_delay = ''capacity''"
| "delay_text Retry_delay = ''retry''"

text \<open>The object a lifecycle is on the wire.\<close>

definition waiting_js :: "string \<Rightarrow> js \<Rightarrow> obj \<Rightarrow> js" where
  "waiting_js target since extra = mk_obj ([(''kind'', JStr ''waiting''), (''target'', JStr target), (''since'', since)] @ extra)"

fun lifecycle_js :: "lifecycle \<Rightarrow> js" where
  "lifecycle_js Idle = mk_obj [(''kind'', JStr ''idle'')]"
| "lifecycle_js Archived = mk_obj [(''kind'', JStr ''archived'')]"
| "lifecycle_js Being_cancelled = mk_obj [(''kind'', JStr ''cancelling'')]"
| "lifecycle_js (Working p since detail) = mk_obj ([(''kind'', JStr ''working''), (''phase'', JStr (phase_text p)), (''since'', JNum (NInt since))]
     @ (case detail of None \<Rightarrow> [] | Some d \<Rightarrow> [(''detail'', JStr d)]))"
| "lifecycle_js (Delayed t reason since) = waiting_js (delay_text t) (JNum (NInt since)) [(''reason'', JStr reason)]"
| "lifecycle_js (Waiting_dispatch since) = waiting_js ''dispatch'' (JNum (NInt since)) []"
| "lifecycle_js (Waiting_dependency d since) = waiting_js (wait_kind d) since [(''dependency'', dependency_js d)]"
| "lifecycle_js (Waiting_agents since) = waiting_js ''agents'' (JNum (NInt since)) []"
| "lifecycle_js (Failed reason c) = mk_obj [(''kind'', JStr ''failed''), (''reason'', JStr reason), (''control'', JStr (control_text c))]"

text \<open>What makes a lifecycle presentable: every reason is nonblank, every dependency's start a finite number.\<close>

fun presentable :: "lifecycle \<Rightarrow> bool" where
  "presentable (Delayed _ reason _) = (js_trim reason \<noteq> [])"
| "presentable (Failed reason _) = (js_trim reason \<noteq> [])"
| "presentable (Waiting_dependency _ since) = is_finite since"
| "presentable _ = True"

lemma phase_text_known: "phase_text p \<in> set working_phases"
  by (cases p) (simp_all add: phase_text_def phase_names_def working_phases_def)

lemma is_finite_NInt [simp]: "is_finite (JNum (NInt i))"
  by (simp add: is_finite_def)

lemma waiting_accepted:
  assumes "is_finite since" "target \<in> set waiting_targets" "delayed_target target \<longrightarrow> nonblank (oget extra ''reason'')"
  shows "validateLifecycle (waiting_js target since extra) = Inr ()"
  using assms unfolding validateLifecycle_def waiting_js_def
  by (simp add: check_simps requireState_Inr)

lemma presentable_accepted: "presentable l \<Longrightarrow> validateLifecycle (lifecycle_js l) = Inr ()"
proof (cases l)
  case (Working p since detail)
  then show ?thesis using phase_text_known[of p]
    by (cases detail) (simp_all add: validateLifecycle_def check_simps requireState_Inr)
next
  case (Failed reason c)
  assume "presentable l"
  then show ?thesis using Failed by (cases c) (simp_all add: validateLifecycle_def check_simps requireState_Inr)
next
  case (Delayed t reason since)
  assume "presentable l"
  then show ?thesis using Delayed by (cases t) (simp_all add: waiting_accepted waiting_targets_def delayed_target_def)
next
  case (Waiting_dependency d since)
  assume "presentable l"
  then show ?thesis using Waiting_dependency by (cases d) (simp_all add: waiting_accepted waiting_targets_def delayed_target_def)
next
  case (Waiting_dispatch since)
  then show ?thesis by (simp add: waiting_accepted waiting_targets_def delayed_target_def)
next
  case (Waiting_agents since)
  then show ?thesis by (simp add: waiting_accepted waiting_targets_def delayed_target_def)
qed (simp_all add: validateLifecycle_def check_simps requireState_Inr)

lemma derived_presentable:
  assumes "\<And>e. lo_error s = Some e \<Longrightarrow> e \<noteq> [] \<Longrightarrow> js_trim e \<noteq> []" "\<And>d. lo_delay s = Some d \<Longrightarrow> js_trim (dl_reason d) \<noteq> []"
  shows "presentable (deriveThreadLifecycle s)"
proof -
  have fixed: "js_trim ''Execution owner did not report its activity'' \<noteq> []" "js_trim ''Invalid owned dependency wait'' \<noteq> []"
    by (simp_all add: js_trim_Nil blank_def js_space_def)
  show ?thesis
  proof (cases "has_error s \<and> lo_delay s = None")
    case True
    then obtain e where "lo_error s = Some e" "e \<noteq> []" by (auto simp: has_error_def split: option.split_asm)
    then show ?thesis using True assms(1) by (simp add: deriveThreadLifecycle_def)
  next
    case False
    then show ?thesis using fixed assms(2) unfolding deriveThreadLifecycle_def
      by (auto split: option.split sum.split)
  qed
qed

text \<open>the two ends agree on lifecycles: whatever the owner observes, the lifecycle it derives is accepted by the
  client's check, provided the errors and delay reasons recorded on it are not only white space.\<close>

theorem derived_lifecycle_accepted:
  assumes "\<And>e. lo_error s = Some e \<Longrightarrow> e \<noteq> [] \<Longrightarrow> js_trim e \<noteq> []" "\<And>d. lo_delay s = Some d \<Longrightarrow> js_trim (dl_reason d) \<noteq> []"
  shows "validateLifecycle (lifecycle_js (deriveThreadLifecycle s)) = Inr ()"
  by (rule presentable_accepted[OF derived_presentable[OF assms]])

definition sample_observation :: lifecycle_observation where
  "sample_observation = \<lparr>lo_archived = False, lo_cancelling = False, lo_execution = None, lo_pending = None,
     lo_delay = Some \<lparr>dl_target = Capacity_delay, dl_since = 5, dl_reason = ''quota''\<rparr>, lo_dependency = None,
     lo_subscriptions = [], lo_error = Some ''boom'', lo_updated = 9\<rparr>"

lemma derived_lifecycle_accepted_witness:
  "deriveThreadLifecycle sample_observation = Delayed Capacity_delay ''quota'' 5
   \<and> validateLifecycle (lifecycle_js (deriveThreadLifecycle sample_observation)) = Inr ()"
proof -
  have "validateLifecycle (lifecycle_js (deriveThreadLifecycle sample_observation)) = Inr ()"
    by (rule derived_lifecycle_accepted) (simp_all add: sample_observation_def js_trim_Nil blank_def js_space_def)
  moreover have "deriveThreadLifecycle sample_observation = Delayed Capacity_delay ''quota'' 5"
    by (simp add: sample_observation_def deriveThreadLifecycle_def)
  ultimately show ?thesis by simp
qed

end
