(* ===== verification/Json_Parse.thy ===== *)
theory Json_Parse
  imports Json_Text Regex
begin

text \<open>
  \<open>JSON.parse\<close> on the character lists of \<open>Json_Text\<close>, \<open>None\<close> where it throws, and the proof that it
  reads back what \<open>JSON.stringify\<close> wrote, whatever the order of the fields. A decimal that is not an
  integer literal keeps its text, and an escape names a code unit below 256.
\<close>

section \<open>Tokens\<close>

definition json_ws :: "char \<Rightarrow> bool" where
  "json_ws c = (c \<in> {CHR 0x09, CHR 0x0A, CHR 0x0D, CHR 0x20})"

definition skip_ws :: "string \<Rightarrow> string" where
  "skip_ws s = dropWhile json_ws s"

definition unescape :: "char \<Rightarrow> char option" where
  "unescape c = (if c = CHR 0x22 \<or> c = CHR 0x5C \<or> c = CHR ''/'' then Some c
     else map_of [(CHR ''b'', CHR 0x08), (CHR ''f'', CHR 0x0C), (CHR ''n'', CHR 0x0A), (CHR ''r'', CHR 0x0D), (CHR ''t'', CHR 0x09)] c)"

definition hex_value :: "char \<Rightarrow> nat option" where
  "hex_value c = (let n = of_char c :: nat in if 48 \<le> n \<and> n \<le> 57 then Some (n - 48)
     else if 65 \<le> n \<and> n \<le> 70 then Some (n - 55) else if 97 \<le> n \<and> n \<le> 102 then Some (n - 87) else None)"

definition hex_unit :: "char \<Rightarrow> char \<Rightarrow> char \<Rightarrow> char \<Rightarrow> char option" where
  "hex_unit a b c d = (case (hex_value a, hex_value b, hex_value c, hex_value d) of
     (Some h, Some i, Some j, Some k) \<Rightarrow> if h = 0 \<and> i = 0 then Some (char_of (16 * j + k)) else None | _ \<Rightarrow> None)"

text \<open>The text of a string after its opening quote.\<close>

fun p_string :: "string \<Rightarrow> (string \<times> string) option" where
  "p_string [] = None"
| "p_string (c # s) =
     (if c = CHR 0x22 then Some ([], s)
      else if c = CHR 0x5C then (case s of
          e # t \<Rightarrow> if e = CHR ''u'' then (case t of
              a # b # x # y # w \<Rightarrow> (case hex_unit a b x y of None \<Rightarrow> None
                | Some d \<Rightarrow> map_option (\<lambda>p. (d # fst p, snd p)) (p_string w))
            | _ \<Rightarrow> None)
            else (case unescape e of None \<Rightarrow> None | Some d \<Rightarrow> map_option (\<lambda>p. (d # fst p, snd p)) (p_string t))
        | [] \<Rightarrow> None)
      else if (of_char c :: nat) < 32 then None
      else map_option (\<lambda>p. (c # fst p, snd p)) (p_string s))"

definition numeral_char :: "char \<Rightarrow> bool" where
  "numeral_char c = (num_char c \<or> c = CHR ''E'')"

definition unsigned :: "string \<Rightarrow> string" where
  "unsigned t = (if t \<noteq> [] \<and> hd t = CHR ''-'' then tl t else t)"

definition json_int :: "string \<Rightarrow> bool" where
  "json_int t = (let u = unsigned t in u \<noteq> [] \<and> list_all is_digit u \<and> (u = ''0'' \<or> hd u \<noteq> CHR ''0''))"

definition json_dec_rx :: rx where
  "json_dec_rx = (let digits = Rep 1 None (Chars digit_chars False) in
     Seq [Start, Rep 0 (Some 1) (lit False ''-''), Alt [lit False ''0'', Seq [Chars ''123456789'' False, Rep 0 None (Chars digit_chars False)]],
       Rep 0 (Some 1) (Seq [lit False ''.'', digits]),
       Rep 0 (Some 1) (Seq [Chars ''eE'' False, Rep 0 (Some 1) (Chars ''+-'' False), digits]), Finish])"

definition num_value :: "string \<Rightarrow> jnum option" where
  "num_value t = (if json_int t then Some (NInt (if hd t = CHR ''-'' then - int (nat_val (tl t)) else int (nat_val t)))
     else if rx_test json_dec_rx t then Some (NDec t) else None)"

section \<open>Values\<close>

text \<open>Fuel bounds the number of nested calls; twice the length of the text is enough.\<close>

fun p_value :: "nat \<Rightarrow> string \<Rightarrow> (js \<times> string) option"
  and p_items :: "nat \<Rightarrow> string \<Rightarrow> (js list \<times> string) option"
  and p_fields :: "nat \<Rightarrow> string \<Rightarrow> (obj \<times> string) option" where
  "p_value 0 s = None"
| "p_value (Suc n) s = (case skip_ws s of [] \<Rightarrow> None | c # t \<Rightarrow>
     if c = CHR 0x22 then map_option (\<lambda>p. (JStr (fst p), snd p)) (p_string t)
     else if c = CHR ''['' then (if starts_with (skip_ws t) '']'' then Some (JArr [], tl (skip_ws t))
       else map_option (\<lambda>p. (JArr (fst p), snd p)) (p_items n t))
     else if c = CHR ''{'' then (if starts_with (skip_ws t) ''}'' then Some (JObj [], tl (skip_ws t))
       else map_option (\<lambda>p. (JObj (mk_fields (rev (fst p))), snd p)) (p_fields n t))
     else if starts_with (c # t) ''null'' then Some (JNull, drop 3 t)
     else if starts_with (c # t) ''true'' then Some (JBool True, drop 3 t)
     else if starts_with (c # t) ''false'' then Some (JBool False, drop 4 t)
     else map_option (\<lambda>v. (JNum v, dropWhile numeral_char (c # t))) (num_value (takeWhile numeral_char (c # t))))"
| "p_items 0 s = None"
| "p_items (Suc n) s = (case p_value n s of None \<Rightarrow> None | Some (v, r) \<Rightarrow>
     (case skip_ws r of [] \<Rightarrow> None | c # t \<Rightarrow>
        if c = CHR '']'' then Some ([v], t)
        else if c = CHR '','' then map_option (\<lambda>p. (v # fst p, snd p)) (p_items n t)
        else None))"
| "p_fields 0 s = None"
| "p_fields (Suc n) s = (case skip_ws s of [] \<Rightarrow> None | q # s' \<Rightarrow>
     if q \<noteq> CHR 0x22 then None else (case p_string s' of None \<Rightarrow> None | Some (k, r) \<Rightarrow>
       (case skip_ws r of [] \<Rightarrow> None | c # t \<Rightarrow> if c \<noteq> CHR '':'' then None else
         (case p_value n t of None \<Rightarrow> None | Some (v, r') \<Rightarrow>
           (case skip_ws r' of [] \<Rightarrow> None | d # u \<Rightarrow>
              if d = CHR ''}'' then Some ([(k, v)], u)
              else if d = CHR '','' then map_option (\<lambda>p. ((k, v) # fst p, snd p)) (p_fields n u)
              else None)))))"

definition json_parse :: "string \<Rightarrow> js option" where
  "json_parse s = (case p_value (2 * length s + 2) s of None \<Rightarrow> None
     | Some (v, r) \<Rightarrow> if skip_ws r = [] then Some v else None)"

section \<open>Reading back what was written\<close>

lemma skip_ws_Cons: "\<not> json_ws c \<Longrightarrow> skip_ws (c # s) = c # s"
  by (simp add: skip_ws_def)

lemma control_chars: "char_of (8 :: nat) = CHR 0x08" "char_of (9 :: nat) = CHR 0x09" "char_of (10 :: nat) = CHR 0x0A"
  "char_of (12 :: nat) = CHR 0x0C" "char_of (13 :: nat) = CHR 0x0D"
  by (simp_all add: char_of_eq_iff)

lemma p_string_esc:
  assumes "p_string s = Some (u, r)"
  shows "p_string (esc c @ s) = Some (c # u, r)"
proof (cases "(of_char c :: nat) < 32 \<and> (of_char c :: nat) \<notin> {8, 9, 10, 12, 13}")
  case True
  let ?n = "of_char c :: nat"
  have hex: "hex_value (hex_digit k) = Some k" if "k < 16" for k
    using of_char_hex_digit[OF that] that by (simp add: hex_value_def)
  have "16 * (?n div 16) + ?n mod 16 = ?n" by simp
  then have "char_of (16 * (?n div 16) + ?n mod 16) = c" by simp
  moreover have "hex_value CHR ''0'' = Some 0" by (simp add: hex_value_def)
  moreover have "?n div 16 < 16" "?n mod 16 < 16" using True by (simp_all add: div_less_iff_less_mult)
  ultimately have "hex_unit CHR ''0'' CHR ''0'' (hex_digit (?n div 16)) (hex_digit (?n mod 16)) = Some c"
    using hex by (simp add: hex_unit_def)
  then show ?thesis using True assms by (simp add: esc_control)
next
  case False
  show ?thesis
  proof (cases rule: esc_cases[of c])
    case plain
    have "c \<noteq> CHR 0x22" "\<not> (of_char c :: nat) < 32" using plain False
      by (auto simp: esc_def Let_def split: if_split_asm)
    then show ?thesis using plain assms by simp
  next
    case self
    have "unescape c = Some c" "c \<noteq> CHR ''u''" using self(2) by (auto simp: unescape_def)
    then show ?thesis using self(1) assms by simp
  next
    case (short x)
    obtain k where k: "(of_char c :: nat) = k"
      "(k, x) \<in> {(8, CHR ''b''), (9, CHR ''t''), (10, CHR ''n''), (12, CHR ''f''), (13, CHR ''r'')}" using short(2) by blast
    have "x \<noteq> CHR ''u'' \<and> unescape x = Some (char_of k)" using k(2) by (auto simp: unescape_def control_chars)
    moreover have "char_of k = c" by (simp add: k(1)[symmetric])
    ultimately have "x \<noteq> CHR ''u'' \<and> unescape x = Some c" by simp
    then show ?thesis using short(1) assms by simp
  next
    case control
    then show ?thesis using False by (auto simp: esc_def Let_def split: if_split_asm)
  qed
qed

lemma p_string_body: "p_string (concat (map esc s) @ CHR 0x22 # r) = Some (s, r)"
  by (induction s) (simp_all add: p_string_esc)


function decimals :: "js \<Rightarrow> bool" where
  "decimals (JNum n) = (case n of NDec t \<Rightarrow> list_all num_char t \<and> num_value t = Some (NDec t) | _ \<Rightarrow> True)"
| "decimals (JArr xs) = list_all decimals xs"
| "decimals (JObj fs) = list_all (\<lambda>p. decimals (snd p)) fs"
| "decimals JUndef = True" | "decimals JNull = True" | "decimals (JBool b) = True" | "decimals (JStr s) = True"
  by pat_completeness auto
termination
  by (relation "measure size") (auto dest: size_field size_item)

lemma nat_text_lead: "hd (nat_text n) = CHR ''0'' \<Longrightarrow> n = 0"
proof (induction n rule: nat_text.induct)
  case (1 n)
  show ?case
  proof (cases "n < 10")
    case True
    have "(of_char (hd (nat_text n)) :: nat) = 48 + n" using True by (simp add: nat_text.simps[of n])
    then show ?thesis using 1(2) by simp
  next
    case False
    then show ?thesis using 1 nat_text_digits[of "n div 10"] by (simp add: nat_text.simps[of n])
  qed
qed

lemma hd_digits: "list_all is_digit t \<Longrightarrow> t \<noteq> [] \<Longrightarrow> hd t \<noteq> CHR ''-''"
  by (cases t) (auto simp: is_digit_def)

lemma json_int_nat: "json_int (nat_text n) \<and> hd (nat_text n) \<noteq> CHR ''-'' \<and> json_int (CHR ''-'' # nat_text n)"
proof -
  have d: "list_all is_digit (nat_text n)" "nat_text n \<noteq> []" using nat_text_digits by auto
  have "nat_text n = ''0'' \<or> hd (nat_text n) \<noteq> CHR ''0''"
    using nat_text_lead[of n] by (cases "n = 0") (auto simp: nat_text.simps[of 0] digit_def)
  then show ?thesis using d hd_digits[OF d] by (auto simp: json_int_def unsigned_def Let_def)
qed

lemma num_value_int: "num_value (int_text i) = Some (NInt i)"
proof (cases "i < 0")
  case True
  then show ?thesis using json_int_nat[of "nat (- i)"] by (simp add: num_value_def int_text_def)
next
  case False
  then show ?thesis using json_int_nat[of "nat i"] by (simp add: num_value_def int_text_def)
qed


lemma numeral_take:
  assumes "list_all num_char t" "closes r"
  shows "takeWhile numeral_char (t @ r) = t" "dropWhile numeral_char (t @ r) = r"
proof -
  have "r = [] \<or> \<not> numeral_char (hd r)" using assms(2) closes_not_num[OF assms(2)] by (auto simp: closes_def numeral_char_def)
  then show "takeWhile numeral_char (t @ r) = t" "dropWhile numeral_char (t @ r) = r"
    using assms(1) by (induction t) (auto simp: numeral_char_def takeWhile_eq_Nil_iff intro: dropWhile_eq_self_iff[THEN iffD2])
qed

lemma json_text_not_ws: "wf_js v \<Longrightarrow> \<not> json_ws (hd (json_text v))"
  using json_text_head[of v] by (auto simp: json_ws_def js_kind_def char_kind_def num_char_def is_digit_def split: js.split_asm if_split_asm)

lemma skip_ws_text: "wf_js v \<Longrightarrow> skip_ws (json_text v @ r) = json_text v @ r"
  using json_text_head(1)[of v] json_text_not_ws[of v] by (cases "json_text v") (auto simp: skip_ws_Cons)

definition reads :: "js \<Rightarrow> bool" where
  "reads v = (\<forall>n r. closes r \<longrightarrow> 2 * length (json_text v) \<le> n \<longrightarrow> p_value n (json_text v @ r) = Some (v, r))"

lemma readsD: "reads v \<Longrightarrow> closes r \<Longrightarrow> 2 * length (json_text v) \<le> n \<Longrightarrow> p_value n (json_text v @ r) = Some (v, r)"
  by (simp add: reads_def)

lemma commas_Cons2: "commas (x # y # ys) = x @ CHR '','' # commas (y # ys)"
  by simp

lemma p_items_text:
  assumes "\<And>v. v \<in> set xs \<Longrightarrow> reads v" "xs \<noteq> []" "2 * length (commas (map json_text xs)) < n"
  shows "p_items n (commas (map json_text xs) @ CHR '']'' # r) = Some (xs, r)"
  using assms
proof (induction xs arbitrary: n)
  case (Cons v xs)
  obtain m where n: "n = Suc m" using Cons.prems(3) by (cases n) auto
  have v: "reads v" using Cons.prems(1) by simp
  show ?case
  proof (cases xs)
    case Nil
    have "p_value m (json_text v @ CHR '']'' # r) = Some (v, CHR '']'' # r)"
      by (rule readsD[OF v]) (use Cons.prems(3) Nil n in simp_all)
    then show ?thesis by (simp add: Nil n skip_ws_Cons json_ws_def)
  next
    case (Cons w ws)
    let ?rest = "commas (map json_text xs) @ CHR '']'' # r"
    have split: "commas (map json_text (v # xs)) = json_text v @ CHR '','' # commas (map json_text xs)"
      using Cons by simp
    have "p_value m (json_text v @ CHR '','' # ?rest) = Some (v, CHR '','' # ?rest)"
      by (rule readsD[OF v]) (use Cons.prems(3) n split in simp_all)
    moreover have "p_items m ?rest = Some (xs, r)"
      by (rule Cons.IH) (use Cons.prems n split Cons in simp_all)
    ultimately show ?thesis by (simp only: n split p_items.simps append.simps append_assoc) (simp add: skip_ws_Cons json_ws_def)
  qed
qed simp

definition field_text :: "string \<times> js \<Rightarrow> string" where
  "field_text p = quoted (fst p) @ CHR '':'' # json_text (snd p)"

lemma p_fields_text:
  assumes "\<And>p. p \<in> set fs \<Longrightarrow> reads (snd p)" "fs \<noteq> []" "2 * length (commas (map field_text fs)) < n"
  shows "p_fields n (commas (map field_text fs) @ CHR ''}'' # r) = Some (fs, r)"
  using assms
proof (induction fs arbitrary: n)
  case (Cons p fs)
  obtain m where n: "n = Suc m" using Cons.prems(3) by (cases n) auto
  obtain k v where p: "p = (k, v)" by (cases p)
  have v: "reads v" using Cons.prems(1) p by force
  have key: "field_text p @ u = CHR 0x22 # (concat (map esc k) @ CHR 0x22 # CHR '':'' # (json_text v @ u))" for u
    by (simp add: field_text_def p quoted_def)
  show ?case
  proof (cases fs)
    case Nil
    have "p_value m (json_text v @ CHR ''}'' # r) = Some (v, CHR ''}'' # r)"
      by (rule readsD[OF v]) (use Cons.prems(3) Nil n p in \<open>simp_all add: field_text_def\<close>)
    then show ?thesis by (simp add: Nil n key p_string_body skip_ws_Cons json_ws_def) (simp add: p)
  next
    case (Cons q qs)
    let ?rest = "commas (map field_text fs) @ CHR ''}'' # r"
    have split: "commas (map field_text (p # fs)) = field_text p @ CHR '','' # commas (map field_text fs)"
      using Cons by simp
    have "p_value m (json_text v @ CHR '','' # ?rest) = Some (v, CHR '','' # ?rest)"
      by (rule readsD[OF v]) (use Cons.prems(3) n split p in \<open>simp_all add: field_text_def\<close>)
    moreover have "p_fields m ?rest = Some (fs, r)"
      by (rule Cons.IH) (use Cons.prems n split Cons in simp_all)
    ultimately show ?thesis
      by (simp only: n split p_fields.simps append.simps append_assoc key)
        (simp add: skip_ws_Cons json_ws_def p_string_body p)
  qed
qed simp


lemma num_value_text:
  assumes "wf_js (JNum n)" "decimals (JNum n)"
  shows "num_value (num_text n) = Some n"
  using assms num_value_int by (cases n) auto

lemma text_head_cases:
  assumes "wf_js (JNum n)"
  obtains c t where "num_text n = c # t" "c \<noteq> CHR 0x22" "c \<noteq> CHR ''[''" "c \<noteq> CHR ''{''" "c \<noteq> CHR ''n''" "c \<noteq> CHR ''t''" "c \<noteq> CHR ''f''"
proof (cases "num_text n")
  case Nil
  then show ?thesis using num_text_chars[OF assms] by simp
next
  case (Cons c t)
  then have "num_char c" using num_text_chars[OF assms] by simp
  then show ?thesis using Cons not_num_chars by (intro that[of c t]) auto
qed

lemma reads_num: "wf_js (JNum n) \<Longrightarrow> decimals (JNum n) \<Longrightarrow> reads (JNum n)"
proof -
  assume a: "wf_js (JNum n)" "decimals (JNum n)"
  obtain c t where h: "num_text n = c # t" "c \<noteq> CHR 0x22" "c \<noteq> CHR ''[''" "c \<noteq> CHR ''{''" "c \<noteq> CHR ''n''" "c \<noteq> CHR ''t''" "c \<noteq> CHR ''f''"
    by (rule text_head_cases[OF a(1)])
  show ?thesis unfolding reads_def
  proof (intro allI impI)
    fix k r assume r: "closes r" and k: "2 * length (json_text (JNum n)) \<le> k"
    obtain m where m: "k = Suc m" using k h(1) by (cases k) auto
    have s: "skip_ws (c # t @ r) = c # t @ r" using skip_ws_text[OF a(1), of r] h(1) by simp
    have "list_all num_char (num_text n)" using num_text_chars[OF a(1)] by simp
    note tk = numeral_take[OF this r]
    show "p_value k (json_text (JNum n) @ r) = Some (JNum n, r)"
      using tk num_value_text[OF a] h by (simp add: m s starts_with_def)
  qed
qed

lemma reads_const: "reads JNull" "reads (JBool True)" "reads (JBool False)"
proof -
  have "p_value (Suc m) (''null'' @ r) = Some (JNull, r)" "p_value (Suc m) (''true'' @ r) = Some (JBool True, r)"
    "p_value (Suc m) (''false'' @ r) = Some (JBool False, r)" for m r
    by (simp_all add: skip_ws_Cons json_ws_def starts_with_def)
  then show "reads JNull" "reads (JBool True)" "reads (JBool False)"
    unfolding reads_def by (metis Suc_n_not_le_n json_text.simps(2) json_text.simps(3) length_0_conv list.distinct(1) list.size(3) mult_is_0 not0_implies_Suc le_zero_eq zero_neq_numeral)+
qed

lemma reads_str: "reads (JStr s)"
  unfolding reads_def
proof (intro allI impI)
  fix k :: nat and r assume "2 * length (json_text (JStr s)) \<le> k"
  then obtain m where m: "k = Suc m" by (cases k) (auto simp: quoted_def)
  have "json_text (JStr s) @ r = CHR 0x22 # (concat (map esc s) @ CHR 0x22 # r)" by (simp add: quoted_def)
  then show "p_value k (json_text (JStr s) @ r) = Some (JStr s, r)"
    by (simp add: m skip_ws_Cons json_ws_def p_string_body del: json_text.simps)
qed


lemma reads_arr:
  assumes "\<And>v. v \<in> set xs \<Longrightarrow> reads v" "list_all wf_js xs"
  shows "reads (JArr xs)"
  unfolding reads_def
proof (intro allI impI)
  fix k :: nat and r assume k: "2 * length (json_text (JArr xs)) \<le> k"
  then obtain m where m: "k = Suc m" by (cases k) auto
  show "p_value k (json_text (JArr xs) @ r) = Some (JArr xs, r)"
  proof (cases xs)
    case Nil
    then show ?thesis by (simp add: m skip_ws_Cons json_ws_def starts_with_def)
  next
    case (Cons v vs)
    let ?rest = "commas (map json_text xs) @ CHR '']'' # r"
    have v: "wf_js v" using assms(2) Cons by simp
    obtain w where w: "?rest = json_text v @ w" using Cons by simp
    have "skip_ws ?rest = ?rest" using skip_ws_text[OF v] by (simp only: w)
    moreover have "\<not> starts_with ?rest '']''"
      unfolding w using json_text_open[OF v] json_text_head(1)[OF v] by (cases "json_text v") (auto simp: starts_with_def)
    moreover have "p_items m ?rest = Some (xs, r)"
      by (rule p_items_text) (use assms(1) k m Cons in auto)
    ultimately have "p_value (Suc m) (CHR ''['' # ?rest) = Some (JArr xs, r)"
      by (simp only: p_value.simps) (simp add: skip_ws_Cons json_ws_def)
    then show ?thesis by (simp add: m)
  qed
qed

definition ordered_text :: "(string \<times> js) list \<Rightarrow> string" where
  "ordered_text fs = CHR ''{'' # commas (map field_text fs) @ [CHR ''}'']"

lemma p_value_ordered:
  assumes "\<And>p. p \<in> set fs \<Longrightarrow> reads (snd p)" "2 * length (ordered_text fs) \<le> k"
  shows "p_value k (ordered_text fs @ r) = Some (JObj (mk_fields (rev fs)), r)"
proof -
  obtain m where m: "k = Suc m" using assms(2) by (cases k) (auto simp: ordered_text_def)
  show ?thesis
  proof (cases fs)
    case Nil
    then show ?thesis by (simp add: m ordered_text_def skip_ws_Cons json_ws_def starts_with_def mk_fields_def)
  next
    case (Cons p ps)
    let ?rest = "commas (map field_text fs) @ CHR ''}'' # r"
    obtain w where w: "?rest = CHR 0x22 # w" using Cons by (simp add: field_text_def quoted_def)
    have "skip_ws ?rest = ?rest" "\<not> starts_with ?rest ''}''" unfolding w by (simp_all add: skip_ws_Cons json_ws_def starts_with_def)
    moreover have "p_fields m ?rest = Some (fs, r)"
      by (rule p_fields_text) (use assms m Cons in \<open>auto simp: ordered_text_def\<close>)
    ultimately have "p_value (Suc m) (CHR ''{'' # ?rest) = Some (JObj (mk_fields (rev fs)), r)"
      by (simp only: p_value.simps) (simp add: skip_ws_Cons json_ws_def)
    then show ?thesis by (simp add: m ordered_text_def)
  qed
qed

lemma mk_fields_rev: "distinct (map fst fs) \<Longrightarrow> mk_fields (rev fs) = mk_fields fs"
proof -
  assume d: "distinct (map fst fs)"
  then have "map_of (rev fs) = map_of fs" by (intro map_of_eqI) (auto simp: rev_map[symmetric] map_of_eq_Some_iff)
  then show ?thesis by (intro keys_sorted_eqI) simp_all
qed

lemma mk_fields_id: "keys_sorted fs \<Longrightarrow> mk_fields fs = fs"
  by (intro keys_sorted_eqI) simp_all

lemma ordered_text_obj: "ordered_text fs = json_text (JObj fs)"
proof -
  have "field_text = (\<lambda>p. quoted (fst p) @ CHR '':'' # json_text (snd p))" by (rule ext) (simp add: field_text_def)
  then show ?thesis by (simp add: ordered_text_def)
qed

lemma reads_wf: "wf_js v \<Longrightarrow> decimals v \<Longrightarrow> reads v"
proof (induction v rule: wf_js.induct)
  case (3 b)
  then show ?case by (cases b) (simp_all add: reads_const)
next
  case (4 n)
  then show ?case by (intro reads_num)
next
  case (6 xs)
  then show ?case by (intro reads_arr) (auto simp: list_all_iff)
next
  case (7 fs)
  have sorted: "keys_sorted fs" using 7 by simp
  have "mk_fields (rev fs) = fs"
    using mk_fields_rev[OF keys_sorted_distinct[OF sorted]] mk_fields_id[OF sorted] by simp
  moreover have "\<And>p. p \<in> set fs \<Longrightarrow> reads (snd p)" using 7 by (auto simp: list_all_iff)
  ultimately show ?case
    using p_value_ordered[of fs] unfolding reads_def ordered_text_obj by simp
qed (simp_all add: reads_const reads_str)

lemma json_parse_text: "wf_js v \<Longrightarrow> decimals v \<Longrightarrow> json_parse (json_text v) = Some v"
  using readsD[OF reads_wf, of v "[]" "2 * length (json_text v) + 2"] by (simp add: json_parse_def closes_def skip_ws_def)

text \<open>An object literal written field by field reads back as that object.\<close>

lemma json_parse_ordered:
  assumes "\<And>p. p \<in> set fs \<Longrightarrow> wf_js (snd p) \<and> decimals (snd p)" "distinct (map fst fs)"
  shows "json_parse (ordered_text fs) = Some (mk_obj fs)"
  using p_value_ordered[of fs "2 * length (ordered_text fs) + 2" "[]"] reads_wf assms
  by (simp add: json_parse_def skip_ws_def mk_fields_rev mk_obj_def)

end
