(* ===== verification/Narration.thy ===== *)
theory Narration
  imports Json_Parse "HOL-Library.Word"
begin

unbundle bit_operations_syntax

text \<open>
  Narration carried in signed thinking blocks (\<open>threads/anthropic-narration.mjs\<close>): a signature is base64
  of a protobuf message whose field 2.1.8 names the channel; a thinking block on the narration channel is
  shown as text. Bytes are 8-bit words. \<open>atob\<close> and \<open>TextDecoder\<close> are modelled as far as the code uses them.
\<close>

type_synonym byte = "8 word"

section \<open>Protobuf fields\<close>

fun varint :: "nat \<Rightarrow> nat \<Rightarrow> byte list \<Rightarrow> (nat \<times> byte list) option" where
  "varint shift value [] = None"
| "varint shift value (byte # rest) =
     (if 53 \<le> shift then None
      else let value' = value + unat (byte AND 127) * 2 ^ shift in
        if int value' > max_safe then None
        else if byte < 128 then Some (value', rest) else varint (shift + 7) value' rest)"

lemma varint_shorter: "varint sh v bs = Some (x, r) \<Longrightarrow> length r < length bs"
  by (induction sh v bs rule: varint.induct) (auto simp: Let_def split: if_split_asm)

type_synonym pb_field = "nat \<times> byte list option"

text \<open>One field: its number, its payload when length-delimited, and the bytes after it.\<close>

definition pb_field :: "byte list \<Rightarrow> (pb_field \<times> byte list) option" where
  "pb_field bytes = (case varint 0 0 bytes of None \<Rightarrow> None | Some (key, rest) \<Rightarrow>
     if key < 8 then None else let number = key div 8; wire = key mod 8 in
       if wire = 0 then (case varint 0 0 rest of None \<Rightarrow> None | Some (_, r) \<Rightarrow> Some ((number, None), r))
       else if wire = 2 then (case varint 0 0 rest of None \<Rightarrow> None | Some (len, r) \<Rightarrow>
          if len > length r then None else Some ((number, Some (take len r)), drop len r))
       else if wire = 1 \<or> wire = 5 then (let skip = if wire = 1 then 8 else 4 in
          if skip > length rest then None else Some ((number, None), drop skip rest))
       else None)"

lemma pb_field_shorter: "pb_field bs = Some (f, r) \<Longrightarrow> length r < length bs"
  unfolding pb_field_def
  by (auto simp: Let_def dest!: varint_shorter split: option.split_asm if_split_asm) linarith+

function signatureFields :: "byte list \<Rightarrow> pb_field list option" where
  "signatureFields bytes = (if bytes = [] then Some [] else case pb_field bytes of None \<Rightarrow> None
     | Some (field, rest) \<Rightarrow> map_option (Cons field) (signatureFields rest))"
  by pat_completeness auto
termination
  by (relation "measure length") (auto dest: pb_field_shorter)

declare signatureFields.simps [simp del]

section \<open>Signatures\<close>

definition base64_index :: "char \<Rightarrow> nat option" where
  "base64_index c = (let n = of_char c :: nat in
     if 65 \<le> n \<and> n \<le> 90 then Some (n - 65) else if 97 \<le> n \<and> n \<le> 122 then Some (n - 71)
     else if 48 \<le> n \<and> n \<le> 57 then Some (n + 4) else if c = CHR ''+'' then Some 62
     else if c = CHR ''/'' then Some 63 else None)"

text \<open>The test \<open>/^[A-Za-z0-9+/]+={0,2}$/\<close>.\<close>

definition base64_text :: "string \<Rightarrow> bool" where
  "base64_text s = (let body = takeWhile (\<lambda>c. base64_index c \<noteq> None) s; tail = dropWhile (\<lambda>c. base64_index c \<noteq> None) s in
     body \<noteq> [] \<and> tail \<in> {[], ''='', ''==''})"

text \<open>Four sextets give three bytes; two or three left over give one or two, the remaining bits dropped.\<close>

fun sextets :: "nat list \<Rightarrow> byte list" where
  "sextets (a # b # c # d # rest) =
     word_of_nat (4 * a + b div 16) # word_of_nat (16 * (b mod 16) + c div 4) # word_of_nat (64 * (c mod 4) + d) # sextets rest"
| "sextets [a, b, c] = [word_of_nat (4 * a + b div 16), word_of_nat (16 * (b mod 16) + c div 4)]"
| "sextets [a, b] = [word_of_nat (4 * a + b div 16)]"
| "sextets _ = []"

definition unpadded :: "string \<Rightarrow> string" where
  "unpadded s = (if length s mod 4 = 0 then
     (if drop (length s - 2) s = ''=='' then take (length s - 2) s
      else if drop (length s - 1) s = ''='' then take (length s - 1) s else s) else s)"

definition atob :: "string \<Rightarrow> byte list option" where
  "atob s = (let u = unpadded s in
     if length u mod 4 = 1 \<or> list_ex (\<lambda>c. base64_index c = None) u then None
     else Some (sextets (map (\<lambda>c. the (base64_index c)) u)))"

definition ascii :: "string \<Rightarrow> byte list" where
  "ascii s = map (\<lambda>c. word_of_nat (of_char c)) s"

text \<open>A decoder drops a byte order mark; other bytes decode to an ASCII text only if they are its characters.\<close>

definition without_mark :: "byte list \<Rightarrow> byte list" where
  "without_mark b = (if take 3 b = [0xEF, 0xBB, 0xBF] then drop 3 b else b)"

datatype channel = Narration_channel | Thinking_channel

definition channel_named :: "byte list \<Rightarrow> channel option" where
  "channel_named bytes = (let b = without_mark bytes in
     if b = ascii ''narration'' then Some Narration_channel
     else if b = ascii ''thinking'' then Some Thinking_channel else None)"

definition descend :: "nat \<Rightarrow> byte list \<Rightarrow> byte list option" where
  "descend number bytes = (case signatureFields bytes of None \<Rightarrow> None | Some fs \<Rightarrow>
     (case filter (\<lambda>f. fst f = number) fs of [f] \<Rightarrow> snd f | _ \<Rightarrow> None))"

fun descend_all :: "nat list \<Rightarrow> byte list \<Rightarrow> byte list option" where
  "descend_all [] bytes = Some bytes"
| "descend_all (n # ns) bytes = (case descend n bytes of None \<Rightarrow> None | Some b \<Rightarrow> descend_all ns b)"

definition anthropicSignatureChannel :: "js \<Rightarrow> channel option" where
  "anthropicSignatureChannel v = (let signature = str_of v in
     if \<not> is_string v \<or> signature = [] \<or> length signature > 65536 \<or> \<not> base64_text signature \<or> length signature mod 4 = 1
     then None
     else case atob signature of None \<Rightarrow> None
       | Some bytes \<Rightarrow> (case descend_all [2, 1, 8] bytes of None \<Rightarrow> None | Some b \<Rightarrow> channel_named b))"

section \<open>Blocks and messages\<close>

definition signature_record :: "js \<Rightarrow> string" where
  "signature_record signature = ordered_text [(''type'', JStr ''anthropic-narration''), (''signature'', signature)]"

definition anthropicNarrationText :: "js \<Rightarrow> js option" where
  "anthropicNarrationText block =
     (if js_get block ''type'' \<noteq> JStr ''thinking'' \<or> truthy (js_get block ''redacted'') \<or> \<not> is_string (js_get block ''thinking'') then None
      else if anthropicSignatureChannel (js_get block ''thinkingSignature'') \<noteq> Some Narration_channel then None
      else Some (mk_obj [(''type'', JStr ''text''), (''text'', js_get block ''thinking''),
        (''textSignature'', JStr (signature_record (js_get block ''thinkingSignature'')))]))"

definition replay_prefix :: string where
  "replay_prefix = CHR ''{'' # quoted ''type'' @ '':'' @ quoted ''anthropic-narration'' @ '',''"

definition anthropicNarrationReplaySignature :: "js \<Rightarrow> string option" where
  "anthropicNarrationReplaySignature value =
     (if \<not> is_string value \<or> \<not> starts_with (str_of value) replay_prefix then None
      else case json_parse (str_of value) of None \<Rightarrow> None
        | Some r \<Rightarrow> if js_get r ''type'' \<noteq> JStr ''anthropic-narration'' \<or> \<not> is_string (js_get r ''signature'') then None
            else if anthropicSignatureChannel (js_get r ''signature'') = Some Narration_channel then Some (str_of (js_get r ''signature'')) else None)"

definition project_block :: "js \<Rightarrow> js" where
  "project_block block = (if \<not> is_object block then block
     else case anthropicNarrationText block of None \<Rightarrow> block | Some t \<Rightarrow> t)"

definition projectAnthropicNarrationMessage :: "js \<Rightarrow> js" where
  "projectAnthropicNarrationMessage message =
     (if js_get message ''role'' \<noteq> JStr ''assistant'' \<or> js_get message ''api'' \<noteq> JStr ''anthropic-messages''
         \<or> \<not> is_array (js_get message ''content'') then message
      else let content = map project_block (arr_of (js_get message ''content'')) in
        if list_ex (\<lambda>b. is_object b \<and> anthropicNarrationText b \<noteq> None) (arr_of (js_get message ''content''))
        then JObj (oput ''content'' (JArr content) (fields_of message)) else message)"

section \<open>What the projection does\<close>

lemma narration_text_object: "anthropicNarrationText b = Some t \<Longrightarrow> is_object t \<and> js_get t ''type'' = JStr ''text''"
  by (auto simp: anthropicNarrationText_def split: if_split_asm)

lemma project_block_stable [simp]: "project_block (project_block b) = project_block b"
proof (cases "\<exists>t. is_object b \<and> anthropicNarrationText b = Some t")
  case True
  then obtain t where t: "is_object b" "anthropicNarrationText b = Some t" by blast
  have "anthropicNarrationText t = None" using narration_text_object[OF t(2)] by (simp add: anthropicNarrationText_def)
  then show ?thesis using t by (simp add: project_block_def)
next
  case False
  then show ?thesis by (auto simp: project_block_def split: option.split)
qed

lemma signature_channel_string: "anthropicSignatureChannel v = Some c \<Longrightarrow> \<exists>s. v = JStr s"
  by (cases v) (auto simp: anthropicSignatureChannel_def Let_def)

lemma record_starts: "starts_with (signature_record s) replay_prefix"
  by (simp add: starts_with_prefix signature_record_def replay_prefix_def ordered_text_def field_text_def)

lemma parse_record: "json_parse (signature_record (JStr s)) = Some (mk_obj [(''type'', JStr ''anthropic-narration''), (''signature'', JStr s)])"
  unfolding signature_record_def by (rule json_parse_ordered) auto

text \<open>Words shown from a signed thinking block can be sent back under the signature they came with: the record stored
  with the projected text replays exactly the block's signature, and the projected text is the block's
  thinking, unchanged by a second projection.\<close>

theorem narration_replay:
  assumes "anthropicNarrationText block = Some shown"
  shows "anthropicNarrationReplaySignature (js_get shown ''textSignature'') = Some (str_of (js_get block ''thinkingSignature''))
    \<and> js_get shown ''text'' = js_get block ''thinking'' \<and> project_block shown = shown"
proof -
  let ?sig = "js_get block ''thinkingSignature''"
  have ch: "anthropicSignatureChannel ?sig = Some Narration_channel"
    and shown: "shown = mk_obj [(''type'', JStr ''text''), (''text'', js_get block ''thinking''), (''textSignature'', JStr (signature_record ?sig))]"
    using assms by (auto simp: anthropicNarrationText_def split: if_split_asm)
  obtain s where s: "?sig = JStr s" using signature_channel_string[OF ch] by blast
  have "anthropicNarrationText shown = None" using narration_text_object[OF assms] by (simp add: anthropicNarrationText_def)
  then have stable: "project_block shown = shown" by (simp add: project_block_def)
  have "anthropicNarrationReplaySignature (JStr (signature_record ?sig)) = Some s"
    unfolding anthropicNarrationReplaySignature_def s using ch s by (simp add: record_starts parse_record)
  then show ?thesis using stable s shown by simp
qed


definition sample_block :: js where
  "sample_block = mk_obj [(''type'', JStr ''thinking''), (''thinking'', JStr ''Looking at the tests.''),
     (''thinkingSignature'', JStr ''Eg0KC0IJbmFycmF0aW9u'')]"

definition sample_bytes :: "byte list" where
  "sample_bytes = [18, 13, 10, 11, 66, 9, 110, 97, 114, 114, 97, 116, 105, 111, 110]"

lemma sample_atob: "atob ''Eg0KC0IJbmFycmF0aW9u'' = Some sample_bytes"
  by (simp add: atob_def unpadded_def base64_index_def sample_bytes_def Let_def)

lemma sample_text: "base64_text ''Eg0KC0IJbmFycmF0aW9u''"
  by (simp add: base64_text_def base64_index_def Let_def)

lemma sample_descend: "descend_all [2, 1, 8] sample_bytes = Some [110, 97, 114, 114, 97, 116, 105, 111, 110]"
  by (simp add: sample_bytes_def descend_def signatureFields.simps pb_field_def max_safe_def)

lemma sample_narration: "anthropicNarrationText sample_block \<noteq> None"
  by (simp add: sample_block_def anthropicNarrationText_def anthropicSignatureChannel_def sample_atob sample_text sample_descend
      channel_named_def ascii_def without_mark_def truthy_def del: descend_all.simps One_nat_def)

lemma narration_replay_witness:
  "\<exists>shown. anthropicNarrationText sample_block = Some shown
     \<and> anthropicNarrationReplaySignature (js_get shown ''textSignature'') = Some ''Eg0KC0IJbmFycmF0aW9u''"
proof -
  obtain shown where s: "anthropicNarrationText sample_block = Some shown" using sample_narration by blast
  have "str_of (js_get sample_block ''thinkingSignature'') = ''Eg0KC0IJbmFycmF0aW9u''" by (simp add: sample_block_def)
  then show ?thesis using s narration_replay[OF s] by simp
qed

end
