(* ===== verification/Message_Format.thy ===== *)
theory Message_Format
  imports Narration
begin

text \<open>
  The transport text of messages between threads (\<open>threads/message-format.ts\<close>): the envelope an agent
  receives, and its decoding for display. A message record has the fields the formatting reads.
\<close>

section \<open>Searching in strings\<close>

fun index_of :: "string \<Rightarrow> string \<Rightarrow> nat option" where
  "index_of p [] = (if p = [] then Some 0 else None)"
| "index_of p (c # s) = (if starts_with (c # s) p then Some 0 else map_option Suc (index_of p s))"

fun last_index_of :: "string \<Rightarrow> string \<Rightarrow> nat option" where
  "last_index_of p [] = (if p = [] then Some 0 else None)"
| "last_index_of p (c # s) = (case last_index_of p s of Some i \<Rightarrow> Some (Suc i)
     | None \<Rightarrow> if starts_with (c # s) p then Some 0 else None)"

definition replace_first :: "string \<Rightarrow> string \<Rightarrow> string \<Rightarrow> string" where
  "replace_first p q s = (case index_of p s of None \<Rightarrow> s | Some i \<Rightarrow> take i s @ q @ drop (i + length p) s)"

fun join_with :: "string \<Rightarrow> string list \<Rightarrow> string" where
  "join_with sep [] = []"
| "join_with sep [x] = x"
| "join_with sep (x # y # xs) = x @ sep @ join_with sep (y # xs)"

definition newline :: string where
  "newline = [CHR 0x0A]"

section \<open>Senders\<close>

record sender =
  sn_threadId :: string
  sn_name :: "string option"

record presentation =
  ap_sender :: sender
  ap_text :: string

datatype message_source = Explicit | Notification

record thread_message =
  tm_id :: string
  tm_threadId :: string
  tm_senderId :: "string option"
  tm_senderName :: "string option"
  tm_text :: string
  tm_source :: message_source
  tm_replyTo :: "string option"

definition agent_prefix :: string where
  "agent_prefix = ''<agent_message>'' @ newline @ ''This is an agent-to-agent message, not a user message.'' @ newline"

definition agent_suffix :: string where
  "agent_suffix = newline @ ''</agent_message>''"

definition isThreadId :: "js \<Rightarrow> bool" where
  "isThreadId v = nonblank v"

definition agentFirstName :: "string \<Rightarrow> string" where
  "agentFirstName name = takeWhile (\<lambda>c. \<not> js_space c) (js_trim name)"

definition nonempty :: "string option \<Rightarrow> string option" where
  "nonempty t = (case t of None \<Rightarrow> None | Some s \<Rightarrow> if s = [] then None else Some s)"

definition agentSenderLabel :: "sender \<Rightarrow> string" where
  "agentSenderLabel s = (case nonempty (sn_name s) of Some n \<Rightarrow> agentFirstName n
     | None \<Rightarrow> ''Agent '' @ [CHR 0xB7] @ '' '' @ take 8 (sn_threadId s))"

section \<open>Reports\<close>

definition text_block :: "js \<Rightarrow> bool" where
  "text_block b = (is_object b \<and> js_get b ''type'' = JStr ''text'' \<and> is_string (js_get b ''text''))"

definition finalText :: "js \<Rightarrow> string option" where
  "finalText message =
     (if is_string message then nonempty (Some (str_of message))
      else if \<not> (is_object message \<or> is_array message) then None
      else let content = js_get (projectAnthropicNarrationMessage message) ''content'' in
        if is_string content then nonempty (Some (str_of content))
        else if \<not> is_array content then None
        else nonempty (Some (join_with newline (map (\<lambda>b. str_of (js_get b ''text'')) (filter text_block (arr_of content))))))"

definition stated_text :: "js \<Rightarrow> string option" where
  "stated_text n = (if is_string (js_get n ''finalText'') then Some (str_of (js_get n ''finalText'')) else finalText (js_get n ''finalMessage''))"

definition notificationPresentation :: "string \<Rightarrow> string" where
  "notificationPresentation t =
     (let firstLine = (case index_of newline t of None \<Rightarrow> t | Some i \<Rightarrow> take i t);
          rest = (case index_of newline t of None \<Rightarrow> [] | Some i \<Rightarrow> drop i t) in
      case json_parse firstLine of None \<Rightarrow> t | Some n \<Rightarrow>
        if js_get n ''type'' \<noteq> JStr ''thread_idle'' \<or> \<not> is_string (js_get n ''outcome'') then t
        else let report = (case nonempty (stated_text n) of Some r \<Rightarrow> r | None \<Rightarrow> ''Work '' @ str_of (js_get n ''outcome'') @ ''.'');
                 error = (if is_string (js_get n ''error'') then str_of (js_get n ''error'') else []) in
          join_with (newline @ newline) (filter (\<lambda>s. s \<noteq> []) [report, error]) @ rest)"

text \<open>\<open>JSON.stringify\<close> of an object literal: undefined fields are left out.\<close>

definition stringify :: "(string \<times> js) list \<Rightarrow> string" where
  "stringify fs = ordered_text (map (\<lambda>p. (fst p, normalise (snd p))) (filter (\<lambda>p. snd p \<noteq> JUndef) fs))"

definition text_js :: "string option \<Rightarrow> js" where
  "text_js t = (case t of None \<Rightarrow> JNull | Some s \<Rightarrow> JStr s)"

definition serializeThreadNotification :: "js \<Rightarrow> string" where
  "serializeThreadNotification n = stringify
     ([(''type'', JStr ''thread_idle'')]
      @ (if is_string (js_get n ''title'') then [(''title'', js_get n ''title'')] else [])
      @ [(''outcome'', js_get n ''outcome''), (''finalText'', text_js (stated_text n))]
      @ (if truthy (js_get n ''error'') then [(''error'', js_get n ''error'')] else []))"

definition readableNotificationText :: "thread_message \<Rightarrow> string \<Rightarrow> string" where
  "readableNotificationText m t =
     (if tm_source m \<noteq> Notification then t
      else case json_parse (tm_text m) of None \<Rightarrow> t
        | Some n \<Rightarrow> if js_get n ''type'' \<noteq> JStr ''thread_idle'' then t
            else replace_first (tm_text m) (serializeThreadNotification n) t)"

section \<open>The envelope\<close>

definition source_text :: "message_source \<Rightarrow> string" where
  "source_text s = (case s of Explicit \<Rightarrow> ''explicit'' | Notification \<Rightarrow> ''notification'')"

definition optional_field :: "string \<Rightarrow> string option \<Rightarrow> (string \<times> js) list" where
  "optional_field k v = (case nonempty v of None \<Rightarrow> [] | Some s \<Rightarrow> [(k, JStr s)])"

definition message_metadata :: "thread_message \<Rightarrow> (string \<times> js) list" where
  "message_metadata m = [(''senderThreadId'', text_js (tm_senderId m))] @ optional_field ''senderName'' (tm_senderName m)
     @ [(''recipientThreadId'', JStr (tm_threadId m)), (''messageId'', JStr (tm_id m)), (''source'', JStr (source_text (tm_source m)))]
     @ optional_field ''replyTo'' (tm_replyTo m)"

definition formatThreadMessage :: "thread_message \<Rightarrow> string \<Rightarrow> string" where
  "formatThreadMessage m t =
     (if nonempty (tm_senderId m) = None \<and> tm_source m \<noteq> Notification then t
      else agent_prefix @ stringify (message_metadata m) @ newline @ newline @ readableNotificationText m t @ agent_suffix)"

definition historical :: "js \<Rightarrow> bool" where
  "historical d = list_all (\<lambda>p. fst p \<in> {''senderThreadId'', ''senderName''}) (fields_of d)"

definition metadata_keys :: "string list" where
  "metadata_keys = [''senderThreadId'', ''senderName'', ''recipientThreadId'', ''messageId'', ''source'', ''replyTo'']"

definition nonempty_string :: "js \<Rightarrow> bool" where
  "nonempty_string v = (is_string v \<and> str_of v \<noteq> [])"

definition metadata_ok :: "js \<Rightarrow> bool" where
  "metadata_ok d = (is_object d \<and> isThreadId (js_get d ''senderThreadId'')
     \<and> (js_get d ''senderName'' = JUndef \<or> nonblank (js_get d ''senderName''))
     \<and> (historical d
        \<or> js_get d ''source'' \<in> {JStr ''explicit'', JStr ''notification''}
          \<and> isThreadId (js_get d ''recipientThreadId'') \<and> nonempty_string (js_get d ''messageId'')
          \<and> list_all (\<lambda>p. fst p \<in> set metadata_keys) (fields_of d)
          \<and> (js_get d ''replyTo'' = JUndef \<or> nonempty_string (js_get d ''replyTo''))))"

definition agentMessagePresentation :: "string \<Rightarrow> presentation option" where
  "agentMessagePresentation t =
     (if \<not> starts_with t agent_prefix then None
      else case index_of (newline @ newline) (drop (length agent_prefix) t) of None \<Rightarrow> None | Some i \<Rightarrow>
        (let metadataEnd = length agent_prefix + i in
         case last_index_of agent_suffix t of None \<Rightarrow> None | Some bodyEnd \<Rightarrow>
           if bodyEnd < metadataEnd + 2 then None
           else case json_parse (take i (drop (length agent_prefix) t)) of None \<Rightarrow> None | Some d \<Rightarrow>
             if \<not> metadata_ok d then None
             else let notification = historical d \<or> js_get d ''source'' = JStr ''notification'';
                      body = take (bodyEnd - (metadataEnd + 2)) (drop (metadataEnd + 2) t);
                      tail = drop (bodyEnd + length agent_suffix) t in
               Some \<lparr>ap_sender = \<lparr>sn_threadId = str_of (js_get d ''senderThreadId''),
                        sn_name = (if is_string (js_get d ''senderName'') then Some (str_of (js_get d ''senderName'')) else None)\<rparr>,
                     ap_text = (if notification then notificationPresentation body else body) @ tail\<rparr>))"

section \<open>An envelope is read back\<close>

lemma index_of_fresh: "c \<notin> set u \<Longrightarrow> index_of (c # p) (u @ c # p @ w) = Some (length u)"
  by (induction u) (auto simp: starts_with_def)

lemma last_index_short: "length s < length p \<Longrightarrow> last_index_of p s = None"
  by (induction s) (auto simp: starts_with_def)

lemma last_index_end: "p \<noteq> [] \<Longrightarrow> last_index_of p (u @ p) = Some (length u)"
proof (induction u)
  case Nil
  then show ?case by (cases p) (auto simp: last_index_short starts_with_def)
qed simp

lemma esc_printable: "x \<in> set (esc c) \<Longrightarrow> 32 \<le> (of_char x :: nat)"
proof (cases rule: esc_cases[of c])
  case plain
  then have "\<not> (of_char c :: nat) < 32" by (auto simp: esc_def Let_def split: if_split_asm)
  then show "x \<in> set (esc c) \<Longrightarrow> 32 \<le> (of_char x :: nat)" using plain by auto
next
  case control
  let ?n = "of_char c :: nat"
  have "?n div 16 < 16" "?n mod 16 < 16" using control(1) by (simp_all add: div_less_iff_less_mult)
  then have "32 \<le> (of_char (hex_digit (?n div 16)) :: nat)" "32 \<le> (of_char (hex_digit (?n mod 16)) :: nat)"
    using of_char_hex_digit by simp_all
  then show "x \<in> set (esc c) \<Longrightarrow> 32 \<le> (of_char x :: nat)" using control(2) by auto
qed auto

lemma quoted_one_line: "CHR 0x0A \<notin> set (quoted s)"
proof -
  have "CHR 0x0A \<notin> set (esc c)" for c using esc_printable[of "CHR 0x0A" c] by auto
  then show ?thesis by (auto simp: quoted_def)
qed

lemma commas_set: "set (commas xs) \<subseteq> insert (CHR '','') (\<Union> (set ` set xs))"
  by (cases xs) auto

definition plain_value :: "js \<Rightarrow> bool" where
  "plain_value v = (is_string v \<or> v = JNull)"

lemma plain_fields_one_line:
  assumes "list_all (\<lambda>p. plain_value (snd p)) fs"
  shows "CHR 0x0A \<notin> set (ordered_text fs)"
proof -
  have "CHR 0x0A \<notin> set (json_text v)" if "plain_value v" for v
    using that quoted_one_line by (cases v) (auto simp: plain_value_def)
  then have "CHR 0x0A \<notin> set (field_text p)" if "p \<in> set fs" for p
    using assms that quoted_one_line by (auto simp: field_text_def list_all_iff)
  then have "CHR 0x0A \<notin> set (commas (map field_text fs))" using commas_set[of "map field_text fs"] by auto
  then show ?thesis by (auto simp: ordered_text_def)
qed

lemma stringify_plain: "list_all (\<lambda>p. plain_value (snd p)) fs \<Longrightarrow> stringify fs = ordered_text fs"
proof -
  assume p: "list_all (\<lambda>p. plain_value (snd p)) fs"
  have "plain_value v \<Longrightarrow> v \<noteq> JUndef \<and> normalise v = v" for v by (cases v) (auto simp: plain_value_def)
  then have "filter (\<lambda>p. snd p \<noteq> JUndef) fs = fs" "map (\<lambda>p. (fst p, normalise (snd p))) fs = fs"
    using p by (auto simp: list_all_iff intro!: filter_True map_idI)
  then show ?thesis by (simp only: stringify_def)
qed

lemma metadata_plain: "list_all (\<lambda>p. plain_value (snd p)) (message_metadata m)"
  by (auto simp: message_metadata_def optional_field_def plain_value_def text_js_def split: option.split)

lemma metadata_distinct: "distinct (map fst (message_metadata m))"
  by (auto simp: message_metadata_def optional_field_def split: option.split)

lemma parse_metadata: "json_parse (stringify (message_metadata m)) = Some (mk_obj (message_metadata m))"
proof -
  have "plain_value v \<Longrightarrow> wf_js v \<and> decimals v" for v by (cases v) (auto simp: plain_value_def)
  then show ?thesis
    using metadata_plain[of m] metadata_distinct[of m]
    by (auto simp: stringify_plain[OF metadata_plain] list_all_iff intro!: json_parse_ordered)
qed


lemma mk_obj_keys: "list_all (\<lambda>p. P (fst p)) (fields_of (mk_obj fs)) \<longleftrightarrow> list_all (\<lambda>p. P (fst p)) fs"
proof -
  have "fst ` set (fields_of (mk_obj fs)) = fst ` set fs" by (simp add: mk_obj_def)
  then show ?thesis by (force simp: list_all_iff)
qed

lemma historical_obj: "historical (mk_obj fs) \<longleftrightarrow> list_all (\<lambda>p. fst p \<in> {''senderThreadId'', ''senderName''}) fs"
  unfolding historical_def by (rule mk_obj_keys)

lemma known_obj: "list_all (\<lambda>p. fst p \<in> set metadata_keys) (fields_of (mk_obj fs)) \<longleftrightarrow> list_all (\<lambda>p. fst p \<in> set metadata_keys) fs"
  by (rule mk_obj_keys)

definition addressed :: "thread_message \<Rightarrow> bool" where
  "addressed m = (js_trim (tm_threadId m) \<noteq> [] \<and> tm_id m \<noteq> []
     \<and> (case tm_senderId m of None \<Rightarrow> False | Some s \<Rightarrow> js_trim s \<noteq> [])
     \<and> (case nonempty (tm_senderName m) of None \<Rightarrow> True | Some n \<Rightarrow> js_trim n \<noteq> []))"

lemma nonempty_Some: "nonempty v = Some s \<Longrightarrow> v = Some s \<and> s \<noteq> []"
  by (auto simp: nonempty_def split: option.split_asm if_split_asm)

lemma metadata_reads:
  assumes "tm_senderId m = Some s"
  defines "d \<equiv> mk_obj (message_metadata m)"
  shows "js_get d ''senderThreadId'' = JStr s"
    "js_get d ''senderName'' = (case nonempty (tm_senderName m) of None \<Rightarrow> JUndef | Some n \<Rightarrow> JStr n)"
    "js_get d ''recipientThreadId'' = JStr (tm_threadId m)" "js_get d ''messageId'' = JStr (tm_id m)"
    "js_get d ''source'' = JStr (source_text (tm_source m))"
    "js_get d ''replyTo'' = (case nonempty (tm_replyTo m) of None \<Rightarrow> JUndef | Some n \<Rightarrow> JStr n)"
    "\<not> historical d" "is_object d" "list_all (\<lambda>p. fst p \<in> set metadata_keys) (fields_of d)"
  unfolding d_def historical_obj known_obj
  using assms(1)
  by (auto simp: message_metadata_def optional_field_def text_js_def metadata_keys_def split: option.split)

lemma nonempty_string_case: "(case nonempty v of None \<Rightarrow> JUndef | Some n \<Rightarrow> JStr n) = JUndef
   \<or> nonempty_string (case nonempty v of None \<Rightarrow> JUndef | Some n \<Rightarrow> JStr n)"
  by (auto simp: nonempty_string_def dest: nonempty_Some split: option.split)

lemma metadata_accepted:
  assumes "addressed m"
  shows "metadata_ok (mk_obj (message_metadata m))"
proof -
  obtain s where s: "tm_senderId m = Some s" "js_trim s \<noteq> []"
    using assms by (auto simp: addressed_def split: option.split_asm)
  have name: "(case nonempty (tm_senderName m) of None \<Rightarrow> JUndef | Some n \<Rightarrow> JStr n) = JUndef
     \<or> nonblank (case nonempty (tm_senderName m) of None \<Rightarrow> JUndef | Some n \<Rightarrow> JStr n)"
    using assms by (auto simp: addressed_def nonblank_def split: option.split_asm option.split)
  have src: "JStr (source_text (tm_source m)) \<in> {JStr ''explicit'', JStr ''notification''}"
    by (cases "tm_source m") (simp_all add: source_text_def)
  show ?thesis
    unfolding metadata_ok_def metadata_reads[OF s(1)] isThreadId_def
    using s(2) assms name src nonempty_string_case[of "tm_replyTo m"] metadata_reads(7-9)[OF s(1)]
    by (simp add: nonblank_def nonempty_string_def addressed_def)
qed

lemma envelope_shown:
  assumes "addressed m"
  shows "agentMessagePresentation (formatThreadMessage m t) = Some
    \<lparr>ap_sender = \<lparr>sn_threadId = the (tm_senderId m), sn_name = nonempty (tm_senderName m)\<rparr>,
     ap_text = (if tm_source m = Notification then notificationPresentation (readableNotificationText m t) else t)\<rparr>"
proof -
  obtain s where s: "tm_senderId m = Some s" "js_trim s \<noteq> []"
    using assms by (auto simp: addressed_def split: option.split_asm)
  have "s \<noteq> []" using s(2) by (auto simp: js_trim_def)
  then have sent: "nonempty (tm_senderId m) = Some s" by (simp add: s(1) nonempty_def)
  define md where "md = stringify (message_metadata m)"
  define body where "body = readableNotificationText m t"
  define rest where "rest = md @ newline @ newline @ body @ agent_suffix"
  have f: "formatThreadMessage m t = agent_prefix @ rest"
    using sent by (simp add: formatThreadMessage_def md_def body_def rest_def)
  have "CHR 0x0A \<notin> set md" unfolding md_def stringify_plain[OF metadata_plain] by (rule plain_fields_one_line[OF metadata_plain])
  then have i: "index_of (newline @ newline) rest = Some (length md)"
    using index_of_fresh[of "CHR 0x0A" md newline "body @ agent_suffix"] by (simp add: rest_def newline_def)
  have e: "last_index_of agent_suffix (agent_prefix @ rest) = Some (length (agent_prefix @ md @ newline @ newline @ body))"
    using last_index_end[of agent_suffix "agent_prefix @ md @ newline @ newline @ body"] by (simp add: rest_def agent_suffix_def)
  have n: "length newline = 1" by (simp add: newline_def)
  have md_text: "take (length md) rest = md" by (simp add: rest_def)
  have body_text: "take (length body) (drop (length agent_prefix + length md + 2) (agent_prefix @ rest)) = body"
    by (simp add: rest_def n)
  have tail: "drop (length (agent_prefix @ md @ newline @ newline @ body) + length agent_suffix) (agent_prefix @ rest) = []"
    by (simp add: rest_def)
  have explicit: "body = t" if "tm_source m = Explicit" using that by (simp add: body_def readableNotificationText_def)
  show ?thesis
    unfolding f agentMessagePresentation_def
    using i e md_text body_text tail explicit metadata_accepted[OF assms] metadata_reads[OF s(1)] parse_metadata[of m, folded md_def] s(1)
    by (cases "tm_source m") (simp_all add: starts_with_prefix Let_def n source_text_def body_def split: option.split)
qed

text \<open>C14: What an agent is sent reads back as what was said: the envelope of a message decodes to its sender and to
  exactly its words, even when the words contain the envelope's own markers; a notification decodes to
  the presentation of its report.\<close>

theorem envelope_roundtrip:
  assumes "addressed m"
  shows "agentMessagePresentation (formatThreadMessage m t) = Some
    \<lparr>ap_sender = \<lparr>sn_threadId = the (tm_senderId m), sn_name = nonempty (tm_senderName m)\<rparr>,
     ap_text = (if tm_source m = Notification then notificationPresentation (readableNotificationText m t) else t)\<rparr>"
  by (rule envelope_shown[OF assms])

definition sample_message :: thread_message where
  "sample_message = \<lparr>tm_id = ''m1'', tm_threadId = ''t2'', tm_senderId = Some ''t1'', tm_senderName = Some ''Ada'', tm_text = ''hi'',
     tm_source = Explicit, tm_replyTo = None\<rparr>"

lemma envelope_roundtrip_witness:
  "agentMessagePresentation (formatThreadMessage sample_message ''a</agent_message>b'') = Some
     \<lparr>ap_sender = \<lparr>sn_threadId = ''t1'', sn_name = Some ''Ada''\<rparr>, ap_text = ''a</agent_message>b''\<rparr>"
proof -
  have "addressed sample_message"
    by (simp add: addressed_def sample_message_def nonempty_def js_trim_Nil blank_def js_space_def)
  then show ?thesis using envelope_roundtrip[of sample_message "''a</agent_message>b''"]
    by (simp add: sample_message_def nonempty_def)
qed

end
