(* ===== verification/Transcript_Entries.thy ===== *)
theory Transcript_Entries
  imports Message_Format State_Validation
begin

text \<open>
  Rows of the conversation view: \<open>apps/remote/web/src/features/conversation/transcript-entries.ts\<close> (from
  the heads the stream delivers) and the functions of \<open>agent-message.tsx\<close> on them. A head is the checked
  JSON value; an entry has the fields the view reads, with absent optional fields \<open>None\<close> or \<open>JUndef\<close>. The
  ellipsis character lies outside the model's characters and is stood for by code 0x85.
\<close>

section \<open>Entries\<close>

datatype entry_kind = System_entry | Tool_entry | User_entry | Assistant_entry | Thinking_entry | ToolCall_entry | Notice_entry
datatype visibility = Hidden | Visible
datatype origin = Human_origin | Machine_origin

record context_entry =
  ce_key :: string
  ce_signature :: string
  ce_kind :: entry_kind
  ce_visibility :: "visibility option"
  ce_origin :: "origin option"
  ce_sender :: "sender option"
  ce_label :: "string option"
  ce_text :: "string option"
  ce_truncated :: bool
  ce_preview :: js
  ce_itemId :: js
  ce_seq :: js
  ce_size :: js
  ce_bodyLoaded :: bool
  ce_argsTruncated :: js
  ce_timestamp :: js
  ce_inputId :: "string option"
  ce_inputState :: js
  ce_identity :: js
  ce_reactions :: js
  ce_reply :: js
  ce_metrics :: js
  ce_toolCall :: js
  ce_toolResult :: js
  ce_time :: js
  ce_streaming :: bool
  ce_live :: bool

definition blank_entry :: "string \<Rightarrow> string \<Rightarrow> entry_kind \<Rightarrow> context_entry" where
  "blank_entry key signature kind = \<lparr>ce_key = key, ce_signature = signature, ce_kind = kind, ce_visibility = None, ce_origin = None,
     ce_sender = None, ce_label = None, ce_text = None, ce_truncated = False, ce_preview = JUndef, ce_itemId = JUndef, ce_seq = JUndef,
     ce_size = JUndef, ce_bodyLoaded = False, ce_argsTruncated = JUndef, ce_timestamp = JUndef, ce_inputId = None, ce_inputState = JUndef,
     ce_identity = JUndef, ce_reactions = JUndef, ce_reply = JUndef, ce_metrics = JUndef, ce_toolCall = JUndef, ce_toolResult = JUndef,
     ce_time = JUndef, ce_streaming = False, ce_live = False\<rparr>"

definition ellipsis :: string where
  "ellipsis = [CHR 0x85]"

definition agent_name :: string where
  "agent_name = ''Kenan''"

definition text_of :: "js \<Rightarrow> string option" where
  "text_of v = (case v of JStr s \<Rightarrow> Some s | _ \<Rightarrow> None)"

text \<open>\<open>a ?? b\<close>, and \<open>JSON.stringify(a ?? b)\<close>.\<close>

definition coalesce :: "js \<Rightarrow> js \<Rightarrow> js" where
  "coalesce a b = (if nullish a then b else a)"

definition json_of :: "js \<Rightarrow> string" where
  "json_of v = json_text (normalise v)"

definition sender_js :: "sender \<Rightarrow> (string \<times> js) list" where
  "sender_js s = [(''threadId'', JStr (sn_threadId s))] @ (case sn_name s of None \<Rightarrow> [] | Some n \<Rightarrow> [(''name'', JStr n)])"

definition sender_of :: "js \<Rightarrow> sender option" where
  "sender_of v = (if nullish v then None
     else Some \<lparr>sn_threadId = str_of (js_get v ''threadId''), sn_name = text_of (js_get v ''name'')\<rparr>)"

section \<open>Messages between agents\<close>

definition presentAgentMessage :: "context_entry \<Rightarrow> context_entry" where
  "presentAgentMessage e =
     (if ce_kind e \<noteq> User_entry \<or> ce_origin e = Some Human_origin then e
      else let envelope = (if ce_sender e \<noteq> None then None
                 else case ce_text e of None \<Rightarrow> None | Some t \<Rightarrow> agentMessagePresentation t);
               sender = (case ce_sender e of Some s \<Rightarrow> Some s | None \<Rightarrow> map_option ap_sender envelope) in
        case sender of None \<Rightarrow> e | Some s \<Rightarrow>
          let label = agentSenderLabel s;
              body = (case envelope of Some p \<Rightarrow> Some (ap_text p) | None \<Rightarrow> ce_text e) in
          if ce_sender e \<noteq> None \<and> ce_label e = Some label \<and> ce_text e = body then e
          else e\<lparr>ce_label := Some label, ce_text := body, ce_sender := Some s,
                 ce_signature := ce_signature e @ '':agent:'' @ ordered_text (sender_js s) @ '':'' @ label\<rparr>)"

datatype delivery = Sending | Delivered | Rejected string

datatype outgoing = Send_message string string delivery | Spawn_message "string option" string delivery

definition lower_text :: "string \<Rightarrow> string" where
  "lower_text s = map lower s"

definition toolName :: "js \<Rightarrow> string" where
  "toolName v = (let n = lower_text (js_String (coalesce v (JStr []))) in
     if starts_with n ''functions.'' then drop 10 n else n)"

definition message_delivery :: "context_entry \<Rightarrow> delivery" where
  "message_delivery e = (if \<not> truthy (ce_toolResult e) then Sending
     else if truthy (js_get (ce_toolResult e) ''isError'')
     then Rejected (let p = js_get (ce_toolResult e) ''preview'' in
       if truthy p then js_String p else ''The thread service rejected the message'')
     else Delivered)"

definition outgoingAgentMessage :: "context_entry \<Rightarrow> js \<Rightarrow> outgoing option" where
  "outgoingAgentMessage e body =
     (if ce_kind e \<noteq> ToolCall_entry then None
      else let args = (if js_get body ''kind'' = JStr ''toolCall'' then js_get body ''arguments''
                  else coalesce (js_get (ce_toolCall e) ''arguments'') (JObj []));
               tool = toolName (js_get (ce_toolCall e) ''name'');
               to = js_get args ''threadId''; title = js_get args ''title'' in
        if \<not> (is_object args \<or> is_array args) then None
        else if tool = ''thread_send'' then
          (if nonempty_string to \<and> is_string (js_get args ''text'')
           then Some (Send_message (str_of to) (str_of (js_get args ''text'')) (message_delivery e)) else None)
        else if tool = ''thread_spawn'' then
          (if is_string (js_get args ''message'')
           then Some (Spawn_message (if nonempty_string title then Some (str_of title) else None)
             (str_of (js_get args ''message'')) (message_delivery e)) else None)
        else None)"

text \<open>The complete words of an outgoing message: \<open>load\<close> is the answer of the body request.\<close>

definition outgoing_text :: "outgoing \<Rightarrow> string" where
  "outgoing_text m = (case m of Send_message _ t _ \<Rightarrow> t | Spawn_message _ t _ \<Rightarrow> t)"

definition copyOutgoingMessage :: "context_entry \<Rightarrow> js \<Rightarrow> string + string" where
  "copyOutgoingMessage e load =
     (let body = (if truthy (ce_argsTruncated e) then load else JUndef) in
      if truthy (ce_argsTruncated e) \<and> js_get body ''kind'' \<noteq> JStr ''toolCall''
      then Inl ''The complete outgoing message could not be loaded''
      else case outgoingAgentMessage e body of None \<Rightarrow> Inl ''The complete outgoing message is invalid''
        | Some m \<Rightarrow> Inr (outgoing_text m))"

definition first_text_block :: "js list \<Rightarrow> js" where
  "first_text_block blocks = (case List.find (\<lambda>b. js_get b ''type'' = JStr ''text'') blocks of None \<Rightarrow> JUndef | Some b \<Rightarrow> js_get b ''text'')"

definition spawnedThread :: "js \<Rightarrow> (string \<times> string option) option" where
  "spawnedThread body =
     (let result = js_get body ''result''; t = first_text_block (arr_of (js_get result ''content'')) in
      if js_get body ''kind'' \<noteq> JStr ''toolCall'' \<or> \<not> truthy result \<or> truthy (js_get result ''isError'')
         \<or> \<not> is_array (js_get result ''content'') \<or> \<not> is_string t then None
      else case json_parse (str_of t) of None \<Rightarrow> None | Some parsed \<Rightarrow>
        let value = js_get parsed ''value'' in
        if js_get parsed ''ok'' \<noteq> JBool True \<or> \<not> is_string (js_get value ''id'') then None
        else Some (str_of (js_get value ''id''),
          if is_string (js_get value ''agentName'') then Some (agentFirstName (str_of (js_get value ''agentName''))) else None))"

section \<open>From heads to entries\<close>

definition entry_kinds :: "(string \<times> entry_kind) list" where
  "entry_kinds = [(''system'', System_entry), (''tool'', Tool_entry), (''user'', User_entry), (''assistant'', Assistant_entry),
     (''thinking'', Thinking_entry), (''toolCall'', ToolCall_entry), (''notice'', Notice_entry)]"

definition or_default :: "js \<Rightarrow> string \<Rightarrow> string" where
  "or_default v d = (if truthy v then js_String v else d)"

definition entryLabel :: "js \<Rightarrow> string + string" where
  "entryLabel head = rbind (validateTranscriptHead head) (\<lambda>_. let kind = str_of (js_get head ''kind''); label = js_get head ''label'' in
     if kind = ''user'' then Inr (or_default label ''User'')
     else if kind = ''assistant'' then Inr agent_name
     else if kind = ''notice'' then Inr (or_default label ''Notice'')
     else if kind = ''system'' then Inr (or_default label ''System'')
     else if kind = ''tool'' then Inr (or_default label ''tool'')
     else if kind = ''thinking'' then Inr (or_default label ''Thinking'')
     else if kind = ''toolCall'' then Inr (or_default (js_get head ''name'') ''tool'')
     else Inl ''Transcript label: undescribed state'')"

definition metrics_signature :: "js \<Rightarrow> string" where
  "metrics_signature m = (if \<not> truthy m then []
     else '':metrics:'' @ js_String (js_get m ''ttftMs'') @ '':'' @ js_String (js_get m ''generationMs'') @ '':'' @ js_String (js_get m ''outputTokens'')
       @ '':'' @ js_String (coalesce (js_get m ''tokensPerSecond'') (JStr ''null'')))"

definition input_signature :: "js \<Rightarrow> string" where
  "input_signature head = (if js_get head ''kind'' = JStr ''user'' \<and> truthy (js_get head ''inputId'')
     then '':input:'' @ js_String (js_get head ''inputId'') @ '':'' @ json_of (coalesce (js_get head ''inputState'') JNull) else [])"

definition words_signature :: "js \<Rightarrow> string" where
  "words_signature head = (if js_get head ''kind'' \<in> {JStr ''user'', JStr ''assistant''}
     then js_String (coalesce (js_get head ''label'') (JStr [])) @ '':'' @ json_of (coalesce (js_get head ''agentSender'') JNull)
       @ '':'' @ js_String (coalesce (js_get (js_get head ''identity'') ''id'') (JStr []))
       @ '':'' @ json_of (coalesce (js_get head ''reactions'') (JArr [])) @ '':'' @ json_of (coalesce (js_get head ''reply'') JNull)
     else [])"

definition head_signature :: "js \<Rightarrow> bool \<Rightarrow> string" where
  "head_signature head bodyLoaded = js_String (js_get head ''id'')
     @ (if js_get head ''kind'' = JStr ''user'' then '':origin:'' @ js_String (coalesce (js_get head ''inputOrigin'') (JStr ''unset'')) else [])
     @ (if js_get head ''monoVisibility'' = JUndef then [] else '':mono:'' @ js_String (js_get head ''monoVisibility''))
     @ (if bodyLoaded then '':body'' else []) @ (if truthy (js_get head ''textTruncated'') then '':preview'' else [])
     @ metrics_signature (js_get head ''responseMetrics'') @ input_signature head @ words_signature head"

definition head_key :: "js \<Rightarrow> string" where
  "head_key head = (let k = js_get head ''sourceKey'' in
     if nullish k then js_String (js_get head ''kind'') @ '':'' @ js_String (js_get head ''seq'') else js_String k)"

definition visibility_of :: "js \<Rightarrow> visibility option" where
  "visibility_of v = (if v = JStr ''hidden'' then Some Hidden else if v = JStr ''visible'' then Some Visible else None)"

definition origin_of :: "js \<Rightarrow> origin option" where
  "origin_of v = (if v = JStr ''human'' then Some Human_origin else if v = JStr ''machine'' then Some Machine_origin else None)"

definition base_entry :: "js \<Rightarrow> bool \<Rightarrow> entry_kind \<Rightarrow> string \<Rightarrow> context_entry" where
  "base_entry head bodyLoaded kind label = (blank_entry (head_key head) (head_signature head bodyLoaded) kind)
     \<lparr>ce_visibility := visibility_of (js_get head ''monoVisibility''), ce_label := Some label, ce_itemId := js_get head ''id'',
      ce_seq := js_get head ''seq'', ce_size := js_get head ''size'', ce_bodyLoaded := bodyLoaded, ce_metrics := js_get head ''responseMetrics''\<rparr>"

definition call_js :: "js \<Rightarrow> js" where
  "call_js head = mk_obj [(''id'', js_get head ''callId''), (''name'', js_get head ''name''), (''arguments'', js_get head ''arguments''),
     (''partialOutput'', js_get head ''partialOutput'')]"

definition spoken_entry :: "context_entry \<Rightarrow> js \<Rightarrow> context_entry" where
  "spoken_entry base head = base\<lparr>ce_text := text_of (js_get head ''text''), ce_truncated := truthy (js_get head ''textTruncated''),
     ce_sender := sender_of (js_get head ''agentSender''), ce_timestamp := js_get head ''timestamp'',
     ce_origin := origin_of (js_get head ''inputOrigin''), ce_inputId := text_of (js_get head ''inputId''),
     ce_inputState := js_get head ''inputState'', ce_identity := js_get head ''identity'', ce_reactions := js_get head ''reactions'',
     ce_reply := js_get head ''reply''\<rparr>"

definition entryFromHead :: "js \<Rightarrow> bool \<Rightarrow> string + context_entry" where
  "entryFromHead head bodyLoaded = rbind (entryLabel head) (\<lambda>label.
     let base = base_entry head bodyLoaded (the (map_of entry_kinds (str_of (js_get head ''kind'')))) label in
     case ce_kind base of
       ToolCall_entry \<Rightarrow> Inr (base\<lparr>ce_time := js_get head ''timestamp'', ce_toolCall := call_js head,
           ce_argsTruncated := js_get head ''argumentsTruncated'', ce_toolResult := js_get head ''result''\<rparr>)
     | User_entry \<Rightarrow> Inr (presentAgentMessage (spoken_entry base head))
     | Assistant_entry \<Rightarrow> Inr (presentAgentMessage (spoken_entry base head))
     | Notice_entry \<Rightarrow> Inr (base\<lparr>ce_text := text_of (js_get head ''text''), ce_truncated := truthy (js_get head ''textTruncated''),
           ce_timestamp := js_get head ''timestamp''\<rparr>)
     | _ \<Rightarrow> Inr (base\<lparr>ce_preview := js_get head ''preview'', ce_timestamp := js_get head ''timestamp''\<rparr>))"

fun entriesFromHeads :: "js list \<Rightarrow> (js \<Rightarrow> bool) \<Rightarrow> string + context_entry list" where
  "entriesFromHeads [] loaded = Inr []"
| "entriesFromHeads (h # hs) loaded = rbind (entryFromHead h (loaded (js_get h ''id''))) (\<lambda>e.
     rbind (entriesFromHeads hs loaded) (\<lambda>es. Inr (e # es)))"

definition waiting_entry :: context_entry where
  "waiting_entry = (blank_entry ''waiting'' ''waiting'' Notice_entry)\<lparr>ce_label := Some ''Context'',
     ce_text := Some ''Context will appear when Pi makes its next model request.''\<rparr>"


section \<open>Presenting received messages\<close>

lemma present_unchanged: "ce_sender e = Some s \<Longrightarrow> ce_label e = Some (agentSenderLabel s) \<Longrightarrow> presentAgentMessage e = e"
  by (simp add: presentAgentMessage_def Let_def)

lemma present_idem [simp]: "presentAgentMessage (presentAgentMessage e) = presentAgentMessage e"
proof (cases "presentAgentMessage e = e")
  case False
  then have "\<exists>s. ce_sender (presentAgentMessage e) = Some s \<and> ce_label (presentAgentMessage e) = Some (agentSenderLabel s)"
    by (auto simp: presentAgentMessage_def Let_def split: if_split_asm option.split_asm option.split)
  then show ?thesis using present_unchanged by blast
qed simp

text \<open>A message between threads is shown as its sender's words: a row that arrives with the envelope as text is shown
  under the sender's name with exactly the words sent, presenting it again changes nothing, and a row a
  person wrote is never rewritten, whatever it contains.\<close>

theorem message_shown_as_sent:
  assumes "addressed m" "tm_source m = Explicit" "ce_kind e = User_entry" "ce_origin e \<noteq> Some Human_origin" "ce_sender e = None"
    "ce_text e = Some (formatThreadMessage m t)"
  shows "ce_text (presentAgentMessage e) = Some t
    \<and> ce_sender (presentAgentMessage e) = Some \<lparr>sn_threadId = the (tm_senderId m), sn_name = nonempty (tm_senderName m)\<rparr>
    \<and> presentAgentMessage (presentAgentMessage e) = presentAgentMessage e
    \<and> presentAgentMessage (e\<lparr>ce_origin := Some Human_origin\<rparr>) = e\<lparr>ce_origin := Some Human_origin\<rparr>"
proof -
  have "ce_text (presentAgentMessage e) = Some t
    \<and> ce_sender (presentAgentMessage e) = Some \<lparr>sn_threadId = the (tm_senderId m), sn_name = nonempty (tm_senderName m)\<rparr>"
    using envelope_shown[OF assms(1), of t] assms(2-) by (simp add: presentAgentMessage_def Let_def)
  moreover have "presentAgentMessage (e\<lparr>ce_origin := Some Human_origin\<rparr>) = e\<lparr>ce_origin := Some Human_origin\<rparr>"
    by (simp add: presentAgentMessage_def)
  ultimately show ?thesis by simp
qed

definition sample_row :: context_entry where
  "sample_row = (blank_entry ''user:3'' ''x'' User_entry)\<lparr>ce_text := Some (formatThreadMessage sample_message ''done'')\<rparr>"

lemma message_shown_as_sent_witness:
  "ce_text (presentAgentMessage sample_row) = Some ''done''
   \<and> ce_sender (presentAgentMessage sample_row) = Some \<lparr>sn_threadId = ''t1'', sn_name = Some ''Ada''\<rparr>"
proof -
  have "addressed sample_message" "tm_source sample_message = Explicit"
    by (simp_all add: addressed_def sample_message_def nonempty_def js_trim_Nil blank_def js_space_def)
  moreover have "ce_kind sample_row = User_entry" "ce_origin sample_row \<noteq> Some Human_origin" "ce_sender sample_row = None"
    "ce_text sample_row = Some (formatThreadMessage sample_message ''done'')"
    by (simp_all add: sample_row_def blank_entry_def)
  ultimately show ?thesis using message_shown_as_sent[of sample_message sample_row "''done''"]
    by (simp add: sample_message_def nonempty_def)
qed

end
