(* ===== verification/Transcript_Model.thy ===== *)
theory Transcript_Model
  imports Transcript_Entries "HOL-Library.Multiset"
begin

text \<open>
  The conversation as it is drawn: messages and the work between them
  (\<open>apps/remote/web/src/features/conversation/transcript-model.ts\<close>, \<open>monoMessage\<close> of \<open>app/mono.ts\<close>). A loop over
  entries with mutable locals is a fold over their record; \<open>findIndex\<close> returning -1 is \<open>None\<close>. Times are
  whole milliseconds.
\<close>

section \<open>Which rows are messages\<close>

definition silent_turn_text :: string where
  "silent_turn_text = ''<silent/>''"

definition emptyAssistantEntry :: "context_entry \<Rightarrow> bool" where
  "emptyAssistantEntry e = (ce_kind e = Assistant_entry \<and> (case ce_text e of None \<Rightarrow> True | Some t \<Rightarrow> js_trim t = []))"

definition monoMessage :: "context_entry \<Rightarrow> bool" where
  "monoMessage e = (case ce_kind e of
     Assistant_entry \<Rightarrow> True
   | User_entry \<Rightarrow> ce_origin e = Some Human_origin
       \<or> ce_origin e \<noteq> Some Machine_origin \<and> ce_sender e = None
         \<and> (case ce_text e of None \<Rightarrow> True | Some t \<Rightarrow> agentMessagePresentation t = None)
   | _ \<Rightarrow> False)"

datatype speaker = By_user | By_assistant | By_outgoing

definition silent :: "context_entry \<Rightarrow> bool" where
  "silent e = (ce_text e = Some silent_turn_text)"

definition visibleKind :: "context_entry \<Rightarrow> bool \<Rightarrow> speaker option" where
  "visibleKind e solo = (case ce_kind e of
     User_entry \<Rightarrow> if \<not> solo \<or> ce_visibility e \<noteq> Some Hidden \<and> monoMessage e then Some By_user else None
   | Assistant_entry \<Rightarrow> if solo \<and> (ce_visibility e = Some Hidden \<or> silent e) then None else Some By_assistant
   | ToolCall_entry \<Rightarrow> if \<not> solo \<and> outgoingAgentMessage e JUndef \<noteq> None then Some By_outgoing else None
   | _ \<Rightarrow> None)"

section \<open>Work\<close>

record work_summary =
  ws_toolCalls :: nat
  ws_thinking :: nat
  ws_files :: "string list"
  ws_commands :: nat
  ws_errors :: bool
  ws_started :: "int option"
  ws_ended :: "int option"

record work =
  wk_key :: string
  wk_entries :: "context_entry list"
  wk_running :: bool
  wk_latest :: context_entry
  wk_live :: "context_entry option"
  wk_summary :: work_summary

datatype transcript_item = Said speaker context_entry | Work work

definition isRunning :: "context_entry \<Rightarrow> bool" where
  "isRunning e = (ce_streaming e \<or> ce_kind e = ToolCall_entry \<and> \<not> truthy (ce_toolResult e))"

definition failure_rx :: rx where
  "failure_rx = alts True [''error'', ''fail'']"

definition or_empty :: "string option \<Rightarrow> string" where
  "or_empty t = (case t of None \<Rightarrow> [] | Some s \<Rightarrow> s)"

definition isError :: "context_entry \<Rightarrow> bool" where
  "isError e = (js_get (ce_toolResult e) ''isError'' = JBool True
     \<or> ce_kind e = Notice_entry \<and> rx_test failure_rx (or_empty (ce_label e) @ '' '' @ or_empty (ce_text e)))"

definition tool_of :: "context_entry \<Rightarrow> string" where
  "tool_of e = (let n = js_get (ce_toolCall e) ''name'' in lower_text (if truthy n then js_String n else []))"

definition pathFromTool :: "context_entry \<Rightarrow> string" where
  "pathFromTool e =
     (let args = js_get (ce_toolCall e) ''arguments'' in
      if ce_kind e \<noteq> ToolCall_entry \<or> tool_of e \<notin> {''read'', ''edit'', ''write''} then []
      else if is_string (js_get args ''path'') then str_of (js_get args ''path'')
      else if is_string (js_get args ''file_path'') then str_of (js_get args ''file_path'') else [])"

definition positive_ms :: "js \<Rightarrow> int option" where
  "positive_ms v = (case v of JNum (NInt i) \<Rightarrow> if 0 < i then Some i else None | _ \<Rightarrow> None)"

definition merge_ms :: "(int \<Rightarrow> int \<Rightarrow> int) \<Rightarrow> int option \<Rightarrow> int option \<Rightarrow> int option" where
  "merge_ms f old new = (case new of None \<Rightarrow> old | Some n \<Rightarrow> (case old of None \<Rightarrow> Some n | Some t \<Rightarrow> Some (f t n)))"

definition empty_summary :: work_summary where
  "empty_summary = \<lparr>ws_toolCalls = 0, ws_thinking = 0, ws_files = [], ws_commands = 0, ws_errors = False, ws_started = None, ws_ended = None\<rparr>"

definition summarize_entry :: "context_entry \<Rightarrow> work_summary \<Rightarrow> work_summary" where
  "summarize_entry e s0 =
     (let s = s0\<lparr>ws_thinking := ws_thinking s0 + (if ce_kind e = Thinking_entry then 1 else 0), ws_errors := ws_errors s0 \<or> isError e\<rparr> in
      if ce_kind e \<noteq> ToolCall_entry then s
      else s\<lparr>ws_toolCalls := ws_toolCalls s + 1,
             ws_commands := ws_commands s + (if tool_of e \<in> {''bash'', ''exec_command''} then 1 else 0),
             ws_files := (let p = pathFromTool e in if p = [] \<or> p \<in> set (ws_files s) then ws_files s else ws_files s @ [p]),
             ws_started := merge_ms min (ws_started s) (positive_ms (ce_time e)),
             ws_ended := merge_ms max (ws_ended s) (positive_ms (js_get (ce_toolResult e) ''timestamp''))\<rparr>)"

definition summarize :: "context_entry list \<Rightarrow> work_summary" where
  "summarize es = fold summarize_entry es empty_summary"

definition workItem :: "string \<Rightarrow> context_entry list \<Rightarrow> work" where
  "workItem key es =
     (let active = filter isRunning es; calls = filter (\<lambda>e. ce_kind e = ToolCall_entry) es in
      \<lparr>wk_key = key, wk_entries = es, wk_running = (active \<noteq> []),
       wk_latest = (if active \<noteq> [] then List.last active else if calls \<noteq> [] then List.last calls else List.last es),
       wk_live = None, wk_summary = summarize es\<rparr>)"

section \<open>The stable transcript\<close>

record builder =
  bd_items :: "transcript_item list"
  bd_work :: "context_entry list"
  bd_replies :: "context_entry list"
  bd_key :: string

definition work_start :: string where
  "work_start = ''work-after:start''"

definition work_after :: "context_entry \<Rightarrow> string" where
  "work_after e = ''work-after:'' @ ce_key e"

definition empty_builder :: builder where
  "empty_builder = \<lparr>bd_items = [], bd_work = [], bd_replies = [], bd_key = work_start\<rparr>"

definition flush :: "builder \<Rightarrow> builder" where
  "flush b = b\<lparr>bd_items := bd_items b @ (if bd_work b \<noteq> [] then [Work (workItem (bd_key b) (bd_work b))] else [])
       @ map (Said By_assistant) (bd_replies b), bd_work := [], bd_replies := []\<rparr>"

definition say :: "speaker \<Rightarrow> context_entry \<Rightarrow> builder \<Rightarrow> builder" where
  "say k e b = (let f = flush b in f\<lparr>bd_items := bd_items f @ [Said k e], bd_key := work_after e\<rparr>)"

definition skipped :: "bool \<Rightarrow> context_entry \<Rightarrow> bool" where
  "skipped solo e = (emptyAssistantEntry e \<or> solo \<and> ce_kind e = Assistant_entry \<and> silent e)"

definition build_step :: "bool \<Rightarrow> context_entry \<Rightarrow> builder \<Rightarrow> builder" where
  "build_step solo e b =
     (if skipped solo e then b
      else case visibleKind e solo of
        None \<Rightarrow> b\<lparr>bd_work := bd_work b @ [e]\<rparr>
      | Some k \<Rightarrow> if \<not> solo \<or> k = By_user then say k e b
          else if k = By_assistant then b\<lparr>bd_replies := bd_replies b @ [e]\<rparr>
          else b\<lparr>bd_work := bd_work b @ [e]\<rparr>)"

definition buildStableTranscript :: "context_entry list \<Rightarrow> bool \<Rightarrow> transcript_item list" where
  "buildStableTranscript es solo = bd_items (flush (fold (build_step solo) es empty_builder))"

section \<open>Live thinking and the messenger view\<close>

fun index_where :: "(nat \<Rightarrow> 'a \<Rightarrow> bool) \<Rightarrow> nat \<Rightarrow> 'a list \<Rightarrow> nat option" where
  "index_where P i [] = None"
| "index_where P i (x # xs) = (if P i x then Some i else index_where P (Suc i) xs)"

fun last_where :: "('a \<Rightarrow> bool) \<Rightarrow> nat \<Rightarrow> 'a list \<Rightarrow> nat option" where
  "last_where P i [] = None"
| "last_where P i (x # xs) = (case last_where P (Suc i) xs of Some j \<Rightarrow> Some j | None \<Rightarrow> if P x then Some i else None)"

definition is_user :: "transcript_item \<Rightarrow> bool" where
  "is_user item = (case item of Said By_user _ \<Rightarrow> True | _ \<Rightarrow> False)"

definition is_assistant :: "transcript_item \<Rightarrow> bool" where
  "is_assistant item = (case item of Said By_assistant _ \<Rightarrow> True | _ \<Rightarrow> False)"

definition is_work :: "transcript_item \<Rightarrow> bool" where
  "is_work item = (case item of Work _ \<Rightarrow> True | _ \<Rightarrow> False)"

text \<open>The position after the last user message, and the first work from there.\<close>

definition after_human :: "transcript_item list \<Rightarrow> nat" where
  "after_human items = (case last_where is_user 0 items of None \<Rightarrow> 0 | Some h \<Rightarrow> Suc h)"

definition current_work :: "transcript_item list \<Rightarrow> nat option" where
  "current_work items = index_where (\<lambda>i item. i \<ge> after_human items \<and> is_work item) 0 items"

definition human_key :: "transcript_item list \<Rightarrow> string" where
  "human_key items = (case last_where is_user 0 items of None \<Rightarrow> work_start
     | Some h \<Rightarrow> (case items ! h of Said _ e \<Rightarrow> work_after e | Work _ \<Rightarrow> work_start))"

definition live_entry :: "string \<Rightarrow> bool \<Rightarrow> context_entry" where
  "live_entry t active = (blank_entry ''live-thinking'' (''live-thinking:'' @ t @ '':'' @ (if active then ''active'' else ''idle'')) Thinking_entry)
     \<lparr>ce_label := Some (if t \<noteq> [] then ''Thinking'' else ''Thinking'' @ ellipsis), ce_text := Some t, ce_streaming := True, ce_live := True\<rparr>"

definition with_live :: "context_entry \<Rightarrow> work \<Rightarrow> work" where
  "with_live live w = w\<lparr>wk_live := Some live, wk_running := True, wk_latest := live,
     wk_summary := (wk_summary w)\<lparr>ws_thinking := ws_thinking (wk_summary w) + 1\<rparr>\<rparr>"

definition appendLiveThinking :: "transcript_item list \<Rightarrow> string option \<Rightarrow> bool \<Rightarrow> bool \<Rightarrow> transcript_item list" where
  "appendLiveThinking items liveThinking active solo =
     (let t = (case liveThinking of None \<Rightarrow> [] | Some s \<Rightarrow> if js_trim s = [] then [] else s); live = live_entry t active in
      if t = [] \<and> \<not> active then items
      else if \<not> solo then
        (if items = [] then [Work (workItem work_start [live])]
         else case List.last items of
           Work w \<Rightarrow> butlast items @ [Work (with_live live w)]
         | Said _ e \<Rightarrow> items @ [Work (workItem (work_after e) [live])])
      else case current_work items of
        Some i \<Rightarrow> (case items ! i of Work w \<Rightarrow> items[i := Work (with_live live w)] | Said _ _ \<Rightarrow> items)
      | None \<Rightarrow> take (after_human items) items
          @ [Work ((workItem (human_key items) [live])\<lparr>wk_entries := [], wk_live := Some live\<rparr>)] @ drop (after_human items) items)"

definition buildTranscript :: "context_entry list \<Rightarrow> string option \<Rightarrow> bool \<Rightarrow> bool \<Rightarrow> transcript_item list" where
  "buildTranscript es liveThinking active solo = appendLiveThinking (buildStableTranscript es solo) liveThinking active solo"

definition has_reply :: "transcript_item list \<Rightarrow> nat \<Rightarrow> bool" where
  "has_reply items i = (let next = index_where (\<lambda>j item. i < j \<and> is_user item) 0 items;
       upto = (case next of None \<Rightarrow> length items | Some n \<Rightarrow> n) in
     list_ex is_assistant (drop (Suc i) (take upto items)))"

definition shown_item :: "transcript_item list \<Rightarrow> nat option \<Rightarrow> nat \<Rightarrow> transcript_item list" where
  "shown_item items active i = (case items ! i of Said k e \<Rightarrow> [Said k e]
     | Work w \<Rightarrow> if has_reply items i \<or> active = Some i then [Work (w\<lparr>wk_running := (active = Some i)\<rparr>)] else [])"

definition typing_work :: "string \<Rightarrow> work" where
  "typing_work key = \<lparr>wk_key = key, wk_entries = [], wk_running = True,
     wk_latest = (blank_entry (key @ '':typing'') (key @ '':typing'') Notice_entry)\<lparr>ce_text := Some ''Working''\<rparr>,
     wk_live = None, wk_summary = empty_summary\<rparr>"

definition messengerWork :: "transcript_item list \<Rightarrow> bool \<Rightarrow> transcript_item list" where
  "messengerWork items working =
     (let active = (if working then current_work items else None);
          visible = concat (map (shown_item items active) [0..<length items]) in
      if \<not> working \<or> active \<noteq> None then visible
      else take (after_human visible) visible @ [Work (typing_work (human_key items))] @ drop (after_human visible) visible)"


section \<open>No row is lost or repeated\<close>

fun item_entries :: "transcript_item \<Rightarrow> context_entry list" where
  "item_entries (Said k e) = [e]"
| "item_entries (Work w) = wk_entries w"

definition rows :: "transcript_item list \<Rightarrow> context_entry list" where
  "rows items = concat (map item_entries items)"

lemma rows_append [simp]: "rows (xs @ ys) = rows xs @ rows ys"
  by (simp add: rows_def)

lemma rows_simps [simp]: "rows [] = []" "rows (x # xs) = item_entries x @ rows xs"
  by (simp_all add: rows_def)

lemma rows_said [simp]: "rows (map (Said k) es) = es"
  by (induction es) simp_all

lemma workItem_entries [simp]: "wk_entries (workItem key es) = es"
  by (simp add: workItem_def Let_def)

definition held_rows :: "builder \<Rightarrow> context_entry list" where
  "held_rows b = rows (bd_items b) @ bd_work b @ bd_replies b"

lemma flush_rows [simp]: "rows (bd_items (flush b)) = held_rows b" "bd_work (flush b) = []" "bd_replies (flush b) = []"
  by (simp_all add: flush_def held_rows_def)

lemma say_rows: "held_rows (say k e b) = held_rows b @ [e]"
proof -
  have "held_rows (say k e b) = rows (bd_items (flush b)) @ [e]" by (simp add: say_def Let_def held_rows_def)
  then show ?thesis by simp
qed

lemma step_mset: "mset (held_rows (build_step solo e b)) = mset (held_rows b) + mset (filter (\<lambda>e. \<not> skipped solo e) [e])"
  unfolding build_step_def
  by (simp add: say_rows split: option.split) (simp add: held_rows_def)

lemma fold_mset: "mset (held_rows (fold (build_step solo) es b)) = mset (held_rows b) + mset (filter (\<lambda>e. \<not> skipped solo e) es)"
proof (induction es arbitrary: b)
  case (Cons e es)
  show ?case using Cons[of "build_step solo e b"] step_mset[of solo e b] by simp
qed simp

lemma step_order:
  assumes "bd_replies b = []"
  shows "held_rows (build_step False e b) = held_rows b @ filter (\<lambda>e. \<not> skipped False e) [e] \<and> bd_replies (build_step False e b) = []"
  unfolding build_step_def using assms
  by (simp add: say_rows split: option.split) (simp add: held_rows_def say_def Let_def)

lemma fold_order:
  "bd_replies b = [] \<Longrightarrow> held_rows (fold (build_step False) es b) = held_rows b @ filter (\<lambda>e. \<not> skipped False e) es"
proof (induction es arbitrary: b)
  case (Cons e es)
  show ?case using Cons.IH[of "build_step False e b"] step_order[OF Cons.prems, of e] by simp
qed simp

text \<open>The conversation shows every row once: what is drawn, messages and the steps folded into work together, is
  the rows the stream delivered less the empty and the silent replies, none lost and none repeated; in the
  ordinary view they keep their order.\<close>

theorem transcript_conserves:
  "mset (rows (buildStableTranscript es solo)) = mset (filter (\<lambda>e. \<not> skipped solo e) es)
   \<and> rows (buildStableTranscript es False) = filter (\<lambda>e. \<not> skipped False e) es"
proof -
  have "held_rows empty_builder = []" "bd_replies empty_builder = []" by (simp_all add: empty_builder_def held_rows_def)
  then show ?thesis using fold_mset[of solo es empty_builder] fold_order[of empty_builder es]
    by (simp add: buildStableTranscript_def)
qed

section \<open>The messenger view\<close>

definition running_work :: "transcript_item \<Rightarrow> bool" where
  "running_work item = (case item of Work w \<Rightarrow> wk_running w | Said _ _ \<Rightarrow> False)"

lemma index_where_Some: "index_where P i xs = Some j \<Longrightarrow> i \<le> j \<and> j < i + length xs \<and> P j (xs ! (j - i))"
proof (induction P i xs rule: index_where.induct)
  case (2 P i x xs)
  show ?case
  proof (cases "P i x")
    case True
    then show ?thesis using 2(2) by simp
  next
    case False
    then have "Suc i \<le> j \<and> j < Suc i + length xs \<and> P j (xs ! (j - Suc i))" using 2 by simp
    then show ?thesis by (simp add: nth_Cons')
  qed
qed simp

lemma current_work_Some: "current_work items = Some i \<Longrightarrow> i < length items \<and> is_work (items ! i)"
  using index_where_Some[of _ 0 items i] by (auto simp: current_work_def)

lemma one_index: "sum_list (map (\<lambda>i. if k = i then 1 else 0) [0..<n]) = (if k < n then 1 else (0::nat))"
  by (induction n) auto

lemma filter_concat_length: "length (filter P (concat (map f xs))) = sum_list (map (\<lambda>x. length (filter P (f x))) xs)"
  by (induction xs) simp_all

lemma visible_running:
  assumes "case active of None \<Rightarrow> True | Some i \<Rightarrow> i < length items \<and> is_work (items ! i)"
  shows "length (filter running_work (concat (map (shown_item items active) [0..<length items]))) = (if active = None then 0 else 1)"
proof -
  have each: "length (filter running_work (shown_item items active i)) = (if active = Some i then 1 else 0)" for i
    using assms by (cases "items ! i") (auto simp: shown_item_def running_work_def is_work_def)
  show ?thesis
    unfolding filter_concat_length each
    using assms one_index[of "the active" "length items"] by (cases active) simp_all
qed

lemma visible_said:
  "filter (\<lambda>x. \<not> is_work x) (concat (map (shown_item items active) [0..<length items])) = filter (\<lambda>x. \<not> is_work x) items"
proof -
  have "filter (\<lambda>x. \<not> is_work x) (shown_item items active i) = filter (\<lambda>x. \<not> is_work x) [items ! i]" for i
    by (cases "items ! i") (simp_all add: shown_item_def is_work_def)
  then have "filter (\<lambda>x. \<not> is_work x) (concat (map (shown_item items active) ks))
    = filter (\<lambda>x. \<not> is_work x) (map ((!) items) ks)" for ks
    by (induction ks) simp_all
  then show ?thesis by (simp add: map_nth)
qed

lemma filter_insert: "filter P (take k xs @ [x] @ drop k xs) = filter P (take k xs) @ filter P [x] @ filter P (drop k xs)"
  by simp

lemma filter_split: "filter P (take k xs) @ filter P (drop k xs) = filter P xs"
  by (metis append_take_drop_id filter_append)

text \<open>While the agent works the messenger view shows exactly one running step, and none when it does not; and it
  shows every message, in order, whatever steps it hides.\<close>

theorem messenger_shows_one_step:
  "length (filter running_work (messengerWork items working)) = (if working then 1 else 0)
   \<and> filter (\<lambda>x. \<not> is_work x) (messengerWork items working) = filter (\<lambda>x. \<not> is_work x) items"
proof -
  define active where "active = (if working then current_work items else None)"
  define visible where "visible = concat (map (shown_item items active) [0..<length items])"
  have ok: "case active of None \<Rightarrow> True | Some i \<Rightarrow> i < length items \<and> is_work (items ! i)"
    using current_work_Some by (auto simp: active_def split: option.split)
  note run = visible_running[OF ok, folded visible_def]
  note said = visible_said[of items active, folded visible_def]
  show ?thesis
  proof (cases "\<not> working \<or> active \<noteq> None")
    case True
    then have "messengerWork items working = visible" by (auto simp: messengerWork_def active_def visible_def Let_def)
    then show ?thesis using True run said by (auto simp: active_def)
  next
    case False
    let ?k = "after_human visible"
    have m: "messengerWork items working = take ?k visible @ [Work (typing_work (human_key items))] @ drop ?k visible"
      using False by (simp add: messengerWork_def active_def visible_def Let_def)
    have "length (filter running_work (take ?k visible)) + length (filter running_work (drop ?k visible)) = 0"
      using run False filter_split[of running_work ?k visible] by (metis length_append)
    moreover have "running_work (Work (typing_work key))" "is_work (Work (typing_work key))" for key
      by (simp_all add: running_work_def typing_work_def is_work_def)
    ultimately show ?thesis
      unfolding m filter_insert using False said filter_split[of "\<lambda>x. \<not> is_work x" ?k visible] by simp
  qed
qed

end
