(* ===== verification/Thread_Status.thy ===== *)
theory Thread_Status
  imports Lifecycle Json_Text
begin

text \<open>
  What the client shows of a thread's lifecycle (\<open>apps/remote/web/src/features/status/thread-status.ts\<close>) and
  what it lets a person do with it (\<open>thread-state.ts\<close>). A session that carries no lifecycle has \<open>None\<close>.
  Times are whole milliseconds.
\<close>

section \<open>Statuses\<close>

datatype status_key = S_working | S_typing | S_queued | S_waiting | S_stopping | S_reporting_error | S_error | S_archived | S_idle | S_offline

record thread_status =
  ts_key :: status_key
  ts_label :: string
  ts_short :: string
  ts_title :: "string option"
  ts_busy :: bool
  ts_attention :: bool
  ts_since :: "int option"
  ts_lastActivity :: "int option"

definition status :: "status_key \<Rightarrow> string \<Rightarrow> string \<Rightarrow> bool \<Rightarrow> bool \<Rightarrow> thread_status" where
  "status key label short busy attention = \<lparr>ts_key = key, ts_label = label, ts_short = short, ts_title = None, ts_busy = busy,
     ts_attention = attention, ts_since = None, ts_lastActivity = None\<rparr>"

definition status_reporting_error :: thread_status where
  "status_reporting_error = (status S_reporting_error ''Status unavailable'' ''Status unavailable'' False True)
     \<lparr>ts_title := Some ''The execution owner did not supply a lifecycle observation.''\<rparr>"

definition offline_status :: thread_status where
  "offline_status = status S_offline ''Disconnected'' ''Disconnected'' False True"

record status_session =
  ss_lifecycle :: "lifecycle option"
  ss_unread :: bool
  ss_lastActivity :: "int option"
  ss_humanAttention :: "bool option"

definition whole :: "js \<Rightarrow> int option" where
  "whole v = (case v of JNum (NInt i) \<Rightarrow> Some i | _ \<Rightarrow> None)"

definition waiting_status :: "string \<Rightarrow> string option \<Rightarrow> int option \<Rightarrow> thread_status" where
  "waiting_status target reason since = (status S_waiting (''Waiting for '' @ target) ''Waiting'' False False)
     \<lparr>ts_title := reason, ts_since := since\<rparr>"

definition dependency_target :: "wait_dependency \<Rightarrow> string" where
  "dependency_target d = (case d of WaitAgents _ _ \<Rightarrow> ''agent results'' | WaitJob _ \<Rightarrow> ''job'' | WaitDeployment _ \<Rightarrow> ''deployment''
     | WaitMessage _ \<Rightarrow> ''message'')"

fun lifecycleStatus :: "lifecycle \<Rightarrow> bool \<Rightarrow> int option \<Rightarrow> thread_status" where
  "lifecycleStatus Idle unread at = status S_idle ''Idle'' ''Idle'' False unread"
| "lifecycleStatus Archived unread at = status S_archived ''Archived'' ''Archived'' False False"
| "lifecycleStatus Being_cancelled unread at = status S_stopping ''Cancelling'' ''Cancelling'' True False"
| "lifecycleStatus (Failed reason c) unread at = (status S_error ''Failed'' ''Failed'' False True)\<lparr>ts_title := Some reason\<rparr>"
| "lifecycleStatus (Waiting_dispatch since) unread at = (status S_queued ''Queued for execution'' ''Queued'' False False)\<lparr>ts_since := Some since\<rparr>"
| "lifecycleStatus (Delayed t reason since) unread at = waiting_status (case t of Capacity_delay \<Rightarrow> ''capacity'' | Retry_delay \<Rightarrow> ''retry'') (Some reason) (Some since)"
| "lifecycleStatus (Waiting_dependency d since) unread at = waiting_status (dependency_target d) None (whole since)"
| "lifecycleStatus (Waiting_agents since) unread at = waiting_status ''agent results'' None (Some since)"
| "lifecycleStatus (Working p since detail) unread at =
     (let typing = (p = Responding); word = (if typing then ''Typing'' else ''Working'') in
      (status (if typing then S_typing else S_working) word word True False)\<lparr>ts_title := detail, ts_since := Some since, ts_lastActivity := at\<rparr>)"

definition threadStatus :: "status_session \<Rightarrow> thread_status" where
  "threadStatus s = (case ss_lifecycle s of None \<Rightarrow> status_reporting_error
     | Some l \<Rightarrow> let st = lifecycleStatus l (ss_unread s) (ss_lastActivity s) in
         st\<lparr>ts_attention := ts_attention st \<and> ss_humanAttention s = Some True\<rparr>)"

definition monoThreadStatus :: "status_session \<Rightarrow> thread_status" where
  "monoThreadStatus s = (let st = threadStatus s in
     if ts_key st \<in> {S_working, S_typing, S_waiting} then st\<lparr>ts_title := None\<rparr> else st)"

text \<open>A room carries its own lifecycle and, when it has none, an error.\<close>

definition roomThreadStatus :: "lifecycle option \<Rightarrow> string \<Rightarrow> int option \<Rightarrow> thread_status" where
  "roomThreadStatus life error at = (case life of None \<Rightarrow> if error = [] then status_reporting_error else status_reporting_error\<lparr>ts_title := Some error\<rparr>
     | Some l \<Rightarrow> lifecycleStatus l False at)"

fun attention_rank :: "status_key \<Rightarrow> bool \<Rightarrow> nat" where
  "attention_rank S_error a = 0" | "attention_rank S_reporting_error a = 0"
| "attention_rank S_idle a = (if a then 2 else 21)"
| "attention_rank S_working a = 10" | "attention_rank S_typing a = 10" | "attention_rank S_stopping a = 10"
| "attention_rank S_queued a = 11" | "attention_rank S_waiting a = 11"
| "attention_rank S_archived a = 30" | "attention_rank S_offline a = 40"

definition attentionRank :: "thread_status \<Rightarrow> nat" where
  "attentionRank s = attention_rank (ts_key s) (ts_attention s)"

datatype glyph = G_working | G_waiting | G_held | G_stopping | G_done | G_unread | G_error | G_archived | G_offline

fun status_glyph :: "status_key \<Rightarrow> bool \<Rightarrow> glyph" where
  "status_glyph S_working a = G_working" | "status_glyph S_typing a = G_working"
| "status_glyph S_queued a = G_held" | "status_glyph S_waiting a = G_waiting" | "status_glyph S_stopping a = G_stopping"
| "status_glyph S_idle a = (if a then G_unread else G_done)"
| "status_glyph S_error a = G_error" | "status_glyph S_reporting_error a = G_error"
| "status_glyph S_archived a = G_archived" | "status_glyph S_offline a = G_offline"

definition statusGlyph :: "thread_status \<Rightarrow> glyph" where
  "statusGlyph s = status_glyph (ts_key s) (ts_attention s)"

definition elapsed :: "int \<Rightarrow> int \<Rightarrow> string" where
  "elapsed at now = (let seconds = max 0 ((now - at) div 1000); minutes = seconds div 60 in
     if seconds < 60 then int_text seconds @ ''s''
     else if minutes < 60 then int_text minutes @ ''m '' @ int_text (seconds mod 60) @ ''s''
     else int_text (minutes div 60) @ ''h '' @ int_text (minutes mod 60) @ ''m'')"

definition activityTiming :: "thread_status \<Rightarrow> int \<Rightarrow> string option \<times> string option" where
  "activityTiming s now =
     (if \<not> ts_busy s \<and> ts_key s \<noteq> S_waiting \<and> ts_key s \<noteq> S_queued then (None, None)
      else (map_option (\<lambda>at. elapsed at now) (ts_since s),
            case ts_lastActivity s of Some at \<Rightarrow> if ts_busy s \<and> now - at \<ge> 15000 then Some (elapsed at now) else None | None \<Rightarrow> None))"

section \<open>Actions\<close>

definition activeThread :: "lifecycle option \<Rightarrow> bool" where
  "activeThread l = (case l of Some (Working _ _ _) \<Rightarrow> True | Some Being_cancelled \<Rightarrow> True | _ \<Rightarrow> False)"

record session_kind =
  sk_foreground :: "bool option"
  sk_parentId :: "string option"
  sk_fleet :: bool
  sk_watchList :: bool

definition conversation :: "session_kind \<Rightarrow> bool" where
  "conversation s = (sk_foreground s = Some True
     \<or> sk_foreground s = None \<and> (case sk_parentId s of None \<Rightarrow> True | Some p \<Rightarrow> p = []) \<and> \<not> sk_fleet s \<and> \<not> sk_watchList s)"

definition conversationThreads :: "session_kind list \<Rightarrow> session_kind list" where
  "conversationThreads sessions = filter conversation sessions"

datatype composer = Send | Composer_stop | Composer_cancel

definition composerAction :: "lifecycle option \<Rightarrow> string \<Rightarrow> composer" where
  "composerAction session draft =
     (case session of None \<Rightarrow> Send | Some l \<Rightarrow>
        if js_trim draft \<noteq> [] then Send
        else case lifecycleControl l of Stop \<Rightarrow> Composer_stop | Cancel_wait \<Rightarrow> Composer_cancel | No_control \<Rightarrow> Send)"

section \<open>The screen agrees with the owner\<close>

lemma busy_active: "ts_busy (lifecycleStatus l u a) = activeThread (Some l)"
  by (cases l) (simp_all add: status_def waiting_status_def activeThread_def Let_def)

text \<open>What a thread shows follows its lifecycle: it is drawn busy exactly when the client counts it active, a failure
  and nothing else sorts before every other status, attention is asked of a person only for an
  unread or failed thread on which it was requested, or when the state could not be read, and an empty composer on a thread that only waits never
  offers to stop an execution.\<close>

theorem status_follows_lifecycle:
  "ts_busy (threadStatus s) = activeThread (ss_lifecycle s)
   \<and> (attentionRank (threadStatus s) = 0) = (case ss_lifecycle s of None \<Rightarrow> True | Some l \<Rightarrow> \<exists>r c. l = Failed r c)
   \<and> ts_attention (threadStatus s) = (case ss_lifecycle s of None \<Rightarrow> True
        | Some l \<Rightarrow> ss_humanAttention s = Some True \<and> (case l of Idle \<Rightarrow> ss_unread s | Failed _ _ \<Rightarrow> True | _ \<Rightarrow> False))
   \<and> (composerAction (ss_lifecycle s) [] = Composer_stop) = (case ss_lifecycle s of Some (Working _ _ _) \<Rightarrow> True | Some (Failed _ c) \<Rightarrow> c = Stop | _ \<Rightarrow> False)"
proof (cases "ss_lifecycle s")
  case None
  then show ?thesis
    by (simp add: threadStatus_def status_reporting_error_def status_def activeThread_def attentionRank_def composerAction_def)
next
  case (Some l)
  have stop: "(composerAction (Some l) [] = Composer_stop) = (case Some l of Some (Working _ _ _) \<Rightarrow> True | Some (Failed _ c) \<Rightarrow> c = Stop | _ \<Rightarrow> False)"
    by (cases l) (auto simp: composerAction_def js_trim_def split: control.split)
  have rank: "attentionRank ((lifecycleStatus l u a)\<lparr>ts_attention := b\<rparr>) = 0 \<longleftrightarrow> (\<exists>r c. l = Failed r c)" for u a b
    by (cases l) (simp_all add: status_def waiting_status_def attentionRank_def Let_def)
  have att: "ts_attention (lifecycleStatus l u a) = (case l of Idle \<Rightarrow> u | Failed _ _ \<Rightarrow> True | _ \<Rightarrow> False)" for u a
    by (cases l) (simp_all add: status_def waiting_status_def Let_def)
  show ?thesis using Some stop busy_active[of l] rank att by (auto simp: threadStatus_def Let_def)
qed

end
