(* ===== verification/Watch_List.thy ===== *)
theory Watch_List
  imports Thread_Settings "HOL-Library.Sublist"
begin

text \<open>
  The watch list (\<open>packages/orchestrator/src/threads/watch-list.ts\<close>): its tables, the requests on them, and the
  periodic check that records and delivers wakes. \<open>serial\<close> runs checks one at a time; a request may run while a
  check awaits the thread service, so each awaited call ends with \<open>ww_meanwhile\<close>, what happened to the tables
  in the meantime. Thread service, clock and identifiers are functions of an outer world; the wording of the
  prompt is a parameter. A stored item is its record and a stored input its JSON text. Paging runs on fuel:
  \<open>None\<close> means that the service has not ended its pages within it.
\<close>

section \<open>State\<close>

datatype watch_check = Scheduled string | Complete string int | Check_failed string int string

datatype check_outcome = Open | Missing | Completed int | Failing int string

record watch_item =
  wi_id :: string
  wi_what :: string
  wi_why :: string
  wi_how :: "string option"
  wi_cadence :: "int option"
  wi_next :: int
  wi_addedBy :: string
  wi_created :: int
  wi_updated :: int
  wi_check :: "watch_check option"
  wi_destination :: "string option"

datatype watch_response = Items "watch_item list" | Item watch_item | Removed string | Scheduled_threads "string list"

record wake =
  wa_id :: string
  wa_destination :: string
  wa_cwd :: string
  wa_metadata :: js
  wa_message :: string
  wa_settings :: thread_settings
  wa_items :: "(string \<times> int \<times> int) list"

record watch_db =
  wd_items :: "watch_item list"
  wd_requests :: "(string \<times> string \<times> watch_response) list"
  wd_wakes :: "wake list"
  wd_delivery :: "(string \<times> int \<times> string) list"
  wd_nextWake :: int
  wd_stopped :: bool

record watch_config =
  wc_interval :: int
  wc_settings :: thread_settings
  wc_destinations :: "string list"
  wc_default :: string
  wc_enabled :: bool

record watch_thread =
  wt_held :: bool
  wt_metadata :: js

datatype thread_query = By_id string | By_state string "string option"

record 'w watch_world =
  ww_list :: "thread_query \<Rightarrow> 'w \<Rightarrow> (watch_thread list \<times> string option) result \<times> 'w"
  ww_spawn :: "wake \<Rightarrow> 'w \<Rightarrow> string result \<times> 'w"
  ww_questions :: "string \<Rightarrow> 'w \<Rightarrow> string list result \<times> 'w"
  ww_meanwhile :: "'w \<Rightarrow> watch_db \<Rightarrow> watch_db"
  ww_now :: "'w \<Rightarrow> int"
  ww_uuid :: "'w \<Rightarrow> string \<times> 'w"
  ww_outcome :: "string \<Rightarrow> 'w \<Rightarrow> check_outcome result"
  ww_placement :: "string \<Rightarrow> (string \<times> js) result"
  ww_destinationOf :: "(string \<Rightarrow> string option) option"
  ww_prompt :: "watch_item list \<Rightarrow> string \<Rightarrow> (string \<times> string) list \<Rightarrow> string"

definition watch_bad :: "error_code \<Rightarrow> string \<Rightarrow> 'a result" where
  "watch_bad code message = Inl \<lparr>te_code = code, te_message = message, te_retryable = False, te_retry_at = None\<rparr>"

section \<open>Configuration\<close>

definition default_watch_interval :: int where
  "default_watch_interval = 45 * 60000"

text \<open>\<open>to_number\<close> is \<open>Number\<close> on a string.\<close>

definition watchInterval :: "(string \<Rightarrow> js) \<Rightarrow> string option \<Rightarrow> string + int" where
  "watchInterval to_number value = (case value of None \<Rightarrow> Inr default_watch_interval
     | Some s \<Rightarrow> if safe_from (to_number s) 60000 then Inr (int_of (to_number s))
         else Inl ''PI_REMOTE_WATCH_INTERVAL_MS must be an integer of at least 60000'')"

definition watchSettings :: "native_set \<Rightarrow> string option \<Rightarrow> thread_settings result" where
  "watchSettings nv model = resolveThreadSettings nv (mk_obj
     [(''model'', JStr (case model of None \<Rightarrow> ''anthropic/claude-opus-5-5'' | Some m \<Rightarrow> m)), (''thinkingLevel'', JStr ''high''), (''speed'', JStr ''standard'')]) None"

section \<open>Items\<close>

definition item_named :: "string \<Rightarrow> watch_db \<Rightarrow> watch_item option" where
  "item_named key db = find (\<lambda>i. wi_id i = key) (wd_items db)"

definition put_item :: "watch_item \<Rightarrow> watch_db \<Rightarrow> watch_db" where
  "put_item item db = db\<lparr>wd_items := map (\<lambda>i. if wi_id i = wi_id item then item else i) (wd_items db)\<rparr>"

definition check_thread :: "watch_check \<Rightarrow> string" where
  "check_thread c = (case c of Scheduled t \<Rightarrow> t | Complete t _ \<Rightarrow> t | Check_failed t _ _ \<Rightarrow> t)"

definition scheduled_thread :: "watch_item \<Rightarrow> string option" where
  "scheduled_thread item = (case wi_check item of Some (Scheduled t) \<Rightarrow> Some t | _ \<Rightarrow> None)"

definition callerDestination :: "watch_config \<Rightarrow> 'w watch_world \<Rightarrow> string \<Rightarrow> string option" where
  "callerDestination cfg env thread = (case ww_destinationOf env of None \<Rightarrow> None
     | Some f \<Rightarrow> (case f thread of None \<Rightarrow> None | Some d \<Rightarrow> if d \<in> set (wc_destinations cfg) then Some d else None))"

definition destinationFor :: "watch_config \<Rightarrow> watch_item \<Rightarrow> string" where
  "destinationFor cfg item = (case wi_destination item of
     Some d \<Rightarrow> if d \<in> set (wc_destinations cfg) then d else wc_default cfg | None \<Rightarrow> wc_default cfg)"

text \<open>Stored items from before check outcomes: \<open>lastThreadId\<close> becomes a scheduled check unless one is recorded.\<close>

definition migrate_item :: "string option \<Rightarrow> watch_item \<Rightarrow> watch_item" where
  "migrate_item lastThread item = (case lastThread of None \<Rightarrow> item
     | Some t \<Rightarrow> if wi_check item \<noteq> None then item else item\<lparr>wi_check := Some (Scheduled t)\<rparr>)"

definition backfill_item :: "watch_config \<Rightarrow> 'w watch_world \<Rightarrow> watch_item \<Rightarrow> watch_item" where
  "backfill_item cfg env item = (if wi_destination item \<noteq> None then item
     else case callerDestination cfg env (wi_addedBy item) of None \<Rightarrow> item | Some d \<Rightarrow> item\<lparr>wi_destination := Some d\<rparr>)"

definition backfill :: "watch_config \<Rightarrow> 'w watch_world \<Rightarrow> watch_db \<Rightarrow> nat \<times> watch_db" where
  "backfill cfg env db = (if ww_destinationOf env = None then (0, db)
     else (length (filter (\<lambda>i. backfill_item cfg env i \<noteq> i) (wd_items db)), db\<lparr>wd_items := map (backfill_item cfg env) (wd_items db)\<rparr>))"

section \<open>Requests\<close>

definition validFields :: "string list \<Rightarrow> bool \<Rightarrow> js \<Rightarrow> bool" where
  "validFields destinations partial fs =
     ((is_object fs \<or> fs = JArr []) \<and> keys_within fs [''what'', ''why'', ''how'', ''cadenceMs'', ''nextDueAt'', ''destination'']
      \<and> (js_has fs ''destination'' \<longrightarrow> is_string (js_get fs ''destination'') \<and> str_of (js_get fs ''destination'') \<in> set destinations)
      \<and> (\<not> partial \<or> js_has fs ''what'' \<longrightarrow> nonblank (js_get fs ''what''))
      \<and> (\<not> partial \<or> js_has fs ''why'' \<longrightarrow> nonblank (js_get fs ''why''))
      \<and> (\<not> js_has fs ''how'' \<or> is_string (js_get fs ''how'') \<or> partial \<and> js_get fs ''how'' = JNull)
      \<and> (\<not> js_has fs ''cadenceMs'' \<or> safe_from (js_get fs ''cadenceMs'') 60000 \<or> partial \<and> js_get fs ''cadenceMs'' = JNull)
      \<and> (\<not> js_has fs ''nextDueAt'' \<or> safe_from (js_get fs ''nextDueAt'') 0))"

definition opt_text :: "js \<Rightarrow> string option" where
  "opt_text v = (if is_string v then Some (str_of v) else None)"

definition opt_int :: "js \<Rightarrow> int option" where
  "opt_int v = (if is_integer v then Some (int_of v) else None)"

definition or_else :: "'a option \<Rightarrow> 'a option \<Rightarrow> 'a option" where
  "or_else a b = (case a of None \<Rightarrow> b | Some x \<Rightarrow> Some x)"

definition new_item :: "watch_config \<Rightarrow> 'w watch_world \<Rightarrow> int \<Rightarrow> string \<Rightarrow> string \<Rightarrow> js \<Rightarrow> watch_item" where
  "new_item cfg env now key caller fs = \<lparr>wi_id = key, wi_what = str_of (js_get fs ''what''), wi_why = str_of (js_get fs ''why''),
     wi_how = opt_text (js_get fs ''how''), wi_cadence = opt_int (js_get fs ''cadenceMs''),
     wi_next = (if js_has fs ''nextDueAt'' then int_of (js_get fs ''nextDueAt'') else now), wi_addedBy = caller,
     wi_created = now, wi_updated = now, wi_check = None,
     wi_destination = or_else (opt_text (js_get fs ''destination'')) (callerDestination cfg env caller)\<rparr>"

definition patched_item :: "int \<Rightarrow> js \<Rightarrow> watch_item \<Rightarrow> watch_item" where
  "patched_item now p item = item
     \<lparr>wi_what := (if js_has p ''what'' then str_of (js_get p ''what'') else wi_what item),
      wi_why := (if js_has p ''why'' then str_of (js_get p ''why'') else wi_why item),
      wi_how := (if js_has p ''how'' then opt_text (js_get p ''how'') else wi_how item),
      wi_cadence := (if js_has p ''cadenceMs'' then opt_int (js_get p ''cadenceMs'') else wi_cadence item),
      wi_next := (if js_has p ''nextDueAt'' then int_of (js_get p ''nextDueAt'') else wi_next item),
      wi_destination := (if js_has p ''destination'' then opt_text (js_get p ''destination'') else wi_destination item),
      wi_updated := now\<rparr>"

definition input_text :: "js \<Rightarrow> string" where
  "input_text input = json_text (normalise input)"

definition prior_answer :: "string \<Rightarrow> string \<Rightarrow> watch_db \<Rightarrow> watch_response result option" where
  "prior_answer request serialized db = (case map_of (wd_requests db) request of None \<Rightarrow> None
     | Some (input, response) \<Rightarrow> Some (if input = serialized then Inr response
         else watch_bad Conflict ''requestId already belongs to different watch input''))"

definition record_answer :: "string \<Rightarrow> string \<Rightarrow> watch_response \<Rightarrow> watch_db \<Rightarrow> watch_db" where
  "record_answer request serialized response db = db\<lparr>wd_requests := wd_requests db @ [(request, serialized, response)]\<rparr>"

definition fields_error :: "watch_config \<Rightarrow> string" where
  "fields_error cfg = ''Watch items need nonblank what/why, optional how, cadenceMs >= 60000, nonnegative epoch-ms nextDueAt, and an optional destination among ''
     @ concat (case wc_destinations cfg of [] \<Rightarrow> [] | d # ds \<Rightarrow> d # map (\<lambda>x. '', '' @ x) ds)"

definition request_valid :: "watch_config \<Rightarrow> js \<Rightarrow> bool" where
  "request_valid cfg input = (let action = js_get input ''action'' in
     \<not> (action = JStr ''add'' \<and> (\<not> truthy (js_get input ''item'') \<or> \<not> validFields (wc_destinations cfg) False (js_get input ''item''))
        \<or> action = JStr ''update'' \<and> (\<not> truthy (js_get input ''patch'') \<or> \<not> validFields (wc_destinations cfg) True (js_get input ''patch''))
        \<or> action \<noteq> JStr ''add'' \<and> \<not> nonblank (js_get input ''id'')))"

text \<open>The transaction of add, update and remove.\<close>

definition watch_edit :: "watch_config \<Rightarrow> 'w watch_world \<Rightarrow> js \<Rightarrow> watch_db \<Rightarrow> 'w \<Rightarrow> watch_response result \<times> watch_db \<times> 'w" where
  "watch_edit cfg env input db w =
     (let request = str_of (js_get input ''requestId''); serialized = input_text input; now = ww_now env w;
          action = js_get input ''action''; key = str_of (js_get input ''id'') in
      case prior_answer request serialized db of Some answer \<Rightarrow> (answer, db, w)
      | None \<Rightarrow>
        if action = JStr ''add'' then
          (let (fresh, w') = ww_uuid env w;
               item = new_item cfg env now fresh (str_of (js_get input ''threadId'')) (js_get input ''item'') in
           if item_named fresh db \<noteq> None then (watch_bad Unavailable ''UNIQUE constraint failed: watch_item.id'', db, w')
           else (Inr (Item item), record_answer request serialized (Item item) (db\<lparr>wd_items := wd_items db @ [item]\<rparr>), w'))
        else case item_named key db of None \<Rightarrow> (watch_bad Not_found ''Watch item not found'', db, w)
          | Some row \<Rightarrow>
            if action = JStr ''remove''
            then (Inr (Removed key), record_answer request serialized (Removed key)
                    (db\<lparr>wd_items := filter (\<lambda>i. wi_id i \<noteq> key) (wd_items db)\<rparr>), w)
            else (let item = patched_item now (js_get input ''patch'') row in
                    (Inr (Item item), record_answer request serialized (Item item) (put_item item db), w)))"

section \<open>Reconciling checks\<close>

definition ended_check :: "string \<Rightarrow> int \<Rightarrow> check_outcome \<Rightarrow> watch_check option" where
  "ended_check thread now outcome = (case outcome of Open \<Rightarrow> None
     | Missing \<Rightarrow> Some (Check_failed thread now ''Check thread no longer exists'')
     | Completed at \<Rightarrow> Some (Complete thread at)
     | Failing at error \<Rightarrow> Some (Check_failed thread at error))"

fun ended_checks :: "'w watch_world \<Rightarrow> string list \<Rightarrow> 'w \<Rightarrow> (string \<times> watch_check) list result" where
  "ended_checks env [] w = Inr []"
| "ended_checks env (t # ts) w = rbind (ww_outcome env t w) (\<lambda>outcome. rbind (ended_checks env ts w) (\<lambda>rest.
     Inr (case ended_check t (ww_now env w) outcome of None \<Rightarrow> rest | Some c \<Rightarrow> (t, c) # rest)))"

text \<open>The elements of a \<open>Set\<close> filled from a list.\<close>

definition first_distinct :: "'a list \<Rightarrow> 'a list" where
  "first_distinct xs = rev (remdups (rev xs))"

lemma set_first_distinct [simp]: "set (first_distinct xs) = set xs" "distinct (first_distinct xs)"
  by (simp_all add: first_distinct_def)

definition scheduled_threads :: "watch_db \<Rightarrow> string list" where
  "scheduled_threads db = first_distinct (List.map_filter (\<lambda>i. case scheduled_thread i of
     Some t \<Rightarrow> if t \<in> set (map wa_id (wd_wakes db)) then None else Some t | None \<Rightarrow> None) (wd_items db))"

definition settle_item :: "(string \<times> watch_check) list \<Rightarrow> watch_item \<Rightarrow> watch_item" where
  "settle_item ended item = (case scheduled_thread item of None \<Rightarrow> item
     | Some t \<Rightarrow> (case map_of ended t of None \<Rightarrow> item | Some c \<Rightarrow> item\<lparr>wi_check := Some c\<rparr>))"

definition reconcileChecks :: "'w watch_world \<Rightarrow> watch_db \<Rightarrow> 'w \<Rightarrow> unit result \<times> watch_db" where
  "reconcileChecks env db w = (case ended_checks env (scheduled_threads db) w of Inl e \<Rightarrow> (Inl e, db)
     | Inr ended \<Rightarrow> (Inr (), db\<lparr>wd_items := map (settle_item ended) (wd_items db)\<rparr>))"


section \<open>Scheduling\<close>

definition list_threads :: "'w watch_world \<Rightarrow> thread_query \<Rightarrow> watch_db \<Rightarrow> 'w \<Rightarrow> (watch_thread list \<times> string option) result \<times> watch_db \<times> 'w" where
  "list_threads env q db w = (let (res, w') = ww_list env q w in (res, ww_meanwhile env w' db, w'))"

definition thread_destination :: "watch_config \<Rightarrow> watch_thread \<Rightarrow> string" where
  "thread_destination cfg t = (let d = js_get (wt_metadata t) ''watchDestination''; p = js_get (wt_metadata t) ''profileId'' in
     if d \<noteq> JUndef \<and> d \<noteq> JNull then str_of d else if p \<noteq> JUndef \<and> p \<noteq> JNull then str_of p else wc_default cfg)"

definition busy_of :: "watch_config \<Rightarrow> watch_thread list \<Rightarrow> string list" where
  "busy_of cfg ts = map (thread_destination cfg) (filter (\<lambda>t. truthy (js_get (wt_metadata t) ''watchList'') \<and> \<not> wt_held t) ts)"

text \<open>The pages of one state, until a page has no cursor.\<close>

fun busy_pages :: "nat \<Rightarrow> watch_config \<Rightarrow> 'w watch_world \<Rightarrow> string \<Rightarrow> string option \<Rightarrow> watch_db \<Rightarrow> 'w
    \<Rightarrow> (string list result \<times> watch_db \<times> 'w) option" where
  "busy_pages 0 cfg env state cursor db w = None"
| "busy_pages (Suc n) cfg env state cursor db w =
     (case list_threads env (By_state state cursor) db w of
        (Inl e, db', w') \<Rightarrow> Some (Inl e, db', w')
      | (Inr (ts, next), db', w') \<Rightarrow>
          if next = None \<or> next = Some [] then Some (Inr (busy_of cfg ts), db', w')
          else (case busy_pages n cfg env state next db' w' of
              Some (Inr later, db'', w'') \<Rightarrow> Some (Inr (busy_of cfg ts @ later), db'', w'')
            | other \<Rightarrow> other))"

definition busy_threads :: "nat \<Rightarrow> watch_config \<Rightarrow> 'w watch_world \<Rightarrow> watch_db \<Rightarrow> 'w \<Rightarrow> (string list result \<times> watch_db \<times> 'w) option" where
  "busy_threads n cfg env db w = (case busy_pages n cfg env ''running'' None db w of
     Some (Inr running, db', w') \<Rightarrow> (case busy_pages n cfg env ''waiting'' None db' w' of
         Some (Inr waiting, db'', w'') \<Rightarrow> Some (Inr (running @ waiting), db'', w'')
       | other \<Rightarrow> other)
   | other \<Rightarrow> other)"

fun ask_decisions :: "'w watch_world \<Rightarrow> string list \<Rightarrow> watch_db \<Rightarrow> 'w \<Rightarrow> (string \<times> (string \<times> string) list) list result \<times> watch_db \<times> 'w" where
  "ask_decisions env [] db w = (Inr [], db, w)"
| "ask_decisions env (t # ts) db w =
     (let (res, w1) = ww_questions env t w; db1 = ww_meanwhile env w1 db;
          asked = (case res of Inr qs \<Rightarrow> Inr (map (Pair t) qs) | Inl e \<Rightarrow> if te_code e = Not_found then Inr [] else Inl e) in
      case asked of Inl e \<Rightarrow> (Inl e, db1, w1)
      | Inr own \<Rightarrow> (case ask_decisions env ts db1 w1 of
            (Inl e, db2, w2) \<Rightarrow> (Inl e, db2, w2)
          | (Inr rest, db2, w2) \<Rightarrow> (Inr ((t, own) # rest), db2, w2)))"

definition wanted :: "int \<Rightarrow> watch_item \<Rightarrow> bool" where
  "wanted now item = (scheduled_thread item = None \<and> wi_next item \<le> now)"

definition checked_threads :: "watch_item list \<Rightarrow> string list" where
  "checked_threads items = first_distinct (List.map_filter (\<lambda>i. map_option check_thread (wi_check i)) items)"

definition put_delivery :: "string \<Rightarrow> int \<Rightarrow> string \<Rightarrow> watch_db \<Rightarrow> watch_db" where
  "put_delivery key at error db = db\<lparr>wd_delivery := filter (\<lambda>r. fst r \<noteq> key) (wd_delivery db) @ [(key, at, error)]\<rparr>"

definition del_delivery :: "string \<Rightarrow> watch_db \<Rightarrow> watch_db" where
  "del_delivery key db = db\<lparr>wd_delivery := filter (\<lambda>r. fst r \<noteq> key) (wd_delivery db)\<rparr>"

definition retry_at :: "watch_config \<Rightarrow> int \<Rightarrow> thread_error \<Rightarrow> int" where
  "retry_at cfg now e = (if te_code e = Invalid_request then max_safe else now + wc_interval cfg)"

definition destination_key :: "string \<Rightarrow> string" where
  "destination_key d = ''destination:'' @ d"

definition next_due :: "watch_config \<Rightarrow> int \<Rightarrow> watch_item \<Rightarrow> int" where
  "next_due cfg now item = now + max (case wi_cadence item of None \<Rightarrow> wc_interval cfg | Some c \<Rightarrow> c) (wc_interval cfg)"

definition new_wake :: "watch_config \<Rightarrow> 'w watch_world \<Rightarrow> int \<Rightarrow> string \<Rightarrow> string \<times> js \<Rightarrow> string
    \<Rightarrow> (string \<times> (string \<times> string) list) list \<Rightarrow> watch_item list \<Rightarrow> wake" where
  "new_wake cfg env now key place destination decisions items =
     (let asked = concat (map (\<lambda>t. case map_of decisions t of None \<Rightarrow> [] | Some qs \<Rightarrow> qs) (checked_threads items)) in
      \<lparr>wa_id = key, wa_destination = destination, wa_cwd = fst place, wa_metadata = snd place,
       wa_message = ww_prompt env items destination asked, wa_settings = wc_settings cfg,
       wa_items = map (\<lambda>i. (wi_id i, wi_updated i, next_due cfg now i)) items\<rparr>)"

text \<open>One wake per destination whose placement is not being retried.\<close>

fun prepare_wakes :: "watch_config \<Rightarrow> 'w watch_world \<Rightarrow> int \<Rightarrow> (string \<times> (string \<times> string) list) list \<Rightarrow> (string \<times> watch_item list) list
    \<Rightarrow> watch_db \<Rightarrow> 'w \<Rightarrow> (wake \<times> watch_item list) list \<times> watch_db \<times> 'w" where
  "prepare_wakes cfg env now decisions [] db w = ([], db, w)"
| "prepare_wakes cfg env now decisions ((d, items) # groups) db w =
     (if (case map_of (wd_delivery db) (destination_key d) of None \<Rightarrow> False | Some (at, _) \<Rightarrow> now < at)
      then prepare_wakes cfg env now decisions groups db w
      else case ww_placement env d of
        Inl e \<Rightarrow> prepare_wakes cfg env now decisions groups (put_delivery (destination_key d) (retry_at cfg now e) (te_message e) db) w
      | Inr place \<Rightarrow> (let (key, w1) = ww_uuid env w;
            (rest, db2, w2) = prepare_wakes cfg env now decisions groups (del_delivery (destination_key d) db) w1 in
          ((new_wake cfg env now key place d decisions items, items) # rest, db2, w2)))"

definition groups_of :: "watch_config \<Rightarrow> watch_item list \<Rightarrow> (string \<times> watch_item list) list" where
  "groups_of cfg items = map (\<lambda>d. (d, filter (\<lambda>i. destinationFor cfg i = d) items)) (first_distinct (map (destinationFor cfg) items))"

definition mark_scheduled :: "watch_config \<Rightarrow> int \<Rightarrow> string \<Rightarrow> watch_item \<Rightarrow> watch_db \<Rightarrow> watch_db" where
  "mark_scheduled cfg now key item db = (case item_named (wi_id item) db of None \<Rightarrow> db
     | Some latest \<Rightarrow> if wi_updated latest \<noteq> wi_updated item \<or> wi_next latest \<noteq> wi_next item then db
         else put_item (latest\<lparr>wi_next := next_due cfg now latest, wi_check := Some (Scheduled key)\<rparr>) db)"

definition record_wake :: "watch_config \<Rightarrow> int \<Rightarrow> wake \<times> watch_item list \<Rightarrow> watch_db \<Rightarrow> watch_db" where
  "record_wake cfg now p db = fold (mark_scheduled cfg now (wa_id (fst p))) (snd p) (db\<lparr>wd_wakes := wd_wakes db @ [fst p]\<rparr>)"

text \<open>The transaction that records the wakes; \<open>floor_from\<close> is the next wake time read when scheduling began.\<close>

definition commit_wakes :: "watch_config \<Rightarrow> int \<Rightarrow> int \<Rightarrow> (string \<times> string) option \<Rightarrow> (wake \<times> watch_item list) list \<Rightarrow> watch_db
    \<Rightarrow> wake list result \<times> watch_db" where
  "commit_wakes cfg now floor_from manual wakes db =
     (let answer = Scheduled_threads (map wa_id (wd_wakes db) @ map (wa_id \<circ> fst) wakes);
          db1 = (if wakes \<noteq> [] then db\<lparr>wd_nextWake := max floor_from (now + wc_interval cfg)\<rparr> else db);
          db2 = (case manual of None \<Rightarrow> db1 | Some (request, input) \<Rightarrow> record_answer request input answer db1) in
      if (case manual of None \<Rightarrow> False | Some (request, _) \<Rightarrow> map_of (wd_requests db) request \<noteq> None)
      then (watch_bad Unavailable ''UNIQUE constraint failed: watch_request.id'', db)
      else if \<not> distinct (map wa_id (wd_wakes db) @ map (wa_id \<circ> fst) wakes)
      then (watch_bad Unavailable ''UNIQUE constraint failed: watch_wake.id'', db)
      else (Inr (map fst wakes), fold (record_wake cfg now) wakes db2))"

definition schedule_eligible :: "watch_config \<Rightarrow> int \<Rightarrow> string list \<Rightarrow> watch_item list \<Rightarrow> watch_db \<Rightarrow> watch_item list" where
  "schedule_eligible cfg now busy before db =
     filter (\<lambda>i. i \<in> set before \<and> destinationFor cfg i \<notin> set busy \<and> wanted now i) (wd_items db)"

definition watch_schedule :: "nat \<Rightarrow> watch_config \<Rightarrow> 'w watch_world \<Rightarrow> int \<Rightarrow> (string \<times> string) option \<Rightarrow> watch_db \<Rightarrow> 'w
    \<Rightarrow> (wake list result \<times> watch_db \<times> 'w) option" where
  "watch_schedule n cfg env now manual db w =
     (let due = filter (wanted now) (wd_items db) in
      if manual = None \<and> now < wd_nextWake db \<or> due = [] \<and> manual = None then Some (Inr [], db, w)
      else case busy_threads n cfg env db w of
        None \<Rightarrow> None
      | Some (Inl e, db1, w1) \<Rightarrow> Some (Inl e, db1, w1)
      | Some (Inr running, db1, w1) \<Rightarrow>
          (let busy = map wa_destination (wd_wakes db) @ running;
               before = filter (\<lambda>i. destinationFor cfg i \<notin> set busy) due in
           case ask_decisions env (checked_threads before) db1 w1 of
             (Inl e, db2, w2) \<Rightarrow> Some (Inl e, db2, w2)
           | (Inr decisions, db2, w2) \<Rightarrow>
               if wd_stopped db2 then Some (Inr [], db2, w2)
               else (let (wakes, db3, w3) = prepare_wakes cfg env now decisions
                           (groups_of cfg (schedule_eligible cfg now busy before db2)) db2 w2;
                         (res, db4) = commit_wakes cfg now (wd_nextWake db) manual wakes db3 in
                     Some (res, db4, w3))))"

section \<open>Delivering wakes\<close>

definition drop_wake :: "string \<Rightarrow> watch_db \<Rightarrow> watch_db" where
  "drop_wake key db = del_delivery key (db\<lparr>wd_wakes := filter (\<lambda>a. wa_id a \<noteq> key) (wd_wakes db)\<rparr>)"

datatype step = Step_stop "unit result" | Step_failed "thread_error" | Step_next

definition deliver_spawn :: "watch_config \<Rightarrow> 'w watch_world \<Rightarrow> int \<Rightarrow> wake \<Rightarrow> watch_db \<Rightarrow> 'w \<Rightarrow> step \<times> watch_db \<times> 'w" where
  "deliver_spawn cfg env now a db w =
     (let (res, w') = ww_spawn env a w; db' = ww_meanwhile env w' db in
      case res of Inl e \<Rightarrow> (Step_failed e, put_delivery (wa_id a) (retry_at cfg now e) (te_message e) db', w')
      | Inr key \<Rightarrow> (Step_next, drop_wake key db', w'))"

definition missing_error :: "string \<Rightarrow> thread_error" where
  "missing_error message = \<lparr>te_code = Unavailable, te_message = message, te_retryable = False, te_retry_at = None\<rparr>"

text \<open>A wake whose list became empty is dropped unless its thread exists.\<close>

definition deliver_rest :: "watch_config \<Rightarrow> 'w watch_world \<Rightarrow> int \<Rightarrow> wake \<Rightarrow> watch_db \<Rightarrow> 'w \<Rightarrow> step \<times> watch_db \<times> 'w" where
  "deliver_rest cfg env now a db w =
     (if wd_items db \<noteq> [] then deliver_spawn cfg env now a db w
      else case list_threads env (By_id (wa_id a)) db w of
        (Inl e, db', w') \<Rightarrow> (Step_stop (Inl e), db', w')
      | (Inr (ts, _), db', w') \<Rightarrow> if ts = [] then (Step_next, drop_wake (wa_id a) db', w') else deliver_spawn cfg env now a db' w')"

definition deliver_wake :: "watch_config \<Rightarrow> 'w watch_world \<Rightarrow> int \<Rightarrow> wake \<Rightarrow> watch_db \<Rightarrow> 'w \<Rightarrow> step \<times> watch_db \<times> 'w" where
  "deliver_wake cfg env now a db w =
     (if wd_stopped db then (Step_stop (Inr ()), db, w)
      else case map_of (wd_delivery db) (wa_id a) of
        Some (at, error) \<Rightarrow> if now < at \<and> wd_items db \<noteq> []
          then (case list_threads env (By_id (wa_id a)) db w of
              (Inl e, db', w') \<Rightarrow> (Step_failed e, db', w')
            | (Inr (ts, _), db', w') \<Rightarrow> if ts = [] then (Step_failed (missing_error error), db', w') else deliver_rest cfg env now a db' w')
          else deliver_rest cfg env now a db w
      | None \<Rightarrow> deliver_rest cfg env now a db w)"

fun deliver_wakes :: "watch_config \<Rightarrow> 'w watch_world \<Rightarrow> int \<Rightarrow> wake list \<Rightarrow> unit result \<Rightarrow> watch_db \<Rightarrow> 'w
    \<Rightarrow> unit result option \<times> unit result \<times> watch_db \<times> 'w" where
  "deliver_wakes cfg env now [] failure db w = (None, failure, db, w)"
| "deliver_wakes cfg env now (a # rest) failure db w = (case deliver_wake cfg env now a db w of
     (Step_stop r, db', w') \<Rightarrow> (Some r, failure, db', w')
   | (Step_failed e, db', w') \<Rightarrow> deliver_wakes cfg env now rest (Inl e) db' w'
   | (Step_next, db', w') \<Rightarrow> deliver_wakes cfg env now rest failure db' w')"

definition is_placement :: "string \<Rightarrow> bool" where
  "is_placement key = starts_with (map lower key) ''destination:''"

definition settle_placements :: "watch_config \<Rightarrow> int \<Rightarrow> unit result \<Rightarrow> watch_db \<Rightarrow> unit result \<times> watch_db" where
  "settle_placements cfg now failure db =
     (let due = map (destinationFor cfg) (filter (\<lambda>i. wi_next i \<le> now) (wd_items db));
          errors = filter (\<lambda>r. is_placement (fst r)) (wd_delivery db);
          live = (\<lambda>r. drop (length ''destination:'') (fst r) \<in> set due);
          db' = fold (\<lambda>r. del_delivery (fst r)) (filter (\<lambda>r. \<not> live r) errors) db in
      case find live errors of Some (_, _, error) \<Rightarrow> (watch_bad Unavailable error, db') | None \<Rightarrow> (failure, db'))"

definition deliver_all :: "watch_config \<Rightarrow> 'w watch_world \<Rightarrow> int \<Rightarrow> wake list \<Rightarrow> watch_db \<Rightarrow> 'w \<Rightarrow> unit result \<times> watch_db \<times> 'w" where
  "deliver_all cfg env now pending db w = (case deliver_wakes cfg env now pending (Inr ()) db w of
     (Some r, _, db', w') \<Rightarrow> (r, db', w')
   | (None, failure, db', w') \<Rightarrow> (let (res, db'') = settle_placements cfg now failure db' in (res, db'', w')))"

definition watch_pass :: "nat \<Rightarrow> watch_config \<Rightarrow> 'w watch_world \<Rightarrow> int \<Rightarrow> bool \<Rightarrow> watch_db \<Rightarrow> 'w \<Rightarrow> (unit result \<times> watch_db \<times> 'w) option" where
  "watch_pass n cfg env now allowSchedule db w =
     (if \<not> allowSchedule then Some (deliver_all cfg env now (wd_wakes db) db w)
      else case reconcileChecks env db w of
        (Inl e, db1) \<Rightarrow> Some (Inl e, db1, w)
      | (Inr _, db1) \<Rightarrow> (case watch_schedule n cfg env now None db1 w of
            None \<Rightarrow> None
          | Some (Inl e, db2, w2) \<Rightarrow> Some (Inl e, db2, w2)
          | Some (Inr wakes, db2, w2) \<Rightarrow> Some (deliver_all cfg env now (wd_wakes db @ wakes) db2 w2)))"

definition watch_tick :: "nat \<Rightarrow> watch_config \<Rightarrow> 'w watch_world \<Rightarrow> watch_db \<Rightarrow> 'w \<Rightarrow> (unit result \<times> watch_db \<times> 'w) option" where
  "watch_tick n cfg env db w = (if wd_stopped db \<or> \<not> wc_enabled cfg then Some (Inr (), db, w)
     else watch_pass n cfg env (ww_now env w) True db w)"

section \<open>The request interface\<close>

definition stopping_message :: string where
  "stopping_message = ''Watch list owner is stopping''"

definition check_now :: "nat \<Rightarrow> watch_config \<Rightarrow> 'w watch_world \<Rightarrow> js \<Rightarrow> watch_db \<Rightarrow> 'w \<Rightarrow> (watch_response result \<times> watch_db \<times> 'w) option" where
  "check_now n cfg env input db w =
     (let request = str_of (js_get input ''requestId''); serialized = input_text input in
      if wd_stopped db then Some (watch_bad Unavailable stopping_message, db, w)
      else case prior_answer request serialized db of Some answer \<Rightarrow> Some (answer, db, w)
      | None \<Rightarrow> (case reconcileChecks env (db\<lparr>wd_delivery := []\<rparr>) w of
          (Inl e, db1) \<Rightarrow> Some (Inl e, db1, w)
        | (Inr _, db1) \<Rightarrow> (case watch_schedule n cfg env (ww_now env w) (Some (request, serialized)) db1 w of
            None \<Rightarrow> None
          | Some (Inl e, db2, w2) \<Rightarrow> Some (Inl e, db2, w2)
          | Some (Inr _, db2, w2) \<Rightarrow> (case watch_pass n cfg env (ww_now env w2) False db2 w2 of
              None \<Rightarrow> None
            | Some (_, db3, w3) \<Rightarrow> Some (case map_of (wd_requests db3) request of
                Some (_, response) \<Rightarrow> Inr response
              | None \<Rightarrow> watch_bad Unavailable ''Watch list stopped before check-now scheduling'', db3, w3)))))"

definition watch :: "nat \<Rightarrow> watch_config \<Rightarrow> 'w watch_world \<Rightarrow> js \<Rightarrow> watch_db \<Rightarrow> 'w \<Rightarrow> (watch_response result \<times> watch_db \<times> 'w) option" where
  "watch n cfg env input db w =
     (let action = js_get input ''action'' in
      if wd_stopped db then Some (watch_bad Unavailable stopping_message, db, w)
      else if \<not> nonblank (js_get input ''threadId'') then Some (watch_bad Invalid_request ''A calling threadId is required'', db, w)
      else if action = JStr ''list'' then Some (Inr (Items (wd_items db)), db, w)
      else if action = JStr ''checkNow'' then
        (if \<not> nonblank (js_get input ''requestId'') then Some (watch_bad Invalid_request ''Provide a stable requestId'', db, w)
         else check_now n cfg env input db w)
      else if action \<notin> {JStr ''add'', JStr ''update'', JStr ''remove''} \<or> \<not> nonblank (js_get input ''requestId'')
      then Some (watch_bad Invalid_request ''Provide a watch action and stable requestId'', db, w)
      else if \<not> request_valid cfg input then Some (watch_bad Invalid_request (fields_error cfg), db, w)
      else Some (watch_edit cfg env input db w))"

definition watch_stop :: "watch_db \<Rightarrow> watch_db" where
  "watch_stop db = db\<lparr>wd_stopped := True\<rparr>"


section \<open>No item is checked twice at once\<close>

definition covers :: "wake \<Rightarrow> watch_item \<Rightarrow> bool" where
  "covers a i = (wi_id i \<in> fst ` set (wa_items a))"

definition covered :: "wake list \<Rightarrow> watch_item list \<Rightarrow> bool" where
  "covered as is = (\<forall>a\<in>set as. \<forall>i\<in>set is. covers a i \<longrightarrow> scheduled_thread i = Some (wa_id a))"

definition watch_ok :: "watch_db \<Rightarrow> bool" where
  "watch_ok db = (distinct (map wi_id (wd_items db)) \<and> distinct (map wa_id (wd_wakes db)) \<and> covered (wd_wakes db) (wd_items db))"

lemma watch_ok_same:
  "wd_items db' = wd_items db \<Longrightarrow> wd_wakes db' = wd_wakes db \<Longrightarrow> watch_ok db' = watch_ok db"
  by (simp add: watch_ok_def)

lemma delivery_same [simp]:
  "wd_items (put_delivery k at e db) = wd_items db" "wd_wakes (put_delivery k at e db) = wd_wakes db"
  "wd_items (del_delivery k db) = wd_items db" "wd_wakes (del_delivery k db) = wd_wakes db"
  "wd_nextWake (put_delivery k at e db) = wd_nextWake db" "wd_nextWake (del_delivery k db) = wd_nextWake db"
  "wd_requests (put_delivery k at e db) = wd_requests db" "wd_requests (del_delivery k db) = wd_requests db"
  by (simp_all add: put_delivery_def del_delivery_def)

lemma watch_ok_delivery [simp]:
  "watch_ok (put_delivery k at e db) = watch_ok db" "watch_ok (del_delivery k db) = watch_ok db"
  by (simp_all add: watch_ok_def)

lemma covered_subset: "covered as is \<Longrightarrow> set as' \<subseteq> set as \<Longrightarrow> covered as' is"
  by (auto simp: covered_def)

lemma distinct_map_filter_id: "distinct (map f xs) \<Longrightarrow> distinct (map f (filter P xs))"
  by (induction xs) auto

lemma watch_ok_drop [simp]: "watch_ok db \<Longrightarrow> watch_ok (drop_wake k db)"
  unfolding watch_ok_def drop_wake_def
  by (auto simp: distinct_map_filter_id intro: covered_subset)

text \<open>Items may change, keeping identities and scheduled checks.\<close>

lemma covered_map:
  assumes "covered as is" "\<And>i. i \<in> set is \<Longrightarrow> wi_id (f i) = wi_id i"
    "\<And>i a. i \<in> set is \<Longrightarrow> a \<in> set as \<Longrightarrow> scheduled_thread i = Some (wa_id a) \<Longrightarrow> scheduled_thread (f i) = scheduled_thread i"
  shows "covered as (map f is)"
  using assms unfolding covered_def covers_def by auto

lemma watch_ok_map:
  assumes "watch_ok db" "\<And>i. i \<in> set (wd_items db) \<Longrightarrow> wi_id (f i) = wi_id i"
    "\<And>i a. i \<in> set (wd_items db) \<Longrightarrow> a \<in> set (wd_wakes db) \<Longrightarrow> scheduled_thread i = Some (wa_id a) \<Longrightarrow> scheduled_thread (f i) = scheduled_thread i"
  shows "watch_ok (db\<lparr>wd_items := map f (wd_items db)\<rparr>)"
proof -
  have "map wi_id (map f (wd_items db)) = map wi_id (wd_items db)" using assms(2) by simp
  moreover have "covered (wd_wakes db) (map f (wd_items db))"
    by (rule covered_map) (use assms in \<open>auto simp: watch_ok_def\<close>)
  ultimately show ?thesis using assms(1) unfolding watch_ok_def by (simp del: map_map)
qed

lemma item_named_Some: "item_named key db = Some i \<Longrightarrow> i \<in> set (wd_items db) \<and> wi_id i = key"
  by (auto simp: item_named_def find_Some_iff)

lemma put_item_ok:
  assumes "watch_ok db" "item_named (wi_id j) db = Some i" "scheduled_thread j = scheduled_thread i"
  shows "watch_ok (put_item j db)"
  unfolding put_item_def
proof (rule watch_ok_map[OF assms(1)])
  fix k a assume k: "k \<in> set (wd_items db)"
  have i: "i \<in> set (wd_items db)" "wi_id i = wi_id j" using item_named_Some[OF assms(2)] by auto
  have "k = i" if "wi_id k = wi_id j"
    using assms(1) k i that unfolding watch_ok_def by (metis distinct_map inj_onD)
  then show "scheduled_thread (if wi_id k = wi_id j then j else k) = scheduled_thread k"
    using assms(3) by auto
qed auto

text \<open>What a request may do: an edit whose new identifier is fresh, or stopping.\<close>

definition fresh_for :: "string \<Rightarrow> watch_db \<Rightarrow> bool" where
  "fresh_for key db = (\<forall>a\<in>set (wd_wakes db). key \<notin> fst ` set (wa_items a))"

inductive other_step :: "watch_config \<Rightarrow> 'w watch_world \<Rightarrow> watch_db \<Rightarrow> watch_db \<Rightarrow> bool" for cfg env where
  edit: "watch_edit cfg env input db w = (r, db', w') \<Longrightarrow> fresh_for (fst (ww_uuid env w)) db \<Longrightarrow> other_step cfg env db db'"
| stop: "other_step cfg env db (watch_stop db)"

lemma patched_item_same: "wi_id (patched_item now p i) = wi_id i" "wi_check (patched_item now p i) = wi_check i"
  by (simp_all add: patched_item_def)

lemma record_answer_ok [simp]: "watch_ok (record_answer k s r db) = watch_ok db"
  by (simp add: record_answer_def watch_ok_def)

lemma add_item_ok:
  assumes "watch_ok db" "fresh_for (wi_id i) db" "item_named (wi_id i) db = None"
  shows "watch_ok (db\<lparr>wd_items := wd_items db @ [i]\<rparr>)"
proof -
  have "wi_id i \<notin> set (map wi_id (wd_items db))" using assms(3) by (auto simp: item_named_def find_None_iff)
  then show ?thesis using assms(1,2) unfolding watch_ok_def covered_def covers_def fresh_for_def by auto
qed

lemma remove_item_ok: "watch_ok db \<Longrightarrow> watch_ok (db\<lparr>wd_items := filter P (wd_items db)\<rparr>)"
  unfolding watch_ok_def covered_def by (auto simp: distinct_map_filter_id)

lemma new_item_id: "wi_id (new_item cfg env now key caller fs) = key"
  by (simp add: new_item_def)

lemma edit_ok:
  assumes "watch_ok db" "watch_edit cfg env input db w = (r, db', w')" "fresh_for (fst (ww_uuid env w)) db"
  shows "watch_ok db'"
proof (cases "prior_answer (str_of (js_get input ''requestId'')) (input_text input) db")
  case (Some a)
  then show ?thesis using assms by (simp add: watch_edit_def Let_def)
next
  case None
  obtain key w1 where u: "ww_uuid env w = (key, w1)" by (cases "ww_uuid env w")
  show ?thesis
  proof (cases "js_get input ''action'' = JStr ''add''")
    case True
    have "watch_ok (db\<lparr>wd_items := wd_items db @ [i]\<rparr>)" if "wi_id i = key" "item_named key db = None" for i
      using add_item_ok[OF assms(1), of i] assms(3) u that by simp
    then show ?thesis using assms(1,2) None True u
      by (auto simp: watch_edit_def Let_def new_item_id split: if_split_asm)
  next
    case False
    show ?thesis
    proof (cases "item_named (str_of (js_get input ''id'')) db")
      case None
      then show ?thesis using assms(1,2) False \<open>prior_answer _ _ _ = None\<close> by (simp add: watch_edit_def)
    next
      case (Some row)
      let ?j = "patched_item (ww_now env w) (js_get input ''patch'') row"
      have "watch_ok (put_item ?j db)"
        by (rule put_item_ok[OF assms(1), of _ row])
          (use Some item_named_Some[OF Some] in \<open>simp_all add: patched_item_same scheduled_thread_def\<close>)
      then show ?thesis using assms(1,2) False None Some remove_item_ok[OF assms(1)]
        by (auto simp: watch_edit_def Let_def split: if_split_asm)
    qed
  qed
qed

lemma other_ok: "(other_step cfg env)\<^sup>*\<^sup>* db db' \<Longrightarrow> watch_ok db \<Longrightarrow> watch_ok db'"
proof (induction rule: rtranclp_induct)
  case (step x y)
  then have "watch_ok x" by simp
  from step.hyps(2) show ?case
  proof (cases rule: other_step.cases)
    case (edit input w r w')
    show ?thesis by (rule edit_ok[OF \<open>watch_ok x\<close> edit])
  next
    case stop
    then show ?thesis using \<open>watch_ok x\<close> by (simp add: watch_stop_def watch_ok_def)
  qed
qed


text \<open>Recording a wake schedules its items.\<close>

definition mark :: "watch_config \<Rightarrow> int \<Rightarrow> string \<Rightarrow> watch_item \<Rightarrow> watch_item" where
  "mark cfg now key i = i\<lparr>wi_next := next_due cfg now i, wi_check := Some (Scheduled key)\<rparr>"

lemma mark_simps [simp]: "wi_id (mark cfg now key i) = wi_id i" "scheduled_thread (mark cfg now key i) = Some key"
  by (simp_all add: mark_def scheduled_thread_def)

lemma item_named_in: "distinct (map wi_id (wd_items db)) \<Longrightarrow> i \<in> set (wd_items db) \<Longrightarrow> item_named (wi_id i) db = Some i"
proof -
  have "distinct (map wi_id is) \<Longrightarrow> i \<in> set is \<Longrightarrow> find (\<lambda>j. wi_id j = wi_id i) is = Some i" for "is"
    by (induction "is") auto
  then show "distinct (map wi_id (wd_items db)) \<Longrightarrow> i \<in> set (wd_items db) \<Longrightarrow> item_named (wi_id i) db = Some i"
    by (simp add: item_named_def)
qed

definition marked :: "watch_config \<Rightarrow> int \<Rightarrow> string \<Rightarrow> string set \<Rightarrow> watch_item \<Rightarrow> watch_item" where
  "marked cfg now key ids i = (if wi_id i \<in> ids then mark cfg now key i else i)"

lemma marked_id [simp]: "wi_id (marked cfg now key ids i) = wi_id i"
  by (simp add: marked_def)

lemma mark_one:
  assumes "distinct (map wi_id (wd_items db))" "i \<in> set (wd_items db)"
  shows "mark_scheduled cfg now key i db = db\<lparr>wd_items := map (marked cfg now key {wi_id i}) (wd_items db)\<rparr>"
proof -
  have "(if wi_id j = wi_id i then mark cfg now key i else j) = marked cfg now key {wi_id i} j" if "j \<in> set (wd_items db)" for j
    using assms that by (auto simp: marked_def dest: distinct_map[THEN iffD1] inj_onD)
  then have "map (\<lambda>j. if wi_id j = wi_id i then mark cfg now key i else j) (wd_items db) = map (marked cfg now key {wi_id i}) (wd_items db)"
    by (rule map_cong[OF refl])
  then show ?thesis using item_named_in[OF assms] by (simp add: mark_scheduled_def put_item_def mark_def[symmetric])
qed

lemma mark_all:
  assumes "distinct (map wi_id (wd_items db))" "set is \<subseteq> set (wd_items db)" "distinct (map wi_id is)"
  shows "fold (mark_scheduled cfg now key) is db = db\<lparr>wd_items := map (marked cfg now key (wi_id ` set is)) (wd_items db)\<rparr>"
  using assms
proof (induction "is" arbitrary: db)
  case Nil
  then show ?case by (simp add: marked_def)
next
  case (Cons i "is")
  let ?db = "db\<lparr>wd_items := map (marked cfg now key {wi_id i}) (wd_items db)\<rparr>"
  have ids: "map wi_id (wd_items ?db) = map wi_id (wd_items db)" by simp
  have "set is \<subseteq> set (wd_items ?db)"
  proof
    fix j assume j: "j \<in> set is"
    then have "wi_id j \<noteq> wi_id i" using Cons.prems(3) by (metis distinct.simps(2) image_eqI list.simps(9) set_map)
    then have "marked cfg now key {wi_id i} j = j" by (simp add: marked_def)
    moreover have "j \<in> set (wd_items db)" using Cons.prems(2) j by auto
    ultimately show "j \<in> set (wd_items ?db)" by force
  qed
  moreover have "distinct (map wi_id (wd_items ?db))" "distinct (map wi_id is)"
    using Cons.prems(1,3) ids by (simp_all del: map_map)
  ultimately have "fold (mark_scheduled cfg now key) is ?db
      = ?db\<lparr>wd_items := map (marked cfg now key (wi_id ` set is)) (wd_items ?db)\<rparr>"
    by (intro Cons.IH)
  moreover have "map (marked cfg now key (wi_id ` set is)) (wd_items ?db) = map (marked cfg now key (wi_id ` set (i # is))) (wd_items db)"
    using Cons.prems(3) by (auto simp: marked_def)
  ultimately show ?case using mark_one[OF Cons.prems(1), of i] Cons.prems(2) by simp
qed

definition new_batch :: "watch_db \<Rightarrow> wake \<times> watch_item list \<Rightarrow> bool" where
  "new_batch db p = (set (snd p) \<subseteq> set (wd_items db) \<and> (\<forall>i\<in>set (snd p). scheduled_thread i = None)
     \<and> fst ` set (wa_items (fst p)) = wi_id ` set (snd p))"

lemma wake_recorded_eq:
  assumes "distinct (map wi_id (wd_items db))" "new_batch db p" "distinct (map wi_id (snd p))"
  shows "record_wake cfg now p db = db\<lparr>wd_wakes := wd_wakes db @ [fst p],
     wd_items := map (marked cfg now (wa_id (fst p)) (wi_id ` set (snd p))) (wd_items db)\<rparr>"
  using mark_all[of "db\<lparr>wd_wakes := wd_wakes db @ [fst p]\<rparr>" "snd p"] assms by (simp add: record_wake_def new_batch_def)

lemma wake_recorded_ok:
  assumes "watch_ok db" "new_batch db p" "distinct (map wi_id (snd p))" "wa_id (fst p) \<notin> wa_id ` set (wd_wakes db)"
  shows "watch_ok (record_wake cfg now p db)"
proof -
  have d: "distinct (map wi_id (wd_items db))" "covered (wd_wakes db) (wd_items db)" using assms(1) by (simp_all add: watch_ok_def)
  let ?f = "marked cfg now (wa_id (fst p)) (wi_id ` set (snd p))"
  have old: "scheduled_thread (?f i) = scheduled_thread i"
    if i: "i \<in> set (wd_items db)" and a: "scheduled_thread i = Some t" for i t
  proof (cases "wi_id i \<in> wi_id ` set (snd p)")
    case True
    then obtain j where j: "j \<in> set (snd p)" "wi_id j = wi_id i" by auto
    then have "j \<in> set (wd_items db)" using assms(2) by (auto simp: new_batch_def)
    then have "j = i" using d(1) i j(2) by (metis distinct_map inj_onD)
    then have "scheduled_thread i = None" using assms(2) j(1) by (simp add: new_batch_def)
    then show ?thesis using a by simp
  next
    case False
    then show ?thesis by (simp add: marked_def)
  qed
  have "covered (wd_wakes db) (map ?f (wd_items db))" by (rule covered_map[OF d(2)]) (auto simp: old)
  moreover have "scheduled_thread (?f i) = Some (wa_id (fst p))" if "covers (fst p) (?f i)" for i
    using that assms(2) by (auto simp: covers_def new_batch_def marked_def)
  ultimately have "covered (wd_wakes db @ [fst p]) (map ?f (wd_items db))" by (auto simp: covered_def)
  moreover have "map wi_id (map ?f (wd_items db)) = map wi_id (wd_items db)" by simp
  ultimately show ?thesis
    using assms(1,4) unfolding wake_recorded_eq[OF d(1) assms(2,3)] watch_ok_def by (simp del: map_map)
qed

lemma batch_kept:
  assumes "distinct (map wi_id (wd_items db))" "new_batch db p" "distinct (map wi_id (snd p))" "new_batch db q"
    "set (map wi_id (snd p)) \<inter> set (map wi_id (snd q)) = {}"
  shows "new_batch (record_wake cfg now p db) q"
proof -
  have "j \<in> set (wd_items (record_wake cfg now p db))" if j: "j \<in> set (snd q)" for j
  proof -
    have "wi_id j \<notin> wi_id ` set (snd p)" using assms(5) j by auto
    then have "marked cfg now (wa_id (fst p)) (wi_id ` set (snd p)) j = j" by (simp add: marked_def)
    moreover have "j \<in> set (wd_items db)" using assms(4) j by (auto simp: new_batch_def)
    ultimately show ?thesis unfolding wake_recorded_eq[OF assms(1-3)] by force
  qed
  then show ?thesis using assms(4) by (auto simp: new_batch_def)
qed

lemma wake_recorded_all_ok:
  assumes "watch_ok db" "\<forall>p\<in>set ps. new_batch db p" "distinct (concat (map (\<lambda>p. map wi_id (snd p)) ps))"
    "distinct (map wa_id (wd_wakes db) @ map (wa_id \<circ> fst) ps)"
  shows "watch_ok (fold (record_wake cfg now) ps db)"
  using assms
proof (induction ps arbitrary: db)
  case (Cons p ps)
  have d: "distinct (map wi_id (wd_items db))" using Cons.prems(1) by (simp add: watch_ok_def)
  have p: "new_batch db p" "distinct (map wi_id (snd p))" using Cons.prems(2,3) by simp_all
  have ok: "watch_ok (record_wake cfg now p db)"
    by (rule wake_recorded_ok[OF Cons.prems(1) p]) (use Cons.prems(4) in auto)
  have batches: "\<forall>q\<in>set ps. new_batch (record_wake cfg now p db) q"
  proof
    fix q assume q: "q \<in> set ps"
    have "set (map wi_id (snd p)) \<inter> set (map wi_id (snd q)) = {}" using Cons.prems(3) q by auto
    then show "new_batch (record_wake cfg now p db) q" using batch_kept[OF d p] Cons.prems(2) q by simp
  qed
  have ids: "distinct (map wa_id (wd_wakes (record_wake cfg now p db)) @ map (wa_id \<circ> fst) ps)"
    using Cons.prems(4) unfolding wake_recorded_eq[OF d p] by (simp add: comp_def)
  have "distinct (concat (map (\<lambda>p. map wi_id (snd p)) ps))" using Cons.prems(3) by simp
  from Cons.IH[OF ok batches this ids] show ?case by simp
qed simp


text \<open>The wakes prepared are for distinct groups of the eligible items.\<close>

definition batches_of :: "(wake \<times> watch_item list) list \<Rightarrow> watch_item list list" where
  "batches_of ps = map snd ps"

lemma prepare_same:
  assumes "prepare_wakes cfg env now ds gs db w = (ps, db', w')"
  shows "wd_items db' = wd_items db \<and> wd_wakes db' = wd_wakes db \<and> wd_nextWake db' = wd_nextWake db \<and> wd_requests db' = wd_requests db"
  using assms
proof (induction cfg env now ds gs db w arbitrary: ps db' w' rule: prepare_wakes.induct)
  case (2 cfg env now ds d "is" gs db w)
  show ?case
  proof (cases "case map_of (wd_delivery db) (destination_key d) of None \<Rightarrow> False | Some (at, _) \<Rightarrow> now < at")
    case True
    then show ?thesis using 2 by simp
  next
    case f: False
    show ?thesis
    proof (cases "ww_placement env d")
      case (Inl e)
      then show ?thesis using 2(2)[OF f Inl] 2(4) f by auto
    next
      case (Inr place)
      obtain key w1 where u: "ww_uuid env w = (key, w1)" by (cases "ww_uuid env w")
      obtain rest db2 w2 where r: "prepare_wakes cfg env now ds gs (del_delivery (destination_key d) db) w1 = (rest, db2, w2)"
        by (cases "prepare_wakes cfg env now ds gs (del_delivery (destination_key d) db) w1")
      have "db' = db2" using 2(4) f Inr u r by simp
      then show ?thesis using 2(3)[OF f Inr u[symmetric] refl r] by simp
    qed
  qed
qed simp

lemma prepare_batches:
  assumes "prepare_wakes cfg env now ds gs db w = (ps, db', w')"
  shows "subseq (map (\<lambda>p. (wa_destination (fst p), snd p)) ps) gs
    \<and> (\<forall>p\<in>set ps. map fst (wa_items (fst p)) = map wi_id (snd p) \<and> (\<forall>x\<in>set (wa_items (fst p)). now + wc_interval cfg \<le> snd (snd x)))"
  using assms
proof (induction cfg env now ds gs db w arbitrary: ps db' w' rule: prepare_wakes.induct)
  case (2 cfg env now ds d "is" gs db w)
  show ?case
  proof (cases "case map_of (wd_delivery db) (destination_key d) of None \<Rightarrow> False | Some (at, _) \<Rightarrow> now < at")
    case True
    then show ?thesis using 2 by auto
  next
    case f: False
    show ?thesis
    proof (cases "ww_placement env d")
      case (Inl e)
      then show ?thesis using 2(2)[OF f Inl] 2(4) f by auto
    next
      case (Inr place)
      obtain key w1 where u: "ww_uuid env w = (key, w1)" by (cases "ww_uuid env w")
      obtain rest db2 w2 where r: "prepare_wakes cfg env now ds gs (del_delivery (destination_key d) db) w1 = (rest, db2, w2)"
        by (cases "prepare_wakes cfg env now ds gs (del_delivery (destination_key d) db) w1")
      have ps: "ps = (new_wake cfg env now key place d ds is, is) # rest" using 2(4) f Inr u r by simp
      have new: "map fst (wa_items (new_wake cfg env now key place d ds is)) = map wi_id is"
        "\<forall>x\<in>set (wa_items (new_wake cfg env now key place d ds is)). now + wc_interval cfg \<le> snd (snd x)"
        "wa_destination (new_wake cfg env now key place d ds is) = d"
        by (auto simp: new_wake_def Let_def comp_def next_due_def)
      then show ?thesis using 2(3)[OF f Inr u[symmetric] refl r] by (simp add: ps)
    qed
  qed
qed simp

lemma subseq_concat_distinct:
  assumes "subseq xs ys" "distinct (concat (map f ys))"
  shows "distinct (concat (map f xs))"
  using assms
proof (induction rule: list_emb.induct)
  case (list_emb_Cons2 x y xs ys)
  then show ?case by (auto dest: list_emb_set)
qed auto

lemma group_ids_distinct:
  assumes "distinct (map wi_id is)"
  shows "distinct (concat (map (\<lambda>g. map wi_id (snd g)) (groups_of cfg is)))"
proof -
  have "distinct (concat (map (\<lambda>d. map wi_id (filter (\<lambda>i. destinationFor cfg i = d) is)) ds))" if "distinct ds" for ds
    using that
  proof (induction ds)
    case (Cons d ds)
    have inj: "inj_on wi_id (set is)" using assms by (simp add: distinct_map)
    show ?case using Cons by (auto simp: distinct_map_filter_id[OF assms] dest: inj_onD[OF inj])
  qed simp
  from this[OF set_first_distinct(2)] show ?thesis by (simp add: groups_of_def comp_def)
qed

lemma group_items: "g \<in> set (groups_of cfg is) \<Longrightarrow> set (snd g) \<subseteq> set is"
  by (auto simp: groups_of_def)

lemma prepared_batches:
  assumes "watch_ok db" "prepare_wakes cfg env now ds (groups_of cfg (schedule_eligible cfg now busy before db)) db w = (ps, db', w')"
  shows "\<forall>p\<in>set ps. new_batch db' p" "distinct (concat (map (\<lambda>p. map wi_id (snd p)) ps))" "watch_ok db'"
proof -
  let ?el = "schedule_eligible cfg now busy before db"
  note same = prepare_same[OF assms(2)]
  have sub: "subseq (map (\<lambda>p. (wa_destination (fst p), snd p)) ps) (groups_of cfg ?el)"
    and ids: "\<forall>p\<in>set ps. map fst (wa_items (fst p)) = map wi_id (snd p)"
    using prepare_batches[OF assms(2)] by auto
  show "\<forall>p\<in>set ps. new_batch db' p"
  proof
    fix p assume p: "p \<in> set ps"
    have "(wa_destination (fst p), snd p) \<in> set (groups_of cfg ?el)" using list_emb_set[OF sub] p by force
    then have "set (snd p) \<subseteq> set ?el" using group_items by fastforce
    moreover have "fst ` set (wa_items (fst p)) = wi_id ` set (snd p)" using ids p by (metis set_map)
    ultimately show "new_batch db' p" using same by (auto simp: new_batch_def schedule_eligible_def wanted_def)
  qed
  have "distinct (map wi_id ?el)" using assms(1) by (simp add: watch_ok_def schedule_eligible_def distinct_map_filter_id)
  from subseq_concat_distinct[OF sub group_ids_distinct[OF this]]
  show "distinct (concat (map (\<lambda>p. map wi_id (snd p)) ps))" by (simp add: comp_def)
  show "watch_ok db'" using assms(1) same by (simp add: watch_ok_def)
qed

lemma commit_cases:
  assumes "commit_wakes cfg now fl manual ps db = (res, db')"
  obtains "\<not> is_ok res" "db' = db"
  | db2 where "res = Inr (map fst ps)" "db' = fold (record_wake cfg now) ps db2" "wd_items db2 = wd_items db" "wd_wakes db2 = wd_wakes db"
      "distinct (map wa_id (wd_wakes db) @ map (wa_id \<circ> fst) ps)"
      "wd_nextWake db2 = (if ps \<noteq> [] then max fl (now + wc_interval cfg) else wd_nextWake db)"
proof -
  define db1 where "db1 = (if ps \<noteq> [] then db\<lparr>wd_nextWake := max fl (now + wc_interval cfg)\<rparr> else db)"
  define db2 where "db2 = (case manual of None \<Rightarrow> db1 | Some (request, input) \<Rightarrow>
    record_answer request input (Scheduled_threads (map wa_id (wd_wakes db) @ map (wa_id \<circ> fst) ps)) db1)"
  have same: "wd_items db2 = wd_items db" "wd_wakes db2 = wd_wakes db"
    "wd_nextWake db2 = (if ps \<noteq> [] then max fl (now + wc_interval cfg) else wd_nextWake db)"
    by (auto simp: db2_def db1_def record_answer_def split: option.split)
  have eq: "commit_wakes cfg now fl manual ps db =
    (if (case manual of None \<Rightarrow> False | Some (request, _) \<Rightarrow> map_of (wd_requests db) request \<noteq> None)
      then (watch_bad Unavailable ''UNIQUE constraint failed: watch_request.id'', db)
      else if \<not> distinct (map wa_id (wd_wakes db) @ map (wa_id \<circ> fst) ps)
      then (watch_bad Unavailable ''UNIQUE constraint failed: watch_wake.id'', db)
      else (Inr (map fst ps), fold (record_wake cfg now) ps db2))"
    unfolding commit_wakes_def Let_def db2_def db1_def by (rule refl)
  have refused: "\<not> is_ok (watch_bad c m :: wake list result)" for c m by (simp add: watch_bad_def)
  show ?thesis
  proof (cases "case manual of None \<Rightarrow> False | Some (request, _) \<Rightarrow> map_of (wd_requests db) request \<noteq> None")
    case True
    then have "(res, db') = (watch_bad Unavailable ''UNIQUE constraint failed: watch_request.id'', db)" using assms unfolding eq by simp
    then show ?thesis using that(1) refused by blast
  next
    case free: False
    show ?thesis
    proof (cases "distinct (map wa_id (wd_wakes db) @ map (wa_id \<circ> fst) ps)")
      case True
      have "commit_wakes cfg now fl manual ps db = (Inr (map fst ps), fold (record_wake cfg now) ps db2)"
        unfolding eq if_not_P[OF free] using True by (simp only: not_True_eq_False if_False)
      then have "res = Inr (map fst ps)" "db' = fold (record_wake cfg now) ps db2" using assms by simp_all
      then show ?thesis using that(2) same True by blast
    next
      case False
      have "commit_wakes cfg now fl manual ps db = (watch_bad Unavailable ''UNIQUE constraint failed: watch_wake.id'', db)"
        unfolding eq if_not_P[OF free] by (rule if_P[OF False])
      then show ?thesis using assms that(1) refused by simp
    qed
  qed
qed

lemma commit_ok:
  assumes "watch_ok db" "\<forall>p\<in>set ps. new_batch db p" "distinct (concat (map (\<lambda>p. map wi_id (snd p)) ps))"
    "commit_wakes cfg now fl manual ps db = (res, db')"
  shows "watch_ok db'"
  using assms(4)
proof (cases rule: commit_cases)
  case 1
  then show ?thesis using assms(1) by simp
next
  case (2 db2)
  have "watch_ok (fold (record_wake cfg now) ps db2)"
    by (rule wake_recorded_all_ok) (use assms(1-3) 2 in \<open>simp_all add: watch_ok_def new_batch_def\<close>)
  then show ?thesis using 2 by simp
qed


definition only_requests :: "watch_config \<Rightarrow> 'w watch_world \<Rightarrow> bool" where
  "only_requests cfg env = (\<forall>w db. (other_step cfg env)\<^sup>*\<^sup>* db (ww_meanwhile env w db))"

lemma meanwhile_ok: "only_requests cfg env \<Longrightarrow> watch_ok db \<Longrightarrow> watch_ok (ww_meanwhile env w db)"
  unfolding only_requests_def using other_ok by blast

lemma list_ok: "only_requests cfg env \<Longrightarrow> watch_ok db \<Longrightarrow> list_threads env q db w = (res, db', w') \<Longrightarrow> watch_ok db'"
  unfolding list_threads_def by (auto simp: meanwhile_ok split: prod.split_asm)

lemma busy_pages_ok:
  "only_requests cfg env \<Longrightarrow> watch_ok db \<Longrightarrow> busy_pages n cfg env state cursor db w = Some (res, db', w') \<Longrightarrow> watch_ok db'"
proof (induction n arbitrary: cursor db w res db' w')
  case (Suc n)
  obtain r d1 w1 where l: "list_threads env (By_state state cursor) db w = (r, d1, w1)" by (metis prod.collapse)
  have d1: "watch_ok d1" by (rule list_ok[OF Suc.prems(1,2) l])
  show ?case
  proof (cases r)
    case (Inl e)
    then show ?thesis using Suc.prems(3) l d1 by simp
  next
    case (Inr page)
    obtain ts nx where p: "page = (ts, nx)" by (cases page)
    show ?thesis
    proof (cases "nx = None \<or> nx = Some []")
      case True
      then show ?thesis using Suc.prems(3) l d1 Inr p by auto
    next
      case False
      then obtain res2 where "busy_pages n cfg env state nx d1 w1 = Some (res2, db', w')"
        using Suc.prems(3) l Inr p by (auto split: option.split_asm sum.split_asm)
      then show ?thesis by (rule Suc.IH[OF Suc.prems(1) d1])
    qed
  qed
qed simp

lemma busy_threads_ok:
  assumes "only_requests cfg env" "watch_ok db" "busy_threads n cfg env db w = Some (res, db', w')"
  shows "watch_ok db'"
proof -
  obtain r1 d1 w1 where r: "busy_pages n cfg env ''running'' None db w = Some (r1, d1, w1)"
    using assms(3) by (cases "busy_pages n cfg env ''running'' None db w") (auto simp: busy_threads_def)
  have d1: "watch_ok d1" by (rule busy_pages_ok[OF assms(1,2) r])
  show ?thesis
  proof (cases r1)
    case (Inl e)
    then show ?thesis using assms(3) r d1 by (simp add: busy_threads_def)
  next
    case (Inr b)
    then obtain r2 where "busy_pages n cfg env ''waiting'' None d1 w1 = Some (r2, db', w')"
      using assms(3) r by (auto simp: busy_threads_def split: option.split_asm sum.split_asm)
    then show ?thesis by (rule busy_pages_ok[OF assms(1) d1])
  qed
qed

lemma ask_ok:
  "only_requests cfg env \<Longrightarrow> watch_ok db \<Longrightarrow> ask_decisions env ts db w = (res, db', w') \<Longrightarrow> watch_ok db'"
proof (induction ts arbitrary: db w res db' w')
  case (Cons t ts)
  obtain q w1 where q: "ww_questions env t w = (q, w1)" by (cases "ww_questions env t w")
  have d1: "watch_ok (ww_meanwhile env w1 db)" by (rule meanwhile_ok[OF Cons.prems(1,2)])
  obtain r2 d2 w2 where rest: "ask_decisions env ts (ww_meanwhile env w1 db) w1 = (r2, d2, w2)"
    by (metis prod.collapse)
  have "watch_ok d2" by (rule Cons.IH[OF Cons.prems(1) d1 rest])
  then show ?case using Cons.prems(3) q rest d1 by (auto simp: Let_def split: sum.split_asm if_split_asm)
qed simp

lemma watch_schedule_ok:
  assumes "only_requests cfg env" "watch_ok db" "watch_schedule n cfg env now manual db w = Some (res, db', w')"
  shows "watch_ok db'"
proof -
  let ?due = "filter (wanted now) (wd_items db)"
  show ?thesis
  proof (cases "manual = None \<and> now < wd_nextWake db \<or> ?due = [] \<and> manual = None")
    case True
    then show ?thesis using assms(2,3) by (auto simp: watch_schedule_def)
  next
    case go: False
    then obtain r1 d1 w1 where b: "busy_threads n cfg env db w = Some (r1, d1, w1)"
      using assms(3) by (cases "busy_threads n cfg env db w") (auto simp: watch_schedule_def Let_def)
    have d1: "watch_ok d1" by (rule busy_threads_ok[OF assms(1,2) b])
    show ?thesis
    proof (cases r1)
      case (Inl e)
      then show ?thesis using assms(3) go b d1 by (auto simp: watch_schedule_def)
    next
      case (Inr running)
      define busy where "busy = map wa_destination (wd_wakes db) @ running"
      define before where "before = filter (\<lambda>i. destinationFor cfg i \<notin> set busy) ?due"
      obtain r2 d2 w2 where a: "ask_decisions env (checked_threads before) d1 w1 = (r2, d2, w2)" by (metis prod.collapse)
      have d2: "watch_ok d2" by (rule ask_ok[OF assms(1) d1 a])
      show ?thesis
      proof (cases "is_ok r2 \<and> \<not> wd_stopped d2")
        case False
        then have "db' = d2" using assms(3) go b Inr a unfolding watch_schedule_def Let_def busy_def[symmetric] before_def[symmetric]
          by (cases r2) (auto simp: busy_def before_def split: if_split_asm)
        then show ?thesis using d2 by simp
      next
        case True
        then obtain ds where ds: "r2 = Inr ds" by (auto elim: is_okE)
        obtain ps d3 w3 where p: "prepare_wakes cfg env now ds (groups_of cfg (schedule_eligible cfg now busy before d2)) d2 w2 = (ps, d3, w3)"
          by (metis prod.collapse)
        obtain r4 d4 where c: "commit_wakes cfg now (wd_nextWake db) manual ps d3 = (r4, d4)" by (metis prod.collapse)
        have "db' = d4" using assms(3) go b Inr a True ds p c by (auto simp: watch_schedule_def Let_def busy_def before_def)
        then show ?thesis using commit_ok[OF prepared_batches(3,1,2)[OF d2 p] c] by simp
      qed
    qed
  qed
qed


lemma deliver_spawn_ok:
  "only_requests cfg env \<Longrightarrow> watch_ok db \<Longrightarrow> deliver_spawn cfg env now a db w = (s, db', w') \<Longrightarrow> watch_ok db'"
  unfolding deliver_spawn_def by (auto simp: Let_def meanwhile_ok split: prod.split_asm sum.split_asm)

lemma deliver_rest_ok:
  assumes "only_requests cfg env" "watch_ok db" "deliver_rest cfg env now a db w = (s, db', w')"
  shows "watch_ok db'"
proof (cases "wd_items db \<noteq> []")
  case True
  then show ?thesis using assms(3) deliver_spawn_ok[OF assms(1,2)] by (simp add: deliver_rest_def)
next
  case False
  obtain r d1 w1 where l: "list_threads env (By_id (wa_id a)) db w = (r, d1, w1)" by (metis prod.collapse)
  have d1: "watch_ok d1" by (rule list_ok[OF assms(1,2) l])
  show ?thesis using assms(3) False l d1 deliver_spawn_ok[OF assms(1) d1]
    by (auto simp: deliver_rest_def split: sum.split_asm if_split_asm)
qed

lemma deliver_wake_ok:
  assumes "only_requests cfg env" "watch_ok db" "deliver_wake cfg env now a db w = (s, db', w')"
  shows "watch_ok db'"
proof -
  obtain r d1 w1 where l: "list_threads env (By_id (wa_id a)) db w = (r, d1, w1)" by (metis prod.collapse)
  have d1: "watch_ok d1" by (rule list_ok[OF assms(1,2) l])
  show ?thesis using assms(2,3) l d1 deliver_rest_ok[OF assms(1) d1] deliver_rest_ok[OF assms(1,2)]
    by (auto simp: deliver_wake_def split: option.split_asm sum.split_asm if_split_asm)
qed

lemma deliver_wakes_ok:
  "only_requests cfg env \<Longrightarrow> watch_ok db \<Longrightarrow> deliver_wakes cfg env now as failure db w = (r, f, db', w') \<Longrightarrow> watch_ok db'"
proof (induction "as" arbitrary: failure db w)
  case (Cons a "as")
  obtain s d1 w1 where d: "deliver_wake cfg env now a db w = (s, d1, w1)" by (metis prod.collapse)
  have d1: "watch_ok d1" by (rule deliver_wake_ok[OF Cons.prems(1,2) d])
  show ?case using Cons.prems(3) d d1 Cons.IH[OF Cons.prems(1) d1] by (cases s) auto
qed simp

lemma fold_delivery_ok: "watch_ok (fold (\<lambda>r. del_delivery (fst r)) rs db) = watch_ok db"
  by (induction rs arbitrary: db) simp_all

lemma deliver_all_ok:
  assumes "only_requests cfg env" "watch_ok db" "deliver_all cfg env now as db w = (r, db', w')"
  shows "watch_ok db'"
proof -
  obtain r1 f d1 w1 where d: "deliver_wakes cfg env now as (Inr ()) db w = (r1, f, d1, w1)" by (metis prod.collapse)
  have d1: "watch_ok d1" by (rule deliver_wakes_ok[OF assms(1,2) d])
  then have "watch_ok (snd (settle_placements cfg now f d1))"
    by (auto simp: settle_placements_def Let_def fold_delivery_ok split: option.split)
  then show ?thesis using assms(3) d d1
    by (cases r1) (auto simp: deliver_all_def Let_def split: prod.split_asm)
qed

lemma ended_keys: "ended_checks env ts w = Inr ended \<Longrightarrow> fst ` set ended \<subseteq> set ts"
proof (induction ts arbitrary: ended)
  case (Cons t ts)
  then show ?case by (auto simp: rbind_eq_Inr split: option.split_asm) fastforce+
qed simp

lemma set_map_filter: "set (List.map_filter f xs) = {y. \<exists>x\<in>set xs. f x = Some y}"
  by (force simp: List.map_filter_def image_iff)

lemma scheduled_threads_set:
  "t \<in> set (scheduled_threads db) \<longleftrightarrow> t \<notin> wa_id ` set (wd_wakes db) \<and> (\<exists>i\<in>set (wd_items db). scheduled_thread i = Some t)"
proof -
  have "(case scheduled_thread i of Some s \<Rightarrow> if s \<in> set (map wa_id (wd_wakes db)) then None else Some s | None \<Rightarrow> None) = Some t
    \<longleftrightarrow> scheduled_thread i = Some t \<and> t \<notin> wa_id ` set (wd_wakes db)" for i
    by (auto split: option.split)
  then show ?thesis by (auto simp: scheduled_threads_def set_map_filter)
qed

lemma settle_id [simp]: "wi_id (settle_item ended i) = wi_id i"
  by (auto simp: settle_item_def split: option.split)

lemma settle_kept: "t \<notin> fst ` set ended \<Longrightarrow> scheduled_thread i = Some t \<Longrightarrow> settle_item ended i = i"
  by (auto simp: settle_item_def map_of_None_keys[symmetric] split: option.split)

lemma reconcileChecks_ok:
  assumes "watch_ok db" "reconcileChecks env db w = (r, db')"
  shows "watch_ok db'"
proof (cases "ended_checks env (scheduled_threads db) w")
  case (Inl e)
  then show ?thesis using assms by (simp add: reconcileChecks_def)
next
  case (Inr ended)
  have "watch_ok (db\<lparr>wd_items := map (settle_item ended) (wd_items db)\<rparr>)"
  proof (rule watch_ok_map[OF assms(1)])
    fix i a assume "i \<in> set (wd_items db)" and a: "a \<in> set (wd_wakes db)" and s: "scheduled_thread i = Some (wa_id a)"
    have "wa_id a \<notin> fst ` set ended" using ended_keys[OF Inr] a scheduled_threads_set by blast
    then show "scheduled_thread (settle_item ended i) = scheduled_thread i" using settle_kept s by metis
  qed simp
  then show ?thesis using assms(2) Inr by (simp add: reconcileChecks_def)
qed

lemma watch_pass_ok:
  assumes "only_requests cfg env" "watch_ok db" "watch_pass n cfg env now allow db w = Some (r, db', w')"
  shows "watch_ok db'"
proof (cases allow)
  case False
  then show ?thesis using assms(3) deliver_all_ok[OF assms(1,2)] by (simp add: watch_pass_def)
next
  case True
  obtain r1 d1 where rc: "reconcileChecks env db w = (r1, d1)" by (metis prod.collapse)
  have d1: "watch_ok d1" by (rule reconcileChecks_ok[OF assms(2) rc])
  show ?thesis
  proof (cases r1)
    case (Inl e)
    then show ?thesis using assms(3) True rc d1 by (simp add: watch_pass_def)
  next
    case (Inr u)
    then obtain r2 d2 w2 where s: "watch_schedule n cfg env now None d1 w = Some (r2, d2, w2)"
      using assms(3) True rc by (cases "watch_schedule n cfg env now None d1 w") (auto simp: watch_pass_def)
    have d2: "watch_ok d2" by (rule watch_schedule_ok[OF assms(1) d1 s])
    show ?thesis using assms(3) True rc Inr s d2 deliver_all_ok[OF assms(1) d2]
      by (cases r2) (auto simp: watch_pass_def)
  qed
qed

lemma check_now_ok:
  assumes "only_requests cfg env" "watch_ok db" "check_now n cfg env input db w = Some (r, db', w')"
  shows "watch_ok db'"
proof (cases "wd_stopped db \<or> prior_answer (str_of (js_get input ''requestId'')) (input_text input) db \<noteq> None")
  case True
  have "db' = db"
  proof (cases "wd_stopped db")
    case True
    then show ?thesis using assms(3) by (simp add: check_now_def Let_def)
  next
    case False
    then obtain answer where "prior_answer (str_of (js_get input ''requestId'')) (input_text input) db = Some answer" using True by blast
    then show ?thesis using assms(3) False by (simp add: check_now_def Let_def)
  qed
  then show ?thesis using assms(2) by simp
next
  case go: False
  obtain r1 d1 where rc: "reconcileChecks env (db\<lparr>wd_delivery := []\<rparr>) w = (r1, d1)" by (metis prod.collapse)
  have d1: "watch_ok d1" by (rule reconcileChecks_ok[OF _ rc]) (use assms(2) in \<open>simp add: watch_ok_def\<close>)
  show ?thesis
  proof (cases r1)
    case (Inl e)
    then show ?thesis using assms(3) go rc d1 by (simp add: check_now_def Let_def)
  next
    case (Inr u)
    let ?m = "Some (str_of (js_get input ''requestId''), input_text input)"
    obtain r2 d2 w2 where s: "watch_schedule n cfg env (ww_now env w) ?m d1 w = Some (r2, d2, w2)"
      using assms(3) go rc Inr by (cases "watch_schedule n cfg env (ww_now env w) ?m d1 w") (auto simp: check_now_def Let_def)
    have d2: "watch_ok d2" by (rule watch_schedule_ok[OF assms(1) d1 s])
    show ?thesis
    proof (cases r2)
      case (Inl e)
      then show ?thesis using assms(3) go rc Inr s d2 by (simp add: check_now_def Let_def)
    next
      case (Inr x)
      obtain r3 d3 w3 where p: "watch_pass n cfg env (ww_now env w2) False d2 w2 = Some (r3, d3, w3)"
        by (cases "watch_pass n cfg env (ww_now env w2) False d2 w2") (auto simp: watch_pass_def)
      have "db' = d3" using assms(3) go rc \<open>r1 = Inr u\<close> s Inr p by (simp add: check_now_def Let_def)
      then show ?thesis using watch_pass_ok[OF assms(1) d2 p] by simp
    qed
  qed
qed

text \<open>The tables a running service can have.\<close>

inductive watch_reach :: "watch_config \<Rightarrow> 'w watch_world \<Rightarrow> watch_db \<Rightarrow> bool" for cfg env where
  opened: "wd_items db = [] \<Longrightarrow> wd_wakes db = [] \<Longrightarrow> watch_reach cfg env db"
| request: "watch_reach cfg env db \<Longrightarrow> other_step cfg env db db' \<Longrightarrow> watch_reach cfg env db'"
| filled: "watch_reach cfg env db \<Longrightarrow> watch_reach cfg env (snd (backfill cfg env db))"
| passed: "watch_reach cfg env db \<Longrightarrow> watch_tick n cfg env db w = Some (r, db', w') \<Longrightarrow> watch_reach cfg env db'"
| checked: "watch_reach cfg env db \<Longrightarrow> check_now n cfg env input db w = Some (a, db', w') \<Longrightarrow> watch_reach cfg env db'"

lemma backfill_ok: "watch_ok db \<Longrightarrow> watch_ok (snd (backfill cfg env db))"
proof -
  assume ok: "watch_ok db"
  have "watch_ok (db\<lparr>wd_items := map (backfill_item cfg env) (wd_items db)\<rparr>)"
    by (rule watch_ok_map[OF ok]) (auto simp: backfill_item_def scheduled_thread_def split: option.split)
  then show ?thesis using ok by (simp add: backfill_def)
qed

lemma reach_watch_ok: "only_requests cfg env \<Longrightarrow> watch_reach cfg env db \<Longrightarrow> watch_ok db"
proof (rotate_tac, induction rule: watch_reach.induct)
  case (opened db)
  then show ?case by (simp add: watch_ok_def covered_def)
next
  case (request db db')
  then show ?case using other_ok[of cfg env db db'] by blast
next
  case (filled db)
  then show ?case by (simp add: backfill_ok)
next
  case (passed db n w r db' w')
  then show ?case using watch_pass_ok[of cfg env db n "ww_now env w" True w r db' w']
    by (auto simp: watch_tick_def split: if_split_asm)
next
  case (checked db n input w a db' w')
  then show ?case using check_now_ok[of cfg env db n input w a db' w'] by blast
qed


text \<open>C10: No item is checked twice at once: in every state the service can reach, whatever requests arrive while it awaits
  the thread service, an item belongs to at most one undelivered wake, and its last check is that wake's,
  still open.\<close>

theorem watch_item_checked_once:
  assumes "only_requests cfg env" "watch_reach cfg env db" "i \<in> set (wd_items db)" "a \<in> set (wd_wakes db)" "b \<in> set (wd_wakes db)"
    "covers a i" "covers b i"
  shows "a = b \<and> scheduled_thread i = Some (wa_id a)"
proof -
  have ok: "watch_ok db" by (rule reach_watch_ok[OF assms(1,2)])
  then have c: "covered (wd_wakes db) (wd_items db)" by (simp add: watch_ok_def)
  have a: "scheduled_thread i = Some (wa_id a)" using c assms(3,4,6) by (simp add: covered_def)
  have "scheduled_thread i = Some (wa_id b)" using c assms(3,5,7) by (simp add: covered_def)
  then have "wa_id a = wa_id b" using a by simp
  then show ?thesis using ok assms(4,5) a unfolding watch_ok_def by (metis distinct_map inj_onD)
qed

text \<open>A request takes effect once: repeating an accepted add, update or remove answers what it answered before and
  changes nothing, whatever happened since; another input under its identifier is refused.\<close>

theorem watch_request_once:
  assumes "watch_edit cfg env input db w = (Inr r, db1, w1)" "map_of (wd_requests db) (str_of (js_get input ''requestId'')) = None"
    "prefix (wd_requests db1) (wd_requests db2)" "js_get other ''requestId'' = js_get input ''requestId''" "input_text other \<noteq> input_text input"
  shows "watch_edit cfg env' input db2 w2 = (Inr r, db2, w2)
    \<and> watch_edit cfg env' other db2 w2 = (watch_bad Conflict ''requestId already belongs to different watch input'', db2, w2)"
proof -
  let ?k = "str_of (js_get input ''requestId'')" and ?s = "input_text input"
  have "\<exists>d. db1 = record_answer ?k ?s r d \<and> wd_requests d = wd_requests db"
    using assms(1,2) unfolding watch_edit_def
    by (auto simp: Let_def prior_answer_def watch_bad_def put_item_def split: option.split_asm if_split_asm prod.split_asm)
  then have "wd_requests db1 = wd_requests db @ [(?k, ?s, r)]" by (auto simp: record_answer_def)
  then obtain later where "wd_requests db2 = wd_requests db @ [(?k, ?s, r)] @ later" using assms(3) by (auto simp: prefix_def)
  then have "map_of (wd_requests db2) ?k = Some (?s, r)" using assms(2) by (simp add: map_add_def)
  then show ?thesis using assms(4,5) by (simp add: watch_edit_def prior_answer_def Let_def)
qed

lemma ended_checks_entry:
  "ended_checks env ts w = Inr ended \<Longrightarrow> t \<in> set ts \<Longrightarrow> map_of ended t = None \<Longrightarrow> ww_outcome env t w = Inr Open"
proof (induction ts arbitrary: ended)
  case (Cons s ts)
  then obtain outcome rest where o: "ww_outcome env s w = Inr outcome" "ended_checks env ts w = Inr rest"
    "ended = (case ended_check s (ww_now env w) outcome of None \<Rightarrow> rest | Some c \<Rightarrow> (s, c) # rest)"
    by (auto simp: rbind_eq_Inr)
  show ?case
  proof (cases "s = t")
    case True
    then have "ended_check s (ww_now env w) outcome = None" using o(3) Cons.prems(3) by (auto split: option.split_asm)
    then show ?thesis using o(1) True by (cases outcome) (simp_all add: ended_check_def)
  next
    case False
    then have "t \<in> set ts" "map_of rest t = None" using Cons.prems(2,3) o(3) by (auto split: option.split_asm if_split_asm)
    then show ?thesis by (rule Cons.IH[OF o(2)])
  qed
qed simp

lemma ended_not_scheduled:
  "ended_checks env ts w = Inr ended \<Longrightarrow> map_of ended t = Some c \<Longrightarrow> \<forall>s. c \<noteq> Scheduled s"
proof (induction ts arbitrary: ended)
  case (Cons s ts)
  then obtain outcome rest where o: "ended_checks env ts w = Inr rest"
    "ended = (case ended_check s (ww_now env w) outcome of None \<Rightarrow> rest | Some c \<Rightarrow> (s, c) # rest)"
    by (auto simp: rbind_eq_Inr)
  have "\<forall>r. d \<noteq> Scheduled r" if "ended_check s (ww_now env w) outcome = Some d" for d
    using that by (cases outcome) (auto simp: ended_check_def)
  then show ?case using o Cons.prems(2) Cons.IH[OF o(1)] by (auto split: option.split_asm if_split_asm)
qed simp

text \<open>An item never waits for a worker that is gone: after a reconciliation that reported no error, every item still
  waiting for its check waits for an undelivered wake or for a thread its owner reports open; nothing else
  of any item has changed.\<close>

theorem reconciled_checks_live:
  assumes "reconcileChecks env db w = (Inr (), db')" "i \<in> set (wd_items db')" "scheduled_thread i = Some t"
  shows "(t \<in> wa_id ` set (wd_wakes db') \<or> ww_outcome env t w = Inr Open)
    \<and> map (\<lambda>i. i\<lparr>wi_check := None\<rparr>) (wd_items db') = map (\<lambda>i. i\<lparr>wi_check := None\<rparr>) (wd_items db)"
proof -
  obtain ended where e: "ended_checks env (scheduled_threads db) w = Inr ended" "db' = db\<lparr>wd_items := map (settle_item ended) (wd_items db)\<rparr>"
    using assms(1) by (auto simp: reconcileChecks_def split: sum.split_asm)
  obtain j where j: "j \<in> set (wd_items db)" "i = settle_item ended j" using assms(2) e(2) by auto
  obtain s where s: "scheduled_thread j = Some s"
    using assms(3) j(2) by (cases "scheduled_thread j") (auto simp: settle_item_def)
  have "map_of ended s = None"
  proof (cases "map_of ended s")
    case (Some c)
    then have "wi_check i = Some c" using j(2) s by (simp add: settle_item_def)
    then show ?thesis using assms(3) ended_not_scheduled[OF e(1) Some] by (auto simp: scheduled_thread_def split: watch_check.split_asm)
  qed
  then have "t = s" using j(2) s assms(3) by (simp add: settle_item_def)
  then have "t \<in> wa_id ` set (wd_wakes db') \<or> ww_outcome env t w = Inr Open"
    using ended_checks_entry[OF e(1)] scheduled_threads_set[of t db] j(1) s \<open>map_of ended s = None\<close> e(2) by auto
  moreover have "(settle_item ended k)\<lparr>wi_check := None\<rparr> = k\<lparr>wi_check := None\<rparr>" for k
    by (simp add: settle_item_def split: option.split)
  ultimately show ?thesis using e(2) by simp
qed


section \<open>A due item gets its check\<close>

lemma busy_pages_mono: "busy_pages n cfg env state cursor db w = Some r \<Longrightarrow> n \<le> k \<Longrightarrow> busy_pages k cfg env state cursor db w = Some r"
proof (induction n arbitrary: k cursor db w r)
  case (Suc n)
  obtain m where k: "k = Suc m" "n \<le> m" using Suc.prems(2) by (cases k) auto
  obtain a d1 w1 where l: "list_threads env (By_state state cursor) db w = (a, d1, w1)" by (metis prod.collapse)
  show ?case
  proof (cases a)
    case (Inl e)
    then show ?thesis using Suc.prems(1) l k(1) by simp
  next
    case (Inr page)
    obtain ts nx where p: "page = (ts, nx)" by (cases page)
    show ?thesis
    proof (cases "nx = None \<or> nx = Some []")
      case True
      then show ?thesis using Suc.prems(1) l k(1) Inr p by auto
    next
      case False
      obtain later where b: "busy_pages n cfg env state nx d1 w1 = Some later"
        using Suc.prems(1) l Inr p False by (cases "busy_pages n cfg env state nx d1 w1") auto
      then show ?thesis using Suc.prems(1) l k(1) Inr p False Suc.IH[OF b k(2)] by auto
    qed
  qed
qed simp

text \<open>The service ends its pages: some measure of the rest decreases with every further page.\<close>

definition pages_end :: "'w watch_world \<Rightarrow> (string \<Rightarrow> string option \<Rightarrow> 'w \<Rightarrow> nat) \<Rightarrow> bool" where
  "pages_end env remaining = (\<forall>state cursor w ts next w'. ww_list env (By_state state cursor) w = (Inr (ts, Some next), w') \<longrightarrow> next \<noteq> []
     \<longrightarrow> remaining state (Some next) w' < remaining state cursor w)"

lemma busy_pages_returns:
  assumes "pages_end env remaining"
  shows "remaining state cursor w < n \<Longrightarrow> busy_pages n cfg env state cursor db w \<noteq> None"
proof (induction n arbitrary: cursor db w)
  case (Suc n)
  obtain a w1 where l: "ww_list env (By_state state cursor) w = (a, w1)" by (metis prod.collapse)
  show ?case
  proof (cases a)
    case (Inl e)
    then show ?thesis using l by (simp add: list_threads_def)
  next
    case (Inr page)
    obtain ts nx where p: "page = (ts, nx)" by (cases page)
    show ?thesis
    proof (cases "nx = None \<or> nx = Some []")
      case True
      then show ?thesis using l Inr p by (auto simp: list_threads_def)
    next
      case False
      then obtain c where c: "nx = Some c" "c \<noteq> []" by auto
      have "remaining state (Some c) w1 < remaining state cursor w"
        using assms l Inr p c unfolding pages_end_def by blast
      then have "remaining state nx w1 < n" using Suc.prems c(1) by simp
      from Suc.IH[OF this, of "ww_meanwhile env w1 db"]
      obtain later d2 w2 where b: "busy_pages n cfg env state nx (ww_meanwhile env w1 db) w1 = Some (later, d2, w2)" by auto
      show ?thesis using l Inr p False b by (cases later) (auto simp: list_threads_def)
    qed
  qed
qed simp



lemma mark_same [simp]:
  "wd_wakes (mark_scheduled cfg now key i db) = wd_wakes db" "wd_nextWake (mark_scheduled cfg now key i db) = wd_nextWake db"
  by (auto simp: mark_scheduled_def put_item_def split: option.split)

lemma marks_same:
  "wd_wakes (fold (mark_scheduled cfg now key) is db) = wd_wakes db \<and> wd_nextWake (fold (mark_scheduled cfg now key) is db) = wd_nextWake db"
  by (induction "is" arbitrary: db) simp_all

lemma records_same:
  "wd_wakes (fold (record_wake cfg now) ps db) = wd_wakes db @ map fst ps \<and> wd_nextWake (fold (record_wake cfg now) ps db) = wd_nextWake db"
  by (induction ps arbitrary: db) (simp_all add: record_wake_def marks_same)

lemma map_of_filter_key: "map_of (filter (\<lambda>r. fst r \<noteq> k) xs) j = (if j = k then None else map_of xs j)"
  by (induction xs) auto

lemma prepare_reaches:
  assumes "prepare_wakes cfg env now ds gs db w = (ps, db', w')" "(d, is) \<in> set gs" "ww_placement env d = Inr place"
    "map_of (wd_delivery db) (destination_key d) = None"
  shows "\<exists>p\<in>set ps. snd p = is \<and> wa_destination (fst p) = d"
  using assms
proof (induction cfg env now ds gs db w arbitrary: ps db' w' rule: prepare_wakes.induct)
  case (2 cfg env now ds d' is' gs db w)
  have keys: "destination_key d = destination_key d' \<longleftrightarrow> d = d'" by (simp add: destination_key_def)
  show ?case
  proof (cases "case map_of (wd_delivery db) (destination_key d') of None \<Rightarrow> False | Some (at, _) \<Rightarrow> now < at")
    case True
    then have "d \<noteq> d'" using 2(7) by auto
    then show ?thesis using 2(1)[OF True] 2(4-7) True by auto
  next
    case f: False
    show ?thesis
    proof (cases "ww_placement env d'")
      case (Inl e)
      then have "d \<noteq> d'" using 2(6) by auto
      moreover have "map_of (wd_delivery (put_delivery (destination_key d') (retry_at cfg now e) (te_message e) db)) (destination_key d) = None"
        using 2(7) calculation keys by (simp add: put_delivery_def map_of_filter_key map_add_def)
      ultimately show ?thesis using 2(2)[OF f Inl] 2(4-6) f Inl by auto
    next
      case (Inr place')
      obtain key w1 where u: "ww_uuid env w = (key, w1)" by (cases "ww_uuid env w")
      obtain rest db2 w2 where r: "prepare_wakes cfg env now ds gs (del_delivery (destination_key d') db) w1 = (rest, db2, w2)"
        by (cases "prepare_wakes cfg env now ds gs (del_delivery (destination_key d') db) w1")
      have ps: "ps = (new_wake cfg env now key place' d' ds is', is') # rest" using 2(4) f Inr u r by simp
      show ?thesis
      proof (cases "(d, is) = (d', is')")
        case True
        then show ?thesis by (auto simp: ps new_wake_def Let_def)
      next
        case False
        have "map_of (wd_delivery (del_delivery (destination_key d') db)) (destination_key d) = None"
          using 2(7) by (simp add: del_delivery_def map_of_filter_key)
        then have "\<exists>p\<in>set rest. snd p = is \<and> wa_destination (fst p) = d"
          using 2(3)[OF f Inr u[symmetric] refl r _ 2(6)] 2(5) False by auto
        then show ?thesis by (simp add: ps)
      qed
    qed
  qed
qed simp

lemma ask_quiet: "\<forall>w d. ww_meanwhile env w d = d \<Longrightarrow> ask_decisions env ts db w = (r, db', w') \<Longrightarrow> db' = db"
proof (induction ts arbitrary: w r db' w')
  case (Cons t ts)
  obtain q w1 where q: "ww_questions env t w = (q, w1)" by (cases "ww_questions env t w")
  obtain r2 d2 w2 where rest: "ask_decisions env ts db w1 = (r2, d2, w2)" by (metis prod.collapse)
  have "d2 = db" by (rule Cons.IH[OF Cons.prems(1) rest])
  then show ?case using Cons.prems q rest by (auto simp: Let_def split: sum.split_asm if_split_asm)
qed simp



section \<open>A running example\<close>

definition sample_watch :: "nat watch_world" where
  "sample_watch = \<lparr>ww_list = (\<lambda>q w. (Inr ([], None), w)), ww_spawn = (\<lambda>a w. (watch_bad Unavailable ''busy'', w)),
     ww_questions = (\<lambda>t w. (Inr [], w)), ww_meanwhile = (\<lambda>w d. d), ww_now = (\<lambda>w. 3000000),
     ww_uuid = (\<lambda>w. (replicate (Suc w) CHR ''u'', Suc w)), ww_outcome = (\<lambda>t w. Inr Missing),
     ww_placement = (\<lambda>d. Inr (''/home'', JObj [])), ww_destinationOf = None, ww_prompt = (\<lambda>is d qs. ''check'')\<rparr>"

definition sample_watch_config :: watch_config where
  "sample_watch_config = \<lparr>wc_interval = default_watch_interval, wc_settings = sample_settings, wc_destinations = [''home''],
     wc_default = ''home'', wc_enabled = True\<rparr>"

definition sample_add :: "string \<Rightarrow> js" where
  "sample_add what = mk_obj [(''action'', JStr ''add''), (''requestId'', JStr ''r1''), (''threadId'', JStr ''t1''),
     (''item'', mk_obj [(''what'', JStr what), (''why'', JStr ''bills'')])]"

definition sample_watched :: watch_item where
  "sample_watched = \<lparr>wi_id = ''u'', wi_what = ''mail'', wi_why = ''bills'', wi_how = None, wi_cadence = None, wi_next = 3000000,
     wi_addedBy = ''t1'', wi_created = 3000000, wi_updated = 3000000, wi_check = None, wi_destination = None\<rparr>"

definition empty_watch :: watch_db where
  "empty_watch = \<lparr>wd_items = [], wd_requests = [], wd_wakes = [], wd_delivery = [], wd_nextWake = 0, wd_stopped = False\<rparr>"

definition sample_listed :: watch_db where
  "sample_listed = empty_watch\<lparr>wd_items := [sample_watched], wd_requests := [(''r1'', input_text (sample_add ''mail''), Item sample_watched)]\<rparr>"

lemma sample_added: "watch_edit sample_watch_config sample_watch (sample_add ''mail'') empty_watch 0 = (Inr (Item sample_watched), sample_listed, Suc 0)"
  by (simp add: watch_edit_def prior_answer_def empty_watch_def sample_listed_def sample_add_def sample_watch_def item_named_def
      record_answer_def new_item_def sample_watched_def opt_text_def opt_int_def is_integer_def or_else_def callerDestination_def Let_def)

definition sample_wake :: wake where
  "sample_wake = \<lparr>wa_id = ''uu'', wa_destination = ''home'', wa_cwd = ''/home'', wa_metadata = JObj [], wa_message = ''check'',
     wa_settings = sample_settings, wa_items = [(''u'', 3000000, 5700000)]\<rparr>"

definition sample_woken :: watch_db where
  "sample_woken = sample_listed\<lparr>wd_items := [mark sample_watch_config 3000000 ''uu'' sample_watched], wd_wakes := [sample_wake],
     wd_nextWake := 5700000\<rparr>"

lemma sample_config: "wc_interval sample_watch_config = 2700000" "wc_default sample_watch_config = ''home''"
  "wc_destinations sample_watch_config = [''home'']" "wc_settings sample_watch_config = sample_settings" "wc_enabled sample_watch_config"
  by (simp_all add: sample_watch_config_def default_watch_interval_def)

lemma sample_world: "ww_list sample_watch q w = (Inr ([], None), w)" "ww_spawn sample_watch a w = (watch_bad Unavailable ''busy'', w)"
  "ww_questions sample_watch s w = (Inr [], w)" "ww_meanwhile sample_watch w d = d" "ww_now sample_watch w = 3000000"
  "ww_uuid sample_watch w = (replicate (Suc w) CHR ''u'', Suc w)" "ww_outcome sample_watch s w = Inr Missing"
  "ww_placement sample_watch p = Inr (''/home'', JObj [])" "ww_destinationOf sample_watch = None" "ww_prompt sample_watch is p qs = ''check''"
  by (simp_all add: sample_watch_def)

lemma sample_wanted: "wanted 3000000 sample_watched" "destinationFor sample_watch_config sample_watched = ''home''"
  "checked_threads [sample_watched] = []" "next_due sample_watch_config 3000000 sample_watched = 5700000"
  by (simp_all add: wanted_def sample_watched_def scheduled_thread_def destinationFor_def sample_config checked_threads_def
      first_distinct_def List.map_filter_def next_due_def)

lemma sample_busy: "busy_threads (Suc 0) sample_watch_config sample_watch db w = Some (Inr [], db, w)"
  by (simp add: busy_threads_def list_threads_def sample_world busy_of_def)

lemma sample_scheduled: "watch_schedule (Suc 0) sample_watch_config sample_watch 3000000 None sample_listed (Suc 0) = Some (Inr [sample_wake], sample_woken, Suc (Suc 0))"
proof -
  have l: "wd_items sample_listed = [sample_watched]" "wd_wakes sample_listed = []" "wd_nextWake sample_listed = 0"
    "wd_stopped sample_listed = False" "wd_delivery sample_listed = []"
    by (simp_all add: sample_listed_def empty_watch_def)
  have g: "groups_of sample_watch_config [sample_watched] = [(''home'', [sample_watched])]"
    by (simp add: groups_of_def first_distinct_def sample_wanted)
  have k: "new_wake sample_watch_config sample_watch 3000000 ''uu'' (''/home'', JObj []) ''home'' [] [sample_watched] = sample_wake"
    by (simp add: new_wake_def sample_wake_def sample_wanted sample_world sample_config) (simp add: sample_watched_def)
  have p: "prepare_wakes sample_watch_config sample_watch 3000000 [] [(''home'', [sample_watched])] sample_listed (Suc 0)
      = ([(sample_wake, [sample_watched])], sample_listed, Suc (Suc 0))"
    using l by (simp add: sample_world k del_delivery_def)
  have r: "record_wake sample_watch_config 3000000 (sample_wake, [sample_watched]) (sample_listed\<lparr>wd_nextWake := 5700000\<rparr>) = sample_woken"
    by (simp add: record_wake_def mark_scheduled_def item_named_def l sample_wake_def sample_woken_def put_item_def mark_def)
  have c: "commit_wakes sample_watch_config 3000000 0 None [(sample_wake, [sample_watched])] sample_listed = (Inr [sample_wake], sample_woken)"
    using r by (simp add: commit_wakes_def l sample_config Let_def)
  show ?thesis
    by (simp add: watch_schedule_def l sample_wanted sample_busy Let_def schedule_eligible_def g p c del: prepare_wakes.simps)
qed



lemma sample_only_requests: "only_requests sample_watch_config sample_watch"
  by (simp add: only_requests_def sample_world)

lemma sample_listed_eq: "wd_items sample_listed = [sample_watched]" "wd_wakes sample_listed = []" "wd_delivery sample_listed = []"
  "\<not> wd_stopped sample_listed" "wd_requests sample_listed = [(''r1'', input_text (sample_add ''mail''), Item sample_watched)]"
  by (simp_all add: sample_listed_def empty_watch_def)

lemma sample_reconciled: "reconcileChecks sample_watch sample_listed w = (Inr (), sample_listed)"
proof -
  have "scheduled_threads sample_listed = []"
    by (simp add: scheduled_threads_def sample_listed_eq sample_watched_def scheduled_thread_def first_distinct_def List.map_filter_def)
  then show ?thesis
    by (simp add: reconcileChecks_def sample_listed_eq settle_item_def) (simp add: sample_listed_def sample_watched_def scheduled_thread_def)
qed

definition sample_retrying :: watch_db where
  "sample_retrying = put_delivery ''uu'' 5700000 ''busy'' sample_woken"

lemma sample_ticked: "watch_tick (Suc 0) sample_watch_config sample_watch sample_listed (Suc 0)
    = Some (watch_bad Unavailable ''busy'', sample_retrying, Suc (Suc 0))"
proof -
  have woken: "wd_items sample_woken = [mark sample_watch_config 3000000 ''uu'' sample_watched]" "wd_delivery sample_woken = []" "\<not> wd_stopped sample_woken"
    by (simp_all add: sample_woken_def sample_listed_eq)
  have d: "deliver_wakes sample_watch_config sample_watch 3000000 [sample_wake] (Inr ()) sample_woken (Suc (Suc 0))
      = (None, watch_bad Unavailable ''busy'', sample_retrying, Suc (Suc 0))"
    by (simp add: deliver_wake_def deliver_rest_def deliver_spawn_def woken sample_world sample_retrying_def watch_bad_def retry_at_def sample_config)
      (simp add: sample_wake_def)
  have n: "\<not> is_placement ''uu''" by (simp add: is_placement_def starts_with_def)
  have s: "settle_placements sample_watch_config 3000000 f sample_retrying = (f, sample_retrying)" for f
    by (simp add: settle_placements_def sample_retrying_def put_delivery_def woken n Let_def)
  show ?thesis
    by (simp add: watch_tick_def sample_listed_eq sample_config sample_world watch_pass_def sample_reconciled sample_scheduled deliver_all_def d s del: deliver_wakes.simps)
qed

lemma watch_item_checked_once_witness:
  "watch_reach sample_watch_config sample_watch sample_retrying \<and> sample_wake \<in> set (wd_wakes sample_retrying)
   \<and> scheduled_thread (mark sample_watch_config 3000000 ''uu'' sample_watched) = Some (wa_id sample_wake)"
proof -
  have "watch_reach sample_watch_config sample_watch empty_watch" by (rule watch_reach.opened) (simp_all add: empty_watch_def)
  moreover have "fresh_for (fst (ww_uuid sample_watch 0)) empty_watch" by (simp add: fresh_for_def empty_watch_def)
  ultimately have "watch_reach sample_watch_config sample_watch sample_listed"
    by (rule watch_reach.request[OF _ other_step.edit[OF sample_added]])
  then have r: "watch_reach sample_watch_config sample_watch sample_retrying" by (rule watch_reach.passed[OF _ sample_ticked])
  let ?i = "mark sample_watch_config 3000000 ''uu'' sample_watched"
  have m: "?i \<in> set (wd_items sample_retrying)" "sample_wake \<in> set (wd_wakes sample_retrying)" "covers sample_wake ?i"
    by (simp_all add: sample_retrying_def sample_woken_def covers_def sample_wake_def) (simp add: sample_watched_def)
  show ?thesis using r m(2) watch_item_checked_once[OF sample_only_requests r m(1) m(2) m(2) m(3) m(3)] by simp
qed

lemma watch_request_once_witness:
  "watch_edit sample_watch_config sample_watch (sample_add ''mail'') sample_retrying 7 = (Inr (Item sample_watched), sample_retrying, 7)"
proof -
  have e: "map_of (wd_requests empty_watch) (str_of (js_get (sample_add ''mail'') ''requestId'')) = None"
    "js_get (sample_add ''post'') ''requestId'' = js_get (sample_add ''mail'') ''requestId''"
    by (simp_all add: empty_watch_def sample_add_def)
  have p: "prefix (wd_requests sample_listed) (wd_requests sample_retrying)"
    by (simp add: sample_retrying_def sample_woken_def sample_listed_eq)
  have "normalise (sample_add ''post'') \<noteq> normalise (sample_add ''mail'')" "wf_js (normalise (sample_add ''post''))" "wf_js (normalise (sample_add ''mail''))"
    by code_simp+
  then have "input_text (sample_add ''post'') \<noteq> input_text (sample_add ''mail'')" by (simp add: input_text_def json_text_inj)
  from watch_request_once[OF sample_added e(1) p e(2) this] show ?thesis by (rule conjunct1)
qed

lemma reconciled_checks_live_witness:
  "\<exists>i. i \<in> set (wd_items sample_woken) \<and> scheduled_thread i = Some ''uu'' \<and> ''uu'' \<in> wa_id ` set (wd_wakes sample_woken)"
proof -
  let ?i = "mark sample_watch_config 3000000 ''uu'' sample_watched"
  have w: "wd_items sample_woken = [?i]" "wd_wakes sample_woken = [sample_wake]" by (simp_all add: sample_woken_def sample_listed_eq)
  have "scheduled_threads sample_woken = []"
    by (simp add: scheduled_threads_def w first_distinct_def List.map_filter_def) (simp add: sample_wake_def)
  then have rc: "reconcileChecks sample_watch sample_woken 0 = (Inr (), sample_woken)"
    by (simp add: reconcileChecks_def w settle_item_def)
  have i: "?i \<in> set (wd_items sample_woken)" "scheduled_thread ?i = Some ''uu''" by (simp_all add: w)
  have "''uu'' \<in> wa_id ` set (wd_wakes sample_woken)" using reconciled_checks_live[OF rc i] by (simp add: sample_world)
  then show ?thesis using i by blast
qed


end
