(* ===== verification/Transcript_Store.thy ===== *)
theory Transcript_Store
  imports Transcript_Entries
begin

text \<open>
  The window of a transcript the client holds
  (\<open>apps/remote/web/src/features/conversation/transcript-store.ts\<close>): merging pages by position and source
  identity, bounding the heads kept, applying stream events and loading pages. A head is its JSON value; the
  request for a page is a function of an outer world that answers a status and a text. Answers have the
  declared shape.
\<close>

section \<open>Heads\<close>

definition seq_of :: "js \<Rightarrow> int" where
  "seq_of h = int_of (js_get h ''seq'')"

definition source_of :: "js \<Rightarrow> string option" where
  "source_of h = text_of (js_get h ''sourceKey'')"

record transcript_window =
  tw_generation :: string
  tw_total :: int
  tw_items :: "js list"

definition empty_transcript :: transcript_window where
  "empty_transcript = \<lparr>tw_generation = [], tw_total = 0, tw_items = []\<rparr>"

definition head_budget :: nat where
  "head_budget = 600"

definition head_bytes :: nat where
  "head_bytes = 8 * 1024 * 1024"

definition head_size :: "js \<Rightarrow> nat" where
  "head_size h = length (json_of h) * 2"

datatype direction = Older | Newer

fun bound_loop :: "nat \<Rightarrow> nat \<Rightarrow> js list \<Rightarrow> js list" where
  "bound_loop held bytes [] = []"
| "bound_loop held bytes (h # hs) =
     (if held \<ge> head_budget \<or> held \<noteq> 0 \<and> bytes + head_size h > head_bytes then []
      else h # bound_loop (held + 1) (bytes + head_size h) hs)"

definition boundTranscriptHeads :: "js list \<Rightarrow> direction \<Rightarrow> js list" where
  "boundTranscriptHeads items d = (case d of Older \<Rightarrow> bound_loop 0 0 items | Newer \<Rightarrow> rev (bound_loop 0 0 (rev items)))"

definition withoutBody :: "js \<Rightarrow> js" where
  "withoutBody h = (if truthy (js_get h ''body'') then JObj (odel ''body'' (fields_of h)) else h)"

section \<open>Merging\<close>

type_synonym merged = "(int \<times> js) list \<times> (string \<times> int) list"

definition merge_step :: "js \<Rightarrow> merged \<Rightarrow> merged" where
  "merge_step item m =
     (let bySeq = fst m; bySource = snd m;
          bySeq1 = (case source_of item of None \<Rightarrow> bySeq
             | Some k \<Rightarrow> (case map_of bySource k of None \<Rightarrow> bySeq | Some previous \<Rightarrow> map_del previous bySeq));
          bySource1 = (case map_of bySeq1 (seq_of item) of None \<Rightarrow> bySource
             | Some replaced \<Rightarrow> (case source_of replaced of None \<Rightarrow> bySource | Some k \<Rightarrow> map_del k bySource)) in
      (map_put (seq_of item) item bySeq1,
       case source_of item of None \<Rightarrow> bySource1 | Some k \<Rightarrow> map_put k (seq_of item) bySource1))"

definition mergeHeads :: "js list \<Rightarrow> js list \<Rightarrow> js list" where
  "mergeHeads current incoming = sort_key seq_of (map snd (fst (fold merge_step (current @ incoming) ([], []))))"

section \<open>Events\<close>

definition hasNewer :: "transcript_window \<Rightarrow> bool" where
  "hasNewer w = (tw_items w \<noteq> [] \<and> seq_of (List.last (tw_items w)) < tw_total w - 1)"

definition hasEarlier :: "transcript_window \<Rightarrow> bool" where
  "hasEarlier w = (tw_items w \<noteq> [] \<and> seq_of (hd (tw_items w)) > 0)"

definition last_seq :: "js list \<Rightarrow> int" where
  "last_seq items = (if items = [] then - 1 else seq_of (List.last items))"

definition event_update :: "js list \<Rightarrow> js \<Rightarrow> js" where
  "event_update items item = (case map_of (rev (map (\<lambda>i. (seq_of i, i)) items)) (seq_of item) of Some u \<Rightarrow> u | None \<Rightarrow> withoutBody item)"

text \<open>An event is a window of the newest heads; \<open>visible\<close> is the first position on screen.\<close>

definition first_seq :: "transcript_window \<Rightarrow> int" where
  "first_seq event = (case tw_items event of [] \<Rightarrow> tw_total event | i # _ \<Rightarrow> seq_of i)"

definition event_tail :: "transcript_window \<Rightarrow> transcript_window \<Rightarrow> js list" where
  "event_tail current event = boundTranscriptHeads
     (mergeHeads (map withoutBody (filter (\<lambda>i. seq_of i < first_seq event \<and> seq_of i < tw_total event) (tw_items current))) (tw_items event)) Newer"

definition readingOlder :: "transcript_window \<Rightarrow> transcript_window \<Rightarrow> int option \<Rightarrow> bool" where
  "readingOlder current event visible =
     (hasNewer current \<and> first_seq event > last_seq (tw_items current) + 1
      \<or> (case visible of None \<Rightarrow> False | Some from_seq \<Rightarrow>
           event_tail current event \<noteq> [] \<and> from_seq < seq_of (hd (event_tail current event))))"

definition applyTranscriptEvent :: "transcript_window option \<Rightarrow> transcript_window \<Rightarrow> int option \<Rightarrow> transcript_window" where
  "applyTranscriptEvent current event visible = (case current of
     None \<Rightarrow> event\<lparr>tw_items := boundTranscriptHeads (mergeHeads [] (tw_items event)) Newer\<rparr>
   | Some w \<Rightarrow>
       if tw_generation w \<noteq> tw_generation event then event\<lparr>tw_items := boundTranscriptHeads (mergeHeads [] (tw_items event)) Newer\<rparr>
       else if readingOlder w event visible
       then event\<lparr>tw_items := map (event_update (tw_items event)) (filter (\<lambda>i. seq_of i < tw_total event) (tw_items w))\<rparr>
       else event\<lparr>tw_items := event_tail w event\<rparr>)"

section \<open>Pages\<close>

record page_query =
  pq_generation :: "string option"
  pq_before :: "int option"
  pq_limit :: "int option"

datatype page_result = Page transcript_window | Moved string "transcript_window option"

type_synonym 'w page_fetch = "page_query \<Rightarrow> 'w \<Rightarrow> (nat \<times> string) \<times> 'w"

definition page_of :: "js \<Rightarrow> transcript_window" where
  "page_of body = \<lparr>tw_generation = str_of (js_get body ''generation''), tw_total = int_of (js_get body ''total''), tw_items = arr_of (js_get body ''items'')\<rparr>"

definition moved_page :: "js \<Rightarrow> page_result" where
  "moved_page body = (let generation = (if truthy (js_get body ''generation'') then js_String (js_get body ''generation'') else []) in
     Moved generation (if is_array (js_get body ''items'')
       then Some \<lparr>tw_generation = generation,
          tw_total = (if truthy (js_get body ''total'') then int_of (js_get body ''total'') else int (length (arr_of (js_get body ''items'')))),
          tw_items = arr_of (js_get body ''items'')\<rparr> else None))"

definition fetchTranscriptPage :: "'w page_fetch \<Rightarrow> page_query \<Rightarrow> 'w \<Rightarrow> (string + page_result) \<times> 'w" where
  "fetchTranscriptPage fetch query w =
     (let ((status, body_text), w') = fetch (query\<lparr>pq_generation := nonempty (pq_generation query)\<rparr>) w in
      (case (if body_text = [] then Some (JObj []) else json_parse body_text) of
         None \<Rightarrow> Inl ''SyntaxError''
       | Some body \<Rightarrow>
           if status = 409 then Inr (moved_page body)
           else if status < 200 \<or> status > 299
           then Inl (if truthy (js_get body ''error'') then js_String (js_get body ''error'') else ''Transcript page returned HTTP '' @ nat_text status)
           else Inr (Page (page_of body)), w'))"

definition earlier_page_size :: int where
  "earlier_page_size = 60"

definition kept_moving :: string where
  "kept_moving = ''The transcript generation kept moving''"

definition page_in :: "page_result \<Rightarrow> transcript_window option" where
  "page_in r = (case r of Page p \<Rightarrow> Some p | Moved _ p \<Rightarrow> p)"

definition loadLatest :: "'w page_fetch \<Rightarrow> 'w \<Rightarrow> (string + transcript_window) \<times> 'w" where
  "loadLatest fetch w =
     (let (res, w') = fetchTranscriptPage fetch \<lparr>pq_generation = None, pq_before = None, pq_limit = Some earlier_page_size\<rparr> w in
      (rbind res (\<lambda>r. case page_in r of None \<Rightarrow> Inl kept_moving
         | Some page \<Rightarrow> Inr (page\<lparr>tw_items := boundTranscriptHeads (mergeHeads [] (tw_items page)) Newer\<rparr>)), w'))"

definition with_page :: "transcript_window \<Rightarrow> transcript_window \<Rightarrow> direction \<Rightarrow> transcript_window" where
  "with_page window page d = page\<lparr>tw_items := boundTranscriptHeads (mergeHeads (map withoutBody (tw_items window)) (tw_items page)) d\<rparr>"

definition loadNewer :: "'w page_fetch \<Rightarrow> transcript_window \<Rightarrow> 'w \<Rightarrow> (string + transcript_window \<times> bool) \<times> 'w" where
  "loadNewer fetch window w =
     (let before = min (tw_total window) (last_seq (tw_items window) + 1 + earlier_page_size);
          (res, w1) = fetchTranscriptPage fetch \<lparr>pq_generation = Some (tw_generation window), pq_before = Some before, pq_limit = Some earlier_page_size\<rparr> w in
      case res of
        Inl e \<Rightarrow> (Inl e, w1)
      | Inr (Page page) \<Rightarrow> (Inr (with_page window page Newer, False), w1)
      | Inr (Moved _ _) \<Rightarrow> (let (latest, w2) = loadLatest fetch w1 in (rbind latest (\<lambda>l. Inr (l, True)), w2)))"

definition replaced_window :: "transcript_window option \<Rightarrow> string + transcript_window \<times> bool" where
  "replaced_window replacement = (case replacement of None \<Rightarrow> Inl kept_moving
     | Some page \<Rightarrow> Inr (page\<lparr>tw_items := boundTranscriptHeads (mergeHeads [] (tw_items page)) Newer\<rparr>, True))"

definition loadEarlier :: "'w page_fetch \<Rightarrow> int \<Rightarrow> transcript_window \<Rightarrow> 'w \<Rightarrow> (string + transcript_window \<times> bool) \<times> 'w" where
  "loadEarlier fetch limit window w =
     (let before = (case tw_items window of [] \<Rightarrow> 0 | i # _ \<Rightarrow> seq_of i);
          (older, w1) = fetchTranscriptPage fetch \<lparr>pq_generation = Some (tw_generation window), pq_before = Some before, pq_limit = Some limit\<rparr> w in
      case older of
        Inl e \<Rightarrow> (Inl e, w1)
      | Inr (Page page) \<Rightarrow> (Inr (with_page window page Older, False), w1)
      | Inr (Moved generation (Some page)) \<Rightarrow> (replaced_window (Some page), w1)
      | Inr (Moved generation None) \<Rightarrow>
          (let (res, w2) = fetchTranscriptPage fetch \<lparr>pq_generation = Some generation, pq_before = None, pq_limit = Some limit\<rparr> w1 in
           (rbind res (\<lambda>r. replaced_window (page_in r)), w2)))"

section \<open>Bounds\<close>

definition sizes :: "js list \<Rightarrow> nat" where
  "sizes hs = sum_list (map head_size hs)"

lemma bound_loop_prefix: "prefix (bound_loop held bytes hs) hs"
  by (induction held bytes hs rule: bound_loop.induct) auto

lemma bound_loop_length: "held \<le> head_budget \<Longrightarrow> held + length (bound_loop held bytes hs) \<le> head_budget"
  by (induction held bytes hs rule: bound_loop.induct) auto

lemma bound_loop_bytes: "held \<noteq> 0 \<Longrightarrow> bytes \<le> head_bytes \<Longrightarrow> bytes + sizes (bound_loop held bytes hs) \<le> head_bytes"
proof (induction held bytes hs rule: bound_loop.induct)
  case (2 held bytes h hs)
  show ?case
  proof (cases "held \<ge> head_budget \<or> held \<noteq> 0 \<and> bytes + head_size h > head_bytes")
    case True
    then show ?thesis using 2(3) by (simp add: sizes_def)
  next
    case False
    then have "bytes + head_size h + sizes (bound_loop (held + 1) (bytes + head_size h) hs) \<le> head_bytes"
      using 2(2) by (intro 2(1)) auto
    then show ?thesis using False by (simp add: sizes_def)
  qed
qed (simp add: sizes_def)

lemma bound_zero: "bound_loop 0 0 hs = (case hs of [] \<Rightarrow> [] | h # t \<Rightarrow> h # bound_loop 1 (head_size h) t)"
  by (cases hs) (simp_all add: head_budget_def)

lemma bound_loop_bounded:
  "length (bound_loop 0 0 hs) \<le> head_budget \<and> (sizes (bound_loop 0 0 hs) \<le> head_bytes \<or> length (bound_loop 0 0 hs) = 1)
   \<and> (bound_loop 0 0 hs = [] \<longleftrightarrow> hs = [])"
proof (cases hs)
  case Nil
  then show ?thesis by (simp add: sizes_def)
next
  case (Cons h t)
  have "length (bound_loop 0 0 hs) \<le> head_budget" using bound_loop_length[of 0 0 hs] by simp
  moreover have "sizes (bound_loop 0 0 hs) \<le> head_bytes \<or> length (bound_loop 0 0 hs) = 1"
  proof (cases "head_size h \<le> head_bytes")
    case True
    then show ?thesis using bound_loop_bytes[of 1 "head_size h" t] Cons by (simp add: bound_zero sizes_def)
  next
    case False
    have "bound_loop 1 (head_size h) t = []" using False by (cases t) (simp_all add: head_budget_def)
    then show ?thesis using Cons by (simp add: bound_zero head_budget_def)
  qed
  moreover have "bound_loop 0 0 hs = [] \<longleftrightarrow> hs = []" using Cons by (simp add: bound_zero head_budget_def)
  ultimately show ?thesis by blast
qed

lemma sizes_rev [simp]: "sizes (rev hs) = sizes hs"
  by (simp add: sizes_def rev_map[symmetric])

lemma bounded:
  "length (boundTranscriptHeads hs d) \<le> head_budget"
  "sizes (boundTranscriptHeads hs d) \<le> head_bytes \<or> length (boundTranscriptHeads hs d) = 1"
  "boundTranscriptHeads hs d = [] \<longleftrightarrow> hs = []"
  using bound_loop_bounded[of hs] bound_loop_bounded[of "rev hs"] by (auto simp: boundTranscriptHeads_def split: direction.split)

section \<open>The merged heads\<close>

text \<open>The two maps agree: a source leads to the only position that carries it.\<close>

definition agreed :: "merged \<Rightarrow> bool" where
  "agreed m = (map_ok (fst m) \<and> (\<forall>s h. map_of (fst m) s = Some h \<longrightarrow> seq_of h = s)
     \<and> (\<forall>s h k. map_of (fst m) s = Some h \<longrightarrow> source_of h = Some k \<longrightarrow> map_of (snd m) k = Some s)
     \<and> (\<forall>s k. map_of (snd m) k = Some s \<longrightarrow> (\<exists>h. map_of (fst m) s = Some h \<and> source_of h = Some k)))"

lemma agreedI:
  assumes "map_ok (fst m)" "\<And>s h. map_of (fst m) s = Some h \<Longrightarrow> seq_of h = s"
    "\<And>s h k. map_of (fst m) s = Some h \<Longrightarrow> source_of h = Some k \<Longrightarrow> map_of (snd m) k = Some s"
    "\<And>s k. map_of (snd m) k = Some s \<Longrightarrow> \<exists>h. map_of (fst m) s = Some h \<and> source_of h = Some k"
  shows "agreed m"
  using assms unfolding agreed_def by blast

lemma agreedD:
  assumes "agreed m"
  shows "map_ok (fst m)" "map_of (fst m) s = Some h \<Longrightarrow> seq_of h = s"
    "map_of (fst m) s = Some h \<Longrightarrow> source_of h = Some k \<Longrightarrow> map_of (snd m) k = Some s"
    "map_of (snd m) k = Some s \<Longrightarrow> \<exists>h. map_of (fst m) s = Some h \<and> source_of h = Some k"
  using assms unfolding agreed_def by blast+

text \<open>The heads left after the earlier position of the same source is dropped, and the sources left.\<close>

definition dropped :: "js \<Rightarrow> merged \<Rightarrow> (int \<times> js) list" where
  "dropped item m = (case source_of item of None \<Rightarrow> fst m
     | Some k \<Rightarrow> (case map_of (snd m) k of None \<Rightarrow> fst m | Some previous \<Rightarrow> map_del previous (fst m)))"

definition unlinked :: "js \<Rightarrow> merged \<Rightarrow> (string \<times> int) list" where
  "unlinked item m = (case map_of (dropped item m) (seq_of item) of None \<Rightarrow> snd m
     | Some replaced \<Rightarrow> (case source_of replaced of None \<Rightarrow> snd m | Some k \<Rightarrow> map_del k (snd m)))"

lemma merge_step_eq: "merge_step item m = (map_put (seq_of item) item (dropped item m),
    case source_of item of None \<Rightarrow> unlinked item m | Some k \<Rightarrow> map_put k (seq_of item) (unlinked item m))"
  unfolding merge_step_def Let_def dropped_def unlinked_def by (rule refl)

lemma dropped_lookup:
  assumes "agreed m"
  shows "map_of (dropped item m) s = (case map_of (fst m) s of None \<Rightarrow> None
     | Some h \<Rightarrow> if source_of h \<noteq> None \<and> source_of h = source_of item then None else Some h)"
proof (cases "source_of item")
  case None
  then show ?thesis by (auto simp: dropped_def split: option.split)
next
  case (Some k)
  show ?thesis
  proof (cases "map_of (snd m) k")
    case None
    then have "map_of (fst m) s = Some h \<Longrightarrow> source_of h \<noteq> Some k" for h using agreedD(3)[OF assms] by fastforce
    then show ?thesis using None Some by (simp add: dropped_def split: option.split)
  next
    case (Some p)
    obtain h where h: "map_of (fst m) p = Some h" "source_of h = Some k" using agreedD(4)[OF assms Some] by blast
    have "map_of (fst m) s = Some h' \<Longrightarrow> source_of h' = Some k \<longleftrightarrow> s = p" for h'
      using agreedD(3)[OF assms] Some h by fastforce
    then show ?thesis using Some \<open>source_of item = Some k\<close> h by (simp add: dropped_def split: option.split)
  qed
qed

lemma unlinked_lookup:
  assumes "agreed m" "source_of item \<noteq> Some k"
  shows "map_of (unlinked item m) k = (if map_of (snd m) k = Some (seq_of item) then None else map_of (snd m) k)"
proof (cases "map_of (dropped item m) (seq_of item)")
  case None
  have "map_of (snd m) k \<noteq> Some (seq_of item)"
  proof
    assume "map_of (snd m) k = Some (seq_of item)"
    then obtain h where "map_of (fst m) (seq_of item) = Some h" "source_of h = Some k" using agreedD(4)[OF assms(1)] by blast
    then show False using None assms(2) by (simp add: dropped_lookup[OF assms(1)] split: if_splits)
  qed
  then show ?thesis using None by (simp add: unlinked_def)
next
  case (Some r)
  then have r: "map_of (fst m) (seq_of item) = Some r"
    by (simp add: dropped_lookup[OF assms(1)] split: option.splits if_splits)
  have "map_of (snd m) k = Some (seq_of item) \<longleftrightarrow> source_of r = Some k"
    using agreedD(4)[OF assms(1), of k "seq_of item"] agreedD(3)[OF assms(1) r] r by auto
  then show ?thesis using Some by (auto simp: unlinked_def split: option.split)
qed

lemma agreed_step:
  assumes "agreed m"
  shows "agreed (merge_step item m)"
proof (rule agreedI)
  have "map_ok (dropped item m)" using agreedD(1)[OF assms] by (simp add: dropped_def split: option.split)
  then show "map_ok (fst (merge_step item m))" by (simp add: merge_step_eq)
next
  fix s h
  assume "map_of (fst (merge_step item m)) s = Some h"
  then show "seq_of h = s" using agreedD(2)[OF assms]
    by (auto simp: merge_step_eq dropped_lookup[OF assms] split: if_splits option.splits)
next
  fix s h k
  assume h: "map_of (fst (merge_step item m)) s = Some h" and k: "source_of h = Some k"
  show "map_of (snd (merge_step item m)) k = Some s"
  proof (cases "s = seq_of item")
    case True
    then show ?thesis using h k by (simp add: merge_step_eq)
  next
    case False
    then have old: "map_of (fst m) s = Some h" "source_of item \<noteq> Some k"
      using h k by (auto simp: merge_step_eq dropped_lookup[OF assms] split: option.splits if_splits)
    have "map_of (unlinked item m) k = Some s"
      using agreedD(3)[OF assms old(1) k] False by (simp add: unlinked_lookup[OF assms old(2)])
    then show ?thesis using old(2) by (simp add: merge_step_eq split: option.split)
  qed
next
  fix s k
  assume s: "map_of (snd (merge_step item m)) k = Some s"
  show "\<exists>h. map_of (fst (merge_step item m)) s = Some h \<and> source_of h = Some k"
  proof (cases "source_of item = Some k")
    case True
    then show ?thesis using s by (simp add: merge_step_eq)
  next
    case False
    then have "map_of (unlinked item m) k = Some s" using s by (simp add: merge_step_eq split: option.splits if_splits)
    then have old: "map_of (snd m) k = Some s" "s \<noteq> seq_of item"
      by (simp_all add: unlinked_lookup[OF assms False] split: if_splits)
    obtain h where "map_of (fst m) s = Some h" "source_of h = Some k" using agreedD(4)[OF assms old(1)] by blast
    then show ?thesis using old False by (simp add: merge_step_eq dropped_lookup[OF assms])
  qed
qed

lemma agreed_fold: "agreed m \<Longrightarrow> agreed (fold merge_step items m)"
  by (induction items arbitrary: m) (simp_all add: agreed_step)

lemma agreed_empty: "agreed ([], [])"
  by (simp add: agreed_def)

lemma agreed_heads:
  assumes "agreed m"
  shows "distinct (map snd (fst m))" "inj_on seq_of (set (map snd (fst m)))"
    "\<And>a b. a \<in> set (map snd (fst m)) \<Longrightarrow> b \<in> set (map snd (fst m)) \<Longrightarrow> source_of a \<noteq> None \<Longrightarrow> source_of a = source_of b \<Longrightarrow> a = b"
    "h \<in> set (map snd (fst m)) \<longleftrightarrow> map_of (fst m) (seq_of h) = Some h"
proof -
  have look: "(s, h) \<in> set (fst m) \<longleftrightarrow> map_of (fst m) s = Some h" for s h
    using agreedD(1)[OF assms] unfolding map_ok_def by (metis map_of_eq_Some_iff)
  have at: "h \<in> set (map snd (fst m)) \<longleftrightarrow> map_of (fst m) (seq_of h) = Some h" for h
  proof
    assume "h \<in> set (map snd (fst m))"
    then obtain s where "(s, h) \<in> set (fst m)" by auto
    then show "map_of (fst m) (seq_of h) = Some h" using look agreedD(2)[OF assms] by metis
  next
    assume "map_of (fst m) (seq_of h) = Some h"
    then have "(seq_of h, h) \<in> set (fst m)" by (rule map_of_SomeD)
    then show "h \<in> set (map snd (fst m))" by force
  qed
  show "h \<in> set (map snd (fst m)) \<longleftrightarrow> map_of (fst m) (seq_of h) = Some h" by (rule at)
  show inj: "inj_on seq_of (set (map snd (fst m)))" by (rule inj_onI) (metis at option.inject)
  have "seq_of (snd p) = fst p" if "p \<in> set (fst m)" for p
    using look[of "fst p" "snd p"] agreedD(2)[OF assms, of "fst p" "snd p"] that by simp
  then have "map seq_of (map snd (fst m)) = map fst (fst m)" by simp
  then show "distinct (map snd (fst m))" using agreedD(1)[OF assms] unfolding map_ok_def by (metis distinct_map)
  fix a b
  assume ab: "a \<in> set (map snd (fst m))" "b \<in> set (map snd (fst m))" and src: "source_of a \<noteq> None" "source_of a = source_of b"
  obtain k where k: "source_of a = Some k" using src(1) by blast
  have "map_of (snd m) k = Some (seq_of a)" using agreedD(3)[OF assms] ab(1) at k by blast
  moreover have "map_of (snd m) k = Some (seq_of b)" using agreedD(3)[OF assms] ab(2) at k src(2) by metis
  ultimately have "seq_of a = seq_of b" by simp
  then show "a = b" using inj ab by (meson inj_onD)
qed

text \<open>A list of heads as the client keeps it: ascending positions, each source once.\<close>

definition tidy :: "js list \<Rightarrow> bool" where
  "tidy hs = (sorted_wrt (<) (map seq_of hs)
     \<and> (\<forall>a\<in>set hs. \<forall>b\<in>set hs. source_of a \<noteq> None \<longrightarrow> source_of a = source_of b \<longrightarrow> a = b))"

lemma merge_set: "h \<in> set (mergeHeads cur inc)
    \<longleftrightarrow> map_of (fst (fold merge_step (cur @ inc) ([], []))) (seq_of h) = Some h"
  using agreed_heads(4)[OF agreed_fold[OF agreed_empty, of "cur @ inc"], of h] by (simp add: mergeHeads_def)

lemma merge_tidy: "tidy (mergeHeads cur inc)"
proof -
  let ?m = "fold merge_step (cur @ inc) ([], [])"
  note ag = agreed_heads[OF agreed_fold[OF agreed_empty, of "cur @ inc"]]
  have "distinct (map seq_of (mergeHeads cur inc))"
    using ag(1) ag(2) by (simp add: mergeHeads_def distinct_map del: fold_append)
  moreover have "sorted (map seq_of (mergeHeads cur inc))" by (simp add: mergeHeads_def del: fold_append)
  ultimately have "sorted_wrt (<) (map seq_of (mergeHeads cur inc))" by (simp add: strict_sorted_iff)
  moreover have "set (mergeHeads cur inc) = set (map snd (fst ?m))" by (simp add: mergeHeads_def del: fold_append)
  ultimately show ?thesis using ag(3) unfolding tidy_def by metis
qed

text \<open>A head stays until a later one takes its position or its source.\<close>

definition displaces :: "js \<Rightarrow> js \<Rightarrow> bool" where
  "displaces item h = (seq_of item = seq_of h \<or> source_of h \<noteq> None \<and> source_of item = source_of h)"

lemma step_keeps:
  assumes "agreed m" "map_of (fst m) (seq_of h) = Some h" "\<not> displaces item h"
  shows "map_of (fst (merge_step item m)) (seq_of h) = Some h"
  using assms(2,3) by (auto simp: merge_step_eq dropped_lookup[OF assms(1)] displaces_def)

lemma fold_keeps:
  "agreed m \<Longrightarrow> map_of (fst m) (seq_of h) = Some h \<Longrightarrow> \<forall>i\<in>set items. \<not> displaces i h \<Longrightarrow>
   map_of (fst (fold merge_step items m)) (seq_of h) = Some h"
proof (induction items arbitrary: m)
  case (Cons i items)
  have "agreed (merge_step i m)" using Cons(2) by (rule agreed_step)
  moreover have "map_of (fst (merge_step i m)) (seq_of h) = Some h"
    using Cons(2,3,4) by (intro step_keeps) auto
  ultimately show ?case using Cons(1)[of "merge_step i m"] Cons(4) by simp
qed simp

lemma merge_last_stays:
  assumes "cur @ inc = before @ h # after" "\<forall>i\<in>set after. \<not> displaces i h"
  shows "h \<in> set (mergeHeads cur inc)"
proof -
  let ?m = "fold merge_step before ([], [])"
  have ag: "agreed ?m" by (intro agreed_fold agreed_empty)
  have "map_of (fst (merge_step h ?m)) (seq_of h) = Some h" by (simp add: merge_step_eq)
  then have "map_of (fst (fold merge_step after (merge_step h ?m))) (seq_of h) = Some h"
    using assms(2) by (intro fold_keeps agreed_step ag) auto
  then show ?thesis unfolding merge_set assms(1) by simp
qed

lemma step_source:
  assumes "agreed m" "map_of (fst (merge_step item m)) s = Some h"
  shows "h = item \<or> map_of (fst m) s = Some h \<and> \<not> displaces item h"
  using assms(2) agreedD(2)[OF assms(1)]
  by (auto simp: merge_step_eq dropped_lookup[OF assms(1)] displaces_def split: if_splits option.splits)

lemma fold_source:
  "agreed m \<Longrightarrow> map_of (fst (fold merge_step items m)) s = Some h \<Longrightarrow>
   (\<exists>before after. items = before @ h # after \<and> (\<forall>i\<in>set after. \<not> displaces i h))
   \<or> map_of (fst m) s = Some h \<and> (\<forall>i\<in>set items. \<not> displaces i h)"
proof (induction items arbitrary: m)
  case (Cons i items)
  have ag: "agreed (merge_step i m)" using Cons(2) by (rule agreed_step)
  have "map_of (fst (fold merge_step items (merge_step i m))) s = Some h" using Cons(3) by simp
  from Cons(1)[OF ag this] show ?case
  proof
    assume "\<exists>before after. items = before @ h # after \<and> (\<forall>i\<in>set after. \<not> displaces i h)"
    then obtain b a where ba: "items = b @ h # a" and rest: "\<forall>i\<in>set a. \<not> displaces i h" by blast
    have "i # items = (i # b) @ h # a" by (simp add: ba)
    then show ?thesis using rest by blast
  next
    assume R: "map_of (fst (merge_step i m)) s = Some h \<and> (\<forall>i\<in>set items. \<not> displaces i h)"
    then have rest: "\<forall>i\<in>set items. \<not> displaces i h" by simp
    from R have "h = i \<or> map_of (fst m) s = Some h \<and> \<not> displaces i h" using step_source[OF Cons(2)] by blast
    then show ?thesis
    proof
      assume "h = i"
      then have "i # items = [] @ h # items" by simp
      then show ?thesis using rest by blast
    next
      assume "map_of (fst m) s = Some h \<and> \<not> displaces i h"
      then show ?thesis using rest by simp
    qed
  qed
qed simp

lemma merge_source:
  assumes "h \<in> set (mergeHeads cur inc)"
  obtains before after where "cur @ inc = before @ h # after" "\<forall>i\<in>set after. \<not> displaces i h"
  using fold_source[OF agreed_empty, of "cur @ inc" "seq_of h" h] assms unfolding merge_set by auto

text \<open>Merging two lists of heads keeps exactly the heads no later one displaces, by taking their
  position or their source, in strictly ascending positions and each source once.\<close>
theorem merge_keeps_last:
  "tidy (mergeHeads current incoming)
   \<and> (h \<in> set (mergeHeads current incoming) \<longleftrightarrow>
        (\<exists>before after. current @ incoming = before @ h # after \<and> \<not> (\<exists>i\<in>set after. displaces i h)))"
  using merge_tidy merge_last_stays merge_source by (metis (no_types, lifting))

section \<open>Windows\<close>

definition ascending :: "js list \<Rightarrow> bool" where
  "ascending hs = (sorted_wrt (<) (map seq_of hs) \<and> length hs \<le> head_budget)"

text \<open>What every merged and bounded list of heads satisfies.\<close>

definition held_ok :: "js list \<Rightarrow> bool" where
  "held_ok hs = (tidy hs \<and> length hs \<le> head_budget \<and> (sizes hs \<le> head_bytes \<or> length hs = 1))"

lemma tidy_append: "tidy (xs @ ys) \<Longrightarrow> tidy xs \<and> tidy ys"
  by (auto simp: tidy_def sorted_wrt_append)

lemma bounded_part:
  obtains xs ys where "hs = xs @ boundTranscriptHeads hs d @ ys" "d = Newer \<longrightarrow> ys = []"
proof (cases d)
  case Older
  obtain ys where "hs = bound_loop 0 0 hs @ ys" using bound_loop_prefix[of 0 0 hs] by (auto elim: prefixE)
  then show thesis using that[of "[]" ys] Older by (simp add: boundTranscriptHeads_def)
next
  case Newer
  obtain ys where "rev hs = bound_loop 0 0 (rev hs) @ ys" using bound_loop_prefix[of 0 0 "rev hs"] by (auto elim: prefixE)
  then have "rev (rev hs) = rev (bound_loop 0 0 (rev hs) @ ys)" by simp
  then show thesis using that[of "rev ys" "[]"] Newer by (simp add: boundTranscriptHeads_def)
qed

lemma newer_suffix:
  obtains xs where "hs = xs @ boundTranscriptHeads hs Newer"
  using bounded_part[of hs Newer] by auto

lemma tidy_bounded: "tidy hs \<Longrightarrow> tidy (boundTranscriptHeads hs d)"
  using bounded_part[of hs d] tidy_append by metis

lemma held_ok_merged: "held_ok (boundTranscriptHeads (mergeHeads cur inc) d)"
  using bounded(1,2) tidy_bounded[OF merge_tidy] unfolding held_ok_def by blast

lemma held_ascending: "held_ok hs \<Longrightarrow> ascending hs"
  by (simp add: held_ok_def ascending_def tidy_def)

lemma without_body_get: "k \<noteq> ''body'' \<Longrightarrow> js_get (withoutBody h) k = js_get h k"
  by (simp add: withoutBody_def js_get_def oget_def fields_of_def)

lemma without_body_keys [simp]: "seq_of (withoutBody h) = seq_of h" "source_of (withoutBody h) = source_of h"
  by (simp_all add: seq_of_def source_of_def without_body_get)

lemma event_update_seq [simp]: "seq_of (event_update items h) = seq_of h"
proof (cases "map_of (rev (map (\<lambda>i. (seq_of i, i)) items)) (seq_of h)")
  case (Some u)
  then have "(seq_of h, u) \<in> set (map (\<lambda>i. (seq_of i, i)) items)" by (metis map_of_SomeD set_rev)
  then show ?thesis using Some by (auto simp: event_update_def)
qed (simp add: event_update_def)

lemma sorted_wrt_filter_map: "sorted_wrt P (map f xs) \<Longrightarrow> sorted_wrt P (map f (filter Q xs))"
  by (induction xs) auto

lemma read_older_ascending: "ascending hs \<Longrightarrow> ascending (map (event_update items) (filter Q hs))"
  using sorted_wrt_filter_map[of "(<)" seq_of hs Q] le_trans[OF length_filter_le[of Q hs]]
  by (simp add: ascending_def comp_def)

lemma load_latest_ok: "fst (loadLatest fetch w) = Inr r \<Longrightarrow> held_ok (tw_items r)"
  by (auto simp: loadLatest_def rbind_eq_Inr held_ok_merged split: prod.splits option.splits)

lemma replaced_ok: "replaced_window p = Inr (r, reset) \<Longrightarrow> held_ok (tw_items r)"
  by (auto simp: replaced_window_def held_ok_merged split: option.splits)

lemma load_newer_ok: "fst (loadNewer fetch window w) = Inr (r, reset) \<Longrightarrow> held_ok (tw_items r)"
  using load_latest_ok[of fetch]
  by (auto simp: loadNewer_def Let_def rbind_eq_Inr held_ok_merged with_page_def split: prod.splits sum.splits page_result.splits)
    (metis fst_conv)

lemma load_earlier_ok: "fst (loadEarlier fetch limit window w) = Inr (r, reset) \<Longrightarrow> held_ok (tw_items r)"
  using replaced_ok
  by (auto simp: loadEarlier_def Let_def rbind_eq_Inr held_ok_merged with_page_def
      split: prod.splits sum.splits page_result.splits option.splits)

text \<open>Every window a load answers is in strictly ascending positions with each source once, holds at most
  600 heads, and at most 8 MiB unless it is a single head; an applied event keeps a window of ascending
  positions within 600 heads.\<close>
theorem windows_bounded:
  "(case fst (loadLatest fetch w) of Inl _ \<Rightarrow> True | Inr r \<Rightarrow> held_ok (tw_items r))
   \<and> (case fst (loadNewer fetch window w) of Inl _ \<Rightarrow> True | Inr (r, reset) \<Rightarrow> held_ok (tw_items r))
   \<and> (case fst (loadEarlier fetch limit window w) of Inl _ \<Rightarrow> True | Inr (r, reset) \<Rightarrow> held_ok (tw_items r))
   \<and> (ascending (tw_items window) \<longrightarrow> ascending (tw_items (applyTranscriptEvent (Some window) event visible)))
   \<and> ascending (tw_items (applyTranscriptEvent None event visible))"
proof (intro conjI impI)
  show "case fst (loadLatest fetch w) of Inl _ \<Rightarrow> True | Inr r \<Rightarrow> held_ok (tw_items r)"
    by (simp add: load_latest_ok split: sum.split)
  show "case fst (loadNewer fetch window w) of Inl _ \<Rightarrow> True | Inr (r, reset) \<Rightarrow> held_ok (tw_items r)"
    by (simp add: load_newer_ok split: sum.split prod.split)
  show "case fst (loadEarlier fetch limit window w) of Inl _ \<Rightarrow> True | Inr (r, reset) \<Rightarrow> held_ok (tw_items r)"
    by (simp add: load_earlier_ok split: sum.split prod.split)
  show "ascending (tw_items (applyTranscriptEvent None event visible))"
    by (simp add: applyTranscriptEvent_def held_ascending held_ok_merged)
next
  assume "ascending (tw_items window)"
  then show "ascending (tw_items (applyTranscriptEvent (Some window) event visible))"
    by (simp add: applyTranscriptEvent_def held_ascending held_ok_merged event_tail_def read_older_ascending)
qed

lemma windows_bounded_witness:
  "ascending (tw_items (applyTranscriptEvent (Some \<lparr>tw_generation = ''g'', tw_total = 1, tw_items = [JObj []]\<rparr>)
     \<lparr>tw_generation = ''g'', tw_total = 2, tw_items = [JObj []]\<rparr> None))"
  using windows_bounded[of "\<lambda>q w. ((200, []), w)" "()" "\<lparr>tw_generation = ''g'', tw_total = 1, tw_items = [JObj []]\<rparr>" 60
      "\<lparr>tw_generation = ''g'', tw_total = 2, tw_items = [JObj []]\<rparr>" None]
  by (simp add: ascending_def head_budget_def)

section \<open>The reading position\<close>

text \<open>An event as the server sends it: the positions up to the end of the list, and no source twice. A
  source both lists hold is at one position, as within a generation.\<close>

definition contiguous :: "transcript_window \<Rightarrow> bool" where
  "contiguous event = (tidy (tw_items event) \<and> (\<forall>s. first_seq event \<le> s \<longrightarrow> s < tw_total event \<longrightarrow> s \<in> seq_of ` set (tw_items event)))"

definition same_places :: "js list \<Rightarrow> js list \<Rightarrow> bool" where
  "same_places xs ys = (\<forall>a\<in>set xs. \<forall>b\<in>set ys. source_of a \<noteq> None \<longrightarrow> source_of a = source_of b \<longrightarrow> seq_of a = seq_of b)"

lemma tidy_not_displaced:
  assumes "tidy (before @ h # after)" "i \<in> set after"
  shows "\<not> displaces i h"
proof -
  have "seq_of h < seq_of i" using assms by (auto simp: tidy_def sorted_wrt_append)
  moreover have "source_of h \<noteq> None \<longrightarrow> source_of h = source_of i \<longrightarrow> h = i"
    using assms by (auto simp: tidy_def)
  ultimately show ?thesis by (auto simp: displaces_def)
qed

lemma tidy_without_body:
  assumes "tidy hs"
  shows "tidy (map withoutBody (filter Q hs))"
proof -
  have "sorted_wrt (<) (map seq_of (map withoutBody (filter Q hs)))"
    using assms sorted_wrt_filter_map[of "(<)" seq_of hs Q] by (simp add: tidy_def comp_def)
  moreover have "\<forall>a\<in>set (map withoutBody (filter Q hs)). \<forall>b\<in>set (map withoutBody (filter Q hs)). source_of a \<noteq> None \<longrightarrow> source_of a = source_of b \<longrightarrow> a = b"
  proof (intro ballI impI)
    fix a b
    assume "a \<in> set (map withoutBody (filter Q hs))" "b \<in> set (map withoutBody (filter Q hs))" and src: "source_of a \<noteq> None" "source_of a = source_of b"
    then obtain x y where "x \<in> set hs" "y \<in> set hs" "a = withoutBody x" "b = withoutBody y" by auto
    moreover from this have "x = y" using assms src unfolding tidy_def by simp
    ultimately show "a = b" by simp
  qed
  ultimately show ?thesis unfolding tidy_def by (rule conjI)
qed

lemma tail_has_position:
  assumes tidy: "tidy (tw_items window)" and event: "contiguous event" and same: "same_places (tw_items window) (tw_items event)"
    and h: "h \<in> set (tw_items window)" "seq_of h < tw_total event"
  shows "seq_of h \<in> seq_of ` set (mergeHeads (map withoutBody (filter (\<lambda>i. seq_of i < first_seq event \<and> seq_of i < tw_total event)
     (tw_items window))) (tw_items event))" (is "_ \<in> _ ` set (mergeHeads ?older _)")
proof (cases "first_seq event \<le> seq_of h")
  case True
  then obtain u where u: "u \<in> set (tw_items event)" "seq_of u = seq_of h" using event h by (auto simp: contiguous_def)
  obtain b a where split: "tw_items event = b @ u # a" using u(1) by (meson split_list)
  have "tidy (b @ u # a)" using event split by (simp add: contiguous_def)
  then have "u \<in> set (mergeHeads ?older (tw_items event))"
    using merge_last_stays[of ?older "tw_items event" "?older @ b" u a] tidy_not_displaced split by simp
  then show ?thesis by (rule rev_image_eqI) (simp add: u(2))
next
  case False
  then have in_older: "withoutBody h \<in> set ?older" using h by auto
  obtain b a where split: "?older = b @ withoutBody h # a" using split_list[OF in_older] by blast
  have "tidy (b @ withoutBody h # a)" using tidy_without_body[OF tidy] split by metis
  then have older: "\<forall>i\<in>set a. \<not> displaces i (withoutBody h)" using tidy_not_displaced by blast
  have newer: "\<not> displaces i (withoutBody h)" if "i \<in> set (tw_items event)" for i
  proof -
    have sorted: "sorted_wrt (<) (map seq_of (tw_items event))" using event by (simp add: contiguous_def tidy_def)
    have "first_seq event \<le> seq_of i" using sorted that by (cases "tw_items event") (auto simp: first_seq_def)
    then have "seq_of i \<noteq> seq_of h" using False by simp
    moreover have "source_of h \<noteq> None \<longrightarrow> source_of h = source_of i \<longrightarrow> seq_of h = seq_of i"
      using same h(1) that by (auto simp: same_places_def)
    ultimately show ?thesis by (auto simp: displaces_def)
  qed
  have "withoutBody h \<in> set (mergeHeads ?older (tw_items event))"
    using merge_last_stays[of ?older "tw_items event" b "withoutBody h" "a @ tw_items event"] older newer split by auto
  then show ?thesis by (rule rev_image_eqI) simp
qed

text \<open>An event never takes away what the person is reading: every position of the window from the first
  visible one on, below the new end of the list, is still held after the event.\<close>
theorem reading_position_kept:
  assumes "tidy (tw_items window)" "tw_generation event = tw_generation window" "contiguous event"
    "same_places (tw_items window) (tw_items event)"
    "h \<in> set (tw_items window)" "from \<le> seq_of h" "seq_of h < tw_total event"
  shows "seq_of h \<in> seq_of ` set (tw_items (applyTranscriptEvent (Some window) event (Some from)))"
proof (cases "readingOlder window event (Some from)")
  case True
  have "event_update (tw_items event) h \<in> set (tw_items (applyTranscriptEvent (Some window) event (Some from)))"
    using True assms by (simp add: applyTranscriptEvent_def)
  then show ?thesis by (rule rev_image_eqI) simp
next
  case False
  define merged where "merged = mergeHeads (map withoutBody (filter (\<lambda>i. seq_of i < first_seq event \<and> seq_of i < tw_total event) (tw_items window))) (tw_items event)"
  have tail_eq: "event_tail window event = boundTranscriptHeads merged Newer" by (simp only: event_tail_def merged_def)
  have in_merged: "seq_of h \<in> seq_of ` set merged" unfolding merged_def by (rule tail_has_position[OF assms(1,3,4,5,7)])
  obtain xs where xs: "merged = xs @ event_tail window event" unfolding tail_eq by (rule newer_suffix)
  have "event_tail window event \<noteq> []" using in_merged bounded(3)[of merged Newer] by (auto simp: tail_eq)
  then obtain t ts where tail: "event_tail window event = t # ts" by (meson neq_Nil_conv)
  have low: "seq_of t \<le> from" using False tail by (simp add: readingOlder_def)
  have "tidy merged" unfolding merged_def by (rule merge_tidy)
  then have "\<forall>x\<in>set xs. seq_of x < seq_of t" using xs tail by (simp add: tidy_def sorted_wrt_append)
  then have "\<forall>x\<in>set xs. seq_of x \<noteq> seq_of h" using assms(6) low by fastforce
  then have "seq_of h \<in> seq_of ` set (event_tail window event)" using in_merged unfolding xs by auto
  moreover have "tw_items (applyTranscriptEvent (Some window) event (Some from)) = event_tail window event"
    using False assms(2) by (simp add: applyTranscriptEvent_def)
  ultimately show ?thesis by simp
qed

definition head_example :: "int \<Rightarrow> string \<Rightarrow> js" where
  "head_example s k = mk_obj [(''seq'', JNum (NInt s)), (''sourceKey'', JStr k)]"

lemma reading_position_kept_witness:
  "seq_of (head_example 1 ''b'') \<in> seq_of ` set (tw_items (applyTranscriptEvent
     (Some \<lparr>tw_generation = ''g'', tw_total = 2, tw_items = [head_example 0 ''a'', head_example 1 ''b'']\<rparr>)
     \<lparr>tw_generation = ''g'', tw_total = 3, tw_items = [head_example 1 ''b'', head_example 2 ''c'']\<rparr> (Some 1)))"
proof (rule reading_position_kept)
  have [simp]: "seq_of (head_example s k) = s" "source_of (head_example s k) = Some k" for s k
    by (simp_all add: head_example_def seq_of_def source_of_def js_get_mk_obj oget_def int_of_def text_of_def)
  show "tidy (tw_items \<lparr>tw_generation = ''g'', tw_total = 2, tw_items = [head_example 0 ''a'', head_example 1 ''b'']\<rparr>)"
    by (simp add: tidy_def)
  show "contiguous \<lparr>tw_generation = ''g'', tw_total = 3, tw_items = [head_example 1 ''b'', head_example 2 ''c'']\<rparr>"
    by (auto simp: contiguous_def tidy_def first_seq_def)
  show "same_places (tw_items \<lparr>tw_generation = ''g'', tw_total = 2, tw_items = [head_example 0 ''a'', head_example 1 ''b'']\<rparr>)
     (tw_items \<lparr>tw_generation = ''g'', tw_total = 3, tw_items = [head_example 1 ''b'', head_example 2 ''c'']\<rparr>)"
    by (simp add: same_places_def)
qed (simp_all add: head_example_def seq_of_def js_get_mk_obj oget_def int_of_def)

end
