(* ===== verification/Prompt_Outbox.thy ===== *)
theory Prompt_Outbox
  imports Json_Parse Regex
begin

text \<open>
  The outbox of prompts a client saves before it sends them (\<open>apps/remote/web/src/prompt-outbox.ts\<close>). The
  database is a table from keys to stored values, in key order. A transaction is atomic; what the browser
  decides (whether the database opens, a transaction starts or commits, the scope at each moment) is given by
  a record of the world. A delivery reads, posts and saves in separate steps, between which anything else may
  happen: a step relation. Times are whole milliseconds; parsing a URL is the platform's.
\<close>

section \<open>Errors, scopes and bodies\<close>

datatype outbox_kind = Invalid_scope | Scope_changed | Interrupted | Invalid_prompt | Storage_unavailable | Storage_corrupt
  | Outbox_full | Conflicting_request | Not_found | Pending_not_acknowledged

type_synonym 'a outbox_result = "(outbox_kind \<times> string) + 'a"

definition outbox_bad :: "outbox_kind \<Rightarrow> string \<Rightarrow> 'a outbox_result" where
  "outbox_bad k m = Inl (k, m)"

record outbox_scope =
  os_person :: string
  os_environment :: string
  os_bootstrap :: string

record url_parts =
  url_protocol :: string
  url_username :: string
  url_password :: string
  url_search :: string
  url_hash :: string
  url_href :: string

type_synonym url_parser = "string \<Rightarrow> url_parts option"

definition scopeKey :: "url_parser \<Rightarrow> outbox_scope option \<Rightarrow> string option" where
  "scopeKey parse scope = (case scope of None \<Rightarrow> None
   | Some s \<Rightarrow>
       if blank (os_person s) \<or> blank (os_environment s) \<or> blank (os_bootstrap s) then None
       else (case parse (os_bootstrap s) of None \<Rightarrow> None
         | Some u \<Rightarrow>
             if url_protocol u \<notin> {''http:'', ''https:''} \<or> url_username u \<noteq> [] \<or> url_password u \<noteq> [] \<or> url_search u \<noteq> [] \<or> url_hash u \<noteq> [] then None
             else Some (json_text (JArr [JStr (os_person s), JStr (os_environment s), JStr (url_href u)]))))"

definition hex_rx :: "nat \<Rightarrow> rx" where
  "hex_rx n = Rep n (Some n) (Chars ''0123456789abcdef'' True)"

definition uuid_rx :: rx where
  "uuid_rx = (let dash = Chars ''-'' False in Seq [Start, hex_rx 8, dash, hex_rx 4, dash, hex_rx 4, dash, hex_rx 4, dash, hex_rx 12, Finish])"

definition uuid_value :: "js \<Rightarrow> bool" where
  "uuid_value v = (case v of JStr s \<Rightarrow> rx_test uuid_rx s | _ \<Rightarrow> False)"

definition nonempty_value :: "js \<Rightarrow> bool" where
  "nonempty_value v = (case v of JStr s \<Rightarrow> s \<noteq> [] | _ \<Rightarrow> False)"

definition validBody :: "js \<Rightarrow> bool" where
  "validBody v = (is_object v \<and> uuid_value (js_get v ''requestId'')
     \<and> nonblank (js_get v ''text'')
     \<and> js_String (js_get v ''delivery'') \<in> {''queue'', ''steer'', ''hardSteer''}
     \<and> (js_get v ''replyTo'' = JUndef \<or> nonempty_value (js_get v ''replyTo''))
     \<and> (js_get v ''includeMeetingImages'' = JUndef \<or> is_boolean (js_get v ''includeMeetingImages''))
     \<and> list_all (\<lambda>k. k \<in> {''requestId'', ''text'', ''delivery'', ''replyTo'', ''includeMeetingImages''}) (map fst (fields_of v)))"

definition short_value :: "js \<Rightarrow> bool" where
  "short_value v = (is_string v \<and> length (str_of v) \<le> 512)"

definition validOutcome :: "js \<Rightarrow> bool" where
  "validOutcome v =
     (if \<not> is_object v then False
      else if js_get v ''kind'' = JStr ''accepted'' then nonempty_value (js_get v ''workId'') \<and> short_value (js_get v ''workId'')
      else if js_get v ''kind'' = JStr ''rejected'' then nonempty_value (js_get v ''message'') \<and> short_value (js_get v ''message'')
      else js_get v ''kind'' = JStr ''pending'' \<and> js_String (js_get v ''reason'') \<in> {''saved'', ''transport'', ''authentication'', ''unconfirmed''}
        \<and> short_value (js_get v ''message''))"

definition prompt_key :: "string \<Rightarrow> string \<Rightarrow> string" where
  "prompt_key scope rid = scope @ '':'' @ rid"

definition validStored :: "string \<Rightarrow> js \<Rightarrow> bool" where
  "validStored scope v =
     (is_object v \<and> js_get v ''scope'' = JStr scope \<and> uuid_value (js_get v ''requestId'')
      \<and> js_get v ''key'' = JStr (prompt_key scope (str_of (js_get v ''requestId''))) \<and> nonempty_value (js_get v ''sessionId'')
      \<and> is_string (js_get v ''bodyJson'') \<and> is_finite (js_get v ''createdAt'') \<and> validOutcome (js_get v ''outcome'')
      \<and> (case json_parse (str_of (js_get v ''bodyJson'')) of None \<Rightarrow> False
         | Some body \<Rightarrow> validBody body \<and> js_get body ''requestId'' = js_get v ''requestId''))"

definition publicEntry :: "js \<Rightarrow> js" where
  "publicEntry v = mk_obj (map (\<lambda>k. (k, js_get v k)) [''requestId'', ''sessionId'', ''bodyJson'', ''createdAt'', ''outcome''])"

definition retained_message_bytes :: nat where
  "retained_message_bytes = 4096"

definition reservedBytes :: "js \<Rightarrow> nat" where
  "reservedBytes v = utf8_length (json_text (JObj (oput ''outcome'' JNull (fields_of v)))) + retained_message_bytes"

definition outbox_entries :: nat where
  "outbox_entries = 64"

definition outbox_bytes :: nat where
  "outbox_bytes = 2 * 1024 * 1024"

section \<open>Outcomes\<close>

datatype prompt_outcome = Pending string string | Accepted string | Rejected string

definition outcome_js :: "prompt_outcome \<Rightarrow> js" where
  "outcome_js r = mk_obj (case r of
     Pending reason m \<Rightarrow> [(''kind'', JStr ''pending''), (''reason'', JStr reason), (''message'', JStr m)]
   | Accepted w \<Rightarrow> [(''kind'', JStr ''accepted''), (''workId'', JStr w)]
   | Rejected m \<Rightarrow> [(''kind'', JStr ''rejected''), (''message'', JStr m)])"

definition outcome_kind :: "js \<Rightarrow> js" where
  "outcome_kind entry = js_get (js_get entry ''outcome'') ''kind''"

definition is_pending :: "js \<Rightarrow> bool" where
  "is_pending entry = (outcome_kind entry = JStr ''pending'')"

definition short_message :: "string \<Rightarrow> string" where
  "short_message m = take 512 m"

text \<open>\<open>a === b\<close>: two objects or arrays from different sources are never the same.\<close>

definition strictly_equal :: "js \<Rightarrow> js \<Rightarrow> bool" where
  "strictly_equal a b = (a = b \<and> \<not> is_object a \<and> \<not> is_array a)"

definition unaccepted :: "nat \<Rightarrow> js \<Rightarrow> prompt_outcome" where
  "unaccepted status body =
     (let err = js_get body ''error'' in
      if status \<ge> 400 \<and> status < 500 \<and> is_object body \<and> js_get body ''outcome'' = JStr ''rejected'' \<and> nonempty_value err
      then Rejected (short_message (str_of err))
      else if status \<in> {401, 403, 423} then Pending ''authentication'' ''Sign in to this person and environment to check acceptance.''
      else Pending ''unconfirmed'' (if is_object body \<and> nonempty_value err then short_message (str_of err)
        else ''Acceptance is unconfirmed (HTTP '' @ nat_text status @ ''). Check using the saved request.''))"

text \<open>\<open>None\<close> is the exception of a saved body that does not parse.\<close>

definition classify :: "nat \<Rightarrow> js \<Rightarrow> string \<Rightarrow> prompt_outcome option" where
  "classify status body bodyJson =
     (let work = js_get body ''workId'' in
      if status \<ge> 200 \<and> status < 300 \<and> is_object body \<and> js_get body ''accepted'' = JBool True \<and> nonempty_value work \<and> short_value work
      then (case json_parse bodyJson of None \<Rightarrow> None
        | Some saved \<Rightarrow> Some (if strictly_equal (js_get body ''delivery'') (js_get saved ''delivery'') then Accepted (str_of work)
                            else unaccepted status body))
      else Some (unaccepted status body))"

section \<open>Transactions\<close>

text \<open>A moment: whether the outbox is disposed, and what \<open>currentScope()\<close> answers or throws.\<close>

type_synonym moment = "bool \<times> (string + outbox_scope option)"

definition fence :: "url_parser \<Rightarrow> string option \<Rightarrow> moment \<Rightarrow> string outbox_result" where
  "fence parse scope now = (case scope of
     None \<Rightarrow> outbox_bad Invalid_scope ''Prompt storage needs an explicit person, environment and bootstrap URL.''
   | Some key \<Rightarrow>
       let changed = outbox_bad Scope_changed ''The prompt belongs to another person or environment.'' in
       if fst now then changed
       else (case snd now of Inl thrown \<Rightarrow> outbox_bad Scope_changed (short_message thrown)
         | Inr current \<Rightarrow> if scopeKey parse current \<noteq> Some key then changed else Inr key))"

record tx_world =
  tx_before :: moment
  tx_opened :: "unit outbox_result"
  tx_open_at :: moment
  tx_thrown :: "string option"
  tx_read_at :: moment
  tx_aborted :: "string option"
  tx_conflict :: string
  tx_done_at :: moment

type_synonym rows = "(string \<times> js) list"

datatype change = Add js | Put js | Delete string

definition row_key :: "js \<Rightarrow> string" where
  "row_key v = str_of (js_get v ''key'')"

fun apply_change :: "change \<Rightarrow> rows \<Rightarrow> rows option" where
  "apply_change (Add v) t = (if map_of t (row_key v) = None then Some (oput (row_key v) v t) else None)"
| "apply_change (Put v) t = Some (oput (row_key v) v t)"
| "apply_change (Delete k) t = Some (odel k t)"

definition scope_rows :: "string \<Rightarrow> rows \<Rightarrow> js list" where
  "scope_rows key t = filter (\<lambda>v. js_get v ''scope'' = JStr key) (map snd t)"

type_synonym 'a action = "js list \<Rightarrow> string \<Rightarrow> 'a outbox_result \<times> change option"

definition tx_action :: "'a action \<Rightarrow> string \<Rightarrow> rows \<Rightarrow> 'a outbox_result \<times> change option" where
  "tx_action action key t =
     (if length (scope_rows key t) > outbox_entries \<or> list_ex (\<lambda>v. \<not> validStored key v) (scope_rows key t)
      then (outbox_bad Storage_corrupt ''Saved prompts are invalid; nothing was sent or deleted.'', None)
      else action (scope_rows key t) key)"

definition tx_commit :: "url_parser \<Rightarrow> string option \<Rightarrow> tx_world \<Rightarrow> 'a outbox_result \<Rightarrow> change option \<Rightarrow> rows \<Rightarrow> 'a outbox_result \<times> rows" where
  "tx_commit parse scope w result chg t =
     (let unavailable = (\<lambda>m. (outbox_bad Storage_unavailable (short_message m), t)) in
      case tx_aborted w of Some m \<Rightarrow> unavailable m
      | None \<Rightarrow> (case (case chg of None \<Rightarrow> Some t | Some c \<Rightarrow> apply_change c t) of
           None \<Rightarrow> unavailable (tx_conflict w)
         | Some t' \<Rightarrow> (case fence parse scope (tx_done_at w) of Inl e \<Rightarrow> (Inl e, t') | Inr _ \<Rightarrow> (result, t'))))"

definition transact :: "url_parser \<Rightarrow> string option \<Rightarrow> tx_world \<Rightarrow> 'a action \<Rightarrow> rows \<Rightarrow> 'a outbox_result \<times> rows" where
  "transact parse scope w action t =
     (case rbind (fence parse scope (tx_before w)) (\<lambda>key. rbind (tx_opened w) (\<lambda>_. rbind (fence parse scope (tx_open_at w)) (\<lambda>_. Inr key))) of
        Inl e \<Rightarrow> (Inl e, t)
      | Inr key \<Rightarrow> (case tx_thrown w of Some m \<Rightarrow> (outbox_bad Storage_unavailable (short_message m), t)
         | None \<Rightarrow> (let (result, chg) = (case fence parse scope (tx_read_at w) of Inl e \<Rightarrow> (Inl e, None) | Inr _ \<Rightarrow> tx_action action key t) in
            tx_commit parse scope w result chg t)))"

section \<open>Operations\<close>

definition find_prompt :: "string \<Rightarrow> js list \<Rightarrow> js option" where
  "find_prompt rid entries = find (\<lambda>v. js_get v ''requestId'' = JStr rid) entries"

definition list_prompts :: "js list action" where
  "list_prompts entries key = (Inr (map publicEntry (sort_key (\<lambda>v. int_of (js_get v ''createdAt'')) entries)), None)"

definition new_prompt :: "string \<Rightarrow> string \<Rightarrow> string \<Rightarrow> string \<Rightarrow> int \<Rightarrow> js" where
  "new_prompt scope rid session bodyJson now = mk_obj [(''key'', JStr (prompt_key scope rid)), (''scope'', JStr scope), (''requestId'', JStr rid),
     (''sessionId'', JStr session), (''bodyJson'', JStr bodyJson), (''createdAt'', JNum (NInt now)),
     (''outcome'', outcome_js (Pending ''saved'' ''Saved on this device; not yet acknowledged by the server.''))]"

definition save_prompt :: "string \<Rightarrow> string \<Rightarrow> string \<Rightarrow> int \<Rightarrow> js action" where
  "save_prompt rid session bodyJson now entries scope =
     (case find_prompt rid entries of
        Some previous \<Rightarrow> (if js_get previous ''sessionId'' = JStr session \<and> js_get previous ''bodyJson'' = JStr bodyJson then Inr (publicEntry previous)
           else outbox_bad Conflicting_request ''This requestId already belongs to another prompt. Its saved body was not changed.'', None)
      | None \<Rightarrow> (let entry = new_prompt scope rid session bodyJson now in
           if length entries \<ge> outbox_entries \<or> reservedBytes entry + sum_list (map reservedBytes entries) > outbox_bytes
           then (outbox_bad Outbox_full ''Saved prompt storage is full. Resolve or explicitly discard a saved prompt before sending another.'', None)
           else (Inr (publicEntry entry), Some (Add entry))))"

text \<open>The body is given field by field, as the caller wrote it.\<close>

definition body_json :: "(string \<times> js) list \<Rightarrow> string" where
  "body_json body = ordered_text (filter (\<lambda>p. snd p \<noteq> JUndef) body)"

definition enqueue :: "url_parser \<Rightarrow> string option \<Rightarrow> tx_world \<Rightarrow> string \<Rightarrow> (string \<times> js) list \<Rightarrow> int \<Rightarrow> rows \<Rightarrow> js outbox_result \<times> rows" where
  "enqueue parse scope w session body now t =
     (if blank session \<or> \<not> validBody (mk_obj body)
      then (outbox_bad Invalid_prompt ''Save a nonempty prompt with a stable requestId and explicit delivery mode.'', t)
      else (case json_parse (body_json body) of
         None \<Rightarrow> (outbox_bad Invalid_prompt ''SyntaxError'', t)
       | Some frozen \<Rightarrow>
           if \<not> validBody frozen then (outbox_bad Invalid_prompt ''The serialized prompt is invalid.'', t)
           else transact parse scope w (save_prompt (str_of (js_get frozen ''requestId'')) session (body_json body) now) t))"

definition load_prompt :: "string \<Rightarrow> js action" where
  "load_prompt rid entries scope = (case find_prompt rid entries of
     Some e \<Rightarrow> Inr (publicEntry e) | None \<Rightarrow> outbox_bad Not_found ''This saved prompt was not found.'', None)"

text \<open>After the read: the answer that ends the delivery, or the entry to post.\<close>

definition deliver_ready :: "js outbox_result \<Rightarrow> bool \<Rightarrow> string outbox_result \<Rightarrow> js outbox_result + js" where
  "deliver_ready loaded stopped fenced = (case loaded of
     Inl e \<Rightarrow> Inl loaded
   | Inr entry \<Rightarrow>
       if \<not> is_pending entry then Inl loaded
       else if stopped then Inl (outbox_bad Interrupted ''Automatic submission stopped. The saved prompt requires explicit Retry.'')
       else (case fenced of Inl e \<Rightarrow> Inl (Inl e) | Inr _ \<Rightarrow> Inr entry))"

datatype transport_reply = Response nat js | Failed string

definition transport_outcome :: "string \<Rightarrow> prompt_outcome" where
  "transport_outcome m = Pending ''transport'' (if short_message m = [] then ''Acceptance is unconfirmed; check using the saved request.'' else short_message m)"

definition reply_outcome :: "js \<Rightarrow> transport_reply \<Rightarrow> prompt_outcome" where
  "reply_outcome entry r = (case r of Failed m \<Rightarrow> transport_outcome m
     | Response status body \<Rightarrow> (case classify status body (str_of (js_get entry ''bodyJson'')) of
         None \<Rightarrow> transport_outcome ''SyntaxError'' | Some x \<Rightarrow> x))"

definition save_outcome :: "string \<Rightarrow> prompt_outcome \<Rightarrow> js action" where
  "save_outcome rid outcome entries scope = (case find_prompt rid entries of
     None \<Rightarrow> (outbox_bad Not_found ''The saved prompt was explicitly discarded while checking acceptance.'', None)
   | Some entry \<Rightarrow>
       if \<not> is_pending entry then (Inr (publicEntry entry), None)
       else (let next_entry = JObj (oput ''outcome'' (outcome_js outcome) (fields_of entry)) in
         (Inr (publicEntry next_entry), Some (Put next_entry))))"

definition remove_prompt :: "string \<Rightarrow> bool \<Rightarrow> unit action" where
  "remove_prompt rid allowPending entries scope = (case find_prompt rid entries of
     None \<Rightarrow> (outbox_bad Not_found ''This saved prompt was not found.'', None)
   | Some entry \<Rightarrow>
       if \<not> allowPending \<and> is_pending entry then (outbox_bad Pending_not_acknowledged ''An unconfirmed prompt cannot be acknowledged as delivered.'', None)
       else (Inr (), Some (Delete (row_key entry))))"

section \<open>The outbox in use\<close>

datatype flight = Loading | Sending js | Posted js | Saving prompt_outcome

record outbox =
  ob_scope :: "string option"
  ob_rows :: rows
  ob_flights :: "(string \<times> flight) list"
  ob_interrupted :: "string list"
  ob_disposed :: bool
  ob_posts :: "(string \<times> js) list"

definition submit :: "string \<Rightarrow> outbox \<Rightarrow> outbox" where
  "submit rid s = (if map_of (ob_flights s) rid \<noteq> None then s else s\<lparr>ob_flights := map_put rid Loading (ob_flights s)\<rparr>)"

definition delivered :: "string \<Rightarrow> outbox \<Rightarrow> outbox" where
  "delivered rid s = s\<lparr>ob_flights := map_del rid (ob_flights s), ob_interrupted := removeAll rid (ob_interrupted s)\<rparr>"

definition abort_flight :: "string \<Rightarrow> string \<Rightarrow> outbox \<Rightarrow> outbox" where
  "abort_flight rid m s = (case map_of (ob_flights s) rid of
     Some (Sending e) \<Rightarrow> s\<lparr>ob_flights := map_put rid (Saving (transport_outcome m)) (ob_flights s)\<rparr>
   | Some (Posted e) \<Rightarrow> s\<lparr>ob_flights := map_put rid (Saving (transport_outcome m)) (ob_flights s)\<rparr>
   | _ \<Rightarrow> s)"

definition interrupt :: "string \<Rightarrow> outbox \<Rightarrow> outbox" where
  "interrupt rid s =
     (let s1 = (if map_of (ob_flights s) rid \<noteq> None then s\<lparr>ob_interrupted := List.insert rid (ob_interrupted s)\<rparr> else s) in
      abort_flight rid ''Automatic submission stopped. Use explicit Retry to check the saved prompt.'' s1)"

definition dispose :: "outbox \<Rightarrow> outbox" where
  "dispose s = fold (\<lambda>rid. abort_flight rid ''Prompt owner changed.'') (map fst (ob_flights s)) (s\<lparr>ob_disposed := True\<rparr>)"

text \<open>One step of the program: an operation, or the next part of a delivery. \<open>ob_posts\<close> records what was
  handed to the transport.\<close>

inductive outbox_step :: "url_parser \<Rightarrow> outbox \<Rightarrow> outbox \<Rightarrow> bool" for parse where
  ob_enqueue: "enqueue parse (ob_scope s) w session body now (ob_rows s) = (res, t) \<Longrightarrow> outbox_step parse s (s\<lparr>ob_rows := t\<rparr>)"
| ob_submit: "outbox_step parse s (submit rid s)"
| ob_load: "map_of (ob_flights s) rid = Some Loading \<Longrightarrow> transact parse (ob_scope s) w (load_prompt rid) (ob_rows s) = (loaded, t) \<Longrightarrow>
    deliver_ready loaded (rid \<in> set (ob_interrupted s)) (fence parse (ob_scope s) (ob_disposed s, current)) = Inr entry \<Longrightarrow>
    outbox_step parse s (s\<lparr>ob_rows := t, ob_flights := map_put rid (Sending entry) (ob_flights s)\<rparr>)"
| ob_load_ended: "map_of (ob_flights s) rid = Some Loading \<Longrightarrow> transact parse (ob_scope s) w (load_prompt rid) (ob_rows s) = (loaded, t) \<Longrightarrow>
    deliver_ready loaded (rid \<in> set (ob_interrupted s)) (fence parse (ob_scope s) (ob_disposed s, current)) = Inl answer \<Longrightarrow>
    outbox_step parse s (delivered rid (s\<lparr>ob_rows := t\<rparr>))"
| ob_post: "map_of (ob_flights s) rid = Some (Sending entry) \<Longrightarrow>
    outbox_step parse s (s\<lparr>ob_flights := map_put rid (Posted entry) (ob_flights s), ob_posts := ob_posts s @ [(rid, entry)]\<rparr>)"
| ob_reply: "map_of (ob_flights s) rid = Some (Posted entry) \<Longrightarrow>
    outbox_step parse s (s\<lparr>ob_flights := map_put rid (Saving (reply_outcome entry r)) (ob_flights s)\<rparr>)"
| ob_timeout: "outbox_step parse s (abort_flight rid ''Prompt acknowledgement timed out.'' s)"
| ob_save: "map_of (ob_flights s) rid = Some (Saving outcome) \<Longrightarrow> transact parse (ob_scope s) w (save_outcome rid outcome) (ob_rows s) = (res, t) \<Longrightarrow>
    outbox_step parse s (delivered rid (s\<lparr>ob_rows := t\<rparr>))"
| ob_interrupt: "outbox_step parse s (interrupt rid s)"
| ob_remove: "transact parse (ob_scope s) w (remove_prompt rid allow) (ob_rows s) = (removed, t) \<Longrightarrow> outbox_step parse s (s\<lparr>ob_rows := t\<rparr>)"
| ob_dispose: "outbox_step parse s (dispose s)"

definition new_outbox :: "url_parser \<Rightarrow> outbox_scope \<Rightarrow> outbox" where
  "new_outbox parse scope = \<lparr>ob_scope = scopeKey parse (Some scope), ob_rows = [], ob_flights = [], ob_interrupted = [], ob_disposed = False, ob_posts = []\<rparr>"

inductive outbox_reachable :: "url_parser \<Rightarrow> outbox \<Rightarrow> bool" for parse where
  ob_new: "outbox_reachable parse (new_outbox parse scope)"
| ob_next: "outbox_reachable parse s \<Longrightarrow> outbox_step parse s s' \<Longrightarrow> outbox_reachable parse s'"

section \<open>What a transaction does to the table\<close>

lemma transact_cases:
  assumes "transact parse scope w action t = (res, t')"
  obtains "t' = t" | key result c where "action (scope_rows key t) key = (result, Some c)" "apply_change c t = Some t'"
      "length (scope_rows key t) \<le> outbox_entries" "res = result \<or> (\<exists>e. res = Inl e)"
  using assms unfolding transact_def tx_commit_def tx_action_def outbox_bad_def Let_def
  by (auto split: sum.splits option.splits prod.splits if_splits)

text \<open>A well-formed table: every row under its own key, an object.\<close>

definition row_ok :: "string \<times> js \<Rightarrow> bool" where
  "row_ok p = (row_key (snd p) = fst p \<and> is_object (snd p) \<and> keys_sorted (fields_of (snd p)))"

definition rows_ok :: "rows \<Rightarrow> bool" where
  "rows_ok t = (keys_sorted t \<and> (\<forall>p\<in>set t. row_ok p))"

lemma oput_set: "set (oput k v fs) \<subseteq> insert (k, v) (set fs)"
  by (induction k v fs rule: oput.induct) auto

lemma rows_ok_oput: "rows_ok t \<Longrightarrow> row_ok (row_key v, v) \<Longrightarrow> rows_ok (oput (row_key v) v t)"
  using oput_set[of "row_key v" v t] by (auto simp: rows_ok_def)

lemma rows_ok_odel: "rows_ok t \<Longrightarrow> rows_ok (odel k t)"
  by (auto simp: rows_ok_def odel_def keys_sorted_filter)

lemma rows_ok_at: "rows_ok t \<Longrightarrow> v \<in> set (scope_rows key t) \<Longrightarrow> map_of t (row_key v) = Some v \<and> row_ok (row_key v, v)"
  by (auto simp: rows_ok_def scope_rows_def row_ok_def keys_sorted_distinct)

lemma find_prompt_Some: "find_prompt rid entries = Some v \<Longrightarrow> v \<in> set entries \<and> js_get v ''requestId'' = JStr rid"
  by (auto simp: find_prompt_def find_Some_iff)

text \<open>What two versions of a saved prompt share: everything but the outcome.\<close>

definition same_prompt :: "js \<Rightarrow> js \<Rightarrow> bool" where
  "same_prompt v w = (\<forall>f. f \<noteq> ''outcome'' \<longrightarrow> js_get w f = js_get v f)"

lemma same_prompt_put: "row_ok (k, v) \<Longrightarrow> same_prompt v (JObj (oput ''outcome'' r (fields_of v)))"
  by (simp add: same_prompt_def js_get_def oget_def row_ok_def)

lemma row_ok_put: "row_ok (k, v) \<Longrightarrow> row_ok (k, JObj (oput ''outcome'' r (fields_of v)))"
  by (simp add: row_ok_def row_key_def js_get_def oget_def)

text \<open>The changes of the four writing operations.\<close>

inductive outbox_change :: "rows \<Rightarrow> rows \<Rightarrow> bool" where
  ch_none: "outbox_change t t"
| ch_add: "map_of t (row_key v) = None \<Longrightarrow> row_ok (row_key v, v) \<Longrightarrow> is_pending v \<Longrightarrow> outbox_change t (oput (row_key v) v t)"
| ch_put: "map_of t (row_key v) = Some v \<Longrightarrow> is_pending v \<Longrightarrow> row_ok (row_key v, v) \<Longrightarrow>
    outbox_change t (oput (row_key v) (JObj (oput ''outcome'' r (fields_of v))) t)"
| ch_delete: "outbox_change t (odel k t)"

lemma new_prompt_ok [simp]:
  "row_key (new_prompt scope rid session body now) = prompt_key scope rid"
  "is_pending (new_prompt scope rid session body now)"
  "row_ok (prompt_key scope rid, new_prompt scope rid session body now)"
  by (simp_all add: new_prompt_def row_ok_def row_key_def is_pending_def outcome_kind_def outcome_js_def mk_obj_def js_get_def oget_def)

lemma enqueue_cases:
  assumes "enqueue parse scope w session body now t = (res, t')"
  obtains "t' = t" | key rid where "map_of t (prompt_key key rid) = None"
      "t' = oput (prompt_key key rid) (new_prompt key rid session (body_json body) now) t"
      "length (scope_rows key t) < outbox_entries"
      "reservedBytes (new_prompt key rid session (body_json body) now) + sum_list (map reservedBytes (scope_rows key t)) \<le> outbox_bytes"
      "res = Inr (publicEntry (new_prompt key rid session (body_json body) now)) \<or> (\<exists>e. res = Inl e)"
proof -
  let ?body = "case json_parse (body_json body) of None \<Rightarrow> JUndef | Some v \<Rightarrow> v"
  have "t' = t \<or> transact parse scope w (save_prompt (str_of (js_get ?body ''requestId'')) session (body_json body) now) t = (res, t')"
    using assms unfolding enqueue_def by (simp split: if_splits option.splits)
  then show thesis
  proof
    assume "transact parse scope w (save_prompt (str_of (js_get ?body ''requestId'')) session (body_json body) now) t = (res, t')"
    then show thesis
    proof (cases rule: transact_cases)
      case (2 key result c)
      have c: "c = Add (new_prompt key (str_of (js_get ?body ''requestId'')) session (body_json body) now)"
        and small: "length (scope_rows key t) < outbox_entries"
          "reservedBytes (new_prompt key (str_of (js_get ?body ''requestId'')) session (body_json body) now) + sum_list (map reservedBytes (scope_rows key t)) \<le> outbox_bytes"
        and r: "result = Inr (publicEntry (new_prompt key (str_of (js_get ?body ''requestId'')) session (body_json body) now))"
        using 2(1) unfolding save_prompt_def Let_def by (simp_all split: option.splits if_splits)
      show thesis
        using 2(2,4) small unfolding c r by (intro that(2)[of key "str_of (js_get ?body ''requestId'')"]) (simp_all split: if_splits)
    qed (rule that(1))
  qed (rule that(1))
qed

lemma enqueue_change:
  assumes "enqueue parse scope w session body now t = (res, t')"
  shows "outbox_change t t'"
  using assms
proof (cases rule: enqueue_cases)
  case (2 key rid)
  then show ?thesis using ch_add[of t "new_prompt key rid session (body_json body) now"] by simp
qed (simp add: ch_none)

lemma save_change:
  assumes "transact parse scope w (save_outcome rid outcome) t = (res, t')" "rows_ok t"
  obtains "t' = t" | v where "js_get v ''requestId'' = JStr rid" "map_of t (row_key v) = Some v" "is_pending v" "row_ok (row_key v, v)"
    "t' = oput (row_key v) (JObj (oput ''outcome'' (outcome_js outcome) (fields_of v))) t"
  using assms(1)
proof (cases rule: transact_cases)
  case (2 key result c)
  then obtain v where v: "find_prompt rid (scope_rows key t) = Some v" by (auto simp: save_outcome_def split: option.splits)
  have pend: "is_pending v" and c: "c = Put (JObj (oput ''outcome'' (outcome_js outcome) (fields_of v)))"
    using 2(1) v unfolding save_outcome_def Let_def by (simp_all split: if_splits)
  have at: "map_of t (row_key v) = Some v" "row_ok (row_key v, v)" using find_prompt_Some[OF v] rows_ok_at[OF assms(2)] by blast+
  have "row_key (JObj (oput ''outcome'' (outcome_js outcome) (fields_of v))) = row_key v"
    using row_ok_put[OF at(2)] by (simp add: row_ok_def)
  then show thesis using that(2)[OF _ at(1) pend at(2)] find_prompt_Some[OF v] 2(2) c by simp
qed (rule that(1))

lemma remove_change: "transact parse scope w (remove_prompt rid allow) t = (res, t') \<Longrightarrow> outbox_change t t'"
  by (erule transact_cases) (auto simp: remove_prompt_def intro: outbox_change.intros split: option.splits if_splits)

lemma load_same: "transact parse scope w (load_prompt rid) t = (res, t') \<Longrightarrow> t' = t"
  by (erule transact_cases) (auto simp: load_prompt_def)

lemma change_rows_ok: "outbox_change t t' \<Longrightarrow> rows_ok t \<Longrightarrow> rows_ok t'"
proof (induction rule: outbox_change.induct)
  case (ch_put t v r)
  have "row_ok (row_key v, JObj (oput ''outcome'' r (fields_of v)))" using ch_put(3) by (rule row_ok_put)
  then show ?case using rows_ok_oput[OF ch_put(4), of "JObj (oput ''outcome'' r (fields_of v))"] by (simp add: row_ok_def)
qed (simp_all add: rows_ok_oput rows_ok_odel)

lemma change_keeps:
  assumes "outbox_change t t'" "rows_ok t" "map_of t k = Some v" "map_of t' k = Some v'"
  shows "same_prompt v v' \<and> (\<not> is_pending v \<longrightarrow> v' = v)"
  using assms
proof (induction rule: outbox_change.induct)
  case (ch_put t u r)
  have "keys_sorted t" using ch_put(4) by (simp add: rows_ok_def)
  then show ?case using ch_put same_prompt_put[OF ch_put(3)] by (auto simp: same_prompt_def split: if_splits)
qed (auto simp: rows_ok_def same_prompt_def split: if_splits)

lemma flight_fields [simp]:
  "ob_rows (submit rid s) = ob_rows s" "ob_rows (delivered rid s) = ob_rows s" "ob_rows (abort_flight rid m s) = ob_rows s"
  "ob_posts (submit rid s) = ob_posts s" "ob_posts (delivered rid s) = ob_posts s" "ob_posts (abort_flight rid m s) = ob_posts s"
  by (simp_all add: submit_def delivered_def abort_flight_def split: option.split flight.split)

lemma fold_aborts: "ob_rows (fold (\<lambda>rid. abort_flight rid m) rids s) = ob_rows s" "ob_posts (fold (\<lambda>rid. abort_flight rid m) rids s) = ob_posts s"
  by (induction rids arbitrary: s) simp_all

lemma stop_fields [simp]:
  "ob_rows (interrupt rid s) = ob_rows s" "ob_posts (interrupt rid s) = ob_posts s" "ob_rows (dispose s) = ob_rows s" "ob_posts (dispose s) = ob_posts s"
  by (simp_all add: interrupt_def dispose_def Let_def fold_aborts)

lemma step_change: "outbox_step parse s s' \<Longrightarrow> rows_ok (ob_rows s) \<Longrightarrow> outbox_change (ob_rows s) (ob_rows s')"
proof (induction rule: outbox_step.induct)
  case (ob_save s rid outcome w res t)
  from ob_save(2,3) show ?case
    by (cases rule: save_change) (auto intro: outbox_change.intros)
qed (auto intro: outbox_change.intros enqueue_change remove_change dest: load_same)

lemma reachable_rows: "outbox_reachable parse s \<Longrightarrow> rows_ok (ob_rows s)"
proof (induction rule: outbox_reachable.induct)
  case (ob_next s s')
  then show ?case using step_change change_rows_ok by blast
qed (simp add: new_outbox_def rows_ok_def)

text \<open>C23: Nothing the outbox does rewrites a saved prompt: whatever step is taken, a prompt still stored under
  its key has the body, thread, request and time it was saved with, and an accepted or rejected one is
  unchanged.\<close>
theorem saved_prompt_kept:
  assumes "outbox_reachable parse s" "outbox_step parse s s'"
    "map_of (ob_rows s) k = Some v" "map_of (ob_rows s') k = Some v'"
  shows "(\<forall>f\<in>{''key'', ''scope'', ''requestId'', ''sessionId'', ''bodyJson'', ''createdAt''}. js_get v' f = js_get v f)
    \<and> (\<not> is_pending v \<longrightarrow> v' = v)"
  using change_keeps[OF step_change[OF assms(2) reachable_rows[OF assms(1)]] reachable_rows[OF assms(1)] assms(3,4)]
  by (simp add: same_prompt_def)

section \<open>Outcomes and posts\<close>

definition posted :: "outbox \<Rightarrow> string \<Rightarrow> bool" where
  "posted s rid = (rid \<in> fst ` set (ob_posts s))"

definition settled_flight :: "flight \<Rightarrow> bool" where
  "settled_flight f = (case f of Posted e \<Rightarrow> True | Saving (Accepted w) \<Rightarrow> True | Saving (Rejected m) \<Rightarrow> True | _ \<Rightarrow> False)"

definition outcomes_ok :: "outbox \<Rightarrow> bool" where
  "outcomes_ok s = ((\<forall>v\<in>snd ` set (ob_rows s). \<not> is_pending v \<longrightarrow> posted s (str_of (js_get v ''requestId'')))
     \<and> (\<forall>rid f. map_of (ob_flights s) rid = Some f \<longrightarrow> settled_flight f \<longrightarrow> posted s rid))"

lemma transport_unsettled [simp]: "\<not> settled_flight (Saving (transport_outcome m))"
  by (simp add: settled_flight_def transport_outcome_def)

lemma abort_keeps: "outcomes_ok s \<Longrightarrow> outcomes_ok (abort_flight rid m s)"
  by (auto simp: outcomes_ok_def posted_def abort_flight_def split: option.split flight.split)

lemma fold_abort_keeps: "outcomes_ok s \<Longrightarrow> outcomes_ok (fold (\<lambda>rid. abort_flight rid m) rids s)"
  by (induction rids arbitrary: s) (simp_all add: abort_keeps)

lemma rows_outcomes:
  assumes "outcomes_ok s" "\<forall>v\<in>snd ` set t. \<not> is_pending v \<longrightarrow> v \<in> snd ` set (ob_rows s) \<or> posted s (str_of (js_get v ''requestId''))"
  shows "outcomes_ok (s\<lparr>ob_rows := t\<rparr>)"
proof -
  have "\<forall>v\<in>snd ` set t. \<not> is_pending v \<longrightarrow> posted s (str_of (js_get v ''requestId''))"
    using assms unfolding outcomes_ok_def by blast
  then show ?thesis using assms(1) by (simp add: outcomes_ok_def posted_def)
qed

lemma delivered_keeps: "outcomes_ok s \<Longrightarrow> outcomes_ok (delivered rid s)"
  by (auto simp: outcomes_ok_def posted_def delivered_def)

lemma enqueue_outcomes:
  assumes "outcomes_ok s" "enqueue parse scope w session body now (ob_rows s) = (res, t)"
  shows "outcomes_ok (s\<lparr>ob_rows := t\<rparr>)"
  using assms(2)
proof (cases rule: enqueue_cases)
  case (2 key rid)
  show ?thesis
  proof (rule rows_outcomes[OF assms(1)], intro ballI impI)
    let ?n = "new_prompt key rid session (body_json body) now"
    fix v assume v: "v \<in> snd ` set t" "\<not> is_pending v"
    then have "v \<in> insert ?n (snd ` set (ob_rows s))" using oput_set[of "prompt_key key rid" ?n "ob_rows s"] 2(2) by auto
    moreover have "v \<noteq> ?n" using v(2) by auto
    ultimately show "v \<in> snd ` set (ob_rows s) \<or> posted s (str_of (js_get v ''requestId''))" by simp
  qed
qed (simp add: assms(1))

lemma save_outcomes:
  assumes ok: "outcomes_ok s" "rows_ok (ob_rows s)" and flight: "map_of (ob_flights s) rid = Some (Saving outcome)"
    and save: "transact parse scope w (save_outcome rid outcome) (ob_rows s) = (res, t)"
  shows "outcomes_ok (s\<lparr>ob_rows := t\<rparr>)"
  using save ok(2)
proof (cases rule: save_change)
  case (2 v)
  let ?n = "JObj (oput ''outcome'' (outcome_js outcome) (fields_of v))"
  have sorted: "keys_sorted (fields_of v)" using 2(4) by (simp add: row_ok_def)
  have rid: "js_get ?n ''requestId'' = JStr rid" using 2(1) sorted by (simp add: js_get_def oget_def)
  have kind: "is_pending ?n \<longleftrightarrow> (\<exists>r m. outcome = Pending r m)"
    using sorted by (cases outcome) (simp_all add: is_pending_def outcome_kind_def js_get_def oget_def outcome_js_def mk_obj_def)
  have posted: "\<not> is_pending ?n \<longrightarrow> posted s rid"
  proof
    assume "\<not> is_pending ?n"
    then have "settled_flight (Saving outcome)" using kind by (cases outcome) (auto simp: settled_flight_def)
    then show "posted s rid" using ok(1) flight unfolding outcomes_ok_def by blast
  qed
  show ?thesis
  proof (rule rows_outcomes[OF ok(1)], intro ballI impI)
    fix u assume u: "u \<in> snd ` set t" "\<not> is_pending u"
    have "u \<in> insert ?n (snd ` set (ob_rows s))" using u(1) oput_set[of "row_key v" ?n "ob_rows s"] 2(5) by auto
    then show "u \<in> snd ` set (ob_rows s) \<or> posted s (str_of (js_get u ''requestId''))" using posted rid u(2) by auto
  qed
qed (simp add: ok(1))

lemma remove_outcomes:
  assumes "outcomes_ok s" "transact parse scope w (remove_prompt rid allow) (ob_rows s) = (res, t)"
  shows "outcomes_ok (s\<lparr>ob_rows := t\<rparr>)"
proof -
  have "t = ob_rows s \<or> (\<exists>k. t = odel k (ob_rows s))"
    using assms(2) by (elim transact_cases) (auto simp: remove_prompt_def split: option.splits if_splits)
  then have "set t \<subseteq> set (ob_rows s)" by (auto simp: odel_def)
  then show ?thesis using rows_outcomes[OF assms(1)] by (meson image_mono subset_iff)
qed

lemma step_outcomes: "outbox_step parse s s' \<Longrightarrow> rows_ok (ob_rows s) \<Longrightarrow> outcomes_ok s \<Longrightarrow> outcomes_ok s'"
proof (induction rule: outbox_step.induct)
  case (ob_enqueue s w session body now res t)
  then show ?case using enqueue_outcomes by blast
next
  case (ob_submit s rid)
  then show ?case by (auto simp: submit_def outcomes_ok_def posted_def settled_flight_def)
next
  case (ob_load s rid w loaded t current entry)
  then have "t = ob_rows s" using load_same by blast
  then show ?case using ob_load(5) by (auto simp: outcomes_ok_def posted_def settled_flight_def)
next
  case (ob_load_ended s rid w loaded t current answer)
  then have "t = ob_rows s" using load_same by blast
  then show ?case using delivered_keeps ob_load_ended(5) by simp
next
  case (ob_post s rid entry)
  then show ?case by (auto simp: outcomes_ok_def posted_def)
next
  case (ob_reply s rid entry r)
  then show ?case by (auto simp: outcomes_ok_def posted_def settled_flight_def)
next
  case (ob_timeout s rid)
  then show ?case using abort_keeps by blast
next
  case (ob_save s rid outcome w res t)
  then show ?case using save_outcomes delivered_keeps by blast
next
  case (ob_interrupt s rid)
  have "outcomes_ok (s\<lparr>ob_interrupted := List.insert rid (ob_interrupted s)\<rparr>)" using ob_interrupt(2) by (simp add: outcomes_ok_def posted_def)
  then show ?case using ob_interrupt(2) abort_keeps by (simp add: interrupt_def Let_def)
next
  case (ob_remove s w rid allow removed t)
  then show ?case using remove_outcomes by blast
next
  case (ob_dispose s)
  have "outcomes_ok (s\<lparr>ob_disposed := True\<rparr>)" using ob_dispose(2) by (simp add: outcomes_ok_def posted_def)
  then show ?case using fold_abort_keeps by (simp add: dispose_def)
qed

lemma reachable_outcomes: "outbox_reachable parse s \<Longrightarrow> outcomes_ok s"
proof (induction rule: outbox_reachable.induct)
  case (ob_next s s')
  then show ?case using step_outcomes reachable_rows by blast
qed (simp add: new_outbox_def outcomes_ok_def)

text \<open>What is posted: a pending prompt under its own request identifier.\<close>

definition post_ok :: "string \<Rightarrow> js \<Rightarrow> bool" where
  "post_ok rid e = (is_pending e \<and> js_get e ''requestId'' = JStr rid)"

definition sending_ok :: "outbox \<Rightarrow> bool" where
  "sending_ok s = ((\<forall>rid e. map_of (ob_flights s) rid = Some (Sending e) \<longrightarrow> post_ok rid e) \<and> (\<forall>p\<in>set (ob_posts s). post_ok (fst p) (snd p)))"

lemma public_request: "js_get (publicEntry v) ''requestId'' = js_get v ''requestId''"
  by (simp add: publicEntry_def)

lemma load_result:
  assumes "transact parse scope w (load_prompt rid) t = (Inr e, t')"
  shows "js_get e ''requestId'' = JStr rid"
proof -
  obtain key where "fst (load_prompt rid (scope_rows key t) key) = Inr e"
    using assms unfolding transact_def tx_commit_def tx_action_def outbox_bad_def Let_def
    by (auto split: sum.splits option.splits prod.splits if_splits) (metis fst_conv)+
  then obtain v where "find_prompt rid (scope_rows key t) = Some v" "e = publicEntry v"
    by (auto simp: load_prompt_def outbox_bad_def split: option.splits)
  then show ?thesis using find_prompt_Some by (simp add: public_request)
qed

lemma ready_entry: "deliver_ready loaded stopped fenced = Inr e \<Longrightarrow> loaded = Inr e \<and> is_pending e"
  by (auto simp: deliver_ready_def split: sum.splits if_splits)

lemma sending_same: "sending_ok s \<Longrightarrow> ob_posts s' = ob_posts s \<Longrightarrow>
    (\<And>rid e. map_of (ob_flights s') rid = Some (Sending e) \<Longrightarrow> map_of (ob_flights s) rid = Some (Sending e)) \<Longrightarrow> sending_ok s'"
  by (simp add: sending_ok_def)

lemma abort_sending: "map_of (ob_flights (abort_flight rid m s)) j = Some (Sending e) \<Longrightarrow> map_of (ob_flights s) j = Some (Sending e)"
  by (auto simp: abort_flight_def split: option.splits flight.splits if_splits)

lemma fold_abort_sending: "map_of (ob_flights (fold (\<lambda>rid. abort_flight rid m) rids s)) j = Some (Sending e) \<Longrightarrow> map_of (ob_flights s) j = Some (Sending e)"
  by (induction rids arbitrary: s) (auto dest: abort_sending)

lemma step_sending: "outbox_step parse s s' \<Longrightarrow> sending_ok s \<Longrightarrow> sending_ok s'"
proof (induction rule: outbox_step.induct)
  case (ob_load s rid w loaded t current entry)
  have "post_ok rid entry" using ready_entry[OF ob_load(3)] ob_load(2) load_result unfolding post_ok_def by blast
  then show ?case using ob_load(4) by (simp add: sending_ok_def)
next
  case (ob_post s rid entry)
  then show ?case by (auto simp: sending_ok_def)
next
  case (ob_submit s rid)
  then show ?case by (rule sending_same) (auto simp: submit_def split: if_splits)
next
  case (ob_load_ended s rid w loaded t current answer)
  from ob_load_ended(4) show ?case by (rule sending_same) (auto simp: delivered_def split: if_splits)
next
  case (ob_reply s rid entry r)
  from ob_reply(2) show ?case by (rule sending_same) (auto split: if_splits)
next
  case (ob_timeout s rid)
  then show ?case by (rule sending_same) (auto dest: abort_sending)
next
  case (ob_save s rid outcome w res t)
  from ob_save(3) show ?case by (rule sending_same) (auto simp: delivered_def split: if_splits)
next
  case (ob_interrupt s rid)
  then show ?case by (rule sending_same) (auto simp: interrupt_def Let_def dest: abort_sending split: if_splits)
next
  case (ob_dispose s)
  then show ?case by (rule sending_same) (auto simp: dispose_def fold_aborts dest: fold_abort_sending)
qed (simp_all add: sending_ok_def)

lemma reachable_sending: "outbox_reachable parse s \<Longrightarrow> sending_ok s"
proof (induction rule: outbox_reachable.induct)
  case (ob_next s s')
  then show ?case using step_sending by blast
qed (simp add: new_outbox_def sending_ok_def)


section \<open>Limits\<close>

lemma scoped_oput:
  assumes "map_of t k = None" "js_get v ''scope'' = JStr key"
  shows "sum_list (map (f :: js \<Rightarrow> nat) (scope_rows key (oput k v t))) = f v + sum_list (map f (scope_rows key t))"
    "length (scope_rows key (oput k v t)) = Suc (length (scope_rows key t))"
  using assms by (induction k v t rule: oput.induct) (auto simp: scope_rows_def split: if_splits)

text \<open>Saving a prompt stores nothing, or one new row beside those there were; then its scope holds at most 64
  prompts within 2 MiB, the room reserved for their outcomes included.\<close>
theorem outbox_limits:
  assumes "enqueue parse scope w session body now t = (res, t')"
  shows "t' = t \<or> (\<exists>key rid. t' = oput (prompt_key key rid) (new_prompt key rid session (body_json body) now) t
      \<and> map_of t (prompt_key key rid) = None \<and> length (scope_rows key t') \<le> outbox_entries
      \<and> sum_list (map reservedBytes (scope_rows key t')) \<le> outbox_bytes)"
  using assms
proof (cases rule: enqueue_cases)
  case (2 key rid)
  have "js_get (new_prompt key rid session (body_json body) now) ''scope'' = JStr key" by (simp add: new_prompt_def)
  note more = scoped_oput[OF 2(1) this]
  show ?thesis using 2(1,2,3,4) more(1)[of reservedBytes] more(2)
    by (intro disjI2) (rule exI[of _ key], rule exI[of _ rid], simp)
qed simp

section \<open>A prompt saved, posted and accepted\<close>

definition example_url :: url_parser where
  "example_url s = Some \<lparr>url_protocol = ''https:'', url_username = [], url_password = [], url_search = [], url_hash = [], url_href = s\<rparr>"

definition example_scope :: outbox_scope where
  "example_scope = \<lparr>os_person = ''p'', os_environment = ''e'', os_bootstrap = ''h''\<rparr>"

definition example_key :: string where
  "example_key = json_text (JArr [JStr ''p'', JStr ''e'', JStr ''h''])"

definition example_moment :: moment where
  "example_moment = (False, Inr (Some example_scope))"

definition example_world :: tx_world where
  "example_world = \<lparr>tx_before = example_moment, tx_opened = Inr (), tx_open_at = example_moment, tx_thrown = None, tx_read_at = example_moment,
     tx_aborted = None, tx_conflict = [], tx_done_at = example_moment\<rparr>"

definition example_id :: string where
  "example_id = ''00000000-0000-0000-0000-000000000000''"

definition example_body :: "(string \<times> js) list" where
  "example_body = [(''requestId'', JStr example_id), (''text'', JStr ''x''), (''delivery'', JStr ''queue'')]"

definition example_prompt :: js where
  "example_prompt = new_prompt example_key example_id ''t'' (body_json example_body) 0"

lemma example_scope_key [simp]: "scopeKey example_url (Some example_scope) = Some example_key"
  by (simp add: scopeKey_def example_scope_def example_url_def example_key_def blank_def js_space_def)

lemma example_fence [simp]: "fence example_url (Some example_key) example_moment = Inr example_key"
  by (simp add: fence_def example_moment_def)

lemma example_uuid: "rx_test uuid_rx example_id"
  by code_simp

lemma example_valid: "validBody (mk_obj example_body)"
proof -
  have "fst ` set (fields_of (mk_obj example_body)) = {''requestId'', ''text'', ''delivery''}" by (auto simp: mk_obj_def example_body_def)
  then have keys: "list_all (\<lambda>k. k \<in> {''requestId'', ''text'', ''delivery'', ''replyTo'', ''includeMeetingImages''}) (map fst (fields_of (mk_obj example_body)))"
    by (simp add: list_all_iff)
  show ?thesis unfolding validBody_def using example_uuid keys
    by (simp add: example_body_def uuid_value_def nonblank_def js_trim_def js_space_def)
qed

lemma example_parse: "json_parse (body_json example_body) = Some (mk_obj example_body)"
  unfolding body_json_def
  by (subst json_parse_ordered) (auto simp: example_body_def)

lemma example_stored: "validStored example_key example_prompt"
  using example_uuid example_valid example_parse
  by (simp add: validStored_def example_prompt_def new_prompt_def uuid_value_def nonempty_value_def is_finite_def validOutcome_def outcome_js_def
      short_value_def example_body_def)

lemma esc_length: "length (esc c) \<le> 6"
  by (simp add: esc_def Let_def)

lemma quoted_length: "length (quoted s) \<le> 6 * length s + 2"
proof -
  have "length (concat (map esc s)) \<le> 6 * length s"
    by (induction s) (use esc_length in \<open>auto intro: add_mono\<close>)
  then show ?thesis by (simp add: quoted_def)
qed

lemma object_length: "length (json_text (JObj fs)) \<le> 2 + sum_list (map (\<lambda>p. 6 * length (fst p) + 4 + length (json_text (snd p))) fs)"
proof -
  have field: "length (quoted k) \<le> 2 + 6 * length k" for k using quoted_length[of k] by simp
  have rest: "length (concat (map ((\<lambda>y. CHR '','' # y) \<circ> (\<lambda>p. quoted (fst p) @ CHR '':'' # json_text (snd p))) fs))
      \<le> sum_list (map (\<lambda>p. 6 * length (fst p) + 4 + length (json_text (snd p))) fs)" for fs :: "(string \<times> js) list"
  proof (induction fs)
    case (Cons p fs)
    then show ?case using field[of "fst p"] by simp
  qed simp
  show ?thesis
  proof (cases fs)
    case (Cons p ps)
    then show ?thesis using field[of "fst p"] rest[of ps] by simp
  qed simp
qed

lemma example_small: "reservedBytes example_prompt \<le> outbox_bytes"
proof -
  have body: "length (body_json example_body) \<le> 2000"
  proof -
    have parts: "body_json example_body = json_text (JObj example_body)"
      by (simp add: body_json_def example_body_def ordered_text_obj)
    show ?thesis unfolding parts using object_length[of example_body] quoted_length[of example_id] quoted_length[of "''x''"] quoted_length[of "''queue''"]
      by (simp add: example_body_def example_id_def)
  qed
  have key: "length example_key \<le> 100"
    using quoted_length[of "''p''"] quoted_length[of "''e''"] quoted_length[of "''h''"] by (simp add: example_key_def)
  have fields: "oput ''outcome'' JNull (fields_of example_prompt) = [(''bodyJson'', JStr (body_json example_body)), (''createdAt'', JNum (NInt 0)),
     (''key'', JStr (prompt_key example_key example_id)), (''outcome'', JNull), (''requestId'', JStr example_id), (''scope'', JStr example_key), (''sessionId'', JStr ''t'')]"
    by (simp add: example_prompt_def new_prompt_def mk_obj_def mk_fields_def)
  have zero: "length (nat_text 0) = 1" by (subst nat_text.simps) simp
  have "length (json_text (JObj (oput ''outcome'' JNull (fields_of example_prompt)))) \<le> 20000"
    using object_length[of "oput ''outcome'' JNull (fields_of example_prompt)"] quoted_length[of "body_json example_body"]
      quoted_length[of "prompt_key example_key example_id"] quoted_length[of example_id] quoted_length[of example_key] quoted_length[of "''t''"] body key
    unfolding fields by (simp add: zero prompt_key_def example_id_def int_text_def)
  then show ?thesis
    using utf8_small[of "json_text (JObj (oput ''outcome'' JNull (fields_of example_prompt)))"]
    by (simp add: reservedBytes_def retained_message_bytes_def outbox_bytes_def)
qed

lemma example_enqueue: "enqueue example_url (Some example_key) example_world ''t'' example_body 0 [] = (Inr (publicEntry example_prompt), [(prompt_key example_key example_id, example_prompt)])"
proof -
  have "reservedBytes (new_prompt example_key example_id ''t'' (body_json example_body) 0) \<le> outbox_bytes" using example_small by (simp add: example_prompt_def)
  moreover have "js_get (mk_obj example_body) ''requestId'' = JStr example_id" by (simp add: example_body_def)
  moreover have "\<not> blank ''t''" by (simp add: blank_def js_space_def)
  ultimately show ?thesis
    by (simp add: enqueue_def example_valid example_parse transact_def tx_action_def tx_commit_def save_prompt_def scope_rows_def find_prompt_def outbox_entries_def Let_def
        example_world_def example_prompt_def)
qed

definition example_rows :: rows where
  "example_rows = [(prompt_key example_key example_id, example_prompt)]"

definition example_answer :: js where
  "example_answer = mk_obj [(''accepted'', JBool True), (''workId'', JStr ''w''), (''delivery'', JStr ''queue'')]"

definition example_done :: js where
  "example_done = JObj (oput ''outcome'' (outcome_js (Accepted ''w'')) (fields_of example_prompt))"

lemma example_scoped: "scope_rows example_key example_rows = [example_prompt]" "find_prompt example_id [example_prompt] = Some example_prompt"
  by (simp_all add: scope_rows_def example_rows_def example_prompt_def new_prompt_def find_prompt_def)

lemma example_transact:
  "transact example_url (Some example_key) example_world action example_rows
   = tx_commit example_url (Some example_key) example_world (fst (action [example_prompt] example_key)) (snd (action [example_prompt] example_key)) example_rows"
  by (simp add: transact_def tx_action_def example_world_def example_scoped example_stored outbox_entries_def split_beta)

lemma example_load: "transact example_url (Some example_key) example_world (load_prompt example_id) example_rows = (Inr (publicEntry example_prompt), example_rows)"
  unfolding example_transact by (simp add: load_prompt_def example_scoped tx_commit_def example_world_def)

lemma example_reply: "reply_outcome (publicEntry example_prompt) (Response 200 example_answer) = Accepted ''w''"
  by (simp add: reply_outcome_def publicEntry_def example_prompt_def new_prompt_def classify_def example_answer_def nonempty_value_def short_value_def
      example_parse[unfolded example_body_def] example_body_def strictly_equal_def)

lemma example_save: "transact example_url (Some example_key) example_world (save_outcome example_id (Accepted ''w'')) example_rows
   = (Inr (publicEntry example_done), [(prompt_key example_key example_id, example_done)])"
proof -
  have "row_key example_done = prompt_key example_key example_id"
    using row_ok_put[OF new_prompt_ok(3)] unfolding example_done_def example_prompt_def row_ok_def by (metis fst_conv snd_conv)
  then show ?thesis unfolding example_transact
    by (simp add: save_outcome_def example_scoped tx_commit_def example_world_def Let_def example_done_def[symmetric] example_rows_def)
      (simp add: example_prompt_def)
qed

definition example_at :: "rows \<Rightarrow> (string \<times> flight) list \<Rightarrow> (string \<times> js) list \<Rightarrow> outbox" where
  "example_at t flights posts = \<lparr>ob_scope = Some example_key, ob_rows = t, ob_flights = flights, ob_interrupted = [], ob_disposed = False, ob_posts = posts\<rparr>"

lemma example_saved: "outbox_reachable example_url (example_at example_rows [] [])"
proof -
  have "new_outbox example_url example_scope = example_at [] [] []" by (simp add: new_outbox_def example_at_def)
  then have start: "outbox_reachable example_url (example_at [] [] [])" using ob_new[of example_url example_scope] by simp
  have "enqueue example_url (ob_scope (example_at [] [] [])) example_world ''t'' example_body 0 (ob_rows (example_at [] [] [])) = (Inr (publicEntry example_prompt), example_rows)"
    using example_enqueue by (simp add: example_at_def example_rows_def)
  from ob_next[OF start ob_enqueue[OF this]] show ?thesis by (simp add: example_at_def)
qed

lemma example_posted: "outbox_reachable example_url (example_at example_rows [(example_id, Posted (publicEntry example_prompt))] [(example_id, publicEntry example_prompt)])"
proof -
  have "outbox_reachable example_url (example_at example_rows [(example_id, Loading)] [])"
    using ob_next[OF example_saved ob_submit[of example_url _ example_id]] by (simp add: submit_def example_at_def map_put_def)
  moreover have "outbox_step example_url (example_at example_rows [(example_id, Loading)] []) (example_at example_rows [(example_id, Sending (publicEntry example_prompt))] [])"
    using ob_load[of "example_at example_rows [(example_id, Loading)] []" example_id example_url example_world "Inr (publicEntry example_prompt)" example_rows
        "Inr (Some example_scope)" "publicEntry example_prompt"] example_load example_fence
    by (simp add: example_at_def map_put_def deliver_ready_def example_moment_def is_pending_def outcome_kind_def publicEntry_def example_prompt_def new_prompt_def outcome_js_def)
  ultimately have "outbox_reachable example_url (example_at example_rows [(example_id, Sending (publicEntry example_prompt))] [])" by (rule ob_next)
  from ob_next[OF this ob_post[of _ example_id "publicEntry example_prompt"]] show ?thesis by (simp add: example_at_def map_put_def)
qed

lemma example_saving: "outbox_reachable example_url (example_at example_rows [(example_id, Saving (Accepted ''w''))] [(example_id, publicEntry example_prompt)])"
  using ob_next[OF example_posted ob_reply[of _ example_id "publicEntry example_prompt" example_url "Response 200 example_answer"]]
  by (simp add: example_at_def map_put_def example_reply)

lemma example_save_step: "outbox_step example_url (example_at example_rows [(example_id, Saving (Accepted ''w''))] [(example_id, publicEntry example_prompt)])
   (example_at [(prompt_key example_key example_id, example_done)] [] [(example_id, publicEntry example_prompt)])"
  using ob_save[of "example_at example_rows [(example_id, Saving (Accepted ''w''))] [(example_id, publicEntry example_prompt)]" example_id "Accepted ''w''" example_url example_world]
    example_save by (simp add: example_at_def delivered_def map_del_def)

lemma example_settled: "outbox_reachable example_url (example_at [(prompt_key example_key example_id, example_done)] [] [(example_id, publicEntry example_prompt)])"
  using example_saving example_save_step by (rule ob_next)


lemma saved_prompt_kept_witness: "js_get example_done ''bodyJson'' = js_get example_prompt ''bodyJson''"
  using saved_prompt_kept[OF example_saving example_save_step, of "prompt_key example_key example_id" example_prompt example_done]
  by (simp add: example_at_def example_rows_def)

lemma outbox_limits_witness:
  "\<exists>key rid. example_rows = oput (prompt_key key rid) (new_prompt key rid ''t'' (body_json example_body) 0) []
    \<and> length (scope_rows key example_rows) \<le> outbox_entries \<and> sum_list (map reservedBytes (scope_rows key example_rows)) \<le> outbox_bytes"
  using outbox_limits[OF example_enqueue] by (auto simp: example_rows_def)

end
