(* ===== verification/Person_Settings.thy ===== *)
theory Person_Settings
  imports Json_Parse
begin

text \<open>
  A person's settings and the projection of their timezone that other processes read
  (\<open>packages/orchestrator/src/person-settings-contract.ts\<close>, \<open>person-settings.ts\<close>, \<open>person-timezone.ts\<close>).
  The file system is a map from paths to nodes; a list says which of the coming operations fail, so that a
  failure (or the end of the process) at any point is covered. Canonical timezone names and the parsing of
  dates are the platform's. A nested object is written with its fields in key order.
\<close>

section \<open>The contract\<close>

datatype settings_code = Code_invalid | Code_unavailable | Code_forbidden | Code_unknown_setting | Code_owner_managed

type_synonym 'a settings_result = "(settings_code \<times> string) + 'a"

record person_timezone =
  pt_zone :: string
  pt_source :: string
  pt_observed :: string

record person_settings =
  ps_timezone :: "person_timezone option"
  ps_collapse :: "bool option"

text \<open>The platform: the canonical name of a timezone, and whether a date parses.\<close>

record platform =
  pf_resolve :: "string \<Rightarrow> string option"
  pf_date :: "string \<Rightarrow> bool"

definition signed :: "string \<Rightarrow> bool" where
  "signed s = (case s of [] \<Rightarrow> False | c # _ \<Rightarrow> c = CHR ''+'' \<or> c = CHR ''-'')"

definition parseTimezone :: "platform \<Rightarrow> js \<Rightarrow> string \<Rightarrow> person_timezone settings_result" where
  "parseTimezone pf v observedAt =
     (let zone = js_get v ''zone''; source = js_get v ''source'' in
      if \<not> is_object v \<or> \<not> nonblank zone \<or> signed (str_of zone) \<or> source \<notin> {JStr ''configured'', JStr ''client-observed''}
      then Inl (Code_invalid, ''Choose an IANA timezone and its configured or client-observed provenance'')
      else if \<not> pf_date pf observedAt then Inl (Code_invalid, ''Timezone observation needs a valid timestamp'')
      else (case pf_resolve pf (str_of zone) of None \<Rightarrow> Inl (Code_invalid, ''Unknown IANA timezone'')
        | Some canonical \<Rightarrow> Inr \<lparr>pt_zone = canonical, pt_source = str_of source, pt_observed = observedAt\<rparr>))"

definition only_keys :: "string list \<Rightarrow> js \<Rightarrow> bool" where
  "only_keys ks v = list_all (\<lambda>k. k \<in> set ks) (map fst (fields_of v))"

definition parsePersonSettings :: "platform \<Rightarrow> js \<Rightarrow> person_settings settings_result" where
  "parsePersonSettings pf v =
     (let collapse = js_get v ''autoCollapse''; tz = js_get v ''timezone'' in
      if \<not> is_object v \<or> js_get v ''version'' \<noteq> JNum (NInt 1) \<or> \<not> js_has v ''timezone'' \<or> \<not> js_has v ''autoCollapse''
        \<or> \<not> only_keys [''version'', ''timezone'', ''autoCollapse''] v then Inl (Code_invalid, ''Invalid person settings schema'')
      else if collapse \<noteq> JNull \<and> \<not> is_boolean collapse then Inl (Code_invalid, ''Auto-collapse must be set to a boolean or explicitly unset'')
      else rbind (if tz = JNull then Inr None
          else if \<not> is_object tz \<or> \<not> is_string (js_get tz ''observedAt'') then Inl (Code_invalid, ''Timezone provenance is missing'')
          else rbind (parseTimezone pf tz (str_of (js_get tz ''observedAt''))) (\<lambda>t. Inr (Some t)))
        (\<lambda>t. Inr \<lparr>ps_timezone = t, ps_collapse = (if collapse = JNull then None else Some (collapse = JBool True))\<rparr>))"

definition parseTimezoneMetadata :: "platform \<Rightarrow> js \<Rightarrow> person_timezone option settings_result" where
  "parseTimezoneMetadata pf v =
     (if v = JNull then Inr None
      else if \<not> is_object v \<or> \<not> is_string (js_get v ''observedAt'') \<or> \<not> only_keys [''zone'', ''source'', ''observedAt''] v
      then Inl (Code_invalid, ''Invalid timezone provenance'')
      else rbind (parseTimezone pf v (str_of (js_get v ''observedAt''))) (\<lambda>t. Inr (Some t)))"

section \<open>Files\<close>

datatype node = Regular string | Other

text \<open>The coming operations: a message where one fails; all succeed after the list.\<close>

record disk =
  dk_files :: "string \<Rightarrow> node option"
  dk_readable :: "string \<Rightarrow> bool"
  dk_faults :: "string option list"

definition next_fault :: "disk \<Rightarrow> string option \<times> disk" where
  "next_fault d = (case dk_faults d of [] \<Rightarrow> (None, d) | f # fs \<Rightarrow> (f, d\<lparr>dk_faults := fs\<rparr>))"

datatype file_read = Missing | Read_failed string | Not_regular | Contents string

definition read_file :: "string \<Rightarrow> disk \<Rightarrow> file_read \<times> disk" where
  "read_file path d = (let (f, d1) = next_fault d in
     (case f of Some m \<Rightarrow> Read_failed m
      | None \<Rightarrow> (case dk_files d1 path of None \<Rightarrow> Missing | Some Other \<Rightarrow> Not_regular | Some (Regular s) \<Rightarrow> Contents s), d1))"

fun do_steps :: "nat \<Rightarrow> disk \<Rightarrow> string option \<times> disk" where
  "do_steps 0 d = (None, d)"
| "do_steps (Suc n) d = (let (f, d1) = next_fault d in case f of Some m \<Rightarrow> (Some m, d1) | None \<Rightarrow> do_steps n d1)"

text \<open>A file replaced through a temporary: prepare, write, rename. After a failure the temporary is removed,
  which may fail too: the message and that of the removal.\<close>

definition replace_file :: "string \<Rightarrow> string \<Rightarrow> disk \<Rightarrow> (string \<times> string option) option \<times> disk" where
  "replace_file path contents d =
     (let (f, d1) = do_steps 3 d in
      case f of None \<Rightarrow> (None, d1\<lparr>dk_files := (dk_files d1)(path \<mapsto> Regular contents)\<rparr>)
      | Some m \<Rightarrow> (let (cleanup, d2) = next_fault d1 in (Some (m, cleanup), d2)))"

section \<open>The projection of the timezone\<close>

definition tz_js :: "person_timezone option \<Rightarrow> js" where
  "tz_js t = (case t of None \<Rightarrow> JNull
     | Some z \<Rightarrow> mk_obj [(''zone'', JStr (pt_zone z)), (''source'', JStr (pt_source z)), (''observedAt'', JStr (pt_observed z))])"

datatype projection = Ready "person_timezone option" | Updating

definition projection_fields :: "projection \<Rightarrow> (string \<times> js) list" where
  "projection_fields p = (case p of Updating \<Rightarrow> [(''version'', JNum (NInt 1)), (''state'', JStr ''updating'')]
     | Ready t \<Rightarrow> [(''version'', JNum (NInt 1)), (''state'', JStr ''ready''), (''timezone'', tz_js t)])"

definition line_end_text :: string where
  "line_end_text = [CHR 0x0A]"

definition isAbsolute :: "string \<Rightarrow> bool" where
  "isAbsolute path = starts_with path ''/''"

definition parse_projection :: "platform \<Rightarrow> string \<Rightarrow> person_timezone option settings_result" where
  "parse_projection pf s =
     (if utf8_length s > 4096 then Inl (Code_invalid, ''Invalid timezone projection file'')
      else case json_parse s of None \<Rightarrow> Inl (Code_invalid, ''Invalid timezone projection JSON'')
      | Some p \<Rightarrow>
          if \<not> is_object p \<or> js_get p ''version'' \<noteq> JNum (NInt 1) then Inl (Code_invalid, ''Invalid timezone projection schema'')
          else if js_get p ''state'' = JStr ''updating'' \<and> only_keys [''version'', ''state''] p
          then Inl (Code_unavailable, ''Timezone authority is updating; retry after owner reconciliation'')
          else if js_get p ''state'' \<noteq> JStr ''ready'' \<or> \<not> js_has p ''timezone'' \<or> \<not> only_keys [''version'', ''state'', ''timezone''] p
          then Inl (Code_invalid, ''Invalid timezone projection state'')
          else parseTimezoneMetadata pf (js_get p ''timezone''))"

definition readTimezoneProjection :: "platform \<Rightarrow> string \<Rightarrow> disk \<Rightarrow> person_timezone option settings_result \<times> disk" where
  "readTimezoneProjection pf path d =
     (if \<not> isAbsolute path then (Inl (Code_invalid, ''Timezone projection path must be absolute''), d)
      else let (r, d1) = read_file path d; failed = (\<lambda>m. Inl (Code_unavailable, ''Cannot read declared timezone projection: '' @ m)) in
        (case r of Missing \<Rightarrow> failed ''ENOENT'' | Read_failed m \<Rightarrow> failed m | Not_regular \<Rightarrow> Inl (Code_invalid, ''Invalid timezone projection file'')
         | Contents s \<Rightarrow> parse_projection pf s, d1))"

definition writeTimezoneProjection :: "string \<Rightarrow> projection \<Rightarrow> disk \<Rightarrow> unit settings_result \<times> disk" where
  "writeTimezoneProjection path p d =
     (if \<not> isAbsolute path then (Inl (Code_invalid, ''Timezone projection path must be absolute''), d)
      else let (r, d1) = replace_file path (ordered_text (projection_fields p) @ line_end_text) d in
        (case r of None \<Rightarrow> Inr ()
         | Some (m, Some _) \<Rightarrow> Inl (Code_unavailable, ''Timezone projection write and temporary-file cleanup failed'')
         | Some (m, None) \<Rightarrow> Inl (Code_unavailable, ''Cannot publish timezone projection: '' @ m), d1))"

type_synonym environment = "string \<Rightarrow> string option"

definition deliveryTimezone :: "platform \<Rightarrow> environment \<Rightarrow> disk \<Rightarrow> person_timezone option settings_result \<times> disk" where
  "deliveryTimezone pf env d = (case env ''PI_MODEL_DELIVERY_TIMEZONE'' of
     Some declared \<Rightarrow> (case json_parse declared of None \<Rightarrow> Inl (Code_invalid, ''Invalid authenticated delivery timezone metadata'')
        | Some v \<Rightarrow> parseTimezoneMetadata pf v, d)
   | None \<Rightarrow> (case env ''PI_PERSON_TIMEZONE_FILE'' of Some path \<Rightarrow> readTimezoneProjection pf path d
        | None \<Rightarrow> (Inl (Code_unavailable, ''No authoritative timezone projection or authenticated timezone metadata was declared''), d)))"

section \<open>The settings of their owner\<close>

definition personSettingsPath :: "string \<Rightarrow> string" where
  "personSettingsPath dataDir = dataDir @ ''/settings.json''"

definition no_settings :: person_settings where
  "no_settings = \<lparr>ps_timezone = None, ps_collapse = None\<rparr>"

definition readPersonSettings :: "platform \<Rightarrow> string \<Rightarrow> disk \<Rightarrow> person_settings settings_result \<times> disk" where
  "readPersonSettings pf dataDir d =
     (let (r, d1) = read_file (personSettingsPath dataDir) d; failed = (\<lambda>m. Inl (Code_unavailable, ''Cannot read person settings: '' @ m)) in
      (case r of
         Missing \<Rightarrow> if dk_readable d1 dataDir then Inr no_settings else Inl (Code_unavailable, ''Owning settings directory is not accessible'')
       | Read_failed m \<Rightarrow> failed m
       | Not_regular \<Rightarrow> failed ''EISDIR''
       | Contents s \<Rightarrow> (case json_parse s of None \<Rightarrow> failed ''SyntaxError'' | Some v \<Rightarrow> parsePersonSettings pf v), d1))"

definition readPersonTimezone :: "platform \<Rightarrow> string \<Rightarrow> disk \<Rightarrow> person_timezone option settings_result \<times> disk" where
  "readPersonTimezone pf dataDir d = (let (r, d1) = readPersonSettings pf dataDir d in (rbind r (\<lambda>s. Inr (ps_timezone s)), d1))"

definition reconcilePersonTimezoneProjection :: "platform \<Rightarrow> string \<Rightarrow> string \<Rightarrow> disk \<Rightarrow> person_timezone option settings_result \<times> disk" where
  "reconcilePersonTimezoneProjection pf dataDir path d =
     (let (r, d1) = readPersonTimezone pf dataDir d in
      case r of Inl e \<Rightarrow> (Inl e, d1)
      | Inr t \<Rightarrow> (let (published, d2) = writeTimezoneProjection path (Ready t) d1 in (rbind published (\<lambda>_. Inr t), d2)))"

definition owner_fields :: "person_settings \<Rightarrow> (string \<times> js) list" where
  "owner_fields s = [(''version'', JNum (NInt 1)), (''timezone'', tz_js (ps_timezone s)),
     (''autoCollapse'', case ps_collapse s of None \<Rightarrow> JNull | Some b \<Rightarrow> JBool b)]"

datatype setting_id = Timezone_setting | Collapse_setting | Unknown_setting

text \<open>The write itself: the projection says it is being updated, the settings are replaced, the projection is
  published.\<close>

definition save_settings :: "string \<Rightarrow> string option \<Rightarrow> person_settings \<Rightarrow> disk \<Rightarrow> person_settings settings_result \<times> disk" where
  "save_settings dataDir projection next_settings d =
     (case (case projection of None \<Rightarrow> (Inr (), d) | Some path \<Rightarrow> writeTimezoneProjection path Updating d) of
        (Inl e, d1) \<Rightarrow> (Inl e, d1)
      | (Inr _, d1) \<Rightarrow>
          (case replace_file (personSettingsPath dataDir) (ordered_text (owner_fields next_settings) @ line_end_text) d1 of
             (Some (m, cleanup), d2) \<Rightarrow> (Inl (Code_unavailable, ''Cannot save person settings: '' @ m
                @ (case cleanup of None \<Rightarrow> [] | Some failure \<Rightarrow> ''; temporary file cleanup failed: '' @ failure)), d2)
           | (None, d2) \<Rightarrow>
               (case (case projection of None \<Rightarrow> (Inr (), d2) | Some path \<Rightarrow> writeTimezoneProjection path (Ready (ps_timezone next_settings)) d2) of
                  (Inl e, d3) \<Rightarrow> (Inl e, d3) | (Inr _, d3) \<Rightarrow> (Inr next_settings, d3))))"

definition writePersonSetting :: "platform \<Rightarrow> environment \<Rightarrow> string \<Rightarrow> setting_id \<Rightarrow> js \<Rightarrow> string \<Rightarrow> disk \<Rightarrow> person_settings settings_result \<times> disk" where
  "writePersonSetting pf env dataDir setting v now d =
     (let projection = (if setting = Timezone_setting then (case env ''PI_PERSON_TIMEZONE_FILE'' of None \<Rightarrow> None | Some p \<Rightarrow> if p = [] then None else Some p) else None);
          owner = (case env ''PI_PERSON_SETTINGS_DATA'' of None \<Rightarrow> env ''PI_REMOTE_DATA'' | Some p \<Rightarrow> Some p) in
      if projection \<noteq> None \<and> owner \<noteq> Some dataDir then (Inl (Code_forbidden, ''Timezone projection writes require the owning settings directory''), d)
      else case readPersonSettings pf dataDir d of
        (Inl e, d1) \<Rightarrow> (Inl e, d1)
      | (Inr current, d1) \<Rightarrow>
          (case setting of
             Unknown_setting \<Rightarrow> (Inl (Code_unknown_setting, ''Unknown personal setting''), d1)
           | Collapse_setting \<Rightarrow>
               if v \<noteq> JNull \<and> \<not> is_boolean v then (Inl (Code_invalid, ''Auto-collapse must be a boolean or explicitly unset''), d1)
               else save_settings dataDir projection (current\<lparr>ps_collapse := if v = JNull then None else Some (v = JBool True)\<rparr>) d1
           | Timezone_setting \<Rightarrow>
               if v = JNull then save_settings dataDir projection (current\<lparr>ps_timezone := None\<rparr>) d1
               else (case parseTimezone pf v now of
                 Inl e \<Rightarrow> (Inl e, d1)
               | Inr t \<Rightarrow>
                   if pt_source t = ''client-observed'' \<and> map_option pt_source (ps_timezone current) = Some ''configured''
                   then (case projection of None \<Rightarrow> (Inr current, d1)
                     | Some path \<Rightarrow> (case reconcilePersonTimezoneProjection pf dataDir path d1 of (Inl e, d2) \<Rightarrow> (Inl e, d2) | (Inr _, d2) \<Rightarrow> (Inr current, d2)))
                   else save_settings dataDir projection (current\<lparr>ps_timezone := Some t\<rparr>) d1)))"

section \<open>What is written is read back\<close>

lemma parse_line:
  assumes "\<And>p. p \<in> set fs \<Longrightarrow> wf_js (snd p) \<and> decimals (snd p)" "distinct (map fst fs)"
  shows "json_parse (ordered_text fs @ line_end_text) = Some (mk_obj fs)"
proof -
  have "p_value (2 * length (ordered_text fs @ line_end_text) + 2) (ordered_text fs @ line_end_text) = Some (JObj (mk_fields (rev fs)), line_end_text)"
    using assms(1) by (intro p_value_ordered reads_wf) auto
  then show ?thesis using assms(2) by (simp add: json_parse_def line_end_text_def skip_ws_def json_ws_def mk_fields_rev mk_obj_def)
qed

lemma tz_js_wf: "wf_js (tz_js t) \<and> decimals (tz_js t)"
  by (cases t) (auto simp: tz_js_def mk_obj_def mk_fields_def)

definition tz_again :: "platform \<Rightarrow> person_timezone option \<Rightarrow> person_timezone option settings_result" where
  "tz_again pf t = (case t of None \<Rightarrow> Inr None | Some z \<Rightarrow> rbind (parseTimezone pf (tz_js t) (pt_observed z)) (\<lambda>u. Inr (Some u)))"

lemma only_keys_obj: "only_keys ks (mk_obj fs) = list_all (\<lambda>p. fst p \<in> set ks) fs"
proof -
  have "fst ` set (fields_of (mk_obj fs)) = fst ` set fs" by (simp add: mk_obj_def)
  then have "(\<forall>k\<in>fst ` set (fields_of (mk_obj fs)). k \<in> set ks) = (\<forall>k\<in>fst ` set fs. k \<in> set ks)" by metis
  then show ?thesis by (simp add: list_all_iff only_keys_def)
qed

lemma read_metadata: "parseTimezoneMetadata pf (tz_js t) = tz_again pf t"
proof (cases t)
  case (Some z)
  then show ?thesis by (simp add: parseTimezoneMetadata_def tz_again_def tz_js_def only_keys_obj) (simp add: mk_obj_def)
qed (simp add: parseTimezoneMetadata_def tz_again_def tz_js_def)

lemma tz_shape: "tz_again pf t = (if tz_js t = JNull then Inr None
     else rbind (parseTimezone pf (tz_js t) (str_of (js_get (tz_js t) ''observedAt''))) (\<lambda>t. Inr (Some t)))"
    "tz_js t = JNull \<or> is_object (tz_js t) \<and> is_string (js_get (tz_js t) ''observedAt'')"
proof -
  have object: "mk_obj fs \<noteq> JNull" for fs by (simp add: mk_obj_def)
  show "tz_again pf t = (if tz_js t = JNull then Inr None
     else rbind (parseTimezone pf (tz_js t) (str_of (js_get (tz_js t) ''observedAt''))) (\<lambda>t. Inr (Some t)))"
    by (cases t) (simp_all add: tz_again_def tz_js_def object)
  show "tz_js t = JNull \<or> is_object (tz_js t) \<and> is_string (js_get (tz_js t) ''observedAt'')"
    by (cases t) (simp_all add: tz_js_def)
qed

lemma read_settings: "parsePersonSettings pf (mk_obj (owner_fields s)) = rbind (tz_again pf (ps_timezone s)) (\<lambda>t. Inr \<lparr>ps_timezone = t, ps_collapse = ps_collapse s\<rparr>)"
proof -
  have keys: "only_keys [''version'', ''timezone'', ''autoCollapse''] (mk_obj (owner_fields s))"
    by (simp add: only_keys_obj owner_fields_def)
  have gets: "js_get (mk_obj (owner_fields s)) ''timezone'' = tz_js (ps_timezone s)" "js_get (mk_obj (owner_fields s)) ''version'' = JNum (NInt 1)"
    "js_get (mk_obj (owner_fields s)) ''autoCollapse'' = (case ps_collapse s of None \<Rightarrow> JNull | Some b \<Rightarrow> JBool b)"
    "js_has (mk_obj (owner_fields s)) ''timezone''" "js_has (mk_obj (owner_fields s)) ''autoCollapse''"
    by (simp_all add: owner_fields_def)
  have tz: "(if tz_js (ps_timezone s) = JNull then Inr None
      else if \<not> is_object (tz_js (ps_timezone s)) \<or> \<not> is_string (js_get (tz_js (ps_timezone s)) ''observedAt'') then Inl (Code_invalid, ''Timezone provenance is missing'')
      else rbind (parseTimezone pf (tz_js (ps_timezone s)) (str_of (js_get (tz_js (ps_timezone s)) ''observedAt''))) (\<lambda>t. Inr (Some t)))
     = tz_again pf (ps_timezone s)"
    using tz_shape(1)[of pf "ps_timezone s"] tz_shape(2)[of "ps_timezone s"] by auto
  show ?thesis
    unfolding parsePersonSettings_def Let_def gets tz using keys gets(4,5)
    by (cases "ps_collapse s") simp_all
qed

lemma parse_settings_line: "json_parse (ordered_text (owner_fields s) @ line_end_text) = Some (mk_obj (owner_fields s))"
  by (rule parse_line) (auto simp: owner_fields_def tz_js_wf split: option.splits)

lemma parse_ready: "parse_projection pf (ordered_text (projection_fields (Ready t)) @ line_end_text) = tz_again pf t
    \<or> (\<exists>e. parse_projection pf (ordered_text (projection_fields (Ready t)) @ line_end_text) = Inl e)"
proof -
  have line: "json_parse (ordered_text (projection_fields (Ready t)) @ line_end_text) = Some (mk_obj (projection_fields (Ready t)))"
    by (rule parse_line) (auto simp: projection_fields_def tz_js_wf)
  have keys: "only_keys [''version'', ''state'', ''timezone''] (mk_obj (projection_fields (Ready t)))"
    by (simp add: only_keys_obj projection_fields_def)
  show ?thesis unfolding parse_projection_def line option.case using keys by (simp add: projection_fields_def read_metadata)
qed

lemma parse_updating: "\<exists>e. parse_projection pf (ordered_text (projection_fields Updating) @ line_end_text) = Inl e"
proof -
  have line: "json_parse (ordered_text (projection_fields Updating) @ line_end_text) = Some (mk_obj (projection_fields Updating))"
    by (rule parse_line) (auto simp: projection_fields_def)
  show ?thesis unfolding parse_projection_def line option.case by (simp add: projection_fields_def)
qed

section \<open>What the disk says\<close>

text \<open>The files alone, read without failures.\<close>

definition files_only :: "disk \<Rightarrow> disk" where
  "files_only d = d\<lparr>dk_faults := []\<rparr>"

definition owned_settings :: "platform \<Rightarrow> string \<Rightarrow> disk \<Rightarrow> person_settings settings_result" where
  "owned_settings pf dataDir d = fst (readPersonSettings pf dataDir (files_only d))"

definition owned_timezone :: "platform \<Rightarrow> string \<Rightarrow> disk \<Rightarrow> person_timezone option settings_result" where
  "owned_timezone pf dataDir d = fst (readPersonTimezone pf dataDir (files_only d))"

definition published_timezone :: "platform \<Rightarrow> string \<Rightarrow> disk \<Rightarrow> person_timezone option settings_result" where
  "published_timezone pf path d = fst (readTimezoneProjection pf path (files_only d))"

text \<open>A projection that can be read says what the settings say.\<close>

definition projection_true :: "platform \<Rightarrow> string \<Rightarrow> string \<Rightarrow> disk \<Rightarrow> bool" where
  "projection_true pf dataDir path d = (case published_timezone pf path d of Inl _ \<Rightarrow> True | Inr t \<Rightarrow> owned_timezone pf dataDir d = Inr t)"

lemma owned_of: "owned_timezone pf dataDir d = rbind (owned_settings pf dataDir d) (\<lambda>s. Inr (ps_timezone s))"
  by (simp add: owned_timezone_def owned_settings_def readPersonTimezone_def split_beta Let_def)

definition same_files :: "disk \<Rightarrow> disk \<Rightarrow> bool" where
  "same_files d d' = (dk_files d' = dk_files d \<and> dk_readable d' = dk_readable d)"

lemma same_filesI: "same_files d d' \<Longrightarrow> files_only d' = files_only d"
  by (simp add: same_files_def files_only_def)

lemma same_views:
  assumes "same_files d d'"
  shows "owned_settings pf dataDir d' = owned_settings pf dataDir d" "owned_timezone pf dataDir d' = owned_timezone pf dataDir d"
    "published_timezone pf path d' = published_timezone pf path d" "projection_true pf dataDir path d' = projection_true pf dataDir path d"
proof -
  show "owned_settings pf dataDir d' = owned_settings pf dataDir d" using same_filesI[OF assms] by (simp add: owned_settings_def)
  show owned: "owned_timezone pf dataDir d' = owned_timezone pf dataDir d" using same_filesI[OF assms] by (simp add: owned_timezone_def)
  show published: "published_timezone pf path d' = published_timezone pf path d" using same_filesI[OF assms] by (simp add: published_timezone_def)
  show "projection_true pf dataDir path d' = projection_true pf dataDir path d" unfolding projection_true_def owned published ..
qed

lemma same_files_refl [simp]: "same_files d d"
  by (simp add: same_files_def)

lemma same_files_trans: "same_files d e \<Longrightarrow> same_files e f \<Longrightarrow> same_files d f"
  by (simp add: same_files_def)

lemma next_fault_same: "next_fault d = (f, d') \<Longrightarrow> same_files d d'"
  by (auto simp: next_fault_def same_files_def split: list.splits)

lemma do_steps_same: "do_steps n d = (f, d') \<Longrightarrow> same_files d d'"
  by (induction n arbitrary: d) (auto split: prod.splits option.splits dest: next_fault_same same_files_trans)

lemma read_file_same: "read_file path d = (r, d') \<Longrightarrow> same_files d d'"
  by (auto simp: read_file_def split: prod.splits dest: next_fault_same)

lemma read_settings_same: "readPersonSettings pf dataDir d = (r, d') \<Longrightarrow> same_files d d'"
  by (auto simp: readPersonSettings_def Let_def split: prod.splits dest: read_file_same)

text \<open>A read that succeeds says what the files say.\<close>

lemma read_settings_true:
  assumes "readPersonSettings pf dataDir d = (Inr s, d')"
  shows "owned_settings pf dataDir d = Inr s"
proof -
  obtain f d1 where f: "next_fault d = (f, d1)" by fastforce
  have "f = None" using assms f by (cases f) (simp_all add: readPersonSettings_def read_file_def)
  have files: "dk_files d1 = dk_files d" "dk_readable d1 = dk_readable d" using next_fault_same[OF f] by (simp_all add: same_files_def)
  have none: "next_fault (files_only d) = (None, files_only d)" by (simp add: next_fault_def files_only_def)
  have raw: "dk_files (files_only d) = dk_files d" "dk_readable (files_only d) = dk_readable d" by (simp_all add: files_only_def)
  have "fst (readPersonSettings pf dataDir d) = fst (readPersonSettings pf dataDir (files_only d))"
    unfolding readPersonSettings_def read_file_def f none \<open>f = None\<close> Let_def by (simp add: files raw split_beta)
  then show ?thesis using assms by (simp add: owned_settings_def)
qed

definition written :: "string \<Rightarrow> string \<Rightarrow> disk \<Rightarrow> disk \<Rightarrow> bool" where
  "written path contents d d' = (dk_files d' = (dk_files d)(path \<mapsto> Regular contents) \<and> dk_readable d' = dk_readable d)"

lemma replace_cases:
  assumes "replace_file path contents d = (r, d')"
  shows "if r = None then written path contents d d' else same_files d d'"
proof -
  obtain f d1 where f: "do_steps 3 d = (f, d1)" by fastforce
  note same = do_steps_same[OF f]
  show ?thesis
  proof (cases f)
    case None
    then show ?thesis using assms f same by (auto simp: replace_file_def written_def same_files_def)
  next
    case (Some m)
    obtain c d2 where "next_fault d1 = (c, d2)" by fastforce
    then show ?thesis using assms f Some same next_fault_same[of d1 c d2] by (auto simp: replace_file_def intro: same_files_trans)
  qed
qed

lemma write_projection_cases:
  assumes "writeTimezoneProjection path p d = (r, d')"
  shows "if r = Inr () then written path (ordered_text (projection_fields p) @ line_end_text) d d' else same_files d d'"
  using assms replace_cases[of path _ d] unfolding writeTimezoneProjection_def Let_def
  by (auto split: if_splits prod.splits option.splits)

lemma published_written: "written path contents d d' \<Longrightarrow> published_timezone pf path d' = (if isAbsolute path then parse_projection pf contents
    else Inl (Code_invalid, ''Timezone projection path must be absolute''))"
  by (simp add: published_timezone_def readTimezoneProjection_def read_file_def next_fault_def files_only_def written_def Let_def)

lemma owned_written: "written (personSettingsPath dataDir) (ordered_text (owner_fields s) @ line_end_text) d d' \<Longrightarrow>
    owned_settings pf dataDir d' = rbind (tz_again pf (ps_timezone s)) (\<lambda>t. Inr \<lparr>ps_timezone = t, ps_collapse = ps_collapse s\<rparr>)"
  by (simp add: owned_settings_def readPersonSettings_def read_file_def next_fault_def files_only_def written_def Let_def parse_settings_line read_settings)

lemma owned_other: "written path contents d d' \<Longrightarrow> path \<noteq> personSettingsPath dataDir \<Longrightarrow> owned_settings pf dataDir d' = owned_settings pf dataDir d"
  by (simp add: owned_settings_def readPersonSettings_def read_file_def next_fault_def files_only_def written_def Let_def)

lemma published_other: "written other contents d d' \<Longrightarrow> path \<noteq> other \<Longrightarrow> published_timezone pf path d' = published_timezone pf path d"
  by (simp add: published_timezone_def readTimezoneProjection_def read_file_def next_fault_def files_only_def written_def Let_def)

section \<open>No write leaves a false projection\<close>

text \<open>The platform's canonical names name themselves and are no offsets.\<close>

definition canonical_names :: "platform \<Rightarrow> bool" where
  "canonical_names pf = (\<forall>z c. pf_resolve pf z = Some c \<longrightarrow> pf_resolve pf c = Some c \<and> js_trim c \<noteq> [] \<and> \<not> signed c)"

lemma parse_again:
  assumes "canonical_names pf" "parseTimezone pf v observed = Inr t"
  shows "tz_again pf (Some t) = Inr (Some t)"
proof -
  let ?zone = "js_get v ''zone''" and ?source = "js_get v ''source''"
  have ok: "?source \<in> {JStr ''configured'', JStr ''client-observed''}" "pf_date pf observed" and resolved: "pf_resolve pf (str_of ?zone) = Some (pt_zone t)"
    and t: "t = \<lparr>pt_zone = pt_zone t, pt_source = str_of ?source, pt_observed = observed\<rparr>"
    using assms(2) unfolding parseTimezone_def Let_def by (auto split: if_splits option.splits)
  have zone: "pf_resolve pf (pt_zone t) = Some (pt_zone t)" "js_trim (pt_zone t) \<noteq> []" "\<not> signed (pt_zone t)"
    using assms(1) resolved unfolding canonical_names_def by blast+
  have source: "JStr (pt_source t) = ?source" and observed: "pt_observed t = observed" using ok(1) t by (metis insertE js_test_simps(21) person_timezone.select_convs(2) singletonD, metis person_timezone.select_convs(3))
  have reads: "js_get (tz_js (Some t)) ''zone'' = JStr (pt_zone t)" "js_get (tz_js (Some t)) ''source'' = JStr (pt_source t)" "is_object (tz_js (Some t))"
    by (simp_all add: tz_js_def)
  have "parseTimezone pf (tz_js (Some t)) observed = Inr t"
    unfolding parseTimezone_def Let_def reads source using ok zone by (simp add: reads nonblank_def source[symmetric] observed[symmetric])
  then show ?thesis by (simp add: tz_again_def observed)
qed

lemma owned_again:
  assumes "canonical_names pf" "owned_settings pf dataDir d = Inr s"
  shows "tz_again pf (ps_timezone s) = Inr (ps_timezone s)"
proof -
  obtain v where "s = no_settings \<or> parsePersonSettings pf v = Inr s"
    using assms(2) unfolding owned_settings_def readPersonSettings_def Let_def
    by (auto split: prod.splits file_read.splits option.splits if_splits)
  then show ?thesis
  proof
    assume "parsePersonSettings pf v = Inr s"
    then have "ps_timezone s = None \<or> (\<exists>w o' t. parseTimezone pf w o' = Inr t \<and> ps_timezone s = Some t)"
      unfolding parsePersonSettings_def Let_def by (auto simp: rbind_eq_Inr split: if_splits)
    then show ?thesis
    proof
      assume "\<exists>w o' t. parseTimezone pf w o' = Inr t \<and> ps_timezone s = Some t"
      then show ?thesis using parse_again[OF assms(1)] by metis
    qed (simp add: tz_again_def)
  qed (simp add: no_settings_def tz_again_def)
qed

text \<open>The write of new settings, with or without a projection.\<close>

lemma save_false_free:
  assumes names: "canonical_names pf" and apart: "path \<noteq> personSettingsPath dataDir"
    and start: "projection_true pf dataDir path d"
    and valid: "tz_again pf (ps_timezone next_settings) = Inr (ps_timezone next_settings)"
    and target: "projection = Some path \<or> projection = None \<and> owned_timezone pf dataDir d = Inr (ps_timezone next_settings)"
    and save: "save_settings dataDir projection next_settings d = (r, d')"
  shows "projection_true pf dataDir path d' \<and> (\<forall>s. r = Inr s \<longrightarrow> s = next_settings \<and> owned_settings pf dataDir d' = Inr s)"
proof -
  let ?text = "ordered_text (owner_fields next_settings) @ line_end_text"
  obtain f d1 where f: "(case projection of None \<Rightarrow> (Inr (), d) | Some path \<Rightarrow> writeTimezoneProjection path Updating d) = (f, d1)" by fastforce
  obtain g d2 where g: "replace_file (personSettingsPath dataDir) ?text d1 = (g, d2)" by fastforce
  obtain h d3 where h: "(case projection of None \<Rightarrow> (Inr (), d2) | Some path \<Rightarrow> writeTimezoneProjection path (Ready (ps_timezone next_settings)) d2) = (h, d3)" by fastforce
  have result: "(r, d') = (case f of Inl e \<Rightarrow> (Inl e, d1) | Inr _ \<Rightarrow> (case g of
      Some (m, cleanup) \<Rightarrow> (Inl (Code_unavailable, ''Cannot save person settings: '' @ m @ (case cleanup of None \<Rightarrow> [] | Some failure \<Rightarrow> ''; temporary file cleanup failed: '' @ failure)), d2)
    | None \<Rightarrow> (case h of Inl e \<Rightarrow> (Inl e, d3) | Inr _ \<Rightarrow> (Inr next_settings, d3))))"
    using save unfolding save_settings_def f prod.case g h by (simp split: sum.splits option.splits prod.splits)
  have owned_next: "owned_settings pf dataDir d2 = Inr next_settings" if "g = None"
    using replace_cases[OF g] that owned_written[of dataDir next_settings d1 d2 pf] valid by simp
  show ?thesis
  proof (cases projection)
    case None
    have d1: "d1 = d" "f = Inr ()" and d3: "d3 = d2" "h = Inr ()" using f h None by auto
    show ?thesis
    proof (cases g)
      case (Some p)
      then have "same_files d d'" "\<exists>e. r = Inl e" using replace_cases[OF g] result d1 by (auto split: prod.splits)
      then show ?thesis using same_views(4) start by auto
    next
      case no_fault: None
      then have w: "written (personSettingsPath dataDir) ?text d d2" using replace_cases[OF g] d1 by simp
      have "d' = d2" "r = Inr next_settings" using result d1 d3 no_fault by auto
      moreover have "published_timezone pf path d2 = published_timezone pf path d" using published_other[OF w] apart by simp
      moreover have "owned_timezone pf dataDir d2 = Inr (ps_timezone next_settings)" using owned_next[OF no_fault] by (simp add: owned_of)
      moreover have "owned_timezone pf dataDir d = Inr (ps_timezone next_settings)" using target None by simp
      ultimately show ?thesis using start owned_next[OF no_fault] by (auto simp: projection_true_def split: sum.splits)
    qed
  next
    case (Some p)
    then have p: "p = path" using target by simp
    have fence: "if f = Inr () then written path (ordered_text (projection_fields Updating) @ line_end_text) d d1 else same_files d d1"
      using f Some p by (intro write_projection_cases) simp
    show ?thesis
    proof (cases f)
      case (Inl e)
      then have "same_files d d'" "r = Inl e" using fence result by auto
      then show ?thesis using same_views(4) start by auto
    next
      case (Inr u)
      have w1: "written path (ordered_text (projection_fields Updating) @ line_end_text) d d1" using fence Inr by simp
      obtain e where hidden: "published_timezone pf path d1 = Inl e"
        using published_written[OF w1, of pf] parse_updating[of pf] by (cases "isAbsolute path") auto
      have "published_timezone pf path d2 = published_timezone pf path d1"
      proof (cases g)
        case None
        then show ?thesis using replace_cases[OF g] published_other apart by simp
      next
        case (Some q)
        then show ?thesis using replace_cases[OF g] same_views(3) by simp
      qed
      then have hidden2: "\<exists>e. published_timezone pf path d2 = Inl e" using hidden by simp
      show ?thesis
      proof (cases g)
        case (Some q)
        then have "d' = d2" "\<exists>e. r = Inl e" using result Inr by (auto split: prod.splits)
        then show ?thesis using hidden2 by (auto simp: projection_true_def)
      next
        case None
        have pub: "if h = Inr () then written path (ordered_text (projection_fields (Ready (ps_timezone next_settings))) @ line_end_text) d2 d3 else same_files d2 d3"
          using h Some p by (intro write_projection_cases) simp
        have d': "d' = d3" using result Inr None by (simp split: sum.splits)
        show ?thesis
        proof (cases h)
          case (Inl e)
          then have "r = Inl e" using result Inr None by simp
          moreover have "same_files d2 d3" using pub Inl by simp
          ultimately show ?thesis using d' hidden2 same_views(3)[of d2 d3] by (auto simp: projection_true_def)
        next
          case (Inr v)
          then have w: "written path (ordered_text (projection_fields (Ready (ps_timezone next_settings))) @ line_end_text) d2 d3" using pub by simp
          have owned: "owned_settings pf dataDir d3 = Inr next_settings" using owned_other[OF w apart] owned_next[OF None] by simp
          have "r = Inr next_settings" using result \<open>f = Inr u\<close> None Inr by simp
          moreover have "projection_true pf dataDir path d3"
            using published_written[OF w, of pf] parse_ready[of pf "ps_timezone next_settings"] valid owned
            by (auto simp: projection_true_def owned_of split: sum.split)
          ultimately show ?thesis using d' owned by simp
        qed
      qed
    qed
  qed
qed

lemma reconcile_false_free:
  assumes names: "canonical_names pf" and apart: "path \<noteq> personSettingsPath dataDir"
    and start: "projection_true pf dataDir path d" and run: "reconcilePersonTimezoneProjection pf dataDir path d = (r, d')"
  shows "projection_true pf dataDir path d' \<and> owned_settings pf dataDir d' = owned_settings pf dataDir d"
proof -
  obtain q d1 where q: "readPersonSettings pf dataDir d = (q, d1)" by fastforce
  have same: "same_files d d1" using read_settings_same[OF q] .
  show ?thesis
  proof (cases q)
    case (Inl e)
    then have "d' = d1" using run q by (simp add: reconcilePersonTimezoneProjection_def readPersonTimezone_def)
    then show ?thesis using same_views(1,4)[OF same] start by simp
  next
    case (Inr s)
    have owned: "owned_settings pf dataDir d = Inr s" using read_settings_true q Inr by blast
    obtain h d2 where h: "writeTimezoneProjection path (Ready (ps_timezone s)) d1 = (h, d2)" by fastforce
    have d': "d' = d2" using run q Inr h by (simp add: reconcilePersonTimezoneProjection_def readPersonTimezone_def)
    note cases = write_projection_cases[OF h]
    show ?thesis
    proof (cases h)
      case (Inl e)
      then have "same_files d d2" using cases same by (auto intro: same_files_trans)
      then show ?thesis using same_views(1,4) d' start by metis
    next
      case (Inr v)
      then have w: "written path (ordered_text (projection_fields (Ready (ps_timezone s))) @ line_end_text) d1 d2" using cases by simp
      have o2: "owned_settings pf dataDir d2 = Inr s" using owned_other[OF w apart] same_views(1)[OF same] owned by simp
      then show ?thesis
        using published_written[OF w, of pf] parse_ready[of pf "ps_timezone s"] owned_again[OF names owned] d' owned
        by (auto simp: projection_true_def owned_of split: sum.split)
    qed
  qed
qed

text \<open>C20: Whatever fails while a setting is written, and wherever it stops, nobody can read a false timezone:
  a projection that can be read says what the owner's settings say; and a write that answers has stored the
  settings it answers.\<close>
theorem projection_never_false:
  assumes "canonical_names pf" "path \<noteq> personSettingsPath dataDir"
    "setting = Timezone_setting \<longrightarrow> env ''PI_PERSON_TIMEZONE_FILE'' = Some path \<and> path \<noteq> []"
    "projection_true pf dataDir path d" "writePersonSetting pf env dataDir setting v now d = (r, d')"
  shows "projection_true pf dataDir path d' \<and> (case r of Inl _ \<Rightarrow> True | Inr s \<Rightarrow> owned_settings pf dataDir d' = Inr s)"
proof -
  define projection where "projection = (if setting = Timezone_setting then (case env ''PI_PERSON_TIMEZONE_FILE'' of None \<Rightarrow> None | Some p \<Rightarrow> if p = [] then None else Some p) else None)"
  have target: "projection = (if setting = Timezone_setting then Some path else None)" using assms(3) by (simp add: projection_def)
  obtain q d1 where q: "readPersonSettings pf dataDir d = (q, d1)" by fastforce
  have same: "same_files d d1" using read_settings_same[OF q] .
  have start: "projection_true pf dataDir path d1" using same_views(4)[OF same] assms(4) by simp
  note run = assms(5)[unfolded writePersonSetting_def Let_def, folded projection_def, unfolded q prod.case]
  have unchanged: "?thesis" if "(d' = d \<or> d' = d1) \<and> (\<exists>e. r = Inl e)" using that start assms(4) by auto
  show ?thesis
  proof (cases "projection \<noteq> None \<and> (case env ''PI_PERSON_SETTINGS_DATA'' of None \<Rightarrow> env ''PI_REMOTE_DATA'' | Some p \<Rightarrow> Some p) \<noteq> Some dataDir")
    case True
    then have "r = Inl (Code_forbidden, ''Timezone projection writes require the owning settings directory'') \<and> d' = d" using run by simp
    then show ?thesis using unchanged by blast
  next
    case allowed: False
    show ?thesis
    proof (cases q)
      case (Inl e)
      then have "r = Inl e \<and> d' = d1" using run[unfolded if_not_P[OF allowed]] by simp
      then show ?thesis using unchanged by blast
    next
      case (Inr current)
      have owned: "owned_settings pf dataDir d = Inr current" using read_settings_true q Inr by blast
      have owned1: "owned_settings pf dataDir d1 = Inr current" using same_views(1)[OF same] owned by simp
      have again: "tz_again pf (ps_timezone current) = Inr (ps_timezone current)" using owned_again[OF assms(1) owned] .
      note run2 = run[unfolded if_not_P[OF allowed] Inr sum.case]
      have saved: "?thesis" if "save_settings dataDir projection next_settings d1 = (r, d')" "tz_again pf (ps_timezone next_settings) = Inr (ps_timezone next_settings)"
          "setting = Timezone_setting \<or> ps_timezone next_settings = ps_timezone current" for next_settings
      proof -
        have "projection = Some path \<or> projection = None \<and> owned_timezone pf dataDir d1 = Inr (ps_timezone next_settings)"
          using target that(3) owned1 by (auto simp: owned_of)
        then show ?thesis using save_false_free[OF assms(1,2) start that(2) _ that(1)] by (auto split: sum.split)
      qed
      show ?thesis
      proof (cases setting)
        case Unknown_setting
        then have "(\<exists>e. r = Inl e) \<and> d' = d1" using run2 by auto
        then show ?thesis using unchanged by blast
      next
        case Collapse_setting
        show ?thesis
        proof (cases "v \<noteq> JNull \<and> \<not> is_boolean v")
          case True
          then have "(\<exists>e. r = Inl e) \<and> d' = d1" using run2 Collapse_setting by auto
          then show ?thesis using unchanged by blast
        next
          case False
          then have "save_settings dataDir projection (current\<lparr>ps_collapse := if v = JNull then None else Some (v = JBool True)\<rparr>) d1 = (r, d')"
            using run2 Collapse_setting by (simp only: setting_id.case if_False)
          then show ?thesis using saved again by simp
        qed
      next
        case Timezone_setting
        note run3 = run2[unfolded Timezone_setting setting_id.case]
        show ?thesis
        proof (cases "v = JNull")
          case True
          then have "save_settings dataDir projection (current\<lparr>ps_timezone := None\<rparr>) d1 = (r, d')" using run3 by simp
          then show ?thesis using saved Timezone_setting by (simp add: tz_again_def)
        next
          case False
          note run4 = run3[unfolded if_not_P[OF False]]
          show ?thesis
          proof (cases "parseTimezone pf v now")
            case (Inl e)
            then have "(\<exists>e. r = Inl e) \<and> d' = d1" using run4 by auto
            then show ?thesis using unchanged by blast
          next
            case (Inr t)
            note run5 = run4[unfolded Inr sum.case]
            show ?thesis
            proof (cases "pt_source t = ''client-observed'' \<and> map_option pt_source (ps_timezone current) = Some ''configured''")
              case True
              obtain h d2 where h: "reconcilePersonTimezoneProjection pf dataDir path d1 = (h, d2)" by fastforce
              have "d' = d2" "r = (case h of Inl e \<Rightarrow> Inl e | Inr _ \<Rightarrow> Inr current)"
                using run5 True target Timezone_setting h by (auto split: sum.splits)
              then show ?thesis using reconcile_false_free[OF assms(1,2) start h] owned1 by (auto split: sum.split)
            next
              case False
              then have "save_settings dataDir projection (current\<lparr>ps_timezone := Some t\<rparr>) d1 = (r, d')" using run5 by (simp only: if_False)
              then show ?thesis using saved Timezone_setting parse_again[OF assms(1) Inr] by simp
            qed
          qed
        qed
      qed
    qed
  qed
qed

lemma projection_never_false_witness:
  "projection_true \<lparr>pf_resolve = (\<lambda>z. if z = ''UTC'' then Some z else None), pf_date = (\<lambda>_. True)\<rparr> ''/data'' ''/tz''
     (snd (writePersonSetting \<lparr>pf_resolve = (\<lambda>z. if z = ''UTC'' then Some z else None), pf_date = (\<lambda>_. True)\<rparr>
        (\<lambda>k. if k = ''PI_PERSON_TIMEZONE_FILE'' then Some ''/tz'' else if k = ''PI_REMOTE_DATA'' then Some ''/data'' else None) ''/data'' Timezone_setting
        (mk_obj [(''zone'', JStr ''UTC''), (''source'', JStr ''configured'')]) ''2026-01-01T00:00:00.000Z''
        \<lparr>dk_files = (\<lambda>_. None), dk_readable = (\<lambda>_. True), dk_faults = replicate 6 None @ [Some ''EIO'']\<rparr>))"
  (is "projection_true ?pf ?dir ?path (snd (writePersonSetting _ ?env _ _ ?v ?now ?d))")
proof -
  have names: "canonical_names ?pf" by (simp add: canonical_names_def js_trim_def js_space_def signed_def)
  have start: "projection_true ?pf ?dir ?path ?d"
    by (simp add: projection_true_def published_timezone_def readTimezoneProjection_def read_file_def next_fault_def files_only_def isAbsolute_def starts_with_def)
  have "?path \<noteq> personSettingsPath ?dir" by (simp add: personSettingsPath_def)
  then show ?thesis using projection_never_false[OF names _ _ start surjective_pairing, of Timezone_setting ?env ?v ?now] by simp
qed

end
