(* ===== verification/Message_Delivery.thy ===== *)
theory Message_Delivery
  imports Person_Settings
begin

text \<open>
  The time stamps of messages delivered to a model (\<open>packages/orchestrator/src/threads/message-delivery.ts\<close>).
  Every incoming message gets a prefix saying when it was delivered, recorded in a receipt in the session, so
  that later requests repeat it. Messages and session entries are JSON values; the two symbol properties of a
  message are fields of a record. Formatting and parsing dates are the platform's.
\<close>

section \<open>The prefix\<close>

record clock =
  ck_iso :: "int \<Rightarrow> string"
  ck_parts :: "string \<Rightarrow> int \<Rightarrow> string + (string \<times> string) list"
  ck_parse :: "string \<Rightarrow> js"

datatype delivery_code = Delivery_invalid | Delivery_unavailable

type_synonym 'a delivery_result = "(delivery_code \<times> string) + 'a"

definition part :: "(string \<times> string) list \<Rightarrow> string \<Rightarrow> string" where
  "part parts k = (case map_of (rev parts) k of None \<Rightarrow> ''undefined'' | Some v \<Rightarrow> v)"

definition zone_offset :: "string \<Rightarrow> string" where
  "zone_offset shown = (if shown = ''GMT'' then ''+00:00'' else if starts_with shown ''GMT'' then drop 3 shown else shown)"

definition max_date :: int where
  "max_date = 8640000000000000"

definition deliveryPrefix :: "clock \<Rightarrow> int \<Rightarrow> string option \<Rightarrow> string delivery_result" where
  "deliveryPrefix ck at zone =
     (if \<bar>at\<bar> > max_date then Inl (Delivery_invalid, ''Invalid model delivery time'')
      else case zone of
        None \<Rightarrow> Inr (''[Model delivery: '' @ ck_iso ck at @ '' (UTC +00:00; timezone-unconfigured)]'' @ [CHR 0x0A])
      | Some z \<Rightarrow> (case ck_parts ck z at of
          Inl e \<Rightarrow> Inl (Delivery_invalid, ''Invalid user timezone: '' @ e)
        | Inr parts \<Rightarrow> (case map_of (rev parts) ''timeZoneName'' of
            None \<Rightarrow> Inl (Delivery_invalid, ''Invalid user timezone: TypeError'')
          | Some shown \<Rightarrow> Inr (''[Model delivery: '' @ part parts ''year'' @ ''-'' @ part parts ''month'' @ ''-'' @ part parts ''day'' @ '' ''
              @ part parts ''hour'' @ '':'' @ part parts ''minute'' @ '':'' @ part parts ''second'' @ ''.'' @ part parts ''fractionalSecond'' @ '' ''
              @ zone_offset shown @ '' ('' @ z @ '')]'' @ [CHR 0x0A]))))"

section \<open>Messages\<close>

record delivery_message =
  dm_value :: js
  dm_stamped :: bool
  dm_exempt :: js

definition dm_role :: "delivery_message \<Rightarrow> string" where
  "dm_role m = str_of (js_get (dm_value m) ''role'')"

definition with_field :: "string \<Rightarrow> js \<Rightarrow> delivery_message \<Rightarrow> delivery_message" where
  "with_field k v m = m\<lparr>dm_value := JObj (oput k v (fields_of (dm_value m))), dm_stamped := True\<rparr>"

definition prefixed_content :: "string \<Rightarrow> js \<Rightarrow> js" where
  "prefixed_content pre content = (case content of JStr s \<Rightarrow> JStr (pre @ s)
     | _ \<Rightarrow> JArr (mk_obj [(''type'', JStr ''text''), (''text'', JStr pre)] # arr_of content))"

definition untouched :: "delivery_message \<Rightarrow> bool" where
  "untouched m = (dm_role m = ''assistant'' \<or> dm_stamped m)"

definition prefixMessage :: "delivery_message \<Rightarrow> string \<Rightarrow> delivery_message delivery_result" where
  "prefixMessage m pre =
     (if untouched m then Inr m
      else if dm_role m \<in> {''system'', ''user'', ''toolResult'', ''custom''} then Inr (with_field ''content'' (prefixed_content pre (js_get (dm_value m) ''content'')) m)
      else if dm_role m \<in> {''compactionSummary'', ''branchSummary''} then Inr (with_field ''summary'' (JStr (pre @ js_String (js_get (dm_value m) ''summary''))) m)
      else if dm_role m = ''bashExecution'' then Inr (with_field ''output'' (JStr (pre @ js_String (js_get (dm_value m) ''output''))) m)
      else Inl (Delivery_invalid, ''Unsupported incoming model-message role: '' @ dm_role m))"

section \<open>Sources\<close>

type_synonym sources = "(string \<times> string list) list"

definition provenance :: "string \<Rightarrow> js \<Rightarrow> string" where
  "provenance role timestamp = role @ '':'' @ js_String timestamp"

definition add_source :: "string \<Rightarrow> js \<Rightarrow> string \<Rightarrow> sources \<Rightarrow> sources" where
  "add_source role timestamp key s = (let p = provenance role timestamp in
     map_put p ((case map_of s p of None \<Rightarrow> [] | Some ids \<Rightarrow> ids) @ [key]) s)"

definition entry_sources :: "clock \<Rightarrow> js \<Rightarrow> sources \<Rightarrow> sources" where
  "entry_sources ck e s =
     (let kind = js_get e ''type''; key = str_of (js_get e ''id''); at = ck_parse ck (str_of (js_get e ''timestamp'')); message = js_get e ''message'' in
      if kind = JStr ''message'' then
        (let role = str_of (js_get message ''role''); sent = js_get message ''timestamp''; s1 = add_source role sent key s in
         if role = ''custom'' \<or> role = ''bashExecution'' then add_source ''user'' sent key s1 else s1)
      else if kind = JStr ''custom_message'' then add_source ''user'' at key (add_source ''custom'' at key s)
      else if kind = JStr ''compaction'' then
        (let s1 = add_source ''user'' at key (add_source ''compactionSummary'' at key s); system = js_get e ''systemMessage'' in
         if truthy system then add_source ''system'' (js_get system ''timestamp'') (key @ '':system'') s1 else s1)
      else if kind = JStr ''branch_summary'' then add_source ''user'' at key (add_source ''branchSummary'' at key s)
      else s)"

definition sourceKeys :: "clock \<Rightarrow> js list \<Rightarrow> sources" where
  "sourceKeys ck branch = fold (entry_sources ck) branch []"

section \<open>Receipts\<close>

definition receipt_type :: string where
  "receipt_type = ''model_message_delivery_v1''"

definition is_receipts :: "js \<Rightarrow> bool" where
  "is_receipts e = (js_get e ''type'' = JStr ''custom'' \<and> js_get e ''customType'' = JStr receipt_type)"

definition receipt_ok :: "js \<Rightarrow> bool" where
  "receipt_ok r = (is_string (js_get r ''key'') \<and> is_string (js_get r ''prefix'') \<and> is_finite (js_get r ''originalTimestamp'') \<and> is_finite (js_get r ''deliveredAt''))"

type_synonym receipts = "(string \<times> js) list"

definition entry_receipts :: "js \<Rightarrow> receipts \<Rightarrow> receipts delivery_result" where
  "entry_receipts e rs =
     (if \<not> is_receipts e then Inr rs
      else let held = js_get (js_get e ''data'') ''receipts'' in
        if \<not> is_array held \<or> list_ex (\<lambda>r. \<not> receipt_ok r) (arr_of held) then Inl (Delivery_invalid, ''Invalid model message delivery receipt'')
        else Inr (fold (\<lambda>r. map_put (str_of (js_get r ''key'')) r) (arr_of held) rs))"

fun branch_receipts :: "js list \<Rightarrow> receipts \<Rightarrow> receipts delivery_result" where
  "branch_receipts [] rs = Inr rs"
| "branch_receipts (e # es) rs = rbind (entry_receipts e rs) (branch_receipts es)"

section \<open>The projection\<close>

definition readMessageDeliveryTimezone :: "platform \<Rightarrow> environment \<Rightarrow> disk \<Rightarrow> person_timezone option settings_result \<times> disk" where
  "readMessageDeliveryTimezone pf env d =
     (let settingsData = (case env ''PI_PERSON_SETTINGS_DATA'' of None \<Rightarrow> env ''PI_REMOTE_DATA'' | Some p \<Rightarrow> Some p) in
      if env ''PI_MODEL_DELIVERY_TIMEZONE'' \<noteq> None \<or> env ''PI_PERSON_TIMEZONE_FILE'' \<noteq> None \<or> settingsData = None \<or> settingsData = Some []
      then deliveryTimezone pf env d else readPersonTimezone pf (the settingsData) d)"

text \<open>A delivery made now: the time, the timezone and the prefix.\<close>

type_synonym delivery_now = "int \<times> js \<times> string"

definition delivery_of :: "clock \<Rightarrow> person_timezone option settings_result \<Rightarrow> int \<Rightarrow> delivery_now delivery_result" where
  "delivery_of ck timezone at = (case timezone of
     Inl (code, m) \<Rightarrow> Inl (if code = Code_invalid then Delivery_invalid else Delivery_unavailable, ''Cannot resolve owner timezone: '' @ m)
   | Inr t \<Rightarrow> rbind (deliveryPrefix ck at (map_option pt_zone t)) (\<lambda>pre. Inr (at, tz_js t, pre)))"

type_synonym occurrences = "(string \<times> nat) list"

definition message_provenance :: "delivery_message \<Rightarrow> string" where
  "message_provenance m = provenance (dm_role m) (js_get (dm_value m) ''timestamp'')"

definition seen_count :: "occurrences \<Rightarrow> delivery_message \<Rightarrow> nat" where
  "seen_count seen m = (case map_of seen (message_provenance m) of None \<Rightarrow> 0 | Some n \<Rightarrow> n)"

definition delivery_key :: "sources \<Rightarrow> occurrences \<Rightarrow> delivery_message \<Rightarrow> string" where
  "delivery_key s seen m =
     (let p = message_provenance m; n = seen_count seen m; ids = (case map_of s p of None \<Rightarrow> [] | Some ids \<Rightarrow> ids) in
      if n < length ids \<and> ids ! n \<noteq> [] then ''entry:'' @ ids ! n @ '':'' @ dm_role m
      else ''generated:'' @ p @ '':'' @ nat_text n)"

definition new_receipt :: "string \<Rightarrow> delivery_message \<Rightarrow> delivery_now \<Rightarrow> js" where
  "new_receipt key m d = mk_obj [(''key'', JStr key), (''originalTimestamp'', js_get (dm_value m) ''timestamp''), (''deliveredAt'', JNum (NInt (fst d))),
     (''timezone'', fst (snd d)), (''prefix'', JStr (snd (snd d)))]"

text \<open>The loop over the messages: the projected messages and the new receipts.\<close>

fun delivery_loop :: "sources \<Rightarrow> receipts \<Rightarrow> delivery_now option \<Rightarrow> occurrences \<Rightarrow> delivery_message list \<Rightarrow> (delivery_message list \<times> js list) delivery_result" where
  "delivery_loop s rs now seen [] = Inr ([], [])"
| "delivery_loop s rs now seen (m # ms) =
     (if untouched m then rbind (delivery_loop s rs now seen ms) (\<lambda>(out, pending). Inr (m # out, pending))
      else let key = delivery_key s seen m; seen1 = map_put (message_provenance m) (seen_count seen m + 1) seen;
               keep = rbind (delivery_loop s rs now seen1 ms) (\<lambda>(out, pending). Inr (m # out, pending));
               send = (\<lambda>receipt fresh. rbind (prefixMessage m (str_of (js_get receipt ''prefix''))) (\<lambda>sent.
                 rbind (delivery_loop s rs now seen1 ms) (\<lambda>(out, pending). Inr (sent # out, fresh @ pending)))) in
        if dm_exempt m \<noteq> JUndef then (if dm_exempt m \<noteq> JBool True then Inl (Delivery_invalid, ''Model delivery exemption must be true when present'') else keep)
        else if \<not> is_finite (js_get (dm_value m) ''timestamp'') then Inl (Delivery_invalid, ''Incoming model message is missing timestamp provenance'')
        else (case map_of rs key of
          Some receipt \<Rightarrow> send receipt []
        | None \<Rightarrow> (case now of None \<Rightarrow> keep | Some d \<Rightarrow> send (new_receipt key m d) [new_receipt key m d])))"

text \<open>The projection of a request: its messages, and the receipts it recorded. A preview makes no delivery;
  \<open>refused\<close> is the failure of recording, if it fails.\<close>

definition project_delivery :: "clock \<Rightarrow> bool \<Rightarrow> person_timezone option settings_result \<Rightarrow> int \<Rightarrow> string option \<Rightarrow> js list \<Rightarrow> delivery_message list
    \<Rightarrow> delivery_message list delivery_result \<times> js list" where
  "project_delivery ck preview timezone at refused branch messages =
     (case rbind (branch_receipts branch []) (\<lambda>rs.
        rbind (if preview then Inr None else rbind (delivery_of ck timezone at) (\<lambda>d. Inr (Some d))) (\<lambda>now.
          delivery_loop (sourceKeys ck branch) rs now [] messages)) of
        Inl e \<Rightarrow> (Inl e, [])
      | Inr (out, pending) \<Rightarrow> (if pending = [] then (Inr out, [])
          else case refused of Some m \<Rightarrow> (Inl (Delivery_unavailable, ''Cannot record model delivery: '' @ m), []) | None \<Rightarrow> (Inr out, pending)))"

text \<open>The entry the session manager appends, as far as the code reads it.\<close>

definition receipts_entry :: "js list \<Rightarrow> js" where
  "receipts_entry pending = mk_obj [(''type'', JStr ''custom''), (''customType'', JStr receipt_type), (''data'', mk_obj [(''receipts'', JArr pending)])]"

definition session_after :: "js list \<Rightarrow> js list \<Rightarrow> js list" where
  "session_after branch pending = (if pending = [] then branch else branch @ [receipts_entry pending])"

section \<open>Deliveries are repeated as they were made\<close>

text \<open>Entries of other kinds than messages, and no receipts.\<close>

definition inert :: "js \<Rightarrow> bool" where
  "inert e = (js_get e ''type'' \<notin> {JStr ''message'', JStr ''custom_message'', JStr ''compaction'', JStr ''branch_summary''} \<and> \<not> is_receipts e)"

lemma inert_sources: "list_all inert later \<Longrightarrow> fold (entry_sources ck) later s = s"
  by (induction later arbitrary: s) (simp_all add: inert_def entry_sources_def)

lemma inert_receipts: "list_all inert later \<Longrightarrow> branch_receipts later rs = Inr rs"
  by (induction later) (simp_all add: inert_def entry_receipts_def)

lemma branch_receipts_append: "branch_receipts (b @ c) rs = rbind (branch_receipts b rs) (branch_receipts c)"
proof (induction b arbitrary: rs)
  case (Cons e b)
  then show ?case by (cases "entry_receipts e rs") simp_all
qed simp

lemma map_of_receipts: "map_of (fold (\<lambda>r. map_put (str_of (js_get r ''key'')) r) ps rs) k
    = (case find (\<lambda>r. str_of (js_get r ''key'') = k) (rev ps) of None \<Rightarrow> map_of rs k | Some r \<Rightarrow> Some r)"
proof (induction ps rule: rev_induct)
  case (snoc p ps)
  then show ?case by (cases "str_of (js_get p ''key'') = k") (auto simp: fold_append)
qed simp

definition pending_ok :: "receipts \<Rightarrow> delivery_now \<Rightarrow> js list \<Rightarrow> bool" where
  "pending_ok rs d ps = (\<forall>p\<in>set ps. receipt_ok p \<and> map_of rs (str_of (js_get p ''key'')) = None \<and> js_get p ''prefix'' = JStr (snd (snd d)))"

lemma prefix_length: "delivery_loop s rs now seen ms = Inr (out, pending) \<Longrightarrow> length out = length ms"
  by (induction s rs now seen ms arbitrary: out pending rule: delivery_loop.induct)
    (auto simp: Let_def rbind_eq_Inr split: if_splits option.splits)

lemma loop_pending:
  "delivery_loop s rs (Some d) seen ms = Inr (out, pending) \<Longrightarrow> pending_ok rs d pending"
proof (induction ms arbitrary: seen out pending)
  case (Cons m ms)
  show ?case
  proof (cases "untouched m")
    case True
    then show ?thesis using Cons by (auto simp: rbind_eq_Inr)
  next
    case False
    let ?key = "delivery_key s seen m" and ?seen = "map_put (message_provenance m) (seen_count seen m + 1) seen"
    obtain out1 pending1 where tail: "delivery_loop s rs (Some d) ?seen ms = Inr (out1, pending1)"
      and parts: "pending = pending1 \<or> map_of rs ?key = None \<and> is_finite (js_get (dm_value m) ''timestamp'') \<and> pending = new_receipt ?key m d # pending1"
      using Cons(2) False by (auto simp: Let_def rbind_eq_Inr split: if_splits option.splits)
    have ok: "pending_ok rs d pending1" using Cons(1)[OF tail] .
    have "is_finite (js_get (dm_value m) ''timestamp'') \<Longrightarrow> receipt_ok (new_receipt ?key m d)"
      by (simp add: receipt_ok_def new_receipt_def is_finite_def[of "JNum (NInt (fst d))"])
    then show ?thesis using parts ok by (auto simp: pending_ok_def new_receipt_def)
  qed
qed (simp add: pending_ok_def)

text \<open>A later run over receipts that agree repeats the messages and records nothing.\<close>

lemma loop_repeats:
  assumes "\<And>k r. map_of rs k = Some r \<Longrightarrow> \<exists>r'. map_of rs' k = Some r' \<and> js_get r' ''prefix'' = js_get r ''prefix''"
  shows "delivery_loop s rs (Some d) seen ms = Inr (out, pending) \<Longrightarrow>
    (\<And>p. p \<in> set pending \<Longrightarrow> \<exists>r'. map_of rs' (str_of (js_get p ''key'')) = Some r' \<and> js_get r' ''prefix'' = js_get p ''prefix'') \<Longrightarrow>
    delivery_loop s rs' now seen ms = Inr (out, [])"
proof (induction ms arbitrary: seen out pending)
  case (Cons m ms)
  show ?case
  proof (cases "untouched m")
    case True
    obtain out1 where tail: "delivery_loop s rs (Some d) seen ms = Inr (out1, pending)" and out: "out = m # out1"
      using Cons(2) True by (auto simp: rbind_eq_Inr)
    have "delivery_loop s rs' now seen ms = Inr (out1, [])" using Cons(1)[OF tail] Cons(3) by blast
    then show ?thesis using True out by simp
  next
    case False
    let ?key = "delivery_key s seen m" and ?seen = "map_put (message_provenance m) (seen_count seen m + 1) seen"
    show ?thesis
    proof (cases "dm_exempt m \<noteq> JUndef")
      case True
      obtain out1 where tail: "delivery_loop s rs (Some d) ?seen ms = Inr (out1, pending)" and out: "out = m # out1" and exempt: "dm_exempt m = JBool True"
        using Cons(2) False True by (auto simp: Let_def rbind_eq_Inr split: if_splits)
      have "delivery_loop s rs' now ?seen ms = Inr (out1, [])" using Cons(1)[OF tail] Cons(3) by blast
      then show ?thesis using False True out exempt by (simp add: Let_def)
    next
      case plain: False
      have finite: "is_finite (js_get (dm_value m) ''timestamp'')"
        using Cons(2) False plain by (auto simp: Let_def split: if_splits)
      define receipt where "receipt = (case map_of rs ?key of Some r \<Rightarrow> r | None \<Rightarrow> new_receipt ?key m d)"
      obtain sent out1 pending1 where sent: "prefixMessage m (str_of (js_get receipt ''prefix'')) = Inr sent"
        and tail: "delivery_loop s rs (Some d) ?seen ms = Inr (out1, pending1)" and out: "out = sent # out1"
        and pending: "pending = (case map_of rs ?key of Some r \<Rightarrow> [] | None \<Rightarrow> [receipt]) @ pending1"
        using Cons(2) False plain finite unfolding receipt_def by (auto simp: Let_def rbind_eq_Inr split: option.splits)
      obtain r' where r': "map_of rs' ?key = Some r'" "js_get r' ''prefix'' = js_get receipt ''prefix''"
      proof (cases "map_of rs ?key")
        case None
        then have "receipt \<in> set pending" "str_of (js_get receipt ''key'') = ?key" unfolding pending by (simp_all add: receipt_def new_receipt_def)
        then show ?thesis using Cons(3) that by metis
      next
        case (Some r)
        then show ?thesis using assms that by (auto simp: receipt_def)
      qed
      have "delivery_loop s rs' now ?seen ms = Inr (out1, [])"
        using Cons(1)[OF tail] Cons(3) unfolding pending by simp
      then show ?thesis using False plain finite r' sent out by (simp add: Let_def)
    qed
  qed
qed simp

lemma loop_append:
  "delivery_loop s rs now seen (ms @ ns) = Inr (out, pending) \<Longrightarrow> delivery_loop s rs now seen ms = Inr (first, new) \<Longrightarrow> take (length ms) out = first"
proof (induction ms arbitrary: seen out pending first new)
  case (Cons m ms)
  show ?case
  proof (cases "untouched m")
    case True
    then show ?thesis using Cons by (auto simp: rbind_eq_Inr)
  next
    case False
    let ?seen = "map_put (message_provenance m) (seen_count seen m + 1) seen"
    obtain x out1 p1 where a: "delivery_loop s rs now ?seen (ms @ ns) = Inr (out1, p1)" "out = x # out1"
      using Cons(2) False by (auto simp: Let_def rbind_eq_Inr split: if_splits option.splits)
    obtain o2 p2 where b: "delivery_loop s rs now ?seen ms = Inr (o2, p2)" "first = x # o2"
      using Cons(2,3) False a by (auto simp: Let_def rbind_eq_Inr split: if_splits option.splits)
    show ?thesis using Cons(1)[OF a(1) b(1)] a(2) b(2) by simp
  qed
qed simp

lemma project_cases:
  assumes "project_delivery ck preview timezone at refused branch messages = (Inr out, pending)"
  obtains rs now where "branch_receipts branch [] = Inr rs" "delivery_loop (sourceKeys ck branch) rs now [] messages = Inr (out, pending)"
    "preview = (now = None)"
  using assms unfolding project_delivery_def
  by (auto simp: rbind_eq_Inr split: sum.splits if_splits option.splits)

lemma entry_source_receipts: "entry_sources ck (receipts_entry pending) s = s"
  by (simp add: entry_sources_def receipts_entry_def)

lemma session_sources: "list_all inert later \<Longrightarrow> sourceKeys ck (session_after branch pending @ later) = sourceKeys ck branch"
  by (simp add: sourceKeys_def session_after_def inert_sources entry_source_receipts)

lemma session_receipts:
  assumes "branch_receipts branch [] = Inr rs" "pending_ok rs d pending" "list_all inert later"
  obtains rs' where "branch_receipts (session_after branch pending @ later) [] = Inr rs'"
    "\<And>k r. map_of rs k = Some r \<Longrightarrow> \<exists>r'. map_of rs' k = Some r' \<and> js_get r' ''prefix'' = js_get r ''prefix''"
    "\<And>p. p \<in> set pending \<Longrightarrow> \<exists>r'. map_of rs' (str_of (js_get p ''key'')) = Some r' \<and> js_get r' ''prefix'' = js_get p ''prefix''"
proof -
  let ?rs' = "fold (\<lambda>r. map_put (str_of (js_get r ''key'')) r) pending rs"
  have entry: "entry_receipts (receipts_entry pending) rs = Inr ?rs'"
    using assms(2) by (simp add: entry_receipts_def receipts_entry_def is_receipts_def pending_ok_def list_ex_iff)
  then have "branch_receipts (session_after branch pending @ later) [] = Inr ?rs'"
    using assms(1,3) by (simp add: session_after_def branch_receipts_append inert_receipts)
  moreover have "\<exists>r'. map_of ?rs' k = Some r' \<and> js_get r' ''prefix'' = js_get r ''prefix''" if "map_of rs k = Some r" for k r
  proof -
    have "find (\<lambda>r. str_of (js_get r ''key'') = k) (rev pending) = None"
      using assms(2) that by (auto simp: find_None_iff pending_ok_def)
    then show ?thesis using that by (simp add: map_of_receipts)
  qed
  moreover have "\<exists>r'. map_of ?rs' (str_of (js_get p ''key'')) = Some r' \<and> js_get r' ''prefix'' = js_get p ''prefix''" if p: "p \<in> set pending" for p
  proof -
    obtain r where r: "find (\<lambda>r. str_of (js_get r ''key'') = str_of (js_get p ''key'')) (rev pending) = Some r"
      using p by (cases "find (\<lambda>r. str_of (js_get r ''key'') = str_of (js_get p ''key'')) (rev pending)") (auto simp: find_None_iff)
    then have "r \<in> set pending" by (auto simp: find_Some_iff) (metis nth_mem length_rev set_rev)
    then have "js_get r ''prefix'' = js_get p ''prefix''" using assms(2) p by (simp add: pending_ok_def)
    then show ?thesis using r by (simp add: map_of_receipts)
  qed
  ultimately show thesis using that by blast
qed


definition sample_clock :: clock where
  "sample_clock = \<lparr>ck_iso = (\<lambda>at. int_text at), ck_parts = (\<lambda>z at. Inl ''RangeError''), ck_parse = (\<lambda>s. JNum (NInt 0))\<rparr>"

definition sample_words :: delivery_message where
  "sample_words = \<lparr>dm_value = mk_obj [(''role'', JStr ''user''), (''timestamp'', JNum (NInt 1)), (''content'', JStr ''hi'')], dm_stamped = False, dm_exempt = JUndef\<rparr>"


end
