(* ===== verification/Root_Consent.thy ===== *)
theory Root_Consent
  imports Rooms
begin

text \<open>
  The consent and notification outbox of root Kenan (\<open>packages/kenan-root/src/consent.ts\<close>). Before root
  answers a request about somebody else it asks that person; the row of the consent is durable and moves from
  queued to delivered. Every operation on a row is a list of actions, the calls to the outside in the order
  the code makes them and the saves of the row; operations on different rows interleave action by action,
  those on one row are serial, and the process may stop between any two actions. What the outside answers is a
  record of the world.
\<close>

section \<open>Answers of the outside\<close>

type_synonym 'a consent_result = "string + 'a"

datatype memory_error = Memory_invalid_request | Memory_unauthenticated | Memory_unavailable

text \<open>A response of the memory service: its status and body, or no response.\<close>

definition rootMemoryRpc :: "(nat \<times> js) option \<Rightarrow> (memory_error \<times> string) + js" where
  "rootMemoryRpc response = (case response of
     None \<Rightarrow> Inl (Memory_unavailable, ''Root consent accounting is unavailable'')
   | Some (status, body) \<Rightarrow>
       if status \<ge> 200 \<and> status \<le> 299 \<and> js_get body ''ok'' = JBool True then Inr (js_get body ''value'')
       else if js_get body ''ok'' = JBool False \<and> js_get body ''error'' \<in> {JStr ''invalid-request'', JStr ''unauthenticated''}
       then Inl (if js_get body ''error'' = JStr ''invalid-request'' then Memory_invalid_request else Memory_unauthenticated, ''Root accounting rejected this operation'')
       else Inl (Memory_unavailable, ''Root consent accounting is unavailable''))"

definition bridge_rpc :: "(nat \<times> js) option \<Rightarrow> js consent_result" where
  "bridge_rpc response = (case response of
     Some (status, body) \<Rightarrow>
       if status \<ge> 200 \<and> status \<le> 299 \<and> js_get body ''ok'' = JBool True then Inr (js_get body ''value'')
       else Inl ''Consent delivery was not acknowledged; the durable outbox will retry''
   | None \<Rightarrow> Inl ''Consent delivery was not acknowledged; the durable outbox will retry'')"

section \<open>Rows\<close>

record root_admission =
  ra_person :: string
  ra_thread :: string
  ra_root :: string
  ra_recipients :: "string list"
  ra_subjects :: "string list"

type_synonym root_execution = "string \<times> string list"

record pending_consent =
  pc_id :: string
  pc_original :: root_admission
  pc_request :: string
  pc_subject :: string
  pc_question :: string
  pc_state :: string
  pc_receipt :: "(string \<times> string) option"
  pc_answer :: "string option"
  pc_resumed :: "string option"
  pc_chosen :: "root_execution option"
  pc_error :: "string option"

text \<open>The calls: accounting of a question or an answer, the question put to its subject, the subject's answer
  read back with the question it answers, the resumption and execution of the request, the commitment of the
  reply, and the reply itself.\<close>

datatype consent_call =
    Log_consent string string string string string
  | Ask_subject string string string
  | Read_answer string string string js
  | Resume_consent string string string
  | Execute_root string string root_execution
  | Commit_reply string string "string list" "string list"
  | Send_reply string string string string

datatype consent_action = Consent_call consent_call bool | Save_consent pending_consent

record consent_world =
  cw_log_question :: "unit consent_result"
  cw_ask :: "(string \<times> string) consent_result"
  cw_answer :: "(string \<times> js option) consent_result"
  cw_log_answer :: "unit consent_result"
  cw_resume :: "root_admission consent_result"
  cw_execute :: "root_execution consent_result"
  cw_commit :: "unit consent_result"
  cw_reply :: "unit consent_result"
  cw_dispatch :: bool
  cw_still :: bool

definition log_call :: "pending_consent \<Rightarrow> string \<Rightarrow> string \<Rightarrow> consent_call" where
  "log_call r kind words = Log_consent (ra_root (pc_original r)) (pc_id r) (pc_subject r) kind words"

text \<open>A stage: its actions, the row after it, and its result.\<close>

type_synonym consent_run = "consent_action list \<times> pending_consent \<times> unit consent_result"

definition consent_failed :: "pending_consent \<Rightarrow> string \<Rightarrow> pending_consent" where
  "consent_failed r m = r\<lparr>pc_error := Some m\<rparr>"

definition consent_dispatch :: "consent_world \<Rightarrow> pending_consent \<Rightarrow> consent_run" where
  "consent_dispatch w r =
     (let logged = Consent_call (log_call r ''question'' (pc_question r)) (is_ok (cw_log_question w));
          asked = Consent_call (Ask_subject (pc_id r) (pc_subject r) (pc_question r)) (is_ok (cw_ask w)) in
      case cw_log_question w of
        Inl m \<Rightarrow> ([logged, Save_consent (consent_failed r m)], consent_failed r m, Inl m)
      | Inr _ \<Rightarrow> (case cw_ask w of
          Inl m \<Rightarrow> ([logged, asked, Save_consent (consent_failed r m)], consent_failed r m, Inl m)
        | Inr receipt \<Rightarrow> (let r' = r\<lparr>pc_receipt := Some receipt, pc_state := ''waiting'', pc_error := None\<rparr> in
            ([logged, asked, Save_consent r'], r', Inr ()))))"

text \<open>The stages of \<open>advance\<close>: each goes on when the row has its state.\<close>

definition stage_waiting :: "consent_world \<Rightarrow> pending_consent \<Rightarrow> consent_run \<times> bool" where
  "stage_waiting w r = (case cw_answer w of
     Inl m \<Rightarrow> (([], r, Inl m), False)
   | Inr (question, given) \<Rightarrow>
       let read = Consent_call (Read_answer (pc_id r) (pc_subject r) question (case given of None \<Rightarrow> JNull | Some a \<Rightarrow> a)) True in
       if question \<noteq> pc_question r then (([read], r, Inl ''Subject's question does not match the recorded consent''), False)
       else (case given of
         None \<Rightarrow> (([read, Save_consent r], r, Inr ()), False)
       | Some a \<Rightarrow> (let r' = r\<lparr>pc_answer := Some (json_text a), pc_state := ''answered''\<rparr> in (([read, Save_consent r'], r', Inr ()), True))))"

definition consent_prompt :: "pending_consent \<Rightarrow> js \<Rightarrow> string" where
  "consent_prompt r answer =
     ''Reconsider the original request using the subject's exact human answer below. Consent is scoped to this question and audience, not a blanket release. Dismissal or refusal is not permission. Do not ask this same question again. Select the final reply for the original requester's existing thread.''
     @ newline @ ordered_text [(''originalRequest'', JStr (pc_request r)), (''subject'', JStr (pc_subject r)), (''question'', JStr (pc_question r)), (''humanAnswer'', answer)]"

definition consent_thrown :: string where
  "consent_thrown = ''Consent reconciliation failed; the durable record is retained''"

definition stage_answered :: "consent_world \<Rightarrow> pending_consent \<Rightarrow> consent_run \<times> bool" where
  "stage_answered w r =
     (let words = (case pc_answer r of None \<Rightarrow> [] | Some a \<Rightarrow> a);
          logged = Consent_call (log_call r ''answer'' words) (is_ok (cw_log_answer w));
          resumed = Consent_call (Resume_consent (ra_root (pc_original r)) (pc_id r) words) (is_ok (cw_resume w)) in
      case cw_log_answer w of Inl m \<Rightarrow> (([logged], r, Inl m), False)
      | Inr _ \<Rightarrow> (case cw_resume w of Inl m \<Rightarrow> (([logged, resumed], r, Inl m), False)
        | Inr admission \<Rightarrow>
            if \<not> cw_still w then (([logged, resumed], r, Inr ()), False)
            else (case json_parse words of None \<Rightarrow> (([logged, resumed], r, Inl consent_thrown), False)
              | Some answer \<Rightarrow>
                  let executed = (\<lambda>x. Consent_call (Execute_root (ra_root admission) (consent_prompt r answer) x)) in
                  (case cw_execute w of
                     Inl m \<Rightarrow> (([logged, resumed, executed ([], []) False], r, Inl m), False)
                   | Inr reply \<Rightarrow> (let r' = r\<lparr>pc_chosen := Some reply, pc_resumed := Some (ra_root admission), pc_state := ''decided''\<rparr> in
                       (([logged, resumed, executed reply True, Save_consent r'], r', Inr ()), True))))))"

definition stage_decided :: "consent_world \<Rightarrow> pending_consent \<Rightarrow> consent_run" where
  "stage_decided w r =
     (case (pc_chosen r, pc_resumed r) of
        (Some (reply, subjects), Some root) \<Rightarrow>
          (let committed = Consent_call (Commit_reply root reply (ra_recipients (pc_original r)) subjects) (is_ok (cw_commit w));
               sent = Consent_call (Send_reply (pc_id r) (ra_person (pc_original r)) (ra_thread (pc_original r)) reply) (is_ok (cw_reply w)) in
           case cw_commit w of Inl m \<Rightarrow> ([committed], r, Inl m)
           | Inr _ \<Rightarrow> (case cw_reply w of Inl m \<Rightarrow> ([committed, sent], r, Inl m)
             | Inr _ \<Rightarrow> (let r' = r\<lparr>pc_state := ''delivered'', pc_error := None\<rparr> in ([committed, sent, Save_consent r'], r', Inr ()))))
      | _ \<Rightarrow> ([], r, Inl consent_thrown))"

definition then_run :: "consent_run \<times> bool \<Rightarrow> (pending_consent \<Rightarrow> consent_run) \<Rightarrow> consent_run" where
  "then_run p k = (case p of ((acts, r, res), go) \<Rightarrow>
     if go then (let (more_acts, r', res') = k r in (acts @ more_acts, r', res')) else (acts, r, res))"

definition consent_advance :: "consent_world \<Rightarrow> pending_consent \<Rightarrow> consent_run" where
  "consent_advance w r =
     (if pc_state r \<notin> {''queued'', ''waiting'', ''answered'', ''decided'', ''delivered''} then ([], r, Inl ''Invalid stored consent state; no reply was delivered'')
      else if \<not> cw_dispatch w then ([], r, Inr ())
      else if pc_state r = ''queued'' then consent_dispatch w r
      else if pc_state r = ''waiting'' then then_run (stage_waiting w r) (\<lambda>r. then_run (stage_answered w r) (stage_decided w))
      else if pc_state r = ''answered'' then then_run (stage_answered w r) (stage_decided w)
      else if pc_state r = ''decided'' then stage_decided w r
      else ([], r, Inr ()))"

text \<open>One row of \<open>drain\<close>: a failed advance saves its message.\<close>

definition drain_consent :: "consent_world \<Rightarrow> pending_consent \<Rightarrow> consent_action list" where
  "drain_consent w r = (case consent_advance w r of
     (acts, r', Inr _) \<Rightarrow> acts
   | (acts, r', Inl m) \<Rightarrow> acts @ [Save_consent (consent_failed r' m)])"

section \<open>Requests for consent\<close>

definition person_id :: "string \<Rightarrow> bool" where
  "person_id s = rx_test user_rx s"

definition consent_question :: "root_admission \<Rightarrow> string \<Rightarrow> string" where
  "consent_question admission question = question @ newline @ newline @ ''Authenticated requester: '' @ ra_person admission @ newline @ newline
     @ ''Chosen answer would go to: '' @ join_with '', '' (ra_recipients admission) @ newline @ newline
     @ ''Your answer returns privately to Kenan, who decides what to share for this request. Skipping is not permission.''"

text \<open>The row a request works on: the one already stored for the same question, or a new one with a fresh
  identifier; \<open>Inl\<close> is a refusal before anything is stored.\<close>

definition consent_row :: "bool \<Rightarrow> root_admission \<Rightarrow> string \<Rightarrow> string \<Rightarrow> string \<Rightarrow> string \<Rightarrow> (string \<times> pending_consent) list \<Rightarrow> pending_consent consent_result" where
  "consent_row enabled admission request subject question uuid rows =
     (if \<not> enabled then Inl ''Root consent is disabled; nobody was asked''
      else if \<not> person_id subject \<or> blank question \<or> utf8_length question > 16000 then Inl ''Consent needs a registered subject and a concrete, narrow question''
      else let asked = consent_question admission question in
        (case find (\<lambda>r. ra_root (pc_original r) = ra_root admission \<and> pc_subject r = subject \<and> pc_question r = asked) (map snd rows) of
           Some r \<Rightarrow> Inr r
         | None \<Rightarrow> Inr \<lparr>pc_id = uuid, pc_original = admission, pc_request = request, pc_subject = subject, pc_question = asked, pc_state = ''queued'',
             pc_receipt = None, pc_answer = None, pc_resumed = None, pc_chosen = None, pc_error = None\<rparr>))"

definition request_actions :: "consent_world \<Rightarrow> pending_consent \<Rightarrow> consent_action list" where
  "request_actions w r = (if pc_state r = ''queued'' then fst (consent_dispatch w r) else [])"

definition request_answer :: "consent_world \<Rightarrow> pending_consent \<Rightarrow> string consent_result" where
  "request_answer w r =
     (case (if pc_state r = ''queued'' then snd (consent_dispatch w r) else (r, Inr ())) of
        (r', Inl m) \<Rightarrow> Inl m
      | (r', Inr _) \<Rightarrow>
          if pc_state r' \<in> {''waiting'', ''answered'', ''decided'', ''delivered''} then Inr (pc_id r)
          else Inl ''Invalid stored consent state; question delivery is not confirmed'')"

section \<open>The outbox running\<close>

record consent_system =
  cs_rows :: "(string \<times> pending_consent) list"
  cs_flights :: "(string \<times> consent_action list) list"
  cs_calls :: "(consent_call \<times> bool) list"

fun consent_act :: "consent_action \<Rightarrow> consent_system \<Rightarrow> consent_system" where
  "consent_act (Consent_call c ok) s = s\<lparr>cs_calls := cs_calls s @ [(c, ok)]\<rparr>"
| "consent_act (Save_consent r) s = s\<lparr>cs_rows := map_put (pc_id r) r (cs_rows s)\<rparr>"

inductive consent_step :: "consent_system \<Rightarrow> consent_system \<Rightarrow> bool" where
  cs_ask: "consent_row enabled admission request subject question uuid (cs_rows s) = Inr r \<Longrightarrow> map_of (cs_rows s) uuid = None \<Longrightarrow>
    consent_step s (if map_of (cs_rows s) (pc_id r) = None then consent_act (Save_consent r) s else s)"
| cs_request: "map_of (cs_rows s) k = Some r \<Longrightarrow> map_of (cs_flights s) k = None \<Longrightarrow>
    consent_step s (s\<lparr>cs_flights := map_put k (request_actions w r) (cs_flights s)\<rparr>)"
| cs_drain: "map_of (cs_rows s) k = Some r \<Longrightarrow> map_of (cs_flights s) k = None \<Longrightarrow> pc_state r \<noteq> ''delivered'' \<Longrightarrow>
    consent_step s (s\<lparr>cs_flights := map_put k (drain_consent w r) (cs_flights s)\<rparr>)"
| cs_act: "map_of (cs_flights s) k = Some (a # rest) \<Longrightarrow>
    consent_step s (consent_act a (s\<lparr>cs_flights := map_put k rest (cs_flights s)\<rparr>))"
| cs_end: "map_of (cs_flights s) k = Some [] \<Longrightarrow> consent_step s (s\<lparr>cs_flights := map_del k (cs_flights s)\<rparr>)"
| cs_crash: "consent_step s (s\<lparr>cs_flights := []\<rparr>)"

inductive consent_reachable :: "consent_system \<Rightarrow> bool" where
  cs_start: "consent_reachable \<lparr>cs_rows = [], cs_flights = [], cs_calls = []\<rparr>"
| cs_next: "consent_reachable s \<Longrightarrow> consent_step s s' \<Longrightarrow> consent_reachable s'"

section \<open>Evidence\<close>

text \<open>What the calls made so far say about a row.\<close>

definition was_asked :: "(consent_call \<times> bool) set \<Rightarrow> pending_consent \<Rightarrow> bool" where
  "was_asked T r = ((log_call r ''question'' (pc_question r), True) \<in> T \<and> (Ask_subject (pc_id r) (pc_subject r) (pc_question r), True) \<in> T)"

definition was_answered :: "(consent_call \<times> bool) set \<Rightarrow> pending_consent \<Rightarrow> bool" where
  "was_answered T r = (\<exists>a. pc_answer r = Some (json_text a) \<and> (Read_answer (pc_id r) (pc_subject r) (pc_question r) a, True) \<in> T)"

definition was_decided :: "(consent_call \<times> bool) set \<Rightarrow> pending_consent \<Rightarrow> bool" where
  "was_decided T r = (\<exists>words answer root reply. pc_answer r = Some words \<and> json_parse words = Some answer \<and> pc_resumed r = Some root \<and> pc_chosen r = Some reply
     \<and> (log_call r ''answer'' words, True) \<in> T \<and> (Execute_root root (consent_prompt r answer) reply, True) \<in> T)"

definition settled_case :: "pending_consent \<Rightarrow> bool" where
  "settled_case r = (pc_state r = ''decided'' \<or> pc_state r = ''delivered'')"

definition evidence :: "(consent_call \<times> bool) set \<Rightarrow> pending_consent \<Rightarrow> bool" where
  "evidence T r = ((pc_state r = ''waiting'' \<or> pc_state r = ''answered'' \<or> settled_case r \<longrightarrow> was_asked T r)
     \<and> (pc_state r = ''answered'' \<or> settled_case r \<longrightarrow> was_answered T r) \<and> (settled_case r \<longrightarrow> was_decided T r))"

text \<open>The next version of a row is the same case, and a decision is kept.\<close>

definition same_case :: "pending_consent \<Rightarrow> pending_consent \<Rightarrow> bool" where
  "same_case r r' = (pc_id r' = pc_id r \<and> pc_original r' = pc_original r \<and> pc_request r' = pc_request r \<and> pc_subject r' = pc_subject r \<and> pc_question r' = pc_question r
     \<and> (settled_case r \<longrightarrow> settled_case r' \<and> pc_chosen r' = pc_chosen r \<and> pc_resumed r' = pc_resumed r))"

text \<open>A reply may be sent for a decided row, to its requester, after its commitment.\<close>

definition may_call :: "(consent_call \<times> bool) set \<Rightarrow> pending_consent \<Rightarrow> consent_call \<Rightarrow> bool" where
  "may_call T r c = (case c of
     Send_reply k person thread reply \<Rightarrow> k = pc_id r \<and> settled_case r \<and> person = ra_person (pc_original r) \<and> thread = ra_thread (pc_original r)
       \<and> (\<exists>root subjects. pc_chosen r = Some (reply, subjects) \<and> pc_resumed r = Some root \<and> (Commit_reply root reply (ra_recipients (pc_original r)) subjects, True) \<in> T)
   | _ \<Rightarrow> True)"

fun ok_actions :: "(consent_call \<times> bool) set \<Rightarrow> pending_consent \<Rightarrow> consent_action list \<Rightarrow> bool" where
  "ok_actions T r [] = True"
| "ok_actions T r (Consent_call c ok # acts) = (may_call T r c \<and> ok_actions (insert (c, ok) T) r acts)"
| "ok_actions T r (Save_consent r' # acts) = (evidence T r' \<and> same_case r r' \<and> ok_actions T r' acts)"

fun calls_of :: "consent_action list \<Rightarrow> (consent_call \<times> bool) set" where
  "calls_of [] = {}"
| "calls_of (Consent_call c ok # acts) = insert (c, ok) (calls_of acts)"
| "calls_of (Save_consent r # acts) = calls_of acts"

fun row_after :: "pending_consent \<Rightarrow> consent_action list \<Rightarrow> pending_consent" where
  "row_after r [] = r"
| "row_after r (Consent_call c ok # acts) = row_after r acts"
| "row_after r (Save_consent r' # acts) = row_after r' acts"

lemma evidence_mono: "evidence T r \<Longrightarrow> T \<subseteq> U \<Longrightarrow> evidence U r"
  unfolding evidence_def was_asked_def was_answered_def was_decided_def by blast

lemma may_call_mono: "may_call T r c \<Longrightarrow> T \<subseteq> U \<Longrightarrow> may_call U r c"
  by (cases c) (auto simp: may_call_def)

lemma ok_actions_mono: "ok_actions T r acts \<Longrightarrow> T \<subseteq> U \<Longrightarrow> ok_actions U r acts"
proof (induction T r acts arbitrary: U rule: ok_actions.induct)
  case (2 T r c ok acts)
  have "insert (c, ok) T \<subseteq> insert (c, ok) U" using 2(3) by blast
  then show ?case using 2(1) 2(2) may_call_mono[OF _ 2(3)] by simp
next
  case (3 T r r' acts)
  have "evidence T r'" using 3(2) by simp
  then have "evidence U r'" using 3(3) by (rule evidence_mono)
  then show ?case using 3(1) 3(2) 3(3) by simp
qed simp

lemma ok_append: "ok_actions T r (as @ bs) \<longleftrightarrow> ok_actions T r as \<and> ok_actions (T \<union> calls_of as) (row_after r as) bs"
  by (induction T r as rule: ok_actions.induct) auto

lemma row_after_append: "row_after r (as @ bs) = row_after (row_after r as) bs"
  by (induction r as rule: row_after.induct) auto

lemma evidence_after: "ok_actions T r acts \<Longrightarrow> evidence T r \<Longrightarrow> evidence (T \<union> calls_of acts) (row_after r acts)"
proof (induction T r acts rule: ok_actions.induct)
  case (2 T r c ok acts)
  then show ?case using evidence_mono[of T r "insert (c, ok) T"] by auto
qed auto

lemma same_case_refl [simp]: "same_case r r"
  by (simp add: same_case_def)

lemma failed_row [simp]: "evidence T (consent_failed r m) = evidence T r" "same_case r' (consent_failed r m) = same_case r' r"
  by (simp_all add: consent_failed_def evidence_def settled_case_def was_asked_def was_answered_def was_decided_def same_case_def log_call_def consent_prompt_def)

text \<open>A run that is justified from a row.\<close>

definition ok_run :: "(consent_call \<times> bool) set \<Rightarrow> pending_consent \<Rightarrow> consent_run \<Rightarrow> bool" where
  "ok_run T r p = (ok_actions T r (fst p) \<and> fst (snd p) = row_after r (fst p))"

lemma ok_dispatch: "pc_state r = ''queued'' \<Longrightarrow> evidence T r \<Longrightarrow> ok_run T r (consent_dispatch w r)"
proof -
  assume q: "pc_state r = ''queued''" and e: "evidence T r"
  have free: "evidence U (r\<lparr>pc_receipt := Some x, pc_state := ''waiting'', pc_error := None\<rparr>) = was_asked U r" for U x
    by (simp add: evidence_def settled_case_def was_asked_def log_call_def)
  have same: "same_case r (r\<lparr>pc_receipt := Some x, pc_state := ''waiting'', pc_error := None\<rparr>)" for x
    using q by (simp add: same_case_def settled_case_def)
  have "evidence U r" for U using q by (simp add: evidence_def settled_case_def)
  then show ?thesis using free same
    by (cases "cw_log_question w"; cases "cw_ask w") (simp_all add: consent_dispatch_def ok_run_def may_call_def log_call_def was_asked_def Let_def)
qed

definition ok_stage :: "(consent_call \<times> bool) set \<Rightarrow> pending_consent \<Rightarrow> string \<Rightarrow> consent_run \<times> bool \<Rightarrow> bool" where
  "ok_stage T r st p = (ok_run T r (fst p) \<and> (snd p \<longrightarrow> pc_state (fst (snd (fst p))) = st))"

lemma ok_waiting:
  assumes "pc_state r = ''waiting''" "evidence T r"
  shows "ok_stage T r ''answered'' (stage_waiting w r)"
proof (cases "cw_answer w")
  case (Inl m)
  then show ?thesis by (simp add: stage_waiting_def ok_stage_def ok_run_def)
next
  case (Inr p)
  obtain question given where p: "p = (question, given)" by fastforce
  have asked: "was_asked T r" using assms by (simp add: evidence_def)
  have next_row: "evidence (insert (Read_answer (pc_id r) (pc_subject r) (pc_question r) a, True) T) (r\<lparr>pc_answer := Some (json_text a), pc_state := ''answered''\<rparr>)"
    "same_case r (r\<lparr>pc_answer := Some (json_text a), pc_state := ''answered''\<rparr>)" for a
    using asked assms(1) by (auto simp: evidence_def settled_case_def was_asked_def was_answered_def log_call_def same_case_def)
  show ?thesis
    using Inr p assms next_row evidence_mono[OF assms(2), of "insert x T" for x]
    by (cases "question = pc_question r"; cases given) (simp_all add: stage_waiting_def ok_stage_def ok_run_def may_call_def Let_def subset_insertI)
qed

lemma ok_answered:
  assumes "pc_state r = ''answered''" "evidence T r"
  shows "ok_stage T r ''decided'' (stage_answered w r)"
proof -
  obtain a where words: "pc_answer r = Some (json_text a)" and given: "was_asked T r" "was_answered T r"
    using assms by (auto simp: evidence_def was_answered_def)
  let ?words = "json_text a"
  have next_row: "evidence (insert (Execute_root root (consent_prompt r answer) reply, True) (insert x (insert (log_call r ''answer'' ?words, True) T)))
      (r\<lparr>pc_chosen := Some reply, pc_resumed := Some root, pc_state := ''decided''\<rparr>)"
    if "json_parse ?words = Some answer" for root answer reply x
    using given words that by (auto simp: evidence_def settled_case_def was_asked_def was_answered_def was_decided_def log_call_def consent_prompt_def)
  have same: "same_case r (r\<lparr>pc_chosen := Some reply, pc_resumed := Some root, pc_state := ''decided''\<rparr>)" for reply root
    using assms(1) by (simp add: same_case_def settled_case_def)
  show ?thesis
  proof (cases "cw_log_answer w")
    case (Inl m)
    then show ?thesis by (simp add: stage_answered_def ok_stage_def ok_run_def may_call_def log_call_def Let_def)
  next
    case logged: (Inr u)
    show ?thesis
    proof (cases "cw_resume w")
      case (Inl m)
      then show ?thesis using logged by (simp add: stage_answered_def ok_stage_def ok_run_def may_call_def log_call_def Let_def)
    next
      case resumed: (Inr admission)
      show ?thesis
      proof (cases "cw_still w \<and> json_parse ?words \<noteq> None")
        case True
        then obtain answer where "json_parse ?words = Some answer" by blast
        then show ?thesis using True logged resumed words next_row same
          by (cases "cw_execute w") (simp_all add: stage_answered_def ok_stage_def ok_run_def may_call_def log_call_def Let_def)
      next
        case False
        then show ?thesis using logged resumed words
          by (cases "cw_still w") (simp_all add: stage_answered_def ok_stage_def ok_run_def may_call_def log_call_def Let_def)
      qed
    qed
  qed
qed

lemma ok_decided:
  assumes "pc_state r = ''decided''" "evidence T r"
  shows "ok_run T r (stage_decided w r)"
proof -
  have settled: "settled_case r" using assms(1) by (simp add: settled_case_def)
  obtain reply subjects root where chosen: "pc_chosen r = Some (reply, subjects)" "pc_resumed r = Some root"
    using assms settled by (auto simp: evidence_def was_decided_def)
  have known: "was_asked T r \<and> was_answered T r \<and> was_decided T r" using assms(2) settled by (simp add: evidence_def)
  have kept: "was_asked T (r\<lparr>pc_state := st, pc_error := e\<rparr>) = was_asked T r" "was_answered T (r\<lparr>pc_state := st, pc_error := e\<rparr>) = was_answered T r"
    "was_decided T (r\<lparr>pc_state := st, pc_error := e\<rparr>) = was_decided T r" for st e
    by (simp_all add: was_asked_def was_answered_def was_decided_def log_call_def consent_prompt_def)
  have "evidence T (r\<lparr>pc_state := ''delivered'', pc_error := None\<rparr>)" using known unfolding evidence_def kept by blast
  then have next_row: "evidence U (r\<lparr>pc_state := ''delivered'', pc_error := None\<rparr>)" if "T \<subseteq> U" for U
    using that by (rule evidence_mono)
  have same: "same_case r (r\<lparr>pc_state := ''delivered'', pc_error := None\<rparr>)" by (simp add: same_case_def settled_case_def)
  have grown: "T \<subseteq> insert x (insert y T)" for x y by blast
  show ?thesis using chosen settled same next_row[OF grown]
    by (cases "cw_commit w"; cases "cw_reply w") (simp_all add: stage_decided_def ok_run_def may_call_def Let_def)
qed

lemma ok_then:
  assumes "ok_stage T r st p" "evidence T r"
    "\<And>U r'. pc_state r' = st \<Longrightarrow> evidence U r' \<Longrightarrow> ok_run U r' (k r')"
  shows "ok_run T r (then_run p k)"
proof -
  obtain acts r1 res go where p: "p = ((acts, r1, res), go)" by (metis prod.exhaust)
  obtain acts2 r2 res2 where k: "k r1 = (acts2, r2, res2)" by (metis prod.exhaust)
  have one: "ok_actions T r acts" "r1 = row_after r acts" using assms(1) p by (simp_all add: ok_stage_def ok_run_def)
  show ?thesis
  proof (cases go)
    case True
    then have "ok_run (T \<union> calls_of acts) r1 (k r1)"
      using assms(1,3) p one evidence_after[OF one(1) assms(2)] by (simp add: ok_stage_def)
    then show ?thesis using one k True p by (simp add: then_run_def ok_run_def ok_append row_after_append)
  next
    case False
    then show ?thesis using one p by (simp add: then_run_def ok_run_def)
  qed
qed

lemma ok_advance:
  assumes "evidence T r"
  shows "ok_run T r (consent_advance w r)"
proof -
  have stay: "ok_run T r ([], r, res)" for res by (simp add: ok_run_def)
  have decide: "ok_run U r' (then_run (stage_answered w r') (stage_decided w))" if "pc_state r' = ''answered''" "evidence U r'" for U r'
    using ok_answered[OF that] that(2) ok_decided by (rule ok_then)
  show ?thesis
    unfolding consent_advance_def
    using stay ok_dispatch[OF _ assms] ok_decided[OF _ assms] decide[OF _ assms] ok_then[OF ok_waiting[OF _ assms] assms decide]
    by (simp split: if_split)
qed

lemma ok_drain: "evidence T r \<Longrightarrow> ok_actions T r (drain_consent w r)"
proof -
  assume e: "evidence T r"
  obtain acts r' res where run: "consent_advance w r = (acts, r', res)" by (metis prod.exhaust)
  have ok: "ok_actions T r acts" "r' = row_after r acts" using ok_advance[OF e, of w] run by (simp_all add: ok_run_def)
  show ?thesis using run ok evidence_after[OF ok(1) e] by (cases res) (simp_all add: drain_consent_def ok_append)
qed

lemma ok_request: "evidence T r \<Longrightarrow> ok_actions T r (request_actions w r)"
  using ok_dispatch[of r T w] by (simp add: request_actions_def ok_run_def)

section \<open>What every moment of the outbox satisfies\<close>

lemma same_case_trans: "same_case r r' \<Longrightarrow> same_case r' r'' \<Longrightarrow> same_case r r''"
  by (simp add: same_case_def)

definition rows_justified :: "consent_system \<Rightarrow> bool" where
  "rows_justified s = (map_ok (cs_rows s) \<and> (\<forall>k r. map_of (cs_rows s) k = Some r \<longrightarrow> pc_id r = k \<and> evidence (set (cs_calls s)) r))"

definition flights_justified :: "consent_system \<Rightarrow> bool" where
  "flights_justified s = (\<forall>k acts. map_of (cs_flights s) k = Some acts \<longrightarrow> (\<exists>r. map_of (cs_rows s) k = Some r \<and> ok_actions (set (cs_calls s)) r acts))"

text \<open>A call is justified by what was called before it, and by a version of the row that is stored.\<close>

definition call_justified :: "(string \<times> pending_consent) list \<Rightarrow> (consent_call \<times> bool) set \<Rightarrow> consent_call \<Rightarrow> bool" where
  "call_justified rows T c = (case c of
     Send_reply k person thread reply \<Rightarrow>
       (\<exists>r r'. evidence T r \<and> may_call T r c \<and> map_of rows k = Some r' \<and> same_case r r')
   | _ \<Rightarrow> True)"

definition calls_justified :: "consent_system \<Rightarrow> bool" where
  "calls_justified s = (\<forall>pre c ok post. cs_calls s = pre @ (c, ok) # post \<longrightarrow> call_justified (cs_rows s) (set pre) c)"

definition consent_sound :: "consent_system \<Rightarrow> bool" where
  "consent_sound s = (rows_justified s \<and> flights_justified s \<and> calls_justified s)"

text \<open>Rows are replaced by versions of themselves only.\<close>

definition rows_follow :: "(string \<times> pending_consent) list \<Rightarrow> (string \<times> pending_consent) list \<Rightarrow> bool" where
  "rows_follow rows rows' = (\<forall>k r. map_of rows k = Some r \<longrightarrow> (\<exists>r'. map_of rows' k = Some r' \<and> same_case r r'))"

lemma call_justified_follow: "call_justified rows T c \<Longrightarrow> rows_follow rows rows' \<Longrightarrow> call_justified rows' T c"
proof (cases c)
  case (Send_reply k person thread reply)
  assume j: "call_justified rows T c" and f: "rows_follow rows rows'"
  obtain r r' where r: "evidence T r" "may_call T r c" "map_of rows k = Some r'" "same_case r r'"
    using j Send_reply by (auto simp: call_justified_def)
  obtain r'' where "map_of rows' k = Some r''" "same_case r' r''" using f r(3) unfolding rows_follow_def by blast
  then show ?thesis using r same_case_trans[OF r(4)] Send_reply unfolding call_justified_def by auto
qed (simp_all add: call_justified_def)

lemma calls_justified_follow:
  assumes "calls_justified s" "rows_follow (cs_rows s) (cs_rows s')" "cs_calls s' = cs_calls s"
  shows "calls_justified s'"
  using assms call_justified_follow unfolding calls_justified_def by metis

lemma save_follows: "map_of rows k = Some r \<Longrightarrow> same_case r r' \<Longrightarrow> rows_follow rows (map_put k r' rows)"
  by (simp add: rows_follow_def)

lemma new_follows: "map_of rows k = None \<Longrightarrow> rows_follow rows (map_put k r' rows)"
  by (simp add: rows_follow_def)

lemma sound_flight_put:
  assumes "consent_sound s" "map_of (cs_rows s) k = Some r" "ok_actions (set (cs_calls s)) r acts"
  shows "consent_sound (s\<lparr>cs_flights := map_put k acts (cs_flights s)\<rparr>)"
  using assms by (simp add: consent_sound_def rows_justified_def flights_justified_def calls_justified_def)

lemma sound_call:
  assumes s: "consent_sound s" and f: "map_of (cs_flights s) k = Some (Consent_call c ok # rest)"
  shows "consent_sound (s\<lparr>cs_flights := map_put k rest (cs_flights s), cs_calls := cs_calls s @ [(c, ok)]\<rparr>)" (is "consent_sound ?t")
proof -
  let ?T = "set (cs_calls s)"
  have grown: "?T \<subseteq> insert (c, ok) ?T" by blast
  obtain r where r: "map_of (cs_rows s) k = Some r" "may_call ?T r c" "ok_actions (insert (c, ok) ?T) r rest"
    using s f unfolding consent_sound_def flights_justified_def by fastforce
  have id: "pc_id r = k" "evidence ?T r" using s r(1) unfolding consent_sound_def rows_justified_def by blast+
  have "rows_justified ?t" using s evidence_mono[OF _ grown] unfolding consent_sound_def rows_justified_def by simp
  moreover have "flights_justified ?t"
    using s r(1,3) ok_actions_mono[OF _ grown] unfolding consent_sound_def flights_justified_def by (simp, blast)
  moreover have "calls_justified ?t"
  proof -
    have now: "call_justified (cs_rows s) ?T c"
      using r(1,2) id same_case_refl unfolding call_justified_def by (cases c) (auto simp: may_call_def)
    have "call_justified (cs_rows s) (set pre) d" if cut: "cs_calls s @ [(c, ok)] = pre @ (d, ok') # post" for pre d ok' post
    proof (cases post rule: rev_cases)
      case Nil
      then show ?thesis using cut now by simp
    next
      case (snoc ys y)
      then have "cs_calls s = pre @ (d, ok') # ys" using cut by simp
      then show ?thesis using s unfolding consent_sound_def calls_justified_def by blast
    qed
    then show ?thesis by (simp add: calls_justified_def)
  qed
  ultimately show ?thesis by (simp add: consent_sound_def)
qed

lemma sound_save:
  assumes s: "consent_sound s" and f: "map_of (cs_flights s) k = Some (Save_consent r' # rest)"
  shows "consent_sound (s\<lparr>cs_flights := map_put k rest (cs_flights s), cs_rows := map_put (pc_id r') r' (cs_rows s)\<rparr>)" (is "consent_sound ?t")
proof -
  let ?T = "set (cs_calls s)"
  obtain r where r: "map_of (cs_rows s) k = Some r" "evidence ?T r'" "same_case r r'" "ok_actions ?T r' rest"
    using s f unfolding consent_sound_def flights_justified_def by fastforce
  have id: "pc_id r' = k" using s r(1,3) unfolding consent_sound_def rows_justified_def same_case_def by metis
  have "rows_justified ?t" using s r(2) id unfolding consent_sound_def rows_justified_def by simp
  moreover have "flights_justified ?t" using s r(4) id unfolding consent_sound_def flights_justified_def by simp
  moreover have "calls_justified ?t"
    using calls_justified_follow[of s ?t] s save_follows[OF r(1,3)] id unfolding consent_sound_def by simp
  ultimately show ?thesis by (simp add: consent_sound_def)
qed

lemma sound_new:
  assumes s: "consent_sound s" and new: "map_of (cs_rows s) (pc_id r) = None" and e: "evidence (set (cs_calls s)) r"
  shows "consent_sound (s\<lparr>cs_rows := map_put (pc_id r) r (cs_rows s)\<rparr>)" (is "consent_sound ?t")
proof -
  have "rows_justified ?t" using s e unfolding consent_sound_def rows_justified_def by simp
  moreover have "flights_justified ?t" using s new unfolding consent_sound_def flights_justified_def by fastforce
  moreover have "calls_justified ?t"
    using calls_justified_follow[of s ?t] s new_follows[OF new] unfolding consent_sound_def by simp
  ultimately show ?thesis by (simp add: consent_sound_def)
qed

lemma consent_row_cases:
  assumes "consent_row enabled admission request subject question uuid rows = Inr r"
  shows "r \<in> snd ` set rows \<or> (pc_state r = ''queued'' \<and> pc_id r = uuid)"
proof -
  let ?P = "\<lambda>r. ra_root (pc_original r) = ra_root admission \<and> pc_subject r = subject \<and> pc_question r = consent_question admission question"
  show ?thesis
  proof (cases "find ?P (map snd rows)")
    case None
    then show ?thesis using assms by (auto simp: consent_row_def Let_def split: if_splits)
  next
    case (Some x)
    then have "r = x" using assms by (auto simp: consent_row_def Let_def split: if_splits)
    then have "r \<in> set (map snd rows)" using Some by (auto simp: find_Some_iff)
    then show ?thesis by simp
  qed
qed

lemma consent_step_sound:
  assumes "consent_step s s'" "consent_sound s"
  shows "consent_sound s'"
  using assms
proof (cases rule: consent_step.cases)
  case (cs_ask enabled admission request subject question uuid r)
  show ?thesis
  proof (cases "map_of (cs_rows s) (pc_id r) = None")
    case True
    have "pc_state r = ''queued''"
    proof (rule ccontr)
      assume "pc_state r \<noteq> ''queued''"
      then obtain k where k: "(k, r) \<in> set (cs_rows s)" using consent_row_cases[OF cs_ask(2)] by auto
      moreover have "map_ok (cs_rows s)" using assms(2) unfolding consent_sound_def rows_justified_def by blast
      ultimately have "map_of (cs_rows s) k = Some r" by (simp add: map_ok_def)
      then have "pc_id r = k" "map_of (cs_rows s) k \<noteq> None" using assms(2) unfolding consent_sound_def rows_justified_def by auto
      then show False using True by simp
    qed
    then have "evidence (set (cs_calls s)) r" by (simp add: evidence_def settled_case_def)
    then show ?thesis using sound_new[OF assms(2) True] True cs_ask by simp
  next
    case False
    then have "s' = s" using cs_ask(1) by (metis (full_types))
    then show ?thesis using assms(2) by simp
  qed
next
  case (cs_request k r w)
  then show ?thesis using sound_flight_put[OF assms(2)] ok_request assms(2) unfolding consent_sound_def rows_justified_def by blast
next
  case (cs_drain k r w)
  then show ?thesis using sound_flight_put[OF assms(2)] ok_drain assms(2) unfolding consent_sound_def rows_justified_def by blast
next
  case (cs_act k a rest)
  then show ?thesis using sound_call[OF assms(2)] sound_save[OF assms(2)] by (cases a) auto
next
  case (cs_end k)
  then show ?thesis using assms(2) by (simp add: consent_sound_def rows_justified_def flights_justified_def calls_justified_def)
next
  case cs_crash
  then show ?thesis using assms(2) by (simp add: consent_sound_def rows_justified_def flights_justified_def calls_justified_def)
qed

lemma reachable_sound: "consent_reachable s \<Longrightarrow> consent_sound s"
proof (induction rule: consent_reachable.induct)
  case cs_start
  show ?case by (simp add: consent_sound_def rows_justified_def flights_justified_def calls_justified_def map_ok_def)
next
  case (cs_next s s')
  then show ?case using consent_step_sound by blast
qed

lemma reply_of_row:
  assumes "consent_reachable s" "cs_calls s = pre @ (Send_reply k person thread reply, ok) # post"
  shows "\<exists>r r'. evidence (set pre) r \<and> may_call (set pre) r (Send_reply k person thread reply) \<and> map_of (cs_rows s) k = Some r' \<and> same_case r r'"
  using reachable_sound[OF assms(1)] assms(2) unfolding consent_sound_def calls_justified_def call_justified_def by fastforce

text \<open>C5: Root Kenan sends no reply that its subject's answer, its own reconsideration and the accounting do not
  precede. In every state the outbox can reach, with questions and advances of any rows interleaved action by
  action, failed calls, retries and stops of the process anywhere, a reply that was sent for a consent is the reply
  of an execution whose prompt holds the subject's own answer to exactly the question that was accounted for and put
  to that subject, and that reply was committed for the recipients of the original request before it was sent to the
  original requester's thread.\<close>

theorem reply_needs_answer:
  assumes "consent_reachable s" "cs_calls s = pre @ (Send_reply k person thread reply, ok) # post"
  shows "\<exists>r a answer root subjects. map_of (cs_rows s) k = Some r \<and> person = ra_person (pc_original r) \<and> thread = ra_thread (pc_original r)
    \<and> (Log_consent (ra_root (pc_original r)) k (pc_subject r) ''question'' (pc_question r), True) \<in> set pre
    \<and> (Ask_subject k (pc_subject r) (pc_question r), True) \<in> set pre
    \<and> (Read_answer k (pc_subject r) (pc_question r) a, True) \<in> set pre
    \<and> (Log_consent (ra_root (pc_original r)) k (pc_subject r) ''answer'' (json_text a), True) \<in> set pre
    \<and> json_parse (json_text a) = Some answer
    \<and> (Execute_root root (consent_prompt r answer) (reply, subjects), True) \<in> set pre
    \<and> (Commit_reply root reply (ra_recipients (pc_original r)) subjects, True) \<in> set pre"
proof -
  obtain r r' where e: "evidence (set pre) r" and m: "may_call (set pre) r (Send_reply k person thread reply)"
    and stored: "map_of (cs_rows s) k = Some r'" and same: "same_case r r'" using reply_of_row[OF assms] by blast
  obtain root subjects where reply: "k = pc_id r" "settled_case r" "person = ra_person (pc_original r)" "thread = ra_thread (pc_original r)"
    "pc_chosen r = Some (reply, subjects)" "pc_resumed r = Some root" "(Commit_reply root reply (ra_recipients (pc_original r)) subjects, True) \<in> set pre"
    using m by (auto simp: may_call_def)
  have known: "was_asked (set pre) r" "was_answered (set pre) r" "was_decided (set pre) r" using e reply(2) by (simp_all add: evidence_def)
  obtain a where a: "pc_answer r = Some (json_text a)" "(Read_answer (pc_id r) (pc_subject r) (pc_question r) a, True) \<in> set pre"
    using known(2) unfolding was_answered_def by blast
  obtain answer where answer: "json_parse (json_text a) = Some answer" "(log_call r ''answer'' (json_text a), True) \<in> set pre"
    "(Execute_root root (consent_prompt r answer) (reply, subjects), True) \<in> set pre"
    using known(3) a(1) reply(5,6) unfolding was_decided_def by auto
  have prompt: "consent_prompt r' answer = consent_prompt r answer" using same by (simp add: consent_prompt_def same_case_def)
  have row: "pc_original r' = pc_original r" "pc_subject r' = pc_subject r" "pc_question r' = pc_question r" using same by (simp_all add: same_case_def)
  show ?thesis
    by (rule exI[of _ r'], rule exI[of _ a], rule exI[of _ answer], rule exI[of _ root], rule exI[of _ subjects])
      (use stored reply known(1) a(2) answer prompt row in \<open>simp add: was_asked_def log_call_def\<close>)
qed

text \<open>C22: A consent has one reply. Whatever is retried after a lost acknowledgement or a stop of the process, every
  reply that was ever sent for a consent has the same text and goes to the same thread of the same person.\<close>

theorem consent_one_reply:
  assumes "consent_reachable s" "(Send_reply k person thread reply, ok) \<in> set (cs_calls s)" "(Send_reply k person' thread' reply', ok') \<in> set (cs_calls s)"
  shows "person' = person \<and> thread' = thread \<and> reply' = reply"
proof -
  have known: "\<exists>r. map_of (cs_rows s) k = Some r \<and> ra_person (pc_original r) = p \<and> ra_thread (pc_original r) = t \<and> map_option fst (pc_chosen r) = Some x"
    if "(Send_reply k p t x, b) \<in> set (cs_calls s)" for p t x b
  proof -
    obtain pre post where "cs_calls s = pre @ (Send_reply k p t x, b) # post" using split_list[OF \<open>(Send_reply k p t x, b) \<in> set (cs_calls s)\<close>] by blast
    then obtain r r' where "may_call (set pre) r (Send_reply k p t x)" "map_of (cs_rows s) k = Some r'" "same_case r r'"
      using reply_of_row[OF assms(1)] by blast
    then show ?thesis by (auto simp: may_call_def same_case_def)
  qed
  show ?thesis using known[OF assms(2)] known[OF assms(3)] by auto
qed

section \<open>A whole consent\<close>

lemma consent_act_flights: "consent_act a (s\<lparr>cs_flights := f\<rparr>) = (consent_act a s)\<lparr>cs_flights := f\<rparr>" "cs_flights (consent_act a s) = cs_flights s"
  by (cases a; simp)+

lemma acts_run:
  "consent_reachable s \<Longrightarrow> map_of (cs_flights s) k = Some acts \<Longrightarrow>
    consent_reachable (fold consent_act acts (s\<lparr>cs_flights := map_put k [] (cs_flights s)\<rparr>))"
proof (induction acts arbitrary: s)
  case Nil
  then show ?case by (simp add: map_put_def update_triv)
next
  case (Cons a acts)
  let ?s = "consent_act a (s\<lparr>cs_flights := map_put k acts (cs_flights s)\<rparr>)"
  have "consent_reachable ?s" using Cons(2) cs_act[OF Cons(3)] by (rule cs_next)
  moreover have "cs_flights ?s = map_put k acts (cs_flights s)" by (simp add: consent_act_flights)
  ultimately have "consent_reachable (fold consent_act acts (?s\<lparr>cs_flights := map_put k [] (map_put k acts (cs_flights s))\<rparr>))"
    using Cons(1)[of ?s] by simp
  then show ?case by (simp add: consent_act_flights map_put_def update_last)
qed

lemma acts_keep_flights: "cs_flights (fold consent_act acts s) = cs_flights s"
  by (induction acts arbitrary: s) (simp_all add: consent_act_flights)

lemma flight_lands:
  assumes "consent_reachable s" "cs_flights s = []" "map_of (cs_rows s) k = Some r" "pc_state r \<noteq> ''delivered''"
  shows "consent_reachable (fold consent_act (drain_consent w r) s)"
proof -
  let ?acts = "drain_consent w r"
  let ?s = "s\<lparr>cs_flights := [(k, ?acts)]\<rparr>"
  have empty: "map_put k x [] = [(k, x)]" "map_put k x [(k, y)] = [(k, x)]" "map_del k [(k, x)] = []" for x y :: "consent_action list"
    by (simp_all add: map_put_def map_del_def)
  have fold_flights: "fold consent_act as (t\<lparr>cs_flights := f\<rparr>) = (fold consent_act as t)\<lparr>cs_flights := f\<rparr>" for as t f
    by (induction as arbitrary: t) (simp_all add: consent_act_flights)
  have idle: "map_of (cs_flights s) k = None" using assms(2) by simp
  have "consent_reachable (s\<lparr>cs_flights := map_put k ?acts (cs_flights s)\<rparr>)" by (rule cs_next[OF assms(1) cs_drain[OF assms(3) idle assms(4)]])
  then have "consent_reachable ?s" using assms(2) by (simp add: empty)
  then have "consent_reachable (fold consent_act ?acts (s\<lparr>cs_flights := [(k, [])]\<rparr>))" using acts_run[of ?s k ?acts] by (simp add: empty)
  then have landed: "consent_reachable ((fold consent_act ?acts s)\<lparr>cs_flights := [(k, [])]\<rparr>)" (is "consent_reachable ?t") by (simp add: fold_flights)
  have "map_of (cs_flights ?t) k = Some []" by simp
  from cs_next[OF landed cs_end[OF this]] have "consent_reachable ((fold consent_act ?acts s)\<lparr>cs_flights := []\<rparr>)" by (simp add: empty)
  moreover have "(fold consent_act ?acts s)\<lparr>cs_flights := []\<rparr> = fold consent_act ?acts (s\<lparr>cs_flights := []\<rparr>)" by (simp add: fold_flights)
  moreover have "s\<lparr>cs_flights := []\<rparr> = s" using assms(2) by (cases s) simp
  ultimately show ?thesis by simp
qed

definition sample_admission :: root_admission where
  "sample_admission = \<lparr>ra_person = ''ann'', ra_thread = ''t'', ra_root = ''r1'', ra_recipients = [''ann''], ra_subjects = [''bo'']\<rparr>"

definition sample_world :: consent_world where
  "sample_world = \<lparr>cw_log_question = Inr (), cw_ask = Inr (''m'', ''n''), cw_answer = Inr (consent_question sample_admission ''May I?'', Some (JBool True)), cw_log_answer = Inr (),
     cw_resume = Inr (sample_admission\<lparr>ra_root := ''r2''\<rparr>), cw_execute = Inr (''Yes'', [''bo'']), cw_commit = Inr (), cw_reply = Inr (), cw_dispatch = True, cw_still = True\<rparr>"

definition sample_row :: pending_consent where
  "sample_row = \<lparr>pc_id = ''c'', pc_original = sample_admission, pc_request = ''Find out'', pc_subject = ''bo'', pc_question = consent_question sample_admission ''May I?'', pc_state = ''queued'',
     pc_receipt = None, pc_answer = None, pc_resumed = None, pc_chosen = None, pc_error = None\<rparr>"

definition sample_asked :: pending_consent where
  "sample_asked = sample_row\<lparr>pc_receipt := Some (''m'', ''n''), pc_state := ''waiting'', pc_error := None\<rparr>"

lemma sample_consent:
  "\<exists>s pre post. consent_reachable s \<and> cs_calls s = pre @ (Send_reply ''c'' ''ann'' ''t'' ''Yes'', True) # post"
proof -
  let ?s0 = "\<lparr>cs_rows = [], cs_flights = [], cs_calls = []\<rparr>"
  let ?s1 = "\<lparr>cs_rows = [(''c'', sample_row)], cs_flights = [], cs_calls = []\<rparr>"
  have row: "consent_row True sample_admission ''Find out'' ''bo'' ''May I?'' ''c'' (cs_rows ?s0) = Inr sample_row"
    by (simp add: consent_row_def sample_row_def Let_def, code_simp)
  have "consent_step ?s0 ?s1" using cs_ask[OF row] by (simp add: sample_row_def map_put_def)
  then have one: "consent_reachable ?s1" using cs_start cs_next by blast
  have d1: "drain_consent sample_world sample_row =
    [Consent_call (log_call sample_row ''question'' (pc_question sample_row)) True, Consent_call (Ask_subject ''c'' ''bo'' (pc_question sample_row)) True, Save_consent sample_asked]"
    by (simp add: drain_consent_def consent_advance_def consent_dispatch_def sample_world_def sample_row_def sample_asked_def log_call_def Let_def)
  let ?s2 = "fold consent_act (drain_consent sample_world sample_row) ?s1"
  have two: "consent_reachable ?s2" by (rule flight_lands[OF one]) (simp_all add: sample_row_def)
  have s2: "cs_flights ?s2 = []" "map_of (cs_rows ?s2) ''c'' = Some sample_asked" by (simp add: acts_keep_flights, unfold d1, simp add: sample_asked_def sample_row_def map_put_def)
  have three: "consent_reachable (fold consent_act (drain_consent sample_world sample_asked) ?s2)"
    by (rule flight_lands[OF two s2]) (simp add: sample_asked_def)
  have parsed: "json_text (JBool True) = ''true''" "json_parse ''true'' = Some (JBool True)" by code_simp+
  have "\<exists>as b. drain_consent sample_world sample_asked = as @ [Consent_call (Send_reply ''c'' ''ann'' ''t'' ''Yes'') True, b]"
    by (simp add: drain_consent_def consent_advance_def stage_waiting_def stage_answered_def stage_decided_def then_run_def sample_world_def sample_asked_def sample_row_def
      sample_admission_def log_call_def Let_def parsed)
  then obtain as b where acts: "drain_consent sample_world sample_asked = as @ [Consent_call (Send_reply ''c'' ''ann'' ''t'' ''Yes'') True, b]" by blast
  let ?s3 = "fold consent_act (drain_consent sample_world sample_asked) ?s2"
  have "\<exists>post. cs_calls ?s3 = cs_calls (fold consent_act as ?s2) @ (Send_reply ''c'' ''ann'' ''t'' ''Yes'', True) # post"
    by (cases b) (simp_all add: acts)
  then show ?thesis using three by blast
qed

lemma consent_one_reply_witness:
  "\<exists>s person thread reply ok. consent_reachable s \<and> (Send_reply ''c'' person thread reply, ok) \<in> set (cs_calls s)
    \<and> (\<forall>person' thread' reply' ok'. (Send_reply ''c'' person' thread' reply', ok') \<notin> set (cs_calls s) \<or> (person' = person \<and> thread' = thread \<and> reply' = reply))"
proof -
  obtain s pre post where s: "consent_reachable s" "cs_calls s = pre @ (Send_reply ''c'' ''ann'' ''t'' ''Yes'', True) # post" using sample_consent by blast
  then have sent: "(Send_reply ''c'' ''ann'' ''t'' ''Yes'', True) \<in> set (cs_calls s)" by simp
  show ?thesis using s(1) sent consent_one_reply[OF s(1) sent] by blast
qed

lemma reply_needs_answer_witness:
  "\<exists>s pre post a. consent_reachable s \<and> cs_calls s = pre @ (Send_reply ''c'' ''ann'' ''t'' ''Yes'', True) # post
    \<and> (\<exists>r. map_of (cs_rows s) ''c'' = Some r \<and> (Read_answer ''c'' (pc_subject r) (pc_question r) a, True) \<in> set pre)"
proof -
  obtain s pre post where s: "consent_reachable s" "cs_calls s = pre @ (Send_reply ''c'' ''ann'' ''t'' ''Yes'', True) # post" using sample_consent by blast
  show ?thesis using s reply_needs_answer[OF s] by blast
qed

end
