(* ===== verification/Root_Notification.thy ===== *)
theory Root_Notification
  imports Root_Consent
begin

text \<open>
  The notifications root Kenan sends (the second half of \<open>packages/kenan-root/src/consent.ts\<close>). A notification is a
  durable row under an identity of its root session and tool call; it is accounted for first, then handed to the
  delivery bridge. Operations on one row are serial; the process may stop after any call or save of one. The input
  is the record of its four fields, so equal inputs are those with equal JSON text in the order of the record.
\<close>

section \<open>Rows and calls\<close>

record notification_input =
  ni_recipient :: string
  ni_text :: string
  ni_subjects :: "string list"
  ni_private :: bool

record pending_notification =
  pn_id :: string
  pn_root :: string
  pn_input :: notification_input
  pn_state :: string
  pn_error :: "string option"

datatype note_call = Log_notification string string notification_input | Send_notification string string string

datatype note_action = Note_call note_call bool | Save_note pending_notification

record note_world =
  nw_log :: "(memory_error \<times> string) + unit"
  nw_bridge :: bool
  nw_sent :: "unit consent_result"

type_synonym note_run = "note_action list \<times> pending_notification \<times> unit consent_result"

definition note_logged :: "note_world \<Rightarrow> pending_notification \<Rightarrow> note_run" where
  "note_logged w row =
     (if \<not> nw_bridge w then ([], row, Inl ''Notification delivery bridge is unavailable'')
      else let sent = Note_call (Send_notification (pn_id row) (ni_recipient (pn_input row)) (ni_text (pn_input row))) (is_ok (nw_sent w)) in
        (case nw_sent w of
           Inl m \<Rightarrow> ([sent], row, Inl m)
         | Inr _ \<Rightarrow> (let row' = row\<lparr>pn_state := ''delivered'', pn_error := None\<rparr> in ([sent, Save_note row'], row', Inr ()))))"

definition note_queued :: "note_world \<Rightarrow> pending_notification \<Rightarrow> note_run" where
  "note_queued w row =
     (let logged = Note_call (Log_notification (pn_root row) (pn_id row) (pn_input row)) (is_ok (nw_log w)) in
      case nw_log w of
        Inl (e, m) \<Rightarrow> ([logged], (if e = Memory_invalid_request \<or> e = Memory_unauthenticated then row\<lparr>pn_state := ''failed''\<rparr> else row), Inl m)
      | Inr _ \<Rightarrow> (let row' = row\<lparr>pn_state := ''logged'', pn_error := None\<rparr>; (acts, row'', res) = note_logged w row' in
          (logged # Save_note row' # acts, row'', res)))"

definition rejected_text :: "pending_notification \<Rightarrow> string" where
  "rejected_text row = (case pn_error row of Some m \<Rightarrow> m | None \<Rightarrow> ''Notification was rejected; nothing was delivered'')"

definition advanceNotification :: "note_world \<Rightarrow> pending_notification \<Rightarrow> note_run" where
  "advanceNotification w row =
     (if pn_state row = ''queued'' then note_queued w row
      else if pn_state row = ''logged'' then note_logged w row
      else if pn_state row = ''delivered'' then ([], row, Inr ())
      else if pn_state row = ''failed'' then ([], row, Inl (rejected_text row))
      else ([], row, Inl ''Invalid stored notification state; nothing was delivered''))"

text \<open>An advance and the saving of what it failed with.\<close>

definition settle_note :: "note_world \<Rightarrow> pending_notification \<Rightarrow> note_action list \<times> pending_notification" where
  "settle_note w row = (case advanceNotification w row of
     (acts, row', Inr _) \<Rightarrow> (acts, row')
   | (acts, row', Inl m) \<Rightarrow> (let row'' = row'\<lparr>pn_error := Some m\<rparr> in (acts @ [Save_note row''], row'')))"

definition notification_valid :: "string \<Rightarrow> notification_input \<Rightarrow> bool" where
  "notification_valid tool input = (tool \<noteq> [] \<and> person_id (ni_recipient input) \<and> \<not> blank (ni_text input) \<and> utf8_length (ni_text input) \<le> 24000
     \<and> ni_subjects input \<noteq> [] \<and> length (ni_subjects input) \<le> 100 \<and> list_all person_id (ni_subjects input))"

text \<open>\<open>notify\<close> on the row stored under the identity, if any: its actions and its answer, whether the notification was
  delivered and its identity.\<close>

definition notify :: "bool \<Rightarrow> note_world \<Rightarrow> string \<Rightarrow> string \<Rightarrow> string \<Rightarrow> notification_input \<Rightarrow> pending_notification option
    \<Rightarrow> note_action list \<times> (bool \<times> string) consent_result" where
  "notify enabled w ident root tool input stored =
     (if \<not> enabled then ([], Inl ''Root notifications are disabled; nothing was queued'')
      else if \<not> notification_valid tool input then ([], Inl ''Notification requires a registered recipient, exact text, subjects and privacy classification'')
      else let row = (case stored of Some r \<Rightarrow> r | None \<Rightarrow> \<lparr>pn_id = ident, pn_root = root, pn_input = input, pn_state = ''queued'', pn_error = None\<rparr>) in
        if pn_input row \<noteq> input then ([], Inl ''This notification identity already belongs to different content'')
        else let (acts, row') = settle_note w row; first = (case stored of None \<Rightarrow> [Save_note row] | Some _ \<Rightarrow> []) in
          (first @ acts, if pn_state row' = ''failed'' then Inl (rejected_text row') else Inr (pn_state row' = ''delivered'', ident)))"

section \<open>One identity over its whole life\<close>

record note_system =
  ns_row :: "pending_notification option"
  ns_calls :: "(note_call \<times> bool) list"

fun note_act :: "note_action \<Rightarrow> note_system \<Rightarrow> note_system" where
  "note_act (Note_call c ok) s = s\<lparr>ns_calls := ns_calls s @ [(c, ok)]\<rparr>"
| "note_act (Save_note r) s = s\<lparr>ns_row := Some r\<rparr>"

text \<open>An operation runs to its end or the process stops after \<open>n\<close> of its actions.\<close>

inductive note_step :: "string \<Rightarrow> string \<Rightarrow> note_system \<Rightarrow> note_system \<Rightarrow> bool" for ident root where
  ns_notify: "note_step ident root s (fold note_act (take n (fst (notify enabled w ident root tool input (ns_row s)))) s)"
| ns_drain: "ns_row s = Some row \<Longrightarrow> pn_state row \<notin> {''delivered'', ''failed''} \<Longrightarrow>
    note_step ident root s (fold note_act (take n (fst (settle_note w row))) s)"

inductive note_reachable :: "string \<Rightarrow> string \<Rightarrow> note_system \<Rightarrow> bool" for ident root where
  ns_start: "note_reachable ident root \<lparr>ns_row = None, ns_calls = []\<rparr>"
| ns_next: "note_reachable ident root s \<Longrightarrow> note_step ident root s s' \<Longrightarrow> note_reachable ident root s'"

section \<open>Accounted for before it is sent\<close>

definition accounted :: "pending_notification \<Rightarrow> (note_call \<times> bool) list \<Rightarrow> bool" where
  "accounted row cs = ((Log_notification (pn_root row) (pn_id row) (pn_input row), True) \<in> set cs)"

definition is_send :: "note_call \<Rightarrow> bool" where
  "is_send c = (case c of Send_notification _ _ _ \<Rightarrow> True | Log_notification _ _ _ \<Rightarrow> False)"

text \<open>What a row's state says of the calls so far.\<close>

definition note_row_ok :: "pending_notification \<Rightarrow> (note_call \<times> bool) list \<Rightarrow> bool" where
  "note_row_ok row cs = ((pn_state row = ''queued'' \<or> pn_state row = ''failed'' \<longrightarrow> (\<forall>p\<in>set cs. \<not> is_send (fst p)))
     \<and> (pn_state row = ''logged'' \<or> pn_state row = ''delivered'' \<longrightarrow> accounted row cs)
     \<and> pn_state row \<in> {''queued'', ''logged'', ''delivered'', ''failed''})"

definition note_calls_ok :: "pending_notification \<Rightarrow> (note_call \<times> bool) list \<Rightarrow> bool" where
  "note_calls_ok row cs = (\<forall>pre c ok post. cs = pre @ (c, ok) # post \<longrightarrow> is_send c \<longrightarrow>
     c = Send_notification (pn_id row) (ni_recipient (pn_input row)) (ni_text (pn_input row)) \<and> accounted row pre)"

definition note_sound :: "string \<Rightarrow> string \<Rightarrow> note_system \<Rightarrow> bool" where
  "note_sound ident root s = (case ns_row s of None \<Rightarrow> ns_calls s = []
     | Some row \<Rightarrow> pn_id row = ident \<and> pn_root row = root \<and> note_row_ok row (ns_calls s) \<and> note_calls_ok row (ns_calls s))"

definition same_note :: "pending_notification \<Rightarrow> pending_notification \<Rightarrow> bool" where
  "same_note r r' = (pn_id r' = pn_id r \<and> pn_root r' = pn_root r \<and> pn_input r' = pn_input r)"

fun ok_notes :: "pending_notification \<Rightarrow> (note_call \<times> bool) list \<Rightarrow> note_action list \<Rightarrow> bool" where
  "ok_notes r cs [] = True"
| "ok_notes r cs (Note_call c ok # acts) =
     (note_row_ok r (cs @ [(c, ok)]) \<and> (is_send c \<longrightarrow> c = Send_notification (pn_id r) (ni_recipient (pn_input r)) (ni_text (pn_input r)) \<and> accounted r cs) \<and> ok_notes r (cs @ [(c, ok)]) acts)"
| "ok_notes r cs (Save_note r' # acts) = (same_note r r' \<and> note_row_ok r' cs \<and> ok_notes r' cs acts)"

lemma accounted_same: "same_note r r' \<Longrightarrow> accounted r' cs = accounted r cs"
  by (simp add: same_note_def accounted_def)

lemma note_calls_same: "same_note r r' \<Longrightarrow> note_calls_ok r' cs = note_calls_ok r cs"
  using accounted_same[of r r'] by (simp add: note_calls_ok_def same_note_def)

lemma note_calls_snoc:
  assumes "note_calls_ok r cs" "is_send c \<longrightarrow> c = Send_notification (pn_id r) (ni_recipient (pn_input r)) (ni_text (pn_input r)) \<and> accounted r cs"
  shows "note_calls_ok r (cs @ [(c, ok)])"
  unfolding note_calls_ok_def
proof (intro allI impI)
  fix pre d ok' post
  assume cut: "cs @ [(c, ok)] = pre @ (d, ok') # post" and send: "is_send d"
  show "d = Send_notification (pn_id r) (ni_recipient (pn_input r)) (ni_text (pn_input r)) \<and> accounted r pre"
  proof (cases post rule: rev_cases)
    case Nil
    then show ?thesis using cut send assms(2) by simp
  next
    case (snoc ys y)
    then have "cs = pre @ (d, ok') # ys" using cut by simp
    then show ?thesis using assms(1) send unfolding note_calls_ok_def by blast
  qed
qed

lemma ok_notes_sound:
  "ok_notes r cs acts \<Longrightarrow> note_sound ident root \<lparr>ns_row = Some r, ns_calls = cs\<rparr> \<Longrightarrow>
    note_sound ident root (fold note_act (take n acts) \<lparr>ns_row = Some r, ns_calls = cs\<rparr>)"
proof (induction r cs acts arbitrary: n rule: ok_notes.induct)
  case (2 r cs c ok acts)
  have "note_calls_ok r (cs @ [(c, ok)])" by (rule note_calls_snoc) (use 2(2,3) in \<open>simp_all add: note_sound_def\<close>)
  then have "note_sound ident root \<lparr>ns_row = Some r, ns_calls = cs @ [(c, ok)]\<rparr>" using 2(2,3) by (simp add: note_sound_def)
  then show ?case using 2(1)[of "n - 1"] 2(2,3) by (cases n) simp_all
next
  case (3 r cs r' acts)
  have "note_sound ident root \<lparr>ns_row = Some r', ns_calls = cs\<rparr>"
    using 3(2,3) note_calls_same[of r r' cs] by (simp add: note_sound_def same_note_def)
  then show ?case using 3(1)[of "n - 1"] 3(2,3) by (cases n) simp_all
qed simp

lemma not_send_log [simp]: "is_send (Log_notification a b c) = False" "is_send (Send_notification x y z) = True"
  by (simp_all add: is_send_def)

lemma accounted_append: "accounted r cs \<Longrightarrow> accounted r (cs @ ds)"
  by (simp add: accounted_def)

lemma accounted_update [simp]: "accounted (r\<lparr>pn_state := st, pn_error := e\<rparr>) cs = accounted r cs" "accounted (r\<lparr>pn_error := e\<rparr>) cs = accounted r cs"
  "accounted (r\<lparr>pn_state := st\<rparr>) cs = accounted r cs"
  by (simp_all add: accounted_def)

lemma ok_logged:
  assumes "pn_state r = ''logged''" "accounted r cs" "note_logged w r = (acts, r', res)"
  shows "ok_notes r cs acts \<and> (\<forall>m. res = Inl m \<longrightarrow> ok_notes r cs (acts @ [Save_note (r'\<lparr>pn_error := Some m\<rparr>)]))"
  using assms accounted_append[OF assms(2)]
  by (cases "nw_bridge w"; cases "nw_sent w") (auto simp: note_logged_def Let_def note_row_ok_def same_note_def)

lemma ok_queued:
  assumes "pn_state r = ''queued''" "note_row_ok r cs" "note_queued w r = (acts, r', res)"
  shows "ok_notes r cs acts \<and> (\<forall>m. res = Inl m \<longrightarrow> ok_notes r cs (acts @ [Save_note (r'\<lparr>pn_error := Some m\<rparr>)]))"
proof (cases "nw_log w")
  case (Inl p)
  obtain e m where p: "p = (e, m)" by fastforce
  show ?thesis using assms Inl p
    by (cases "e = Memory_invalid_request \<or> e = Memory_unauthenticated") (auto simp: note_queued_def note_row_ok_def same_note_def)
next
  case (Inr u)
  let ?l = "(Log_notification (pn_root r) (pn_id r) (pn_input r), True)" and ?r = "r\<lparr>pn_state := ''logged'', pn_error := None\<rparr>"
  obtain as r2 res2 where more_acts: "note_logged w ?r = (as, r2, res2)" by (metis prod.exhaust)
  have acts: "acts = Note_call (fst ?l) True # Save_note ?r # as" "r' = r2" "res = res2" using assms(3) Inr more_acts by (auto simp: note_queued_def)
  have "accounted ?r (cs @ [?l])" by (simp add: accounted_def)
  note rest = ok_logged[OF _ this more_acts]
  have "note_row_ok ?r (cs @ [?l])" "note_row_ok r (cs @ [?l])" using assms(1,2) by (simp_all add: note_row_ok_def accounted_def)
  then show ?thesis using rest by (auto simp: acts same_note_def)
qed

lemma ok_settle: "note_row_ok r cs \<Longrightarrow> ok_notes r cs (fst (settle_note w r))"
proof -
  assume ok: "note_row_ok r cs"
  obtain acts r' res where run: "advanceNotification w r = (acts, r', res)" by (metis prod.exhaust)
  have saved: "same_note r (r\<lparr>pn_error := e\<rparr>) \<and> note_row_ok (r\<lparr>pn_error := e\<rparr>) cs" for e using ok by (simp add: same_note_def note_row_ok_def)
  have "ok_notes r cs acts \<and> (\<forall>m. res = Inl m \<longrightarrow> ok_notes r cs (acts @ [Save_note (r'\<lparr>pn_error := Some m\<rparr>)]))"
  proof -
    consider "pn_state r = ''queued''" | "pn_state r = ''logged''" | "pn_state r = ''delivered''" | "pn_state r = ''failed''"
      using ok by (auto simp: note_row_ok_def)
    then show ?thesis
    proof cases
      case 1
      then show ?thesis using ok_queued[OF 1 ok] run by (simp add: advanceNotification_def)
    next
      case 2
      then show ?thesis using ok_logged[OF 2] ok run by (simp add: advanceNotification_def note_row_ok_def)
    qed (use run saved in \<open>auto simp: advanceNotification_def\<close>)
  qed
  then show ?thesis using run by (cases res) (simp_all add: settle_note_def Let_def)
qed

lemma note_step_sound:
  assumes "note_step ident root s s'" "note_sound ident root s"
  shows "note_sound ident root s'"
  using assms
proof (cases rule: note_step.cases)
  case (ns_notify n enabled w tool input)
  let ?new = "\<lparr>pn_id = ident, pn_root = root, pn_input = input, pn_state = ''queued'', pn_error = None\<rparr>"
  show ?thesis
  proof (cases "ns_row s")
    case None
    then have s: "s = \<lparr>ns_row = None, ns_calls = []\<rparr>" using assms(2) by (cases s) (simp add: note_sound_def)
    have new: "note_row_ok ?new []" "note_sound ident root \<lparr>ns_row = Some ?new, ns_calls = []\<rparr>" by (simp_all add: note_row_ok_def note_calls_ok_def note_sound_def)
    have acts: "fst (notify enabled w ident root tool input None) \<in> {[], Save_note ?new # fst (settle_note w ?new)}"
      by (simp add: notify_def Let_def split: prod.split)
    show ?thesis
      using acts ok_notes_sound[OF ok_settle[OF new(1), of w] new(2), of "n - 1"] assms(2) ns_notify None s
      by (cases n) auto
  next
    case (Some row)
    then have s: "s = \<lparr>ns_row = Some row, ns_calls = ns_calls s\<rparr>" by (cases s) simp
    have ok: "note_row_ok row (ns_calls s)" using assms(2) Some by (simp add: note_sound_def)
    have acts: "fst (notify enabled w ident root tool input (Some row)) \<in> {[], fst (settle_note w row)}"
      by (simp add: notify_def Let_def split: prod.split)
    show ?thesis
      using acts ok_notes_sound[OF ok_settle[OF ok, of w], of ident root n] assms(2) ns_notify Some s by auto
  qed
next
  case (ns_drain row n w)
  then have s: "s = \<lparr>ns_row = Some row, ns_calls = ns_calls s\<rparr>" by (cases s) simp
  have ok: "note_row_ok row (ns_calls s)" using assms(2) ns_drain by (simp add: note_sound_def)
  show ?thesis using ok_notes_sound[OF ok_settle[OF ok, of w], of ident root n] assms(2) ns_drain s by metis
qed

lemma note_reachable_sound: "note_reachable ident root s \<Longrightarrow> note_sound ident root s"
proof (induction rule: note_reachable.induct)
  case ns_start
  show ?case by (simp add: note_sound_def)
next
  case (ns_next s s')
  then show ?case using note_step_sound by blast
qed



end
