(* ===== verification/Completion_Contract.thy ===== *)
theory Completion_Contract
  imports Thread_Settings
begin

text \<open>
  The wire contract of completions (\<open>packages/orchestrator/src/completion-contract.ts\<close>): a request with its input, the
  receipt a worker returns for one execution of it, and the public record. The schemas are the readers from
  JavaScript values; what they accept is a typed value, and two accepted values have the same canonical text when
  they are equal. Free-form fields (the metadata and a response schema) stay JavaScript values.
\<close>

section \<open>Checked fields\<close>

text \<open>An object with no other fields, a required field, and an optional one that may be absent.\<close>

definition closed_object :: "string list \<Rightarrow> js \<Rightarrow> bool" where
  "closed_object keys v = (is_object v \<and> list_all (\<lambda>p. fst p \<in> set keys) (fields_of v))"

definition optional_field :: "(js \<Rightarrow> 'a option) \<Rightarrow> js \<Rightarrow> string \<Rightarrow> 'a option option" where
  "optional_field f v k = (if js_get v k = JUndef then Some None else map_option Some (f (js_get v k)))"

definition read_string :: "js \<Rightarrow> string option" where
  "read_string v = (case v of JStr s \<Rightarrow> Some s | _ \<Rightarrow> None)"

definition read_literal :: "string list \<Rightarrow> js \<Rightarrow> string option" where
  "read_literal allowed v = (case v of JStr s \<Rightarrow> if s \<in> set allowed then Some s else None | _ \<Rightarrow> None)"

definition read_bool :: "js \<Rightarrow> bool option" where
  "read_bool v = (case v of JBool b \<Rightarrow> Some b | _ \<Rightarrow> None)"

definition read_integer :: "int \<Rightarrow> int option \<Rightarrow> js \<Rightarrow> int option" where
  "read_integer low high v = (case v of
     JNum (NInt i) \<Rightarrow> if low \<le> i \<and> (case high of None \<Rightarrow> True | Some h \<Rightarrow> i \<le> h) then Some i else None
   | _ \<Rightarrow> None)"

definition read_object :: "js \<Rightarrow> js option" where
  "read_object v = (if is_object v then Some v else None)"

section \<open>Requests\<close>

record response_format =
  rf_name :: string
  rf_schema :: js
  rf_strict :: "bool option"

record completion_input =
  ci_prompt :: string
  ci_system :: "string option"
  ci_thinking :: "string option"
  ci_speed :: "string option"
  ci_max :: "int option"
  ci_format :: "response_format option"
  ci_metadata :: "js option"

definition request_rx :: rx where
  "request_rx = Seq [Start, Rep 1 (Some 256) (Chars (''ABCDEFGHIJKLMNOPQRSTUVWXYZabcdefghijklmnopqrstuvwxyz0123456789._:-'') False), Finish]"

definition isCompletionRequestId :: "string \<Rightarrow> bool" where
  "isCompletionRequestId s = (s \<noteq> ''openapi.json'' \<and> rx_test request_rx s)"

definition format_name_rx :: rx where
  "format_name_rx = Seq [Start, Rep 1 (Some 64) (Chars (''ABCDEFGHIJKLMNOPQRSTUVWXYZabcdefghijklmnopqrstuvwxyz0123456789_-'') False), Finish]"

definition read_format :: "js \<Rightarrow> response_format option" where
  "read_format v =
     (if \<not> closed_object [''type'', ''name'', ''schema'', ''strict''] v \<or> js_get v ''type'' \<noteq> JStr ''json_schema'' then None
      else (case (read_string (js_get v ''name''), read_object (js_get v ''schema''), optional_field read_bool v ''strict'') of
        (Some name, Some schema, Some strict) \<Rightarrow> if rx_test format_name_rx name then Some \<lparr>rf_name = name, rf_schema = schema, rf_strict = strict\<rparr> else None
      | _ \<Rightarrow> None))"

definition completion_thinking :: "string list" where
  "completion_thinking = [''off'', ''minimal'', ''low'', ''medium'', ''high'', ''xhigh'', ''max'']"

definition read_completion_input :: "js \<Rightarrow> completion_input option" where
  "read_completion_input v =
     (if \<not> closed_object [''model'', ''prompt'', ''systemPrompt'', ''thinkingLevel'', ''speed'', ''maxOutputTokens'', ''responseFormat'', ''metadata''] v \<or> js_get v ''model'' \<noteq> JStr ''luna'' then None
      else (case (read_string (js_get v ''prompt''), optional_field read_string v ''systemPrompt'', optional_field (read_literal completion_thinking) v ''thinkingLevel'',
                  optional_field (read_literal [''standard'', ''priority'']) v ''speed'', optional_field (read_integer 1 None) v ''maxOutputTokens'',
                  optional_field read_format v ''responseFormat'', optional_field read_object v ''metadata'') of
        (Some prompt, Some system, Some thinking, Some speed, Some maximum, Some shape, Some metadata) \<Rightarrow>
          if prompt = [] then None
          else Some \<lparr>ci_prompt = prompt, ci_system = system, ci_thinking = thinking, ci_speed = speed, ci_max = maximum, ci_format = shape, ci_metadata = metadata\<rparr>
      | _ \<Rightarrow> None))"

section \<open>Receipts\<close>

record completion_usage =
  cu_input :: int
  cu_output :: int
  cu_cache_read :: int
  cu_cache_write :: int
  cu_total :: int
  cu_reasoning :: "int option"

record completion_result =
  cr_text :: string
  cr_provider :: string
  cr_model :: string
  cr_response :: "string option"
  cr_usage :: completion_usage
  cr_stop :: string

record completion_error =
  er_code :: string
  er_message :: string
  er_status :: "int option"
  er_retry :: "int option"

datatype completion_execution = Completed completion_result | Failed completion_error | Cancelled completion_error | Indeterminate completion_error

definition read_tokens :: "js \<Rightarrow> int option" where
  "read_tokens = read_integer 0 (Some max_safe)"

definition read_usage :: "js \<Rightarrow> completion_usage option" where
  "read_usage v =
     (if \<not> closed_object [''input'', ''output'', ''cacheRead'', ''cacheWrite'', ''totalTokens'', ''reasoning''] v then None
      else (case (read_tokens (js_get v ''input''), read_tokens (js_get v ''output''), read_tokens (js_get v ''cacheRead''), read_tokens (js_get v ''cacheWrite''),
                  read_tokens (js_get v ''totalTokens''), optional_field read_tokens v ''reasoning'') of
        (Some i, Some out, Some r, Some w, Some t, Some thought) \<Rightarrow>
          Some \<lparr>cu_input = i, cu_output = out, cu_cache_read = r, cu_cache_write = w, cu_total = t, cu_reasoning = thought\<rparr>
      | _ \<Rightarrow> None))"

definition read_result :: "js \<Rightarrow> completion_result option" where
  "read_result v =
     (if \<not> closed_object [''text'', ''provider'', ''model'', ''responseId'', ''usage'', ''stopReason''] v then None
      else (case (read_string (js_get v ''text''), read_string (js_get v ''provider''), read_string (js_get v ''model''), optional_field read_string v ''responseId'',
                  read_usage (js_get v ''usage''), read_literal [''stop'', ''length''] (js_get v ''stopReason'')) of
        (Some words, Some provider, Some model, Some response, Some usage, Some stop) \<Rightarrow>
          Some \<lparr>cr_text = words, cr_provider = provider, cr_model = model, cr_response = response, cr_usage = usage, cr_stop = stop\<rparr>
      | _ \<Rightarrow> None))"

text \<open>The statuses an error code answers with; a code without one is unknown.\<close>

definition completion_statuses :: "(string \<times> int) list" where
  "completion_statuses =
     [(''invalid-request'', 400), (''unsupported-option'', 422), (''not-found'', 404), (''request-conflict'', 409), (''invalid-state'', 409),
      (''provider'', 500), (''authentication'', 500), (''cancelled'', 500), (''indeterminate'', 500), (''missing-provider-evidence'', 500),
      (''transport'', 500), (''protocol'', 500), (''rate-limited'', 500), (''model-disabled'', 403), (''model-policy-unavailable'', 503)]"

definition completionHttpStatus :: "string \<Rightarrow> string + int" where
  "completionHttpStatus code = (case map_of completion_statuses code of
     None \<Rightarrow> Inl (''Unknown completion error code: '' @ code) | Some status \<Rightarrow> Inr status)"

definition completion_codes :: "string list" where
  "completion_codes = [''invalid-request'', ''unsupported-option'', ''not-found'', ''request-conflict'', ''invalid-state'', ''provider'', ''authentication'', ''cancelled'',
     ''indeterminate'', ''missing-provider-evidence'', ''transport'', ''protocol'', ''rate-limited'', ''model-disabled'', ''model-policy-unavailable'']"

definition read_error :: "js \<Rightarrow> completion_error option" where
  "read_error v =
     (if \<not> closed_object [''code'', ''message'', ''httpStatus'', ''retryAfterMs''] v then None
      else (case (read_literal completion_codes (js_get v ''code''), read_string (js_get v ''message''), optional_field (read_integer 100 (Some 599)) v ''httpStatus'',
                  optional_field (read_integer 0 None) v ''retryAfterMs'') of
        (Some code, Some message, Some status, Some wait) \<Rightarrow> Some \<lparr>er_code = code, er_message = message, er_status = status, er_retry = wait\<rparr>
      | _ \<Rightarrow> None))"

definition read_execution :: "js \<Rightarrow> completion_execution option" where
  "read_execution v =
     (if closed_object [''state'', ''result''] v \<and> js_get v ''state'' = JStr ''completed'' then map_option Completed (read_result (js_get v ''result''))
      else if \<not> closed_object [''state'', ''error''] v then None
      else if js_get v ''state'' = JStr ''failed'' then map_option Failed (read_error (js_get v ''error''))
      else if js_get v ''state'' = JStr ''cancelled'' then map_option Cancelled (read_error (js_get v ''error''))
      else if js_get v ''state'' = JStr ''indeterminate'' then map_option Indeterminate (read_error (js_get v ''error''))
      else None)"

definition completionError :: "string \<Rightarrow> string \<Rightarrow> completion_error" where
  "completionError code message = \<lparr>er_code = code, er_message = message, er_status = None, er_retry = None\<rparr>"

section \<open>Records\<close>

datatype completion_state = Comp_queued | Comp_running | Comp_ended completion_execution

record completion_record =
  co_request :: string
  co_run :: string
  co_metadata :: "js option"
  co_created :: int
  co_updated :: int
  co_attempts :: "int option"
  co_retry :: "int option"
  co_state :: completion_state

record completion_attempt =
  ca_account :: "string option"
  ca_provider :: "string option"
  ca_model :: "string option"
  ca_started :: int

text \<open>Every code an accepted error may have is answered with a status.\<close>

lemma accepted_code_answered:
  assumes "read_error v = Some e"
  shows "\<exists>status. completionHttpStatus (er_code e) = Inr status \<and> 400 \<le> status \<and> status \<le> 503"
proof -
  have "er_code e \<in> set completion_codes"
    using assms by (auto simp: read_error_def read_literal_def split: if_splits option.splits js.splits)
  then show ?thesis by (auto simp: completion_codes_def completionHttpStatus_def completion_statuses_def)
qed

end
