(* ===== verification/Run_Store.thy ===== *)
theory Run_Store
  imports Completion_Contract
begin

text \<open>
  The orchestrator's ledger (\<open>packages/orchestrator/src/store.ts\<close>) as far as admission and completions use it: accounts
  with their cooldowns, runs, leases, usage, and the control values, each kind of key a map of its own. An
  operation takes the time it runs at; a whole operation is one transaction, so what throws leaves the store as it
  was. Queries are reads of the maps. Identifiers of runs are unique by their primary key.
\<close>

section \<open>Tables\<close>

record account_reservation =
  res_metadata :: "(string \<times> string) list"
  res_reason :: string

record account_row =
  ac_provider :: string
  ac_enabled :: bool
  ac_cooldown :: "int option"
  ac_voice :: bool
  ac_reservation :: "account_reservation option"

definition allowsAccountUse :: "account_row \<Rightarrow> string \<Rightarrow> bool" where
  "allowsAccountUse account kind = (ac_enabled account \<and> (\<not> ac_voice account \<or> kind = ''voice'') \<and> (ac_reservation account = None \<or> kind = ''fleet''))"

record cooldown_evidence =
  ce_until :: int
  ce_at :: int
  ce_models :: "string list"

datatype run_state = Run_queued | Run_starting | Run_running | Run_done | Run_failed | Run_aborted

record run_row =
  rn_prompt :: string
  rn_profile :: string
  rn_account :: "string option"
  rn_provider :: "string option"
  rn_model :: "string option"
  rn_thinking :: "string option"
  rn_state :: run_state
  rn_failure :: "string option"
  rn_result :: "string option"
  rn_unit :: "string option"
  rn_release :: "string option"
  rn_created :: int
  rn_started :: "int option"
  rn_updated :: int
  rn_progress :: "int option"
  rn_ended :: "int option"

record lease_row =
  le_account :: string
  le_kind :: string
  le_run :: "string option"
  le_started :: int
  le_beat :: int
  le_ended :: "int option"

record completion_access =
  cx_principal :: string
  cx_accounts :: "string list"
  cx_models :: "string list"

record stored_completion =
  sc_input :: completion_input
  sc_access :: "completion_access option"
  sc_record :: completion_record
  sc_attempt :: "string option"
  sc_receipt :: "completion_execution option"
  sc_count :: "int option"

record completion_feedback =
  fb_limit :: int
  fb_blocked :: int
  fb_rejections :: int
  fb_successes :: int

record meter_row =
  mt_meter :: string
  mt_observed :: int
  mt_used :: int

record broker_grant =
  bg_accounts :: "string list"
  bg_models :: "string list"

record run_store =
  rs_accounts :: "(string \<times> account_row) list"
  rs_evidence :: "(string \<times> cooldown_evidence) list"
  rs_recoveries :: "(string \<times> (int \<times> cooldown_evidence)) list"
  rs_meters :: "(string \<times> meter_row) list"
  rs_runs :: "(string \<times> run_row) list"
  rs_leases :: "(string \<times> lease_row) list"
  rs_usage :: "((string \<times> int \<times> string \<times> string \<times> string \<times> string) \<times> int) list"
  rs_completions :: "(string \<times> stored_completion) list"
  rs_requests :: "(string \<times> string) list"
  rs_attempts :: "((string \<times> string) \<times> completion_attempt) list"
  rs_receipts :: "((string \<times> string) \<times> completion_execution) list"
  rs_recovered :: "((string \<times> string) \<times> string) list"
  rs_feedback :: "(string \<times> completion_feedback) list"
  rs_grants :: "(string \<times> broker_grant) list"
  rs_affinity :: "((string \<times> string \<times> string) \<times> string) list"
  rs_unsupported :: "((string \<times> string) \<times> int) list"
  rs_control :: "(string \<times> string) list"

definition control_value :: "string \<Rightarrow> run_store \<Rightarrow> string option" where
  "control_value k s = map_of (rs_control s) k"

definition setControl :: "string \<Rightarrow> string \<Rightarrow> run_store \<Rightarrow> run_store" where
  "setControl k v s = s\<lparr>rs_control := map_put k v (rs_control s)\<rparr>"

section \<open>Cooldowns\<close>

text \<open>The distinct elements in the order of their first appearance.\<close>

definition unique :: "'a list \<Rightarrow> 'a list" where
  "unique xs = rev (remdups (rev xs))"

definition account_update :: "(account_row \<Rightarrow> account_row) \<Rightarrow> string \<Rightarrow> run_store \<Rightarrow> run_store" where
  "account_update f k s = (case map_of (rs_accounts s) k of None \<Rightarrow> s | Some a \<Rightarrow> s\<lparr>rs_accounts := map_put k (f a) (rs_accounts s)\<rparr>)"

definition cooldown_of :: "string \<Rightarrow> run_store \<Rightarrow> int option" where
  "cooldown_of k s = (case map_of (rs_accounts s) k of None \<Rightarrow> None | Some a \<Rightarrow> ac_cooldown a)"

definition or_zero :: "int option \<Rightarrow> int" where
  "or_zero x = (case x of None \<Rightarrow> 0 | Some i \<Rightarrow> i)"

definition setCooldown :: "string \<Rightarrow> int option \<Rightarrow> string option \<Rightarrow> int \<Rightarrow> run_store \<Rightarrow> run_store" where
  "setCooldown k until model at s =
     (let s' = account_update (ac_cooldown_update (\<lambda>_. until)) k s in
      case until of
        None \<Rightarrow> s'\<lparr>rs_evidence := map_del k (rs_evidence s')\<rparr>
      | Some u \<Rightarrow>
          if u \<le> at then s'\<lparr>rs_evidence := map_del k (rs_evidence s')\<rparr>
          else let prior = map_of (rs_evidence s') k; standing = or_zero (cooldown_of k s) > at;
                   held = (if standing then (case prior of None \<Rightarrow> [] | Some e \<Rightarrow> ce_models e) else []);
                   since = (if standing then (case prior of None \<Rightarrow> 0 | Some e \<Rightarrow> ce_at e) else 0) in
            s'\<lparr>rs_evidence := map_put k \<lparr>ce_until = u, ce_at = max at since, ce_models = unique (held @ (case model of None \<Rightarrow> [] | Some m \<Rightarrow> [m]))\<rparr> (rs_evidence s')\<rparr>)"

definition recordProviderSuccess :: "string \<Rightarrow> string \<Rightarrow> int \<Rightarrow> int \<Rightarrow> run_store \<Rightarrow> bool \<times> run_store" where
  "recordProviderSuccess k model started now s =
     (if model = [] then (False, s)
      else case map_of (rs_accounts s) k of
        None \<Rightarrow> (False, s)
      | Some row \<Rightarrow> (case ac_cooldown row of
          None \<Rightarrow> (False, s)
        | Some u \<Rightarrow>
            if u \<le> now then (False, s)
            else (case map_of (rs_evidence s) k of
              None \<Rightarrow> (False, s)
            | Some e \<Rightarrow>
                if ce_until e \<noteq> u \<or> started \<le> ce_at e then (False, s)
                else if \<not> list_all (\<lambda>m. quotaScopeCovers (ac_provider row) model m) (ce_models e) then (False, s)
                else let s' = account_update (ac_cooldown_update (\<lambda>_. None)) k s in
                  (True, s'\<lparr>rs_evidence := map_del k (rs_evidence s'), rs_recoveries := map_put k (now, e) (rs_recoveries s')\<rparr>))))"

section \<open>Usage, leases and runs\<close>

definition recordUsage :: "string \<Rightarrow> int \<Rightarrow> string \<Rightarrow> string \<Rightarrow> string \<Rightarrow> string \<Rightarrow> int \<Rightarrow> run_store \<Rightarrow> run_store" where
  "recordUsage account hour source run model component tokens s =
     (let key = (account, hour, source, run, model, component) in
      s\<lparr>rs_usage := map_put key (or_zero (map_of (rs_usage s) key) + tokens) (rs_usage s)\<rparr>)"

definition run_lease :: "string \<Rightarrow> string" where
  "run_lease run = ''run:'' @ run"

definition endLease :: "string \<Rightarrow> int \<Rightarrow> run_store \<Rightarrow> run_store" where
  "endLease k at s = (case map_of (rs_leases s) k of
     Some l \<Rightarrow> if le_ended l = None then s\<lparr>rs_leases := map_put k (l\<lparr>le_ended := Some at\<rparr>) (rs_leases s)\<rparr> else s
   | None \<Rightarrow> s)"

definition heartbeatLease :: "string \<Rightarrow> int \<Rightarrow> run_store \<Rightarrow> run_store" where
  "heartbeatLease k at s = (case map_of (rs_leases s) k of
     Some l \<Rightarrow> if le_ended l = None then s\<lparr>rs_leases := map_put k (l\<lparr>le_beat := at\<rparr>) (rs_leases s)\<rparr> else s
   | None \<Rightarrow> s)"

text \<open>A new lease under a held name moves the old one to a name of its own, ended.\<close>

definition createLease :: "string \<Rightarrow> string \<Rightarrow> string \<Rightarrow> string \<Rightarrow> string option \<Rightarrow> int \<Rightarrow> run_store \<Rightarrow> run_store" where
  "createLease uuid k account kind run at s =
     (let new = \<lparr>le_account = account, le_kind = kind, le_run = run, le_started = at, le_beat = at, le_ended = None\<rparr> in
      case map_of (rs_leases s) k of
        None \<Rightarrow> s\<lparr>rs_leases := map_put k new (rs_leases s)\<rparr>
      | Some l \<Rightarrow>
          if le_ended l = None \<and> le_account l = account \<and> le_kind l = kind \<and> le_run l = run then heartbeatLease k at s
          else let old = l\<lparr>le_ended := (case le_ended l of None \<Rightarrow> Some at | Some t \<Rightarrow> Some t)\<rparr> in
            s\<lparr>rs_leases := map_put k new (map_put (k @ '':interval:'' @ uuid) old (map_del k (rs_leases s)))\<rparr>)"

definition run_over :: "run_state \<Rightarrow> bool" where
  "run_over st = (st = Run_done \<or> st = Run_failed \<or> st = Run_aborted)"

definition or_keep :: "'a option \<Rightarrow> 'a option \<Rightarrow> 'a option" where
  "or_keep new old = (case new of None \<Rightarrow> old | Some x \<Rightarrow> Some x)"

definition new_run :: "string \<Rightarrow> string \<Rightarrow> int \<Rightarrow> run_row" where
  "new_run words profile now = \<lparr>rn_prompt = words, rn_profile = profile, rn_account = None, rn_provider = None, rn_model = None, rn_thinking = None,
     rn_state = Run_queued, rn_failure = None, rn_result = None, rn_unit = None, rn_release = None, rn_created = now, rn_started = None, rn_updated = now,
     rn_progress = None, rn_ended = None\<rparr>"

text \<open>\<open>updateRun\<close> with the fields a caller may patch: the state, the progress time, the result and the kind of failure.\<close>

definition updateRun :: "string \<Rightarrow> run_state option \<Rightarrow> int option \<Rightarrow> string option \<Rightarrow> string option \<Rightarrow> int \<Rightarrow> run_store \<Rightarrow> string + run_store" where
  "updateRun k st progress result failure at s = (case map_of (rs_runs s) k of
     None \<Rightarrow> Inl (''unknown run '' @ k)
   | Some current \<Rightarrow>
       if run_over (rn_state current) then Inr s
       else let st' = (case st of None \<Rightarrow> rn_state current | Some x \<Rightarrow> x);
                row = current\<lparr>rn_state := st', rn_progress := or_keep progress (rn_progress current), rn_result := or_keep result (rn_result current),
                  rn_failure := or_keep failure (rn_failure current), rn_updated := at, rn_ended := (if run_over st' then Some at else None)\<rparr>;
                s' = s\<lparr>rs_runs := map_put k row (rs_runs s)\<rparr> in
         Inr (if run_over st' then endLease (run_lease k) at s' else s'))"

definition assignRun :: "string \<Rightarrow> string \<Rightarrow> string \<Rightarrow> string \<Rightarrow> string \<Rightarrow> string \<Rightarrow> string \<Rightarrow> int \<Rightarrow> run_store \<Rightarrow> bool \<times> run_store" where
  "assignRun uuid k account provider model worker release at s = (case map_of (rs_runs s) k of
     None \<Rightarrow> (False, s)
   | Some run \<Rightarrow>
       if rn_state run \<noteq> Run_queued \<or> rn_account run \<noteq> None then (False, s)
       else let asked = (case map_of (rs_requests s) k of None \<Rightarrow> None | Some r \<Rightarrow> (case map_of (rs_completions s) r of None \<Rightarrow> None | Some v \<Rightarrow> ci_thinking (sc_input v)));
                thinking = (if rn_provider run \<noteq> None \<and> rn_model run \<noteq> None then rn_thinking run else Some (case asked of None \<Rightarrow> admissionThinking provider model | Some t \<Rightarrow> t));
                row = run\<lparr>rn_account := Some account, rn_provider := Some provider, rn_model := Some model, rn_thinking := thinking, rn_unit := Some worker, rn_release := Some release,
                  rn_state := Run_starting, rn_started := or_keep (rn_started run) (Some at), rn_updated := at, rn_progress := Some at\<rparr> in
         (True, createLease uuid (run_lease k) account ''fleet'' (Some k) at (s\<lparr>rs_runs := map_put k row (rs_runs s)\<rparr>)))"

definition requeueRejectedCompletion :: "string \<Rightarrow> int \<Rightarrow> run_store \<Rightarrow> string + run_store" where
  "requeueRejectedCompletion k at s =
     (if map_of (rs_requests s) k = None then Inl (''Run '' @ k @ '' is not a completion'')
      else case map_of (rs_runs s) k of
        None \<Rightarrow> Inl ''Only rejected completion work can be requeued''
      | Some run \<Rightarrow>
          if rn_state run = Run_aborted \<or> rn_state run = Run_done then Inl ''Only rejected completion work can be requeued''
          else let s' = endLease (run_lease k) at s;
                   row = run\<lparr>rn_state := Run_queued, rn_account := None, rn_unit := None, rn_release := None, rn_started := None, rn_progress := None, rn_ended := None,
                     rn_failure := None, rn_result := None, rn_updated := at\<rparr> in
            Inr (s'\<lparr>rs_runs := map_put k row (rs_runs s')\<rparr>))"

definition finishCompletionRun :: "string \<Rightarrow> run_state \<Rightarrow> string \<Rightarrow> string option \<Rightarrow> int \<Rightarrow> run_store \<Rightarrow> string + run_store" where
  "finishCompletionRun k st result failure at s =
     (if map_of (rs_requests s) k = None then Inl (''Run '' @ k @ '' is not a completion'')
      else case map_of (rs_runs s) k of
        None \<Rightarrow> Inl (''Unknown completion run '' @ k)
      | Some current \<Rightarrow>
          if rn_state current = Run_aborted then Inr s
          else if \<not> run_over st then Inl ''A completion receipt must be terminal''
          else let row = current\<lparr>rn_state := st, rn_result := Some result, rn_failure := (if st = Run_done then None else failure), rn_updated := at, rn_ended := Some at\<rparr> in
            Inr (endLease (run_lease k) at (s\<lparr>rs_runs := map_put k row (rs_runs s)\<rparr>)))"

definition activeSessionLeases :: "string \<Rightarrow> int \<Rightarrow> run_store \<Rightarrow> lease_row list" where
  "activeSessionLeases account now s = filter (\<lambda>l. le_ended l = None \<and> le_beat l \<ge> now - 120000 \<and> le_account l = account
     \<and> (case le_run l of None \<Rightarrow> True | Some r \<Rightarrow> map_of (rs_requests s) r = None)) (map snd (rs_leases s))"

definition latestMeters :: "string \<Rightarrow> run_store \<Rightarrow> meter_row list" where
  "latestMeters account s = (let own = map snd (filter (\<lambda>p. fst p = account) (rs_meters s)) in
     filter (\<lambda>m. list_all (\<lambda>n. mt_meter n \<noteq> mt_meter m \<or> mt_observed n \<le> mt_observed m) own) own)"

section \<open>A later refusal survives an earlier success\<close>

text \<open>The refusals an account is held for, as they were reported: with the model refused, if known, and the time. They
  are forgotten when the account is released, and when a refusal arrives after the hold has run out.\<close>

type_synonym refusals = "(string option \<times> int) set"

definition after_cooldown :: "int option \<Rightarrow> string option \<Rightarrow> int \<Rightarrow> int option \<Rightarrow> refusals \<Rightarrow> refusals" where
  "after_cooldown until model at held G = (case until of
     None \<Rightarrow> {} | Some u \<Rightarrow> if u \<le> at then {} else insert (model, at) (if or_zero held > at then G else {}))"

inductive hold_reachable :: "string \<Rightarrow> run_store \<Rightarrow> refusals \<Rightarrow> bool" for k where
  hr_start: "map_of (rs_evidence s) k = None \<Longrightarrow> hold_reachable k s {}"
| hr_cooldown: "hold_reachable k s G \<Longrightarrow> hold_reachable k (setCooldown k until model at s) (after_cooldown until model at (cooldown_of k s) G)"
| hr_success: "hold_reachable k s G \<Longrightarrow> recordProviderSuccess k model started now s = (cleared, s') \<Longrightarrow> hold_reachable k s' (if cleared then {} else G)"
| hr_other: "hold_reachable k s G \<Longrightarrow> map_of (rs_evidence s') k = map_of (rs_evidence s) k \<Longrightarrow> cooldown_of k s' = cooldown_of k s \<Longrightarrow> hold_reachable k s' G"

definition held_for :: "cooldown_evidence option \<Rightarrow> refusals \<Rightarrow> bool" where
  "held_for e G = (case e of None \<Rightarrow> G = {} | Some e \<Rightarrow> \<forall>p\<in>G. snd p \<le> ce_at e \<and> (\<forall>m. fst p = Some m \<longrightarrow> m \<in> set (ce_models e)))"

lemma set_unique [simp]: "set (unique xs) = set xs"
  by (simp add: unique_def)

lemma evidence_update [simp]: "rs_evidence (account_update f k s) = rs_evidence s"
  by (simp add: account_update_def split: option.split)

lemma held_cooldown:
  assumes "held_for (map_of (rs_evidence s) k) G"
  shows "held_for (map_of (rs_evidence (setCooldown k until model at s)) k) (after_cooldown until model at (cooldown_of k s) G)"
proof (cases until)
  case None
  then show ?thesis by (simp add: setCooldown_def after_cooldown_def held_for_def)
next
  case (Some u)
  show ?thesis
  proof (cases "u \<le> at")
    case True
    then show ?thesis using Some by (simp add: setCooldown_def after_cooldown_def held_for_def Let_def)
  next
    case False
    show ?thesis
    proof (cases "or_zero (cooldown_of k s) > at")
      case True
      then show ?thesis using Some False assms
        by (cases "map_of (rs_evidence s) k") (auto simp: setCooldown_def after_cooldown_def held_for_def Let_def split: option.splits)
    next
      case no: False
      then show ?thesis using Some False by (auto simp: setCooldown_def after_cooldown_def held_for_def Let_def split: option.splits)
    qed
  qed
qed

lemma success_cases:
  assumes "recordProviderSuccess k model started now s = (cleared, s')"
  shows "\<not> cleared \<and> s' = s \<or> (\<exists>row u e. cleared \<and> map_of (rs_accounts s) k = Some row \<and> ac_cooldown row = Some u \<and> map_of (rs_evidence s) k = Some e \<and> ce_until e = u \<and> u > now
    \<and> ce_at e < started \<and> list_all (\<lambda>m. quotaScopeCovers (ac_provider row) model m) (ce_models e) \<and> map_of (rs_evidence s') k = None)"
proof (cases cleared)
  case False
  then show ?thesis using assms by (auto simp: recordProviderSuccess_def Let_def split: option.splits if_splits)
next
  case True
  obtain row where row: "map_of (rs_accounts s) k = Some row" using assms True by (cases "map_of (rs_accounts s) k") (auto simp: recordProviderSuccess_def split: if_splits)
  obtain u where u: "ac_cooldown row = Some u" using assms True row by (cases "ac_cooldown row") (auto simp: recordProviderSuccess_def split: if_splits)
  obtain e where e: "map_of (rs_evidence s) k = Some e" using assms True row u by (cases "map_of (rs_evidence s) k") (auto simp: recordProviderSuccess_def split: if_splits)
  show ?thesis using assms True row u e by (auto simp: recordProviderSuccess_def Let_def split: if_splits)
qed

lemma held_reachable: "hold_reachable k s G \<Longrightarrow> held_for (map_of (rs_evidence s) k) G"
proof (induction rule: hold_reachable.induct)
  case (hr_start s)
  then show ?case by (simp add: held_for_def)
next
  case (hr_cooldown s G until model at)
  then show ?case by (rule_tac held_cooldown)
next
  case (hr_success s G model started now cleared s')
  then show ?case using success_cases[OF hr_success(2)] by (auto simp: held_for_def)
next
  case (hr_other s G s')
  then show ?case by simp
qed

text \<open>C28: An earlier success never lifts a later refusal. Whatever refusals, releases and successes an account has seen, a
  success that clears its cooldown started after every refusal the account is held for, and for every refused model
  that is known it drew on all the quotas that model draws on.\<close>

theorem success_lifts_only_covered:
  assumes "hold_reachable k s G" "recordProviderSuccess k model started now s = (True, s')" "(refused, at) \<in> G"
  shows "at < started \<and> (\<forall>row m. map_of (rs_accounts s) k = Some row \<longrightarrow> refused = Some m \<longrightarrow> quotaScopeCovers (ac_provider row) model m)"
proof -
  obtain row e where e: "map_of (rs_accounts s) k = Some row" "map_of (rs_evidence s) k = Some e" "ce_at e < started"
    "list_all (\<lambda>m. quotaScopeCovers (ac_provider row) model m) (ce_models e)" using success_cases[OF assms(2)] by auto
  have "at \<le> ce_at e" "\<forall>m. refused = Some m \<longrightarrow> m \<in> set (ce_models e)"
    using held_reachable[OF assms(1)] assms(3) e(2) by (auto simp: held_for_def)
  then show ?thesis using e by (auto simp: list_all_iff)
qed

definition sample_account :: account_row where
  "sample_account = \<lparr>ac_provider = ''anthropic'', ac_enabled = True, ac_cooldown = None, ac_voice = False, ac_reservation = None\<rparr>"

definition empty_store :: run_store where
  "empty_store = \<lparr>rs_accounts = [(''a'', sample_account)], rs_evidence = [], rs_recoveries = [], rs_meters = [], rs_runs = [], rs_leases = [], rs_usage = [], rs_completions = [], rs_requests = [],
     rs_attempts = [], rs_receipts = [], rs_recovered = [], rs_feedback = [], rs_grants = [], rs_affinity = [], rs_unsupported = [], rs_control = []\<rparr>"

definition cooled_store :: run_store where
  "cooled_store = setCooldown ''a'' (Some 100) (Some ''claude-opus-5-5'') 5 empty_store"

lemma cooled_reachable: "hold_reachable ''a'' cooled_store {(Some ''claude-opus-5-5'', 5)}"
proof -
  have "hold_reachable ''a'' empty_store {}" by (rule hr_start) (simp add: empty_store_def)
  then have "hold_reachable ''a'' cooled_store (after_cooldown (Some 100) (Some ''claude-opus-5-5'') 5 (cooldown_of ''a'' empty_store) {})"
    unfolding cooled_store_def by (rule hr_cooldown)
  then show ?thesis by (simp add: after_cooldown_def)
qed

lemma cooled_lifted: "fst (recordProviderSuccess ''a'' ''claude-fable-5-1'' 6 7 cooled_store)"
  by code_simp

lemma success_lifts_only_covered_witness:
  "\<exists>s'. recordProviderSuccess ''a'' ''claude-fable-5-1'' 6 7 cooled_store = (True, s') \<and> (5::int) < 6"
proof -
  obtain s' where s': "recordProviderSuccess ''a'' ''claude-fable-5-1'' 6 7 cooled_store = (True, s')"
    using cooled_lifted by (cases "recordProviderSuccess ''a'' ''claude-fable-5-1'' 6 7 cooled_store") simp
  show ?thesis using s' success_lifts_only_covered[OF cooled_reachable s', of "Some ''claude-opus-5-5''" 5] by blast
qed

end
