(* ===== verification/Completion.thy ===== *)
theory Completion
  imports Run_Store
begin

text \<open>
  The completion service (\<open>packages/orchestrator/src/completion.ts\<close>) and the feedback of its accounts
  (\<open>completion-feedback.ts\<close>). A completion is one request to a provider: it is submitted under the caller's identifier, claimed by
  the worker of its run under an attempt identifier, and settled by the receipt of that attempt. Every operation is
  one transaction; what it throws leaves the store as it was, and what it answers, an error included, is stored
  together with what it synchronised. The time is the one the transaction reads, and the identifier of a new run
  is an argument.
\<close>

section \<open>Feedback of an account\<close>

definition activeCompletions :: "string \<Rightarrow> run_store \<Rightarrow> int" where
  "activeCompletions account s = int (length (filter (\<lambda>l. le_account l = account \<and> le_ended l = None
     \<and> (case le_run l of None \<Rightarrow> False | Some r \<Rightarrow> map_of (rs_requests s) r \<noteq> None)) (map snd (rs_leases s))))"

definition completionFeedbackRefusal :: "string \<Rightarrow> int \<Rightarrow> run_store \<Rightarrow> string option" where
  "completionFeedbackRefusal account now s = (case map_of (rs_feedback s) account of
     None \<Rightarrow> None
   | Some f \<Rightarrow>
       if fb_blocked f > now then Some (''provider rejection backoff until '' @ int_text (fb_blocked f))
       else let active = activeCompletions account s in
         if active \<ge> fb_limit f then Some (''provider feedback window '' @ int_text active @ ''/'' @ int_text (fb_limit f)) else None)"

definition rejection_delay :: "int option \<Rightarrow> int \<Rightarrow> int" where
  "rejection_delay wait rejections = max 1000 (case wait of Some ms \<Rightarrow> ms | None \<Rightarrow> min 60000 (1000 * 2 ^ nat (min (rejections - 1) 6)))"

definition next_feedback :: "completion_feedback option \<Rightarrow> int \<Rightarrow> int option \<Rightarrow> int \<Rightarrow> completion_feedback" where
  "next_feedback previous now wait observed =
     (let same_wave = (case previous of None \<Rightarrow> False | Some f \<Rightarrow> fb_blocked f > now);
          rejections = (case previous of None \<Rightarrow> 1 | Some f \<Rightarrow> if same_wave then fb_rejections f else fb_rejections f + 1);
          limit = (case previous of None \<Rightarrow> max 1 (observed div 2) | Some f \<Rightarrow> if same_wave then fb_limit f else max 1 (min (fb_limit f) observed div 2)) in
      \<lparr>fb_limit = limit, fb_blocked = max (case previous of None \<Rightarrow> 0 | Some f \<Rightarrow> fb_blocked f) (now + rejection_delay wait rejections),
        fb_rejections = rejections, fb_successes = 0\<rparr>)"

definition recordCompletionRejection :: "string \<Rightarrow> int \<Rightarrow> int option \<Rightarrow> int \<Rightarrow> string option \<Rightarrow> run_store \<Rightarrow> int \<times> run_store" where
  "recordCompletionRejection account now wait observed model s =
     (let f = next_feedback (map_of (rs_feedback s) account) now wait observed;
          s' = s\<lparr>rs_feedback := map_put account f (rs_feedback s)\<rparr> in
      (fb_blocked f, setCooldown account (Some (max (or_zero (cooldown_of account s')) (fb_blocked f))) model now s'))"

definition recordCompletionSuccess :: "string \<Rightarrow> int \<Rightarrow> run_store \<Rightarrow> run_store" where
  "recordCompletionSuccess account now s = (case map_of (rs_feedback s) account of
     None \<Rightarrow> s
   | Some f \<Rightarrow>
       if now < fb_blocked f then s
       else let g = (if fb_successes f + 1 \<ge> fb_limit f then f\<lparr>fb_limit := fb_limit f * 2, fb_successes := 0, fb_rejections := 0\<rparr> else f\<lparr>fb_successes := fb_successes f + 1\<rparr>) in
         s\<lparr>rs_feedback := map_put account g (rs_feedback s)\<rparr>)"

section \<open>Stored completions\<close>

type_synonym 'a answer = "string + ((completion_error + 'a) \<times> run_store)"

definition comp_terminal :: "completion_record \<Rightarrow> bool" where
  "comp_terminal r = (case co_state r of Comp_ended _ \<Rightarrow> True | Comp_queued \<Rightarrow> False | Comp_running \<Rightarrow> False)"

definition saved :: "stored_completion \<Rightarrow> run_store \<Rightarrow> run_store" where
  "saved v s = s\<lparr>rs_completions := map_put (co_request (sc_record v)) v (rs_completions s)\<rparr>"

definition run_result :: "run_row \<Rightarrow> string" where
  "run_result run = (case rn_result run of Some r \<Rightarrow> r | None \<Rightarrow> ''Completion worker ended without a durable provider result.'')"

text \<open>The end of a run that ended without a receipt.\<close>

definition completionRunState :: "run_row \<Rightarrow> bool \<Rightarrow> completion_execution option" where
  "completionRunState run attempted = (case rn_state run of
     Run_aborted \<Rightarrow> Some (Cancelled (completionError ''cancelled'' (run_result run)))
   | Run_done \<Rightarrow> Some (if attempted then Indeterminate (completionError ''indeterminate'' (run_result run)) else Failed (completionError ''provider'' (run_result run)))
   | Run_failed \<Rightarrow> Some (if attempted then Indeterminate (completionError ''indeterminate'' (run_result run)) else Failed (completionError ''provider'' (run_result run)))
   | _ \<Rightarrow> None)"

definition synchronize :: "int \<Rightarrow> stored_completion \<Rightarrow> run_store \<Rightarrow> stored_completion \<times> run_store" where
  "synchronize now v s =
     (if comp_terminal (sc_record v) then (v, s)
      else case map_of (rs_runs s) (co_run (sc_record v)) of
        None \<Rightarrow> (v, s)
      | Some run \<Rightarrow> (case completionRunState run (sc_attempt v \<noteq> None) of
          None \<Rightarrow> (v, s)
        | Some outcome \<Rightarrow> (let v' = v\<lparr>sc_record := (sc_record v)\<lparr>co_state := Comp_ended outcome, co_updated := now\<rparr>\<rparr> in (v', saved v' s))))"

definition completion_of_run :: "string \<Rightarrow> run_store \<Rightarrow> stored_completion option" where
  "completion_of_run run s = (case map_of (rs_requests s) run of None \<Rightarrow> None | Some r \<Rightarrow> map_of (rs_completions s) r)"

definition conflicting :: "string \<Rightarrow> string \<Rightarrow> string \<Rightarrow> string" where
  "conflicting kind run attempt = ''Conflicting immutable completion evidence '' @ kind @ '':'' @ run @ '':'' @ attempt"

definition remember_receipt :: "string \<Rightarrow> string \<Rightarrow> completion_execution \<Rightarrow> run_store \<Rightarrow> string + run_store" where
  "remember_receipt run attempt outcome s = (case map_of (rs_receipts s) (run, attempt) of
     Some previous \<Rightarrow> if previous = outcome then Inr s else Inl (conflicting ''completion-receipt'' run attempt)
   | None \<Rightarrow> Inr (s\<lparr>rs_receipts := map_put (run, attempt) outcome (rs_receipts s)\<rparr>))"

definition remember_recovery :: "string \<Rightarrow> string \<Rightarrow> run_store \<Rightarrow> string + run_store" where
  "remember_recovery run attempt s =
     (let reason = ''Caller-authorized recovery of an explicit Codex rate-limit rejection; original receipt retained.'' in
      case map_of (rs_recovered s) (run, attempt) of
        Some previous \<Rightarrow> if previous = reason then Inr s else Inl (conflicting ''completion-recovery'' run attempt)
      | None \<Rightarrow> Inr (s\<lparr>rs_recovered := map_put (run, attempt) reason (rs_recovered s)\<rparr>))"

definition no_run :: string where
  "no_run = ''The run of a completion is not stored''"

definition rememberAttempt :: "stored_completion \<Rightarrow> run_store \<Rightarrow> string + run_store" where
  "rememberAttempt v s = (case sc_attempt v of
     None \<Rightarrow> Inr s
   | Some attempt \<Rightarrow>
       (let k = co_run (sc_record v) in
        case map_of (rs_runs s) k of None \<Rightarrow> Inl no_run
        | Some run \<Rightarrow>
            let s' = (if map_of (rs_attempts s) (k, attempt) \<noteq> None then s
                      else s\<lparr>rs_attempts := map_put (k, attempt) \<lparr>ca_account = rn_account run, ca_provider = rn_provider run, ca_model = rn_model run,
                        ca_started = (case rn_started run of Some t \<Rightarrow> t | None \<Rightarrow> co_created (sc_record v))\<rparr> (rs_attempts s)\<rparr>) in
            (case sc_receipt v of None \<Rightarrow> Inr s' | Some receipt \<Rightarrow> remember_receipt k attempt receipt s')))"

definition requeue :: "int \<Rightarrow> int \<Rightarrow> stored_completion \<Rightarrow> run_store \<Rightarrow> string + (completion_record \<times> run_store)" where
  "requeue now retry_at v s =
     (let count = (case sc_count v of Some n \<Rightarrow> n | None \<Rightarrow> if sc_attempt v \<noteq> None then 1 else 0);
          record = (sc_record v)\<lparr>co_updated := now, co_state := Comp_queued, co_attempts := Some count, co_retry := Some retry_at\<rparr>;
          v' = v\<lparr>sc_record := record, sc_attempt := None, sc_receipt := None, sc_count := Some count\<rparr> in
      rbind (requeueRejectedCompletion (co_run record) now s) (\<lambda>s. Inr (record, saved v' s)))"

section \<open>Operations\<close>

definition rejected_early :: "completion_error \<Rightarrow> bool" where
  "rejected_early e = (er_code e = ''rate-limited'' \<and> er_status e = Some 429)"

definition explicit_rejection :: "completion_execution option \<Rightarrow> bool" where
  "explicit_rejection receipt = (case receipt of
     Some (Failed e) \<Rightarrow> rejected_early e \<or> (er_code e = ''provider'' \<and> js_trim (er_message e) = ''{\"detail\":\"Rate limit exceeded\"}'')
   | _ \<Rightarrow> False)"

definition unbound_account :: string where
  "unbound_account = ''Provided value cannot be bound to SQLite parameter''"

definition observed_runs :: "string \<Rightarrow> int \<Rightarrow> run_store \<Rightarrow> int" where
  "observed_runs account at s = int (length (filter (\<lambda>r. rn_account r = Some account \<and> (case rn_started r of None \<Rightarrow> False | Some t \<Rightarrow> t \<le> at)
     \<and> (case rn_ended r of None \<Rightarrow> True | Some t \<Rightarrow> t \<ge> at)) (map snd (rs_runs s))))"

definition submit_record :: "string \<Rightarrow> string \<Rightarrow> completion_input \<Rightarrow> int \<Rightarrow> completion_record" where
  "submit_record request uuid input now = \<lparr>co_request = request, co_run = uuid, co_metadata = ci_metadata input, co_created = now, co_updated = now,
     co_attempts = None, co_retry = None, co_state = Comp_queued\<rparr>"

definition comp_submit :: "bool \<Rightarrow> string \<Rightarrow> string \<Rightarrow> js \<Rightarrow> completion_access option \<Rightarrow> int \<Rightarrow> run_store \<Rightarrow> completion_record answer" where
  "comp_submit known uuid request raw access now s =
     (case (if isCompletionRequestId request then read_completion_input raw else None) of
        None \<Rightarrow> Inr (Inl (completionError ''invalid-request'' ''Expected a request ID, Luna, prompt, and supported completion options.''), s)
      | Some input \<Rightarrow>
          if ci_max input \<noteq> None then Inr (Inl (completionError ''unsupported-option'' ''OpenAI Codex rejects max_output_tokens for Luna. No run was created; a provider-enforced output cap is unavailable.''), s)
          else if \<not> known then Inr (Inl (completionError ''invalid-request'' ''maxOutputTokens exceeds the selected provider model's output limit.''), s)
          else (case map_of (rs_completions s) request of
            Some previous \<Rightarrow>
              if sc_input previous \<noteq> input \<or> map_option cx_principal (sc_access previous) \<noteq> map_option cx_principal access
              then Inr (Inl (completionError ''request-conflict'' ''This request ID already belongs to different completion input.''), s)
              else (let (v, s') = synchronize now previous s in Inr (Inr (sc_record v), s'))
          | None \<Rightarrow>
              if map_of (rs_runs s) uuid \<noteq> None then Inl ''UNIQUE constraint failed: run.id''
              else (let s1 = s\<lparr>rs_runs := map_put uuid (new_run (ci_prompt input) ''luna'' now) (rs_runs s)\<rparr>;
                        v = \<lparr>sc_input = input, sc_access = access, sc_record = submit_record request uuid input now, sc_attempt = None, sc_receipt = None, sc_count = None\<rparr>;
                        s2 = saved v s1 in
                Inr (Inr (sc_record v), s2\<lparr>rs_requests := map_put uuid request (rs_requests s2)\<rparr>))))"

definition not_found :: "run_store \<Rightarrow> 'a answer" where
  "not_found s = Inr (Inl (completionError ''not-found'' ''Completion not found.''), s)"

definition comp_get :: "string \<Rightarrow> int \<Rightarrow> run_store \<Rightarrow> completion_record option \<times> run_store" where
  "comp_get request now s = (case map_of (rs_completions s) request of
     None \<Rightarrow> (None, s)
   | Some v \<Rightarrow> (let (v', s') = synchronize now v s in (Some (sc_record v'), s')))"

definition byRun :: "string \<Rightarrow> int \<Rightarrow> run_store \<Rightarrow> completion_record option \<times> run_store" where
  "byRun run now s = (case map_of (rs_requests s) run of None \<Rightarrow> (None, s) | Some r \<Rightarrow> comp_get r now s)"

definition attempt_rx :: rx where
  "attempt_rx = Seq [Start, Rep 1 (Some 128) (Chars (''ABCDEFGHIJKLMNOPQRSTUVWXYZabcdefghijklmnopqrstuvwxyz0123456789-'') False), Finish]"

definition claimed_twice :: completion_error where
  "claimed_twice = completionError ''indeterminate'' ''A prior worker claimed the provider request without returning a durable result. It will not be sent again.''"

text \<open>The answer of a claim: whether to execute, and the record.\<close>

definition claim_ended :: "string \<Rightarrow> stored_completion \<Rightarrow> int \<Rightarrow> run_store \<Rightarrow> (bool \<times> completion_record) answer" where
  "claim_ended run v now s =
     (let v' = v\<lparr>sc_record := (sc_record v)\<lparr>co_state := Comp_ended (Indeterminate claimed_twice), co_updated := now\<rparr>\<rparr> in
      rbind (updateRun run (Some Run_failed) None (Some (er_message claimed_twice)) (Some ''infrastructure'') now (saved v' s))
        (\<lambda>s. Inr (Inr (False, sc_record v'), s)))"

definition claim_started :: "string \<Rightarrow> string \<Rightarrow> stored_completion \<Rightarrow> int \<Rightarrow> run_store \<Rightarrow> (bool \<times> completion_record) answer" where
  "claim_started run attempt v now s =
     (let count = (if sc_attempt v = None then Some (or_zero (sc_count v) + 1) else sc_count v);
          v1 = v\<lparr>sc_attempt := Some attempt, sc_count := count\<rparr> in
      rbind (rememberAttempt v1 s) (\<lambda>s.
        let v2 = v1\<lparr>sc_record := (sc_record v1)\<lparr>co_state := Comp_running, co_updated := now, co_attempts := Some (case count of Some n \<Rightarrow> n | None \<Rightarrow> 1)\<rparr>\<rparr> in
        rbind (updateRun run (Some Run_running) (Some now) None None now (saved v2 s)) (\<lambda>s. Inr (Inr (True, sc_record v2), s))))"

definition comp_claim :: "string \<Rightarrow> string \<Rightarrow> int \<Rightarrow> run_store \<Rightarrow> (bool \<times> completion_record) answer" where
  "comp_claim run attempt now s =
     (if \<not> rx_test attempt_rx attempt then Inr (Inl (completionError ''invalid-request'' ''Invalid completion attempt ID.''), s)
      else case completion_of_run run s of
        None \<Rightarrow> not_found s
      | Some stored \<Rightarrow>
          let (v, s) = synchronize now stored s in
          if comp_terminal (sc_record v) \<or> map_of (rs_receipts s) (run, attempt) \<noteq> None then Inr (Inr (False, sc_record v), s)
          else (case map_of (rs_runs s) run of None \<Rightarrow> Inl no_run
          | Some row \<Rightarrow>
              if rn_account row = None \<or> rn_provider row = None \<or> rn_model row = None
              then Inr (Inl (completionError ''invalid-state'' ''Completion has no admitted account assignment.''), s)
              else if sc_attempt v \<noteq> None \<and> sc_attempt v \<noteq> Some attempt then claim_ended run v now s
              else claim_started run attempt v now s))"

definition usage_parts :: "completion_usage \<Rightarrow> (string \<times> int) list" where
  "usage_parts u = [(''input'', cu_input u), (''output'', cu_output u), (''cacheRead'', cu_cache_read u), (''cacheWrite'', cu_cache_write u)]"

definition completionRunResult :: "completion_execution \<Rightarrow> run_state \<times> string \<times> string option" where
  "completionRunResult outcome = (case outcome of
     Completed r \<Rightarrow> (Run_done, cr_text r, None)
   | Cancelled e \<Rightarrow> (Run_aborted, er_message e, Some ''operator'')
   | Failed e \<Rightarrow> (Run_failed, er_message e, Some ''provider'')
   | Indeterminate e \<Rightarrow> (Run_failed, er_message e, Some ''provider''))"

definition hour_of :: "int \<Rightarrow> int" where
  "hour_of now = (now div 3600000) * 3600000"

text \<open>A completed receipt proves its account and is charged to it.\<close>

definition settle_charges :: "string \<Rightarrow> string \<Rightarrow> string option \<Rightarrow> completion_result \<Rightarrow> int \<Rightarrow> run_store \<Rightarrow> run_store" where
  "settle_charges run account model result now s =
     (let s1 = recordCompletionSuccess account now s;
          s2 = (case (map_of (rs_leases s1) (run_lease run), model) of
             (Some lease, Some m) \<Rightarrow> snd (recordProviderSuccess account m (le_started lease) now s1)
           | _ \<Rightarrow> s1) in
      fold (\<lambda>(component, tokens). recordUsage account (hour_of now) ''completion'' run (cr_model result) component tokens) (usage_parts (cr_usage result)) s2)"

definition comp_cancelled :: "completion_record \<Rightarrow> bool" where
  "comp_cancelled r = (case co_state r of Comp_ended (Cancelled _) \<Rightarrow> True | _ \<Rightarrow> False)"

definition settle_ended :: "string \<Rightarrow> stored_completion \<Rightarrow> completion_execution \<Rightarrow> int \<Rightarrow> run_store \<Rightarrow> completion_record answer" where
  "settle_ended run v outcome now s =
     (let record = (if comp_cancelled (sc_record v) then sc_record v
            else (sc_record v)\<lparr>co_updated := now, co_attempts := Some (case sc_count v of Some n \<Rightarrow> n | None \<Rightarrow> 1), co_retry := None, co_state := Comp_ended outcome\<rparr>);
          v' = v\<lparr>sc_receipt := Some outcome, sc_record := record\<rparr>; s1 = saved v' s; (st, result, failure) = completionRunResult outcome in
      rbind (if comp_cancelled record then Inr s1 else finishCompletionRun run st result failure now s1)
        (\<lambda>s. Inr (Inr record, endLease (run_lease run) now s)))"

text \<open>A new receipt, once it is remembered: an early rejection returns the work to the queue.\<close>

definition settle_known :: "string \<Rightarrow> stored_completion \<Rightarrow> completion_execution \<Rightarrow> run_row \<Rightarrow> int \<Rightarrow> run_store \<Rightarrow> completion_record answer" where
  "settle_known run v outcome row now s =
     (case outcome of
        Failed e \<Rightarrow>
          if rejected_early e \<and> \<not> comp_cancelled (sc_record v) then
            (case rn_account row of None \<Rightarrow> Inl unbound_account
             | Some account \<Rightarrow> (let (retry_at, s') = recordCompletionRejection account now (er_retry e) (activeCompletions account s) (rn_model row) s in
                 rbind (requeue now retry_at v s') (\<lambda>(record, s). Inr (Inr record, s))))
          else settle_ended run v outcome now s
      | Completed r \<Rightarrow> (case rn_account row of None \<Rightarrow> Inl unbound_account
          | Some account \<Rightarrow> settle_ended run v outcome now (settle_charges run account (rn_model row) r now s))
      | _ \<Rightarrow> settle_ended run v outcome now s)"

definition other_provider :: "completion_execution \<Rightarrow> run_row \<Rightarrow> bool" where
  "other_provider outcome row = (case outcome of Completed r \<Rightarrow> Some (cr_provider r) \<noteq> rn_provider row | _ \<Rightarrow> False)"

definition settle_new :: "string \<Rightarrow> string \<Rightarrow> stored_completion \<Rightarrow> completion_execution \<Rightarrow> int \<Rightarrow> run_store \<Rightarrow> completion_record answer" where
  "settle_new run attempt v outcome now s =
     (case map_of (rs_runs s) run of None \<Rightarrow> Inl no_run
      | Some row \<Rightarrow>
          if other_provider outcome row then Inr (Inl (completionError ''invalid-request'' ''Receipt provider differs from the admitted provider.''), s)
          else rbind (rememberAttempt v s) (\<lambda>s. rbind (remember_receipt run attempt outcome s) (settle_known run v outcome row now)))"

definition comp_settle :: "string \<Rightarrow> string \<Rightarrow> js \<Rightarrow> int \<Rightarrow> run_store \<Rightarrow> completion_record answer" where
  "comp_settle run attempt raw now s =
     (case read_execution raw of None \<Rightarrow> Inr (Inl (completionError ''invalid-request'' ''Invalid completion receipt.''), s)
      | Some outcome \<Rightarrow> (case completion_of_run run s of None \<Rightarrow> not_found s
        | Some stored \<Rightarrow>
            let (v, s) = synchronize now stored s in
            (case map_of (rs_receipts s) (run, attempt) of
               Some previous \<Rightarrow> Inr (if previous = outcome then Inr (sc_record v) else Inl (completionError ''request-conflict'' ''Attempt already has a different immutable receipt.''), s)
             | None \<Rightarrow>
                 if sc_attempt v \<noteq> Some attempt then Inr (Inl (completionError ''request-conflict'' ''Receipt does not belong to the claimed attempt.''), s)
                 else (case sc_receipt v of
                   Some receipt \<Rightarrow> Inr (if receipt = outcome then Inr (sc_record v) else Inl (completionError ''request-conflict'' ''Completion already has a different receipt.''), s)
                 | None \<Rightarrow> settle_new run attempt v outcome now s))))"

definition may_retry :: "stored_completion \<Rightarrow> bool" where
  "may_retry v = ((case co_state (sc_record v) of Comp_ended (Failed _) \<Rightarrow> True | _ \<Rightarrow> False) \<and> explicit_rejection (sc_receipt v) \<and> sc_attempt v \<noteq> None)"

definition retried :: "stored_completion \<Rightarrow> string \<Rightarrow> int \<Rightarrow> run_store \<Rightarrow> completion_record answer" where
  "retried v attempt now s =
     (let run = co_run (sc_record v) in
      case map_of (rs_runs s) run of None \<Rightarrow> Inl no_run
      | Some row \<Rightarrow> rbind (rememberAttempt v s) (\<lambda>s. rbind (remember_recovery run attempt s) (\<lambda>s.
          case rn_account row of None \<Rightarrow> Inl unbound_account
          | Some account \<Rightarrow>
              (let (retry_at, s') = recordCompletionRejection account now None (max 1 (observed_runs account (co_updated (sc_record v)) s)) (rn_model row) s in
               rbind (requeue now retry_at v s') (\<lambda>(record, s). Inr (Inr record, s))))))"

definition comp_retry :: "string \<Rightarrow> int \<Rightarrow> run_store \<Rightarrow> completion_record answer" where
  "comp_retry request now s =
     (case map_of (rs_completions s) request of None \<Rightarrow> not_found s
      | Some stored \<Rightarrow>
          let (v, s) = synchronize now stored s in
          if (case co_state (sc_record v) of Comp_ended (Completed _) \<Rightarrow> True | Comp_ended _ \<Rightarrow> False | _ \<Rightarrow> True) then Inr (Inr (sc_record v), s)
          else if \<not> may_retry v then Inr (Inl (completionError ''invalid-state'' ''Only explicit pre-execution rate-limit rejection can be retried. Cancelled and indeterminate outcomes remain fenced.''), s)
          else (case sc_attempt v of None \<Rightarrow> Inl no_run | Some attempt \<Rightarrow> retried v attempt now s))"

definition caller_cancelled :: completion_error where
  "caller_cancelled = completionError ''cancelled'' ''Cancelled by caller. An in-flight provider request may already have spent tokens.''"

definition reopen_lease :: "string \<Rightarrow> run_store \<Rightarrow> run_store" where
  "reopen_lease k s = (case map_of (rs_leases s) k of None \<Rightarrow> s | Some l \<Rightarrow> s\<lparr>rs_leases := map_put k (l\<lparr>le_ended := None\<rparr>) (rs_leases s)\<rparr>)"

definition comp_cancel :: "string \<Rightarrow> int \<Rightarrow> run_store \<Rightarrow> completion_record answer" where
  "comp_cancel request now s =
     (case map_of (rs_completions s) request of None \<Rightarrow> not_found s
      | Some stored \<Rightarrow>
          let (v, s) = synchronize now stored s in
          if comp_terminal (sc_record v) then Inr (Inr (sc_record v), s)
          else let v' = v\<lparr>sc_record := (sc_record v)\<lparr>co_state := Comp_ended (Cancelled caller_cancelled), co_updated := now\<rparr>\<rparr>;
                   run = co_run (sc_record v); s1 = setControl (''abort:'' @ run) ''abort'' (saved v' s) in
            rbind (updateRun run (Some Run_aborted) None (Some (er_message caller_cancelled)) (Some ''operator'') now s1) (\<lambda>s.
              Inr (Inr (sc_record v'), if sc_attempt v \<noteq> None then reopen_lease (run_lease run) s else s)))"

section \<open>What an operation may change\<close>

text \<open>Most of the store's operations touch neither completions nor receipts.\<close>

definition same_comps :: "run_store \<Rightarrow> run_store \<Rightarrow> bool" where
  "same_comps s s' = (rs_completions s' = rs_completions s \<and> rs_requests s' = rs_requests s \<and> rs_receipts s' = rs_receipts s
     \<and> dom (map_of (rs_runs s)) \<subseteq> dom (map_of (rs_runs s')))"

lemma same_comps_refl [simp]: "same_comps s s"
  by (simp add: same_comps_def)

lemma same_comps_trans: "same_comps s s' \<Longrightarrow> same_comps s' s'' \<Longrightarrow> same_comps s s''"
  unfolding same_comps_def by auto

lemma same_account_update: "same_comps s (account_update f k s)"
  by (simp add: same_comps_def account_update_def split: option.split)

lemma same_cooldown: "same_comps s (setCooldown k until model at s)"
  using same_account_update[of s _ k] by (simp add: same_comps_def setCooldown_def Let_def split: option.split)

lemma same_success: "same_comps s (snd (recordProviderSuccess k model started now s))"
  using same_account_update[of s _ k] by (simp add: same_comps_def recordProviderSuccess_def Let_def split: option.split)

lemma same_usage: "same_comps s (recordUsage a h src r m c t s)"
  by (simp add: same_comps_def recordUsage_def Let_def)

lemma same_endLease: "same_comps s (endLease k at s)"
  by (simp add: same_comps_def endLease_def split: option.split)

lemma same_reopen: "same_comps s (reopen_lease k s)"
  by (simp add: same_comps_def reopen_lease_def split: option.split)

lemma same_control: "same_comps s (setControl k v s)"
  by (simp add: same_comps_def setControl_def)

lemma same_run_put: "same_comps s (s\<lparr>rs_runs := map_put k row (rs_runs s)\<rparr>)"
  by (auto simp: same_comps_def)

lemma same_updateRun: "updateRun k st progress result failure at s = Inr s' \<Longrightarrow> same_comps s s'"
  using same_comps_trans[OF same_run_put same_endLease] same_run_put by (auto simp: updateRun_def Let_def split: option.splits if_splits)

lemma same_requeueRun:
  assumes "requeueRejectedCompletion k at s = Inr s'"
  shows "same_comps s s'"
proof -
  obtain row where "s' = (endLease (run_lease k) at s)\<lparr>rs_runs := map_put k row (rs_runs (endLease (run_lease k) at s))\<rparr>"
    using assms by (auto simp: requeueRejectedCompletion_def Let_def split: option.splits if_splits)
  then show ?thesis using same_comps_trans[OF same_endLease same_run_put] by metis
qed

lemma same_finish: "finishCompletionRun k st result failure at s = Inr s' \<Longrightarrow> same_comps s s'"
  using same_comps_trans[OF same_run_put same_endLease] by (auto simp: finishCompletionRun_def Let_def split: option.splits if_splits)

lemma same_feedback: "same_comps s (s\<lparr>rs_feedback := f\<rparr>)"
  by (simp add: same_comps_def)

lemma same_rejection: "recordCompletionRejection account now wait observed model s = (t, s') \<Longrightarrow> same_comps s s'"
  using same_comps_trans[OF same_feedback same_cooldown] by (auto simp: recordCompletionRejection_def Let_def)

lemma same_successes: "same_comps s (recordCompletionSuccess account now s)"
  by (auto simp: recordCompletionSuccess_def Let_def same_feedback split: option.split)

lemma same_charges: "same_comps s (settle_charges run account model result now s)"
proof -
  have usage: "same_comps t (fold (\<lambda>(component, tokens). recordUsage account h src run m component tokens) parts t)" for t h src m parts
    by (induction parts arbitrary: t) (auto intro: same_comps_trans same_usage)
  let ?s1 = "recordCompletionSuccess account now s"
  let ?s2 = "case (map_of (rs_leases ?s1) (run_lease run), model) of
    (Some lease, Some m) \<Rightarrow> snd (recordProviderSuccess account m (le_started lease) now ?s1) | _ \<Rightarrow> ?s1"
  have "same_comps ?s1 ?s2" using same_success by (auto split: option.split)
  then have "same_comps s ?s2" using same_successes same_comps_trans by blast
  then show ?thesis using usage same_comps_trans unfolding settle_charges_def Let_def by blast
qed

text \<open>A stored completion agrees with the receipts.\<close>

definition rejected_receipt :: "run_store \<Rightarrow> string \<Rightarrow> string \<Rightarrow> bool" where
  "rejected_receipt s run attempt = explicit_rejection (map_of (rs_receipts s) (run, attempt))"

definition comp_ok :: "run_store \<Rightarrow> stored_completion \<Rightarrow> bool" where
  "comp_ok s v = ((\<forall>x. sc_receipt v = Some x \<longrightarrow> (\<exists>a. sc_attempt v = Some a \<and> map_of (rs_receipts s) (co_run (sc_record v), a) = Some x))
     \<and> (\<forall>r. co_state (sc_record v) = Comp_ended (Completed r) \<longrightarrow> sc_receipt v = Some (Completed r)))"

text \<open>The next version of a stored completion.\<close>

definition final_state :: "completion_state \<Rightarrow> bool" where
  "final_state st = (case st of Comp_ended (Completed _) \<Rightarrow> True | Comp_ended (Cancelled _) \<Rightarrow> True | _ \<Rightarrow> False)"

definition comp_next :: "run_store \<Rightarrow> stored_completion \<Rightarrow> stored_completion \<Rightarrow> bool" where
  "comp_next s v v' = (co_request (sc_record v') = co_request (sc_record v) \<and> co_run (sc_record v') = co_run (sc_record v) \<and> sc_input v' = sc_input v \<and> comp_ok s v'
     \<and> (\<forall>a. sc_attempt v = Some a \<longrightarrow> sc_attempt v' = Some a \<or> rejected_receipt s (co_run (sc_record v)) a)
     \<and> (final_state (co_state (sc_record v)) \<longrightarrow> sc_record v' = sc_record v))"

definition receipts_grow :: "run_store \<Rightarrow> run_store \<Rightarrow> bool" where
  "receipts_grow s s' = (\<forall>k x. map_of (rs_receipts s) k = Some x \<longrightarrow> map_of (rs_receipts s') k = Some x)"

definition comp_moves :: "run_store \<Rightarrow> run_store \<Rightarrow> bool" where
  "comp_moves s s' = (rs_requests s' = rs_requests s \<and> receipts_grow s s' \<and> dom (map_of (rs_runs s)) \<subseteq> dom (map_of (rs_runs s'))
     \<and> (\<forall>r. map_of (rs_completions s) r = None \<longrightarrow> map_of (rs_completions s') r = None)
     \<and> (\<forall>r v. map_of (rs_completions s) r = Some v \<longrightarrow> comp_ok s v \<longrightarrow> (\<exists>v'. map_of (rs_completions s') r = Some v' \<and> comp_next s' v v')))"

lemma rejected_grow: "rejected_receipt s run a \<Longrightarrow> receipts_grow s s' \<Longrightarrow> rejected_receipt s' run a"
  by (cases "map_of (rs_receipts s) (run, a)") (auto simp: rejected_receipt_def receipts_grow_def explicit_rejection_def)

lemma comp_ok_grow: "comp_ok s v \<Longrightarrow> receipts_grow s s' \<Longrightarrow> comp_ok s' v"
  unfolding comp_ok_def receipts_grow_def by blast

lemma comp_next_refl: "comp_ok s v \<Longrightarrow> comp_next s v v"
  by (simp add: comp_next_def)

lemma comp_next_trans:
  assumes "comp_next s v v'" "comp_next s' v' v''" "receipts_grow s s'"
  shows "comp_next s' v v''"
  using assms rejected_grow[OF _ assms(3)] unfolding comp_next_def by metis

lemma receipts_grow_trans: "receipts_grow s s' \<Longrightarrow> receipts_grow s' s'' \<Longrightarrow> receipts_grow s s''"
  by (simp add: receipts_grow_def)

lemma comp_moves_trans:
  assumes one: "comp_moves s s'" and two: "comp_moves s' s''"
  shows "comp_moves s s''"
proof -
  have grow: "receipts_grow s s'" "receipts_grow s' s''" using one two by (simp_all add: comp_moves_def)
  have "\<exists>v''. map_of (rs_completions s'') r = Some v'' \<and> comp_next s'' v v''" if here: "map_of (rs_completions s) r = Some v" "comp_ok s v" for r v
  proof -
    obtain v' where v': "map_of (rs_completions s') r = Some v'" "comp_next s' v v'" using one here unfolding comp_moves_def by blast
    then have "comp_ok s' v'" by (simp add: comp_next_def)
    then obtain v'' where "map_of (rs_completions s'') r = Some v''" "comp_next s'' v' v''" using two v'(1) unfolding comp_moves_def by blast
    then show ?thesis using comp_next_trans[OF v'(2) _ grow(2)] by blast
  qed
  moreover have "dom (map_of (rs_runs s)) \<subseteq> dom (map_of (rs_runs s''))" using one two unfolding comp_moves_def by (meson subset_trans)
  moreover have "rs_requests s'' = rs_requests s" "\<forall>r. map_of (rs_completions s) r = None \<longrightarrow> map_of (rs_completions s'') r = None"
    using one two unfolding comp_moves_def by simp_all
  ultimately show ?thesis using receipts_grow_trans[OF grow] unfolding comp_moves_def by blast
qed

lemma same_moves: "same_comps s s' \<Longrightarrow> comp_moves s s'"
  using comp_next_refl comp_ok_grow[of s _ s'] unfolding same_comps_def comp_moves_def receipts_grow_def by metis

lemma comp_moves_refl [simp]: "comp_moves s s"
  by (simp add: same_moves)

lemma same_then: "same_comps s s' \<Longrightarrow> comp_moves s' s'' \<Longrightarrow> comp_moves s s''"
  using comp_moves_trans same_moves by blast

lemma then_same: "comp_moves s s' \<Longrightarrow> same_comps s' s'' \<Longrightarrow> comp_moves s s''"
  using comp_moves_trans same_moves by blast

lemma saved_moves:
  assumes "map_of (rs_completions s) r = Some v" "co_request (sc_record v) = r" "comp_next s v v'"
  shows "comp_moves s (saved v' s)"
  using assms comp_next_refl unfolding comp_moves_def saved_def receipts_grow_def
  by (auto simp: comp_next_def rejected_receipt_def comp_ok_def)

lemma receipt_moves:
  assumes "remember_receipt run a x s = Inr s'"
  shows "comp_moves s s'" "map_of (rs_receipts s') (run, a) = Some x" "rs_completions s' = rs_completions s"
proof -
  have grow: "receipts_grow s s'" and rest: "rs_completions s' = rs_completions s" "rs_requests s' = rs_requests s" "rs_runs s' = rs_runs s"
    using assms by (auto simp: remember_receipt_def receipts_grow_def split: option.splits if_splits)
  then show "comp_moves s s'" using comp_next_refl comp_ok_grow[OF _ grow] unfolding comp_moves_def by simp
  show "map_of (rs_receipts s') (run, a) = Some x" using assms by (auto simp: remember_receipt_def split: option.splits if_splits)
  show "rs_completions s' = rs_completions s" by (rule rest)
qed

lemma attempt_moves:
  assumes "rememberAttempt v s = Inr s'"
  shows "comp_moves s s'" "rs_completions s' = rs_completions s"
proof -
  have "comp_moves s s' \<and> rs_completions s' = rs_completions s"
  proof (cases "sc_attempt v")
    case None
    then show ?thesis using assms by (simp add: rememberAttempt_def)
  next
    case (Some a)
    let ?k = "co_run (sc_record v)"
    obtain row where row: "map_of (rs_runs s) ?k = Some row" using assms Some by (cases "map_of (rs_runs s) ?k") (simp_all add: rememberAttempt_def)
    define t where "t = (if map_of (rs_attempts s) (?k, a) \<noteq> None then s
      else s\<lparr>rs_attempts := map_put (?k, a) \<lparr>ca_account = rn_account row, ca_provider = rn_provider row, ca_model = rn_model row,
        ca_started = (case rn_started row of Some t \<Rightarrow> t | None \<Rightarrow> co_created (sc_record v))\<rparr> (rs_attempts s)\<rparr>)"
    have "same_comps s t" by (simp add: t_def same_comps_def)
    moreover have "(case sc_receipt v of None \<Rightarrow> Inr t | Some receipt \<Rightarrow> remember_receipt ?k a receipt t) = Inr s'"
      using assms Some row unfolding rememberAttempt_def Let_def t_def by simp
    ultimately have t: "same_comps s t" "s' = t \<or> (\<exists>x. remember_receipt ?k a x t = Inr s')" by (auto split: option.splits)
    then show ?thesis using same_then[OF t(1)] receipt_moves[of _ a _ t s'] same_moves[OF t(1)] by (auto simp: same_comps_def)
  qed
  then show "comp_moves s s'" "rs_completions s' = rs_completions s" by blast+
qed

lemma recovery_same: "remember_recovery run a s = Inr s' \<Longrightarrow> same_comps s s'"
  by (auto simp: remember_recovery_def Let_def same_comps_def split: option.splits if_splits)

section \<open>What each operation does to the completions\<close>

lemma ended_next:
  assumes "comp_ok s v" "\<not> comp_terminal (sc_record v)" "\<forall>r. outcome \<noteq> Completed r"
  shows "comp_next s v (v\<lparr>sc_record := (sc_record v)\<lparr>co_state := Comp_ended outcome, co_updated := now\<rparr>\<rparr>)"
  using assms by (cases "co_state (sc_record v)") (auto simp: comp_next_def comp_ok_def comp_terminal_def final_state_def)

lemma not_completed_run: "completionRunState run attempted = Some outcome \<Longrightarrow> \<forall>r. outcome \<noteq> Completed r"
  by (auto simp: completionRunState_def split: run_state.splits if_splits)

lemma synchronize_moves:
  assumes v: "map_of (rs_completions s) r = Some v" "co_request (sc_record v) = r" "comp_ok s v" and sync: "synchronize now v s = (v', s')"
  shows "comp_moves s s'" "map_of (rs_completions s') r = Some v'" "co_request (sc_record v') = r" "co_run (sc_record v') = co_run (sc_record v)" "comp_ok s' v'"
    "sc_attempt v' = sc_attempt v" "sc_receipt v' = sc_receipt v" "rs_receipts s' = rs_receipts s" "rs_requests s' = rs_requests s" "sc_input v' = sc_input v"
proof -
  have "comp_moves s s' \<and> map_of (rs_completions s') r = Some v' \<and> co_request (sc_record v') = r \<and> co_run (sc_record v') = co_run (sc_record v) \<and> comp_ok s' v'
    \<and> sc_attempt v' = sc_attempt v \<and> sc_receipt v' = sc_receipt v \<and> rs_receipts s' = rs_receipts s \<and> rs_requests s' = rs_requests s \<and> sc_input v' = sc_input v"
  proof (cases "v' = v \<and> s' = s")
    case True
    then show ?thesis using v by simp
  next
    case False
    have active: "\<not> comp_terminal (sc_record v)" using sync False by (auto simp: synchronize_def)
    then obtain run where run: "map_of (rs_runs s) (co_run (sc_record v)) = Some run"
      using sync False by (cases "map_of (rs_runs s) (co_run (sc_record v))") (auto simp: synchronize_def)
    then obtain outcome where outcome: "completionRunState run (sc_attempt v \<noteq> None) = Some outcome"
      using sync False active by (cases "completionRunState run (sc_attempt v \<noteq> None)") (auto simp: synchronize_def)
    have v': "v' = v\<lparr>sc_record := (sc_record v)\<lparr>co_state := Comp_ended outcome, co_updated := now\<rparr>\<rparr>" "s' = saved v' s"
      using sync active run outcome by (auto simp: synchronize_def Let_def)
    have n: "comp_next s v v'" using ended_next[OF v(3) active not_completed_run[OF outcome]] v'(1) by simp
    have "receipts_grow s s'" using v'(2) by (simp add: receipts_grow_def saved_def)
    then have "comp_ok s' v'" using n comp_ok_grow unfolding comp_next_def by blast
    then show ?thesis using saved_moves[OF v(1,2) n] v v' by (simp add: saved_def)
  qed
  then show "comp_moves s s'" "map_of (rs_completions s') r = Some v'" "co_request (sc_record v') = r" "co_run (sc_record v') = co_run (sc_record v)" "comp_ok s' v'"
    "sc_attempt v' = sc_attempt v" "sc_receipt v' = sc_receipt v" "rs_receipts s' = rs_receipts s" "rs_requests s' = rs_requests s" "sc_input v' = sc_input v" by blast+
qed

lemma requeue_moves:
  assumes v: "map_of (rs_completions s) r = Some v" "co_request (sc_record v) = r" "comp_ok s v"
    and open_case: "\<not> final_state (co_state (sc_record v))" and rejected: "\<forall>a. sc_attempt v = Some a \<longrightarrow> rejected_receipt s (co_run (sc_record v)) a"
    and done_with: "requeue now t v s = Inr (record, s')"
  shows "comp_moves s s'"
proof -
  obtain v' s1 where parts: "same_comps s s1" "s' = saved v' s1" and shape: "sc_attempt v' = None" "sc_receipt v' = None" "sc_input v' = sc_input v"
    "co_request (sc_record v') = co_request (sc_record v)" "co_run (sc_record v') = co_run (sc_record v)" "co_state (sc_record v') = Comp_queued"
  proof -
    define count where "count = (case sc_count v of Some n \<Rightarrow> n | None \<Rightarrow> if sc_attempt v \<noteq> None then 1 else 0)"
    define record' where "record' = (sc_record v)\<lparr>co_updated := now, co_state := Comp_queued, co_attempts := Some count, co_retry := Some t\<rparr>"
    define v' where "v' = v\<lparr>sc_record := record', sc_attempt := None, sc_receipt := None, sc_count := Some count\<rparr>"
    obtain s1 where s1: "requeueRejectedCompletion (co_run record') now s = Inr s1" "s' = saved v' s1"
      using done_with by (auto simp: requeue_def Let_def rbind_eq_Inr record'_def v'_def count_def)
    show ?thesis using that[of s1 v'] same_requeueRun[OF s1(1)] s1(2) by (simp add: v'_def record'_def)
  qed
  have eq: "rs_completions s1 = rs_completions s" "rs_receipts s1 = rs_receipts s" using parts(1) by (simp_all add: same_comps_def)
  have "comp_next s1 v v'" using shape open_case rejected eq(2) by (simp add: comp_next_def comp_ok_def rejected_receipt_def)
  then have "comp_moves s1 (saved v' s1)" using saved_moves[of s1 r v v'] v eq(1) by simp
  then show ?thesis using same_then[OF parts(1)] parts(2) by simp
qed

lemma claim_ended_moves:
  assumes v: "map_of (rs_completions s) r = Some v" "co_request (sc_record v) = r" "comp_ok s v" "\<not> comp_terminal (sc_record v)"
    and res: "claim_ended run v now s = Inr (Inr (execute, record), s')"
  shows "comp_moves s s' \<and> \<not> execute"
proof -
  let ?v = "v\<lparr>sc_record := (sc_record v)\<lparr>co_state := Comp_ended (Indeterminate claimed_twice), co_updated := now\<rparr>\<rparr>"
  have "comp_next s v ?v" by (rule ended_next[OF v(3,4)]) simp
  then have moved: "comp_moves s (saved ?v s)" by (rule saved_moves[OF v(1,2)])
  obtain s1 where "updateRun run (Some Run_failed) None (Some (er_message claimed_twice)) (Some ''infrastructure'') now (saved ?v s) = Inr s1" "s' = s1" "\<not> execute"
    using res by (auto simp: claim_ended_def Let_def rbind_eq_Inr)
  then show ?thesis using then_same[OF moved] same_updateRun by blast
qed

lemma claim_started_moves:
  assumes v: "map_of (rs_completions s) r = Some v" "co_request (sc_record v) = r" "comp_ok s v" "\<not> comp_terminal (sc_record v)"
    and free: "sc_attempt v = None \<or> sc_attempt v = Some attempt"
    and res: "claim_started run attempt v now s = Inr (Inr (execute, record), s')"
  shows "comp_moves s s' \<and> (\<exists>v'. map_of (rs_completions s') r = Some v' \<and> sc_attempt v' = Some attempt)"
proof -
  define count where "count = (if sc_attempt v = None then Some (or_zero (sc_count v) + 1) else sc_count v)"
  define v1 where "v1 = v\<lparr>sc_attempt := Some attempt, sc_count := count\<rparr>"
  define v2 where "v2 = v1\<lparr>sc_record := (sc_record v1)\<lparr>co_state := Comp_running, co_updated := now, co_attempts := Some (case count of Some n \<Rightarrow> n | None \<Rightarrow> 1)\<rparr>\<rparr>"
  obtain s1 s2 where run: "rememberAttempt v1 s = Inr s1" "updateRun run (Some Run_running) (Some now) None None now (saved v2 s1) = Inr s2" "s' = s2"
    using res by (auto simp: claim_started_def Let_def rbind_eq_Inr v1_def v2_def count_def)
  have v1s: "map_of (rs_completions s1) r = Some v" using attempt_moves(2)[OF run(1)] v(1) by simp
  have grow: "receipts_grow s s1" using attempt_moves(1)[OF run(1)] by (simp add: comp_moves_def)
  have ok: "comp_ok s1 v" by (rule comp_ok_grow[OF v(3) grow])
  have nonfinal: "\<not> final_state (co_state (sc_record v))" using v(4) by (cases "co_state (sc_record v)") (simp_all add: comp_terminal_def final_state_def)
  have "comp_next s1 v v2" using ok free nonfinal by (auto simp: comp_next_def comp_ok_def v2_def v1_def)
  then have two: "comp_moves s1 (saved v2 s1)" by (rule saved_moves[OF v1s v(2)])
  have same: "same_comps (saved v2 s1) s'" using same_updateRun[OF run(2)] run(3) by simp
  have "map_of (rs_completions s') r = Some v2" using same v(2) by (simp add: same_comps_def saved_def v2_def v1_def)
  moreover have "sc_attempt v2 = Some attempt" by (simp add: v2_def v1_def)
  moreover have "comp_moves s s'" using comp_moves_trans[OF attempt_moves(1)[OF run(1)] then_same[OF two same]] .
  ultimately show ?thesis by blast
qed

lemma settle_ended_moves:
  assumes v: "map_of (rs_completions s) r = Some v" "co_request (sc_record v) = r" "comp_ok s v"
    and receipt: "sc_receipt v = None" "sc_attempt v = Some attempt" "map_of (rs_receipts s) (co_run (sc_record v), attempt) = Some outcome"
    and res: "settle_ended run v outcome now s = Inr (x, s')"
  shows "comp_moves s s'"
proof -
  define rec where "rec = (if comp_cancelled (sc_record v) then sc_record v
    else (sc_record v)\<lparr>co_updated := now, co_attempts := Some (case sc_count v of Some n \<Rightarrow> n | None \<Rightarrow> 1), co_retry := None, co_state := Comp_ended outcome\<rparr>)"
  define v' where "v' = v\<lparr>sc_receipt := Some outcome, sc_record := rec\<rparr>"
  obtain st result failure where shape: "completionRunResult outcome = (st, result, failure)" by (metis prod.exhaust)
  obtain s1 where s1: "(if comp_cancelled rec then Inr (saved v' s) else finishCompletionRun run st result failure now (saved v' s)) = Inr s1" "s' = endLease (run_lease run) now s1"
    using res unfolding settle_ended_def Let_def rec_def[symmetric] v'_def[symmetric] shape prod.case by (auto simp: rbind_eq_Inr)
  have open_case: "final_state (co_state (sc_record v)) \<Longrightarrow> comp_cancelled (sc_record v)"
    using v(3) receipt(1) by (auto simp: final_state_def comp_ok_def comp_cancelled_def split: completion_state.splits completion_execution.splits)
  have "comp_next s v v'" using receipt open_case
    by (auto simp: comp_next_def comp_ok_def v'_def rec_def comp_cancelled_def split: completion_state.splits completion_execution.splits)
  then have one: "comp_moves s (saved v' s)" by (rule saved_moves[OF v(1,2)])
  have "same_comps (saved v' s) s1" using s1(1) same_finish by (cases "comp_cancelled rec") auto
  then have "same_comps (saved v' s) s'" using s1(2) same_comps_trans[OF _ same_endLease] by simp
  then show ?thesis using then_same[OF one] by blast
qed

lemma settle_known_moves:
  assumes v: "map_of (rs_completions s) r = Some v" "co_request (sc_record v) = r" "comp_ok s v" "co_run (sc_record v) = run"
    and open_case: "sc_receipt v = None" "sc_attempt v = Some attempt" and held: "map_of (rs_receipts s) (run, attempt) = Some outcome"
    and res: "settle_known run v outcome row now s = Inr (x, s')"
  shows "comp_moves s s'"
proof -
  have ended: "comp_moves s s'" if again: "same_comps s t" "settle_ended run v outcome now t = Inr (x, s')" for t
  proof -
    have eq: "rs_completions t = rs_completions s" "rs_receipts t = rs_receipts s" using again(1) by (simp_all add: same_comps_def)
    then have "comp_ok t v" using v(3) by (simp add: comp_ok_def)
    then have "comp_moves t s'" using settle_ended_moves[of t r v attempt outcome run now x s'] v open_case held again(2) eq by simp
    then show ?thesis using same_then[OF again(1)] by blast
  qed
  show ?thesis
  proof (cases outcome)
    case (Completed c)
    then obtain account where "settle_ended run v outcome now (settle_charges run account (rn_model row) c now s) = Inr (x, s')"
      using res unfolding settle_known_def by (cases "rn_account row") auto
    then show ?thesis using ended[OF same_charges] by blast
  next
    case (Failed e)
    show ?thesis
    proof (cases "rejected_early e \<and> \<not> comp_cancelled (sc_record v)")
      case True
      then obtain account where account: "rn_account row = Some account" using res Failed unfolding settle_known_def by (cases "rn_account row") auto
      obtain t s3 where s3: "recordCompletionRejection account now (er_retry e) (activeCompletions account s) (rn_model row) s = (t, s3)" by fastforce
      obtain record' where again: "requeue now t v s3 = Inr (record', s')"
        using res Failed True account s3 unfolding settle_known_def by (auto simp: rbind_eq_Inr)
      have same: "same_comps s s3" by (rule same_rejection[OF s3])
      have eq: "rs_completions s3 = rs_completions s" "rs_receipts s3 = rs_receipts s" using same by (simp_all add: same_comps_def)
      have "rejected_receipt s3 run attempt" using held Failed True eq(2) by (simp add: rejected_receipt_def explicit_rejection_def)
      moreover have "\<not> final_state (co_state (sc_record v))"
        using v(3) open_case(1) True by (auto simp: final_state_def comp_ok_def comp_cancelled_def split: completion_state.splits completion_execution.splits)
      moreover have "comp_ok s3 v" using v(3) eq(2) by (simp add: comp_ok_def)
      ultimately have "comp_moves s3 s'" using requeue_moves[of s3 r v now t record' s'] v eq(1) open_case(2) again by simp
      then show ?thesis using same_then[OF same] by blast
    next
      case False
      then have "settle_ended run v outcome now s = Inr (x, s')" using res Failed unfolding settle_known_def by auto
      then show ?thesis using ended[OF same_comps_refl] by blast
    qed
  next
    case (Cancelled e)
    then show ?thesis using res ended[OF same_comps_refl] unfolding settle_known_def by simp
  next
    case (Indeterminate e)
    then show ?thesis using res ended[OF same_comps_refl] unfolding settle_known_def by simp
  qed
qed

lemma settle_new_moves:
  assumes v: "map_of (rs_completions s) r = Some v" "co_request (sc_record v) = r" "comp_ok s v" "co_run (sc_record v) = run"
    and open_case: "sc_receipt v = None" "sc_attempt v = Some attempt"
    and res: "settle_new run attempt v outcome now s = Inr (x, s')"
  shows "comp_moves s s'"
proof (cases "map_of (rs_runs s) run")
  case None
  then show ?thesis using res by (simp add: settle_new_def)
next
  case (Some row)
  show ?thesis
  proof (cases "other_provider outcome row")
    case True
    then show ?thesis using res Some by (simp add: settle_new_def)
  next
    case False
    obtain s1 where s1: "rememberAttempt v s = Inr s1" using res Some False by (cases "rememberAttempt v s") (simp_all add: settle_new_def)
    obtain s2 where s2: "remember_receipt run attempt outcome s1 = Inr s2"
      using res Some False s1 by (cases "remember_receipt run attempt outcome s1") (simp_all add: settle_new_def)
    note one = comp_moves_trans[OF attempt_moves(1)[OF s1] receipt_moves(1)[OF s2]]
    have v2: "map_of (rs_completions s2) r = Some v" using v(1) attempt_moves(2)[OF s1] receipt_moves(3)[OF s2] by simp
    have ok2: "comp_ok s2 v" using comp_ok_grow[OF v(3)] one by (simp add: comp_moves_def)
    have known: "settle_known run v outcome row now s2 = Inr (x, s')" using res Some False s1 s2 by (simp add: settle_new_def)
    show ?thesis using comp_moves_trans[OF one settle_known_moves[OF v2 v(2) ok2 v(4) open_case receipt_moves(2)[OF s2] known]] .
  qed
qed

lemma retried_moves:
  assumes v: "map_of (rs_completions s) r = Some v" "co_request (sc_record v) = r" "comp_ok s v"
    and retry: "may_retry v" "sc_attempt v = Some attempt" and res: "retried v attempt now s = Inr (x, s')"
  shows "comp_moves s s'"
proof -
  let ?run = "co_run (sc_record v)"
  obtain row where row: "map_of (rs_runs s) ?run = Some row" using res by (cases "map_of (rs_runs s) ?run") (simp_all add: retried_def)
  obtain s1 where s1: "rememberAttempt v s = Inr s1" using res row by (cases "rememberAttempt v s") (simp_all add: retried_def)
  obtain s2 where s2: "remember_recovery ?run attempt s1 = Inr s2" using res row s1 by (cases "remember_recovery ?run attempt s1") (simp_all add: retried_def)
  obtain account where account: "rn_account row = Some account" using res row s1 s2 by (cases "rn_account row") (simp_all add: retried_def)
  obtain t s3 where s3: "recordCompletionRejection account now None (max 1 (observed_runs account (co_updated (sc_record v)) s2)) (rn_model row) s2 = (t, s3)" by fastforce
  obtain record' where again: "requeue now t v s3 = Inr (record', s')" using res row s1 s2 account s3 by (auto simp: retried_def rbind_eq_Inr)
  have same: "same_comps s1 s3" using same_comps_trans[OF recovery_same[OF s2] same_rejection[OF s3]] .
  have one: "comp_moves s s3" using then_same[OF attempt_moves(1)[OF s1] same] .
  have v3: "map_of (rs_completions s3) r = Some v" using v(1) attempt_moves(2)[OF s1] same by (simp add: same_comps_def)
  have ok: "comp_ok s3 v" using comp_ok_grow[OF v(3)] one by (simp add: comp_moves_def)
  obtain receipt where receipt: "sc_receipt v = Some receipt" "explicit_rejection (Some receipt)"
    using retry(1) by (cases "sc_receipt v") (simp_all add: may_retry_def explicit_rejection_def)
  then have "rejected_receipt s3 ?run attempt" using ok retry(2) by (auto simp: comp_ok_def rejected_receipt_def)
  moreover have "\<not> final_state (co_state (sc_record v))"
    using retry(1) by (auto simp: may_retry_def final_state_def split: completion_state.splits completion_execution.splits)
  ultimately have "comp_moves s3 s'" using requeue_moves[OF v3 v(2) ok _ _ again] retry(2) by simp
  then show ?thesis using comp_moves_trans[OF one] by blast
qed

section \<open>Completions over their life\<close>

text \<open>The service and whatever else happens to the store; the second part lists the executions a claim allowed, in order.\<close>

type_synonym comp_history = "run_store \<times> (string \<times> string) list"

inductive comp_step :: "comp_history \<Rightarrow> comp_history \<Rightarrow> bool" where
  cs_submit: "comp_submit known uuid request raw access now s = Inr (x, s') \<Longrightarrow> comp_step (s, g) (s', g)"
| cs_get: "comp_get request now s = (x, s') \<Longrightarrow> comp_step (s, g) (s', g)"
| cs_claim: "comp_claim run attempt now s = Inr (x, s') \<Longrightarrow>
    comp_step (s, g) (s', if x \<in> range (\<lambda>record. Inr (True, record)) then g @ [(run, attempt)] else g)"
| cs_settle: "comp_settle run attempt raw now s = Inr (x, s') \<Longrightarrow> comp_step (s, g) (s', g)"
| cs_retry: "comp_retry request now s = Inr (x, s') \<Longrightarrow> comp_step (s, g) (s', g)"
| cs_cancel: "comp_cancel request now s = Inr (x, s') \<Longrightarrow> comp_step (s, g) (s', g)"
| cs_other: "same_comps s s' \<Longrightarrow> comp_step (s, g) (s', g)"

inductive comp_reachable :: "comp_history \<Rightarrow> bool" where
  cr_start: "rs_completions s = [] \<Longrightarrow> rs_requests s = [] \<Longrightarrow> rs_receipts s = [] \<Longrightarrow> comp_reachable (s, [])"
| cr_next: "comp_reachable h \<Longrightarrow> comp_step h h' \<Longrightarrow> comp_reachable h'"

definition comp_stored :: "run_store \<Rightarrow> bool" where
  "comp_stored s = ((\<forall>r v. map_of (rs_completions s) r = Some v \<longrightarrow> co_request (sc_record v) = r \<and> map_of (rs_requests s) (co_run (sc_record v)) = Some r \<and> comp_ok s v)
     \<and> (\<forall>run r. map_of (rs_requests s) run = Some r \<longrightarrow> map_of (rs_runs s) run \<noteq> None \<and> (\<exists>v. map_of (rs_completions s) r = Some v \<and> co_run (sc_record v) = run)))"

lemma movesD: "comp_moves s s' \<Longrightarrow> map_of (rs_completions s) r = Some v \<Longrightarrow> comp_ok s v \<Longrightarrow> \<exists>v'. map_of (rs_completions s') r = Some v' \<and> comp_next s' v v'"
  by (simp add: comp_moves_def)

lemma storedD:
  assumes "comp_stored s" "map_of (rs_completions s) r = Some v"
  shows "co_request (sc_record v) = r" "map_of (rs_requests s) (co_run (sc_record v)) = Some r" "comp_ok s v"
  using assms by (simp_all add: comp_stored_def)

lemma stored_run:
  assumes "comp_stored s" "completion_of_run run s = Some v"
  obtains r where "map_of (rs_requests s) run = Some r" "map_of (rs_completions s) r = Some v" "co_run (sc_record v) = run"
proof -
  obtain r where r: "map_of (rs_requests s) run = Some r" "map_of (rs_completions s) r = Some v"
    using assms(2) by (auto simp: completion_of_run_def split: option.splits)
  then have "\<exists>v. map_of (rs_completions s) r = Some v \<and> co_run (sc_record v) = run" using assms(1) unfolding comp_stored_def by blast
  then show ?thesis using that[OF r] r(2) by simp
qed

lemma moves_stored:
  assumes "comp_moves s s'" "comp_stored s"
  shows "comp_stored s'"
proof -
  have req: "rs_requests s' = rs_requests s" and runs: "dom (map_of (rs_runs s)) \<subseteq> dom (map_of (rs_runs s'))"
    and none: "\<And>r. map_of (rs_completions s) r = None \<Longrightarrow> map_of (rs_completions s') r = None"
    using assms(1) by (simp_all add: comp_moves_def)
  have "co_request (sc_record v') = r \<and> map_of (rs_requests s') (co_run (sc_record v')) = Some r \<and> comp_ok s' v'" if here: "map_of (rs_completions s') r = Some v'" for r v'
  proof -
    obtain v where v: "map_of (rs_completions s) r = Some v" using none[of r] here by (cases "map_of (rs_completions s) r") auto
    then have "comp_next s' v v'" using movesD[OF assms(1) v storedD(3)[OF assms(2) v]] here by simp
    then show ?thesis using storedD[OF assms(2) v] req by (simp add: comp_next_def)
  qed
  moreover have "map_of (rs_runs s') run \<noteq> None \<and> (\<exists>v'. map_of (rs_completions s') r = Some v' \<and> co_run (sc_record v') = run)" if here: "map_of (rs_requests s') run = Some r" for run r
  proof -
    have "map_of (rs_runs s) run \<noteq> None \<and> (\<exists>v. map_of (rs_completions s) r = Some v \<and> co_run (sc_record v) = run)" using assms(2) here req by (simp add: comp_stored_def)
    then obtain v where v: "map_of (rs_completions s) r = Some v" "co_run (sc_record v) = run" "run \<in> dom (map_of (rs_runs s))" by blast
    have "run \<in> dom (map_of (rs_runs s'))" using v(3) runs by blast
    moreover obtain v' where "map_of (rs_completions s') r = Some v'" "comp_next s' v v'" using movesD[OF assms(1) v(1) storedD(3)[OF assms(2) v(1)]] by blast
    ultimately show ?thesis using v(2) by (auto simp: comp_next_def)
  qed
  ultimately show ?thesis unfolding comp_stored_def by blast
qed

lemma grant_moves:
  assumes "comp_moves s s'" "comp_stored s" "completion_of_run run s = Some v" "sc_attempt v = Some a \<or> rejected_receipt s run a"
  shows "\<exists>v'. completion_of_run run s' = Some v' \<and> (sc_attempt v' = Some a \<or> rejected_receipt s' run a)"
proof -
  obtain r where r: "map_of (rs_requests s) run = Some r" "map_of (rs_completions s) r = Some v" "co_run (sc_record v) = run" using stored_run[OF assms(2,3)] .
  obtain v' where v': "map_of (rs_completions s') r = Some v'" "comp_next s' v v'" using movesD[OF assms(1) r(2) storedD(3)[OF assms(2) r(2)]] by blast
  have "rejected_receipt s' run a" if "rejected_receipt s run a" using rejected_grow[OF that] assms(1) by (simp add: comp_moves_def)
  moreover have "sc_attempt v' = Some a \<or> rejected_receipt s' run a" if "sc_attempt v = Some a" using v'(2) r(3) that by (auto simp: comp_next_def)
  ultimately have "sc_attempt v' = Some a \<or> rejected_receipt s' run a" using assms(4) by blast
  moreover have "completion_of_run run s' = Some v'" using r(1) v'(1) assms(1) by (simp add: completion_of_run_def comp_moves_def)
  ultimately show ?thesis by blast
qed

definition granted_known :: "comp_history \<Rightarrow> bool" where
  "granted_known h = (\<forall>p\<in>set (snd h). \<exists>v. completion_of_run (fst p) (fst h) = Some v \<and> (sc_attempt v = Some (snd p) \<or> rejected_receipt (fst h) (fst p) (snd p)))"

definition granted_once :: "comp_history \<Rightarrow> bool" where
  "granted_once h = (\<forall>pre run b post a. snd h = pre @ (run, b) # post \<longrightarrow> (run, a) \<in> set pre \<longrightarrow> a \<noteq> b \<longrightarrow> rejected_receipt (fst h) run a)"

lemma moves_known: "comp_moves s s' \<Longrightarrow> comp_stored s \<Longrightarrow> granted_known (s, g) \<Longrightarrow> granted_known (s', g)"
  using grant_moves unfolding granted_known_def fst_conv snd_conv by meson

lemma moves_once:
  assumes "comp_moves s s'" "granted_once (s, g)"
  shows "granted_once (s', g)"
  unfolding granted_once_def fst_conv snd_conv
proof (intro allI impI)
  fix pre run b post a
  assume "g = pre @ (run, b) # post" "(run, a) \<in> set pre" "a \<noteq> b"
  then have "rejected_receipt s run a" using assms(2) unfolding granted_once_def fst_conv snd_conv by blast
  then show "rejected_receipt s' run a" by (rule rejected_grow) (use assms(1) in \<open>simp add: comp_moves_def\<close>)
qed

lemma get_moves: "comp_stored s \<Longrightarrow> comp_get request now s = (x, s') \<Longrightarrow> comp_moves s s'"
proof (cases "map_of (rs_completions s) request")
  case (Some v)
  assume s: "comp_stored s" and res: "comp_get request now s = (x, s')"
  obtain v' where "synchronize now v s = (v', s')" using Some res by (auto simp: comp_get_def Let_def split: prod.splits)
  then show ?thesis using synchronize_moves(1)[OF Some storedD(1)[OF s Some] storedD(3)[OF s Some]] by blast
qed (simp add: comp_get_def)

lemma cancel_moves:
  assumes s: "comp_stored s" and res: "comp_cancel request now s = Inr (x, s')"
  shows "comp_moves s s'"
proof (cases "map_of (rs_completions s) request")
  case None
  then show ?thesis using res by (simp add: comp_cancel_def not_found_def)
next
  case (Some stored)
  obtain v t where sync: "synchronize now stored s = (v, t)" by fastforce
  note v = synchronize_moves[OF Some storedD(1)[OF s Some] storedD(3)[OF s Some] sync]
  show ?thesis
  proof (cases "comp_terminal (sc_record v)")
    case True
    then show ?thesis using res Some sync v(1) by (simp add: comp_cancel_def)
  next
    case False
    define v' where "v' = v\<lparr>sc_record := (sc_record v)\<lparr>co_state := Comp_ended (Cancelled caller_cancelled), co_updated := now\<rparr>\<rparr>"
    define t1 where "t1 = setControl (''abort:'' @ co_run (sc_record v)) ''abort'' (saved v' t)"
    obtain t2 where t2: "updateRun (co_run (sc_record v)) (Some Run_aborted) None (Some (er_message caller_cancelled)) (Some ''operator'') now t1 = Inr t2"
      "s' = (if sc_attempt v \<noteq> None then reopen_lease (run_lease (co_run (sc_record v))) t2 else t2)"
      using res Some sync False unfolding comp_cancel_def t1_def v'_def by (auto simp: Let_def rbind_eq_Inr)
    have "comp_next t v v'" unfolding v'_def by (rule ended_next[OF v(5) False]) simp
    then have two: "comp_moves t (saved v' t)" by (rule saved_moves[OF v(2,3)])
    have "same_comps (saved v' t) t2" unfolding t1_def using same_comps_trans[OF same_control same_updateRun[OF t2(1)[unfolded t1_def]]] .
    then have "same_comps (saved v' t) s'" using t2(2) same_comps_trans[OF _ same_reopen] by simp
    then show ?thesis using comp_moves_trans[OF v(1) then_same[OF two]] by blast
  qed
qed

lemma retry_moves:
  assumes s: "comp_stored s" and res: "comp_retry request now s = Inr (x, s')"
  shows "comp_moves s s'"
proof (cases "map_of (rs_completions s) request")
  case None
  then show ?thesis using res by (simp add: comp_retry_def not_found_def)
next
  case (Some stored)
  obtain v t where sync: "synchronize now stored s = (v, t)" by fastforce
  note v = synchronize_moves[OF Some storedD(1)[OF s Some] storedD(3)[OF s Some] sync]
  show ?thesis
  proof (cases "may_retry v \<and> \<not> (case co_state (sc_record v) of Comp_ended (Completed _) \<Rightarrow> True | Comp_ended _ \<Rightarrow> False | _ \<Rightarrow> True)")
    case True
    then obtain attempt where attempt: "sc_attempt v = Some attempt" by (auto simp: may_retry_def)
    have "retried v attempt now t = Inr (x, s')" using res Some sync True attempt by (simp add: comp_retry_def)
    then show ?thesis using comp_moves_trans[OF v(1) retried_moves[OF v(2,3,5) _ attempt]] True by blast
  next
    case False
    then have "s' = t" using res Some sync unfolding comp_retry_def by (auto split: if_splits)
    then show ?thesis using v(1) by simp
  qed
qed

lemma settle_moves:
  assumes s: "comp_stored s" and res: "comp_settle run attempt raw now s = Inr (x, s')"
  shows "comp_moves s s'"
proof (cases "read_execution raw")
  case None
  then show ?thesis using res by (simp add: comp_settle_def)
next
  case outcome: (Some outcome)
  show ?thesis
  proof (cases "completion_of_run run s")
    case None
    then show ?thesis using res outcome by (simp add: comp_settle_def not_found_def)
  next
    case (Some stored)
    obtain r where r: "map_of (rs_requests s) run = Some r" "map_of (rs_completions s) r = Some stored" "co_run (sc_record stored) = run" using stored_run[OF s Some] .
    obtain v t where sync: "synchronize now stored s = (v, t)" by fastforce
    note v = synchronize_moves[OF r(2) storedD(1)[OF s r(2)] storedD(3)[OF s r(2)] sync]
    show ?thesis
    proof (cases "map_of (rs_receipts t) (run, attempt) = None \<and> sc_attempt v = Some attempt \<and> sc_receipt v = None")
      case True
      then have "settle_new run attempt v outcome now t = Inr (x, s')" using res outcome Some sync by (simp add: comp_settle_def)
      then show ?thesis using comp_moves_trans[OF v(1) settle_new_moves[OF v(2,3,5)]] v(4) r(3) True by simp
    next
      case False
      then have "s' = t" using res outcome Some sync unfolding comp_settle_def by (auto split: option.splits if_splits)
      then show ?thesis using v(1) by simp
    qed
  qed
qed

lemma claim_moves:
  assumes s: "comp_stored s" and res: "comp_claim run attempt now s = Inr (x, s')"
  shows "comp_moves s s'"
    "x = Inr (True, record) \<Longrightarrow> (\<exists>v. completion_of_run run s = Some v \<and> (sc_attempt v = None \<or> sc_attempt v = Some attempt)) \<and> (\<exists>v'. completion_of_run run s' = Some v' \<and> sc_attempt v' = Some attempt)"
proof -
  have "comp_moves s s' \<and> (x = Inr (True, record) \<longrightarrow> (\<exists>v. completion_of_run run s = Some v \<and> (sc_attempt v = None \<or> sc_attempt v = Some attempt))
    \<and> (\<exists>v'. completion_of_run run s' = Some v' \<and> sc_attempt v' = Some attempt))"
  proof (cases "rx_test attempt_rx attempt")
    case False
    then show ?thesis using res by (auto simp: comp_claim_def)
  next
    case good: True
    show ?thesis
    proof (cases "completion_of_run run s")
      case None
      then show ?thesis using res good by (auto simp: comp_claim_def not_found_def)
    next
      case (Some stored)
      obtain r where r: "map_of (rs_requests s) run = Some r" "map_of (rs_completions s) r = Some stored" "co_run (sc_record stored) = run" using stored_run[OF s Some] .
      obtain v t where sync: "synchronize now stored s = (v, t)" by fastforce
      note v = synchronize_moves[OF r(2) storedD(1)[OF s r(2)] storedD(3)[OF s r(2)] sync]
      show ?thesis
      proof (cases "comp_terminal (sc_record v) \<or> map_of (rs_receipts t) (run, attempt) \<noteq> None")
        case True
        then show ?thesis using res good Some sync v(1) unfolding comp_claim_def by auto
      next
        case active: False
        obtain row where row: "map_of (rs_runs t) run = Some row" using res good Some sync active unfolding comp_claim_def by (cases "map_of (rs_runs t) run") auto
        show ?thesis
        proof (cases "rn_account row = None \<or> rn_provider row = None \<or> rn_model row = None")
          case True
          then have "x \<noteq> Inr (True, record) \<and> s' = t" using res good Some sync active row unfolding comp_claim_def by auto
          then show ?thesis using v(1) by blast
        next
          case assigned: False
          show ?thesis
          proof (cases "sc_attempt v \<noteq> None \<and> sc_attempt v \<noteq> Some attempt")
            case True
            have ended: "claim_ended run v now t = Inr (x, s')" using res good Some sync active row assigned True unfolding comp_claim_def by auto
            then obtain e rec where x: "x = Inr (e, rec)" by (auto simp: claim_ended_def Let_def rbind_eq_Inr)
            have "comp_moves t s' \<and> \<not> e" using claim_ended_moves[OF v(2,3,5)] active ended x by blast
            then show ?thesis using x comp_moves_trans[OF v(1)] by blast
          next
            case False
            have started: "claim_started run attempt v now t = Inr (x, s')" using res good Some sync active row assigned False unfolding comp_claim_def by auto
            then obtain e rec where x: "x = Inr (e, rec)" by (auto simp: claim_started_def Let_def rbind_eq_Inr)
            have free: "sc_attempt v = None \<or> sc_attempt v = Some attempt" using False by blast
            have two: "comp_moves t s'" "\<exists>v'. map_of (rs_completions s') r = Some v' \<and> sc_attempt v' = Some attempt"
              using claim_started_moves[OF v(2,3,5) _ free] active started x by blast+
            have "map_of (rs_requests s') run = Some r" using two(1) v(9) r(1) by (simp add: comp_moves_def)
            then have "\<exists>v'. completion_of_run run s' = Some v' \<and> sc_attempt v' = Some attempt" using two(2) by (simp add: completion_of_run_def)
            then show ?thesis using comp_moves_trans[OF v(1) two(1)] Some free v(6) by auto
          qed
        qed
      qed
    qed
  qed
  then show "comp_moves s s'" "x = Inr (True, record) \<Longrightarrow> (\<exists>v. completion_of_run run s = Some v \<and> (sc_attempt v = None \<or> sc_attempt v = Some attempt)) \<and> (\<exists>v'. completion_of_run run s' = Some v' \<and> sc_attempt v' = Some attempt)"
    by blast+
qed

definition submitted_new :: "string \<Rightarrow> string \<Rightarrow> stored_completion \<Rightarrow> run_store \<Rightarrow> run_store \<Rightarrow> bool" where
  "submitted_new uuid request v s s' = (map_of (rs_runs s) uuid = None \<and> map_of (rs_completions s) request = None
     \<and> rs_completions s' = map_put request v (rs_completions s) \<and> rs_requests s' = map_put uuid request (rs_requests s) \<and> rs_receipts s' = rs_receipts s
     \<and> map_of (rs_runs s') uuid \<noteq> None \<and> dom (map_of (rs_runs s)) \<subseteq> dom (map_of (rs_runs s'))
     \<and> co_request (sc_record v) = request \<and> co_run (sc_record v) = uuid \<and> sc_attempt v = None \<and> sc_receipt v = None \<and> co_state (sc_record v) = Comp_queued)"

lemma submit_moves:
  assumes s: "comp_stored s" and res: "comp_submit known uuid request raw access now s = Inr (x, s')"
  shows "comp_moves s s' \<or> (\<exists>v. submitted_new uuid request v s s')"
proof (cases "if isCompletionRequestId request then read_completion_input raw else None")
  case None
  then show ?thesis using res unfolding comp_submit_def None by simp
next
  case input: (Some input)
  show ?thesis
  proof (cases "ci_max input \<noteq> None \<or> \<not> known")
    case True
    then show ?thesis using res unfolding comp_submit_def input by (auto split: if_splits)
  next
    case False
    show ?thesis
    proof (cases "map_of (rs_completions s) request")
      case (Some previous)
      obtain v t where sync: "synchronize now previous s = (v, t)" by fastforce
      have "s' = s \<or> s' = t" using res False Some sync unfolding comp_submit_def input by (auto split: if_splits)
      then show ?thesis using synchronize_moves(1)[OF Some storedD(1)[OF s Some] storedD(3)[OF s Some] sync] by auto
    next
      case None
      have fresh: "map_of (rs_runs s) uuid = None" using res False None unfolding comp_submit_def input by (cases "map_of (rs_runs s) uuid") auto
      define v where "v = \<lparr>sc_input = input, sc_access = access, sc_record = submit_record request uuid input now, sc_attempt = None, sc_receipt = None, sc_count = None\<rparr>"
      have s': "s' = (saved v (s\<lparr>rs_runs := map_put uuid (new_run (ci_prompt input) ''luna'' now) (rs_runs s)\<rparr>))\<lparr>rs_requests := map_put uuid request (rs_requests s)\<rparr>"
        using res False None fresh unfolding comp_submit_def input v_def by (auto simp: Let_def saved_def submit_record_def)
      have "submitted_new uuid request v s s'" using fresh None by (auto simp: s' submitted_new_def saved_def v_def submit_record_def)
      then show ?thesis by blast
    qed
  qed
qed

lemma new_stored:
  assumes s: "comp_stored s" and new: "submitted_new uuid request v s s'"
  shows "comp_stored s'" "completion_of_run run s = Some w \<Longrightarrow> completion_of_run run s' = Some w"
proof -
  have absent: "map_of (rs_requests s) uuid = None"
  proof (rule ccontr)
    assume "map_of (rs_requests s) uuid \<noteq> None"
    then have "map_of (rs_runs s) uuid \<noteq> None" using s unfolding comp_stored_def by auto
    then show False using new by (simp add: submitted_new_def)
  qed
  have one: "co_request (sc_record w) = r \<and> map_of (rs_requests s') (co_run (sc_record w)) = Some r \<and> comp_ok s' w" if here: "map_of (rs_completions s') r = Some w" for r w
  proof (cases "r = request")
    case True
    then show ?thesis using here new by (auto simp: submitted_new_def comp_ok_def)
  next
    case False
    then have old: "map_of (rs_completions s) r = Some w" using here new by (simp add: submitted_new_def)
    then show ?thesis using storedD[OF s old] new absent by (auto simp: submitted_new_def comp_ok_def)
  qed
  have two: "map_of (rs_runs s') run \<noteq> None \<and> (\<exists>w. map_of (rs_completions s') r = Some w \<and> co_run (sc_record w) = run)" if here: "map_of (rs_requests s') run = Some r" for run r
  proof (cases "run = uuid")
    case True
    then show ?thesis using here new by (simp add: submitted_new_def)
  next
    case False
    then have "map_of (rs_requests s) run = Some r" using here new by (simp add: submitted_new_def)
    then have old: "map_of (rs_runs s) run \<noteq> None" "\<exists>w. map_of (rs_completions s) r = Some w \<and> co_run (sc_record w) = run" using s unfolding comp_stored_def by blast+
    have "run \<in> dom (map_of (rs_runs s'))" using old(1) new unfolding submitted_new_def by blast
    moreover have "r \<noteq> request" using old(2) new by (auto simp: submitted_new_def)
    ultimately show ?thesis using old(2) new by (auto simp: submitted_new_def)
  qed
  show "comp_stored s'" unfolding comp_stored_def using one two by blast
  show "completion_of_run run s' = Some w" if here: "completion_of_run run s = Some w"
  proof -
    obtain r where r: "map_of (rs_requests s) run = Some r" "map_of (rs_completions s) r = Some w" using stored_run[OF s here] .
    have "run \<noteq> uuid" using r(1) absent by auto
    moreover have "r \<noteq> request" using r(2) new by (auto simp: submitted_new_def)
    ultimately show ?thesis using r new by (simp add: completion_of_run_def submitted_new_def)
  qed
qed

text \<open>Every step keeps the receipts, the decided records and the invariants.\<close>

lemma step_moves:
  assumes "comp_step (s, g) (s', g')" "comp_stored s"
  shows "comp_moves s s' \<or> (\<exists>uuid request v. submitted_new uuid request v s s')"
  using assms(1)
proof (cases rule: comp_step.cases)
  case cs_submit
  then show ?thesis using submit_moves[OF assms(2)] by blast
next
  case cs_get
  then show ?thesis using get_moves[OF assms(2)] by blast
next
  case cs_claim
  then show ?thesis using claim_moves(1)[OF assms(2)] by blast
next
  case cs_settle
  then show ?thesis using settle_moves[OF assms(2)] by blast
next
  case cs_retry
  then show ?thesis using retry_moves[OF assms(2)] by blast
next
  case cs_cancel
  then show ?thesis using cancel_moves[OF assms(2)] by blast
next
  case cs_other
  then show ?thesis using same_moves by blast
qed

definition comp_sound :: "comp_history \<Rightarrow> bool" where
  "comp_sound h = (comp_stored (fst h) \<and> granted_known h \<and> granted_once h)"

lemma grants_kept:
  assumes "comp_sound (s, g)" "comp_moves s s' \<or> (\<exists>uuid request v. submitted_new uuid request v s s')"
  shows "comp_sound (s', g)"
  using assms(2)
proof
  assume "comp_moves s s'"
  then show ?thesis using assms(1) moves_stored moves_known moves_once unfolding comp_sound_def fst_conv by blast
next
  assume "\<exists>uuid request v. submitted_new uuid request v s s'"
  then obtain uuid request v where new: "submitted_new uuid request v s s'" by blast
  have s: "comp_stored s" using assms(1) by (simp add: comp_sound_def)
  have eq: "rejected_receipt s' = rejected_receipt s" using new by (simp add: fun_eq_iff rejected_receipt_def submitted_new_def)
  have "granted_known (s', g)"
    unfolding granted_known_def fst_conv snd_conv
  proof
    fix p
    assume "p \<in> set g"
    then have "\<exists>v. completion_of_run (fst p) s = Some v \<and> (sc_attempt v = Some (snd p) \<or> rejected_receipt s (fst p) (snd p))"
      using assms(1) unfolding comp_sound_def granted_known_def fst_conv snd_conv by blast
    then show "\<exists>v. completion_of_run (fst p) s' = Some v \<and> (sc_attempt v = Some (snd p) \<or> rejected_receipt s' (fst p) (snd p))"
      using new_stored(2)[OF s new] eq by auto
  qed
  moreover have "granted_once (s', g)" using assms(1) eq unfolding comp_sound_def granted_once_def fst_conv by simp
  ultimately show ?thesis using new_stored(1)[OF s new] by (simp add: comp_sound_def)
qed

lemma granted_next:
  assumes sound: "comp_sound (s, g)" "comp_sound (s', g)" and moved: "comp_moves s s'"
    and before: "completion_of_run run s = Some v" "sc_attempt v = None \<or> sc_attempt v = Some b"
    and after: "completion_of_run run s' = Some v'" "sc_attempt v' = Some b"
  shows "comp_sound (s', g @ [(run, b)])"
proof -
  have "granted_known (s', g @ [(run, b)])" using sound(2) after by (auto simp: comp_sound_def granted_known_def)
  moreover have "granted_once (s', g @ [(run, b)])"
    unfolding granted_once_def fst_conv snd_conv
  proof (intro allI impI)
    fix pre run' b' post a
    assume cut: "g @ [(run, b)] = pre @ (run', b') # post" and here: "(run', a) \<in> set pre" "a \<noteq> b'"
    show "rejected_receipt s' run' a"
    proof (cases post rule: rev_cases)
      case Nil
      then have eq: "pre = g" "run' = run" "b' = b" using cut by auto
      have "\<exists>v. completion_of_run run s = Some v \<and> (sc_attempt v = Some a \<or> rejected_receipt s run a)"
        using sound(1) here(1) eq unfolding comp_sound_def granted_known_def fst_conv snd_conv by fastforce
      then have "rejected_receipt s run a" using before here(2) eq by auto
      then show ?thesis using rejected_grow moved eq by (simp add: comp_moves_def)
    next
      case (snoc ys y)
      then have "g = pre @ (run', b') # ys" using cut by simp
      then show ?thesis using sound(2) here unfolding comp_sound_def granted_once_def fst_conv snd_conv by blast
    qed
  qed
  ultimately show ?thesis using sound(2) by (simp add: comp_sound_def)
qed

lemma comp_step_sound:
  assumes "comp_step (s, g) (s', g')" "comp_sound (s, g)"
  shows "comp_sound (s', g')"
proof -
  have s: "comp_stored s" using assms(2) by (simp add: comp_sound_def)
  have kept: "comp_sound (s', g)" using grants_kept[OF assms(2) step_moves[OF assms(1) s]] .
  show ?thesis
    using assms(1)
  proof (cases rule: comp_step.cases)
    case (cs_claim run attempt now x)
    show ?thesis
    proof (cases "\<exists>record. x = Inr (True, record)")
      case True
      then obtain record' where x: "x = Inr (True, record')" by blast
      have g': "g' = g @ [(run, attempt)]" using cs_claim(1) x by auto
      show ?thesis
        using claim_moves(1)[OF s cs_claim(2)] claim_moves(2)[OF s cs_claim(2) x] granted_next[OF assms(2) kept] g' by blast
    next
      case False
      then have "g' = g" using cs_claim(1) by auto
      then show ?thesis using kept by simp
    qed
  qed (use kept in simp_all)
qed

lemma comp_reachable_sound: "comp_reachable h \<Longrightarrow> comp_sound h"
proof (induction rule: comp_reachable.induct)
  case (cr_start s)
  then show ?case by (simp add: comp_sound_def comp_stored_def granted_known_def granted_once_def)
next
  case (cr_next h h')
  then show ?case using comp_step_sound[of "fst h" "snd h" "fst h'" "snd h'"] by simp
qed

text \<open>C3: A provider request is sent again under another attempt only after the provider rejected it before doing any
  work. Whatever is submitted, claimed, settled, retried and cancelled in any order, and whatever else happens to
  the runs, leases and accounts, when claims of one run allowed two different attempts to execute, the receipt of
  the earlier one is stored and is an explicit rate-limit rejection.\<close>

theorem attempt_sent_once:
  assumes "comp_reachable (s, pre @ (run, b) # post)" "(run, a) \<in> set pre" "a \<noteq> b"
  shows "\<exists>e. map_of (rs_receipts s) (run, a) = Some (Failed e) \<and> (rejected_early e \<or> (er_code e = ''provider'' \<and> js_trim (er_message e) = ''{\"detail\":\"Rate limit exceeded\"}''))"
proof -
  have "rejected_receipt s run a"
    using comp_reachable_sound[OF assms(1)] assms(2,3) unfolding comp_sound_def granted_once_def fst_conv snd_conv by blast
  then show ?thesis by (auto simp: rejected_receipt_def explicit_rejection_def split: option.splits completion_execution.splits)
qed

text \<open>C18: What a completion came to is never rewritten. A stored receipt stays as it is under its attempt, and a record that is
  completed or cancelled stays exactly that record, with its result, whatever is done afterwards; every stored
  completion keeps its run and its input.\<close>

theorem completion_outcome_final:
  assumes "comp_reachable (s, g)" "comp_step (s, g) (s', g')"
  shows "(\<forall>k x. map_of (rs_receipts s) k = Some x \<longrightarrow> map_of (rs_receipts s') k = Some x)
    \<and> (\<forall>r v. map_of (rs_completions s) r = Some v \<longrightarrow> (\<exists>v'. map_of (rs_completions s') r = Some v'
        \<and> co_run (sc_record v') = co_run (sc_record v) \<and> sc_input v' = sc_input v \<and> (final_state (co_state (sc_record v)) \<longrightarrow> sc_record v' = sc_record v)))"
proof -
  have stored: "comp_stored s" using comp_reachable_sound[OF assms(1)] by (simp add: comp_sound_def)
  from step_moves[OF assms(2) stored] show ?thesis
  proof
    assume m: "comp_moves s s'"
    have "\<exists>v'. map_of (rs_completions s') r = Some v' \<and> comp_next s' v v'" if here: "map_of (rs_completions s) r = Some v" for r v
      using movesD[OF m here storedD(3)[OF stored here]] .
    moreover have "\<forall>k x. map_of (rs_receipts s) k = Some x \<longrightarrow> map_of (rs_receipts s') k = Some x" using m by (simp add: comp_moves_def receipts_grow_def)
    ultimately show ?thesis unfolding comp_next_def by blast
  next
    assume "\<exists>uuid request v. submitted_new uuid request v s s'"
    then obtain uuid request v where new: "submitted_new uuid request v s s'" by blast
    have "map_of (rs_completions s') r = Some w" if here: "map_of (rs_completions s) r = Some w" for r w
      using here new by (auto simp: submitted_new_def)
    moreover have "rs_receipts s' = rs_receipts s" using new by (simp add: submitted_new_def)
    ultimately show ?thesis by auto
  qed
qed

section \<open>Instances\<close>

definition sample_store :: run_store where
  "sample_store = \<lparr>rs_accounts = [], rs_evidence = [], rs_recoveries = [], rs_meters = [], rs_runs = [], rs_leases = [], rs_usage = [], rs_completions = [], rs_requests = [],
     rs_attempts = [], rs_receipts = [], rs_recovered = [], rs_feedback = [], rs_grants = [], rs_affinity = [], rs_unsupported = [], rs_control = []\<rparr>"

definition sample_request :: js where
  "sample_request = mk_obj [(''model'', JStr ''luna''), (''prompt'', JStr ''hi'')]"

definition sample_rejection :: js where
  "sample_rejection = mk_obj [(''state'', JStr ''failed''), (''error'', mk_obj [(''code'', JStr ''rate-limited''), (''message'', JStr ''wait''), (''httpStatus'', JNum (NInt 429))])]"

text \<open>A request submitted, admitted, claimed, rejected, admitted again and claimed again.\<close>

definition answered_store :: "'a answer \<Rightarrow> run_store" where
  "answered_store r = (case r of Inl _ \<Rightarrow> sample_store | Inr (_, s) \<Rightarrow> s)"

definition life1 :: run_store where
  "life1 = answered_store (comp_submit True ''r'' ''q'' sample_request None 1 sample_store)"

definition life2 :: run_store where
  "life2 = snd (assignRun ''u1'' ''r'' ''acct'' ''openai-codex'' ''gpt-6-luna'' ''w'' ''rel'' 2 life1)"

definition life3 :: run_store where
  "life3 = answered_store (comp_claim ''r'' ''a1'' 3 life2)"

definition life4 :: run_store where
  "life4 = answered_store (comp_settle ''r'' ''a1'' sample_rejection 4 life3)"

definition life5 :: run_store where
  "life5 = snd (assignRun ''u2'' ''r'' ''acct'' ''openai-codex'' ''gpt-6-luna'' ''w'' ''rel'' 5 life4)"

definition life6 :: run_store where
  "life6 = answered_store (comp_claim ''r'' ''a2'' 6 life5)"

definition executes :: "(bool \<times> completion_record) answer \<Rightarrow> bool" where
  "executes r = (case r of Inr (Inr (True, _), _) \<Rightarrow> True | _ \<Rightarrow> False)"

lemma answered: "is_ok r \<Longrightarrow> \<exists>x. r = Inr (x, answered_store r)"
  by (cases r) (auto simp: answered_store_def)

lemma executed: "executes r \<Longrightarrow> \<exists>record. r = Inr (Inr (True, record), answered_store r)"
  by (auto simp: executes_def answered_store_def split: sum.splits prod.splits bool.splits)

lemma same_assign: "same_comps s (snd (assignRun uuid k account provider model worker release at s))"
  by (auto simp: same_comps_def assignRun_def createLease_def heartbeatLease_def Let_def split: option.split)

lemma life_runs:
  "is_ok (comp_submit True ''r'' ''q'' sample_request None 1 sample_store)" "executes (comp_claim ''r'' ''a1'' 3 life2)"
  "is_ok (comp_settle ''r'' ''a1'' sample_rejection 4 life3)" "executes (comp_claim ''r'' ''a2'' 6 life5)"
  by code_simp+

lemma life_steps:
  "comp_reachable (life1, [])" "comp_reachable (life2, [])" "comp_reachable (life3, [(''r'', ''a1'')])" "comp_reachable (life4, [(''r'', ''a1'')])"
  "comp_reachable (life6, [(''r'', ''a1''), (''r'', ''a2'')])" "comp_step (life3, [(''r'', ''a1'')]) (life4, [(''r'', ''a1'')])"
proof -
  have start: "comp_reachable (sample_store, [])" by (rule cr_start) (simp_all add: sample_store_def)
  obtain x1 where "comp_submit True ''r'' ''q'' sample_request None 1 sample_store = Inr (x1, life1)"
    using answered[OF life_runs(1)] unfolding life1_def[symmetric] by blast
  then show one: "comp_reachable (life1, [])" using start cs_submit cr_next by blast
  show two: "comp_reachable (life2, [])" unfolding life2_def by (rule cr_next[OF one cs_other[OF same_assign]])
  obtain r3 where "comp_claim ''r'' ''a1'' 3 life2 = Inr (Inr (True, r3), life3)" using executed[OF life_runs(2)] unfolding life3_def[symmetric] by blast
  then have "comp_step (life2, []) (life3, [(''r'', ''a1'')])" using cs_claim[of "''r''" "''a1''" 3 life2 "Inr (True, r3)" life3 "[]"] by simp
  then show three: "comp_reachable (life3, [(''r'', ''a1'')])" using two cr_next by blast
  obtain x4 where "comp_settle ''r'' ''a1'' sample_rejection 4 life3 = Inr (x4, life4)" using answered[OF life_runs(3)] unfolding life4_def[symmetric] by blast
  then show step: "comp_step (life3, [(''r'', ''a1'')]) (life4, [(''r'', ''a1'')])" by (rule cs_settle)
  then show four: "comp_reachable (life4, [(''r'', ''a1'')])" using three cr_next by blast
  have five: "comp_reachable (life5, [(''r'', ''a1'')])" unfolding life5_def by (rule cr_next[OF four cs_other[OF same_assign]])
  obtain r6 where "comp_claim ''r'' ''a2'' 6 life5 = Inr (Inr (True, r6), life6)" using executed[OF life_runs(4)] unfolding life6_def[symmetric] by blast
  then have "comp_step (life5, [(''r'', ''a1'')]) (life6, [(''r'', ''a1''), (''r'', ''a2'')])"
    using cs_claim[of "''r''" "''a2''" 6 life5 "Inr (True, r6)" life6 "[(''r'', ''a1'')]"] by simp
  then show "comp_reachable (life6, [(''r'', ''a1''), (''r'', ''a2'')])" using five cr_next by blast
qed

lemma attempt_sent_once_witness:
  "comp_reachable (life6, [(''r'', ''a1''), (''r'', ''a2'')]) \<and> (\<exists>e. map_of (rs_receipts life6) (''r'', ''a1'') = Some (Failed e))"
  using life_steps(5) attempt_sent_once[of life6 "[(''r'', ''a1'')]" "''r''" "''a2''" "[]" "''a1''"] by auto

lemma completion_outcome_final_witness:
  "comp_reachable (life3, [(''r'', ''a1'')]) \<and> map_of (rs_completions life3) ''q'' \<noteq> None \<and> (\<exists>v v'. map_of (rs_completions life3) ''q'' = Some v
    \<and> map_of (rs_completions life4) ''q'' = Some v' \<and> co_run (sc_record v') = co_run (sc_record v))"
proof -
  have "map_of (rs_completions life3) ''q'' \<noteq> None" by code_simp
  then obtain v where v: "map_of (rs_completions life3) ''q'' = Some v" by blast
  then show ?thesis using life_steps(3) completion_outcome_final[OF life_steps(3,6)] by blast
qed

end
