(* ===== verification/Account_Policy.thy ===== *)
theory Account_Policy
  imports Completion Json_Parse Provider_Errors
begin

text \<open>
  Which account serves a run: \<open>packages/orchestrator/src/policy.ts\<close>, the reservations of \<open>admission-reservation.ts\<close>, the model
  entitlements of \<open>auth/model-entitlement.ts\<close> and the household's decisions of \<open>threads/model-availability.ts\<close>. The state of a shared
  credential, the profiles of the configuration, the text of a date and the order of \<open>localeCompare\<close> are arguments. Percentages
  are whole numbers.
\<close>

section \<open>Household decisions about models\<close>

text \<open>Reading the policy file: an error, no file, or its text.\<close>

type_synonym policy_read = "string + string option"

definition split_model :: "string \<Rightarrow> (string \<times> string) option" where
  "split_model model = (let provider = takeWhile (\<lambda>c. c \<noteq> CHR ''/'') model in
     if provider = model then None else Some (strip_account provider, drop (length provider + 1) model))"

definition modelAvailabilityKey :: "string \<Rightarrow> string" where
  "modelAvailabilityKey model = (case split_model model of
     None \<Rightarrow> (case find (\<lambda>m. cm_id m = map lower model \<or> cm_model m = model) catalog_models of
        Some m \<Rightarrow> cm_provider m @ ''/'' @ cm_model m | None \<Rightarrow> model)
   | Some (provider, physical) \<Rightarrow> provider @ ''/'' @ physical)"

text \<open>The arrow of the page's name is its UTF-8 text.\<close>

definition models_page :: string where
  "models_page = [CHR 0xE2, CHR 0x86, CHR 0x92] @ '' Models.''"

definition policy_failure :: "string \<Rightarrow> string" where
  "policy_failure cause = ''Could not read or save model availability: '' @ cause"

definition disabled_models :: "string \<Rightarrow> policy_read \<Rightarrow> string + string list" where
  "disabled_models path read = (case read of
     Inl cause \<Rightarrow> Inl (policy_failure cause)
   | Inr None \<Rightarrow> Inr []
   | Inr (Some words) \<Rightarrow> (case json_parse words of
       None \<Rightarrow> Inl (policy_failure ''Unexpected token'')
     | Some policy \<Rightarrow>
         if js_get policy ''version'' \<noteq> JNum (NInt 1) \<or> \<not> is_array (js_get policy ''disabled'') \<or> list_ex (\<lambda>m. \<not> nonblank m) (arr_of (js_get policy ''disabled''))
         then Inl (policy_failure (''Invalid policy in '' @ path @ ''; expected version 1 and a disabled model list''))
         else Inr (map (\<lambda>m. modelAvailabilityKey (str_of m)) (arr_of (js_get policy ''disabled'')))))"

text \<open>A decision: the canonical name and whether the model is enabled.\<close>

definition decide :: "string \<Rightarrow> policy_read \<Rightarrow> string \<Rightarrow> string + (string \<times> bool)" where
  "decide path read model = rbind (disabled_models path read) (\<lambda>off. Inr (modelAvailabilityKey model, modelAvailabilityKey model \<notin> set off))"

definition admit_model :: "string \<Rightarrow> policy_read \<Rightarrow> string \<Rightarrow> string + unit" where
  "admit_model path read model = rbind (decide path read model) (\<lambda>(key, enabled).
     if enabled then Inr () else Inl (model @ '' is disabled for new threads. Enable it in Machine '' @ models_page))"

definition sharedModelRefusal :: "string \<Rightarrow> policy_read \<Rightarrow> string \<Rightarrow> string option" where
  "sharedModelRefusal path read model = (case decide path read model of
     Inl message \<Rightarrow> Some message
   | Inr (key, enabled) \<Rightarrow> if enabled then None
       else Some (key @ '' is disabled by the household model availability policy ('' @ path @ ''); a model grant does not override it. An administrator can enable it in Machine '' @ models_page))"

section \<open>Entitlements and reservations\<close>

definition model_unsupported_ttl :: int where
  "model_unsupported_ttl = 6 * 3600000"

definition modelUnsupportedEvidence :: "string \<Rightarrow> string \<Rightarrow> int \<Rightarrow> run_store \<Rightarrow> int option" where
  "modelUnsupportedEvidence account model now s = (case map_of (rs_unsupported s) (account, model) of
     None \<Rightarrow> None | Some at \<Rightarrow> if 0 \<le> now - at \<and> now - at < model_unsupported_ttl then Some at else None)"

text \<open>Evidence is recorded when the model refused is the one asked of a stored account.\<close>

definition recordAccountModelUnsupported :: "string \<Rightarrow> string \<Rightarrow> string \<Rightarrow> int \<Rightarrow> run_store \<Rightarrow> bool \<times> run_store" where
  "recordAccountModelUnsupported account requested failure now s =
     (if accountModelUnsupported failure \<noteq> Some requested \<or> map_of (rs_accounts s) account = None then (False, s)
      else (True, s\<lparr>rs_unsupported := map_put (account, requested) now (rs_unsupported s)\<rparr>))"

definition noEntitledAccountError :: "string \<Rightarrow> string \<Rightarrow> string" where
  "noEntitledAccountError provider model = provider @ ''/'' @ model @ '' is not supported on any eligible '' @ provider
     @ '' account (provider: model is not supported when using Codex with a ChatGPT account). Choose another model or restore the account entitlement; no other model was substituted.''"

definition modelUnsupportedReason :: "(int \<Rightarrow> string) \<Rightarrow> string \<Rightarrow> int \<Rightarrow> string" where
  "modelUnsupportedReason iso_date model at = ''model '' @ model @ '' not supported on this account since '' @ iso_date at"

definition reservationMatchesRun :: "account_reservation \<Rightarrow> string option \<Rightarrow> run_store \<Rightarrow> bool" where
  "reservationMatchesRun reservation run s = (case run of
     None \<Rightarrow> False
   | Some r \<Rightarrow> (case completion_of_run r s of
       None \<Rightarrow> False
     | Some v \<Rightarrow> (case ci_metadata (sc_input v) of
         None \<Rightarrow> False
       | Some metadata \<Rightarrow> list_all (\<lambda>(k, expected). js_get metadata k = JStr expected) (res_metadata reservation))))"

definition prioritizeReservedCompletions :: "(string \<times> run_row) list \<Rightarrow> run_store \<Rightarrow> (string \<times> run_row) list" where
  "prioritizeReservedCompletions runs s =
     (let reservations = concat (map (\<lambda>a. case ac_reservation (snd a) of None \<Rightarrow> [] | Some r \<Rightarrow> [r]) (rs_accounts s));
          first = (\<lambda>r. list_ex (\<lambda>reservation. reservationMatchesRun reservation (Some (fst r)) s) reservations) in
      filter first runs @ filter (\<lambda>r. \<not> first r) runs)"

section \<open>Capacity of an account\<close>

record model_candidate =
  mc_provider :: string
  mc_model :: string
  mc_thinking :: "string option"

record policy_world =
  pw_credential :: "string \<Rightarrow> string option"
  pw_iso :: "int \<Rightarrow> string"
  pw_before :: "string \<Rightarrow> string \<Rightarrow> bool"
  pw_profiles :: "string \<Rightarrow> model_candidate list option"
  pw_meter_age :: int
  pw_policy_path :: string
  pw_policy :: policy_read

definition credentialRefusal :: "policy_world \<Rightarrow> string \<Rightarrow> string option" where
  "credentialRefusal w account = (case pw_credential w account of
     None \<Rightarrow> None
   | Some st \<Rightarrow> Some (if st = ''login-required'' then ''shared OAuth credential requires login'' else ''shared OAuth credential awaiting refresh''))"

definition most_used :: "meter_row list \<Rightarrow> int" where
  "most_used meters = fold max (map mt_used meters) 0"

text \<open>The spent percentage with the reason the account is unavailable, if it is.\<close>

definition accountCapacity :: "policy_world \<Rightarrow> string \<Rightarrow> account_row \<Rightarrow> int \<Rightarrow> string option \<Rightarrow> string option \<Rightarrow> run_store \<Rightarrow> int \<times> string option" where
  "accountCapacity w account row now run model s =
     (let meters = filter (\<lambda>m. case model of None \<Rightarrow> True | Some name \<Rightarrow> modelDrainsMeter (ac_provider row) name (mt_meter m)) (latestMeters account s) in
      (most_used meters,
       if \<not> allowsAccountUse row ''fleet'' then Some (if ac_enabled row then ''reserved for voice'' else ''disabled'')
       else if credentialRefusal w account \<noteq> None then credentialRefusal w account
       else if (case ac_reservation row of None \<Rightarrow> False | Some r \<Rightarrow> \<not> reservationMatchesRun r run s)
       then Some (''reserved capacity: '' @ (case ac_reservation row of None \<Rightarrow> [] | Some r \<Rightarrow> res_reason r))
       else if or_zero (ac_cooldown row) > now \<and> or_zero (ac_cooldown row) \<noteq> 0 then Some ''account cooling down''
       else if list_ex (\<lambda>m. mt_used m \<ge> 100) meters then Some ''provider quota exhausted''
       else None))"

section \<open>Assignment\<close>

type_synonym refusal = "string \<times> string"

record choice =
  ch_account :: string
  ch_candidate :: model_candidate
  ch_spent :: int
  ch_reserved :: bool

definition by_id :: "run_store \<Rightarrow> (string \<times> account_row) list" where
  "by_id s = sort_key fst (rs_accounts s)"

text \<open>One candidate: what each account of its provider says, a refusal or a choice.\<close>

definition thread_pass :: "policy_world \<Rightarrow> int \<Rightarrow> string option \<Rightarrow> string option \<Rightarrow> string list \<Rightarrow> run_store \<Rightarrow> model_candidate \<Rightarrow> (refusal + choice) list" where
  "thread_pass w now pinned run excluded s c =
     map (\<lambda>(account, row).
       if account \<in> set excluded then Inl (account, ''requested service tier unavailable'')
       else case modelUnsupportedEvidence account (mc_model c) now s of
         Some at \<Rightarrow> Inl (account, modelUnsupportedReason (pw_iso w) (mc_model c) at)
       | None \<Rightarrow> (case accountCapacity w account row now run (Some (mc_model c)) s of
           (spent, Some reason) \<Rightarrow> Inl (account, reason)
         | (spent, None) \<Rightarrow> Inr \<lparr>ch_account = account, ch_candidate = c, ch_spent = spent, ch_reserved = False\<rparr>))
       (filter (\<lambda>(account, row). ac_provider row = mc_provider c \<and> (pinned = None \<or> pinned = Some account)) (by_id s))"

definition refused_of :: "(refusal + choice) list \<Rightarrow> refusal list" where
  "refused_of xs = concat (map (\<lambda>x. case x of Inl r \<Rightarrow> [r] | Inr _ \<Rightarrow> []) xs)"

definition chosen_of :: "(refusal + choice) list \<Rightarrow> choice list" where
  "chosen_of xs = concat (map (\<lambda>x. case x of Inl _ \<Rightarrow> [] | Inr c \<Rightarrow> [c]) xs)"

text \<open>The candidates in order, up to the first that some account can serve.\<close>

fun first_served :: "(model_candidate \<Rightarrow> (refusal + choice) list) \<Rightarrow> model_candidate list \<Rightarrow> choice list \<times> refusal list" where
  "first_served pass [] = ([], [])"
| "first_served pass (c # cs) =
     (if chosen_of (pass c) \<noteq> [] then (chosen_of (pass c), refused_of (pass c))
      else (let (choices, refusals) = first_served pass cs in (choices, refused_of (pass c) @ refusals)))"

text \<open>The head of the sorted choices: the first that no other precedes.\<close>

definition first_by :: "(choice \<Rightarrow> choice \<Rightarrow> bool) \<Rightarrow> choice list \<Rightarrow> choice option" where
  "first_by prior cs = (case cs of [] \<Rightarrow> None | c # rest \<Rightarrow> Some (fold (\<lambda>x best. if prior x best then x else best) rest c))"

definition session_load :: "int \<Rightarrow> run_store \<Rightarrow> choice \<Rightarrow> int" where
  "session_load now s c = int (length (activeSessionLeases (ch_account c) now s))"

definition lighter :: "policy_world \<Rightarrow> int \<Rightarrow> run_store \<Rightarrow> choice \<Rightarrow> choice \<Rightarrow> bool" where
  "lighter w now s x y = (session_load now s x < session_load now s y
     \<or> (session_load now s x = session_load now s y \<and> (ch_spent x < ch_spent y
        \<or> (ch_spent x = ch_spent y \<and> pw_before w (ch_account x) (ch_account y)))))"

definition launch_stop :: "bool \<Rightarrow> string option \<Rightarrow> run_store \<Rightarrow> string option" where
  "launch_stop repair run s =
     (if control_value ''launches'' s = Some ''paused'' then Some ''emergency halt''
      else if \<not> repair \<and> control_value ''ordinary-launches'' s = Some ''paused'' then Some ''ordinary work paused''
      else if repair \<and> control_value ''repair-owner'' s \<noteq> None \<and> control_value ''repair-owner'' s \<noteq> Some [] \<and> control_value ''repair-owner'' s \<noteq> run then Some ''repair already owned''
      else None)"

definition unknown_profile :: "string \<Rightarrow> string \<Rightarrow> string" where
  "unknown_profile kind profile = ''unknown '' @ kind @ '' profile '' @ profile"

definition affinity_key :: "string \<Rightarrow> string option \<Rightarrow> choice option \<Rightarrow> (string \<times> string \<times> string) option" where
  "affinity_key profile run head = (case (run, head) of
     (Some r, Some c) \<Rightarrow> if profile = ''thread'' \<and> r \<noteq> [] then Some (r, mc_provider (ch_candidate c), mc_model (ch_candidate c)) else None
   | _ \<Rightarrow> None)"

text \<open>A thread keeps the account it had, when that account is one of the choices.\<close>

definition keep_affinity :: "choice list \<Rightarrow> choice option \<Rightarrow> string option \<Rightarrow> choice option" where
  "keep_affinity choices head retained = (case retained of
     None \<Rightarrow> head | Some account \<Rightarrow> (case find (\<lambda>c. ch_account c = account) choices of None \<Rightarrow> head | Some c \<Rightarrow> Some c))"

definition assign :: "policy_world \<Rightarrow> string \<Rightarrow> int \<Rightarrow> string option \<Rightarrow> string option \<Rightarrow> bool \<Rightarrow> string list \<Rightarrow> run_store
    \<Rightarrow> string + (choice option \<times> refusal list \<times> run_store)" where
  "assign w profile now pinned run repair excluded s =
     (case launch_stop repair run s of
        Some reason \<Rightarrow> Inr (None, [(''*'', reason)], s)
      | None \<Rightarrow>
          if (case pw_profiles w profile of None \<Rightarrow> True | Some cs \<Rightarrow> cs = []) then Inl (unknown_profile ''model'' profile)
          else let cs = (case pw_profiles w profile of None \<Rightarrow> [] | Some cs \<Rightarrow> cs);
                   (choices, refusals) = first_served (thread_pass w now pinned run excluded s) cs;
                   head = first_by (lighter w now s) choices; key = affinity_key profile run head;
                   chosen = keep_affinity choices head (case key of None \<Rightarrow> None | Some k \<Rightarrow> map_of (rs_affinity s) k) in
            Inr (chosen, refusals, (case (key, chosen) of
              (Some k, Some c) \<Rightarrow> s\<lparr>rs_affinity := map_put k (ch_account c) (rs_affinity s)\<rparr> | _ \<Rightarrow> s)))"

section \<open>Completions\<close>

definition full_model :: "model_candidate \<Rightarrow> string" where
  "full_model c = mc_provider c @ ''/'' @ mc_model c"

definition stale_meters :: "policy_world \<Rightarrow> int \<Rightarrow> meter_row list \<Rightarrow> bool" where
  "stale_meters w now meters = (meters = [] \<or> list_ex (\<lambda>m. now - mt_observed m > pw_meter_age w \<or> mt_observed m > now + 60000) meters)"

text \<open>Why an account may not serve a completion, for an owner with a grant, one without, or no owner.\<close>

definition completion_reason :: "policy_world \<Rightarrow> int \<Rightarrow> string \<Rightarrow> string option \<Rightarrow> run_store \<Rightarrow> model_candidate \<Rightarrow> string \<Rightarrow> account_row \<Rightarrow> string option" where
  "completion_reason w now run owner s c account row =
     (let meters = latestMeters account s; grant = (case owner of None \<Rightarrow> None | Some p \<Rightarrow> map_of (rs_grants s) p);
          unsupported = modelUnsupportedEvidence account (mc_model c) now s in
      if owner \<noteq> None \<and> grant = None then Some (''no live model broker grant for '' @ (case owner of None \<Rightarrow> [] | Some p \<Rightarrow> p))
      else if (case grant of None \<Rightarrow> False | Some g \<Rightarrow> account \<notin> set (bg_accounts g) \<or> full_model c \<notin> set (bg_models g)) then Some ''account or model not shared with completion owner''
      else if \<not> allowsAccountUse row ''fleet'' then Some ''account unavailable''
      else if credentialRefusal w account \<noteq> None then credentialRefusal w account
      else if unsupported \<noteq> None then Some (modelUnsupportedReason (pw_iso w) (mc_model c) (or_zero unsupported))
      else if (case ac_reservation row of None \<Rightarrow> False | Some r \<Rightarrow> \<not> reservationMatchesRun r (Some run) s) then Some ''reserved for another completion queue''
      else if or_zero (ac_cooldown row) > now \<and> or_zero (ac_cooldown row) \<noteq> 0 then Some ''account cooling down''
      else if stale_meters w now meters then Some ''missing or stale provider quota''
      else if list_ex (\<lambda>m. mt_used m \<ge> 100) meters then Some ''provider quota exhausted''
      else completionFeedbackRefusal account now s)"

definition completion_pass :: "policy_world \<Rightarrow> int \<Rightarrow> string \<Rightarrow> string option \<Rightarrow> run_store \<Rightarrow> model_candidate \<Rightarrow> (refusal + choice) list" where
  "completion_pass w now run owner s c =
     (case (if owner = None then None else sharedModelRefusal (pw_policy_path w) (pw_policy w) (full_model c)) of
        Some message \<Rightarrow> [Inl (''*'', message)]
      | None \<Rightarrow> map (\<lambda>(account, row). case completion_reason w now run owner s c account row of
            Some reason \<Rightarrow> Inl (account, reason)
          | None \<Rightarrow> Inr \<lparr>ch_account = account, ch_candidate = c, ch_spent = most_used (latestMeters account s), ch_reserved = (ac_reservation row \<noteq> None)\<rparr>)
          (filter (\<lambda>(account, row). ac_provider row = mc_provider c) (by_id s)))"

definition reserved_first :: "policy_world \<Rightarrow> choice \<Rightarrow> choice \<Rightarrow> bool" where
  "reserved_first w x y = ((ch_reserved x \<and> \<not> ch_reserved y)
     \<or> (ch_reserved x = ch_reserved y \<and> (ch_spent x < ch_spent y \<or> (ch_spent x = ch_spent y \<and> pw_before w (ch_account x) (ch_account y)))))"

text \<open>A run that was admitted before keeps its model; otherwise the profile's candidates with the thinking asked for.\<close>

definition completion_candidates :: "policy_world \<Rightarrow> string \<Rightarrow> string \<Rightarrow> run_store \<Rightarrow> model_candidate list" where
  "completion_candidates w profile run s =
     (let asked = (case completion_of_run run s of None \<Rightarrow> None | Some v \<Rightarrow> ci_thinking (sc_input v));
          fresh = map (\<lambda>c. c\<lparr>mc_thinking := Some (case asked of Some t \<Rightarrow> t | None \<Rightarrow> admissionThinking (mc_provider c) (mc_model c))\<rparr>)
            (case pw_profiles w profile of None \<Rightarrow> [] | Some cs \<Rightarrow> cs) in
      case map_of (rs_runs s) run of
        Some row \<Rightarrow> (case (rn_provider row, rn_model row) of
          (Some provider, Some model) \<Rightarrow> [\<lparr>mc_provider = provider, mc_model = model, mc_thinking = rn_thinking row\<rparr>] | _ \<Rightarrow> fresh)
      | None \<Rightarrow> fresh)"

definition assignCompletion :: "policy_world \<Rightarrow> string \<Rightarrow> string \<Rightarrow> int \<Rightarrow> run_store \<Rightarrow> string + (choice option \<times> refusal list)" where
  "assignCompletion w run profile now s =
     (let stored = completion_of_run run s; retry_at = (case stored of None \<Rightarrow> None | Some v \<Rightarrow> co_retry (sc_record v));
          owner = (case stored of None \<Rightarrow> None | Some v \<Rightarrow> map_option cx_principal (sc_access v)) in
      case launch_stop False None s of
        Some reason \<Rightarrow> Inr (None, [(''*'', reason)])
      | None \<Rightarrow>
          if (case retry_at of None \<Rightarrow> False | Some t \<Rightarrow> t > now) then Inr (None, [(''*'', ''provider retry scheduled at '' @ int_text (or_zero retry_at))])
          else if completion_candidates w profile run s = [] then Inl (unknown_profile ''completion'' profile)
          else let (choices, refusals) = first_served (completion_pass w now run owner s) (completion_candidates w profile run s) in
            Inr (first_by (reserved_first w) choices, refusals))"

section \<open>Choices are admissible\<close>

text \<open>An account that can serve a candidate of a thread now.\<close>

definition serves :: "policy_world \<Rightarrow> int \<Rightarrow> string option \<Rightarrow> string option \<Rightarrow> string list \<Rightarrow> run_store \<Rightarrow> model_candidate \<Rightarrow> string \<Rightarrow> bool" where
  "serves w now pinned run excluded s c account = (\<exists>row. (account, row) \<in> set (rs_accounts s) \<and> ac_provider row = mc_provider c \<and> (pinned = None \<or> pinned = Some account)
     \<and> account \<notin> set excluded \<and> modelUnsupportedEvidence account (mc_model c) now s = None
     \<and> snd (accountCapacity w account row now run (Some (mc_model c)) s) = None)"

lemma set_chosen: "c \<in> set (chosen_of xs) \<longleftrightarrow> Inr c \<in> set xs"
  by (auto simp: chosen_of_def split: sum.splits)

lemma set_by_id [simp]: "set (by_id s) = set (rs_accounts s)"
  by (simp add: by_id_def)

lemma thread_choices:
  "x \<in> set (chosen_of (thread_pass w now pinned run excluded s c)) \<longleftrightarrow>
     ch_candidate x = c \<and> \<not> ch_reserved x \<and> (\<exists>row. (ch_account x, row) \<in> set (rs_accounts s) \<and> ac_provider row = mc_provider c \<and> (pinned = None \<or> pinned = Some (ch_account x))
       \<and> ch_account x \<notin> set excluded \<and> modelUnsupportedEvidence (ch_account x) (mc_model c) now s = None
       \<and> accountCapacity w (ch_account x) row now run (Some (mc_model c)) s = (ch_spent x, None))"
proof -
  let ?f = "\<lambda>(account, row). if account \<in> set excluded then Inl (account, ''requested service tier unavailable'')
    else case modelUnsupportedEvidence account (mc_model c) now s of
      Some at \<Rightarrow> Inl (account, modelUnsupportedReason (pw_iso w) (mc_model c) at)
    | None \<Rightarrow> (case accountCapacity w account row now run (Some (mc_model c)) s of
        (spent, Some reason) \<Rightarrow> Inl (account, reason)
      | (spent, None) \<Rightarrow> Inr \<lparr>ch_account = account, ch_candidate = c, ch_spent = spent, ch_reserved = False\<rparr>)"
  have one: "?f (account, row) = Inr x \<longleftrightarrow> ch_account x = account \<and> ch_candidate x = c \<and> \<not> ch_reserved x \<and> account \<notin> set excluded
    \<and> modelUnsupportedEvidence account (mc_model c) now s = None \<and> accountCapacity w account row now run (Some (mc_model c)) s = (ch_spent x, None)" for account row
    by (cases x) (auto split: option.splits prod.splits)
  have "Inr x \<in> set (thread_pass w now pinned run excluded s c) \<longleftrightarrow>
    (\<exists>account row. (account, row) \<in> set (rs_accounts s) \<and> ac_provider row = mc_provider c \<and> (pinned = None \<or> pinned = Some account) \<and> ?f (account, row) = Inr x)"
    unfolding thread_pass_def by (auto simp: image_iff eq_commute[of "Inr x"])
  then show ?thesis unfolding set_chosen one by auto
qed

lemma thread_serves: "chosen_of (thread_pass w now pinned run excluded s c) \<noteq> [] \<longleftrightarrow> (\<exists>account. serves w now pinned run excluded s c account)"
proof
  assume "chosen_of (thread_pass w now pinned run excluded s c) \<noteq> []"
  then obtain x where "x \<in> set (chosen_of (thread_pass w now pinned run excluded s c))" using list.set_sel(1) by blast
  then show "\<exists>account. serves w now pinned run excluded s c account" unfolding thread_choices serves_def by fastforce
next
  assume "\<exists>account. serves w now pinned run excluded s c account"
  then obtain account row where row: "(account, row) \<in> set (rs_accounts s)" "ac_provider row = mc_provider c" "pinned = None \<or> pinned = Some account" "account \<notin> set excluded"
    "modelUnsupportedEvidence account (mc_model c) now s = None" "snd (accountCapacity w account row now run (Some (mc_model c)) s) = None"
    unfolding serves_def by blast
  let ?x = "\<lparr>ch_account = account, ch_candidate = c, ch_spent = fst (accountCapacity w account row now run (Some (mc_model c)) s), ch_reserved = False\<rparr>"
  have "accountCapacity w account row now run (Some (mc_model c)) s = (ch_spent ?x, None)" using row(6) by (metis choice.select_convs(3) prod.collapse)
  then have "?x \<in> set (chosen_of (thread_pass w now pinned run excluded s c))" unfolding thread_choices using row by auto
  then show "chosen_of (thread_pass w now pinned run excluded s c) \<noteq> []" by (metis list.set(1) empty_iff)
qed

lemma first_served_cases:
  "first_served pass cs = (choices, refusals) \<Longrightarrow>
     (choices = [] \<and> (\<forall>d\<in>set cs. chosen_of (pass d) = []))
     \<or> (\<exists>pre c post. cs = pre @ c # post \<and> choices = chosen_of (pass c) \<and> choices \<noteq> [] \<and> (\<forall>d\<in>set pre. chosen_of (pass d) = []))"
proof (induction pass cs arbitrary: choices refusals rule: first_served.induct)
  case (2 pass c cs)
  show ?case
  proof (cases "chosen_of (pass c) = []")
    case True
    obtain chs rs where rest: "first_served pass cs = (chs, rs)" by fastforce
    have eq: "choices = chs" using 2(2) True rest by simp
    have "\<not> chosen_of (pass c) \<noteq> []" using True by simp
    from 2(1)[OF this rest] show ?thesis
    proof
      assume "chs = [] \<and> (\<forall>d\<in>set cs. chosen_of (pass d) = [])"
      then show ?thesis using True eq by simp
    next
      assume "\<exists>pre d post. cs = pre @ d # post \<and> chs = chosen_of (pass d) \<and> chs \<noteq> [] \<and> (\<forall>d\<in>set pre. chosen_of (pass d) = [])"
      then obtain pre d post where d: "cs = pre @ d # post" "chs = chosen_of (pass d)" "chs \<noteq> []" "\<forall>d\<in>set pre. chosen_of (pass d) = []" by blast
      have "c # cs = (c # pre) @ d # post" "\<forall>e\<in>set (c # pre). chosen_of (pass e) = []" using d True by simp_all
      then show ?thesis using d eq by blast
    qed
  next
    case False
    then have "choices = chosen_of (pass c)" using 2(2) by simp
    then show ?thesis using False by (metis append_Nil empty_iff list.set(1))
  qed
qed simp

lemma fold_best: "fold (\<lambda>x best. if prior x best then x else best) xs c \<in> insert c (set xs)"
proof (induction xs arbitrary: c)
  case (Cons a xs)
  show ?case using Cons[of "if prior a c then a else c"] by (cases "prior a c") auto
qed simp

lemma first_by_cases: "(first_by prior cs = None \<longleftrightarrow> cs = []) \<and> (\<forall>c. first_by prior cs = Some c \<longrightarrow> c \<in> set cs)"
  using fold_best[of prior] by (cases cs) (simp_all add: first_by_def)

lemma keep_affinity_cases:
  assumes "head \<in> {first_by prior cs}"
  shows "(keep_affinity cs head retained = None \<longleftrightarrow> cs = []) \<and> (\<forall>c. keep_affinity cs head retained = Some c \<longrightarrow> c \<in> set cs)"
  using assms first_by_cases[of prior cs] by (auto simp: keep_affinity_def find_None_iff find_Some_iff split: option.splits)

lemma assign_unfold:
  assumes "assign w profile now pinned run repair excluded s = Inr (chosen, refusals, s')" "launch_stop repair run s = None"
  obtains cs choices head where "pw_profiles w profile = Some cs" "first_served (thread_pass w now pinned run excluded s) cs = (choices, refusals)"
    "head = first_by (lighter w now s) choices"
    "chosen = keep_affinity choices head (case affinity_key profile run head of None \<Rightarrow> None | Some k \<Rightarrow> map_of (rs_affinity s) k)"
    "s' = (case (affinity_key profile run head, chosen) of (Some k, Some c) \<Rightarrow> s\<lparr>rs_affinity := map_put k (ch_account c) (rs_affinity s)\<rparr> | _ \<Rightarrow> s)"
proof (cases "pw_profiles w profile")
  case None
  then show ?thesis using assms by (simp add: assign_def)
next
  case (Some cs)
  obtain choices rs where served: "first_served (thread_pass w now pinned run excluded s) cs = (choices, rs)" by fastforce
  have "cs \<noteq> []" using assms Some by (auto simp: assign_def)
  then show ?thesis using assms Some served that[OF Some] by (simp add: assign_def Let_def)
qed


text \<open>A thread keeps its account. Once a thread was given an account for a model, a later assignment of the thread that
  comes to the same model gives the same account, as long as that account can serve it, whatever the loads.\<close>

theorem thread_keeps_account:
  assumes first: "assign w ''thread'' now pinned (Some run) repair excluded s = Inr (Some c, refusals, s')" "launch_stop repair (Some run) s = None" "run \<noteq> []"
    and later: "assign w' ''thread'' now' pinned' (Some run) repair' excluded' t = Inr (Some d, refusals', t')" "launch_stop repair' (Some run) t = None"
    and kept: "rs_affinity t = rs_affinity s'"
    and same_model: "mc_provider (ch_candidate d) = mc_provider (ch_candidate c)" "mc_model (ch_candidate d) = mc_model (ch_candidate c)"
    and able: "serves w' now' pinned' (Some run) excluded' t (ch_candidate d) (ch_account c)"
  shows "ch_account d = ch_account c"
proof -
  obtain cs choices head where a: "first_served (thread_pass w now pinned (Some run) excluded s) cs = (choices, refusals)" "head = first_by (lighter w now s) choices"
    "Some c = keep_affinity choices head (case affinity_key ''thread'' (Some run) head of None \<Rightarrow> None | Some k \<Rightarrow> map_of (rs_affinity s) k)"
    "s' = (case (affinity_key ''thread'' (Some run) head, Some c) of (Some k, Some c) \<Rightarrow> s\<lparr>rs_affinity := map_put k (ch_account c) (rs_affinity s)\<rparr> | _ \<Rightarrow> s)"
    using assign_unfold[OF first(1,2)] by metis
  obtain cs' choices' head' where b: "first_served (thread_pass w' now' pinned' (Some run) excluded' t) cs' = (choices', refusals')" "head' = first_by (lighter w' now' t) choices'"
    "Some d = keep_affinity choices' head' (case affinity_key ''thread'' (Some run) head' of None \<Rightarrow> None | Some k \<Rightarrow> map_of (rs_affinity t) k)"
    using assign_unfold[OF later] by metis
  have one_model: "ch_candidate x = ch_candidate y" if "first_served (thread_pass w now pinned run excluded s) cs = (chs, rs)" "x \<in> set chs" "y \<in> set chs"
    for w now pinned run excluded s cs chs rs x y
    using first_served_cases[OF that(1)] that(2,3) by (auto simp: thread_choices)
  have c: "c \<in> set choices" and d: "d \<in> set choices'"
    using keep_affinity_cases[of head "lighter w now s" choices] keep_affinity_cases[of head' "lighter w' now' t" choices'] a(2,3) b(2,3) by (metis singletonI)+
  obtain h where h: "head = Some h" "h \<in> set choices" using c first_by_cases[of "lighter w now s" choices] a(2) by (cases head) auto
  obtain h' where h': "head' = Some h'" "h' \<in> set choices'" using d first_by_cases[of "lighter w' now' t" choices'] b(2) by (cases head') auto
  let ?k = "(run, mc_provider (ch_candidate c), mc_model (ch_candidate c))"
  have "affinity_key ''thread'' (Some run) head = Some ?k" using h one_model[OF a(1) h(2) c] first(3) by (simp add: affinity_key_def)
  then have stored: "map_of (rs_affinity t) ?k = Some (ch_account c)" using a(4) kept by simp
  have "affinity_key ''thread'' (Some run) head' = Some ?k" using h' one_model[OF b(1) h'(2) d] first(3) same_model by (simp add: affinity_key_def)
  then have found: "Some d = keep_affinity choices' head' (Some (ch_account c))" using b(3) stored by simp
  obtain e where choices': "choices' = chosen_of (thread_pass w' now' pinned' (Some run) excluded' t e)" using first_served_cases[OF b(1)] d by auto
  have e: "ch_candidate d = e" using d unfolding choices' thread_choices by blast
  obtain row where row: "(ch_account c, row) \<in> set (rs_accounts t)" "ac_provider row = mc_provider e" "pinned' = None \<or> pinned' = Some (ch_account c)" "ch_account c \<notin> set excluded'"
    "modelUnsupportedEvidence (ch_account c) (mc_model e) now' t = None" "snd (accountCapacity w' (ch_account c) row now' (Some run) (Some (mc_model e)) t) = None"
    using able unfolding serves_def e by blast
  let ?x = "\<lparr>ch_account = ch_account c, ch_candidate = e, ch_spent = fst (accountCapacity w' (ch_account c) row now' (Some run) (Some (mc_model e)) t), ch_reserved = False\<rparr>"
  have "accountCapacity w' (ch_account c) row now' (Some run) (Some (mc_model e)) t = (ch_spent ?x, None)" using row(6) by (metis choice.select_convs(3) prod.collapse)
  then have "?x \<in> set choices'" unfolding choices' thread_choices using row by auto
  then have "find (\<lambda>x. ch_account x = ch_account c) choices' \<noteq> None" unfolding find_None_iff by (metis choice.select_convs(1))
  then obtain z where z: "find (\<lambda>x. ch_account x = ch_account c) choices' = Some z" by blast
  have "d = z" using found z by (simp add: keep_affinity_def)
  moreover have "ch_account z = ch_account c" using z by (auto simp: find_Some_iff)
  ultimately show ?thesis by simp
qed

section \<open>Completions stay within their owner's grant\<close>

lemma completion_choices:
  assumes "x \<in> set (chosen_of (completion_pass w now run owner s c))"
  shows "ch_candidate x = c \<and> (owner = None \<or> sharedModelRefusal (pw_policy_path w) (pw_policy w) (full_model c) = None)
    \<and> (\<exists>row. (ch_account x, row) \<in> set (rs_accounts s) \<and> ac_provider row = mc_provider c \<and> completion_reason w now run owner s c (ch_account x) row = None)"
proof (cases "if owner = None then None else sharedModelRefusal (pw_policy_path w) (pw_policy w) (full_model c)")
  case (Some m)
  then show ?thesis using assms by (simp add: completion_pass_def chosen_of_def)
next
  case None
  then have "Inr x \<in> set (map (\<lambda>(account, row). case completion_reason w now run owner s c account row of
            Some reason \<Rightarrow> Inl (account, reason)
          | None \<Rightarrow> Inr \<lparr>ch_account = account, ch_candidate = c, ch_spent = most_used (latestMeters account s), ch_reserved = (ac_reservation row \<noteq> None)\<rparr>)
          (filter (\<lambda>(account, row). ac_provider row = mc_provider c) (by_id s)))"
    using assms unfolding set_chosen completion_pass_def by simp
  then obtain account row where "(account, row) \<in> set (rs_accounts s)" "ac_provider row = mc_provider c" "completion_reason w now run owner s c account row = None"
    "ch_account x = account" "ch_candidate x = c" by (auto split: option.splits)
  then show ?thesis using None by (auto split: if_splits)
qed

text \<open>C29: A completion is assigned within its owner's live grant and the household's policy. An account assigned to a
  brokered completion is one its owner is granted now, with the model, whatever the owner held when it was submitted;
  the model is enabled by the household; and the account, owned or not, is enabled for the fleet, not cooling down,
  not spent, and its quota was read recently.\<close>

theorem completion_within_grant:
  assumes "assignCompletion w run profile now s = Inr (Some c, refusals)"
    "completion_of_run run s = Some v" "map_option cx_principal (sc_access v) = owner"
  shows "(case owner of None \<Rightarrow> True | Some p \<Rightarrow> sharedModelRefusal (pw_policy_path w) (pw_policy w) (full_model (ch_candidate c)) = None
        \<and> (\<exists>g. map_of (rs_grants s) p = Some g \<and> ch_account c \<in> set (bg_accounts g) \<and> full_model (ch_candidate c) \<in> set (bg_models g)))
    \<and> (\<exists>row. (ch_account c, row) \<in> set (rs_accounts s) \<and> ac_provider row = mc_provider (ch_candidate c) \<and> allowsAccountUse row ''fleet''
        \<and> (ac_cooldown row = None \<or> or_zero (ac_cooldown row) \<le> max now 0) \<and> \<not> stale_meters w now (latestMeters (ch_account c) s)
        \<and> list_all (\<lambda>m. mt_used m < 100) (latestMeters (ch_account c) s))"
proof -
  define cs where "cs = completion_candidates w profile run s"
  obtain choices rs where served: "first_served (completion_pass w now run owner s) cs = (choices, rs)" by fastforce
  have "first_by (reserved_first w) choices = Some c"
    using assms served unfolding assignCompletion_def Let_def cs_def by (auto split: option.splits if_splits prod.splits)
  then have "c \<in> set choices" using first_by_cases by blast
  then obtain d where "c \<in> set (chosen_of (completion_pass w now run owner s d))" using first_served_cases[OF served] by auto
  from completion_choices[OF this] obtain row where
    row: "(ch_account c, row) \<in> set (rs_accounts s)" "ac_provider row = mc_provider (ch_candidate c)" "completion_reason w now run owner s (ch_candidate c) (ch_account c) row = None"
    and shared: "owner = None \<or> sharedModelRefusal (pw_policy_path w) (pw_policy w) (full_model (ch_candidate c)) = None" by blast
  note reason = row(3)[unfolded completion_reason_def Let_def]
  have ready: "allowsAccountUse row ''fleet''" "\<not> (or_zero (ac_cooldown row) > now \<and> or_zero (ac_cooldown row) \<noteq> 0)"
    "\<not> stale_meters w now (latestMeters (ch_account c) s)" "\<not> list_ex (\<lambda>m. mt_used m \<ge> 100) (latestMeters (ch_account c) s)"
    using reason by (auto split: if_splits)
  have granted: "\<exists>g. map_of (rs_grants s) p = Some g \<and> ch_account c \<in> set (bg_accounts g) \<and> full_model (ch_candidate c) \<in> set (bg_models g)" if "owner = Some p" for p
    using reason that by (cases "map_of (rs_grants s) p") (auto split: if_splits)
  have "list_all (\<lambda>m. mt_used m < 100) (latestMeters (ch_account c) s)" using ready(4) by (auto simp: list_all_iff list_ex_iff)
  moreover have "ac_cooldown row = None \<or> or_zero (ac_cooldown row) \<le> max now 0" using ready(2) by linarith
  ultimately show ?thesis using row(1,2) ready(1,3) granted shared by (cases owner) auto
qed

section \<open>Refusing models\<close>

text \<open>A recorded refusal keeps its account from serving that model until the evidence expires.\<close>

lemma refused_model_not_served:
  assumes "recordAccountModelUnsupported account model failure at s = (True, t)" "at \<le> now" "now < at + model_unsupported_ttl" "rs_unsupported u = rs_unsupported t"
    "mc_model c = model"
  shows "\<not> serves w now pinned run excluded u c account"
  using assms by (auto simp: recordAccountModelUnsupported_def serves_def modelUnsupportedEvidence_def split: if_splits)

lemma unsupported_evaluates:
  "accountModelUnsupported (''Error: the '' @ [CHR 39] @ ''gpt-6.1-sol'' @ [CHR 39] @ '' model is not supported when using Codex with a ChatGPT account.'') = Some ''gpt-6.1-sol''"
  by code_simp

section \<open>Instances\<close>

definition sample_world :: policy_world where
  "sample_world = \<lparr>pw_credential = (\<lambda>_. None), pw_iso = (\<lambda>_. ''now''), pw_before = (\<lambda>a b. a < b), pw_profiles = (\<lambda>_. Some [\<lparr>mc_provider = ''openai-codex'', mc_model = ''gpt-6-luna'', mc_thinking = None\<rparr>]),
     pw_meter_age = 1000, pw_policy_path = ''p'', pw_policy = Inr None\<rparr>"

definition codex_account :: account_row where
  "codex_account = \<lparr>ac_provider = ''openai-codex'', ac_enabled = True, ac_cooldown = None, ac_voice = False, ac_reservation = None\<rparr>"

definition two_accounts :: run_store where
  "two_accounts = sample_store\<lparr>rs_accounts := [(''a'', codex_account), (''b'', codex_account)], rs_meters := [(''a'', \<lparr>mt_meter = ''x'', mt_observed = 5, mt_used = 50\<rparr>), (''b'', \<lparr>mt_meter = ''x'', mt_observed = 5, mt_used = 10\<rparr>)]\<rparr>"

text \<open>The first assignment takes the less used account; the second keeps it though it is used more by then.\<close>

definition assigned_store :: "string + (choice option \<times> refusal list \<times> run_store) \<Rightarrow> run_store" where
  "assigned_store r = (case r of Inl _ \<Rightarrow> sample_store | Inr (_, _, s) \<Rightarrow> s)"

definition assigned_choice :: "string + (choice option \<times> refusal list \<times> run_store) \<Rightarrow> choice option" where
  "assigned_choice r = (case r of Inl _ \<Rightarrow> None | Inr (c, _, _) \<Rightarrow> c)"

definition first_assignment :: "string + (choice option \<times> refusal list \<times> run_store)" where
  "first_assignment = assign sample_world ''thread'' 10 None (Some ''r'') False [] two_accounts"

definition later_store :: run_store where
  "later_store = (assigned_store first_assignment)\<lparr>rs_meters := [(''b'', \<lparr>mt_meter = ''x'', mt_observed = 20, mt_used = 90\<rparr>)]\<rparr>"

definition later_assignment :: "string + (choice option \<times> refusal list \<times> run_store)" where
  "later_assignment = assign sample_world ''thread'' 30 None (Some ''r'') False [] later_store"

lemma assigned_eq: "assigned_choice r = Some c \<Longrightarrow> \<exists>refusals. r = Inr (Some c, refusals, assigned_store r)"
  by (auto simp: assigned_choice_def assigned_store_def split: sum.splits prod.splits)

lemma sample_choices:
  "map_option ch_account (assigned_choice first_assignment) = Some ''b''" "map_option (mc_model o ch_candidate) (assigned_choice first_assignment) = Some ''gpt-6-luna''"
  "map_option (mc_provider o ch_candidate) (assigned_choice first_assignment) = Some ''openai-codex''"
  "map_option (mc_model o ch_candidate) (assigned_choice later_assignment) = Some ''gpt-6-luna''"
  "map_option (mc_provider o ch_candidate) (assigned_choice later_assignment) = Some ''openai-codex''"
  "snd (accountCapacity sample_world ''b'' codex_account 30 (Some ''r'') (Some ''gpt-6-luna'') later_store) = None"
  "map_of (rs_accounts later_store) ''b'' = Some codex_account" "rs_unsupported later_store = []"
  by code_simp+

lemma sample_open: "launch_stop False (Some ''r'') two_accounts = None" "launch_stop False (Some ''r'') later_store = None"
  by code_simp+


lemma thread_keeps_account_witness:
  "\<exists>c d. assigned_choice first_assignment = Some c \<and> assigned_choice later_assignment = Some d \<and> ch_account c = ''b'' \<and> ch_account d = ''b''"
proof -
  obtain c where c: "assigned_choice first_assignment = Some c" "ch_account c = ''b''" using sample_choices(1) by auto
  obtain d where d: "assigned_choice later_assignment = Some d" using sample_choices(4) by auto
  obtain r1 where r1: "assign sample_world ''thread'' 10 None (Some ''r'') False [] two_accounts = Inr (Some c, r1, assigned_store first_assignment)"
    using assigned_eq[OF c(1)] unfolding first_assignment_def by blast
  obtain r2 where r2: "assign sample_world ''thread'' 30 None (Some ''r'') False [] later_store = Inr (Some d, r2, assigned_store later_assignment)"
    using assigned_eq[OF d] unfolding later_assignment_def by blast
  have kept: "rs_affinity later_store = rs_affinity (assigned_store first_assignment)" by (simp add: later_store_def)
  have same: "mc_provider (ch_candidate d) = mc_provider (ch_candidate c)" "mc_model (ch_candidate d) = mc_model (ch_candidate c)"
    "mc_model (ch_candidate d) = ''gpt-6-luna''" "mc_provider (ch_candidate d) = ''openai-codex''" using sample_choices c(1) d by simp_all
  have stored: "(''b'', codex_account) \<in> set (rs_accounts later_store)" using sample_choices(7) by (rule map_of_SomeD)
  have able: "serves sample_world 30 None (Some ''r'') [] later_store (ch_candidate d) (ch_account c)"
    unfolding serves_def by (rule exI[of _ codex_account]) (use stored same c(2) sample_choices(6,8) in \<open>simp add: codex_account_def modelUnsupportedEvidence_def\<close>)
  show ?thesis using c d thread_keeps_account[OF r1 sample_open(1) _ r2 sample_open(2) kept same(1,2) able] by simp
qed

definition granted_store :: run_store where
  "granted_store = (answered_store (comp_submit True ''r'' ''q'' sample_request (Some \<lparr>cx_principal = ''p'', cx_accounts = [], cx_models = []\<rparr>) 1 sample_store))
     \<lparr>rs_accounts := rs_accounts two_accounts, rs_meters := rs_meters two_accounts, rs_grants := [(''p'', \<lparr>bg_accounts = [''a''], bg_models = [''openai-codex/gpt-6-luna'']\<rparr>)]\<rparr>"

lemma completion_within_grant_witness:
  "\<exists>c refusals. assignCompletion sample_world ''r'' ''luna'' 10 granted_store = Inr (Some c, refusals)
    \<and> (\<exists>g. map_of (rs_grants granted_store) ''p'' = Some g \<and> ch_account c \<in> set (bg_accounts g))"
proof -
  have "(case assignCompletion sample_world ''r'' ''luna'' 10 granted_store of Inr (Some c, _) \<Rightarrow> True | _ \<Rightarrow> False)" by code_simp
  then obtain c refusals where c: "assignCompletion sample_world ''r'' ''luna'' 10 granted_store = Inr (Some c, refusals)"
    by (auto split: sum.splits prod.splits option.splits)
  have access: "map_option (map_option cx_principal o sc_access) (completion_of_run ''r'' granted_store) = Some (Some ''p'')" by code_simp
  then obtain v where v: "completion_of_run ''r'' granted_store = Some v" "map_option cx_principal (sc_access v) = Some ''p''" by auto
  show ?thesis using c completion_within_grant[OF c v] by auto
qed

end
