(* ===== verification/Life_Contract.thy ===== *)
theory Life_Contract
  imports Prelude
begin

text \<open>
  The life model of a person (\<open>packages/kenan-memory/src/life-contract.ts\<close>) and the checks its requests must pass beyond their
  shape (\<open>life-validation.ts\<close>). The schemas are the types; their limits on lengths and patterns are left out. A
  point in time is its text; parsing it and knowing a time zone are arguments.
\<close>

section \<open>Provenance\<close>

datatype fact_class = Stated | Revealed | Derived | Hypothesis

record life_link =
  lk_kind :: string
  lk_id :: string
  lk_relation :: "string option"

record fact_provenance =
  pv_class :: fact_class
  pv_confidence :: "string option"
  pv_actor :: "string option"
  pv_locator :: "string option"
  pv_observed :: string
  pv_evidence :: "life_link list"
  pv_counter :: "life_link list"
  pv_from :: "string option"
  pv_until :: "string option"

type_synonym life_due = "(string \<times> string) option"

section \<open>Entities\<close>

record life_goal =
  go_state :: string
  go_outcome :: string
  go_horizon :: life_due
  go_tradeoffs :: "string list"
  go_commitments :: "string list"

record life_commitment =
  cm_state :: string
  cm_parties :: "string list"
  cm_authority :: "string option"
  cm_origin :: string
  cm_due :: life_due
  cm_acceptance :: string
  cm_dependencies :: "string list"
  cm_owner :: "string option"
  cm_action :: "string option"
  cm_waiting :: "(string \<times> string) option"
  cm_goal :: "string option"

record life_need =
  ny_state :: string
  ny_reason :: string
  ny_consequence :: "string option"
  ny_recommendation :: "string option"
  ny_required :: life_due
  ny_commitment :: "string option"
  ny_question :: "string option"

record life_preference =
  pf_context :: string
  pf_claim :: string
  pf_options :: "string list"
  pf_constraints :: "string list"
  pf_exposure :: "string option"
  pf_adopted :: bool

datatype life_body = Life_goal life_goal | Life_commitment life_commitment | Life_need life_need | Life_preference life_preference

record entity_input =
  en_title :: string
  en_provenance :: fact_provenance
  en_body :: life_body

definition life_kind :: "entity_input \<Rightarrow> string" where
  "life_kind e = (case en_body e of Life_goal _ \<Rightarrow> ''goal'' | Life_commitment _ \<Rightarrow> ''commitment'' | Life_need _ \<Rightarrow> ''needs-you'' | Life_preference _ \<Rightarrow> ''preference'')"

section \<open>Policies, coverage, steering and imports\<close>

record life_policy =
  po_active :: bool
  po_domains :: "string list"
  po_delegation :: string
  po_financial :: "string option"
  po_mode :: string
  po_instruction :: "string option"
  po_exclusions :: "string list"
  po_disclosure :: string
  po_third_party :: string
  po_override :: "string option"
  po_protected :: "string list"
  po_review :: life_due
  po_provenance :: fact_provenance

record life_coverage =
  cv_source :: string
  cv_state :: string
  cv_checked :: string
  cv_reconciled :: "string option"
  cv_fresh :: "string option"
  cv_detail :: "string option"
  cv_error :: "string option"
  cv_evidence :: "life_link list"

record life_steering =
  sg_policy :: nat
  sg_goals :: "string list"
  sg_preferences :: "string list"
  sg_evidence :: "life_link list"
  sg_action :: string
  sg_rationale :: string
  sg_visibility :: string
  sg_state :: string
  sg_outcome :: "string option"
  sg_receipt :: "life_link option"
  sg_compensation :: "string option"

record life_receipt =
  lr_source :: string
  lr_fingerprint :: string
  lr_imported :: string
  lr_ids :: "string list"
  lr_again :: bool

datatype life_request =
    Life_read
  | Life_history string
  | Policy_read bool
  | Policy_write nat life_policy
  | Put_entity nat string entity_input
  | Retract_entity nat string string
  | Coverage_write nat life_coverage
  | Steering_read nat
  | Steering_write nat string life_steering
  | Import_receipt string
  | Import_entities string string "(string \<times> entity_input) list"

section \<open>Checks beyond the shape\<close>

record life_platform =
  lp_date :: "string \<Rightarrow> int option"
  lp_calendar :: "string \<Rightarrow> bool"
  lp_zone :: "string \<Rightarrow> bool"

text \<open>A time must parse and be a date of the calendar.\<close>

definition good_time :: "life_platform \<Rightarrow> string \<Rightarrow> bool" where
  "good_time p t = (lp_date p t \<noteq> None \<and> lp_calendar p (take 19 t))"

definition good_time_option :: "life_platform \<Rightarrow> string option \<Rightarrow> bool" where
  "good_time_option p t = (case t of None \<Rightarrow> True | Some x \<Rightarrow> good_time p x)"

definition good_due :: "life_platform \<Rightarrow> life_due \<Rightarrow> bool" where
  "good_due p d = (case d of None \<Rightarrow> True | Some (at, zone) \<Rightarrow> good_time p at \<and> lp_zone p zone)"

definition good_provenance :: "life_platform \<Rightarrow> fact_provenance \<Rightarrow> bool" where
  "good_provenance p v = (good_time p (pv_observed v) \<and> good_time_option p (pv_from v) \<and> good_time_option p (pv_until v)
     \<and> (case (pv_from v, pv_until v) of (Some a, Some b) \<Rightarrow> (case (lp_date p a, lp_date p b) of (Some x, Some y) \<Rightarrow> x < y | _ \<Rightarrow> True) | _ \<Rightarrow> True))"

definition good_entity :: "life_platform \<Rightarrow> entity_input \<Rightarrow> bool" where
  "good_entity p e = (good_provenance p (en_provenance e) \<and> (case en_body e of
     Life_goal g \<Rightarrow> good_due p (go_horizon g)
   | Life_commitment c \<Rightarrow> good_due p (cm_due c) \<and> (cm_state c = ''waiting'') = (cm_waiting c \<noteq> None)
   | Life_need n \<Rightarrow> good_due p (ny_required n)
   | Life_preference f \<Rightarrow> pf_adopted f \<longrightarrow> pv_class (en_provenance e) = Stated))"

definition good_policy :: "life_platform \<Rightarrow> life_policy \<Rightarrow> bool" where
  "good_policy p v = (good_provenance p (po_provenance v) \<and> good_due p (po_review v) \<and> (po_mode v = ''off'' \<longrightarrow> po_instruction v = None))"

definition good_coverage :: "life_platform \<Rightarrow> life_coverage \<Rightarrow> bool" where
  "good_coverage p c = (good_time p (cv_checked c) \<and> good_time_option p (cv_reconciled c) \<and> good_time_option p (cv_fresh c)
     \<and> (cv_state c = ''complete'' \<longrightarrow> cv_reconciled c \<noteq> None \<and> cv_error c = None))"

definition validateLifeRequest :: "life_platform \<Rightarrow> life_request \<Rightarrow> bool" where
  "validateLifeRequest p request = (case request of
     Policy_write _ v \<Rightarrow> good_policy p v
   | Put_entity _ _ e \<Rightarrow> good_entity p e
   | Coverage_write _ c \<Rightarrow> good_coverage p c
   | Import_entities _ _ entries \<Rightarrow> list_all (\<lambda>x. good_entity p (snd x)) entries
   | _ \<Rightarrow> True)"

text \<open>The policy a person starts with.\<close>

definition conservativeLifePolicy :: "string \<Rightarrow> string \<Rightarrow> life_policy" where
  "conservativeLifePolicy person at =
     \<lparr>po_active = True, po_domains = [],
      po_delegation = ''No expanded standing delegation is established. Carry out direct instructions within existing tool permissions; ask before consequential actions not directly requested.'',
      po_financial = None, po_mode = ''off'', po_instruction = None, po_exclusions = [],
      po_disclosure = ''Keep private life information in this person's boundary. Cross-person disclosure belongs to the authenticated root boundary.'',
      po_third_party = ''Respect every other person's consent and ownership.'', po_override = None, po_protected = [], po_review = None,
      po_provenance = \<lparr>pv_class = Derived, pv_confidence = None, pv_actor = Some ''system'', pv_locator = Some (''life:initial-policy:'' @ person), pv_observed = at,
        pv_evidence = [], pv_counter = [], pv_from = Some at, pv_until = None\<rparr>\<rparr>"

text \<open>The first policy passes the checks, and permits no steering.\<close>

lemma initial_policy_good:
  assumes "good_time p at"
  shows "good_policy p (conservativeLifePolicy person at) \<and> po_mode (conservativeLifePolicy person at) = ''off''"
  using assms by (simp add: good_policy_def conservativeLifePolicy_def good_provenance_def good_time_option_def good_due_def)

end
