(* ===== verification/Life_Store.thy ===== *)
theory Life_Store
  imports Life_Contract
begin

text \<open>
  The versioned store of a person's life model (\<open>packages/kenan-memory/src/life-store.ts\<close>). Every record has its versions and a head;
  writes name the revision they change. Payloads are sealed with a key of the subject under a digest of the record's
  name: the model holds what opening a sealed payload returns, and the digests appear only as the order \<open>rank\<close> in
  which records are listed. A request is one transaction; what it throws is an unavailable store, unchanged.
\<close>

section \<open>Versions and heads\<close>

record 'a lane =
  ln_versions :: "((string \<times> nat) \<times> 'a) list"
  ln_heads :: "(string \<times> nat) list"

definition empty_lane :: "'a lane" where
  "empty_lane = \<lparr>ln_versions = [], ln_heads = []\<rparr>"

definition lane_current :: "'a lane \<Rightarrow> string \<Rightarrow> 'a option" where
  "lane_current l k = (case map_of (ln_heads l) k of None \<Rightarrow> None | Some r \<Rightarrow> map_of (ln_versions l) (k, r))"

definition lane_history :: "'a lane \<Rightarrow> string \<Rightarrow> 'a list" where
  "lane_history l k = map snd (rev (sort_key (\<lambda>p. snd (fst p)) (filter (\<lambda>p. fst (fst p) = k) (ln_versions l))))"

definition lane_all :: "(string \<Rightarrow> nat) \<Rightarrow> 'a lane \<Rightarrow> 'a list" where
  "lane_all rank l = concat (map (\<lambda>k. case lane_current l k of None \<Rightarrow> [] | Some v \<Rightarrow> [v]) (sort_key rank (map fst (ln_heads l))))"

text \<open>A new version; its primary key must be free.\<close>

definition lane_append :: "string \<Rightarrow> nat \<Rightarrow> 'a \<Rightarrow> 'a lane \<Rightarrow> 'a lane option" where
  "lane_append k r v l = (if map_of (ln_versions l) (k, r) \<noteq> None then None
     else Some \<lparr>ln_versions = map_put (k, r) v (ln_versions l), ln_heads = map_put k r (ln_heads l)\<rparr>)"

definition lane_rewrite :: "string \<Rightarrow> nat \<Rightarrow> 'a \<Rightarrow> 'a lane \<Rightarrow> 'a lane" where
  "lane_rewrite k r v l = (if map_of (ln_versions l) (k, r) = None then l else l\<lparr>ln_versions := map_put (k, r) v (ln_versions l)\<rparr>)"

record 'v life_version =
  lv_id :: string
  lv_revision :: nat
  lv_recorded :: string
  lv_by :: string
  lv_thread :: "string option"
  lv_value :: 'v

datatype entity_status = Entity_current | Entity_superseded | Entity_retracted

record entity_version =
  ev_version :: "entity_input life_version"
  ev_status :: entity_status
  ev_next :: "nat option"
  ev_reason :: "string option"

record life_subject =
  su_entities :: "entity_version lane"
  su_policies :: "life_policy life_version lane"
  su_coverage :: "life_coverage life_version lane"
  su_steering :: "life_steering life_version lane"
  su_imports :: "life_receipt life_version lane"

type_synonym life_store = "(string \<times> life_subject) list"

definition empty_subject :: life_subject where
  "empty_subject = \<lparr>su_entities = empty_lane, su_policies = empty_lane, su_coverage = empty_lane, su_steering = empty_lane, su_imports = empty_lane\<rparr>"

definition subject_of :: "life_store \<Rightarrow> string \<Rightarrow> life_subject" where
  "subject_of s k = (case map_of s k of None \<Rightarrow> empty_subject | Some x \<Rightarrow> x)"

record life_actor =
  la_person :: string
  la_thread :: "string option"

definition new_version :: "string \<Rightarrow> nat \<Rightarrow> life_actor \<Rightarrow> string \<Rightarrow> 'v \<Rightarrow> 'v life_version" where
  "new_version k r actor at v = \<lparr>lv_id = k, lv_revision = r, lv_recorded = at, lv_by = la_person actor, lv_thread = la_thread actor, lv_value = v\<rparr>"

section \<open>Answers\<close>

record life_error =
  lx_code :: string
  lx_message :: string
  lx_current :: "nat option"

datatype life_answer =
    Snapshot "entity_version list" "life_coverage life_version list"
  | Entity_history "entity_version list"
  | Policy_view "life_policy life_version option" "life_policy life_version list"
  | Entity_answer entity_version
  | Policy_answer "life_policy life_version"
  | Coverage_answer "life_coverage life_version"
  | Steering_list "life_steering life_version list"
  | Steering_answer "life_steering life_version"
  | Receipt_answer life_receipt

text \<open>The result of a step in a transaction: \<open>None\<close> is a throw.\<close>

type_synonym life_result = "((life_error + life_answer) \<times> life_subject) option"

definition life_invalid :: "string \<Rightarrow> life_error" where
  "life_invalid message = \<lparr>lx_code = ''invalid-request'', lx_message = message, lx_current = None\<rparr>"

definition refused :: "life_error \<Rightarrow> life_subject \<Rightarrow> life_result" where
  "refused e su = Some (Inl e, su)"

definition life_cas :: "nat option \<Rightarrow> nat \<Rightarrow> life_error option" where
  "life_cas prior expected = (let r = (case prior of None \<Rightarrow> 0 | Some r \<Rightarrow> r) in
     if r = expected then None else Some \<lparr>lx_code = ''conflict'', lx_message = ''Life revision changed; read before writing'', lx_current = Some r\<rparr>)"

definition life_not_found :: "string \<Rightarrow> life_error" where
  "life_not_found message = \<lparr>lx_code = ''not-found'', lx_message = message, lx_current = None\<rparr>"

definition currentValidity :: "life_platform \<Rightarrow> int \<Rightarrow> fact_provenance \<Rightarrow> bool" where
  "currentValidity p now v = ((case pv_from v of None \<Rightarrow> True | Some t \<Rightarrow> (case lp_date p t of None \<Rightarrow> False | Some x \<Rightarrow> x \<le> now))
     \<and> (case pv_until v of None \<Rightarrow> True | Some t \<Rightarrow> (case lp_date p t of None \<Rightarrow> False | Some x \<Rightarrow> x > now)))"

section \<open>Relations\<close>

text \<open>What a link means: an entity staged for import, or the current one.\<close>

definition life_lookup :: "(string \<times> entity_input) list \<Rightarrow> entity_version lane \<Rightarrow> string \<Rightarrow> entity_input option" where
  "life_lookup staged l k = (case map_of staged k of
     Some e \<Rightarrow> Some e
   | None \<Rightarrow> (case lane_current l k of None \<Rightarrow> None | Some v \<Rightarrow> if ev_status v = Entity_current then Some (lv_value (ev_version v)) else None))"

definition depends_on :: "entity_input option \<Rightarrow> string list" where
  "depends_on e = (case e of Some x \<Rightarrow> (case en_body x of Life_commitment c \<Rightarrow> cm_dependencies c | _ \<Rightarrow> []) | None \<Rightarrow> [])"

text \<open>The known entities with the dependencies of each.\<close>

definition dependency_table :: "(string \<times> entity_input) list \<Rightarrow> entity_version lane \<Rightarrow> (string \<times> string list) list" where
  "dependency_table staged l = map (\<lambda>k. (k, depends_on (life_lookup staged l k))) (map fst staged @ map fst (ln_heads l))"

definition table_deps :: "(string \<times> string list) list \<Rightarrow> string \<Rightarrow> string list" where
  "table_deps table k = (case map_of table k of None \<Rightarrow> [] | Some ds \<Rightarrow> ds)"

definition unseen :: "(string \<times> string list) list \<Rightarrow> string list \<Rightarrow> nat" where
  "unseen table seen = sum_list (map (\<lambda>(k, ds). if k \<in> set seen then 0 else Suc (length ds)) table)"

lemma unseen_less: "k \<notin> set seen \<Longrightarrow> unseen table (k # seen) + length (table_deps table k) \<le> unseen table seen"
proof (induction table)
  case (Cons p table)
  obtain j ds where p: "p = (j, ds)" by fastforce
  have mono: "unseen table (k # seen) \<le> unseen table seen" for table
    by (induction table) (auto simp: unseen_def split: prod.splits)
  show ?case
  proof (cases "j = k")
    case True
    then show ?thesis using p Cons.prems mono[of table] by (simp add: unseen_def table_deps_def)
  next
    case False
    then show ?thesis using p Cons by (auto simp: unseen_def table_deps_def)
  qed
qed (simp add: unseen_def table_deps_def)

text \<open>The depth-first search of \<open>cyclic\<close>: the links still to visit, first the dependencies of the one just seen.\<close>

function reaches :: "(string \<times> string list) list \<Rightarrow> string \<Rightarrow> string list \<Rightarrow> string list \<Rightarrow> bool" where
  "reaches table goal [] seen = False"
| "reaches table goal (k # ks) seen =
     (if k = goal then True
      else if k \<in> set seen then reaches table goal ks seen
      else reaches table goal (table_deps table k @ ks) (k # seen))"
  by pat_completeness auto

termination
proof (relation "measures [\<lambda>(table, goal, ks, seen). unseen table seen + length ks]")
  fix table :: "(string \<times> string list) list" and goal k :: string and ks seen :: "string list"
  assume "k \<notin> set seen"
  then show "((table, goal, table_deps table k @ ks, k # seen), table, goal, k # ks, seen) \<in> measures [\<lambda>(table, goal, ks, seen). unseen table seen + length ks]"
    using unseen_less[of k seen table] by simp
qed simp_all

text \<open>The links an entity must have to current entities of a kind.\<close>

definition expected_links :: "entity_input \<Rightarrow> (string \<times> string) list" where
  "expected_links e = (case en_body e of
     Life_need n \<Rightarrow> (case ny_commitment n of None \<Rightarrow> [] | Some k \<Rightarrow> [(k, ''commitment'')])
   | Life_goal g \<Rightarrow> map (\<lambda>k. (k, ''commitment'')) (go_commitments g)
   | Life_commitment c \<Rightarrow> (case cm_goal c of None \<Rightarrow> [] | Some k \<Rightarrow> [(k, ''goal'')]) @ map (\<lambda>k. (k, ''commitment'')) (cm_dependencies c)
   | Life_preference _ \<Rightarrow> [])"

definition validateRelations :: "(string \<times> entity_input) list \<Rightarrow> entity_version lane \<Rightarrow> string \<Rightarrow> entity_input \<Rightarrow> life_error option" where
  "validateRelations staged l k e =
     (if reaches (dependency_table staged l) k (depends_on (Some e)) [] then Some (life_invalid ''Commitment dependencies cannot form a cycle'')
      else if list_ex (\<lambda>(link, kind). map_option life_kind (life_lookup staged l link) \<noteq> Some kind) (expected_links e)
      then Some (life_invalid ''Life entity links must identify current entities of the expected kind in this aggregate'')
      else None)"

section \<open>Writes\<close>

definition superseded :: "entity_version \<Rightarrow> nat \<Rightarrow> entity_version" where
  "superseded v r = v\<lparr>ev_status := Entity_superseded, ev_next := Some r\<rparr>"

definition entity_revision :: "entity_version \<Rightarrow> nat" where
  "entity_revision v = lv_revision (ev_version v)"

text \<open>The next version of an entity; its prior version is marked as superseded by it.\<close>

definition next_entity :: "string \<Rightarrow> entity_version option \<Rightarrow> entity_version \<Rightarrow> entity_version lane \<Rightarrow> entity_version lane option" where
  "next_entity k prior v l = lane_append k (entity_revision v) v
     (case prior of None \<Rightarrow> l | Some p \<Rightarrow> lane_rewrite k (entity_revision p) (superseded p (entity_revision v)) l)"

definition current_entity :: "string \<Rightarrow> nat \<Rightarrow> life_actor \<Rightarrow> string \<Rightarrow> entity_input \<Rightarrow> entity_version" where
  "current_entity k r actor at e = \<lparr>ev_version = new_version k r actor at e, ev_status = Entity_current, ev_next = None, ev_reason = None\<rparr>"

definition retracted_entity :: "string \<Rightarrow> nat \<Rightarrow> life_actor \<Rightarrow> string \<Rightarrow> string \<Rightarrow> entity_input \<Rightarrow> entity_version" where
  "retracted_entity k r actor at reason e = \<lparr>ev_version = new_version k r actor at e, ev_status = Entity_retracted, ev_next = None, ev_reason = Some reason\<rparr>"

definition putEntity :: "life_actor \<Rightarrow> string \<Rightarrow> string \<Rightarrow> nat \<Rightarrow> entity_input \<Rightarrow> entity_version lane \<Rightarrow> (entity_version \<times> entity_version lane) option" where
  "putEntity actor at k expected e l =
     (let v = current_entity k (expected + 1) actor at e in map_option (Pair v) (next_entity k (lane_current l k) v l))"

definition put_entity :: "life_actor \<Rightarrow> string \<Rightarrow> nat \<Rightarrow> string \<Rightarrow> entity_input \<Rightarrow> life_subject \<Rightarrow> life_result" where
  "put_entity actor at expected k e su =
     (let l = su_entities su; prior = lane_current l k in
      case life_cas (map_option entity_revision prior) expected of Some c \<Rightarrow> refused c su
      | None \<Rightarrow>
          if (case prior of None \<Rightarrow> False | Some p \<Rightarrow> life_kind (lv_value (ev_version p)) \<noteq> life_kind e) then refused (life_invalid ''An entity cannot change kind'') su
          else (case validateRelations [] l k e of Some r \<Rightarrow> refused r su
            | None \<Rightarrow> map_option (\<lambda>(v, l'). (Inr (Entity_answer v), su\<lparr>su_entities := l'\<rparr>)) (putEntity actor at k expected e l)))"

definition retract_entity :: "life_actor \<Rightarrow> string \<Rightarrow> nat \<Rightarrow> string \<Rightarrow> string \<Rightarrow> life_subject \<Rightarrow> life_result" where
  "retract_entity actor at expected k reason su =
     (let l = su_entities su; prior = lane_current l k in
      case life_cas (map_option entity_revision prior) expected of Some c \<Rightarrow> refused c su
      | None \<Rightarrow> (case prior of
          None \<Rightarrow> refused (life_not_found ''Entity is not present'') su
        | Some p \<Rightarrow>
            if ev_status p \<noteq> Entity_current then refused (life_invalid ''Only a current entity may be retracted'') su
            else let v = retracted_entity k (expected + 1) actor at reason (lv_value (ev_version p)) in
              map_option (\<lambda>l'. (Inr (Entity_answer v), su\<lparr>su_entities := l'\<rparr>)) (next_entity k prior v l)))"

definition policy_write :: "life_actor \<Rightarrow> string \<Rightarrow> nat \<Rightarrow> life_policy \<Rightarrow> life_subject \<Rightarrow> life_result" where
  "policy_write actor at expected policy su =
     (if po_active policy \<and> pv_class (po_provenance policy) \<noteq> Stated then refused (life_invalid ''Expanded authority must be a stated grant, never an inferred policy'') su
      else case life_cas (map_option lv_revision (lane_current (su_policies su) ''authority'')) expected of Some c \<Rightarrow> refused c su
      | None \<Rightarrow> (let v = new_version ''authority'' (expected + 1) actor at policy in
          map_option (\<lambda>l. (Inr (Policy_answer v), su\<lparr>su_policies := l\<rparr>)) (lane_append ''authority'' (expected + 1) v (su_policies su))))"

definition coverage_write :: "life_actor \<Rightarrow> string \<Rightarrow> nat \<Rightarrow> life_coverage \<Rightarrow> life_subject \<Rightarrow> life_result" where
  "coverage_write actor at expected c su =
     (case life_cas (map_option lv_revision (lane_current (su_coverage su) (cv_source c))) expected of Some e \<Rightarrow> refused e su
      | None \<Rightarrow> (let v = new_version (cv_source c) (expected + 1) actor at c in
          map_option (\<lambda>l. (Inr (Coverage_answer v), su\<lparr>su_coverage := l\<rparr>)) (lane_append (cv_source c) (expected + 1) v (su_coverage su))))"

section \<open>Steering\<close>

definition steeringTransition :: "string \<Rightarrow> string \<Rightarrow> bool" where
  "steeringTransition from to = (to \<in> set (case map_of
     [(''planned'', [''planned'', ''executing'', ''succeeded'', ''failed'', ''uncertain'']), (''executing'', [''executing'', ''succeeded'', ''failed'', ''uncertain'']),
      (''uncertain'', [''uncertain'', ''succeeded'', ''failed'']), (''succeeded'', [''succeeded'']), (''failed'', [''failed''])] from of None \<Rightarrow> [] | Some ts \<Rightarrow> ts))"

definition steering_starts :: "life_steering \<Rightarrow> bool" where
  "steering_starts sg = (sg_state sg = ''planned'' \<or> sg_state sg = ''executing'')"

definition steering_policy :: "life_steering \<Rightarrow> life_subject \<Rightarrow> life_policy life_version option" where
  "steering_policy sg su = find (\<lambda>v. lv_revision v = sg_policy sg) (lane_history (su_policies su) ''authority'')"

definition bad_link :: "life_platform \<Rightarrow> int \<Rightarrow> life_subject \<Rightarrow> bool \<Rightarrow> string \<Rightarrow> string \<Rightarrow> bool" where
  "bad_link p now su starting kind k = (case lane_current (su_entities su) k of
     None \<Rightarrow> True
   | Some v \<Rightarrow> life_kind (lv_value (ev_version v)) \<noteq> kind
       \<or> (starting \<and> (ev_status v \<noteq> Entity_current \<or> (kind = ''preference'' \<and> \<not> currentValidity p now (en_provenance (lv_value (ev_version v)))))))"

definition steering_write :: "life_platform \<Rightarrow> int \<Rightarrow> life_actor \<Rightarrow> string \<Rightarrow> nat \<Rightarrow> string \<Rightarrow> life_steering \<Rightarrow> life_subject \<Rightarrow> life_result" where
  "steering_write p now actor at expected k sg su =
     (let prior = lane_current (su_steering su) k in
      case life_cas (map_option lv_revision prior) expected of Some c \<Rightarrow> refused c su
      | None \<Rightarrow> (case steering_policy sg su of
          None \<Rightarrow> refused (life_invalid ''Starting steering requires current active authority; outcomes retain their original authority revision'') su
        | Some policy \<Rightarrow>
            if \<not> po_active (lv_value policy)
               \<or> (steering_starts sg \<and> (map_option lv_revision (lane_current (su_policies su) ''authority'') \<noteq> Some (lv_revision policy)
                    \<or> \<not> currentValidity p now (po_provenance (lv_value policy))))
            then refused (life_invalid ''Starting steering requires current active authority; outcomes retain their original authority revision'') su
            else if po_mode (lv_value policy) = ''off'' \<or> (sg_visibility sg = ''silent'' \<and> po_mode (lv_value policy) \<noteq> ''silent-permitted'')
            then refused (life_invalid ''Steering visibility is outside current authority'') su
            else if list_ex (bad_link p now su (steering_starts sg) ''goal'') (sg_goals sg) \<or> list_ex (bad_link p now su (steering_starts sg) ''preference'') (sg_preferences sg)
            then refused (life_invalid ''Starting steering requires current goal and preference links; outcome receipts may retain historical links'') su
            else if (case prior of None \<Rightarrow> False | Some v \<Rightarrow> sg_policy (lv_value v) \<noteq> sg_policy sg \<or> sg_action (lv_value v) \<noteq> sg_action sg \<or> sg_visibility (lv_value v) \<noteq> sg_visibility sg)
            then refused (life_invalid ''A steering effect cannot be reassigned to another policy, action or visibility'') su
            else if (case prior of None \<Rightarrow> False | Some v \<Rightarrow> \<not> steeringTransition (sg_state (lv_value v)) (sg_state sg))
            then refused (life_invalid ''Invalid steering effect transition'') su
            else (let v = new_version k (expected + 1) actor at sg in
              map_option (\<lambda>l. (Inr (Steering_answer v), su\<lparr>su_steering := l\<rparr>)) (lane_append k (expected + 1) v (su_steering su)))))"

section \<open>Imports\<close>

fun check_entries :: "(string \<times> entity_input) list \<Rightarrow> entity_version lane \<Rightarrow> (string \<times> entity_input) list \<Rightarrow> life_error option" where
  "check_entries staged l [] = None"
| "check_entries staged l ((k, e) # es) =
     (if lane_current l k \<noteq> None then Some \<lparr>lx_code = ''conflict'', lx_message = ''An import entity ID already exists'', lx_current = None\<rparr>
      else case validateRelations staged l k e of Some r \<Rightarrow> Some r | None \<Rightarrow> check_entries staged l es)"

fun put_entries :: "life_actor \<Rightarrow> string \<Rightarrow> (string \<times> entity_input) list \<Rightarrow> entity_version lane \<Rightarrow> entity_version lane option" where
  "put_entries actor at [] l = Some l"
| "put_entries actor at ((k, e) # es) l = (case putEntity actor at k 0 e l of None \<Rightarrow> None | Some (_, l') \<Rightarrow> put_entries actor at es l')"

text \<open>A path that is absolute and has no empty, current or parent part.\<close>

fun path_parts :: "string \<Rightarrow> string \<Rightarrow> string list" where
  "path_parts part [] = [rev part]"
| "path_parts part (c # s) = (if c = CHR ''/'' then rev part # path_parts [] s else path_parts (c # part) s)"

definition canonical_path :: "string \<Rightarrow> bool" where
  "canonical_path s = (case s of [] \<Rightarrow> False | c # rest \<Rightarrow> c = CHR ''/'' \<and> (rest = [] \<or> list_all (\<lambda>part. part \<noteq> [] \<and> part \<noteq> ''.'' \<and> part \<noteq> ''..'') (path_parts [] rest)))"

definition import_entities :: "life_actor \<Rightarrow> string \<Rightarrow> string \<Rightarrow> string \<Rightarrow> (string \<times> entity_input) list \<Rightarrow> life_subject \<Rightarrow> life_result" where
  "import_entities actor at source fingerprint entries su =
     (case lane_current (su_imports su) source of
        Some v \<Rightarrow> Some (Inr (Receipt_answer ((lv_value v)\<lparr>lr_again := True\<rparr>)), su)
      | None \<Rightarrow>
          if \<not> canonical_path source then refused (life_invalid ''Import source must be a canonical absolute path'') su
          else if \<not> distinct (map fst entries) then refused (life_invalid ''Import IDs must be unique'') su
          else (case check_entries entries (su_entities su) entries of Some e \<Rightarrow> refused e su
            | None \<Rightarrow> (case put_entries actor at entries (su_entities su) of None \<Rightarrow> None
              | Some l \<Rightarrow> (let receipt = \<lparr>lr_source = source, lr_fingerprint = fingerprint, lr_imported = at, lr_ids = map fst entries, lr_again = False\<rparr> in
                  map_option (\<lambda>imports. (Inr (Receipt_answer receipt), su\<lparr>su_entities := l, su_imports := imports\<rparr>))
                    (lane_append source 1 (new_version source 1 actor at receipt) (su_imports su))))))"

section \<open>Requests\<close>

definition still_read :: "life_platform \<Rightarrow> int \<Rightarrow> entity_version \<Rightarrow> bool" where
  "still_read p now v = (ev_status v = Entity_current \<and> (life_kind (lv_value (ev_version v)) = ''preference'' \<longrightarrow> currentValidity p now (en_provenance (lv_value (ev_version v)))))"

text \<open>The steering of a subject, latest first; the order of two versions is an argument.\<close>

definition steering_read :: "(life_steering life_version \<Rightarrow> nat) \<Rightarrow> (string \<Rightarrow> nat) \<Rightarrow> nat \<Rightarrow> life_subject \<Rightarrow> life_steering life_version list" where
  "steering_read latest rank limit su = take limit (sort_key latest (lane_all rank (su_steering su)))"

definition life_dispatch :: "life_platform \<Rightarrow> (life_steering life_version \<Rightarrow> nat) \<Rightarrow> (string \<Rightarrow> nat) \<Rightarrow> int \<Rightarrow> string \<Rightarrow> life_actor \<Rightarrow> life_request \<Rightarrow> life_subject \<Rightarrow> life_result" where
  "life_dispatch p latest rank now at actor request su = (case request of
     Life_read \<Rightarrow> Some (Inr (Snapshot (filter (still_read p now) (lane_all rank (su_entities su))) (lane_all rank (su_coverage su))), su)
   | Life_history k \<Rightarrow> Some (Inr (Entity_history (lane_history (su_entities su) k)), su)
   | Policy_read include \<Rightarrow> Some (Inr (Policy_view (lane_current (su_policies su) ''authority'') (if include then lane_history (su_policies su) ''authority'' else [])), su)
   | Policy_write expected policy \<Rightarrow> policy_write actor at expected policy su
   | Put_entity expected k e \<Rightarrow> put_entity actor at expected k e su
   | Retract_entity expected k reason \<Rightarrow> retract_entity actor at expected k reason su
   | Coverage_write expected c \<Rightarrow> coverage_write actor at expected c su
   | Steering_read limit \<Rightarrow> Some (Inr (Steering_list (steering_read latest rank limit su)), su)
   | Steering_write expected k sg \<Rightarrow> steering_write p now actor at expected k sg su
   | Import_receipt source \<Rightarrow> Some (case lane_current (su_imports su) source of
       None \<Rightarrow> Inl (life_not_found ''Source has not been imported'') | Some v \<Rightarrow> Inr (Receipt_answer ((lv_value v)\<lparr>lr_again := True\<rparr>)), su)
   | Import_entities source fingerprint entries \<Rightarrow> import_entities actor at source fingerprint entries su)"

definition life_unavailable :: "string \<Rightarrow> life_error" where
  "life_unavailable message = \<lparr>lx_code = ''unavailable'', lx_message = message, lx_current = None\<rparr>"

definition life_serve :: "life_platform \<Rightarrow> (life_steering life_version \<Rightarrow> nat) \<Rightarrow> (string \<Rightarrow> nat) \<Rightarrow> int \<Rightarrow> string \<Rightarrow> string \<Rightarrow> life_actor \<Rightarrow> life_request \<Rightarrow> life_store
    \<Rightarrow> (life_error + life_answer) \<times> life_store" where
  "life_serve p latest rank now at subject actor request s =
     (if \<not> validateLifeRequest p request then (Inl (life_invalid ''Invalid life operation, fields or temporal state''), s)
      else if blank subject \<or> subject = ''pi-rooms'' then (Inl (life_invalid ''Life subject must be an individual or the explicit root aggregate''), s)
      else case life_dispatch p latest rank now at actor request (subject_of s subject) of
        None \<Rightarrow> (Inl (life_unavailable ''Life storage could not complete the operation''), s)
      | Some (answer, su) \<Rightarrow> (answer, if su = subject_of s subject then s else map_put subject su s))"

definition system_actor :: life_actor where
  "system_actor = \<lparr>la_person = ''system'', la_thread = None\<rparr>"

definition initializePersonPolicy :: "string \<Rightarrow> string \<Rightarrow> life_store \<Rightarrow> (life_error + life_policy life_version) \<times> life_store" where
  "initializePersonPolicy person at s =
     (if person = ''root:kenan'' \<or> person = ''pi-rooms'' \<or> blank person then (Inl (life_invalid ''Only an individual person has an initial conservative policy''), s)
      else let su = subject_of s person in
        case lane_current (su_policies su) ''authority'' of
          Some old \<Rightarrow> (Inr old, s)
        | None \<Rightarrow> (let v = new_version ''authority'' 1 system_actor at (conservativeLifePolicy person at) in
            case lane_append ''authority'' 1 v (su_policies su) of
              None \<Rightarrow> (Inl (life_unavailable ''Life policy initialization could not complete''), s)
            | Some l \<Rightarrow> (Inr v, map_put person (su\<lparr>su_policies := l\<rparr>) s)))"

section \<open>Inferences that lost their support\<close>

definition inferred :: "fact_provenance \<Rightarrow> bool" where
  "inferred v = (pv_class v = Derived \<or> pv_class v = Hypothesis)"

definition unsupported :: "string list \<Rightarrow> string list \<Rightarrow> fact_provenance \<Rightarrow> bool" where
  "unsupported forgotten fallen v = list_ex (\<lambda>link. (lk_kind link = ''memory'' \<and> lk_id link \<in> set forgotten) \<or> (lk_kind link = ''life'' \<and> lk_id link \<in> set fallen)) (pv_evidence v)"

definition lost_reason :: string where
  "lost_reason = ''Supporting memory was deleted or stopped; this inference requires reconciliation''"

definition must_fall :: "string list \<Rightarrow> string list \<Rightarrow> entity_version \<Rightarrow> bool" where
  "must_fall forgotten fallen v = (ev_status v = Entity_current \<and> inferred (en_provenance (lv_value (ev_version v))) \<and> unsupported forgotten fallen (en_provenance (lv_value (ev_version v))))"

fun fall_pass :: "string list \<Rightarrow> string \<Rightarrow> entity_version list \<Rightarrow> entity_version lane \<Rightarrow> string list \<Rightarrow> (entity_version lane \<times> string list) option" where
  "fall_pass forgotten at [] l fallen = Some (l, fallen)"
| "fall_pass forgotten at (v # vs) l fallen =
     (if \<not> must_fall forgotten fallen v then fall_pass forgotten at vs l fallen
      else let k = lv_id (ev_version v) in
        case next_entity k (Some v) (retracted_entity k (entity_revision v + 1) system_actor at lost_reason (lv_value (ev_version v))) l of
          None \<Rightarrow> None | Some l' \<Rightarrow> fall_pass forgotten at vs l' (k # fallen))"

text \<open>Passes over all entities until one changes nothing; the fuel bounds the passes.\<close>

fun fall_loop :: "nat \<Rightarrow> (string \<Rightarrow> nat) \<Rightarrow> string list \<Rightarrow> string \<Rightarrow> entity_version lane \<Rightarrow> string list \<Rightarrow> (entity_version lane \<times> string list) option" where
  "fall_loop 0 rank forgotten at l fallen = None"
| "fall_loop (Suc n) rank forgotten at l fallen = (case fall_pass forgotten at (lane_all rank l) l fallen of
     None \<Rightarrow> None
   | Some (l', fallen') \<Rightarrow> if fallen' = fallen then Some (l', fallen') else fall_loop n rank forgotten at l' fallen')"

definition fall_policy :: "string list \<Rightarrow> string list \<Rightarrow> string \<Rightarrow> life_policy life_version lane \<Rightarrow> life_policy life_version lane option" where
  "fall_policy forgotten fallen at l = (case lane_current l ''authority'' of
     None \<Rightarrow> Some l
   | Some v \<Rightarrow>
       if po_active (lv_value v) \<and> inferred (po_provenance (lv_value v)) \<and> unsupported forgotten fallen (po_provenance (lv_value v))
       then lane_append ''authority'' (lv_revision v + 1) (new_version ''authority'' (lv_revision v + 1) system_actor at ((lv_value v)\<lparr>po_active := False\<rparr>)) l
       else Some l)"

definition fall_subject :: "(string \<Rightarrow> nat) \<Rightarrow> string list \<Rightarrow> string \<Rightarrow> life_subject \<Rightarrow> (life_subject \<times> nat) option" where
  "fall_subject rank forgotten at su = (case fall_loop (Suc (length (ln_heads (su_entities su)))) rank forgotten at (su_entities su) [] of
     None \<Rightarrow> None
   | Some (l, fallen) \<Rightarrow> map_option (\<lambda>policies. (su\<lparr>su_entities := l, su_policies := policies\<rparr>, length fallen)) (fall_policy forgotten fallen at (su_policies su)))"

fun fall_all :: "(string \<Rightarrow> nat) \<Rightarrow> string list \<Rightarrow> string \<Rightarrow> life_store \<Rightarrow> (life_store \<times> nat) option" where
  "fall_all rank forgotten at [] = Some ([], 0)"
| "fall_all rank forgotten at ((k, su) # s) = (case (fall_subject rank forgotten at su, fall_all rank forgotten at s) of
     (Some (su', n), Some (s', m)) \<Rightarrow> Some ((k, su') # s', n + m) | _ \<Rightarrow> None)"

definition invalidateMemories :: "(string \<Rightarrow> nat) \<Rightarrow> string list \<Rightarrow> string \<Rightarrow> life_store \<Rightarrow> (life_error + nat) \<times> life_store" where
  "invalidateMemories rank forgotten at s = (case fall_all rank forgotten at s of
     None \<Rightarrow> (Inl (life_unavailable ''Dependent life inference invalidation could not complete''), s)
   | Some (s', n) \<Rightarrow> (Inr n, s'))"

end
