(* ===== verification/Life_History.thy ===== *)
theory Life_History
  imports Life_Store
begin

text \<open>
  What holds of every life model the store can hold: the dependencies of current commitments form no cycle, the history
  of a record is complete and never rewritten, and no inference outlives the memory it was drawn from.
\<close>

section \<open>Lanes\<close>

text \<open>A lane whose records have the versions one to their head, each under its own name and number.\<close>

definition lane_ok :: "('a \<Rightarrow> string) \<Rightarrow> ('a \<Rightarrow> nat) \<Rightarrow> 'a lane \<Rightarrow> bool" where
  "lane_ok name num l = (map_ok (ln_heads l)
     \<and> (\<forall>k r. map_of (ln_versions l) (k, r) \<noteq> None \<longleftrightarrow> (\<exists>h. map_of (ln_heads l) k = Some h \<and> 1 \<le> r \<and> r \<le> h))
     \<and> (\<forall>k r v. map_of (ln_versions l) (k, r) = Some v \<longrightarrow> name v = k \<and> num v = r)
     \<and> (\<forall>k h. map_of (ln_heads l) k = Some h \<longrightarrow> 1 \<le> h))"

lemma empty_lane_ok [simp]: "lane_ok name num empty_lane"
  by (simp add: lane_ok_def empty_lane_def)

lemma lane_head:
  assumes "lane_ok name num l" "lane_current l k = Some v"
  shows "map_of (ln_heads l) k = Some (num v)" "name v = k" "map_of (ln_versions l) (k, num v) = Some v" "1 \<le> num v"
  using assms by (auto simp: lane_current_def lane_ok_def split: option.splits)

lemma lane_absent:
  assumes "lane_ok name num l" "lane_current l k = None"
  shows "map_of (ln_heads l) k = None"
proof (rule ccontr)
  assume "map_of (ln_heads l) k \<noteq> None"
  then obtain h where h: "map_of (ln_heads l) k = Some h" by blast
  then have "map_of (ln_versions l) (k, h) \<noteq> None" using assms(1) unfolding lane_ok_def by blast
  then show False using assms(2) h by (simp add: lane_current_def)
qed

text \<open>The revision a write is based on: the head's, or none.\<close>

definition head_of :: "'a lane \<Rightarrow> string \<Rightarrow> nat" where
  "head_of l k = (case map_of (ln_heads l) k of None \<Rightarrow> 0 | Some h \<Rightarrow> h)"

lemma cas_head:
  assumes "lane_ok name num l" "life_cas (map_option num (lane_current l k)) expected = None"
  shows "head_of l k = expected"
proof (cases "lane_current l k")
  case None
  then show ?thesis using assms lane_absent[OF assms(1) None] by (simp add: life_cas_def Let_def head_of_def split: if_splits)
next
  case (Some v)
  then show ?thesis using assms lane_head(1)[OF assms(1) Some] by (simp add: life_cas_def Let_def head_of_def split: if_splits)
qed

lemma append_free: "lane_ok name num l \<Longrightarrow> map_of (ln_versions l) (k, head_of l k + 1) = None"
proof (rule ccontr)
  assume ok: "lane_ok name num l" and "map_of (ln_versions l) (k, head_of l k + 1) \<noteq> None"
  then have "\<exists>h. map_of (ln_heads l) k = Some h \<and> 1 \<le> head_of l k + 1 \<and> head_of l k + 1 \<le> h" unfolding lane_ok_def by blast
  then show False by (auto simp: head_of_def)
qed

lemma append_ok:
  assumes "lane_ok name num l" "lane_append k (head_of l k + 1) v l = Some l'" "name v = k" "num v = head_of l k + 1"
  shows "lane_ok name num l'"
proof -
  have l': "l' = \<lparr>ln_versions = map_put (k, head_of l k + 1) v (ln_versions l), ln_heads = map_put k (head_of l k + 1) (ln_heads l)\<rparr>"
    using assms(2) by (simp add: lane_append_def split: if_splits)
  have old: "map_of (ln_versions l) (j, r) \<noteq> None \<longleftrightarrow> (\<exists>h. map_of (ln_heads l) j = Some h \<and> 1 \<le> r \<and> r \<le> h)" for j r
    using assms(1) unfolding lane_ok_def by blast
  have "map_of (ln_versions l') (j, r) \<noteq> None \<longleftrightarrow> (\<exists>h. map_of (ln_heads l') j = Some h \<and> 1 \<le> r \<and> r \<le> h)" for j r
  proof (cases "j = k")
    case True
    then show ?thesis using old[of j r] unfolding l' by (cases "map_of (ln_heads l) k") (auto simp: head_of_def)
  next
    case False
    then show ?thesis using old[of j r] unfolding l' by simp
  qed
  then show ?thesis using assms unfolding l' lane_ok_def by auto
qed

lemma append_some: "lane_ok name num l \<Longrightarrow> \<exists>l'. lane_append k (head_of l k + 1) v l = Some l'"
  using append_free by (auto simp: lane_append_def)

lemma rewrite_ok:
  assumes "lane_ok name num l" "name v = k" "num v = r"
  shows "lane_ok name num (lane_rewrite k r v l)"
proof (cases "map_of (ln_versions l) (k, r) = None")
  case True
  then show ?thesis using assms by (simp add: lane_rewrite_def)
next
  case False
  then show ?thesis using assms by (auto simp: lane_rewrite_def lane_ok_def)
qed

lemma rewrite_heads [simp]: "ln_heads (lane_rewrite k r v l) = ln_heads l" "head_of (lane_rewrite k r v l) j = head_of l j"
  by (simp_all add: lane_rewrite_def head_of_def)

section \<open>Entities\<close>

abbreviation entity_name :: "entity_version \<Rightarrow> string" where
  "entity_name v \<equiv> lv_id (ev_version v)"

abbreviation entities_ok :: "entity_version lane \<Rightarrow> bool" where
  "entities_ok \<equiv> lane_ok entity_name entity_revision"

lemma superseded_simps [simp]: "ev_version (superseded p r) = ev_version p" "entity_revision (superseded p r) = entity_revision p" "ev_status (superseded p r) = Entity_superseded"
  by (simp_all add: superseded_def entity_revision_def)

text \<open>Only the head of an entity is current.\<close>

definition heads_current :: "entity_version lane \<Rightarrow> bool" where
  "heads_current l = (\<forall>k r v. map_of (ln_versions l) (k, r) = Some v \<longrightarrow> ev_status v = Entity_current \<longrightarrow> map_of (ln_heads l) k = Some r)"

text \<open>Versions keep what they say; a status may change.\<close>

definition versions_kept :: "entity_version lane \<Rightarrow> entity_version lane \<Rightarrow> bool" where
  "versions_kept l l' = (\<forall>k r v. map_of (ln_versions l) (k, r) = Some v \<longrightarrow> (\<exists>v'. map_of (ln_versions l') (k, r) = Some v' \<and> ev_version v' = ev_version v))"

lemma versions_kept_refl [simp]: "versions_kept l l"
  by (simp add: versions_kept_def)

lemma versions_kept_trans: "versions_kept l l' \<Longrightarrow> versions_kept l' l'' \<Longrightarrow> versions_kept l l''"
  unfolding versions_kept_def by metis

lemma next_shape:
  assumes "next_entity k prior v l = Some l'"
  shows "\<exists>m. (m = l \<or> (\<exists>r w. m = lane_rewrite k r w l)) \<and> l' = \<lparr>ln_versions = map_put (k, entity_revision v) v (ln_versions m), ln_heads = map_put k (entity_revision v) (ln_heads l)\<rparr>"
proof (cases prior)
  case None
  then show ?thesis using assms by (intro exI[of _ l]) (simp add: next_entity_def lane_append_def split: if_splits)
next
  case (Some p)
  then show ?thesis using assms
    by (intro exI[of _ "lane_rewrite k (entity_revision p) (superseded p (entity_revision v)) l"]) (auto simp: next_entity_def lane_append_def split: if_splits)
qed

lemma next_current:
  assumes "next_entity k prior v l = Some l'"
  shows "lane_current l' j = (if j = k then Some v else lane_current l j)"
proof -
  obtain m where m: "m = l \<or> (\<exists>r w. m = lane_rewrite k r w l)"
      "l' = \<lparr>ln_versions = map_put (k, entity_revision v) v (ln_versions m), ln_heads = map_put k (entity_revision v) (ln_heads l)\<rparr>"
    using next_shape[OF assms] by blast
  have "j \<noteq> k \<Longrightarrow> map_of (ln_versions m) (j, r) = map_of (ln_versions l) (j, r)" for r
    using m(1) by (auto simp: lane_rewrite_def)
  then show ?thesis by (simp add: m(2) lane_current_def split: option.split)
qed

lemma next_keys:
  assumes "next_entity k prior v l = Some l'"
  shows "fst ` set (ln_heads l') = insert k (fst ` set (ln_heads l))"
proof -
  have "ln_heads l' = map_put k (entity_revision v) (ln_heads l)"
    using next_shape[OF assms] by (elim exE conjE) simp
  then show ?thesis by (simp only: map_put_keys)
qed

lemma next_ok:
  assumes ok: "entities_ok l" "heads_current l" and prior: "prior = lane_current l k"
    and v: "entity_name v = k" "entity_revision v = head_of l k + 1"
  shows "\<exists>l'. next_entity k prior v l = Some l' \<and> entities_ok l' \<and> heads_current l' \<and> versions_kept l l'"
proof -
  define m where "m = (case prior of None \<Rightarrow> l | Some p \<Rightarrow> lane_rewrite k (entity_revision p) (superseded p (entity_revision v)) l)"
  have m_ok: "entities_ok m \<and> head_of m k = head_of l k \<and> ln_heads m = ln_heads l"
  proof (cases prior)
    case None
    then show ?thesis using ok by (simp add: m_def)
  next
    case (Some p)
    have "entity_name p = k" using lane_head(2)[OF ok(1)] prior Some by simp
    then show ?thesis using rewrite_ok[OF ok(1), of "superseded p (entity_revision v)"] Some by (simp add: m_def)
  qed
  obtain l' where l': "lane_append k (head_of m k + 1) v m = Some l'" using append_some[of entity_name entity_revision m k v] m_ok by blast
  have shape: "l' = \<lparr>ln_versions = map_put (k, head_of l k + 1) v (ln_versions m), ln_heads = map_put k (head_of l k + 1) (ln_heads l)\<rparr>"
    using l' m_ok by (simp add: lane_append_def split: if_splits)
  have free: "map_of (ln_versions m) (k, head_of l k + 1) = None" using append_free[of entity_name entity_revision m k] m_ok by simp
  have old: "map_of (ln_versions m) (j, r) = (case prior of None \<Rightarrow> map_of (ln_versions l) (j, r) | Some p \<Rightarrow> if (j, r) = (k, entity_revision p) then Some (superseded p (entity_revision v)) else map_of (ln_versions l) (j, r))" for j r
  proof (cases prior)
    case (Some p)
    have "map_of (ln_versions l) (k, entity_revision p) = Some p" using lane_head(3)[OF ok(1)] prior Some by simp
    then show ?thesis using Some by (simp add: m_def lane_rewrite_def)
  qed (simp add: m_def)
  have "heads_current l'"
    unfolding heads_current_def
  proof (intro allI impI)
    fix j r w
    assume w: "map_of (ln_versions l') (j, r) = Some w" "ev_status w = Entity_current"
    show "map_of (ln_heads l') j = Some r"
    proof (cases "(j, r) = (k, head_of l k + 1)")
      case True
      then show ?thesis by (simp add: shape)
    next
      case False
      then have "map_of (ln_versions m) (j, r) = Some w" using w(1) by (auto simp: shape)
      then have l: "map_of (ln_versions l) (j, r) = Some w" "j = k \<longrightarrow> (\<forall>p. prior = Some p \<longrightarrow> r \<noteq> entity_revision p)"
        using w(2) unfolding old by (auto split: option.splits if_splits)
      then have head: "map_of (ln_heads l) j = Some r" using ok(2) w(2) unfolding heads_current_def by blast
      have "j \<noteq> k"
      proof
        assume "j = k"
        then obtain p where p: "prior = Some p" using head lane_absent[OF ok(1), of k] prior by (cases prior) auto
        then have "r = entity_revision p" using lane_head(1)[OF ok(1)] prior head \<open>j = k\<close> by auto
        then show False using l(2) p \<open>j = k\<close> by blast
      qed
      then show ?thesis using head by (simp add: shape)
    qed
  qed
  moreover have "versions_kept l l'"
    unfolding versions_kept_def
  proof (intro allI impI)
    fix j r w
    assume w: "map_of (ln_versions l) (j, r) = Some w"
    have "(j, r) \<noteq> (k, head_of l k + 1)" using w append_free[OF ok(1), of k] by auto
    then have "map_of (ln_versions l') (j, r) = map_of (ln_versions m) (j, r)" by (auto simp: shape)
    moreover have "\<exists>w'. map_of (ln_versions m) (j, r) = Some w' \<and> ev_version w' = ev_version w"
    proof (cases "\<exists>p. prior = Some p \<and> (j, r) = (k, entity_revision p)")
      case True
      then obtain p where p: "prior = Some p" "(j, r) = (k, entity_revision p)" by blast
      then have "w = p" using w lane_head(3)[OF ok(1)] prior by auto
      then show ?thesis using p old[of j r] by simp
    next
      case False
      then show ?thesis using w old[of j r] by (auto split: option.splits)
    qed
    ultimately show "\<exists>v'. map_of (ln_versions l') (j, r) = Some v' \<and> ev_version v' = ev_version w" by simp
  qed
  moreover have "entities_ok l'" using append_ok[of entity_name entity_revision m k v l'] l' v m_ok by simp
  moreover have "next_entity k prior v l = Some l'" using l' m_ok v(2) by (simp add: next_entity_def m_def)
  ultimately show ?thesis by blast
qed

end
