(* ===== verification/Life_Safety.thy ===== *)
theory Life_Safety
  imports Life_History
begin

text \<open>
  The life models the store can reach: the dependencies of current commitments form no cycle, every request is answered
  and keeps what was recorded, and no inference outlives the memory it was drawn from.
\<close>

section \<open>Dependencies\<close>

lemma reaches_closed:
  assumes "\<not> reaches table goal ks seen" "goal \<notin> set seen" "\<forall>x\<in>set seen. set (table_deps table x) \<subseteq> set seen \<union> set ks"
  shows "\<exists>C. set ks \<union> set seen \<subseteq> C \<and> goal \<notin> C \<and> (\<forall>x\<in>C. set (table_deps table x) \<subseteq> C)"
  using assms
proof (induction table goal ks seen rule: reaches.induct)
  case (1 table goal seen)
  then show ?case by (intro exI[of _ "set seen"]) simp
next
  case (2 table goal k ks seen)
  have k: "k \<noteq> goal" using "2.prems"(1) by (simp split: if_splits)
  show ?case
  proof (cases "k \<in> set seen")
    case True
    have "\<not> reaches table goal ks seen" using "2.prems"(1) k True by simp
    moreover have "\<forall>x\<in>set seen. set (table_deps table x) \<subseteq> set seen \<union> set ks" using "2.prems"(3) True by auto
    ultimately obtain C where "set ks \<union> set seen \<subseteq> C" "goal \<notin> C" "\<forall>x\<in>C. set (table_deps table x) \<subseteq> C"
      using "2.IH"(1)[OF k True _ "2.prems"(2)] by blast
    then show ?thesis using True by (intro exI[of _ C]) auto
  next
    case False
    have "\<not> reaches table goal (table_deps table k @ ks) (k # seen)" using "2.prems"(1) k False by simp
    moreover have "goal \<notin> set (k # seen)" using "2.prems"(2) k by simp
    moreover have "\<forall>x\<in>set (k # seen). set (table_deps table x) \<subseteq> set (k # seen) \<union> set (table_deps table k @ ks)" using "2.prems"(3) by auto
    ultimately obtain C where "set (table_deps table k @ ks) \<union> set (k # seen) \<subseteq> C" "goal \<notin> C" "\<forall>x\<in>C. set (table_deps table x) \<subseteq> C"
      using "2.IH"(2)[OF k False] by blast
    then show ?thesis by (intro exI[of _ C]) auto
  qed
qed

lemma map_of_tabulated: "map_of (map (\<lambda>k. (k, f k)) ks) k = (if k \<in> set ks then Some (f k) else None)"
  by (induction ks) auto

lemma table_deps_lookup: "table_deps (dependency_table staged l) k = depends_on (life_lookup staged l k)"
proof -
  have "k \<notin> set (map fst staged @ map fst (ln_heads l)) \<Longrightarrow> life_lookup staged l k = None"
  proof -
    assume a: "k \<notin> set (map fst staged @ map fst (ln_heads l))"
    have "map_of staged k = None" using a by (simp add: map_of_eq_None_iff)
    moreover have "map_of (ln_heads l) k = None" using a by (simp add: map_of_eq_None_iff)
    ultimately show ?thesis by (simp add: life_lookup_def lane_current_def)
  qed
  then show ?thesis
    by (simp only: table_deps_def dependency_table_def map_of_tabulated) (auto simp: depends_on_def)
qed

text \<open>What the current commitments depend on.\<close>

definition live_dependencies :: "entity_version lane \<Rightarrow> (string \<times> string) set" where
  "live_dependencies l = {(a, b). b \<in> set (depends_on (life_lookup [] l a))}"

definition staged_dependencies :: "(string \<times> entity_input) list \<Rightarrow> entity_version lane \<Rightarrow> (string \<times> string) set" where
  "staged_dependencies staged l = {(a, b). b \<in> set (depends_on (life_lookup staged l a))}"

lemma closed_trancl:
  assumes "(x, y) \<in> R\<^sup>+" "x \<in> C" "\<forall>a b. (a, b) \<in> R \<longrightarrow> a \<in> C \<longrightarrow> b \<in> C"
  shows "y \<in> C"
  using assms(1) by (induction rule: trancl_induct) (use assms(2,3) in blast)+

lemma acyclic_edited:
  assumes "acyclic R" "\<And>k. k \<in> K \<Longrightarrow> (k, k) \<notin> R'\<^sup>+" "\<And>a b. (a, b) \<in> R' \<Longrightarrow> a \<notin> K \<Longrightarrow> (a, b) \<in> R"
  shows "acyclic R'"
proof -
  have split: "(x, y) \<in> R\<^sup>+ \<or> (\<exists>k\<in>K. (x, k) \<in> R'\<^sup>* \<and> (k, y) \<in> R'\<^sup>+)" if "(x, y) \<in> R'\<^sup>+" for x y
    using that
  proof (induction rule: trancl_induct)
    case (base y)
    then show ?case using assms(3)[of x y] by (cases "x \<in> K") auto
  next
    case (step y z)
    show ?case
    proof (cases "y \<in> K")
      case True
      then show ?thesis using step.hyps trancl_into_rtrancl[OF step.hyps(1)] by blast
    next
      case False
      then have "(y, z) \<in> R" using assms(3) step.hyps(2) by blast
      then show ?thesis using step.IH step.hyps(2) by (meson trancl.trancl_into_trancl)
    qed
  qed
  show ?thesis
    unfolding acyclic_def
  proof (intro allI notI)
    fix x
    assume "(x, x) \<in> R'\<^sup>+"
    then consider "(x, x) \<in> R\<^sup>+" | k where "k \<in> K" "(x, k) \<in> R'\<^sup>*" "(k, x) \<in> R'\<^sup>+" using split by blast
    then show False
    proof cases
      case 1
      then show False using assms(1) by (simp add: acyclic_def)
    next
      case 2
      then have "(k, k) \<in> R'\<^sup>+" by (meson trancl_rtrancl_trancl)
      then show False using assms(2) 2 by blast
    qed
  qed
qed

text \<open>What the check of a write rules out.\<close>

lemma checked_no_cycle:
  assumes "validateRelations staged l k e = None"
    and "\<And>b. (k, b) \<in> R \<Longrightarrow> b \<in> set (depends_on (Some e))" "\<And>a b. (a, b) \<in> R \<Longrightarrow> a \<noteq> k \<Longrightarrow> b \<in> set (depends_on (life_lookup staged l a))"
  shows "(k, k) \<notin> R\<^sup>+"
proof
  assume cyclic: "(k, k) \<in> R\<^sup>+"
  have "\<not> reaches (dependency_table staged l) k (depends_on (Some e)) []" using assms(1) by (simp add: validateRelations_def split: if_splits)
  then obtain C where C: "set (depends_on (Some e)) \<subseteq> C" "k \<notin> C" "\<forall>x\<in>C. set (depends_on (life_lookup staged l x)) \<subseteq> C"
    using reaches_closed[of "dependency_table staged l" k "depends_on (Some e)" "[]"] by (auto simp: table_deps_lookup)
  obtain b where "(k, b) \<in> R" "(b, k) \<in> R\<^sup>*" using cyclic by (meson tranclD)
  then have b: "b \<in> C" using assms(2) C(1) by blast
  have closed: "\<forall>a b. (a, b) \<in> R \<longrightarrow> a \<in> C \<longrightarrow> b \<in> C"
  proof (intro allI impI)
    fix a b assume "(a, b) \<in> R" "a \<in> C"
    then show "b \<in> C" using assms(3)[of a b] C by blast
  qed
  from \<open>(b, k) \<in> R\<^sup>*\<close> have "k \<in> C" using closed_trancl[of b k R C] b closed by (auto simp: rtrancl_eq_or_trancl)
  then show False using C(2) by blast
qed

section \<open>What a subject keeps\<close>

abbreviation versioned_ok :: "'v life_version lane \<Rightarrow> bool" where
  "versioned_ok \<equiv> lane_ok lv_id lv_revision"

definition subject_ok :: "life_subject \<Rightarrow> bool" where
  "subject_ok su = (entities_ok (su_entities su) \<and> heads_current (su_entities su) \<and> acyclic (live_dependencies (su_entities su))
     \<and> versioned_ok (su_policies su) \<and> versioned_ok (su_coverage su) \<and> versioned_ok (su_steering su) \<and> versioned_ok (su_imports su))"

definition lane_kept :: "'a lane \<Rightarrow> 'a lane \<Rightarrow> bool" where
  "lane_kept l l' = (map_of (ln_versions l) \<subseteq>\<^sub>m map_of (ln_versions l'))"

text \<open>Nothing recorded is lost or rewritten; only the standing of an entity's version may change.\<close>

definition subject_kept :: "life_subject \<Rightarrow> life_subject \<Rightarrow> bool" where
  "subject_kept su su' = (versions_kept (su_entities su) (su_entities su') \<and> lane_kept (su_policies su) (su_policies su')
     \<and> lane_kept (su_coverage su) (su_coverage su') \<and> lane_kept (su_steering su) (su_steering su') \<and> lane_kept (su_imports su) (su_imports su'))"

lemma lane_kept_refl [simp]: "lane_kept l l"
  by (simp add: lane_kept_def)

lemma subject_kept_refl [simp]: "subject_kept su su"
  by (simp add: subject_kept_def)

lemma subject_kept_trans: "subject_kept a b \<Longrightarrow> subject_kept b c \<Longrightarrow> subject_kept a c"
  unfolding subject_kept_def lane_kept_def by (meson versions_kept_trans map_le_trans)

lemma append_kept:
  assumes "lane_append k r v l = Some l'"
  shows "lane_kept l l'"
  using assms by (auto simp: lane_append_def lane_kept_def map_le_def split: if_splits)

text \<open>A write to a lane of versions, based on the head it names.\<close>

lemma versioned_write:
  assumes "versioned_ok l" "head_of l k = expected" "v = new_version k (expected + 1) actor at x"
  shows "\<exists>l'. lane_append k (expected + 1) v l = Some l' \<and> versioned_ok l' \<and> lane_kept l l'"
proof -
  obtain l' where l': "lane_append k (expected + 1) v l = Some l'" using append_some[OF assms(1), of k v] assms(2) by auto
  then have "versioned_ok l'" using append_ok[OF assms(1), of k v l'] assms(2,3) by (simp add: new_version_def)
  then show ?thesis using l' append_kept[OF l'] by blast
qed

text \<open>A step that answers, in a subject that stays well formed.\<close>

definition sound :: "life_subject \<Rightarrow> life_result \<Rightarrow> bool" where
  "sound su res = (\<exists>answer su'. res = Some (answer, su') \<and> subject_ok su' \<and> subject_kept su su' \<and> (\<forall>e. answer = Inl e \<longrightarrow> lx_code e \<noteq> ''unavailable''))"

lemma sound_refused [simp]: "subject_ok su \<Longrightarrow> lx_code e \<noteq> ''unavailable'' \<Longrightarrow> sound su (refused e su)"
  by (simp add: sound_def refused_def)

lemma sound_same [simp]: "subject_ok su \<Longrightarrow> sound su (Some (Inr answer, su))"
  by (simp add: sound_def)

lemma code_simps [simp]: "lx_code (life_invalid m) = ''invalid-request''" "lx_code (life_not_found m) = ''not-found''"
  by (simp_all add: life_invalid_def life_not_found_def)

lemma cas_code: "life_cas a b = Some c \<Longrightarrow> lx_code c = ''conflict''"
  by (auto simp: life_cas_def Let_def split: if_splits)

lemma relation_code: "validateRelations staged l k e = Some c \<Longrightarrow> lx_code c = ''invalid-request''"
  by (auto simp: validateRelations_def split: if_splits)

lemma entries_code: "check_entries staged l es = Some c \<Longrightarrow> lx_code c \<noteq> ''unavailable''"
proof (induction es)
  case (Cons x es)
  then show ?case by (cases x) (auto simp: relation_code split: if_splits option.splits)
qed simp

section \<open>Writes of versions\<close>

lemma policy_write_sound: "subject_ok su \<Longrightarrow> sound su (policy_write actor at expected policy su)"
proof -
  assume ok: "subject_ok su"
  have p: "versioned_ok (su_policies su)" using ok by (simp add: subject_ok_def)
  show ?thesis
  proof (cases "life_cas (map_option lv_revision (lane_current (su_policies su) ''authority'')) expected")
    case None
    obtain l' where "lane_append ''authority'' (expected + 1) (new_version ''authority'' (expected + 1) actor at policy) (su_policies su) = Some l'"
        "versioned_ok l'" "lane_kept (su_policies su) l'"
      using versioned_write[OF p cas_head[OF p None] refl] by blast
    then show ?thesis using ok None by (simp add: policy_write_def sound_def subject_ok_def subject_kept_def refused_def)
  next
    case (Some c)
    then show ?thesis using ok cas_code[OF Some] by (simp add: policy_write_def)
  qed
qed

lemma coverage_write_sound: "subject_ok su \<Longrightarrow> sound su (coverage_write actor at expected c su)"
proof -
  assume ok: "subject_ok su"
  have p: "versioned_ok (su_coverage su)" using ok by (simp add: subject_ok_def)
  show ?thesis
  proof (cases "life_cas (map_option lv_revision (lane_current (su_coverage su) (cv_source c))) expected")
    case None
    obtain l' where "lane_append (cv_source c) (expected + 1) (new_version (cv_source c) (expected + 1) actor at c) (su_coverage su) = Some l'"
        "versioned_ok l'" "lane_kept (su_coverage su) l'"
      using versioned_write[OF p cas_head[OF p None] refl] by blast
    then show ?thesis using ok None by (simp add: coverage_write_def sound_def subject_ok_def subject_kept_def)
  next
    case (Some e)
    then show ?thesis using ok cas_code[OF Some] by (simp add: coverage_write_def)
  qed
qed

lemma steering_write_sound: "subject_ok su \<Longrightarrow> sound su (steering_write p now actor at expected k sg su)"
proof -
  assume ok: "subject_ok su"
  have l: "versioned_ok (su_steering su)" using ok by (simp add: subject_ok_def)
  show ?thesis
  proof (cases "life_cas (map_option lv_revision (lane_current (su_steering su) k)) expected")
    case None
    obtain l' where l': "lane_append k (expected + 1) (new_version k (expected + 1) actor at sg) (su_steering su) = Some l'"
        "versioned_ok l'" "lane_kept (su_steering su) l'"
      using versioned_write[OF l cas_head[OF l None] refl] by blast
    have "sound su (Some (Inr answer, su\<lparr>su_steering := l'\<rparr>))" for answer using ok l' by (simp add: sound_def subject_ok_def subject_kept_def)
    then show ?thesis using ok None l'(1) unfolding steering_write_def Let_def by (cases "steering_policy sg su") simp_all
  next
    case (Some e)
    then show ?thesis using ok cas_code[OF Some] by (simp add: steering_write_def)
  qed
qed

section \<open>Writes of entities\<close>

lemma lookup_next:
  assumes "next_entity k prior v l = Some l'"
  shows "life_lookup [] l' j = (if j = k then (if ev_status v = Entity_current then Some (lv_value (ev_version v)) else None) else life_lookup [] l j)"
  by (simp add: life_lookup_def next_current[OF assms])

lemma entity_simps [simp]:
  "entity_name (current_entity k r actor at e) = k" "entity_revision (current_entity k r actor at e) = r" "ev_status (current_entity k r actor at e) = Entity_current"
  "lv_value (ev_version (current_entity k r actor at e)) = e"
  "entity_name (retracted_entity k r actor at reason e) = k" "entity_revision (retracted_entity k r actor at reason e) = r"
  "ev_status (retracted_entity k r actor at reason e) = Entity_retracted" "lv_value (ev_version (retracted_entity k r actor at reason e)) = e"
  by (simp_all add: current_entity_def retracted_entity_def new_version_def entity_revision_def)

definition entities_sound :: "entity_version lane \<Rightarrow> bool" where
  "entities_sound l = (entities_ok l \<and> heads_current l \<and> acyclic (live_dependencies l))"

lemma put_sound:
  assumes "entities_sound l" "head_of l k = expected" "validateRelations [] l k e = None"
  shows "\<exists>v l'. putEntity actor at k expected e l = Some (v, l') \<and> entities_sound l' \<and> versions_kept l l'"
proof -
  have ok: "entities_ok l" "heads_current l" "acyclic (live_dependencies l)" using assms(1) by (simp_all add: entities_sound_def)
  obtain l' where l': "next_entity k (lane_current l k) (current_entity k (expected + 1) actor at e) l = Some l'" "entities_ok l'" "heads_current l'" "versions_kept l l'"
    using next_ok[OF ok(1,2) refl, of "current_entity k (expected + 1) actor at e" k] assms(2) by auto
  have deps: "(a, b) \<in> live_dependencies l' \<longleftrightarrow> b \<in> set (depends_on (if a = k then Some e else life_lookup [] l a))" for a b
    by (simp add: live_dependencies_def lookup_next[OF l'(1)])
  have "acyclic (live_dependencies l')"
  proof (rule acyclic_edited[OF ok(3), where K = "{k}"])
    fix j assume "j \<in> {k}"
    then show "(j, j) \<notin> (live_dependencies l')\<^sup>+" using checked_no_cycle[OF assms(3), of "live_dependencies l'"] by (simp add: deps)
  next
    fix a b assume "(a, b) \<in> live_dependencies l'" "a \<notin> {k}"
    then show "(a, b) \<in> live_dependencies l" by (simp add: deps) (simp add: live_dependencies_def)
  qed
  then have "entities_sound l'" using l' by (simp add: entities_sound_def)
  moreover have "putEntity actor at k expected e l = Some (current_entity k (expected + 1) actor at e, l')" using l'(1) by (simp add: putEntity_def Let_def)
  ultimately show ?thesis using l'(4) by blast
qed

lemma shrink_acyclic:
  assumes "acyclic (live_dependencies l)" "\<And>k. life_lookup [] l' k = None \<or> life_lookup [] l' k = life_lookup [] l k"
  shows "acyclic (live_dependencies l')"
proof (rule acyclic_subset[OF assms(1)])
  show "live_dependencies l' \<subseteq> live_dependencies l"
  proof clarify
    fix a b assume "(a, b) \<in> live_dependencies l'"
    then have b: "b \<in> set (depends_on (life_lookup [] l' a))" by (simp add: live_dependencies_def)
    show "(a, b) \<in> live_dependencies l"
    proof (cases "life_lookup [] l' a = None")
      case True
      then show ?thesis using b by (simp add: depends_on_def)
    next
      case False
      then have "life_lookup [] l' a = life_lookup [] l a" using assms(2)[of a] by metis
      then show ?thesis using b by (simp add: live_dependencies_def)
    qed
  qed
qed

lemma retract_next_sound:
  assumes "entities_sound l" "lane_current l k = Some p" "lv_value (ev_version p) = e"
  shows "\<exists>l'. next_entity k (Some p) (retracted_entity k (entity_revision p + 1) actor at reason e) l = Some l' \<and> entities_sound l' \<and> versions_kept l l'"
proof -
  have ok: "entities_ok l" "heads_current l" "acyclic (live_dependencies l)" using assms(1) by (simp_all add: entities_sound_def)
  have head: "head_of l k = entity_revision p" using lane_head(1)[OF ok(1) assms(2)] by (simp add: head_of_def)
  obtain l' where l': "next_entity k (Some p) (retracted_entity k (entity_revision p + 1) actor at reason e) l = Some l'" "entities_ok l'" "heads_current l'" "versions_kept l l'"
    using next_ok[OF ok(1,2) assms(2)[symmetric], of "retracted_entity k (entity_revision p + 1) actor at reason e"] head by auto
  have "acyclic (live_dependencies l')" by (rule shrink_acyclic[OF ok(3)]) (simp add: lookup_next[OF l'(1)])
  then show ?thesis using l' by (auto simp: entities_sound_def)
qed

lemma put_entity_sound: "subject_ok su \<Longrightarrow> sound su (put_entity actor at expected k e su)"
proof -
  assume ok: "subject_ok su"
  have l: "entities_sound (su_entities su)" "entities_ok (su_entities su)" using ok by (simp_all add: subject_ok_def entities_sound_def)
  show ?thesis
  proof (cases "life_cas (map_option entity_revision (lane_current (su_entities su) k)) expected = None \<and> validateRelations [] (su_entities su) k e = None")
    case True
    then have head: "head_of (su_entities su) k = expected" using cas_head[OF l(2)] by blast
    obtain v l' where l': "putEntity actor at k expected e (su_entities su) = Some (v, l')" "entities_sound l'" "versions_kept (su_entities su) l'"
      using put_sound[OF l(1) head] True by blast
    have "sound su (Some (Inr answer, su\<lparr>su_entities := l'\<rparr>))" for answer using ok l' by (simp add: sound_def subject_ok_def subject_kept_def entities_sound_def)
    then show ?thesis using ok True l'(1) unfolding put_entity_def Let_def by simp
  next
    case False
    then show ?thesis using ok unfolding put_entity_def Let_def
      by (cases "life_cas (map_option entity_revision (lane_current (su_entities su) k)) expected") (auto simp: cas_code relation_code)
  qed
qed

lemma retract_entity_sound: "subject_ok su \<Longrightarrow> sound su (retract_entity actor at expected k reason su)"
proof -
  assume ok: "subject_ok su"
  have l: "entities_sound (su_entities su)" "entities_ok (su_entities su)" using ok by (simp_all add: subject_ok_def entities_sound_def)
  show ?thesis
  proof (cases "life_cas (map_option entity_revision (lane_current (su_entities su) k)) expected")
    case None
    show ?thesis
    proof (cases "lane_current (su_entities su) k")
      case absent: None
      then show ?thesis using ok None unfolding retract_entity_def Let_def by simp
    next
      case (Some p)
      have expected: "expected = entity_revision p" using None Some by (simp add: life_cas_def Let_def split: if_splits)
      obtain l' where l': "next_entity k (Some p) (retracted_entity k (entity_revision p + 1) actor at reason (lv_value (ev_version p))) (su_entities su) = Some l'"
          "entities_sound l'" "versions_kept (su_entities su) l'"
        using retract_next_sound[OF l(1) Some refl] by blast
      have "sound su (Some (Inr answer, su\<lparr>su_entities := l'\<rparr>))" for answer using ok l' by (simp add: sound_def subject_ok_def subject_kept_def entities_sound_def)
      then show ?thesis using ok None Some l'(1) expected unfolding retract_entity_def Let_def by simp
    qed
  next
    case (Some c)
    then show ?thesis using ok cas_code[OF Some] by (simp add: retract_entity_def Let_def)
  qed
qed

section \<open>Imports\<close>

lemma put_entries_sound:
  assumes "entities_ok l" "heads_current l" "distinct (map fst es)" "\<forall>k\<in>set (map fst es). lane_current l k = None"
  shows "\<exists>l'. put_entries actor at es l = Some l' \<and> entities_ok l' \<and> heads_current l' \<and> versions_kept l l'
    \<and> (\<forall>k. life_lookup [] l' k = life_lookup es l k)"
  using assms
proof (induction es arbitrary: l)
  case Nil
  then show ?case by simp
next
  case (Cons x es)
  obtain k e where x: "x = (k, e)" by fastforce
  have absent: "lane_current l k = None" using Cons.prems(4) x by simp
  have head: "head_of l k = 0" using lane_absent[OF Cons.prems(1) absent] by (simp add: head_of_def)
  obtain m where m: "next_entity k None (current_entity k 1 actor at e) l = Some m" "entities_ok m" "heads_current m" "versions_kept l m"
    using next_ok[OF Cons.prems(1,2) absent[symmetric], of "current_entity k 1 actor at e"] head by auto
  have "\<forall>j\<in>set (map fst es). lane_current m j = None" using Cons.prems(3,4) x by (auto simp: next_current[OF m(1)])
  then obtain l' where l': "put_entries actor at es m = Some l'" "entities_ok l'" "heads_current l'" "versions_kept m l'" "\<forall>j. life_lookup [] l' j = life_lookup es m j"
    using Cons.IH[OF m(2,3)] Cons.prems(3) by auto
  have "map_of es k = None" using Cons.prems(3) x by (simp add: map_of_eq_None_iff)
  then have "life_lookup es m j = life_lookup (x # es) l j" for j
    using x by (cases "map_of es j") (auto simp: life_lookup_def next_current[OF m(1)])
  then show ?case using l' m(1) absent x versions_kept_trans[OF m(4) l'(4)] by (simp add: putEntity_def Let_def)
qed

lemma checked_entries:
  assumes "check_entries staged l es = None" "(k, e) \<in> set es"
  shows "lane_current l k = None \<and> validateRelations staged l k e = None"
  using assms by (induction es) (auto split: if_splits option.splits)

lemma import_sound: "subject_ok su \<Longrightarrow> sound su (import_entities actor at source fingerprint entries su)"
proof -
  assume ok: "subject_ok su"
  have l: "entities_ok (su_entities su)" "heads_current (su_entities su)" "acyclic (live_dependencies (su_entities su))" "versioned_ok (su_imports su)"
    using ok by (simp_all add: subject_ok_def)
  show ?thesis
  proof (cases "lane_current (su_imports su) source = None \<and> distinct (map fst entries) \<and> check_entries entries (su_entities su) entries = None")
    case True
    have absent: "\<forall>k\<in>set (map fst entries). lane_current (su_entities su) k = None" using checked_entries True by fastforce
    obtain l' where l': "put_entries actor at entries (su_entities su) = Some l'" "entities_ok l'" "heads_current l'" "versions_kept (su_entities su) l'"
        "\<forall>k. life_lookup [] l' k = life_lookup entries (su_entities su) k"
      using put_entries_sound[OF l(1,2) _ absent] True by blast
    have deps: "(a, b) \<in> live_dependencies l' \<longleftrightarrow> b \<in> set (depends_on (life_lookup entries (su_entities su) a))" for a b
      using l'(5) by (simp add: live_dependencies_def)
    have "acyclic (live_dependencies l')"
    proof (rule acyclic_edited[OF l(3), where K = "set (map fst entries)"])
      fix k assume "k \<in> set (map fst entries)"
      then obtain e where e: "(k, e) \<in> set entries" by auto
      then have "validateRelations entries (su_entities su) k e = None" using checked_entries True by blast
      then show "(k, k) \<notin> (live_dependencies l')\<^sup>+"
      proof (rule checked_no_cycle)
        fix b assume "(k, b) \<in> live_dependencies l'"
        moreover have "map_of entries k = Some e" using e True by simp
        ultimately show "b \<in> set (depends_on (Some e))" by (simp add: deps life_lookup_def)
      qed (simp add: deps)
    next
      fix a b assume ab: "(a, b) \<in> live_dependencies l'" "a \<notin> set (map fst entries)"
      then have "map_of entries a = None" by (simp add: map_of_eq_None_iff)
      then show "(a, b) \<in> live_dependencies (su_entities su)" using ab(1) by (simp add: deps) (simp add: live_dependencies_def life_lookup_def)
    qed
    moreover have "head_of (su_imports su) source = 0" using lane_absent[OF l(4)] True by (simp add: head_of_def)
    ultimately have "sound su (map_option (\<lambda>imports. (Inr (Receipt_answer receipt), su\<lparr>su_entities := l', su_imports := imports\<rparr>))
        (lane_append source 1 (new_version source 1 actor at receipt) (su_imports su)))" for receipt
      using versioned_write[OF l(4), of source 0 "new_version source 1 actor at receipt" actor at receipt] l' ok
      by (auto simp: sound_def subject_ok_def subject_kept_def)
    then show ?thesis using ok True l'(1) unfolding import_entities_def by (simp add: Let_def)
  next
    case False
    then show ?thesis using ok unfolding import_entities_def
      by (cases "lane_current (su_imports su) source"; cases "check_entries entries (su_entities su) entries") (auto simp: entries_code)
  qed
qed

section \<open>Requests\<close>

lemma dispatch_sound:
  assumes "subject_ok su"
  shows "sound su (life_dispatch p latest rank now at actor request su)"
proof (cases request)
  case (Policy_write r v)
  then show ?thesis using assms policy_write_sound by (simp add: life_dispatch_def)
next
  case (Put_entity r k e)
  then show ?thesis using assms put_entity_sound by (simp add: life_dispatch_def)
next
  case (Retract_entity r k reason)
  then show ?thesis using assms retract_entity_sound by (simp add: life_dispatch_def)
next
  case (Coverage_write r c)
  then show ?thesis using assms coverage_write_sound by (simp add: life_dispatch_def)
next
  case (Steering_write r k sg)
  then show ?thesis using assms steering_write_sound by (simp add: life_dispatch_def)
next
  case (Import_entities source fingerprint entries)
  then show ?thesis using assms import_sound by (simp add: life_dispatch_def)
next
  case (Import_receipt source)
  then show ?thesis using assms by (cases "lane_current (su_imports su) source") (simp_all add: life_dispatch_def sound_def)
qed (use assms in \<open>simp_all add: life_dispatch_def\<close>)

section \<open>Inferences that lost their support\<close>

lemma lane_all_set: "v \<in> set (lane_all rank l) \<longleftrightarrow> (\<exists>k. lane_current l k = Some v)"
proof -
  have "lane_current l k = Some v \<Longrightarrow> k \<in> fst ` set (ln_heads l)" for k
    by (cases "map_of (ln_heads l) k") (auto simp: lane_current_def dest: map_of_SomeD intro: rev_image_eqI)
  then show ?thesis by (force simp: lane_all_def split: option.splits)
qed

lemma lane_all_distinct:
  assumes "lane_ok name num l"
  shows "distinct (map name (lane_all rank l))"
proof -
  have *: "map name (concat (map (\<lambda>k. case lane_current l k of None \<Rightarrow> [] | Some v \<Rightarrow> [v]) ks)) = filter (\<lambda>k. lane_current l k \<noteq> None) ks" for ks
    by (induction ks) (auto simp: lane_head(2)[OF assms] split: option.split)
  have "distinct (map fst (ln_heads l))" using assms by (simp add: lane_ok_def map_ok_def)
  then show ?thesis by (simp add: lane_all_def *)
qed

text \<open>What has fallen: of each such entity the head was current and inferred, and is now its retraction.\<close>

definition fell :: "entity_version lane \<Rightarrow> entity_version lane \<Rightarrow> string \<Rightarrow> bool" where
  "fell l l' k = (\<exists>v w. lane_current l k = Some v \<and> ev_status v = Entity_current \<and> inferred (en_provenance (lv_value (ev_version v)))
     \<and> lane_current l' k = Some w \<and> ev_status w = Entity_retracted \<and> lv_value (ev_version w) = lv_value (ev_version v))"

definition falling :: "entity_version lane \<Rightarrow> entity_version lane \<Rightarrow> string list \<Rightarrow> bool" where
  "falling l l' fallen = (entities_sound l' \<and> versions_kept l l' \<and> (\<forall>k. if k \<in> set fallen then fell l l' k else lane_current l' k = lane_current l k))"

lemma falling_start: "entities_sound l \<Longrightarrow> falling l l []"
  by (simp add: falling_def)

lemma falling_step:
  assumes "falling l0 l fallen" "lane_current l k = Some v" "must_fall forgotten fallen v"
  shows "\<exists>l'. next_entity k (Some v) (retracted_entity k (entity_revision v + 1) system_actor at lost_reason (lv_value (ev_version v))) l = Some l'
    \<and> falling l0 l' (k # fallen) \<and> k \<notin> set fallen \<and> (\<forall>j. j \<noteq> k \<longrightarrow> lane_current l' j = lane_current l j)"
proof -
  have ok: "entities_sound l" "versions_kept l0 l" "\<And>k. if k \<in> set fallen then fell l0 l k else lane_current l k = lane_current l0 k"
    using assms(1) by (simp_all add: falling_def)
  have v: "ev_status v = Entity_current" "inferred (en_provenance (lv_value (ev_version v)))" using assms(3) by (simp_all add: must_fall_def)
  have fresh: "k \<notin> set fallen"
  proof
    assume "k \<in> set fallen"
    then have "fell l0 l k" using ok(3)[of k] by simp
    then show False using assms(2) v(1) by (auto simp: fell_def)
  qed
  then have before: "lane_current l0 k = Some v" using ok(3)[of k] assms(2) by simp
  obtain l' where l': "next_entity k (Some v) (retracted_entity k (entity_revision v + 1) system_actor at lost_reason (lv_value (ev_version v))) l = Some l'"
      "entities_sound l'" "versions_kept l l'"
    using retract_next_sound[OF ok(1) assms(2) refl] by blast
  have now: "lane_current l' j = (if j = k then Some (retracted_entity k (entity_revision v + 1) system_actor at lost_reason (lv_value (ev_version v))) else lane_current l j)" for j
    by (rule next_current[OF l'(1)])
  have "if j \<in> set (k # fallen) then fell l0 l' j else lane_current l' j = lane_current l0 j" for j
  proof (cases "j = k")
    case True
    then show ?thesis using before v by (simp add: fell_def now)
  next
    case False
    then show ?thesis using ok(3)[of j] by (cases "j \<in> set fallen") (simp_all add: fell_def now)
  qed
  then have "falling l0 l' (k # fallen)" using l'(2) versions_kept_trans[OF ok(2) l'(3)] by (simp add: falling_def)
  then show ?thesis using l'(1) fresh now by auto
qed

lemma falling_pass:
  assumes "falling l0 l fallen" "\<forall>v\<in>set vs. lane_current l (entity_name v) = Some v" "distinct (map entity_name vs)"
  shows "\<exists>l' news. fall_pass forgotten at vs l fallen = Some (l', news @ fallen) \<and> falling l0 l' (news @ fallen) \<and> set news \<inter> set fallen = {}
    \<and> (news = [] \<longrightarrow> l' = l \<and> (\<forall>v\<in>set vs. \<not> must_fall forgotten fallen v))"
  using assms
proof (induction vs arbitrary: l fallen)
  case Nil
  then show ?case by (intro exI[of _ l] exI[of _ "[]"]) simp
next
  case (Cons v vs)
  show ?case
  proof (cases "must_fall forgotten fallen v")
    case False
    obtain l' news where "fall_pass forgotten at vs l fallen = Some (l', news @ fallen)" "falling l0 l' (news @ fallen)" "set news \<inter> set fallen = {}"
        "news = [] \<longrightarrow> l' = l \<and> (\<forall>v\<in>set vs. \<not> must_fall forgotten fallen v)"
      using Cons.IH[OF Cons.prems(1)] Cons.prems(2,3) by auto
    then show ?thesis using False by (intro exI[of _ l'] exI[of _ news]) simp
  next
    case True
    have v: "lane_current l (entity_name v) = Some v" using Cons.prems(2) by simp
    obtain m where m: "next_entity (entity_name v) (Some v) (retracted_entity (entity_name v) (entity_revision v + 1) system_actor at lost_reason (lv_value (ev_version v))) l = Some m"
        "falling l0 m (entity_name v # fallen)" "entity_name v \<notin> set fallen" "\<forall>j. j \<noteq> entity_name v \<longrightarrow> lane_current m j = lane_current l j"
      using falling_step[OF Cons.prems(1) v True] by blast
    have "\<forall>w\<in>set vs. lane_current m (entity_name w) = Some w"
    proof
      fix w assume w: "w \<in> set vs"
      then have "entity_name w \<noteq> entity_name v" using Cons.prems(3) by (force simp: rev_image_eqI)
      then show "lane_current m (entity_name w) = Some w" using m(4) Cons.prems(2) w by simp
    qed
    then obtain l' news where news: "fall_pass forgotten at vs m (entity_name v # fallen) = Some (l', news @ entity_name v # fallen)" "falling l0 l' (news @ entity_name v # fallen)"
        "set news \<inter> set (entity_name v # fallen) = {}"
      using Cons.IH[OF m(2)] Cons.prems(3) by auto
    then show ?thesis using True m(1,3) by (intro exI[of _ l'] exI[of _ "news @ [entity_name v]"]) (auto simp: Let_def)
  qed
qed

lemma current_finite: "finite {k. \<exists>v. lane_current l k = Some v \<and> Q v}" and current_card: "card {k. \<exists>v. lane_current l k = Some v \<and> Q v} \<le> length (ln_heads l)"
proof -
  have sub: "{k. \<exists>v. lane_current l k = Some v \<and> Q v} \<subseteq> fst ` set (ln_heads l)"
  proof clarify
    fix k v assume "lane_current l k = Some v"
    then obtain r where "map_of (ln_heads l) k = Some r" by (cases "map_of (ln_heads l) k") (auto simp: lane_current_def)
    then show "k \<in> fst ` set (ln_heads l)" by (rule map_of_SomeD[THEN image_eqI[rotated]]) simp
  qed
  then show "finite {k. \<exists>v. lane_current l k = Some v \<and> Q v}" by (rule finite_subset) simp
  have "card {k. \<exists>v. lane_current l k = Some v \<and> Q v} \<le> card (fst ` set (ln_heads l))" using sub by (intro card_mono) simp_all
  also have "\<dots> \<le> length (ln_heads l)" by (meson card_image_le card_length finite_set le_trans)
  finally show "card {k. \<exists>v. lane_current l k = Some v \<and> Q v} \<le> length (ln_heads l)" .
qed

abbreviation could_fall :: "entity_version lane \<Rightarrow> string set" where
  "could_fall l \<equiv> {k. \<exists>v. lane_current l k = Some v \<and> ev_status v = Entity_current}"

text \<open>A pass that changes something leaves less to fall: the loop ends, with nothing that must fall.\<close>

lemma falling_loop:
  assumes "falling l0 l fallen" "card (could_fall l0 - set fallen) < n"
  shows "\<exists>l' fallen'. fall_loop n rank forgotten at l fallen = Some (l', fallen') \<and> falling l0 l' fallen'
    \<and> (\<forall>k v. lane_current l' k = Some v \<longrightarrow> \<not> must_fall forgotten fallen' v)"
  using assms
proof (induction n arbitrary: l fallen)
  case 0
  then show ?case by simp
next
  case (Suc n)
  have ok: "entities_ok l" using Suc.prems(1) by (simp add: falling_def entities_sound_def)
  have heads: "\<forall>v\<in>set (lane_all rank l). lane_current l (entity_name v) = Some v"
  proof
    fix v assume "v \<in> set (lane_all rank l)"
    then obtain k where "lane_current l k = Some v" by (auto simp: lane_all_set)
    then show "lane_current l (entity_name v) = Some v" using lane_head(2)[OF ok] by simp
  qed
  obtain l' news where pass: "fall_pass forgotten at (lane_all rank l) l fallen = Some (l', news @ fallen)" "falling l0 l' (news @ fallen)" "set news \<inter> set fallen = {}"
      "news = [] \<longrightarrow> l' = l \<and> (\<forall>v\<in>set (lane_all rank l). \<not> must_fall forgotten fallen v)"
    using falling_pass[OF Suc.prems(1) heads lane_all_distinct[OF ok]] by blast
  show ?case
  proof (cases "news = []")
    case True
    then have "\<forall>k v. lane_current l' k = Some v \<longrightarrow> \<not> must_fall forgotten fallen v" using pass(4) by (auto simp: lane_all_set)
    then show ?thesis using pass(1,2) True by simp
  next
    case False
    have new: "set news \<subseteq> could_fall l0"
    proof
      fix k assume "k \<in> set news"
      then have "fell l0 l' k" using pass(2) unfolding falling_def by (metis UnI1 set_append)
      then show "k \<in> could_fall l0" unfolding fell_def by blast
    qed
    have "could_fall l0 - set (news @ fallen) \<subset> could_fall l0 - set fallen"
    proof
      show "could_fall l0 - set (news @ fallen) \<subseteq> could_fall l0 - set fallen" by auto
      obtain k where "k \<in> set news" using False by (cases news) auto
      then show "could_fall l0 - set (news @ fallen) \<noteq> could_fall l0 - set fallen" using new pass(3) by auto
    qed
    then have "card (could_fall l0 - set (news @ fallen)) < card (could_fall l0 - set fallen)" by (rule psubset_card_mono[OF finite_Diff[OF current_finite]])
    then have "card (could_fall l0 - set (news @ fallen)) < n" using Suc.prems(2) by simp
    then show ?thesis using Suc.IH[OF pass(2)] pass(1) False by simp
  qed
qed

text \<open>Whether a fact is an inference from a forgotten memory, or from an entity of a list.\<close>

definition rests_on :: "string list \<Rightarrow> string set \<Rightarrow> fact_provenance \<Rightarrow> bool" where
  "rests_on forgotten fallen v = (pv_class v \<in> {Derived, Hypothesis}
     \<and> (\<exists>link\<in>set (pv_evidence v). (lk_kind link = ''memory'' \<and> lk_id link \<in> set forgotten) \<or> (lk_kind link = ''life'' \<and> lk_id link \<in> fallen)))"

lemma rests_on_iff: "rests_on forgotten (set fallen) v \<longleftrightarrow> inferred v \<and> unsupported forgotten fallen v"
  by (auto simp: rests_on_def inferred_def unsupported_def list_ex_iff)

text \<open>Which entities a subject lost, and what it kept.\<close>

definition forgotten_well :: "string list \<Rightarrow> life_subject \<Rightarrow> life_subject \<Rightarrow> bool" where
  "forgotten_well forgotten su su' = (\<exists>fallen.
     (\<forall>k. if k \<in> fallen then fell (su_entities su) (su_entities su') k else lane_current (su_entities su') k = lane_current (su_entities su) k)
     \<and> (\<forall>k v. lane_current (su_entities su') k = Some v \<longrightarrow> ev_status v = Entity_current \<longrightarrow> \<not> rests_on forgotten fallen (en_provenance (lv_value (ev_version v))))
     \<and> (\<forall>v. lane_current (su_policies su') ''authority'' = Some v \<longrightarrow> po_active (lv_value v) \<longrightarrow> \<not> rests_on forgotten fallen (po_provenance (lv_value v)))
     \<and> su_coverage su' = su_coverage su \<and> su_steering su' = su_steering su \<and> su_imports su' = su_imports su)"

lemma fall_policy_sound:
  assumes "versioned_ok l"
  shows "\<exists>l'. fall_policy forgotten fallen at l = Some l' \<and> versioned_ok l' \<and> lane_kept l l'
    \<and> (\<forall>v. lane_current l' ''authority'' = Some v \<longrightarrow> po_active (lv_value v) \<longrightarrow> inferred (po_provenance (lv_value v)) \<longrightarrow> \<not> unsupported forgotten fallen (po_provenance (lv_value v)))"
proof (cases "lane_current l ''authority''")
  case None
  then show ?thesis using assms by (simp add: fall_policy_def)
next
  case (Some v)
  show ?thesis
  proof (cases "po_active (lv_value v) \<and> inferred (po_provenance (lv_value v)) \<and> unsupported forgotten fallen (po_provenance (lv_value v))")
    case False
    then show ?thesis using assms Some by (auto simp: fall_policy_def)
  next
    case True
    have head: "head_of l ''authority'' = lv_revision v" using lane_head(1)[OF assms Some] by (simp add: head_of_def)
    obtain l' where l': "lane_append ''authority'' (lv_revision v + 1) (new_version ''authority'' (lv_revision v + 1) system_actor at ((lv_value v)\<lparr>po_active := False\<rparr>)) l = Some l'"
        "versioned_ok l'" "lane_kept l l'"
      using versioned_write[OF assms head refl] by blast
    have "lane_current l' ''authority'' = Some (new_version ''authority'' (lv_revision v + 1) system_actor at ((lv_value v)\<lparr>po_active := False\<rparr>))"
      using l'(1) by (auto simp: lane_append_def lane_current_def split: if_splits)
    then show ?thesis using l' Some True by (simp add: fall_policy_def new_version_def)
  qed
qed

lemma fall_subject_sound:
  assumes "subject_ok su"
  shows "\<exists>su' n. fall_subject rank forgotten at su = Some (su', n) \<and> subject_ok su' \<and> subject_kept su su' \<and> forgotten_well forgotten su su'"
proof -
  have l: "entities_sound (su_entities su)" "versioned_ok (su_policies su)" using assms by (simp_all add: subject_ok_def entities_sound_def)
  have "card (could_fall (su_entities su) - set []) < Suc (length (ln_heads (su_entities su)))" using current_card[of "su_entities su" "\<lambda>v. ev_status v = Entity_current"] by simp
  then obtain l' fallen where f: "fall_loop (Suc (length (ln_heads (su_entities su)))) rank forgotten at (su_entities su) [] = Some (l', fallen)"
      "falling (su_entities su) l' fallen" "\<forall>k v. lane_current l' k = Some v \<longrightarrow> \<not> must_fall forgotten fallen v"
    using falling_loop[OF falling_start[OF l(1)]] by blast
  obtain p' where p': "fall_policy forgotten fallen at (su_policies su) = Some p'" "versioned_ok p'" "lane_kept (su_policies su) p'"
      "\<forall>v. lane_current p' ''authority'' = Some v \<longrightarrow> po_active (lv_value v) \<longrightarrow> inferred (po_provenance (lv_value v)) \<longrightarrow> \<not> unsupported forgotten fallen (po_provenance (lv_value v))"
    using fall_policy_sound[OF l(2)] by blast
  have "fall_subject rank forgotten at su = Some (su\<lparr>su_entities := l', su_policies := p'\<rparr>, length fallen)" using f(1) p'(1) by (simp add: fall_subject_def)
  moreover have "subject_ok (su\<lparr>su_entities := l', su_policies := p'\<rparr>)" using assms f(2) p'(2) by (simp add: subject_ok_def falling_def entities_sound_def)
  moreover have "subject_kept su (su\<lparr>su_entities := l', su_policies := p'\<rparr>)" using f(2) p'(3) by (simp add: subject_kept_def falling_def)
  moreover have "forgotten_well forgotten su (su\<lparr>su_entities := l', su_policies := p'\<rparr>)"
    unfolding forgotten_well_def using f(2,3) p'(4) by (intro exI[of _ "set fallen"]) (auto simp: falling_def must_fall_def rests_on_iff)
  ultimately show ?thesis by blast
qed

section \<open>Stores\<close>

text \<open>The stores that requests, first policies and forgetting reach.\<close>

inductive life_reachable :: "life_store \<Rightarrow> bool" where
  life_empty: "life_reachable []"
| life_requested: "life_reachable s \<Longrightarrow> life_reachable (snd (life_serve p latest rank now at subject actor request s))"
| life_initialized: "life_reachable s \<Longrightarrow> life_reachable (snd (initializePersonPolicy person at s))"
| life_forgot: "life_reachable s \<Longrightarrow> life_reachable (snd (invalidateMemories rank forgotten at s))"

definition store_ok :: "life_store \<Rightarrow> bool" where
  "store_ok s = (\<forall>x\<in>set s. subject_ok (snd x))"

lemma empty_subject_ok [simp]: "subject_ok empty_subject"
proof -
  have "live_dependencies empty_lane = {}" by (auto simp: live_dependencies_def life_lookup_def lane_current_def empty_lane_def depends_on_def)
  then have "acyclic (live_dependencies empty_lane)" by (simp add: acyclic_def)
  then show ?thesis by (simp add: subject_ok_def empty_subject_def heads_current_def) (simp add: empty_lane_def)
qed

lemma subject_of_ok: "store_ok s \<Longrightarrow> subject_ok (subject_of s k)"
  by (cases "map_of s k") (auto simp: subject_of_def store_ok_def dest!: map_of_SomeD)

lemma store_ok_put: "store_ok s \<Longrightarrow> subject_ok su \<Longrightarrow> store_ok (map_put k su s)"
  by (induction s) (auto simp: store_ok_def map_put_def)

lemma subject_of_put: "subject_of (map_put k su s) j = (if j = k then su else subject_of s j)"
  by (simp add: subject_of_def)

lemma request_step:
  assumes "store_ok s"
  shows "\<exists>answer s'. life_serve p latest rank now at subject actor request s = (answer, s') \<and> store_ok s'
    \<and> (\<forall>message. answer \<noteq> Inl (life_unavailable message))
    \<and> (\<forall>person. subject_kept (subject_of s person) (subject_of s' person) \<and> (person \<noteq> subject \<longrightarrow> subject_of s' person = subject_of s person))"
proof -
  obtain answer su' where d: "life_dispatch p latest rank now at actor request (subject_of s subject) = Some (answer, su')"
      "subject_ok su'" "subject_kept (subject_of s subject) su'" "\<forall>e. answer = Inl e \<longrightarrow> lx_code e \<noteq> ''unavailable''"
    using dispatch_sound[OF subject_of_ok[OF assms]] unfolding sound_def by blast
  have coded: "answer \<noteq> Inl (life_unavailable message)" for message using d(4) by (auto simp: life_unavailable_def)
  consider e where "life_serve p latest rank now at subject actor request s = (Inl e, s)" "lx_code e = ''invalid-request''"
    | "life_serve p latest rank now at subject actor request s = (answer, if su' = subject_of s subject then s else map_put subject su' s)"
    by (cases "validateLifeRequest p request"; cases "blank subject \<or> subject = ''pi-rooms''") (auto simp: life_serve_def d(1))
  then show ?thesis
  proof cases
    case 1
    then show ?thesis using assms by (auto simp: life_unavailable_def)
  next
    case 2
    then show ?thesis using assms coded d(2,3) by (simp add: store_ok_put subject_of_put)
  qed
qed

lemma initialize_step: "store_ok s \<Longrightarrow> store_ok (snd (initializePersonPolicy person at s))"
proof -
  assume ok: "store_ok s"
  have su: "subject_ok (subject_of s person)" by (rule subject_of_ok[OF ok])
  have "subject_ok ((subject_of s person)\<lparr>su_policies := l\<rparr>)"
    if absent: "lane_current (su_policies (subject_of s person)) ''authority'' = None"
      and l: "lane_append ''authority'' 1 (new_version ''authority'' 1 system_actor at (conservativeLifePolicy person at)) (su_policies (subject_of s person)) = Some l" for l
  proof -
    have p: "versioned_ok (su_policies (subject_of s person))" using su by (simp add: subject_ok_def)
    have "head_of (su_policies (subject_of s person)) ''authority'' = 0" using lane_absent[OF p absent] by (simp add: head_of_def)
    then have "versioned_ok l" using versioned_write[OF p, of "''authority''" 0 _ system_actor at "conservativeLifePolicy person at"] l by auto
    then show ?thesis using su by (simp add: subject_ok_def)
  qed
  then show ?thesis using ok by (auto simp: initializePersonPolicy_def Let_def store_ok_put split: option.split)
qed

lemma fall_all_sound:
  assumes "store_ok s"
  shows "\<exists>s' n. fall_all rank forgotten at s = Some (s', n) \<and> store_ok s' \<and> (\<forall>person. subject_kept (subject_of s person) (subject_of s' person)
    \<and> forgotten_well forgotten (subject_of s person) (subject_of s' person))"
  using assms
proof (induction s)
  case Nil
  have "forgotten_well forgotten empty_subject empty_subject"
    by (auto simp: forgotten_well_def empty_subject_def empty_lane_def lane_current_def intro!: exI[of _ "{}"])
  then show ?case by (simp add: subject_of_def store_ok_def)
next
  case (Cons x s)
  obtain k su where x: "x = (k, su)" by fastforce
  have "subject_ok su" using Cons.prems x by (simp add: store_ok_def)
  then obtain su' n where su': "fall_subject rank forgotten at su = Some (su', n)" "subject_ok su'" "subject_kept su su'" "forgotten_well forgotten su su'"
    using fall_subject_sound by blast
  obtain s' m where s': "fall_all rank forgotten at s = Some (s', m)" "store_ok s'"
      "\<forall>person. subject_kept (subject_of s person) (subject_of s' person) \<and> forgotten_well forgotten (subject_of s person) (subject_of s' person)"
    using Cons.IH Cons.prems by (auto simp: store_ok_def)
  have "subject_of ((k, a) # t) person = (if person = k then a else subject_of t person)" for a t person by (simp add: subject_of_def)
  then show ?case using su' s' x by (simp add: store_ok_def)
qed

lemma life_reachable_ok: "life_reachable s \<Longrightarrow> store_ok s"
proof (induction rule: life_reachable.induct)
  case life_empty
  then show ?case by (simp add: store_ok_def)
next
  case (life_requested s p latest rank now at subject actor request)
  then show ?case using request_step[OF life_requested.IH, of p latest rank now at subject actor request] by auto
next
  case (life_initialized s person at)
  show ?case by (rule initialize_step[OF life_initialized.IH])
next
  case (life_forgot s rank forgotten at)
  then show ?case using fall_all_sound[OF life_forgot.IH, of rank forgotten at] by (auto simp: invalidateMemories_def)
qed

section \<open>Revisions and steering\<close>

lemma append_current:
  assumes "lane_append k r v l = Some l'"
  shows "lane_current l' j = (if j = k then Some v else lane_current l j)"
  using assms by (auto simp: lane_append_def lane_current_def split: if_splits option.split)

lemma request_accepted:
  assumes "validateLifeRequest p request" "\<not> blank subject" "subject \<noteq> ''pi-rooms''" "life_dispatch p latest rank now at actor request (subject_of s subject) = Some (answer, su')"
  shows "fst (life_serve p latest rank now at subject actor request s) = answer" "subject_of (snd (life_serve p latest rank now at subject actor request s)) subject = su'"
    "su' = subject_of s subject \<Longrightarrow> snd (life_serve p latest rank now at subject actor request s) = s"
  using assms by (simp_all add: life_serve_def subject_of_put)

lemma put_entity_cases:
  assumes "put_entity actor at expected k e su = Some (Inr answer, su')"
  shows "\<exists>v. answer = Entity_answer v \<and> life_cas (map_option entity_revision (lane_current (su_entities su) k)) expected = None
    \<and> putEntity actor at k expected e (su_entities su) = Some (v, su_entities su')"
proof (cases "life_cas (map_option entity_revision (lane_current (su_entities su) k)) expected = None \<and> validateRelations [] (su_entities su) k e = None")
  case True
  then show ?thesis using assms unfolding put_entity_def Let_def by (auto simp: refused_def split: if_splits)
next
  case False
  then show ?thesis using assms unfolding put_entity_def Let_def
    by (cases "life_cas (map_option entity_revision (lane_current (su_entities su) k)) expected") (auto simp: refused_def split: if_splits)
qed

text \<open>A step on a steering effect.\<close>

definition steering_follows :: "life_steering life_version lane \<Rightarrow> life_steering life_version lane \<Rightarrow> bool" where
  "steering_follows l l' = (\<forall>k v. lane_current l k = Some v \<longrightarrow> (\<exists>w. lane_current l' k = Some w
     \<and> (w = v \<or> (steeringTransition (sg_state (lv_value v)) (sg_state (lv_value w)) \<and> sg_policy (lv_value w) = sg_policy (lv_value v)
          \<and> sg_action (lv_value w) = sg_action (lv_value v) \<and> sg_visibility (lv_value w) = sg_visibility (lv_value v)))))"

lemma steering_follows_refl [simp]: "steering_follows l l"
  by (simp add: steering_follows_def)

lemma steering_write_follows:
  assumes "steering_write p now actor at expected k sg su = Some (answer, su')"
  shows "steering_follows (su_steering su) (su_steering su')"
proof (cases "life_cas (map_option lv_revision (lane_current (su_steering su) k)) expected")
  case (Some c)
  then show ?thesis using assms by (simp add: steering_write_def refused_def)
next
  case None
  consider "su' = su" | l where "lane_append k (expected + 1) (new_version k (expected + 1) actor at sg) (su_steering su) = Some l" "su_steering su' = l"
      "\<not> (case lane_current (su_steering su) k of None \<Rightarrow> False | Some v \<Rightarrow> sg_policy (lv_value v) \<noteq> sg_policy sg \<or> sg_action (lv_value v) \<noteq> sg_action sg \<or> sg_visibility (lv_value v) \<noteq> sg_visibility sg)"
      "\<not> (case lane_current (su_steering su) k of None \<Rightarrow> False | Some v \<Rightarrow> \<not> steeringTransition (sg_state (lv_value v)) (sg_state sg))"
    using assms None unfolding steering_write_def Let_def by (cases "steering_policy sg su") (auto simp: refused_def split: if_splits)
  then show ?thesis
  proof cases
    case 1
    then show ?thesis by simp
  next
    case 2
    show ?thesis
      unfolding steering_follows_def
    proof (intro allI impI)
      fix j v assume v: "lane_current (su_steering su) j = Some v"
      show "\<exists>w. lane_current (su_steering su') j = Some w \<and> (w = v \<or> (steeringTransition (sg_state (lv_value v)) (sg_state (lv_value w)) \<and> sg_policy (lv_value w) = sg_policy (lv_value v)
          \<and> sg_action (lv_value w) = sg_action (lv_value v) \<and> sg_visibility (lv_value w) = sg_visibility (lv_value v)))"
        using v 2(2-4) append_current[OF 2(1), of j] by (cases "j = k") (auto simp: new_version_def)
    qed
  qed
qed

lemma dispatch_follows:
  assumes "life_dispatch p latest rank now at actor request su = Some (answer, su')"
  shows "steering_follows (su_steering su) (su_steering su')"
proof (cases request)
  case (Steering_write r k sg)
  then show ?thesis using assms steering_write_follows by (simp add: life_dispatch_def)
next
  case (Import_entities source fingerprint entries)
  then have "su_steering su' = su_steering su" using assms by (auto simp: life_dispatch_def import_entities_def refused_def Let_def split: option.splits if_splits)
  then show ?thesis by simp
next
  case (Put_entity r k e)
  then have "su_steering su' = su_steering su" using assms by (auto simp: life_dispatch_def put_entity_def refused_def Let_def split: option.splits if_splits)
  then show ?thesis by simp
next
  case (Retract_entity r k reason)
  then have "su_steering su' = su_steering su" using assms by (auto simp: life_dispatch_def retract_entity_def refused_def Let_def split: option.splits if_splits)
  then show ?thesis by simp
qed (use assms in \<open>auto simp: life_dispatch_def policy_write_def coverage_write_def refused_def Let_def split: option.splits if_splits\<close>)

section \<open>Properties\<close>

text \<open>C6: in every store the operations reach, the dependencies of a person's current commitments form no cycle, whether commitments were written one by one, replaced, retracted or imported together.\<close>

theorem dependencies_acyclic:
  assumes "life_reachable s"
  shows "acyclic (live_dependencies (su_entities (subject_of s person)))"
  using subject_of_ok[OF life_reachable_ok[OF assms], of person] by (simp add: subject_ok_def)

text \<open>C26: no request fails in a store the operations reach; it leaves every other person's life model as it was, and of the person's own model every recorded version, rewriting none: only the standing of an entity's version may change.\<close>

theorem life_requests_keep:
  assumes "life_reachable s"
  shows "(\<forall>message. fst (life_serve p latest rank now at subject actor request s) \<noteq> Inl (life_unavailable message))
    \<and> subject_kept (subject_of s person) (subject_of (snd (life_serve p latest rank now at subject actor request s)) person)
    \<and> (person \<noteq> subject \<longrightarrow> subject_of (snd (life_serve p latest rank now at subject actor request s)) person = subject_of s person)"
  using request_step[OF life_reachable_ok[OF assms], of p latest rank now at subject actor request] by auto


text \<open>C24: a write of an entity names the revision it is based on: in a reachable store a stale write is refused with the revision in force and changes nothing, and an accepted one becomes the head, one revision later.\<close>

theorem life_write_names_head:
  assumes "life_reachable s" "validateLifeRequest p (Put_entity expected k e)" "\<not> blank person" "person \<noteq> ''pi-rooms''"
  shows "(head_of (su_entities (subject_of s person)) k \<noteq> expected \<longrightarrow> life_serve p latest rank now at person actor (Put_entity expected k e) s
        = (Inl \<lparr>lx_code = ''conflict'', lx_message = ''Life revision changed; read before writing'', lx_current = Some (head_of (su_entities (subject_of s person)) k)\<rparr>, s))
    \<and> (\<forall>v. fst (life_serve p latest rank now at person actor (Put_entity expected k e) s) = Inr (Entity_answer v) \<longrightarrow>
        head_of (su_entities (subject_of s person)) k = expected \<and> lv_value (ev_version v) = e \<and> entity_revision v = expected + 1
        \<and> lane_current (su_entities (subject_of (snd (life_serve p latest rank now at person actor (Put_entity expected k e) s)) person)) k = Some v)"
proof -
  have ok: "subject_ok (subject_of s person)" by (rule subject_of_ok[OF life_reachable_ok[OF assms(1)]])
  then have l: "entities_ok (su_entities (subject_of s person))" by (simp add: subject_ok_def)
  obtain answer su' where d: "life_dispatch p latest rank now at actor (Put_entity expected k e) (subject_of s person) = Some (answer, su')"
    using dispatch_sound[OF ok] unfolding sound_def by blast
  then have put: "put_entity actor at expected k e (subject_of s person) = Some (answer, su')" by (simp add: life_dispatch_def)
  note accepted = request_accepted[OF assms(2-4) d]
  show ?thesis
  proof (intro conjI impI allI, goal_cases)
    case 1
    have "life_cas (map_option entity_revision (lane_current (su_entities (subject_of s person)) k)) expected
        = Some \<lparr>lx_code = ''conflict'', lx_message = ''Life revision changed; read before writing'', lx_current = Some (head_of (su_entities (subject_of s person)) k)\<rparr>"
      using 1 lane_absent[OF l] lane_head(1)[OF l]
      by (cases "lane_current (su_entities (subject_of s person)) k") (auto simp: life_cas_def Let_def head_of_def)
    then have "(answer, su') = (Inl \<lparr>lx_code = ''conflict'', lx_message = ''Life revision changed; read before writing'', lx_current = Some (head_of (su_entities (subject_of s person)) k)\<rparr>, subject_of s person)"
      using put by (auto simp: put_entity_def refused_def Let_def)
    then show ?case using accepted by (simp add: prod_eq_iff)
  next
    case (2 v)
    then have "answer = Inr (Entity_answer v)" using accepted(1) by simp
    then show ?case using put_entity_cases[OF put[unfolded \<open>answer = Inr (Entity_answer v)\<close>]] cas_head[OF l] by blast
  next
    case (3 v)
    then have "answer = Inr (Entity_answer v)" using accepted(1) by simp
    then show ?case using put_entity_cases[OF put[unfolded \<open>answer = Inr (Entity_answer v)\<close>]] by (auto simp: putEntity_def Let_def)
  next
    case (4 v)
    then have "answer = Inr (Entity_answer v)" using accepted(1) by simp
    then show ?case using put_entity_cases[OF put[unfolded \<open>answer = Inr (Entity_answer v)\<close>]] by (auto simp: putEntity_def Let_def)
  next
    case (5 v)
    then have "answer = Inr (Entity_answer v)" using accepted(1) by simp
    then have "putEntity actor at k expected e (su_entities (subject_of s person)) = Some (v, su_entities su')"
      using put_entity_cases[OF put[unfolded \<open>answer = Inr (Entity_answer v)\<close>]] by simp
    then have "next_entity k (lane_current (su_entities (subject_of s person)) k) v (su_entities (subject_of s person)) = Some (su_entities su')" by (auto simp: putEntity_def Let_def)
    then show ?case using next_current[of k _ v _ "su_entities su'" k] accepted(2) by simp
  qed
qed

text \<open>A steering effect that has succeeded or failed stays so under every request, bound to the same policy revision, action and visibility.\<close>

theorem steering_outcome_final:
  assumes "life_reachable s" "lane_current (su_steering (subject_of s person)) k = Some v" "sg_state (lv_value v) = ''succeeded'' \<or> sg_state (lv_value v) = ''failed''"
  shows "\<exists>w. lane_current (su_steering (subject_of (snd (life_serve p latest rank now at subject actor request s)) person)) k = Some w
    \<and> sg_state (lv_value w) = sg_state (lv_value v) \<and> sg_policy (lv_value w) = sg_policy (lv_value v)
    \<and> sg_action (lv_value w) = sg_action (lv_value v) \<and> sg_visibility (lv_value w) = sg_visibility (lv_value v)"
proof -
  obtain answer su' where d: "life_dispatch p latest rank now at actor request (subject_of s subject) = Some (answer, su')"
    using dispatch_sound[OF subject_of_ok[OF life_reachable_ok[OF assms(1)]]] unfolding sound_def by blast
  have "steering_follows (su_steering (subject_of s person)) (su_steering (subject_of (snd (life_serve p latest rank now at subject actor request s)) person))"
    using dispatch_follows[OF d] by (auto simp: life_serve_def d subject_of_put)
  then obtain w where w: "lane_current (su_steering (subject_of (snd (life_serve p latest rank now at subject actor request s)) person)) k = Some w"
      "w = v \<or> (steeringTransition (sg_state (lv_value v)) (sg_state (lv_value w)) \<and> sg_policy (lv_value w) = sg_policy (lv_value v)
        \<and> sg_action (lv_value w) = sg_action (lv_value v) \<and> sg_visibility (lv_value w) = sg_visibility (lv_value v))"
    using assms(2) unfolding steering_follows_def by blast
  then show ?thesis using assms(3) by (auto simp: steeringTransition_def)
qed

section \<open>An example\<close>

definition sample_platform :: life_platform where
  "sample_platform = \<lparr>lp_date = (\<lambda>_. Some 0), lp_calendar = (\<lambda>_. True), lp_zone = (\<lambda>_. True)\<rparr>"

definition sample_provenance :: "fact_class \<Rightarrow> life_link list \<Rightarrow> fact_provenance" where
  "sample_provenance c links = \<lparr>pv_class = c, pv_confidence = None, pv_actor = None, pv_locator = None, pv_observed = ''2026-01-01T00:00:00Z'', pv_evidence = links, pv_counter = [], pv_from = None, pv_until = None\<rparr>"

definition sample_commitment :: "fact_provenance \<Rightarrow> string list \<Rightarrow> entity_input" where
  "sample_commitment v deps = \<lparr>en_title = ''call'', en_provenance = v, en_body = Life_commitment \<lparr>cm_state = ''ready'', cm_parties = [], cm_authority = None,
     cm_origin = ''mail'', cm_due = None, cm_acceptance = ''called'', cm_dependencies = deps, cm_owner = None, cm_action = None, cm_waiting = None, cm_goal = None\<rparr>\<rparr>"

definition sample_do :: "life_request \<Rightarrow> life_store \<Rightarrow> (life_error + life_answer) \<times> life_store" where
  "sample_do request s = life_serve sample_platform (\<lambda>_. 0) length 0 ''2026-01-01T00:00:00Z'' ''ann'' \<lparr>la_person = ''ann'', la_thread = None\<rparr> request s"

definition sample_policy :: life_policy where
  "sample_policy = (conservativeLifePolicy ''ann'' ''2026-01-01T00:00:00Z'')\<lparr>po_mode := ''visible'', po_provenance := sample_provenance Stated []\<rparr>"

definition sample_effect :: life_steering where
  "sample_effect = \<lparr>sg_policy = 1, sg_goals = [], sg_preferences = [], sg_evidence = [], sg_action = ''remind'', sg_rationale = ''due'', sg_visibility = ''visible'', sg_state = ''succeeded'',
     sg_outcome = None, sg_receipt = None, sg_compensation = None\<rparr>"

text \<open>A stated commitment, an inference from a memory, and one that depends on the first and rests on the inference.\<close>

definition sample_store :: life_store where
  "sample_store = snd (sample_do (Put_entity 0 ''ccc'' (sample_commitment (sample_provenance Hypothesis [\<lparr>lk_kind = ''life'', lk_id = ''bb'', lk_relation = None\<rparr>]) [''a'']))
     (snd (sample_do (Put_entity 0 ''bb'' (sample_commitment (sample_provenance Derived [\<lparr>lk_kind = ''memory'', lk_id = ''m'', lk_relation = None\<rparr>]) []))
       (snd (sample_do (Put_entity 0 ''a'' (sample_commitment (sample_provenance Stated []) [])) [])))))"

lemma sample_reachable: "life_reachable sample_store"
  unfolding sample_store_def sample_do_def by (intro life_requested life_empty)

lemma dependencies_acyclic_witness:
  "acyclic (live_dependencies (su_entities (subject_of sample_store ''ann''))) \<and> depends_on (life_lookup [] (su_entities (subject_of sample_store ''ann'')) ''ccc'') = [''a'']"
proof
  show "depends_on (life_lookup [] (su_entities (subject_of sample_store ''ann'')) ''ccc'') = [''a'']" by code_simp
qed (rule dependencies_acyclic[OF sample_reachable])

lemma life_requests_keep_witness:
  "subject_kept (subject_of sample_store ''ann'') (subject_of (snd (life_serve sample_platform (\<lambda>_. 0) length 0 ''2026-01-01T00:00:00Z'' ''ann'' system_actor (Retract_entity 1 ''a'' ''done'') sample_store)) ''ann'')
    \<and> (\<forall>message. fst (life_serve sample_platform (\<lambda>_. 0) length 0 ''2026-01-01T00:00:00Z'' ''ann'' system_actor (Retract_entity 1 ''a'' ''done'') sample_store) \<noteq> Inl (life_unavailable message))"
  using life_requests_keep[OF sample_reachable, of sample_platform "\<lambda>_. 0" length 0 "''2026-01-01T00:00:00Z''" "''ann''" system_actor "Retract_entity 1 ''a'' ''done''" "''ann''"] by blast


lemma life_write_names_head_witness:
  "life_serve sample_platform (\<lambda>_. 0) length 0 ''2026-01-01T00:00:00Z'' ''ann'' system_actor (Put_entity 0 ''a'' (sample_commitment (sample_provenance Stated []) [])) sample_store
    = (Inl \<lparr>lx_code = ''conflict'', lx_message = ''Life revision changed; read before writing'', lx_current = Some 1\<rparr>, sample_store)"
proof -
  have head: "head_of (su_entities (subject_of sample_store ''ann'')) ''a'' = 1" by code_simp
  have good: "validateLifeRequest sample_platform (Put_entity 0 ''a'' (sample_commitment (sample_provenance Stated []) []))" by code_simp
  have "\<not> blank ''ann''" by code_simp
  then show ?thesis using life_write_names_head[OF sample_reachable good, of "''ann''" "\<lambda>_. 0" length 0 "''2026-01-01T00:00:00Z''" system_actor] head by simp
qed

lemma steering_outcome_final_witness:
  "\<exists>w. lane_current (su_steering (subject_of (snd (life_serve sample_platform (\<lambda>_. 0) length 0 ''2026-01-01T00:00:00Z'' ''ann'' system_actor (Steering_write 1 ''e'' (sample_effect\<lparr>sg_state := ''planned''\<rparr>))
      (snd (sample_do (Steering_write 0 ''e'' sample_effect) (snd (sample_do (Policy_write 0 sample_policy) []))))) ) ''ann'')) ''e'' = Some w \<and> sg_state (lv_value w) = ''succeeded''"
proof -
  have reached: "life_reachable (snd (sample_do (Steering_write 0 ''e'' sample_effect) (snd (sample_do (Policy_write 0 sample_policy) []))))"
    unfolding sample_do_def by (intro life_requested life_empty)
  have now: "lane_current (su_steering (subject_of (snd (sample_do (Steering_write 0 ''e'' sample_effect) (snd (sample_do (Policy_write 0 sample_policy) [])))) ''ann'')) ''e''
      = Some (new_version ''e'' 1 \<lparr>la_person = ''ann'', la_thread = None\<rparr> ''2026-01-01T00:00:00Z'' sample_effect)" by code_simp
  have decided: "sg_state (lv_value (new_version ''e'' 1 \<lparr>la_person = ''ann'', la_thread = None\<rparr> ''2026-01-01T00:00:00Z'' sample_effect)) = ''succeeded''" by code_simp
  show ?thesis using steering_outcome_final[OF reached now disjI1[OF decided], of sample_platform "\<lambda>_. 0" length 0 "''2026-01-01T00:00:00Z''" "''ann''" system_actor] decided by auto
qed

end
