(* ===== verification/Action_Store.thy ===== *)
theory Action_Store
  imports Regex Json_Text
begin

text \<open>
  The authority over external actions of one owner (\<open>packages/kenan-memory/src/actions.ts\<close>): which effects on other people
  may be sent, and under which token. The tables are lists and maps in the order the queries return them; the
  constructor, the column it migrates and the text of a caught exception are left out. Unicode normalisation, lower
  case and the digest are functions of the argument \<open>x\<close>; a fresh identifier and the time are arguments.
\<close>

section \<open>Rows\<close>

datatype action_state = Act_accepted | Act_inflight | Act_succeeded | Act_failed | Act_uncertain | Act_held

datatype evidence_kind = Provider_receipt | Provider_rejection | Operator_observation

record act_evidence =
  avd_kind :: evidence_kind
  avd_reference :: string
  avd_detail :: string

record act_input =
  ai_intent :: string
  ai_recipients :: "string list"
  ai_transport :: string
  ai_payload :: js
  ai_request :: string
  ai_thread :: string
  ai_authenticated :: "string option"

record act_row =
  ar_id :: string
  ar_submitter :: "string option"
  ar_key :: string
  ar_recipients :: "string list"
  ar_transport :: string
  ar_payload :: string
  ar_digest :: string
  ar_state :: action_state
  ar_revision :: nat
  ar_token :: "string option"
  ar_result :: string
  ar_evidence :: "act_evidence option"
  ar_resolved :: bool
  ar_created :: int
  ar_updated :: int

record act_ticket =
  at_id :: string
  at_token :: string
  at_revision :: nat

record act_event =
  ax_action :: string
  ax_at :: int
  ax_event :: string
  ax_actor :: string
  ax_detail :: js

record act_store =
  as_rows :: "act_row list"
  as_dispatches :: "(string \<times> nat) list"
  as_requests :: "(string \<times> string) list"
  as_aliases :: "(string \<times> string) list"
  as_slots :: "(string \<times> string) list"
  as_holds :: "(string \<times> string) list"
  as_events :: "act_event list"

definition empty_actions :: act_store where
  "empty_actions = \<lparr>as_rows = [], as_dispatches = [], as_requests = [], as_aliases = [], as_slots = [], as_holds = [], as_events = []\<rparr>"

record act_text =
  tx_nfkc :: "string \<Rightarrow> string"
  tx_lower :: "string \<Rightarrow> string"
  tx_hash :: "string \<Rightarrow> string"

record act_error =
  aer_code :: string
  aer_message :: string
  aer_action :: "act_row option"

text \<open>What an operation answers with the store it leaves; a transaction that throws is \<open>None\<close> and leaves the store as it was.\<close>

type_synonym 'a act_result = "(act_error + 'a) \<times> act_store"
type_synonym 'a act_tx = "'a act_result option"

definition act_fail :: "string \<Rightarrow> string \<Rightarrow> act_row option \<Rightarrow> act_error" where
  "act_fail code message row = \<lparr>aer_code = code, aer_message = message, aer_action = row\<rparr>"

definition act_run :: "act_store \<Rightarrow> 'a act_tx \<Rightarrow> 'a act_result" where
  "act_run s t = (case t of None \<Rightarrow> (Inl (act_fail ''unavailable'' ''Action authority could not commit; no dispatch permitted'' None), s) | Some r \<Rightarrow> r)"

definition act_row_of :: "act_store \<Rightarrow> string \<Rightarrow> act_row option" where
  "act_row_of s k = find (\<lambda>r. ar_id r = k) (as_rows s)"

definition act_update :: "string \<Rightarrow> (act_row \<Rightarrow> act_row) \<Rightarrow> act_store \<Rightarrow> act_store" where
  "act_update k f s = s\<lparr>as_rows := map (\<lambda>r. if ar_id r = k then f r else r) (as_rows s)\<rparr>"

definition act_log :: "int \<Rightarrow> string \<Rightarrow> string \<Rightarrow> string \<Rightarrow> js \<Rightarrow> act_store \<Rightarrow> act_store" where
  "act_log now k event actor detail s = s\<lparr>as_events := as_events s @ [\<lparr>ax_action = k, ax_at = now, ax_event = event, ax_actor = actor, ax_detail = detail\<rparr>]\<rparr>"

section \<open>Texts\<close>

definition act_text_ok :: "string \<Rightarrow> bool" where
  "act_text_ok v = (\<not> blank v \<and> int (length v) \<le> 1000)"

text \<open>A payload as text with its keys sorted; only finite JSON has one.\<close>

definition act_stable :: "js \<Rightarrow> string option" where
  "act_stable v = (if wf_js v then Some (json_text v) else None)"

definition strip_prefix :: "string \<Rightarrow> string \<Rightarrow> string" where
  "strip_prefix p s = (if map lower (take (length p) s) = p then drop (length p) s else s)"

definition phone_noise :: "char \<Rightarrow> bool" where
  "phone_noise c = (js_space c \<or> c \<in> set ''().-'')"

definition phone_text :: "string \<Rightarrow> string" where
  "phone_text raw = filter (\<lambda>c. \<not> phone_noise c)
     (if map lower (take 4 raw) = ''tel:'' then drop 4 raw else if map lower (take 7 raw) = ''signal:'' then drop 7 raw else raw)"

definition is_phone :: "string \<Rightarrow> bool" where
  "is_phone s = (case s of c # d # rest \<Rightarrow> c = CHR ''+'' \<and> d \<in> set ''123456789'' \<and> list_all is_digit rest \<and> 6 \<le> length rest \<and> length rest \<le> 14 | _ \<Rightarrow> False)"

definition mail_char :: "char \<Rightarrow> bool" where
  "mail_char c = (c \<noteq> CHR ''<'' \<and> c \<noteq> CHR ''>'' \<and> \<not> js_space c)"

text \<open>The address, alone or in angle brackets after a name.\<close>

definition mail_of :: "string \<Rightarrow> string option" where
  "mail_of t = (let rest = rev (takeWhile (\<lambda>c. c \<noteq> CHR ''<'') (rev t)); name = dropWhile (\<lambda>c. c \<noteq> CHR ''<'') (rev t);
       address = (if rest \<noteq> [] \<and> last rest = CHR ''>'' then butlast rest else rest) in
     if list_all (\<lambda>c. \<not> line_end c) name \<and> list_all mail_char address \<and> CHR ''@'' \<in> set (butlast (tl address)) then Some address else None)"

definition canonicalRecipient :: "act_text \<Rightarrow> string \<Rightarrow> string" where
  "canonicalRecipient x input = (let raw = js_trim input in
     if is_phone (phone_text raw) then ''tel:'' @ phone_text raw
     else case mail_of (strip_prefix ''mailto:'' raw) of Some m \<Rightarrow> ''mailto:'' @ tx_lower x m | None \<Rightarrow> tx_nfkc x raw)"

fun squeeze :: "bool \<Rightarrow> string \<Rightarrow> string" where
  "squeeze spaced [] = []"
| "squeeze spaced (c # s) = (if js_space c then (if spaced then squeeze True s else CHR '' '' # squeeze True s) else c # squeeze False s)"

definition intent_key :: "act_text \<Rightarrow> string \<Rightarrow> string" where
  "intent_key x s = squeeze False (tx_lower x (js_trim (tx_nfkc x s)))"

definition evidenceValid :: "act_evidence \<Rightarrow> bool" where
  "evidenceValid v = (act_text_ok (avd_reference v) \<and> act_text_ok (avd_detail v))"

definition kind_text :: "evidence_kind \<Rightarrow> string" where
  "kind_text k = (case k of Provider_receipt \<Rightarrow> ''provider-receipt'' | Provider_rejection \<Rightarrow> ''provider-rejection'' | Operator_observation \<Rightarrow> ''operator-observation'')"

definition evidence_js :: "act_evidence \<Rightarrow> js" where
  "evidence_js v = mk_obj [(''kind'', JStr (kind_text (avd_kind v))), (''reference'', JStr (avd_reference v)), (''detail'', JStr (avd_detail v))]"

section \<open>Recipients\<close>

definition act_aliases :: "act_text \<Rightarrow> act_store \<Rightarrow> string \<Rightarrow> string list" where
  "act_aliases x s recipient = (let identity = canonicalRecipient x recipient in
     case map_of (as_aliases s) identity of None \<Rightarrow> [identity] | Some g \<Rightarrow> sort (map fst (filter (\<lambda>p. snd p = g) (as_aliases s))))"

definition known_recipients :: "act_text \<Rightarrow> act_store \<Rightarrow> string list \<Rightarrow> string list" where
  "known_recipients x s rs = sort (remdups (concat (map (act_aliases x s) rs)))"

text \<open>The members of a set in the order they were added.\<close>

definition first_seen :: "string list \<Rightarrow> string list" where
  "first_seen xs = rev (remdups (rev xs))"

definition put_absent :: "string \<Rightarrow> string \<Rightarrow> (string \<times> string) list \<Rightarrow> (string \<times> string) list" where
  "put_absent k v m = (if map_of m k = None then map_put k v m else m)"

text \<open>Inserts that throw on a key that is present.\<close>

fun insert_slots :: "string \<Rightarrow> string list \<Rightarrow> (string \<times> string) list \<Rightarrow> (string \<times> string) list option" where
  "insert_slots k [] m = Some m"
| "insert_slots k (r # rs) m = (if map_of m r \<noteq> None then None else insert_slots k rs (map_put r k m))"

definition free_slots :: "string \<Rightarrow> act_store \<Rightarrow> act_store" where
  "free_slots k s = s\<lparr>as_slots := filter (\<lambda>p. snd p \<noteq> k) (as_slots s)\<rparr>"

definition hold_all :: "string \<Rightarrow> string list \<Rightarrow> act_store \<Rightarrow> act_store" where
  "hold_all reason rs s = s\<lparr>as_holds := fold (\<lambda>r. map_put r reason) rs (as_holds s)\<rparr>"

fun join_with :: "string \<Rightarrow> string list \<Rightarrow> string" where
  "join_with sep [] = []"
| "join_with sep [a] = a"
| "join_with sep (a # as) = a @ sep @ join_with sep as"

definition conflict_reason :: string where
  "conflict_reason = ''Recipient aliases reveal conflicting unresolved effects; reconcile every prior action before another contact''"

definition link_tx :: "act_text \<Rightarrow> int \<Rightarrow> string list \<Rightarrow> string \<Rightarrow> act_store \<Rightarrow> unit act_tx" where
  "link_tx x now identities actor s =
     (let linked = known_recipients x s identities in
      if int (length linked) > 1000 then Some (Inl (act_fail ''invalid-input'' ''Recipient alias group too large'' None), s)
      else let s1 = s\<lparr>as_aliases := fold (\<lambda>a. map_put a (hd linked)) linked (as_aliases s)\<rparr>;
          actions = first_seen (List.map_filter (map_of (as_slots s)) linked);
          reasons = first_seen (List.map_filter (map_of (as_holds s)) linked @ (if length actions > 1 then [conflict_reason] else []));
          s2 = (case actions of [a] \<Rightarrow> s1\<lparr>as_slots := fold (\<lambda>r. put_absent r a) linked (as_slots s1)\<rparr> | _ \<Rightarrow> s1);
          s3 = (if reasons = [] then s2 else hold_all (take 1000 (join_with ''; '' reasons)) linked s2) in
        Some (Inr (), act_log now ''recipient-alias'' (if length actions > 1 then ''aliases-conflict-held'' else ''aliases-linked'') actor
          (mk_obj [(''linked'', JArr (map JStr linked)), (''actionIds'', JArr (map JStr actions))]) s3))"

definition linkRecipients :: "act_text \<Rightarrow> int \<Rightarrow> string list \<Rightarrow> string \<Rightarrow> act_store \<Rightarrow> unit act_result" where
  "linkRecipients x now identities actor s =
     (if length identities < 2 \<or> length identities > 100 \<or> \<not> list_all act_text_ok identities \<or> \<not> act_text_ok actor
      then (Inl (act_fail ''invalid-input'' ''Verified recipient alias linking requires identities and actor'' None), s)
      else act_run s (link_tx x now identities actor s))"

section \<open>Submitting\<close>

definition resolve_text :: "act_row \<Rightarrow> string \<Rightarrow> string" where
  "resolve_text row recipient = ''blocked by unresolved prior action '' @ ar_id row @ '' to '' @ recipient @ ''; resolve-purpose it to continue''
     @ (if ar_state row = Act_succeeded then [] else ''; an active or uncertain effect must first be settled with provider evidence'')"

definition priorRefusal :: "string \<Rightarrow> act_row \<Rightarrow> string \<Rightarrow> act_error" where
  "priorRefusal code row recipient = act_fail code (resolve_text row recipient) (Some row)"

definition long_identity :: "act_input \<Rightarrow> string option" where
  "long_identity i = map_option fst (find (\<lambda>f. int (length (snd f)) > 1000)
     ([(''intentKey'', ai_intent i), (''transport'', ai_transport i), (''requestId'', ai_request i), (''threadId'', ai_thread i)]
      @ (case ai_authenticated i of None \<Rightarrow> [] | Some t \<Rightarrow> [(''authenticatedThreadId'', t)])
      @ map (\<lambda>(n, r). (''recipients['' @ nat_text n @ '']'', r)) (zip [0..<length (ai_recipients i)] (ai_recipients i))))"

definition input_complete :: "act_input \<Rightarrow> bool" where
  "input_complete i = (act_text_ok (ai_intent i) \<and> act_text_ok (ai_transport i) \<and> act_text_ok (ai_request i) \<and> act_text_ok (ai_thread i)
     \<and> (case ai_authenticated i of None \<Rightarrow> True | Some t \<Rightarrow> act_text_ok t)
     \<and> 1 \<le> length (ai_recipients i) \<and> length (ai_recipients i) \<le> 100 \<and> list_all act_text_ok (ai_recipients i))"

text \<open>What submitting the same intent or request again finds.\<close>

definition prior_action :: "act_text \<Rightarrow> string \<Rightarrow> string list \<Rightarrow> string \<Rightarrow> act_store \<Rightarrow> act_row option" where
  "prior_action x key recipients request s = (case map_of (as_requests s) request of
     Some k \<Rightarrow> act_row_of s k
   | None \<Rightarrow> find (\<lambda>r. ar_key r = key \<and> known_recipients x s (ar_recipients r) = recipients) (as_rows s))"

definition prior_submission :: "act_text \<Rightarrow> string \<Rightarrow> string \<Rightarrow> string list \<Rightarrow> string \<Rightarrow> act_row \<Rightarrow> act_store \<Rightarrow> (act_row \<times> bool) act_tx" where
  "prior_submission x key digest recipients request row s =
     (let known = known_recipients x s (ar_recipients row) in
      if ar_digest row \<noteq> digest \<or> ar_key row \<noteq> key \<or> known \<noteq> recipients
      then Some (Inl (if ar_resolved row then act_fail ''payload-conflict'' ''Existing intent/request has a different payload; inspect it, do not invent a retry identity'' (Some row)
             else priorRefusal ''payload-conflict'' row (hd known)), s)
      else Some (Inr (row, False), s\<lparr>as_requests := put_absent request (ar_id row) (as_requests s)\<rparr>))"

text \<open>A recipient an earlier action still holds: the same action again, or a refusal.\<close>

definition slot_submission :: "act_text \<Rightarrow> int \<Rightarrow> string \<Rightarrow> string \<Rightarrow> string list \<Rightarrow> act_input \<Rightarrow> string \<Rightarrow> string \<Rightarrow> act_store \<Rightarrow> (act_row \<times> bool) act_tx" where
  "slot_submission x now key digest recipients i recipient k s = (case act_row_of s k of
     None \<Rightarrow> None
   | Some prior \<Rightarrow>
       if ar_key prior = key then
         (if ar_digest prior \<noteq> digest \<or> known_recipients x s (ar_recipients prior) \<noteq> recipients then Some (Inl (priorRefusal ''payload-conflict'' prior recipient), s)
          else Some (Inr (prior, False), s\<lparr>as_requests := put_absent (ai_request i) (ar_id prior) (as_requests s)\<rparr>))
       else Some (Inl (priorRefusal ''fenced'' prior recipient),
         act_log now (ar_id prior) ''duplicate-contact-fenced'' (ai_thread i)
           (mk_obj [(''requestId'', JStr (ai_request i)), (''intentKey'', JStr key), (''transport'', JStr (ai_transport i))]) s))"

text \<open>A new action, in the table, with its request and a slot for each of its recipients.\<close>

definition new_action :: "string \<Rightarrow> int \<Rightarrow> string \<Rightarrow> string \<Rightarrow> string \<Rightarrow> string list \<Rightarrow> act_input \<Rightarrow> string option \<Rightarrow> act_row" where
  "new_action fresh now key payload digest recipients i hold =
     \<lparr>ar_id = fresh, ar_submitter = ai_authenticated i, ar_key = key, ar_recipients = recipients, ar_transport = ai_transport i, ar_payload = payload, ar_digest = digest,
      ar_state = (if hold = None then Act_accepted else Act_held), ar_revision = 1, ar_token = None, ar_result = ''null'', ar_evidence = None, ar_resolved = False, ar_created = now, ar_updated = now\<rparr>"

definition first_hold :: "string list \<Rightarrow> act_store \<Rightarrow> string option" where
  "first_hold rs s = (case List.map_filter (map_of (as_holds s)) rs of [] \<Rightarrow> None | reason # _ \<Rightarrow> Some reason)"

definition create_action :: "string \<Rightarrow> int \<Rightarrow> string \<Rightarrow> string \<Rightarrow> string \<Rightarrow> string list \<Rightarrow> act_input \<Rightarrow> act_store \<Rightarrow> (act_row \<times> bool) act_tx" where
  "create_action fresh now key payload digest recipients i s =
     (let hold = first_hold recipients s; row = new_action fresh now key payload digest recipients i hold in
      if act_row_of s fresh \<noteq> None \<or> list_ex (\<lambda>r. ar_key r = key \<and> ar_recipients r = recipients) (as_rows s) then None
      else if map_of (as_requests s) (ai_request i) \<noteq> None then None
      else case insert_slots fresh recipients (as_slots s) of None \<Rightarrow> None
        | Some slots \<Rightarrow> Some (Inr (row, True), act_log now fresh (if hold = None then ''submitted'' else ''held'') (ai_thread i)
            (mk_obj [(''requestId'', JStr (ai_request i)), (''reason'', case hold of None \<Rightarrow> JNull | Some reason \<Rightarrow> JStr reason)])
            (s\<lparr>as_rows := as_rows s @ [row], as_requests := map_put (ai_request i) fresh (as_requests s), as_slots := slots\<rparr>)))"

definition submit_tx :: "act_text \<Rightarrow> string \<Rightarrow> int \<Rightarrow> string \<Rightarrow> string \<Rightarrow> string \<Rightarrow> act_input \<Rightarrow> act_store \<Rightarrow> (act_row \<times> bool) act_tx" where
  "submit_tx x fresh now key payload digest i s =
     (let recipients = known_recipients x s (ai_recipients i) in
      case prior_action x key recipients (ai_request i) s of
        Some row \<Rightarrow> prior_submission x key digest recipients (ai_request i) row s
      | None \<Rightarrow> (case find (\<lambda>r. map_of (as_slots s) r \<noteq> None) recipients of
          Some r \<Rightarrow> slot_submission x now key digest recipients i r (the (map_of (as_slots s) r)) s
        | None \<Rightarrow> create_action fresh now key payload digest recipients i s))"

definition act_submit :: "act_text \<Rightarrow> string \<Rightarrow> int \<Rightarrow> act_input \<Rightarrow> act_store \<Rightarrow> (act_row \<times> bool) act_result" where
  "act_submit x fresh now i s = (case long_identity i of
     Some field \<Rightarrow> (Inl (act_fail ''invalid-input'' (field @ '' exceeds the 1000-character identity limit; keep the full content in payload'') None), s)
   | None \<Rightarrow>
       if \<not> input_complete i then (Inl (act_fail ''invalid-input'' ''Explicit intent, transport, recipients, request and thread identities required'' None), s)
       else case act_stable (ai_payload i) of
         None \<Rightarrow> (Inl (act_fail ''invalid-input'' ''Payload must be finite JSON'' None), s)
       | Some payload \<Rightarrow>
           if int (length payload) > 2000000 then (Inl (act_fail ''invalid-input'' ''Action payload too large'' None), s)
           else let key = intent_key x (ai_intent i) in
             if int (length key) > 1000 then (Inl (act_fail ''invalid-input'' ''Normalized intentKey exceeds the 1000-character identity limit; keep the full content in payload'' None), s)
             else let digest = tx_hash x (json_text (mk_obj [(''transport'', JStr (ai_transport i)), (''payload'', ai_payload i)])) in
               act_run s (submit_tx x fresh now key payload digest i s))"

section \<open>Sending\<close>

definition act_missing :: act_error where
  "act_missing = act_fail ''not-found'' ''Action not found in this owner'' None"

definition act_inspect :: "string \<Rightarrow> act_store \<Rightarrow> act_row act_result" where
  "act_inspect k s = (case act_row_of s k of None \<Rightarrow> (Inl act_missing, s) | Some r \<Rightarrow> (Inr r, s))"

definition any_held :: "string list \<Rightarrow> act_store \<Rightarrow> bool" where
  "any_held rs s = list_ex (\<lambda>r. map_of (as_holds s) r \<noteq> None) rs"

definition claimed_row :: "int \<Rightarrow> string \<Rightarrow> nat \<Rightarrow> act_row \<Rightarrow> act_row" where
  "claimed_row now token revision r = r\<lparr>ar_state := Act_inflight, ar_revision := revision, ar_token := Some token, ar_updated := now\<rparr>"

definition act_claim :: "string \<Rightarrow> int \<Rightarrow> string \<Rightarrow> string \<Rightarrow> act_store \<Rightarrow> act_ticket act_result" where
  "act_claim token now k actor s =
     (if \<not> act_text_ok actor then (Inl (act_fail ''invalid-input'' ''Claim requires worker identity'' None), s)
      else case act_row_of s k of None \<Rightarrow> (Inl act_missing, s)
      | Some row \<Rightarrow>
          if ar_state row \<noteq> Act_accepted then (Inl (act_fail ''fenced'' ''Only accepted actions may dispatch; no lease expiry or new UUID permits replay'' (Some row)), s)
          else if any_held (ar_recipients row) s then (Inl (act_fail ''fenced'' ''Recipient is held'' (Some row)), s)
          else let revision = ar_revision row + 1 in
            (Inr \<lparr>at_id = k, at_token = token, at_revision = revision\<rparr>,
             act_log now k ''claimed'' actor (mk_obj [(''revision'', JNum (NInt (int revision)))])
               (act_update k (claimed_row now token revision) s)))"

definition ticket_current :: "act_ticket \<Rightarrow> act_row \<Rightarrow> bool" where
  "ticket_current t row = (ar_state row = Act_inflight \<and> ar_token row = Some (at_token t) \<and> ar_revision row = at_revision t)"

definition act_dispatch :: "int \<Rightarrow> act_ticket \<Rightarrow> act_store \<Rightarrow> unit act_result" where
  "act_dispatch now t s = (case act_row_of s (at_id t) of None \<Rightarrow> (Inl act_missing, s)
   | Some row \<Rightarrow>
       if \<not> ticket_current t row then (Inl (act_fail ''fenced'' ''Dispatch token is no longer current'' (Some row)), s)
       else if (at_id t, at_revision t) \<in> set (as_dispatches s) then (Inl (act_fail ''fenced'' ''This generation already entered provider dispatch; never send it again'' (Some row)), s)
       else if any_held (ar_recipients row) s then (Inl (act_fail ''fenced'' ''Recipient held during preparation'' (Some row)), s)
       else (Inr (), act_log now (at_id t) ''provider-dispatch-entered'' ''transport'' (mk_obj [(''revision'', JNum (NInt (int (at_revision t))))])
              (s\<lparr>as_dispatches := as_dispatches s @ [(at_id t, at_revision t)]\<rparr>)))"

definition state_text :: "action_state \<Rightarrow> string" where
  "state_text st = (case st of Act_accepted \<Rightarrow> ''accepted'' | Act_inflight \<Rightarrow> ''inflight'' | Act_succeeded \<Rightarrow> ''succeeded''
     | Act_failed \<Rightarrow> ''failed-before-effect'' | Act_uncertain \<Rightarrow> ''uncertain'' | Act_held \<Rightarrow> ''held'')"

definition finished_row :: "int \<Rightarrow> action_state \<Rightarrow> string \<Rightarrow> act_evidence \<Rightarrow> act_row \<Rightarrow> act_row" where
  "finished_row now outcome encoded evidence r = r\<lparr>ar_state := outcome, ar_result := encoded, ar_evidence := Some evidence, ar_token := None,
     ar_revision := ar_revision r + 1, ar_resolved := (outcome = Act_failed), ar_updated := now\<rparr>"

definition act_finish :: "int \<Rightarrow> act_ticket \<Rightarrow> action_state \<Rightarrow> js \<Rightarrow> act_evidence \<Rightarrow> act_store \<Rightarrow> act_row act_result" where
  "act_finish now t outcome result evidence s =
     (if outcome \<notin> {Act_succeeded, Act_failed, Act_uncertain} \<or> \<not> evidenceValid evidence then (Inl (act_fail ''invalid-input'' ''Outcome and evidence are required'' None), s)
      else if outcome = Act_succeeded \<and> avd_kind evidence \<noteq> Provider_receipt then (Inl (act_fail ''invalid-input'' ''Succeeded transition requires a positive provider receipt'' None), s)
      else if outcome = Act_failed \<and> avd_kind evidence \<noteq> Provider_rejection then (Inl (act_fail ''invalid-input'' ''No-effect transition requires a confirmed pre-effect rejection'' None), s)
      else case act_stable result of None \<Rightarrow> (Inl (act_fail ''invalid-input'' ''Result must be finite JSON'' None), s)
      | Some encoded \<Rightarrow> (case act_row_of s (at_id t) of None \<Rightarrow> (Inl act_missing, s)
        | Some row \<Rightarrow>
            if \<not> ticket_current t row then (Inl (act_fail ''fenced'' ''Stale dispatch fence; inspect current action'' (Some row)), s)
            else let s1 = act_update (ar_id row) (finished_row now outcome encoded evidence) s in
              (Inr (finished_row now outcome encoded evidence row),
               act_log now (ar_id row) (state_text outcome) ''transport'' (evidence_js evidence) (if outcome = Act_failed then free_slots (ar_id row) s1 else s1))))"

definition act_abandon :: "int \<Rightarrow> act_ticket \<Rightarrow> act_evidence \<Rightarrow> act_store \<Rightarrow> act_row act_result" where
  "act_abandon now t evidence s = act_finish now t Act_uncertain JNull evidence s"

section \<open>Settling\<close>

datatype act_decision = Effect_confirmed | No_effect_confirmed | Resolve_purpose | Hold_action

definition decision_text :: "act_decision \<Rightarrow> string" where
  "decision_text d = (case d of Effect_confirmed \<Rightarrow> ''effect-confirmed'' | No_effect_confirmed \<Rightarrow> ''no-effect-confirmed'' | Resolve_purpose \<Rightarrow> ''resolve-purpose'' | Hold_action \<Rightarrow> ''hold'')"

text \<open>What a decision makes of the state of an action, and whether the action is resolved by it.\<close>

definition decided :: "act_decision \<Rightarrow> act_evidence \<Rightarrow> act_row \<Rightarrow> act_error + (action_state \<times> bool)" where
  "decided d evidence row = (case d of
     Effect_confirmed \<Rightarrow> if ar_state row \<noteq> Act_uncertain \<or> avd_kind evidence \<noteq> Provider_receipt
       then Inl (act_fail ''invalid-input'' ''Uncertain effects require a provider receipt'' None) else Inr (Act_succeeded, ar_resolved row)
   | No_effect_confirmed \<Rightarrow> if ar_state row \<notin> {Act_uncertain, Act_held, Act_accepted, Act_failed} \<or> avd_kind evidence \<noteq> Provider_rejection
       then Inl (act_fail ''invalid-input'' ''Replaying requires affirmative provider rejection/no-effect proof, not absence of a receipt'' None) else Inr (Act_failed, True)
   | Resolve_purpose \<Rightarrow> if ar_state row \<noteq> Act_succeeded \<and> ar_state row \<noteq> Act_failed
       then Inl (act_fail ''fenced'' ''Cannot resolve an uncertain or active effect into another contact'' (Some row)) else Inr (ar_state row, True)
   | Hold_action \<Rightarrow> Inr (if ar_state row = Act_accepted then Act_held else ar_state row, ar_resolved row))"

definition settled_row :: "int \<Rightarrow> action_state \<Rightarrow> bool \<Rightarrow> act_evidence \<Rightarrow> act_row \<Rightarrow> act_row" where
  "settled_row now st resolved evidence r = r\<lparr>ar_state := st, ar_resolved := resolved, ar_evidence := Some evidence, ar_revision := ar_revision r + 1, ar_updated := now\<rparr>"

definition act_reconcile :: "int \<Rightarrow> string \<Rightarrow> nat \<Rightarrow> act_decision \<Rightarrow> act_evidence \<Rightarrow> string \<Rightarrow> act_store \<Rightarrow> act_row act_result" where
  "act_reconcile now k expected d evidence actor s =
     (if \<not> evidenceValid evidence \<or> \<not> act_text_ok actor then (Inl (act_fail ''invalid-input'' ''Reconciliation requires exact revision, decision, actor and evidence'' None), s)
      else case act_row_of s k of None \<Rightarrow> (Inl act_missing, s)
      | Some row \<Rightarrow>
          if ar_revision row \<noteq> expected then (Inl (act_fail ''fenced'' ''Reconciliation revision changed'' (Some row)), s)
          else if ar_state row = Act_inflight then (Inl (act_fail ''fenced'' ''Inflight dispatch must be settled or abandoned by its transport owner first'' (Some row)), s)
          else (case decided d evidence row of Inl e \<Rightarrow> (Inl e, s)
            | Inr (st, resolved) \<Rightarrow> (let s1 = (if d = Hold_action then hold_all (avd_detail evidence) (ar_recipients row) s else s);
                s2 = act_update k (settled_row now st resolved evidence) s1; s3 = (if resolved then free_slots k s2 else s2) in
                (Inr (settled_row now st resolved evidence row), act_log now k (decision_text d) actor (evidence_js evidence) s3))))"

definition recovered_row :: "int \<Rightarrow> act_evidence \<Rightarrow> act_row \<Rightarrow> act_row" where
  "recovered_row now evidence r = r\<lparr>ar_state := Act_uncertain, ar_token := None, ar_revision := ar_revision r + 1, ar_evidence := Some evidence, ar_updated := now\<rparr>"

definition act_recover :: "int \<Rightarrow> string \<Rightarrow> nat \<Rightarrow> act_evidence \<Rightarrow> string \<Rightarrow> act_store \<Rightarrow> act_row act_result" where
  "act_recover now k expected evidence actor s =
     (if \<not> evidenceValid evidence \<or> avd_kind evidence \<noteq> Operator_observation \<or> \<not> act_text_ok actor
      then (Inl (act_fail ''invalid-input'' ''Recovery requires evidence that the owning sender instance has retired'' None), s)
      else case act_row_of s k of None \<Rightarrow> (Inl act_missing, s)
      | Some row \<Rightarrow>
          if ar_revision row \<noteq> expected \<or> ar_state row \<noteq> Act_inflight then (Inl (act_fail ''fenced'' ''Recovery requires the exact inflight generation'' (Some row)), s)
          else (Inr (recovered_row now evidence row), act_log now k ''sender-retired-uncertain'' actor (evidence_js evidence) (act_update k (recovered_row now evidence) s)))"

definition retried_row :: "int \<Rightarrow> act_evidence \<Rightarrow> act_row \<Rightarrow> act_row" where
  "retried_row now evidence r = r\<lparr>ar_state := Act_accepted, ar_resolved := False, ar_revision := ar_revision r + 1, ar_evidence := Some evidence, ar_updated := now\<rparr>"

definition retry_tx :: "act_text \<Rightarrow> int \<Rightarrow> string \<Rightarrow> nat \<Rightarrow> act_evidence \<Rightarrow> string \<Rightarrow> act_store \<Rightarrow> act_row act_tx" where
  "retry_tx x now k expected evidence actor s = (case act_row_of s k of None \<Rightarrow> Some (Inl act_missing, s)
   | Some row \<Rightarrow>
       if ar_revision row \<noteq> expected \<or> ar_state row \<noteq> Act_failed
       then Some (Inl (act_fail ''fenced'' ''Retry only follows reconciled no-effect, never elapsed time or an unknown response'' (Some row)), s)
       else let recipients = first_seen (concat (map (act_aliases x s) (ar_recipients row))) in
         if list_ex (\<lambda>r. map_of (as_slots s) r \<noteq> None \<or> map_of (as_holds s) r \<noteq> None) recipients
         then Some (Inl (act_fail ''fenced'' ''Recipient already reserved or held'' (Some row)), s)
         else case insert_slots k recipients (as_slots s) of None \<Rightarrow> None
           | Some slots \<Rightarrow> Some (Inr (retried_row now evidence row),
               act_log now k ''retry-no-effect'' actor (evidence_js evidence) ((act_update k (retried_row now evidence) s)\<lparr>as_slots := slots\<rparr>)))"

definition act_retryNoEffect :: "act_text \<Rightarrow> int \<Rightarrow> string \<Rightarrow> nat \<Rightarrow> act_evidence \<Rightarrow> string \<Rightarrow> act_store \<Rightarrow> act_row act_result" where
  "act_retryNoEffect x now k expected evidence actor s =
     (if \<not> evidenceValid evidence \<or> avd_kind evidence \<noteq> Provider_rejection \<or> \<not> act_text_ok actor
      then (Inl (act_fail ''invalid-input'' ''Retry requires affirmative no-effect evidence'' None), s)
      else act_run s (retry_tx x now k expected evidence actor s))"

section \<open>Following up\<close>

definition followup_input :: "string \<Rightarrow> act_input \<Rightarrow> act_input" where
  "followup_input prior i = i\<lparr>ai_intent := ''followup:'' @ prior @ '':'' @ ai_intent i\<rparr>"

definition linked_before :: "act_text \<Rightarrow> act_input \<Rightarrow> act_store \<Rightarrow> bool" where
  "linked_before x linked s = (list_all act_text_ok (ai_recipients linked)
     \<and> list_ex (\<lambda>r. ar_key r = intent_key x (ai_intent linked) \<and> ar_recipients r = known_recipients x s (ai_recipients linked)) (as_rows s))"

text \<open>The first recipient that another action or a hold keeps.\<close>

fun followup_blocked :: "string \<Rightarrow> act_row \<Rightarrow> string list \<Rightarrow> act_store \<Rightarrow> act_error option option" where
  "followup_blocked prior row [] s = Some None"
| "followup_blocked prior row (r # rs) s = (case map_of (as_slots s) r of
     Some k \<Rightarrow> if k \<noteq> prior then map_option (\<lambda>other. Some (priorRefusal ''fenced'' other r)) (act_row_of s k)
       else if map_of (as_holds s) r \<noteq> None then Some (Some (act_fail ''fenced'' ''Recipient hold still applies'' (Some row))) else followup_blocked prior row rs s
   | None \<Rightarrow> if map_of (as_holds s) r \<noteq> None then Some (Some (act_fail ''fenced'' ''Recipient hold still applies'' (Some row))) else followup_blocked prior row rs s)"

definition superseded_row :: "int \<Rightarrow> act_row \<Rightarrow> act_row" where
  "superseded_row now r = r\<lparr>ar_resolved := True, ar_revision := ar_revision r + 1, ar_updated := now\<rparr>"

text \<open>The prior action gives up its slots and the new one takes them, or neither happens.\<close>

definition followup_swap :: "act_text \<Rightarrow> string \<Rightarrow> int \<Rightarrow> string \<Rightarrow> act_input \<Rightarrow> act_evidence \<Rightarrow> act_store \<Rightarrow> (act_row \<times> bool) act_result" where
  "followup_swap x fresh now prior linked evidence s =
     (case act_submit x fresh now linked (free_slots prior (act_update prior (superseded_row now) s)) of
        (Inr (row, True), s') \<Rightarrow> (Inr (row, True), act_log now prior ''followup-authorized'' (ai_thread linked) (mk_obj [(''nextId'', JStr (ar_id row)), (''evidence'', evidence_js evidence)]) s')
      | (answer, _) \<Rightarrow> (answer, s))"

definition followup_tx :: "act_text \<Rightarrow> string \<Rightarrow> int \<Rightarrow> string \<Rightarrow> nat \<Rightarrow> act_input \<Rightarrow> act_evidence \<Rightarrow> act_store \<Rightarrow> (act_row \<times> bool) act_tx" where
  "followup_tx x fresh now prior expected i evidence s = (case act_row_of s prior of
     None \<Rightarrow> Some (Inl (act_fail ''not-found'' ''Prior action not found in this owner'' None), s)
   | Some row \<Rightarrow> (let linked = followup_input prior i in
       if map_of (as_requests s) (ai_request i) \<noteq> None \<or> linked_before x linked s then Some (act_submit x fresh now linked s)
       else if ar_revision row \<noteq> expected \<or> ar_state row \<notin> {Act_succeeded, Act_failed} then Some (Inl (act_fail ''fenced'' ''Followup requires exact reconciled prior effect, not uncertainty'' (Some row)), s)
       else if \<not> list_all act_text_ok (ai_recipients i) then Some (Inl (act_fail ''invalid-input'' ''Followup requires recipient identities'' None), s)
       else if known_recipients x s (ai_recipients i) \<noteq> known_recipients x s (ar_recipients row) then Some (Inl (act_fail ''invalid-input'' ''Followup must address the same recipient set'' None), s)
       else case followup_blocked prior row (known_recipients x s (ai_recipients i)) s of
         None \<Rightarrow> None
       | Some (Some e) \<Rightarrow> Some (Inl e, s)
       | Some None \<Rightarrow> Some (followup_swap x fresh now prior linked evidence s)))"

definition act_followup :: "act_text \<Rightarrow> string \<Rightarrow> int \<Rightarrow> string \<Rightarrow> nat \<Rightarrow> act_input \<Rightarrow> act_evidence \<Rightarrow> act_store \<Rightarrow> (act_row \<times> bool) act_result" where
  "act_followup x fresh now prior expected i evidence s =
     (if \<not> evidenceValid evidence \<or> \<not> act_text_ok (ai_thread i) then (Inl (act_fail ''invalid-input'' ''Followup requires accountable evidence and worker identity'' None), s)
      else act_run s (followup_tx x fresh now prior expected i evidence s))"

section \<open>Holds\<close>

definition act_holdRecipient :: "act_text \<Rightarrow> int \<Rightarrow> string \<Rightarrow> string \<Rightarrow> string \<Rightarrow> act_store \<Rightarrow> unit act_result" where
  "act_holdRecipient x now recipient reason actor s =
     (if \<not> act_text_ok recipient \<or> \<not> act_text_ok reason \<or> \<not> act_text_ok actor then (Inl (act_fail ''invalid-input'' ''Recipient hold requires identity, reason and actor'' None), s)
      else (Inr (), act_log now ''recipient-hold'' ''hold'' actor (mk_obj [(''recipient'', JStr (canonicalRecipient x recipient)), (''reason'', JStr reason)])
        (hold_all reason (act_aliases x s recipient) s)))"

text \<open>A held action is accepted again when nothing holds its recipients and it never entered dispatch.\<close>

definition unheld :: "int \<Rightarrow> act_store \<Rightarrow> act_row \<Rightarrow> act_row" where
  "unheld now s r = (if ar_state r = Act_held \<and> \<not> any_held (ar_recipients r) s \<and> \<not> list_ex (\<lambda>d. fst d = ar_id r) (as_dispatches s)
     then r\<lparr>ar_state := Act_accepted, ar_revision := ar_revision r + 1, ar_updated := now\<rparr> else r)"

definition act_releaseRecipient :: "act_text \<Rightarrow> int \<Rightarrow> string \<Rightarrow> act_evidence \<Rightarrow> string \<Rightarrow> act_store \<Rightarrow> unit act_result" where
  "act_releaseRecipient x now recipient evidence actor s =
     (if \<not> act_text_ok recipient \<or> \<not> act_text_ok actor \<or> \<not> evidenceValid evidence then (Inl (act_fail ''invalid-input'' ''Hold release requires accountable evidence'' None), s)
      else let s1 = s\<lparr>as_holds := fold map_del (act_aliases x s recipient) (as_holds s)\<rparr> in
        (Inr (), act_log now ''recipient-hold'' ''release'' actor (mk_obj [(''recipient'', JStr (canonicalRecipient x recipient)), (''evidence'', evidence_js evidence)])
          (s1\<lparr>as_rows := map (unheld now s1) (as_rows s1)\<rparr>)))"

end
