(* ===== verification/Action_Safety.thy ===== *)
theory Action_Safety
  imports Action_Store
begin

text \<open>
  What holds of every store of external actions: nothing is sent a second time without proof that it had no effect, a
  recipient is in the hands of one unresolved action, and an outcome rests on evidence.
\<close>

section \<open>Operations\<close>

datatype act_op =
    Op_submit act_input
  | Op_claim string string
  | Op_dispatch act_ticket
  | Op_finish act_ticket action_state js act_evidence
  | Op_reconcile string nat act_decision act_evidence string
  | Op_recover string nat act_evidence string
  | Op_retry string nat act_evidence string
  | Op_followup string nat act_input act_evidence
  | Op_hold string string string
  | Op_release string act_evidence string
  | Op_link "string list" string

definition act_apply :: "act_text \<Rightarrow> string \<Rightarrow> int \<Rightarrow> act_op \<Rightarrow> act_store \<Rightarrow> act_store" where
  "act_apply x fresh now oper s = (case oper of
     Op_submit i \<Rightarrow> snd (act_submit x fresh now i s)
   | Op_claim k actor \<Rightarrow> snd (act_claim fresh now k actor s)
   | Op_dispatch t \<Rightarrow> snd (act_dispatch now t s)
   | Op_finish t outcome result evidence \<Rightarrow> snd (act_finish now t outcome result evidence s)
   | Op_reconcile k expected d evidence actor \<Rightarrow> snd (act_reconcile now k expected d evidence actor s)
   | Op_recover k expected evidence actor \<Rightarrow> snd (act_recover now k expected evidence actor s)
   | Op_retry k expected evidence actor \<Rightarrow> snd (act_retryNoEffect x now k expected evidence actor s)
   | Op_followup prior expected i evidence \<Rightarrow> snd (act_followup x fresh now prior expected i evidence s)
   | Op_hold recipient reason actor \<Rightarrow> snd (act_holdRecipient x now recipient reason actor s)
   | Op_release recipient evidence actor \<Rightarrow> snd (act_releaseRecipient x now recipient evidence actor s)
   | Op_link identities actor \<Rightarrow> snd (linkRecipients x now identities actor s))"

inductive act_reachable :: "act_text \<Rightarrow> act_store \<Rightarrow> bool" for x where
  act_start: "act_reachable x empty_actions"
| act_stepped: "act_reachable x s \<Longrightarrow> act_reachable x (act_apply x fresh now oper s)"

section \<open>The event log\<close>

definition is_dispatch :: "string \<Rightarrow> act_event \<Rightarrow> bool" where
  "is_dispatch k e = (ax_action e = k \<and> ax_event e = ''provider-dispatch-entered'')"

definition is_retry :: "string \<Rightarrow> act_event \<Rightarrow> bool" where
  "is_retry k e = (ax_action e = k \<and> ax_event e = ''retry-no-effect'' \<and> (\<exists>v. evidenceValid v \<and> avd_kind v = Provider_rejection \<and> ax_detail e = evidence_js v))"

text \<open>Whether an action entered dispatch since it was last proved to have had no effect.\<close>

definition spent :: "string \<Rightarrow> act_event list \<Rightarrow> bool" where
  "spent k evs = fold (\<lambda>e b. if is_dispatch k e then True else if is_retry k e then False else b) evs False"

lemma spent_simps [simp]:
  "spent k [] = False"
  "spent k (evs @ [e]) = (if is_dispatch k e then True else if is_retry k e then False else spent k evs)"
  by (simp_all add: spent_def)

lemma never_spent: "\<forall>e\<in>set evs. \<not> is_dispatch k e \<Longrightarrow> \<not> spent k evs"
  by (induction evs rule: rev_induct) auto

lemma retry_not_dispatch [simp]: "is_retry k e \<Longrightarrow> \<not> is_dispatch j e"
  by (auto simp: is_retry_def is_dispatch_def)

text \<open>Two dispatches of an action are apart by a proof that the first had no effect.\<close>

definition spaced :: "act_event list \<Rightarrow> bool" where
  "spaced evs = (\<forall>k i j. i < j \<longrightarrow> j < length evs \<longrightarrow> is_dispatch k (evs ! i) \<longrightarrow> is_dispatch k (evs ! j) \<longrightarrow> (\<exists>m. i < m \<and> m < j \<and> is_retry k (evs ! m)))"

lemma spent_retry:
  assumes "i < length evs" "is_dispatch k (evs ! i)" "\<not> spent k evs"
  shows "\<exists>m. i < m \<and> m < length evs \<and> is_retry k (evs ! m)"
  using assms
proof (induction evs rule: rev_induct)
  case (snoc e evs)
  show ?case
  proof (cases "i = length evs")
    case True
    then show ?thesis using snoc.prems by simp
  next
    case False
    then have i: "i < length evs" "is_dispatch k (evs ! i)" using snoc.prems(1,2) by (simp_all add: nth_append)
    show ?thesis
    proof (cases "is_retry k e")
      case True
      then show ?thesis using i by (intro exI[of _ "length evs"]) simp
    next
      case False
      then have "\<not> spent k evs" using snoc.prems(3) by (simp split: if_splits)
      then obtain m where "i < m" "m < length evs" "is_retry k (evs ! m)" using snoc.IH i by blast
      then show ?thesis by (intro exI[of _ m]) (simp add: nth_append)
    qed
  qed
qed simp

lemma spaced_append:
  assumes "spaced evs" "\<And>k. is_dispatch k e \<Longrightarrow> \<not> spent k evs"
  shows "spaced (evs @ [e])"
  unfolding spaced_def
proof (intro allI impI)
  fix k i j
  assume ij: "i < j" "j < length (evs @ [e])" "is_dispatch k ((evs @ [e]) ! i)" "is_dispatch k ((evs @ [e]) ! j)"
  then have i: "i < length evs" "is_dispatch k (evs ! i)" by (auto simp: nth_append split: if_splits)
  show "\<exists>m. i < m \<and> m < j \<and> is_retry k ((evs @ [e]) ! m)"
  proof (cases "j = length evs")
    case True
    then have "\<not> spent k evs" using assms(2) ij(4) by simp
    then obtain m where "i < m" "m < length evs" "is_retry k (evs ! m)" using spent_retry i by blast
    then show ?thesis using True by (intro exI[of _ m]) (simp add: nth_append)
  next
    case False
    then have j: "j < length evs" "is_dispatch k (evs ! j)" using ij by (auto simp: nth_append split: if_splits)
    then obtain m where "i < m" "m < j" "is_retry k (evs ! m)" using assms(1) ij(1) i unfolding spaced_def by blast
    then show ?thesis using j by (intro exI[of _ m]) (simp add: nth_append)
  qed
qed

text \<open>Evidence of an outcome in the log.\<close>

definition proved :: "string \<Rightarrow> string set \<Rightarrow> evidence_kind \<Rightarrow> act_event list \<Rightarrow> bool" where
  "proved k names kind evs = (\<exists>e\<in>set evs. ax_action e = k \<and> ax_event e \<in> names \<and> (\<exists>v. evidenceValid v \<and> avd_kind v = kind \<and> ax_detail e = evidence_js v))"

abbreviation effect_proved :: "string \<Rightarrow> act_event list \<Rightarrow> bool" where
  "effect_proved k evs \<equiv> proved k {''succeeded'', ''effect-confirmed''} Provider_receipt evs"

abbreviation no_effect_proved :: "string \<Rightarrow> act_event list \<Rightarrow> bool" where
  "no_effect_proved k evs \<equiv> proved k {''failed-before-effect'', ''no-effect-confirmed''} Provider_rejection evs"

lemma proved_append [simp]: "proved k names kind evs \<Longrightarrow> proved k names kind (evs @ es)"
  by (auto simp: proved_def)

lemma proved_now: "ax_action e = k \<Longrightarrow> ax_event e \<in> names \<Longrightarrow> evidenceValid v \<Longrightarrow> avd_kind v = kind \<Longrightarrow> ax_detail e = evidence_js v \<Longrightarrow> proved k names kind (evs @ [e])"
  by (auto simp: proved_def)

section \<open>The invariant\<close>

text \<open>Naming a recipient twice over names it the same.\<close>

definition canonical :: "act_text \<Rightarrow> bool" where
  "canonical x = (\<forall>t. canonicalRecipient x (canonicalRecipient x t) = canonicalRecipient x t)"

definition row_ok :: "act_text \<Rightarrow> act_store \<Rightarrow> act_row \<Rightarrow> bool" where
  "row_ok x s r = ((ar_state r = Act_accepted \<or> ar_state r = Act_held \<longrightarrow> \<not> spent (ar_id r) (as_events s))
     \<and> (ar_state r = Act_inflight \<longrightarrow> (ar_id r, ar_revision r) \<notin> set (as_dispatches s) \<longrightarrow> \<not> spent (ar_id r) (as_events s))
     \<and> (ar_state r = Act_succeeded \<longrightarrow> effect_proved (ar_id r) (as_events s))
     \<and> (ar_state r = Act_failed \<longrightarrow> no_effect_proved (ar_id r) (as_events s))
     \<and> (ar_state r \<noteq> Act_succeeded \<longrightarrow> ar_state r \<noteq> Act_failed \<longrightarrow> \<not> ar_resolved r)
     \<and> (canonical x \<longrightarrow> \<not> ar_resolved r \<longrightarrow> (\<forall>c\<in>set (ar_recipients r). map_of (as_slots s) c = Some (ar_id r)))
     \<and> (canonical x \<longrightarrow> (\<forall>c\<in>set (ar_recipients r). canonicalRecipient x c = c)))"

definition act_ok :: "act_text \<Rightarrow> act_store \<Rightarrow> bool" where
  "act_ok x s = (distinct (map ar_id (as_rows s)) \<and> (\<forall>r\<in>set (as_rows s). row_ok x s r)
     \<and> (\<forall>e\<in>set (as_events s). \<forall>k. is_dispatch k e \<longrightarrow> k \<in> ar_id ` set (as_rows s)) \<and> spaced (as_events s)
     \<and> map_ok (as_slots s) \<and> (canonical x \<longrightarrow> (\<forall>p\<in>set (as_aliases s). canonicalRecipient x (fst p) = fst p)))"

lemma act_empty_ok: "act_ok x empty_actions"
  by (simp add: act_ok_def empty_actions_def spaced_def)

lemma row_of: "act_row_of s k = Some r \<Longrightarrow> r \<in> set (as_rows s) \<and> ar_id r = k"
  unfolding act_row_of_def by (auto simp: find_Some_iff)

lemma row_of_unique: "act_ok x s \<Longrightarrow> act_row_of s k = Some r \<Longrightarrow> r' \<in> set (as_rows s) \<Longrightarrow> ar_id r' = k \<Longrightarrow> r' = r"
  using row_of[of s k r] by (auto simp: act_ok_def distinct_map dest: inj_onD)

lemma row_of_ok: "act_ok x s \<Longrightarrow> act_row_of s k = Some r \<Longrightarrow> row_ok x s r"
  using row_of by (auto simp: act_ok_def)

lemma not_spent_fresh:
  assumes "act_ok x s" "act_row_of s k = None"
  shows "\<not> spent k (as_events s)"
proof -
  have "k \<notin> ar_id ` set (as_rows s)" using assms(2) unfolding act_row_of_def by (auto simp: find_None_iff)
  then have "\<forall>e\<in>set (as_events s). \<not> is_dispatch k e" using assms(1) unfolding act_ok_def by blast
  then show ?thesis by (rule never_spent)
qed

text \<open>What an update of one row must keep, with the event that records it.\<close>

definition row_event :: "string \<Rightarrow> act_event \<Rightarrow> bool" where
  "row_event k e = (ax_action e = k \<and> \<not> is_dispatch k e)"

lemma update_ok:
  assumes ok: "act_ok x s" and row: "act_row_of s k = Some row" and keeps: "ar_id (f row) = k" "ar_recipients (f row) = ar_recipients row"
    and e: "row_event k e" and slots: "map_ok slots" "\<And>r c. canonical x \<Longrightarrow> r \<in> set (as_rows s) \<Longrightarrow> ar_id r \<noteq> k \<Longrightarrow> \<not> ar_resolved r \<Longrightarrow> c \<in> set (ar_recipients r) \<Longrightarrow> map_of slots c = Some (ar_id r)"
    and new: "row_ok x (s\<lparr>as_slots := slots, as_events := as_events s @ [e]\<rparr>) (f row)"
  shows "act_ok x (s\<lparr>as_rows := map (\<lambda>r. if ar_id r = k then f r else r) (as_rows s), as_slots := slots, as_events := as_events s @ [e]\<rparr>)"
proof -
  let ?s = "s\<lparr>as_rows := map (\<lambda>r. if ar_id r = k then f r else r) (as_rows s), as_slots := slots, as_events := as_events s @ [e]\<rparr>"
  have only: "r = row" if "r \<in> set (as_rows s)" "ar_id r = k" for r using row_of_unique[OF ok row that] .
  have ids: "map ar_id (as_rows ?s) = map ar_id (as_rows s)"
    using only keeps(1) by (auto simp: comp_def)
  have other: "is_dispatch j e \<longleftrightarrow> False" for j using e by (auto simp: row_event_def is_dispatch_def)
  have rows: "row_ok x ?s r'" if r': "r' \<in> set (as_rows ?s)" for r'
  proof -
    obtain r where r: "r \<in> set (as_rows s)" "r' = (if ar_id r = k then f r else r)" using r' by auto
    show ?thesis
    proof (cases "ar_id r = k")
      case True
      then have "r' = f row" using r only by simp
      then show ?thesis using new by (simp add: row_ok_def)
    next
      case False
      then have same: "r' = r" using r(2) by simp
      have old: "row_ok x s r" using ok r(1) by (simp add: act_ok_def)
      have "\<not> is_retry (ar_id r) e" using e False by (auto simp: row_event_def is_retry_def)
      then have "spent (ar_id r) (as_events s @ [e]) = spent (ar_id r) (as_events s)" using other by simp
      then show ?thesis using old slots(2)[OF _ r(1) False] unfolding same row_ok_def by simp
    qed
  qed
  have "\<forall>e'\<in>set (as_events s @ [e]). \<forall>j. is_dispatch j e' \<longrightarrow> j \<in> ar_id ` set (as_rows s)" using ok other by (auto simp: act_ok_def)
  moreover have "ar_id ` set (as_rows ?s) = ar_id ` set (as_rows s)" using arg_cong[OF ids, of set] by (simp only: set_map)
  moreover have "spaced (as_events s @ [e])" using ok other by (intro spaced_append) (simp_all add: act_ok_def)
  moreover have "distinct (map ar_id (as_rows ?s))" unfolding ids using ok by (simp add: act_ok_def)
  moreover have "\<forall>r\<in>set (as_rows ?s). row_ok x ?s r" using rows by blast
  ultimately show ?thesis using ok slots(1) unfolding act_ok_def by (intro conjI) simp_all
qed

lemma row_of_update [simp]: "as_rows (act_log now k event actor detail s) = as_rows s" "as_slots (act_log now k event actor detail s) = as_slots s"
  "as_aliases (act_log now k event actor detail s) = as_aliases s" "as_dispatches (act_log now k event actor detail s) = as_dispatches s" "as_holds (act_log now k event actor detail s) = as_holds s"
  by (simp_all add: act_log_def)

text \<open>Changes that leave the rows, slots and aliases as they are.\<close>

lemma other_event_ok:
  assumes "act_ok x s" "\<And>k. \<not> is_dispatch k e" "\<And>k. \<not> is_retry k e"
    and "as_rows s' = as_rows s" "as_slots s' = as_slots s" "as_dispatches s' = as_dispatches s" "as_aliases s' = as_aliases s" "as_events s' = as_events s @ [e]"
  shows "act_ok x s'"
proof -
  have "row_ok x s' r" if "row_ok x s r" for r using that assms by (simp add: row_ok_def)
  moreover have "spaced (as_events s @ [e])" using assms(1,2) by (intro spaced_append) (auto simp: act_ok_def)
  then have "spaced (as_events s')" using assms(8) by simp
  ultimately show ?thesis using assms by (auto simp: act_ok_def)
qed

lemma same_ok:
  assumes "act_ok x s" "as_rows s' = as_rows s" "as_slots s' = as_slots s" "as_dispatches s' = as_dispatches s" "as_aliases s' = as_aliases s" "as_events s' = as_events s"
  shows "act_ok x s'"
proof -
  have "row_ok x s' r \<longleftrightarrow> row_ok x s r" for r using assms by (simp add: row_ok_def)
  then show ?thesis using assms by (simp add: act_ok_def)
qed

section \<open>Sending keeps the invariant\<close>

lemma claim_ok:
  assumes ok: "act_ok x s"
  shows "act_ok x (snd (act_claim token now k actor s))"
proof (cases "act_row_of s k")
  case None
  then show ?thesis using ok by (simp add: act_claim_def)
next
  case (Some row)
  define rv where "rv = ar_revision row + 1"
  let ?f = "claimed_row now token rv"
  let ?e = "\<lparr>ax_action = k, ax_at = now, ax_event = ''claimed'', ax_actor = actor, ax_detail = mk_obj [(''revision'', JNum (NInt (int rv)))]\<rparr>"
  have r: "row_ok x s row" "ar_id row = k" "row \<in> set (as_rows s)" using row_of_ok[OF ok Some] row_of[OF Some] by auto
  show ?thesis
  proof (cases "act_text_ok actor \<and> ar_state row = Act_accepted \<and> \<not> any_held (ar_recipients row) s")
    case True
    have e: "\<not> is_dispatch j ?e" "\<not> is_retry j ?e" for j by (simp_all add: is_dispatch_def is_retry_def)
    have new: "row_ok x (s\<lparr>as_slots := as_slots s, as_events := as_events s @ [?e]\<rparr>) (?f row)" using r True e by (simp add: row_ok_def claimed_row_def)
    have "act_ok x (s\<lparr>as_rows := map (\<lambda>r. if ar_id r = k then ?f r else r) (as_rows s), as_slots := as_slots s, as_events := as_events s @ [?e]\<rparr>)"
    proof (rule update_ok[where f = ?f, OF ok Some])
      show "row_ok x (s\<lparr>as_slots := as_slots s, as_events := as_events s @ [?e]\<rparr>) (?f row)" by (rule new)
      show "row_event k ?e" using e by (simp add: row_event_def)
      show "map_ok (as_slots s)" using ok by (simp add: act_ok_def)
      show "map_of (as_slots s) c = Some (ar_id r)" if "canonical x" "r \<in> set (as_rows s)" "ar_id r \<noteq> k" "\<not> ar_resolved r" "c \<in> set (ar_recipients r)" for r c
        using ok that by (simp add: act_ok_def row_ok_def)
    qed (use r in \<open>simp_all add: claimed_row_def\<close>)
    moreover have "snd (act_claim token now k actor s) = act_log now k ''claimed'' actor (mk_obj [(''revision'', JNum (NInt (int rv)))]) (act_update k ?f s)"
      using True Some by (simp add: act_claim_def rv_def Let_def)
    ultimately show ?thesis by (simp add: act_log_def act_update_def)
  next
    case False
    then show ?thesis using ok Some by (auto simp: act_claim_def)
  qed
qed

lemma act_dispatch_ok:
  assumes ok: "act_ok x s"
  shows "act_ok x (snd (act_dispatch now t s))"
proof (cases "act_row_of s (at_id t)")
  case None
  then show ?thesis using ok by (simp add: act_dispatch_def)
next
  case (Some row)
  let ?e = "\<lparr>ax_action = at_id t, ax_at = now, ax_event = ''provider-dispatch-entered'', ax_actor = ''transport'', ax_detail = mk_obj [(''revision'', JNum (NInt (int (at_revision t))))]\<rparr>"
  have r: "row_ok x s row" "ar_id row = at_id t" "row \<in> set (as_rows s)" using row_of_ok[OF ok Some] row_of[OF Some] by auto
  show ?thesis
  proof (cases "ticket_current t row \<and> (at_id t, at_revision t) \<notin> set (as_dispatches s) \<and> \<not> any_held (ar_recipients row) s")
    case True
    let ?s = "s\<lparr>as_dispatches := as_dispatches s @ [(at_id t, at_revision t)], as_events := as_events s @ [?e]\<rparr>"
    have fresh: "\<not> spent (at_id t) (as_events s)" using r True by (simp add: row_ok_def ticket_current_def)
    have e: "is_dispatch j ?e \<longleftrightarrow> j = at_id t" "\<not> is_retry j ?e" for j by (auto simp: is_dispatch_def is_retry_def)
    have rows: "row_ok x ?s r'" if "r' \<in> set (as_rows s)" for r'
    proof (cases "ar_id r' = at_id t")
      case True
      then have "r' = row" using row_of_unique[OF ok Some that] by simp
      moreover have "ar_state row = Act_inflight" "ar_revision row = at_revision t" using \<open>ticket_current t row \<and> _\<close> by (simp_all add: ticket_current_def)
      ultimately show ?thesis using r by (simp add: row_ok_def)
    next
      case False
      have "row_ok x s r'" using ok that by (simp add: act_ok_def)
      then show ?thesis using False e by (simp add: row_ok_def)
    qed
    have "spaced (as_events s @ [?e])" using ok fresh e by (intro spaced_append) (auto simp: act_ok_def)
    moreover have "\<forall>e'\<in>set (as_events s @ [?e]). \<forall>j. is_dispatch j e' \<longrightarrow> j \<in> ar_id ` set (as_rows s)"
      using ok e(1) imageI[OF r(3), of ar_id] r(2) by (auto simp: act_ok_def)
    moreover have "\<forall>r\<in>set (as_rows s). row_ok x ?s r" using rows by blast
    ultimately have "act_ok x ?s" using ok unfolding act_ok_def by (intro conjI) simp_all
    then show ?thesis using True Some by (simp add: act_dispatch_def act_log_def)
  next
    case False
    then show ?thesis using ok Some by (auto simp: act_dispatch_def)
  qed
qed

lemma free_slots_get:
  assumes "map_ok m" "map_of m c = Some j" "j \<noteq> k"
  shows "map_of (filter (\<lambda>p. snd p \<noteq> k) m) c = Some j"
  using assms by (induction m) (auto simp: map_ok_def split: if_splits dest: map_of_SomeD)

lemma free_if: "(if b then free_slots k s else s) = s\<lparr>as_slots := if b then filter (\<lambda>p. snd p \<noteq> k) (as_slots s) else as_slots s\<rparr>"
  by (simp add: free_slots_def)

lemma act_update_slots: "as_slots (act_update k f s) = as_slots s"
  by (simp add: act_update_def)

lemma free_slots_ok [simp]: "map_ok m \<Longrightarrow> map_ok (filter Q m)"
  by (induction m) (auto simp: map_ok_def)

text \<open>An update of a row by an event that neither dispatches nor proves no effect of a retry, freeing its slots when it resolves the row.\<close>

lemma settle_ok:
  assumes ok: "act_ok x s" and row: "act_row_of s k = Some row" and keeps: "ar_id (f row) = k" "ar_recipients (f row) = ar_recipients row"
    and e: "ax_action e = k" "\<And>j. \<not> is_dispatch j e" "\<And>j. \<not> is_retry j e"
    and live: "ar_state (f row) = Act_accepted \<or> ar_state (f row) = Act_held \<Longrightarrow> \<not> spent k (as_events s)" "ar_state (f row) \<noteq> Act_inflight"
    and effect: "ar_state (f row) = Act_succeeded \<Longrightarrow> effect_proved k (as_events s @ [e])" "ar_state (f row) = Act_failed \<Longrightarrow> no_effect_proved k (as_events s @ [e])"
    and resolved: "ar_resolved (f row) \<Longrightarrow> ar_state (f row) = Act_succeeded \<or> ar_state (f row) = Act_failed" "\<not> ar_resolved (f row) \<Longrightarrow> \<not> ar_resolved row \<and> \<not> freed"
  shows "act_ok x (s\<lparr>as_rows := map (\<lambda>r. if ar_id r = k then f r else r) (as_rows s), as_slots := (if freed then filter (\<lambda>p. snd p \<noteq> k) (as_slots s) else as_slots s), as_events := as_events s @ [e]\<rparr>)"
proof (rule update_ok[where f = f, OF ok row keeps])
  have r: "row_ok x s row" "ar_id row = k" using row_of_ok[OF ok row] row_of[OF row] by auto
  show "row_event k e" using e by (simp add: row_event_def)
  show "map_ok (if freed then filter (\<lambda>p. snd p \<noteq> k) (as_slots s) else as_slots s)" using ok by (simp add: act_ok_def)
  show "map_of (if freed then filter (\<lambda>p. snd p \<noteq> k) (as_slots s) else as_slots s) c = Some (ar_id r)"
    if "canonical x" "r \<in> set (as_rows s)" "ar_id r \<noteq> k" "\<not> ar_resolved r" "c \<in> set (ar_recipients r)" for r c
  proof -
    have "map_of (as_slots s) c = Some (ar_id r)" "map_ok (as_slots s)" using ok that by (simp_all add: act_ok_def row_ok_def)
    then show ?thesis using that(3) free_slots_get[of "as_slots s" c "ar_id r" k] by simp
  qed
  show "row_ok x (s\<lparr>as_slots := (if freed then filter (\<lambda>p. snd p \<noteq> k) (as_slots s) else as_slots s), as_events := as_events s @ [e]\<rparr>) (f row)"
    using r keeps e live effect resolved unfolding row_ok_def by auto
qed

lemma resolved_settled: "row_ok x s r \<Longrightarrow> ar_resolved r \<Longrightarrow> ar_state r = Act_succeeded \<or> ar_state r = Act_failed"
  unfolding row_ok_def by blast

lemma slot_held: "row_ok x s r \<Longrightarrow> canonical x \<Longrightarrow> \<not> ar_resolved r \<Longrightarrow> c \<in> set (ar_recipients r) \<Longrightarrow> map_of (as_slots s) c = Some (ar_id r)"
  unfolding row_ok_def by blast

lemma finish_ok:
  assumes ok: "act_ok x s"
  shows "act_ok x (snd (act_finish now t outcome result evidence s))"
proof (cases "act_stable result")
  case None
  then show ?thesis using ok by (simp add: act_finish_def)
next
  case stable: (Some encoded)
  show ?thesis
  proof (cases "act_row_of s (at_id t)")
    case None
    then show ?thesis using ok stable by (simp add: act_finish_def)
  next
    case (Some row)
    let ?f = "finished_row now outcome encoded evidence"
    let ?e = "\<lparr>ax_action = ar_id row, ax_at = now, ax_event = state_text outcome, ax_actor = ''transport'', ax_detail = evidence_js evidence\<rparr>"
    have r: "row_ok x s row" "ar_id row = at_id t" using row_of_ok[OF ok Some] row_of[OF Some] by auto
    show ?thesis
    proof (cases "outcome \<in> {Act_succeeded, Act_failed, Act_uncertain} \<and> evidenceValid evidence \<and> (outcome = Act_succeeded \<longrightarrow> avd_kind evidence = Provider_receipt)
        \<and> (outcome = Act_failed \<longrightarrow> avd_kind evidence = Provider_rejection) \<and> ticket_current t row")
      case True
      have open_row: "\<not> ar_resolved row" using resolved_settled[OF r(1)] True by (auto simp: ticket_current_def)
      have "act_ok x (s\<lparr>as_rows := map (\<lambda>r. if ar_id r = at_id t then ?f r else r) (as_rows s),
          as_slots := (if outcome = Act_failed then filter (\<lambda>p. snd p \<noteq> at_id t) (as_slots s) else as_slots s), as_events := as_events s @ [?e]\<rparr>)"
      proof (rule settle_ok[where f = ?f, OF ok Some])
        show "\<not> is_dispatch j ?e" "\<not> is_retry j ?e" for j by (cases outcome; simp add: is_dispatch_def is_retry_def state_text_def)+
        show "effect_proved (at_id t) (as_events s @ [?e])" if "ar_state (?f row) = Act_succeeded"
          using that True r(2) by (intro proved_now[of _ _ _ evidence]) (auto simp: finished_row_def state_text_def)
        show "no_effect_proved (at_id t) (as_events s @ [?e])" if "ar_state (?f row) = Act_failed"
          using that True r(2) by (intro proved_now[of _ _ _ evidence]) (auto simp: finished_row_def state_text_def)
      qed (use True r open_row in \<open>auto simp: finished_row_def\<close>)
      then show ?thesis using True Some stable r(2) by (auto simp: act_finish_def Let_def act_log_def act_update_def free_slots_def)
    next
      case False
      then show ?thesis using ok Some stable by (auto simp: act_finish_def)
    qed
  qed
qed

lemma hold_all_same [simp]: "as_rows (hold_all reason rs s) = as_rows s" "as_slots (hold_all reason rs s) = as_slots s" "as_events (hold_all reason rs s) = as_events s"
  "as_aliases (hold_all reason rs s) = as_aliases s" "as_dispatches (hold_all reason rs s) = as_dispatches s"
  by (simp_all add: hold_all_def)

lemma decided_cases:
  assumes "decided d evidence row = Inr (st, resolved)" "ar_state row \<noteq> Act_inflight"
  shows "st \<noteq> Act_inflight" "st = Act_accepted \<or> st = Act_held \<Longrightarrow> ar_state row = Act_accepted \<or> ar_state row = Act_held"
    "st = Act_succeeded \<Longrightarrow> ar_state row = Act_succeeded \<or> (d = Effect_confirmed \<and> avd_kind evidence = Provider_receipt)"
    "st = Act_failed \<Longrightarrow> ar_state row = Act_failed \<or> (d = No_effect_confirmed \<and> avd_kind evidence = Provider_rejection)"
    "ar_state row = Act_succeeded \<Longrightarrow> st = Act_succeeded"
    "ar_resolved row \<Longrightarrow> resolved" "resolved \<Longrightarrow> \<not> ar_resolved row \<Longrightarrow> st = Act_succeeded \<or> st = Act_failed"
    "st \<noteq> Act_succeeded \<Longrightarrow> st \<noteq> Act_failed \<Longrightarrow> ar_state row \<noteq> Act_succeeded \<and> ar_state row \<noteq> Act_failed"
  using assms by (cases d; auto simp: decided_def split: if_splits)+

lemma act_reconcile_ok:
  assumes ok: "act_ok x s"
  shows "act_ok x (snd (act_reconcile now k expected d evidence actor s))"
proof (cases "act_row_of s k")
  case None
  then show ?thesis using ok by (simp add: act_reconcile_def)
next
  case (Some row)
  have r: "row_ok x s row" "ar_id row = k" using row_of_ok[OF ok Some] row_of[OF Some] by auto
  show ?thesis
  proof (cases "evidenceValid evidence \<and> act_text_ok actor \<and> ar_revision row = expected \<and> ar_state row \<noteq> Act_inflight \<and> is_ok (decided d evidence row)")
    case True
    then obtain st resolved where d: "decided d evidence row = Inr (st, resolved)" by (auto elim: is_okE)
    note c = decided_cases[OF d] 
    define t where "t = (if d = Hold_action then hold_all (avd_detail evidence) (ar_recipients row) s else s)"
    have same: "as_rows t = as_rows s" "as_slots t = as_slots s" "as_events t = as_events s" "as_aliases t = as_aliases s" "as_dispatches t = as_dispatches s"
      by (simp_all add: t_def)
    let ?f = "settled_row now st resolved evidence"
    let ?e = "\<lparr>ax_action = k, ax_at = now, ax_event = decision_text d, ax_actor = actor, ax_detail = evidence_js evidence\<rparr>"
    have ok': "act_ok x t" by (rule same_ok[OF ok]) (simp_all add: same)
    have Some': "act_row_of t k = Some row" using Some by (simp add: act_row_of_def same)
    have e: "\<not> is_dispatch j ?e" "\<not> is_retry j ?e" for j by (cases d; simp add: is_dispatch_def is_retry_def decision_text_def)+
    have "act_ok x (t\<lparr>as_rows := map (\<lambda>r. if ar_id r = k then ?f r else r) (as_rows t),
        as_slots := (if resolved then filter (\<lambda>p. snd p \<noteq> k) (as_slots t) else as_slots t), as_events := as_events t @ [?e]\<rparr>)"
    proof (rule settle_ok[where f = ?f, OF ok' Some'])
      show "\<not> is_dispatch j ?e" "\<not> is_retry j ?e" for j by (rule e)+
      show "\<not> spent k (as_events t)" if "ar_state (?f row) = Act_accepted \<or> ar_state (?f row) = Act_held"
        using that c(2) True r by (simp add: settled_row_def row_ok_def same)
      show "ar_state (?f row) \<noteq> Act_inflight" using c(1) True by (simp add: settled_row_def)
      show "effect_proved k (as_events t @ [?e])" if here: "ar_state (?f row) = Act_succeeded"
      proof -
        consider "ar_state row = Act_succeeded" | "d = Effect_confirmed" "avd_kind evidence = Provider_receipt" using c(3) True here by (auto simp: settled_row_def)
        then show ?thesis
        proof cases
          case 1
          then show ?thesis using r by (simp add: row_ok_def same)
        next
          case 2
          then show ?thesis using True by (intro proved_now[of _ _ _ evidence]) (auto simp: decision_text_def)
        qed
      qed
      show "no_effect_proved k (as_events t @ [?e])" if here: "ar_state (?f row) = Act_failed"
      proof -
        consider "ar_state row = Act_failed" | "d = No_effect_confirmed" "avd_kind evidence = Provider_rejection" using c(4) True here by (auto simp: settled_row_def)
        then show ?thesis
        proof cases
          case 1
          then show ?thesis using r by (simp add: row_ok_def same)
        next
          case 2
          then show ?thesis using True by (intro proved_now[of _ _ _ evidence]) (auto simp: decision_text_def)
        qed
      qed
      show "ar_state (?f row) = Act_succeeded \<or> ar_state (?f row) = Act_failed" if "ar_resolved (?f row)"
        using that c(7,8) True resolved_settled[OF r(1)] by (auto simp: settled_row_def)
      show "\<not> ar_resolved row \<and> \<not> resolved" if "\<not> ar_resolved (?f row)" using that c(6) True by (auto simp: settled_row_def)
    qed (use r in \<open>simp_all add: settled_row_def\<close>)
    moreover have "snd (act_reconcile now k expected d evidence actor s) = act_log now k (decision_text d) actor (evidence_js evidence) (if resolved then free_slots k (act_update k ?f t) else act_update k ?f t)"
      using True Some d by (simp add: act_reconcile_def Let_def t_def)
    ultimately show ?thesis unfolding free_if act_update_slots by (simp add: act_log_def act_update_def)
  next
    case False
    then show ?thesis using ok Some by (cases "decided d evidence row") (auto simp: act_reconcile_def)
  qed
qed

lemma recover_ok:
  assumes ok: "act_ok x s"
  shows "act_ok x (snd (act_recover now k expected evidence actor s))"
proof (cases "act_row_of s k")
  case None
  then show ?thesis using ok by (simp add: act_recover_def)
next
  case (Some row)
  let ?e = "\<lparr>ax_action = k, ax_at = now, ax_event = ''sender-retired-uncertain'', ax_actor = actor, ax_detail = evidence_js evidence\<rparr>"
  have r: "row_ok x s row" "ar_id row = k" using row_of_ok[OF ok Some] row_of[OF Some] by auto
  show ?thesis
  proof (cases "evidenceValid evidence \<and> avd_kind evidence = Operator_observation \<and> act_text_ok actor \<and> ar_revision row = expected \<and> ar_state row = Act_inflight")
    case True
    have open_row: "\<not> ar_resolved row" using resolved_settled[OF r(1)] True by auto
    have "act_ok x (s\<lparr>as_rows := map (\<lambda>r. if ar_id r = k then recovered_row now evidence r else r) (as_rows s),
        as_slots := (if False then filter (\<lambda>p. snd p \<noteq> k) (as_slots s) else as_slots s), as_events := as_events s @ [?e]\<rparr>)"
    proof (rule settle_ok[where f = "recovered_row now evidence", OF ok Some])
      show "\<not> is_dispatch j ?e" "\<not> is_retry j ?e" for j by (simp_all add: is_dispatch_def is_retry_def)
    qed (use r open_row in \<open>simp_all add: recovered_row_def\<close>)
    then show ?thesis using True Some by (simp add: act_recover_def act_log_def act_update_def)
  next
    case False
    then show ?thesis using ok Some by (auto simp: act_recover_def)
  qed
qed

section \<open>Reserving recipients keeps the invariant\<close>

lemma insert_slots_get:
  assumes "insert_slots k rs m = Some m'"
  shows "map_of m' c = (if c \<in> set rs then Some k else map_of m c)" "map_ok m \<Longrightarrow> map_ok m'" "c \<in> set rs \<Longrightarrow> map_of m c = None"
proof -
  show "map_of m' c = (if c \<in> set rs then Some k else map_of m c)" using assms by (induction rs arbitrary: m) (auto split: if_splits)
  show "map_ok m'" if "map_ok m" using assms that
  proof (induction rs arbitrary: m)
    case (Cons r rs)
    then show ?case using map_ok_put[OF Cons.prems(2), of r k] by (simp split: if_splits)
  qed simp
  show "map_of m c = None" if "c \<in> set rs" using assms that
  proof (induction rs arbitrary: m)
    case (Cons r rs)
    then have step: "map_of m r = None" "insert_slots k rs (map_put r k m) = Some m'" by (simp_all split: if_splits)
    show ?case
    proof (cases "c = r")
      case False
      then have "map_of (map_put r k m) c = None" using Cons.IH[OF step(2)] Cons.prems(2) by simp
      then show ?thesis using False by simp
    qed (use step in simp)
  qed simp
qed

lemma set_known [simp]: "set (known_recipients x s rs) = (\<Union>r\<in>set rs. set (act_aliases x s r))"
  by (simp add: known_recipients_def)

lemma set_first_seen [simp]: "set (first_seen xs) = set xs"
  by (simp add: first_seen_def)

lemma aliases_canonical:
  assumes "act_ok x s" "canonical x" "c \<in> set (act_aliases x s r)"
  shows "canonicalRecipient x c = c"
  using assms by (auto simp: act_aliases_def Let_def act_ok_def canonical_def split: option.splits)

lemma own_alias:
  assumes "canonicalRecipient x c = c"
  shows "c \<in> set (act_aliases x s c)"
  using assms by (cases "map_of (as_aliases s) c") (auto simp: act_aliases_def dest: map_of_SomeD intro: rev_image_eqI)

lemma retry_cases:
  assumes row: "act_row_of s k = Some row"
  obtains e where "act_retryNoEffect x now k expected evidence actor s = (Inl e, s)"
  | slots where "evidenceValid evidence" "avd_kind evidence = Provider_rejection" "ar_state row = Act_failed" "\<not> list_ex (\<lambda>r. map_of (as_slots s) r \<noteq> None \<or> map_of (as_holds s) r \<noteq> None) (first_seen (concat (map (act_aliases x s) (ar_recipients row))))"
      "insert_slots k (first_seen (concat (map (act_aliases x s) (ar_recipients row)))) (as_slots s) = Some slots"
      "act_retryNoEffect x now k expected evidence actor s = (Inr (retried_row now evidence row),
        act_log now k ''retry-no-effect'' actor (evidence_js evidence) ((act_update k (retried_row now evidence) s)\<lparr>as_slots := slots\<rparr>))"
proof -
  define rs where "rs = first_seen (concat (map (act_aliases x s) (ar_recipients row)))"
  define blocked where "blocked = list_ex (\<lambda>r. map_of (as_slots s) r \<noteq> None \<or> map_of (as_holds s) r \<noteq> None) rs"
  have tx: "retry_tx x now k expected evidence actor s = (if ar_revision row \<noteq> expected \<or> ar_state row \<noteq> Act_failed
       then Some (Inl (act_fail ''fenced'' ''Retry only follows reconciled no-effect, never elapsed time or an unknown response'' (Some row)), s)
       else if blocked then Some (Inl (act_fail ''fenced'' ''Recipient already reserved or held'' (Some row)), s)
         else case insert_slots k rs (as_slots s) of None \<Rightarrow> None
           | Some slots \<Rightarrow> Some (Inr (retried_row now evidence row), act_log now k ''retry-no-effect'' actor (evidence_js evidence) ((act_update k (retried_row now evidence) s)\<lparr>as_slots := slots\<rparr>)))"
    using row by (simp add: retry_tx_def Let_def rs_def[symmetric] blocked_def)
  consider "\<exists>e. act_retryNoEffect x now k expected evidence actor s = (Inl e, s)"
    | slots where "evidenceValid evidence" "avd_kind evidence = Provider_rejection" "ar_state row = Act_failed" "\<not> blocked" "insert_slots k rs (as_slots s) = Some slots"
      "act_retryNoEffect x now k expected evidence actor s = (Inr (retried_row now evidence row),
        act_log now k ''retry-no-effect'' actor (evidence_js evidence) ((act_update k (retried_row now evidence) s)\<lparr>as_slots := slots\<rparr>))"
    unfolding act_retryNoEffect_def tx act_run_def
    by (cases "\<not> evidenceValid evidence \<or> avd_kind evidence \<noteq> Provider_rejection \<or> \<not> act_text_ok actor"; cases "ar_revision row \<noteq> expected \<or> ar_state row \<noteq> Act_failed";
        cases blocked; cases "insert_slots k rs (as_slots s)") simp_all
  then show ?thesis using that unfolding blocked_def rs_def by cases blast+
qed

lemma retry_ok:
  assumes ok: "act_ok x s"
  shows "act_ok x (snd (act_retryNoEffect x now k expected evidence actor s))"
proof (cases "act_row_of s k")
  case None
  then show ?thesis using ok by (simp add: act_retryNoEffect_def retry_tx_def act_run_def)
next
  case (Some row)
  let ?rs = "first_seen (concat (map (act_aliases x s) (ar_recipients row)))"
  let ?e = "\<lparr>ax_action = k, ax_at = now, ax_event = ''retry-no-effect'', ax_actor = actor, ax_detail = evidence_js evidence\<rparr>"
  have r: "row_ok x s row" "ar_id row = k" using row_of_ok[OF ok Some] row_of[OF Some] by auto
  show ?thesis
  proof (rule retry_cases[OF Some, of x now expected evidence actor])
    fix e assume "act_retryNoEffect x now k expected evidence actor s = (Inl e, s)"
    then show ?thesis using ok by simp
  next
    fix slots
    assume evidence: "evidenceValid evidence" "avd_kind evidence = Provider_rejection" and free: "\<not> list_ex (\<lambda>r. map_of (as_slots s) r \<noteq> None \<or> map_of (as_holds s) r \<noteq> None) ?rs" and slots: "insert_slots k ?rs (as_slots s) = Some slots"
      and final: "act_retryNoEffect x now k expected evidence actor s = (Inr (retried_row now evidence row),
        act_log now k ''retry-no-effect'' actor (evidence_js evidence) ((act_update k (retried_row now evidence) s)\<lparr>as_slots := slots\<rparr>))"
    note got = insert_slots_get[OF slots]
    have e: "is_retry j ?e \<longleftrightarrow> j = k" "\<not> is_dispatch j ?e" for j using evidence by (auto simp: is_dispatch_def is_retry_def)
    have "act_ok x (s\<lparr>as_rows := map (\<lambda>r. if ar_id r = k then retried_row now evidence r else r) (as_rows s), as_slots := slots, as_events := as_events s @ [?e]\<rparr>)"
    proof (rule update_ok[where f = "retried_row now evidence", OF ok Some])
      show "row_event k ?e" using e by (simp add: row_event_def)
      show "map_ok slots" using got(2) ok by (simp add: act_ok_def)
      show "map_of slots c = Some (ar_id r)" if here: "canonical x" "r \<in> set (as_rows s)" "ar_id r \<noteq> k" "\<not> ar_resolved r" "c \<in> set (ar_recipients r)" for r c
      proof -
        have held: "map_of (as_slots s) c = Some (ar_id r)" using ok here by (simp add: act_ok_def row_ok_def)
        then have "c \<notin> set ?rs" using free unfolding list_ex_iff by blast
        then show ?thesis using held got(1) by simp
      qed
      have "\<forall>c\<in>set (ar_recipients row). c \<in> set ?rs" if canon: "canonical x"
      proof
        fix c assume c: "c \<in> set (ar_recipients row)"
        then have "c \<in> set (act_aliases x s c)" using r(1) own_alias canon by (simp add: row_ok_def)
        then show "c \<in> set ?rs" using c by auto
      qed
      then have "canonical x \<longrightarrow> (\<forall>c\<in>set (ar_recipients row). map_of slots c = Some k)" using got(1) by simp
      then show "row_ok x (s\<lparr>as_slots := slots, as_events := as_events s @ [?e]\<rparr>) (retried_row now evidence row)"
        using r e by (simp add: row_ok_def retried_row_def)
    qed (use r in \<open>simp_all add: retried_row_def\<close>)
    then show ?thesis by (simp add: final act_log_def act_update_def)
  qed
qed

lemma act_create_ok:
  assumes ok: "act_ok x s" and rs: "canonical x \<longrightarrow> (\<forall>c\<in>set recipients. canonicalRecipient x c = c)"
    and made: "create_action fresh now key payload digest recipients i s = Some (answer, s')"
  shows "act_ok x s'"
proof -
  obtain slots where slots: "insert_slots fresh recipients (as_slots s) = Some slots" "act_row_of s fresh = None"
    using made unfolding create_action_def Let_def by (auto split: if_splits option.splits)
  let ?row = "new_action fresh now key payload digest recipients i (first_hold recipients s)"
  obtain e where s': "as_rows s' = as_rows s @ [?row]" "as_slots s' = slots" "as_events s' = as_events s @ [e]" "as_dispatches s' = as_dispatches s" "as_aliases s' = as_aliases s"
      "\<And>j. \<not> is_dispatch j e" "\<And>j. \<not> is_retry j e"
    using made slots unfolding create_action_def Let_def by (auto simp: act_log_def is_dispatch_def is_retry_def split: if_splits option.splits)
  note got = insert_slots_get[OF slots(1)]
  have fresh: "fresh \<notin> ar_id ` set (as_rows s)" using slots(2) unfolding act_row_of_def by (auto simp: find_None_iff)
  have free: "map_of (as_slots s) c = None" if "c \<in> set recipients" for c
    using got(3) that .
  have old: "row_ok x s' r" if here: "r \<in> set (as_rows s)" for r
  proof -
    have r: "row_ok x s r" using ok here by (simp add: act_ok_def)
    have "canonical x \<Longrightarrow> \<not> ar_resolved r \<Longrightarrow> c \<in> set (ar_recipients r) \<Longrightarrow> map_of slots c = Some (ar_id r)" for c
      using r got(1) free[of c] by (auto simp: row_ok_def)
    then show ?thesis using r s' unfolding row_ok_def by auto
  qed
  have new: "row_ok x s' ?row" using got(1) rs not_spent_fresh[OF ok slots(2)] s' unfolding row_ok_def by (auto simp: new_action_def)
  have "ar_id ?row = fresh" by (simp add: new_action_def)
  then have "distinct (map ar_id (as_rows s'))" using ok fresh s'(1) by (auto simp: act_ok_def)
  moreover have "\<forall>r\<in>set (as_rows s'). row_ok x s' r" using old new s'(1) by auto
  moreover have "\<forall>e\<in>set (as_events s'). \<forall>k. is_dispatch k e \<longrightarrow> k \<in> ar_id ` set (as_rows s')" using ok s' by (auto simp: act_ok_def)
  moreover have "spaced (as_events s @ [e])" using ok s'(6) by (intro spaced_append) (auto simp: act_ok_def)
  then have "spaced (as_events s')" using s'(3) by simp
  ultimately show ?thesis using ok s' got(2) by (simp add: act_ok_def)
qed

lemma submit_tx_ok:
  assumes ok: "act_ok x s" and made: "submit_tx x fresh now key payload digest i s = Some (answer, s')"
  shows "act_ok x s'"
proof -
  define recipients where "recipients = known_recipients x s (ai_recipients i)"
  have rs: "canonical x \<longrightarrow> (\<forall>c\<in>set recipients. canonicalRecipient x c = c)" using aliases_canonical[OF ok] by (auto simp: recipients_def)
  have tx: "submit_tx x fresh now key payload digest i s = (case prior_action x key recipients (ai_request i) s of
        Some row \<Rightarrow> prior_submission x key digest recipients (ai_request i) row s
      | None \<Rightarrow> (case find (\<lambda>r. map_of (as_slots s) r \<noteq> None) recipients of
          Some r \<Rightarrow> slot_submission x now key digest recipients i r (the (map_of (as_slots s) r)) s
        | None \<Rightarrow> create_action fresh now key payload digest recipients i s))" unfolding submit_tx_def recipients_def Let_def ..
  show ?thesis
  proof (cases "prior_action x key recipients (ai_request i) s")
    case (Some row)
    then have "s' = s \<or> (\<exists>m. s' = s\<lparr>as_requests := m\<rparr>)" using made unfolding tx by (auto simp: prior_submission_def Let_def split: if_splits)
    then show ?thesis using ok by (auto intro: same_ok[OF ok])
  next
    case None
    show ?thesis
    proof (cases "find (\<lambda>r. map_of (as_slots s) r \<noteq> None) recipients")
      case (Some r)
      then have "s' = s \<or> (\<exists>m. s' = s\<lparr>as_requests := m\<rparr>) \<or> (\<exists>k actor detail. s' = act_log now k ''duplicate-contact-fenced'' actor detail s)"
        using made None unfolding tx by (auto simp: slot_submission_def split: if_splits option.splits)
      then consider "s' = s" | m where "s' = s\<lparr>as_requests := m\<rparr>" | k actor detail where "s' = act_log now k ''duplicate-contact-fenced'' actor detail s" by blast
      then show ?thesis
      proof cases
        case 3
        show ?thesis
          by (rule other_event_ok[OF ok, of "\<lparr>ax_action = k, ax_at = now, ax_event = ''duplicate-contact-fenced'', ax_actor = actor, ax_detail = detail\<rparr>"])
            (simp_all add: 3 is_dispatch_def is_retry_def act_log_def)
      qed (use ok in \<open>auto intro: same_ok[OF ok]\<close>)
    next
      case free: None
      then show ?thesis using act_create_ok[OF ok rs] made None unfolding tx by simp
    qed
  qed
qed

lemma submit_ok:
  assumes ok: "act_ok x s"
  shows "act_ok x (snd (act_submit x fresh now i s))"
proof -
  have "act_ok x (snd (act_run s (submit_tx x fresh now key payload digest i s)))" for key payload digest
  proof (cases "submit_tx x fresh now key payload digest i s")
    case None
    then show ?thesis using ok by (simp add: act_run_def)
  next
    case (Some res)
    then show ?thesis using submit_tx_ok[OF ok] by (cases res) (simp add: act_run_def)
  qed
  then show ?thesis using ok unfolding act_submit_def Let_def by (auto split: option.split)
qed

text \<open>A settled action gives up its slots, as the first half of a followup.\<close>

lemma superseded_ok:
  assumes ok: "act_ok x s" and row: "act_row_of s k = Some row" and settled: "ar_state row = Act_succeeded \<or> ar_state row = Act_failed"
  shows "act_ok x (free_slots k (act_update k (superseded_row now) s))"
proof -
  have r: "row_ok x s row" "ar_id row = k" using row_of_ok[OF ok row] row_of[OF row] by auto
  let ?s = "free_slots k (act_update k (superseded_row now) s)"
  have ids: "map ar_id (as_rows ?s) = map ar_id (as_rows s)" by (auto simp: free_slots_def act_update_def superseded_row_def)
  have "row_ok x ?s r'" if r': "r' \<in> set (as_rows ?s)" for r'
  proof -
    obtain q where q: "q \<in> set (as_rows s)" "r' = (if ar_id q = k then superseded_row now q else q)" using r' by (auto simp: free_slots_def act_update_def)
    have old: "row_ok x s q" using ok q(1) by (simp add: act_ok_def)
    show ?thesis
    proof (cases "ar_id q = k")
      case True
      then have "q = row" using row_of_unique[OF ok row q(1)] by simp
      then show ?thesis using True old q(2) settled by (auto simp: row_ok_def superseded_row_def free_slots_def act_update_def)
    next
      case False
      have "map_of (filter (\<lambda>p. snd p \<noteq> k) (as_slots s)) c = Some (ar_id q)" if "\<not> ar_resolved q" "c \<in> set (ar_recipients q)" "canonical x" for c
        using free_slots_get[of "as_slots s" c "ar_id q" k] ok old that False by (simp add: act_ok_def row_ok_def)
      then show ?thesis using False old q(2) by (simp add: row_ok_def free_slots_def act_update_def)
    qed
  qed
  moreover have "ar_id ` set (as_rows ?s) = ar_id ` set (as_rows s)" using arg_cong[OF ids, of set] by (simp only: set_map)
  moreover have "distinct (map ar_id (as_rows ?s))" unfolding ids using ok by (simp add: act_ok_def)
  moreover have "as_events ?s = as_events s" "as_slots ?s = filter (\<lambda>p. snd p \<noteq> k) (as_slots s)" "as_aliases ?s = as_aliases s" by (simp_all add: free_slots_def act_update_def)
  ultimately show ?thesis using ok unfolding act_ok_def by (intro conjI) simp_all
qed

lemma log_ok:
  assumes "act_ok x s" "event \<noteq> ''provider-dispatch-entered''" "event \<noteq> ''retry-no-effect''"
  shows "act_ok x (act_log now k event actor detail s)"
  by (rule other_event_ok[OF assms(1), of "\<lparr>ax_action = k, ax_at = now, ax_event = event, ax_actor = actor, ax_detail = detail\<rparr>"])
    (use assms(2,3) in \<open>simp_all add: is_dispatch_def is_retry_def act_log_def\<close>)

lemma swap_ok:
  assumes ok: "act_ok x s" and row: "act_row_of s prior = Some row" and settled: "ar_state row = Act_succeeded \<or> ar_state row = Act_failed"
  shows "act_ok x (snd (followup_swap x fresh now prior linked evidence s))"
proof -
  obtain answer s' where sub: "act_submit x fresh now linked (free_slots prior (act_update prior (superseded_row now) s)) = (answer, s')" by fastforce
  then have s': "act_ok x s'" using submit_ok[OF superseded_ok[OF ok row settled], of fresh now linked now] by simp
  show ?thesis
  proof (cases "\<exists>r. answer = Inr (r, True)")
    case True
    then show ?thesis using sub log_ok[OF s'] by (auto simp: followup_swap_def)
  next
    case False
    then have "snd (followup_swap x fresh now prior linked evidence s) = s" using sub by (auto simp: followup_swap_def split: sum.split prod.split bool.split)
    then show ?thesis using ok by simp
  qed
qed

lemma followup_cases:
  assumes "act_row_of s prior = Some row"
  shows "snd (act_followup x fresh now prior expected i evidence s) = s
    \<or> snd (act_followup x fresh now prior expected i evidence s) = snd (act_submit x fresh now (followup_input prior i) s)
    \<or> ((ar_state row = Act_succeeded \<or> ar_state row = Act_failed)
        \<and> snd (act_followup x fresh now prior expected i evidence s) = snd (followup_swap x fresh now prior (followup_input prior i) evidence s))"
proof -
  define linked where "linked = followup_input prior i"
  define replayed where "replayed = (map_of (as_requests s) (ai_request i) \<noteq> None \<or> linked_before x linked s)"
  define blocked where "blocked = followup_blocked prior row (known_recipients x s (ai_recipients i)) s"
  define other where "other = (known_recipients x s (ai_recipients i) \<noteq> known_recipients x s (ar_recipients row))"
  have tx: "followup_tx x fresh now prior expected i evidence s =
     (if replayed then Some (act_submit x fresh now linked s)
       else if ar_revision row \<noteq> expected \<or> ar_state row \<notin> {Act_succeeded, Act_failed} then Some (Inl (act_fail ''fenced'' ''Followup requires exact reconciled prior effect, not uncertainty'' (Some row)), s)
       else if \<not> list_all act_text_ok (ai_recipients i) then Some (Inl (act_fail ''invalid-input'' ''Followup requires recipient identities'' None), s)
       else if other then Some (Inl (act_fail ''invalid-input'' ''Followup must address the same recipient set'' None), s)
       else case blocked of None \<Rightarrow> None | Some (Some e) \<Rightarrow> Some (Inl e, s) | Some None \<Rightarrow> Some (followup_swap x fresh now prior linked evidence s))"
    unfolding followup_tx_def assms linked_def replayed_def blocked_def other_def Let_def option.case ..
  show ?thesis
    unfolding act_followup_def tx act_run_def linked_def[symmetric] by (simp split: option.split)
qed

lemma followup_ok:
  assumes ok: "act_ok x s"
  shows "act_ok x (snd (act_followup x fresh now prior expected i evidence s))"
proof (cases "act_row_of s prior")
  case None
  then show ?thesis using ok by (simp add: act_followup_def followup_tx_def act_run_def)
next
  case (Some row)
  then show ?thesis using followup_cases[OF Some, of x fresh now expected i evidence] ok submit_ok[OF ok, of fresh now "followup_input prior i"]
      swap_ok[OF ok Some, of fresh now "followup_input prior i" evidence] by metis
qed

section \<open>Holds and aliases keep the invariant\<close>

lemma hold_ok: "act_ok x s \<Longrightarrow> act_ok x (snd (act_holdRecipient x now recipient reason actor s))"
  using log_ok[OF same_ok[of x s "hold_all reason (act_aliases x s recipient) s"]] by (simp add: act_holdRecipient_def)

lemma release_ok:
  assumes ok: "act_ok x s"
  shows "act_ok x (snd (act_releaseRecipient x now recipient evidence actor s))"
proof -
  let ?t = "s\<lparr>as_holds := fold map_del (act_aliases x s recipient) (as_holds s)\<rparr>"
  let ?u = "?t\<lparr>as_rows := map (unheld now ?t) (as_rows ?t)\<rparr>"
  have keeps: "ar_id (unheld now t r) = ar_id r" "ar_recipients (unheld now t r) = ar_recipients r" "ar_resolved (unheld now t r) = ar_resolved r"
      "unheld now t r = r \<or> (ar_state r = Act_held \<and> ar_state (unheld now t r) = Act_accepted)" for t r
    by (simp_all add: unheld_def)
  have row: "row_ok x ?u (unheld now ?t r)" if "r \<in> set (as_rows s)" for r
  proof -
    have old: "row_ok x s r" using ok that by (simp add: act_ok_def)
    show ?thesis
    proof (cases "unheld now ?t r = r")
      case True
      then show ?thesis using old by (simp add: row_ok_def)
    next
      case False
      then have "ar_state r = Act_held" "ar_state (unheld now ?t r) = Act_accepted" using keeps(4)[of ?t r] by blast+
      then show ?thesis using old keeps(1-3)[of ?t r] unfolding row_ok_def by simp
    qed
  qed
  have ids: "map ar_id (as_rows ?u) = map ar_id (as_rows s)" using keeps(1) by simp
  have "\<forall>r\<in>set (as_rows ?u). row_ok x ?u r" using row by auto
  moreover have "ar_id ` set (as_rows ?u) = ar_id ` set (as_rows s)" using arg_cong[OF ids, of set] by (simp only: set_map)
  moreover have "distinct (map ar_id (as_rows ?u))" unfolding ids using ok by (simp add: act_ok_def)
  ultimately have "act_ok x ?u" using ok unfolding act_ok_def by (intro conjI) simp_all
  then have "act_ok x (act_log now ''recipient-hold'' ''release'' actor detail ?u)" for detail by (rule log_ok) simp_all
  then show ?thesis using ok by (simp add: act_releaseRecipient_def Let_def)
qed

lemma fold_put_absent:
  "map_of m c = Some k \<Longrightarrow> map_of (fold (\<lambda>r. put_absent r a) rs m) c = Some k" "map_ok m \<Longrightarrow> map_ok (fold (\<lambda>r. put_absent r a) rs m)"
proof -
  have get: "map_of m c = Some k \<Longrightarrow> map_of (put_absent r a m) c = Some k" and keys: "map_ok m \<Longrightarrow> map_ok (put_absent r a m)" for r m
    by (auto simp: put_absent_def)
  show "map_of m c = Some k \<Longrightarrow> map_of (fold (\<lambda>r. put_absent r a) rs m) c = Some k"
  proof (induction rs arbitrary: m)
    case (Cons r rs)
    then show ?case using get[OF Cons.prems, of r] by simp
  qed simp
  show "map_ok m \<Longrightarrow> map_ok (fold (\<lambda>r. put_absent r a) rs m)"
  proof (induction rs arbitrary: m)
    case (Cons r rs)
    then show ?case using keys[OF Cons.prems, of r] by simp
  qed simp
qed

lemma fold_put_set: "p \<in> set (fold (\<lambda>r. map_put r g) rs m) \<Longrightarrow> p \<in> set m \<or> fst p \<in> set rs"
proof (induction rs arbitrary: m)
  case (Cons r rs)
  then have "p \<in> set (map_put r g m) \<or> fst p \<in> set rs" by auto
  then show ?case
  proof
    assume "p \<in> set (map_put r g m)"
    moreover have "set (map_put r g m) \<subseteq> insert (r, g) (set m)" by (induction m) (auto simp: map_put_def)
    ultimately show ?case by auto
  qed simp
qed simp

lemma link_ok:
  assumes ok: "act_ok x s"
  shows "act_ok x (snd (linkRecipients x now identities actor s))"
proof -
  define linked where "linked = known_recipients x s identities"
  have canonical_linked: "canonical x \<longrightarrow> (\<forall>c\<in>set linked. canonicalRecipient x c = c)" using aliases_canonical[OF ok] by (auto simp: linked_def)
  have step: "act_ok x t" if rows: "as_rows t = as_rows s" "as_events t = as_events s" "as_dispatches t = as_dispatches s"
      and al: "as_aliases t = fold (\<lambda>a. map_put a (hd linked)) linked (as_aliases s)"
      and sl: "as_slots t = as_slots s \<or> (\<exists>a. as_slots t = fold (\<lambda>r. put_absent r a) linked (as_slots s))" for t
  proof -
    have slots: "map_of (as_slots t) c = Some k" if "map_of (as_slots s) c = Some k" for c k using sl fold_put_absent(1)[OF that] that by auto
    have "map_ok (as_slots s)" using ok by (simp add: act_ok_def)
    then have "map_ok (as_slots t)" using sl fold_put_absent(2) by auto
    moreover have "row_ok x t r" if "row_ok x s r" for r using that rows slots unfolding row_ok_def by simp
    moreover have "canonical x \<longrightarrow> (\<forall>p\<in>set (as_aliases t). canonicalRecipient x (fst p) = fst p)"
      using fold_put_set[of _ "hd linked" linked "as_aliases s"] canonical_linked ok unfolding al act_ok_def by blast
    ultimately show ?thesis using ok rows by (simp add: act_ok_def)
  qed
  define s1 where "s1 = s\<lparr>as_aliases := fold (\<lambda>a. map_put a (hd linked)) linked (as_aliases s)\<rparr>"
  define actions where "actions = first_seen (List.map_filter (map_of (as_slots s)) linked)"
  define reasons where "reasons = first_seen (List.map_filter (map_of (as_holds s)) linked @ (if length actions > 1 then [conflict_reason] else []))"
  define s2 where "s2 = (case actions of [a] \<Rightarrow> s1\<lparr>as_slots := fold (\<lambda>r. put_absent r a) linked (as_slots s1)\<rparr> | _ \<Rightarrow> s1)"
  define s3 where "s3 = (if reasons = [] then s2 else hold_all (take 1000 (join_with ''; '' reasons)) linked s2)"
  have s2: "as_rows s2 = as_rows s" "as_events s2 = as_events s" "as_dispatches s2 = as_dispatches s" "as_aliases s2 = fold (\<lambda>a. map_put a (hd linked)) linked (as_aliases s)"
    by (simp_all add: s2_def s1_def split: list.split)
  have s2_slots: "as_slots s2 = as_slots s \<or> (\<exists>a. as_slots s2 = fold (\<lambda>r. put_absent r a) linked (as_slots s))"
    by (auto simp: s2_def s1_def split: list.split)
  have "act_ok x s2" using step[OF s2 s2_slots] .
  then have "act_ok x s3" unfolding s3_def by (auto intro: same_ok)
  have link: "link_tx x now identities actor s = (if int (length linked) > 1000 then Some (Inl (act_fail ''invalid-input'' ''Recipient alias group too large'' None), s)
      else Some (Inr (), act_log now ''recipient-alias'' (if length actions > 1 then ''aliases-conflict-held'' else ''aliases-linked'') actor
          (mk_obj [(''linked'', JArr (map JStr linked)), (''actionIds'', JArr (map JStr actions))]) s3))"
    unfolding link_tx_def Let_def linked_def[symmetric] s3_def s2_def s1_def reasons_def actions_def ..
  have "act_ok x (act_log now ''recipient-alias'' (if length actions > 1 then ''aliases-conflict-held'' else ''aliases-linked'') actor detail s3)" for detail
    using \<open>act_ok x s3\<close> by (intro log_ok) simp_all
  then show ?thesis using ok by (simp add: linkRecipients_def link act_run_def)
qed

lemma act_apply_ok:
  assumes "act_ok x s"
  shows "act_ok x (act_apply x fresh now oper s)"
  using assms submit_ok claim_ok act_dispatch_ok finish_ok act_reconcile_ok recover_ok retry_ok followup_ok hold_ok release_ok link_ok
  by (cases oper) (simp_all add: act_apply_def)

lemma act_reachable_ok: "act_reachable x s \<Longrightarrow> act_ok x s"
  by (induction rule: act_reachable.induct) (simp_all add: act_empty_ok act_apply_ok)

section \<open>Outcomes that stay\<close>

text \<open>An action whose effect happened is still recorded as such.\<close>

definition keeps_success :: "act_store \<Rightarrow> act_store \<Rightarrow> bool" where
  "keeps_success s s' = (\<forall>r\<in>set (as_rows s). ar_state r = Act_succeeded \<longrightarrow> (\<exists>r'\<in>set (as_rows s'). ar_id r' = ar_id r \<and> ar_state r' = Act_succeeded \<and> ar_result r' = ar_result r))"

lemma keeps_same [simp]: "as_rows s' = as_rows s \<Longrightarrow> keeps_success s s'"
  by (auto simp: keeps_success_def)

lemma keeps_trans: "keeps_success a b \<Longrightarrow> keeps_success b c \<Longrightarrow> keeps_success a c"
  unfolding keeps_success_def by metis

lemma keeps_more: "as_rows s' = as_rows s @ rs \<Longrightarrow> keeps_success s s'"
  by (auto simp: keeps_success_def)

lemma keeps_update:
  assumes "act_ok x s" "act_row_of s k = Some row" "as_rows s' = map (\<lambda>r. if ar_id r = k then f r else r) (as_rows s)"
    and "ar_state row = Act_succeeded \<Longrightarrow> ar_id (f row) = k \<and> ar_state (f row) = Act_succeeded \<and> ar_result (f row) = ar_result row"
  shows "keeps_success s s'"
  unfolding keeps_success_def
proof (intro ballI impI)
  fix r assume r: "r \<in> set (as_rows s)" "ar_state r = Act_succeeded"
  show "\<exists>r'\<in>set (as_rows s'). ar_id r' = ar_id r \<and> ar_state r' = Act_succeeded \<and> ar_result r' = ar_result r"
  proof (cases "ar_id r = k")
    case True
    then have "r = row" using row_of_unique[OF assms(1,2) r(1)] by simp
    then show ?thesis using assms(3,4) r True by (intro bexI[of _ "f r"]) auto
  next
    case False
    then show ?thesis using assms(3) r by (intro bexI[of _ r]) auto
  qed
qed

lemma keeps_claim: "act_ok x s \<Longrightarrow> keeps_success s (snd (act_claim token now k actor s))"
proof (cases "act_row_of s k")
  case (Some row)
  assume ok: "act_ok x s"
  show ?thesis
  proof (cases "act_text_ok actor \<and> ar_state row = Act_accepted \<and> \<not> any_held (ar_recipients row) s")
    case True
    then show ?thesis using Some
      by (intro keeps_update[OF ok Some, of _ "claimed_row now token (ar_revision row + 1)"]) (simp_all add: act_claim_def Let_def act_update_def)
  qed (use Some in \<open>auto simp: act_claim_def\<close>)
qed (simp add: act_claim_def)

lemma keeps_dispatch: "keeps_success s (snd (act_dispatch now t s))"
  by (intro keeps_same) (simp add: act_dispatch_def split: option.split)

lemma keeps_finish: "act_ok x s \<Longrightarrow> keeps_success s (snd (act_finish now t outcome result evidence s))"
proof (cases "act_row_of s (at_id t)")
  case (Some row)
  assume ok: "act_ok x s"
  show ?thesis
  proof (cases "ticket_current t row")
    case True
    then have other: "ar_state row \<noteq> Act_succeeded" by (simp add: ticket_current_def)
    have "as_rows (snd (act_finish now t outcome result evidence s)) = as_rows s
        \<or> (\<exists>encoded. as_rows (snd (act_finish now t outcome result evidence s)) = map (\<lambda>r. if ar_id r = at_id t then finished_row now outcome encoded evidence r else r) (as_rows s))"
      using Some row_of[OF Some] by (auto simp: act_finish_def Let_def act_update_def free_slots_def split: option.split)
    then show ?thesis using keeps_update[OF ok Some] other by auto
  next
    case False
    then show ?thesis using Some by (intro keeps_same) (simp add: act_finish_def split: option.split)
  qed
next
  case None
  then show ?thesis by (intro keeps_same) (simp add: act_finish_def split: option.split)
qed

lemma keeps_reconcile: "act_ok x s \<Longrightarrow> keeps_success s (snd (act_reconcile now k expected d evidence actor s))"
proof (cases "act_row_of s k")
  case (Some row)
  assume ok: "act_ok x s"
  show ?thesis
  proof (cases "evidenceValid evidence \<and> act_text_ok actor \<and> ar_revision row = expected \<and> ar_state row \<noteq> Act_inflight \<and> is_ok (decided d evidence row)")
    case True
    then obtain st resolved where d: "decided d evidence row = Inr (st, resolved)" by (auto elim: is_okE)
    have "as_rows (snd (act_reconcile now k expected d evidence actor s)) = map (\<lambda>r. if ar_id r = k then settled_row now st resolved evidence r else r) (as_rows s)"
      using True Some d by (simp add: act_reconcile_def Let_def act_update_def free_slots_def)
    then show ?thesis using decided_cases(5)[OF d] True row_of[OF Some] by (intro keeps_update[OF ok Some, of _ "settled_row now st resolved evidence"]) (simp_all add: settled_row_def)
  next
    case False
    then have "as_rows (snd (act_reconcile now k expected d evidence actor s)) = as_rows s"
      using Some by (cases "decided d evidence row") (auto simp: act_reconcile_def)
    then show ?thesis by (rule keeps_same)
  qed
qed (simp add: act_reconcile_def)

lemma keeps_recover: "act_ok x s \<Longrightarrow> keeps_success s (snd (act_recover now k expected evidence actor s))"
proof (cases "act_row_of s k")
  case (Some row)
  assume ok: "act_ok x s"
  show ?thesis
  proof (cases "evidenceValid evidence \<and> avd_kind evidence = Operator_observation \<and> act_text_ok actor \<and> ar_revision row = expected \<and> ar_state row = Act_inflight")
    case True
    then show ?thesis using Some by (intro keeps_update[OF ok Some, of _ "recovered_row now evidence"]) (simp_all add: act_recover_def act_update_def)
  next
    case False
    then show ?thesis using Some by (intro keeps_same) (auto simp: act_recover_def)
  qed
qed (simp add: act_recover_def)

lemma keeps_retry: "act_ok x s \<Longrightarrow> keeps_success s (snd (act_retryNoEffect x now k expected evidence actor s))"
proof (cases "act_row_of s k")
  case (Some row)
  assume ok: "act_ok x s"
  show ?thesis
  proof (rule retry_cases[OF Some, of x now expected evidence actor])
    fix slots
    assume "ar_state row = Act_failed" "act_retryNoEffect x now k expected evidence actor s = (Inr (retried_row now evidence row),
        act_log now k ''retry-no-effect'' actor (evidence_js evidence) ((act_update k (retried_row now evidence) s)\<lparr>as_slots := slots\<rparr>))"
    then show ?thesis by (intro keeps_update[OF ok Some, of _ "retried_row now evidence"]) (simp_all add: act_update_def)
  qed simp
qed (simp add: act_retryNoEffect_def retry_tx_def act_run_def)

lemma keeps_submit: "keeps_success s (snd (act_submit x fresh now i s))"
proof -
  have tx: "keeps_success s s'" if made: "submit_tx x fresh now key payload digest i s = Some (answer, s')" for key payload digest answer s'
  proof -
    have "as_rows s' = as_rows s \<or> (\<exists>row. as_rows s' = as_rows s @ [row])"
      using made unfolding submit_tx_def Let_def
      by (auto simp: prior_submission_def slot_submission_def create_action_def Let_def split: option.splits if_splits)
    then show ?thesis using keeps_more by auto
  qed
  have "keeps_success s (snd (act_run s (submit_tx x fresh now key payload digest i s)))" for key payload digest
  proof (cases "submit_tx x fresh now key payload digest i s")
    case (Some res)
    then show ?thesis using tx by (cases res) (simp add: act_run_def)
  qed (simp add: act_run_def)
  then show ?thesis unfolding act_submit_def Let_def by (auto split: option.split)
qed

lemma keeps_swap:
  assumes "act_ok x s" "act_row_of s prior = Some row"
  shows "keeps_success s (snd (followup_swap x fresh now prior linked evidence s))"
proof -
  let ?t = "free_slots prior (act_update prior (superseded_row now) s)"
  have t: "keeps_success s ?t" using row_of[OF assms(2)] by (intro keeps_update[OF assms, of _ "superseded_row now"]) (simp_all add: free_slots_def act_update_def superseded_row_def)
  obtain answer s' where sub: "act_submit x fresh now linked ?t = (answer, s')" by fastforce
  then have s': "keeps_success s s'" using keeps_trans[OF t] keeps_submit[of ?t x fresh now linked] by simp
  show ?thesis
  proof (cases "\<exists>r. answer = Inr (r, True)")
    case True
    then show ?thesis using sub keeps_trans[OF s'] by (auto simp: followup_swap_def)
  next
    case False
    then have "snd (followup_swap x fresh now prior linked evidence s) = s" using sub by (auto simp: followup_swap_def split: sum.split prod.split bool.split)
    then show ?thesis by simp
  qed
qed

lemma keeps_followup: "act_ok x s \<Longrightarrow> keeps_success s (snd (act_followup x fresh now prior expected i evidence s))"
proof (cases "act_row_of s prior")
  case (Some row)
  assume ok: "act_ok x s"
  show ?thesis using followup_cases[OF Some, of x fresh now expected i evidence] keeps_submit[of s x fresh now "followup_input prior i"]
      keeps_swap[OF ok Some, of fresh now "followup_input prior i" evidence] keeps_same[OF refl, of s] by metis
qed (simp add: act_followup_def followup_tx_def act_run_def)

lemma keeps_release: "keeps_success s (snd (act_releaseRecipient x now recipient evidence actor s))"
proof -
  have "ar_id (unheld now t r) = ar_id r" "ar_state r = Act_succeeded \<Longrightarrow> unheld now t r = r" for t r by (simp_all add: unheld_def)
  then show ?thesis unfolding keeps_success_def act_releaseRecipient_def Let_def by auto
qed

lemma keeps_link: "keeps_success s (snd (linkRecipients x now identities actor s))"
proof (intro keeps_same)
  have two: "as_rows (case actions of [a] \<Rightarrow> t\<lparr>as_slots := f a\<rparr> | _ \<Rightarrow> t) = as_rows t" for actions :: "string list" and t :: act_store and f
    by (simp split: list.split)
  have "as_rows (snd (act_run s (link_tx x now identities actor s))) = as_rows s"
    unfolding link_tx_def Let_def act_run_def by (simp add: two)
  then show "as_rows (snd (linkRecipients x now identities actor s)) = as_rows s" by (simp add: linkRecipients_def)
qed

lemma keeps_hold: "keeps_success s (snd (act_holdRecipient x now recipient reason actor s))"
  by (intro keeps_same) (simp add: act_holdRecipient_def)

lemma act_apply_keeps: "act_ok x s \<Longrightarrow> keeps_success s (act_apply x fresh now oper s)"
  using keeps_claim keeps_dispatch keeps_finish keeps_reconcile keeps_recover keeps_retry keeps_submit keeps_followup keeps_release keeps_link keeps_hold
  by (cases oper) (simp_all add: act_apply_def)

section \<open>Properties\<close>

text \<open>C2: an external action enters provider dispatch a second time only after evidence that it had no effect was recorded for it in between, whatever is submitted, claimed, abandoned, recovered, held, released or followed up.\<close>

theorem resend_needs_proof:
  assumes "act_reachable x s" "i < j" "j < length (as_events s)" "is_dispatch k (as_events s ! i)" "is_dispatch k (as_events s ! j)"
  shows "\<exists>m. i < m \<and> m < j \<and> is_retry k (as_events s ! m)"
  using act_reachable_ok[OF assms(1)] assms(2-5) unfolding act_ok_def spaced_def by blast


text \<open>C11: an action counts as succeeded only on a provider's receipt, and as failed before its effect only on a provider's rejection, each recorded with it; and what succeeded stays so with its result under every operation.\<close>

theorem outcome_proved_and_final:
  assumes "act_reachable x s" "r \<in> set (as_rows s)"
  shows "(ar_state r = Act_succeeded \<longrightarrow> effect_proved (ar_id r) (as_events s)) \<and> (ar_state r = Act_failed \<longrightarrow> no_effect_proved (ar_id r) (as_events s))
    \<and> (ar_state r = Act_succeeded \<longrightarrow> (\<exists>r'\<in>set (as_rows (act_apply x fresh now oper s)). ar_id r' = ar_id r \<and> ar_state r' = Act_succeeded \<and> ar_result r' = ar_result r))"
proof -
  have "row_ok x s r" using act_reachable_ok[OF assms(1)] assms(2) by (simp add: act_ok_def)
  moreover have "ar_state r = Act_succeeded \<longrightarrow> (\<exists>r'\<in>set (as_rows (act_apply x fresh now oper s)). ar_id r' = ar_id r \<and> ar_state r' = Act_succeeded \<and> ar_result r' = ar_result r)"
    using act_apply_keeps[OF act_reachable_ok[OF assms(1)], of fresh now oper] assms(2) unfolding keeps_success_def by blast
  ultimately show ?thesis unfolding row_ok_def by blast
qed

section \<open>An environment in which names are stable\<close>

text \<open>Lower case for ASCII and no normalisation, as for names in ASCII.\<close>

definition plain_text :: act_text where
  "plain_text = \<lparr>tx_nfkc = (\<lambda>t. t), tx_lower = map lower, tx_hash = (\<lambda>t. t)\<rparr>"

lemma trim_tight: "list_all (\<lambda>c. \<not> js_space c) t \<Longrightarrow> js_trim t = t"
proof -
  assume "list_all (\<lambda>c. \<not> js_space c) t"
  then have all: "\<forall>c\<in>set t. \<not> js_space c" by (simp add: list_all_iff)
  then have "dropWhile js_space t = t" by (cases t) simp_all
  moreover have "rev t = [] \<or> \<not> js_space (hd (rev t))" using all by (metis hd_in_set set_rev)
  then have "dropWhile js_space (rev t) = rev t" by (cases "rev t") simp_all
  ultimately show ?thesis by (simp add: js_trim_def)
qed

lemma trim_trim [simp]: "js_trim (js_trim t) = js_trim t"
proof -
  define u where "u = dropWhile js_space t"
  define v where "v = dropWhile js_space (rev u)"
  have last: "v = [] \<or> \<not> js_space (hd v)" using hd_dropWhile[of js_space "rev u"] by (cases "v = []") (simp_all only: v_def simp_thms)
  obtain pre where pre: "rev u = pre @ v" unfolding v_def using takeWhile_dropWhile_id[of js_space "rev u"] that by metis
  then have u: "u = rev v @ rev pre" by (metis rev_append rev_rev_ident)
  have "rev v = [] \<or> \<not> js_space (hd (rev v))"
  proof (cases "rev v = []")
    case False
    then have "u \<noteq> []" "hd u = hd (rev v)" using u by simp_all
    then show ?thesis using hd_dropWhile[of js_space t] by (simp add: u_def)
  qed simp
  then have "dropWhile js_space (rev v) = rev v" by (cases "rev v") simp_all
  moreover have "dropWhile js_space v = v" using last by (cases v) simp_all
  ultimately show ?thesis by (simp add: js_trim_def u_def[symmetric] v_def[symmetric])
qed

lemma lower_char: "mail_char c \<Longrightarrow> mail_char (lower c)" "lower (lower c) = lower c"
proof -
  have "lower c = c \<or> (97 \<le> (of_char (lower c) :: nat) \<and> (of_char (lower c) :: nat) \<le> 122)"
    by (auto simp: lower_def Let_def)
  then consider "lower c = c" | "97 \<le> (of_char (lower c) :: nat)" "(of_char (lower c) :: nat) \<le> 122" by blast
  then show "mail_char c \<Longrightarrow> mail_char (lower c)"
  proof cases
    case 2
    have "lower c \<noteq> d" if "(of_char d :: nat) < 97 \<or> 122 < (of_char d :: nat)" for d using 2 that by auto
    then show ?thesis by (simp add: mail_char_def js_space_def)
  qed simp
  show "lower (lower c) = lower c" by (auto simp: lower_def Let_def)
qed

lemma phone_chars:
  assumes "is_phone s"
  shows "\<forall>c\<in>set s. \<not> phone_noise c \<and> \<not> js_space c"
proof -
  have "\<not> phone_noise c" if "is_digit c" for c
  proof -
    have "48 \<le> (of_char c :: nat)" "(of_char c :: nat) \<le> 57" using that by (simp_all add: is_digit_def)
    moreover have "(of_char d :: nat) < 48 \<or> 57 < (of_char d :: nat)" if "phone_noise d" for d
      using that by (auto simp: phone_noise_def js_space_def)
    ultimately show ?thesis by (meson leD)
  qed
  moreover have "\<not> phone_noise c" if "c \<in> set ''+123456789''" for c using that by (auto simp: phone_noise_def js_space_def)
  ultimately show ?thesis using assms by (auto simp: is_phone_def phone_noise_def list_all_iff split: list.splits)
qed

lemma mail_found:
  assumes "list_all mail_char m" "CHR ''@'' \<in> set (butlast (tl m))"
  shows "mail_of m = Some m"
proof -
  have all: "\<forall>c\<in>set m. c \<noteq> CHR ''<'' \<and> c \<noteq> CHR ''>''" using assms(1) by (auto simp: list_all_iff mail_char_def)
  have name: "takeWhile (\<lambda>c. c \<noteq> CHR ''<'') (rev m) = rev m" "dropWhile (\<lambda>c. c \<noteq> CHR ''<'') (rev m) = []" using all by simp_all
  have "m \<noteq> []" using assms(2) by auto
  then have "last m \<noteq> CHR ''>''" using all by (metis last_in_set)
  then show ?thesis unfolding mail_of_def Let_def name using assms by simp
qed

lemma mail_of_address: "mail_of t = Some m \<Longrightarrow> list_all mail_char m \<and> CHR ''@'' \<in> set (butlast (tl m))"
  by (auto simp: mail_of_def Let_def split: if_splits)

lemma plain_canonical: "canonical plain_text"
  unfolding canonical_def
proof
  fix t
  let ?raw = "js_trim t"
  show "canonicalRecipient plain_text (canonicalRecipient plain_text t) = canonicalRecipient plain_text t"
  proof (cases "is_phone (phone_text ?raw)")
    case True
    define p where "p = phone_text ?raw"
    have p: "is_phone p" "\<forall>c\<in>set p. \<not> phone_noise c \<and> \<not> js_space c" using True phone_chars by (simp_all add: p_def)
    have once: "canonicalRecipient plain_text t = ''tel:'' @ p" using True by (simp add: canonicalRecipient_def Let_def p_def)
    have "js_trim (''tel:'' @ p) = ''tel:'' @ p" using p(2) by (intro trim_tight) (simp add: list_all_iff js_space_def)
    moreover have "phone_text (''tel:'' @ p) = p" using p(2) by (simp add: phone_text_def lower_def)
    ultimately show ?thesis unfolding once using p(1) by (simp add: canonicalRecipient_def Let_def)
  next
    case no_phone: False
    show ?thesis
    proof (cases "mail_of (strip_prefix ''mailto:'' ?raw)")
      case None
      then show ?thesis using no_phone by (simp add: canonicalRecipient_def Let_def plain_text_def)
    next
      case (Some m)
      define w where "w = map lower m"
      have m: "list_all mail_char m" "CHR ''@'' \<in> set (butlast (tl m))" using mail_of_address[OF Some] by auto
      have once: "canonicalRecipient plain_text t = ''mailto:'' @ w" using no_phone Some by (simp add: canonicalRecipient_def Let_def plain_text_def w_def)
      have w: "list_all mail_char w" using m(1) lower_char(1) by (simp add: w_def list_all_iff)
      have "lower (CHR ''@'') \<in> lower ` set (butlast (tl m))" using m(2) by (rule imageI)
      then have "CHR ''@'' \<in> set (butlast (tl w))" by (simp add: w_def map_tl[symmetric] map_butlast[symmetric] lower_def)
      then have "mail_of w = Some w" using mail_found w by blast
      moreover have "js_trim (''mailto:'' @ w) = ''mailto:'' @ w" using w by (intro trim_tight) (auto simp: list_all_iff js_space_def mail_char_def)
      moreover have "\<not> is_phone (phone_text (''mailto:'' @ w))" by (simp add: phone_text_def lower_def is_phone_def phone_noise_def js_space_def split: list.split)
      moreover have "strip_prefix ''mailto:'' (''mailto:'' @ w) = w" by (simp add: strip_prefix_def lower_def)
      moreover have "map lower w = w" by (simp add: w_def lower_char(2))
      ultimately show ?thesis unfolding once by (simp add: canonicalRecipient_def Let_def plain_text_def)
    qed
  qed
qed

section \<open>Examples\<close>

definition sample_input :: "string \<Rightarrow> string \<Rightarrow> string \<Rightarrow> act_input" where
  "sample_input intent request recipient = \<lparr>ai_intent = intent, ai_recipients = [recipient], ai_transport = ''sms'', ai_payload = JStr ''hello'', ai_request = request, ai_thread = ''thread'', ai_authenticated = None\<rparr>"

definition sample_evidence :: "evidence_kind \<Rightarrow> act_evidence" where
  "sample_evidence kind = \<lparr>avd_kind = kind, avd_reference = ''ref'', avd_detail = ''seen''\<rparr>"

definition sample_acts :: "act_op list \<Rightarrow> act_store" where
  "sample_acts acts = fold (act_apply plain_text ''key'' 0) acts empty_actions"

lemma sample_acts_reachable: "act_reachable plain_text (sample_acts acts)"
proof -
  have "act_reachable plain_text s \<Longrightarrow> act_reachable plain_text (fold (act_apply plain_text ''key'' 0) acts s)" for s
    by (induction acts arbitrary: s) (simp_all add: act_stepped)
  then show ?thesis unfolding sample_acts_def using act_start by blast
qed

text \<open>Sent, rejected before any effect, retried on that proof, and sent again.\<close>

definition sample_resent :: act_store where
  "sample_resent = sample_acts [Op_submit (sample_input ''greet'' ''request'' ''ann@home''), Op_claim ''key'' ''worker'', Op_dispatch \<lparr>at_id = ''key'', at_token = ''key'', at_revision = 2\<rparr>,
     Op_finish \<lparr>at_id = ''key'', at_token = ''key'', at_revision = 2\<rparr> Act_failed JNull (sample_evidence Provider_rejection),
     Op_retry ''key'' 3 (sample_evidence Provider_rejection) ''worker'', Op_claim ''key'' ''worker'', Op_dispatch \<lparr>at_id = ''key'', at_token = ''key'', at_revision = 5\<rparr>,
     Op_finish \<lparr>at_id = ''key'', at_token = ''key'', at_revision = 5\<rparr> Act_succeeded JNull (sample_evidence Provider_receipt)]"

lemma resend_needs_proof_witness:
  "\<exists>m. 2 < m \<and> m < 6 \<and> is_retry ''key'' (as_events sample_resent ! m)"
proof -
  have "act_reachable plain_text sample_resent" unfolding sample_resent_def by (rule sample_acts_reachable)
  moreover have "map ax_event (as_events sample_resent) = [''submitted'', ''claimed'', ''provider-dispatch-entered'', ''failed-before-effect'', ''retry-no-effect'', ''claimed'', ''provider-dispatch-entered'', ''succeeded'']
      \<and> map ax_action (as_events sample_resent) = replicate 8 ''key''" by code_simp
  then have "length (as_events sample_resent) = 8" "map ax_event (as_events sample_resent) ! 2 = ''provider-dispatch-entered''" "map ax_event (as_events sample_resent) ! 6 = ''provider-dispatch-entered''"
      "map ax_action (as_events sample_resent) ! 2 = ''key''" "map ax_action (as_events sample_resent) ! 6 = ''key''"
    by (simp_all add: eval_nat_numeral flip: length_map[of ax_event])
  then have "6 < length (as_events sample_resent)" "is_dispatch ''key'' (as_events sample_resent ! 2)" "is_dispatch ''key'' (as_events sample_resent ! 6)"
    by (simp_all add: is_dispatch_def)
  ultimately show ?thesis using resend_needs_proof[of plain_text sample_resent 2 6 "''key''"] by simp
qed

text \<open>Two actions for two people, both unresolved.\<close>

definition sample_pair :: act_store where
  "sample_pair = fold (\<lambda>(k, oper). act_apply plain_text k 0 oper)
     [(''one'', Op_submit (sample_input ''greet'' ''first'' ''ann@home'')), (''two'', Op_submit (sample_input ''greet'' ''second'' ''bob@home''))] empty_actions"

lemma sample_pair_rows: "map ar_id (as_rows sample_pair) = [''one'', ''two''] \<and> map ar_resolved (as_rows sample_pair) = [False, False]"
  by code_simp


lemma outcome_proved_and_final_witness:
  "\<exists>r\<in>set (as_rows sample_resent). effect_proved (ar_id r) (as_events sample_resent)
    \<and> (\<exists>r'\<in>set (as_rows (act_apply plain_text ''other'' 1 (Op_reconcile ''key'' 6 No_effect_confirmed (sample_evidence Provider_rejection) ''worker'') sample_resent)).
         ar_id r' = ar_id r \<and> ar_state r' = Act_succeeded)"
proof -
  have reached: "act_reachable plain_text sample_resent" unfolding sample_resent_def by (rule sample_acts_reachable)
  have "map ar_state (as_rows sample_resent) = [Act_succeeded]" by code_simp
  then obtain r where r: "r \<in> set (as_rows sample_resent)" "ar_state r = Act_succeeded" by (auto simp: map_eq_Cons_conv)
  show ?thesis
    using outcome_proved_and_final[OF reached r(1), of "''other''" 1 "Op_reconcile ''key'' 6 No_effect_confirmed (sample_evidence Provider_rejection) ''worker''"] r by blast
qed

section \<open>Names that change when named again\<close>

text \<open>
  \<open>canonicalRecipient\<close> normalises last, after the patterns for numbers and addresses were tried. A number written with a
  superscript digit, which NFKC turns into a plain one, is therefore stored as that number but not in its canonical form,
  and the same number written plainly is another recipient: both actions are accepted.
\<close>

definition superscript_text :: act_text where
  "superscript_text = \<lparr>tx_nfkc = map (\<lambda>c. if c = CHR 0xB2 then CHR ''2'' else c), tx_lower = map lower, tx_hash = (\<lambda>t. t)\<rparr>"

definition sample_twice :: act_store where
  "sample_twice = fold (\<lambda>(k, oper). act_apply superscript_text k 0 oper)
     [(''one'', Op_submit (sample_input ''greet'' ''first'' (''+1555123456'' @ [CHR 0xB2]))), (''two'', Op_submit (sample_input ''remind'' ''second'' ''+15551234562''))] empty_actions"

theorem late_normalisation:
  "map ar_state (as_rows sample_twice) = [Act_accepted, Act_accepted] \<and> map ar_resolved (as_rows sample_twice) = [False, False]
    \<and> map (map (canonicalRecipient superscript_text) \<circ> ar_recipients) (as_rows sample_twice) = [[''tel:+15551234562''], [''tel:+15551234562'']]"
  by code_simp

end
