(* ===== verification/Memory_Store.thy ===== *)
theory Memory_Store
  imports Life_Store
begin

text \<open>
  Kenan's memory of people (\<open>packages/kenan-memory/src/store.ts\<close>): memories, the disclosures that account for what was read
  and said, sessions, and the admitted runs of root Kenan. Tables are lists in the order of their rows. The digests in
  primary keys stand for what they digest, so a row's key is a datatype here. Full-text matching, its ranking and the order of
  rows by time are arguments.
\<close>

section \<open>Rows\<close>

record mem_setting =
  ms_person :: string
  ms_thread :: "string option"
  ms_room :: "string option"

record mem_source =
  mo_said :: "string option"
  mo_acted :: "string option"
  mo_action :: "string option"
  mo_external :: "string option"

record mem_input =
  mi_text :: string
  mi_about :: "string list"
  mi_source :: mem_source
  mi_setting :: mem_setting
  mi_occurred :: "string option"
  mi_private :: bool

record mem_item =
  mm_id :: string
  mm_input :: mem_input
  mm_occurred :: string
  mm_recorded :: string
  mm_by :: string
  mm_stopped_at :: "string option"

record mem_row =
  mr_item :: mem_item
  mr_stopped :: bool

record mem_context =
  mx_thread :: string
  mx_turn :: string
  mx_room :: "string option"

datatype consent_kind = Consent_question | Consent_answer

datatype disclosure_id =
    Plain_disclosure string
  | Read_disclosure string string string
  | Consent_disclosure consent_kind string string
  | Status_disclosure string string
  | Notification_disclosure string string
  | Reply_disclosure string

record disclosure =
  di_id :: disclosure_id
  di_text :: string
  di_about :: "string list"
  di_to :: "string list"
  di_memories :: "string list option"
  di_setting :: mem_setting
  di_occurred :: string
  di_by :: string
  di_kind :: "string option"
  di_consent :: "string option"
  di_subject :: "string option"
  di_root :: "string option"
  di_turn :: "string option"
  di_final :: "string option"
  di_finalized :: "string option"
  di_private :: "bool option"

record disclosure_input =
  dn_text :: string
  dn_about :: "string list"
  dn_to :: "string list"
  dn_memories :: "string list option"
  dn_setting :: mem_setting
  dn_occurred :: "string option"

datatype mem_role = Person_role | Root_role

record mem_session =
  se_person :: string
  se_thread :: string
  se_role :: mem_role

record run_admission =
  ra_person :: string
  ra_thread :: string
  ra_recipients :: "string list"
  ra_subjects :: "string list"
  ra_id :: string
  ra_token :: string
  ra_room :: "string option"

record consent_resume =
  cr_root :: string
  cr_subject :: string
  cr_question :: string
  cr_answer :: string
  cr_consent :: string

record mem_store =
  st_memories :: "mem_row list"
  st_dedup :: "((string \<times> string) \<times> string) list"
  st_disclosures :: "disclosure list"
  st_sessions :: "(string \<times> mem_session) list"
  st_runs :: "(string \<times> run_admission) list"
  st_resumes :: "((string \<times> string) \<times> (consent_resume \<times> run_admission)) list"
  st_continued :: "(string \<times> string) list"

definition empty_memory :: mem_store where
  "empty_memory = \<lparr>st_memories = [], st_dedup = [], st_disclosures = [], st_sessions = [], st_runs = [], st_resumes = [], st_continued = []\<rparr>"

text \<open>
  What the store asks of its platform: the words of a query, full-text matching and its ranking over the indexed items, the
  places of items and disclosures in the order latest first, and the text of a disclosure's key.
\<close>

record mem_env =
  me_terms :: "string \<Rightarrow> string list"
  me_match :: "string list \<Rightarrow> mem_item \<Rightarrow> bool"
  me_rank :: "mem_item list \<Rightarrow> string list \<Rightarrow> mem_item \<Rightarrow> nat"
  me_recent :: "mem_item \<Rightarrow> nat"
  me_latest :: "disclosure \<Rightarrow> nat"
  me_name :: "disclosure_id \<Rightarrow> string"

record mem_error =
  mer_code :: string
  mer_message :: string

definition mem_fail :: "string \<Rightarrow> string \<Rightarrow> mem_error" where
  "mem_fail code message = \<lparr>mer_code = code, mer_message = message\<rparr>"

text \<open>The members of a list in the order they first appear: \<open>[...new Set(xs)]\<close>.\<close>

definition members :: "string list \<Rightarrow> string list" where
  "members xs = rev (remdups (rev xs))"

lemma set_members [simp]: "set (members xs) = set xs"
  by (simp add: members_def)

definition disclosure_of :: "disclosure_id \<Rightarrow> mem_store \<Rightarrow> disclosure option" where
  "disclosure_of k s = find (\<lambda>d. di_id d = k) (st_disclosures s)"

text \<open>An insert throws on a key that is present; an upsert replaces the row.\<close>

definition insert_disclosure :: "disclosure \<Rightarrow> mem_store \<Rightarrow> mem_store option" where
  "insert_disclosure d s = (if disclosure_of (di_id d) s = None then Some (s\<lparr>st_disclosures := st_disclosures s @ [d]\<rparr>) else None)"

definition upsert_disclosure :: "disclosure \<Rightarrow> mem_store \<Rightarrow> mem_store" where
  "upsert_disclosure d s = (if disclosure_of (di_id d) s = None then s\<lparr>st_disclosures := st_disclosures s @ [d]\<rparr>
     else s\<lparr>st_disclosures := map (\<lambda>e. if di_id e = di_id d then d else e) (st_disclosures s)\<rparr>)"

section \<open>Memories\<close>

definition row_with :: "string \<Rightarrow> mem_store \<Rightarrow> mem_row option" where
  "row_with k s = find (\<lambda>r. mm_id (mr_item r) = k) (st_memories s)"

definition external_id :: "mem_input \<Rightarrow> string option" where
  "external_id i = (case mo_external (mi_source i) of None \<Rightarrow> None | Some e \<Rightarrow> if e = [] then None else Some e)"

definition new_memory_item :: "string \<Rightarrow> string \<Rightarrow> string \<Rightarrow> mem_input \<Rightarrow> mem_item" where
  "new_memory_item fresh now person i = \<lparr>mm_id = fresh, mm_input = i, mm_occurred = (case mi_occurred i of None \<Rightarrow> now | Some t \<Rightarrow> t),
     mm_recorded = now, mm_by = person, mm_stopped_at = None\<rparr>"

datatype write_answer = Written mem_item | Was_forgotten string

definition insert_memory :: "string \<Rightarrow> string \<Rightarrow> string \<Rightarrow> mem_input \<Rightarrow> mem_store \<Rightarrow> (write_answer \<times> mem_store) option" where
  "insert_memory fresh now person i s = (if row_with fresh s \<noteq> None then None
     else Some (Written (new_memory_item fresh now person i), s\<lparr>st_memories := st_memories s @ [\<lparr>mr_item = new_memory_item fresh now person i, mr_stopped = False\<rparr>],
       st_dedup := (case external_id i of None \<Rightarrow> st_dedup s | Some e \<Rightarrow> map_put (person, e) fresh (st_dedup s))\<rparr>))"

text \<open>The same external event is recorded once, and not again once it was forgotten.\<close>

definition mem_write :: "string \<Rightarrow> string \<Rightarrow> string \<Rightarrow> mem_input \<Rightarrow> mem_store \<Rightarrow> (write_answer \<times> mem_store) option" where
  "mem_write fresh now person i s = (case (case external_id i of None \<Rightarrow> None | Some e \<Rightarrow> map_of (st_dedup s) (person, e)) of
     None \<Rightarrow> insert_memory fresh now person i s
   | Some k \<Rightarrow> (case row_with k s of
       Some r \<Rightarrow> Some (if mr_stopped r then Was_forgotten k else Written (mr_item r), s)
     | None \<Rightarrow> Some (Was_forgotten k, s)))"

text \<open>What a person may see: their own memories about themselves alone, and actions that concern them and are not private.\<close>

definition own_memory :: "string \<Rightarrow> mem_item \<Rightarrow> bool" where
  "own_memory person m = ((mm_by m = person \<and> (\<forall>a\<in>set (mi_about (mm_input m)). a = person))
     \<or> (mo_action (mi_source (mm_input m)) \<noteq> None \<and> \<not> mi_private (mm_input m) \<and> person \<in> set (mi_about (mm_input m))))"

definition may_read :: "mem_role \<Rightarrow> string \<Rightarrow> mem_item \<Rightarrow> bool" where
  "may_read role person m = (case role of Person_role \<Rightarrow> own_memory person m | Root_role \<Rightarrow> True)"

text \<open>A stored row of an item; a transaction that throws is \<open>None\<close>.\<close>

definition seen_rows :: "mem_role \<Rightarrow> string \<Rightarrow> mem_store \<Rightarrow> mem_item list" where
  "seen_rows role person s = filter (may_read role person) (map mr_item (filter (\<lambda>r. \<not> mr_stopped r) (st_memories s)))"

section \<open>Reads and their accounting\<close>

fun listed :: "string list \<Rightarrow> string" where
  "listed [] = []"
| "listed [x] = x"
| "listed (x # y # ys) = x @ '', '' @ listed (y # ys)"

record read_report =
  rr_person :: string
  rr_context :: mem_context
  rr_about :: "string list"
  rr_others :: bool

definition read_text :: "string list \<Rightarrow> string list \<Rightarrow> string \<Rightarrow> mem_context \<Rightarrow> string" where
  "read_text ids subjects person c = ''Consulted '' @ listed ids @ '' about '' @ listed subjects @ '' while speaking with '' @ person @ '' in ''
     @ (case mx_room c of None \<Rightarrow> mx_thread c | Some room \<Rightarrow> room)"

definition read_id :: "string \<Rightarrow> mem_context \<Rightarrow> disclosure_id" where
  "read_id person c = Read_disclosure person (mx_thread c) (mx_turn c)"

definition old_about :: "disclosure option \<Rightarrow> string list" where
  "old_about old = (case old of None \<Rightarrow> [] | Some d \<Rightarrow> di_about d)"

definition old_memories :: "disclosure option \<Rightarrow> string list" where
  "old_memories old = (case old of None \<Rightarrow> [] | Some d \<Rightarrow> (case di_memories d of None \<Rightarrow> [] | Some ids \<Rightarrow> ids))"

definition run_setting :: "string \<Rightarrow> string \<Rightarrow> string option \<Rightarrow> mem_setting" where
  "run_setting person thread room = \<lparr>ms_person = person, ms_thread = Some thread, ms_room = room\<rparr>"

text \<open>The account of the reads of a turn, which one row keeps.\<close>

definition read_log :: "string \<Rightarrow> string \<Rightarrow> mem_context \<Rightarrow> (string \<times> string list) list \<Rightarrow> disclosure option \<Rightarrow> disclosure" where
  "read_log now person c items old =
     (let subjects = members (old_about old @ members (concat (map snd items))); ids = members (old_memories old @ map fst items) in
      \<lparr>di_id = read_id person c, di_text = read_text ids subjects person c, di_about = subjects, di_to = [person], di_memories = Some ids,
       di_setting = run_setting person (mx_thread c) (mx_room c), di_occurred = (case old of None \<Rightarrow> now | Some d \<Rightarrow> di_occurred d), di_by = person,
       di_kind = Some ''memory-read'', di_consent = Option.bind old di_consent, di_subject = Option.bind old di_subject, di_root = Option.bind old di_root,
       di_turn = Some (mx_turn c), di_final = Option.bind old di_final, di_finalized = Option.bind old di_finalized, di_private = Option.bind old di_private\<rparr>)"

definition touches_others :: "string \<Rightarrow> mem_context \<Rightarrow> (string \<times> string list) list \<Rightarrow> bool" where
  "touches_others person c items = (mx_room c \<noteq> None \<or> (\<exists>a\<in>set (concat (map snd items)). a \<noteq> person))"

definition report :: "string \<Rightarrow> string \<Rightarrow> mem_context \<Rightarrow> (string \<times> string list) list \<Rightarrow> mem_store \<Rightarrow> read_report \<times> mem_store" where
  "report now person c items s =
     (\<lparr>rr_person = person, rr_context = c, rr_about = members (concat (map snd items)), rr_others = touches_others person c items\<rparr>,
      if items \<noteq> [] \<and> touches_others person c items then upsert_disclosure (read_log now person c items (disclosure_of (read_id person c) s)) s else s)"

definition item_entry :: "mem_item \<Rightarrow> string \<times> string list" where
  "item_entry m = (mm_id m, mi_about (mm_input m))"

definition within_limit :: "int option \<Rightarrow> int \<Rightarrow> nat" where
  "within_limit limit usual = nat (min 100 (max 1 (case limit of None \<Rightarrow> usual | Some l \<Rightarrow> l)))"

definition about_any :: "string list option \<Rightarrow> mem_item \<Rightarrow> bool" where
  "about_any about m = (case about of None \<Rightarrow> True | Some [] \<Rightarrow> True | Some as \<Rightarrow> (\<exists>a\<in>set (mi_about (mm_input m)). a \<in> set as))"

definition found_rows :: "mem_env \<Rightarrow> mem_role \<Rightarrow> string \<Rightarrow> string list \<Rightarrow> string list option \<Rightarrow> mem_store \<Rightarrow> mem_item list" where
  "found_rows e role person terms about s =
     (let rows = filter (\<lambda>m. (terms = [] \<or> me_match e terms m) \<and> about_any about m) (seen_rows role person s); recent = sort_key (me_recent e) rows in
      if terms = [] then recent else sort_key (me_rank e (seen_rows Root_role person s) terms) recent)"

definition mem_search :: "mem_env \<Rightarrow> string \<Rightarrow> mem_role \<Rightarrow> string \<Rightarrow> mem_context \<Rightarrow> string \<Rightarrow> string list option \<Rightarrow> int option \<Rightarrow> mem_store
    \<Rightarrow> (mem_item list \<times> read_report) \<times> mem_store" where
  "mem_search e now role person c query about limit s =
     (let terms = me_terms e query;
          items = (if \<not> blank query \<and> terms = [] then [] else take (within_limit limit 20) (found_rows e role person terms about s));
          (r, s') = report now person c (map item_entry items) s in ((items, r), s'))"

definition read_rows :: "mem_role \<Rightarrow> string \<Rightarrow> string list \<Rightarrow> mem_store \<Rightarrow> mem_item list" where
  "read_rows role person ids s = concat (map (\<lambda>k. case find (\<lambda>m. mm_id m = k) (seen_rows role person s) of None \<Rightarrow> [] | Some m \<Rightarrow> [m]) ids)"

definition mem_read :: "string \<Rightarrow> mem_role \<Rightarrow> string \<Rightarrow> mem_context \<Rightarrow> string list \<Rightarrow> mem_store \<Rightarrow> (mem_item list \<times> read_report) \<times> mem_store" where
  "mem_read now role person c ids s =
     (let items = read_rows role person ids s; (r, s') = report now person c (map item_entry items) s in ((items, r), s'))"

section \<open>Forgetting\<close>

datatype forget_mode = Delete_memory | Stop_using

definition stop_row :: "string \<Rightarrow> mem_row \<Rightarrow> mem_row" where
  "stop_row now r = r\<lparr>mr_item := (mr_item r)\<lparr>mm_stopped_at := Some now\<rparr>, mr_stopped := True\<rparr>"

definition forget_row :: "forget_mode \<Rightarrow> string \<Rightarrow> string \<Rightarrow> mem_row list \<Rightarrow> mem_row list" where
  "forget_row mode now k rows = (case mode of
     Delete_memory \<Rightarrow> filter (\<lambda>r. mm_id (mr_item r) \<noteq> k) rows
   | Stop_using \<Rightarrow> map (\<lambda>r. if mm_id (mr_item r) = k then stop_row now r else r) rows)"

fun mem_forget :: "forget_mode \<Rightarrow> string \<Rightarrow> string list \<Rightarrow> mem_store \<Rightarrow> string list \<times> mem_store" where
  "mem_forget mode now [] s = ([], s)"
| "mem_forget mode now (k # ks) s = (case row_with k s of
     None \<Rightarrow> mem_forget mode now ks s
   | Some r \<Rightarrow> (let (gone, s') = mem_forget mode now ks (s\<lparr>st_memories := forget_row mode now k (st_memories s)\<rparr>) in (k # gone, s')))"

text \<open>A person may forget what they recorded about themselves alone.\<close>

definition canForget :: "string \<Rightarrow> string list \<Rightarrow> mem_store \<Rightarrow> bool" where
  "canForget person ids s = list_all (\<lambda>k. list_ex (\<lambda>r. mm_id (mr_item r) = k \<and> mm_by (mr_item r) = person
     \<and> (\<forall>a\<in>set (mi_about (mm_input (mr_item r))). a = person)) (st_memories s)) ids"

section \<open>Disclosures\<close>

definition disclose :: "string \<Rightarrow> string \<Rightarrow> string \<Rightarrow> disclosure_input \<Rightarrow> mem_store \<Rightarrow> (disclosure \<times> mem_store) option" where
  "disclose fresh now person i s =
     (let d = \<lparr>di_id = Plain_disclosure fresh, di_text = dn_text i, di_about = dn_about i, di_to = dn_to i, di_memories = dn_memories i, di_setting = dn_setting i,
        di_occurred = (case dn_occurred i of None \<Rightarrow> now | Some t \<Rightarrow> t), di_by = person, di_kind = None, di_consent = None, di_subject = None, di_root = None,
        di_turn = None, di_final = None, di_finalized = None, di_private = None\<rparr> in
      map_option (Pair d) (insert_disclosure d s))"

definition seen_disclosures :: "mem_role \<Rightarrow> string \<Rightarrow> string \<Rightarrow> mem_store \<Rightarrow> disclosure list" where
  "seen_disclosures role person subject s = filter (\<lambda>d. subject \<in> set (di_about d) \<and> (role = Person_role \<longrightarrow> (\<forall>a\<in>set (di_about d). a = person))) (st_disclosures s)"

definition disclosure_entry :: "mem_env \<Rightarrow> disclosure \<Rightarrow> string \<times> string list" where
  "disclosure_entry e d = (me_name e (di_id d), di_about d)"

definition mem_disclosures :: "mem_env \<Rightarrow> string \<Rightarrow> mem_role \<Rightarrow> string \<Rightarrow> mem_context \<Rightarrow> int option \<Rightarrow> string option \<Rightarrow> mem_store
    \<Rightarrow> (disclosure list \<times> read_report) \<times> mem_store" where
  "mem_disclosures e now role person c limit subject s =
     (let ds = take (within_limit limit 50) (sort_key (me_latest e) (seen_disclosures role person (case subject of None \<Rightarrow> person | Some a \<Rightarrow> a) s));
          (r, s') = report now person c (map (disclosure_entry e) ds) s in ((ds, r), s'))"

definition finalize :: "string \<Rightarrow> string \<Rightarrow> mem_context \<Rightarrow> string \<Rightarrow> mem_store \<Rightarrow> disclosure_id list \<times> mem_store" where
  "finalize now person c reply s = (case disclosure_of (read_id person c) s of
     None \<Rightarrow> ([], s)
   | Some d \<Rightarrow> ([read_id person c], upsert_disclosure (d\<lparr>di_final := Some reply, di_finalized := Some now\<rparr>) s))"

end
