(* ===== verification/Memory_Root.thy ===== *)
theory Memory_Root
  imports Memory_Store Js_Values
begin

text \<open>
  Sessions and the admitted runs of root Kenan (\<open>packages/kenan-memory/src/store.ts\<close>, from \<open>session\<close> on): admission, the logged questions
  and answers of a consent, notifications, status notices, continuation after a consent and the accounted reply. Each operation
  is a transaction: \<open>None\<close> is a throw, which rolls it back.
\<close>

text \<open>Two audiences are the same people, in any order; no name holds the separator the code joins the sorted names with.\<close>

definition same_people :: "string list \<Rightarrow> string list \<Rightarrow> bool" where
  "same_people a b = (sort a = sort b)"

lemma same_people_set: "same_people a b \<Longrightarrow> set a = set b"
  unfolding same_people_def by (metis set_sort)

section \<open>Sessions and admission\<close>

definition new_session :: "string \<Rightarrow> string \<Rightarrow> string \<Rightarrow> mem_role \<Rightarrow> mem_store \<Rightarrow> mem_store option" where
  "new_session token person thread role s = (if map_of (st_sessions s) token \<noteq> None then None
     else Some (s\<lparr>st_sessions := map_put token \<lparr>se_person = person, se_thread = thread, se_role = role\<rparr> (st_sessions s)\<rparr>))"

definition resolveSession :: "string \<Rightarrow> mem_store \<Rightarrow> mem_session option" where
  "resolveSession token s = map_of (st_sessions s) token"

definition rootAdmission :: "string \<Rightarrow> mem_store \<Rightarrow> run_admission option" where
  "rootAdmission k s = map_of (st_runs s) k"

definition new_admission :: "string \<Rightarrow> string \<Rightarrow> string \<Rightarrow> string \<Rightarrow> string list \<Rightarrow> string list \<Rightarrow> string option \<Rightarrow> run_admission" where
  "new_admission k token person thread recipients subjects room =
     \<lparr>ra_person = person, ra_thread = thread, ra_recipients = recipients, ra_subjects = subjects, ra_id = k, ra_token = token, ra_room = room\<rparr>"

definition admitRoot :: "string \<Rightarrow> string \<Rightarrow> string \<Rightarrow> string \<Rightarrow> string list \<Rightarrow> string list \<Rightarrow> string option \<Rightarrow> mem_store \<Rightarrow> (run_admission \<times> mem_store) option" where
  "admitRoot k token person thread recipients subjects room s = (case new_session token person k Root_role s of
     None \<Rightarrow> None
   | Some s' \<Rightarrow> (let a = new_admission k token person thread recipients subjects room in
       if map_of (st_runs s') k \<noteq> None then None else Some (a, s'\<lparr>st_runs := map_put k a (st_runs s')\<rparr>)))"

definition end_session :: "string \<Rightarrow> mem_store \<Rightarrow> mem_store" where
  "end_session token s = s\<lparr>st_sessions := map_del token (st_sessions s)\<rparr>"

section \<open>Accounts of what root says\<close>

type_synonym 'a root_result = "((mem_error + 'a) \<times> mem_store) option"

definition root_refused :: "string \<Rightarrow> mem_store \<Rightarrow> 'a root_result" where
  "root_refused message s = Some (Inl (mem_fail ''invalid-request'' message), s)"

text \<open>A disclosure of root's on a run: its setting is the run's.\<close>

definition root_disclosure :: "disclosure_id \<Rightarrow> string \<Rightarrow> string \<Rightarrow> string \<Rightarrow> run_admission \<Rightarrow> string list \<Rightarrow> string list \<Rightarrow> disclosure" where
  "root_disclosure k kind now content a about to = \<lparr>di_id = k, di_text = content, di_about = about, di_to = to, di_memories = None,
     di_setting = run_setting (ra_person a) (ra_thread a) (ra_room a), di_occurred = now, di_by = ''kenan'', di_kind = Some kind, di_consent = None,
     di_subject = None, di_root = Some (ra_id a), di_turn = None, di_final = None, di_finalized = None, di_private = None\<rparr>"

definition logged :: "('b \<Rightarrow> 'a) \<Rightarrow> 'b \<Rightarrow> disclosure \<Rightarrow> mem_store \<Rightarrow> 'a root_result" where
  "logged f x d s = map_option (\<lambda>s'. (Inr (f x), s')) (insert_disclosure d s)"

definition consent_kind_text :: "consent_kind \<Rightarrow> string" where
  "consent_kind_text k = (case k of Consent_question \<Rightarrow> ''consent-question'' | Consent_answer \<Rightarrow> ''consent-answer'')"

definition consent_id :: "consent_kind \<Rightarrow> string \<Rightarrow> string \<Rightarrow> disclosure_id" where
  "consent_id k root consent = Consent_disclosure k root consent"

definition consent_entry :: "string \<Rightarrow> run_admission \<Rightarrow> consent_kind \<Rightarrow> string \<Rightarrow> string \<Rightarrow> string \<Rightarrow> disclosure" where
  "consent_entry now a k consent subject content =
     (root_disclosure (consent_id k (ra_id a) consent) (consent_kind_text k) now content a (members (ra_subjects a @ [ra_person a, subject]))
        [case k of Consent_question \<Rightarrow> subject | Consent_answer \<Rightarrow> ''kenan''])\<lparr>di_consent := Some consent, di_subject := Some subject\<rparr>"

definition question_asked :: "string \<Rightarrow> string \<Rightarrow> string \<Rightarrow> mem_store \<Rightarrow> bool" where
  "question_asked root consent subject s = (case disclosure_of (consent_id Consent_question root consent) s of
     None \<Rightarrow> False | Some q \<Rightarrow> subject \<in> set (di_to q))"

definition logConsent :: "string \<Rightarrow> string \<Rightarrow> string \<Rightarrow> string \<Rightarrow> consent_kind \<Rightarrow> string \<Rightarrow> mem_store \<Rightarrow> disclosure root_result" where
  "logConsent now root consent subject k content s = (case rootAdmission root s of
     None \<Rightarrow> root_refused ''Unknown original root session'' s
   | Some a \<Rightarrow> (case disclosure_of (consent_id k root consent) s of
       Some d \<Rightarrow> if di_text d = content \<and> di_subject d = Some subject then Some (Inr d, s)
         else root_refused ''Consent event was already logged with different content or subject'' s
     | None \<Rightarrow> if k = Consent_answer \<and> \<not> question_asked root consent subject s
         then root_refused ''Consent answers require a logged question to the same subject'' s
         else (let d = consent_entry now a k consent subject content in logged (\<lambda>d. d) d d s)))"

datatype request_status = Request_failed | Request_interrupted

definition kenanRequestNotice :: "string \<Rightarrow> request_status \<Rightarrow> string" where
  "kenanRequestNotice k status = ''Kenan'' @ [CHR 0x27] @ ''s request '' @ k @ '' '' @ (case status of Request_failed \<Rightarrow> ''failed'' | Request_interrupted \<Rightarrow> ''was interrupted'')
     @ '' before completion. Actions may already have occurred; do not repeat the original request. Its status can be retrieved with ask_kenan({requestId:''
     @ [CHR 0x22] @ k @ [CHR 0x22] @ ''}).''"

definition logRequestStatus :: "string \<Rightarrow> string \<Rightarrow> string \<Rightarrow> request_status \<Rightarrow> mem_store \<Rightarrow> disclosure_id root_result" where
  "logRequestStatus now root request status s = (case rootAdmission root s of
     None \<Rightarrow> root_refused ''Request status requires an admitted root session'' s
   | Some a \<Rightarrow> (let k = Status_disclosure root request; notice = kenanRequestNotice request status in
       case disclosure_of k s of
         Some d \<Rightarrow> if di_text d = notice then Some (Inr k, s) else root_refused ''Request status was already recorded differently'' s
       | None \<Rightarrow> logged (\<lambda>k. k) k (root_disclosure k ''root-request-status'' now notice a (members (ra_subjects a @ [ra_person a])) (ra_recipients a)) s))"

record notice_input =
  no_root :: string
  no_id :: string
  no_recipient :: string
  no_content :: string
  no_subjects :: "string list"
  no_private :: bool

definition notification_about :: "run_admission \<Rightarrow> notice_input \<Rightarrow> string list" where
  "notification_about a n = sort (members (ra_subjects a @ [ra_person a, no_recipient n] @ no_subjects n))"

definition notification_memory :: "mem_env \<Rightarrow> string \<Rightarrow> run_admission \<Rightarrow> notice_input \<Rightarrow> mem_input" where
  "notification_memory e now a n = \<lparr>mi_text = no_content n, mi_about = notification_about a n,
     mi_source = \<lparr>mo_said = None, mo_acted = Some (ra_person a), mo_action = Some ''notification-queued'', mo_external = Some (me_name e (Notification_disclosure (no_root n) (no_id n)))\<rparr>,
     mi_setting = run_setting (ra_person a) (ra_thread a) (ra_room a), mi_occurred = Some now, mi_private = no_private n\<rparr>"

definition notification_entry :: "string \<Rightarrow> run_admission \<Rightarrow> notice_input \<Rightarrow> disclosure" where
  "notification_entry now a n = (root_disclosure (Notification_disclosure (no_root n) (no_id n)) ''root-notification'' now (no_content n) a
     (notification_about a n) [no_recipient n])\<lparr>di_private := Some (no_private n)\<rparr>"

definition logNotification :: "mem_env \<Rightarrow> string \<Rightarrow> string \<Rightarrow> notice_input \<Rightarrow> mem_store \<Rightarrow> disclosure_id root_result" where
  "logNotification e fresh now n s = (case rootAdmission (no_root n) s of
     None \<Rightarrow> root_refused ''Notification requires an admitted root session'' s
   | Some a \<Rightarrow> (let k = Notification_disclosure (no_root n) (no_id n) in
       case disclosure_of k s of
         Some d \<Rightarrow> if di_text d = no_content n \<and> di_to d = [no_recipient n] \<and> di_about d = notification_about a n \<and> di_private d = Some (no_private n)
           then Some (Inr k, s) else root_refused ''Notification ID already used with different content'' s
       | None \<Rightarrow> Option.bind (insert_disclosure (notification_entry now a n) s)
           (\<lambda>s'. map_option (\<lambda>(w, s''). (Inr k, s'')) (mem_write fresh now (ra_person a) (notification_memory e now a n) s'))))"

section \<open>Continuation after a consent\<close>

definition consent_matches :: "consent_resume \<Rightarrow> disclosure \<Rightarrow> disclosure \<Rightarrow> bool" where
  "consent_matches i q r = (di_text q = cr_question i \<and> di_text r = cr_answer i \<and> cr_subject i \<in> set (di_to q))"

text \<open>An unfinished original is superseded: its first continuation is kept and its session ends.\<close>

definition supersede :: "run_admission \<Rightarrow> string \<Rightarrow> mem_store \<Rightarrow> mem_store" where
  "supersede a k s = (if disclosure_of (Reply_disclosure (ra_id a)) s \<noteq> None then s
     else end_session (ra_token a) (s\<lparr>st_continued := (if map_of (st_continued s) (ra_id a) = None then map_put (ra_id a) k (st_continued s) else st_continued s)\<rparr>))"

definition resumeConsent :: "string \<Rightarrow> string \<Rightarrow> consent_resume \<Rightarrow> mem_store \<Rightarrow> run_admission root_result" where
  "resumeConsent k token i s = (case rootAdmission (cr_root i) s of
     None \<Rightarrow> root_refused ''Consent resumption requires an authenticated original root admission'' s
   | Some a \<Rightarrow> (case map_of (st_resumes s) (cr_root i, cr_consent i) of
       Some (j, b) \<Rightarrow> if j = i then Some (Inr b, s) else root_refused ''This consent was already resumed with different data'' s
     | None \<Rightarrow> (case (disclosure_of (consent_id Consent_question (cr_root i) (cr_consent i)) s, disclosure_of (consent_id Consent_answer (cr_root i) (cr_consent i)) s) of
         (Some q, Some r) \<Rightarrow>
           if \<not> consent_matches i q r then root_refused ''Consent resumption requires matching exact question and answer records'' s
           else (case admitRoot k token (ra_person a) (ra_thread a) (ra_recipients a) (members (ra_subjects a @ di_about q @ di_about r @ [cr_subject i])) (ra_room a) s of
             None \<Rightarrow> None
           | Some (b, s') \<Rightarrow> Some (Inr b, supersede a k (s'\<lparr>st_resumes := map_put (cr_root i, cr_consent i) (i, b) (st_resumes s')\<rparr>)))
       | _ \<Rightarrow> root_refused ''Consent resumption requires matching exact question and answer records'' s)))"

section \<open>The accounted reply\<close>

record reply_input =
  ri_root :: string
  ri_reply :: string
  ri_subjects :: "string list"
  ri_recipients :: "string list option"

definition session_reads :: "string \<Rightarrow> mem_store \<Rightarrow> disclosure list" where
  "session_reads root s = filter (\<lambda>d. di_kind d = Some ''memory-read'' \<and> ms_thread (di_setting d) = Some root) (st_disclosures s)"

definition reply_about :: "run_admission \<Rightarrow> reply_input \<Rightarrow> mem_store \<Rightarrow> string list" where
  "reply_about a i s = members (ra_subjects a @ [ra_person a] @ ri_subjects i @ concat (map di_about (session_reads (ri_root i) s)))"

definition reply_entry :: "string \<Rightarrow> run_admission \<Rightarrow> reply_input \<Rightarrow> mem_store \<Rightarrow> disclosure" where
  "reply_entry now a i s = (root_disclosure (Reply_disclosure (ri_root i)) ''root-reply'' now (ri_reply i) a (reply_about a i s) (ra_recipients a))
     \<lparr>di_final := Some (ri_reply i), di_finalized := Some now\<rparr>"

definition finalizeRootReply :: "string \<Rightarrow> reply_input \<Rightarrow> mem_store \<Rightarrow> disclosure root_result" where
  "finalizeRootReply now i s = (case rootAdmission (ri_root i) s of
     None \<Rightarrow> root_refused ''Unknown root session'' s
   | Some a \<Rightarrow>
       if (case ri_recipients i of None \<Rightarrow> False | Some to \<Rightarrow> \<not> same_people to (ra_recipients a))
       then Some (Inl (mem_fail ''unauthenticated'' ''Root reply audience differs from admission''), s)
       else (case disclosure_of (Reply_disclosure (ri_root i)) s of
         Some d \<Rightarrow> if di_text d = ri_reply i then Some (Inr d, s) else root_refused ''Root reply was already finalized with different text'' s
       | None \<Rightarrow> if map_of (st_continued s) (ri_root i) \<noteq> None then root_refused ''This unfinished root session was superseded by consent continuation'' s
         else (let d = reply_entry now a i s in map_option (\<lambda>(r, s'). (r, end_session (ra_token a) s')) (logged (\<lambda>d. d) d d s))))"

end
