(* ===== verification/Memory_Validation.thy ===== *)
theory Memory_Validation
  imports Memory_Store Contracts
begin

text \<open>
  The boundary of the memory service (\<open>packages/kenan-memory/src/validation.ts\<close>): an unchecked request becomes a typed
  one, or the first field that breaks the contract is named. Whether a text is a date is an argument.
\<close>

section \<open>Requests\<close>

datatype mem_request =
    Write_memory mem_input
  | Search_memory string "string list option" "int option" mem_context
  | Read_memory "string list" mem_context
  | Forget_memory "string list" forget_mode
  | Log_disclosure disclosure_input
  | List_disclosures mem_context "int option" "string option"
  | Finalize_turn mem_context string

section \<open>Fields\<close>

definition TEXT :: string where
  "TEXT = ''a non-blank string of at most 100000 characters''"

definition STRINGS :: string where
  "STRINGS = ''a non-empty array of at most 100 non-blank strings''"

definition short_js :: "int \<Rightarrow> js \<Rightarrow> bool" where
  "short_js n v = (is_string v \<and> int (length (str_of v)) \<le> n)"

definition mem_text :: "js \<Rightarrow> bool" where
  "mem_text v = (nonblank v \<and> short_js 100000 v)"

definition mem_strings :: "js \<Rightarrow> bool" where
  "mem_strings v = (is_array v \<and> arr_of v \<noteq> [] \<and> int (length (arr_of v)) \<le> 100 \<and> list_all mem_text (arr_of v))"

definition mem_date :: "(string \<Rightarrow> bool) \<Rightarrow> js \<Rightarrow> bool" where
  "mem_date is_date v = optionally (\<lambda>v. is_string v \<and> is_date (str_of v)) v"

definition mem_limit :: "js \<Rightarrow> bool" where
  "mem_limit v = optionally (\<lambda>v. int_within v 1 100) v"

definition date_reason :: "string \<Rightarrow> string" where
  "date_reason name = name @ '' must be an ISO 8601 date-time string when present''"

text \<open>The value of an optional field that was checked; an empty text counts as absent where the code tests it so.\<close>

definition text_field :: "js \<Rightarrow> string option" where
  "text_field v = (case v of JStr s \<Rightarrow> Some s | _ \<Rightarrow> None)"

definition full_field :: "js \<Rightarrow> string option" where
  "full_field v = (case v of JStr s \<Rightarrow> if s = [] then None else Some s | _ \<Rightarrow> None)"

definition texts_field :: "js \<Rightarrow> string list option" where
  "texts_field v = (case v of JArr vs \<Rightarrow> Some (map str_of vs) | _ \<Rightarrow> None)"

definition int_field :: "js \<Rightarrow> int option" where
  "int_field v = (case v of JNum (NInt i) \<Rightarrow> Some i | _ \<Rightarrow> None)"

text \<open>The first of the optional fields that is present and no text.\<close>

fun bad_field :: "string \<Rightarrow> string list \<Rightarrow> js \<Rightarrow> string option" where
  "bad_field prefix_text [] v = None"
| "bad_field prefix_text (k # ks) v = (if optionally mem_text (js_get v k) then bad_field prefix_text ks v
     else Some (prefix_text @ k @ '' must be '' @ TEXT @ '' when present''))"

definition read_setting :: "js \<Rightarrow> string + mem_setting" where
  "read_setting v =
     (if \<not> is_object v \<or> \<not> mem_text (js_get v ''person'') then Inl (''setting.person must be '' @ TEXT)
      else case bad_field ''setting.'' [''threadId'', ''roomId''] v of Some r \<Rightarrow> Inl r
      | None \<Rightarrow> Inr \<lparr>ms_person = str_of (js_get v ''person''), ms_thread = full_field (js_get v ''threadId''), ms_room = full_field (js_get v ''roomId'')\<rparr>)"

definition read_context :: "js \<Rightarrow> string + mem_context" where
  "read_context v =
     (if \<not> is_object v then Inl ''context must be an object with threadId and turnId''
      else if \<not> mem_text (js_get v ''threadId'') then Inl (''context.threadId must be '' @ TEXT)
      else if \<not> mem_text (js_get v ''turnId'') then Inl (''context.turnId must be '' @ TEXT)
      else case bad_field ''context.'' [''roomId''] v of Some r \<Rightarrow> Inl r
      | None \<Rightarrow> Inr \<lparr>mx_thread = str_of (js_get v ''threadId''), mx_turn = str_of (js_get v ''turnId''), mx_room = full_field (js_get v ''roomId'')\<rparr>)"

definition read_source :: "js \<Rightarrow> string + mem_source" where
  "read_source v =
     (if \<not> is_object v then Inl ''source must be an object that includes saidBy or actedFor''
      else case bad_field ''source.'' [''saidBy'', ''actedFor'', ''action'', ''externalId''] v of Some r \<Rightarrow> Inl r
      | None \<Rightarrow>
          if js_get v ''saidBy'' = JUndef \<and> js_get v ''actedFor'' = JUndef
          then Inl ''source needs saidBy or actedFor: saidBy is the person who said it; actedFor is the person an action was taken for (action records use actedFor with action and externalId)''
          else Inr \<lparr>mo_said = text_field (js_get v ''saidBy''), mo_acted = text_field (js_get v ''actedFor''),
            mo_action = text_field (js_get v ''action''), mo_external = text_field (js_get v ''externalId'')\<rparr>)"

section \<open>Validation\<close>

definition read_item :: "(string \<Rightarrow> bool) \<Rightarrow> js \<Rightarrow> string + mem_request" where
  "read_item is_date i =
     (if \<not> is_object i then Inl ''item must be an object''
      else rbind (read_setting (js_get i ''setting'')) (\<lambda>setting.
        if \<not> mem_text (js_get i ''text'') then Inl (''text must be '' @ TEXT)
        else if \<not> mem_strings (js_get i ''about'') then Inl (''about must be '' @ STRINGS)
        else rbind (read_source (js_get i ''source'')) (\<lambda>source.
          if \<not> is_boolean (js_get i ''obviouslyPrivate'') then Inl ''obviouslyPrivate must be a boolean''
          else if \<not> mem_date is_date (js_get i ''occurredAt'') then Inl (date_reason ''occurredAt'')
          else Inr (Write_memory \<lparr>mi_text = str_of (js_get i ''text''), mi_about = map str_of (arr_of (js_get i ''about'')), mi_source = source, mi_setting = setting,
            mi_occurred = full_field (js_get i ''occurredAt''), mi_private = (js_get i ''obviouslyPrivate'' = JBool True)\<rparr>))))"

definition read_disclosure :: "(string \<Rightarrow> bool) \<Rightarrow> js \<Rightarrow> string + mem_request" where
  "read_disclosure is_date d =
     (if \<not> is_object d then Inl ''disclosure must be an object''
      else rbind (read_setting (js_get d ''setting'')) (\<lambda>setting.
        if \<not> mem_text (js_get d ''text'') then Inl (''text must be '' @ TEXT)
        else if \<not> mem_strings (js_get d ''about'') then Inl (''about must be '' @ STRINGS)
        else if \<not> mem_strings (js_get d ''to'') then Inl (''to must be '' @ STRINGS)
        else if \<not> optionally mem_strings (js_get d ''memoryIds'') then Inl (''memoryIds must be '' @ STRINGS @ '' when present'')
        else if \<not> mem_date is_date (js_get d ''occurredAt'') then Inl (date_reason ''occurredAt'')
        else Inr (Log_disclosure \<lparr>dn_text = str_of (js_get d ''text''), dn_about = map str_of (arr_of (js_get d ''about'')), dn_to = map str_of (arr_of (js_get d ''to'')),
          dn_memories = texts_field (js_get d ''memoryIds''), dn_setting = setting, dn_occurred = full_field (js_get d ''occurredAt'')\<rparr>)))"

definition read_forget :: "js \<Rightarrow> string + mem_request" where
  "read_forget v =
     (let mode = js_get v ''mode'' in
      if \<not> mem_strings (js_get v ''ids'') then Inl (''ids must be '' @ STRINGS)
      else if mode \<noteq> JStr ''delete'' \<and> mode \<noteq> JStr ''stop-using''
      then Inl (''mode must be '' @ [CHR 0x22] @ ''delete'' @ [CHR 0x22] @ '' or '' @ [CHR 0x22] @ ''stop-using'' @ [CHR 0x22])
      else Inr (Forget_memory (map str_of (arr_of (js_get v ''ids''))) (if mode = JStr ''delete'' then Delete_memory else Stop_using)))"

definition MEMORY_OPERATIONS :: "string list" where
  "MEMORY_OPERATIONS = [''search'', ''read'', ''write'', ''forget'', ''disclosures'', ''log-disclosure'', ''finalize-turn'']"

definition limit_reason :: string where
  "limit_reason = ''limit must be an integer from 1 to 100 when present''"

definition read_in_context :: "js \<Rightarrow> mem_context \<Rightarrow> string + mem_request" where
  "read_in_context v c =
     (let op = js_get v ''operation'' in
      if op = JStr ''finalize-turn'' then
        (if \<not> short_js 100000 (js_get v ''reply'') then Inl ''reply must be a string of at most 100000 characters''
         else Inr (Finalize_turn c (str_of (js_get v ''reply''))))
      else if op = JStr ''read'' then
        (if mem_strings (js_get v ''ids'') then Inr (Read_memory (map str_of (arr_of (js_get v ''ids''))) c) else Inl (''ids must be '' @ STRINGS))
      else if op = JStr ''disclosures'' then
        (if \<not> mem_limit (js_get v ''limit'') then Inl limit_reason
         else if \<not> optionally mem_text (js_get v ''about'') then Inl (''about must be '' @ TEXT @ '' when present'')
         else Inr (List_disclosures c (int_field (js_get v ''limit'')) (text_field (js_get v ''about''))))
      else if \<not> short_js 10000 (js_get v ''query'') then Inl ''query must be a string of at most 10000 characters''
      else if \<not> mem_limit (js_get v ''limit'') then Inl limit_reason
      else if \<not> optionally mem_strings (js_get v ''about'') then Inl (''about must be '' @ STRINGS @ '' when present'')
      else Inr (Search_memory (str_of (js_get v ''query'')) (texts_field (js_get v ''about'')) (int_field (js_get v ''limit'')) c))"

definition validateRequest :: "(string \<Rightarrow> bool) \<Rightarrow> js \<Rightarrow> string + mem_request" where
  "validateRequest is_date v =
     (let op = js_get v ''operation'' in
      if \<not> is_object v then Inl ''request must be a JSON object''
      else if op = JStr ''write'' then read_item is_date (js_get v ''item'')
      else if op = JStr ''log-disclosure'' then read_disclosure is_date (js_get v ''disclosure'')
      else if op = JStr ''forget'' then read_forget v
      else if op \<notin> JStr ` set MEMORY_OPERATIONS then Inl (''operation must be one of '' @ listed MEMORY_OPERATIONS)
      else rbind (read_context (js_get v ''context'')) (read_in_context v))"

text \<open>What an accepted request says: its texts are not blank and bounded, and it names somebody.\<close>

definition full_texts :: "string list \<Rightarrow> bool" where
  "full_texts xs = (xs \<noteq> [] \<and> int (length xs) \<le> 100 \<and> list_all (\<lambda>s. \<not> blank s \<and> int (length s) \<le> 100000) xs)"

lemma mem_text_full: "mem_text v \<Longrightarrow> \<not> blank (str_of v) \<and> int (length (str_of v)) \<le> 100000"
  by (cases v) (auto simp: mem_text_def short_js_def nonblank_def js_trim_Nil)

lemma mem_strings_full: "mem_strings v \<Longrightarrow> full_texts (map str_of (arr_of v))"
  using mem_text_full unfolding mem_strings_def full_texts_def list_all_iff by auto

lemma written_item_full:
  assumes "validateRequest is_date v = Inr (Write_memory i)"
  shows "full_texts (mi_about i) \<and> \<not> blank (mi_text i) \<and> (mo_said (mi_source i) \<noteq> None \<or> mo_acted (mi_source i) \<noteq> None)"
proof -
  have here: "read_item is_date (js_get v ''item'') = Inr (Write_memory i)"
    using assms unfolding validateRequest_def Let_def read_in_context_def read_forget_def read_disclosure_def
    by (auto simp: rbind_eq_Inr split: if_splits)
  obtain se so where s: "read_source (js_get (js_get v ''item'') ''source'') = Inr so" and ab: "mem_strings (js_get (js_get v ''item'') ''about'')"
    and t: "mem_text (js_get (js_get v ''item'') ''text'')"
    and i: "mi_about i = map str_of (arr_of (js_get (js_get v ''item'') ''about''))" "mi_text i = str_of (js_get (js_get v ''item'') ''text'')" "mi_source i = so"
    using here unfolding read_item_def by (auto simp: rbind_eq_Inr split: if_splits)
  have src: "mo_said so \<noteq> None \<or> mo_acted so \<noteq> None"
    using s by (auto simp: read_source_def text_field_def optionally_def mem_text_def nonblank_def split: if_splits option.splits js.splits)
  have content: "\<not> blank (str_of (js_get (js_get v ''item'') ''text''))"
    using mem_text_full[OF t] by simp
  show ?thesis using src content i mem_strings_full[OF ab] by simp
qed

end
