(* ===== verification/Memory_Service.thy ===== *)
theory Memory_Service
  imports Memory_Root Memory_Validation
begin

text \<open>
  The memory service (\<open>packages/kenan-memory/src/service.ts\<close>): who a connection is, what each route refuses, and what it
  does to the memory store and the life store. A call is one step on both stores; what it reads from its host at that moment
  (the clock, new identifiers, the audience of a room, the timezone of a person) is an argument. HTTP framing, the size limit
  of a body and its parsing to JSON are left out, and the inputs of all routes but \<open>/v1/memory\<close> are typed.
\<close>

section \<open>Connections\<close>

record mem_supervisor =
  sv_person :: string
  sv_token :: string
  sv_display :: "string option"

record mem_auth =
  au_supervisors :: "mem_supervisor list"
  au_publisher :: "string option"
  au_root :: "string option"
  au_uids :: "(string \<times> string) list"

datatype mem_caller = Person_caller string mem_role "string option" | Publisher_caller | Root_service

definition credential :: "string option \<Rightarrow> string \<Rightarrow> bool" where
  "credential token supplied = (case token of None \<Rightarrow> False | Some t \<Rightarrow> t \<noteq> [] \<and> t = supplied)"

definition principal_of :: "mem_auth \<Rightarrow> string option \<Rightarrow> string option \<Rightarrow> mem_store \<Rightarrow> mem_caller option" where
  "principal_of auth header uid s = (case header of
     Some supplied \<Rightarrow>
       if credential (au_root auth) supplied then Some Root_service
       else if credential (au_publisher auth) supplied then Some Publisher_caller
       else (case find (\<lambda>v. sv_token v = supplied) (au_supervisors auth) of
         Some v \<Rightarrow> Some (Person_caller (sv_person v) Person_role None)
       | None \<Rightarrow> map_option (\<lambda>x. Person_caller (se_person x) (se_role x) (Some (se_thread x))) (resolveSession supplied s))
   | None \<Rightarrow> (case Option.bind uid (map_of (au_uids auth)) of
       None \<Rightarrow> None | Some person \<Rightarrow> if person = [] then None else Some (Person_caller person Person_role None)))"

definition registered :: "mem_auth \<Rightarrow> string list" where
  "registered auth = map sv_person (au_supervisors auth) @ map snd (au_uids auth)"

section \<open>Calls and answers\<close>

datatype life_target = Self_target | Root_target | Person_target string

datatype mem_call =
    Authenticate_caller string
  | Authorize_request string string
  | Resume_request string
  | Log_request_status string string request_status
  | Log_notification notice_input
  | Resume_consent consent_resume
  | Log_consent string string string consent_kind string
  | Admit_root string string "string option"
  | Finalize_reply reply_input
  | Life_call life_target life_request
  | Issue_session string
  | Memory_call js

datatype mem_answer =
    Acknowledged
  | Admitted run_admission "string option option"
  | Accounted disclosure_id
  | Disclosed disclosure
  | Life_done life_answer
  | Session_issued string mem_session
  | Was_written write_answer
  | Memories "mem_item list" read_report
  | Forgotten "string list" forget_mode
  | Accounts "disclosure list" read_report
  | Finalized "disclosure_id list"

datatype mem_reply = Answer mem_answer | Refuse nat mem_error | Refuse_life nat life_error

record room_audience =
  ad_room :: string
  ad_people :: "string list"

record mem_moment =
  mt_now :: string
  mt_time :: int
  mt_fresh :: string
  mt_token :: string
  mt_root :: string
  mt_audience :: "string \<Rightarrow> string \<Rightarrow> room_audience option"
  mt_timezone :: "(string \<Rightarrow> string + string option) option"

record mem_host =
  mh_auth :: mem_auth
  mh_enabled :: bool
  mh_env :: mem_env
  mh_life :: life_platform
  mh_steering :: "life_steering life_version \<Rightarrow> nat"
  mh_rank :: "string \<Rightarrow> nat"
  mh_lower :: "string \<Rightarrow> string"
  mh_date :: "string \<Rightarrow> bool"

record mem_world =
  mw_store :: mem_store
  mw_life :: life_store

text \<open>The result of a handler: \<open>None\<close> is a throw.\<close>

type_synonym served = "(mem_reply \<times> mem_world) option"

definition denied :: "string \<Rightarrow> mem_reply" where
  "denied message = Refuse 403 (mem_fail ''unauthenticated'' message)"

definition invalid_call :: "string \<Rightarrow> mem_reply" where
  "invalid_call message = Refuse 400 (mem_fail ''invalid-request'' message)"

text \<open>What a refusal of the store is sent as.\<close>

definition mem_status :: "mem_error \<Rightarrow> nat" where
  "mem_status e = (if mer_code e = ''unauthenticated'' then 403 else 400)"

definition root_served :: "('a \<Rightarrow> mem_answer) \<Rightarrow> mem_world \<Rightarrow> 'a root_result \<Rightarrow> served" where
  "root_served f w r = map_option (\<lambda>(x, s). (case x of Inl e \<Rightarrow> Refuse (mem_status e) e | Inr v \<Rightarrow> Answer (f v), w\<lparr>mw_store := s\<rparr>)) r"

definition rejected :: "mem_reply \<Rightarrow> mem_world \<Rightarrow> served" where
  "rejected r w = Some (r, w)"

section \<open>Guards of the root routes\<close>

definition short_strings :: "string list \<Rightarrow> bool" where
  "short_strings xs = (int (length xs) \<le> 100 \<and> list_all (\<lambda>s. s \<noteq> [] \<and> int (length s) \<le> 200) xs)"

definition good_identifier :: "string \<Rightarrow> bool" where
  "good_identifier s = (s \<noteq> [] \<and> int (length s) \<le> 200)"

definition prose :: "string \<Rightarrow> bool" where
  "prose s = (\<not> blank s \<and> int (length s) \<le> 100000)"

definition request_id_ok :: "string \<Rightarrow> bool" where
  "request_id_ok s = (length s = 36 \<and> list_all (\<lambda>(i, c).
     if i \<in> {8, 13, 18, 23} then c = CHR ''-'' else if i = 14 then c \<in> set ''12345'' else if i = 19 then c \<in> set ''89ab'' else c \<in> set ''0123456789abcdef'')
     (enumerate 0 s))"

definition name_char :: "char \<Rightarrow> bool" where
  "name_char c = (c \<in> set ''abcdefghijklmnopqrstuvwxyzABCDEFGHIJKLMNOPQRSTUVWXYZ0123456789_-'')"

definition root_session_name :: "string \<Rightarrow> bool" where
  "root_session_name s = (s \<noteq> [] \<and> int (length s) \<le> 200 \<and> list_all name_char s)"

text \<open>The room's people are still those of the admission.\<close>

definition audience_holds :: "mem_moment \<Rightarrow> run_admission \<Rightarrow> bool" where
  "audience_holds m a = (case mt_audience m (ra_person a) (ra_thread a) of
     None \<Rightarrow> False | Some c \<Rightarrow> Some (ad_room c) = ra_room a \<and> same_people (ad_people c) (ra_recipients a))"

definition audience_due :: "mem_moment \<Rightarrow> run_admission \<Rightarrow> bool" where
  "audience_due m a = (ra_room a \<noteq> None \<or> mt_audience m (ra_person a) (ra_thread a) \<noteq> None \<or> ra_person a = ''pi-rooms'')"

definition zone_failure :: "string \<Rightarrow> mem_reply" where
  "zone_failure message = Refuse 503 (mem_fail ''unavailable'' (''Authenticated asking-person timezone unavailable: '' @ message))"

definition zone_of :: "mem_moment \<Rightarrow> string \<Rightarrow> mem_reply + string option option" where
  "zone_of m person = (case mt_timezone m of
     None \<Rightarrow> Inr None
   | Some f \<Rightarrow> (case f person of Inl message \<Rightarrow> Inl (zone_failure message) | Inr z \<Rightarrow> Inr (Some z)))"

section \<open>Root routes\<close>

definition authenticate_caller :: "mem_moment \<Rightarrow> string \<Rightarrow> mem_world \<Rightarrow> served" where
  "authenticate_caller m token w = (case resolveSession token (mw_store w) of
     None \<Rightarrow> rejected (denied ''An authenticated person session is required'') w
   | Some x \<Rightarrow>
       if se_role x \<noteq> Person_role then rejected (denied ''An authenticated person session is required'') w
       else if se_person x = ''pi-rooms'' \<and> mt_audience m (se_person x) (se_thread x) = None then rejected (denied ''Room audience is unavailable'') w
       else Some (Answer Acknowledged, w))"

definition authorize_request :: "mem_moment \<Rightarrow> string \<Rightarrow> string \<Rightarrow> mem_world \<Rightarrow> served" where
  "authorize_request m token root w = (case (resolveSession token (mw_store w), rootAdmission root (mw_store w)) of
     (Some x, Some a) \<Rightarrow>
       if se_role x \<noteq> Person_role \<or> se_person x \<noteq> ra_person a \<or> se_thread x \<noteq> ra_thread a then rejected (denied ''Request is unavailable to this session'') w
       else if audience_due m a \<and> \<not> audience_holds m a then rejected (denied ''Request is unavailable to this audience'') w
       else Some (Answer Acknowledged, w)
   | _ \<Rightarrow> rejected (denied ''Request is unavailable to this session'') w)"

definition resume_request :: "mem_moment \<Rightarrow> string \<Rightarrow> mem_world \<Rightarrow> served" where
  "resume_request m root w =
     (if root = [] then rejected (invalid_call ''Invalid queued root admission'') w
      else case rootAdmission root (mw_store w) of
        None \<Rightarrow> rejected (denied ''The original admitted execution is unavailable'') w
      | Some a \<Rightarrow> (case resolveSession (ra_token a) (mw_store w) of
          None \<Rightarrow> rejected (denied ''The original admitted execution is unavailable'') w
        | Some x \<Rightarrow>
            if se_role x \<noteq> Root_role \<or> se_thread x \<noteq> ra_id a \<or> se_person x \<noteq> ra_person a then rejected (denied ''The original admitted execution is unavailable'') w
            else if audience_due m a \<and> \<not> audience_holds m a then rejected (denied ''The original room audience changed'') w
            else (case zone_of m (ra_person a) of Inl r \<Rightarrow> rejected r w | Inr z \<Rightarrow> Some (Answer (Admitted a z), w))))"

definition log_request_status :: "mem_moment \<Rightarrow> string \<Rightarrow> string \<Rightarrow> request_status \<Rightarrow> mem_world \<Rightarrow> served" where
  "log_request_status m root request status w =
     (if \<not> request_id_ok request then rejected (invalid_call ''Invalid root request status'') w
      else case rootAdmission root (mw_store w) of
        None \<Rightarrow> rejected (denied ''Request is unavailable'') w
      | Some a \<Rightarrow>
          if ra_room a \<noteq> None \<and> \<not> audience_holds m a then rejected (denied ''The original room audience changed'') w
          else root_served Accounted w (logRequestStatus (mt_now m) root request status (mw_store w)))"

definition log_notification :: "mem_host \<Rightarrow> mem_moment \<Rightarrow> notice_input \<Rightarrow> mem_world \<Rightarrow> served" where
  "log_notification h m n w =
     (if no_root n = [] \<or> \<not> good_identifier (no_id n) \<or> no_recipient n = ''pi-rooms'' \<or> no_recipient n \<notin> set (registered (mh_auth h))
         \<or> \<not> prose (no_content n) \<or> \<not> short_strings (no_subjects n)
      then rejected (invalid_call ''Invalid root notification'') w
      else root_served Accounted w (logNotification (mh_env h) (mt_fresh m) (mt_now m) n (mw_store w)))"

text \<open>The guards both consent routes share.\<close>

definition consent_guard :: "mem_host \<Rightarrow> mem_moment \<Rightarrow> string \<Rightarrow> string \<Rightarrow> string \<Rightarrow> bool \<Rightarrow> mem_store \<Rightarrow> mem_reply option" where
  "consent_guard h m root subject consent texts_ok s =
     (if \<not> good_identifier root \<or> \<not> good_identifier subject \<or> \<not> good_identifier consent \<or> \<not> texts_ok then Some (invalid_call ''Invalid consent boundary operation'')
      else if subject = ''pi-rooms'' \<or> subject \<notin> set (registered (mh_auth h)) then Some (invalid_call ''Consent requires a registered individual subject'')
      else if (case rootAdmission root s of None \<Rightarrow> False | Some a \<Rightarrow> ra_room a \<noteq> None \<and> \<not> audience_holds m a)
      then Some (denied ''The original room audience changed; ask again'') else None)"

definition resume_consent :: "mem_host \<Rightarrow> mem_moment \<Rightarrow> consent_resume \<Rightarrow> mem_world \<Rightarrow> served" where
  "resume_consent h m i w = (case consent_guard h m (cr_root i) (cr_subject i) (cr_consent i) (prose (cr_question i) \<and> prose (cr_answer i)) (mw_store w) of
     Some r \<Rightarrow> rejected r w
   | None \<Rightarrow> (case (case rootAdmission (cr_root i) (mw_store w) of None \<Rightarrow> Inr None | Some a \<Rightarrow> zone_of m (ra_person a)) of
       Inl r \<Rightarrow> rejected r w
     | Inr z \<Rightarrow> root_served (\<lambda>a. Admitted a z) w (resumeConsent (mt_root m) (mt_token m) i (mw_store w))))"

definition log_consent :: "mem_host \<Rightarrow> mem_moment \<Rightarrow> string \<Rightarrow> string \<Rightarrow> string \<Rightarrow> consent_kind \<Rightarrow> string \<Rightarrow> mem_world \<Rightarrow> served" where
  "log_consent h m root consent subject k content w = (case consent_guard h m root subject consent (prose content) (mw_store w) of
     Some r \<Rightarrow> rejected r w
   | None \<Rightarrow> root_served Disclosed w (logConsent (mt_now m) root consent subject k content (mw_store w)))"

fun text_within :: "string \<Rightarrow> string \<Rightarrow> bool" where
  "text_within [] p = (p = [])"
| "text_within (c # s) p = (starts_with (c # s) p \<or> text_within s p)"

text \<open>The people a request names.\<close>

definition named_people :: "mem_host \<Rightarrow> string \<Rightarrow> string list" where
  "named_people h request = map sv_person (filter (\<lambda>v. list_ex (\<lambda>name. text_within (mh_lower h request) (mh_lower h name))
     (filter (\<lambda>name. name \<noteq> []) (sv_person v # (case sv_display v of None \<Rightarrow> [] | Some d \<Rightarrow> [d])))) (au_supervisors (mh_auth h)))"

definition admit_root :: "mem_host \<Rightarrow> mem_moment \<Rightarrow> string \<Rightarrow> string \<Rightarrow> string option \<Rightarrow> mem_world \<Rightarrow> served" where
  "admit_root h m token request k w =
     (if \<not> prose request \<or> (case k of None \<Rightarrow> False | Some n \<Rightarrow> \<not> root_session_name n) then rejected (invalid_call ''Invalid root admission'') w
      else case resolveSession token (mw_store w) of
        None \<Rightarrow> rejected (denied ''Root requests require a verified person session'') w
      | Some x \<Rightarrow> (let audience = mt_audience m (se_person x) (se_thread x) in
          if se_role x \<noteq> Person_role then rejected (denied ''Root requests require a verified person session'') w
          else if se_person x = ''pi-rooms'' \<and> audience = None then rejected (denied ''A room request requires its current authenticated audience'') w
          else if (case audience of None \<Rightarrow> False | Some c \<Rightarrow> \<not> short_strings (ad_people c) \<or> ad_people c = []) then rejected (denied ''The room audience is unavailable'') w
          else (case zone_of m (se_person x) of
            Inl r \<Rightarrow> rejected r w
          | Inr z \<Rightarrow> map_option (\<lambda>(a, s). (Answer (Admitted a z), w\<lparr>mw_store := s\<rparr>))
              (admitRoot (case k of None \<Rightarrow> mt_root m | Some n \<Rightarrow> n) (mt_token m) (se_person x) (se_thread x)
                (case audience of None \<Rightarrow> [se_person x] | Some c \<Rightarrow> ad_people c) (named_people h request) (map_option ad_room audience) (mw_store w)))))"

definition finalize_reply :: "mem_moment \<Rightarrow> reply_input \<Rightarrow> mem_world \<Rightarrow> served" where
  "finalize_reply m i w =
     (if int (length (ri_reply i)) > 100000 \<or> \<not> short_strings (ri_subjects i) \<or> (case ri_recipients i of None \<Rightarrow> False | Some to \<Rightarrow> \<not> short_strings to)
      then rejected (invalid_call ''Invalid root reply finalization'') w
      else if (case rootAdmission (ri_root i) (mw_store w) of None \<Rightarrow> False | Some a \<Rightarrow> ra_room a \<noteq> None \<and> \<not> audience_holds m a)
      then rejected (denied ''The room audience changed before the reply; ask again'') w
      else root_served Disclosed w (finalizeRootReply (mt_now m) i (mw_store w)))"

section \<open>Life state\<close>

text \<open>Whose life state a call is about: a person's own, or the one root names.\<close>

definition life_target_of :: "mem_role \<Rightarrow> string \<Rightarrow> life_target \<Rightarrow> mem_reply + string" where
  "life_target_of role person target = (case role of
     Person_role \<Rightarrow> if target = Self_target then Inr person else Inl (denied ''Other-person or root life state belongs to ask_kenan'')
   | Root_role \<Rightarrow> (case target of
       Self_target \<Rightarrow> Inl (invalid_call ''Root must explicitly select root or a registered person; self is ambiguous'')
     | Root_target \<Rightarrow> Inr ''root:kenan'' | Person_target p \<Rightarrow> Inr p))"

definition life_status :: "life_error \<Rightarrow> nat" where
  "life_status e = (if lx_code e = ''conflict'' then 409 else if lx_code e = ''not-found'' then 404 else if lx_code e = ''unavailable'' then 500 else 400)"

definition is_policy_write :: "life_request \<Rightarrow> bool" where
  "is_policy_write r = (case r of Policy_write _ _ \<Rightarrow> True | _ \<Rightarrow> False)"

text \<open>The admission a root session's life call goes by, as it was when the call read it.\<close>

definition life_admission :: "mem_role \<Rightarrow> string option \<Rightarrow> mem_store \<Rightarrow> run_admission option" where
  "life_admission role thread s = (if role = Root_role then Option.bind thread (\<lambda>t. rootAdmission t s) else None)"

definition life_guard :: "mem_host \<Rightarrow> mem_moment \<Rightarrow> string \<Rightarrow> mem_role \<Rightarrow> string option \<Rightarrow> run_admission option \<Rightarrow> mem_reply option" where
  "life_guard h m person role thread admission =
     (if role = Person_role \<and> (person = ''pi-rooms'' \<or> Option.bind thread (mt_audience m person) \<noteq> None) then Some (denied ''Rooms do not expose private life tools or policies'')
      else if role = Root_role \<and> admission = None then Some (denied ''Life access requires an admitted root session'')
      else if (case admission of None \<Rightarrow> False | Some a \<Rightarrow> ra_room a \<noteq> None \<and> \<not> audience_holds m a) then Some (denied ''The admitted room audience changed'')
      else None)"

text \<open>The subject of a root session's life call joins the subjects of its run.\<close>

definition account_subject :: "run_admission option \<Rightarrow> string \<Rightarrow> mem_store \<Rightarrow> mem_store" where
  "account_subject admission subject s = (case admission of
     None \<Rightarrow> s
   | Some a \<Rightarrow> if subject = ''root:kenan'' \<or> rootAdmission (ra_id a) s = None then s
       else s\<lparr>st_runs := map_put (ra_id a) (a\<lparr>ra_subjects := members (ra_subjects a @ [subject])\<rparr>) (st_runs s)\<rparr>)"

definition life_request_step :: "mem_host \<Rightarrow> mem_moment \<Rightarrow> string \<Rightarrow> mem_role \<Rightarrow> string option \<Rightarrow> run_admission option \<Rightarrow> string \<Rightarrow> life_request \<Rightarrow> mem_world \<Rightarrow> mem_reply \<times> mem_world" where
  "life_request_step h m person role thread admission subject request w =
     (case life_serve (mh_life h) (mh_steering h) (mh_rank h) (mt_time m) (mt_now m) subject
         \<lparr>la_person = (if role = Root_role then ''kenan'' else person), la_thread = thread\<rparr> request (mw_life w) of
       (Inl e, life) \<Rightarrow> (Refuse_life (life_status e) e, w\<lparr>mw_life := life\<rparr>)
     | (Inr v, life) \<Rightarrow> (Answer (Life_done v), w\<lparr>mw_life := life, mw_store := account_subject admission subject (mw_store w)\<rparr>))"

definition life_handler :: "mem_host \<Rightarrow> mem_moment \<Rightarrow> string \<Rightarrow> mem_role \<Rightarrow> string option \<Rightarrow> run_admission option \<Rightarrow> life_target \<Rightarrow> life_request \<Rightarrow> mem_world \<Rightarrow> mem_reply \<times> mem_world" where
  "life_handler h m person role thread admission target request w =
     (if \<not> validateLifeRequest (mh_life h) request then (Refuse_life 400 (life_invalid ''Invalid life operation, fields or temporal state''), w)
      else case life_guard h m person role thread admission of
        Some r \<Rightarrow> (r, w)
      | None \<Rightarrow> (case life_target_of role person target of
          Inl r \<Rightarrow> (r, w)
        | Inr subject \<Rightarrow>
            if subject \<noteq> ''root:kenan'' \<and> (subject \<notin> set (registered (mh_auth h)) \<or> subject = ''pi-rooms'')
            then (invalid_call ''Life target must be a registered individual person'', w)
            else if role = Person_role \<and> \<not> is_policy_write request then
              (case initializePersonPolicy subject (mt_now m) (mw_life w) of
                (Inl e, life) \<Rightarrow> (Refuse_life 500 e, w\<lparr>mw_life := life\<rparr>)
              | (Inr v, life) \<Rightarrow> life_request_step h m person role thread admission subject request (w\<lparr>mw_life := life\<rparr>))
            else life_request_step h m person role thread admission subject request w))"

section \<open>Sessions and memory\<close>

definition issue_session :: "mem_moment \<Rightarrow> string \<Rightarrow> mem_role \<Rightarrow> string option \<Rightarrow> string \<Rightarrow> mem_world \<Rightarrow> served" where
  "issue_session m person role bound thread w =
     (if bound \<noteq> None \<or> role \<noteq> Person_role then rejected (denied ''Only a supervisor can issue a person memory session'') w
      else if \<not> good_identifier thread then rejected (invalid_call ''Invalid person session request'') w
      else map_option (\<lambda>s. (Answer (Session_issued (mt_token m) \<lparr>se_person = person, se_thread = thread, se_role = Person_role\<rparr>), w\<lparr>mw_store := s\<rparr>))
        (new_session (mt_token m) person thread Person_role (mw_store w)))"

definition request_setting :: "mem_request \<Rightarrow> mem_setting option" where
  "request_setting r = (case r of Write_memory i \<Rightarrow> Some (mi_setting i) | Log_disclosure d \<Rightarrow> Some (dn_setting d) | _ \<Rightarrow> None)"

definition request_context :: "mem_request \<Rightarrow> mem_context option" where
  "request_context r = (case r of Search_memory _ _ _ c \<Rightarrow> Some c | Read_memory _ c \<Rightarrow> Some c | List_disclosures c _ _ \<Rightarrow> Some c
     | Finalize_turn c _ \<Rightarrow> Some c | _ \<Rightarrow> None)"

definition request_person :: "mem_caller \<Rightarrow> mem_request \<Rightarrow> string" where
  "request_person caller r = (case caller of Person_caller person _ _ \<Rightarrow> person | _ \<Rightarrow> (case r of Write_memory i \<Rightarrow> ms_person (mi_setting i) | _ \<Rightarrow> []))"

definition request_role :: "mem_caller \<Rightarrow> mem_role" where
  "request_role caller = (case caller of Person_caller _ role _ \<Rightarrow> role | _ \<Rightarrow> Root_role)"

definition names_action :: "mem_request \<Rightarrow> bool" where
  "names_action r = (case r of Write_memory i \<Rightarrow> mo_action (mi_source i) \<noteq> None \<and> mo_external (mi_source i) \<noteq> None | _ \<Rightarrow> False)"

text \<open>The setting and the context are those of the connection.\<close>

definition setting_fits :: "mem_caller \<Rightarrow> mem_request \<Rightarrow> bool" where
  "setting_fits caller r = ((case request_setting r of None \<Rightarrow> True | Some x \<Rightarrow> ms_person x = request_person caller r)
     \<and> (case caller of Person_caller _ _ (Some t) \<Rightarrow>
          (case request_setting r of None \<Rightarrow> True | Some x \<Rightarrow> ms_thread x = Some t) \<and> (case request_context r of None \<Rightarrow> True | Some c \<Rightarrow> mx_thread c = t)
        | _ \<Rightarrow> True))"

definition own_write :: "string \<Rightarrow> mem_input \<Rightarrow> bool" where
  "own_write person i = (let own = (\<lambda>x. case x of None \<Rightarrow> True | Some p \<Rightarrow> p = person); source = mi_source i in
     own (mo_said source) \<and> own (mo_acted source)
     \<and> (list_all (\<lambda>a. a = person) (mi_about i) \<or> (mo_action source \<noteq> None \<and> mo_acted source = Some person \<and> person \<in> set (mi_about i))))"

definition person_guard :: "string \<Rightarrow> mem_request \<Rightarrow> mem_store \<Rightarrow> mem_reply option" where
  "person_guard person r s = (case r of
     List_disclosures _ _ (Some a) \<Rightarrow> if a \<noteq> person then Some (denied ''Cross-person accountability belongs to ask_kenan'') else None
   | Search_memory _ (Some about) _ _ \<Rightarrow> if list_ex (\<lambda>a. a \<noteq> person) about then Some (denied ''Cross-person search belongs to ask_kenan'') else None
   | Write_memory i \<Rightarrow> if \<not> own_write person i then Some (denied ''Cross-person memory writes belong to ask_kenan'') else None
   | Forget_memory ids _ \<Rightarrow> if \<not> canForget person ids s then Some (denied ''Forgetting shared or other-person memory belongs to ask_kenan'') else None
   | Log_disclosure d \<Rightarrow> if list_ex (\<lambda>a. a \<noteq> person) (dn_about d) then Some (denied ''Cross-person disclosure accounting belongs to ask_kenan'') else None
   | Finalize_turn _ _ \<Rightarrow> Some (denied ''Root disclosure finalization belongs to the root boundary'')
   | _ \<Rightarrow> None)"

definition memory_guard :: "mem_caller \<Rightarrow> mem_request \<Rightarrow> mem_store \<Rightarrow> mem_reply option" where
  "memory_guard caller r s =
     (if caller = Publisher_caller \<and> \<not> names_action r then Some (denied ''The journal publisher may only record identified actions'')
      else if \<not> setting_fits caller r then Some (denied ''The memory setting does not match this connection'')
      else if request_role caller = Person_role then person_guard (request_person caller r) r s else None)"

definition mem_dispatch :: "mem_env \<Rightarrow> string \<Rightarrow> string \<Rightarrow> string \<Rightarrow> mem_role \<Rightarrow> mem_request \<Rightarrow> mem_store \<Rightarrow> (mem_answer \<times> mem_store) option" where
  "mem_dispatch e fresh now person role r s = (case r of
     Write_memory i \<Rightarrow> map_option (\<lambda>(x, s'). (Was_written x, s')) (mem_write fresh now person i s)
   | Search_memory query about limit c \<Rightarrow> (let ((items, rr), s') = mem_search e now role person c query about limit s in Some (Memories items rr, s'))
   | Read_memory ids c \<Rightarrow> (let ((items, rr), s') = mem_read now role person c ids s in Some (Memories items rr, s'))
   | Forget_memory ids mode \<Rightarrow> (let (gone, s') = mem_forget mode now ids s in Some (Forgotten gone mode, s'))
   | Log_disclosure d \<Rightarrow> map_option (\<lambda>(x, s'). (Disclosed x, s')) (disclose fresh now person d s)
   | List_disclosures c limit about \<Rightarrow> (let ((ds, rr), s') = mem_disclosures e now role person c limit about s in Some (Accounts ds rr, s'))
   | Finalize_turn c reply \<Rightarrow> (let (ids, s') = finalize now person c reply s in Some (Finalized ids, s')))"

definition forget_first :: "mem_host \<Rightarrow> mem_moment \<Rightarrow> mem_request \<Rightarrow> life_store \<Rightarrow> (life_error + nat) \<times> life_store" where
  "forget_first h m r life = (case r of Forget_memory ids _ \<Rightarrow> invalidateMemories (mh_rank h) ids (mt_now m) life | _ \<Rightarrow> (Inr 0, life))"

definition memory_handler :: "mem_host \<Rightarrow> mem_moment \<Rightarrow> mem_caller \<Rightarrow> mem_request \<Rightarrow> mem_world \<Rightarrow> served" where
  "memory_handler h m caller r w = (case memory_guard caller r (mw_store w) of
     Some refusal \<Rightarrow> rejected refusal w
   | None \<Rightarrow> (case forget_first h m r (mw_life w) of
       (Inl e, life) \<Rightarrow> Some (Refuse_life 500 e, w\<lparr>mw_life := life\<rparr>)
     | (Inr n, life) \<Rightarrow> map_option (\<lambda>(a, s). (Answer a, \<lparr>mw_store = s, mw_life = life\<rparr>))
         (mem_dispatch (mh_env h) (mt_fresh m) (mt_now m) (request_person caller r) (request_role caller) r (mw_store w))))"

section \<open>A call\<close>

definition serve_root :: "mem_host \<Rightarrow> mem_moment \<Rightarrow> mem_call \<Rightarrow> mem_world \<Rightarrow> served" where
  "serve_root h m call w = (case call of
     Authenticate_caller token \<Rightarrow> authenticate_caller m token w
   | Authorize_request token root \<Rightarrow> authorize_request m token root w
   | Resume_request root \<Rightarrow> resume_request m root w
   | Log_request_status root request status \<Rightarrow> log_request_status m root request status w
   | Log_notification n \<Rightarrow> log_notification h m n w
   | Resume_consent i \<Rightarrow> resume_consent h m i w
   | Log_consent root consent subject k content \<Rightarrow> log_consent h m root consent subject k content w
   | Admit_root token request k \<Rightarrow> admit_root h m token request k w
   | Finalize_reply i \<Rightarrow> finalize_reply m i w
   | _ \<Rightarrow> rejected (denied ''The root service must use an admitted root memory session'') w)"

definition serve_other :: "mem_host \<Rightarrow> mem_moment \<Rightarrow> mem_caller \<Rightarrow> mem_call \<Rightarrow> mem_world \<Rightarrow> served" where
  "serve_other h m caller call w = (case call of
     Life_call target request \<Rightarrow> (case caller of
       Person_caller person role thread \<Rightarrow> Some (life_handler h m person role thread (life_admission role thread (mw_store w)) target request w)
     | _ \<Rightarrow> rejected (denied ''Life state is unavailable to journal publishers'') w)
   | Issue_session thread \<Rightarrow> (case caller of
       Person_caller person role bound \<Rightarrow> issue_session m person role bound thread w
     | _ \<Rightarrow> rejected (denied ''Only a supervisor can issue a person memory session'') w)
   | Memory_call v \<Rightarrow> (case validateRequest (mh_date h) v of
       Inl reason \<Rightarrow> rejected (invalid_call reason) w
     | Inr r \<Rightarrow> memory_handler h m caller r w)
   | _ \<Rightarrow> rejected (denied ''This operation belongs to the root Kenan service'') w)"

definition mem_serve :: "mem_host \<Rightarrow> mem_moment \<Rightarrow> string option \<Rightarrow> string option \<Rightarrow> mem_call \<Rightarrow> mem_world \<Rightarrow> mem_reply \<times> mem_world" where
  "mem_serve h m header uid call w =
     (if \<not> mh_enabled h then (Refuse 503 (mem_fail ''disabled'' ''One Kenan is disabled on this host''), w)
      else case principal_of (mh_auth h) header uid (mw_store w) of
        None \<Rightarrow> (denied ''Memory access requires a verified local identity'', w)
      | Some caller \<Rightarrow> (case (if caller = Root_service then serve_root h m call w else serve_other h m caller call w) of
          Some served \<Rightarrow> served
        | None \<Rightarrow> (Refuse 500 (mem_fail ''unavailable'' ''Memory service could not complete the operation''), w)))"

end
