(* ===== verification/Memory_Invariant.thy ===== *)
theory Memory_Invariant
  imports Memory_Service
begin

text \<open>
  How a property of the memory store is kept by the service: a property that every operation of the store keeps is kept by
  every call. New identifiers may be restricted: a call keeps the property when the identifier it drew is admitted.
\<close>

definition kept_in :: "(mem_store \<Rightarrow> bool) \<Rightarrow> served \<Rightarrow> bool" where
  "kept_in P r = (\<forall>x w. r = Some (x, w) \<longrightarrow> P (mw_store w))"

locale store_invariant =
  fixes P :: "mem_store \<Rightarrow> bool" and fresh_ok :: "string \<Rightarrow> bool"
  assumes report_law: "P s \<Longrightarrow> report now p c items s = (rr, s') \<Longrightarrow> P s'"
    and write_law: "P s \<Longrightarrow> fresh_ok fresh \<Longrightarrow> mem_write fresh now p i s = Some (x, s') \<Longrightarrow> P s'"
    and forget_law: "P s \<Longrightarrow> P (snd (mem_forget mode now ids s))"
    and disclose_law: "P s \<Longrightarrow> disclose fresh now p di s = Some (d, s') \<Longrightarrow> P s'"
    and finalize_law: "P s \<Longrightarrow> P (snd (finalize now p c reply s))"
    and session_law: "P s \<Longrightarrow> new_session token p thread Person_role s = Some s' \<Longrightarrow> P s'"
    and admit_law: "P s \<Longrightarrow> admitRoot k token p thread recipients subjects room s = Some (a, s') \<Longrightarrow> P s'"
    and consent_law: "P s \<Longrightarrow> logConsent now root consent subject ck content s = Some (y, s') \<Longrightarrow> P s'"
    and status_law: "P s \<Longrightarrow> logRequestStatus now root request status s = Some (z, s') \<Longrightarrow> P s'"
    and notification_law: "P s \<Longrightarrow> fresh_ok fresh \<Longrightarrow> logNotification e fresh now n s = Some (z, s') \<Longrightarrow> P s'"
    and resume_law: "P s \<Longrightarrow> resumeConsent k token ri s = Some (u, s') \<Longrightarrow> P s'"
    and reply_law: "P s \<Longrightarrow> finalizeRootReply now rp s = Some (y, s') \<Longrightarrow> P s'"
    and subject_law: "P s \<Longrightarrow> admission = None \<or> (\<exists>t. admission = rootAdmission t s) \<Longrightarrow> P (account_subject admission subject s)"
begin

lemma rejected_keeps [simp]: "P (mw_store w) \<Longrightarrow> kept_in P (rejected r w)"
  "P (mw_store w) \<Longrightarrow> kept_in P (Some (r, w))"
  by (simp_all add: kept_in_def rejected_def)

lemma root_served_keeps:
  "(\<And>x s'. r = Some (x, s') \<Longrightarrow> P s') \<Longrightarrow> kept_in P (root_served f w r)"
  by (auto simp: kept_in_def root_served_def)

lemma root_routes_keep:
  assumes J: "P (mw_store w)" and f: "fresh_ok (mt_fresh m)"
  shows "kept_in P (log_request_status m root request status w)" "kept_in P (log_notification h m n w)"
    "kept_in P (resume_consent h m i w)" "kept_in P (log_consent h m root consent subject k content w)"
    "kept_in P (finalize_reply m j w)"
proof -
  have served: "kept_in P (root_served Accounted w (logRequestStatus now root request status (mw_store w)))"
    "kept_in P (root_served Accounted w (logNotification e (mt_fresh m) now n (mw_store w)))"
    "kept_in P (root_served f w (resumeConsent k token i (mw_store w)))"
    "kept_in P (root_served Disclosed w (logConsent now root consent subject ck content (mw_store w)))"
    "kept_in P (root_served Disclosed w (finalizeRootReply now j (mw_store w)))" for now e f k token ck
    by (rule root_served_keeps, erule status_law[OF J] notification_law[OF J f] resume_law[OF J] consent_law[OF J] reply_law[OF J])+
  show "kept_in P (log_request_status m root request status w)"
    unfolding log_request_status_def using J served(1) by (simp split: option.split)
  show "kept_in P (log_notification h m n w)" unfolding log_notification_def using J served(2) by simp
  show "kept_in P (resume_consent h m i w)" unfolding resume_consent_def using J served(3) by (simp split: option.split sum.split)
  show "kept_in P (log_consent h m root consent subject k content w)" unfolding log_consent_def using J served(4) by (simp split: option.split)
  show "kept_in P (finalize_reply m j w)" unfolding finalize_reply_def using J served(5) by simp
qed

lemma admit_keeps:
  assumes J: "P (mw_store w)"
  shows "kept_in P (admit_root h m token request k w)"
proof -
  have "kept_in P (map_option (\<lambda>(a, s). (Answer (Admitted a z), w\<lparr>mw_store := s\<rparr>)) (admitRoot k' token' p th rs ss room (mw_store w)))" for z k' token' p th rs ss room
    using admit_law[OF J] by (auto simp: kept_in_def)
  then show ?thesis unfolding admit_root_def Let_def using J by (simp split: option.split sum.split)
qed

lemma checks_keep:
  assumes J: "P (mw_store w)"
  shows "kept_in P (authenticate_caller m token w)" "kept_in P (authorize_request m token root w)" "kept_in P (resume_request m root w)"
  unfolding authenticate_caller_def authorize_request_def resume_request_def using J by (simp_all split: option.split sum.split)

lemma serve_root_keeps:
  assumes J: "P (mw_store w)" and f: "fresh_ok (mt_fresh m)" shows "kept_in P (serve_root h m call w)"
  unfolding serve_root_def using root_routes_keep[OF J f] admit_keeps[OF J] checks_keep[OF J] J by (simp split: mem_call.split)

lemma session_keeps:
  assumes J: "P (mw_store w)" shows "kept_in P (issue_session m person role bound thread w)"
  unfolding issue_session_def using J session_law[OF J] by (auto simp: kept_in_def rejected_def)

lemma dispatch_keeps:
  assumes J: "P s" and f: "fresh_ok fresh" and d: "mem_dispatch e fresh now person role r s = Some (a, s')"
  shows "P s'"
proof (cases r)
  case (Write_memory i)
  then show ?thesis using d write_law[OF J f] by (auto simp: mem_dispatch_def)
next
  case (Search_memory query about limit c)
  then show ?thesis using d report_law[OF J] by (auto simp: mem_dispatch_def mem_search_def Let_def split: prod.splits)
next
  case (Read_memory ids c)
  then show ?thesis using d report_law[OF J] by (auto simp: mem_dispatch_def mem_read_def Let_def split: prod.splits)
next
  case (Forget_memory ids mode)
  then show ?thesis using d forget_law[OF J, of mode now ids] by (auto simp: mem_dispatch_def Let_def split: prod.splits)
next
  case (Log_disclosure i)
  then show ?thesis using d disclose_law[OF J] by (auto simp: mem_dispatch_def)
next
  case (List_disclosures c limit about)
  then show ?thesis using d report_law[OF J] by (auto simp: mem_dispatch_def mem_disclosures_def Let_def split: prod.splits)
next
  case (Finalize_turn c reply)
  then show ?thesis using d finalize_law[OF J, of now person c reply] by (auto simp: mem_dispatch_def Let_def split: prod.splits)
qed

lemma memory_keeps:
  assumes J: "P (mw_store w)" and f: "fresh_ok (mt_fresh m)" shows "kept_in P (memory_handler h m caller r w)"
  unfolding memory_handler_def using J dispatch_keeps[OF J f]
  by (auto simp: kept_in_def rejected_def split: option.splits prod.splits sum.splits)

text \<open>A life call of a root session: its subject is accounted for.\<close>

lemma life_step_keeps:
  assumes J: "P (mw_store w)" and a: "admission = None \<or> (\<exists>t. admission = rootAdmission t (mw_store w))"
  shows "P (mw_store (snd (life_request_step h m person role thread admission subject request w)))"
  unfolding life_request_step_def using J subject_law[OF J a, of subject] by (simp split: prod.split sum.split)

lemma life_handler_keeps:
  assumes J: "P (mw_store w)" and a: "admission = None \<or> (\<exists>t. admission = rootAdmission t (mw_store w))"
  shows "P (mw_store (snd (life_handler h m person role thread admission target request w)))"
proof -
  have "P (mw_store (snd (life_request_step h m person role thread admission subject request (w\<lparr>mw_life := life\<rparr>))))" for subject life
    using life_step_keeps[of "w\<lparr>mw_life := life\<rparr>"] J a by simp
  then have first: "P (mw_store (snd (case initializePersonPolicy subject now life of
        (Inl e, life) \<Rightarrow> (Refuse_life 500 e, w\<lparr>mw_life := life\<rparr>)
      | (Inr v, life) \<Rightarrow> life_request_step h m person role thread admission subject request (w\<lparr>mw_life := life\<rparr>))))" for subject now life
    using J by (simp split: prod.split sum.split)
  show ?thesis unfolding life_handler_def using J life_step_keeps[OF J a] first
    by (simp split: option.split sum.split)
qed

lemma life_admission_current: "life_admission role thread s = None \<or> (\<exists>t. life_admission role thread s = rootAdmission t s)"
  by (cases thread) (auto simp: life_admission_def)

lemma serve_other_keeps:
  assumes J: "P (mw_store w)" and f: "fresh_ok (mt_fresh m)" shows "kept_in P (serve_other h m caller call w)"
proof -
  have life: "kept_in P (Some (life_handler h m person role thread (life_admission role thread (mw_store w)) target request w))" for person role thread target request
    using life_handler_keeps[OF J life_admission_current] unfolding kept_in_def by (metis option.inject snd_conv)
  show ?thesis unfolding serve_other_def using J life session_keeps[OF J] memory_keeps[OF J f]
    by (simp split: mem_call.split mem_caller.split sum.split)
qed

lemma serve_keeps:
  assumes J: "P (mw_store w)" and f: "fresh_ok (mt_fresh m)" and s: "mem_serve h m header uid call w = (r, w')"
  shows "P (mw_store w')"
  using s J serve_root_keeps[OF J f, of h call] serve_other_keeps[OF J f, of h _ call]
  unfolding mem_serve_def kept_in_def by (auto split: if_splits option.splits)

end

end
