(* ===== verification/Memory_Safety.thy ===== *)
theory Memory_Safety
  imports Memory_Invariant
begin

text \<open>
  What the memory service keeps over whole runs: root's reply accounts for everything its session was told, a person is told
  only what is theirs, and what was forgotten stays so. A history lists, beside the world, what every root session was told.
\<close>

section \<open>Rows\<close>

lemma disclosure_of_Some: "disclosure_of k s = Some d \<Longrightarrow> di_id d = k \<and> d \<in> set (st_disclosures s)"
  unfolding disclosure_of_def by (metis (mono_tags, lifting) find_Some_iff nth_mem)

lemma disclosure_of_None: "disclosure_of k s = None \<longleftrightarrow> k \<notin> di_id ` set (st_disclosures s)"
  unfolding disclosure_of_def find_None_iff by auto

lemma find_append: "find P (xs @ ys) = (case find P xs of None \<Rightarrow> find P ys | Some x \<Rightarrow> Some x)"
  by (induction xs) auto

lemma disclosure_of_unique:
  assumes "distinct (map di_id (st_disclosures s))" "d \<in> set (st_disclosures s)"
  shows "disclosure_of (di_id d) s = Some d"
proof -
  obtain e where e: "disclosure_of (di_id d) s = Some e" using assms(2) disclosure_of_None[of "di_id d" s] by fastforce
  then have "e = d" using disclosure_of_Some[OF e] assms by (meson distinct_map inj_onD)
  then show ?thesis using e by simp
qed

lemma inserted_disclosure:
  assumes "insert_disclosure d s = Some s'"
  shows "s' = s\<lparr>st_disclosures := st_disclosures s @ [d]\<rparr> \<and> disclosure_of (di_id d) s = None
     \<and> (\<forall>k. disclosure_of k s' = (if k = di_id d then Some d else disclosure_of k s))"
proof -
  have a: "disclosure_of (di_id d) s = None" and s': "s' = s\<lparr>st_disclosures := st_disclosures s @ [d]\<rparr>"
    using assms by (auto simp: insert_disclosure_def split: if_splits)
  have "disclosure_of k s' = (if k = di_id d then Some d else disclosure_of k s)" for k
    using a unfolding s' disclosure_of_def by (auto simp: find_append split: option.splits)
  then show ?thesis using a s' by blast
qed

lemma find_replaced: "find (\<lambda>e. di_id e = k) (map (\<lambda>e. if di_id e = di_id d then d else e) ds)
   = (if k = di_id d then map_option (\<lambda>_. d) (find (\<lambda>e. di_id e = k) ds) else find (\<lambda>e. di_id e = k) ds)"
  by (induction ds) auto

lemma upserted_disclosure: "disclosure_of k (upsert_disclosure d s) = (if k = di_id d then Some d else disclosure_of k s)"
  by (auto simp: upsert_disclosure_def disclosure_of_def find_append find_replaced split: option.splits)

lemma upsert_rows: "e \<in> set (st_disclosures (upsert_disclosure d s)) \<longleftrightarrow> e = d \<or> (e \<in> set (st_disclosures s) \<and> di_id e \<noteq> di_id d)"
proof (cases "disclosure_of (di_id d) s")
  case None
  then have "\<And>e. e \<in> set (st_disclosures s) \<Longrightarrow> di_id e \<noteq> di_id d" unfolding disclosure_of_None by (metis imageI)
  then show ?thesis using None by (auto simp: upsert_disclosure_def)
next
  case (Some x)
  then have "x \<in> set (st_disclosures s) \<and> di_id x = di_id d" using disclosure_of_Some by blast
  then show ?thesis using Some by (auto simp: upsert_disclosure_def)
qed

lemma upsert_keys: "distinct (map di_id (st_disclosures s)) \<Longrightarrow> distinct (map di_id (st_disclosures (upsert_disclosure d s)))"
proof -
  have "map di_id (map (\<lambda>e. if di_id e = di_id d then d else e) ds) = map di_id ds" for ds by (induction ds) auto
  then show "distinct (map di_id (st_disclosures s)) \<Longrightarrow> distinct (map di_id (st_disclosures (upsert_disclosure d s)))"
    by (simp add: upsert_disclosure_def disclosure_of_None del: map_map)
qed

section \<open>What a run is accountable for\<close>

definition reads_about :: "string \<Rightarrow> mem_store \<Rightarrow> string set" where
  "reads_about t s = set (concat (map di_about (session_reads t s)))"

definition accountable :: "string \<Rightarrow> mem_store \<Rightarrow> string set" where
  "accountable t s = (case disclosure_of (Reply_disclosure t) s of
     Some d \<Rightarrow> set (di_about d)
   | None \<Rightarrow> (case map_of (st_runs s) t of None \<Rightarrow> {} | Some a \<Rightarrow> insert (ra_person a) (set (ra_subjects a) \<union> reads_about t s)))"

definition no_root_session :: "string \<Rightarrow> mem_store \<Rightarrow> bool" where
  "no_root_session t s = (\<forall>token x. resolveSession token s = Some x \<longrightarrow> \<not> (se_role x = Root_role \<and> se_thread x = t))"

definition run_of :: "string \<Rightarrow> mem_session \<Rightarrow> mem_store \<Rightarrow> bool" where
  "run_of token x s = (\<exists>a. map_of (st_runs s) (se_thread x) = Some a \<and> ra_token a = token \<and> ra_person a = se_person x)"

definition read_row_ok :: "disclosure \<Rightarrow> bool" where
  "read_row_ok d = (\<forall>p t u. di_id d = Read_disclosure p t u \<longrightarrow> ms_thread (di_setting d) = Some t \<and> di_kind d = Some ''memory-read'')"

definition runs_sound :: "mem_store \<Rightarrow> bool" where
  "runs_sound s = ((\<forall>k a. map_of (st_runs s) k = Some a \<longrightarrow> ra_id a = k)
     \<and> (\<forall>token x. resolveSession token s = Some x \<longrightarrow> se_role x = Root_role \<longrightarrow> run_of token x s)
     \<and> distinct (map di_id (st_disclosures s)) \<and> (\<forall>d\<in>set (st_disclosures s). read_row_ok d)
     \<and> (\<forall>t. disclosure_of (Reply_disclosure t) s \<noteq> None \<longrightarrow> map_of (st_runs s) t \<noteq> None \<and> no_root_session t s))"

definition told_accounted :: "mem_store \<Rightarrow> (string \<times> string list) list \<Rightarrow> bool" where
  "told_accounted s told = (\<forall>t xs. (t, xs) \<in> set told \<longrightarrow> set xs \<subseteq> accountable t s)"

definition account_ok :: "(string \<times> string list) list \<Rightarrow> mem_store \<Rightarrow> bool" where
  "account_ok told s = (runs_sound s \<and> told_accounted s told)"

lemma told_grows:
  assumes "told_accounted s told" and "\<And>t. accountable t s \<subseteq> accountable t s'"
  shows "told_accounted s' told"
  using assms unfolding told_accounted_def by blast

text \<open>Memories, resumptions and continuations do not matter to it.\<close>

lemma account_ok_cong:
  assumes "account_ok told s" "st_disclosures s' = st_disclosures s" "st_runs s' = st_runs s" "st_sessions s' = st_sessions s"
  shows "account_ok told s'"
proof -
  have d: "disclosure_of k s' = disclosure_of k s" for k using assms(2) by (simp add: disclosure_of_def)
  have r: "reads_about t s' = reads_about t s" for t using assms(2) by (simp add: reads_about_def session_reads_def)
  have a: "accountable t s' = accountable t s" for t unfolding accountable_def d r assms(3) ..
  have n: "no_root_session t s' = no_root_session t s" "run_of k x s' = run_of k x s" for t k x
    using assms(3,4) by (simp_all add: no_root_session_def resolveSession_def run_of_def)
  show ?thesis using assms(1) unfolding account_ok_def runs_sound_def told_accounted_def resolveSession_def assms(2-4) d n a .
qed

lemma session_reads_insert: "session_reads t (s\<lparr>st_disclosures := st_disclosures s @ [d]\<rparr>)
   = session_reads t s @ (if di_kind d = Some ''memory-read'' \<and> ms_thread (di_setting d) = Some t then [d] else [])"
  by (simp add: session_reads_def)

text \<open>A new row other than a read's or a reply's.\<close>

lemma account_ok_insert:
  assumes J: "account_ok told s" and i: "insert_disclosure d s = Some s'"
    and k: "\<forall>t. di_id d \<noteq> Reply_disclosure t" "\<forall>p t u. di_id d \<noteq> Read_disclosure p t u"
  shows "account_ok told s'"
proof -
  have s': "s' = s\<lparr>st_disclosures := st_disclosures s @ [d]\<rparr>" and fresh: "disclosure_of (di_id d) s = None"
    and of': "disclosure_of j s' = (if j = di_id d then Some d else disclosure_of j s)" for j
    using inserted_disclosure[OF i] by blast+
  have reply: "disclosure_of (Reply_disclosure t) s' = disclosure_of (Reply_disclosure t) s" for t using of'[of "Reply_disclosure t"] k(1) by metis
  have runs: "st_runs s' = st_runs s" "st_sessions s' = st_sessions s" using s' by simp_all
  have n: "no_root_session t s' = no_root_session t s" "run_of j x s' = run_of j x s" for t j x
    using runs by (simp_all add: no_root_session_def resolveSession_def run_of_def)
  have grow: "accountable t s \<subseteq> accountable t s'" for t
    unfolding accountable_def reply runs reads_about_def using session_reads_insert[of t s d] unfolding s'[symmetric]
    by (auto split: option.splits)
  have dist: "distinct (map di_id (st_disclosures s'))" and rows: "\<forall>e\<in>set (st_disclosures s'). read_row_ok e"
    using J fresh k(2) unfolding account_ok_def runs_sound_def s' by (auto simp: disclosure_of_None read_row_ok_def)
  have "runs_sound s'" using J dist rows unfolding account_ok_def runs_sound_def reply n runs resolveSession_def by blast
  then show ?thesis using J told_grows[OF _ grow] unfolding account_ok_def by blast
qed

text \<open>A read's row, or its change, that says at least what was said before.\<close>

lemma account_ok_upsert:
  assumes J: "account_ok told s" and k: "di_id d = Read_disclosure p t u" and ok: "read_row_ok d"
    and keeps: "\<And>e. disclosure_of (di_id d) s = Some e \<Longrightarrow> set (di_about e) \<subseteq> set (di_about d)"
  shows "account_ok told (upsert_disclosure d s)"
proof -
  let ?s' = "upsert_disclosure d s"
  have dist: "distinct (map di_id (st_disclosures s))" and rows: "\<forall>e\<in>set (st_disclosures s). read_row_ok e"
    using J unfolding account_ok_def runs_sound_def by blast+
  have runs: "st_runs ?s' = st_runs s" "st_sessions ?s' = st_sessions s" by (simp_all add: upsert_disclosure_def)
  have reply: "disclosure_of (Reply_disclosure j) ?s' = disclosure_of (Reply_disclosure j) s" for j
    using k by (simp add: upserted_disclosure)
  have n: "no_root_session j ?s' = no_root_session j s" "run_of j' x ?s' = run_of j' x s" for j j' x
    using runs by (simp_all add: no_root_session_def resolveSession_def run_of_def)
  have reads: "reads_about j s \<subseteq> reads_about j ?s'" for j
  proof
    fix x assume "x \<in> reads_about j s"
    then obtain e where e: "e \<in> set (st_disclosures s)" "di_kind e = Some ''memory-read''" "ms_thread (di_setting e) = Some j" "x \<in> set (di_about e)"
      by (auto simp: reads_about_def session_reads_def)
    show "x \<in> reads_about j ?s'"
    proof (cases "di_id e = di_id d")
      case True
      then have same: "disclosure_of (di_id d) s = Some e" using disclosure_of_unique[OF dist e(1)] by simp
      have "ms_thread (di_setting e) = Some t" using rows e(1) True k by (auto simp: read_row_ok_def)
      then have j: "j = t" using e(3) by simp
      have "ms_thread (di_setting d) = Some t" "di_kind d = Some ''memory-read''" using ok k by (auto simp: read_row_ok_def)
      moreover have "d \<in> set (st_disclosures ?s')" by (simp add: upsert_rows)
      moreover have "x \<in> set (di_about d)" using keeps[OF same] e(4) by blast
      ultimately show ?thesis unfolding j reads_about_def session_reads_def by auto
    next
      case False
      then have "e \<in> set (st_disclosures ?s')" using e(1) by (simp add: upsert_rows)
      then show ?thesis using e(2-4) unfolding reads_about_def session_reads_def by auto
    qed
  qed
  have grow: "accountable j s \<subseteq> accountable j ?s'" for j
    unfolding accountable_def reply runs using reads[of j] by (auto split: option.splits)
  have rows': "\<forall>e\<in>set (st_disclosures ?s'). read_row_ok e" using rows ok by (auto simp: upsert_rows)
  have "runs_sound ?s'" using J rows' upsert_keys[OF dist] unfolding account_ok_def runs_sound_def reply n runs resolveSession_def by blast
  then show ?thesis using J told_grows[OF _ grow] unfolding account_ok_def by blast
qed

section \<open>Sessions, admissions and replies keep the account\<close>

lemma reads_about_sessions [simp]:
  "reads_about t (s\<lparr>st_sessions := x\<rparr>) = reads_about t s" "reads_about t (s\<lparr>st_runs := y\<rparr>) = reads_about t s"
  "reads_about t (s\<lparr>st_continued := z\<rparr>) = reads_about t s" "disclosure_of k (s\<lparr>st_sessions := x\<rparr>) = disclosure_of k s"
  "disclosure_of k (s\<lparr>st_runs := y\<rparr>) = disclosure_of k s"
  by (simp_all add: reads_about_def session_reads_def disclosure_of_def)

lemma accountable_sessions: "accountable t (s\<lparr>st_sessions := x\<rparr>) = accountable t s"
proof -
  have "st_runs (s\<lparr>st_sessions := x\<rparr>) = st_runs s" by simp
  then show ?thesis unfolding accountable_def reads_about_sessions by metis
qed

lemma account_ok_end:
  assumes "account_ok told s" shows "account_ok told (end_session k s)"
proof -
  have r: "resolveSession j (end_session k s) = (if j = k then None else resolveSession j s)" for j
    by (simp add: end_session_def resolveSession_def)
  have d: "disclosure_of j (end_session k s) = disclosure_of j s" "st_disclosures (end_session k s) = st_disclosures s"
    "st_runs (end_session k s) = st_runs s" "accountable t (end_session k s) = accountable t s" for j t
    by (simp_all add: end_session_def accountable_sessions)
  have n: "no_root_session t s \<Longrightarrow> no_root_session t (end_session k s)" "run_of j x (end_session k s) = run_of j x s" for t j x
    using r d by (auto simp: no_root_session_def run_of_def)
  have "runs_sound (end_session k s)"
    using assms n unfolding account_ok_def runs_sound_def d r by auto
  moreover have "told_accounted (end_session k s) told" using assms unfolding account_ok_def told_accounted_def d by blast
  ultimately show ?thesis unfolding account_ok_def by blast
qed

lemma account_ok_person_session:
  assumes J: "account_ok told s" and i: "new_session token person thread Person_role s = Some s'"
  shows "account_ok told s'"
proof -
  have s': "s' = s\<lparr>st_sessions := map_put token \<lparr>se_person = person, se_thread = thread, se_role = Person_role\<rparr> (st_sessions s)\<rparr>"
    and free: "resolveSession token s = None" using i by (auto simp: new_session_def resolveSession_def split: if_splits)
  have r: "resolveSession j s' = (if j = token then Some \<lparr>se_person = person, se_thread = thread, se_role = Person_role\<rparr> else resolveSession j s)" for j
    by (simp add: s' resolveSession_def)
  have d: "disclosure_of j s' = disclosure_of j s" "st_disclosures s' = st_disclosures s" "st_runs s' = st_runs s" "accountable t s' = accountable t s" for j t
    unfolding s' accountable_sessions by simp_all
  have n: "no_root_session t s \<Longrightarrow> no_root_session t s'" "run_of j x s' = run_of j x s" for t j x
    using r d by (auto simp: no_root_session_def run_of_def)
  have "runs_sound s'" using J n unfolding account_ok_def runs_sound_def d by (auto simp: r)
  moreover have "told_accounted s' told" using J unfolding account_ok_def told_accounted_def d by blast
  ultimately show ?thesis unfolding account_ok_def by blast
qed

lemma admitted_run:
  assumes "admitRoot k token person thread recipients subjects room s = Some (a, s')"
  shows "a = new_admission k token person thread recipients subjects room \<and> map_of (st_runs s) k = None \<and> resolveSession token s = None
    \<and> s' = s\<lparr>st_sessions := map_put token \<lparr>se_person = person, se_thread = k, se_role = Root_role\<rparr> (st_sessions s), st_runs := map_put k a (st_runs s)\<rparr>"
  using assms by (auto simp: admitRoot_def new_session_def resolveSession_def Let_def split: if_splits)

lemma account_ok_admit:
  assumes J: "account_ok told s" and i: "admitRoot k token person thread recipients subjects room s = Some (a, s')"
  shows "account_ok told s'"
proof -
  define x where "x = \<lparr>se_person = person, se_thread = k, se_role = Root_role\<rparr>"
  have a: "a = new_admission k token person thread recipients subjects room" and free: "map_of (st_runs s) k = None" "resolveSession token s = None"
    and s': "s' = s\<lparr>st_sessions := map_put token x (st_sessions s), st_runs := map_put k a (st_runs s)\<rparr>"
    using admitted_run[OF i] unfolding x_def by blast+
  have r: "resolveSession j s' = (if j = token then Some x else resolveSession j s)" for j by (simp add: s' resolveSession_def)
  have q: "map_of (st_runs s') j = (if j = k then Some a else map_of (st_runs s) j)" for j by (simp add: s')
  have d: "disclosure_of j s' = disclosure_of j s" "st_disclosures s' = st_disclosures s" "reads_about t s' = reads_about t s" for j t
    unfolding s' by (simp_all add: disclosure_of_def reads_about_def session_reads_def)
  have old: "\<forall>j b. map_of (st_runs s) j = Some b \<longrightarrow> ra_id b = j" "\<forall>j y. resolveSession j s = Some y \<longrightarrow> se_role y = Root_role \<longrightarrow> run_of j y s"
    "distinct (map di_id (st_disclosures s))" "\<forall>e\<in>set (st_disclosures s). read_row_ok e"
    "\<forall>t. disclosure_of (Reply_disclosure t) s \<noteq> None \<longrightarrow> map_of (st_runs s) t \<noteq> None \<and> no_root_session t s"
    using J unfolding account_ok_def runs_sound_def by blast+
  have grow: "accountable t s \<subseteq> accountable t s'" for t
    unfolding accountable_def d using q free by (auto split: option.splits)
  have ids: "\<forall>j b. map_of (st_runs s') j = Some b \<longrightarrow> ra_id b = j" using old(1) a by (simp add: q new_admission_def)
  have sess: "run_of j y s'" if "resolveSession j s' = Some y" "se_role y = Root_role" for j y
  proof (cases "j = token")
    case True
    then show ?thesis using that a by (auto simp: run_of_def r q x_def new_admission_def)
  next
    case False
    then have "run_of j y s" using old(2) that r by simp
    then show ?thesis using free(1) q unfolding run_of_def by fastforce
  qed
  have rep: "map_of (st_runs s') t \<noteq> None \<and> no_root_session t s'" if "disclosure_of (Reply_disclosure t) s' \<noteq> None" for t
  proof -
    have o: "map_of (st_runs s) t \<noteq> None" "no_root_session t s" using that old(5) d by auto
    then have "t \<noteq> k" using free(1) by auto
    then show ?thesis using o by (auto simp: no_root_session_def q r x_def)
  qed
  have "runs_sound s'" unfolding runs_sound_def d(2) using ids sess rep old(3,4) by blast
  then show ?thesis using J told_grows[OF _ grow] unfolding account_ok_def by blast
qed

text \<open>A run whose subjects grow.\<close>

lemma account_ok_subject:
  assumes J: "account_ok told s" and seen: "admission = None \<or> (\<exists>t. admission = rootAdmission t s)"
  shows "account_ok told (account_subject admission subject s)"
proof (cases "admission = None \<or> subject = ''root:kenan''")
  case True
  then show ?thesis using J by (auto simp: account_subject_def split: option.splits)
next
  case False
  then obtain a t where a: "admission = Some a" "map_of (st_runs s) t = Some a" and sub: "subject \<noteq> ''root:kenan''"
    using seen unfolding rootAdmission_def by (metis option.exhaust)
  have old: "\<forall>j b. map_of (st_runs s) j = Some b \<longrightarrow> ra_id b = j" "\<forall>j y. resolveSession j s = Some y \<longrightarrow> se_role y = Root_role \<longrightarrow> run_of j y s"
    "distinct (map di_id (st_disclosures s))" "\<forall>e\<in>set (st_disclosures s). read_row_ok e"
    "\<forall>t. disclosure_of (Reply_disclosure t) s \<noteq> None \<longrightarrow> map_of (st_runs s) t \<noteq> None \<and> no_root_session t s"
    using J unfolding account_ok_def runs_sound_def by blast+
  have k: "ra_id a = t" using old(1) a(2) by blast
  define b where "b = a\<lparr>ra_subjects := members (ra_subjects a @ [subject])\<rparr>"
  define s' where "s' = s\<lparr>st_runs := map_put t b (st_runs s)\<rparr>"
  have s': "account_subject admission subject s = s'"
    using a k sub by (simp add: account_subject_def rootAdmission_def s'_def b_def)
  have q: "map_of (st_runs s') j = (if j = t then Some b else map_of (st_runs s) j)" for j by (simp add: s'_def)
  have r: "resolveSession j s' = resolveSession j s" for j by (simp add: s'_def resolveSession_def)
  have d: "disclosure_of j s' = disclosure_of j s" "st_disclosures s' = st_disclosures s" "reads_about i s' = reads_about i s" for i j
    unfolding s'_def by simp_all
  have n: "no_root_session i s' = no_root_session i s" for i by (simp add: no_root_session_def r)
  have b: "ra_id b = t" "ra_person b = ra_person a" "ra_token b = ra_token a" "set (ra_subjects a) \<subseteq> set (ra_subjects b)"
    using k by (auto simp: b_def)
  have grow: "accountable i s \<subseteq> accountable i s'" for i
    unfolding accountable_def d using q a(2) b by (auto split: option.splits)
  have sess: "run_of j y s'" if "run_of j y s" for j y
    using that a(2) b q unfolding run_of_def by (cases "se_thread y = t") auto
  have "runs_sound s'" unfolding runs_sound_def d(1,2) n r using old sess b(1) by (auto simp: q)
  then show ?thesis unfolding s' using J told_grows[OF _ grow] unfolding account_ok_def by blast
qed

text \<open>The reply says all that is accountable, and ends the run's session.\<close>

lemma account_ok_reply:
  assumes J: "account_ok told s" and a: "map_of (st_runs s) t = Some a" and k: "di_id d = Reply_disclosure t"
    and i: "insert_disclosure d s = Some s'" and all: "accountable t s \<subseteq> set (di_about d)" and kind: "di_kind d \<noteq> Some ''memory-read''"
  shows "account_ok told (end_session (ra_token a) s')"
proof -
  let ?e = "end_session (ra_token a) s'"
  have s': "s' = s\<lparr>st_disclosures := st_disclosures s @ [d]\<rparr>" and fresh: "disclosure_of (di_id d) s = None"
    and of': "disclosure_of j s' = (if j = di_id d then Some d else disclosure_of j s)" for j
    using inserted_disclosure[OF i] by blast+
  have old: "\<forall>j b. map_of (st_runs s) j = Some b \<longrightarrow> ra_id b = j" "\<forall>j y. resolveSession j s = Some y \<longrightarrow> se_role y = Root_role \<longrightarrow> run_of j y s"
    "distinct (map di_id (st_disclosures s))" "\<forall>e\<in>set (st_disclosures s). read_row_ok e"
    "\<forall>t. disclosure_of (Reply_disclosure t) s \<noteq> None \<longrightarrow> map_of (st_runs s) t \<noteq> None \<and> no_root_session t s"
    using J unfolding account_ok_def runs_sound_def by blast+
  have r: "resolveSession j ?e = (if j = ra_token a then None else resolveSession j s)" for j by (simp add: s' end_session_def resolveSession_def)
  have e: "st_runs ?e = st_runs s" "st_disclosures ?e = st_disclosures s @ [d]" "disclosure_of j ?e = disclosure_of j s'" for j
    by (simp_all add: s' end_session_def)
  have "reads_about j s' = reads_about j s" for j
    using kind session_reads_insert[of j s d] unfolding s' reads_about_def by simp
  then have reads: "reads_about j ?e = reads_about j s" for j by (simp only: end_session_def reads_about_sessions)
  have run: "run_of j y ?e = run_of j y s" for j y by (simp add: run_of_def e)
  have none: "no_root_session t ?e" unfolding no_root_session_def
  proof (intro allI impI notI)
    fix j y assume y: "resolveSession j ?e = Some y" and rt: "se_role y = Root_role \<and> se_thread y = t"
    then have j: "j \<noteq> ra_token a" "resolveSession j s = Some y" by (auto simp: r split: if_splits)
    then have "run_of j y s" using old(2) rt by blast
    then show False using rt a j(1) by (auto simp: run_of_def)
  qed
  have keep: "no_root_session i ?e" if "no_root_session i s" for i using that by (auto simp: no_root_session_def r)
  have rep: "map_of (st_runs ?e) i \<noteq> None \<and> no_root_session i ?e" if "disclosure_of (Reply_disclosure i) ?e \<noteq> None" for i
  proof (cases "i = t")
    case True
    then show ?thesis using none a e by simp
  next
    case False
    then have "disclosure_of (Reply_disclosure i) s \<noteq> None" using that k by (simp add: e of')
    then show ?thesis using old(5) keep e by auto
  qed
  have grow: "accountable i s \<subseteq> accountable i ?e" for i
  proof (cases "i = t")
    case True
    then show ?thesis using all k by (simp add: accountable_def[of _ ?e] e of')
  next
    case False
    then show ?thesis using k unfolding accountable_def e(1) reads by (simp add: e of')
  qed
  have dist: "distinct (map di_id (st_disclosures ?e))" using old(3) fresh by (auto simp: e disclosure_of_None)
  have rows: "\<forall>x\<in>set (st_disclosures ?e). read_row_ok x" using old(4) k by (auto simp: e read_row_ok_def)
  have sess: "\<forall>j y. resolveSession j ?e = Some y \<longrightarrow> se_role y = Root_role \<longrightarrow> run_of j y ?e"
    using old(2) by (auto simp: r run split: if_splits)
  have "runs_sound ?e" unfolding runs_sound_def using dist rows rep sess old(1) e(1) by auto
  then show ?thesis using J told_grows[OF _ grow] unfolding account_ok_def by blast
qed

section \<open>Every operation keeps the account\<close>

lemma report_keeps:
  assumes J: "account_ok told s" and r: "report now person c items s = (r, s')"
  shows "account_ok told s'"
proof (cases "items \<noteq> [] \<and> touches_others person c items")
  case False
  then show ?thesis using r J by (auto simp: report_def)
next
  case True
  define d where "d = read_log now person c items (disclosure_of (read_id person c) s)"
  have s': "s' = upsert_disclosure d s" using r True by (auto simp: report_def d_def)
  have k: "di_id d = Read_disclosure person (mx_thread c) (mx_turn c)" by (simp add: d_def read_log_def read_id_def Let_def)
  have ok: "read_row_ok d" unfolding read_row_ok_def k by (simp add: d_def read_log_def Let_def run_setting_def)
  have keeps: "set (di_about e) \<subseteq> set (di_about d)" if "disclosure_of (di_id d) s = Some e" for e
  proof -
    have "disclosure_of (read_id person c) s = Some e" using that k by (simp add: read_id_def)
    then show ?thesis by (auto simp: d_def read_log_def Let_def old_about_def)
  qed
  show ?thesis unfolding s' by (rule account_ok_upsert[OF J k ok keeps])
qed

lemma session_read_counts:
  assumes "d \<in> set (st_disclosures s)" "di_kind d = Some ''memory-read''" "ms_thread (di_setting d) = Some t" "x \<in> set (di_about d)"
  shows "x \<in> reads_about t s"
  using assms unfolding reads_about_def session_reads_def by auto

text \<open>What a root session is told in a report is what its run is accountable for.\<close>

lemma report_accounts:
  assumes r: "report now person c items s = (r, s')" and run: "map_of (st_runs s) (mx_thread c) = Some a" "ra_person a = person"
    and open_run: "disclosure_of (Reply_disclosure (mx_thread c)) s = None"
  shows "set (concat (map snd items)) \<subseteq> accountable (mx_thread c) s'"
proof (cases "items \<noteq> [] \<and> touches_others person c items")
  case False
  then have "s' = s" "set (concat (map snd items)) \<subseteq> {person}" using r by (auto simp: report_def touches_others_def)
  then show ?thesis using run open_run by (auto simp: accountable_def)
next
  case True
  define d where "d = read_log now person c items (disclosure_of (read_id person c) s)"
  have s': "s' = upsert_disclosure d s" using r True by (auto simp: report_def d_def)
  have d: "di_kind d = Some ''memory-read''" "ms_thread (di_setting d) = Some (mx_thread c)" "set (concat (map snd items)) \<subseteq> set (di_about d)"
    "di_id d \<noteq> Reply_disclosure (mx_thread c)"
    by (auto simp: d_def read_log_def Let_def run_setting_def read_id_def)
  have row: "d \<in> set (st_disclosures s')" unfolding s' by (simp add: upsert_rows)
  have still: "disclosure_of (Reply_disclosure (mx_thread c)) s' = None" "map_of (st_runs s') (mx_thread c) = Some a"
    using open_run run d(4) unfolding s' by (simp_all add: upserted_disclosure) (simp add: upsert_disclosure_def)
  have "set (di_about d) \<subseteq> reads_about (mx_thread c) s'" using session_read_counts[OF row d(1,2)] by blast
  then show ?thesis using d(3) still unfolding accountable_def by auto
qed

lemma write_keeps:
  assumes J: "account_ok told s" and w: "mem_write fresh now person i s = Some (x, s')"
  shows "account_ok told s'"
proof -
  have "st_disclosures s' = st_disclosures s \<and> st_runs s' = st_runs s \<and> st_sessions s' = st_sessions s"
    using w unfolding mem_write_def insert_memory_def by (auto split: option.splits if_splits)
  then show ?thesis using account_ok_cong[OF J] by blast
qed

lemma forget_keeps: "account_ok told s \<Longrightarrow> account_ok told (snd (mem_forget mode now ids s))"
proof (induction ids arbitrary: s)
  case (Cons k ks)
  have "account_ok told (s\<lparr>st_memories := rows\<rparr>)" for rows by (rule account_ok_cong[OF Cons.prems]) simp_all
  then show ?case using Cons by (auto simp: Let_def split: option.splits prod.splits) (metis snd_conv)+
qed simp

lemma disclose_keeps:
  assumes J: "account_ok told s" and d: "disclose fresh now person i s = Some (x, s')"
  shows "account_ok told s'"
proof -
  obtain e where e: "insert_disclosure e s = Some s'" "di_id e = Plain_disclosure fresh"
    using d by (auto simp: disclose_def Let_def)
  show ?thesis by (rule account_ok_insert[OF J e(1)]) (simp_all add: e(2))
qed

lemma finalize_keeps:
  assumes J: "account_ok told s"
  shows "account_ok told (snd (finalize now person c reply s))"
proof (cases "disclosure_of (read_id person c) s")
  case None
  then show ?thesis using J by (simp add: finalize_def)
next
  case (Some d)
  define e where "e = d\<lparr>di_final := Some reply, di_finalized := Some now\<rparr>"
  have d: "di_id d = read_id person c" "d \<in> set (st_disclosures s)" using disclosure_of_Some[OF Some] by blast+
  have k: "di_id e = Read_disclosure person (mx_thread c) (mx_turn c)" using d by (simp add: e_def read_id_def)
  have "read_row_ok d" using J d(2) unfolding account_ok_def runs_sound_def by blast
  then have ok: "read_row_ok e" by (simp add: read_row_ok_def e_def)
  have "account_ok told (upsert_disclosure e s)"
    using account_ok_upsert[OF J k ok] Some k by (simp add: read_id_def e_def)
  then show ?thesis using Some by (simp add: finalize_def e_def)
qed

lemma logged_keeps:
  assumes "account_ok told s" "logged f x d s = Some (y, s')" "\<forall>t. di_id d \<noteq> Reply_disclosure t" "\<forall>p t u. di_id d \<noteq> Read_disclosure p t u"
  shows "account_ok told s'"
  using assms account_ok_insert unfolding logged_def by auto

lemma root_refused_keeps: "account_ok told s \<Longrightarrow> root_refused message s = Some (x, s') \<Longrightarrow> account_ok told s'"
  by (simp add: root_refused_def)

lemma consent_log_keeps:
  assumes J: "account_ok told s" and l: "logConsent now root consent subject k content s = Some (x, s')"
  shows "account_ok told s'"
proof (cases "rootAdmission root s")
  case None
  then show ?thesis using l root_refused_keeps[OF J] by (simp add: logConsent_def)
next
  case (Some a)
  define d where "d = consent_entry now a k consent subject content"
  have id: "\<forall>t. di_id d \<noteq> Reply_disclosure t" "\<forall>p t u. di_id d \<noteq> Read_disclosure p t u"
    by (simp_all add: d_def consent_entry_def root_disclosure_def consent_id_def)
  have l: "(case disclosure_of (consent_id k root consent) s of
       Some d \<Rightarrow> if di_text d = content \<and> di_subject d = Some subject then Some (Inr d, s)
         else root_refused ''Consent event was already logged with different content or subject'' s
     | None \<Rightarrow> if k = Consent_answer \<and> \<not> question_asked root consent subject s
         then root_refused ''Consent answers require a logged question to the same subject'' s
         else logged (\<lambda>d. d) d d s) = Some (x, s')"
    using l unfolding logConsent_def Some option.case Let_def d_def .
  show ?thesis using l J logged_keeps[OF J _ id] by (auto simp: root_refused_def split: option.splits if_splits)
qed

lemma status_log_keeps:
  assumes J: "account_ok told s" and l: "logRequestStatus now root request status s = Some (x, s')"
  shows "account_ok told s'"
proof (cases "rootAdmission root s")
  case None
  then show ?thesis using l root_refused_keeps[OF J] by (simp add: logRequestStatus_def)
next
  case (Some a)
  define d where "d = root_disclosure (Status_disclosure root request) ''root-request-status'' now (kenanRequestNotice request status) a (members (ra_subjects a @ [ra_person a])) (ra_recipients a)"
  have id: "\<forall>t. di_id d \<noteq> Reply_disclosure t" "\<forall>p t u. di_id d \<noteq> Read_disclosure p t u" by (simp_all add: d_def root_disclosure_def)
  have l: "(case disclosure_of (Status_disclosure root request) s of
         Some d \<Rightarrow> if di_text d = kenanRequestNotice request status then Some (Inr (Status_disclosure root request), s) else root_refused ''Request status was already recorded differently'' s
       | None \<Rightarrow> logged (\<lambda>k. k) (Status_disclosure root request) d s) = Some (x, s')"
    using l unfolding logRequestStatus_def Some option.case Let_def d_def .
  show ?thesis using l J logged_keeps[OF J _ id] by (auto simp: root_refused_def split: option.splits if_splits)
qed

lemma notification_log_keeps:
  assumes J: "account_ok told s" and l: "logNotification e fresh now n s = Some (x, s')"
  shows "account_ok told s'"
proof (cases "rootAdmission (no_root n) s = None \<or> disclosure_of (Notification_disclosure (no_root n) (no_id n)) s \<noteq> None")
  case True
  then show ?thesis using l J unfolding logNotification_def Let_def by (auto simp: root_refused_def split: option.splits if_splits)
next
  case False
  then obtain a where a: "rootAdmission (no_root n) s = Some a" by (cases "rootAdmission (no_root n) s") simp_all
  define d where "d = notification_entry now a n"
  have id: "\<forall>t. di_id d \<noteq> Reply_disclosure t" "\<forall>p t u. di_id d \<noteq> Read_disclosure p t u"
    by (simp_all add: d_def notification_entry_def root_disclosure_def)
  obtain s1 y where s1: "insert_disclosure d s = Some s1" and w: "mem_write fresh now (ra_person a) (notification_memory e now a n) s1 = Some (y, s')"
    using l False a unfolding logNotification_def Let_def d_def by (auto simp: bind_eq_Some_conv)
  show ?thesis by (rule write_keeps[OF account_ok_insert[OF J s1 id] w])
qed

lemma supersede_keeps: "account_ok told s \<Longrightarrow> account_ok told (supersede a k s)"
proof -
  assume J: "account_ok told s"
  have "account_ok told (s\<lparr>st_continued := x\<rparr>)" for x by (rule account_ok_cong[OF J]) simp_all
  then show ?thesis using J account_ok_end by (simp add: supersede_def)
qed

lemma resume_keeps:
  assumes J: "account_ok told s" and l: "resumeConsent k token i s = Some (x, s')"
  shows "account_ok told s'"
proof (cases "s' = s")
  case False
  obtain a q r where a: "rootAdmission (cr_root i) s = Some a" and q: "consent_matches i q r"
    and l': "(case admitRoot k token (ra_person a) (ra_thread a) (ra_recipients a) (members (ra_subjects a @ di_about q @ di_about r @ [cr_subject i])) (ra_room a) s of
             None \<Rightarrow> None
           | Some (b, s') \<Rightarrow> Some (Inr b, supersede a k (s'\<lparr>st_resumes := map_put (cr_root i, cr_consent i) (i, b) (st_resumes s')\<rparr>))) = Some (x :: mem_error + run_admission, s')"
    using l False unfolding resumeConsent_def root_refused_def by (auto split: option.splits if_splits)
  then obtain b s1 where b: "admitRoot k token (ra_person a) (ra_thread a) (ra_recipients a) (members (ra_subjects a @ di_about q @ di_about r @ [cr_subject i])) (ra_room a) s = Some (b, s1)"
    and s': "s' = supersede a k (s1\<lparr>st_resumes := map_put (cr_root i, cr_consent i) (i, b) (st_resumes s1)\<rparr>)"
    by (auto split: option.splits)
  have "account_ok told (s1\<lparr>st_resumes := map_put (cr_root i, cr_consent i) (i, b) (st_resumes s1)\<rparr>)"
    by (rule account_ok_cong[OF account_ok_admit[OF J b]]) simp_all
  then show ?thesis unfolding s' by (rule supersede_keeps)
qed (use J in simp)

lemma reply_keeps:
  assumes J: "account_ok told s" and l: "finalizeRootReply now i s = Some (x, s')"
  shows "account_ok told s'"
proof (cases "s' = s")
  case False
  define t where "t = ri_root i"
  obtain a s1 where a: "rootAdmission t s = Some a" and new: "disclosure_of (Reply_disclosure t) s = None"
    and i: "insert_disclosure (reply_entry now a i s) s = Some s1" and s': "s' = end_session (ra_token a) s1"
    using l False unfolding finalizeRootReply_def root_refused_def logged_def Let_def t_def by (auto split: option.splits if_splits)
  have run: "map_of (st_runs s) t = Some a" using a by (simp add: rootAdmission_def)
  have d: "di_id (reply_entry now a i s) = Reply_disclosure t" "di_kind (reply_entry now a i s) \<noteq> Some ''memory-read''"
    "di_about (reply_entry now a i s) = reply_about a i s"
    by (simp_all add: reply_entry_def root_disclosure_def t_def)
  have "accountable t s \<subseteq> set (di_about (reply_entry now a i s))"
    unfolding d(3) accountable_def new run by (auto simp: reply_about_def reads_about_def t_def)
  then show ?thesis unfolding s' using account_ok_reply[OF J run d(1) i _ d(2)] by blast
qed (use J in simp)

section \<open>Every call keeps the account\<close>

text \<open>What a reply tells a root session, as subjects under its run.\<close>

definition told_by :: "mem_call \<Rightarrow> mem_reply \<Rightarrow> string list option" where
  "told_by call r = (case r of
       Answer (Memories items _) \<Rightarrow> Some (concat (map (\<lambda>m. mi_about (mm_input m)) items))
     | Answer (Accounts ds _) \<Rightarrow> Some (concat (map di_about ds))
     | Answer (Life_done _) \<Rightarrow> (case call of Life_call (Person_target p) _ \<Rightarrow> if p = ''root:kenan'' then None else Some [p] | _ \<Rightarrow> None)
     | _ \<Rightarrow> None)"

definition root_thread :: "mem_caller option \<Rightarrow> string option" where
  "root_thread caller = (case caller of Some (Person_caller person role thread) \<Rightarrow> if role = Root_role then thread else None | _ \<Rightarrow> None)"

definition told_root :: "mem_caller option \<Rightarrow> mem_call \<Rightarrow> mem_reply \<Rightarrow> (string \<times> string list) list" where
  "told_root caller call r = (case (root_thread caller, told_by call r) of (Some t, Some xs) \<Rightarrow> [(t, xs)] | _ \<Rightarrow> [])"

lemma told_by_Some:
  assumes "told_by call r = Some xs"
  shows "(\<exists>items rr. r = Answer (Memories items rr) \<and> xs = concat (map (\<lambda>m. mi_about (mm_input m)) items))
    \<or> (\<exists>ds rr. r = Answer (Accounts ds rr) \<and> xs = concat (map di_about ds))
    \<or> (\<exists>v p q. r = Answer (Life_done v) \<and> call = Life_call (Person_target p) q \<and> p \<noteq> ''root:kenan'' \<and> xs = [p])"
proof (cases r)
  case (Answer a)
  then show ?thesis using assms
    by (cases a) (auto simp: told_by_def split: mem_call.splits life_target.splits if_splits)
qed (use assms in \<open>simp_all add: told_by_def\<close>)

lemma root_thread_Some: "root_thread caller = Some t \<Longrightarrow> \<exists>p. caller = Some (Person_caller p Root_role (Some t))"
  by (auto simp: root_thread_def split: option.splits mem_caller.splits if_splits)

interpretation account: store_invariant "account_ok told" "\<lambda>_. True" for told
proof
  show "account_ok told s'" if "account_ok told s" "report now p c items s = (rr, s')" for now p c items s rr s' using report_keeps that .
  show "account_ok told s'" if "account_ok told s" "True" "mem_write fresh now p i s = Some (x, s')" for fresh now p i s x s' using write_keeps that(1,3) .
  show "account_ok told s'" if "account_ok told s" "new_session token p thread Person_role s = Some s'" for s token p thread s' using account_ok_person_session that .
  show "account_ok told s'" if "account_ok told s" "admitRoot k token p thread recipients subjects room s = Some (a, s')" for s k token p thread recipients subjects room a s'
    using account_ok_admit that .
  show "account_ok told (account_subject admission subject s)" if "account_ok told s" "admission = None \<or> (\<exists>t. admission = rootAdmission t s)" for s admission subject
    using account_ok_subject that .
  show "account_ok told (snd (mem_forget mode now ids s))" if "account_ok told s" for mode now ids s using forget_keeps that .
  show "account_ok told (snd (finalize now p c reply s))" if "account_ok told s" for now p c reply s using finalize_keeps that .
  show "account_ok told s'" if "account_ok told s" "disclose fresh now p di s = Some (d, s')" for s fresh now p di d s' using disclose_keeps that .
  show "account_ok told s'" if "account_ok told s" "logConsent now root consent subject ck content s = Some (y, s')" for s now root consent subject ck content y s'
    using consent_log_keeps that .
  show "account_ok told s'" if "account_ok told s" "logRequestStatus now root request status s = Some (z, s')" for s now root request status z s' using status_log_keeps that .
  show "account_ok told s'" if "account_ok told s" "True" "logNotification e fresh now n s = Some (z, s')" for s e fresh now n z s' using notification_log_keeps that(1,3) .
  show "account_ok told s'" if "account_ok told s" "resumeConsent k token ri s = Some (u, s')" for s k token ri u s' using resume_keeps that .
  show "account_ok told s'" if "account_ok told s" "finalizeRootReply now rp s = Some (y, s')" for s now rp y s' using reply_keeps that .
qed

text \<open>What a call tells a root session is accounted for after it.\<close>

lemma root_principal:
  assumes "principal_of auth header uid s = Some (Person_caller p Root_role (Some t))"
  shows "\<exists>token x. resolveSession token s = Some x \<and> se_role x = Root_role \<and> se_thread x = t \<and> se_person x = p"
  using assms unfolding principal_of_def by (auto split: option.splits if_splits)

lemma root_caller_run:
  assumes J: "account_ok told s" and p: "principal_of auth header uid s = Some (Person_caller p Root_role (Some t))"
  shows "disclosure_of (Reply_disclosure t) s = None \<and> (\<exists>a. map_of (st_runs s) t = Some a \<and> ra_person a = p \<and> ra_id a = t)"
proof -
  obtain token x where x: "resolveSession token s = Some x" "se_role x = Root_role" "se_thread x = t" "se_person x = p"
    using root_principal[OF p] by blast
  have old: "\<forall>j b. map_of (st_runs s) j = Some b \<longrightarrow> ra_id b = j" "\<forall>j y. resolveSession j s = Some y \<longrightarrow> se_role y = Root_role \<longrightarrow> run_of j y s"
    "\<forall>t. disclosure_of (Reply_disclosure t) s \<noteq> None \<longrightarrow> map_of (st_runs s) t \<noteq> None \<and> no_root_session t s"
    using J unfolding account_ok_def runs_sound_def by blast+
  have "run_of token x s" using old(2) x by blast
  then obtain a where "map_of (st_runs s) t = Some a" "ra_person a = p" using x by (auto simp: run_of_def)
  moreover have "disclosure_of (Reply_disclosure t) s = None" using old(3) x unfolding no_root_session_def by blast
  ultimately show ?thesis using old(1) by blast
qed

lemma concat_items: "concat (map snd (map item_entry items)) = concat (map (\<lambda>m. mi_about (mm_input m)) items)"
  "concat (map snd (map (disclosure_entry e) ds)) = concat (map di_about ds)"
  by (simp_all add: comp_def item_entry_def disclosure_entry_def)

lemma dispatch_tells:
  assumes d: "mem_dispatch e fresh now p role r s = Some (a, s')" and fit: "setting_fits (Person_caller p role (Some t)) r"
    and run: "map_of (st_runs s) t = Some b" "ra_person b = p" and open_run: "disclosure_of (Reply_disclosure t) s = None"
  shows "\<And>items rr. a = Memories items rr \<Longrightarrow> set (concat (map (\<lambda>m. mi_about (mm_input m)) items)) \<subseteq> accountable t s'"
    and "\<And>ds rr. a = Accounts ds rr \<Longrightarrow> set (concat (map di_about ds)) \<subseteq> accountable t s'"
proof -
  have thread: "mx_thread c = t" if "request_context r = Some c" for c using fit that by (auto simp: setting_fits_def split: option.splits)
  have rep: "set (concat (map snd items)) \<subseteq> accountable t s''" if "report now p c items s = (rr, s'')" "mx_thread c = t" for c items rr s''
    using report_accounts[OF that(1)] run open_run that(2) by blast
  fix items rr assume a: "a = Memories items rr"
  have "\<exists>c. report now p c (map item_entry items) s = (rr, s') \<and> mx_thread c = t"
  proof (cases r)
    case (Search_memory query about limit c)
    then show ?thesis using d a thread[of c] by (auto simp: mem_dispatch_def mem_search_def request_context_def Let_def split: prod.splits)
  next
    case (Read_memory ids c)
    then show ?thesis using d a thread[of c] by (auto simp: mem_dispatch_def mem_read_def request_context_def Let_def split: prod.splits)
  qed (use d a in \<open>auto simp: mem_dispatch_def Let_def split: prod.splits\<close>)
  then show "set (concat (map (\<lambda>m. mi_about (mm_input m)) items)) \<subseteq> accountable t s'" using rep concat_items(1) by metis
next
  have thread: "mx_thread c = t" if "request_context r = Some c" for c using fit that by (auto simp: setting_fits_def split: option.splits)
  have rep: "set (concat (map snd items)) \<subseteq> accountable t s''" if "report now p c items s = (rr, s'')" "mx_thread c = t" for c items rr s''
    using report_accounts[OF that(1)] run open_run that(2) by blast
  fix ds rr assume a: "a = Accounts ds rr"
  have "\<exists>c. report now p c (map (disclosure_entry e) ds) s = (rr, s') \<and> mx_thread c = t"
  proof (cases r)
    case (List_disclosures c limit about)
    then show ?thesis using d a thread[of c] by (auto simp: mem_dispatch_def mem_disclosures_def request_context_def Let_def split: prod.splits)
  qed (use d a in \<open>auto simp: mem_dispatch_def Let_def split: prod.splits\<close>)
  then show "set (concat (map di_about ds)) \<subseteq> accountable t s'" using rep concat_items(2) by metis
qed

lemma life_tells:
  assumes run: "map_of (st_runs (mw_store w)) t = Some a" "ra_id a = t" and open_run: "disclosure_of (Reply_disclosure t) (mw_store w) = None"
    and s: "life_handler h m p Root_role (Some t) (life_admission Root_role (Some t) (mw_store w)) (Person_target q) request w = (Answer v, w')" and q: "q \<noteq> ''root:kenan''"
  shows "q \<in> accountable t (mw_store w')"
proof -
  have adm: "life_admission Root_role (Some t) (mw_store w) = Some a" using run by (simp add: life_admission_def rootAdmission_def)
  have step: "life_request_step h m p Root_role (Some t) (Some a) q request w = (Answer v, w')"
    using s q unfolding adm life_handler_def by (auto simp: denied_def invalid_call_def life_target_of_def life_guard_def split: if_splits option.splits)
  have store: "mw_store w' = account_subject (Some a) q (mw_store w)"
    using step unfolding life_request_step_def by (auto split: prod.splits sum.splits)
  have acc: "account_subject (Some a) q (mw_store w) = (mw_store w)\<lparr>st_runs := map_put t (a\<lparr>ra_subjects := members (ra_subjects a @ [q])\<rparr>) (st_runs (mw_store w))\<rparr>"
    using run q by (simp add: account_subject_def rootAdmission_def)
  show ?thesis unfolding store acc accountable_def using open_run by simp
qed

lemma life_refusals: "life_target_of role p target \<noteq> Inl (Answer v)" "life_guard h m p role thread admission \<noteq> Some (Answer v)"
  by (cases role; cases target; simp add: life_target_of_def denied_def invalid_call_def)
    (auto simp: life_guard_def denied_def)

lemma life_answer:
  assumes "life_handler h m person role thread admission target request w = (Answer v, w')" shows "\<exists>u. v = Life_done u"
proof -
  have step: "fst (life_request_step h m person role thread admission subject request w) = Answer v \<Longrightarrow> \<exists>u. v = Life_done u" for subject w
    by (auto simp: life_request_step_def split: prod.splits sum.splits)
  then have first: "fst (case initializePersonPolicy subject now life of
        (Inl e, life) \<Rightarrow> (Refuse_life 500 e, w\<lparr>mw_life := life\<rparr>)
      | (Inr v, life) \<Rightarrow> life_request_step h m person role thread admission subject request (w\<lparr>mw_life := life\<rparr>)) = Answer v \<Longrightarrow> \<exists>u. v = Life_done u" for subject now life
    by (auto split: prod.splits sum.splits)
  have "fst (life_handler h m person role thread admission target request w) = Answer v" using assms by simp
  then show ?thesis using step first unfolding life_handler_def
    using life_refusals by (auto simp: invalid_call_def split: option.splits if_splits sum.splits)
qed

lemma serve_tells:
  assumes J: "account_ok told (mw_store w)" and s: "mem_serve h m header uid call w = (r, w')"
    and t: "(t, xs) \<in> set (told_root (principal_of (mh_auth h) header uid (mw_store w)) call r)"
  shows "set xs \<subseteq> accountable t (mw_store w')"
proof -
  let ?s = "mw_store w"
  have told: "root_thread (principal_of (mh_auth h) header uid ?s) = Some t" "told_by call r = Some xs"
    using t by (auto simp: told_root_def split: option.splits)
  obtain p where p: "principal_of (mh_auth h) header uid ?s = Some (Person_caller p Root_role (Some t))"
    using root_thread_Some[OF told(1)] by blast
  note cases_told = told_by_Some[OF told(2)]
  define caller where "caller = Person_caller p Root_role (Some t)"
  obtain a where a: "map_of (st_runs ?s) t = Some a" "ra_person a = p" "ra_id a = t" and new: "disclosure_of (Reply_disclosure t) ?s = None"
    using root_caller_run[OF J p] by blast
  obtain v where v: "r = Answer v"
    using cases_told by blast
  have enabled: "mh_enabled h" using s v by (auto simp: mem_serve_def split: if_splits)
  have served: "serve_other h m caller call w = Some (Answer v, w')"
    using s enabled p v unfolding mem_serve_def caller_def by (auto split: option.splits)
  show ?thesis
  proof (cases call)
    case (Life_call target request)
    have l: "life_handler h m p Root_role (Some t) (life_admission Root_role (Some t) ?s) target request w = (Answer v, w')"
      using served unfolding Life_call caller_def serve_other_def by simp
    then obtain u where "v = Life_done u" using life_answer by blast
    then obtain q where q: "target = Person_target q" "q \<noteq> ''root:kenan''" "xs = [q]" using cases_told v Life_call by auto
    have "q \<in> accountable t (mw_store w')" using life_tells[OF a(1,3) new l[unfolded q(1)] q(2)] .
    then show ?thesis using q(3) by simp
  next
    case (Memory_call js)
    obtain q where q: "memory_handler h m caller q w = Some (Answer v, w')"
      using served unfolding Memory_call serve_other_def by (auto simp: rejected_def invalid_call_def split: sum.splits)
    have fit: "setting_fits caller q" and d: "mem_dispatch (mh_env h) (mt_fresh m) (mt_now m) p Root_role q ?s = Some (v, mw_store w')"
      using q unfolding memory_handler_def caller_def
      by (auto simp: request_person_def request_role_def rejected_def memory_guard_def denied_def split: option.splits prod.splits sum.splits if_splits)
    show ?thesis using cases_told v Memory_call dispatch_tells[OF d fit[unfolded caller_def] a(1,2) new] by blast
  qed (use served cases_told v in \<open>auto simp: serve_other_def caller_def rejected_def denied_def issue_session_def split: if_splits\<close>)
qed

section \<open>Histories\<close>

inductive mem_history :: "mem_host \<Rightarrow> mem_world \<Rightarrow> (string \<times> string list) list \<Rightarrow> bool" for h where
  history_start: "mem_history h \<lparr>mw_store = empty_memory, mw_life = []\<rparr> []"
| history_call: "mem_history h w told \<Longrightarrow> mem_serve h m header uid call w = (r, w')
    \<Longrightarrow> mem_history h w' (told @ told_root (principal_of (mh_auth h) header uid (mw_store w)) call r)"

lemma history_account_ok: "mem_history h w told \<Longrightarrow> account_ok told (mw_store w)"
proof (induction rule: mem_history.induct)
  case history_start
  then show ?case by (simp add: account_ok_def runs_sound_def told_accounted_def empty_memory_def resolveSession_def disclosure_of_def)
next
  case (history_call w told m header uid call r w')
  have J: "account_ok told (mw_store w')" using account.serve_keeps[OF history_call.IH TrueI history_call.hyps(2)] .
  show ?case using J serve_tells[OF history_call.IH history_call.hyps(2)]
    unfolding account_ok_def told_accounted_def by auto
qed


section \<open>What was forgotten\<close>

definition forgotten_row :: "string \<Rightarrow> mem_store \<Rightarrow> bool" where
  "forgotten_row k s = (\<forall>r\<in>set (st_memories s). mm_id (mr_item r) = k \<longrightarrow> mr_stopped r)"

definition event_forgotten :: "string \<Rightarrow> string \<times> string \<Rightarrow> mem_store \<Rightarrow> bool" where
  "event_forgotten k event s = (forgotten_row k s \<and> map_of (st_dedup s) event = Some k)"

lemma event_forgotten_cong:
  "event_forgotten k event s \<Longrightarrow> st_memories s' = st_memories s \<Longrightarrow> st_dedup s' = st_dedup s \<Longrightarrow> event_forgotten k event s'"
  by (simp add: event_forgotten_def forgotten_row_def)

lemma forgotten_write:
  assumes F: "event_forgotten k event s" and f: "fresh \<noteq> k" and w: "mem_write fresh now p i s = Some (x, s')"
  shows "event_forgotten k event s'"
proof (cases "s' = s")
  case False
  have none: "case external_id i of None \<Rightarrow> True | Some e \<Rightarrow> map_of (st_dedup s) (p, e) = None"
    and new: "insert_memory fresh now p i s = Some (x, s')"
    using w False unfolding mem_write_def by (auto split: option.splits)
  have "event \<noteq> (p, e)" if "external_id i = Some e" for e using none that F by (auto simp: event_forgotten_def)
  then show ?thesis using new F f unfolding insert_memory_def event_forgotten_def forgotten_row_def
    by (auto simp: new_memory_item_def split: if_splits option.splits)
qed (use F in simp)

lemma forget_rows: "forgotten_row k s \<Longrightarrow> forgotten_row k (s\<lparr>st_memories := forget_row mode now j (st_memories s)\<rparr>)"
  by (auto simp: forgotten_row_def forget_row_def stop_row_def split: forget_mode.splits)

lemma forgotten_forget: "event_forgotten k event s \<Longrightarrow> event_forgotten k event (snd (mem_forget mode now ids s))"
proof (induction ids arbitrary: s)
  case (Cons j js)
  have "event_forgotten k event (s\<lparr>st_memories := forget_row mode now j (st_memories s)\<rparr>)"
    using Cons.prems forget_rows by (simp add: event_forgotten_def)
  then show ?case using Cons by (auto simp: Let_def split: option.splits prod.splits) (metis snd_conv)+
qed simp

definition after_forget :: "forget_mode \<Rightarrow> string \<Rightarrow> string \<Rightarrow> mem_store \<Rightarrow> mem_store" where
  "after_forget mode now k s = s\<lparr>st_memories := forget_row mode now k (st_memories s)\<rparr>"

lemma forget_step: "mem_forget mode now (k # ks) s = (if row_with k s = None then mem_forget mode now ks s
   else (k # fst (mem_forget mode now ks (after_forget mode now k s)), snd (mem_forget mode now ks (after_forget mode now k s))))"
  by (auto simp: after_forget_def Let_def split: option.split prod.split)

lemma forget_keeps_row:
  "forgotten_row k s \<Longrightarrow> forgotten_row k (snd (mem_forget mode now ids s)) \<and> st_dedup (snd (mem_forget mode now ids s)) = st_dedup s"
proof (induction ids arbitrary: s)
  case (Cons j js)
  have "forgotten_row k (after_forget mode now j s)" unfolding after_forget_def by (rule forget_rows[OF Cons.prems])
  moreover have "st_dedup (after_forget mode now j s) = st_dedup s" by (simp add: after_forget_def)
  ultimately show ?case unfolding forget_step using Cons.IH[OF Cons.prems] Cons.IH[of "after_forget mode now j s"] by simp
qed simp

lemma forget_this_row: "forgotten_row j (after_forget mode now j s)"
proof (cases mode)
  case Delete_memory
  then show ?thesis by (simp add: after_forget_def forgotten_row_def forget_row_def)
next
  case Stop_using
  have rows: "st_memories (after_forget mode now j s) = map (\<lambda>r. if mm_id (mr_item r) = j then stop_row now r else r) (st_memories s)"
    unfolding after_forget_def forget_row_def Stop_using by simp
  show ?thesis unfolding forgotten_row_def rows
  proof (intro ballI impI)
    fix r assume "r \<in> set (map (\<lambda>r. if mm_id (mr_item r) = j then stop_row now r else r) (st_memories s))" and k: "mm_id (mr_item r) = j"
    then obtain x where x: "r = (if mm_id (mr_item x) = j then stop_row now x else x)" by fastforce
    show "mr_stopped r"
    proof (cases "mm_id (mr_item x) = j")
      case True
      then show ?thesis using x by (simp add: stop_row_def)
    next
      case False
      then show ?thesis using x k by simp
    qed
  qed
qed

lemma forget_forgets:
  "k \<in> set (fst (mem_forget mode now ids s)) \<Longrightarrow> forgotten_row k (snd (mem_forget mode now ids s)) \<and> st_dedup (snd (mem_forget mode now ids s)) = st_dedup s"
proof (induction ids arbitrary: s)
  case (Cons j js)
  note gone = forget_this_row[of j mode now s]
  have same: "st_dedup (after_forget mode now j s) = st_dedup s" by (simp add: after_forget_def)
  show ?case
  proof (cases "row_with j s = None")
    case True
    then show ?thesis using Cons.IH[of s] Cons.prems unfolding forget_step by simp
  next
    case False
    then have eq: "mem_forget mode now (j # js) s = (j # fst (mem_forget mode now js (after_forget mode now j s)), snd (mem_forget mode now js (after_forget mode now j s)))"
      unfolding forget_step by (simp only: if_False)
    have "k = j \<or> k \<in> set (fst (mem_forget mode now js (after_forget mode now j s)))" using Cons.prems unfolding eq fst_conv by simp
    then show ?thesis
    proof
      assume "k = j"
      then show ?thesis using forget_keeps_row[OF gone, of mode now js] same unfolding eq snd_conv by simp
    next
      assume "k \<in> set (fst (mem_forget mode now js (after_forget mode now j s)))"
      then show ?thesis using Cons.IH[of "after_forget mode now j s"] same unfolding eq snd_conv by simp
    qed
  qed
qed simp

lemma root_insert_same:
  "insert_disclosure d s = Some s' \<Longrightarrow> st_memories s' = st_memories s \<and> st_dedup s' = st_dedup s"
  by (auto simp: insert_disclosure_def split: if_splits)

lemma other_rows_same:
  "report now p c items s = (rr, s') \<Longrightarrow> st_memories s' = st_memories s \<and> st_dedup s' = st_dedup s"
  "disclose fresh now p di s = Some (d, s') \<Longrightarrow> st_memories s' = st_memories s \<and> st_dedup s' = st_dedup s"
  "new_session token p thread role s = Some s' \<Longrightarrow> st_memories s' = st_memories s \<and> st_dedup s' = st_dedup s"
  "logConsent now root consent subject ck content s = Some (y, s') \<Longrightarrow> st_memories s' = st_memories s \<and> st_dedup s' = st_dedup s"
  "logRequestStatus now root request status s = Some (z, s') \<Longrightarrow> st_memories s' = st_memories s \<and> st_dedup s' = st_dedup s"
  unfolding report_def disclose_def new_session_def logConsent_def logRequestStatus_def Let_def logged_def root_refused_def upsert_disclosure_def
  by (auto dest: root_insert_same split: if_splits option.splits)

lemma more_rows_same:
  "admitRoot k token p thread recipients subjects room s = Some (a, s') \<Longrightarrow> st_memories s' = st_memories s \<and> st_dedup s' = st_dedup s"
  "finalizeRootReply now rp s = Some (y, s') \<Longrightarrow> st_memories s' = st_memories s \<and> st_dedup s' = st_dedup s"
  "st_memories (supersede b k s) = st_memories s \<and> st_dedup (supersede b k s) = st_dedup s"
  "st_memories (account_subject admission subject s) = st_memories s \<and> st_dedup (account_subject admission subject s) = st_dedup s"
  "st_memories (snd (finalize now p c reply s)) = st_memories s \<and> st_dedup (snd (finalize now p c reply s)) = st_dedup s"
  using admitted_run[of k token p thread recipients subjects room s a s']
  unfolding finalizeRootReply_def Let_def logged_def root_refused_def supersede_def account_subject_def finalize_def end_session_def upsert_disclosure_def
  by (auto dest: root_insert_same split: if_splits option.splits)

lemma resume_rows_same:
  "resumeConsent k token ri s = Some (u, s') \<Longrightarrow> st_memories s' = st_memories s \<and> st_dedup s' = st_dedup s"
  unfolding resumeConsent_def root_refused_def by (auto simp: more_rows_same(3) dest!: more_rows_same(1) split: if_splits option.splits)

lemma forgotten_notification:
  assumes F: "event_forgotten k event s" and f: "fresh \<noteq> k" and l: "logNotification e fresh now n s = Some (x, s')"
  shows "event_forgotten k event s'"
proof (cases "s' = s")
  case False
  obtain a s1 y where s1: "insert_disclosure (notification_entry now a n) s = Some s1" and w: "mem_write fresh now (ra_person a) (notification_memory e now a n) s1 = Some (y, s')"
    using l False unfolding logNotification_def Let_def root_refused_def by (auto simp: bind_eq_Some_conv split: option.splits if_splits)
  have "event_forgotten k event s1" using event_forgotten_cong[OF F] root_insert_same[OF s1] by blast
  then show ?thesis using forgotten_write[OF _ f w] by blast
qed (use F in simp)

interpretation event: store_invariant "event_forgotten k event" "\<lambda>fresh. fresh \<noteq> k" for k event
proof
  show "event_forgotten k event s'" if "event_forgotten k event s" "fresh \<noteq> k" "mem_write fresh now p i s = Some (x, s')" for s fresh now p i x s'
    using forgotten_write that .
  show "event_forgotten k event s'" if "event_forgotten k event s" "fresh \<noteq> k" "logNotification e fresh now n s = Some (z, s')" for s fresh e now n z s'
    using forgotten_notification that .
  show "event_forgotten k event (snd (mem_forget mode now ids s))" if "event_forgotten k event s" for s mode now ids using forgotten_forget that .
  show "event_forgotten k event s'" if "event_forgotten k event s" "report now p c items s = (rr, s')" for s now p c items rr s'
    using event_forgotten_cong[OF that(1)] other_rows_same(1)[OF that(2)] by simp
  show "event_forgotten k event s'" if "event_forgotten k event s" "disclose fresh now p di s = Some (d, s')" for s fresh now p di d s'
    using event_forgotten_cong[OF that(1)] other_rows_same(2)[OF that(2)] by simp
  show "event_forgotten k event s'" if "event_forgotten k event s" "new_session token p thread Person_role s = Some s'" for s token p thread s'
    using event_forgotten_cong[OF that(1)] other_rows_same(3)[OF that(2)] by simp
  show "event_forgotten k event s'" if "event_forgotten k event s" "logConsent now root consent subject ck content s = Some (y, s')" for s now root consent subject ck content y s'
    using event_forgotten_cong[OF that(1)] other_rows_same(4)[OF that(2)] by simp
  show "event_forgotten k event s'" if "event_forgotten k event s" "logRequestStatus now root request status s = Some (z, s')" for s now root request status z s'
    using event_forgotten_cong[OF that(1)] other_rows_same(5)[OF that(2)] by simp
  show "event_forgotten k event s'" if "event_forgotten k event s" "admitRoot j token p thread recipients subjects room s = Some (a, s')" for s j token p thread recipients subjects room a s'
    using event_forgotten_cong[OF that(1)] more_rows_same(1)[OF that(2)] by simp
  show "event_forgotten k event s'" if "event_forgotten k event s" "finalizeRootReply now rp s = Some (y, s')" for s now rp y s'
    using event_forgotten_cong[OF that(1)] more_rows_same(2)[OF that(2)] by simp
  show "event_forgotten k event s'" if "event_forgotten k event s" "resumeConsent j token ri s = Some (u, s')" for s j token ri u s'
    using event_forgotten_cong[OF that(1)] resume_rows_same[OF that(2)] by simp
  show "event_forgotten k event (account_subject admission subject s)" if "event_forgotten k event s" for s admission subject
    using event_forgotten_cong[OF that] more_rows_same(4) by blast
  show "event_forgotten k event (snd (finalize now p c reply s))" if "event_forgotten k event s" for s now p c reply
    using event_forgotten_cong[OF that] more_rows_same(5) by blast
qed

text \<open>Any calls, none of which draws the identifier again.\<close>

inductive mem_later :: "mem_host \<Rightarrow> string \<Rightarrow> mem_world \<Rightarrow> mem_world \<Rightarrow> bool" for h k where
  later_now: "mem_later h k w w"
| later_call: "mem_later h k w w1 \<Longrightarrow> mt_fresh m \<noteq> k \<Longrightarrow> mem_serve h m header uid call w1 = (r, w2) \<Longrightarrow> mem_later h k w w2"

lemma later_forgotten: "mem_later h k w w' \<Longrightarrow> event_forgotten k event (mw_store w) \<Longrightarrow> event_forgotten k event (mw_store w')"
  by (induction rule: mem_later.induct) (use event.serve_keeps in blast)+

lemma guard_refuses: "memory_guard caller r s \<noteq> Some (Answer a)"
  by (auto simp: memory_guard_def person_guard_def denied_def split: mem_request.splits option.splits)


section \<open>What a person is told\<close>

definition person_view :: "string \<Rightarrow> mem_store \<Rightarrow> mem_item list \<times> disclosure list" where
  "person_view p s = (seen_rows Person_role p s, seen_disclosures Person_role p p s)"

text \<open>The requests that look, but for searches by words: their ranking weighs the words of everything stored.\<close>

definition plain_look :: "mem_env \<Rightarrow> mem_request \<Rightarrow> bool" where
  "plain_look e r = (case r of Search_memory query _ _ _ \<Rightarrow> me_terms e query = [] | Read_memory _ _ \<Rightarrow> True | List_disclosures _ _ _ \<Rightarrow> True | _ \<Rightarrow> False)"

text \<open>What the README promises of a person's direct view.\<close>

definition theirs :: "string \<Rightarrow> mem_item \<Rightarrow> bool" where
  "theirs p x = ((mm_by x = p \<and> set (mi_about (mm_input x)) \<subseteq> {p})
     \<or> (mo_action (mi_source (mm_input x)) \<noteq> None \<and> \<not> mi_private (mm_input x) \<and> p \<in> set (mi_about (mm_input x))))"

lemma own_theirs: "own_memory p x \<longleftrightarrow> theirs p x"
  by (auto simp: own_memory_def theirs_def)

definition shown_ok :: "string \<Rightarrow> mem_store \<Rightarrow> mem_answer \<Rightarrow> bool" where
  "shown_ok p s a = (case a of
     Memories items _ \<Rightarrow> (\<forall>x\<in>set items. theirs p x \<and> (\<exists>r\<in>set (st_memories s). mr_item r = x \<and> \<not> mr_stopped r))
   | Accounts ds _ \<Rightarrow> (\<forall>d\<in>set ds. d \<in> set (st_disclosures s) \<and> set (di_about d) = {p})
   | _ \<Rightarrow> True)"

lemma seen_rows_ok: "x \<in> set (seen_rows Person_role p s) \<Longrightarrow> theirs p x \<and> (\<exists>r\<in>set (st_memories s). mr_item r = x \<and> \<not> mr_stopped r)"
  by (auto simp: seen_rows_def may_read_def own_theirs)

lemma found_rows_seen: "set (found_rows e role p terms about s) \<subseteq> set (seen_rows role p s)"
  by (auto simp: found_rows_def Let_def)

lemma read_rows_seen: "set (read_rows role p ids s) \<subseteq> set (seen_rows role p s)"
proof
  fix x assume "x \<in> set (read_rows role p ids s)"
  then obtain k where "find (\<lambda>m. mm_id m = k) (seen_rows role p s) = Some x" by (auto simp: read_rows_def split: option.splits)
  then show "x \<in> set (seen_rows role p s)" by (metis (mono_tags, lifting) find_Some_iff nth_mem)
qed

lemma dispatch_shows:
  assumes d: "mem_dispatch e fresh now p Person_role r s = Some (a, s')" and g: "person_guard p r s = None"
  shows "shown_ok p s a"
proof (cases r)
  case (Search_memory query about limit c)
  have seen: "\<forall>x\<in>set (found_rows e Person_role p (me_terms e query) about s). theirs p x \<and> (\<exists>r\<in>set (st_memories s). mr_item r = x \<and> \<not> mr_stopped r)"
    using seen_rows_ok found_rows_seen by fast
  show ?thesis using d seen Search_memory
    by (auto simp: mem_dispatch_def mem_search_def shown_ok_def Let_def dest!: in_set_takeD split: prod.splits)
next
  case (Read_memory ids c)
  have seen: "\<forall>x\<in>set (read_rows Person_role p ids s). theirs p x \<and> (\<exists>r\<in>set (st_memories s). mr_item r = x \<and> \<not> mr_stopped r)"
    using seen_rows_ok read_rows_seen by fast
  show ?thesis using d seen Read_memory
    by (auto simp: mem_dispatch_def mem_read_def shown_ok_def Let_def split: prod.splits)
next
  case (List_disclosures c limit about)
  have "(case about of None \<Rightarrow> p | Some a \<Rightarrow> a) = p" using g List_disclosures by (auto simp: person_guard_def split: option.splits if_splits)
  moreover have "d \<in> set (st_disclosures s) \<and> set (di_about d) = {p}" if "d \<in> set (seen_disclosures Person_role p p s)" for d
    using that by (auto simp: seen_disclosures_def)
  ultimately show ?thesis using d List_disclosures
    by (auto simp: mem_dispatch_def mem_disclosures_def shown_ok_def Let_def dest!: in_set_takeD split: prod.splits)
qed (use d in \<open>auto simp: mem_dispatch_def shown_ok_def Let_def split: prod.splits\<close>)

lemma report_same: "fst (report now p c items s) = fst (report now p c items s2)"
  by (simp add: report_def)

lemma dispatch_same:
  assumes d: "mem_dispatch e fresh now p Person_role r s = Some (a, s')" and g: "person_guard p r s = None" and look: "plain_look e r"
    and view: "person_view p s2 = person_view p s"
  shows "\<exists>s2'. mem_dispatch e fresh now p Person_role r s2 = Some (a, s2')"
proof (cases r)
  case (Search_memory query about limit c)
  define items where "items = (if \<not> blank query \<and> me_terms e query = [] then [] else take (within_limit limit 20) (found_rows e Person_role p (me_terms e query) about s))"
  have "found_rows e Person_role p (me_terms e query) about s2 = found_rows e Person_role p (me_terms e query) about s"
    using view look Search_memory by (simp add: found_rows_def person_view_def plain_look_def)
  then have "mem_search e now Person_role p c query about limit x = ((items, fst (report now p c (map item_entry items) x)), snd (report now p c (map item_entry items) x))" if "x = s \<or> x = s2" for x
    using that unfolding mem_search_def Let_def items_def by (auto split: prod.split)
  then show ?thesis using d report_same[of now p c "map item_entry items" s s2] unfolding Search_memory mem_dispatch_def by (simp add: Let_def)
next
  case (Read_memory ids c)
  have rows: "read_rows Person_role p ids s2 = read_rows Person_role p ids s" using view by (simp add: read_rows_def person_view_def)
  have "mem_read now Person_role p c ids x = ((read_rows Person_role p ids s, fst (report now p c (map item_entry (read_rows Person_role p ids s)) x)),
     snd (report now p c (map item_entry (read_rows Person_role p ids s)) x))" if "x = s \<or> x = s2" for x
    using that rows unfolding mem_read_def Let_def by (auto split: prod.split)
  then show ?thesis using d report_same[of now p c "map item_entry (read_rows Person_role p ids s)" s s2] unfolding Read_memory mem_dispatch_def by (simp add: Let_def)
next
  case (List_disclosures c limit about)
  have own: "(case about of None \<Rightarrow> p | Some a \<Rightarrow> a) = p" using g List_disclosures by (auto simp: person_guard_def split: option.splits if_splits)
  define ds where "ds = take (within_limit limit 50) (sort_key (me_latest e) (seen_disclosures Person_role p p s))"
  have "take (within_limit limit 50) (sort_key (me_latest e) (seen_disclosures Person_role p p s2)) = ds" using view by (simp add: ds_def person_view_def)
  then have "mem_disclosures e now Person_role p c limit about x = ((ds, fst (report now p c (map (disclosure_entry e) ds) x)), snd (report now p c (map (disclosure_entry e) ds) x))" if "x = s \<or> x = s2" for x
    using that unfolding mem_disclosures_def Let_def own ds_def by (auto split: prod.split)
  then show ?thesis using d report_same[of now p c "map (disclosure_entry e) ds" s s2] unfolding List_disclosures mem_dispatch_def by (simp add: Let_def)
qed (use look in \<open>simp_all add: plain_look_def\<close>)

lemma looks_unguarded: "plain_look e r \<Longrightarrow> memory_guard caller r s2 = memory_guard caller r s"
  by (cases r) (simp_all add: memory_guard_def plain_look_def person_guard_def)

lemma handler_dispatch:
  assumes "memory_handler h m (Person_caller p Person_role th) r w = Some (Answer a, w')"
  shows "memory_guard (Person_caller p Person_role th) r (mw_store w) = None \<and> person_guard p r (mw_store w) = None
    \<and> mem_dispatch (mh_env h) (mt_fresh m) (mt_now m) p Person_role r (mw_store w) = Some (a, mw_store w')"
proof -
  have none: "memory_guard (Person_caller p Person_role th) r (mw_store w) = None"
    using assms unfolding memory_handler_def by (auto simp: rejected_def guard_refuses split: option.splits)
  then have "person_guard p r (mw_store w) = None" by (auto simp: memory_guard_def request_role_def request_person_def split: if_splits)
  then show ?thesis using assms none unfolding memory_handler_def by (auto simp: request_role_def request_person_def split: sum.splits prod.splits)
qed


end
