(* ===== verification/Memory_Examples.thy ===== *)
theory Memory_Examples
  imports Memory_Safety
begin

text \<open>
  Runs of the memory service at concrete inputs: the properties of \<open>Memory_Safety\<close> where their hypotheses hold, and two runs
  in which the service tells or loses what it should not.
\<close>

section \<open>A small household\<close>

definition demo_env :: mem_env where
  "demo_env = \<lparr>me_terms = (\<lambda>q. if blank q then [] else [q]), me_match = (\<lambda>ws m. mi_text (mm_input m) \<in> set ws), me_rank = (\<lambda>ms ws m. 0),
     me_recent = (\<lambda>m. 0), me_latest = (\<lambda>d. 0), me_name = (\<lambda>k. case k of Plain_disclosure x \<Rightarrow> x | _ \<Rightarrow> ''account'')\<rparr>"

definition demo_supervisor :: "string \<Rightarrow> string \<Rightarrow> mem_supervisor" where
  "demo_supervisor person token = \<lparr>sv_person = person, sv_token = token, sv_display = None\<rparr>"

definition demo_host :: mem_host where
  "demo_host = \<lparr>mh_auth = \<lparr>au_supervisors = [demo_supervisor ''alice'' ''ta'', demo_supervisor ''bob'' ''tb''], au_publisher = None, au_root = Some ''rt'', au_uids = []\<rparr>,
     mh_enabled = True, mh_env = demo_env, mh_life = \<lparr>lp_date = (\<lambda>t. Some 0), lp_calendar = (\<lambda>t. True), lp_zone = (\<lambda>z. True)\<rparr>,
     mh_steering = (\<lambda>v. 0), mh_rank = (\<lambda>k. 0), mh_lower = (\<lambda>s. s), mh_date = (\<lambda>t. True)\<rparr>"

definition demo_moment :: "string \<Rightarrow> string \<Rightarrow> string \<Rightarrow> mem_moment" where
  "demo_moment fresh token root = \<lparr>mt_now = ''now'', mt_time = 0, mt_fresh = fresh, mt_token = token, mt_root = root,
     mt_audience = (\<lambda>person thread. None), mt_timezone = None\<rparr>"

definition start_world :: mem_world where
  "start_world = \<lparr>mw_store = empty_memory, mw_life = []\<rparr>"

fun mem_run :: "mem_host \<Rightarrow> (mem_moment \<times> string option \<times> mem_call) list \<Rightarrow> mem_world \<times> (string \<times> string list) list \<Rightarrow> mem_world \<times> (string \<times> string list) list" where
  "mem_run h [] p = p"
| "mem_run h ((m, header, call) # steps) (w, told) =
     (let (r, w') = mem_serve h m header None call w in mem_run h steps (w', told @ told_root (principal_of (mh_auth h) header None (mw_store w)) call r))"

lemma mem_run_history: "mem_history h w told \<Longrightarrow> mem_history h (fst (mem_run h steps (w, told))) (snd (mem_run h steps (w, told)))"
proof (induction steps arbitrary: w told)
  case (Cons step steps)
  obtain m header call where step: "step = (m, header, call)" by (cases step) auto
  obtain r w' where s: "mem_serve h m header None call w = (r, w')" by fastforce
  show ?case using Cons.IH[OF history_call[OF Cons.prems s]] by (simp add: step s)
qed simp

lemma run_history: "mem_history h (fst (mem_run h steps (start_world, []))) (snd (mem_run h steps (start_world, [])))"
  by (rule mem_run_history) (simp add: start_world_def history_start)

section \<open>Calls\<close>

definition js_texts :: "string list \<Rightarrow> js" where
  "js_texts xs = JArr (map JStr xs)"

definition write_call :: "string \<Rightarrow> string \<Rightarrow> string \<Rightarrow> string list \<Rightarrow> (string \<times> js) list \<Rightarrow> mem_call" where
  "write_call person thread content about source = Memory_call (JObj [(''operation'', JStr ''write''), (''item'', JObj [(''text'', JStr content), (''about'', js_texts about),
     (''source'', JObj ((''saidBy'', JStr person) # source)), (''setting'', JObj [(''person'', JStr person), (''threadId'', JStr thread)]), (''obviouslyPrivate'', JBool False)])])"

definition read_call :: "string \<Rightarrow> string list \<Rightarrow> mem_call" where
  "read_call thread ids = Memory_call (JObj [(''operation'', JStr ''read''), (''ids'', js_texts ids),
     (''context'', JObj [(''threadId'', JStr thread), (''turnId'', JStr ''turn'')])])"

definition story :: "(mem_moment \<times> string option \<times> mem_call) list" where
  "story = [(demo_moment ''f1'' ''s1'' ''r0'', Some ''ta'', Issue_session ''thread''),
     (demo_moment ''f2'' ''s2'' ''r1'', Some ''rt'', Admit_root ''s1'' ''How is he'' None),
     (demo_moment ''m1'' ''s3'' ''r0'', Some ''s2'', write_call ''alice'' ''r1'' ''He is away'' [''bob''] []),
     (demo_moment ''f4'' ''s4'' ''r0'', Some ''s2'', read_call ''r1'' [''m1'']),
     (demo_moment ''f5'' ''s5'' ''r0'', Some ''rt'', Finalize_reply \<lparr>ri_root = ''r1'', ri_reply = ''Away'', ri_subjects = [], ri_recipients = None\<rparr>)]"

lemma story_told: "snd (mem_run demo_host story (start_world, [])) = [(''r1'', [''bob''])]"
  by code_simp

lemma story_replied: "disclosure_of (Reply_disclosure ''r1'') (mw_store (fst (mem_run demo_host story (start_world, [])))) \<noteq> None"
  by code_simp


text \<open>Alice forgets an event; written again, it is answered as forgotten.\<close>

definition event_world :: mem_world where
  "event_world = fst (mem_run demo_host [(demo_moment ''m1'' ''s1'' ''r0'', Some ''ta'', write_call ''alice'' ''thread'' ''I left'' [''alice''] [(''externalId'', JStr ''e'')])] (start_world, []))"

definition event_input :: mem_input where
  "event_input = \<lparr>mi_text = ''I left'', mi_about = [''alice''], mi_source = \<lparr>mo_said = Some ''alice'', mo_acted = None, mo_action = None, mo_external = Some ''e''\<rparr>,
     mi_setting = run_setting ''alice'' ''thread'' None, mi_occurred = None, mi_private = False\<rparr>"

lemma event_forget_answer:
  "map_option fst (memory_handler demo_host (demo_moment ''f'' ''s'' ''r'') (Person_caller ''alice'' Person_role None) (Forget_memory [''m1''] Delete_memory) event_world)
     = Some (Answer (Forgotten [''m1''] Delete_memory))"
  by code_simp

lemma event_known: "map_of (st_dedup (mw_store event_world)) (''alice'', ''e'') = Some ''m1''"
  by code_simp

lemma answer_known: "map_option fst r = Some x \<Longrightarrow> \<exists>w. r = Some (x, w)"
  by (cases r) auto

lemma answered_as: "map_option (\<lambda>p. f (fst p)) r = Some x \<Longrightarrow> \<exists>a w. r = Some (a, w) \<and> f a = x"
  by (cases r) auto


text \<open>The same world, in which root has also recorded a fact about Bob; Alice sees as much of it.\<close>

definition fuller_world :: mem_world where
  "fuller_world = fst (mem_run demo_host
    [(demo_moment ''m1'' ''s1'' ''r0'', Some ''ta'', write_call ''alice'' ''thread'' ''I left'' [''alice''] [(''externalId'', JStr ''e'')]),
     (demo_moment ''f1'' ''s1'' ''r0'', Some ''ta'', Issue_session ''thread''),
     (demo_moment ''f2'' ''s2'' ''r1'', Some ''rt'', Admit_root ''s1'' ''How is he'' None),
     (demo_moment ''m2'' ''s3'' ''r0'', Some ''s2'', write_call ''alice'' ''r1'' ''He is away'' [''bob''] [])] (start_world, []))"

lemma fuller_view: "person_view ''alice'' (mw_store fuller_world) = person_view ''alice'' (mw_store event_world)"
  "length (st_memories (mw_store fuller_world)) = 2"
  by code_simp+

definition look_moment :: mem_moment where
  "look_moment = demo_moment ''f'' ''s'' ''r''"

definition look_request :: mem_request where
  "look_request = Read_memory [''m1'', ''m2''] \<lparr>mx_thread = ''thread'', mx_turn = ''turn'', mx_room = None\<rparr>"

lemma look_answer:
  "map_option (\<lambda>p. case fst p of Answer (Memories items _) \<Rightarrow> map mm_id items | _ \<Rightarrow> [])
     (memory_handler demo_host look_moment (Person_caller ''alice'' Person_role None) look_request event_world) = Some [''m1'']"
  by code_simp


section \<open>A write that is answered with another's memory\<close>

text \<open>
  Writing an event that was recorded before returns what was recorded, whoever it is about: root recorded, for Alice, a fact about
  Bob under an external identifier; Alice's own session, writing under that identifier, is answered with it, although it is
  none of what she may read.
\<close>

definition told_about_bob :: "mem_world" where
  "told_about_bob = fst (mem_run demo_host
    [(demo_moment ''f1'' ''s1'' ''r0'', Some ''ta'', Issue_session ''thread''),
     (demo_moment ''f2'' ''s2'' ''r1'', Some ''rt'', Admit_root ''s1'' ''How is he'' None),
     (demo_moment ''m1'' ''s3'' ''r0'', Some ''s2'', write_call ''alice'' ''r1'' ''He is away'' [''bob''] [(''externalId'', JStr ''e'')])] (start_world, []))"

lemma replayed_write_shows:
  "(case fst (mem_serve demo_host (demo_moment ''m2'' ''s3'' ''r0'') (Some ''s1'') None (write_call ''alice'' ''thread'' ''Anything'' [''alice''] [(''externalId'', JStr ''e'')]) told_about_bob) of
     Answer (Was_written (Written x)) \<Rightarrow> mi_text (mm_input x) = ''He is away'' \<and> \<not> theirs ''alice'' x | _ \<Rightarrow> False)"
  by code_simp

end
