(* ===== verification/Root_Requests.thy ===== *)
theory Root_Requests
  imports Memory_Root
begin

text \<open>
  The requests people make of root Kenan (\<open>packages/kenan-root/src/requests.ts\<close>, \<open>service.ts\<close>). A request is a durable row; the
  process works on rows in operations that wait for others: the memory service, the executor, the bridge to the asking
  thread. Here an operation is cut at its waits: each piece runs alone, pieces of different operations follow one another in
  any order, and the process may stop between any two. What an operation holds while it waits is in the state, in the table
  the code keeps it in. Writes of the database do not fail.
\<close>

section \<open>Rows\<close>

record ask_admission =
  ad_root :: string
  ad_person :: string
  ad_thread :: string
  ad_recipients :: "string list"

datatype ask_state =
    Ask_queued string string int
  | Ask_executing
  | Ask_interrupted
  | Ask_failed
  | Ask_finalizing string "string list"
  | Ask_completed string "string list"

datatype ask_delivery = Delivery_pending | Delivered | Inline

record ask_row =
  rw_id :: string
  rw_hash :: string
  rw_admission :: ask_admission
  rw_delivery :: ask_delivery
  rw_attempted :: "int option"
  rw_state :: ask_state

record ask_store =
  ak_rows :: "(string \<times> ask_row) list"
  ak_fenced :: "string list"
  ak_target :: "string option"

definition ask_row_of :: "ask_store \<Rightarrow> string \<Rightarrow> ask_row option" where
  "ask_row_of s k = map_of (ak_rows s) k"

definition ask_save :: "ask_row \<Rightarrow> ask_store \<Rightarrow> ask_store" where
  "ask_save r s = (if ask_row_of s (rw_id r) = None then s else s\<lparr>ak_rows := map_put (rw_id r) r (ak_rows s)\<rparr>)"

text \<open>A request that was declared not accepted is never accepted, and the other way round; a throw is \<open>None\<close>.\<close>

definition fenceNotAccepted :: "string \<Rightarrow> ask_store \<Rightarrow> ask_store option" where
  "fenceNotAccepted k s = (if ask_row_of s k \<noteq> None then None
     else Some (s\<lparr>ak_fenced := (if k \<in> set (ak_fenced s) then ak_fenced s else k # ak_fenced s)\<rparr>))"

definition new_ask :: "(string \<Rightarrow> string) \<Rightarrow> int \<Rightarrow> string \<Rightarrow> string \<Rightarrow> ask_admission \<Rightarrow> bool \<Rightarrow> ask_row" where
  "new_ask hash now k request a asynchronous = \<lparr>rw_id = k, rw_hash = hash request, rw_admission = a,
     rw_delivery = (if asynchronous then Delivery_pending else Inline), rw_attempted = None, rw_state = Ask_queued request ''root-concurrency'' now\<rparr>"

definition accept_ask :: "ask_row \<Rightarrow> ask_store \<Rightarrow> ask_store option" where
  "accept_ask r s = (if rw_id r \<in> set (ak_fenced s) \<or> ask_row_of s (rw_id r) \<noteq> None then None
     else Some (s\<lparr>ak_rows := map_put (rw_id r) r (ak_rows s)\<rparr>))"

text \<open>A process that starts marks what was executing as interrupted.\<close>

definition interrupt_row :: "ask_row \<Rightarrow> ask_row" where
  "interrupt_row r = (if rw_state r = Ask_executing then r\<lparr>rw_state := Ask_interrupted\<rparr> else r)"

definition open_asks :: "ask_store \<Rightarrow> ask_store" where
  "open_asks s = s\<lparr>ak_rows := map (\<lambda>(k, r). (k, interrupt_row r)) (ak_rows s)\<rparr>"

definition ended_state :: "ask_state \<Rightarrow> bool" where
  "ended_state x = (case x of Ask_completed _ _ \<Rightarrow> True | Ask_failed \<Rightarrow> True | Ask_interrupted \<Rightarrow> True | _ \<Rightarrow> False)"

definition ask_due :: "int \<Rightarrow> ask_row \<Rightarrow> bool" where
  "ask_due now r = (case rw_state r of
     Ask_queued _ _ retry \<Rightarrow> retry \<le> now
   | Ask_finalizing _ _ \<Rightarrow> True
   | Ask_executing \<Rightarrow> False
   | _ \<Rightarrow> rw_delivery r = Delivery_pending)"

definition pending_asks :: "nat \<Rightarrow> int \<Rightarrow> ask_store \<Rightarrow> ask_row list" where
  "pending_asks limit now s = take limit (sort_key (\<lambda>r. case rw_attempted r of None \<Rightarrow> 0 | Some t \<Rightarrow> t) (filter (ask_due now) (map snd (ak_rows s))))"

section \<open>The process\<close>

text \<open>What an operation waits for.\<close>

datatype accept_wait = Accept_admission string bool | Accept_reply
datatype deliver_wait = Deliver_accounting | Deliver_reply
datatype run_wait = Run_executor | Run_started | Run_finalizing | Run_delivering
datatype resume_wait = Resume_admission | Resume_delivering | Resume_running

record ask_process =
  pr_paused :: bool
  pr_stopping :: bool
  pr_active :: int
  pr_accepting :: "(string \<times> accept_wait) list"
  pr_finalizing :: "(string \<times> ask_row) list"
  pr_delivering :: "(string \<times> (ask_row \<times> deliver_wait)) list"
  pr_running :: "(string \<times> (ask_row \<times> run_wait)) list"
  pr_resuming :: "(string \<times> (ask_row \<times> resume_wait)) list"

record ask_world =
  aw_store :: ask_store
  aw_process :: ask_process

text \<open>What the process does to others, and what it is told.\<close>

datatype ask_event =
    Executor_called string
  | Executor_started string
  | Executor_replied string string
  | Reply_accounted string string
  | Reply_sent string string
  | Reply_shown string string
  | Told_unaccepted string

record ask_host =
  ah_hash :: "string \<Rightarrow> string"
  ah_max :: nat
  ah_bridge :: bool

definition no_operations :: "bool \<Rightarrow> ask_process" where
  "no_operations paused = \<lparr>pr_paused = paused, pr_stopping = False, pr_active = 0, pr_accepting = [], pr_finalizing = [], pr_delivering = [], pr_running = [], pr_resuming = []\<rparr>"

definition start_process :: "ask_store \<Rightarrow> ask_world" where
  "start_process s = \<lparr>aw_store = open_asks s, aw_process = no_operations (ak_target s \<noteq> None)\<rparr>"

definition is_waiting :: "string \<Rightarrow> (string \<times> 'a) list \<Rightarrow> bool" where
  "is_waiting k m = (map_of m k \<noteq> None)"

definition save_row :: "ask_row \<Rightarrow> ask_world \<Rightarrow> ask_world" where
  "save_row r w = w\<lparr>aw_store := ask_save r (aw_store w)\<rparr>"

definition row_in :: "ask_world \<Rightarrow> string \<Rightarrow> ask_row option" where
  "row_in w k = ask_row_of (aw_store w) k"

definition count_active :: "int \<Rightarrow> ask_world \<Rightarrow> ask_world" where
  "count_active n w = w\<lparr>aw_process := (aw_process w)\<lparr>pr_active := pr_active (aw_process w) + n\<rparr>\<rparr>"

definition set_running :: "(string \<times> (ask_row \<times> run_wait)) list \<Rightarrow> ask_world \<Rightarrow> ask_world" where
  "set_running m w = w\<lparr>aw_process := (aw_process w)\<lparr>pr_running := m\<rparr>\<rparr>"

definition set_resuming :: "(string \<times> (ask_row \<times> resume_wait)) list \<Rightarrow> ask_world \<Rightarrow> ask_world" where
  "set_resuming m w = w\<lparr>aw_process := (aw_process w)\<lparr>pr_resuming := m\<rparr>\<rparr>"

definition set_finalizing :: "(string \<times> ask_row) list \<Rightarrow> ask_world \<Rightarrow> ask_world" where
  "set_finalizing m w = w\<lparr>aw_process := (aw_process w)\<lparr>pr_finalizing := m\<rparr>\<rparr>"

definition set_delivering :: "(string \<times> (ask_row \<times> deliver_wait)) list \<Rightarrow> ask_world \<Rightarrow> ask_world" where
  "set_delivering m w = w\<lparr>aw_process := (aw_process w)\<lparr>pr_delivering := m\<rparr>\<rparr>"

definition set_accepting :: "(string \<times> accept_wait) list \<Rightarrow> ask_world \<Rightarrow> ask_world" where
  "set_accepting m w = w\<lparr>aw_process := (aw_process w)\<lparr>pr_accepting := m\<rparr>\<rparr>"

section \<open>Finalizing and delivering\<close>

definition with_state :: "ask_state \<Rightarrow> ask_row \<Rightarrow> ask_row" where
  "with_state x r = r\<lparr>rw_state := x\<rparr>"

definition attempted_at :: "int \<Rightarrow> ask_row \<Rightarrow> ask_row" where
  "attempted_at now r = r\<lparr>rw_attempted := Some now\<rparr>"

definition is_finalizing :: "ask_state \<Rightarrow> bool" where
  "is_finalizing x = (case x of Ask_finalizing _ _ \<Rightarrow> True | _ \<Rightarrow> False)"

definition finalize_ask :: "int \<Rightarrow> string \<Rightarrow> ask_world \<Rightarrow> ask_world" where
  "finalize_ask now k w = (case row_in w k of
     None \<Rightarrow> w
   | Some r \<Rightarrow>
       if \<not> is_finalizing (rw_state r) \<or> is_waiting k (pr_finalizing (aw_process w)) then w
       else set_finalizing (map_put k r (pr_finalizing (aw_process w))) (count_active 1 (save_row (attempted_at now r) w)))"

definition completed_row :: "ask_row \<Rightarrow> ask_row" where
  "completed_row r = (case rw_state r of Ask_finalizing reply subjects \<Rightarrow> with_state (Ask_completed reply subjects) r | _ \<Rightarrow> r)"

definition chosen_reply :: "ask_row \<Rightarrow> string" where
  "chosen_reply r = (case rw_state r of Ask_finalizing reply _ \<Rightarrow> reply | Ask_completed reply _ \<Rightarrow> reply | _ \<Rightarrow> [])"

text \<open>The memory service answered: with \<open>ok\<close> it has recorded who the reply discloses what to, and only then the row is completed.\<close>

definition finalize_answered :: "string \<Rightarrow> bool \<Rightarrow> ask_world \<Rightarrow> ask_world \<times> ask_event list" where
  "finalize_answered k ok w = (case map_of (pr_finalizing (aw_process w)) k of
     None \<Rightarrow> (w, [])
   | Some r \<Rightarrow> (set_finalizing (map_del k (pr_finalizing (aw_process w))) (count_active (-1) (if ok then save_row (completed_row r) w else w)),
       if ok then [Reply_accounted k (chosen_reply r)] else []))"

definition deliver_ask :: "ask_host \<Rightarrow> int \<Rightarrow> string \<Rightarrow> ask_world \<Rightarrow> ask_world" where
  "deliver_ask h now k w = (if is_waiting k (pr_delivering (aw_process w)) then w else (case row_in w k of
     None \<Rightarrow> w
   | Some r \<Rightarrow>
       if \<not> ended_state (rw_state r) \<or> rw_delivery r \<noteq> Delivery_pending \<or> \<not> ah_bridge h then w
       else set_delivering (map_put k (r, Deliver_accounting) (pr_delivering (aw_process w))) (count_active 1 (save_row (attempted_at now r) w))))"

text \<open>What the asking thread gets: the chosen reply, or the fixed notice of how the request ended.\<close>

definition outward_text :: "string \<Rightarrow> ask_state \<Rightarrow> string" where
  "outward_text k x = (case x of Ask_completed reply _ \<Rightarrow> reply | Ask_failed \<Rightarrow> kenanRequestNotice k Request_failed | _ \<Rightarrow> kenanRequestNotice k Request_interrupted)"

definition end_deliver :: "string \<Rightarrow> ask_world \<Rightarrow> ask_world" where
  "end_deliver k w = set_delivering (map_del k (pr_delivering (aw_process w))) (count_active (-1) w)"

definition deliver_accounted :: "string \<Rightarrow> bool \<Rightarrow> ask_world \<Rightarrow> ask_world \<times> ask_event list" where
  "deliver_accounted k ok w = (case map_of (pr_delivering (aw_process w)) k of
     Some (r, Deliver_accounting) \<Rightarrow>
       if ok then (set_delivering (map_put k (r, Deliver_reply) (pr_delivering (aw_process w))) w, [Reply_accounted k (outward_text k (rw_state r)), Reply_sent k (outward_text k (rw_state r))])
       else (end_deliver k w, [])
   | _ \<Rightarrow> (w, []))"

definition deliver_answered :: "string \<Rightarrow> bool \<Rightarrow> ask_world \<Rightarrow> ask_world" where
  "deliver_answered k accepted w = (case map_of (pr_delivering (aw_process w)) k of
     Some (r, Deliver_reply) \<Rightarrow> end_deliver k (if accepted then save_row (r\<lparr>rw_delivery := Delivered\<rparr>) w else w)
   | _ \<Rightarrow> w)"

section \<open>Execution\<close>

definition queued_reason :: "string \<Rightarrow> ask_row \<Rightarrow> ask_row" where
  "queued_reason reason r = (case rw_state r of Ask_queued request _ retry \<Rightarrow> with_state (Ask_queued request reason retry) r | _ \<Rightarrow> r)"

definition retry_from :: "int \<Rightarrow> ask_row \<Rightarrow> ask_row" where
  "retry_from t r = (case rw_state r of Ask_queued request reason _ \<Rightarrow> with_state (Ask_queued request reason t) r | _ \<Rightarrow> r)"

definition is_queued :: "ask_state \<Rightarrow> bool" where
  "is_queued x = (case x of Ask_queued _ _ _ \<Rightarrow> True | _ \<Rightarrow> False)"

definition execute_ask :: "ask_row \<Rightarrow> ask_world \<Rightarrow> ask_world \<times> ask_event list" where
  "execute_ask r w = (let k = rw_id r in
     if is_waiting k (pr_running (aw_process w)) then (w, [])
     else (set_running (map_put k (r, Run_executor) (pr_running (aw_process w))) (save_row (queued_reason ''global-agent-capacity'' r) w), [Executor_called k]))"

definition executor_started :: "string \<Rightarrow> ask_world \<Rightarrow> ask_world \<times> ask_event list" where
  "executor_started k w = (case map_of (pr_running (aw_process w)) k of
     Some (r, Run_executor) \<Rightarrow> (set_running (map_put k (r, Run_started) (pr_running (aw_process w))) (save_row (with_state Ask_executing r) w), [Executor_started k])
   | _ \<Rightarrow> (w, []))"

datatype execution_answer = Execution_reply string "string list" | Execution_capacity int | Execution_refused | Execution_threw

definition run_waits :: "string \<Rightarrow> ask_row \<Rightarrow> run_wait \<Rightarrow> ask_world \<Rightarrow> ask_world" where
  "run_waits k r x w = set_running (map_put k (r, x) (pr_running (aw_process w))) w"

definition end_run :: "string \<Rightarrow> ask_world \<Rightarrow> ask_world" where
  "end_run k w = set_running (map_del k (pr_running (aw_process w))) (count_active (-1) w)"

definition executor_answered :: "ask_host \<Rightarrow> int \<Rightarrow> string \<Rightarrow> execution_answer \<Rightarrow> ask_world \<Rightarrow> ask_world \<times> ask_event list" where
  "executor_answered h now k answer w = (case map_of (pr_running (aw_process w)) k of
     Some (r, x) \<Rightarrow>
       if x \<noteq> Run_executor \<and> x \<noteq> Run_started then (w, [])
       else (case answer of
         Execution_reply reply subjects \<Rightarrow>
           (run_waits k r Run_finalizing (finalize_ask now k (save_row (with_state (Ask_finalizing reply subjects) r) w)), [Executor_replied k reply])
       | Execution_capacity t \<Rightarrow>
           if (case row_in w k of None \<Rightarrow> False | Some c \<Rightarrow> is_queued (rw_state c))
           then (end_run k (save_row (attempted_at now (retry_from t (queued_reason ''global-agent-capacity'' r))) w), [])
           else (run_waits k r Run_delivering (deliver_ask h now k (save_row (with_state Ask_failed r) w)), [])
       | Execution_refused \<Rightarrow> (run_waits k r Run_delivering (deliver_ask h now k (save_row (with_state Ask_failed r) w)), [])
       | Execution_threw \<Rightarrow> (case row_in w k of
           Some c \<Rightarrow> if is_queued (rw_state c) \<or> rw_state c = Ask_executing
             then (run_waits k r Run_delivering (deliver_ask h now k (save_row (with_state Ask_failed c) w)), [])
             else (end_run k w, [])
         | None \<Rightarrow> (end_run k w, [])))
   | None \<Rightarrow> (w, []))"

definition run_finalized :: "ask_host \<Rightarrow> int \<Rightarrow> string \<Rightarrow> ask_world \<Rightarrow> ask_world" where
  "run_finalized h now k w = (case map_of (pr_running (aw_process w)) k of
     Some (r, Run_finalizing) \<Rightarrow> run_waits k r Run_delivering (deliver_ask h now k w)
   | _ \<Rightarrow> w)"

definition run_delivered :: "string \<Rightarrow> ask_world \<Rightarrow> ask_world" where
  "run_delivered k w = (case map_of (pr_running (aw_process w)) k of
     Some (r, Run_delivering) \<Rightarrow> end_run k w
   | _ \<Rightarrow> w)"

section \<open>Resuming a queued request\<close>

definition retry_of :: "ask_row \<Rightarrow> int" where
  "retry_of r = (case rw_state r of Ask_queued _ _ t \<Rightarrow> t | _ \<Rightarrow> 0)"

definition resume_ask :: "ask_host \<Rightarrow> int \<Rightarrow> ask_row \<Rightarrow> ask_world \<Rightarrow> ask_world" where
  "resume_ask h now r w = (let k = rw_id r in
     if pr_paused (aw_process w) \<or> retry_of r > now \<or> is_waiting k (pr_running (aw_process w)) \<or> is_waiting k (pr_resuming (aw_process w))
        \<or> pr_active (aw_process w) \<ge> int (ah_max h) then w
     else set_resuming (map_put k (r, Resume_admission) (pr_resuming (aw_process w))) (count_active 1 (save_row (attempted_at now (retry_from (now + 5000) r)) w)))"

definition end_resume :: "string \<Rightarrow> ask_world \<Rightarrow> ask_world" where
  "end_resume k w = set_resuming (map_del k (pr_resuming (aw_process w))) (count_active (-1) w)"

datatype resume_answer = Resume_denied | Resume_unavailable | Resume_admitted ask_admission

definition resume_answered :: "ask_host \<Rightarrow> int \<Rightarrow> string \<Rightarrow> resume_answer \<Rightarrow> ask_world \<Rightarrow> ask_world \<times> ask_event list" where
  "resume_answered h now k answer w = (case map_of (pr_resuming (aw_process w)) k of
     Some (r, Resume_admission) \<Rightarrow> (case answer of
         Resume_denied \<Rightarrow> (let w' = deliver_ask h now k (save_row (with_state Ask_failed r) w) in (set_resuming (map_put k (r, Resume_delivering) (pr_resuming (aw_process w'))) w', []))
       | Resume_unavailable \<Rightarrow> (end_resume k (save_row (attempted_at now (retry_from (now + 5000) (queued_reason ''admission-unavailable'' r))) w), [])
       | Resume_admitted a \<Rightarrow>
           if a \<noteq> rw_admission r then (end_resume k (save_row (with_state Ask_failed r) w), [])
           else if pr_paused (aw_process w) then (end_resume k (save_row (retry_from now (queued_reason ''executor-handoff'' r)) w), [])
           else (let (w', evs) = execute_ask r w in (set_resuming (map_put k (r, Resume_running) (pr_resuming (aw_process w'))) w', evs)))
   | _ \<Rightarrow> (w, []))"

definition resume_ended :: "string \<Rightarrow> ask_world \<Rightarrow> ask_world" where
  "resume_ended k w = (case map_of (pr_resuming (aw_process w)) k of
     Some (r, Resume_delivering) \<Rightarrow> end_resume k w
   | Some (r, Resume_running) \<Rightarrow> if is_waiting k (pr_running (aw_process w)) then w else set_resuming (map_del k (pr_resuming (aw_process w))) w
   | _ \<Rightarrow> w)"

definition drain_one :: "ask_host \<Rightarrow> int \<Rightarrow> ask_row \<Rightarrow> ask_world \<Rightarrow> ask_world" where
  "drain_one h now r w = (if is_queued (rw_state r) then resume_ask h now r w else finalize_ask now (rw_id r) w)"

definition drain_asks :: "ask_host \<Rightarrow> int \<Rightarrow> ask_world \<Rightarrow> ask_world" where
  "drain_asks h now w = (if pr_paused (aw_process w) then w else fold (drain_one h now) (pending_asks (ah_max h) now (aw_store w)) w)"

section \<open>Asking\<close>

definition post_ask :: "string \<Rightarrow> string \<Rightarrow> bool \<Rightarrow> ask_world \<Rightarrow> ask_world \<times> ask_event list" where
  "post_ask k request asynchronous w =
     (if is_waiting k (pr_accepting (aw_process w)) then (w, [])
      else (case row_in w k of
        Some r \<Rightarrow> (w, [])
      | None \<Rightarrow> if k \<in> set (ak_fenced (aw_store w)) then (w, [Told_unaccepted k])
          else (set_accepting (map_put k (Accept_admission request asynchronous) (pr_accepting (aw_process w))) (count_active 1 w), [])))"

definition end_accept :: "string \<Rightarrow> ask_world \<Rightarrow> ask_world" where
  "end_accept k w = set_accepting (map_del k (pr_accepting (aw_process w))) w"

definition post_admitted :: "ask_host \<Rightarrow> int \<Rightarrow> string \<Rightarrow> ask_admission option \<Rightarrow> ask_world \<Rightarrow> ask_world \<times> ask_event list" where
  "post_admitted h now k answer w = (case map_of (pr_accepting (aw_process w)) k of
     Some (Accept_admission request asynchronous) \<Rightarrow> (case answer of
         None \<Rightarrow> (end_accept k (count_active (-1) w), [])
       | Some a \<Rightarrow> (let r = new_ask (ah_hash h) now k request a asynchronous in
           case accept_ask r (aw_store w) of
             None \<Rightarrow> (end_accept k (count_active (-1) w), [])
           | Some s \<Rightarrow> (let w1 = w\<lparr>aw_store := s\<rparr> in
               if pr_paused (aw_process w1) then (end_accept k (count_active (-1) (save_row (queued_reason ''executor-handoff'' r) w1)), [])
               else if pr_active (aw_process w1) > int (ah_max h) then (end_accept k (count_active (-1) w1), [])
               else (let (w2, evs) = execute_ask r w1 in
                 (if asynchronous then end_accept k w2 else set_accepting (map_put k Accept_reply (pr_accepting (aw_process w2))) w2, evs)))))
   | _ \<Rightarrow> (w, []))"

definition post_replied :: "string \<Rightarrow> ask_world \<Rightarrow> ask_world" where
  "post_replied k w = (case map_of (pr_accepting (aw_process w)) k of
     Some Accept_reply \<Rightarrow> if is_waiting k (pr_running (aw_process w)) then w else end_accept k w
   | _ \<Rightarrow> w)"

text \<open>A look at a request: one that is unknown is declared not accepted, for good. Of one that is known, the look goes on when
  the memory service has answered that the caller may see it: \<open>seen\<close> is the row that was read before.\<close>

definition look_ask :: "string \<Rightarrow> ask_world \<Rightarrow> ask_world \<times> ask_event list" where
  "look_ask k w =
     (if is_waiting k (pr_accepting (aw_process w)) then (w, [])
      else (case fenceNotAccepted k (aw_store w) of
        Some s \<Rightarrow> (w\<lparr>aw_store := s\<rparr>, [Told_unaccepted k])
      | None \<Rightarrow> (w, [])))"

definition look_authorized :: "int \<Rightarrow> ask_row \<Rightarrow> ask_world \<Rightarrow> ask_world" where
  "look_authorized now seen w = (if is_finalizing (rw_state seen) \<and> \<not> pr_paused (aw_process w) then finalize_ask now (rw_id seen) w else w)"

text \<open>What the caller is told of a known request.\<close>

datatype ask_answer = Kenan_reply string | Kenan_pending string "string option" | Kenan_ended string string

definition ask_status :: "ask_row \<Rightarrow> ask_answer" where
  "ask_status r = (case rw_state r of
     Ask_completed reply _ \<Rightarrow> Kenan_reply reply
   | Ask_queued _ reason _ \<Rightarrow> Kenan_pending (rw_id r) (Some reason)
   | Ask_executing \<Rightarrow> Kenan_pending (rw_id r) None
   | Ask_finalizing _ _ \<Rightarrow> Kenan_pending (rw_id r) None
   | Ask_failed \<Rightarrow> Kenan_ended (rw_id r) ''failed''
   | Ask_interrupted \<Rightarrow> Kenan_ended (rw_id r) ''interrupted'')"

definition show_ask :: "string \<Rightarrow> ask_world \<Rightarrow> ask_event list" where
  "show_ask k w = (case row_in w k of
     None \<Rightarrow> []
   | Some r \<Rightarrow> (case ask_status r of Kenan_reply reply \<Rightarrow> [Reply_shown k reply] | _ \<Rightarrow> []))"

section \<open>Handoff to another release\<close>

definition commit_id :: "string \<Rightarrow> bool" where
  "commit_id s = (length s = 40 \<and> list_all (\<lambda>c. c \<in> set ''0123456789abcdef'') s)"

definition handoff_fits :: "string option \<Rightarrow> string \<Rightarrow> string option \<Rightarrow> bool" where
  "handoff_fits current target previous = (case previous of
     Some p \<Rightarrow> current = Some p
   | None \<Rightarrow> current = None \<or> current = Some target)"

definition set_handoff :: "string option \<Rightarrow> ask_world \<Rightarrow> ask_world" where
  "set_handoff target w = w\<lparr>aw_store := (aw_store w)\<lparr>ak_target := target\<rparr>, aw_process := (aw_process w)\<lparr>pr_paused := target \<noteq> None\<rparr>\<rparr>"

definition begin_handoff :: "string \<Rightarrow> string option \<Rightarrow> ask_world \<Rightarrow> ask_world" where
  "begin_handoff target previous w =
     (if \<not> commit_id target \<or> \<not> handoff_fits (ak_target (aw_store w)) target previous then w else set_handoff (Some target) w)"

definition end_handoff :: "string \<Rightarrow> ask_world \<Rightarrow> ask_world" where
  "end_handoff target w =
     (if \<not> commit_id target \<or> \<not> handoff_fits (ak_target (aw_store w)) target None \<or> pr_stopping (aw_process w) then w else set_handoff None w)"

definition handoff_ready :: "bool \<Rightarrow> ask_process \<Rightarrow> bool" where
  "handoff_ready consent_active p = (pr_paused p \<and> \<not> consent_active \<and> pr_running p = [] \<and> pr_resuming p = [] \<and> pr_finalizing p = [] \<and> pr_delivering p = [])"

text \<open>The process is asked to end: it starts nothing more.\<close>

definition stop_dispatch :: "ask_world \<Rightarrow> ask_world" where
  "stop_dispatch w = w\<lparr>aw_process := (aw_process w)\<lparr>pr_paused := True, pr_stopping := True\<rparr>\<rparr>"

section \<open>Steps\<close>

datatype ask_step =
    Post_ask string string bool
  | Post_admitted string "ask_admission option" int
  | Post_replied string
  | Look_ask string
  | Look_authorized ask_row int
  | Show_ask string
  | Finalize_answered string bool
  | Deliver_ask string int
  | Deliver_accounted string bool
  | Deliver_answered string bool
  | Executor_starts string
  | Executor_answers string execution_answer int
  | Run_finalized string int
  | Run_delivered string
  | Drain_asks int
  | Resume_answered string resume_answer int
  | Resume_ended string
  | Begin_handoff string "string option"
  | End_handoff string
  | Stop_dispatch
  | Restart_process

definition ask_apply :: "ask_host \<Rightarrow> ask_step \<Rightarrow> ask_world \<Rightarrow> ask_world \<times> ask_event list" where
  "ask_apply h step w = (case step of
     Post_ask k request asynchronous \<Rightarrow> post_ask k request asynchronous w
   | Post_admitted k answer now \<Rightarrow> post_admitted h now k answer w
   | Post_replied k \<Rightarrow> (post_replied k w, [])
   | Look_ask k \<Rightarrow> look_ask k w
   | Look_authorized seen now \<Rightarrow> (look_authorized now seen w, [])
   | Show_ask k \<Rightarrow> (w, show_ask k w)
   | Finalize_answered k ok \<Rightarrow> finalize_answered k ok w
   | Deliver_ask k now \<Rightarrow> (deliver_ask h now k w, [])
   | Deliver_accounted k ok \<Rightarrow> deliver_accounted k ok w
   | Deliver_answered k accepted \<Rightarrow> (deliver_answered k accepted w, [])
   | Executor_starts k \<Rightarrow> executor_started k w
   | Executor_answers k answer now \<Rightarrow> executor_answered h now k answer w
   | Run_finalized k now \<Rightarrow> (run_finalized h now k w, [])
   | Run_delivered k \<Rightarrow> (run_delivered k w, [])
   | Drain_asks now \<Rightarrow> (drain_asks h now w, [])
   | Resume_answered k answer now \<Rightarrow> resume_answered h now k answer w
   | Resume_ended k \<Rightarrow> (resume_ended k w, [])
   | Begin_handoff target previous \<Rightarrow> (begin_handoff target previous w, [])
   | End_handoff target \<Rightarrow> (end_handoff target w, [])
   | Stop_dispatch \<Rightarrow> (stop_dispatch w, [])
   | Restart_process \<Rightarrow> (start_process (aw_store w), []))"

fun ask_run :: "ask_host \<Rightarrow> ask_step list \<Rightarrow> ask_world \<Rightarrow> ask_world \<times> ask_event list" where
  "ask_run h [] w = (w, [])"
| "ask_run h (step # steps) w = (let (w1, e1) = ask_apply h step w; (w2, e2) = ask_run h steps w1 in (w2, e1 @ e2))"

end
