(* ===== verification/Root_Requests_Safety.thy ===== *)
theory Root_Requests_Safety
  imports Root_Requests
begin

text \<open>
  What every run of the request service keeps, however its operations interleave and wherever the process stops. All but the
  counting is local to a request: its row, whether it is fenced, and what waits for it.
\<close>

section \<open>Changes of the state\<close>

lemma row_in_save: "row_in (save_row r w) j = (if j = rw_id r \<and> row_in w j \<noteq> None then Some r else row_in w j)"
  by (auto simp: row_in_def save_row_def ask_save_def ask_row_of_def)

lemma save_same [simp]: "aw_process (save_row r w) = aw_process w" "ak_fenced (aw_store (save_row r w)) = ak_fenced (aw_store w)"
  by (simp_all add: save_row_def ask_save_def)

lemma set_same [simp]:
  "aw_store (count_active n w) = aw_store w" "aw_store (set_running a w) = aw_store w" "aw_store (set_resuming b w) = aw_store w"
  "aw_store (set_finalizing c w) = aw_store w" "aw_store (set_delivering d w) = aw_store w" "aw_store (set_accepting e w) = aw_store w"
  "row_in (count_active n w) k = row_in w k" "row_in (set_running a w) k = row_in w k" "row_in (set_resuming b w) k = row_in w k"
  "row_in (set_finalizing c w) k = row_in w k" "row_in (set_delivering d w) k = row_in w k" "row_in (set_accepting e w) k = row_in w k"
  by (simp_all add: count_active_def set_running_def set_resuming_def set_finalizing_def set_delivering_def set_accepting_def row_in_def)

lemma process_same [simp]:
  "pr_running (aw_process (count_active n w)) = pr_running (aw_process w)" "pr_resuming (aw_process (count_active n w)) = pr_resuming (aw_process w)"
  "pr_finalizing (aw_process (count_active n w)) = pr_finalizing (aw_process w)" "pr_delivering (aw_process (count_active n w)) = pr_delivering (aw_process w)"
  "pr_running (aw_process (set_running a w)) = a" "pr_resuming (aw_process (set_running a w)) = pr_resuming (aw_process w)"
  "pr_finalizing (aw_process (set_running a w)) = pr_finalizing (aw_process w)" "pr_delivering (aw_process (set_running a w)) = pr_delivering (aw_process w)"
  "pr_running (aw_process (set_resuming b w)) = pr_running (aw_process w)" "pr_resuming (aw_process (set_resuming b w)) = b"
  "pr_finalizing (aw_process (set_resuming b w)) = pr_finalizing (aw_process w)" "pr_delivering (aw_process (set_resuming b w)) = pr_delivering (aw_process w)"
  "pr_running (aw_process (set_finalizing c w)) = pr_running (aw_process w)" "pr_resuming (aw_process (set_finalizing c w)) = pr_resuming (aw_process w)"
  "pr_finalizing (aw_process (set_finalizing c w)) = c" "pr_delivering (aw_process (set_finalizing c w)) = pr_delivering (aw_process w)"
  "pr_running (aw_process (set_delivering d w)) = pr_running (aw_process w)" "pr_resuming (aw_process (set_delivering d w)) = pr_resuming (aw_process w)"
  "pr_finalizing (aw_process (set_delivering d w)) = pr_finalizing (aw_process w)" "pr_delivering (aw_process (set_delivering d w)) = d"
  "pr_running (aw_process (set_accepting e w)) = pr_running (aw_process w)" "pr_resuming (aw_process (set_accepting e w)) = pr_resuming (aw_process w)"
  "pr_finalizing (aw_process (set_accepting e w)) = pr_finalizing (aw_process w)" "pr_delivering (aw_process (set_accepting e w)) = pr_delivering (aw_process w)"
  by (simp_all add: count_active_def set_running_def set_resuming_def set_finalizing_def set_delivering_def set_accepting_def)


section \<open>What is kept of a request\<close>

definition state_in :: "ask_world \<Rightarrow> string \<Rightarrow> ask_state option" where
  "state_in w k = map_option rw_state (row_in w k)"

definition known :: "(ask_state \<Rightarrow> bool) \<Rightarrow> ask_state option \<Rightarrow> bool" where
  "known P st = (case st of None \<Rightarrow> False | Some x \<Rightarrow> P x)"

lemma known_simps [simp]: "\<not> known P None" "known P (Some x) = P x"
  by (simp_all add: known_def)

lemma known_ex: "known P st \<longleftrightarrow> (\<exists>x. st = Some x \<and> P x)"
  by (cases st) auto

definition finalizing_ok :: "string \<Rightarrow> ask_state option \<Rightarrow> ask_row option \<Rightarrow> bool" where
  "finalizing_ok k st f = (case f of None \<Rightarrow> True | Some r \<Rightarrow> rw_id r = k \<and> is_finalizing (rw_state r) \<and> st = Some (rw_state r))"

definition delivering_ok :: "string \<Rightarrow> ask_state option \<Rightarrow> (ask_row \<times> deliver_wait) option \<Rightarrow> bool" where
  "delivering_ok k st d = (case d of None \<Rightarrow> True | Some (r, x) \<Rightarrow> rw_id r = k \<and> ended_state (rw_state r) \<and> st = Some (rw_state r))"

definition running_ok :: "string \<Rightarrow> ask_state option \<Rightarrow> (ask_row \<times> run_wait) option \<Rightarrow> bool" where
  "running_ok k st q = (case q of None \<Rightarrow> True | Some (r, x) \<Rightarrow> rw_id r = k \<and> is_queued (rw_state r)
     \<and> known (\<lambda>y. (x = Run_executor \<longrightarrow> is_queued y) \<and> (x = Run_started \<longrightarrow> y = Ask_executing)) st)"

definition resuming_ok :: "string \<Rightarrow> ask_state option \<Rightarrow> (ask_row \<times> run_wait) option \<Rightarrow> (ask_row \<times> resume_wait) option \<Rightarrow> bool" where
  "resuming_ok k st q u = (case u of None \<Rightarrow> True | Some (r, x) \<Rightarrow> rw_id r = k \<and> is_queued (rw_state r)
     \<and> known (\<lambda>y. x = Resume_admission \<longrightarrow> is_queued y) st \<and> (x = Resume_admission \<longrightarrow> q = None))"

definition row_keyed :: "string \<Rightarrow> ask_row option \<Rightarrow> bool \<Rightarrow> bool" where
  "row_keyed k row fenced = (case row of None \<Rightarrow> True | Some r \<Rightarrow> rw_id r = k \<and> \<not> fenced)"

definition fenced_in :: "ask_world \<Rightarrow> string \<Rightarrow> bool" where
  "fenced_in w k = (k \<in> set (ak_fenced (aw_store w)))"

definition ask_ok :: "ask_world \<Rightarrow> string \<Rightarrow> bool" where
  "ask_ok w k = (row_keyed k (row_in w k) (fenced_in w k) \<and> finalizing_ok k (state_in w k) (map_of (pr_finalizing (aw_process w)) k)
     \<and> delivering_ok k (state_in w k) (map_of (pr_delivering (aw_process w)) k) \<and> running_ok k (state_in w k) (map_of (pr_running (aw_process w)) k)
     \<and> resuming_ok k (state_in w k) (map_of (pr_running (aw_process w)) k) (map_of (pr_resuming (aw_process w)) k))"

definition same_ask :: "ask_world \<Rightarrow> ask_world \<Rightarrow> string \<Rightarrow> bool" where
  "same_ask w w' k = (row_in w' k = row_in w k \<and> fenced_in w' k = fenced_in w k \<and> map_of (pr_finalizing (aw_process w')) k = map_of (pr_finalizing (aw_process w)) k
     \<and> map_of (pr_delivering (aw_process w')) k = map_of (pr_delivering (aw_process w)) k \<and> map_of (pr_running (aw_process w')) k = map_of (pr_running (aw_process w)) k
     \<and> map_of (pr_resuming (aw_process w')) k = map_of (pr_resuming (aw_process w)) k)"

definition asks_ok :: "ask_world \<Rightarrow> bool" where
  "asks_ok w = (\<forall>k. ask_ok w k)"

text \<open>How the state of a request may go on.\<close>

definition follows :: "ask_state \<Rightarrow> ask_state \<Rightarrow> bool" where
  "follows x y = (is_queued x \<or> x = y \<or> (x = Ask_executing \<and> \<not> is_queued y) \<or> (\<exists>r s. x = Ask_finalizing r s \<and> y = Ask_completed r s))"

definition goes_on :: "ask_state option \<Rightarrow> ask_state option \<Rightarrow> bool" where
  "goes_on st st' = (case st of None \<Rightarrow> True | Some x \<Rightarrow> known (follows x) st')"

definition reply_of :: "ask_state \<Rightarrow> string option" where
  "reply_of x = (case x of Ask_finalizing reply _ \<Rightarrow> Some reply | Ask_completed reply _ \<Rightarrow> Some reply | _ \<Rightarrow> None)"

definition reply_in :: "ask_state option \<Rightarrow> string option" where
  "reply_in st = Option.bind st reply_of"

definition completed_in :: "ask_state option \<Rightarrow> string option" where
  "completed_in st = (case st of Some (Ask_completed reply _) \<Rightarrow> Some reply | _ \<Rightarrow> None)"

text \<open>What an event says of its request, before and after.\<close>

definition event_ok :: "ask_world \<Rightarrow> ask_world \<Rightarrow> ask_event list \<Rightarrow> ask_event \<Rightarrow> bool" where
  "event_ok w w' es e = (case e of
     Executor_called k \<Rightarrow> known is_queued (state_in w' k) \<and> (state_in w k = None \<or> known is_queued (state_in w k)) \<and> \<not> pr_paused (aw_process w)
   | Executor_started k \<Rightarrow> known is_queued (state_in w k) \<and> known (\<lambda>x. \<not> is_queued x) (state_in w' k)
   | Executor_replied k reply \<Rightarrow> True
   | Reply_accounted k t \<Rightarrow> True
   | Reply_sent k t \<Rightarrow> Reply_accounted k t \<in> set es \<and> known (\<lambda>x. ended_state x \<and> t = outward_text k x) (state_in w' k)
   | Reply_shown k t \<Rightarrow> known (\<lambda>x. \<exists>subjects. x = Ask_completed t subjects) (state_in w' k)
   | Told_unaccepted k \<Rightarrow> fenced_in w' k)"

definition ask_advances :: "ask_world \<Rightarrow> ask_world \<Rightarrow> ask_event list \<Rightarrow> string \<Rightarrow> bool" where
  "ask_advances w w' es k = (goes_on (state_in w k) (state_in w' k) \<and> (fenced_in w k \<longrightarrow> fenced_in w' k)
     \<and> (\<forall>reply. reply_in (state_in w' k) = Some reply \<longrightarrow> reply_in (state_in w k) = Some reply \<or> Executor_replied k reply \<in> set es)
     \<and> (\<forall>reply. completed_in (state_in w' k) = Some reply \<longrightarrow> completed_in (state_in w k) = Some reply \<or> Reply_accounted k reply \<in> set es))"

definition ask_step_ok :: "ask_world \<Rightarrow> ask_world \<times> ask_event list \<Rightarrow> bool" where
  "ask_step_ok w p = (asks_ok (fst p) \<and> (\<forall>k. ask_advances w (fst p) (snd p) k) \<and> list_all (event_ok w (fst p) (snd p)) (snd p))"

lemma follows_refl [simp]: "follows x x" by (simp add: follows_def)

lemma follows_trans: "follows x y \<Longrightarrow> follows y z \<Longrightarrow> follows x z"
  by (auto simp: follows_def is_queued_def)

lemma goes_on_refl [simp]: "goes_on st st"
  by (simp add: goes_on_def split: option.split)

lemma goes_on_trans: "goes_on st st' \<Longrightarrow> goes_on st' st'' \<Longrightarrow> goes_on st st''"
  using follows_trans by (auto simp: goes_on_def known_ex split: option.splits)

lemma same_ask_ok: "same_ask w w' k \<Longrightarrow> ask_ok w k \<Longrightarrow> ask_ok w' k"
  by (simp add: same_ask_def ask_ok_def state_in_def)

lemma same_advances: "same_ask w w' k \<Longrightarrow> ask_advances w w' es k"
  by (simp add: same_ask_def ask_advances_def state_in_def)

lemma local_step:
  assumes "asks_ok w" and "\<And>j. j \<noteq> k \<Longrightarrow> same_ask w w' j"
    and "ask_ok w' k" and "ask_advances w w' es k" and "list_all (event_ok w w' es) es"
  shows "ask_step_ok w (w', es)"
proof -
  have "ask_ok w j" for j using assms(1) by (simp add: asks_ok_def)
  then have "ask_ok w' j \<and> ask_advances w w' es j" for j
    using assms(3,4) same_ask_ok[OF assms(2)] same_advances[OF assms(2)] by (cases "j = k") blast+
  then show ?thesis using assms(5) by (simp add: ask_step_ok_def asks_ok_def)
qed

lemma step_refl: "asks_ok w \<Longrightarrow> ask_step_ok w (w, [])"
  by (simp add: ask_step_ok_def ask_advances_def)

text \<open>Steps without events follow one another.\<close>

lemma quiet_steps:
  assumes "ask_step_ok w (w1, [])" "ask_step_ok w1 (w2, [])"
  shows "ask_step_ok w (w2, [])"
proof -
  have "ask_advances w w2 [] k" for k
  proof -
    have "ask_advances w w1 [] k" "ask_advances w1 w2 [] k" using assms by (simp_all add: ask_step_ok_def)
    then show ?thesis using goes_on_trans unfolding ask_advances_def by auto
  qed
  then show ?thesis using assms(2) by (simp add: ask_step_ok_def)
qed

section \<open>Every piece of an operation\<close>

lemma row_id:
  assumes "asks_ok w" "row_in w k = Some r" shows "rw_id r = k \<and> \<not> fenced_in w k"
proof -
  have "row_keyed k (row_in w k) (fenced_in w k)" using assms(1) unfolding asks_ok_def ask_ok_def by blast
  then show ?thesis unfolding assms(2) row_keyed_def by simp
qed

lemma ask_at: "asks_ok w \<Longrightarrow> ask_ok w k"
  by (simp add: asks_ok_def)

lemmas row_changes = with_state_def attempted_at_def completed_row_def queued_reason_def retry_from_def

lemma same_id [simp]: "rw_id (with_state x r) = rw_id r" "rw_id (attempted_at t r) = rw_id r" "rw_id (completed_row r) = rw_id r"
  "rw_id (queued_reason q r) = rw_id r" "rw_id (retry_from t r) = rw_id r"
  by (simp_all add: row_changes split: ask_state.split)

lemma same_state [simp]: "rw_state (with_state x r) = x" "rw_state (attempted_at t r) = rw_state r"
  "is_queued (rw_state (queued_reason q r)) = is_queued (rw_state r)" "is_queued (rw_state (retry_from t r)) = is_queued (rw_state r)"
  by (simp_all add: row_changes is_queued_def split: ask_state.split)

lemma fenced_same [simp]: "fenced_in (save_row r w) k = fenced_in w k" "fenced_in (count_active n w) k = fenced_in w k"
  "fenced_in (set_running a w) k = fenced_in w k" "fenced_in (set_resuming b w) k = fenced_in w k" "fenced_in (set_finalizing c w) k = fenced_in w k"
  "fenced_in (set_delivering d w) k = fenced_in w k" "fenced_in (set_accepting e w) k = fenced_in w k"
  by (simp_all add: fenced_in_def)

lemmas parts_ok = row_keyed_def finalizing_ok_def delivering_ok_def running_ok_def resuming_ok_def

lemma finalize_step:
  assumes J: "asks_ok w" shows "ask_step_ok w (finalize_ask now k w, [])"
proof (cases "row_in w k")
  case None
  then show ?thesis using step_refl[OF J] by (simp add: finalize_ask_def)
next
  case (Some r)
  define p where "p = (\<not> is_finalizing (rw_state r) \<or> is_waiting k (pr_finalizing (aw_process w)))"
  define w' where "w' = set_finalizing (map_put k r (pr_finalizing (aw_process w))) (count_active 1 (save_row (attempted_at now r) w))"
  have eq: "finalize_ask now k w = (if p then w else w')" unfolding finalize_ask_def Some option.case p_def w'_def ..
  have id: "rw_id r = k" using row_id[OF J Some] by simp
  show ?thesis
  proof (cases p)
    case True
    then show ?thesis using step_refl[OF J] eq by simp
  next
    case False
    then have f: "is_finalizing (rw_state r)" by (simp add: p_def)
    have "ask_step_ok w (w', [])"
    proof (rule local_step[OF J])
      show "same_ask w w' j" if "j \<noteq> k" for j using that id by (simp add: same_ask_def w'_def row_in_save)
      show "ask_ok w' k" using ask_at[OF J, of k] f id Some by (simp add: ask_ok_def w'_def row_in_save state_in_def finalizing_ok_def row_keyed_def)
      show "ask_advances w w' [] k" using Some id by (simp add: ask_advances_def w'_def row_in_save state_in_def)
    qed simp
    then show ?thesis using eq False by simp
  qed
qed

lemma finalize_answered_step:
  assumes J: "asks_ok w" shows "ask_step_ok w (finalize_answered k ok w)"
proof (cases "map_of (pr_finalizing (aw_process w)) k")
  case None
  then show ?thesis using step_refl[OF J] by (simp add: finalize_answered_def)
next
  case (Some r)
  define w1 where "w1 = (if ok then save_row (completed_row r) w else w)"
  define w' where "w' = set_finalizing (map_del k (pr_finalizing (aw_process w))) (count_active (-1) w1)"
  define es where "es = (if ok then [Reply_accounted k (chosen_reply r)] else [])"
  have eq: "finalize_answered k ok w = (w', es)" unfolding finalize_answered_def Some option.case w'_def w1_def es_def ..
  have ok: "ask_ok w k" by (rule ask_at[OF J])
  then have f: "rw_id r = k" "is_finalizing (rw_state r)" "state_in w k = Some (rw_state r)" using Some by (simp_all add: ask_ok_def finalizing_ok_def)
  obtain c where c: "row_in w k = Some c" "rw_state c = rw_state r" using f(3) by (auto simp: state_in_def)
  obtain reply subjects where st: "rw_state r = Ask_finalizing reply subjects" using f(2) by (auto simp: is_finalizing_def split: ask_state.splits)
  have over: "rw_state (completed_row r) = Ask_completed reply subjects" by (simp add: completed_row_def st)
  have row': "row_in w1 j = (if j = k \<and> ok then Some (completed_row r) else row_in w j)" for j
    using f(1) c by (auto simp: w1_def row_in_save)
  have same: "fenced_in w1 j = fenced_in w j" "aw_process w1 = aw_process w" for j by (simp_all add: w1_def)
  have idle: "map_of (pr_delivering (aw_process w)) k = None"
  proof -
    have "\<not> ended_state (Ask_finalizing reply subjects)" by (simp add: ended_state_def)
    then show ?thesis using ok f(3) st unfolding ask_ok_def delivering_ok_def by (auto split: option.splits)
  qed
  have res: "running_ok k (Some x) (map_of (pr_running (aw_process w)) k) \<and> resuming_ok k (Some x) (map_of (pr_running (aw_process w)) k) (map_of (pr_resuming (aw_process w)) k)"
    if "x = Ask_completed reply subjects \<or> x = Ask_finalizing reply subjects" for x
    using ok f(3) st that by (auto simp: ask_ok_def running_ok_def resuming_ok_def is_queued_def split: option.splits)
  have "ask_step_ok w (w', es)"
  proof (rule local_step[OF J])
    show "same_ask w w' j" if "j \<noteq> k" for j using that row' same by (simp add: same_ask_def w'_def)
    show "ask_ok w' k"
      using row_id[OF J c(1)] f(1) c row' same idle res st over by (simp add: ask_ok_def w'_def state_in_def parts_ok(1,2,3))
    show "ask_advances w w' es k"
      using c row' same st over by (simp add: ask_advances_def w'_def state_in_def goes_on_def follows_def reply_in_def reply_of_def completed_in_def es_def chosen_reply_def)
    show "list_all (event_ok w w' es) es" by (simp add: es_def event_ok_def)
  qed
  then show ?thesis using eq by simp
qed

lemma ended_or: "ended_state x \<Longrightarrow> \<not> is_queued x \<and> \<not> is_finalizing x \<and> x \<noteq> Ask_executing"
  by (auto simp: ended_state_def is_queued_def is_finalizing_def split: ask_state.splits)

lemma deliver_step:
  assumes J: "asks_ok w" shows "ask_step_ok w (deliver_ask h now k w, [])"
proof (cases "is_waiting k (pr_delivering (aw_process w)) \<or> row_in w k = None")
  case True
  then have "deliver_ask h now k w = w" unfolding deliver_ask_def by (auto split: option.split)
  then show ?thesis using step_refl[OF J] by simp
next
  case False
  then obtain r where r: "row_in w k = Some r" and idle: "\<not> is_waiting k (pr_delivering (aw_process w))" by blast
  define p where "p = (\<not> ended_state (rw_state r) \<or> rw_delivery r \<noteq> Delivery_pending \<or> \<not> ah_bridge h)"
  define w' where "w' = set_delivering (map_put k (r, Deliver_accounting) (pr_delivering (aw_process w))) (count_active 1 (save_row (attempted_at now r) w))"
  have eq: "deliver_ask h now k w = (if p then w else w')" unfolding deliver_ask_def r option.case p_def w'_def using idle by simp
  have id: "rw_id r = k" using row_id[OF J r] by simp
  show ?thesis
  proof (cases p)
    case True
    then show ?thesis using step_refl[OF J] eq by simp
  next
    case False
    then have f: "ended_state (rw_state r)" by (simp add: p_def)
    have "ask_step_ok w (w', [])"
    proof (rule local_step[OF J])
      show "same_ask w w' j" if "j \<noteq> k" for j using that id by (simp add: same_ask_def w'_def row_in_save)
      show "ask_ok w' k" using ask_at[OF J, of k] f id r by (simp add: ask_ok_def w'_def row_in_save state_in_def delivering_ok_def row_keyed_def)
      show "ask_advances w w' [] k" using r id by (simp add: ask_advances_def w'_def row_in_save state_in_def)
    qed simp
    then show ?thesis using eq False by simp
  qed
qed

lemma deliver_accounted_step:
  assumes J: "asks_ok w" shows "ask_step_ok w (deliver_accounted k ok w)"
proof (cases "\<exists>r. map_of (pr_delivering (aw_process w)) k = Some (r, Deliver_accounting)")
  case False
  then have "deliver_accounted k ok w = (w, [])" unfolding deliver_accounted_def by (auto split: option.split prod.split deliver_wait.split)
  then show ?thesis using step_refl[OF J] by simp
next
  case True
  then obtain r where r: "map_of (pr_delivering (aw_process w)) k = Some (r, Deliver_accounting)" by blast
  have ok: "ask_ok w k" by (rule ask_at[OF J])
  then have f: "rw_id r = k" "ended_state (rw_state r)" "state_in w k = Some (rw_state r)" using r by (simp_all add: ask_ok_def delivering_ok_def)
  define w1 where "w1 = set_delivering (map_put k (r, Deliver_reply) (pr_delivering (aw_process w))) w"
  define w2 where "w2 = end_deliver k w"
  define es where "es = [Reply_accounted k (outward_text k (rw_state r)), Reply_sent k (outward_text k (rw_state r))]"
  have eq: "deliver_accounted k ok w = (if ok then (w1, es) else (w2, []))"
    unfolding deliver_accounted_def r option.case prod.case deliver_wait.case w1_def w2_def es_def ..
  have "ask_step_ok w (w1, es)"
  proof (rule local_step[OF J])
    show "same_ask w w1 j" if "j \<noteq> k" for j using that by (simp add: same_ask_def w1_def fenced_in_def)
    show "ask_ok w1 k" using ok f by (simp add: ask_ok_def w1_def state_in_def delivering_ok_def)
    show "ask_advances w w1 es k" by (simp add: ask_advances_def w1_def state_in_def)
    have "state_in w1 k = Some (rw_state r)" using f(3) by (simp add: w1_def state_in_def)
    then show "list_all (event_ok w w1 es) es" using f(2) by (simp add: event_ok_def es_def)
  qed
  moreover have "ask_step_ok w (w2, [])"
  proof (rule local_step[OF J])
    show "same_ask w w2 j" if "j \<noteq> k" for j using that by (simp add: same_ask_def w2_def end_deliver_def)
    show "ask_ok w2 k" using ok by (simp add: ask_ok_def w2_def end_deliver_def state_in_def delivering_ok_def)
    show "ask_advances w w2 [] k" by (simp add: ask_advances_def w2_def end_deliver_def state_in_def)
  qed simp
  ultimately show ?thesis unfolding eq by simp
qed

lemma deliver_answered_step:
  assumes J: "asks_ok w" shows "ask_step_ok w (deliver_answered k accepted w, [])"
proof (cases "\<exists>r. map_of (pr_delivering (aw_process w)) k = Some (r, Deliver_reply)")
  case False
  then have "deliver_answered k accepted w = w" unfolding deliver_answered_def by (auto split: option.split prod.split deliver_wait.split)
  then show ?thesis using step_refl[OF J] by simp
next
  case True
  then obtain r where r: "map_of (pr_delivering (aw_process w)) k = Some (r, Deliver_reply)" by blast
  have ok: "ask_ok w k" by (rule ask_at[OF J])
  then have f: "rw_id r = k" "ended_state (rw_state r)" "state_in w k = Some (rw_state r)" using r by (simp_all add: ask_ok_def delivering_ok_def)
  obtain c where c: "row_in w k = Some c" "rw_state c = rw_state r" using f(3) by (auto simp: state_in_def)
  define w1 where "w1 = (if accepted then save_row (r\<lparr>rw_delivery := Delivered\<rparr>) w else w)"
  define w' where "w' = end_deliver k w1"
  have eq: "deliver_answered k accepted w = w'" unfolding deliver_answered_def r option.case prod.case deliver_wait.case w'_def w1_def ..
  have st: "state_in w1 j = state_in w j" for j using f(1) c by (auto simp: w1_def state_in_def row_in_save)
  have row: "row_in w1 j = (if j = k \<and> accepted then Some (r\<lparr>rw_delivery := Delivered\<rparr>) else row_in w j)" for j
    using f(1) c by (auto simp: w1_def row_in_save)
  have same: "fenced_in w1 j = fenced_in w j" "aw_process w1 = aw_process w" for j by (simp_all add: w1_def)
  have st': "state_in w' j = state_in w j" for j using st by (simp add: w'_def end_deliver_def state_in_def)
  have "ask_step_ok w (w', [])"
  proof (rule local_step[OF J])
    show "same_ask w w' j" if "j \<noteq> k" for j using that row same by (simp add: same_ask_def w'_def end_deliver_def)
    have key: "row_keyed k (row_in w' k) (fenced_in w' k)" using row_id[OF J c(1)] f(1) row same by (simp add: w'_def end_deliver_def row_keyed_def c)
    show "ask_ok w' k" using ok key unfolding ask_ok_def st' by (simp add: w'_def end_deliver_def same delivering_ok_def)
    show "ask_advances w w' [] k" unfolding ask_advances_def st' by (simp add: w'_def end_deliver_def same)
  qed simp
  then show ?thesis using eq by simp
qed

section \<open>Execution\<close>

lemma idle_when:
  assumes ok: "ask_ok w k" and x: "state_in w k = Some x" "is_queued x \<or> x = Ask_executing"
  shows "map_of (pr_finalizing (aw_process w)) k = None \<and> map_of (pr_delivering (aw_process w)) k = None"
proof -
  have f: "\<not> is_finalizing x" "\<not> ended_state x" using x(2) ended_or[of x] by (auto simp: is_queued_def is_finalizing_def split: ask_state.splits)
  have "map_of (pr_finalizing (aw_process w)) k = None" using ok f(1) x(1) by (auto simp: ask_ok_def finalizing_ok_def split: option.splits)
  moreover have "map_of (pr_delivering (aw_process w)) k = None" using ok f(2) x(1) by (auto simp: ask_ok_def delivering_ok_def split: option.splits)
  ultimately show ?thesis by simp
qed

lemma executor_started_step:
  assumes J: "asks_ok w" shows "ask_step_ok w (executor_started k w)"
proof (cases "\<exists>r. map_of (pr_running (aw_process w)) k = Some (r, Run_executor)")
  case False
  then have "executor_started k w = (w, [])" unfolding executor_started_def by (auto split: option.split prod.split run_wait.split)
  then show ?thesis using step_refl[OF J] by simp
next
  case True
  then obtain r where r: "map_of (pr_running (aw_process w)) k = Some (r, Run_executor)" by blast
  have ok: "ask_ok w k" by (rule ask_at[OF J])
  then have f: "rw_id r = k" "is_queued (rw_state r)" "known is_queued (state_in w k)" using r by (simp_all add: ask_ok_def running_ok_def)
  obtain c where c: "row_in w k = Some c" "is_queued (rw_state c)" using f(3) by (auto simp: state_in_def known_ex)
  define w' where "w' = set_running (map_put k (r, Run_started) (pr_running (aw_process w))) (save_row (with_state Ask_executing r) w)"
  have eq: "executor_started k w = (w', [Executor_started k])" unfolding executor_started_def r option.case prod.case run_wait.case w'_def ..
  have row: "row_in w' j = (if j = k then Some (with_state Ask_executing r) else row_in w j)" for j
    using f(1) c by (auto simp: w'_def row_in_save)
  have st: "state_in w' k = Some Ask_executing" "state_in w k = Some (rw_state c)" using row c by (simp_all add: state_in_def)
  have idle: "map_of (pr_finalizing (aw_process w)) k = None" "map_of (pr_delivering (aw_process w)) k = None"
    using idle_when[OF ok st(2)] c(2) by simp_all
  have res: "resuming_ok k (Some Ask_executing) (Some (r, Run_started)) (map_of (pr_resuming (aw_process w)) k)"
    using ok r unfolding ask_ok_def resuming_ok_def by (auto simp: known_ex split: option.splits)
  have "ask_step_ok w (w', [Executor_started k])"
  proof (rule local_step[OF J])
    show "same_ask w w' j" if "j \<noteq> k" for j using that row by (simp add: same_ask_def w'_def)
    have key: "row_keyed k (row_in w' k) (fenced_in w' k)" using row_id[OF J c(1)] f(1) row by (simp add: w'_def row_keyed_def)
    show "ask_ok w' k" unfolding ask_ok_def st(1) using key idle res f by (simp add: w'_def finalizing_ok_def delivering_ok_def running_ok_def)
    show "ask_advances w w' [Executor_started k] k" unfolding ask_advances_def st using c(2) by (simp add: w'_def goes_on_def follows_def reply_in_def reply_of_def completed_in_def)
    show "list_all (event_ok w w' [Executor_started k]) [Executor_started k]" unfolding event_ok_def using st c(2) by (simp add: is_queued_def)
  qed
  then show ?thesis using eq by simp
qed

text \<open>An operation that runs leaves the executor with a new state of its row.\<close>

definition run_ends_with :: "ask_row \<Rightarrow> run_wait option \<Rightarrow> string \<Rightarrow> ask_row \<Rightarrow> ask_world \<Rightarrow> ask_world" where
  "run_ends_with c x k r w = (let w1 = save_row c w in case x of None \<Rightarrow> end_run k w1 | Some y \<Rightarrow> run_waits k r y w1)"

lemma run_ends_step:
  assumes J: "asks_ok w" and r: "map_of (pr_running (aw_process w)) k = Some (r, y)" "y = Run_executor \<or> y = Run_started"
    and c: "rw_id c = k" "is_queued (rw_state c) \<longrightarrow> known is_queued (state_in w k)" "\<not> (\<exists>a b. rw_state c = Ask_completed a b)"
    and x: "x \<noteq> Some Run_executor" "x \<noteq> Some Run_started"
    and es: "\<forall>e\<in>set es. \<exists>a. e = Executor_replied k a" "\<forall>reply. reply_of (rw_state c) = Some reply \<longrightarrow> Executor_replied k reply \<in> set es"
  shows "ask_step_ok w (run_ends_with c x k r w, es)"
proof -
  have ok: "ask_ok w k" by (rule ask_at[OF J])
  then have f: "rw_id r = k" "is_queued (rw_state r)" "known (\<lambda>x. is_queued x \<or> x = Ask_executing) (state_in w k)"
    using r by (auto simp: ask_ok_def running_ok_def known_ex)
  obtain d where d: "row_in w k = Some d" "is_queued (rw_state d) \<or> rw_state d = Ask_executing" using f(3) by (auto simp: state_in_def known_ex)
  define w' where "w' = run_ends_with c x k r w"
  have row: "row_in w' j = (if j = k then Some c else row_in w j)" for j
    using c(1) d by (auto simp: w'_def run_ends_with_def Let_def row_in_save end_run_def run_waits_def split: option.split)
  have st: "state_in w' k = Some (rw_state c)" "state_in w k = Some (rw_state d)" using row d by (simp_all add: state_in_def)
  have run: "map_of (pr_running (aw_process w')) j = (if j = k then map_option (Pair r) x else map_of (pr_running (aw_process w)) j)" for j
    by (cases x) (simp_all add: w'_def run_ends_with_def Let_def end_run_def run_waits_def)
  have same: "fenced_in w' j = fenced_in w j" "pr_finalizing (aw_process w') = pr_finalizing (aw_process w)"
    "pr_delivering (aw_process w') = pr_delivering (aw_process w)" "pr_resuming (aw_process w') = pr_resuming (aw_process w)" for j
    by (cases x; simp add: w'_def run_ends_with_def Let_def end_run_def run_waits_def)+
  have idle: "map_of (pr_finalizing (aw_process w)) k = None" "map_of (pr_delivering (aw_process w)) k = None"
    using idle_when[OF ok st(2)] d(2) by simp_all
  have go: "goes_on (Some (rw_state d)) (Some (rw_state c))"
    using d(2) c(2) st(2) by (auto simp: goes_on_def follows_def)
  have res: "resuming_ok k (Some (rw_state c)) (map_option (Pair r) x) (map_of (pr_resuming (aw_process w)) k)"
    using ok r unfolding ask_ok_def resuming_ok_def by (auto simp: known_ex split: option.splits)
  have over: "completed_in (Some (rw_state c)) = None" using c(3) by (auto simp: completed_in_def split: ask_state.splits)
  have running: "running_ok k (Some (rw_state c)) (map_option (Pair r) x)" using x f by (cases x) (auto simp: running_ok_def)
  have "ask_step_ok w (w', es)"
  proof (rule local_step[OF J])
    show "same_ask w w' j" if "j \<noteq> k" for j using that row run same by (simp add: same_ask_def)
    have key: "row_keyed k (row_in w' k) (fenced_in w' k)" using row_id[OF J d(1)] c(1) row same by (simp add: row_keyed_def)
    show "ask_ok w' k" unfolding ask_ok_def st(1) using key idle res running same run by (simp add: finalizing_ok_def delivering_ok_def)
    show "ask_advances w w' es k" unfolding ask_advances_def st using go same(1) es(2) over by (simp add: reply_in_def)
    show "list_all (event_ok w w' es) es" using es(1) by (auto simp: list_all_iff event_ok_def)
  qed
  then show ?thesis unfolding w'_def .
qed

lemma quiet_after:
  assumes "ask_step_ok w (w1, es)" "ask_step_ok w1 (w2, [])" "\<forall>e\<in>set es. \<exists>k a. e = Executor_replied k a"
  shows "ask_step_ok w (w2, es)"
proof -
  have "ask_advances w w2 es k" for k
  proof -
    have "ask_advances w w1 es k" "ask_advances w1 w2 [] k" using assms by (simp_all add: ask_step_ok_def)
    then show ?thesis using goes_on_trans unfolding ask_advances_def by auto
  qed
  moreover have "list_all (event_ok w w2 es) es" using assms(3) by (auto simp: list_all_iff event_ok_def)
  ultimately show ?thesis using assms(2) by (simp add: ask_step_ok_def)
qed

lemma waits_commute:
  "run_waits k r x (deliver_ask h now j w) = deliver_ask h now j (run_waits k r x w)"
  "run_waits k r x (finalize_ask now j w) = finalize_ask now j (run_waits k r x w)"
proof -
  have p: "pr_running (aw_process (deliver_ask h now j w)) = pr_running (aw_process w)" "pr_running (aw_process (finalize_ask now j w)) = pr_running (aw_process w)"
    unfolding deliver_ask_def finalize_ask_def by (simp_all split: option.split)
  have r: "row_in (run_waits k r x w) j = row_in w j" "pr_delivering (aw_process (run_waits k r x w)) = pr_delivering (aw_process w)"
    "pr_finalizing (aw_process (run_waits k r x w)) = pr_finalizing (aw_process w)" by (simp_all add: run_waits_def)
  have c: "set_running m (set_delivering d (count_active 1 (save_row q w))) = set_delivering d (count_active 1 (save_row q (set_running m w)))"
    "set_running m (set_finalizing f (count_active 1 (save_row q w))) = set_finalizing f (count_active 1 (save_row q (set_running m w)))" for m d q f
    by (simp_all add: set_running_def set_delivering_def set_finalizing_def count_active_def save_row_def)
  show "run_waits k r x (deliver_ask h now j w) = deliver_ask h now j (run_waits k r x w)"
    unfolding deliver_ask_def[of h now j "run_waits k r x w"] r unfolding run_waits_def p unfolding deliver_ask_def
    using c(1) by (auto split: option.split)
  show "run_waits k r x (finalize_ask now j w) = finalize_ask now j (run_waits k r x w)"
    unfolding finalize_ask_def[of now j "run_waits k r x w"] r unfolding run_waits_def p unfolding finalize_ask_def
    using c(2) by (auto split: option.split)
qed

lemma failed_delivers:
  assumes J: "asks_ok w" and r: "map_of (pr_running (aw_process w)) k = Some (r, y)" "y = Run_executor \<or> y = Run_started" and c: "rw_id c = k"
  shows "ask_step_ok w (run_waits k r Run_delivering (deliver_ask h now k (save_row (with_state Ask_failed c) w)), [])"
proof -
  have s: "ask_step_ok w (run_ends_with (with_state Ask_failed c) (Some Run_delivering) k r w, [])"
    by (rule run_ends_step[OF J r]) (use c in \<open>simp_all add: is_queued_def reply_of_def\<close>)
  have J1: "asks_ok (run_ends_with (with_state Ask_failed c) (Some Run_delivering) k r w)" using s by (simp add: ask_step_ok_def)
  show ?thesis unfolding waits_commute using quiet_steps[OF s deliver_step[OF J1]] by (simp add: run_ends_with_def Let_def)
qed

lemma executor_answered_step:
  assumes J: "asks_ok w" shows "ask_step_ok w (executor_answered h now k answer w)"
proof (cases "\<exists>r y. map_of (pr_running (aw_process w)) k = Some (r, y) \<and> (y = Run_executor \<or> y = Run_started)")
  case False
  have "executor_answered h now k answer w = (w, [])"
  proof (cases "map_of (pr_running (aw_process w)) k")
    case (Some p)
    obtain r y where p: "p = (r, y)" by (cases p)
    have "y \<noteq> Run_executor \<and> y \<noteq> Run_started" using False Some p by blast
    then show ?thesis unfolding executor_answered_def Some p option.case prod.case by simp
  qed (simp add: executor_answered_def)
  then show ?thesis using step_refl[OF J] by simp
next
  case True
  then obtain r y where r: "map_of (pr_running (aw_process w)) k = Some (r, y)" "y = Run_executor \<or> y = Run_started" by blast
  have id: "rw_id r = k" "is_queued (rw_state r)" using ask_at[OF J, of k] r(1) by (simp_all add: ask_ok_def running_ok_def)
  have go: "\<not> (y \<noteq> Run_executor \<and> y \<noteq> Run_started)" using r(2) by blast
  show ?thesis
  proof (cases answer)
    case (Execution_reply reply subjects)
    have eq: "executor_answered h now k answer w
        = (run_waits k r Run_finalizing (finalize_ask now k (save_row (with_state (Ask_finalizing reply subjects) r) w)), [Executor_replied k reply])"
      unfolding executor_answered_def r(1) option.case prod.case Execution_reply execution_answer.case if_not_P[OF go] ..
    have s: "ask_step_ok w (run_ends_with (with_state (Ask_finalizing reply subjects) r) (Some Run_finalizing) k r w, [Executor_replied k reply])"
      by (rule run_ends_step[OF J r]) (use id in \<open>simp_all add: is_queued_def reply_of_def\<close>)
    have J1: "asks_ok (run_ends_with (with_state (Ask_finalizing reply subjects) r) (Some Run_finalizing) k r w)" using s by (simp add: ask_step_ok_def)
    show ?thesis unfolding eq waits_commute using quiet_after[OF s finalize_step[OF J1]] by (simp add: run_ends_with_def Let_def)
  next
    case (Execution_capacity t)
    define q where "q = (case row_in w k of None \<Rightarrow> False | Some c \<Rightarrow> is_queued (rw_state c))"
    have eq: "executor_answered h now k answer w = (if q then (end_run k (save_row (attempted_at now (retry_from t (queued_reason ''global-agent-capacity'' r))) w), [])
        else (run_waits k r Run_delivering (deliver_ask h now k (save_row (with_state Ask_failed r) w)), []))"
      unfolding executor_answered_def r(1) option.case prod.case Execution_capacity execution_answer.case q_def if_not_P[OF go] ..
    have s: "ask_step_ok w (run_ends_with (attempted_at now (retry_from t (queued_reason ''global-agent-capacity'' r))) None k r w, [])" if q
    proof (rule run_ends_step[OF J r])
      have "known is_queued (state_in w k)" using that by (auto simp: q_def state_in_def split: option.splits)
      then show "is_queued (rw_state (attempted_at now (retry_from t (queued_reason ''global-agent-capacity'' r)))) \<longrightarrow> known is_queued (state_in w k)" by simp
      have "is_queued (rw_state (attempted_at now (retry_from t (queued_reason ''global-agent-capacity'' r))))" using id by simp
      then show "\<not> (\<exists>a b. rw_state (attempted_at now (retry_from t (queued_reason ''global-agent-capacity'' r))) = Ask_completed a b)"
        "\<forall>reply. reply_of (rw_state (attempted_at now (retry_from t (queued_reason ''global-agent-capacity'' r)))) = Some reply \<longrightarrow> Executor_replied k reply \<in> set []"
        by (auto simp: is_queued_def reply_of_def split: ask_state.splits)
    qed (use id in simp_all)
    show ?thesis unfolding eq using s failed_delivers[OF J r id(1)] by (simp add: run_ends_with_def Let_def)
  next
    case Execution_refused
    have eq: "executor_answered h now k answer w = (run_waits k r Run_delivering (deliver_ask h now k (save_row (with_state Ask_failed r) w)), [])"
      unfolding executor_answered_def r(1) option.case prod.case Execution_refused execution_answer.case if_not_P[OF go] ..
    show ?thesis unfolding eq by (rule failed_delivers[OF J r id(1)])
  next
    case Execution_threw
    have "known (\<lambda>x. is_queued x \<or> x = Ask_executing) (state_in w k)" using ask_at[OF J, of k] r by (auto simp: ask_ok_def running_ok_def known_ex)
    then obtain c where c: "row_in w k = Some c" "is_queued (rw_state c) \<or> rw_state c = Ask_executing" by (auto simp: state_in_def known_ex)
    have eq: "executor_answered h now k answer w = (run_waits k r Run_delivering (deliver_ask h now k (save_row (with_state Ask_failed c) w)), [])"
      unfolding executor_answered_def r(1) option.case prod.case Execution_threw execution_answer.case c(1) if_not_P[OF go] using c(2) by (simp only: option.case if_True prod.case)
    show ?thesis unfolding eq using failed_delivers[OF J r] row_id[OF J c(1)] by blast
  qed
qed

text \<open>A step on a request that is new or queued: its row is put again, queued or failed, and the executor may be called.\<close>

lemma queued_step:
  assumes J: "asks_ok w" and k: "state_in w k = None \<or> known is_queued (state_in w k)" "\<not> fenced_in w k"
    and row: "\<And>j. row_in w' j = (if j = k then Some q else row_in w j)" "rw_id q = k" "is_queued (rw_state q) \<or> rw_state q = Ask_failed"
    and run: "\<And>j. map_of (pr_running (aw_process w')) j = (if j = k then u else map_of (pr_running (aw_process w)) j)"
      "\<forall>p. u = Some p \<longrightarrow> rw_id (fst p) = k \<and> is_queued (rw_state (fst p)) \<and> snd p = Run_executor \<and> is_queued (rw_state q)"
    and same: "\<And>j. fenced_in w' j = fenced_in w j" "pr_finalizing (aw_process w') = pr_finalizing (aw_process w)"
      "pr_delivering (aw_process w') = pr_delivering (aw_process w)"
    and res: "\<And>j. map_of (pr_resuming (aw_process w')) j = (if j = k then v else map_of (pr_resuming (aw_process w)) j)"
      "\<forall>p. v = Some p \<longrightarrow> rw_id (fst p) = k \<and> is_queued (rw_state (fst p)) \<and> (snd p = Resume_admission \<longrightarrow> is_queued (rw_state q) \<and> u = None)"
    and es: "es = [] \<or> es = [Executor_called k] \<and> \<not> pr_paused (aw_process w) \<and> is_queued (rw_state q)"
  shows "ask_step_ok w (w', es)"
proof (rule local_step[OF J])
  have ok: "ask_ok w k" by (rule ask_at[OF J])
  have st: "state_in w' k = Some (rw_state q)" using row by (simp add: state_in_def)
  show "same_ask w w' j" if "j \<noteq> k" for j using that row run res same by (simp add: same_ask_def)
  have idle: "map_of (pr_finalizing (aw_process w)) k = None \<and> map_of (pr_delivering (aw_process w)) k = None"
  proof (cases "state_in w k")
    case None
    then show ?thesis using ok by (auto simp: ask_ok_def finalizing_ok_def delivering_ok_def split: option.splits)
  next
    case (Some x)
    then show ?thesis using idle_when[OF ok Some] k(1) by simp
  qed
  have "running_ok k (Some (rw_state q)) u" using run(2) by (cases u) (auto simp: running_ok_def)
  moreover have "resuming_ok k (Some (rw_state q)) u v" using res(2) by (cases v) (auto simp: resuming_ok_def)
  moreover have "row_keyed k (Some q) (fenced_in w k)" using row(2) k(2) by (simp add: row_keyed_def)
  ultimately show "ask_ok w' k" using idle row(1) run(1) res(1) same st by (simp add: ask_ok_def finalizing_ok_def delivering_ok_def)
  have quiet: "reply_in (Some (rw_state q)) = None" "completed_in (Some (rw_state q)) = None"
    using row(3) by (auto simp: reply_in_def reply_of_def completed_in_def is_queued_def split: ask_state.splits)
  have "goes_on (state_in w k) (Some (rw_state q))" using k(1) by (auto simp: goes_on_def follows_def known_ex split: option.splits)
  then show "ask_advances w w' es k" using quiet same(1) st by (simp add: ask_advances_def)
  show "list_all (event_ok w w' es) es" using es k(1) st by (auto simp: event_ok_def)
qed

end
