(* ===== verification/Root_Requests_Runs.thy ===== *)
theory Root_Requests_Runs
  imports Root_Requests_Safety
begin

text \<open>
  The steps of the request service that begin and end its operations, and what follows for every run: a request is executed
  once, its reply is one text that is accounted before it is told, and the executions are bounded.
\<close>

section \<open>Steps that touch no request\<close>

lemma unchanged_step:
  assumes J: "asks_ok w" and same: "\<And>j. same_ask w w' j" and es: "list_all (event_ok w w' es) es"
  shows "ask_step_ok w (w', es)"
  by (rule local_step[OF J, of undefined]) (use same es same_ask_ok[OF same] same_advances[OF same] ask_at[OF J] in auto)

lemma accepting_same: "same_ask w (set_accepting m w) j" "same_ask w (count_active n w) j" "same_ask w (set_accepting m (count_active n w)) j"
  by (simp_all add: same_ask_def)

lemma post_ask_step:
  assumes J: "asks_ok w" shows "ask_step_ok w (post_ask k request asynchronous w)"
proof -
  have "same_ask w (fst (post_ask k request asynchronous w)) j" for j
    by (simp add: post_ask_def same_ask_def split: option.split)
  moreover have "list_all (event_ok w (fst (post_ask k request asynchronous w)) (snd (post_ask k request asynchronous w))) (snd (post_ask k request asynchronous w))"
    by (simp add: post_ask_def event_ok_def fenced_in_def split: option.split)
  ultimately show ?thesis using unchanged_step[OF J, of "fst (post_ask k request asynchronous w)" "snd (post_ask k request asynchronous w)"] by simp
qed

lemma post_replied_step: "asks_ok w \<Longrightarrow> ask_step_ok w (post_replied k w, [])"
  by (rule unchanged_step) (simp_all add: post_replied_def end_accept_def same_ask_def split: option.split accept_wait.split)

lemma handoff_same: "same_ask w (set_handoff t w) j"
  by (simp add: set_handoff_def same_ask_def row_in_def ask_row_of_def fenced_in_def)

lemma begin_handoff_step: "asks_ok w \<Longrightarrow> ask_step_ok w (begin_handoff target previous w, [])"
  by (rule unchanged_step) (simp_all add: begin_handoff_def handoff_same, simp add: same_ask_def)

lemma end_handoff_step: "asks_ok w \<Longrightarrow> ask_step_ok w (end_handoff target w, [])"
  by (rule unchanged_step) (simp_all add: end_handoff_def handoff_same, simp add: same_ask_def)

lemma stop_step: "asks_ok w \<Longrightarrow> ask_step_ok w (stop_dispatch w, [])"
  by (rule unchanged_step) (simp_all add: stop_dispatch_def same_ask_def row_in_def fenced_in_def)

lemma show_step:
  assumes J: "asks_ok w" shows "ask_step_ok w (w, show_ask k w)"
proof (rule unchanged_step[OF J])
  show "list_all (event_ok w w (show_ask k w)) (show_ask k w)"
    by (auto simp: show_ask_def ask_status_def event_ok_def state_in_def split: option.split ask_state.split)
qed (simp add: same_ask_def)

lemma look_step:
  assumes J: "asks_ok w" shows "ask_step_ok w (look_ask k w)"
proof (cases "is_waiting k (pr_accepting (aw_process w)) \<or> row_in w k \<noteq> None")
  case True
  then have "look_ask k w = (w, [])" by (auto simp: look_ask_def fenceNotAccepted_def row_in_def)
  then show ?thesis using step_refl[OF J] by simp
next
  case False
  define s where "s = (aw_store w)\<lparr>ak_fenced := (if k \<in> set (ak_fenced (aw_store w)) then ak_fenced (aw_store w) else k # ak_fenced (aw_store w))\<rparr>"
  have row: "row_in w k = None" using False by simp
  have eq: "look_ask k w = (w\<lparr>aw_store := s\<rparr>, [Told_unaccepted k])"
    using False by (simp add: look_ask_def fenceNotAccepted_def row_in_def s_def)
  have r: "row_in (w\<lparr>aw_store := s\<rparr>) j = row_in w j" for j by (simp add: row_in_def ask_row_of_def s_def)
  have f: "fenced_in (w\<lparr>aw_store := s\<rparr>) j = (j = k \<or> fenced_in w j)" for j by (auto simp: fenced_in_def s_def)
  have "ask_step_ok w (w\<lparr>aw_store := s\<rparr>, [Told_unaccepted k])"
  proof (rule local_step[OF J])
    show "same_ask w (w\<lparr>aw_store := s\<rparr>) j" if "j \<noteq> k" for j using that r f by (simp add: same_ask_def)
    show "ask_ok (w\<lparr>aw_store := s\<rparr>) k" using ask_at[OF J, of k] row r by (simp add: ask_ok_def state_in_def row_keyed_def)
    show "ask_advances w (w\<lparr>aw_store := s\<rparr>) [Told_unaccepted k] k" using r f by (simp add: ask_advances_def state_in_def)
    show "list_all (event_ok w (w\<lparr>aw_store := s\<rparr>) [Told_unaccepted k]) [Told_unaccepted k]" using f by (simp add: event_ok_def)
  qed
  then show ?thesis using eq by simp
qed

lemma look_authorized_step: "asks_ok w \<Longrightarrow> ask_step_ok w (look_authorized now seen w, [])"
  using finalize_step step_refl by (simp add: look_authorized_def)

lemma open_asks_row: "ask_row_of (open_asks s) k = map_option interrupt_row (ask_row_of s k)"
  by (simp add: open_asks_def ask_row_of_def map_of_map)

lemma restart_step:
  assumes J: "asks_ok w" shows "ask_step_ok w (start_process (aw_store w), [])"
proof -
  define w' where "w' = start_process (aw_store w)"
  have row: "row_in w' k = map_option interrupt_row (row_in w k)" for k by (simp add: w'_def start_process_def row_in_def open_asks_row)
  have f: "fenced_in w' k = fenced_in w k" for k by (simp add: w'_def start_process_def fenced_in_def open_asks_def)
  have p: "aw_process w' = no_operations (ak_target (aw_store w) \<noteq> None)" by (simp add: w'_def start_process_def)
  have st: "state_in w' k = map_option (\<lambda>x. if x = Ask_executing then Ask_interrupted else x) (state_in w k)" for k
    by (simp add: state_in_def row interrupt_row_def option.map_comp comp_def if_distrib[of rw_state] cong: if_cong)
  have "row_keyed k (row_in w' k) (fenced_in w' k)" for k
    using ask_at[OF J, of k] by (auto simp: ask_ok_def row f row_keyed_def interrupt_row_def split: option.split)
  then have ok: "ask_ok w' k" for k by (simp add: ask_ok_def p no_operations_def parts_ok)
  have ad: "ask_advances w w' [] k" for k
    by (cases "state_in w k") (auto simp: ask_advances_def st f goes_on_def follows_def is_queued_def reply_in_def reply_of_def completed_in_def)
  have "asks_ok w'" unfolding asks_ok_def using ok by blast
  then show ?thesis unfolding w'_def[symmetric] by (simp add: ask_step_ok_def ad)
qed

section \<open>Steps that begin and end operations\<close>

lemma run_finalized_step:
  assumes J: "asks_ok w" shows "ask_step_ok w (run_finalized h now k w, [])"
proof (cases "\<exists>r. map_of (pr_running (aw_process w)) k = Some (r, Run_finalizing)")
  case False
  then have "run_finalized h now k w = w" unfolding run_finalized_def by (auto split: option.split prod.split run_wait.split)
  then show ?thesis using step_refl[OF J] by simp
next
  case True
  then obtain r where r: "map_of (pr_running (aw_process w)) k = Some (r, Run_finalizing)" by blast
  have ok: "ask_ok w k" by (rule ask_at[OF J])
  have eq: "run_finalized h now k w = deliver_ask h now k (run_waits k r Run_delivering w)"
    by (simp add: run_finalized_def r waits_commute)
  have s: "ask_step_ok w (run_waits k r Run_delivering w, [])"
  proof (rule local_step[OF J])
    show "same_ask w (run_waits k r Run_delivering w) j" if "j \<noteq> k" for j using that by (simp add: same_ask_def run_waits_def)
    have st: "state_in (run_waits k r Run_delivering w) k = state_in w k" by (simp add: state_in_def run_waits_def)
    show "ask_ok (run_waits k r Run_delivering w) k"
      using ok r unfolding ask_ok_def st by (auto simp: run_waits_def running_ok_def resuming_ok_def known_ex split: option.splits)
    show "ask_advances w (run_waits k r Run_delivering w) [] k" unfolding ask_advances_def st by (simp add: run_waits_def)
  qed simp
  have J1: "asks_ok (run_waits k r Run_delivering w)" using s by (simp add: ask_step_ok_def)
  show ?thesis unfolding eq by (rule quiet_steps[OF s deliver_step[OF J1]])
qed

lemma run_delivered_step:
  assumes J: "asks_ok w" shows "ask_step_ok w (run_delivered k w, [])"
proof (cases "\<exists>r. map_of (pr_running (aw_process w)) k = Some (r, Run_delivering)")
  case False
  then have "run_delivered k w = w" unfolding run_delivered_def by (auto split: option.split prod.split run_wait.split)
  then show ?thesis using step_refl[OF J] by simp
next
  case True
  then obtain r where r: "map_of (pr_running (aw_process w)) k = Some (r, Run_delivering)" by blast
  have ok: "ask_ok w k" by (rule ask_at[OF J])
  have eq: "run_delivered k w = end_run k w" by (simp add: run_delivered_def r)
  show ?thesis unfolding eq
  proof (rule local_step[OF J])
    show "same_ask w (end_run k w) j" if "j \<noteq> k" for j using that by (simp add: same_ask_def end_run_def)
    have st: "state_in (end_run k w) k = state_in w k" by (simp add: state_in_def end_run_def)
    show "ask_ok (end_run k w) k"
      using ok r unfolding ask_ok_def st by (auto simp: end_run_def running_ok_def resuming_ok_def known_ex split: option.splits)
    show "ask_advances w (end_run k w) [] k" unfolding ask_advances_def st by (simp add: end_run_def)
  qed simp
qed

lemma resume_ended_step:
  assumes J: "asks_ok w" shows "ask_step_ok w (resume_ended k w, [])"
proof -
  have row: "row_in (resume_ended k w) j = row_in w j" "fenced_in (resume_ended k w) j = fenced_in w j" for j
    by (simp_all add: resume_ended_def end_resume_def split: option.split prod.split resume_wait.split)
  have p: "pr_running (aw_process (resume_ended k w)) = pr_running (aw_process w)" "pr_finalizing (aw_process (resume_ended k w)) = pr_finalizing (aw_process w)"
    "pr_delivering (aw_process (resume_ended k w)) = pr_delivering (aw_process w)"
    "map_of (pr_resuming (aw_process (resume_ended k w))) j = (if j = k \<and> map_of (pr_resuming (aw_process (resume_ended k w))) k = None then None else map_of (pr_resuming (aw_process w)) j)" for j
    by (simp_all add: resume_ended_def end_resume_def split: option.split prod.split resume_wait.split)
  have st: "state_in (resume_ended k w) j = state_in w j" for j by (simp add: state_in_def row)
  show ?thesis
  proof (rule local_step[OF J])
    show "same_ask w (resume_ended k w) j" if "j \<noteq> k" for j using that row p(1,2,3) p(4)[of j] by (simp add: same_ask_def)
    have "map_of (pr_resuming (aw_process (resume_ended k w))) k = None \<or> map_of (pr_resuming (aw_process (resume_ended k w))) k = map_of (pr_resuming (aw_process w)) k"
      using p(4)[of k] by metis
    then show "ask_ok (resume_ended k w) k" using ask_at[OF J, of k] unfolding ask_ok_def st row p(1,2,3) by (auto simp: resuming_ok_def)
    show "ask_advances w (resume_ended k w) [] k" unfolding ask_advances_def st row by simp
  qed simp
qed

section \<open>Dispatch\<close>

lemma resume_ask_step:
  assumes J: "asks_ok w" and q: "is_queued (rw_state r)" "known is_queued (state_in w (rw_id r))"
  shows "ask_step_ok w (resume_ask h now r w, [])"
proof (cases "resume_ask h now r w = w")
  case True
  then show ?thesis using step_refl[OF J] by simp
next
  case False
  define k where "k = rw_id r"
  define c where "c = attempted_at now (retry_from (now + 5000) r)"
  have free: "\<not> is_waiting k (pr_running (aw_process w))"
    and eq: "resume_ask h now r w = set_resuming (map_put k (r, Resume_admission) (pr_resuming (aw_process w))) (count_active 1 (save_row c w))"
    using False unfolding resume_ask_def Let_def k_def c_def by (simp_all split: if_splits)
  have none: "map_of (pr_running (aw_process w)) k = None" using free unfolding is_waiting_def by blast
  obtain d where d: "row_in w k = Some d" using q(2) by (auto simp: state_in_def known_ex k_def)
  have c: "rw_id c = k" "is_queued (rw_state c)" using q(1) by (simp_all add: c_def k_def)
  show ?thesis unfolding eq
    by (rule queued_step[OF J, where k = k and q = c and u = None and v = "Some (r, Resume_admission)"])
      (use q none c d row_id[OF J d] in \<open>auto simp: k_def row_in_save\<close>)
qed

lemma drain_one_step:
  assumes J: "asks_ok w" and q: "is_queued (rw_state r) \<Longrightarrow> known is_queued (state_in w (rw_id r))"
  shows "ask_step_ok w (drain_one h now r w, [])"
  using resume_ask_step[OF J] finalize_step[OF J] q by (simp add: drain_one_def)

lemma drain_one_keeps:
  assumes "known is_queued (state_in w k)" "asks_ok w"
  shows "known is_queued (state_in (drain_one h now r w) k)"
proof -
  have f: "state_in (finalize_ask now j w) k = state_in w k" for j
  proof (cases "row_in w j")
    case (Some c)
    then show ?thesis using row_id[OF assms(2) Some] by (simp add: finalize_ask_def state_in_def row_in_save)
  qed (simp add: finalize_ask_def)
  have "known is_queued (state_in (resume_ask h now r w) k)" if "is_queued (rw_state r)"
    using assms(1) that by (simp add: resume_ask_def Let_def state_in_def row_in_save)
  then show ?thesis using f assms(1) by (simp add: drain_one_def)
qed

lemma drain_fold_step:
  assumes "asks_ok w" "\<forall>r\<in>set rs. is_queued (rw_state r) \<longrightarrow> known is_queued (state_in w (rw_id r))"
  shows "ask_step_ok w (fold (drain_one h now) rs w, [])"
  using assms
proof (induction rs arbitrary: w)
  case Nil
  then show ?case using step_refl by simp
next
  case (Cons r rs)
  have s: "ask_step_ok w (drain_one h now r w, [])" using drain_one_step Cons.prems by simp
  then have J1: "asks_ok (drain_one h now r w)" by (simp add: ask_step_ok_def)
  have "ask_step_ok (drain_one h now r w) (fold (drain_one h now) rs (drain_one h now r w), [])"
    using Cons.IH[OF J1] Cons.prems drain_one_keeps by simp
  then show ?case using quiet_steps[OF s] by simp
qed

lemma pending_row:
  assumes J: "asks_ok w" and ok: "map_ok (ak_rows (aw_store w))" and r: "r \<in> set (pending_asks limit now (aw_store w))"
  shows "row_in w (rw_id r) = Some r"
proof -
  have "r \<in> snd ` set (ak_rows (aw_store w))" using r set_take_subset by (fastforce simp: pending_asks_def)
  then obtain k where "(k, r) \<in> set (ak_rows (aw_store w))" by auto
  then have "row_in w k = Some r" using ok by (simp add: row_in_def ask_row_of_def map_ok_def)
  then show ?thesis using row_id[OF J] by blast
qed

lemma drain_step:
  assumes J: "asks_ok w" and ok: "map_ok (ak_rows (aw_store w))"
  shows "ask_step_ok w (drain_asks h now w, [])"
proof -
  have "known is_queued (state_in w (rw_id r))" if "r \<in> set (pending_asks (ah_max h) now (aw_store w))" "is_queued (rw_state r)" for r
    using pending_row[OF J ok that(1)] that(2) by (simp add: state_in_def)
  then show ?thesis using drain_fold_step[OF J] step_refl[OF J] by (simp add: drain_asks_def)
qed

lemma resume_waits_commute:
  "set_resuming (map_put k v (pr_resuming (aw_process (deliver_ask h now j w)))) (deliver_ask h now j w)
     = deliver_ask h now j (set_resuming (map_put k v (pr_resuming (aw_process w))) w)"
proof -
  have p: "pr_resuming (aw_process (deliver_ask h now j w)) = pr_resuming (aw_process w)"
    unfolding deliver_ask_def by (simp split: option.split)
  have c: "set_resuming m (set_delivering d (count_active 1 (save_row q w))) = set_delivering d (count_active 1 (save_row q (set_resuming m w)))" for m d q
    by (simp add: set_resuming_def set_delivering_def count_active_def save_row_def)
  show ?thesis unfolding p unfolding deliver_ask_def using c by (auto split: option.split)
qed

lemma resume_answered_step:
  assumes J: "asks_ok w" shows "ask_step_ok w (resume_answered h now k answer w)"
proof (cases "\<exists>r. map_of (pr_resuming (aw_process w)) k = Some (r, Resume_admission)")
  case False
  then have "resume_answered h now k answer w = (w, [])" unfolding resume_answered_def by (auto split: option.split prod.split resume_wait.split)
  then show ?thesis using step_refl[OF J] by simp
next
  case True
  then obtain r where r: "map_of (pr_resuming (aw_process w)) k = Some (r, Resume_admission)" by blast
  have ok: "ask_ok w k" by (rule ask_at[OF J])
  then have f: "rw_id r = k" "is_queued (rw_state r)" "known is_queued (state_in w k)" "map_of (pr_running (aw_process w)) k = None"
    using r by (auto simp: ask_ok_def resuming_ok_def known_ex)
  obtain d where d: "row_in w k = Some d" using f(3) by (auto simp: state_in_def known_ex)
  have free: "\<not> fenced_in w k" using row_id[OF J d] by simp
  have ends: "ask_step_ok w (end_resume k (save_row c w), [])" if "rw_id c = k" "is_queued (rw_state c) \<or> rw_state c = Ask_failed" for c
    by (rule queued_step[OF J, where k = k and q = c and u = None and v = None])
      (use f d free that in \<open>auto simp: end_resume_def row_in_save\<close>)
  have put: "ask_step_ok w (set_resuming (map_put k (r, x) (pr_resuming (aw_process w))) (save_row c w), [])"
    if "rw_id c = k" "is_queued (rw_state c) \<or> rw_state c = Ask_failed" "x \<noteq> Resume_admission" for c x
    by (rule queued_step[OF J, where k = k and q = c and u = None and v = "Some (r, x)"])
      (use f d free that in \<open>auto simp: row_in_save\<close>)
  show ?thesis
  proof (cases answer)
    case Resume_denied
    define w1 where "w1 = set_resuming (map_put k (r, Resume_delivering) (pr_resuming (aw_process w))) (save_row (with_state Ask_failed r) w)"
    have s: "ask_step_ok w (w1, [])" unfolding w1_def by (rule put) (use f in simp_all)
    have J1: "asks_ok w1" using s by (simp add: ask_step_ok_def)
    have eq: "resume_answered h now k answer w = (deliver_ask h now k w1, [])"
      unfolding resume_answered_def r option.case prod.case resume_wait.case Resume_denied resume_answer.case Let_def resume_waits_commute w1_def by simp
    show ?thesis unfolding eq by (rule quiet_steps[OF s deliver_step[OF J1]])
  next
    case Resume_unavailable
    have eq: "resume_answered h now k answer w = (end_resume k (save_row (attempted_at now (retry_from (now + 5000) (queued_reason ''admission-unavailable'' r))) w), [])"
      unfolding resume_answered_def r option.case prod.case resume_wait.case Resume_unavailable resume_answer.case ..
    show ?thesis unfolding eq by (rule ends) (use f in simp_all)
  next
    case (Resume_admitted a)
    have at: "resume_answered h now k answer w = (if a \<noteq> rw_admission r then (end_resume k (save_row (with_state Ask_failed r) w), [])
        else if pr_paused (aw_process w) then (end_resume k (save_row (retry_from now (queued_reason ''executor-handoff'' r)) w), [])
        else (let (w', evs) = execute_ask r w in (set_resuming (map_put k (r, Resume_running) (pr_resuming (aw_process w'))) w', evs)))"
      unfolding resume_answered_def r option.case prod.case resume_wait.case Resume_admitted resume_answer.case ..
    define w1 where "w1 = set_running (map_put k (r, Run_executor) (pr_running (aw_process w))) (save_row (queued_reason ''global-agent-capacity'' r) w)"
    define w2 where "w2 = set_resuming (map_put k (r, Resume_running) (pr_resuming (aw_process w1))) w1"
    have ex: "execute_ask r w = (w1, [Executor_called k])" using f(1,4) by (simp add: execute_ask_def Let_def is_waiting_def w1_def)
    have called: "ask_step_ok w (w2, [Executor_called k])" if "\<not> pr_paused (aw_process w)" unfolding w2_def w1_def
      by (rule queued_step[OF J, where k = k and q = "queued_reason ''global-agent-capacity'' r" and u = "Some (r, Run_executor)" and v = "Some (r, Resume_running)"])
        (use f d free that in \<open>auto simp: row_in_save\<close>)
    show ?thesis unfolding at ex Let_def prod.case w2_def[symmetric] using ends[of "with_state Ask_failed r"]
      ends[of "retry_from now (queued_reason ''executor-handoff'' r)"] called f(1,2) by simp
  qed
qed

lemma accepted_row:
  assumes "accept_ask r (aw_store w) = Some s"
  shows "row_in w (rw_id r) = None" "\<not> fenced_in w (rw_id r)" "row_in (w\<lparr>aw_store := s\<rparr>) j = (if j = rw_id r then Some r else row_in w j)"
    "fenced_in (w\<lparr>aw_store := s\<rparr>) j = fenced_in w j"
  using assms by (auto simp: accept_ask_def row_in_def fenced_in_def ask_row_of_def split: if_splits)

lemma new_ask_simps [simp]: "rw_id (new_ask hash now k request a asynchronous) = k" "is_queued (rw_state (new_ask hash now k request a asynchronous))"
  by (simp_all add: new_ask_def is_queued_def)

lemma post_admitted_step:
  assumes J: "asks_ok w" shows "ask_step_ok w (post_admitted h now k answer w)"
proof (cases "\<exists>request asynchronous. map_of (pr_accepting (aw_process w)) k = Some (Accept_admission request asynchronous)")
  case False
  then have "post_admitted h now k answer w = (w, [])" unfolding post_admitted_def by (auto split: option.split accept_wait.split)
  then show ?thesis using step_refl[OF J] by simp
next
  case True
  then obtain request asynchronous where m: "map_of (pr_accepting (aw_process w)) k = Some (Accept_admission request asynchronous)" by blast
  have refused: "ask_step_ok w (end_accept k (count_active (-1) w), [])" using unchanged_step[OF J, where es = "[]"] by (simp add: end_accept_def same_ask_def)
  show ?thesis
  proof (cases answer)
    case None
    then show ?thesis using refused by (simp add: post_admitted_def m)
  next
    case (Some a)
    define r where "r = new_ask (ah_hash h) now k request a asynchronous"
    have id: "rw_id r = k" "is_queued (rw_state r)" by (simp_all add: r_def)
    show ?thesis
    proof (cases "accept_ask r (aw_store w)")
      case None
      then show ?thesis using refused by (simp add: post_admitted_def m Some r_def[symmetric] Let_def)
    next
      case (Some s)
      note rows = accepted_row[OF Some, unfolded id(1)]
      define w1 where "w1 = w\<lparr>aw_store := s\<rparr>"
      have new: "state_in w k = None" using rows(1) by (simp add: state_in_def)
      have none: "map_of (pr_running (aw_process w)) k = None" "map_of (pr_resuming (aw_process w)) k = None"
        using ask_at[OF J, of k] new by (auto simp: ask_ok_def running_ok_def resuming_ok_def split: option.splits)
      have p1: "aw_process w1 = aw_process w" by (simp add: w1_def)
      have row1: "row_in w1 j = (if j = k then Some r else row_in w j)" "fenced_in w1 j = fenced_in w j" for j using rows(3,4) by (simp_all add: w1_def)
      have row2: "row_in (save_row (queued_reason x r) w1) j = (if j = k then Some (queued_reason x r) else row_in w j)" for x j
        using row1(1) id(1) by (simp add: row_in_save)
      have quiet: "ask_step_ok w (w', [])" if "\<And>j. row_in w' j = (if j = k then Some q else row_in w j)" "rw_id q = k" "is_queued (rw_state q)"
        "\<And>j. fenced_in w' j = fenced_in w j" "\<And>j. map_of (pr_running (aw_process w')) j = map_of (pr_running (aw_process w)) j" "pr_finalizing (aw_process w') = pr_finalizing (aw_process w)"
        "pr_delivering (aw_process w') = pr_delivering (aw_process w)" "\<And>j. map_of (pr_resuming (aw_process w')) j = map_of (pr_resuming (aw_process w)) j" for w' q
        by (rule queued_step[OF J, where k = k and q = q and u = None and v = None]) (use new rows(2) none that in auto)
      define w2 where "w2 = set_running (map_put k (r, Run_executor) (pr_running (aw_process w1))) (save_row (queued_reason ''global-agent-capacity'' r) w1)"
      have ex: "execute_ask r w1 = (w2, [Executor_called k])" using id(1) none(1) p1 by (simp add: execute_ask_def Let_def is_waiting_def w2_def)
      have called: "ask_step_ok w (set_accepting e w2, [Executor_called k])" if "\<not> pr_paused (aw_process w)" for e
        by (rule queued_step[OF J, where k = k and q = "queued_reason ''global-agent-capacity'' r" and u = "Some (r, Run_executor)" and v = None])
          (use new rows(2) none id p1 row1 row2 that in \<open>auto simp: w2_def\<close>)
      have at: "post_admitted h now k answer w = (if pr_paused (aw_process w1) then (end_accept k (count_active (-1) (save_row (queued_reason ''executor-handoff'' r) w1)), [])
          else if pr_active (aw_process w1) > int (ah_max h) then (end_accept k (count_active (-1) w1), [])
          else (let (w2, evs) = execute_ask r w1 in (if asynchronous then end_accept k w2 else set_accepting (map_put k Accept_reply (pr_accepting (aw_process w2))) w2, evs)))"
        unfolding post_admitted_def m option.case accept_wait.case \<open>answer = Some a\<close> Let_def r_def[symmetric] Some w1_def ..
      have "ask_step_ok w (end_accept k (count_active (-1) (save_row (queued_reason ''executor-handoff'' r) w1)), [])"
        by (rule quiet[where q = "queued_reason ''executor-handoff'' r"]) (use id p1 row1 row2 in \<open>simp_all add: end_accept_def\<close>)
      moreover have "ask_step_ok w (end_accept k (count_active (-1) w1), [])"
        by (rule quiet[where q = r]) (use id p1 row1 in \<open>simp_all add: end_accept_def\<close>)
      ultimately show ?thesis unfolding at ex Let_def prod.case p1 using called by (simp add: end_accept_def)
    qed
  qed
qed

end
