(* ===== verification/Root_Requests_Count.thy ===== *)
theory Root_Requests_Count
  imports Root_Requests_Runs
begin

text \<open>
  The number of active operations that the request service reports and decides by is the number of operations that hold one,
  and never more than the configured number of requests are being executed or taken up again.
\<close>

section \<open>Counting a table\<close>

definition tally :: "('v \<Rightarrow> bool) \<Rightarrow> ('k \<times> 'v) list \<Rightarrow> int" where
  "tally P m = int (length (filter (\<lambda>p. P (snd p)) m))"

definition share :: "('v \<Rightarrow> bool) \<Rightarrow> 'v option \<Rightarrow> int" where
  "share P x = (case x of None \<Rightarrow> 0 | Some v \<Rightarrow> of_bool (P v))"

lemma share_simps [simp]: "share P None = 0" "share P (Some v) = of_bool (P v)"
  by (simp_all add: share_def)

lemma share_absent [simp]: "\<not> is_waiting k m \<Longrightarrow> share P (map_of m k) = 0"
  by (cases "map_of m k") (simp_all add: is_waiting_def)

lemma tally_nonneg [simp]: "0 \<le> tally P m" by (simp add: tally_def)

lemma tally_Nil [simp]: "tally P [] = 0" by (simp add: tally_def)

lemma tally_put: "map_ok m \<Longrightarrow> tally P (map_put k v m) = tally P m + of_bool (P v) - share P (map_of m k)"
proof (induction m)
  case (Cons a m)
  obtain j u where a: "a = (j, u)" by (cases a)
  have "map_ok m" using Cons.prems by (simp add: map_ok_def)
  then show ?case using Cons.IH by (cases "j = k") (auto simp: a map_put_def tally_def)
qed (simp add: map_put_def tally_def)

lemma tally_del: "map_ok m \<Longrightarrow> tally P (map_del k m) = tally P m - share P (map_of m k)"
proof (induction m)
  case (Cons a m)
  obtain j u where a: "a = (j, u)" by (cases a)
  have m: "map_ok m" "j \<notin> fst ` set m" using Cons.prems by (simp_all add: map_ok_def a)
  then have "map_of m j = None" by (simp add: map_of_eq_None_iff)
  then show ?case using Cons.IH[OF m(1)] by (cases "j = k") (auto simp: a map_del_def tally_def)
qed (simp add: map_del_def)

section \<open>What the service counts\<close>

definition admission_wait :: "accept_wait \<Rightarrow> bool" where
  "admission_wait x = (case x of Accept_admission _ _ \<Rightarrow> True | Accept_reply \<Rightarrow> False)"

definition own_resume :: "ask_row \<times> resume_wait \<Rightarrow> bool" where
  "own_resume p = (snd p \<noteq> Resume_running)"

definition executions :: "ask_process \<Rightarrow> int" where
  "executions p = tally (\<lambda>_. True) (pr_running p) + tally own_resume (pr_resuming p)"

definition operations :: "ask_process \<Rightarrow> int" where
  "operations p = executions p + tally admission_wait (pr_accepting p) + tally (\<lambda>_. True) (pr_finalizing p) + tally (\<lambda>_. True) (pr_delivering p)"

definition ask_tables_ok :: "ask_world \<Rightarrow> bool" where
  "ask_tables_ok w = (map_ok (ak_rows (aw_store w)) \<and> map_ok (pr_accepting (aw_process w)) \<and> map_ok (pr_finalizing (aw_process w)) \<and> map_ok (pr_delivering (aw_process w))
     \<and> map_ok (pr_running (aw_process w)) \<and> map_ok (pr_resuming (aw_process w)))"

definition excess :: "ask_process \<Rightarrow> int" where
  "excess p = pr_active p - operations p"

definition counted :: "ask_host \<Rightarrow> ask_world \<Rightarrow> bool" where
  "counted h w = (ask_tables_ok w \<and> excess (aw_process w) = 0 \<and> executions (aw_process w) \<le> int (ah_max h))"

lemma excess_simps [simp]:
  "excess (aw_process (count_active n w)) = excess (aw_process w) + n"
  "excess (aw_process (set_running a w)) = excess (aw_process w) - tally (\<lambda>_. True) a + tally (\<lambda>_. True) (pr_running (aw_process w))"
  "excess (aw_process (set_resuming b w)) = excess (aw_process w) - tally own_resume b + tally own_resume (pr_resuming (aw_process w))"
  "excess (aw_process (set_finalizing c w)) = excess (aw_process w) - tally (\<lambda>_. True) c + tally (\<lambda>_. True) (pr_finalizing (aw_process w))"
  "excess (aw_process (set_delivering d w)) = excess (aw_process w) - tally (\<lambda>_. True) d + tally (\<lambda>_. True) (pr_delivering (aw_process w))"
  "excess (aw_process (set_accepting e w)) = excess (aw_process w) - tally admission_wait e + tally admission_wait (pr_accepting (aw_process w))"
  by (simp_all add: excess_def operations_def executions_def count_active_def set_running_def set_resuming_def set_finalizing_def set_delivering_def set_accepting_def)

lemma executions_simps [simp]:
  "executions (aw_process (count_active n w)) = executions (aw_process w)"
  "executions (aw_process (set_running a w)) = executions (aw_process w) + tally (\<lambda>_. True) a - tally (\<lambda>_. True) (pr_running (aw_process w))"
  "executions (aw_process (set_resuming b w)) = executions (aw_process w) + tally own_resume b - tally own_resume (pr_resuming (aw_process w))"
  "executions (aw_process (set_finalizing c w)) = executions (aw_process w)"
  "executions (aw_process (set_delivering d w)) = executions (aw_process w)"
  "executions (aw_process (set_accepting e w)) = executions (aw_process w)"
  by (simp_all add: executions_def)

lemma accepting_kept [simp]:
  "pr_accepting (aw_process (count_active n w)) = pr_accepting (aw_process w)" "pr_accepting (aw_process (set_running a w)) = pr_accepting (aw_process w)"
  "pr_accepting (aw_process (set_resuming b w)) = pr_accepting (aw_process w)" "pr_accepting (aw_process (set_finalizing c w)) = pr_accepting (aw_process w)"
  "pr_accepting (aw_process (set_delivering d w)) = pr_accepting (aw_process w)" "pr_accepting (aw_process (set_accepting e w)) = e"
  by (simp_all add: count_active_def set_running_def set_resuming_def set_finalizing_def set_delivering_def set_accepting_def)

lemma save_tables [simp]: "ask_tables_ok w \<Longrightarrow> ask_tables_ok (save_row r w)"
  by (simp add: ask_tables_ok_def save_row_def ask_save_def)

lemma tables_simps [simp]:
  "ask_tables_ok (count_active n w) = ask_tables_ok w"
  "ask_tables_ok w \<Longrightarrow> ask_tables_ok (set_running a w) = map_ok a" "ask_tables_ok w \<Longrightarrow> ask_tables_ok (set_resuming b w) = map_ok b"
  "ask_tables_ok w \<Longrightarrow> ask_tables_ok (set_finalizing c w) = map_ok c" "ask_tables_ok w \<Longrightarrow> ask_tables_ok (set_delivering d w) = map_ok d"
  "ask_tables_ok w \<Longrightarrow> ask_tables_ok (set_accepting e w) = map_ok e"
  by (simp_all add: ask_tables_ok_def)

lemma tables_parts:
  assumes "ask_tables_ok w"
  shows "map_ok (ak_rows (aw_store w))" "map_ok (pr_accepting (aw_process w))" "map_ok (pr_finalizing (aw_process w))"
    "map_ok (pr_delivering (aw_process w))" "map_ok (pr_running (aw_process w))" "map_ok (pr_resuming (aw_process w))"
  using assms by (simp_all add: ask_tables_ok_def)

lemma counted_save [simp]: "counted h w \<Longrightarrow> counted h (save_row r w)"
  by (simp add: counted_def)

lemmas tallies = tally_put tally_del

section \<open>Every piece keeps the count\<close>

lemma counted_finalize: "counted h w \<Longrightarrow> counted h (finalize_ask now k w)"
  using tables_parts[of w] by (auto simp: finalize_ask_def counted_def tallies split: option.split)

lemma counted_finalize_answered: "counted h w \<Longrightarrow> counted h (fst (finalize_answered k ok w))"
  using tables_parts[of w] by (auto simp: finalize_answered_def counted_def tallies split: option.split)

lemma counted_deliver: "counted h w \<Longrightarrow> counted h (deliver_ask g now k w)"
  using tables_parts[of w] by (auto simp: deliver_ask_def counted_def tallies split: option.split)

lemma counted_end_deliver: "counted h w \<Longrightarrow> map_of (pr_delivering (aw_process w)) k = Some p \<Longrightarrow> counted h (end_deliver k w)"
  using tables_parts[of w] by (simp add: end_deliver_def counted_def tallies)

lemma counted_deliver_accounted: "counted h w \<Longrightarrow> counted h (fst (deliver_accounted k ok w))"
  using tables_parts[of w] counted_end_deliver[of h w k]
  by (auto simp: deliver_accounted_def split: option.split deliver_wait.split) (auto simp: counted_def tallies)

lemma counted_deliver_answered: "counted h w \<Longrightarrow> counted h (deliver_answered k accepted w)"
  using counted_end_deliver[of h w k] counted_end_deliver[of h "save_row r w" k for r]
  by (auto simp: deliver_answered_def split: option.split deliver_wait.split)

lemma counted_waits: "counted h w \<Longrightarrow> map_of (pr_running (aw_process w)) k = Some p \<Longrightarrow> counted h (run_waits k r x w)"
  using tables_parts[of w] by (simp add: run_waits_def counted_def tallies)

lemma counted_end_run: "counted h w \<Longrightarrow> map_of (pr_running (aw_process w)) k = Some p \<Longrightarrow> counted h (end_run k w)"
  using tables_parts[of w] by (simp add: end_run_def counted_def tallies)

lemma counted_started: "counted h w \<Longrightarrow> counted h (fst (executor_started k w))"
  using counted_waits[of h "save_row c w" k for c]
  by (auto simp: executor_started_def run_waits_def split: option.split run_wait.split)

lemma running_kept [simp]: "pr_running (aw_process (deliver_ask h now j w)) = pr_running (aw_process w)" "pr_running (aw_process (finalize_ask now j w)) = pr_running (aw_process w)"
  unfolding deliver_ask_def finalize_ask_def by (simp_all split: option.split)

lemma counted_answered: "counted h w \<Longrightarrow> counted h (fst (executor_answered g now k answer w))"
  using counted_waits[where k = k] counted_end_run[where k = k] counted_deliver counted_finalize
  by (auto simp: executor_answered_def split: option.split execution_answer.split)

lemma counted_run_finalized: "counted h w \<Longrightarrow> counted h (run_finalized g now k w)"
  using counted_waits[where k = k] counted_deliver by (auto simp: run_finalized_def split: option.split run_wait.split)

lemma counted_run_delivered: "counted h w \<Longrightarrow> counted h (run_delivered k w)"
  using counted_end_run[where k = k] by (auto simp: run_delivered_def split: option.split run_wait.split)

lemma executions_active: "counted h w \<Longrightarrow> executions (aw_process w) + tally admission_wait (pr_accepting (aw_process w)) \<le> pr_active (aw_process w)"
  using tally_nonneg[of "\<lambda>_. True" "pr_finalizing (aw_process w)"] tally_nonneg[of "\<lambda>_. True" "pr_delivering (aw_process w)"]
  by (simp add: counted_def excess_def operations_def)

lemma executions_fit: "counted h w \<Longrightarrow> executions (aw_process w) \<le> pr_active (aw_process w)"
  using executions_active[of h w] tally_nonneg[of admission_wait "pr_accepting (aw_process w)"] by linarith

lemma counted_resume_ask: "counted h w \<Longrightarrow> counted h (resume_ask h now r w)"
  using tables_parts[of w] executions_fit[of h w]
  by (auto simp: resume_ask_def Let_def counted_def tallies own_resume_def)

lemma counted_drain: "counted h w \<Longrightarrow> counted h (drain_asks h now w)"
proof -
  have "counted h (fold (drain_one h now) rs w)" if "counted h w" for rs w
    using that by (induction rs arbitrary: w) (simp_all add: drain_one_def counted_resume_ask counted_finalize)
  then show "counted h w \<Longrightarrow> counted h (drain_asks h now w)" by (simp add: drain_asks_def)
qed

lemma counted_end_resume: "counted h w \<Longrightarrow> map_of (pr_resuming (aw_process w)) k = Some (r, x) \<Longrightarrow> x \<noteq> Resume_running \<Longrightarrow> counted h (end_resume k w)"
  using tables_parts[of w] by (simp add: end_resume_def counted_def tallies own_resume_def)

lemma counted_resume_waits: "counted h w \<Longrightarrow> map_of (pr_resuming (aw_process w)) k = Some (r, x) \<Longrightarrow> x \<noteq> Resume_running \<Longrightarrow> y \<noteq> Resume_running
    \<Longrightarrow> counted h (set_resuming (map_put k (r', y) (pr_resuming (aw_process w))) w)"
  using tables_parts[of w] by (simp add: counted_def tallies own_resume_def)

lemma counted_resume_answered:
  assumes J: "asks_ok w" and C: "counted h w" shows "counted h (fst (resume_answered g now k answer w))"
proof (cases "\<exists>r. map_of (pr_resuming (aw_process w)) k = Some (r, Resume_admission)")
  case False
  then have "resume_answered g now k answer w = (w, [])" unfolding resume_answered_def by (auto split: option.split prod.split resume_wait.split)
  then show ?thesis using C by simp
next
  case True
  then obtain r where r: "map_of (pr_resuming (aw_process w)) k = Some (r, Resume_admission)" by blast
  have f: "rw_id r = k" "map_of (pr_running (aw_process w)) k = None" using ask_at[OF J, of k] r by (auto simp: ask_ok_def resuming_ok_def)
  have ends: "counted h (end_resume k (save_row c w))" for c using C r by (intro counted_end_resume[of h "save_row c w" k r Resume_admission]) simp_all
  define w1 where "w1 = set_running (map_put k (r, Run_executor) (pr_running (aw_process w))) (save_row (queued_reason ''global-agent-capacity'' r) w)"
  have ex: "execute_ask r w = (w1, [Executor_called k])" using f by (simp add: execute_ask_def Let_def is_waiting_def w1_def)
  have launched: "counted h (set_resuming (map_put k (r, Resume_running) (pr_resuming (aw_process w1))) w1)"
    using C r f(2) tables_parts[of w] by (simp add: w1_def counted_def tallies own_resume_def)
  have denied: "counted h (set_resuming (map_put k (r, Resume_delivering) (pr_resuming (aw_process (save_row c w)))) (save_row c w))" for c
    using C r by (intro counted_resume_waits[of h "save_row c w" k r Resume_admission]) simp_all
  show ?thesis
    unfolding resume_answered_def r option.case prod.case resume_wait.case ex Let_def
    using ends launched counted_deliver[OF denied] by (simp add: resume_waits_commute split: resume_answer.split)
qed

lemma counted_resume_ended: "counted h w \<Longrightarrow> counted h (resume_ended k w)"
  using counted_end_resume[of h w k] tables_parts[of w]
  by (auto simp: resume_ended_def split: option.split resume_wait.split) (auto simp: counted_def tallies own_resume_def)

lemma counted_post: "counted h w \<Longrightarrow> counted h (fst (post_ask k request asynchronous w))"
  using tables_parts[of w] by (auto simp: post_ask_def counted_def tallies admission_wait_def split: option.split)

lemma counted_replied: "counted h w \<Longrightarrow> counted h (post_replied k w)"
  using tables_parts[of w] by (auto simp: post_replied_def counted_def tallies end_accept_def admission_wait_def split: option.split accept_wait.split)

lemma counted_store: "counted h w \<Longrightarrow> map_ok (ak_rows s) \<Longrightarrow> counted h (w\<lparr>aw_store := s\<rparr>)"
  by (simp add: counted_def ask_tables_ok_def)

lemma counted_end_accept:
  assumes C: "counted h w" and m: "map_of (pr_accepting (aw_process w)) k = Some (Accept_admission request asynchronous)"
  shows "counted h (end_accept k (count_active (-1) w))"
  using C m tables_parts[of w] by (simp add: counted_def tallies end_accept_def admission_wait_def)

lemma counted_post_admitted:
  assumes J: "asks_ok w" and C: "counted h w" shows "counted h (fst (post_admitted h now k answer w))"
proof (cases "\<exists>request asynchronous. map_of (pr_accepting (aw_process w)) k = Some (Accept_admission request asynchronous)")
  case False
  then have "post_admitted h now k answer w = (w, [])" unfolding post_admitted_def by (auto split: option.split accept_wait.split)
  then show ?thesis using C by simp
next
  case True
  then obtain request asynchronous where m: "map_of (pr_accepting (aw_process w)) k = Some (Accept_admission request asynchronous)" by blast
  have refused: "counted h (fst (post_admitted h now k answer w))" if "answer = None \<or> (\<exists>a. answer = Some a \<and> accept_ask (new_ask (ah_hash h) now k request a asynchronous) (aw_store w) = None)"
    using counted_end_accept[OF C m] that by (auto simp: post_admitted_def m Let_def)
  show ?thesis
  proof (cases "answer = None \<or> (\<exists>a. answer = Some a \<and> accept_ask (new_ask (ah_hash h) now k request a asynchronous) (aw_store w) = None)")
    case True
    then show ?thesis by (rule refused)
  next
    case False
    then obtain a where a: "answer = Some a" "accept_ask (new_ask (ah_hash h) now k request a asynchronous) (aw_store w) \<noteq> None" by (cases answer) auto
    define r where "r = new_ask (ah_hash h) now k request a asynchronous"
    obtain s where s: "accept_ask r (aw_store w) = Some s" using a(2) by (auto simp: r_def)
    have id: "rw_id r = k" by (simp add: r_def)
    have "row_in w k = None" using accepted_row(1)[OF s] id by simp
    then have none: "map_of (pr_running (aw_process w)) k = None" using ask_at[OF J, of k] by (auto simp: ask_ok_def running_ok_def state_in_def split: option.splits)
    define w1 where "w1 = w\<lparr>aw_store := s\<rparr>"
    have p1: "aw_process w1 = aw_process w" by (simp add: w1_def)
    have "map_ok (ak_rows s)" using s C by (auto simp: accept_ask_def counted_def ask_tables_ok_def split: if_splits)
    then have C1: "counted h w1" unfolding w1_def by (rule counted_store[OF C])
    have T1: "ask_tables_ok w1" using C1 by (simp add: counted_def)
    define w2 where "w2 = set_running (map_put k (r, Run_executor) (pr_running (aw_process w1))) (save_row (queued_reason ''global-agent-capacity'' r) w1)"
    have ex: "execute_ask r w1 = (w2, [Executor_called k])" using id none p1 by (simp add: execute_ask_def Let_def is_waiting_def w2_def)
    have "tally admission_wait (map_del k (pr_accepting (aw_process w))) = tally admission_wait (pr_accepting (aw_process w)) - 1"
      using tables_parts(2)[of w] C m by (simp add: tally_del counted_def admission_wait_def)
    then have "1 \<le> tally admission_wait (pr_accepting (aw_process w))"
      using tally_nonneg[of admission_wait "map_del k (pr_accepting (aw_process w))"] by linarith
    then have room: "executions (aw_process w) + 1 \<le> int (ah_max h)" if "pr_active (aw_process w) \<le> int (ah_max h)"
      using executions_active[OF C] that by simp
    have launched: "counted h (end_accept k w2)" "counted h (set_accepting (map_put k Accept_reply (pr_accepting (aw_process w2))) w2)"
      if "pr_active (aw_process w) \<le> int (ah_max h)"
      using C1 room[OF that] m none p1 tables_parts[OF T1] by (simp_all add: end_accept_def w2_def counted_def tallies admission_wait_def)
    have at: "post_admitted h now k answer w = (if pr_paused (aw_process w1) then (end_accept k (count_active (-1) (save_row (queued_reason ''executor-handoff'' r) w1)), [])
        else if pr_active (aw_process w1) > int (ah_max h) then (end_accept k (count_active (-1) w1), [])
        else (let (w2, evs) = execute_ask r w1 in (if asynchronous then end_accept k w2 else set_accepting (map_put k Accept_reply (pr_accepting (aw_process w2))) w2, evs)))"
      unfolding post_admitted_def m option.case accept_wait.case a(1) Let_def r_def[symmetric] s w1_def ..
    have "counted h (end_accept k (count_active (-1) (save_row c w1)))" "counted h (end_accept k (count_active (-1) w1))" for c
      using counted_end_accept[OF C1] counted_end_accept[OF counted_save[OF C1]] m p1 by simp_all
    then show ?thesis unfolding at ex Let_def prod.case using launched p1 by (simp add: not_less)
  qed
qed

lemma counted_handoff: "counted h w \<Longrightarrow> counted h (set_handoff t w)" "counted h w \<Longrightarrow> counted h (stop_dispatch w)"
  by (simp_all add: counted_def ask_tables_ok_def excess_def operations_def executions_def set_handoff_def stop_dispatch_def)

lemma counted_restart: "counted h w \<Longrightarrow> counted h (start_process (aw_store w))"
  by (simp add: counted_def ask_tables_ok_def start_process_def no_operations_def excess_def operations_def executions_def open_asks_def map_ok_def case_prod_beta comp_def)

lemma counted_look: "counted h w \<Longrightarrow> counted h (fst (look_ask k w))"
  by (auto simp: look_ask_def fenceNotAccepted_def counted_def ask_tables_ok_def split: option.split)

theorem ask_apply_counted: "asks_ok w \<Longrightarrow> counted h w \<Longrightarrow> counted h (fst (ask_apply h step w))"
  by (cases step) (simp_all add: ask_apply_def counted_post counted_post_admitted counted_replied counted_look look_authorized_def counted_finalize counted_finalize_answered
    counted_deliver counted_deliver_accounted counted_deliver_answered counted_started counted_answered counted_run_finalized counted_run_delivered counted_drain
    counted_resume_answered counted_resume_ended begin_handoff_def end_handoff_def counted_handoff counted_restart)

end
