(* ===== verification/Root_Requests_Once.thy ===== *)
theory Root_Requests_Once
  imports Root_Requests_Count
begin

text \<open>
  What holds of every run of the request service from an empty database: at most one execution of a request, one accounted
  reply, no execution of a request that was declared not accepted, and bounded execution that a handoff stops.
\<close>

section \<open>Dispatch and handoff\<close>

definition gate :: "ask_world \<Rightarrow> bool" where
  "gate w = (ak_target (aw_store w) \<noteq> None \<longrightarrow> pr_paused (aw_process w))"

definition gate_same :: "ask_world \<Rightarrow> ask_world \<Rightarrow> bool" where
  "gate_same w w' = (ak_target (aw_store w') = ak_target (aw_store w) \<and> pr_paused (aw_process w') = pr_paused (aw_process w))"

lemma gate_same_refl [simp]: "gate_same w w" by (simp add: gate_same_def)

lemma gate_same_trans: "gate_same w w1 \<Longrightarrow> gate_same w1 w2 \<Longrightarrow> gate_same w w2"
  by (simp add: gate_same_def)

lemma gate_changes [simp]:
  "gate_same v (save_row r w) = gate_same v w" "gate_same v (count_active n w) = gate_same v w" "gate_same v (set_running a w) = gate_same v w"
  "gate_same v (set_resuming b w) = gate_same v w" "gate_same v (set_finalizing c w) = gate_same v w" "gate_same v (set_delivering d w) = gate_same v w"
  "gate_same v (set_accepting e w) = gate_same v w"
  by (simp_all add: gate_same_def save_row_def ask_save_def count_active_def set_running_def set_resuming_def set_finalizing_def set_delivering_def set_accepting_def)

lemma gate_pieces [simp]:
  "gate_same v (finalize_ask now k w) = gate_same v w" "gate_same v (deliver_ask h now k w) = gate_same v w"
  "gate_same v (end_deliver k w) = gate_same v w" "gate_same v (run_waits k r x w) = gate_same v w" "gate_same v (end_run k w) = gate_same v w"
  "gate_same v (end_resume k w) = gate_same v w" "gate_same v (end_accept k w) = gate_same v w" "gate_same v (resume_ask h now r w) = gate_same v w"
  "gate_same v (fst (execute_ask r w)) = gate_same v w"
  by (auto simp: finalize_ask_def deliver_ask_def end_deliver_def run_waits_def end_run_def end_resume_def end_accept_def resume_ask_def execute_ask_def Let_def
    split: option.split)

lemma gate_drain: "gate_same w (drain_asks h now w)"
proof -
  have "gate_same v (fold (drain_one h now) rs w)" if "gate_same v w" for rs v w
    using that by (induction rs arbitrary: w) (simp_all add: drain_one_def)
  then show ?thesis by (simp add: drain_asks_def)
qed

lemma gate_resume_answered: "gate_same w (fst (resume_answered h now k answer w))"
proof -
  have "gate_same w w'" if "execute_ask r w = (w', es)" for r w' es
    using gate_pieces(9)[of w r w] that by simp
  then show ?thesis by (auto simp: resume_answered_def Let_def split: option.split resume_wait.split resume_answer.split prod.split)
qed

lemma gate_post_admitted: "gate_same w (fst (post_admitted h now k answer w))"
proof -
  have s: "gate_same w (w\<lparr>aw_store := s\<rparr>)" if "accept_ask r (aw_store w) = Some s" for r s
    using that by (auto simp: accept_ask_def gate_same_def split: if_splits)
  have "gate_same w w'" if "accept_ask r (aw_store w) = Some s" "execute_ask q (w\<lparr>aw_store := s\<rparr>) = (w', es)" for r s q w' es
    using gate_pieces(9)[of w q "w\<lparr>aw_store := s\<rparr>"] that s[OF that(1)] by simp
  then show ?thesis using s by (auto simp: post_admitted_def Let_def split: option.split accept_wait.split prod.split)
qed

lemma gate_look: "gate_same w (fst (look_ask k w))"
  by (simp add: look_ask_def fenceNotAccepted_def gate_same_def split: option.split)

lemma ask_apply_gate:
  assumes "gate w" shows "gate (fst (ask_apply h step w))"
proof -
  have go: "gate w'" if "gate_same w w'" for w' using that assms by (simp add: gate_def gate_same_def)
  have done_: "gate_same w (fst (ask_apply h step w))" if "\<forall>a b. step \<noteq> Begin_handoff a b" "\<forall>a. step \<noteq> End_handoff a" "step \<noteq> Stop_dispatch" "step \<noteq> Restart_process"
    using that gate_drain gate_resume_answered gate_post_admitted gate_look
    by (cases step) (auto simp: ask_apply_def post_ask_def post_replied_def look_authorized_def finalize_answered_def deliver_accounted_def deliver_answered_def
      executor_started_def executor_answered_def run_finalized_def run_delivered_def resume_ended_def
      split: option.split accept_wait.split deliver_wait.split run_wait.split resume_wait.split execution_answer.split)
  have turn: "gate (set_handoff t w)" for t by (simp add: gate_def set_handoff_def)
  show ?thesis
  proof (cases step)
    case (Begin_handoff a b)
    then show ?thesis using assms turn by (simp add: ask_apply_def begin_handoff_def)
  next
    case (End_handoff a)
    then show ?thesis using assms turn by (simp add: ask_apply_def end_handoff_def)
  next
    case Stop_dispatch
    then show ?thesis by (simp add: ask_apply_def stop_dispatch_def gate_def)
  next
    case Restart_process
    then show ?thesis by (simp add: ask_apply_def start_process_def no_operations_def open_asks_def gate_def)
  qed (use go done_ in auto)
qed

section \<open>Every step\<close>

definition service_ok :: "ask_host \<Rightarrow> ask_world \<Rightarrow> bool" where
  "service_ok h w = (asks_ok w \<and> counted h w \<and> gate w)"

lemma ask_apply_step:
  assumes "service_ok h w" shows "ask_step_ok w (ask_apply h step w)"
proof -
  have J: "asks_ok w" and R: "map_ok (ak_rows (aw_store w))" using assms tables_parts(1) by (simp_all add: service_ok_def counted_def)
  note steps = J post_ask_step post_admitted_step post_replied_step look_step look_authorized_step show_step finalize_answered_step deliver_step deliver_accounted_step
    deliver_answered_step executor_started_step executor_answered_step run_finalized_step run_delivered_step resume_answered_step resume_ended_step
    begin_handoff_step end_handoff_step stop_step restart_step drain_step[OF J R]
  show ?thesis by (cases step) (simp_all add: ask_apply_def steps)
qed

lemma service_ok_step:
  assumes "service_ok h w" shows "service_ok h (fst (ask_apply h step w))"
  using ask_apply_step[OF assms, of step] ask_apply_counted[of w h step] ask_apply_gate[of w h step] assms by (simp add: service_ok_def ask_step_ok_def)

text \<open>What the past of a run says of its requests.\<close>

definition said_ok :: "ask_world \<Rightarrow> ask_event \<Rightarrow> bool" where
  "said_ok w e = (case e of
     Executor_called k \<Rightarrow> state_in w k \<noteq> None
   | Executor_started k \<Rightarrow> known (\<lambda>x. \<not> is_queued x) (state_in w k)
   | Executor_replied k reply \<Rightarrow> True
   | Reply_accounted k t \<Rightarrow> True
   | Reply_sent k t \<Rightarrow> known (\<lambda>x. ended_state x \<and> t = outward_text k x) (state_in w k)
   | Reply_shown k t \<Rightarrow> known (\<lambda>x. \<exists>subjects. x = Ask_completed t subjects) (state_in w k)
   | Told_unaccepted k \<Rightarrow> fenced_in w k)"

definition past_ok :: "ask_world \<Rightarrow> ask_event list \<Rightarrow> bool" where
  "past_ok w past = (list_all (said_ok w) past
     \<and> (\<forall>k t. Reply_sent k t \<in> set past \<longrightarrow> Reply_accounted k t \<in> set past)
     \<and> (\<forall>k reply. reply_in (state_in w k) = Some reply \<longrightarrow> Executor_replied k reply \<in> set past)
     \<and> (\<forall>k reply. completed_in (state_in w k) = Some reply \<longrightarrow> Reply_accounted k reply \<in> set past))"

lemma follows_ended: "ended_state x \<Longrightarrow> follows x y \<Longrightarrow> x = y"
  by (auto simp: follows_def ended_state_def is_queued_def split: ask_state.splits)

lemma follows_left: "\<not> is_queued x \<Longrightarrow> follows x y \<Longrightarrow> \<not> is_queued y"
  by (auto simp: follows_def is_queued_def)

lemma known_goes:
  assumes "known P st" "goes_on st st'" "\<And>x y. P x \<Longrightarrow> follows x y \<Longrightarrow> P y" shows "known P st'"
  using assms by (auto simp: goes_on_def known_ex)

lemma said_kept:
  assumes e: "said_ok w e" and a: "\<forall>k. ask_advances w w' es k" shows "said_ok w' e"
proof -
  have g: "goes_on (state_in w k) (state_in w' k)" "fenced_in w k \<Longrightarrow> fenced_in w' k" for k using a by (simp_all add: ask_advances_def)
  have stay: "known (\<lambda>x. ended_state x \<and> Q x) (state_in w' k)" if "known (\<lambda>x. ended_state x \<and> Q x) (state_in w k)" for Q k
    by (rule known_goes[OF that g(1)]) (use follows_ended in blast)
  show ?thesis
  proof (cases e)
    case (Executor_called k)
    then show ?thesis using e g(1)[of k] known_ex by (auto simp: said_ok_def goes_on_def)
  next
    case (Executor_started k)
    then show ?thesis using e known_goes[OF _ g(1)[of k], of "\<lambda>x. \<not> is_queued x"] follows_left by (simp add: said_ok_def)
  next
    case (Reply_sent k t)
    then show ?thesis using e stay[of "\<lambda>x. t = outward_text k x" k] by (simp add: said_ok_def)
  next
    case (Reply_shown k t)
    have same: "(ended_state x \<and> (\<exists>subjects. x = Ask_completed t subjects)) = (\<exists>subjects. x = Ask_completed t subjects)" for x
      by (auto simp: ended_state_def)
    show ?thesis using e stay[of "\<lambda>x. \<exists>subjects. x = Ask_completed t subjects" k] unfolding same Reply_shown by (simp add: said_ok_def)
  qed (use e g in \<open>simp_all add: said_ok_def\<close>)
qed

lemma event_said: "event_ok w w' es e \<Longrightarrow> said_ok w' e"
  by (cases e) (auto simp: event_ok_def said_ok_def known_ex)

lemma past_step:
  assumes P: "past_ok w past" and s: "ask_step_ok w (w', es)" shows "past_ok w' (past @ es)"
proof -
  have a: "\<forall>k. ask_advances w w' es k" and e: "list_all (event_ok w w' es) es" using s by (simp_all add: ask_step_ok_def)
  have "list_all (said_ok w') past" using P said_kept[OF _ a] by (auto simp: past_ok_def list_all_iff)
  moreover have "list_all (said_ok w') es" using e event_said by (auto simp: list_all_iff)
  moreover have "Reply_accounted k t \<in> set es" if "Reply_sent k t \<in> set es" for k t
    using e that by (auto simp: list_all_iff event_ok_def)
  moreover have "Executor_replied k reply \<in> set (past @ es)" if "reply_in (state_in w' k) = Some reply" for k reply
    using a P that unfolding ask_advances_def past_ok_def set_append Un_iff by metis
  moreover have "Reply_accounted k reply \<in> set (past @ es)" if "completed_in (state_in w' k) = Some reply" for k reply
    using a P that unfolding ask_advances_def past_ok_def set_append Un_iff by metis
  ultimately show ?thesis using P by (auto simp: past_ok_def)
qed

text \<open>What every step keeps of the log holds of every run.\<close>

lemma ask_run_keeps:
  assumes "service_ok h w" "past_ok w past" "Q past" "ask_run h steps w = (w', es)"
    and step: "\<And>w past step. service_ok h w \<Longrightarrow> past_ok w past \<Longrightarrow> Q past \<Longrightarrow> Q (past @ snd (ask_apply h step w))"
  shows "service_ok h w' \<and> past_ok w' (past @ es) \<and> Q (past @ es)"
  using assms(1-4)
proof (induction steps arbitrary: w past es)
  case Nil
  then show ?case by simp
next
  case (Cons one steps)
  obtain w1 e1 where s: "ask_apply h one w = (w1, e1)" by (cases "ask_apply h one w")
  obtain e2 where r: "ask_run h steps w1 = (w', e2)" and es: "es = e1 @ e2"
    using Cons.prems(4) s by (cases "ask_run h steps w1") simp
  have ok: "service_ok h w1" using service_ok_step[OF Cons.prems(1), of one] s by simp
  have p: "past_ok w1 (past @ e1)" using past_step[OF Cons.prems(2)] ask_apply_step[OF Cons.prems(1), of one] s by simp
  have q: "Q (past @ e1)" using step[OF Cons.prems(1-3), of one] s by simp
  show ?case unfolding es using Cons.IH[OF ok p q r] by simp
qed

lemma ask_run_past:
  assumes "service_ok h w" "past_ok w past" "ask_run h steps w = (w', es)"
  shows "service_ok h w' \<and> past_ok w' (past @ es)"
  using ask_run_keeps[OF assms(1,2) _ assms(3), of "\<lambda>_. True"] by simp

definition no_asks :: ask_store where
  "no_asks = \<lparr>ak_rows = [], ak_fenced = [], ak_target = None\<rparr>"

lemma service_begins: "service_ok h (start_process no_asks)" "past_ok (start_process no_asks) []"
proof -
  have row: "row_in (start_process no_asks) k = None" for k by (simp add: start_process_def row_in_def no_asks_def open_asks_def ask_row_of_def)
  have "ask_ok (start_process no_asks) k" for k
    by (simp add: ask_ok_def row state_in_def parts_ok) (simp add: start_process_def no_operations_def)
  then have "asks_ok (start_process no_asks)" by (simp add: asks_ok_def)
  moreover have "counted h (start_process no_asks)" "gate (start_process no_asks)"
    by (simp_all add: counted_def ask_tables_ok_def start_process_def no_operations_def no_asks_def open_asks_def excess_def operations_def executions_def gate_def)
  ultimately show "service_ok h (start_process no_asks)" by (simp add: service_ok_def)
  show "past_ok (start_process no_asks) []" by (simp add: past_ok_def row state_in_def reply_in_def completed_in_def)
qed

lemmas run_from_start = ask_run_past[OF service_begins, unfolded append_Nil]

text \<open>An execution that has begun leaves no further one.\<close>

lemma started_stays:
  assumes "service_ok h w" "past_ok w past" "ask_run h steps w = (w', es)" "Executor_started k \<in> set past"
  shows "Executor_started k \<notin> set es \<and> Executor_called k \<notin> set es"
proof -
  define Q where "Q log = (\<exists>es. log = past @ es \<and> Executor_started k \<notin> set es \<and> Executor_called k \<notin> set es)" for log
  have "Q (past @ es)"
  proof (rule ask_run_keeps[OF assms(1,2) _ assms(3), THEN conjunct2, THEN conjunct2])
    fix v log step
    assume v: "service_ok h v" "past_ok v log" "Q log"
    then have "Executor_started k \<in> set log" using assms(4) by (auto simp: Q_def)
    then have left: "known (\<lambda>x. \<not> is_queued x) (state_in v k)" using v(2) by (auto simp: past_ok_def list_all_iff said_ok_def)
    have "event_ok v (fst (ask_apply h step v)) (snd (ask_apply h step v)) e" if "e \<in> set (snd (ask_apply h step v))" for e
      using ask_apply_step[OF v(1), of step] that by (simp add: ask_step_ok_def list_all_iff)
    then have "Executor_started k \<notin> set (snd (ask_apply h step v)) \<and> Executor_called k \<notin> set (snd (ask_apply h step v))"
      using left by (fastforce simp: event_ok_def known_ex)
    then show "Q (log @ snd (ask_apply h step v))" using v(3) by (auto simp: Q_def)
  qed (simp add: Q_def)
  then show ?thesis by (auto simp: Q_def)
qed

section \<open>Accounting comes first\<close>

definition tells :: "ask_event \<Rightarrow> (string \<times> string) option" where
  "tells e = (case e of Reply_sent k t \<Rightarrow> Some (k, t) | Reply_shown k t \<Rightarrow> Some (k, t) | _ \<Rightarrow> None)"

fun accounted_first :: "ask_event list \<Rightarrow> ask_event list \<Rightarrow> bool" where
  "accounted_first past [] = True"
| "accounted_first past (e # es) = ((case tells e of None \<Rightarrow> True | Some (k, t) \<Rightarrow> Reply_accounted k t \<in> set past) \<and> accounted_first (past @ [e]) es)"

lemma accounted_first_append: "accounted_first past (xs @ ys) = (accounted_first past xs \<and> accounted_first (past @ xs) ys)"
  by (induction xs arbitrary: past) (auto split: option.split)

lemma accounted_first_silent: "list_all (\<lambda>e. tells e = None) es \<Longrightarrow> accounted_first past es"
  by (induction es arbitrary: past) simp_all

lemma execute_silent: "execute_ask r w = (w', es) \<Longrightarrow> list_all (\<lambda>e. tells e = None) es"
  by (auto simp: execute_ask_def Let_def tells_def split: if_splits)

lemma silent_steps:
  assumes "\<forall>k ok. step \<noteq> Deliver_accounted k ok" "\<forall>k. step \<noteq> Show_ask k"
  shows "list_all (\<lambda>e. tells e = None) (snd (ask_apply h step w))"
proof (cases step)
  case (Post_admitted k answer now)
  then show ?thesis using execute_silent by (auto simp: ask_apply_def post_admitted_def Let_def split: option.split accept_wait.split prod.split)
next
  case (Resume_answered k answer now)
  then show ?thesis using execute_silent by (auto simp: ask_apply_def resume_answered_def Let_def split: option.split resume_wait.split resume_answer.split prod.split)
next
  case (Executor_answers k answer now)
  then show ?thesis by (auto simp: ask_apply_def executor_answered_def tells_def split: option.split execution_answer.split)
qed (use assms in \<open>auto simp: ask_apply_def post_ask_def look_ask_def finalize_answered_def executor_started_def tells_def split: option.split run_wait.split\<close>)

lemma accounted_step:
  assumes P: "past_ok w past" shows "accounted_first past (snd (ask_apply h step w))"
proof (cases step)
  case (Deliver_accounted k ok)
  then show ?thesis by (auto simp: ask_apply_def deliver_accounted_def tells_def split: option.split deliver_wait.split)
next
  case (Show_ask k)
  have "Reply_accounted k t \<in> set past" if "row_in w k = Some r" "rw_state r = Ask_completed t subjects" for r t subjects
    using P that by (simp add: past_ok_def state_in_def completed_in_def)
  then show ?thesis using Show_ask by (auto simp: ask_apply_def show_ask_def ask_status_def tells_def split: option.split ask_state.split)
qed (rule accounted_first_silent, rule silent_steps, simp, simp)+

lemma accounted_run:
  assumes "ask_run h steps (start_process no_asks) = (w, es)" shows "accounted_first [] es"
  using ask_run_keeps[OF service_begins _ assms, of "accounted_first []"] accounted_step by (simp add: accounted_first_append)

text \<open>What the asking thread is told of a request is fixed by the state its row ended in.\<close>

lemma told_text:
  assumes "said_ok w e" "tells e = Some (k, t)"
  shows "\<exists>x. state_in w k = Some x \<and> ended_state x \<and> t = outward_text k x"
  using assms by (cases e) (auto simp: said_ok_def tells_def known_ex ended_state_def outward_text_def)

lemma outward_source:
  assumes "state_in w k = Some x" "past_ok w past"
  shows "Executor_replied k (outward_text k x) \<in> set past \<or> outward_text k x \<in> {kenanRequestNotice k Request_failed, kenanRequestNotice k Request_interrupted}"
  using assms by (cases x) (auto simp: outward_text_def past_ok_def reply_in_def reply_of_def)

section \<open>The properties of a run\<close>

text \<open>C17:
  Root Kenan acts once on a request. However its operations interleave, whatever the memory service, the executor and the
  bridge answer, and wherever the process stops and starts again: an execution that has begun is the only one, now and after
  every restart, since its row no longer is queued. And a caller who was told that a request was not accepted, and may
  safely be sent again, was told the truth: that request is executed neither before nor after.
\<close>

theorem root_request_runs_once:
  assumes "ask_run h before (start_process no_asks) = (w, past)" "ask_run h later w = (w', future)"
  shows "(Executor_started k \<in> set past \<longrightarrow> Executor_started k \<notin> set future \<and> Executor_called k \<notin> set future)
    \<and> (Told_unaccepted k \<in> set (past @ future) \<longrightarrow> Executor_called k \<notin> set (past @ future))"
proof -
  have ok: "service_ok h w" "past_ok w past" using run_from_start[OF assms(1)] by simp_all
  have all: "service_ok h w' \<and> past_ok w' (past @ future)" by (rule ask_run_past[OF ok assms(2)])
  have said: "said_ok w' e" if "e \<in> set (past @ future)" for e using all that by (simp add: past_ok_def list_all_iff del: set_append)
  have "Executor_called k \<notin> set (past @ future)" if "Told_unaccepted k \<in> set (past @ future)"
  proof
    assume "Executor_called k \<in> set (past @ future)"
    then obtain r where "row_in w' k = Some r" using said by (force simp: said_ok_def state_in_def)
    then have "\<not> fenced_in w' k" using row_id all by (auto simp: service_ok_def)
    then show False using said[OF that] by (simp add: said_ok_def)
  qed
  then show ?thesis using started_stays[OF ok assms(2)] by blast
qed

text \<open>C19:
  A request has one reply, and it is accounted for first. Whatever is sent to the asking thread or shown to a caller, by any
  delivery, retry or look and after any restart, is the same text; the memory service has recorded its disclosure before;
  and it is what the executor returned for this request, or the fixed notice that it failed or was interrupted.
\<close>

theorem root_reply_is_one:
  assumes "ask_run h steps (start_process no_asks) = (w, es)" "es = xs @ e # ys" "tells e = Some (k, t)"
  shows "Reply_accounted k t \<in> set xs \<and> (\<forall>other u. other \<in> set es \<and> tells other = Some (k, u) \<longrightarrow> u = t)
    \<and> (Executor_replied k t \<in> set es \<or> t \<in> {kenanRequestNotice k Request_failed, kenanRequestNotice k Request_interrupted})"
proof -
  have ok: "past_ok w es" using run_from_start[OF assms(1)] by simp
  have said: "said_ok w other" if "other \<in> set es" for other using ok that by (simp add: past_ok_def list_all_iff)
  have "accounted_first [] (xs @ e # ys)" using accounted_run[OF assms(1)] assms(2) by simp
  then have first: "Reply_accounted k t \<in> set xs" using assms(3) by (simp add: accounted_first_append)
  obtain x where x: "state_in w k = Some x" "t = outward_text k x" using told_text[OF said assms(3)] assms(2) by auto
  have "u = t" if "other \<in> set es" "tells other = Some (k, u)" for other u
    using told_text[OF said[OF that(1)] that(2)] x by auto
  then show ?thesis using first outward_source[OF x(1) ok] x(2) by blast
qed

text \<open>C39:
  The service never executes more requests at once than it is configured for, counting those it takes up again; the number
  of active operations it reports is exactly the number of operations under way, so that a release does not wait for one
  that has ended; and while a handoff to another release is stored it hands nothing to the executor.
\<close>

theorem root_dispatch_bounded:
  assumes "ask_run h steps (start_process no_asks) = (w, es)"
  shows "executions (aw_process w) \<le> int (ah_max h) \<and> pr_active (aw_process w) = operations (aw_process w)
    \<and> (ak_target (aw_store w) \<noteq> None \<longrightarrow> (\<forall>step k. Executor_called k \<notin> set (snd (ask_apply h step w))))"
proof -
  have ok: "service_ok h w" using run_from_start[OF assms] by simp
  have "Executor_called k \<notin> set (snd (ask_apply h step w))" if "pr_paused (aw_process w)" for step k
    using ask_apply_step[OF ok, of step] that by (auto simp: ask_step_ok_def list_all_iff event_ok_def)
  then show ?thesis using ok by (simp add: service_ok_def counted_def excess_def gate_def)
qed

section \<open>A run\<close>

definition a_host :: ask_host where
  "a_host = \<lparr>ah_hash = (\<lambda>x. x), ah_max = 4, ah_bridge = True\<rparr>"

definition an_admission :: ask_admission where
  "an_admission = \<lparr>ad_root = ''r1'', ad_person = ''ann'', ad_thread = ''t1'', ad_recipients = [''ann'']\<rparr>"

definition a_run :: "ask_step list" where
  "a_run = [Post_ask ''q1'' ''when?'' True, Look_ask ''q2'', Post_admitted ''q1'' (Some an_admission) 5, Executor_starts ''q1'',
     Executor_answers ''q1'' (Execution_reply ''noon'' [''ann'']) 6, Finalize_answered ''q1'' True, Run_finalized ''q1'' 7]"

definition more_steps :: "ask_step list" where
  "more_steps = [Deliver_accounted ''q1'' True, Post_ask ''q2'' ''when?'' True, Restart_process, Drain_asks 9, Show_ask ''q1'', Begin_handoff (replicate 40 CHR ''a'') None]"

lemma a_run_events:
  "snd (ask_run a_host a_run (start_process no_asks)) = [Told_unaccepted ''q2'', Executor_called ''q1'', Executor_started ''q1'', Executor_replied ''q1'' ''noon'', Reply_accounted ''q1'' ''noon'']"
  by code_simp

lemma more_events:
  "snd (ask_run a_host more_steps (fst (ask_run a_host a_run (start_process no_asks))))
     = [Reply_accounted ''q1'' ''noon'', Reply_sent ''q1'' ''noon'', Told_unaccepted ''q2'', Reply_shown ''q1'' ''noon'']"
  by code_simp

definition half_way :: ask_world where
  "half_way = fst (ask_run a_host a_run (start_process no_asks))"

lemma whole_run:
  "snd (ask_run a_host (a_run @ more_steps) (start_process no_asks))
     = [Told_unaccepted ''q2'', Executor_called ''q1'', Executor_started ''q1'', Executor_replied ''q1'' ''noon'', Reply_accounted ''q1'' ''noon'',
        Reply_accounted ''q1'' ''noon'', Reply_sent ''q1'' ''noon''] @ Told_unaccepted ''q2'' # [Reply_shown ''q1'' ''noon'']"
  by code_simp

lemma root_request_runs_once_witness:
  "Executor_started ''q1'' \<in> set (snd (ask_run a_host a_run (start_process no_asks)))
    \<and> Executor_started ''q1'' \<notin> set (snd (ask_run a_host more_steps half_way))
    \<and> Executor_called ''q2'' \<notin> set (snd (ask_run a_host a_run (start_process no_asks)) @ snd (ask_run a_host more_steps half_way))"
proof -
  have r: "ask_run a_host a_run (start_process no_asks) = (half_way, snd (ask_run a_host a_run (start_process no_asks)))" by (simp add: half_way_def)
  note once = root_request_runs_once[OF r surjective_pairing]
  have "Executor_started ''q1'' \<in> set (snd (ask_run a_host a_run (start_process no_asks)))"
    "Told_unaccepted ''q2'' \<in> set (snd (ask_run a_host a_run (start_process no_asks)))" by (simp_all add: a_run_events)
  then show ?thesis using once[where k = "''q1''" and later = more_steps] once[where k = "''q2''" and later = more_steps] by simp
qed

lemma root_reply_is_one_witness:
  "Reply_accounted ''q1'' ''noon'' \<in> set (take 6 (snd (ask_run a_host (a_run @ more_steps) (start_process no_asks))))
    \<and> (Executor_replied ''q1'' ''noon'' \<in> set (snd (ask_run a_host (a_run @ more_steps) (start_process no_asks)))
      \<or> ''noon'' \<in> {kenanRequestNotice ''q1'' Request_failed, kenanRequestNotice ''q1'' Request_interrupted})"
proof -
  have "snd (ask_run a_host (a_run @ more_steps) (start_process no_asks))
      = take 6 (snd (ask_run a_host (a_run @ more_steps) (start_process no_asks))) @ Reply_sent ''q1'' ''noon'' # [Told_unaccepted ''q2'', Reply_shown ''q1'' ''noon'']"
    by (simp add: whole_run)
  from root_reply_is_one[OF surjective_pairing this, where k = "''q1''" and t = "''noon''"] show ?thesis by (simp add: tells_def)
qed

lemma root_dispatch_bounded_witness:
  "ak_target (aw_store (fst (ask_run a_host (a_run @ more_steps) (start_process no_asks)))) = Some (replicate 40 CHR ''a'')
    \<and> Executor_called ''q3'' \<notin> set (snd (ask_apply a_host (Post_admitted ''q3'' (Some an_admission) 12) (fst (ask_run a_host (a_run @ more_steps) (start_process no_asks)))))
    \<and> executions (aw_process half_way) \<le> 4"
proof -
  have t: "ak_target (aw_store (fst (ask_run a_host (a_run @ more_steps) (start_process no_asks)))) = Some (replicate 40 CHR ''a'')" by code_simp
  have "executions (aw_process half_way) \<le> int (ah_max a_host)" unfolding half_way_def using root_dispatch_bounded[OF surjective_pairing] by blast
  then show ?thesis using t root_dispatch_bounded[OF surjective_pairing, where h = a_host and steps = "a_run @ more_steps"] by (simp add: a_host_def)
qed

end
