(* ===== verification/Spec2Isabelle.thy ===== *)
theory Spec2Isabelle
  imports Prelude Resource_Cache Js_Values Json_Text Reconcile_Patch Reconcile Contracts Regex Provider_Errors
    Runtime_Events Execution_Activity Lifecycle Capacity_Interface Capacity_Authority Capacity_Ledger Catalog Thread_Settings Schedule
    State_Validation Json_Parse Narration Message_Format Transcript_Entries Transcript_Model Thread_Status Watch_List Transcript_Store Prompt_Outbox Rooms Person_Settings Message_Delivery Root_Consent Root_Notification Completion_Contract Run_Store Completion Account_Policy
    Life_Contract Life_Store Life_History Life_Safety Action_Store Action_Safety
    Memory_Store Memory_Root Memory_Validation Memory_Service Memory_Invariant Memory_Safety Memory_Examples
    Root_Requests Root_Requests_Safety Root_Requests_Runs Root_Requests_Count Root_Requests_Once
begin

text \<open>
  \<^bold>\<open>pi-stack.\<close> The repository runs persistent agents. An orchestrator (\<open>packages/orchestrator\<close>) owns threads:
  it places them on accounts, counts them against machine and person limits, watches what they do and wakes them.
  A remote application (\<open>apps/remote\<close>) shows the threads of a person in a browser: its server publishes the state
  of the threads, its client keeps a replica of it, the transcript of a conversation and an outbox of prompts.
  Root Kenan (\<open>packages/kenan-root\<close>) is the one agent per machine that may ask a person about somebody else.
  Kenan's memory (\<open>packages/kenan-memory\<close>) keeps what is known of a person.
  The development models the rules these parts decide by, with their state, and leaves out processes, sockets,
  SQL text and drawing.

  \<^bold>\<open>How the parts meet.\<close> The orchestrator's lifecycle and activity of a thread (Lifecycle, Execution_Activity) become
  the status fields the client checks (State_Validation) and draws (Thread_Status); starts and stops of threads pass
  the capacity ledger (Capacity_Ledger), which keeps the contract of Capacity_Interface against the global authority
  (Capacity_Authority). Settings and models of a new thread are resolved by Thread_Settings over Catalog. Messages
  between agents travel in the envelope of Message_Format, are stamped by Message_Delivery, become rows in
  Transcript_Entries and items in Transcript_Model, out of the window that Transcript_Store holds. The replica of the
  client is brought up to date by the patches of Reconcile_Patch under the protocol of Reconcile, whose texts are the
  canonical JSON of Json_Text and Json_Parse.

  \<^bold>\<open>Foundations.\<close>
  \<^item> Prelude: insertion-ordered maps (a JavaScript \<open>Map\<close> is a list of pairs with distinct keys), string helpers and the
    collections \<open>map_simps\<close> and \<open>inv_intros\<close> the other theories share.
  \<^item> Js_Values: JavaScript values as parsed from JSON, with the reading of missing fields. Numbers are whole.
  \<^item> Json_Text, Json_Parse: \<open>JSON.stringify\<close> and \<open>JSON.parse\<close> as a printer and a parser, with the round trip. The parser has as
    much fuel as the text is long, plus two, and each call consumes a character; the round trip shows it is enough.
  \<^item> Regex: regular expressions as a datatype and the positions a match may end at, for the patterns of the sources.
  \<^item> Capacity_Interface: the locale of what a ledger may rely on from a capacity authority.

  \<^bold>\<open>Remote application.\<close>
  \<^item> Resource_Cache (\<open>shared/resource-cache.ts\<close>): a cache bounded by entries and bytes; eviction keeps the longest
    suffix that fits, and the cache agrees with a plain map.
  \<^item> Reconcile_Patch, Reconcile (\<open>shared/reconcile.ts\<close>): a patch made from two values turns the first into the second;
    a publisher's frames lead a replica to the publisher's value, and a replica never holds a value whose revision
    it has not checked. The revision hash is a parameter.
  \<^item> State_Validation (\<open>shared/state-validation.ts\<close>, \<open>explicit-state.ts\<close>, \<open>stream-resources.ts\<close>, \<open>notification-policy.ts\<close>): the
    checks of received state; what the lifecycle rules derive is what the checks accept.
  \<^item> Rooms (\<open>shared/rooms.ts\<close>, \<open>shared/room-sync.ts\<close>): speaker labels read back exactly; a feed does not depend on its chunks.
  \<^item> Transcript_Store, Transcript_Entries, Transcript_Model (\<open>web/src/features/conversation\<close>), Thread_Status
    (\<open>features/status\<close>): the window of loaded heads, rows, drawn items and status of a conversation; nothing is lost
    or drawn twice, and a reading position is kept.
  \<^item> Prompt_Outbox (\<open>web/src/prompt-outbox.ts\<close>): a saved prompt is never rewritten, is settled only after it was posted,
    within the limits of the store. Steps of deliveries interleave with every other operation.

  \<^bold>\<open>Orchestrator.\<close>
  \<^item> Contracts (\<open>threads/contracts.ts\<close>, \<open>wait-contract.ts\<close>, \<open>work-state.ts\<close>): validated waits and work states.
  \<^item> Provider_Errors (\<open>provider-errors.ts\<close>, \<open>threads/runner-capacity.ts\<close>): classes of failures and bounds of retries.
  \<^item> Runtime_Events, Execution_Activity, Lifecycle (\<open>threads/\<close>): the events of a run, the activity they add up to, and the
    lifecycle and controls that follow.
  \<^item> Capacity_Authority, Capacity_Ledger (\<open>agent-capacity-authority.ts\<close>, \<open>threads/capacity-ledger.ts\<close>): leases are in custody until
    their receipt, a release is final, and the ledger holds and settles what it acquired. The ledger's retries are
    a loop with fuel; a theorem gives the fuel that suffices.
  \<^item> Catalog, Thread_Settings (\<open>catalog.ts\<close>, \<open>threads/settings.ts\<close>, \<open>speed.ts\<close>, \<open>modes.ts\<close>, \<open>models.ts\<close>): the model catalog, scopes of
    quotas, and the settings of a thread, which resolve to themselves.
  \<^item> Schedule (\<open>schedule.ts\<close>): recurring work is spawned once per due time.
  \<^item> Narration, Message_Format, Message_Delivery (\<open>threads/\<close>): round trips of narration signatures and message envelopes; a
    delivery stamp stays what it was first.
  \<^item> Watch_List (\<open>threads/watch-list.ts\<close>): an item belongs to at most one wake; requests are answered once; passes of
    the list return. The page loop has fuel, and more fuel than pages changes nothing.
  \<^item> Person_Settings (\<open>person-settings.ts\<close>, \<open>person-settings-contract.ts\<close>, \<open>person-timezone.ts\<close>): writing a setting over files in which
    any operation may fail; a readable projection is never false.

  \<^item> Completion_Contract, Run_Store, Completion (\<open>completion-contract.ts\<close>, \<open>store.ts\<close>, \<open>domain.ts\<close>, \<open>completion.ts\<close>, \<open>completion-feedback.ts\<close>):
    requests to a model with their stored attempts, and the part of the store they and admission use. An attempt is sent
    again only after a stored rejection, an outcome is final, a success lifts only the cooldowns it covers.
  \<^item> Account_Policy (\<open>policy.ts\<close>, \<open>admission-reservation.ts\<close>, \<open>auth/model-entitlement.ts\<close>, \<open>threads/model-availability.ts\<close>): which account
    serves a thread or a completion; a thread gets the first servable model of its list, a completion stays within its grant.

  \<^bold>\<open>Memory.\<close>
  \<^item> Life_Contract, Life_Store (\<open>kenan-memory/src/life-contract.ts\<close>, \<open>life-validation.ts\<close>, \<open>life-policy.ts\<close>, \<open>life-store.ts\<close>): the life
    model of a person, as versioned records of goals, commitments, needs, preferences, policies, coverage and steering.
  \<^item> Life_History, Life_Safety: every record keeps all its versions under consecutive revisions; dependencies form no
    cycle; writes name the revision they change; forgetting a memory retracts what was inferred from it. The passes of
    forgetting have one more fuel than there are entities: a pass that changes something retracts a current one.
  \<^item> Action_Store, Action_Safety (\<open>kenan-memory/src/actions.ts\<close>): the authority over external actions. An action is sent again
    only on proof that it had no effect, a recipient is in the hands of one unresolved action, outcomes rest on evidence
    and success is final; \<open>late_normalisation\<close> shows how a recipient's name can escape its canonical form.
  \<^item> Memory_Store, Memory_Root (\<open>kenan-memory/src/store.ts\<close>): memories, the accounts of what was read and said, sessions, and the admitted
    runs of root Kenan with their consents, notices and replies. Memory_Validation (\<open>validation.ts\<close>), Memory_Service (\<open>service.ts\<close>): a
    request from the check of its fields over the guards of its route to its effect on both stores. A call is one step; its
    clock, new identifiers and the audience of a room at that moment are arguments.
  \<^item> Memory_Invariant, Memory_Safety: a locale carries a property that every operation of the store keeps over every call; it
    is interpreted for the account of a run and for what was forgotten. The recorded reply of a run is about everyone its
    session was told of, a person is shown only what is theirs, what was forgotten never comes back. Memory_Examples
    evaluates runs of the service; \<open>replayed_write_shows\<close> is a write that is answered with a memory about somebody else.

  \<^bold>\<open>Root Kenan.\<close>
  \<^item> Root_Consent, Root_Notification (\<open>consent.ts\<close>): the durable outboxes of consents and notifications. Each operation is the list of its calls
    and saves, operations on different rows interleave, and the process may stop between any two. No reply is sent
    without the subject's answer to the recorded question, an execution on that answer and its commitment; all
    replies of a consent are the same; a notification is sent only after it was accounted for.
  \<^item> Root_Requests (\<open>requests.ts\<close>, \<open>service.ts\<close>): the requests people make of root Kenan. An operation is cut at its waits, a step is one
    piece of it, and what an operation holds while it waits is in the tables of the process; pieces of all operations, handoffs
    and restarts follow one another in any order. Root_Requests_Safety, Root_Requests_Runs: every step keeps an invariant that is local to a
    request. Root_Requests_Count: the reported number of operations is exact. Root_Requests_Once: a request is executed once, its
    reply is one accounted text, and executions are bounded.

  \<^bold>\<open>Conventions.\<close> Records are TypeScript interfaces, \<open>Inl\<close> is an error or a thrown exception, a fresh identifier or the
  current time is an argument, and code outside \<open>src/\<close> (the file system, the database, other services) is an argument whose
  answers the operation reads. Whole numbers stand for JavaScript numbers where the code uses integers.

  \<^bold>\<open>Not modelled.\<close> The thread service, daemon and the rest of the store (process supervision and SQL around the modelled rules),
  provider meters, account transfer, model broker and runtime extensions (third-party protocols and hooks), the HTTP
  server, router and messaging bridges, voice, meetings and telephony, React components, the Android application,
  the tools and clients of Kenan's memory, agent workspaces, deployment and tools, and vendored code. The manifest lists each with
  its reason.
\<close>

end
